(* ===== verification/Prelude.thy ===== *)
theory Prelude
  imports Main "HOL-Library.Word"
begin

text \<open>
  Shared vocabulary of the development: the UEFI status codes, machine integer
  types, a byte-addressed memory with little-endian loads and stores, and the
  two generic interfaces that several components instantiate (byte codecs and
  state machines with an invariant).

  Addresses and sizes (\<open>UINTN\<close>, pointers) are natural numbers: the modelled
  code only adds 32-bit quantities to them, so a 64-bit \<open>UINTN\<close> does not wrap.
  Where the source does rely on a width (\<open>UINT8\<close>, \<open>UINT16\<close>, \<open>UINT32\<close>,
  \<open>UINT64\<close>) the value is a word of that width or is reduced explicitly.
\<close>

named_theorems mem_simps \<open>rewriting of loads over stores\<close>
named_theorems codec_simps \<open>little-endian encoding and decoding\<close>

type_synonym u8 = "8 word"
type_synonym u16 = "16 word"
type_synonym u32 = "32 word"
type_synonym u64 = "64 word"

section \<open>Status codes\<close>

text \<open>
  \<open>EFI_STATUS\<close> (and \<open>RETURN_STATUS\<close>, the same set of codes).  Codes that the
  modelled sources never name are \<open>EFI_OTHER_ERROR\<close>; a warning is a non-zero
  status for which the \<open>EFI_ERROR\<close> macro is false.
\<close>

datatype EFI_STATUS =
    EFI_SUCCESS
  | EFI_WARNING nat
  | EFI_INVALID_PARAMETER
  | EFI_UNSUPPORTED
  | EFI_BAD_BUFFER_SIZE
  | EFI_BUFFER_TOO_SMALL
  | EFI_DEVICE_ERROR
  | EFI_WRITE_PROTECTED
  | EFI_OUT_OF_RESOURCES
  | EFI_NOT_FOUND
  | EFI_ACCESS_DENIED
  | EFI_ALREADY_STARTED
  | EFI_ABORTED
  | EFI_PROTOCOL_ERROR
  | EFI_SECURITY_VIOLATION
  | EFI_TIMEOUT
  | EFI_NOT_READY
  | EFI_NOT_STARTED
  | EFI_OTHER_ERROR nat

fun EFI_ERROR :: "EFI_STATUS \<Rightarrow> bool" where
  "EFI_ERROR EFI_SUCCESS = False"
| "EFI_ERROR (EFI_WARNING _) = False"
| "EFI_ERROR _ = True"

lemma EFI_ERROR_not_success [simp]: "EFI_ERROR s \<Longrightarrow> s \<noteq> EFI_SUCCESS"
  by (cases s) auto

section \<open>Little-endian integers\<close>

fun le_val :: "u8 list \<Rightarrow> nat" where
  "le_val [] = 0"
| "le_val (b # bs) = unat b + 256 * le_val bs"

fun le_bytes :: "nat \<Rightarrow> nat \<Rightarrow> u8 list" where
  "le_bytes 0 v = []"
| "le_bytes (Suc n) v = of_nat v # le_bytes n (v div 256)"

lemma length_le_bytes [simp, codec_simps]: "length (le_bytes n v) = n"
  by (induction n arbitrary: v) auto

lemma le_val_le_bytes [codec_simps]: "le_val (le_bytes n v) = v mod 256 ^ n"
proof (induction n arbitrary: v)
  case 0
  then show ?case by simp
next
  case (Suc n)
  have "unat (of_nat v :: u8) = v mod 256" by (simp add: unat_of_nat)
  with Suc show ?case by (simp add: mod_mult2_eq)
qed

lemma le_val_less: "le_val bs < 256 ^ length bs"
proof (induction bs)
  case Nil
  then show ?case by simp
next
  case (Cons b bs)
  have "unat b < 256" using unsigned_less [of b] by simp
  with Cons show ?case by simp
qed

lemma le_bytes_le_val: "le_bytes (length bs) (le_val bs) = bs"
proof (induction bs)
  case Nil
  then show ?case by simp
next
  case (Cons b bs)
  have b: "unat b < 256" using unsigned_less [of b] by simp
  then have "(unat b + 256 * le_val bs) div 256 = le_val bs" by simp
  moreover have "(of_nat (unat b + 256 * le_val bs) :: u8) = b"
  proof (rule word_unat_eq_iff [THEN iffD2])
    show "unat (of_nat (unat b + 256 * le_val bs) :: u8) = unat b"
      using b by (simp add: unat_of_nat del: of_nat_add)
  qed
  ultimately show ?case using Cons by (simp del: of_nat_add)
qed

lemma le_val_small [codec_simps]: "v < 256 ^ n \<Longrightarrow> le_val (le_bytes n v) = v"
  by (simp add: le_val_le_bytes)

lemma of_nat_unat_mod:
  fixes x :: "'a::len word"
  assumes "LENGTH('a) = 8 * n"
  shows "(of_nat (unat x mod 256 ^ n) :: 'a word) = x"
proof -
  have "(256::nat) ^ n = 2 ^ LENGTH('a)" using assms by (simp add: power_mult)
  then have "unat x < 256 ^ n" using unsigned_less [of x] by simp
  then show ?thesis by simp
qed

lemma u64_le_bytes [codec_simps]: "(of_nat (unat (x::u64) mod 256 ^ 8) :: u64) = x"
  by (rule of_nat_unat_mod) simp

lemma u32_le_bytes [codec_simps]: "(of_nat (unat (x::u32) mod 256 ^ 4) :: u32) = x"
  by (rule of_nat_unat_mod) simp

lemma u16_le_bytes [codec_simps]: "(of_nat (unat (x::u16) mod 256 ^ 2) :: u16) = x"
  by (rule of_nat_unat_mod) simp

lemma unat_u8_less [simp]: "unat (x::u8) < 256"
  using unsigned_less [of x, where ?'a = nat] by simp

lemma unat_u16_less [simp]: "unat (x::u16) < 65536"
  using unsigned_less [of x, where ?'a = nat] by simp

lemma unat_u32_less [simp]: "unat (x::u32) < 4294967296"
  using unsigned_less [of x, where ?'a = nat] by simp

lemma unat_u64_less [simp]: "unat (x::u64) < 18446744073709551616"
  using unsigned_less [of x, where ?'a = nat] by simp

lemma unat_u16_mod [codec_simps]: "unat (x::u16) mod 256 ^ 2 = unat x"
  using unat_u16_less [of x] by simp

lemma unat_u32_mod [codec_simps]: "unat (x::u32) mod 256 ^ 4 = unat x"
  using unat_u32_less [of x] by simp

lemma unat_u64_mod [codec_simps]: "unat (x::u64) mod 256 ^ 8 = unat x"
  using unat_u64_less [of x] by simp

lemma unat_ucast_u64 [simp]: "unat (ucast (x :: u32) :: u64) = unat x"
  using order.strict_trans [OF unat_u32_less [of x], of "2 ^ 64"] by (simp add: unsigned_ucast_eq take_bit_nat_eq_self_iff)

section \<open>Byte-addressed memory\<close>

type_synonym mem = "nat \<Rightarrow> u8"

definition load_bytes :: "mem \<Rightarrow> nat \<Rightarrow> nat \<Rightarrow> u8 list" where
  "load_bytes m p n = map (\<lambda>i. m (p + i)) [0..<n]"

definition store_bytes :: "mem \<Rightarrow> nat \<Rightarrow> u8 list \<Rightarrow> mem" where
  "store_bytes m p bs = (\<lambda>a. if p \<le> a \<and> a < p + length bs then bs ! (a - p) else m a)"

definition load_le :: "mem \<Rightarrow> nat \<Rightarrow> nat \<Rightarrow> nat" where
  "load_le m p n = le_val (load_bytes m p n)"

definition store_le :: "mem \<Rightarrow> nat \<Rightarrow> nat \<Rightarrow> nat \<Rightarrow> mem" where
  "store_le m p n v = store_bytes m p (le_bytes n v)"

text \<open>\<open>SetMem\<close> of the base memory library: fill \<open>n\<close> bytes.\<close>

definition set_mem :: "mem \<Rightarrow> nat \<Rightarrow> nat \<Rightarrow> u8 \<Rightarrow> mem" where
  "set_mem m p n v = store_bytes m p (replicate n v)"

lemma length_load_bytes [simp, mem_simps]: "length (load_bytes m p n) = n"
  by (simp add: load_bytes_def)

lemma nth_load_bytes: "i < n \<Longrightarrow> load_bytes m p n ! i = m (p + i)"
  by (simp add: load_bytes_def)

lemma load_bytes_0 [simp]: "load_bytes m p 0 = []"
  by (simp add: load_bytes_def)

lemma load_bytes_cong:
  "(\<And>a. p \<le> a \<Longrightarrow> a < p + n \<Longrightarrow> m a = m' a) \<Longrightarrow> load_bytes m p n = load_bytes m' p n"
  by (simp add: load_bytes_def)

lemma load_bytes_append: "load_bytes m p (i + j) = load_bytes m p i @ load_bytes m (p + i) j"
  by (rule nth_equalityI) (auto simp: nth_load_bytes nth_append ac_simps)

lemma load_bytes_take: "k \<le> n \<Longrightarrow> take k (load_bytes m p n) = load_bytes m p k"
  by (simp add: load_bytes_def take_map)

lemma load_bytes_drop: "load_bytes m (p + k) (n - k) = drop k (load_bytes m p n)"
  by (rule nth_equalityI) (auto simp: nth_load_bytes ac_simps)

lemma load_store_same [mem_simps]:
  "length bs = n \<Longrightarrow> load_bytes (store_bytes m p bs) p n = bs"
  by (rule nth_equalityI) (auto simp: nth_load_bytes store_bytes_def)

lemma load_store_disjoint [mem_simps]:
  "q + n \<le> p \<or> p + length bs \<le> q \<Longrightarrow> load_bytes (store_bytes m p bs) q n = load_bytes m q n"
  by (rule load_bytes_cong) (auto simp: store_bytes_def)

lemma store_bytes_other [mem_simps]:
  "a < p \<or> p + length bs \<le> a \<Longrightarrow> store_bytes m p bs a = m a"
  by (auto simp: store_bytes_def)

lemma load_bytes_within: "i + n \<le> length bs \<Longrightarrow> load_bytes (store_bytes m p bs) (p + i) n = take n (drop i bs)"
  by (intro nth_equalityI) (auto simp: load_bytes_def store_bytes_def)

lemma load_le_store_le_same [mem_simps]: "load_le (store_le m p n v) p n = v mod 256 ^ n"
  by (simp add: load_le_def store_le_def load_store_same codec_simps)

lemma load_le_store_le_disjoint [mem_simps]:
  "q + k \<le> p \<or> p + n \<le> q \<Longrightarrow> load_le (store_le m p n v) q k = load_le m q k"
  by (simp add: load_le_def store_le_def load_store_disjoint)

lemma store_le_other [mem_simps]: "a < p \<or> p + n \<le> a \<Longrightarrow> store_le m p n v a = m a"
  by (simp add: store_le_def store_bytes_other)

lemma load_le_less: "load_le m p n < 256 ^ n"
  unfolding load_le_def using le_val_less [of "load_bytes m p n"]
  by (simp only: length_load_bytes)

lemma load_le_cong:
  "(\<And>a. p \<le> a \<Longrightarrow> a < p + n \<Longrightarrow> m a = m' a) \<Longrightarrow> load_le m p n = load_le m' p n"
  unfolding load_le_def by (rule arg_cong [where f = le_val]) (rule load_bytes_cong)

lemma set_mem_inside: "p \<le> a \<Longrightarrow> a < p + n \<Longrightarrow> set_mem m p n v a = v"
  by (auto simp: set_mem_def store_bytes_def)

lemma set_mem_other: "a < p \<or> p + n \<le> a \<Longrightarrow> set_mem m p n v a = m a"
  by (auto simp: set_mem_def store_bytes_def)

lemma load_le_zero: "(\<And>a. p \<le> a \<Longrightarrow> a < p + n \<Longrightarrow> m a = 0) \<Longrightarrow> load_le m p n = 0"
proof -
  assume z: "\<And>a. p \<le> a \<Longrightarrow> a < p + n \<Longrightarrow> m a = 0"
  have "load_bytes m p n = replicate n 0"
    by (rule nth_equalityI) (auto simp: nth_load_bytes z)
  moreover have "le_val (replicate n 0) = 0"
    by (induction n) auto
  ultimately show ?thesis by (simp add: load_le_def)
qed

section \<open>Alignment\<close>

text \<open>\<open>ALIGN_VALUE\<close>, \<open>EFI_PAGE_SIZE\<close>, \<open>EFI_SIZE_TO_PAGES\<close>, \<open>EFI_PAGES_TO_SIZE\<close>.\<close>

definition ALIGN_VALUE :: "nat \<Rightarrow> nat \<Rightarrow> nat" where
  "ALIGN_VALUE v a = (v + a - 1) div a * a"

definition EFI_PAGE_SIZE :: nat where
  "EFI_PAGE_SIZE = 4096"

definition EFI_SIZE_TO_PAGES :: "nat \<Rightarrow> nat" where
  "EFI_SIZE_TO_PAGES s = s div 4096 + (if s mod 4096 = 0 then 0 else 1)"

definition EFI_PAGES_TO_SIZE :: "nat \<Rightarrow> nat" where
  "EFI_PAGES_TO_SIZE n = n * 4096"

lemma ALIGN_VALUE_ge: "0 < a \<Longrightarrow> v \<le> ALIGN_VALUE v a"
proof -
  assume a: "0 < a"
  have "v + a - 1 < (v + a - 1) div a * a + a"
    using a by (metis add.commute div_mult_mod_eq mod_less_divisor nat_add_left_cancel_less)
  with a show ?thesis by (simp add: ALIGN_VALUE_def)
qed

lemma ALIGN_VALUE_dvd [simp]: "a dvd ALIGN_VALUE v a"
  by (simp add: ALIGN_VALUE_def)

lemma pages_of_aligned: "4096 dvd s \<Longrightarrow> EFI_PAGES_TO_SIZE (EFI_SIZE_TO_PAGES s) = s"
  by (auto simp: EFI_PAGES_TO_SIZE_def EFI_SIZE_TO_PAGES_def)

lemma size_le_pages: "s \<le> EFI_PAGES_TO_SIZE (EFI_SIZE_TO_PAGES s)"
proof (cases "s mod 4096 = 0")
  case True
  then show ?thesis by (auto simp: EFI_PAGES_TO_SIZE_def EFI_SIZE_TO_PAGES_def)
next
  case False
  have "s \<le> (s div 4096 + 1) * 4096"
    using dividend_less_div_times [of 4096 s] by (simp add: algebra_simps)
  with False show ?thesis by (simp add: EFI_PAGES_TO_SIZE_def EFI_SIZE_TO_PAGES_def)
qed

section \<open>State machines with an invariant\<close>

text \<open>
  A component whose operations are events of one step function, and an
  invariant every operation keeps.  The run lemma is proved once; each
  stateful component interprets the locale on its own step function.
\<close>

primrec run_events :: "('s \<Rightarrow> 'e \<Rightarrow> 's) \<Rightarrow> 's \<Rightarrow> 'e list \<Rightarrow> 's" where
  "run_events step s [] = s"
| "run_events step s (e # es) = run_events step (step s e) es"

lemma run_events_append:
  "run_events step s (xs @ ys) = run_events step (run_events step s xs) ys"
  by (induction xs arbitrary: s) auto

locale invariant_machine =
  fixes step :: "'s \<Rightarrow> 'e \<Rightarrow> 's"
    and inv :: "'s \<Rightarrow> bool"
  assumes step_inv: "inv s \<Longrightarrow> inv (step s e)"
begin

lemma run_inv: "inv s \<Longrightarrow> inv (run_events step s es)"
  by (induction es arbitrary: s) (auto intro: step_inv)

lemma run_inv_prefix: "inv s \<Longrightarrow> inv (run_events step s (take n es))"
  by (rule run_inv)

end

section \<open>Assertions\<close>

text \<open>
  \<open>ASSERT\<close> stops the firmware in a debug build.  An operation of the source
  that asserts returns \<open>AssertFailed\<close> where the condition is false.  An
  operation that would read a buffer past its end returns \<open>OutOfBounds\<close>.
\<close>

datatype 'a checked = Ok 'a | AssertFailed | OutOfBounds

fun chk_bind :: "'a checked \<Rightarrow> ('a \<Rightarrow> 'b checked) \<Rightarrow> 'b checked" where
  "chk_bind (Ok x) f = f x"
| "chk_bind AssertFailed f = AssertFailed"
| "chk_bind OutOfBounds f = OutOfBounds"

lemma chk_bind_cong [fundef_cong]:
  "x = x' \<Longrightarrow> (\<And>y. x' = Ok y \<Longrightarrow> f y = f' y) \<Longrightarrow> chk_bind x f = chk_bind x' f'"
  by (cases x') auto

lemma chk_bind_OkE:
  "chk_bind x f = Ok y \<Longrightarrow> (\<And>z. x = Ok z \<Longrightarrow> f z = Ok y \<Longrightarrow> P) \<Longrightarrow> P"
  by (cases x) auto

lemma chk_bind_AssertE:
  "chk_bind x f = AssertFailed \<Longrightarrow> (x = AssertFailed \<Longrightarrow> P) \<Longrightarrow> (\<And>z. x = Ok z \<Longrightarrow> f z = AssertFailed \<Longrightarrow> P) \<Longrightarrow> P"
  by (cases x) auto

text \<open>
  An operation that may also not return (a loop that waits for a device) is an option of
  that: \<open>None\<close> is the run that never ends.
\<close>

type_synonym 'a run = "'a checked option"

fun run_bind :: "'a run \<Rightarrow> ('a \<Rightarrow> 'b run) \<Rightarrow> 'b run" where
  "run_bind None f = None"
| "run_bind (Some (Ok x)) f = f x"
| "run_bind (Some AssertFailed) f = Some AssertFailed"
| "run_bind (Some OutOfBounds) f = Some OutOfBounds"

lemma run_bind_OkE:
  "run_bind x f = Some (Ok y) \<Longrightarrow> (\<And>z. x = Some (Ok z) \<Longrightarrow> f z = Some (Ok y) \<Longrightarrow> P) \<Longrightarrow> P"
  by (cases "(x, f)" rule: run_bind.cases) auto

lemma run_bind_cong [fundef_cong]:
  "x = x' \<Longrightarrow> (\<And>y. x' = Some (Ok y) \<Longrightarrow> f y = f' y) \<Longrightarrow> run_bind x f = run_bind x' f'"
  by (cases "(x', f')" rule: run_bind.cases) auto

lemma run_bind_eq_None: "run_bind x f = None \<longleftrightarrow> x = None \<or> (\<exists>y. x = Some (Ok y) \<and> f y = None)"
  by (cases "(x, f)" rule: run_bind.cases) auto

section \<open>Arrays of slots in memory\<close>

text \<open>
  A table of independently addressable slots (the descriptor table and the
  rings of a virtqueue, port registers): what a slot holds after a sequence of
  writes to distinct slots.
\<close>

primrec wr_list :: "('m \<Rightarrow> nat \<Rightarrow> 'v \<Rightarrow> 'm) \<Rightarrow> 'm \<Rightarrow> (nat \<times> 'v) list \<Rightarrow> 'm" where
  "wr_list wr m [] = m"
| "wr_list wr m (w # ws) = wr_list wr (wr m (fst w) (snd w)) ws"

locale slot_store =
  fixes rd :: "'m \<Rightarrow> nat \<Rightarrow> 'v"
    and wr :: "'m \<Rightarrow> nat \<Rightarrow> 'v \<Rightarrow> 'm"
  assumes rd_wr_same: "rd (wr m i v) i = v"
    and rd_wr_other: "i \<noteq> j \<Longrightarrow> rd (wr m j v) i = rd m i"
begin

lemma rd_wr_list_other: "i \<notin> fst ` set ws \<Longrightarrow> rd (wr_list wr m ws) i = rd m i"
  by (induction ws arbitrary: m) (auto simp: rd_wr_other)

lemma rd_wr_list:
  "distinct (map fst ws) \<Longrightarrow> (i, v) \<in> set ws \<Longrightarrow> rd (wr_list wr m ws) i = v"
proof (induction ws arbitrary: m)
  case Nil
  then show ?case by simp
next
  case (Cons w ws)
  show ?case
  proof (cases "w = (i, v)")
    case True
    with Cons.prems have "i \<notin> fst ` set ws" by auto
    with True show ?thesis by (simp add: rd_wr_list_other rd_wr_same)
  next
    case False
    with Cons.prems have "distinct (map fst ws)" and "(i, v) \<in> set ws" by auto
    then show ?thesis by (simp add: Cons.IH)
  qed
qed

end

section \<open>Byte codecs\<close>

text \<open>
  A self-delimiting encoding of values as bytes.  \<open>dec\<close> looks at a memory
  region \<open>[p, p + n)\<close> and returns the value and the number of bytes used.
  A sequence of encoded values decodes to the sequence of values.
\<close>

fun dec_all :: "(mem \<Rightarrow> nat \<Rightarrow> nat \<Rightarrow> ('a \<times> nat) option) \<Rightarrow> nat \<Rightarrow> mem \<Rightarrow> nat \<Rightarrow> nat \<Rightarrow> 'a list option" where
  "dec_all dec 0 m p n = (if n = 0 then Some [] else None)"
| "dec_all dec (Suc k) m p n =
     (case dec m p n of
        None \<Rightarrow> None
      | Some (x, used) \<Rightarrow> map_option (Cons x) (dec_all dec k m (p + used) (n - used)))"

locale byte_codec =
  fixes enc :: "'a \<Rightarrow> u8 list"
    and dec :: "mem \<Rightarrow> nat \<Rightarrow> nat \<Rightarrow> ('a \<times> nat) option"
    and wf :: "'a \<Rightarrow> bool"
  assumes dec_enc: "wf x \<Longrightarrow> length (enc x) \<le> n \<Longrightarrow> load_bytes m p (length (enc x)) = enc x
                    \<Longrightarrow> dec m p n = Some (x, length (enc x))"
    and enc_nonempty: "enc x \<noteq> []"
begin

lemma dec_all_concat:
  assumes "\<And>x. x \<in> set xs \<Longrightarrow> wf x"
    and "load_bytes m p (length (concat (map enc xs))) = concat (map enc xs)"
  shows "dec_all dec (length xs) m p (length (concat (map enc xs))) = Some xs"
  using assms
proof (induction xs arbitrary: p)
  case Nil
  then show ?case by simp
next
  case (Cons x xs)
  let ?n = "length (enc x)" and ?r = "length (concat (map enc xs))"
  have split: "load_bytes m p ?n @ load_bytes m (p + ?n) ?r = enc x @ concat (map enc xs)"
    using Cons.prems(2) by (simp add: load_bytes_append)
  then have x: "load_bytes m p ?n = enc x" and xs: "load_bytes m (p + ?n) ?r = concat (map enc xs)"
    by (auto simp: append_eq_append_conv)
  have "dec m p (?n + ?r) = Some (x, ?n)"
    using Cons.prems(1) x by (intro dec_enc) auto
  moreover have "dec_all dec (length xs) m (p + ?n) ?r = Some xs"
    using Cons.prems(1) xs by (intro Cons.IH) auto
  ultimately show ?case by simp
qed

end

end
