(* ===== verification/VirtioRing.thy ===== *)
theory VirtioRing
  imports Prelude
begin

text \<open>
  Model of \<open>QemuPkg/Library/VirtioLib/VirtioLib.c\<close>: the virtqueue that the
  virtio drivers share with the host.  A \<open>VRING\<close> holds addresses into the
  byte-addressed memory of the prelude; the descriptor table, the available
  ring and the used ring are read and written there, byte by byte.  The
  \<open>VIRTIO_DEVICE_PROTOCOL\<close> members and \<open>gBS->Stall\<close> are arguments: they act on
  the pair of the shared memory and a device state of any type, so that the
  host may write the ring whenever one of them runs.
\<close>

section \<open>Data\<close>

record VRING_DESC =
  Addr :: u64
  Len :: u32
  Flags :: u16
  Next :: u16

record VRING_USED_ELEM =
  UsedId :: u32
  UsedLen :: u32

record VRING =
  NumPages :: nat
  Base :: nat
  Desc :: nat
  AvailFlags :: nat
  AvailIdx :: nat
  AvailRing :: nat
  AvailUsedEvent :: nat
  UsedFlags :: nat
  UsedIdx :: nat
  UsedElem :: nat
  UsedAvailEvent :: nat
  QueueSize :: u16

record DESC_INDICES =
  HeadDescIdx :: u16
  NextDescIdx :: u16

datatype VIRTIO_MAP_OPERATION =
    VirtioOperationBusMasterRead
  | VirtioOperationBusMasterWrite
  | VirtioOperationBusMasterCommonBuffer

text \<open>The members of \<open>VIRTIO_DEVICE_PROTOCOL\<close>.  \<open>ReadDevice\<close> returns the little-endian value
  of the configuration field at an offset and of a size, \<open>WriteDevice\<close> stores one.\<close>

record ('d, 'map) VIRTIO_DEVICE_PROTOCOL =
  Revision :: u32
  SetGuestFeatures :: "u64 \<Rightarrow> mem \<times> 'd \<Rightarrow> EFI_STATUS \<times> mem \<times> 'd"
  SetDeviceStatus :: "u8 \<Rightarrow> mem \<times> 'd \<Rightarrow> EFI_STATUS \<times> mem \<times> 'd"
  GetDeviceStatus :: "u8 \<Rightarrow> mem \<times> 'd \<Rightarrow> EFI_STATUS \<times> u8 \<times> mem \<times> 'd"
  SetQueueNotify :: "u16 \<Rightarrow> mem \<times> 'd \<Rightarrow> EFI_STATUS \<times> mem \<times> 'd"
  AllocateSharedPages :: "nat \<Rightarrow> mem \<times> 'd \<Rightarrow> EFI_STATUS \<times> nat \<times> mem \<times> 'd"
  FreeSharedPages :: "nat \<Rightarrow> nat \<Rightarrow> mem \<times> 'd \<Rightarrow> mem \<times> 'd"
  MapSharedBuffer :: "VIRTIO_MAP_OPERATION \<Rightarrow> nat \<Rightarrow> nat \<Rightarrow> mem \<times> 'd
                      \<Rightarrow> EFI_STATUS \<times> (nat \<times> u64 \<times> 'map) \<times> mem \<times> 'd"
  UnmapSharedBuffer :: "'map \<Rightarrow> mem \<times> 'd \<Rightarrow> EFI_STATUS \<times> mem \<times> 'd"
  SubSystemDeviceId :: nat
  GetDeviceFeatures :: "mem \<times> 'd \<Rightarrow> EFI_STATUS \<times> u64 \<times> mem \<times> 'd"
  SetPageSize :: "nat \<Rightarrow> mem \<times> 'd \<Rightarrow> EFI_STATUS \<times> mem \<times> 'd"
  SetQueueSel :: "u16 \<Rightarrow> mem \<times> 'd \<Rightarrow> EFI_STATUS \<times> mem \<times> 'd"
  GetQueueNumMax :: "mem \<times> 'd \<Rightarrow> EFI_STATUS \<times> u16 \<times> mem \<times> 'd"
  SetQueueNum :: "u16 \<Rightarrow> mem \<times> 'd \<Rightarrow> EFI_STATUS \<times> mem \<times> 'd"
  SetQueueAlign :: "nat \<Rightarrow> mem \<times> 'd \<Rightarrow> EFI_STATUS \<times> mem \<times> 'd"
  SetQueueAddress :: "VRING \<Rightarrow> u64 \<Rightarrow> mem \<times> 'd \<Rightarrow> EFI_STATUS \<times> mem \<times> 'd"
  ReadDevice :: "nat \<Rightarrow> nat \<Rightarrow> mem \<times> 'd \<Rightarrow> EFI_STATUS \<times> nat \<times> mem \<times> 'd"
  WriteDevice :: "nat \<Rightarrow> nat \<Rightarrow> nat \<Rightarrow> mem \<times> 'd \<Rightarrow> EFI_STATUS \<times> mem \<times> 'd"

section \<open>Ring setup and teardown\<close>

definition VirtioRingSize :: "nat \<Rightarrow> nat" where
  "VirtioRingSize q =
     ALIGN_VALUE (16 * q + 2 + 2 + 2 * q + 2) EFI_PAGE_SIZE +
     ALIGN_VALUE (2 + 2 + 8 * q + 2) EFI_PAGE_SIZE"

text \<open>The navigation pointers that \<open>VirtioRingInit\<close> lays over the allocated pages.\<close>

definition VirtioRingPointers :: "nat \<Rightarrow> VRING \<Rightarrow> VRING" where
  "VirtioRingPointers q ring =
    (let p0 = Base ring;
         p1 = p0 + 16 * q;
         p2 = p1 + 2;
         p3 = p2 + 2;
         p4 = p3 + 2 * q;
         p5 = p4 + 2;
         p6 = Base ring + ALIGN_VALUE (p5 - Base ring) EFI_PAGE_SIZE;
         p7 = p6 + 2;
         p8 = p7 + 2;
         p9 = p8 + 8 * q
     in ring\<lparr>Desc := p0, AvailFlags := p1, AvailIdx := p2, AvailRing := p3,
             AvailUsedEvent := p4, UsedFlags := p6, UsedIdx := p7, UsedElem := p8,
             UsedAvailEvent := p9\<rparr>)"

definition VirtioRingInit ::
  "('d, 'map) VIRTIO_DEVICE_PROTOCOL \<Rightarrow> u16 \<Rightarrow> VRING \<Rightarrow> mem \<times> 'd \<Rightarrow> EFI_STATUS \<times> VRING \<times> mem \<times> 'd" where
  "VirtioRingInit VirtIo q ring w =
    (let RingSize = VirtioRingSize (unat q);
         ring1 = ring\<lparr>NumPages := EFI_SIZE_TO_PAGES RingSize\<rparr>
     in case AllocateSharedPages VirtIo (NumPages ring1) w of
          (Status, base, m, d) \<Rightarrow>
            (let ring2 = ring1\<lparr>Base := base\<rparr>
             in if EFI_ERROR Status then (Status, ring2, m, d)
                else (EFI_SUCCESS,
                      (VirtioRingPointers (unat q) ring2)\<lparr>QueueSize := q\<rparr>,
                      set_mem m base RingSize 0, d)))"

definition zero_VRING :: VRING where
  "zero_VRING = \<lparr>NumPages = 0, Base = 0, Desc = 0, AvailFlags = 0, AvailIdx = 0, AvailRing = 0,
     AvailUsedEvent = 0, UsedFlags = 0, UsedIdx = 0, UsedElem = 0, UsedAvailEvent = 0, QueueSize = 0\<rparr>"

definition VirtioRingUninit ::
  "('d, 'map) VIRTIO_DEVICE_PROTOCOL \<Rightarrow> VRING \<Rightarrow> mem \<times> 'd \<Rightarrow> VRING \<times> mem \<times> 'd" where
  "VirtioRingUninit VirtIo ring w =
     (zero_VRING, FreeSharedPages VirtIo (NumPages ring) (Base ring) w)"

section \<open>Building a descriptor chain\<close>

definition VRING_AVAIL_F_NO_INTERRUPT :: nat where
  "VRING_AVAIL_F_NO_INTERRUPT = 1"

definition VirtioPrepare :: "VRING \<Rightarrow> mem \<Rightarrow> mem \<times> DESC_INDICES" where
  "VirtioPrepare ring m =
     (store_le m (AvailFlags ring) 2 VRING_AVAIL_F_NO_INTERRUPT,
      \<lparr>HeadDescIdx = 0, NextDescIdx = 0\<rparr>)"

text \<open>One packed \<open>VRING_DESC\<close> at slot \<open>i\<close> of the table at address \<open>b\<close>.\<close>

definition write_desc :: "nat \<Rightarrow> mem \<Rightarrow> nat \<Rightarrow> VRING_DESC \<Rightarrow> mem" where
  "write_desc b m i v =
    (let p = b + 16 * i;
         m1 = store_le m p 8 (unat (Addr v));
         m2 = store_le m1 (p + 8) 4 (unat (Len v));
         m3 = store_le m2 (p + 12) 2 (unat (Flags v))
     in store_le m3 (p + 14) 2 (unat (Next v)))"

definition read_desc :: "nat \<Rightarrow> mem \<Rightarrow> nat \<Rightarrow> VRING_DESC" where
  "read_desc b m i =
    (let p = b + 16 * i
     in \<lparr>Addr = of_nat (load_le m p 8), Len = of_nat (load_le m (p + 8) 4),
         Flags = of_nat (load_le m (p + 12) 2), Next = of_nat (load_le m (p + 14) 2)\<rparr>)"

definition VirtioAppendDesc ::
  "VRING \<Rightarrow> u64 \<Rightarrow> u32 \<Rightarrow> u16 \<Rightarrow> mem \<times> DESC_INDICES \<Rightarrow> mem \<times> DESC_INDICES" where
  "VirtioAppendDesc ring BufferDeviceAddress BufferSize fl w =
    (case w of (m, Indices) \<Rightarrow>
      let slot = unat (NextDescIdx Indices) mod unat (QueueSize ring);
          Indices' = Indices\<lparr>NextDescIdx := NextDescIdx Indices + 1\<rparr>;
          nxt = unat (NextDescIdx Indices') mod unat (QueueSize ring)
      in (write_desc (Desc ring) m slot
            \<lparr>Addr = BufferDeviceAddress, Len = BufferSize, Flags = fl, Next = of_nat nxt\<rparr>,
          Indices'))"

section \<open>Submitting the chain\<close>

text \<open>Publish the head of the chain in the available ring, then the new index.\<close>

definition VirtioFlush_publish :: "VRING \<Rightarrow> DESC_INDICES \<Rightarrow> mem \<Rightarrow> mem \<times> u16 \<times> u16" where
  "VirtioFlush_publish ring Indices m =
    (let LastUsedIdx = (of_nat (load_le m (AvailIdx ring) 2) :: u16);
         slot = unat LastUsedIdx mod unat (QueueSize ring);
         m1 = store_le m (AvailRing ring + 2 * slot) 2
                (unat (HeadDescIdx Indices) mod unat (QueueSize ring));
         NextAvailIdx = LastUsedIdx + 1
     in (store_le m1 (AvailIdx ring) 2 (unat NextAvailIdx), NextAvailIdx, LastUsedIdx))"

definition next_poll_period :: "nat \<Rightarrow> nat" where
  "next_poll_period p = (if p < 1024 then p * 2 else p)"

text \<open>
  The polling loop runs until the host bumps the used index; \<open>None\<close> is a loop
  that never ends.
\<close>

partial_function (option) VirtioFlush_poll ::
  "(nat \<Rightarrow> mem \<times> 'd \<Rightarrow> mem \<times> 'd) \<Rightarrow> nat \<Rightarrow> u16 \<Rightarrow> nat \<Rightarrow> mem \<times> 'd \<Rightarrow> (mem \<times> 'd) option" where
  "VirtioFlush_poll Stall usedIdx NextAvailIdx PollPeriodUsecs w =
    (if load_le (fst w) usedIdx 2 = unat NextAvailIdx then Some w
     else VirtioFlush_poll Stall usedIdx NextAvailIdx (next_poll_period PollPeriodUsecs)
            (Stall PollPeriodUsecs w))"

definition read_used :: "nat \<Rightarrow> mem \<Rightarrow> nat \<Rightarrow> VRING_USED_ELEM" where
  "read_used b m i =
     \<lparr>UsedId = of_nat (load_le m (b + 8 * i) 4), UsedLen = of_nat (load_le m (b + 8 * i + 4) 4)\<rparr>"

definition VirtioFlush ::
  "(nat \<Rightarrow> mem \<times> 'd \<Rightarrow> mem \<times> 'd) \<Rightarrow> ('d, 'map) VIRTIO_DEVICE_PROTOCOL \<Rightarrow> u16 \<Rightarrow> VRING \<Rightarrow> DESC_INDICES
   \<Rightarrow> bool \<Rightarrow> mem \<times> 'd \<Rightarrow> (EFI_STATUS \<times> u32 option \<times> mem \<times> 'd) checked option" where
  "VirtioFlush Stall VirtIo VirtQueueId ring Indices want_len w =
    (case VirtioFlush_publish ring Indices (fst w) of (m1, NextAvailIdx, LastUsedIdx) \<Rightarrow>
     case SetQueueNotify VirtIo VirtQueueId (m1, snd w) of (Status, w2) \<Rightarrow>
     if EFI_ERROR Status then Some (Ok (Status, None, w2))
     else
       case VirtioFlush_poll Stall (UsedIdx ring) NextAvailIdx 1 w2 of
         None \<Rightarrow> None
       | Some w3 \<Rightarrow>
           if want_len then
             (let e = read_used (UsedElem ring) (fst w3) (unat LastUsedIdx mod unat (QueueSize ring))
              in if UsedId e = ucast (HeadDescIdx Indices)
                 then Some (Ok (EFI_SUCCESS, Some (UsedLen e), w3))
                 else Some AssertFailed)
           else Some (Ok (EFI_SUCCESS, None, w3)))"

section \<open>Feature negotiation and buffer mapping\<close>

definition VSTAT_FEATURES_OK :: u8 where
  "VSTAT_FEATURES_OK = 8"

definition VIRTIO_SPEC_REVISION :: "u32 \<Rightarrow> u32 \<Rightarrow> u32 \<Rightarrow> u32" where
  "VIRTIO_SPEC_REVISION major minor revision =
     or (or (push_bit 24 (and major 0xFF)) (push_bit 16 (and minor 0xFF))) (and revision 0xFFFF)"

definition Virtio10WriteFeatures ::
  "('d, 'map) VIRTIO_DEVICE_PROTOCOL \<Rightarrow> u64 \<Rightarrow> u8 \<Rightarrow> mem \<times> 'd \<Rightarrow> EFI_STATUS \<times> u8 \<times> mem \<times> 'd" where
  "Virtio10WriteFeatures VirtIo Features DeviceStatus w =
    (if Revision VirtIo < VIRTIO_SPEC_REVISION 1 0 0 then (EFI_UNSUPPORTED, DeviceStatus, w)
     else case SetGuestFeatures VirtIo Features w of (Status, w1) \<Rightarrow>
       if EFI_ERROR Status then (Status, DeviceStatus, w1)
       else
         let DeviceStatus1 = or DeviceStatus VSTAT_FEATURES_OK
         in case SetDeviceStatus VirtIo DeviceStatus1 w1 of (Status2, w2) \<Rightarrow>
           if EFI_ERROR Status2 then (Status2, DeviceStatus1, w2)
           else case GetDeviceStatus VirtIo DeviceStatus1 w2 of (Status3, DeviceStatus2, w3) \<Rightarrow>
             if EFI_ERROR Status3 then (Status3, DeviceStatus2, w3)
             else if and DeviceStatus2 VSTAT_FEATURES_OK = 0 then (EFI_UNSUPPORTED, DeviceStatus2, w3)
             else (Status3, DeviceStatus2, w3))"

definition VirtioMapAllBytesInSharedBuffer ::
  "('d, 'map) VIRTIO_DEVICE_PROTOCOL \<Rightarrow> VIRTIO_MAP_OPERATION \<Rightarrow> nat \<Rightarrow> nat \<Rightarrow> mem \<times> 'd
   \<Rightarrow> EFI_STATUS \<times> (u64 \<times> 'map) option \<times> mem \<times> 'd" where
  "VirtioMapAllBytesInSharedBuffer VirtIo Operation HostAddress NumberOfBytes w =
    (case MapSharedBuffer VirtIo Operation HostAddress NumberOfBytes w of
       (Status, (Size, PhysicalAddress, MapInfo), w1) \<Rightarrow>
         if EFI_ERROR Status then (Status, None, w1)
         else if Size < NumberOfBytes then
           (EFI_OUT_OF_RESOURCES, None, snd (UnmapSharedBuffer VirtIo MapInfo w1))
         else (EFI_SUCCESS, Some (PhysicalAddress, MapInfo), w1))"

definition VirtioRingMap ::
  "('d, 'map) VIRTIO_DEVICE_PROTOCOL \<Rightarrow> VRING \<Rightarrow> mem \<times> 'd \<Rightarrow> EFI_STATUS \<times> (u64 \<times> 'map) option \<times> mem \<times> 'd" where
  "VirtioRingMap VirtIo ring w =
    (case VirtioMapAllBytesInSharedBuffer VirtIo VirtioOperationBusMasterCommonBuffer (Base ring)
            (EFI_PAGES_TO_SIZE (NumPages ring)) w of
       (Status, None, w1) \<Rightarrow> (Status, None, w1)
     | (Status, Some (DeviceAddress, Mapping), w1) \<Rightarrow>
         if EFI_ERROR Status then (Status, None, w1)
         else (EFI_SUCCESS, Some (DeviceAddress - of_nat (Base ring), Mapping), w1))"

section \<open>The descriptor table\<close>

lemma read_write_desc_same: "read_desc b (write_desc b m i v) i = v"
proof -
  let ?p = "b + 16 * i"
  have *: "load_le (write_desc b m i v) ?p 8 = unat (Addr v) mod 256 ^ 8"
       "load_le (write_desc b m i v) (?p + 8) 4 = unat (Len v) mod 256 ^ 4"
       "load_le (write_desc b m i v) (?p + 12) 2 = unat (Flags v) mod 256 ^ 2"
       "load_le (write_desc b m i v) (?p + 14) 2 = unat (Next v) mod 256 ^ 2"
    by (simp_all only: write_desc_def Let_def mem_simps) (simp_all add: mem_simps)
  show ?thesis
    unfolding read_desc_def Let_def * codec_simps by simp
qed

lemma write_desc_frame: "a < b + 16 * i \<or> b + 16 * i + 16 \<le> a \<Longrightarrow> write_desc b m i v a = m a"
  by (auto simp: write_desc_def Let_def store_le_other)

lemma read_write_desc_other: "i \<noteq> j \<Longrightarrow> read_desc b (write_desc b m j v) i = read_desc b m i"
proof -
  assume ij: "i \<noteq> j"
  have fr: "write_desc b m j v a = m a" if "b + 16 * i \<le> a" "a < b + 16 * i + 16" for a
  proof (rule write_desc_frame)
    show "a < b + 16 * j \<or> b + 16 * j + 16 \<le> a"
      using that ij by (cases "i < j") linarith+
  qed
  show ?thesis
    unfolding read_desc_def Let_def
    by (intro VRING_DESC.equality; simp; intro arg_cong [where f = of_nat] load_le_cong fr) auto
qed

interpretation desc_table: slot_store "read_desc b" "write_desc b" for b
  by unfold_locales (auto simp: read_write_desc_same read_write_desc_other)

section \<open>Ring layout\<close>

text \<open>
  The layout every initialised ring has: the three areas follow each other in
  the order of the virtio 0.9.5 specification, the used ring starts on a page
  boundary of the allocation, and everything lies inside the allocated pages.
\<close>

definition vring_ok :: "VRING \<Rightarrow> bool" where
  "vring_ok ring \<longleftrightarrow>
     (let q = unat (QueueSize ring) in
      0 < q \<and> Desc ring = Base ring \<and> AvailFlags ring = Desc ring + 16 * q \<and>
      AvailIdx ring = AvailFlags ring + 2 \<and> AvailRing ring = AvailIdx ring + 2 \<and>
      AvailUsedEvent ring = AvailRing ring + 2 * q \<and> AvailUsedEvent ring + 2 \<le> UsedFlags ring \<and>
      UsedIdx ring = UsedFlags ring + 2 \<and> UsedElem ring = UsedIdx ring + 2 \<and>
      UsedAvailEvent ring = UsedElem ring + 8 * q \<and>
      4096 dvd UsedFlags ring - Base ring \<and>
      UsedAvailEvent ring + 2 \<le> Base ring + EFI_PAGES_TO_SIZE (NumPages ring))"

lemma VirtioRingSize_pages:
  "EFI_PAGES_TO_SIZE (EFI_SIZE_TO_PAGES (VirtioRingSize q)) = VirtioRingSize q"
  by (rule pages_of_aligned)
     (metis ALIGN_VALUE_dvd EFI_PAGE_SIZE_def VirtioRingSize_def dvd_add)

lemma VirtioRingSize_eq:
  "VirtioRingSize q = ALIGN_VALUE (18 * q + 6) EFI_PAGE_SIZE + ALIGN_VALUE (8 * q + 6) EFI_PAGE_SIZE"
proof -
  have "16 * q + 2 + 2 + 2 * q + 2 = 18 * q + 6" and "2 + 2 + 8 * q + 2 = 8 * q + 6" by simp_all
  then show ?thesis unfolding VirtioRingSize_def by (simp only:)
qed

lemma VirtioRingPointers_ok:
  assumes "0 < unat q" and "NumPages ring = EFI_SIZE_TO_PAGES (VirtioRingSize (unat q))"
  shows "vring_ok ((VirtioRingPointers (unat q) ring)\<lparr>QueueSize := q\<rparr>)"
proof -
  let ?n = "unat q"
  have a1: "18 * ?n + 6 \<le> ALIGN_VALUE (18 * ?n + 6) EFI_PAGE_SIZE"
    and a2: "8 * ?n + 6 \<le> ALIGN_VALUE (8 * ?n + 6) EFI_PAGE_SIZE"
    by (auto intro!: ALIGN_VALUE_ge simp: EFI_PAGE_SIZE_def)
  have size: "EFI_PAGES_TO_SIZE (NumPages ring) =
      ALIGN_VALUE (18 * ?n + 6) EFI_PAGE_SIZE + ALIGN_VALUE (8 * ?n + 6) EFI_PAGE_SIZE"
    unfolding assms(2) VirtioRingSize_pages by (rule VirtioRingSize_eq)
  have d: "4096 dvd ALIGN_VALUE (18 * ?n + 6) EFI_PAGE_SIZE"
    using ALIGN_VALUE_dvd [of EFI_PAGE_SIZE] by (simp add: EFI_PAGE_SIZE_def)
  have e: "16 * ?n + (6 + 2 * ?n) = 18 * ?n + 6" "6 + 18 * ?n = 18 * ?n + 6" by simp_all
  show ?thesis
    unfolding vring_ok_def VirtioRingPointers_def Let_def
    using assms(1) a1 a2 size d
    by (simp add: add.assoc e algebra_simps)
qed

lemma VirtioRingInit_success:
  assumes alloc: "AllocateSharedPages VirtIo (EFI_SIZE_TO_PAGES (VirtioRingSize (unat q))) w = (EFI_SUCCESS, base, m, d)"
    and q: "0 < unat q"
  shows "\<exists>ring' m'. VirtioRingInit VirtIo q ring w = (EFI_SUCCESS, ring', m', d) \<and>
           vring_ok ring' \<and> Base ring' = base \<and> QueueSize ring' = q \<and>
           (\<forall>a. base \<le> a \<and> a < base + EFI_PAGES_TO_SIZE (NumPages ring') \<longrightarrow> m' a = 0) \<and>
           (\<forall>a. \<not> (base \<le> a \<and> a < base + EFI_PAGES_TO_SIZE (NumPages ring')) \<longrightarrow> m' a = m a)"
proof -
  let ?np = "EFI_SIZE_TO_PAGES (VirtioRingSize (unat q))"
  let ?r = "(VirtioRingPointers (unat q) (ring\<lparr>NumPages := ?np, Base := base\<rparr>))\<lparr>QueueSize := q\<rparr>"
  have np: "NumPages ?r = ?np" by (simp add: VirtioRingPointers_def Let_def)
  have "VirtioRingInit VirtIo q ring w = (EFI_SUCCESS, ?r, set_mem m base (VirtioRingSize (unat q)) 0, d)"
    using alloc by (simp add: VirtioRingInit_def Let_def)
  moreover have "vring_ok ?r" using q by (intro VirtioRingPointers_ok) auto
  moreover have "Base ?r = base" "QueueSize ?r = q" by (simp_all add: VirtioRingPointers_def Let_def)
  moreover have "EFI_PAGES_TO_SIZE (NumPages ?r) = VirtioRingSize (unat q)"
    by (simp only: np VirtioRingSize_pages)
  ultimately show ?thesis
    by (intro exI [of _ ?r] exI [of _ "set_mem m base (VirtioRingSize (unat q)) 0"])
       (auto simp: set_mem_inside set_mem_other)
qed


section \<open>Descriptor chains\<close>

lemma u16_index_mod:
  assumes "Q dvd 65536"
  shows "unat (x + of_nat k :: u16) mod Q = (unat x + k) mod Q"
proof -
  have "unat (x + of_nat k :: u16) = (unat x + k) mod 65536"
    by (simp add: unat_word_ariths unat_of_nat mod_simps)
  then show ?thesis using assms by (simp add: mod_mod_cancel)
qed

lemma mod_add_inj: "(n + j) mod Q = (n + k) mod Q \<Longrightarrow> j < Q \<Longrightarrow> k < Q \<Longrightarrow> j = (k::nat)"
proof (induction j k rule: linorder_wlog)
  case (le j k)
  then have "Q dvd (n + k) - (n + j)" by (metis mod_eq_dvd_iff_nat add_le_mono1 add.commute)
  with le have "Q dvd k - j" by simp
  with le show ?case by (metis diff_is_0_eq dvd_imp_le leD le_antisym less_imp_diff_less not_gr_zero)
next
  case (sym j k)
  then show ?case by simp
qed

text \<open>A driver appends buffers one after the other.\<close>

primrec append_all :: "VRING \<Rightarrow> (u64 \<times> u32 \<times> u16) list \<Rightarrow> mem \<times> DESC_INDICES \<Rightarrow> mem \<times> DESC_INDICES" where
  "append_all ring [] w = w"
| "append_all ring (b # bs) w =
     append_all ring bs (VirtioAppendDesc ring (fst b) (fst (snd b)) (snd (snd b)) w)"

definition chain_desc :: "nat \<Rightarrow> nat \<Rightarrow> (u64 \<times> u32 \<times> u16) \<Rightarrow> VRING_DESC" where
  "chain_desc Q n b =
     \<lparr>Addr = fst b, Len = fst (snd b), Flags = snd (snd b), Next = of_nat (Suc n mod Q)\<rparr>"

definition chain_writes :: "nat \<Rightarrow> nat \<Rightarrow> (u64 \<times> u32 \<times> u16) list \<Rightarrow> (nat \<times> VRING_DESC) list" where
  "chain_writes Q n bs = map (\<lambda>k. ((n + k) mod Q, chain_desc Q (n + k) (bs ! k))) [0..<length bs]"

lemma chain_writes_Cons:
  "chain_writes Q n (b # bs) = (n mod Q, chain_desc Q n b) # chain_writes Q (Suc n) bs"
proof -
  have "[0..<length (b # bs)] = 0 # map Suc [0..<length bs]"
    by (simp add: map_Suc_upt upt_conv_Cons del: upt_Suc)
  then show ?thesis by (simp add: chain_writes_def)
qed

lemma append_all_writes:
  assumes "unat (QueueSize ring) dvd 65536" and "unat (NextDescIdx I) mod unat (QueueSize ring) = n mod unat (QueueSize ring)"
  shows "append_all ring bs (m, I) =
     (wr_list (write_desc (Desc ring)) m (chain_writes (unat (QueueSize ring)) n bs),
      I\<lparr>NextDescIdx := NextDescIdx I + of_nat (length bs)\<rparr>)"
  using assms(2)
proof (induction bs arbitrary: m I n)
  case Nil
  then show ?case by (simp add: chain_writes_def)
next
  case (Cons b bs)
  let ?Q = "unat (QueueSize ring)"
  have nxt: "unat (NextDescIdx I + 1) mod ?Q = Suc n mod ?Q"
    using u16_index_mod [OF assms(1), of "NextDescIdx I" 1] Cons.prems
    by (simp add: mod_Suc)
  show ?case
    using Cons.IH [of "I\<lparr>NextDescIdx := NextDescIdx I + 1\<rparr>" "Suc n"] nxt Cons.prems
    by (simp add: VirtioAppendDesc_def Let_def chain_writes_Cons chain_desc_def ac_simps)
qed

lemma chain_writes_distinct: "length bs \<le> Q \<Longrightarrow> distinct (map fst (chain_writes Q n bs))"
  by (auto simp: chain_writes_def distinct_map comp_def inj_on_def intro: mod_add_inj)

lemma append_all_chain:
  fixes I :: DESC_INDICES
  assumes "unat (QueueSize ring) dvd 65536" and "length bs \<le> unat (QueueSize ring)" and "k < length bs"
  defines "n \<equiv> unat (NextDescIdx I)" and "Q \<equiv> unat (QueueSize ring)"
  shows "read_desc (Desc ring) (fst (append_all ring bs (m, I))) ((n + k) mod Q) = chain_desc Q (n + k) (bs ! k)"
proof -
  have "((n + k) mod Q, chain_desc Q (n + k) (bs ! k)) \<in> set (chain_writes Q n bs)"
    using assms(3) by (auto simp: chain_writes_def)
  moreover have "distinct (map fst (chain_writes Q n bs))"
    using assms(2) by (simp add: chain_writes_distinct Q_def)
  ultimately show ?thesis
    using append_all_writes [OF assms(1), of I n bs m]
    by (simp add: n_def Q_def desc_table.rd_wr_list)
qed

lemma write_desc_outside_table:
  "i < Q \<Longrightarrow> a < b \<or> b + 16 * Q \<le> a \<Longrightarrow> write_desc b m i v a = m a"
  by (intro write_desc_frame) auto

lemma wr_list_outside_table:
  "(\<And>i. i \<in> fst ` set ws \<Longrightarrow> i < Q) \<Longrightarrow> a < b \<or> b + 16 * Q \<le> a \<Longrightarrow> wr_list (write_desc b) m ws a = m a"
proof (induction ws arbitrary: m)
  case Nil
  then show ?case by simp
next
  case (Cons w ws)
  then have "fst w < Q" by simp
  with Cons show ?case by (simp add: write_desc_outside_table [of "fst w" Q])
qed

lemma append_all_frame:
  assumes "unat (QueueSize ring) dvd 65536" and "0 < unat (QueueSize ring)"
    and "a < Desc ring \<or> Desc ring + 16 * unat (QueueSize ring) \<le> a"
  shows "fst (append_all ring bs (m, I)) a = m a"
  using append_all_writes [OF assms(1), of I "unat (NextDescIdx I)" bs m] assms(2,3)
  by (auto simp: chain_writes_def intro!: wr_list_outside_table)

section \<open>The polling loop\<close>

fun stall_n :: "(nat \<Rightarrow> 'w \<Rightarrow> 'w) \<Rightarrow> nat \<Rightarrow> nat \<Rightarrow> 'w \<Rightarrow> 'w" where
  "stall_n Stall 0 p w = w"
| "stall_n Stall (Suc k) p w = stall_n Stall k (next_poll_period p) (Stall p w)"

lemma VirtioFlush_poll_at:
  assumes "load_le (fst (stall_n Stall k p w)) u 2 = unat nxt"
    and "\<And>j. j < k \<Longrightarrow> load_le (fst (stall_n Stall j p w)) u 2 \<noteq> unat nxt"
  shows "VirtioFlush_poll Stall u nxt p w = Some (stall_n Stall k p w)"
  using assms
proof (induction k arbitrary: p w)
  case 0
  then show ?case by (simp add: VirtioFlush_poll.simps)
next
  case (Suc k)
  have "load_le (fst w) u 2 \<noteq> unat nxt" using Suc.prems(2) [of 0] by simp
  moreover have "VirtioFlush_poll Stall u nxt (next_poll_period p) (Stall p w) = Some (stall_n Stall k (next_poll_period p) (Stall p w))"
    using Suc.prems(1) Suc.prems(2) [of "Suc _"] by (intro Suc.IH) auto
  ultimately show ?case by (simp add: VirtioFlush_poll.simps)
qed

lemma VirtioFlush_poll_found:
  assumes "VirtioFlush_poll Stall u nxt p w = Some w'"
  shows "\<exists>k. load_le (fst (stall_n Stall k p w)) u 2 = unat nxt"
proof (rule VirtioFlush_poll.raw_induct
    [where P = "\<lambda>St u nx p w w'. \<exists>k. load_le (fst (stall_n St k p w)) u 2 = unat nx", OF _ assms])
  fix f St u and nx :: u16 and p w w'
  assume IH: "\<And>St u nx p w w'. f St u nx p w = Some w' \<Longrightarrow> \<exists>k. load_le (fst (stall_n St k p w)) u 2 = unat (nx :: u16)"
    and eq: "(if load_le (fst w) u 2 = unat nx then Some w
              else f St u nx (next_poll_period p) (St p w)) = Some w'"
  show "\<exists>k. load_le (fst (stall_n St k p w)) u 2 = unat nx"
  proof (cases "load_le (fst w) u 2 = unat nx")
    case True
    then show ?thesis by (intro exI [of _ 0]) simp
  next
    case False
    with eq have "f St u nx (next_poll_period p) (St p w) = Some w'" by simp
    then obtain k where "load_le (fst (stall_n St k (next_poll_period p) (St p w))) u 2 = unat nx"
      using IH by blast
    then show ?thesis by (intro exI [of _ "Suc k"]) simp
  qed
qed

lemma VirtioFlush_poll_returns_iff:
  "(\<exists>w'. VirtioFlush_poll Stall u nxt p w = Some w') \<longleftrightarrow>
   (\<exists>k. load_le (fst (stall_n Stall k p w)) u 2 = unat nxt)"
proof
  assume "\<exists>k. load_le (fst (stall_n Stall k p w)) u 2 = unat nxt"
  from exists_least_iff [THEN iffD1, OF this]
  show "\<exists>w'. VirtioFlush_poll Stall u nxt p w = Some w'"
    by (meson VirtioFlush_poll_at)
qed (auto dest: VirtioFlush_poll_found)

lemma next_poll_period_iter: "(next_poll_period ^^ k) 1 = 2 ^ min k 10"
proof (induction k)
  case 0
  then show ?case by simp
next
  case (Suc k)
  have "(2::nat) ^ k < 1024" if "k < 10"
    using that power_strict_increasing [of k 10 "2::nat"] by simp
  with Suc show ?case by (auto simp: next_poll_period_def min_def not_less_eq_eq)
qed

text \<open>The back-off: the \<open>i\<close>-th stall takes \<open>2 ^ i\<close> microseconds, from the tenth on 1024.\<close>

definition waits :: "(nat \<Rightarrow> 'w \<Rightarrow> 'w) \<Rightarrow> nat \<Rightarrow> 'w \<Rightarrow> 'w" where
  "waits Stall k w = fold Stall (map (\<lambda>i. 2 ^ min i 10) [0..<k]) w"

lemma stall_n_fold: "stall_n Stall k p w = fold Stall (map (\<lambda>i. (next_poll_period ^^ i) p) [0..<k]) w"
proof (induction k arbitrary: p w)
  case (Suc k)
  have "map (\<lambda>i. (next_poll_period ^^ i) p) [0..<Suc k] = p # map (\<lambda>i. (next_poll_period ^^ i) (next_poll_period p)) [0..<k]"
    unfolding upt_conv_Cons [OF zero_less_Suc] map_Suc_upt [symmetric] by (simp add: funpow_swap1)
  then show ?case using Suc by (simp del: upt_Suc)
qed simp

lemma stall_n_waits: "stall_n Stall k 1 w = waits Stall k w"
  by (simp add: stall_n_fold waits_def next_poll_period_iter [unfolded One_nat_def])

lemma VirtioFlush_poll_value:
  "VirtioFlush_poll Stall u nxt 1 w = (if \<exists>k. load_le (fst (waits Stall k w)) u 2 = unat nxt
     then Some (waits Stall (LEAST k. load_le (fst (waits Stall k w)) u 2 = unat nxt) w) else None)"
proof (cases "\<exists>k. load_le (fst (waits Stall k w)) u 2 = unat nxt")
  case True
  let ?P = "\<lambda>k. load_le (fst (waits Stall k w)) u 2 = unat nxt"
  have "VirtioFlush_poll Stall u nxt 1 w = Some (stall_n Stall (LEAST k. ?P k) 1 w)"
  proof (rule VirtioFlush_poll_at)
    show "load_le (fst (stall_n Stall (LEAST k. ?P k) 1 w)) u 2 = unat nxt" unfolding stall_n_waits using True by (rule LeastI_ex)
    show "load_le (fst (stall_n Stall j 1 w)) u 2 \<noteq> unat nxt" if "j < (LEAST k. ?P k)" for j unfolding stall_n_waits using that by (rule not_less_Least)
  qed
  then show ?thesis unfolding stall_n_waits using True by simp
next
  case False
  then have "\<nexists>w'. VirtioFlush_poll Stall u nxt 1 w = Some w'" unfolding VirtioFlush_poll_returns_iff stall_n_waits .
  then show ?thesis using False by (cases "VirtioFlush_poll Stall u nxt 1 w") auto
qed

lemma used_id_eq: "(of_nat (load_le x a 4) :: u32) = ucast (h :: u16) \<longleftrightarrow> load_le x a 4 = unat h"
proof -
  have "load_le x a 4 < 2 ^ 32" using le_val_less [of "load_bytes x a 4"] by (simp add: load_le_def)
  then have "unat (of_nat (load_le x a 4) :: u32) = load_le x a 4" by (simp add: unat_of_nat)
  moreover have "unat h mod 4294967296 = unat h" by (rule mod_less, rule less_trans [OF unat_u16_less]) simp
  then have "unat (ucast h :: u32) = unat h" by (simp add: unsigned_ucast_eq take_bit_eq_mod)
  ultimately show ?thesis by (metis word_unat_eq_iff)
qed

section \<open>Publishing in the available ring\<close>

lemma VirtioFlush_publish_effect:
  assumes ok: "vring_ok ring" and p: "VirtioFlush_publish ring I m = (m', nxt, lst)"
  shows "lst = of_nat (load_le m (AvailIdx ring) 2)" and "nxt = lst + 1"
    and "load_le m' (AvailIdx ring) 2 = unat nxt"
    and "load_le m' (AvailRing ring + 2 * (unat lst mod unat (QueueSize ring))) 2 = unat (HeadDescIdx I) mod unat (QueueSize ring)"
    and "\<And>a. a < AvailIdx ring \<or> AvailUsedEvent ring \<le> a \<Longrightarrow> m' a = m a"
proof -
  let ?q = "unat (QueueSize ring)" and ?s = "AvailRing ring + 2 * (unat lst mod unat (QueueSize ring))"
  let ?h = "unat (HeadDescIdx I) mod unat (QueueSize ring)"
  have q: "0 < ?q" and lay: "AvailRing ring = AvailIdx ring + 2" "AvailUsedEvent ring = AvailRing ring + 2 * ?q"
    using ok by (auto simp: vring_ok_def Let_def)
  show l: "lst = of_nat (load_le m (AvailIdx ring) 2)" and n: "nxt = lst + 1"
    using p by (auto simp: VirtioFlush_publish_def Let_def)
  have m': "m' = store_le (store_le m ?s 2 ?h) (AvailIdx ring) 2 (unat nxt)"
    using p by (auto simp: VirtioFlush_publish_def Let_def)
  have "?h < 65536"
    by (rule le_less_trans [OF mod_less_eq_dividend unat_u16_less])
  then have h: "?h mod 256 ^ 2 = ?h" by simp
  show "load_le m' (AvailIdx ring) 2 = unat nxt"
    unfolding m' by (simp only: load_le_store_le_same unat_u16_mod)
  have d: "?s + 2 \<le> AvailIdx ring \<or> AvailIdx ring + 2 \<le> ?s" using lay by simp
  show "load_le m' ?s 2 = ?h"
    unfolding m' using load_le_store_le_disjoint [OF d] by (simp only: load_le_store_le_same h)
  fix a assume a: "a < AvailIdx ring \<or> AvailUsedEvent ring \<le> a"
  have "unat lst mod ?q < ?q" using q by simp
  with a lay show "m' a = m a" unfolding m' by (auto simp: store_le_other)
qed

text \<open>The memory after one chain was published: its slot of the available ring and the index, and no other byte.\<close>

definition published :: "VRING \<Rightarrow> DESC_INDICES \<Rightarrow> mem \<Rightarrow> mem \<Rightarrow> bool" where
  "published ring I m m1 \<longleftrightarrow>
    (let i = load_le m (AvailIdx ring) 2; q = unat (QueueSize ring); slot = AvailRing ring + 2 * (i mod q)
     in load_le m1 slot 2 = unat (HeadDescIdx I) mod q \<and> load_le m1 (AvailIdx ring) 2 = (i + 1) mod 2 ^ 16 \<and>
        (\<forall>a. a \<notin> {slot..<slot + 2} \<longrightarrow> a \<notin> {AvailIdx ring..<AvailIdx ring + 2} \<longrightarrow> m1 a = m a))"

lemma load_le_u16: "unat (of_nat (load_le m a 2) :: u16) = load_le m a 2"
proof -
  have "load_le m a 2 < 2 ^ 16" using le_val_less [of "load_bytes m a 2"] by (simp add: load_le_def)
  then show ?thesis by (simp add: unat_of_nat)
qed

lemma unat_u16_next: "unat ((x :: u16) + 1) = (unat x + 1) mod 2 ^ 16"
  by (simp add: unat_word_ariths)

lemma VirtioFlush_published:
  assumes ok: "vring_ok ring" and p: "VirtioFlush_publish ring I m = (m1, nxt, lst)"
  shows "published ring I m m1" "unat lst = load_le m (AvailIdx ring) 2" "unat nxt = (load_le m (AvailIdx ring) 2 + 1) mod 2 ^ 16"
proof -
  note e = VirtioFlush_publish_effect [OF ok p]
  show l: "unat lst = load_le m (AvailIdx ring) 2" by (simp add: e(1) load_le_u16)
  show n: "unat nxt = (load_le m (AvailIdx ring) 2 + 1) mod 2 ^ 16" unfolding e(2) unat_u16_next l by simp
  have "m1 = store_le (store_le m (AvailRing ring + 2 * (unat lst mod unat (QueueSize ring))) 2 (unat (HeadDescIdx I) mod unat (QueueSize ring))) (AvailIdx ring) 2 (unat nxt)"
    using p by (auto simp: VirtioFlush_publish_def Let_def)
  then have "m1 a = m a" if "a \<notin> {AvailRing ring + 2 * (unat lst mod unat (QueueSize ring))..<AvailRing ring + 2 * (unat lst mod unat (QueueSize ring)) + 2}"
      "a \<notin> {AvailIdx ring..<AvailIdx ring + 2}" for a
    using that by (auto simp: store_le_other not_le not_less)
  then show "published ring I m m1" using e(3,4) n unfolding published_def Let_def l by simp
qed

section \<open>Properties\<close>

text \<open>
  Property C29. After a successful \<open>VirtioRingInit\<close> the descriptor table, available
  ring and used ring are laid out without overlap inside the allocated pages,
  the used ring on a page boundary; all of the allocation is zeroed and no other
  byte of memory changes.
\<close>

theorem VirtioRingInit_layout:
  assumes "AllocateSharedPages VirtIo (EFI_SIZE_TO_PAGES (VirtioRingSize (unat q))) w = (EFI_SUCCESS, base, m, d)"
    and "0 < unat q"
  shows "\<exists>ring' m'. VirtioRingInit VirtIo q ring w = (EFI_SUCCESS, ring', m', d) \<and>
           vring_ok ring' \<and> Base ring' = base \<and> QueueSize ring' = q \<and>
           (\<forall>a. base \<le> a \<and> a < base + EFI_PAGES_TO_SIZE (NumPages ring') \<longrightarrow> m' a = 0) \<and>
           (\<forall>a. \<not> (base \<le> a \<and> a < base + EFI_PAGES_TO_SIZE (NumPages ring')) \<longrightarrow> m' a = m a)"
  using assms by (rule VirtioRingInit_success)

text \<open>A device whose host answers during the first stall; used by the witnesses.\<close>

definition demo_dev :: "(unit, unit) VIRTIO_DEVICE_PROTOCOL" where
  "demo_dev = \<lparr>Revision = 0x01000000,
     SetGuestFeatures = (\<lambda>_ w. (EFI_SUCCESS, w)),
     SetDeviceStatus = (\<lambda>_ w. (EFI_SUCCESS, w)),
     GetDeviceStatus = (\<lambda>s w. (EFI_SUCCESS, s, w)),
     SetQueueNotify = (\<lambda>_ w. (EFI_SUCCESS, w)),
     AllocateSharedPages = (\<lambda>_ w. (EFI_SUCCESS, 8192, w)),
     FreeSharedPages = (\<lambda>_ _ w. w),
     MapSharedBuffer = (\<lambda>_ p n w. (EFI_SUCCESS, (n, of_nat p, ()), w)),
     UnmapSharedBuffer = (\<lambda>_ w. (EFI_SUCCESS, w)),
     SubSystemDeviceId = 2,
     GetDeviceFeatures = (\<lambda>w. (EFI_SUCCESS, 0x100000000, w)),
     SetPageSize = (\<lambda>_ w. (EFI_SUCCESS, w)),
     SetQueueSel = (\<lambda>_ w. (EFI_SUCCESS, w)),
     GetQueueNumMax = (\<lambda>w. (EFI_SUCCESS, 128, w)),
     SetQueueNum = (\<lambda>_ w. (EFI_SUCCESS, w)),
     SetQueueAlign = (\<lambda>_ w. (EFI_SUCCESS, w)),
     SetQueueAddress = (\<lambda>_ _ w. (EFI_SUCCESS, w)),
     ReadDevice = (\<lambda>_ _ w. (EFI_SUCCESS, 64, w)),
     WriteDevice = (\<lambda>_ _ _ w. (EFI_SUCCESS, w))\<rparr>"

definition demo_stall :: "nat \<Rightarrow> mem \<times> unit \<Rightarrow> mem \<times> unit" where
  "demo_stall p w =
     (store_le (store_le (store_le (fst w) 4098 2 1) 4100 4 0) 4104 4 7, snd w)"

definition demo_ring :: VRING where
  "demo_ring = (VirtioRingPointers 2 (zero_VRING\<lparr>NumPages := 2\<rparr>))\<lparr>QueueSize := 2\<rparr>"

lemma demo_ring_ok: "vring_ok demo_ring"
  by (simp add: demo_ring_def vring_ok_def VirtioRingPointers_def zero_VRING_def ALIGN_VALUE_def
      EFI_PAGE_SIZE_def EFI_PAGES_TO_SIZE_def)

theorem VirtioRingInit_layout_witness:
  "\<exists>ring' m'. VirtioRingInit demo_dev 4 zero_VRING (\<lambda>_. 7, ()) = (EFI_SUCCESS, ring', m', ()) \<and>
     vring_ok ring' \<and> Base ring' = 8192 \<and> m' 8192 = 0 \<and> m' 0 = 7"
proof -
  have "AllocateSharedPages demo_dev (EFI_SIZE_TO_PAGES (VirtioRingSize (unat (4::u16)))) (\<lambda>_. 7, ()) =
        (EFI_SUCCESS, 8192, \<lambda>_. 7, ())"
    by (simp add: demo_dev_def)
  from VirtioRingInit_layout [OF this, of zero_VRING] obtain ring' m' where
    *: "VirtioRingInit demo_dev 4 zero_VRING (\<lambda>_. 7, ()) = (EFI_SUCCESS, ring', m', ())"
      "vring_ok ring'" "Base ring' = 8192"
      "\<forall>a. 8192 \<le> a \<and> a < 8192 + EFI_PAGES_TO_SIZE (NumPages ring') \<longrightarrow> m' a = 0"
      "\<forall>a. \<not> (8192 \<le> a \<and> a < 8192 + EFI_PAGES_TO_SIZE (NumPages ring')) \<longrightarrow> m' a = 7"
    by auto
  then have "8192 < 8192 + EFI_PAGES_TO_SIZE (NumPages ring')"
    by (auto simp: vring_ok_def Let_def)
  with * show ?thesis by auto
qed

text \<open>
  Property C3. Appending at most \<open>QueueSize\<close> buffers builds the chain the host
  walks: slot \<open>(n + k) mod QueueSize\<close> holds the \<open>k\<close>-th buffer and its \<open>Next\<close>
  field names the following slot, also when the free-running 16-bit index wraps
  (\<open>QueueSize\<close> divides \<open>2^16\<close>); the index advances by the number of buffers, the
  head index and all memory outside the descriptor table keep their values.
\<close>

theorem VirtioAppendDesc_chain:
  assumes "vring_ok ring" and "unat (QueueSize ring) dvd 65536" and "length bs \<le> unat (QueueSize ring)"
    and "append_all ring bs (m, I) = (m', I')"
  shows "(\<forall>k<length bs. read_desc (Desc ring) m' ((unat (NextDescIdx I) + k) mod unat (QueueSize ring)) =
           \<lparr>Addr = fst (bs ! k), Len = fst (snd (bs ! k)), Flags = snd (snd (bs ! k)),
            Next = of_nat (Suc (unat (NextDescIdx I) + k) mod unat (QueueSize ring))\<rparr>) \<and>
         NextDescIdx I' = NextDescIdx I + of_nat (length bs) \<and> HeadDescIdx I' = HeadDescIdx I \<and>
         (\<forall>a. a < Desc ring \<or> AvailFlags ring \<le> a \<longrightarrow> m' a = m a)"
proof (intro conjI)
  have q: "0 < unat (QueueSize ring)" and f: "AvailFlags ring = Desc ring + 16 * unat (QueueSize ring)"
    using assms(1) by (auto simp: vring_ok_def Let_def)
  show "\<forall>k<length bs. read_desc (Desc ring) m' ((unat (NextDescIdx I) + k) mod unat (QueueSize ring)) =
           \<lparr>Addr = fst (bs ! k), Len = fst (snd (bs ! k)), Flags = snd (snd (bs ! k)),
            Next = of_nat (Suc (unat (NextDescIdx I) + k) mod unat (QueueSize ring))\<rparr>"
    using append_all_chain [OF assms(2,3), where I = I and m = m] assms(4) by (simp add: chain_desc_def)
  show "NextDescIdx I' = NextDescIdx I + of_nat (length bs)" "HeadDescIdx I' = HeadDescIdx I"
    using append_all_writes [OF assms(2), of I "unat (NextDescIdx I)" bs m] assms(4) by auto
  show "\<forall>a. a < Desc ring \<or> AvailFlags ring \<le> a \<longrightarrow> m' a = m a"
    using append_all_frame [OF assms(2) q, of _ bs m I] f assms(4) by auto
qed

theorem VirtioAppendDesc_chain_witness:
  "NextDescIdx (snd (append_all demo_ring [(4096, 16, 1), (8192, 512, 2)] (\<lambda>_. 0, \<lparr>HeadDescIdx = 0, NextDescIdx = 65535\<rparr>))) = 1"
proof -
  have q: "unat (QueueSize demo_ring) = 2" by (simp add: demo_ring_def)
  obtain m' I' where e: "append_all demo_ring [(4096, 16, 1), (8192, 512, 2)]
       (\<lambda>_. 0, \<lparr>HeadDescIdx = 0, NextDescIdx = 65535\<rparr>) = (m', I')" by fastforce
  have "NextDescIdx I' = 65535 + of_nat 2"
    using VirtioAppendDesc_chain [OF demo_ring_ok _ _ e] q by simp
  with e show ?thesis by simp
qed

text \<open>
  Property C28. What \<open>VirtioFlush\<close> does for every device and host.  It first publishes the
  chain: the slot of the available ring at the old index holds the head, the index is
  advanced by one modulo \<open>2^16\<close>, and no other byte changes.  When the notification fails
  it returns that status at once.  Otherwise it waits 1, 2, 4, up to 1024 microseconds
  between polls and returns if and only if the used index ever equals the new available
  index: at the first poll that sees it, with success, the memory as it is then and,
  where the caller asked for it, the byte count of the used element at the old index;
  a used element of another chain fails the assertion.
\<close>

theorem VirtioFlush_outcome:
  assumes "vring_ok ring"
  shows "\<exists>m1. published ring I m m1 \<and>
    (case SetQueueNotify VirtIo qid (m1, d) of (s, w2) \<Rightarrow>
      let done = (\<lambda>k. load_le (fst (waits Stall k w2)) (UsedIdx ring) 2 = (load_le m (AvailIdx ring) 2 + 1) mod 2 ^ 16);
          w3 = waits Stall (LEAST k. done k) w2;
          used = UsedElem ring + 8 * (load_le m (AvailIdx ring) 2 mod unat (QueueSize ring))
      in VirtioFlush Stall VirtIo qid ring I want (m, d) =
         (if EFI_ERROR s then Some (Ok (s, None, w2))
          else if \<forall>k. \<not> done k then None
          else if \<not> want then Some (Ok (EFI_SUCCESS, None, w3))
          else if load_le (fst w3) used 4 = unat (HeadDescIdx I) then Some (Ok (EFI_SUCCESS, Some (of_nat (load_le (fst w3) (used + 4) 4)), w3))
          else Some AssertFailed))"
proof -
  obtain m1 nxt lst where p: "VirtioFlush_publish ring I m = (m1, nxt, lst)" by (metis prod_cases3)
  obtain s w2 where n: "SetQueueNotify VirtIo qid (m1, d) = (s, w2)" by (cases "SetQueueNotify VirtIo qid (m1, d)")
  note e = VirtioFlush_published [OF assms p]
  have id: "(of_nat (load_le x a 4) :: u32) = ucast (HeadDescIdx I) \<longleftrightarrow> load_le x a 4 = unat (HeadDescIdx I)" for x a
    by (rule used_id_eq)
  show ?thesis
    unfolding VirtioFlush_def fst_conv snd_conv
    by (intro exI [of _ m1] conjI e(1)) (simp only: p n prod.case VirtioFlush_poll_value e(2,3) Let_def read_used_def id, simp add: id)
qed

lemma demo_publish:
  "VirtioFlush_publish demo_ring \<lparr>HeadDescIdx = 0, NextDescIdx = 1\<rparr> (\<lambda>_. 0) =
     (store_le (store_le (\<lambda>_. 0) 36 2 0) 34 2 1, 1, 0)"
  by (simp add: VirtioFlush_publish_def demo_ring_def VirtioRingPointers_def zero_VRING_def
      load_le_zero Let_def)

lemma demo_used:
  "load_le (fst (demo_stall 1 w)) 4098 2 = 1" "load_le (fst (demo_stall 1 w)) 4100 4 = 0"
  "load_le (fst (demo_stall 1 w)) 4104 4 = 7"
  by (simp_all add: demo_stall_def mem_simps)

theorem VirtioFlush_outcome_witness:
  "\<exists>r. VirtioFlush demo_stall demo_dev 0 demo_ring \<lparr>HeadDescIdx = 0, NextDescIdx = 1\<rparr> False (\<lambda>_. 0, ()) = Some r"
proof -
  have u: "UsedIdx demo_ring = 4098"
    by (simp add: demo_ring_def VirtioRingPointers_def zero_VRING_def ALIGN_VALUE_def EFI_PAGE_SIZE_def)
  have "load_le (fst (waits demo_stall 1 w)) (UsedIdx demo_ring) 2 = (load_le (\<lambda>_. 0) (AvailIdx demo_ring) 2 + 1) mod 2 ^ 16" for w
    using demo_used(1) [of w] u by (simp add: waits_def load_le_zero)
  then have "\<not> (\<forall>k. \<not> load_le (fst (waits demo_stall k w)) (UsedIdx demo_ring) 2 = (load_le (\<lambda>_. 0) (AvailIdx demo_ring) 2 + 1) mod 2 ^ 16)" for w by blast
  then show ?thesis
    using VirtioFlush_outcome [OF demo_ring_ok, where I = "\<lparr>HeadDescIdx = 0, NextDescIdx = 1\<rparr>" and m = "\<lambda>_. 0" and VirtIo = demo_dev and qid = 0 and d = "()"
      and Stall = demo_stall and want = False]
    by (auto simp: demo_dev_def Let_def)
qed



text \<open>
  \<open>VirtioFlush\<close> makes exactly one request visible before the host
  is notified: the slot of the available ring at the old index holds the head of
  the chain, the index is advanced by one modulo \<open>2^16\<close>, and no byte outside the
  available ring changes.
\<close>

theorem VirtioFlush_publishes_one:
  assumes "vring_ok ring" and "VirtioFlush_publish ring I m = (m', nxt, lst)"
  shows "load_le m' (AvailIdx ring) 2 = unat ((of_nat (load_le m (AvailIdx ring) 2) :: u16) + 1) \<and>
         load_le m' (AvailRing ring + 2 * (unat lst mod unat (QueueSize ring))) 2 =
           unat (HeadDescIdx I) mod unat (QueueSize ring) \<and>
         (\<forall>a. a < AvailIdx ring \<or> AvailUsedEvent ring \<le> a \<longrightarrow> m' a = m a)"
  using VirtioFlush_publish_effect [OF assms] by simp

theorem VirtioFlush_publishes_one_witness:
  "load_le (store_le (store_le (\<lambda>_. 0) 36 2 0) 34 2 1) (AvailIdx demo_ring) 2 = 1"
proof -
  have "load_le (\<lambda>_. 0) (AvailIdx demo_ring) 2 = 0" by (simp add: load_le_zero)
  then show ?thesis
    using VirtioFlush_publishes_one [OF demo_ring_ok demo_publish] by simp
qed

text \<open>
  \<open>Virtio10WriteFeatures\<close> succeeds exactly when the device is a
  1.0 device, accepts every register write and still shows \<open>FEATURES_OK\<close> when the
  status is read back; a cleared bit is reported as \<open>EFI_UNSUPPORTED\<close>.
\<close>

theorem Virtio10WriteFeatures_outcome:
  assumes "SetGuestFeatures VirtIo f w = (s1, w1)"
    and "SetDeviceStatus VirtIo (or ds VSTAT_FEATURES_OK) w1 = (s2, w2)"
    and "GetDeviceStatus VirtIo (or ds VSTAT_FEATURES_OK) w2 = (s3, ds', w3)"
  shows "(\<not> EFI_ERROR (fst (Virtio10WriteFeatures VirtIo f ds w)) \<longleftrightarrow>
            \<not> Revision VirtIo < 0x01000000 \<and> \<not> EFI_ERROR s1 \<and> \<not> EFI_ERROR s2 \<and> \<not> EFI_ERROR s3 \<and>
            and ds' VSTAT_FEATURES_OK \<noteq> 0) \<and>
         (\<not> Revision VirtIo < 0x01000000 \<and> \<not> EFI_ERROR s1 \<and> \<not> EFI_ERROR s2 \<and> \<not> EFI_ERROR s3 \<and>
            and ds' VSTAT_FEATURES_OK = 0 \<longrightarrow>
            Virtio10WriteFeatures VirtIo f ds w = (EFI_UNSUPPORTED, ds', w3))"
proof -
  have "VIRTIO_SPEC_REVISION 1 0 0 = 0x01000000"
    by (simp add: VIRTIO_SPEC_REVISION_def)
  then show ?thesis using assms by (auto simp: Virtio10WriteFeatures_def Let_def)
qed

theorem Virtio10WriteFeatures_outcome_witness:
  "\<not> EFI_ERROR (fst (Virtio10WriteFeatures demo_dev 0 3 (\<lambda>_. 0, ())))"
proof -
  have "SetGuestFeatures demo_dev 0 (\<lambda>_. 0, ()) = (EFI_SUCCESS, (\<lambda>_. 0, ()))"
    "SetDeviceStatus demo_dev (or 3 VSTAT_FEATURES_OK) (\<lambda>_. 0, ()) = (EFI_SUCCESS, (\<lambda>_. 0, ()))"
    "GetDeviceStatus demo_dev (or 3 VSTAT_FEATURES_OK) (\<lambda>_. 0, ()) = (EFI_SUCCESS, 11, (\<lambda>_. 0, ()))"
    by (simp_all add: demo_dev_def VSTAT_FEATURES_OK_def)
  from Virtio10WriteFeatures_outcome [OF this] show ?thesis
    by (simp add: demo_dev_def VSTAT_FEATURES_OK_def)
qed

text \<open>
  \<open>VirtioRingMap\<close> never hands out a partial mapping: it succeeds
  exactly when the device mapped all pages of the ring, the returned shift then
  translates the ring's base address to its device address (modulo \<open>2^64\<close>), and a
  shorter mapping is released before \<open>EFI_OUT_OF_RESOURCES\<close> is returned.
\<close>

theorem VirtioRingMap_outcome:
  assumes "MapSharedBuffer VirtIo VirtioOperationBusMasterCommonBuffer (Base ring)
             (EFI_PAGES_TO_SIZE (NumPages ring)) w = (st, (sz, pa, mi), w1)"
    and "\<not> EFI_ERROR st"
  shows "if EFI_PAGES_TO_SIZE (NumPages ring) \<le> sz
         then \<exists>shift. VirtioRingMap VirtIo ring w = (EFI_SUCCESS, Some (shift, mi), w1) \<and>
                      of_nat (Base ring) + shift = pa
         else VirtioRingMap VirtIo ring w =
                (EFI_OUT_OF_RESOURCES, None, snd (UnmapSharedBuffer VirtIo mi w1))"
  using assms by (simp add: VirtioRingMap_def VirtioMapAllBytesInSharedBuffer_def)

theorem VirtioRingMap_outcome_witness:
  "\<exists>shift. VirtioRingMap demo_dev demo_ring (\<lambda>_. 0, ()) = (EFI_SUCCESS, Some (shift, ()), (\<lambda>_. 0, ()))"
  using VirtioRingMap_outcome [of demo_dev demo_ring "(\<lambda>_. 0, ())" EFI_SUCCESS
      "EFI_PAGES_TO_SIZE (NumPages demo_ring)" "of_nat (Base demo_ring)" "()" "(\<lambda>_. 0, ())"]
  by (auto simp: demo_dev_def)

end
