(* ===== verification/VirtioDriver.thy ===== *)
theory VirtioDriver
  imports VirtioRing "HOL-Library.Multiset" "HOL-Library.Code_Target_Nat"
begin

text \<open>
  What the virtio device drivers (\<open>VirtioBlkDxe\<close>, \<open>VirtioRngDxe\<close>, \<open>VirtioScsiDxe\<close>) have in
  common: the set-up sequence of a device with one queue, the bracketing of shared buffers
  around a request, the driver binding functions, and the account of what a driver holds.
\<close>

section \<open>Set-up steps\<close>

text \<open>
  A set-up function threads the local \<open>NextDevStat\<close> and the world (shared memory and
  device); an error status leaves the sequence at once.
\<close>

type_synonym 'd world = "mem \<times> 'd"
type_synonym ('d, 'a) init_step = "u8 \<times> 'd world \<Rightarrow> (EFI_STATUS + 'a) \<times> u8 \<times> 'd world"

definition es_bind :: "('d, 'a) init_step \<Rightarrow> ('a \<Rightarrow> ('d, 'b) init_step) \<Rightarrow> ('d, 'b) init_step" where
  "es_bind f g s = (case f s of (Inl Status, s1) \<Rightarrow> (Inl Status, s1) | (Inr x, s1) \<Rightarrow> g x s1)"

definition es_ret :: "'a \<Rightarrow> ('d, 'a) init_step" where
  "es_ret x s = (Inr x, s)"

definition es_fail :: "EFI_STATUS \<Rightarrow> ('d, 'a) init_step" where
  "es_fail Status s = (Inl Status, s)"

text \<open>A protocol call that returns a status, or a status and a value.\<close>

definition es_call :: "('d world \<Rightarrow> EFI_STATUS \<times> 'd world) \<Rightarrow> ('d, unit) init_step" where
  "es_call f s = (case f (snd s) of (Status, w) \<Rightarrow> (if EFI_ERROR Status then Inl Status else Inr (), fst s, w))"

definition es_query :: "('d world \<Rightarrow> EFI_STATUS \<times> 'a \<times> 'd world) \<Rightarrow> ('d, 'a) init_step" where
  "es_query f s = (case f (snd s) of (Status, x, w) \<Rightarrow> (if EFI_ERROR Status then Inl Status else Inr x, fst s, w))"

definition VSTAT_ACK :: u8 where "VSTAT_ACK = 1"
definition VSTAT_DRIVER :: u8 where "VSTAT_DRIVER = 2"
definition VSTAT_DRIVER_OK :: u8 where "VSTAT_DRIVER_OK = 4"
definition VSTAT_FAILED :: u8 where "VSTAT_FAILED = 0x80"
definition VIRTIO_F_VERSION_1 :: u64 where "VIRTIO_F_VERSION_1 = 0x100000000"
definition VIRTIO_F_IOMMU_PLATFORM :: u64 where "VIRTIO_F_IOMMU_PLATFORM = 0x200000000"
definition VRING_DESC_F_NEXT :: u16 where "VRING_DESC_F_NEXT = 1"
definition VRING_DESC_F_WRITE :: u16 where "VRING_DESC_F_WRITE = 2"

text \<open>\<open>NextDevStat |= bits\<close> and the write of it to the device.\<close>

definition add_status :: "('d, 'map) VIRTIO_DEVICE_PROTOCOL \<Rightarrow> u8 \<Rightarrow> ('d, unit) init_step" where
  "add_status VirtIo bits s = (let NextDevStat = or (fst s) bits in es_call (SetDeviceStatus VirtIo NextDevStat) (NextDevStat, snd s))"

text \<open>Reset, acknowledge, driver, page size, feature bits.\<close>

definition StartDevice :: "('d, 'map) VIRTIO_DEVICE_PROTOCOL \<Rightarrow> ('d, u64) init_step" where
  "StartDevice VirtIo =
    es_bind (es_call (SetDeviceStatus VirtIo 0)) (\<lambda>_.
    es_bind (add_status VirtIo VSTAT_ACK) (\<lambda>_.
    es_bind (add_status VirtIo VSTAT_DRIVER) (\<lambda>_.
    es_bind (es_call (SetPageSize VirtIo EFI_PAGE_SIZE)) (\<lambda>_.
      es_query (GetDeviceFeatures VirtIo)))))"

text \<open>The feature bits of a 1.0 device, then the size of the queue.\<close>

definition WriteFeatures10 :: "('d, 'map) VIRTIO_DEVICE_PROTOCOL \<Rightarrow> u64 \<Rightarrow> ('d, unit) init_step" where
  "WriteFeatures10 VirtIo Features s =
    (if Revision VirtIo \<ge> VIRTIO_SPEC_REVISION 1 0 0
     then case Virtio10WriteFeatures VirtIo Features (fst s) (snd s) of (Status, NextDevStat, w) \<Rightarrow>
       (if EFI_ERROR Status then Inl Status else Inr (), NextDevStat, w)
     else (Inr (), s))"

definition SelectQueue :: "('d, 'map) VIRTIO_DEVICE_PROTOCOL \<Rightarrow> u64 \<Rightarrow> u16 \<Rightarrow> u16 \<Rightarrow> ('d, u16) init_step" where
  "SelectQueue VirtIo Features Queue MinSize =
    es_bind (WriteFeatures10 VirtIo Features) (\<lambda>_.
    es_bind (es_call (SetQueueSel VirtIo Queue)) (\<lambda>_.
    es_bind (es_query (GetQueueNumMax VirtIo)) (\<lambda>q.
      if q < MinSize then es_fail EFI_UNSUPPORTED else es_ret q)))"

text \<open>Queue parameters, legacy feature bits, the driver's own registers, \<open>DRIVER_OK\<close>.\<close>

definition ProgramQueue ::
  "('d, 'map) VIRTIO_DEVICE_PROTOCOL \<Rightarrow> u64 \<Rightarrow> u16 \<Rightarrow> VRING \<Rightarrow> u64 \<Rightarrow> ('d, unit) init_step \<Rightarrow> ('d, unit) init_step" where
  "ProgramQueue VirtIo Features q ring RingBaseShift registers =
    es_bind (es_call (SetQueueNum VirtIo q)) (\<lambda>_.
    es_bind (es_call (SetQueueAlign VirtIo EFI_PAGE_SIZE)) (\<lambda>_.
    es_bind (es_call (SetQueueAddress VirtIo ring RingBaseShift)) (\<lambda>_.
    es_bind (if Revision VirtIo < VIRTIO_SPEC_REVISION 1 0 0
             then es_call (SetGuestFeatures VirtIo (and Features (not (or VIRTIO_F_VERSION_1 VIRTIO_F_IOMMU_PLATFORM))))
             else es_ret ()) (\<lambda>_.
    es_bind registers (\<lambda>_. add_status VirtIo VSTAT_DRIVER_OK)))))"

text \<open>The ring: the labels \<open>UnmapQueue\<close> and \<open>ReleaseQueue\<close> are its error paths.\<close>

definition SetUpRing ::
  "('d, 'map) VIRTIO_DEVICE_PROTOCOL \<Rightarrow> u64 \<Rightarrow> u16 \<Rightarrow> ('d, unit) init_step \<Rightarrow> ('d, VRING \<times> 'map) init_step" where
  "SetUpRing VirtIo Features q registers s =
    (case VirtioRingInit VirtIo q zero_VRING (snd s) of (Status, ring, w1) \<Rightarrow>
     if EFI_ERROR Status then (Inl Status, fst s, w1)
     else case VirtioRingMap VirtIo ring w1 of
       (Status, None, w2) \<Rightarrow> (Inl Status, fst s, snd (VirtioRingUninit VirtIo ring w2))
     | (Status, Some (RingBaseShift, RingMap), w2) \<Rightarrow>
         (case ProgramQueue VirtIo Features q ring RingBaseShift registers (fst s, w2) of
            (Inl Status, NextDevStat, w3) \<Rightarrow>
              (Inl Status, NextDevStat, snd (VirtioRingUninit VirtIo ring (snd (UnmapSharedBuffer VirtIo RingMap w3))))
          | (Inr _, s3) \<Rightarrow> (Inr (ring, RingMap), s3)))"

text \<open>A whole set-up function, with its label \<open>Failed\<close>.\<close>

definition RunSetup :: "('d, 'map) VIRTIO_DEVICE_PROTOCOL \<Rightarrow> ('d, 'a) init_step \<Rightarrow> 'd world \<Rightarrow> (EFI_STATUS + 'a) \<times> 'd world" where
  "RunSetup VirtIo f w =
    (case f (0, w) of
       (Inl Status, NextDevStat, w1) \<Rightarrow> (Inl Status, snd (SetDeviceStatus VirtIo (or NextDevStat VSTAT_FAILED) w1))
     | (Inr x, NextDevStat, w1) \<Rightarrow> (Inr x, w1))"

text \<open>Reset the device, then release the ring.\<close>

definition ReleaseRing :: "('d, 'map) VIRTIO_DEVICE_PROTOCOL \<Rightarrow> VRING \<Rightarrow> 'map \<Rightarrow> 'd world \<Rightarrow> 'd world" where
  "ReleaseRing VirtIo ring RingMap w =
    snd (VirtioRingUninit VirtIo ring (snd (UnmapSharedBuffer VirtIo RingMap (snd (SetDeviceStatus VirtIo 0 w)))))"

section \<open>Shared buffers around a request\<close>

text \<open>
  The pattern "obtain, run the rest, release on the way out": \<open>failed\<close> is the path when the
  resource cannot be had; \<open>fin\<close> sees the status of the release and the result of the rest.
\<close>

definition with_mapped ::
  "('d, 'map) VIRTIO_DEVICE_PROTOCOL \<Rightarrow> VIRTIO_MAP_OPERATION \<Rightarrow> nat \<Rightarrow> nat \<Rightarrow> 'r \<Rightarrow> (EFI_STATUS \<Rightarrow> 'r \<Rightarrow> 'r)
   \<Rightarrow> (u64 \<Rightarrow> 'd world \<Rightarrow> ('r \<times> 'd world) run) \<Rightarrow> 'd world \<Rightarrow> ('r \<times> 'd world) run" where
  "with_mapped VirtIo Operation HostAddress n failed fin body w =
    (case VirtioMapAllBytesInSharedBuffer VirtIo Operation HostAddress n w of
       (Status, None, w1) \<Rightarrow> Some (Ok (failed, w1))
     | (Status, Some (DeviceAddress, Mapping), w1) \<Rightarrow>
         run_bind (body DeviceAddress w1) (\<lambda>(r, w2).
           case UnmapSharedBuffer VirtIo Mapping w2 of (UnmapStatus, w3) \<Rightarrow> Some (Ok (fin UnmapStatus r, w3))))"

definition with_pages ::
  "('d, 'map) VIRTIO_DEVICE_PROTOCOL \<Rightarrow> nat \<Rightarrow> 'r \<Rightarrow> (nat \<Rightarrow> 'd world \<Rightarrow> ('r \<times> 'd world) run) \<Rightarrow> 'd world \<Rightarrow> ('r \<times> 'd world) run" where
  "with_pages VirtIo n failed body w =
    (case AllocateSharedPages VirtIo n w of (Status, Buffer, w1) \<Rightarrow>
       if EFI_ERROR Status then Some (Ok (failed, w1))
       else run_bind (body Buffer w1) (\<lambda>(r, w2). Some (Ok (r, FreeSharedPages VirtIo n Buffer w2))))"

section \<open>Driver binding\<close>

text \<open>The boot services the binding functions use; \<open>OpenInterface\<close> only looks the installed
  protocol up.\<close>

record 'd binding_services =
  AllocateZeroPool :: "'d world \<Rightarrow> nat option \<times> 'd world"
  FreePool :: "nat \<Rightarrow> 'd world \<Rightarrow> 'd world"
  OpenVirtIo :: "'d world \<Rightarrow> EFI_STATUS \<times> 'd world"
  CloseVirtIo :: "'d world \<Rightarrow> 'd world"
  CreateExitBoot :: "'d world \<Rightarrow> EFI_STATUS \<times> nat \<times> 'd world"
  CloseEvent :: "nat \<Rightarrow> 'd world \<Rightarrow> 'd world"
  InstallInterface :: "'d world \<Rightarrow> EFI_STATUS \<times> 'd world"
  UninstallInterface :: "'d world \<Rightarrow> EFI_STATUS \<times> 'd world"
  OpenInterface :: "'d world \<Rightarrow> EFI_STATUS \<times> 'd world"

definition BindingSupported ::
  "'d binding_services \<Rightarrow> ('d, 'map) VIRTIO_DEVICE_PROTOCOL \<Rightarrow> nat \<Rightarrow> 'd world \<Rightarrow> EFI_STATUS \<times> 'd world" where
  "BindingSupported bs VirtIo subsystem w =
    (case OpenVirtIo bs w of (Status, w1) \<Rightarrow>
      if EFI_ERROR Status then (Status, w1)
      else (if SubSystemDeviceId VirtIo \<noteq> subsystem then EFI_UNSUPPORTED else Status, CloseVirtIo bs w1))"

text \<open>An installed driver: its pool block, its event and its device state.\<close>

definition BindingStart ::
  "'d binding_services \<Rightarrow> ('d world \<Rightarrow> (EFI_STATUS + 'dev) \<times> 'd world) \<Rightarrow> ('dev \<Rightarrow> 'd world \<Rightarrow> 'd world)
   \<Rightarrow> 'd world \<Rightarrow> (EFI_STATUS + nat \<times> nat \<times> 'dev) \<times> 'd world" where
  "BindingStart bs init uninit w =
    (case AllocateZeroPool bs w of
       (None, w1) \<Rightarrow> (Inl EFI_OUT_OF_RESOURCES, w1)
     | (Some p, w1) \<Rightarrow>
         (case OpenVirtIo bs w1 of (Status, w2) \<Rightarrow>
          if EFI_ERROR Status then (Inl Status, FreePool bs p w2)
          else case init w2 of
            (Inl Status, w3) \<Rightarrow> (Inl Status, FreePool bs p (CloseVirtIo bs w3))
          | (Inr Dev, w3) \<Rightarrow>
              (case CreateExitBoot bs w3 of (Status, ExitBoot, w4) \<Rightarrow>
               if EFI_ERROR Status then (Inl Status, FreePool bs p (CloseVirtIo bs (uninit Dev w4)))
               else case InstallInterface bs w4 of (Status, w5) \<Rightarrow>
                 if EFI_ERROR Status
                 then (Inl Status, FreePool bs p (CloseVirtIo bs (uninit Dev (CloseEvent bs ExitBoot w5))))
                 else (Inr (p, ExitBoot, Dev), w5))))"

definition BindingStop ::
  "'d binding_services \<Rightarrow> ('dev \<Rightarrow> 'd world \<Rightarrow> 'd world) \<Rightarrow> nat \<times> nat \<times> 'dev \<Rightarrow> 'd world \<Rightarrow> EFI_STATUS \<times> 'd world" where
  "BindingStop bs uninit inst w =
    (case inst of (p, ExitBoot, Dev) \<Rightarrow>
     case OpenInterface bs w of (Status, w1) \<Rightarrow>
     if EFI_ERROR Status then (Status, w1)
     else case UninstallInterface bs w1 of (Status, w2) \<Rightarrow>
       if EFI_ERROR Status then (Status, w2)
       else (EFI_SUCCESS, FreePool bs p (CloseVirtIo bs (uninit Dev (CloseEvent bs ExitBoot w2)))))"

section \<open>What a driver holds\<close>

text \<open>
  Shared pages, mappings, pool blocks, opened protocols, events and installed interfaces,
  observed by \<open>res\<close> on the device side of the world.  A mapping token need not be unique (a
  transport without an IOMMU returns a constant), so they are counted in a multiset.
\<close>

datatype 'map vio_res = SharedPages nat nat | Mapped 'map | PoolBlock nat | VirtIoOpen | ExitBootEvent nat | Interface

definition keeps_call :: "('d \<Rightarrow> 'r) \<Rightarrow> ('d world \<Rightarrow> EFI_STATUS \<times> 'd world) \<Rightarrow> bool" where
  "keeps_call res f \<longleftrightarrow> (\<forall>w. res (snd (snd (f w))) = res (snd w))"

definition keeps_query :: "('d \<Rightarrow> 'r) \<Rightarrow> ('d world \<Rightarrow> EFI_STATUS \<times> 'a \<times> 'd world) \<Rightarrow> bool" where
  "keeps_query res f \<longleftrightarrow> (\<forall>w. res (snd (snd (snd (f w)))) = res (snd w))"

text \<open>A call that obtains \<open>r x\<close> if it succeeds with \<open>x\<close>.\<close>

definition obtains_res :: "('d \<Rightarrow> 'r multiset) \<Rightarrow> ('d world \<Rightarrow> EFI_STATUS \<times> 'a \<times> 'd world) \<Rightarrow> ('a \<Rightarrow> 'r) \<Rightarrow> bool" where
  "obtains_res res f r \<longleftrightarrow>
    (\<forall>w s x w'. f w = (s, x, w') \<longrightarrow> res (snd w') = (if EFI_ERROR s then res (snd w) else add_mset (r x) (res (snd w))))"

definition vio_ok :: "('d, 'map) VIRTIO_DEVICE_PROTOCOL \<Rightarrow> ('d \<Rightarrow> 'map vio_res multiset) \<Rightarrow> bool" where
  "vio_ok VirtIo res \<longleftrightarrow>
    (\<forall>f. keeps_call res (SetGuestFeatures VirtIo f)) \<and> (\<forall>s. keeps_call res (SetDeviceStatus VirtIo s)) \<and>
    (\<forall>s. keeps_query res (GetDeviceStatus VirtIo s)) \<and> (\<forall>q. keeps_call res (SetQueueNotify VirtIo q)) \<and>
    (\<forall>n. obtains_res res (AllocateSharedPages VirtIo n) (SharedPages n)) \<and>
    (\<forall>n a w. res (snd (FreeSharedPages VirtIo n a w)) = res (snd w) - {#SharedPages n a#}) \<and>
    (\<forall>q p n. obtains_res res (MapSharedBuffer VirtIo q p n) (\<lambda>x. Mapped (snd (snd x)))) \<and>
    (\<forall>mi w. res (snd (snd (UnmapSharedBuffer VirtIo mi w))) = res (snd w) - {#Mapped mi#}) \<and>
    keeps_query res (GetDeviceFeatures VirtIo) \<and> (\<forall>n. keeps_call res (SetPageSize VirtIo n)) \<and>
    (\<forall>q. keeps_call res (SetQueueSel VirtIo q)) \<and> keeps_query res (GetQueueNumMax VirtIo) \<and>
    (\<forall>q. keeps_call res (SetQueueNum VirtIo q)) \<and> (\<forall>n. keeps_call res (SetQueueAlign VirtIo n)) \<and>
    (\<forall>r s. keeps_call res (SetQueueAddress VirtIo r s)) \<and> (\<forall>p n. keeps_query res (ReadDevice VirtIo p n)) \<and>
    (\<forall>p n v. keeps_call res (WriteDevice VirtIo p n v))"

lemma vio_keeps:
  assumes "vio_ok VirtIo res"
  shows "keeps_call res (SetGuestFeatures VirtIo f)" "keeps_call res (SetDeviceStatus VirtIo s)" "keeps_query res (GetDeviceStatus VirtIo s)"
    "keeps_call res (SetQueueNotify VirtIo q)" "keeps_query res (GetDeviceFeatures VirtIo)" "keeps_call res (SetPageSize VirtIo n)"
    "keeps_call res (SetQueueSel VirtIo q)" "keeps_query res (GetQueueNumMax VirtIo)" "keeps_call res (SetQueueNum VirtIo q)"
    "keeps_call res (SetQueueAlign VirtIo n)" "keeps_call res (SetQueueAddress VirtIo r sh)" "keeps_query res (ReadDevice VirtIo p n)"
    "keeps_call res (WriteDevice VirtIo p n v)"
  using assms by (simp_all add: vio_ok_def)

lemma vio_obtains:
  assumes "vio_ok VirtIo res"
  shows "obtains_res res (AllocateSharedPages VirtIo n) (SharedPages n)"
    "obtains_res res (MapSharedBuffer VirtIo q p n) (\<lambda>x. Mapped (snd (snd x)))"
    "res (snd (FreeSharedPages VirtIo n a w)) = res (snd w) - {#SharedPages n a#}"
    "res (snd (snd (UnmapSharedBuffer VirtIo mi w))) = res (snd w) - {#Mapped mi#}"
  using assms by (simp_all add: vio_ok_def del: split_paired_All)

lemma keeps_callD: "keeps_call res f \<Longrightarrow> f w = (s, w') \<Longrightarrow> res (snd w') = res (snd w)"
  unfolding keeps_call_def by (metis snd_conv)

lemma keeps_queryD: "keeps_query res f \<Longrightarrow> f w = (s, x, w') \<Longrightarrow> res (snd w') = res (snd w)"
  unfolding keeps_query_def by (metis snd_conv)

lemma obtains_resD: "obtains_res res f r \<Longrightarrow> f w = (s, x, w') \<Longrightarrow> res (snd w') = (if EFI_ERROR s then res (snd w) else add_mset (r x) (res (snd w)))"
  unfolding obtains_res_def by (metis snd_conv)

subsection \<open>Set-up steps\<close>

definition es_keeps :: "('d \<Rightarrow> 'r) \<Rightarrow> ('d, 'a) init_step \<Rightarrow> bool" where
  "es_keeps res f \<longleftrightarrow> (\<forall>s. res (snd (snd (snd (f s)))) = res (snd (snd s)))"

lemma es_keepsD: "es_keeps res f \<Longrightarrow> f (st, w) = (r, st', w') \<Longrightarrow> res (snd w') = res (snd w)"
  unfolding es_keeps_def by (metis snd_conv)

lemma es_keeps_intros [intro]:
  "es_keeps res f \<Longrightarrow> (\<And>x. es_keeps res (g x)) \<Longrightarrow> es_keeps res (es_bind f g)"
  "es_keeps res (es_ret y)" "es_keeps res (es_fail st)"
  "keeps_call res c \<Longrightarrow> es_keeps res (es_call c)" "keeps_query res q \<Longrightarrow> es_keeps res (es_query q)"
  by (auto simp: es_keeps_def es_bind_def es_ret_def es_fail_def es_call_def es_query_def keeps_call_def keeps_query_def
      split: prod.splits sum.splits) (metis snd_conv)+

lemma es_keeps_add_status [intro]: "vio_ok V res \<Longrightarrow> es_keeps res (add_status V b)"
  using es_keeps_intros(4) [OF vio_keeps(2)] unfolding es_keeps_def add_status_def Let_def by (metis snd_conv)

lemma es_keeps_if [intro]: "es_keeps res f \<Longrightarrow> es_keeps res g \<Longrightarrow> es_keeps res (if b then f else g)"
  by simp

lemma es_keeps_start [intro]: "vio_ok V res \<Longrightarrow> es_keeps res (StartDevice V)"
  unfolding StartDevice_def by (intro es_keeps_intros es_keeps_add_status vio_keeps)

lemma Virtio10WriteFeatures_res:
  assumes "vio_ok V res" and "Virtio10WriteFeatures V f st w = (s, st', w')"
  shows "res (snd w') = res (snd w)"
  using assms(2) by (auto simp: Virtio10WriteFeatures_def Let_def split: if_splits prod.splits
      dest!: keeps_callD [OF vio_keeps(1) [OF assms(1)]] keeps_callD [OF vio_keeps(2) [OF assms(1)]] keeps_queryD [OF vio_keeps(3) [OF assms(1)]])

lemma es_keeps_select [intro]:
  assumes "vio_ok V res"
  shows "es_keeps res (SelectQueue V f q n)"
proof -
  have "es_keeps res (WriteFeatures10 V f)"
    using Virtio10WriteFeatures_res [OF assms] unfolding es_keeps_def WriteFeatures10_def by (auto split: prod.splits)
  then show ?thesis unfolding SelectQueue_def by (intro es_keeps_intros es_keeps_if vio_keeps assms)
qed

lemma es_keeps_program [intro]: "vio_ok V res \<Longrightarrow> es_keeps res r \<Longrightarrow> es_keeps res (ProgramQueue V f q ring sh r)"
  unfolding ProgramQueue_def by (intro es_keeps_intros es_keeps_add_status es_keeps_if vio_keeps)

lemma es_bind_InrE:
  assumes "es_bind f g s = (Inr y, s')"
  obtains x s1 where "f s = (Inr x, s1)" "g x s1 = (Inr y, s')"
  using assms by (auto simp: es_bind_def split: prod.splits sum.splits)

lemma es_bind_keeps:
  assumes "es_keeps res f" and "es_bind f g s = (y, s')"
  obtains (failed) e where "y = Inl e" "res (snd (snd s')) = res (snd (snd s))"
    | (rest) x s1 where "f s = (Inr x, s1)" "res (snd (snd s1)) = res (snd (snd s))" "g x s1 = (y, s')"
proof -
  obtain r s1 where f: "f s = (r, s1)" by (cases "f s")
  then have "res (snd (snd s1)) = res (snd (snd s))" using assms(1) unfolding es_keeps_def by (metis snd_conv)
  then show thesis using assms(2) f failed rest by (cases r) (auto simp: es_bind_def)
qed

lemma SetUpRing_queue: "SetUpRing V f q r s = (Inr (ring, mi), s') \<Longrightarrow> QueueSize ring = q"
  by (auto simp: SetUpRing_def VirtioRingInit_def Let_def split: prod.splits if_splits option.splits sum.splits)

lemma SelectQueue_min: "SelectQueue V f q n s = (Inr x, s') \<Longrightarrow> n \<le> x"
  by (auto simp: SelectQueue_def es_ret_def es_fail_def split: if_splits elim!: es_bind_InrE)

subsection \<open>Rings\<close>

lemma VirtioMapAll_res:
  assumes ok: "vio_ok V res" and r: "VirtioMapAllBytesInSharedBuffer V q p n w = (s, x, w')"
  shows "res (snd w') = (case x of None \<Rightarrow> res (snd w) | Some (a, mi) \<Rightarrow> add_mset (Mapped mi) (res (snd w)))"
proof -
  obtain t z a mi w1 where m: "MapSharedBuffer V q p n w = (t, (z, a, mi), w1)" by (metis surj_pair)
  show ?thesis using r m obtains_resD [OF vio_obtains(2) [OF ok] m] vio_obtains(4) [OF ok, of mi w1]
    by (auto simp: VirtioMapAllBytesInSharedBuffer_def split: if_splits)
qed

lemma VirtioRingMap_res:
  assumes ok: "vio_ok V res" and r: "VirtioRingMap V ring w = (s, x, w')"
  shows "res (snd w') = (case x of None \<Rightarrow> res (snd w) | Some (a, mi) \<Rightarrow> add_mset (Mapped mi) (res (snd w)))"
proof -
  obtain t y w1 where m: "VirtioMapAllBytesInSharedBuffer V VirtioOperationBusMasterCommonBuffer (Base ring) (EFI_PAGES_TO_SIZE (NumPages ring)) w = (t, y, w1)"
    by (metis prod_cases3)
  then have "y \<noteq> None \<Longrightarrow> t = EFI_SUCCESS" by (auto simp: VirtioMapAllBytesInSharedBuffer_def split: prod.splits if_splits)
  then show ?thesis using r m VirtioMapAll_res [OF ok m] by (auto simp: VirtioRingMap_def split: option.splits prod.splits)
qed

lemma VirtioRingInit_res:
  assumes ok: "vio_ok V res" and r: "VirtioRingInit V q ring0 w = (s, ring, w')"
  shows "res (snd w') = (if EFI_ERROR s then res (snd w) else add_mset (SharedPages (NumPages ring) (Base ring)) (res (snd w)))"
proof -
  let ?n = "EFI_SIZE_TO_PAGES (VirtioRingSize (unat q))"
  obtain t a w1 where m: "AllocateSharedPages V ?n w = (t, a, w1)" by (metis prod_cases3)
  show ?thesis using r m obtains_resD [OF vio_obtains(1) [OF ok] m]
    by (auto simp: VirtioRingInit_def VirtioRingPointers_def Let_def split: if_splits prod.splits)
qed

lemma VirtioRingUninit_res: "vio_ok V res \<Longrightarrow> res (snd (snd (VirtioRingUninit V ring w))) = res (snd w) - {#SharedPages (NumPages ring) (Base ring)#}"
  by (simp add: VirtioRingUninit_def vio_obtains(3))

definition ring_res :: "VRING \<Rightarrow> 'map \<Rightarrow> 'map vio_res multiset" where
  "ring_res ring mi = {#Mapped mi, SharedPages (NumPages ring) (Base ring)#}"

lemma SetUpRing_res:
  assumes ok: "vio_ok V res" and k: "es_keeps res registers" and r: "SetUpRing V f q registers s = (x, st, w')"
  shows "res (snd w') = (case x of Inl e \<Rightarrow> res (snd (snd s)) | Inr (ring, mi) \<Rightarrow> ring_res ring mi + res (snd (snd s)))"
proof -
  obtain t ring w1 where i: "VirtioRingInit V q zero_VRING (snd s) = (t, ring, w1)" by (metis prod_cases3)
  obtain t2 y w2 where m: "VirtioRingMap V ring w1 = (t2, y, w2)" by (metis prod_cases3)
  note i' = VirtioRingInit_res [OF ok i] and m' = VirtioRingMap_res [OF ok m]
  show ?thesis
  proof (cases "EFI_ERROR t \<or> y = None")
    case True
    then show ?thesis using r i m i' m' by (auto simp: SetUpRing_def VirtioRingUninit_res [OF ok] split: if_splits)
  next
    case False
    then obtain sh mi where y: "y = Some (sh, mi)" "\<not> EFI_ERROR t" by auto
    obtain z st3 w3 where p: "ProgramQueue V f q ring sh registers (fst s, w2) = (z, st3, w3)" by (metis prod_cases3)
    have "res (snd w3) = res (snd w2)" using es_keepsD [OF es_keeps_program [OF ok k] p] .
    then show ?thesis using r i m p i' m' y
      by (cases z) (auto simp: SetUpRing_def ring_res_def VirtioRingUninit_res [OF ok] vio_obtains(4) [OF ok])
  qed
qed

lemma ReleaseRing_res: "vio_ok V res \<Longrightarrow> res (snd (ReleaseRing V ring mi w)) = res (snd w) - ring_res ring mi"
proof -
  assume ok: "vio_ok V res"
  have "res (snd (snd (SetDeviceStatus V 0 w))) = res (snd w)" using vio_keeps(2) [OF ok, of 0] unfolding keeps_call_def by blast
  then show ?thesis by (simp add: ReleaseRing_def ring_res_def VirtioRingUninit_res [OF ok] vio_obtains(4) [OF ok] add_mset_commute)
qed

lemma RunSetup_res:
  assumes ok: "vio_ok V res" and r: "RunSetup V f w = (x, w')"
  shows "\<exists>y st w1. f (0, w) = (y, st, w1) \<and> res (snd w') = res (snd w1) \<and> x = y"
proof -
  have k: "res (snd (snd (SetDeviceStatus V b v))) = res (snd v)" for b v using vio_keeps(2) [OF ok, of b] unfolding keeps_call_def by blast
  show ?thesis using r k by (auto simp: RunSetup_def split: prod.splits sum.splits)
qed

subsection \<open>Requests\<close>

definition balanced :: "('d \<Rightarrow> 'r) \<Rightarrow> ('d world \<Rightarrow> ('x \<times> 'd world) run) \<Rightarrow> bool" where
  "balanced res f \<longleftrightarrow> (\<forall>w x w'. f w = Some (Ok (x, w')) \<longrightarrow> res (snd w') = res (snd w))"

lemma balancedD: "balanced res f \<Longrightarrow> f w = Some (Ok (x, w')) \<Longrightarrow> res (snd w') = res (snd w)"
  unfolding balanced_def by blast

lemma balanced_mem: "balanced res f \<Longrightarrow> balanced res (\<lambda>w. f (g (fst w), snd w))"
  unfolding balanced_def by auto

lemma balanced_assert: "balanced res f \<Longrightarrow> balanced res (\<lambda>w. if c then Some AssertFailed else f w)"
  unfolding balanced_def by auto

lemma balanced_if: "balanced res f \<Longrightarrow> balanced res g \<Longrightarrow> balanced res (if c then f else g)"
  by simp

lemma balanced_with_mapped [intro]:
  assumes ok: "vio_ok V res" and b: "\<And>a. balanced res (body a)"
  shows "balanced res (with_mapped V q p n failed fin body)"
  unfolding balanced_def
proof (intro allI impI)
  fix w x w'
  assume r: "with_mapped V q p n failed fin body w = Some (Ok (x, w'))"
  obtain t y w1 where m: "VirtioMapAllBytesInSharedBuffer V q p n w = (t, y, w1)" by (metis prod_cases3)
  show "res (snd w') = res (snd w)"
  proof (cases y)
    case None
    then show ?thesis using r m VirtioMapAll_res [OF ok m] by (simp add: with_mapped_def)
  next
    case (Some z)
    then obtain a mi where y: "y = Some (a, mi)" by (cases z) simp
    then obtain v w2 where v: "body a w1 = Some (Ok (v, w2))" "w' = snd (UnmapSharedBuffer V mi w2)"
      using r m by (auto simp: with_mapped_def elim!: run_bind_OkE split: prod.splits)
    show ?thesis using VirtioMapAll_res [OF ok m] y balancedD [OF b v(1)] v(2) vio_obtains(4) [OF ok, of mi w2] by simp
  qed
qed

lemma balanced_with_pages [intro]:
  assumes ok: "vio_ok V res" and b: "\<And>a. balanced res (body a)"
  shows "balanced res (with_pages V n failed body)"
  unfolding balanced_def
proof (intro allI impI)
  fix w x w'
  assume r: "with_pages V n failed body w = Some (Ok (x, w'))"
  obtain t a w1 where m: "AllocateSharedPages V n w = (t, a, w1)" by (metis prod_cases3)
  note o1 = obtains_resD [OF vio_obtains(1) [OF ok] m]
  show "res (snd w') = res (snd w)"
  proof (cases "EFI_ERROR t")
    case True
    then show ?thesis using r m o1 by (simp add: with_pages_def)
  next
    case False
    then obtain v w2 where v: "body a w1 = Some (Ok (v, w2))" "w' = FreeSharedPages V n a w2"
      using r m by (auto simp: with_pages_def elim!: run_bind_OkE)
    show ?thesis using o1 False balancedD [OF b v(1)] v(2) vio_obtains(3) [OF ok, of n a w2] by simp
  qed
qed

text \<open>An operation that fails no assertion and stays in bounds, in whatever state.\<close>

definition safe :: "('w \<Rightarrow> 'x run) \<Rightarrow> bool" where
  "safe f \<longleftrightarrow> (\<forall>w. f w \<noteq> Some AssertFailed \<and> f w \<noteq> Some OutOfBounds)"

lemma run_bind_safe:
  "x \<noteq> Some AssertFailed \<and> x \<noteq> Some OutOfBounds \<Longrightarrow> (\<And>y. x = Some (Ok y) \<Longrightarrow> f y \<noteq> Some AssertFailed \<and> f y \<noteq> Some OutOfBounds) \<Longrightarrow>
   run_bind x f \<noteq> Some AssertFailed \<and> run_bind x f \<noteq> Some OutOfBounds"
  by (cases "(x, f)" rule: run_bind.cases) auto

lemma safe_with_mapped [intro]: "(\<And>a. safe (body a)) \<Longrightarrow> safe (with_mapped V q p n e fin body)"
  unfolding safe_def with_mapped_def by (auto split: prod.splits option.splits elim!: run_bind.elims)

lemma safe_with_pages [intro]: "(\<And>a. safe (body a)) \<Longrightarrow> safe (with_pages V n e body)"
  unfolding safe_def with_pages_def by (auto split: prod.splits if_splits elim!: run_bind.elims)

lemma safe_mem: "safe f \<Longrightarrow> safe (\<lambda>w. f (g w))"
  by (simp add: safe_def)

lemma safe_if: "safe f \<Longrightarrow> safe g \<Longrightarrow> safe (if c then f else g)"
  by simp

lemma safe_assert: "\<not> c \<Longrightarrow> safe f \<Longrightarrow> safe (\<lambda>w. if c then Some AssertFailed else f w)"
  by simp

lemma VirtioFlush_safe: "safe (VirtioFlush Stall V q ring I False)"
  unfolding safe_def VirtioFlush_def by (auto split: prod.splits option.splits if_splits)

lemma stall_n_res: "(\<And>p w. res (snd (Stall p w)) = res (snd w)) \<Longrightarrow> res (snd (stall_n Stall k p w)) = res (snd w)"
  by (induction k arbitrary: p w) auto

lemma VirtioFlush_poll_result:
  assumes "VirtioFlush_poll Stall u nxt p w = Some w'"
  shows "\<exists>k. w' = stall_n Stall k p w"
proof -
  obtain k where k: "load_le (fst (stall_n Stall k p w)) u 2 = unat nxt" "\<And>j. j < k \<Longrightarrow> load_le (fst (stall_n Stall j p w)) u 2 \<noteq> unat nxt"
    using exists_least_iff [THEN iffD1, OF VirtioFlush_poll_found [OF assms]] by blast
  then show ?thesis using VirtioFlush_poll_at [OF k] assms by auto
qed

lemma VirtioFlush_res:
  assumes ok: "vio_ok V res" and st: "\<And>p w. res (snd (Stall p w)) = res (snd w)"
    and r: "VirtioFlush Stall V q ring I want w = Some (Ok (s, l, w'))"
  shows "res (snd w') = res (snd w)"
proof -
  obtain m1 nxt lst where p: "VirtioFlush_publish ring I (fst w) = (m1, nxt, lst)" by (metis prod_cases3)
  obtain t w2 where n: "SetQueueNotify V q (m1, snd w) = (t, w2)" by (cases "SetQueueNotify V q (m1, snd w)")
  have w2: "res (snd w2) = res (snd w)" using keeps_callD [OF vio_keeps(4) [OF ok] n] by simp
  show ?thesis
  proof (cases "EFI_ERROR t")
    case True
    then show ?thesis using r p n w2 by (simp add: VirtioFlush_def)
  next
    case False
    then obtain w3 where "VirtioFlush_poll Stall (UsedIdx ring) nxt 1 w2 = Some w3" "w' = w3"
      using r p n by (auto simp: VirtioFlush_def Let_def split: option.splits if_splits)
    then show ?thesis using VirtioFlush_poll_result stall_n_res [of res Stall, OF st] w2 by metis
  qed
qed

section \<open>Start and stop of a driver\<close>

text \<open>The binding services give back exactly what they handed out.\<close>

definition obtains_call :: "('d \<Rightarrow> 'r multiset) \<Rightarrow> ('d world \<Rightarrow> EFI_STATUS \<times> 'd world) \<Rightarrow> 'r \<Rightarrow> bool" where
  "obtains_call res f r \<longleftrightarrow> (\<forall>w s w'. f w = (s, w') \<longrightarrow> res (snd w') = (if EFI_ERROR s then res (snd w) else add_mset r (res (snd w))))"

definition obtains_pool :: "('d \<Rightarrow> 'map vio_res multiset) \<Rightarrow> ('d world \<Rightarrow> nat option \<times> 'd world) \<Rightarrow> bool" where
  "obtains_pool res f \<longleftrightarrow>
    (\<forall>w p w'. f w = (p, w') \<longrightarrow> res (snd w') = (case p of None \<Rightarrow> res (snd w) | Some q \<Rightarrow> add_mset (PoolBlock q) (res (snd w))))"

definition releases :: "('d \<Rightarrow> 'r multiset) \<Rightarrow> ('d world \<Rightarrow> 'd world) \<Rightarrow> 'r \<Rightarrow> bool" where
  "releases res f r \<longleftrightarrow> (\<forall>w. res (snd (f w)) = res (snd w) - {#r#})"

definition releases_call :: "('d \<Rightarrow> 'r multiset) \<Rightarrow> ('d world \<Rightarrow> EFI_STATUS \<times> 'd world) \<Rightarrow> 'r \<Rightarrow> bool" where
  "releases_call res f r \<longleftrightarrow> (\<forall>w s w'. f w = (s, w') \<longrightarrow> res (snd w') = (if EFI_ERROR s then res (snd w) else res (snd w) - {#r#}))"

definition binding_ok :: "'d binding_services \<Rightarrow> ('d \<Rightarrow> 'map vio_res multiset) \<Rightarrow> bool" where
  "binding_ok bs res \<longleftrightarrow>
    obtains_pool res (AllocateZeroPool bs) \<and> (\<forall>p. releases res (FreePool bs p) (PoolBlock p)) \<and>
    obtains_call res (OpenVirtIo bs) VirtIoOpen \<and> releases res (CloseVirtIo bs) VirtIoOpen \<and>
    obtains_res res (CreateExitBoot bs) ExitBootEvent \<and> (\<forall>e. releases res (CloseEvent bs e) (ExitBootEvent e)) \<and>
    obtains_call res (InstallInterface bs) Interface \<and> releases_call res (UninstallInterface bs) Interface \<and>
    keeps_call res (OpenInterface bs)"

lemma binding_laws:
  assumes "binding_ok bs res"
  shows "obtains_pool res (AllocateZeroPool bs)" "releases res (FreePool bs p) (PoolBlock p)"
    "obtains_call res (OpenVirtIo bs) VirtIoOpen" "releases res (CloseVirtIo bs) VirtIoOpen"
    "obtains_res res (CreateExitBoot bs) ExitBootEvent" "releases res (CloseEvent bs e) (ExitBootEvent e)"
    "obtains_call res (InstallInterface bs) Interface" "releases_call res (UninstallInterface bs) Interface"
    "keeps_call res (OpenInterface bs)"
  using assms by (simp_all add: binding_ok_def)

lemmas binding_okD =
  obtains_pool_def [THEN iffD1, OF binding_laws(1), rule_format]
  releases_def [THEN iffD1, OF binding_laws(2), rule_format]
  obtains_call_def [THEN iffD1, OF binding_laws(3), rule_format]
  releases_def [THEN iffD1, OF binding_laws(4), rule_format]
  obtains_resD [OF binding_laws(5)]
  releases_def [THEN iffD1, OF binding_laws(6), rule_format]
  obtains_call_def [THEN iffD1, OF binding_laws(7), rule_format]
  releases_call_def [THEN iffD1, OF binding_laws(8), rule_format]
  keeps_callD [OF binding_laws(9)]

text \<open>
  A driver is a set-up function and its inverse: a failed set-up holds nothing, a
  successful one holds the ring of the device state it returns, which the inverse releases.
\<close>

locale virtio_driver =
  fixes init :: "('d, 'map) VIRTIO_DEVICE_PROTOCOL \<Rightarrow> 'd world \<Rightarrow> (EFI_STATUS + 'dev) \<times> 'd world"
    and uninit :: "('d, 'map) VIRTIO_DEVICE_PROTOCOL \<Rightarrow> 'dev \<Rightarrow> 'd world \<Rightarrow> 'd world"
    and owned :: "'dev \<Rightarrow> 'map vio_res multiset"
  assumes init_fail: "vio_ok V res \<Longrightarrow> init V w = (Inl s, w') \<Longrightarrow> res (snd w') = res (snd w)"
    and init_done: "vio_ok V res \<Longrightarrow> init V w = (Inr Dev, w') \<Longrightarrow> res (snd w') = owned Dev + res (snd w)"
    and uninit_res: "vio_ok V res \<Longrightarrow> res (snd (uninit V Dev w)) = res (snd w) - owned Dev"
begin

lemma start_res:
  assumes ok: "vio_ok V res" and b: "binding_ok bs res" and r: "BindingStart bs (init V) (uninit V) w = (x, w')"
  shows "res (snd w') = (case x of Inl s \<Rightarrow> res (snd w)
    | Inr (p, e, Dev) \<Rightarrow> {#PoolBlock p, VirtIoOpen, ExitBootEvent e, Interface#} + owned Dev + res (snd w))"
proof -
  note D = binding_okD [OF b]
  obtain p w1 where a: "AllocateZeroPool bs w = (p, w1)" by (cases "AllocateZeroPool bs w")
  obtain s2 w2 where o2: "OpenVirtIo bs w1 = (s2, w2)" by (cases "OpenVirtIo bs w1")
  obtain y w3 where i: "init V w2 = (y, w3)" by (cases "init V w2")
  obtain s4 e w4 where c: "CreateExitBoot bs w3 = (s4, e, w4)" by (metis prod_cases3)
  obtain s5 w5 where n: "InstallInterface bs w4 = (s5, w5)" by (cases "InstallInterface bs w4")
  note facts = a o2 i c n D(1) [OF a] D(3) [OF o2] D(5) [OF c] D(7) [OF n]
  show ?thesis
  proof (cases "p = None \<or> EFI_ERROR s2 \<or> (\<exists>s. y = Inl s)")
    case True
    then show ?thesis using r facts init_fail [OF ok, of w2 _ w3]
      by (auto simp: BindingStart_def D(2,4) split: if_splits option.splits)
  next
    case False
    then obtain q Dev where y: "p = Some q" "y = Inr Dev" "\<not> EFI_ERROR s2" by (cases y) auto
    have "res (snd w3) = owned Dev + res (snd w2)" using init_done [OF ok] i y(2) by simp
    then show ?thesis using r facts y
      by (auto simp: BindingStart_def D(2,4,6) uninit_res [OF ok] split: if_splits)
  qed
qed

lemma stop_res:
  assumes ok: "vio_ok V res" and b: "binding_ok bs res"
    and h: "res (snd w) = {#PoolBlock p, VirtIoOpen, ExitBootEvent e, Interface#} + owned Dev + R"
    and r: "BindingStop bs (uninit V) (p, e, Dev) w = (s, w')"
  shows "if EFI_ERROR s then res (snd w') = res (snd w) else res (snd w') = R"
proof -
  note D = binding_okD [OF b]
  obtain s1 w1 where o1: "OpenInterface bs w = (s1, w1)" by (cases "OpenInterface bs w")
  obtain s2 w2 where u: "UninstallInterface bs w1 = (s2, w2)" by (cases "UninstallInterface bs w1")
  show ?thesis using r o1 u D(9) [OF o1] D(8) [OF u] h
    by (auto simp: BindingStop_def D(2,4,6) uninit_res [OF ok] split: if_splits)
qed

lemma start_stop_res:
  assumes ok: "vio_ok V res" and b: "binding_ok bs res" and r: "BindingStart bs (init V) (uninit V) w = (Inr inst, w1)"
    and h: "res (snd w2) = res (snd w1)" and s: "BindingStop bs (uninit V) inst w2 = (EFI_SUCCESS, w3)"
  shows "res (snd w3) = res (snd w)"
proof -
  obtain p e Dev where i: "inst = (p, e, Dev)" by (metis prod_cases3)
  have "res (snd w2) = {#PoolBlock p, VirtIoOpen, ExitBootEvent e, Interface#} + owned Dev + res (snd w)"
    using start_res [OF ok b r] h i by simp
  from stop_res [OF ok b this, of EFI_SUCCESS w3] show ?thesis using s i by simp
qed

end

section \<open>A device that keeps accounts\<close>

text \<open>For the witnesses: the device state is the multiset of what is held; the event for the end of
  boot services cannot be created.\<close>

definition book_dev :: "(unit vio_res multiset, unit) VIRTIO_DEVICE_PROTOCOL" where
  "book_dev = \<lparr>Revision = 0x01000000, SetGuestFeatures = (\<lambda>_ w. (EFI_SUCCESS, w)), SetDeviceStatus = (\<lambda>_ w. (EFI_SUCCESS, w)),
     GetDeviceStatus = (\<lambda>s w. (EFI_SUCCESS, s, w)), SetQueueNotify = (\<lambda>_ w. (EFI_SUCCESS, w)),
     AllocateSharedPages = (\<lambda>n w. (EFI_SUCCESS, 8192, fst w, add_mset (SharedPages n 8192) (snd w))),
     FreeSharedPages = (\<lambda>n a w. (fst w, snd w - {#SharedPages n a#})),
     MapSharedBuffer = (\<lambda>_ p n w. (EFI_SUCCESS, (n, of_nat p, ()), fst w, add_mset (Mapped ()) (snd w))),
     UnmapSharedBuffer = (\<lambda>mi w. (EFI_SUCCESS, fst w, snd w - {#Mapped mi#})),
     SubSystemDeviceId = 2, GetDeviceFeatures = (\<lambda>w. (EFI_SUCCESS, 0x100000000, w)), SetPageSize = (\<lambda>_ w. (EFI_SUCCESS, w)),
     SetQueueSel = (\<lambda>_ w. (EFI_SUCCESS, w)), GetQueueNumMax = (\<lambda>w. (EFI_SUCCESS, 4, w)), SetQueueNum = (\<lambda>_ w. (EFI_SUCCESS, w)),
     SetQueueAlign = (\<lambda>_ w. (EFI_SUCCESS, w)), SetQueueAddress = (\<lambda>_ _ w. (EFI_SUCCESS, w)),
     ReadDevice = (\<lambda>_ _ w. (EFI_SUCCESS, 64, w)), WriteDevice = (\<lambda>_ _ _ w. (EFI_SUCCESS, w))\<rparr>"

definition book_bs :: "unit vio_res multiset binding_services" where
  "book_bs = \<lparr>AllocateZeroPool = (\<lambda>w. (Some 1, fst w, add_mset (PoolBlock 1) (snd w))), FreePool = (\<lambda>p w. (fst w, snd w - {#PoolBlock p#})),
     OpenVirtIo = (\<lambda>w. (EFI_SUCCESS, fst w, add_mset VirtIoOpen (snd w))), CloseVirtIo = (\<lambda>w. (fst w, snd w - {#VirtIoOpen#})),
     CreateExitBoot = (\<lambda>w. (EFI_OUT_OF_RESOURCES, 0, w)), CloseEvent = (\<lambda>e w. (fst w, snd w - {#ExitBootEvent e#})),
     InstallInterface = (\<lambda>w. (EFI_SUCCESS, fst w, add_mset Interface (snd w))),
     UninstallInterface = (\<lambda>w. (EFI_SUCCESS, fst w, snd w - {#Interface#})), OpenInterface = (\<lambda>w. (EFI_SUCCESS, w))\<rparr>"

lemma book_dev_ok: "vio_ok book_dev (\<lambda>d. d)"
  by (auto simp: vio_ok_def book_dev_def keeps_call_def keeps_query_def obtains_res_def)

lemma book_bs_ok: "binding_ok book_bs (\<lambda>d. d)"
  by (auto simp: binding_ok_def book_bs_def obtains_pool_def releases_def obtains_call_def obtains_res_def releases_call_def keeps_call_def)

text \<open>Evaluation of a set-up sequence.\<close>

lemma spec_revision_1: "VIRTIO_SPEC_REVISION 1 0 0 = 0x01000000"
  by code_simp

lemmas setup_eval =
  RunSetup_def es_bind_def StartDevice_def es_call_def es_query_def add_status_def es_ret_def SelectQueue_def WriteFeatures10_def
  Virtio10WriteFeatures_def SetUpRing_def VirtioRingInit_def VirtioRingMap_def VirtioMapAllBytesInSharedBuffer_def ProgramQueue_def
  VSTAT_FEATURES_OK_def VSTAT_ACK_def VSTAT_DRIVER_def spec_revision_1

end
