(* ===== verification/VirtioBlk.thy ===== *)
theory VirtioBlk
  imports VirtioDriver
begin

text \<open>
  Model of \<open>QemuPkg/VirtioBlkDxe/VirtioBlk.c\<close>, the block device driver over a virtqueue:
  checks of a request, the request itself with its shared buffers, the block I/O protocol
  members, set-up and teardown of the device, and driver binding.  The automatic variable
  \<open>Request\<close> lives at the address \<open>RequestAddr\<close>.
\<close>

section \<open>Data\<close>

definition VIRTIO_BLK_F_RO :: u64 where "VIRTIO_BLK_F_RO = 0x20"
definition VIRTIO_BLK_F_BLK_SIZE :: u64 where "VIRTIO_BLK_F_BLK_SIZE = 0x40"
definition VIRTIO_BLK_F_FLUSH :: u64 where "VIRTIO_BLK_F_FLUSH = 0x200"
definition VIRTIO_BLK_F_TOPOLOGY :: u64 where "VIRTIO_BLK_F_TOPOLOGY = 0x400"
definition VIRTIO_BLK_T_IN :: nat where "VIRTIO_BLK_T_IN = 0"
definition VIRTIO_BLK_T_OUT :: nat where "VIRTIO_BLK_T_OUT = 1"
definition VIRTIO_BLK_T_FLUSH :: nat where "VIRTIO_BLK_T_FLUSH = 4"
definition VIRTIO_BLK_S_OK :: u8 where "VIRTIO_BLK_S_OK = 0"
definition VIRTIO_BLK_S_IOERR :: u8 where "VIRTIO_BLK_S_IOERR = 1"
definition SIZE_1GB :: nat where "SIZE_1GB = 0x40000000"
definition VIRTIO_SUBSYSTEM_BLOCK_DEVICE :: nat where "VIRTIO_SUBSYSTEM_BLOCK_DEVICE = 2"

record EFI_BLOCK_IO_MEDIA =
  MediaId :: u32
  RemovableMedia :: bool
  MediaPresent :: bool
  LogicalPartition :: bool
  ReadOnly :: bool
  WriteCaching :: bool
  BlockSize :: u32
  IoAlign :: u32
  LastBlock :: u64
  LowestAlignedLba :: u64
  LogicalBlocksPerPhysicalBlock :: u32
  OptimalTransferLengthGranularity :: u32

text \<open>\<open>BlockIoRevision3\<close> says that \<open>BlockIo.Revision\<close> is \<open>EFI_BLOCK_IO_PROTOCOL_REVISION3\<close>.\<close>

record 'map VBLK_DEV =
  Ring :: VRING
  BlockIoRevision3 :: bool
  BlockIoMedia :: EFI_BLOCK_IO_MEDIA
  RingMap :: 'map

section \<open>Requests\<close>

text \<open>The division by \<open>BlockSize\<close> stops the firmware like an assertion when it is zero.\<close>

definition VerifyReadWriteRequest :: "EFI_BLOCK_IO_MEDIA \<Rightarrow> u64 \<Rightarrow> nat \<Rightarrow> bool \<Rightarrow> EFI_STATUS checked" where
  "VerifyReadWriteRequest Media Lba PositiveBufferSize RequestIsWrite =
    (if \<not> PositiveBufferSize > 0 then AssertFailed
     else if PositiveBufferSize > SIZE_1GB then Ok EFI_BAD_BUFFER_SIZE
     else if BlockSize Media = 0 then AssertFailed
     else if PositiveBufferSize mod unat (BlockSize Media) > 0 then Ok EFI_BAD_BUFFER_SIZE
     else
       let BlockCount = PositiveBufferSize div unat (BlockSize Media)
       in if Lba > LastBlock Media \<or> BlockCount - 1 > unat (LastBlock Media - Lba) then Ok EFI_INVALID_PARAMETER
          else if RequestIsWrite \<and> ReadOnly Media then Ok EFI_WRITE_PROTECTED
          else Ok EFI_SUCCESS)"

text \<open>The packed \<open>VIRTIO_BLK_REQ\<close>: \<open>Type\<close>, \<open>IoPrio\<close>, \<open>Sector\<close>; the product wraps at 64 bits.\<close>

definition BlkRequest :: "u32 \<Rightarrow> u64 \<Rightarrow> nat \<Rightarrow> bool \<Rightarrow> u8 list" where
  "BlkRequest bsize Lba BufferSize RequestIsWrite =
    le_bytes 4 (if RequestIsWrite then (if BufferSize = 0 then VIRTIO_BLK_T_FLUSH else VIRTIO_BLK_T_OUT) else VIRTIO_BLK_T_IN) @
    le_bytes 4 0 @ le_bytes 8 (unat (Lba * ucast (bsize div 512)))"

text \<open>From \<open>VirtioPrepare\<close> to the evaluation of the host's status byte.\<close>

definition SubmitRequest ::
  "(nat \<Rightarrow> 'd world \<Rightarrow> 'd world) \<Rightarrow> ('d, 'map) VIRTIO_DEVICE_PROTOCOL \<Rightarrow> VRING \<Rightarrow> u64 \<Rightarrow> u64 \<Rightarrow> u64 \<Rightarrow> nat \<Rightarrow> nat \<Rightarrow> bool
   \<Rightarrow> 'd world \<Rightarrow> (EFI_STATUS \<times> 'd world) run" where
  "SubmitRequest Stall VirtIo ring RequestDeviceAddress BufferDeviceAddress HostStatusDeviceAddress HostStatus BufferSize RequestIsWrite w =
    (if \<not> QueueSize ring \<ge> 3 then Some AssertFailed
     else if BufferSize > 0 \<and> \<not> BufferSize \<le> SIZE_1GB then Some AssertFailed
     else
       case append_all ring
              ([(RequestDeviceAddress, 16, VRING_DESC_F_NEXT)] @
               (if BufferSize > 0
                then [(BufferDeviceAddress, of_nat BufferSize, or VRING_DESC_F_NEXT (if RequestIsWrite then 0 else VRING_DESC_F_WRITE))] else []) @
               [(HostStatusDeviceAddress, 1, VRING_DESC_F_WRITE)])
              (VirtioPrepare ring (fst w)) of (m1, Indices) \<Rightarrow>
         run_bind (VirtioFlush Stall VirtIo 0 ring Indices False (m1, snd w)) (\<lambda>(Status, _, w2).
           Some (Ok (if Status = EFI_SUCCESS \<and> fst w2 HostStatus = VIRTIO_BLK_S_OK then EFI_SUCCESS else EFI_DEVICE_ERROR, w2))))"

definition SynchronousRequest ::
  "(nat \<Rightarrow> 'd world \<Rightarrow> 'd world) \<Rightarrow> ('d, 'map) VIRTIO_DEVICE_PROTOCOL \<Rightarrow> nat \<Rightarrow> 'map VBLK_DEV \<Rightarrow> u64 \<Rightarrow> nat \<Rightarrow> nat \<Rightarrow> bool
   \<Rightarrow> 'd world \<Rightarrow> (EFI_STATUS \<times> 'd world) run" where
  "SynchronousRequest Stall VirtIo RequestAddr Dev Lba BufferSize Buffer RequestIsWrite w =
    (let bsize = BlockSize (BlockIoMedia Dev)
     in if \<not> bsize > 0 \<or> unat bsize mod 512 \<noteq> 0 \<or> BufferSize mod unat bsize \<noteq> 0 then Some AssertFailed
        else
          with_pages VirtIo (EFI_SIZE_TO_PAGES 1) EFI_DEVICE_ERROR (\<lambda>HostStatus.
          with_mapped VirtIo VirtioOperationBusMasterRead RequestAddr 16 EFI_DEVICE_ERROR (\<lambda>_ Status. Status) (\<lambda>RequestDeviceAddress.
            let rest = (\<lambda>BufferDeviceAddress w1.
              with_mapped VirtIo VirtioOperationBusMasterCommonBuffer HostStatus 1 EFI_DEVICE_ERROR (\<lambda>_ Status. Status)
                (\<lambda>HostStatusDeviceAddress.
                  SubmitRequest Stall VirtIo (Ring Dev) RequestDeviceAddress BufferDeviceAddress HostStatusDeviceAddress HostStatus BufferSize RequestIsWrite)
                ((fst w1)(HostStatus := VIRTIO_BLK_S_IOERR), snd w1))
            in if BufferSize > 0
               then with_mapped VirtIo (if RequestIsWrite then VirtioOperationBusMasterRead else VirtioOperationBusMasterWrite) Buffer BufferSize
                      EFI_DEVICE_ERROR
                      (\<lambda>UnmapStatus Status. if EFI_ERROR UnmapStatus \<and> \<not> RequestIsWrite \<and> \<not> EFI_ERROR Status then EFI_DEVICE_ERROR else Status)
                      rest
               else rest 0))
          (store_bytes (fst w) RequestAddr (BlkRequest bsize Lba BufferSize RequestIsWrite), snd w))"

section \<open>Block I/O protocol\<close>

definition VirtioBlkReset :: "bool \<Rightarrow> EFI_STATUS" where
  "VirtioBlkReset ExtendedVerification = EFI_SUCCESS"

definition VirtioBlkReadBlocks ::
  "(nat \<Rightarrow> 'd world \<Rightarrow> 'd world) \<Rightarrow> ('d, 'map) VIRTIO_DEVICE_PROTOCOL \<Rightarrow> nat \<Rightarrow> 'map VBLK_DEV \<Rightarrow> u64 \<Rightarrow> nat \<Rightarrow> nat
   \<Rightarrow> 'd world \<Rightarrow> (EFI_STATUS \<times> 'd world) run" where
  "VirtioBlkReadBlocks Stall VirtIo RequestAddr Dev Lba BufferSize Buffer w =
    (if BufferSize = 0 then Some (Ok (EFI_SUCCESS, w))
     else run_bind (Some (VerifyReadWriteRequest (BlockIoMedia Dev) Lba BufferSize False)) (\<lambda>Status.
       if EFI_ERROR Status then Some (Ok (Status, w))
       else SynchronousRequest Stall VirtIo RequestAddr Dev Lba BufferSize Buffer False w))"

definition VirtioBlkWriteBlocks ::
  "(nat \<Rightarrow> 'd world \<Rightarrow> 'd world) \<Rightarrow> ('d, 'map) VIRTIO_DEVICE_PROTOCOL \<Rightarrow> nat \<Rightarrow> 'map VBLK_DEV \<Rightarrow> u64 \<Rightarrow> nat \<Rightarrow> nat
   \<Rightarrow> 'd world \<Rightarrow> (EFI_STATUS \<times> 'd world) run" where
  "VirtioBlkWriteBlocks Stall VirtIo RequestAddr Dev Lba BufferSize Buffer w =
    (if BufferSize = 0 then Some (Ok (EFI_SUCCESS, w))
     else run_bind (Some (VerifyReadWriteRequest (BlockIoMedia Dev) Lba BufferSize True)) (\<lambda>Status.
       if EFI_ERROR Status then Some (Ok (Status, w))
       else SynchronousRequest Stall VirtIo RequestAddr Dev Lba BufferSize Buffer True w))"

definition VirtioBlkFlushBlocks ::
  "(nat \<Rightarrow> 'd world \<Rightarrow> 'd world) \<Rightarrow> ('d, 'map) VIRTIO_DEVICE_PROTOCOL \<Rightarrow> nat \<Rightarrow> 'map VBLK_DEV
   \<Rightarrow> 'd world \<Rightarrow> (EFI_STATUS \<times> 'd world) run" where
  "VirtioBlkFlushBlocks Stall VirtIo RequestAddr Dev w =
    (if WriteCaching (BlockIoMedia Dev) then SynchronousRequest Stall VirtIo RequestAddr Dev 0 0 0 True w
     else Some (Ok (EFI_SUCCESS, w)))"

section \<open>Set-up and teardown\<close>

text \<open>Reads of \<open>VIRTIO_BLK_CONFIG\<close>: capacity, block size, topology.  The topology is the
  physical block exponent, the alignment offset and the optimal transfer size.\<close>

definition ReadCapacity :: "('d, 'map) VIRTIO_DEVICE_PROTOCOL \<Rightarrow> ('d, u64) init_step" where
  "ReadCapacity VirtIo =
    es_bind (es_query (ReadDevice VirtIo 0 8)) (\<lambda>v. let NumSectors = of_nat v
      in if NumSectors = 0 then es_fail EFI_UNSUPPORTED else es_ret NumSectors)"

definition ReadBlockSize :: "('d, 'map) VIRTIO_DEVICE_PROTOCOL \<Rightarrow> u64 \<Rightarrow> u64 \<Rightarrow> ('d, u32) init_step" where
  "ReadBlockSize VirtIo Features NumSectors =
    (if and Features VIRTIO_BLK_F_BLK_SIZE \<noteq> 0 then
       es_bind (es_query (ReadDevice VirtIo 20 4)) (\<lambda>v. let bsize = of_nat v :: u32
         in if bsize = 0 \<or> unat bsize mod 512 \<noteq> 0 \<or> unat NumSectors mod (unat bsize div 512) \<noteq> 0
            then es_fail EFI_UNSUPPORTED else es_ret bsize)
     else es_ret 512)"

definition ReadTopology :: "('d, 'map) VIRTIO_DEVICE_PROTOCOL \<Rightarrow> u64 \<Rightarrow> ('d, u8 \<times> u8 \<times> u32) init_step" where
  "ReadTopology VirtIo Features =
    (if and Features VIRTIO_BLK_F_TOPOLOGY \<noteq> 0 then
       es_bind (es_query (ReadDevice VirtIo 24 1)) (\<lambda>x. let PhysicalBlockExp = of_nat x :: u8
         in if PhysicalBlockExp \<ge> 32 then es_fail EFI_UNSUPPORTED
            else es_bind (es_query (ReadDevice VirtIo 25 1)) (\<lambda>y.
                 es_bind (es_query (ReadDevice VirtIo 28 4)) (\<lambda>z. es_ret (PhysicalBlockExp, of_nat y, of_nat z))))
     else es_ret (0, 0, 0))"

definition BlkFeatures :: "u64 \<Rightarrow> u64" where
  "BlkFeatures Features =
    and Features (or VIRTIO_BLK_F_BLK_SIZE (or VIRTIO_BLK_F_TOPOLOGY (or VIRTIO_BLK_F_RO (or VIRTIO_BLK_F_FLUSH
      (or VIRTIO_F_VERSION_1 VIRTIO_F_IOMMU_PLATFORM)))))"

text \<open>The features left after the legacy negotiation, which \<open>BlockIoMedia\<close> is filled from;
  \<open>LowestAlignedLba\<close> and the two fields after it are only set with the topology.\<close>

definition BlkMedia :: "u64 \<Rightarrow> u64 \<Rightarrow> u32 \<Rightarrow> u8 \<times> u8 \<times> u32 \<Rightarrow> EFI_BLOCK_IO_MEDIA" where
  "BlkMedia Features NumSectors bsize topo =
    (let t = and Features VIRTIO_BLK_F_TOPOLOGY \<noteq> 0
     in \<lparr>MediaId = 0, RemovableMedia = False, MediaPresent = True, LogicalPartition = False,
         ReadOnly = (and Features VIRTIO_BLK_F_RO \<noteq> 0), WriteCaching = (and Features VIRTIO_BLK_F_FLUSH \<noteq> 0),
         BlockSize = bsize, IoAlign = 0, LastBlock = NumSectors div ucast (bsize div 512) - 1,
         LowestAlignedLba = (if t then ucast (fst (snd topo)) else 0),
         LogicalBlocksPerPhysicalBlock = (if t then push_bit (unat (fst topo)) 1 else 0),
         OptimalTransferLengthGranularity = (if t then snd (snd topo) else 0)\<rparr>)"

definition VirtioBlkInit :: "('d, 'map) VIRTIO_DEVICE_PROTOCOL \<Rightarrow> 'd world \<Rightarrow> (EFI_STATUS + 'map VBLK_DEV) \<times> 'd world" where
  "VirtioBlkInit VirtIo =
    RunSetup VirtIo
     (es_bind (StartDevice VirtIo) (\<lambda>Features0.
      es_bind (ReadCapacity VirtIo) (\<lambda>NumSectors.
      es_bind (ReadBlockSize VirtIo Features0 NumSectors) (\<lambda>bsize.
      es_bind (ReadTopology VirtIo Features0) (\<lambda>topo.
        let Features = BlkFeatures Features0
        in es_bind (SelectQueue VirtIo Features 0 3) (\<lambda>q.
           es_bind (SetUpRing VirtIo Features q (es_ret ())) (\<lambda>(ring, mi).
             es_ret \<lparr>Ring = ring, BlockIoRevision3 = (and Features VIRTIO_BLK_F_TOPOLOGY \<noteq> 0),
                     BlockIoMedia = BlkMedia Features NumSectors bsize topo, RingMap = mi\<rparr>)))))))"

text \<open>The structures that are zeroed at the end go out of use with the device state.\<close>

definition VirtioBlkUninit :: "('d, 'map) VIRTIO_DEVICE_PROTOCOL \<Rightarrow> 'map VBLK_DEV \<Rightarrow> 'd world \<Rightarrow> 'd world" where
  "VirtioBlkUninit VirtIo Dev = ReleaseRing VirtIo (Ring Dev) (RingMap Dev)"

definition VirtioBlkExitBoot :: "('d, 'map) VIRTIO_DEVICE_PROTOCOL \<Rightarrow> 'd world \<Rightarrow> 'd world" where
  "VirtioBlkExitBoot VirtIo w = snd (SetDeviceStatus VirtIo 0 w)"

definition VirtioBlkDriverBindingSupported ::
  "'d binding_services \<Rightarrow> ('d, 'map) VIRTIO_DEVICE_PROTOCOL \<Rightarrow> 'd world \<Rightarrow> EFI_STATUS \<times> 'd world" where
  "VirtioBlkDriverBindingSupported bs VirtIo = BindingSupported bs VirtIo VIRTIO_SUBSYSTEM_BLOCK_DEVICE"

definition VirtioBlkDriverBindingStart ::
  "'d binding_services \<Rightarrow> ('d, 'map) VIRTIO_DEVICE_PROTOCOL \<Rightarrow> 'd world \<Rightarrow> (EFI_STATUS + nat \<times> nat \<times> 'map VBLK_DEV) \<times> 'd world" where
  "VirtioBlkDriverBindingStart bs VirtIo = BindingStart bs (VirtioBlkInit VirtIo) (VirtioBlkUninit VirtIo)"

definition VirtioBlkDriverBindingStop ::
  "'d binding_services \<Rightarrow> ('d, 'map) VIRTIO_DEVICE_PROTOCOL \<Rightarrow> nat \<times> nat \<times> 'map VBLK_DEV \<Rightarrow> 'd world \<Rightarrow> EFI_STATUS \<times> 'd world" where
  "VirtioBlkDriverBindingStop bs VirtIo = BindingStop bs (VirtioBlkUninit VirtIo)"

section \<open>What the driver holds\<close>

lemma es_keeps_blk_config:
  assumes "vio_ok V res"
  shows "es_keeps res (ReadCapacity V)" "es_keeps res (ReadBlockSize V f n)" "es_keeps res (ReadTopology V f)"
  unfolding ReadCapacity_def ReadBlockSize_def ReadTopology_def Let_def
  by (intro es_keeps_intros es_keeps_if vio_keeps assms)+

lemma VirtioBlkInit_res:
  assumes ok: "vio_ok V res" and r: "VirtioBlkInit V w = (x, w')"
  shows "res (snd w') = (case x of Inl e \<Rightarrow> res (snd w) | Inr Dev \<Rightarrow> ring_res (Ring Dev) (RingMap Dev) + res (snd w))"
proof -
  obtain st w1 where f: "(es_bind (StartDevice V) (\<lambda>Features0. es_bind (ReadCapacity V) (\<lambda>NumSectors.
      es_bind (ReadBlockSize V Features0 NumSectors) (\<lambda>bsize. es_bind (ReadTopology V Features0) (\<lambda>topo.
        let Features = BlkFeatures Features0
        in es_bind (SelectQueue V Features 0 3) (\<lambda>q. es_bind (SetUpRing V Features q (es_ret ())) (\<lambda>(ring, mi).
             es_ret \<lparr>Ring = ring, BlockIoRevision3 = (and Features VIRTIO_BLK_F_TOPOLOGY \<noteq> 0),
                     BlockIoMedia = BlkMedia Features NumSectors bsize topo, RingMap = mi\<rparr>))))))) (0, w) = (x, st, w1)"
    and w': "res (snd w') = res (snd w1)"
    using RunSetup_res [OF ok r [unfolded VirtioBlkInit_def]] by blast
  show ?thesis
    using f unfolding Let_def
    apply (rule es_bind_keeps [OF es_keeps_start [OF ok]], simp add: w')
    apply (erule es_bind_keeps [OF es_keeps_blk_config(1) [OF ok]], simp add: w')
    apply (erule es_bind_keeps [OF es_keeps_blk_config(2) [OF ok]], simp add: w')
    apply (erule es_bind_keeps [OF es_keeps_blk_config(3) [OF ok]], simp add: w')
    apply (erule es_bind_keeps [OF es_keeps_select [OF ok]], simp add: w')
    apply (auto simp: es_bind_def es_ret_def w' split: prod.splits sum.splits dest!: SetUpRing_res [OF ok es_keeps_intros(2)])
    done
qed

interpretation blk: virtio_driver VirtioBlkInit VirtioBlkUninit "\<lambda>Dev. ring_res (Ring Dev) (RingMap Dev)"
  by unfold_locales (auto simp: VirtioBlkUninit_def ReleaseRing_res dest: VirtioBlkInit_res)

lemma balanced_SubmitRequest [intro]:
  assumes ok: "vio_ok V res" and st: "\<And>p w. res (snd (Stall p w)) = res (snd w)"
  shows "balanced res (SubmitRequest Stall V ring a b c hs n wr)"
  unfolding balanced_def SubmitRequest_def
  by (auto elim!: run_bind_OkE split: if_splits prod.splits dest!: VirtioFlush_res [OF ok st])

lemma balanced_SynchronousRequest:
  assumes ok: "vio_ok V res" and st: "\<And>p w. res (snd (Stall p w)) = res (snd w)"
  shows "balanced res (SynchronousRequest Stall V ra Dev Lba n p wr)"
proof -
  have sub: "balanced res (\<lambda>w1. with_mapped V q hs 1 e fin (\<lambda>c. SubmitRequest Stall V ring a b c hs n wr) ((fst w1)(hs := v), snd w1))" for q hs e fin ring a b v
    by (rule balanced_mem [where g = "\<lambda>m. m(hs := v)"]) (intro balanced_with_mapped balanced_SubmitRequest assms)
  show ?thesis
    unfolding SynchronousRequest_def Let_def
    by (rule balanced_assert, rule balanced_mem [where g = "\<lambda>m. store_bytes m ra bs" for bs])
      (intro balanced_with_pages balanced_with_mapped balanced_if sub ok)
qed

section \<open>The media after set-up\<close>

definition blk_media_ok :: "EFI_BLOCK_IO_MEDIA \<Rightarrow> nat \<Rightarrow> bool" where
  "blk_media_ok M cap \<longleftrightarrow> BlockSize M \<noteq> 0 \<and> 512 dvd unat (BlockSize M) \<and>
     (unat (LastBlock M) + 1) * (unat (BlockSize M) div 512) = cap \<and> cap < 2 ^ 64"

lemma last_block:
  fixes n :: u64 and b :: u32
  assumes "n \<noteq> 0" and "b \<noteq> 0" and "512 dvd unat b" and "unat n mod (unat b div 512) = 0"
  shows "(unat (n div ucast (b div 512) - 1) + 1) * (unat b div 512) = unat n"
proof -
  let ?k = "unat b div 512"
  have k: "unat (ucast (b div 512) :: u64) = ?k" by (simp add: unat_div)
  have "unat b \<noteq> 0" using assms(2) by (simp add: unat_eq_0)
  then have k0: "0 < ?k" using assms(3) by (auto elim!: dvdE)
  have q: "unat (n div ucast (b div 512)) = unat n div ?k" by (simp add: unat_div k)
  have "0 < unat n" using assms(1) by (simp add: unat_gt_0)
  then have "unat n div ?k \<noteq> 0" using assms(4) k0 by (metis div_eq_0_iff mod_less neq0_conv)
  then have "unat (n div ucast (b div 512) - 1) + 1 = unat n div ?k"
    using q by (metis Suc_eq_plus1 Suc_pred' neq0_conv unat_0 unat_minus_one)
  then show ?thesis using assms(4) by (metis div_mult_self_is_m k0 mod_0_imp_dvd dvd_div_mult_self)
qed

lemma ReadCapacity_value:
  assumes "ReadCapacity V s = (Inr n, s')" and "\<And>w. fst (snd (ReadDevice V 0 8 w)) = cap" and "cap < 2 ^ 64"
  shows "unat n = cap" "n \<noteq> 0"
  using assms(1) assms(2) [of "snd s"] assms(3)
  by (auto simp: ReadCapacity_def es_bind_def es_query_def es_ret_def es_fail_def Let_def unat_of_nat split: prod.splits if_splits)

lemma ReadBlockSize_value:
  assumes "ReadBlockSize V f n s = (Inr b, s')"
  shows "b \<noteq> 0" "512 dvd unat b" "unat n mod (unat b div 512) = 0"
  using assms
  by (auto simp: ReadBlockSize_def es_bind_def es_query_def es_ret_def es_fail_def Let_def split: prod.splits if_splits)

lemma VirtioBlkInit_media:
  assumes r: "VirtioBlkInit V w = (Inr Dev, w')" and c: "\<And>w. fst (snd (ReadDevice V 0 8 w)) = cap" "cap < 2 ^ 64"
  shows "blk_media_ok (BlockIoMedia Dev) cap" "3 \<le> QueueSize (Ring Dev)"
proof -
  obtain f n b t q ring mi s1 s2 s3 s4 s5 s6 where
    n: "ReadCapacity V s1 = (Inr n, s2)" and b: "ReadBlockSize V f n s2 = (Inr b, s3)"
    and q: "SelectQueue V (BlkFeatures f) 0 3 s4 = (Inr q, s5)" and ring: "SetUpRing V (BlkFeatures f) q (es_ret ()) s5 = (Inr (ring, mi), s6)"
    and Dev: "BlockIoMedia Dev = BlkMedia (BlkFeatures f) n b t" "Ring Dev = ring"
    using r by (auto simp: VirtioBlkInit_def RunSetup_def Let_def es_ret_def split: prod.splits sum.splits elim!: es_bind_InrE)
  show "blk_media_ok (BlockIoMedia Dev) cap"
    using last_block [OF ReadCapacity_value(2) [OF n c] ReadBlockSize_value [OF b]] ReadCapacity_value(1) [OF n c] ReadBlockSize_value [OF b] c(2)
    by (simp add: blk_media_ok_def Dev BlkMedia_def Let_def)
  show "3 \<le> QueueSize (Ring Dev)" using SelectQueue_min [OF q] SetUpRing_queue [OF ring] Dev by simp
qed

lemma Verify_in_capacity:
  assumes v: "VerifyReadWriteRequest M Lba n wr = Ok EFI_SUCCESS" and m: "blk_media_ok M cap"
  shows "unat (Lba * ucast (BlockSize M div 512)) = unat Lba * (unat (BlockSize M) div 512)"
    "unat Lba * (unat (BlockSize M) div 512) + n div 512 \<le> cap" "0 < n" "n \<le> SIZE_1GB" "n mod unat (BlockSize M) = 0"
proof -
  let ?b = "unat (BlockSize M)" and ?k = "unat (BlockSize M) div 512" and ?L = "unat (LastBlock M)" and ?l = "unat Lba"
  show n: "0 < n" "n \<le> SIZE_1GB" "n mod ?b = 0"
    using v by (auto simp: VerifyReadWriteRequest_def Let_def split: if_splits)
  have le: "Lba \<le> LastBlock M" and cnt: "n div ?b - 1 \<le> unat (LastBlock M - Lba)"
    using v by (auto simp: VerifyReadWriteRequest_def Let_def not_less split: if_splits)
  have b: "?b = ?k * 512" and k: "(?L + 1) * ?k = cap" "cap < 2 ^ 64" and b0: "?b \<noteq> 0" using m by (auto simp: blk_media_ok_def unat_eq_0)
  have "?l \<le> ?L" using le by (simp add: word_le_nat_alt)
  have "n div ?b \<le> ?L - ?l + 1" using cnt unat_sub [OF le] by simp
  then have "?l + n div ?b \<le> ?L + 1" using \<open>?l \<le> ?L\<close> by simp
  then have "(?l + n div ?b) * ?k \<le> cap" using k(1) mult_le_mono1 by metis
  moreover have "n div 512 = n div ?b * ?k"
  proof -
    have "n = n div ?b * ?b" using n(3) by auto
    then have "n = n div ?b * ?k * 512" using b by (metis mult.assoc)
    then show ?thesis by (metis nonzero_mult_div_cancel_right zero_neq_numeral)
  qed
  ultimately show "?l * ?k + n div 512 \<le> cap" by (simp add: algebra_simps)
  then have "?l * ?k < 2 ^ 64" using k(2) by simp
  moreover have "unat (ucast (BlockSize M div 512) :: u64) = ?k" by (simp add: unat_div)
  ultimately show "unat (Lba * ucast (BlockSize M div 512)) = ?l * ?k" by (simp only: unat_word_ariths) simp
qed

lemma safe_SubmitRequest: "3 \<le> QueueSize ring \<Longrightarrow> n \<le> SIZE_1GB \<Longrightarrow> safe (SubmitRequest Stall V ring a b c hs n wr)"
  using VirtioFlush_safe [of Stall V 0 ring]
  by (auto simp: safe_def SubmitRequest_def not_le split: prod.splits elim!: run_bind.elims)

lemma safe_SynchronousRequest:
  assumes m: "blk_media_ok (BlockIoMedia Dev) cap" and q: "3 \<le> QueueSize (Ring Dev)"
    and n: "n \<le> SIZE_1GB" "n mod unat (BlockSize (BlockIoMedia Dev)) = 0"
  shows "safe (SynchronousRequest Stall V ra Dev Lba n buf wr)"
proof -
  have sub: "safe (\<lambda>w1. with_mapped V p hs 1 e fin (\<lambda>c. SubmitRequest Stall V (Ring Dev) a b c hs n wr) ((fst w1)(hs := v), snd w1))" for p hs e fin a b v
    by (rule safe_mem) (intro safe_with_mapped safe_SubmitRequest q n)
  have b: "BlockSize (BlockIoMedia Dev) \<noteq> 0" "unat (BlockSize (BlockIoMedia Dev)) mod 512 = 0" using m by (auto simp: blk_media_ok_def)
  show ?thesis
    unfolding SynchronousRequest_def Let_def
    by (rule safe_assert, use b n(2) in \<open>simp add: word_gt_0\<close>, rule safe_mem) (intro safe_with_pages safe_with_mapped safe_if sub)
qed

lemma safe_blk_rw:
  assumes m: "blk_media_ok (BlockIoMedia Dev) cap" and q: "3 \<le> QueueSize (Ring Dev)"
  shows "safe (VirtioBlkReadBlocks Stall V ra Dev Lba n buf)" "safe (VirtioBlkWriteBlocks Stall V ra Dev Lba n buf)"
    "safe (VirtioBlkFlushBlocks Stall V ra Dev)"
proof -
  have v: "0 < n \<Longrightarrow> \<exists>s. VerifyReadWriteRequest (BlockIoMedia Dev) Lba n wr = Ok s \<and> (EFI_ERROR s \<or> s = EFI_SUCCESS)" for wr
    using m by (auto simp: VerifyReadWriteRequest_def blk_media_ok_def Let_def)
  have s: "VerifyReadWriteRequest (BlockIoMedia Dev) Lba n wr = Ok EFI_SUCCESS \<Longrightarrow> safe (SynchronousRequest Stall V ra Dev Lba n buf wr)" for wr
    using Verify_in_capacity(4,5) [OF _ m] by (intro safe_SynchronousRequest [OF m q]) auto
  show "safe (VirtioBlkReadBlocks Stall V ra Dev Lba n buf)"
    using v [of False] s [of False] by (cases "n = 0") (auto simp: safe_def VirtioBlkReadBlocks_def)
  show "safe (VirtioBlkWriteBlocks Stall V ra Dev Lba n buf)"
    using v [of True] s [of True] by (cases "n = 0") (auto simp: safe_def VirtioBlkWriteBlocks_def)
  show "safe (VirtioBlkFlushBlocks Stall V ra Dev)"
    using safe_SynchronousRequest [OF m q, of 0 Stall V ra 0 0 True] by (auto simp: safe_def VirtioBlkFlushBlocks_def simp del: split_paired_All)
qed

section \<open>Properties\<close>

text \<open>
  Property C15. After a successful \<open>VirtioBlkInit\<close> every block request is safe: whatever the
  caller passes to read, write or flush, no assertion of the driver fails, and a request that
  passes the checks names sectors inside the capacity the device reported, with no wrap of the
  64-bit sector number.
\<close>

theorem VirtioBlk_requests_safe:
  assumes "VirtioBlkInit V w = (Inr Dev, w')" and "\<And>w. fst (snd (ReadDevice V 0 8 w)) = cap" and "cap < 2 ^ 64"
  shows "safe (VirtioBlkReadBlocks Stall V ra Dev Lba n buf) \<and> safe (VirtioBlkWriteBlocks Stall V ra Dev Lba n buf) \<and>
    safe (VirtioBlkFlushBlocks Stall V ra Dev) \<and>
    (VerifyReadWriteRequest (BlockIoMedia Dev) Lba n wr = Ok EFI_SUCCESS \<longrightarrow>
       unat (Lba * ucast (BlockSize (BlockIoMedia Dev) div 512)) = unat Lba * (unat (BlockSize (BlockIoMedia Dev)) div 512) \<and>
       unat Lba * (unat (BlockSize (BlockIoMedia Dev)) div 512) + n div 512 \<le> cap)"
proof -
  note m = VirtioBlkInit_media [OF assms]
  show ?thesis
    by (intro conjI impI safe_blk_rw [OF m]) (use Verify_in_capacity(1,2) [OF _ m(1)] in blast)+
qed

text \<open>A device of 64 sectors in the shared memory of a page at 8192.\<close>

lemma demo_blk_init: "\<exists>Dev w'. VirtioBlkInit demo_dev (\<lambda>_. 0, ()) = (Inr Dev, w')"
  by (simp add: VirtioBlkInit_def setup_eval Let_def demo_dev_def ReadCapacity_def ReadBlockSize_def ReadTopology_def
      VIRTIO_BLK_F_BLK_SIZE_def VIRTIO_BLK_F_TOPOLOGY_def)

theorem VirtioBlk_requests_safe_witness:
  "\<exists>Dev w'. VirtioBlkInit demo_dev (\<lambda>_. 0, ()) = (Inr Dev, w') \<and> safe (VirtioBlkReadBlocks demo_stall demo_dev 0 Dev 3 512 0x8000)"
proof -
  obtain Dev w' where i: "VirtioBlkInit demo_dev (\<lambda>_. 0, ()) = (Inr Dev, w')" using demo_blk_init by blast
  have "fst (snd (ReadDevice demo_dev 0 8 w)) = 64" for w by (simp add: demo_dev_def)
  from VirtioBlk_requests_safe [OF i this, THEN conjunct1] i show ?thesis by (intro exI conjI) simp_all
qed

text \<open>
  Property C40. The driver leaks nothing: a failed start holds exactly what was held before, a
  stop after a successful start gives everything back, and every request that returns, with
  success or an error, has unmapped and freed all its buffers.
\<close>

theorem VirtioBlk_no_leak:
  assumes "vio_ok V res" and "binding_ok bs res" and "\<And>p w. res (snd (Stall p w)) = res (snd w)"
  shows "(VirtioBlkDriverBindingStart bs V w = (Inl s, w1) \<longrightarrow> res (snd w1) = res (snd w)) \<and>
    (VirtioBlkDriverBindingStart bs V w = (Inr inst, w1) \<longrightarrow> res (snd w2) = res (snd w1) \<longrightarrow>
       VirtioBlkDriverBindingStop bs V inst w2 = (EFI_SUCCESS, w3) \<longrightarrow> res (snd w3) = res (snd w)) \<and>
    (SynchronousRequest Stall V ra Dev Lba n buf wr w = Some (Ok (s, w1)) \<longrightarrow> res (snd w1) = res (snd w))"
proof (intro conjI impI)
  assume "VirtioBlkDriverBindingStart bs V w = (Inl s, w1)"
  then show "res (snd w1) = res (snd w)" using blk.start_res [OF assms(1,2)] by (simp add: VirtioBlkDriverBindingStart_def)
next
  assume "VirtioBlkDriverBindingStart bs V w = (Inr inst, w1)" "res (snd w2) = res (snd w1)"
    and "VirtioBlkDriverBindingStop bs V inst w2 = (EFI_SUCCESS, w3)"
  then show "res (snd w3) = res (snd w)"
    unfolding VirtioBlkDriverBindingStart_def VirtioBlkDriverBindingStop_def by (rule blk.start_stop_res [OF assms(1,2)])
next
  assume "SynchronousRequest Stall V ra Dev Lba n buf wr w = Some (Ok (s, w1))"
  then show "res (snd w1) = res (snd w)" by (rule balancedD [OF balanced_SynchronousRequest [where Stall = Stall, OF assms(1,3)]])
qed

theorem VirtioBlk_no_leak_witness:
  "\<exists>w1. VirtioBlkDriverBindingStart book_bs book_dev (\<lambda>_. 0, {#Interface#}) = (Inl EFI_OUT_OF_RESOURCES, w1) \<and> snd w1 = {#Interface#}"
proof -
  have i: "\<exists>Dev m d. VirtioBlkInit book_dev (m0, d0) = (Inr Dev, m, d)" for m0 d0
    by (simp add: VirtioBlkInit_def setup_eval Let_def book_dev_def ReadCapacity_def ReadBlockSize_def ReadTopology_def
        VIRTIO_BLK_F_BLK_SIZE_def VIRTIO_BLK_F_TOPOLOGY_def)
  obtain w1 where r: "VirtioBlkDriverBindingStart book_bs book_dev (\<lambda>_. 0, {#Interface#}) = (Inl EFI_OUT_OF_RESOURCES, w1)"
    using i [of "\<lambda>_. 0" "{#VirtIoOpen, PoolBlock 1, Interface#}"]
    by (auto simp: VirtioBlkDriverBindingStart_def BindingStart_def book_bs_def)
  from VirtioBlk_no_leak [OF book_dev_ok book_bs_ok, where Stall = "\<lambda>_ w. w", THEN conjunct1, THEN mp, OF _ r] r show ?thesis by auto
qed

end
