(* ===== verification/VirtioHost.thy ===== *)
theory VirtioHost
  imports VirtioDriver
begin

text \<open>
  The host side of a virtqueue (virtio 0.9.5, section 2.4): it walks the descriptor chain of a
  published request, serves it and returns it in the used ring.  The main lemma composes this
  with the driver side: a chain appended and flushed by the driver is served exactly once, and
  everything outside the ring is as the server left it.
\<close>

section \<open>The host\<close>

text \<open>The host walks the chain from the head; the fuel is the queue size.\<close>

fun host_chain :: "nat \<Rightarrow> nat \<Rightarrow> mem \<Rightarrow> nat \<Rightarrow> VRING_DESC list" where
  "host_chain b 0 m i = []"
| "host_chain b (Suc k) m i =
    (let d = read_desc b m i
     in d # (if and (Flags d) VRING_DESC_F_NEXT \<noteq> 0 then host_chain b k m (unat (Next d)) else []))"

text \<open>A server turns a chain, the memory and the device state into the new memory and state and
  the number of bytes it reports.\<close>

type_synonym 'x server = "VRING_DESC list \<Rightarrow> mem \<times> 'x \<Rightarrow> (mem \<times> 'x) \<times> nat"

definition host_complete :: "'x server \<Rightarrow> VRING \<Rightarrow> mem \<times> 'x \<Rightarrow> mem \<times> 'x" where
  "host_complete serve ring w =
    (let m = fst w;
         idx = (of_nat (load_le m (AvailIdx ring) 2) - 1 :: u16);
         slot = unat idx mod unat (QueueSize ring);
         head = load_le m (AvailRing ring + 2 * slot) 2
     in case serve (host_chain (Desc ring) (unat (QueueSize ring)) m head) w of ((m1, x1), n) \<Rightarrow>
       (let e = UsedElem ring + 8 * slot
        in (store_le (store_le (store_le m1 e 4 head) (e + 4) 4 n) (UsedIdx ring) 2 (unat (idx + 1)), x1)))"

text \<open>After a notification the request is completed at some later poll, until which the used index
  differs from the published one; \<open>obs\<close> is the part of the device state the server works on.\<close>

definition completes ::
  "(nat \<Rightarrow> 'd world \<Rightarrow> 'd world) \<Rightarrow> ('d, 'map) VIRTIO_DEVICE_PROTOCOL \<Rightarrow> u16 \<Rightarrow> VRING \<Rightarrow> 'x server \<Rightarrow> ('d \<Rightarrow> 'x) \<Rightarrow> bool" where
  "completes Stall V q ring serve obs \<longleftrightarrow>
    (\<forall>m d. \<exists>k w2. SetQueueNotify V q (m, d) = (EFI_SUCCESS, w2) \<and>
       (fst (stall_n Stall k 1 w2), obs (snd (stall_n Stall k 1 w2))) = host_complete serve ring (m, obs d) \<and>
       (\<forall>j<k. load_le (fst (stall_n Stall j 1 w2)) (UsedIdx ring) 2 \<noteq> load_le m (AvailIdx ring) 2))"

text \<open>Buffers are mapped at their own address, shared pages come from \<open>pool\<close>, and neither changes
  the memory or what is observed of the device.\<close>

definition maps_identity :: "('d, 'map) VIRTIO_DEVICE_PROTOCOL \<Rightarrow> ('d \<Rightarrow> 'x) \<Rightarrow> bool" where
  "maps_identity V obs \<longleftrightarrow>
    (\<forall>q p n m d. \<exists>mi d'. MapSharedBuffer V q p n (m, d) = (EFI_SUCCESS, (n, of_nat p, mi), m, d') \<and> obs d' = obs d) \<and>
    (\<forall>mi m d. \<exists>d'. UnmapSharedBuffer V mi (m, d) = (EFI_SUCCESS, m, d') \<and> obs d' = obs d)"

definition identity_mapped :: "('d, 'map) VIRTIO_DEVICE_PROTOCOL \<Rightarrow> ('d \<Rightarrow> 'x) \<Rightarrow> nat set \<Rightarrow> bool" where
  "identity_mapped V obs pool \<longleftrightarrow> maps_identity V obs \<and>
    (\<forall>n m d. \<exists>a d'. AllocateSharedPages V n (m, d) = (EFI_SUCCESS, a, m, d') \<and> a \<in> pool \<and> obs d' = obs d) \<and>
    (\<forall>n a m d. \<exists>d'. FreeSharedPages V n a (m, d) = (m, d') \<and> obs d' = obs d)"

text \<open>
  The page service with its account: \<open>held\<close> are the addresses handed out and \<open>room\<close> the pages
  left; a request within the room gets fresh pages of the pool.
\<close>

definition page_service ::
  "('d, 'map) VIRTIO_DEVICE_PROTOCOL \<Rightarrow> ('d \<Rightarrow> 'x) \<Rightarrow> ('d \<Rightarrow> nat set) \<Rightarrow> ('d \<Rightarrow> nat) \<Rightarrow> nat set \<Rightarrow> bool" where
  "page_service V obs held room pool \<longleftrightarrow>
    (\<forall>n m d. n \<le> room d \<longrightarrow> (\<exists>a d'. AllocateSharedPages V n (m, d) = (EFI_SUCCESS, a, m, d') \<and>
       {a ..< a + EFI_PAGES_TO_SIZE n} \<subseteq> pool - held d \<and> held d' = held d \<union> {a ..< a + EFI_PAGES_TO_SIZE n} \<and>
       room d' = room d - n \<and> obs d' = obs d)) \<and>
    (\<forall>n a m d. \<exists>d'. FreeSharedPages V n a (m, d) = (m, d') \<and> obs d' = obs d)"

lemmas completesD = completes_def [THEN iffD1, rule_format]

lemmas maps_identityD =
  maps_identity_def [THEN iffD1, THEN conjunct1, rule_format]
  maps_identity_def [THEN iffD1, THEN conjunct2, rule_format]

lemmas identity_maps = identity_mapped_def [THEN iffD1, THEN conjunct1]

lemmas identity_mappedD =
  maps_identityD [OF identity_maps]
  identity_mapped_def [THEN iffD1, THEN conjunct2, THEN conjunct1, rule_format]
  identity_mapped_def [THEN iffD1, THEN conjunct2, THEN conjunct2, rule_format]

lemmas page_serviceD =
  page_service_def [THEN iffD1, THEN conjunct1, rule_format]
  page_service_def [THEN iffD1, THEN conjunct2, rule_format]

definition ring_area :: "VRING \<Rightarrow> nat set" where
  "ring_area ring = {Base ring ..< UsedAvailEvent ring + 2}"

section \<open>A chain is served as it was appended\<close>

definition chain_flags :: "(u64 \<times> u32 \<times> u16) list \<Rightarrow> bool" where
  "chain_flags bs \<longleftrightarrow> (\<forall>k<length bs. and (snd (snd (bs ! k))) VRING_DESC_F_NEXT \<noteq> 0 \<longleftrightarrow> Suc k < length bs)"

definition chain_of :: "VRING \<Rightarrow> (u64 \<times> u32 \<times> u16) list \<Rightarrow> VRING_DESC list" where
  "chain_of ring bs = map (\<lambda>k. chain_desc (unat (QueueSize ring)) k (bs ! k)) [0..<length bs]"

lemma host_chain_from:
  assumes "chain_flags bs" and "\<And>k. k < length bs \<Longrightarrow> read_desc b m k = chain_desc Q k (bs ! k)" and "length bs \<le> Q" "Q < 65536"
  shows "i < length bs \<Longrightarrow> length bs - i \<le> f \<Longrightarrow> host_chain b f m i = map (\<lambda>k. chain_desc Q k (bs ! k)) [i..<length bs]"
proof (induction f arbitrary: i)
  case 0
  then show ?case by simp
next
  case (Suc f)
  have r: "read_desc b m i = chain_desc Q i (bs ! i)" using assms(2) Suc.prems by simp
  have u: "[i..<length bs] = i # [Suc i..<length bs]" using Suc.prems(1) by (simp add: upt_conv_Cons)
  show ?case
  proof (cases "Suc i < length bs")
    case True
    then have "unat (of_nat (Suc i mod Q) :: u16) = Suc i" using assms(3,4) by (simp add: unat_of_nat del: of_nat_Suc)
    then show ?thesis using Suc.IH [of "Suc i"] Suc.prems True assms(1) r u by (simp add: chain_flags_def chain_desc_def Let_def)
  next
    case False
    then show ?thesis using Suc.prems assms(1) r u by (simp add: chain_flags_def chain_desc_def Let_def)
  qed
qed

lemma append_prepared:
  assumes ok: "vring_ok ring" and Q: "unat (QueueSize ring) dvd 65536" and len: "length bs \<le> unat (QueueSize ring)"
    and r: "append_all ring bs (VirtioPrepare ring m) = (m1, I)"
  shows "HeadDescIdx I = 0" "\<And>a. a \<notin> ring_area ring \<Longrightarrow> m1 a = m a" "\<And>a. AvailIdx ring \<le> a \<Longrightarrow> m1 a = m a"
    "\<And>k. k < length bs \<Longrightarrow> read_desc (Desc ring) m1 k = chain_desc (unat (QueueSize ring)) k (bs ! k)"
proof -
  let ?Q = "unat (QueueSize ring)" and ?m = "store_le m (AvailFlags ring) 2 VRING_AVAIL_F_NO_INTERRUPT" and ?I = "\<lparr>HeadDescIdx = 0, NextDescIdx = 0\<rparr>"
  have r': "append_all ring bs (?m, ?I) = (m1, I)" using r by (simp add: VirtioPrepare_def)
  have lay: "0 < ?Q" "Desc ring = Base ring" "AvailFlags ring = Desc ring + 16 * ?Q" "AvailIdx ring = AvailFlags ring + 2" "AvailFlags ring + 2 \<le> UsedAvailEvent ring + 2"
    using ok by (auto simp: vring_ok_def Let_def)
  show "HeadDescIdx I = 0" using append_all_writes [OF Q, of ?I 0 bs ?m] r' by auto
  have fr: "a < Desc ring \<or> AvailFlags ring \<le> a \<Longrightarrow> m1 a = ?m a" for a
    using append_all_frame [OF Q lay(1), of a bs ?m ?I] r' lay by auto
  show "m1 a = m a" if "a \<notin> ring_area ring" for a
    using that fr [of a] lay by (auto simp: ring_area_def store_le_other)
  show "m1 a = m a" if "AvailIdx ring \<le> a" for a
    using that fr [of a] lay by (auto simp: store_le_other)
  show "read_desc (Desc ring) m1 k = chain_desc ?Q k (bs ! k)" if "k < length bs" for k
    using append_all_chain [OF Q len that, of ?m ?I] r' that len by simp
qed

text \<open>The published chain is what the driver appended, under a head of 0.\<close>

lemma published_chain:
  assumes ok: "vring_ok ring" and Q: "unat (QueueSize ring) dvd 65536" and len: "bs \<noteq> []" "length bs \<le> unat (QueueSize ring)"
    and fl: "chain_flags bs" and r: "append_all ring bs (VirtioPrepare ring m) = (m1, I)"
    and p: "VirtioFlush_publish ring I m1 = (m2, nxt, lst)"
  shows "host_chain (Desc ring) (unat (QueueSize ring)) m2 0 = chain_of ring bs"
    "load_le m2 (AvailRing ring + 2 * (unat lst mod unat (QueueSize ring))) 2 = 0" "\<And>a. a \<notin> ring_area ring \<Longrightarrow> m2 a = m a"
proof -
  let ?Q = "unat (QueueSize ring)"
  note ap = append_prepared [OF ok Q len(2) r] and pub = VirtioFlush_publish_effect [OF ok p]
  have lay: "Desc ring = Base ring" "AvailFlags ring = Desc ring + 16 * ?Q" "AvailIdx ring = AvailFlags ring + 2" "AvailRing ring = AvailIdx ring + 2"
    "AvailUsedEvent ring = AvailRing ring + 2 * ?Q" "AvailUsedEvent ring + 2 \<le> UsedAvailEvent ring + 2" "0 < ?Q"
    using ok by (auto simp: vring_ok_def Let_def)
  show "m2 a = m a" if "a \<notin> ring_area ring" for a
    using that pub(5) [of a] ap(2) [OF that] lay by (auto simp: ring_area_def)
  have "read_desc (Desc ring) m2 k = chain_desc ?Q k (bs ! k)" if "k < length bs" for k
  proof -
    have "load_le m2 q j = load_le m1 q j" if "q + j \<le> AvailFlags ring" for q j
      using that pub(5) lay by (intro load_le_cong) auto
    moreover have "Desc ring + 16 * k + 16 \<le> AvailFlags ring" using that len(2) lay by simp
    ultimately have "read_desc (Desc ring) m2 k = read_desc (Desc ring) m1 k" by (simp add: read_desc_def Let_def)
    then show ?thesis using ap(4) [OF that] by simp
  qed
  from host_chain_from [OF fl this len(2), of 0 ?Q] len
  show "host_chain (Desc ring) ?Q m2 0 = chain_of ring bs" by (simp add: chain_of_def)
  show "load_le m2 (AvailRing ring + 2 * (unat lst mod ?Q)) 2 = 0" using pub(4) ap(1) by simp
qed

lemma Flush_completes:
  assumes dev: "completes Stall V q ring serve obs" and ok: "vring_ok ring" and Q: "unat (QueueSize ring) dvd 65536"
    and len: "bs \<noteq> []" "length bs \<le> unat (QueueSize ring)" and fl: "chain_flags bs"
    and r: "append_all ring bs (VirtioPrepare ring m) = (m1, I)"
    and serve: "\<And>m2. (\<And>a. a \<notin> ring_area ring \<Longrightarrow> m2 a = m a) \<Longrightarrow> serve (chain_of ring bs) (m2, obs d) = ((ms m2, x), l) \<and>
      (\<forall>a. a \<notin> ring_area ring \<longrightarrow> ms m2 a = mo a)"
  shows "\<exists>w'. VirtioFlush Stall V q ring I want (m1, d) = Some (Ok (EFI_SUCCESS, if want then Some (of_nat l) else None, w')) \<and>
     obs (snd w') = x \<and> (\<forall>a. a \<notin> ring_area ring \<longrightarrow> fst w' a = mo a)"
proof -
  let ?Q = "unat (QueueSize ring)"
  obtain m2 nxt lst where p: "VirtioFlush_publish ring I m1 = (m2, nxt, lst)" by (metis prod_cases3)
  note pub = VirtioFlush_publish_effect [OF ok p] and ch = published_chain [OF ok Q len fl r p]
  have head: "HeadDescIdx I = 0" using append_prepared(1) [OF ok Q len(2) r] .
  have lay: "Desc ring = Base ring" "AvailFlags ring = Desc ring + 16 * ?Q" "AvailIdx ring = AvailFlags ring + 2" "AvailRing ring = AvailIdx ring + 2"
    "AvailUsedEvent ring = AvailRing ring + 2 * ?Q" "AvailUsedEvent ring + 2 \<le> UsedFlags ring" "UsedIdx ring = UsedFlags ring + 2"
    "UsedElem ring = UsedIdx ring + 2" "UsedAvailEvent ring = UsedElem ring + 8 * ?Q" "0 < ?Q"
    using ok by (auto simp: vring_ok_def Let_def)
  have sv: "serve (chain_of ring bs) (m2, obs d) = ((ms m2, x), l)" "\<And>a. a \<notin> ring_area ring \<Longrightarrow> ms m2 a = mo a"
    using serve [OF ch(3)] by blast+
  obtain k w2 where nt: "SetQueueNotify V q (m2, d) = (EFI_SUCCESS, w2)"
    and c: "(fst (stall_n Stall k 1 w2), obs (snd (stall_n Stall k 1 w2))) = host_complete serve ring (m2, obs d)"
    and j: "\<forall>j<k. load_le (fst (stall_n Stall j 1 w2)) (UsedIdx ring) 2 \<noteq> load_le m2 (AvailIdx ring) 2"
    using completesD [OF dev, of m2 d] by blast
  let ?w3 = "stall_n Stall k 1 w2"
  define e where "e = UsedElem ring + 8 * (unat lst mod ?Q)"
  have w3: "fst ?w3 = store_le (store_le (store_le (ms m2) e 4 0) (e + 4) 4 l) (UsedIdx ring) 2 (unat nxt)" "obs (snd ?w3) = x"
    using c sv(1) ch(1,2) by (simp_all add: host_complete_def Let_def pub(3) pub(2) e_def)
  have slot: "unat lst mod ?Q < ?Q" using lay by simp
  have el: "UsedIdx ring + 2 \<le> e" "Base ring \<le> e" "e + 8 \<le> UsedAvailEvent ring" using lay slot unfolding e_def by linarith+
  have out: "fst ?w3 a = mo a" if "a \<notin> ring_area ring" for a
  proof -
    have "a < Base ring \<or> UsedAvailEvent ring + 2 \<le> a" using that by (auto simp: ring_area_def)
    then show ?thesis using el lay sv(2) [OF that] unfolding w3(1) by (auto simp: store_le_other)
  qed
  have hit: "load_le (fst ?w3) (UsedIdx ring) 2 = unat nxt" unfolding w3(1) by (simp only: load_le_store_le_same unat_u16_mod)
  have poll: "VirtioFlush_poll Stall (UsedIdx ring) nxt 1 w2 = Some ?w3"
    using j pub(3) by (intro VirtioFlush_poll_at hit) auto
  have "load_le (fst ?w3) e 4 = 0" "load_le (fst ?w3) (e + 4) 4 = l mod 256 ^ 4"
    unfolding w3(1) using el by (simp_all add: load_le_store_le_disjoint load_le_store_le_same)
  then have used: "read_used (UsedElem ring) (fst ?w3) (unat lst mod ?Q) = \<lparr>UsedId = 0, UsedLen = of_nat l\<rparr>"
    using word_unat_eq_iff [of "of_nat (l mod 4294967296) :: u32" "of_nat l"] by (simp add: read_used_def e_def unat_of_nat)
  have "VirtioFlush Stall V q ring I want (m1, d) = Some (Ok (EFI_SUCCESS, if want then Some (of_nat l) else None, ?w3))"
    using p nt poll used head by (simp add: VirtioFlush_def Let_def)
  then show ?thesis using w3(2) out by blast
qed

text \<open>The brackets around a request.\<close>

lemma with_mapped_identity:
  assumes dev: "maps_identity V obs"
    and body: "\<And>d1. obs d1 = obs d \<Longrightarrow> \<exists>m' d'. body (of_nat p) (m, d1) = Some (Ok (r, m', d')) \<and> P m' (obs d')"
  shows "\<exists>m' d'. with_mapped V q p n e fin body (m, d) = Some (Ok (fin EFI_SUCCESS r, m', d')) \<and> P m' (obs d')"
proof -
  obtain mi d1 where a: "MapSharedBuffer V q p n (m, d) = (EFI_SUCCESS, (n, of_nat p, mi), m, d1)" "obs d1 = obs d"
    using maps_identityD(1) [OF dev, of q p n m d] by blast
  obtain m' d' where b: "body (of_nat p) (m, d1) = Some (Ok (r, m', d'))" "P m' (obs d')" using body [OF a(2)] by blast
  obtain d2 where c: "UnmapSharedBuffer V mi (m', d') = (EFI_SUCCESS, m', d2)" "obs d2 = obs d'"
    using maps_identityD(2) [OF dev, of mi m' d'] by blast
  show ?thesis using a b c by (simp add: with_mapped_def VirtioMapAllBytesInSharedBuffer_def)
qed

lemma with_pages_identity:
  assumes dev: "identity_mapped V obs pool"
    and body: "\<And>a d1. a \<in> pool \<Longrightarrow> obs d1 = obs d \<Longrightarrow> \<exists>m' d'. body a (m, d1) = Some (Ok (r, m', d')) \<and> P m' (obs d')"
  shows "\<exists>m' d'. with_pages V n e body (m, d) = Some (Ok (r, m', d')) \<and> P m' (obs d')"
proof -
  obtain a d1 where a: "AllocateSharedPages V n (m, d) = (EFI_SUCCESS, a, m, d1)" "a \<in> pool" "obs d1 = obs d"
    using identity_mappedD(3) [OF dev, of n m d] by blast
  obtain m' d' where b: "body a (m, d1) = Some (Ok (r, m', d'))" "P m' (obs d')" using body [OF a(2,3)] by blast
  obtain d2 where c: "FreeSharedPages V n a (m', d') = (m', d2)" "obs d2 = obs d'"
    using identity_mappedD(4) [OF dev, of n a m' d'] by blast
  show ?thesis using a b c by (simp add: with_pages_def)
qed

lemma with_pages_fresh:
  assumes dev: "page_service V obs held room pool" and n: "n \<le> room d"
    and body: "\<And>a d1. {a ..< a + EFI_PAGES_TO_SIZE n} \<subseteq> pool - held d \<Longrightarrow> held d1 = held d \<union> {a ..< a + EFI_PAGES_TO_SIZE n} \<Longrightarrow>
      room d1 = room d - n \<Longrightarrow> obs d1 = obs d \<Longrightarrow> \<exists>m' d'. body a (m, d1) = Some (Ok (r, m', d')) \<and> P m' (obs d')"
  shows "\<exists>m' d'. with_pages V n e body (m, d) = Some (Ok (r, m', d')) \<and> P m' (obs d')"
proof -
  obtain a d1 where a: "AllocateSharedPages V n (m, d) = (EFI_SUCCESS, a, m, d1)" "{a ..< a + EFI_PAGES_TO_SIZE n} \<subseteq> pool - held d"
    "held d1 = held d \<union> {a ..< a + EFI_PAGES_TO_SIZE n}" "room d1 = room d - n" "obs d1 = obs d"
    using page_serviceD(1) [OF dev n, of m] by blast
  obtain m' d' where b: "body a (m, d1) = Some (Ok (r, m', d'))" "P m' (obs d')" using body [OF a(2-5)] by blast
  obtain d2 where c: "FreeSharedPages V n a (m', d') = (m', d2)" "obs d2 = obs d'"
    using page_serviceD(2) [OF dev, of n a m' d'] by blast
  show ?thesis using a b c by (simp add: with_pages_def)
qed

end
