(* ===== verification/VirtioBlkDisk.thy ===== *)
theory VirtioBlkDisk
  imports VirtioBlk VirtioHost
begin

text \<open>
  The block driver over a virtio block device: what the host does with a request (virtio
  0.9.5, appendix D and section 2.4), and that reading and writing blocks through the whole
  stack -- driver, virtqueue, device -- are reading and writing of the disk.
\<close>

section \<open>The device\<close>

text \<open>One request on guest memory and disk: header, data and status buffer.\<close>

fun blk_serve :: "VRING_DESC list \<Rightarrow> mem \<times> mem \<Rightarrow> mem \<times> mem" where
  "blk_serve [h, b, s] (m, disk) =
    (let ty = load_le m (unat (Addr h)) 4; off = 512 * load_le m (unat (Addr h) + 8) 8; p = unat (Addr b); n = unat (Len b)
     in if ty = VIRTIO_BLK_T_IN then ((store_bytes m p (load_bytes disk off n))(unat (Addr s) := VIRTIO_BLK_S_OK), disk)
        else if ty = VIRTIO_BLK_T_OUT then (m(unat (Addr s) := VIRTIO_BLK_S_OK), store_bytes disk off (load_bytes m p n))
        else (m(unat (Addr s) := 2), disk))"
| "blk_serve [h, s] (m, disk) =
    (m(unat (Addr s) := if load_le m (unat (Addr h)) 4 = VIRTIO_BLK_T_FLUSH then VIRTIO_BLK_S_OK else 2), disk)"
| "blk_serve _ (m, disk) = (m, disk)"

text \<open>The bytes the host reports are those of the buffers it may write.\<close>

definition blk_server :: "mem server" where
  "blk_server ds w = (blk_serve ds w, sum_list (map (\<lambda>d. if and (Flags d) VRING_DESC_F_WRITE \<noteq> 0 then unat (Len d) else 0) ds))"

text \<open>What the driver relies on of a device whose disk is \<open>dsk d\<close>.\<close>

definition blk_device ::
  "(nat \<Rightarrow> 'd world \<Rightarrow> 'd world) \<Rightarrow> ('d, 'map) VIRTIO_DEVICE_PROTOCOL \<Rightarrow> VRING \<Rightarrow> ('d \<Rightarrow> mem) \<Rightarrow> nat set \<Rightarrow> bool" where
  "blk_device Stall V ring dsk pool \<longleftrightarrow> identity_mapped V dsk pool \<and> completes Stall V 0 ring blk_server dsk"

text \<open>The ring, the request on the stack, the caller's buffer and the shared pages do not
  overlap and lie in the 64-bit address space.\<close>

definition blk_layout :: "VRING \<Rightarrow> nat \<Rightarrow> nat \<Rightarrow> nat \<Rightarrow> nat set \<Rightarrow> bool" where
  "blk_layout ring ra buf n pool \<longleftrightarrow>
    ring_area ring \<inter> {ra ..< ra + 16} = {} \<and> ring_area ring \<inter> {buf ..< buf + n} = {} \<and> ring_area ring \<inter> pool = {} \<and>
    {ra ..< ra + 16} \<inter> {buf ..< buf + n} = {} \<and> {ra ..< ra + 16} \<inter> pool = {} \<and> {buf ..< buf + n} \<inter> pool = {} \<and>
    ra + 16 \<le> 2 ^ 64 \<and> buf + n \<le> 2 ^ 64 \<and> pool \<subseteq> {..< 2 ^ 64}"

section \<open>A completed request\<close>

text \<open>Submission of a request with data: what the host sees and what the driver gets back.\<close>

lemma Submit_completes:
  assumes dev: "completes Stall V 0 ring blk_server dsk" and ok: "vring_ok ring" and Q: "unat (QueueSize ring) dvd 65536" "3 \<le> QueueSize ring"
    and n: "0 < n" "n \<le> SIZE_1GB" and hs: "hs \<notin> ring_area ring"
    and serve: "\<And>m2. (\<And>a. a \<notin> ring_area ring \<Longrightarrow> m2 a = m a) \<Longrightarrow>
      blk_serve (chain_of ring [(ra, 16, VRING_DESC_F_NEXT), (ba, of_nat n, or VRING_DESC_F_NEXT (if wr then 0 else VRING_DESC_F_WRITE)),
         (ha, 1, VRING_DESC_F_WRITE)]) (m2, dsk d) = (ms m2, ks) \<and> (\<forall>a. a \<notin> ring_area ring \<longrightarrow> ms m2 a = mo a)"
    and status: "mo hs = VIRTIO_BLK_S_OK"
  shows "\<exists>m' d'. SubmitRequest Stall V ring ra ba ha hs n wr (m, d) = Some (Ok (EFI_SUCCESS, m', d')) \<and>
     dsk d' = ks \<and> (\<forall>a. a \<notin> ring_area ring \<longrightarrow> m' a = mo a)"
proof -
  define bs where "bs = [(ra, 16, VRING_DESC_F_NEXT), (ba, of_nat n :: u32, or VRING_DESC_F_NEXT (if wr then 0 else VRING_DESC_F_WRITE)), (ha, 1, VRING_DESC_F_WRITE)]"
  have fl: "chain_flags bs" by (auto simp: chain_flags_def bs_def less_Suc_eq numeral_3_eq_3 VRING_DESC_F_NEXT_def VRING_DESC_F_WRITE_def)
  have len: "bs \<noteq> []" "length bs \<le> unat (QueueSize ring)" using Q(2) by (simp_all add: bs_def word_le_nat_alt)
  obtain m1 I where r: "append_all ring bs (VirtioPrepare ring m) = (m1, I)" by (cases "append_all ring bs (VirtioPrepare ring m)")
  define l where "l = snd (blk_server (chain_of ring bs) (m, dsk d))"
  have sv: "blk_server (chain_of ring bs) (m2, dsk d) = ((ms m2, ks), l) \<and> (\<forall>a. a \<notin> ring_area ring \<longrightarrow> ms m2 a = mo a)"
    if "\<And>a. a \<notin> ring_area ring \<Longrightarrow> m2 a = m a" for m2
    using serve [OF that] by (simp add: blk_server_def bs_def l_def)
  obtain w' where f: "VirtioFlush Stall V 0 ring I False (m1, d) = Some (Ok (EFI_SUCCESS, None, w'))" "dsk (snd w') = ks"
    "\<And>a. a \<notin> ring_area ring \<Longrightarrow> fst w' a = mo a"
    using Flush_completes [OF dev ok Q(1) len fl r sv, of False] by auto
  then have "SubmitRequest Stall V ring ra ba ha hs n wr (m, d) = Some (Ok (EFI_SUCCESS, w'))"
    using n Q(2) r status hs by (simp add: SubmitRequest_def bs_def not_le)
  then show ?thesis using f(2,3) by (metis prod.collapse)
qed

lemma request_fields:
  assumes "\<And>a. ra \<le> a \<Longrightarrow> a < ra + 16 \<Longrightarrow> m2 a = store_bytes m ra (BlkRequest b Lba n wr) a" and "0 < n"
  shows "load_le m2 ra 4 = (if wr then VIRTIO_BLK_T_OUT else VIRTIO_BLK_T_IN)"
    "load_le m2 (ra + 8) 8 = unat (Lba * ucast (b div 512))"
proof -
  let ?B = "BlkRequest b Lba n wr"
  have len: "length ?B = 16" by (simp add: BlkRequest_def)
  have "load_bytes m2 ra 4 = load_bytes (store_bytes m ra ?B) (ra + 0) 4" "load_bytes m2 (ra + 8) 8 = load_bytes (store_bytes m ra ?B) (ra + 8) 8"
    using assms(1) by (auto intro!: load_bytes_cong)
  then have "load_bytes m2 ra 4 = take 4 (drop 0 ?B)" "load_bytes m2 (ra + 8) 8 = take 8 (drop 8 ?B)"
    using load_bytes_within [of 0 4 ?B] load_bytes_within [of 8 8 ?B] len by simp_all
  then show "load_le m2 ra 4 = (if wr then VIRTIO_BLK_T_OUT else VIRTIO_BLK_T_IN)" "load_le m2 (ra + 8) 8 = unat (Lba * ucast (b div 512))"
    using assms(2) le_val_le_bytes [of 8 "unat (Lba * ucast (b div 512))"] unat_u64_mod [of "Lba * ucast (b div 512)"]
    by (simp_all add: BlkRequest_def load_le_def le_val_le_bytes VIRTIO_BLK_T_OUT_def VIRTIO_BLK_T_IN_def del: unat_u64_mod)
qed

text \<open>The memory after the host served the request.\<close>

definition served :: "bool \<Rightarrow> mem \<Rightarrow> nat \<Rightarrow> nat \<Rightarrow> nat \<Rightarrow> u8 list \<Rightarrow> mem" where
  "served wr m hs buf n bs = (if wr then m else store_bytes m buf bs)(hs := VIRTIO_BLK_S_OK)"

lemma Submit_disk:
  assumes dev: "blk_device Stall V ring dsk pool" and ok: "vring_ok ring" and Q: "unat (QueueSize ring) dvd 65536" "3 \<le> QueueSize ring"
    and n: "0 < n" "n \<le> SIZE_1GB" and lay: "blk_layout ring ra buf n pool" and hs: "hs \<in> pool"
    and m: "m = (store_bytes m0 ra (BlkRequest b Lba n wr))(hs := v)"
  defines "off \<equiv> 512 * unat (Lba * ucast (b div 512))"
  shows "\<exists>m' d'. SubmitRequest Stall V ring (of_nat ra) (of_nat buf) (of_nat hs) hs n wr (m, d) = Some (Ok (EFI_SUCCESS, m', d')) \<and>
     dsk d' = (if wr then store_bytes (dsk d) off (load_bytes m buf n) else dsk d) \<and>
     (\<forall>a. a \<notin> ring_area ring \<longrightarrow> m' a = served wr m hs buf n (load_bytes (dsk d) off n) a)"
proof (rule Submit_completes [OF _ ok Q n])
  show "completes Stall V 0 ring blk_server dsk" using dev by (simp add: blk_device_def)
  show "hs \<notin> ring_area ring" using lay hs by (auto simp: blk_layout_def)
  show "served wr m hs buf n (load_bytes (dsk d) off n) hs = VIRTIO_BLK_S_OK" by (simp add: served_def)
  fix m2 assume m2: "\<And>a. a \<notin> ring_area ring \<Longrightarrow> m2 a = m a"
  let ?bs = "[(of_nat ra, 16, VRING_DESC_F_NEXT), (of_nat buf, of_nat n, or VRING_DESC_F_NEXT (if wr then 0 else VRING_DESC_F_WRITE)), (of_nat hs, 1, VRING_DESC_F_WRITE)]"
  have bounds: "ra < 2 ^ 64" "buf < 2 ^ 64" "hs < 2 ^ 64" "n < 2 ^ 32" using lay hs n by (auto simp: blk_layout_def SIZE_1GB_def)
  then have ad: "unat (of_nat ra :: u64) = ra" "unat (of_nat buf :: u64) = buf" "unat (of_nat n :: u32) = n" "unat (of_nat hs :: u64) = hs"
    by (simp_all add: unat_of_nat)
  have rq: "m2 a = store_bytes m0 ra (BlkRequest b Lba n wr) a" if "ra \<le> a" "a < ra + 16" for a
  proof -
    have "a \<notin> ring_area ring" "a \<noteq> hs" using lay hs that by (auto simp: blk_layout_def)
    then show ?thesis using m2 by (simp add: m)
  qed
  note fields = request_fields [OF rq n(1)]
  have buf: "load_bytes m2 buf n = load_bytes m buf n"
    using lay by (intro load_bytes_cong m2) (auto simp: blk_layout_def)
  have "blk_serve (chain_of ring ?bs) (m2, dsk d) = (served wr m2 hs buf n (load_bytes (dsk d) off n), if wr then store_bytes (dsk d) off (load_bytes m buf n) else dsk d)"
    using fields buf by (auto simp: ad chain_of_def upt_rec chain_desc_def Let_def off_def served_def VIRTIO_BLK_T_OUT_def VIRTIO_BLK_T_IN_def)
  then show "blk_serve (chain_of ring ?bs) (m2, dsk d) = (served wr m2 hs buf n (load_bytes (dsk d) off n), if wr then store_bytes (dsk d) off (load_bytes m buf n) else dsk d) \<and>
      (\<forall>a. a \<notin> ring_area ring \<longrightarrow> served wr m2 hs buf n (load_bytes (dsk d) off n) a = served wr m hs buf n (load_bytes (dsk d) off n) a)"
    using m2 by (auto simp: served_def store_bytes_def)
qed

text \<open>What a request leaves in memory: everything but the ring, the request on the stack, the
  shared pages and, for a read, the buffer.\<close>

definition untouched :: "VRING \<Rightarrow> nat \<Rightarrow> nat \<Rightarrow> nat \<Rightarrow> bool \<Rightarrow> nat set \<Rightarrow> mem \<Rightarrow> mem \<Rightarrow> bool" where
  "untouched ring ra buf n wr pool m m' \<longleftrightarrow>
    (\<forall>a. a \<notin> ring_area ring \<union> {ra ..< ra + 16} \<union> pool \<union> (if wr then {} else {buf ..< buf + n}) \<longrightarrow> m' a = m a)"

lemma SynchronousRequest_disk:
  fixes Lba :: u64
  assumes dev: "blk_device Stall V (Ring Dev) dsk pool" and ok: "vring_ok (Ring Dev)"
    and Q: "unat (QueueSize (Ring Dev)) dvd 65536" "3 \<le> QueueSize (Ring Dev)"
    and bs: "BlockSize (BlockIoMedia Dev) \<noteq> 0" "512 dvd unat (BlockSize (BlockIoMedia Dev))" "n mod unat (BlockSize (BlockIoMedia Dev)) = 0"
    and n: "0 < n" "n \<le> SIZE_1GB" and lay: "blk_layout (Ring Dev) ra buf n pool"
  defines "off \<equiv> 512 * unat (Lba * ucast (BlockSize (BlockIoMedia Dev) div 512))"
  shows "\<exists>m' d'. SynchronousRequest Stall V ra Dev Lba n buf wr (m, d) = Some (Ok (EFI_SUCCESS, m', d')) \<and>
     (dsk d' = (if wr then store_bytes (dsk d) off (load_bytes m buf n) else dsk d) \<and>
      (\<not> wr \<longrightarrow> load_bytes m' buf n = load_bytes (dsk d) off n) \<and> untouched (Ring Dev) ra buf n wr pool m m')"
proof -
  let ?b = "BlockSize (BlockIoMedia Dev)" and ?ring = "Ring Dev"
  have im: "identity_mapped V dsk pool" using dev by (simp add: blk_device_def)
  let ?m0 = "store_bytes m ra (BlkRequest ?b Lba n wr)"
  define P where "P = (\<lambda>m' k. k = (if wr then store_bytes (dsk d) off (load_bytes m buf n) else dsk d) \<and>
      (\<not> wr \<longrightarrow> load_bytes m' buf n = load_bytes (dsk d) off n) \<and> untouched ?ring ra buf n wr pool m m')"
  have submit: "\<exists>m' d'. SubmitRequest Stall V ?ring (of_nat ra) (of_nat buf) (of_nat hs) hs n wr (?m0(hs := VIRTIO_BLK_S_IOERR), d1) = Some (Ok (EFI_SUCCESS, m', d')) \<and> P m' (dsk d')"
    if hs: "hs \<in> pool" and d1: "dsk d1 = dsk d" for hs d1
  proof -
    let ?m = "?m0(hs := VIRTIO_BLK_S_IOERR)"
    obtain m' d' where r: "SubmitRequest Stall V ?ring (of_nat ra) (of_nat buf) (of_nat hs) hs n wr (?m, d1) = Some (Ok (EFI_SUCCESS, m', d'))"
      and k: "dsk d' = (if wr then store_bytes (dsk d1) off (load_bytes ?m buf n) else dsk d1)"
      and m': "\<And>a. a \<notin> ring_area ?ring \<Longrightarrow> m' a = served wr ?m hs buf n (load_bytes (dsk d1) off n) a"
      using Submit_disk [where ?m0.0 = m and b = ?b and Lba = Lba and wr = wr and v = VIRTIO_BLK_S_IOERR and d = d1, OF dev ok Q n lay hs refl] unfolding off_def by blast
    have buf: "a \<notin> ring_area ?ring" "a \<noteq> hs" "\<not> (ra \<le> a \<and> a < ra + 16)" if "buf \<le> a" "a < buf + n" for a
      using lay hs that by (auto simp: blk_layout_def)
    have len: "length (BlkRequest ?b Lba n wr) = 16" by (simp add: BlkRequest_def)
    have "load_bytes ?m buf n = load_bytes m buf n" using buf by (intro load_bytes_cong) (auto simp: store_bytes_def len)
    moreover have "load_bytes m' buf n = load_bytes (dsk d1) off n" if "\<not> wr"
    proof -
      have "load_bytes m' buf n = load_bytes (store_bytes ?m buf (load_bytes (dsk d1) off n)) buf n"
        using buf m' that by (intro load_bytes_cong) (auto simp: served_def)
      then show ?thesis by (simp add: load_store_same)
    qed
    moreover have "untouched ?ring ra buf n wr pool m m'"
      using m' hs by (auto simp: untouched_def served_def store_bytes_def len split: if_splits)
    ultimately show ?thesis using r k d1 by (auto simp: P_def)
  qed
  have status: "\<exists>m' d'. with_mapped V q hs 1 e (\<lambda>_ s. s) (\<lambda>c. SubmitRequest Stall V ?ring (of_nat ra) (of_nat buf) c hs n wr)
      (?m0(hs := VIRTIO_BLK_S_IOERR), d1) = Some (Ok (EFI_SUCCESS, m', d')) \<and> P m' (dsk d')" if "hs \<in> pool" "dsk d1 = dsk d" for hs d1 q e
    by (rule with_mapped_identity [OF identity_maps [OF im], where fin = "\<lambda>_ s. s"], rule submit) (simp_all add: that)
  have "\<exists>m' d'. with_pages V (EFI_SIZE_TO_PAGES 1) EFI_DEVICE_ERROR (\<lambda>hs.
      with_mapped V VirtioOperationBusMasterRead ra 16 EFI_DEVICE_ERROR (\<lambda>_ s. s) (\<lambda>a.
        with_mapped V (if wr then VirtioOperationBusMasterRead else VirtioOperationBusMasterWrite) buf n EFI_DEVICE_ERROR
          (\<lambda>u s. if EFI_ERROR u \<and> \<not> wr \<and> \<not> EFI_ERROR s then EFI_DEVICE_ERROR else s)
          (\<lambda>b w1. with_mapped V VirtioOperationBusMasterCommonBuffer hs 1 EFI_DEVICE_ERROR (\<lambda>_ s. s)
             (\<lambda>c. SubmitRequest Stall V ?ring a b c hs n wr) ((fst w1)(hs := VIRTIO_BLK_S_IOERR), snd w1)))) (?m0, d) = Some (Ok (EFI_SUCCESS, m', d')) \<and> P m' (dsk d')"
  proof (rule with_pages_identity [OF im])
    fix hs d1 assume h: "hs \<in> pool" "dsk d1 = dsk d"
    let ?data = "\<lambda>a. with_mapped V (if wr then VirtioOperationBusMasterRead else VirtioOperationBusMasterWrite) buf n EFI_DEVICE_ERROR
          (\<lambda>u s. if EFI_ERROR u \<and> \<not> wr \<and> \<not> EFI_ERROR s then EFI_DEVICE_ERROR else s)
          (\<lambda>b w1. with_mapped V VirtioOperationBusMasterCommonBuffer hs 1 EFI_DEVICE_ERROR (\<lambda>_ s. s)
             (\<lambda>c. SubmitRequest Stall V ?ring a b c hs n wr) ((fst w1)(hs := VIRTIO_BLK_S_IOERR), snd w1))"
    have "\<exists>m' d'. ?data (of_nat ra) (?m0, d2) = Some (Ok (EFI_SUCCESS, m', d')) \<and> P m' (dsk d')" if "dsk d2 = dsk d1" for d2
      using that h
      by (intro with_mapped_identity [OF identity_maps [OF im], where r = EFI_SUCCESS and fin = "\<lambda>u s. if EFI_ERROR u \<and> \<not> wr \<and> \<not> EFI_ERROR s then EFI_DEVICE_ERROR else s",
            unfolded EFI_ERROR.simps(1) simp_thms if_False])
        (simp only: fst_conv snd_conv, rule status, simp_all)
    then show "\<exists>m' d'. with_mapped V VirtioOperationBusMasterRead ra 16 EFI_DEVICE_ERROR (\<lambda>_ s. s) ?data (?m0, d1) = Some (Ok (EFI_SUCCESS, m', d')) \<and> P m' (dsk d')"
      by (intro with_mapped_identity [OF identity_maps [OF im], where fin = "\<lambda>_ s. s"])
  qed
  then show ?thesis using bs n unfolding SynchronousRequest_def Let_def P_def
    by (simp add: unat_gt_0 word_gt_0 dvd_eq_mod_eq_0)
qed

section \<open>A concrete device\<close>

text \<open>A device that completes every request at once; its state is the disk.\<close>

definition disk_dev :: "VRING \<Rightarrow> (mem, unit) VIRTIO_DEVICE_PROTOCOL" where
  "disk_dev ring = \<lparr>Revision = 0x01000000, SetGuestFeatures = (\<lambda>_ w. (EFI_SUCCESS, w)), SetDeviceStatus = (\<lambda>_ w. (EFI_SUCCESS, w)),
     GetDeviceStatus = (\<lambda>s w. (EFI_SUCCESS, s, w)), SetQueueNotify = (\<lambda>_ w. (EFI_SUCCESS, host_complete blk_server ring w)),
     AllocateSharedPages = (\<lambda>_ w. (EFI_SUCCESS, 0x9000, w)), FreeSharedPages = (\<lambda>_ _ w. w),
     MapSharedBuffer = (\<lambda>_ p n w. (EFI_SUCCESS, (n, of_nat p, ()), w)), UnmapSharedBuffer = (\<lambda>_ w. (EFI_SUCCESS, w)),
     SubSystemDeviceId = 2, GetDeviceFeatures = (\<lambda>w. (EFI_SUCCESS, 0x100000000, w)), SetPageSize = (\<lambda>_ w. (EFI_SUCCESS, w)),
     SetQueueSel = (\<lambda>_ w. (EFI_SUCCESS, w)), GetQueueNumMax = (\<lambda>w. (EFI_SUCCESS, 4, w)), SetQueueNum = (\<lambda>_ w. (EFI_SUCCESS, w)),
     SetQueueAlign = (\<lambda>_ w. (EFI_SUCCESS, w)), SetQueueAddress = (\<lambda>_ _ w. (EFI_SUCCESS, w)),
     ReadDevice = (\<lambda>_ _ w. (EFI_SUCCESS, 8, w)), WriteDevice = (\<lambda>_ _ _ w. (EFI_SUCCESS, w))\<rparr>"

lemma disk_dev_device: "blk_device (\<lambda>_ w. w) (disk_dev ring) ring (\<lambda>d. d) {0x9000}"
  unfolding blk_device_def identity_mapped_def maps_identity_def completes_def
  by (intro conjI allI exI [of _ 0] exI; simp add: disk_dev_def)

definition demo_blk :: "unit VBLK_DEV" where
  "demo_blk = \<lparr>Ring = (VirtioRingPointers 4 (zero_VRING\<lparr>NumPages := 2\<rparr>))\<lparr>QueueSize := 4\<rparr>, BlockIoRevision3 = False,
     BlockIoMedia = BlkMedia 0 8 512 (0, 0, 0), RingMap = ()\<rparr>"

lemma demo_blk_ok:
  "vring_ok (Ring demo_blk)" "unat (QueueSize (Ring demo_blk)) dvd 65536" "3 \<le> QueueSize (Ring demo_blk)"
  "blk_media_ok (BlockIoMedia demo_blk) 8" "VerifyReadWriteRequest (BlockIoMedia demo_blk) 3 512 wr = Ok EFI_SUCCESS"
  "blk_layout (Ring demo_blk) 0x8000 0xA000 512 {0x9000}"
  by (simp_all add: demo_blk_def vring_ok_def VirtioRingPointers_def zero_VRING_def ALIGN_VALUE_def EFI_PAGE_SIZE_def EFI_PAGES_TO_SIZE_def
      blk_media_ok_def BlkMedia_def VerifyReadWriteRequest_def SIZE_1GB_def blk_layout_def ring_area_def)

section \<open>Properties\<close>

text \<open>
  Property C1. Reading blocks is reading the disk: on a device that behaves as the virtio
  specification says, an accepted read request returns success, the buffer then holds the
  bytes of the disk from \<open>Lba\<close> times the block size on, the disk is unchanged, and so is all
  memory outside the buffer, the ring, the request structure and the shared pages.
\<close>

theorem VirtioBlkReadBlocks_reads_disk:
  assumes "blk_device Stall V (Ring Dev) dsk pool" and "vring_ok (Ring Dev)"
    and "unat (QueueSize (Ring Dev)) dvd 65536" and "3 \<le> QueueSize (Ring Dev)" and "blk_media_ok (BlockIoMedia Dev) cap"
    and "VerifyReadWriteRequest (BlockIoMedia Dev) Lba n False = Ok EFI_SUCCESS" and "blk_layout (Ring Dev) ra buf n pool"
  shows "\<exists>m' d'. VirtioBlkReadBlocks Stall V ra Dev Lba n buf (m, d) = Some (Ok (EFI_SUCCESS, m', d')) \<and>
     load_bytes m' buf n = load_bytes (dsk d) (unat Lba * unat (BlockSize (BlockIoMedia Dev))) n \<and> dsk d' = dsk d \<and>
     untouched (Ring Dev) ra buf n False pool m m'"
proof -
  note v = Verify_in_capacity [OF assms(6,5)]
  have b: "BlockSize (BlockIoMedia Dev) \<noteq> 0" "512 dvd unat (BlockSize (BlockIoMedia Dev))" using assms(5) by (auto simp: blk_media_ok_def)
  have off: "512 * unat (Lba * ucast (BlockSize (BlockIoMedia Dev) div 512)) = unat Lba * unat (BlockSize (BlockIoMedia Dev))"
    using v(1) b(2) by (auto elim!: dvdE simp del: unat_of_nat)
  show ?thesis
    using SynchronousRequest_disk [OF assms(1-4) b v(5,3,4) assms(7), of Lba False m d] v(3) assms(6) unfolding off
    by (auto simp: VirtioBlkReadBlocks_def)
qed

theorem VirtioBlkReadBlocks_reads_disk_witness:
  "\<exists>m'. VirtioBlkReadBlocks (\<lambda>_ w. w) (disk_dev (Ring demo_blk)) 0x8000 demo_blk 3 512 0xA000 (\<lambda>_. 0, of_nat) = Some (Ok (EFI_SUCCESS, m', of_nat)) \<and>
     m' 0xA007 = 7"
proof -
  obtain m' where r: "VirtioBlkReadBlocks (\<lambda>_ w. w) (disk_dev (Ring demo_blk)) 0x8000 demo_blk 3 512 0xA000 (\<lambda>_. 0, of_nat) = Some (Ok (EFI_SUCCESS, m', of_nat))"
    and "load_bytes m' 0xA000 512 = load_bytes of_nat (unat (3 :: u64) * unat (BlockSize (BlockIoMedia demo_blk))) 512"
    using VirtioBlkReadBlocks_reads_disk [OF disk_dev_device demo_blk_ok, of "\<lambda>_. 0" of_nat] by auto
  then have "load_bytes m' 0xA000 512 ! 7 = load_bytes of_nat 1536 512 ! 7" by (simp add: demo_blk_def BlkMedia_def)
  then have "m' 0xA007 = of_nat 1543" by (simp add: nth_load_bytes)
  with r show ?thesis by auto
qed

text \<open>
  Property C12. Writing blocks is writing the disk: an accepted write request returns success,
  the bytes of the buffer are on the disk from \<open>Lba\<close> times the block size on and no other byte
  of the disk has changed; in memory only the ring, the request structure and the shared pages
  may have.
\<close>

theorem VirtioBlkWriteBlocks_writes_disk:
  assumes "blk_device Stall V (Ring Dev) dsk pool" and "vring_ok (Ring Dev)"
    and "unat (QueueSize (Ring Dev)) dvd 65536" and "3 \<le> QueueSize (Ring Dev)" and "blk_media_ok (BlockIoMedia Dev) cap"
    and "VerifyReadWriteRequest (BlockIoMedia Dev) Lba n True = Ok EFI_SUCCESS" and "blk_layout (Ring Dev) ra buf n pool"
  shows "\<exists>m' d'. VirtioBlkWriteBlocks Stall V ra Dev Lba n buf (m, d) = Some (Ok (EFI_SUCCESS, m', d')) \<and>
     dsk d' = store_bytes (dsk d) (unat Lba * unat (BlockSize (BlockIoMedia Dev))) (load_bytes m buf n) \<and>
     untouched (Ring Dev) ra buf n True pool m m'"
proof -
  note v = Verify_in_capacity [OF assms(6,5)]
  have b: "BlockSize (BlockIoMedia Dev) \<noteq> 0" "512 dvd unat (BlockSize (BlockIoMedia Dev))" using assms(5) by (auto simp: blk_media_ok_def)
  have off: "512 * unat (Lba * ucast (BlockSize (BlockIoMedia Dev) div 512)) = unat Lba * unat (BlockSize (BlockIoMedia Dev))"
    using v(1) b(2) by (auto elim!: dvdE simp del: unat_of_nat)
  show ?thesis
    using SynchronousRequest_disk [OF assms(1-4) b v(5,3,4) assms(7), of Lba True m d] v(3) assms(6) unfolding off
    by (simp add: VirtioBlkWriteBlocks_def)
qed

theorem VirtioBlkWriteBlocks_writes_disk_witness:
  "\<exists>m' d'. VirtioBlkWriteBlocks (\<lambda>_ w. w) (disk_dev (Ring demo_blk)) 0x8000 demo_blk 3 512 0xA000 (\<lambda>_. 5, \<lambda>_. 0) = Some (Ok (EFI_SUCCESS, m', d')) \<and>
     d' 1543 = 5 \<and> d' 2048 = 0"
proof -
  obtain m' d' where r: "VirtioBlkWriteBlocks (\<lambda>_ w. w) (disk_dev (Ring demo_blk)) 0x8000 demo_blk 3 512 0xA000 (\<lambda>_. 5, \<lambda>_. 0) = Some (Ok (EFI_SUCCESS, m', d'))"
    and "d' = store_bytes (\<lambda>_. 0) (unat (3 :: u64) * unat (BlockSize (BlockIoMedia demo_blk))) (load_bytes (\<lambda>_. 5) 0xA000 512)"
    using VirtioBlkWriteBlocks_writes_disk [OF disk_dev_device demo_blk_ok, of "\<lambda>_. 5" "\<lambda>_. 0"] by auto
  then have "d' = store_bytes (\<lambda>_. 0) 1536 (load_bytes (\<lambda>_. 5) 0xA000 512)" by (simp add: demo_blk_def BlkMedia_def)
  then have "d' 1543 = 5 \<and> d' 2048 = 0" by (simp add: store_bytes_def nth_load_bytes)
  with r show ?thesis by auto
qed

end
