(* ===== verification/VirtioRng.thy ===== *)
theory VirtioRng
  imports VirtioHost
begin

text \<open>
  Model of \<open>QemuPkg/VirtioRngDxe/VirtioRng.c\<close>, the entropy source driver: the random number
  protocol over a virtqueue, set-up and teardown, driver binding; and that the bytes a caller
  gets are consecutive bytes of the device's entropy stream.
\<close>

section \<open>Protocol\<close>

definition VIRTIO_SUBSYSTEM_ENTROPY_SOURCE :: nat where "VIRTIO_SUBSYSTEM_ENTROPY_SOURCE = 4"
definition MAX_UINT32 :: nat where "MAX_UINT32 = 0xFFFFFFFF"

record 'map VIRTIO_RNG_DEV =
  Ring :: VRING
  RingMap :: 'map

text \<open>\<open>VirtioRngGetInfo\<close>: the size in and out, whether the algorithm list was given; the result says
  whether \<open>gEfiRngAlgorithmRaw\<close> was stored.  A GUID is 16 bytes.\<close>

definition VirtioRngGetInfo :: "bool \<Rightarrow> nat option \<Rightarrow> bool \<Rightarrow> EFI_STATUS \<times> nat option \<times> bool" where
  "VirtioRngGetInfo This RNGAlgorithmListSize RNGAlgorithmList =
    (case RNGAlgorithmListSize of
       None \<Rightarrow> (EFI_INVALID_PARAMETER, None, False)
     | Some n \<Rightarrow>
         if \<not> This then (EFI_INVALID_PARAMETER, Some n, False)
         else if n < 16 then (EFI_BUFFER_TOO_SMALL, Some 16, False)
         else if \<not> RNGAlgorithmList then (EFI_INVALID_PARAMETER, Some n, False)
         else (EFI_SUCCESS, Some 16, True))"

text \<open>The request loop from \<open>Index\<close> on; the status is that of the request that failed.\<close>

function RngLoop ::
  "(nat \<Rightarrow> 'd world \<Rightarrow> 'd world) \<Rightarrow> ('d, 'map) VIRTIO_DEVICE_PROTOCOL \<Rightarrow> VRING \<Rightarrow> u64 \<Rightarrow> nat \<Rightarrow> nat \<Rightarrow> 'd world
   \<Rightarrow> (EFI_STATUS \<times> 'd world) run" where
  "RngLoop Stall VirtIo ring DeviceAddress n Index w =
    (if Index < n then
       let bsize = min (n - Index) MAX_UINT32
       in case append_all ring [(DeviceAddress + of_nat Index, of_nat bsize, VRING_DESC_F_WRITE)] (VirtioPrepare ring (fst w)) of (m1, Indices) \<Rightarrow>
         run_bind (VirtioFlush Stall VirtIo 0 ring Indices True (m1, snd w)) (\<lambda>(Status, l, w2).
           if Status \<noteq> EFI_SUCCESS then Some (Ok (EFI_DEVICE_ERROR, w2))
           else let k = (case l of None \<Rightarrow> 0 | Some x \<Rightarrow> unat x)
             in if \<not> k > 0 then Some AssertFailed
                else if \<not> k \<le> bsize then Some AssertFailed
                else RngLoop Stall VirtIo ring DeviceAddress n (Index + k) w2)
     else Some (Ok (EFI_SUCCESS, w)))"
  by pat_completeness auto

termination
  by (relation "measure (\<lambda>(_, _, _, _, n, i, _). n - i)") auto

declare RngLoop.simps [simp del]

text \<open>
  \<open>VirtioRngGetRNG\<close>.  \<open>RNGAlgorithm\<close> is \<open>None\<close> or whether it is the raw algorithm, \<open>RNGValue\<close> an
  address or \<open>NULL\<close>.  A buffer that was unmapped on success must not be unmapped again.
\<close>

definition GetMapped ::
  "(nat \<Rightarrow> 'd world \<Rightarrow> 'd world) \<Rightarrow> ('d, 'map) VIRTIO_DEVICE_PROTOCOL \<Rightarrow> VRING \<Rightarrow> nat \<Rightarrow> nat \<Rightarrow> nat \<Rightarrow> 'd world \<Rightarrow> (EFI_STATUS \<times> 'd world) run" where
  "GetMapped Stall VirtIo ring Buffer n RNGValue w =
    (case VirtioMapAllBytesInSharedBuffer VirtIo VirtioOperationBusMasterWrite Buffer n w of
       (Status, None, w1) \<Rightarrow> Some (Ok (EFI_DEVICE_ERROR, w1))
     | (Status, Some (DeviceAddress, Mapping), w1) \<Rightarrow>
         run_bind (RngLoop Stall VirtIo ring DeviceAddress n 0 w1) (\<lambda>(Status, w2).
           if EFI_ERROR Status then Some (Ok (Status, snd (UnmapSharedBuffer VirtIo Mapping w2)))
           else case UnmapSharedBuffer VirtIo Mapping w2 of (Status, w3) \<Rightarrow>
             if EFI_ERROR Status then Some (Ok (EFI_DEVICE_ERROR, w3))
             else Some (Ok (EFI_SUCCESS, store_bytes (fst w3) RNGValue (load_bytes (fst w3) Buffer n), snd w3))))"

definition VirtioRngGetRNG ::
  "(nat \<Rightarrow> 'd world \<Rightarrow> 'd world) \<Rightarrow> ('d, 'map) VIRTIO_DEVICE_PROTOCOL \<Rightarrow> (nat \<Rightarrow> 'd world \<Rightarrow> nat option \<times> 'd world) \<Rightarrow> (nat \<Rightarrow> 'd world \<Rightarrow> 'd world)
   \<Rightarrow> 'map VIRTIO_RNG_DEV option \<Rightarrow> bool option \<Rightarrow> nat \<Rightarrow> nat option \<Rightarrow> 'd world \<Rightarrow> (EFI_STATUS \<times> 'd world) run" where
  "VirtioRngGetRNG Stall VirtIo alloc free This RNGAlgorithm RNGValueLength RNGValue w =
    (case (This, RNGValue) of
       (Some Dev, Some v) \<Rightarrow>
         if RNGValueLength = 0 then Some (Ok (EFI_INVALID_PARAMETER, w))
         else if RNGAlgorithm = Some False then Some (Ok (EFI_UNSUPPORTED, w))
         else (case alloc RNGValueLength w of
            (None, w1) \<Rightarrow> Some (Ok (EFI_DEVICE_ERROR, w1))
          | (Some Buffer, w1) \<Rightarrow>
              run_bind (GetMapped Stall VirtIo (Ring Dev) Buffer RNGValueLength v w1) (\<lambda>(Status, w2). Some (Ok (Status, free Buffer w2))))
     | _ \<Rightarrow> Some (Ok (EFI_INVALID_PARAMETER, w)))"

section \<open>Set-up, teardown, binding\<close>

definition RngFeatures :: "u64 \<Rightarrow> u64" where
  "RngFeatures Features = and Features (or VIRTIO_F_VERSION_1 VIRTIO_F_IOMMU_PLATFORM)"

definition VirtioRngInit :: "('d, 'map) VIRTIO_DEVICE_PROTOCOL \<Rightarrow> 'd world \<Rightarrow> (EFI_STATUS + 'map VIRTIO_RNG_DEV) \<times> 'd world" where
  "VirtioRngInit VirtIo =
    RunSetup VirtIo
     (es_bind (StartDevice VirtIo) (\<lambda>Features.
      es_bind (SelectQueue VirtIo (RngFeatures Features) 0 1) (\<lambda>q.
      es_bind (SetUpRing VirtIo (RngFeatures Features) q (es_ret ())) (\<lambda>(ring, mi). es_ret \<lparr>Ring = ring, RingMap = mi\<rparr>))))"

definition VirtioRngUninit :: "('d, 'map) VIRTIO_DEVICE_PROTOCOL \<Rightarrow> 'map VIRTIO_RNG_DEV \<Rightarrow> 'd world \<Rightarrow> 'd world" where
  "VirtioRngUninit VirtIo Dev = ReleaseRing VirtIo (Ring Dev) (RingMap Dev)"

definition VirtioRngExitBoot :: "('d, 'map) VIRTIO_DEVICE_PROTOCOL \<Rightarrow> 'd world \<Rightarrow> 'd world" where
  "VirtioRngExitBoot VirtIo w = snd (SetDeviceStatus VirtIo 0 w)"

definition VirtioRngDriverBindingSupported ::
  "'d binding_services \<Rightarrow> ('d, 'map) VIRTIO_DEVICE_PROTOCOL \<Rightarrow> 'd world \<Rightarrow> EFI_STATUS \<times> 'd world" where
  "VirtioRngDriverBindingSupported bs VirtIo = BindingSupported bs VirtIo VIRTIO_SUBSYSTEM_ENTROPY_SOURCE"

definition VirtioRngDriverBindingStart ::
  "'d binding_services \<Rightarrow> ('d, 'map) VIRTIO_DEVICE_PROTOCOL \<Rightarrow> 'd world \<Rightarrow> (EFI_STATUS + nat \<times> nat \<times> 'map VIRTIO_RNG_DEV) \<times> 'd world" where
  "VirtioRngDriverBindingStart bs VirtIo = BindingStart bs (VirtioRngInit VirtIo) (VirtioRngUninit VirtIo)"

definition VirtioRngDriverBindingStop ::
  "'d binding_services \<Rightarrow> ('d, 'map) VIRTIO_DEVICE_PROTOCOL \<Rightarrow> nat \<times> nat \<times> 'map VIRTIO_RNG_DEV \<Rightarrow> 'd world \<Rightarrow> EFI_STATUS \<times> 'd world" where
  "VirtioRngDriverBindingStop bs VirtIo = BindingStop bs (VirtioRngUninit VirtIo)"

section \<open>What the driver holds\<close>

lemma VirtioRngInit_res:
  assumes ok: "vio_ok V res" and r: "VirtioRngInit V w = (x, w')"
  shows "res (snd w') = (case x of Inl e \<Rightarrow> res (snd w) | Inr Dev \<Rightarrow> ring_res (Ring Dev) (RingMap Dev) + res (snd w))"
proof -
  obtain st w1 where f: "(es_bind (StartDevice V) (\<lambda>Features. es_bind (SelectQueue V (RngFeatures Features) 0 1) (\<lambda>q.
      es_bind (SetUpRing V (RngFeatures Features) q (es_ret ())) (\<lambda>(ring, mi). es_ret \<lparr>Ring = ring, RingMap = mi\<rparr>)))) (0, w) = (x, st, w1)"
    and w': "res (snd w') = res (snd w1)"
    using RunSetup_res [OF ok r [unfolded VirtioRngInit_def]] by blast
  show ?thesis
    using f
    apply (rule es_bind_keeps [OF es_keeps_start [OF ok]], simp add: w')
    apply (erule es_bind_keeps [OF es_keeps_select [OF ok]], simp add: w')
    apply (auto simp: es_bind_def es_ret_def w' split: prod.splits sum.splits dest!: SetUpRing_res [OF ok es_keeps_intros(2)])
    done
qed

interpretation rng: virtio_driver VirtioRngInit VirtioRngUninit "\<lambda>Dev. ring_res (Ring Dev) (RingMap Dev)"
  by unfold_locales (auto simp: VirtioRngUninit_def ReleaseRing_res dest: VirtioRngInit_res)

section \<open>An entropy device\<close>

text \<open>The device state is the stream of entropy still to come; the device decides how much of a buffer
  it fills.\<close>

definition rng_server :: "((nat \<Rightarrow> u8) \<Rightarrow> nat \<Rightarrow> nat) \<Rightarrow> (nat \<Rightarrow> u8) server" where
  "rng_server chunk ds w =
    (case ds of
       [d] \<Rightarrow> (let k = chunk (snd w) (unat (Len d))
               in ((store_bytes (fst w) (unat (Addr d)) (map (snd w) [0..<k]), \<lambda>i. snd w (i + k)), k))
     | _ \<Rightarrow> (w, 0))"

definition chunk_ok :: "((nat \<Rightarrow> u8) \<Rightarrow> nat \<Rightarrow> nat) \<Rightarrow> bool" where
  "chunk_ok chunk \<longleftrightarrow> (\<forall>s n. 0 < n \<longrightarrow> 0 < chunk s n \<and> chunk s n \<le> n)"

text \<open>The buffer is apart from the ring and in the 64-bit address space.\<close>

definition rng_layout :: "VRING \<Rightarrow> nat \<Rightarrow> nat \<Rightarrow> bool" where
  "rng_layout ring buf n \<longleftrightarrow> ring_area ring \<inter> {buf ..< buf + n} = {} \<and> buf + n \<le> 2 ^ 64"

lemma Rng_step:
  fixes d :: 'd
  assumes dev: "completes Stall V 0 ring (rng_server chunk) obs" and ok: "vring_ok ring" and Q: "unat (QueueSize ring) dvd 65536"
    and c: "chunk_ok chunk" and lay: "rng_layout ring buf n" and i: "i < n"
    and r: "append_all ring [(of_nat buf + of_nat i, of_nat (min (n - i) MAX_UINT32), VRING_DESC_F_WRITE)] (VirtioPrepare ring m) = (m1, I)"
  defines "k \<equiv> chunk (obs d) (min (n - i) MAX_UINT32)"
  shows "\<exists>w'. VirtioFlush Stall V 0 ring I True (m1, d) = Some (Ok (EFI_SUCCESS, Some (of_nat k), w')) \<and> obs (snd w') = (\<lambda>j. obs d (j + k)) \<and>
    (\<forall>a. a \<notin> ring_area ring \<longrightarrow> fst w' a = store_bytes m (buf + i) (map (obs d) [0..<k]) a)"
proof -
  let ?b = "min (n - i) MAX_UINT32" and ?bs = "[(of_nat buf + of_nat i :: u64, of_nat (min (n - i) MAX_UINT32) :: u32, VRING_DESC_F_WRITE)]"
  have fl: "chain_flags ?bs" by (simp add: chain_flags_def VRING_DESC_F_NEXT_def VRING_DESC_F_WRITE_def)
  have len: "?bs \<noteq> []" "length ?bs \<le> unat (QueueSize ring)" using ok by (auto simp: vring_ok_def Let_def Suc_le_eq)
  have "buf + i < 2 ^ 64" using lay i by (auto simp: rng_layout_def)
  then have a: "unat (of_nat buf + of_nat i :: u64) = buf + i" by (simp add: unat_of_nat flip: of_nat_add)
  have b: "unat (of_nat ?b :: u32) = ?b" by (simp add: unat_of_nat MAX_UINT32_def)
  have "rng_server chunk (chain_of ring ?bs) (m2, obs d) = ((store_bytes m2 (buf + i) (map (obs d) [0..<k]), \<lambda>j. obs d (j + k)), k) \<and>
      (\<forall>a. a \<notin> ring_area ring \<longrightarrow> store_bytes m2 (buf + i) (map (obs d) [0..<k]) a = store_bytes m (buf + i) (map (obs d) [0..<k]) a)"
    if "\<And>a. a \<notin> ring_area ring \<Longrightarrow> m2 a = m a" for m2
    using that by (auto simp: rng_server_def chain_of_def chain_desc_def a b k_def Let_def store_bytes_def)
  from Flush_completes [OF dev ok Q len fl r this, of True] show ?thesis by simp
qed

lemma RngLoop_stream:
  assumes dev: "completes Stall V 0 ring (rng_server chunk) obs" and ok: "vring_ok ring" and Q: "unat (QueueSize ring) dvd 65536"
    and c: "chunk_ok chunk" and lay: "rng_layout ring buf n"
  shows "i \<le> n \<Longrightarrow> \<exists>m' d'. RngLoop Stall V ring (of_nat buf) n i (m, d) = Some (Ok (EFI_SUCCESS, m', d')) \<and>
    obs d' = (\<lambda>j. obs d (j + (n - i))) \<and> load_bytes m' (buf + i) (n - i) = map (obs d) [0..<n - i] \<and>
    (\<forall>a. a \<notin> ring_area ring \<union> {buf + i ..< buf + n} \<longrightarrow> m' a = m a)"
proof (induction "n - i" arbitrary: i m d rule: less_induct)
  case less
  show ?case
  proof (cases "i < n")
    case False
    then show ?thesis using less.prems by (simp add: RngLoop.simps)
  next
    case True
    let ?b = "min (n - i) MAX_UINT32"
    define k where "k = chunk (obs d) ?b"
    have k: "0 < k" "k \<le> ?b" using c [unfolded chunk_ok_def, rule_format, of ?b "obs d"] True by (simp_all add: k_def MAX_UINT32_def)
    have kw: "unat (of_nat k :: u32) = k" using k by (simp add: unat_of_nat MAX_UINT32_def)
    obtain m1 I where r: "append_all ring [(of_nat buf + of_nat i, of_nat ?b, VRING_DESC_F_WRITE)] (VirtioPrepare ring m) = (m1, I)"
      by (metis surj_pair)
    obtain m2 d2 where f: "VirtioFlush Stall V 0 ring I True (m1, d) = Some (Ok (EFI_SUCCESS, Some (of_nat k), m2, d2))"
      and o2: "obs d2 = (\<lambda>j. obs d (j + k))" and m2: "\<And>a. a \<notin> ring_area ring \<Longrightarrow> m2 a = store_bytes m (buf + i) (map (obs d) [0..<k]) a"
      using Rng_step [OF dev ok Q c lay True r, of d] unfolding k_def by (metis fst_conv snd_conv surj_pair)
    have ik: "i + k \<le> n" using k True by auto
    obtain m' d' where l: "RngLoop Stall V ring (of_nat buf) n (i + k) (m2, d2) = Some (Ok (EFI_SUCCESS, m', d'))"
      and o': "obs d' = (\<lambda>j. obs d2 (j + (n - (i + k))))" and b': "load_bytes m' (buf + (i + k)) (n - (i + k)) = map (obs d2) [0..<n - (i + k)]"
      and fr: "\<And>a. a \<notin> ring_area ring \<union> {buf + (i + k) ..< buf + n} \<Longrightarrow> m' a = m2 a"
      using less.hyps [OF _ ik, of m2 d2] diff_less_mono2 [of i "i + k" n] k(1) True by auto
    have run: "RngLoop Stall V ring (of_nat buf) n i (m, d) = Some (Ok (EFI_SUCCESS, m', d'))"
      using True r f k kw l by (subst RngLoop.simps) (simp add: Let_def)
    have out: "a \<notin> ring_area ring" if "buf \<le> a" "a < buf + n" for a using lay that by (auto simp: rng_layout_def)
    have first: "load_bytes m' (buf + i) k = map (obs d) [0..<k]"
    proof -
      have "load_bytes m' (buf + i) k = load_bytes (store_bytes m (buf + i) (map (obs d) [0..<k])) (buf + i) k"
        using fr m2 out ik by (intro load_bytes_cong) auto
      then show ?thesis by (simp add: load_store_same)
    qed
    have "load_bytes m' (buf + i) (n - i) = map (obs d) [0..<k] @ map (\<lambda>j. obs d (j + k)) [0..<n - (i + k)]"
      using load_bytes_append [of m' "buf + i" k "n - (i + k)"] first b' ik by (simp add: o2 add.assoc)
    also have "\<dots> = map (obs d) [0..<n - i]" using ik k by (intro nth_equalityI) (auto simp: nth_append)
    finally have "load_bytes m' (buf + i) (n - i) = map (obs d) [0..<n - i]" .
    moreover have "obs d' = (\<lambda>j. obs d (j + (n - i)))" using ik by (auto simp: o' o2 fun_eq_iff)
    moreover have "m' a = m a" if "a \<notin> ring_area ring \<union> {buf + i ..< buf + n}" for a
      using that fr [of a] m2 [of a] ik by (auto simp: store_bytes_def)
    ultimately show ?thesis using run by blast
  qed
qed

section \<open>Properties\<close>

text \<open>
  Property C13. \<open>VirtioRngGetRNG\<close> delivers entropy: with a device that fills at least one byte of
  every buffer, however small its portions, the request loop ends, no assertion fails, the
  caller's buffer then holds the next \<open>n\<close> bytes of the device's stream in order, exactly
  \<open>n\<close> bytes of the stream have been used up, and no memory outside the ring, the bounce buffer
  and the caller's buffer has changed.
\<close>

theorem VirtioRngGetRNG_delivers_stream:
  assumes "completes Stall V 0 (Ring Dev) (rng_server chunk) obs" and "identity_mapped V obs pool" and "vring_ok (Ring Dev)"
    and "unat (QueueSize (Ring Dev)) dvd 65536" and "chunk_ok chunk" and "rng_layout (Ring Dev) buf n"
    and "0 < n" and "alg \<noteq> Some False" and "alloc n (m, d) = (Some buf, m, d1)" and "obs d1 = obs d"
    and "\<And>b m d. \<exists>d'. free b (m, d) = (m, d') \<and> obs d' = obs d"
  shows "\<exists>m' d'. VirtioRngGetRNG Stall V alloc free (Some Dev) alg n (Some v) (m, d) = Some (Ok (EFI_SUCCESS, m', d')) \<and>
    load_bytes m' v n = map (obs d) [0..<n] \<and> obs d' = (\<lambda>i. obs d (i + n)) \<and>
    (\<forall>a. a \<notin> ring_area (Ring Dev) \<union> {buf ..< buf + n} \<union> {v ..< v + n} \<longrightarrow> m' a = m a)"
proof -
  obtain mi d2 where mp: "MapSharedBuffer V VirtioOperationBusMasterWrite buf n (m, d1) = (EFI_SUCCESS, (n, of_nat buf, mi), m, d2)" "obs d2 = obs d1"
    using identity_mappedD(1) [OF assms(2)] by blast
  obtain m3 d3 where l: "RngLoop Stall V (Ring Dev) (of_nat buf) n 0 (m, d2) = Some (Ok (EFI_SUCCESS, m3, d3))"
    and o3: "obs d3 = (\<lambda>j. obs d2 (j + n))" and b3: "load_bytes m3 buf n = map (obs d2) [0..<n]"
    and fr: "\<And>a. a \<notin> ring_area (Ring Dev) \<union> {buf ..< buf + n} \<Longrightarrow> m3 a = m a"
    using RngLoop_stream [OF assms(1,3,4,5,6), of 0 m d2] by auto
  obtain d4 where u: "UnmapSharedBuffer V mi (m3, d3) = (EFI_SUCCESS, m3, d4)" "obs d4 = obs d3" using identity_mappedD(2) [OF assms(2)] by blast
  let ?m = "store_bytes m3 v (load_bytes m3 buf n)"
  obtain d5 where f: "free buf (?m, d4) = (?m, d5)" "obs d5 = obs d4" using assms(11) by blast
  have "VirtioRngGetRNG Stall V alloc free (Some Dev) alg n (Some v) (m, d) = Some (Ok (EFI_SUCCESS, ?m, d5))"
    using assms(7-9) mp l u f by (auto simp: VirtioRngGetRNG_def GetMapped_def VirtioMapAllBytesInSharedBuffer_def)
  moreover have "load_bytes ?m v n = map (obs d) [0..<n]" using b3 mp(2) assms(10) by (simp add: load_store_same)
  moreover have "obs d5 = (\<lambda>i. obs d (i + n))" using f(2) u(2) o3 mp(2) assms(10) by simp
  moreover have "\<forall>a. a \<notin> ring_area (Ring Dev) \<union> {buf ..< buf + n} \<union> {v ..< v + n} \<longrightarrow> ?m a = m a" using fr by (auto simp: store_bytes_def)
  ultimately show ?thesis by blast
qed

text \<open>A device that hands out two bytes at a time from the counting stream.\<close>

definition rng_ring :: VRING where
  "rng_ring = (VirtioRingPointers 4 (zero_VRING\<lparr>NumPages := 2\<rparr>))\<lparr>QueueSize := 4\<rparr>"

definition rng_dev :: "(nat \<Rightarrow> u8, unit) VIRTIO_DEVICE_PROTOCOL" where
  "rng_dev = \<lparr>Revision = 0x01000000, SetGuestFeatures = (\<lambda>_ w. (EFI_SUCCESS, w)), SetDeviceStatus = (\<lambda>_ w. (EFI_SUCCESS, w)),
     GetDeviceStatus = (\<lambda>s w. (EFI_SUCCESS, s, w)), SetQueueNotify = (\<lambda>_ w. (EFI_SUCCESS, host_complete (rng_server (\<lambda>_. min 2)) rng_ring w)),
     AllocateSharedPages = (\<lambda>_ w. (EFI_SUCCESS, 0x9000, w)), FreeSharedPages = (\<lambda>_ _ w. w),
     MapSharedBuffer = (\<lambda>_ p n w. (EFI_SUCCESS, (n, of_nat p, ()), w)), UnmapSharedBuffer = (\<lambda>_ w. (EFI_SUCCESS, w)),
     SubSystemDeviceId = 4, GetDeviceFeatures = (\<lambda>w. (EFI_SUCCESS, 0x100000000, w)), SetPageSize = (\<lambda>_ w. (EFI_SUCCESS, w)),
     SetQueueSel = (\<lambda>_ w. (EFI_SUCCESS, w)), GetQueueNumMax = (\<lambda>w. (EFI_SUCCESS, 4, w)), SetQueueNum = (\<lambda>_ w. (EFI_SUCCESS, w)),
     SetQueueAlign = (\<lambda>_ w. (EFI_SUCCESS, w)), SetQueueAddress = (\<lambda>_ _ w. (EFI_SUCCESS, w)),
     ReadDevice = (\<lambda>_ _ w. (EFI_SUCCESS, 8, w)), WriteDevice = (\<lambda>_ _ _ w. (EFI_SUCCESS, w))\<rparr>"

lemma rng_dev_device: "completes (\<lambda>_ w. w) rng_dev 0 rng_ring (rng_server (\<lambda>_. min 2)) (\<lambda>d. d)" "identity_mapped rng_dev (\<lambda>d. d) {0x9000}"
  unfolding completes_def identity_mapped_def maps_identity_def by (intro conjI allI exI [of _ 0] exI; simp add: rng_dev_def)+

lemma rng_ring_ok: "vring_ok rng_ring" "unat (QueueSize rng_ring) dvd 65536" "rng_layout rng_ring 0xA000 5"
  by (simp_all add: rng_ring_def vring_ok_def VirtioRingPointers_def zero_VRING_def ALIGN_VALUE_def EFI_PAGE_SIZE_def EFI_PAGES_TO_SIZE_def
      rng_layout_def ring_area_def)

theorem VirtioRngGetRNG_delivers_stream_witness:
  "\<exists>m' d'. VirtioRngGetRNG (\<lambda>_ w. w) rng_dev (\<lambda>_ w. (Some 0xA000, w)) (\<lambda>_ w. w) (Some \<lparr>Ring = rng_ring, RingMap = ()\<rparr>) None 5 (Some 0xB000) (\<lambda>_. 0, of_nat)
     = Some (Ok (EFI_SUCCESS, m', d')) \<and> load_bytes m' 0xB000 5 = [0, 1, 2, 3, 4] \<and> d' 0 = 5"
proof -
  let ?D = "\<lparr>Ring = rng_ring, RingMap = ()\<rparr>"
  have c: "chunk_ok (\<lambda>_. min 2)" by (auto simp: chunk_ok_def)
  have "\<exists>m' d'. VirtioRngGetRNG (\<lambda>_ w. w) rng_dev (\<lambda>_ w. (Some 0xA000, w)) (\<lambda>_ w. w) (Some ?D) None 5 (Some 0xB000) (\<lambda>_. 0, of_nat)
     = Some (Ok (EFI_SUCCESS, m', d')) \<and> load_bytes m' 0xB000 5 = map of_nat [0..<5] \<and> d' = (\<lambda>i. of_nat (i + 5)) \<and>
     (\<forall>a. a \<notin> ring_area (Ring ?D) \<union> {0xA000 ..< 0xA000 + 5} \<union> {0xB000 ..< 0xB000 + 5} \<longrightarrow> m' a = 0)"
    by (rule VirtioRngGetRNG_delivers_stream [of _ _ ?D _ "\<lambda>d. d"]) (use rng_dev_device rng_ring_ok c in simp_all)
  then show ?thesis by (auto simp: upt_rec)
qed

end
