(* ===== verification/VirtioScsi.thy ===== *)
theory VirtioScsi
  imports VirtioHost
begin

text \<open>
  Model of \<open>QemuPkg/VirtioScsiDxe/VirtioScsi.c\<close>, the SCSI host adapter driver: translation of
  pass-thru packets into requests and of responses back, the request over a virtqueue with its
  intermediate buffers, enumeration of targets and logical units, device paths, set-up and
  driver binding.  Pointers in a packet are addresses, \<open>NULL\<close> is 0.
\<close>

section \<open>Data\<close>

definition VIRTIO_SCSI_F_INOUT :: u64 where "VIRTIO_SCSI_F_INOUT = 1"
definition VIRTIO_SCSI_CDB_SIZE :: nat where "VIRTIO_SCSI_CDB_SIZE = 32"
definition VIRTIO_SCSI_SENSE_SIZE :: nat where "VIRTIO_SCSI_SENSE_SIZE = 96"
definition VIRTIO_SCSI_REQUEST_QUEUE :: u16 where "VIRTIO_SCSI_REQUEST_QUEUE = 2"
definition VIRTIO_SCSI_S_OK :: u8 where "VIRTIO_SCSI_S_OK = 0"
definition VIRTIO_SCSI_S_OVERRUN :: u8 where "VIRTIO_SCSI_S_OVERRUN = 1"
definition VIRTIO_SCSI_S_BAD_TARGET :: u8 where "VIRTIO_SCSI_S_BAD_TARGET = 3"
definition VIRTIO_SCSI_S_RESET :: u8 where "VIRTIO_SCSI_S_RESET = 4"
definition VIRTIO_SCSI_S_BUSY :: u8 where "VIRTIO_SCSI_S_BUSY = 5"
definition VIRTIO_SCSI_S_FAILURE :: u8 where "VIRTIO_SCSI_S_FAILURE = 9"
definition VIRTIO_SUBSYSTEM_SCSI_HOST :: nat where "VIRTIO_SUBSYSTEM_SCSI_HOST = 8"
definition TARGET_MAX_BYTES :: nat where "TARGET_MAX_BYTES = 16"
definition SIZE_1GB :: nat where "SIZE_1GB = 0x40000000"
definition sizeof_REQ :: nat where "sizeof_REQ = 51"
definition sizeof_RESP :: nat where "sizeof_RESP = 108"

text \<open>Codes of the pass-thru protocol.\<close>

definition DATA_DIRECTION_READ :: u8 where "DATA_DIRECTION_READ = 0"
definition DATA_DIRECTION_WRITE :: u8 where "DATA_DIRECTION_WRITE = 1"
definition DATA_DIRECTION_BIDIRECTIONAL :: u8 where "DATA_DIRECTION_BIDIRECTIONAL = 2"
definition HOST_ADAPTER_OK :: u8 where "HOST_ADAPTER_OK = 0"
definition HOST_ADAPTER_TIMEOUT_COMMAND :: u8 where "HOST_ADAPTER_TIMEOUT_COMMAND = 0x09"
definition HOST_ADAPTER_BUS_RESET :: u8 where "HOST_ADAPTER_BUS_RESET = 0x0E"
definition HOST_ADAPTER_DATA_OVERRUN_UNDERRUN :: u8 where "HOST_ADAPTER_DATA_OVERRUN_UNDERRUN = 0x12"
definition HOST_ADAPTER_OTHER :: u8 where "HOST_ADAPTER_OTHER = 0x7F"
definition TARGET_GOOD :: u8 where "TARGET_GOOD = 0"

record PACKET =
  InDataBuffer :: nat
  OutDataBuffer :: nat
  SenseData :: nat
  Cdb :: nat
  InTransferLength :: u32
  OutTransferLength :: u32
  CdbLength :: u8
  DataDirection :: u8
  HostAdapterStatus :: u8
  TargetStatus :: u8
  SenseDataLength :: u8

record 'map VSCSI_DEV =
  InOutSupported :: bool
  MaxTarget :: u16
  MaxLun :: u32
  MaxSectors :: u32
  Ring :: VRING
  RingMap :: 'map

record VIRTIO_SCSI_RESP =
  SenseLen :: u32
  Residual :: u32
  Status :: u8
  Response :: u8
  Sense :: "u8 list"

text \<open>The packed response in memory.\<close>

definition read_resp :: "mem \<Rightarrow> nat \<Rightarrow> VIRTIO_SCSI_RESP" where
  "read_resp m p = \<lparr>SenseLen = of_nat (load_le m p 4), Residual = of_nat (load_le m (p + 4) 4), Status = m (p + 10), Response = m (p + 11),
     Sense = load_bytes m (p + 12) VIRTIO_SCSI_SENSE_SIZE\<rparr>"

section \<open>Requests and responses\<close>

text \<open>The packed request: \<open>Lun[8]\<close>, \<open>Id\<close>, \<open>TaskAttr\<close>, \<open>Prio\<close>, \<open>Crn\<close>, \<open>Cdb[32]\<close>, zeroed before.\<close>

definition ScsiRequest :: "u16 \<Rightarrow> u64 \<Rightarrow> u8 list \<Rightarrow> u8 list" where
  "ScsiRequest Target Lun cdb =
    [1, ucast Target, or (ucast (drop_bit 8 (ucast Lun :: u32))) 0x40, ucast Lun] @ replicate 4 0 @ replicate 8 0 @ replicate 3 0 @
    cdb @ replicate (VIRTIO_SCSI_CDB_SIZE - length cdb) 0"

definition PopulateRequest :: "'map VSCSI_DEV \<Rightarrow> u16 \<Rightarrow> u64 \<Rightarrow> PACKET \<Rightarrow> mem \<Rightarrow> EFI_STATUS \<times> PACKET \<times> u8 list" where
  "PopulateRequest Dev Target Lun Packet m =
    (let inl = unat (InTransferLength Packet); outl = unat (OutTransferLength Packet)
     in if (inl > 0 \<and> outl > 0 \<and> \<not> InOutSupported Dev) \<or> Target > 0xFF \<or> Lun \<ge> 0x4000 \<or>
           unat (CdbLength Packet) > VIRTIO_SCSI_CDB_SIZE \<or> inl + outl > SIZE_1GB
        then (EFI_UNSUPPORTED, Packet, replicate sizeof_REQ 0)
        else if Target > MaxTarget Dev \<or> Lun > ucast (MaxLun Dev) \<or> DataDirection Packet > DATA_DIRECTION_BIDIRECTIONAL \<or>
           (inl > 0 \<and> (InDataBuffer Packet = 0 \<or> DataDirection Packet = DATA_DIRECTION_WRITE)) \<or>
           (outl > 0 \<and> (OutDataBuffer Packet = 0 \<or> DataDirection Packet = DATA_DIRECTION_READ))
        then (EFI_INVALID_PARAMETER, Packet, replicate sizeof_REQ 0)
        else if ALIGN_VALUE outl 512 div 512 > unat (MaxSectors Dev div 2) \<or> ALIGN_VALUE inl 512 div 512 > unat (MaxSectors Dev div 2)
        then (EFI_BAD_BUFFER_SIZE,
              Packet\<lparr>InTransferLength := (MaxSectors Dev div 2) * 512, OutTransferLength := (MaxSectors Dev div 2) * 512,
                     HostAdapterStatus := HOST_ADAPTER_DATA_OVERRUN_UNDERRUN, TargetStatus := TARGET_GOOD, SenseDataLength := 0\<rparr>,
              replicate sizeof_REQ 0)
        else (EFI_SUCCESS, Packet, ScsiRequest Target Lun (load_bytes m (Cdb Packet) (unat (CdbLength Packet)))))"

text \<open>The host adapter status and the return value for a response code.\<close>

definition ResponseStatus :: "u8 \<Rightarrow> u8 \<times> EFI_STATUS" where
  "ResponseStatus r =
    (if r = VIRTIO_SCSI_S_OK then (HOST_ADAPTER_OK, EFI_SUCCESS)
     else if r = VIRTIO_SCSI_S_OVERRUN then (HOST_ADAPTER_DATA_OVERRUN_UNDERRUN, EFI_DEVICE_ERROR)
     else if r = VIRTIO_SCSI_S_BAD_TARGET then (HOST_ADAPTER_TIMEOUT_COMMAND, EFI_TIMEOUT)
     else if r = VIRTIO_SCSI_S_RESET then (HOST_ADAPTER_BUS_RESET, EFI_DEVICE_ERROR)
     else if r = VIRTIO_SCSI_S_BUSY then (HOST_ADAPTER_OK, EFI_NOT_READY)
     else (HOST_ADAPTER_OTHER, EFI_DEVICE_ERROR))"

text \<open>The result is the status, the packet and the memory with the sense data.\<close>

definition ParseResponse :: "PACKET \<Rightarrow> VIRTIO_SCSI_RESP \<Rightarrow> mem \<Rightarrow> EFI_STATUS \<times> PACKET \<times> mem" where
  "ParseResponse Packet Resp m =
    (let ResponseSenseLen = min (unat (SenseLen Resp)) VIRTIO_SCSI_SENSE_SIZE;
         P1 = (if unat (SenseDataLength Packet) > ResponseSenseLen then Packet\<lparr>SenseDataLength := of_nat ResponseSenseLen\<rparr> else Packet);
         m1 = store_bytes m (SenseData P1) (take (unat (SenseDataLength P1)) (Sense Resp));
         P2 = (if Residual Resp \<le> InTransferLength P1 then P1\<lparr>InTransferLength := InTransferLength P1 - Residual Resp\<rparr>
               else P1\<lparr>OutTransferLength := OutTransferLength P1 - (Residual Resp - InTransferLength P1), InTransferLength := 0\<rparr>)
     in (snd (ResponseStatus (Response Resp)),
         P2\<lparr>TargetStatus := Status Resp, HostAdapterStatus := fst (ResponseStatus (Response Resp))\<rparr>, m1))"

definition ReportHostAdapterError :: "PACKET \<Rightarrow> EFI_STATUS \<times> PACKET" where
  "ReportHostAdapterError Packet =
    (EFI_DEVICE_ERROR, Packet\<lparr>InTransferLength := 0, OutTransferLength := 0, HostAdapterStatus := HOST_ADAPTER_OTHER,
       TargetStatus := TARGET_GOOD, SenseDataLength := 0\<rparr>)"

text \<open>From \<open>VirtioPrepare\<close> to the copy out of the intermediate buffer \<open>inbuf\<close>.\<close>

definition ScsiSubmit ::
  "(nat \<Rightarrow> 'd world \<Rightarrow> 'd world) \<Rightarrow> ('d, 'map) VIRTIO_DEVICE_PROTOCOL \<Rightarrow> VRING \<Rightarrow> PACKET \<Rightarrow> u64 \<Rightarrow> u64 \<Rightarrow> u64 \<Rightarrow> u64 \<Rightarrow> nat \<Rightarrow> nat
   \<Rightarrow> 'd world \<Rightarrow> ((EFI_STATUS \<times> PACKET) \<times> 'd world) run" where
  "ScsiSubmit Stall VirtIo ring Packet RequestDeviceAddress OutDataDeviceAddress ResponseDeviceAddress InDataDeviceAddress resp inbuf w =
    (if \<not> QueueSize ring \<ge> 4 then Some AssertFailed
     else
       case append_all ring
              ([(RequestDeviceAddress, of_nat sizeof_REQ, VRING_DESC_F_NEXT)] @
               (if OutTransferLength Packet > 0 then [(OutDataDeviceAddress, OutTransferLength Packet, VRING_DESC_F_NEXT)] else []) @
               [(ResponseDeviceAddress, of_nat sizeof_RESP, or VRING_DESC_F_WRITE (if InTransferLength Packet > 0 then VRING_DESC_F_NEXT else 0))] @
               (if InTransferLength Packet > 0 then [(InDataDeviceAddress, InTransferLength Packet, VRING_DESC_F_WRITE)] else []))
              (VirtioPrepare ring (fst w)) of (m1, Indices) \<Rightarrow>
         run_bind (VirtioFlush Stall VirtIo VIRTIO_SCSI_REQUEST_QUEUE ring Indices False (m1, snd w)) (\<lambda>(FlushStatus, _, w2).
           if FlushStatus \<noteq> EFI_SUCCESS then Some (Ok (ReportHostAdapterError Packet, w2))
           else case ParseResponse Packet (read_resp (fst w2) resp) (fst w2) of (s, P, m3) \<Rightarrow>
             let m4 = (if InTransferLength Packet > 0
                       then store_bytes m3 (InDataBuffer P) (load_bytes m3 inbuf (unat (InTransferLength P))) else m3)
             in Some (Ok ((s, P), m4, snd w2))))"

definition WithResponse ::
  "(nat \<Rightarrow> 'd world \<Rightarrow> 'd world) \<Rightarrow> ('d, 'map) VIRTIO_DEVICE_PROTOCOL \<Rightarrow> VRING \<Rightarrow> PACKET \<Rightarrow> u64 \<Rightarrow> u64 \<Rightarrow> nat \<Rightarrow> u64
   \<Rightarrow> 'd world \<Rightarrow> ((EFI_STATUS \<times> PACKET) \<times> 'd world) run" where
  "WithResponse Stall VirtIo ring Packet RequestDeviceAddress InDataDeviceAddress inbuf OutDataDeviceAddress =
    with_pages VirtIo (EFI_SIZE_TO_PAGES sizeof_RESP) (ReportHostAdapterError Packet) (\<lambda>resp w.
      with_mapped VirtIo VirtioOperationBusMasterCommonBuffer resp sizeof_RESP (ReportHostAdapterError Packet) (\<lambda>_ r. r)
        (\<lambda>ResponseDeviceAddress. ScsiSubmit Stall VirtIo ring Packet RequestDeviceAddress OutDataDeviceAddress ResponseDeviceAddress InDataDeviceAddress resp inbuf)
        ((set_mem (fst w) resp sizeof_RESP 0)(resp + 11 := VIRTIO_SCSI_S_FAILURE), snd w))"

definition WithOutData ::
  "(nat \<Rightarrow> 'd world \<Rightarrow> 'd world) \<Rightarrow> ('d, 'map) VIRTIO_DEVICE_PROTOCOL \<Rightarrow> VRING \<Rightarrow> PACKET \<Rightarrow> u64 \<Rightarrow> nat \<Rightarrow> u64
   \<Rightarrow> 'd world \<Rightarrow> ((EFI_STATUS \<times> PACKET) \<times> 'd world) run" where
  "WithOutData Stall VirtIo ring Packet RequestDeviceAddress inbuf InDataDeviceAddress =
    (if OutTransferLength Packet > 0
     then with_mapped VirtIo VirtioOperationBusMasterRead (OutDataBuffer Packet) (unat (OutTransferLength Packet)) (ReportHostAdapterError Packet) (\<lambda>_ r. r)
            (WithResponse Stall VirtIo ring Packet RequestDeviceAddress InDataDeviceAddress inbuf)
     else WithResponse Stall VirtIo ring Packet RequestDeviceAddress InDataDeviceAddress inbuf 0)"

definition WithInData ::
  "(nat \<Rightarrow> 'd world \<Rightarrow> 'd world) \<Rightarrow> ('d, 'map) VIRTIO_DEVICE_PROTOCOL \<Rightarrow> VRING \<Rightarrow> PACKET \<Rightarrow> u64
   \<Rightarrow> 'd world \<Rightarrow> ((EFI_STATUS \<times> PACKET) \<times> 'd world) run" where
  "WithInData Stall VirtIo ring Packet RequestDeviceAddress =
    (if InTransferLength Packet > 0
     then with_pages VirtIo (EFI_SIZE_TO_PAGES (unat (InTransferLength Packet))) (ReportHostAdapterError Packet) (\<lambda>inbuf w.
            with_mapped VirtIo VirtioOperationBusMasterCommonBuffer inbuf (unat (InTransferLength Packet)) (ReportHostAdapterError Packet) (\<lambda>_ r. r)
              (WithOutData Stall VirtIo ring Packet RequestDeviceAddress inbuf)
              (set_mem (fst w) inbuf (unat (InTransferLength Packet)) 0, snd w))
     else WithOutData Stall VirtIo ring Packet RequestDeviceAddress 0 0)"

definition VirtioScsiPassThru ::
  "(nat \<Rightarrow> 'd world \<Rightarrow> 'd world) \<Rightarrow> ('d, 'map) VIRTIO_DEVICE_PROTOCOL \<Rightarrow> nat \<Rightarrow> 'map VSCSI_DEV \<Rightarrow> u8 list \<Rightarrow> u64 \<Rightarrow> PACKET
   \<Rightarrow> 'd world \<Rightarrow> ((EFI_STATUS \<times> PACKET) \<times> 'd world) run" where
  "VirtioScsiPassThru Stall VirtIo RequestAddr Dev Target Lun Packet w =
    (case PopulateRequest Dev (of_nat (le_val (take 2 Target))) Lun Packet (fst w) of (s, P, req) \<Rightarrow>
      let w1 = (store_bytes (fst w) RequestAddr req, snd w)
      in if EFI_ERROR s then Some (Ok ((s, P), w1))
         else with_mapped VirtIo VirtioOperationBusMasterRead RequestAddr sizeof_REQ (ReportHostAdapterError P) (\<lambda>_ r. r)
                (WithInData Stall VirtIo (Ring Dev) P) w1)"

section \<open>Targets and logical units\<close>

definition VirtioScsiGetNextTargetLun :: "'map VSCSI_DEV \<Rightarrow> u8 list \<Rightarrow> u64 \<Rightarrow> EFI_STATUS \<times> u8 list \<times> u64" where
  "VirtioScsiGetNextTargetLun Dev Target Lun =
    (if list_all (\<lambda>b. b = 0xFF) (take TARGET_MAX_BYTES Target) then (EFI_SUCCESS, replicate TARGET_MAX_BYTES 0, 0)
     else
       let LastTarget = of_nat (le_val (take 2 Target)) :: u16
       in if LastTarget > MaxTarget Dev \<or> Lun > ucast (MaxLun Dev) then (EFI_INVALID_PARAMETER, Target, Lun)
          else if Lun < ucast (MaxLun Dev) then (EFI_SUCCESS, Target, Lun + 1)
          else if LastTarget < MaxTarget Dev then (EFI_SUCCESS, le_bytes 2 (unat (LastTarget + 1)) @ drop 2 Target, 0)
          else (EFI_NOT_FOUND, Target, Lun))"

definition VirtioScsiGetNextTarget :: "'map VSCSI_DEV \<Rightarrow> u8 list \<Rightarrow> EFI_STATUS \<times> u8 list" where
  "VirtioScsiGetNextTarget Dev Target =
    (if list_all (\<lambda>b. b = 0xFF) (take TARGET_MAX_BYTES Target) then (EFI_SUCCESS, replicate TARGET_MAX_BYTES 0)
     else
       let LastTarget = of_nat (le_val (take 2 Target)) :: u16
       in if LastTarget > MaxTarget Dev then (EFI_INVALID_PARAMETER, Target)
          else if LastTarget < MaxTarget Dev then (EFI_SUCCESS, le_bytes 2 (unat (LastTarget + 1)) @ drop 2 Target)
          else (EFI_NOT_FOUND, Target))"

text \<open>A SCSI device path node: type, subtype, \<open>Pun\<close>, \<open>Lun\<close>; the node is 8 bytes long.\<close>

definition MESSAGING_DEVICE_PATH :: u8 where "MESSAGING_DEVICE_PATH = 3"
definition MSG_SCSI_DP :: u8 where "MSG_SCSI_DP = 2"

record SCSI_DEVICE_PATH =
  dp_Type :: u8
  dp_SubType :: u8
  dp_Length :: nat
  Pun :: u16
  dp_Lun :: u16

definition VirtioScsiBuildDevicePath ::
  "'map VSCSI_DEV \<Rightarrow> ('w \<Rightarrow> bool \<times> 'w) \<Rightarrow> u8 list \<Rightarrow> u64 \<Rightarrow> bool \<Rightarrow> 'w \<Rightarrow> (EFI_STATUS + SCSI_DEVICE_PATH) \<times> 'w" where
  "VirtioScsiBuildDevicePath Dev alloc Target Lun DevicePath w =
    (if \<not> DevicePath then (Inl EFI_INVALID_PARAMETER, w)
     else
       let TargetValue = of_nat (le_val (take 2 Target)) :: u16
       in if TargetValue > MaxTarget Dev \<or> Lun > ucast (MaxLun Dev) \<or> Lun > 0xFFFF then (Inl EFI_NOT_FOUND, w)
          else case alloc w of (got, w1) \<Rightarrow>
            if \<not> got then (Inl EFI_OUT_OF_RESOURCES, w1)
            else (Inr \<lparr>dp_Type = MESSAGING_DEVICE_PATH, dp_SubType = MSG_SCSI_DP, dp_Length = 8, Pun = TargetValue, dp_Lun = ucast Lun\<rparr>, w1))"

text \<open>The arguments that may be \<open>NULL\<close> are options; the result is the new target and unit.\<close>

definition VirtioScsiGetTargetLun ::
  "'map VSCSI_DEV \<Rightarrow> SCSI_DEVICE_PATH option \<Rightarrow> u8 list option \<Rightarrow> u64 option \<Rightarrow> EFI_STATUS + u8 list \<times> u64" where
  "VirtioScsiGetTargetLun Dev DevicePath TargetPointer Lun =
    (case (DevicePath, TargetPointer, Lun) of
       (Some dp, Some Target, Some _) \<Rightarrow>
         if dp_Type dp \<noteq> MESSAGING_DEVICE_PATH \<or> dp_SubType dp \<noteq> MSG_SCSI_DP then Inl EFI_UNSUPPORTED
         else if Pun dp > MaxTarget Dev \<or> ucast (dp_Lun dp) > MaxLun Dev then Inl EFI_NOT_FOUND
         else Inr (le_bytes 2 (unat (Pun dp)) @ replicate (TARGET_MAX_BYTES - 2) 0, ucast (dp_Lun dp))
     | _ \<Rightarrow> Inl EFI_INVALID_PARAMETER)"

definition VirtioScsiResetChannel :: EFI_STATUS where "VirtioScsiResetChannel = EFI_UNSUPPORTED"

definition VirtioScsiResetTargetLun :: "u8 list \<Rightarrow> u64 \<Rightarrow> EFI_STATUS" where
  "VirtioScsiResetTargetLun Target Lun = EFI_UNSUPPORTED"

section \<open>Set-up, teardown, binding\<close>

text \<open>The configuration reads; the limits are platform settings.\<close>

definition ReadScsiConfig :: "('d, 'map) VIRTIO_DEVICE_PROTOCOL \<Rightarrow> u16 \<Rightarrow> u32 \<Rightarrow> ('d, u16 \<times> u32 \<times> u32) init_step" where
  "ReadScsiConfig VirtIo PcdMaxTarget PcdMaxLun =
    es_bind (es_query (ReadDevice VirtIo 28 2)) (\<lambda>MaxChannel. if of_nat MaxChannel \<noteq> (0 :: u16) then es_fail EFI_UNSUPPORTED else
    es_bind (es_query (ReadDevice VirtIo 0 4)) (\<lambda>NumQueues. if of_nat NumQueues < (1 :: u32) then es_fail EFI_UNSUPPORTED else
    es_bind (es_query (ReadDevice VirtIo 30 2)) (\<lambda>t.
    es_bind (es_query (ReadDevice VirtIo 32 4)) (\<lambda>l.
    es_bind (es_query (ReadDevice VirtIo 8 4)) (\<lambda>s. if of_nat s < (2 :: u32) then es_fail EFI_UNSUPPORTED
      else es_ret (if of_nat t > PcdMaxTarget then PcdMaxTarget else of_nat t, if of_nat l > PcdMaxLun then PcdMaxLun else of_nat l, of_nat s))))))"

definition ScsiFeatures :: "u64 \<Rightarrow> u64" where
  "ScsiFeatures Features = and Features (or VIRTIO_SCSI_F_INOUT (or VIRTIO_F_VERSION_1 VIRTIO_F_IOMMU_PLATFORM))"

definition WriteScsiSizes :: "('d, 'map) VIRTIO_DEVICE_PROTOCOL \<Rightarrow> ('d, unit) init_step" where
  "WriteScsiSizes VirtIo =
    es_bind (es_call (WriteDevice VirtIo 24 4 VIRTIO_SCSI_CDB_SIZE)) (\<lambda>_. es_call (WriteDevice VirtIo 20 4 VIRTIO_SCSI_SENSE_SIZE))"

definition VirtioScsiInit ::
  "u16 \<Rightarrow> u32 \<Rightarrow> ('d, 'map) VIRTIO_DEVICE_PROTOCOL \<Rightarrow> 'd world \<Rightarrow> (EFI_STATUS + 'map VSCSI_DEV) \<times> 'd world" where
  "VirtioScsiInit PcdMaxTarget PcdMaxLun VirtIo =
    RunSetup VirtIo
     (es_bind (StartDevice VirtIo) (\<lambda>Features.
      es_bind (ReadScsiConfig VirtIo PcdMaxTarget PcdMaxLun) (\<lambda>(t, l, sec).
      es_bind (SelectQueue VirtIo (ScsiFeatures Features) VIRTIO_SCSI_REQUEST_QUEUE 4) (\<lambda>q.
      es_bind (SetUpRing VirtIo (ScsiFeatures Features) q (WriteScsiSizes VirtIo)) (\<lambda>(ring, mi).
        es_ret \<lparr>InOutSupported = (and Features VIRTIO_SCSI_F_INOUT \<noteq> 0), MaxTarget = t, MaxLun = l, MaxSectors = sec, Ring = ring, RingMap = mi\<rparr>)))))"

definition VirtioScsiUninit :: "('d, 'map) VIRTIO_DEVICE_PROTOCOL \<Rightarrow> 'map VSCSI_DEV \<Rightarrow> 'd world \<Rightarrow> 'd world" where
  "VirtioScsiUninit VirtIo Dev = ReleaseRing VirtIo (Ring Dev) (RingMap Dev)"

definition VirtioScsiExitBoot :: "('d, 'map) VIRTIO_DEVICE_PROTOCOL \<Rightarrow> 'd world \<Rightarrow> 'd world" where
  "VirtioScsiExitBoot VirtIo w = snd (SetDeviceStatus VirtIo 0 w)"

definition VirtioScsiDriverBindingSupported ::
  "'d binding_services \<Rightarrow> ('d, 'map) VIRTIO_DEVICE_PROTOCOL \<Rightarrow> 'd world \<Rightarrow> EFI_STATUS \<times> 'd world" where
  "VirtioScsiDriverBindingSupported bs VirtIo = BindingSupported bs VirtIo VIRTIO_SUBSYSTEM_SCSI_HOST"

definition VirtioScsiDriverBindingStart ::
  "u16 \<Rightarrow> u32 \<Rightarrow> 'd binding_services \<Rightarrow> ('d, 'map) VIRTIO_DEVICE_PROTOCOL \<Rightarrow> 'd world \<Rightarrow> (EFI_STATUS + nat \<times> nat \<times> 'map VSCSI_DEV) \<times> 'd world" where
  "VirtioScsiDriverBindingStart t l bs VirtIo = BindingStart bs (VirtioScsiInit t l VirtIo) (VirtioScsiUninit VirtIo)"

definition VirtioScsiDriverBindingStop ::
  "'d binding_services \<Rightarrow> ('d, 'map) VIRTIO_DEVICE_PROTOCOL \<Rightarrow> nat \<times> nat \<times> 'map VSCSI_DEV \<Rightarrow> 'd world \<Rightarrow> EFI_STATUS \<times> 'd world" where
  "VirtioScsiDriverBindingStop bs VirtIo = BindingStop bs (VirtioScsiUninit VirtIo)"

section \<open>What the driver holds\<close>

lemma es_keeps_scsi:
  assumes "vio_ok V res"
  shows "es_keeps res (ReadScsiConfig V t l)" "es_keeps res (WriteScsiSizes V)"
  unfolding ReadScsiConfig_def WriteScsiSizes_def by (intro es_keeps_intros es_keeps_if vio_keeps assms)+

lemma VirtioScsiInit_res:
  assumes ok: "vio_ok V res" and r: "VirtioScsiInit t l V w = (x, w')"
  shows "res (snd w') = (case x of Inl e \<Rightarrow> res (snd w) | Inr Dev \<Rightarrow> ring_res (Ring Dev) (RingMap Dev) + res (snd w))"
proof -
  obtain st w1 where f: "(es_bind (StartDevice V) (\<lambda>Features. es_bind (ReadScsiConfig V t l) (\<lambda>(t, l, sec).
      es_bind (SelectQueue V (ScsiFeatures Features) VIRTIO_SCSI_REQUEST_QUEUE 4) (\<lambda>q.
      es_bind (SetUpRing V (ScsiFeatures Features) q (WriteScsiSizes V)) (\<lambda>(ring, mi).
        es_ret \<lparr>InOutSupported = (and Features VIRTIO_SCSI_F_INOUT \<noteq> 0), MaxTarget = t, MaxLun = l, MaxSectors = sec, Ring = ring, RingMap = mi\<rparr>))))) (0, w) = (x, st, w1)"
    and w': "res (snd w') = res (snd w1)"
    using RunSetup_res [OF ok r [unfolded VirtioScsiInit_def]] by blast
  show ?thesis
    using f
    apply (rule es_bind_keeps [OF es_keeps_start [OF ok]], simp add: w')
    apply (erule es_bind_keeps [OF es_keeps_scsi(1) [OF ok]], simp add: w')
    apply (clarsimp split: prod.splits)
    apply (erule es_bind_keeps [OF es_keeps_select [OF ok]], simp add: w')
    apply (auto simp: es_bind_def es_ret_def w' split: prod.splits sum.splits dest!: SetUpRing_res [OF ok es_keeps_scsi(2) [OF ok]])
    done
qed

interpretation scsi: virtio_driver "VirtioScsiInit t l" VirtioScsiUninit "\<lambda>Dev. ring_res (Ring Dev) (RingMap Dev)" for t l
  by unfold_locales (auto simp: VirtioScsiUninit_def ReleaseRing_res dest: VirtioScsiInit_res)

lemma balanced_ScsiSubmit:
  assumes ok: "vio_ok V res" and st: "\<And>p w. res (snd (Stall p w)) = res (snd w)"
  shows "balanced res (ScsiSubmit Stall V ring P a b c d resp inbuf)"
  unfolding balanced_def ScsiSubmit_def Let_def
  by (auto elim!: run_bind_OkE split: if_splits prod.splits dest!: VirtioFlush_res [OF ok st])

lemma balanced_PassThru:
  assumes ok: "vio_ok V res" and st: "\<And>p w. res (snd (Stall p w)) = res (snd w)"
  shows "balanced res (VirtioScsiPassThru Stall V ra Dev T L P)"
proof -
  have resp: "balanced res (WithResponse Stall V ring P a b inbuf c)" for ring P a b inbuf c
    unfolding WithResponse_def
    by (intro balanced_with_pages ok balanced_mem [where g = "\<lambda>m. (set_mem m r n v)(i := x)" for r n v i x] balanced_with_mapped balanced_ScsiSubmit st)
  have out: "balanced res (WithOutData Stall V ring P a inbuf c)" for ring P a inbuf c
    unfolding WithOutData_def by (intro balanced_if balanced_with_mapped resp ok)
  have inp: "balanced res (WithInData Stall V ring P a)" for ring P a
    unfolding WithInData_def
    by (intro balanced_if balanced_with_pages balanced_mem [where g = "\<lambda>m. set_mem m r n v" for r n v] balanced_with_mapped out ok)
  have "balanced res (with_mapped V q p n e fin (WithInData Stall V ring P))" for q p n e fin ring P
    by (intro balanced_with_mapped inp ok)
  from balancedD [OF this] show ?thesis
    by (auto simp: balanced_def VirtioScsiPassThru_def Let_def simp del: split_paired_All split: if_splits prod.splits)
qed

lemma VirtioScsiInit_limits:
  assumes "VirtioScsiInit t l V w = (Inr Dev, w')"
  shows "4 \<le> QueueSize (Ring Dev)" "MaxTarget Dev \<le> t" "MaxLun Dev \<le> l" "2 \<le> MaxSectors Dev"
  using assms
  by (auto simp: VirtioScsiInit_def RunSetup_def ReadScsiConfig_def es_ret_def es_fail_def not_less split: prod.splits sum.splits if_splits
      elim!: es_bind_InrE dest!: SelectQueue_min SetUpRing_queue)

lemma safe_ScsiSubmit: "4 \<le> QueueSize ring \<Longrightarrow> safe (ScsiSubmit Stall V ring P a b c d resp inbuf)"
  using VirtioFlush_safe [of Stall V VIRTIO_SCSI_REQUEST_QUEUE ring]
  by (auto simp: safe_def ScsiSubmit_def Let_def split: prod.splits if_splits elim!: run_bind.elims)

lemma safe_PassThru:
  assumes q: "4 \<le> QueueSize (Ring Dev)"
  shows "safe (VirtioScsiPassThru Stall V ra Dev T L P)"
proof -
  have resp: "safe (WithResponse Stall V (Ring Dev) P a b inbuf c)" for P a b inbuf c
    unfolding WithResponse_def
    by (intro safe_with_pages safe_mem [where g = "\<lambda>w. ((set_mem (fst w) r n v)(i := x), snd w)" for r n v i x] safe_with_mapped safe_ScsiSubmit q)
  have out: "safe (WithOutData Stall V (Ring Dev) P a inbuf c)" for P a inbuf c
    unfolding WithOutData_def by (intro safe_if safe_with_mapped resp)
  have inp: "safe (WithInData Stall V (Ring Dev) P a)" for P a
    unfolding WithInData_def
    by (intro safe_if safe_with_pages safe_mem [where g = "\<lambda>w. (set_mem (fst w) r n v, snd w)" for r n v] safe_with_mapped out)
  have "safe (with_mapped V q p n e fin (WithInData Stall V (Ring Dev) P))" for q p n e fin P
    by (intro safe_with_mapped inp)
  then show ?thesis
    unfolding safe_def VirtioScsiPassThru_def Let_def by (auto split: prod.splits)
qed

section \<open>Enumeration\<close>

text \<open>All units a caller sees that starts with \<open>0xFF\<close> bytes and asks for the next one until an error.\<close>

fun scsi_walk :: "nat \<Rightarrow> 'map VSCSI_DEV \<Rightarrow> u8 list \<Rightarrow> u64 \<Rightarrow> EFI_STATUS \<times> (nat \<times> nat) list" where
  "scsi_walk 0 Dev T L = (EFI_SUCCESS, [])"
| "scsi_walk (Suc k) Dev T L =
    (case VirtioScsiGetNextTargetLun Dev T L of (s, T1, L1) \<Rightarrow>
       if EFI_ERROR s then (s, []) else map_prod id (Cons (le_val (take 2 T1), unat L1)) (scsi_walk k Dev T1 L1))"

definition target_bytes :: "nat \<Rightarrow> u8 list" where
  "target_bytes t = le_bytes 2 t @ replicate 14 0"

lemma target_bytes_val: "t < 65536 \<Longrightarrow> le_val (take 2 (target_bytes t)) = t"
  by (simp add: target_bytes_def le_val_le_bytes)

lemma target_bytes_not_start: "\<not> list_all (\<lambda>b. b = 0xFF) (take TARGET_MAX_BYTES (target_bytes t))"
  by (simp add: target_bytes_def TARGET_MAX_BYTES_def list_all_iff)

lemma next_unit:
  fixes Dev :: "'map VSCSI_DEV" and n :: nat
  defines "A \<equiv> unat (MaxTarget Dev) + 1" and "B \<equiv> unat (MaxLun Dev) + 1"
  assumes n: "n < A * B"
  shows "VirtioScsiGetNextTargetLun Dev (target_bytes (n div B)) (of_nat (n mod B)) =
    (if Suc n < A * B then (EFI_SUCCESS, target_bytes (Suc n div B), of_nat (Suc n mod B))
     else (EFI_NOT_FOUND, target_bytes (n div B), of_nat (n mod B)))"
proof -
  let ?t = "n div B" and ?l = "n mod B"
  have t: "?t < A" using n by (simp add: less_mult_imp_div_less)
  have l: "?l < B" by (simp add: B_def)
  have A: "A \<le> 65536" using unat_u16_less [of "MaxTarget Dev"] unfolding A_def by linarith
  have B: "B \<le> 4294967296" using unat_u32_less [of "MaxLun Dev"] unfolding B_def by linarith
  have tw: "unat (of_nat ?t :: u16) = ?t" using t A by (simp add: unat_of_nat)
  have lw: "unat (of_nat ?l :: u64) = ?l" using l B by (simp add: unat_of_nat)
  have cmp: "of_nat ?t > MaxTarget Dev \<longleftrightarrow> False" "of_nat ?t < MaxTarget Dev \<longleftrightarrow> Suc ?t < A"
    "(of_nat ?l :: u64) > ucast (MaxLun Dev) \<longleftrightarrow> False" "(of_nat ?l :: u64) < ucast (MaxLun Dev) \<longleftrightarrow> Suc ?l < B"
    using t l meta_eq_to_obj_eq [OF A_def] meta_eq_to_obj_eq [OF B_def]
    unfolding word_less_nat_alt tw lw unat_ucast_u64 by - (auto simp: leD [OF mod_Suc_le_divisor])
  have inc: "unat (of_nat ?t + 1 :: u16) = Suc ?t" if "Suc ?t < A"
  proof -
    have "of_nat ?t + 1 = (of_nat (Suc ?t) :: u16)" by simp
    then show ?thesis using that A by (simp only: unat_of_nat) simp
  qed
  have wrap: "Suc ?l = B \<Longrightarrow> Suc n div B = Suc ?t \<and> Suc n mod B = 0" "Suc ?l \<noteq> B \<Longrightarrow> Suc n div B = ?t \<and> Suc n mod B = Suc ?l"
    by (simp_all add: div_Suc mod_Suc)
  have more: "Suc n < A * B \<longleftrightarrow> Suc ?l < B \<or> Suc ?t < A"
  proof (cases "Suc ?l < B")
    case True
    have "Suc ?t * B \<le> A * B" using t by (intro mult_le_mono1) simp
    then have "Suc n < A * B" using div_mult_mod_eq [of n B] True unfolding mult_Suc by linarith
    then show ?thesis using True by simp
  next
    case False
    then have "Suc n = Suc ?t * B" using div_mult_mod_eq [of n B] l unfolding mult_Suc by linarith
    then show ?thesis using False l by (simp only: mult_less_cancel2) auto
  qed
  have up: "le_bytes 2 (unat (of_nat ?t + 1 :: u16)) @ drop 2 (target_bytes ?t) = target_bytes (Suc ?t)" if "Suc ?t < A"
    using inc [OF that] by (simp add: target_bytes_def)
  have val: "of_nat (le_val (take 2 (target_bytes ?t))) = (of_nat ?t :: u16)" using t A by (simp add: target_bytes_val)
  show ?thesis
    using wrap more up l by (simp add: VirtioScsiGetNextTargetLun_def target_bytes_not_start val cmp Let_def add.commute)
qed

lemma scsi_walk_from:
  fixes Dev :: "'map VSCSI_DEV"
  defines "A \<equiv> unat (MaxTarget Dev) + 1" and "B \<equiv> unat (MaxLun Dev) + 1"
  shows "n < A * B \<Longrightarrow> A * B - n \<le> k \<Longrightarrow>
    scsi_walk k Dev (target_bytes (n div B)) (of_nat (n mod B)) = (EFI_NOT_FOUND, map (\<lambda>i. (i div B, i mod B)) [Suc n..<A * B])"
proof (induction k arbitrary: n)
  case 0
  then show ?case by simp
next
  case (Suc k)
  note nx = next_unit [of n Dev, folded A_def B_def, OF Suc.prems(1)]
  show ?case
  proof (cases "Suc n < A * B")
    case True
    then have "Suc n div B < A" by (simp add: less_mult_imp_div_less)
    then have t: "Suc n div B < 65536" using unat_u16_less [of "MaxTarget Dev"] unfolding A_def by linarith
    have "Suc n mod B < B" by (simp add: B_def)
    then have "Suc n mod B < 18446744073709551616" using unat_u32_less [of "MaxLun Dev"] meta_eq_to_obj_eq [OF B_def] by linarith
    then have l: "unat (of_nat (Suc n mod B) :: u64) = Suc n mod B" by (simp add: unat_of_nat)
    have u: "[Suc n..<A * B] = Suc n # [Suc (Suc n)..<A * B]" using True by (simp add: upt_conv_Cons)
    show ?thesis using nx True Suc.IH [OF True] Suc.prems(2) t l u by (simp add: target_bytes_val del: of_nat_Suc)
  next
    case False
    then show ?thesis using nx by simp
  qed
qed

lemma product_upt: "List.product [0..<a] [0..<b] = map (\<lambda>i. (i div b, i mod b)) [0..<a * b]"
  by (cases "b = 0") (auto intro!: nth_equalityI simp: product_nth less_mult_imp_div_less)

section \<open>Properties\<close>

text \<open>
  Property C18. Starting from the all-\<open>0xFF\<close> target and asking for the next unit until an error,
  a caller of \<open>VirtioScsiGetNextTargetLun\<close> sees every unit up to the two limits exactly once, by
  target and within a target by unit number, and then \<open>EFI_NOT_FOUND\<close>.
\<close>

theorem VirtioScsiGetNextTargetLun_enumerates:
  assumes "(unat (MaxTarget Dev) + 1) * (unat (MaxLun Dev) + 1) < k"
  shows "scsi_walk k Dev (replicate 16 0xFF) L =
    (EFI_NOT_FOUND, List.product [0..<unat (MaxTarget Dev) + 1] [0..<unat (MaxLun Dev) + 1])"
proof -
  let ?A = "unat (MaxTarget Dev) + 1" and ?B = "unat (MaxLun Dev) + 1"
  obtain j where j: "k = Suc j" using assms by (cases k) auto
  have first: "VirtioScsiGetNextTargetLun Dev (replicate 16 0xFF) L = (EFI_SUCCESS, target_bytes 0, 0)"
    by (simp add: VirtioScsiGetNextTargetLun_def TARGET_MAX_BYTES_def target_bytes_def list_all_iff, code_simp)
  have "scsi_walk j Dev (target_bytes (0 div ?B)) (of_nat (0 mod ?B)) = (EFI_NOT_FOUND, map (\<lambda>i. (i div ?B, i mod ?B)) [Suc 0..<?A * ?B])"
    by (rule scsi_walk_from) (use assms j in simp_all)
  moreover have "[0..<?A * ?B] = 0 # [Suc 0..<?A * ?B]" by (rule upt_conv_Cons) simp
  moreover have "scsi_walk k Dev (replicate 16 0xFF) L = map_prod id (Cons (0, 0)) (scsi_walk j Dev (target_bytes 0) 0)"
    by (simp add: j first target_bytes_val)
  ultimately show ?thesis unfolding product_upt by (simp del: upt_Suc mult_Suc mult_Suc_right add_Suc_right add_Suc)
qed

definition demo_scsi :: "unit VSCSI_DEV" where
  "demo_scsi = \<lparr>InOutSupported = True, MaxTarget = 1, MaxLun = 2, MaxSectors = 64, Ring = zero_VRING, RingMap = ()\<rparr>"

theorem VirtioScsiGetNextTargetLun_enumerates_witness:
  "scsi_walk 7 demo_scsi (replicate 16 0xFF) 5 = (EFI_NOT_FOUND, [(0, 0), (0, 1), (0, 2), (1, 0), (1, 1), (1, 2)])"
  using VirtioScsiGetNextTargetLun_enumerates [of demo_scsi 7 5] by (simp add: demo_scsi_def upt_rec)

text \<open>
  Property C19. After a successful \<open>VirtioScsiInit\<close> a pass-thru call is safe and leaks nothing: no
  assertion fails whatever the packet, every return path has released the mappings and shared
  pages of the call, and a failed start or a stop after a start gives back everything.
\<close>

theorem VirtioScsi_safe_no_leak:
  assumes "vio_ok V res" and "binding_ok bs res" and "\<And>p w. res (snd (Stall p w)) = res (snd w)"
  shows "(VirtioScsiInit t l V w0 = (Inr Dev, w0') \<longrightarrow> safe (VirtioScsiPassThru Stall V ra Dev T L P)) \<and>
    (VirtioScsiPassThru Stall V ra Dev T L P w = Some (Ok (x, w1)) \<longrightarrow> res (snd w1) = res (snd w)) \<and>
    (VirtioScsiDriverBindingStart t l bs V w = (Inl s, w1) \<longrightarrow> res (snd w1) = res (snd w)) \<and>
    (VirtioScsiDriverBindingStart t l bs V w = (Inr inst, w1) \<longrightarrow> res (snd w2) = res (snd w1) \<longrightarrow>
       VirtioScsiDriverBindingStop bs V inst w2 = (EFI_SUCCESS, w3) \<longrightarrow> res (snd w3) = res (snd w))"
proof (intro conjI impI)
  assume "VirtioScsiInit t l V w0 = (Inr Dev, w0')"
  then show "safe (VirtioScsiPassThru Stall V ra Dev T L P)" by (intro safe_PassThru VirtioScsiInit_limits(1))
next
  assume "VirtioScsiPassThru Stall V ra Dev T L P w = Some (Ok (x, w1))"
  then show "res (snd w1) = res (snd w)" by (rule balancedD [OF balanced_PassThru [where Stall = Stall, OF assms(1,3)]])
next
  assume "VirtioScsiDriverBindingStart t l bs V w = (Inl s, w1)"
  then show "res (snd w1) = res (snd w)" using scsi.start_res [OF assms(1,2)] by (simp add: VirtioScsiDriverBindingStart_def)
next
  assume "VirtioScsiDriverBindingStart t l bs V w = (Inr inst, w1)" "res (snd w2) = res (snd w1)"
    and "VirtioScsiDriverBindingStop bs V inst w2 = (EFI_SUCCESS, w3)"
  then show "res (snd w3) = res (snd w)"
    unfolding VirtioScsiDriverBindingStart_def VirtioScsiDriverBindingStop_def by (rule scsi.start_stop_res [OF assms(1,2)])
qed

theorem VirtioScsi_safe_no_leak_witness:
  "\<exists>w1. VirtioScsiDriverBindingStart 31 7 book_bs book_dev (\<lambda>_. 0, {#Interface#}) = (Inl EFI_UNSUPPORTED, w1) \<and> snd w1 = {#Interface#}"
proof -
  have i: "\<exists>m d. VirtioScsiInit 31 7 book_dev (m0, d0) = (Inl EFI_UNSUPPORTED, m, d)" for m0 d0
    by (simp add: VirtioScsiInit_def setup_eval Let_def book_dev_def ReadScsiConfig_def es_fail_def)
  obtain w1 where r: "VirtioScsiDriverBindingStart 31 7 book_bs book_dev (\<lambda>_. 0, {#Interface#}) = (Inl EFI_UNSUPPORTED, w1)"
    using i [of "\<lambda>_. 0" "{#VirtIoOpen, PoolBlock 1, Interface#}"]
    by (auto simp: VirtioScsiDriverBindingStart_def BindingStart_def book_bs_def)
  from VirtioScsi_safe_no_leak [OF book_dev_ok book_bs_ok, where Stall = "\<lambda>_ w. w", THEN conjunct2, THEN conjunct2, THEN conjunct1, THEN mp, OF _ r] r
  show ?thesis by auto
qed

text \<open>
  Device paths and units correspond: the path built for a unit names it, and
  \<open>VirtioScsiGetTargetLun\<close> reads the same target and unit back from it.
\<close>

theorem VirtioScsiDevicePath_roundtrip:
  assumes "VirtioScsiBuildDevicePath Dev alloc (target_bytes t) Lun True w = (Inr dp, w1)" and "t < 65536"
  shows "VirtioScsiGetTargetLun Dev (Some dp) (Some T) (Some L) = Inr (target_bytes t, Lun)"
proof -
  have u: "unat (of_nat t :: u16) = t" using assms(2) by (simp add: unat_of_nat)
  have d: "dp = \<lparr>dp_Type = MESSAGING_DEVICE_PATH, dp_SubType = MSG_SCSI_DP, dp_Length = 8, Pun = of_nat t, dp_Lun = ucast Lun\<rparr>"
    and le: "\<not> of_nat t > MaxTarget Dev" "\<not> Lun > ucast (MaxLun Dev)" "\<not> Lun > 0xFFFF"
    using assms by (auto simp: VirtioScsiBuildDevicePath_def target_bytes_val Let_def split: if_splits prod.splits)
  have "unat Lun < 65536" using le(3) by (simp add: word_less_nat_alt)
  then have l: "unat (ucast Lun :: u16) = unat Lun" "(ucast (ucast Lun :: u16) :: u64) = Lun"
    by (simp_all add: word_unat_eq_iff unsigned_ucast_eq unsigned_take_bit_eq take_bit_eq_mod unat_mod)
  have "\<not> (ucast (ucast Lun :: u16) :: u32) > MaxLun Dev"
    using le(2) l(1) by (simp add: word_less_nat_alt unsigned_ucast_eq unsigned_take_bit_eq take_bit_eq_mod unat_mod)
  then show ?thesis using le(1) by (simp add: VirtioScsiGetTargetLun_def d target_bytes_def u l TARGET_MAX_BYTES_def)
qed

theorem VirtioScsiDevicePath_roundtrip_witness:
  "\<exists>dp. fst (VirtioScsiBuildDevicePath demo_scsi (\<lambda>w. (True, w)) (target_bytes 1) 2 True ()) = Inr dp \<and>
     VirtioScsiGetTargetLun demo_scsi (Some dp) (Some []) (Some 0) = Inr (target_bytes 1, 2)"
proof -
  obtain dp where r: "VirtioScsiBuildDevicePath demo_scsi (\<lambda>w. (True, w)) (target_bytes 1) 2 True () = (Inr dp, ())"
    by (simp add: VirtioScsiBuildDevicePath_def demo_scsi_def target_bytes_val Let_def)
  from VirtioScsiDevicePath_roundtrip [OF r] r show ?thesis by simp
qed

end
