(* ===== verification/VirtioScsiTarget.thy ===== *)
theory VirtioScsiTarget
  imports VirtioScsi
begin

text \<open>
  The SCSI driver over a virtio SCSI device (virtio 0.9.5, appendix I): the host hands the
  request and the data to a target and stores the target's response and data; a pass-thru call
  through the whole stack -- driver, virtqueue, device -- is a call of the target.
\<close>

section \<open>The device\<close>

text \<open>
  A target takes the request header, the data from the guest and the room for data to the
  guest, and gives its new state, the response and the data.
\<close>

type_synonym 'x target = "u8 list \<Rightarrow> u8 list \<Rightarrow> nat \<Rightarrow> 'x \<Rightarrow> 'x \<times> u8 list \<times> u8 list"

definition desc_bytes :: "mem \<Rightarrow> VRING_DESC \<Rightarrow> u8 list" where
  "desc_bytes m d = load_bytes m (unat (Addr d)) (unat (Len d))"

definition scsi_server :: "'x target \<Rightarrow> 'x server" where
  "scsi_server tgt ds w =
    (case (filter (\<lambda>d. and (Flags d) VRING_DESC_F_WRITE = 0) ds, filter (\<lambda>d. and (Flags d) VRING_DESC_F_WRITE \<noteq> 0) ds) of
       (r # os, p # is) \<Rightarrow>
         (case tgt (desc_bytes (fst w) r) (concat (map (desc_bytes (fst w)) os)) (sum_list (map (\<lambda>d. unat (Len d)) is)) (snd w) of (x, rsp, data) \<Rightarrow>
            ((case is of [] \<Rightarrow> store_bytes (fst w) (unat (Addr p)) rsp
              | i # _ \<Rightarrow> store_bytes (store_bytes (fst w) (unat (Addr p)) rsp) (unat (Addr i)) data, x), length rsp + length data))
     | _ \<Rightarrow> (w, 0))"

text \<open>The areas of a call: request, data from the guest, data to the guest, sense data.\<close>

definition out_area :: "PACKET \<Rightarrow> nat set" where
  "out_area P = {OutDataBuffer P ..< OutDataBuffer P + unat (OutTransferLength P)}"

definition in_area :: "PACKET \<Rightarrow> nat set" where
  "in_area P = {InDataBuffer P ..< InDataBuffer P + unat (InTransferLength P)}"

definition sense_area :: "PACKET \<Rightarrow> nat set" where
  "sense_area P = {SenseData P ..< SenseData P + unat (SenseDataLength P)}"

definition scsi_layout :: "VRING \<Rightarrow> nat \<Rightarrow> PACKET \<Rightarrow> nat set \<Rightarrow> bool" where
  "scsi_layout ring ra P pool \<longleftrightarrow>
    ring_area ring \<inter> {ra ..< ra + sizeof_REQ} = {} \<and> ring_area ring \<inter> out_area P = {} \<and> ring_area ring \<inter> pool = {} \<and>
    {ra ..< ra + sizeof_REQ} \<inter> out_area P = {} \<and> {ra ..< ra + sizeof_REQ} \<inter> pool = {} \<and> out_area P \<inter> pool = {} \<and>
    in_area P \<inter> pool = {} \<and> sense_area P \<inter> pool = {} \<and> in_area P \<inter> sense_area P = {} \<and>
    ra + sizeof_REQ \<le> 2 ^ 64 \<and> OutDataBuffer P + unat (OutTransferLength P) \<le> 2 ^ 64 \<and> pool \<subseteq> {..< 2 ^ 64}"

text \<open>The response as the driver decodes it.\<close>

definition parse_resp :: "u8 list \<Rightarrow> VIRTIO_SCSI_RESP" where
  "parse_resp rsp = \<lparr>SenseLen = of_nat (le_val (take 4 rsp)), Residual = of_nat (le_val (take 4 (drop 4 rsp))), Status = rsp ! 10, Response = rsp ! 11,
     Sense = take VIRTIO_SCSI_SENSE_SIZE (drop 12 rsp)\<rparr>"

lemma read_resp_stored:
  assumes "length rsp = sizeof_RESP" and "load_bytes m p sizeof_RESP = rsp"
  shows "read_resp m p = parse_resp rsp"
proof -
  have sub: "load_bytes m (p + i) n = take n (drop i rsp)" if "i + n \<le> sizeof_RESP" for i n
    using that assms(2) load_bytes_append [of m p i n] load_bytes_take [of "i + n" sizeof_RESP m p]
    by (metis append_eq_conv_conj length_load_bytes take_drop add.commute)
  have nth: "m (p + i) = rsp ! i" if "i < sizeof_RESP" for i using that assms(2) nth_load_bytes [of i sizeof_RESP m p] by simp
  show ?thesis
    using sub [of 0 4] sub [of 4 4] sub [of 12 VIRTIO_SCSI_SENSE_SIZE] nth [of 10] nth [of 11]
    by (simp add: read_resp_def parse_resp_def load_le_def sizeof_RESP_def VIRTIO_SCSI_SENSE_SIZE_def)
qed

section \<open>Submission\<close>

definition scsi_chain :: "PACKET \<Rightarrow> nat \<Rightarrow> nat \<Rightarrow> nat \<Rightarrow> (u64 \<times> u32 \<times> u16) list" where
  "scsi_chain P ra resp inb =
    [(of_nat ra, of_nat sizeof_REQ, VRING_DESC_F_NEXT)] @
    (if OutTransferLength P > 0 then [(of_nat (OutDataBuffer P), OutTransferLength P, VRING_DESC_F_NEXT)] else []) @
    [(of_nat resp, of_nat sizeof_RESP, or VRING_DESC_F_WRITE (if InTransferLength P > 0 then VRING_DESC_F_NEXT else 0))] @
    (if InTransferLength P > 0 then [(of_nat inb, InTransferLength P, VRING_DESC_F_WRITE)] else [])"

lemma scsi_chain_ok: "chain_flags (scsi_chain P ra resp inb)" "scsi_chain P ra resp inb \<noteq> []" "length (scsi_chain P ra resp inb) \<le> 4"
  by (auto simp: chain_flags_def scsi_chain_def less_Suc_eq numeral_eq_Suc VRING_DESC_F_NEXT_def VRING_DESC_F_WRITE_def)

text \<open>What the host does with the chain.\<close>

lemma scsi_chain_served:
  assumes ad: "ra < 2 ^ 64" "OutDataBuffer P < 2 ^ 64 \<or> OutTransferLength P = 0" "resp < 2 ^ 64" "inb < 2 ^ 64"
    and t: "tgt (load_bytes m ra sizeof_REQ) (load_bytes m (OutDataBuffer P) (unat (OutTransferLength P))) (unat (InTransferLength P)) x = (x', rsp, data)"
    and z: "InTransferLength P = 0 \<Longrightarrow> data = []"
  shows "scsi_server tgt (chain_of ring (scsi_chain P ra resp inb)) (m, x) = ((store_bytes (store_bytes m resp rsp) inb data, x'), length rsp + length data)"
proof -
  have u: "unat (of_nat ra :: u64) = ra" "unat (of_nat resp :: u64) = resp" "unat (of_nat inb :: u64) = inb"
    "OutTransferLength P \<noteq> 0 \<Longrightarrow> unat (of_nat (OutDataBuffer P) :: u64) = OutDataBuffer P"
    "unat (of_nat sizeof_REQ :: u32) = sizeof_REQ"
    using ad by (auto simp: unat_of_nat sizeof_REQ_def)
  have st: "store_bytes m' inb [] = m'" for m' by (auto simp: store_bytes_def fun_eq_iff)
  show ?thesis
    using t z u
    by (cases "OutTransferLength P = 0"; cases "InTransferLength P = 0")
      (auto simp: scsi_server_def scsi_chain_def chain_of_def upt_rec chain_desc_def desc_bytes_def VRING_DESC_F_NEXT_def VRING_DESC_F_WRITE_def st word_gt_0)
qed

text \<open>The parts of \<open>ParseResponse\<close>: status and packet do not depend on memory.\<close>

definition scsi_outcome :: "PACKET \<Rightarrow> u8 list \<Rightarrow> EFI_STATUS \<times> PACKET" where
  "scsi_outcome P rsp = (case ParseResponse P (parse_resp rsp) (\<lambda>_. 0) of (s, P1, _) \<Rightarrow> (s, P1))"

lemma ParseResponse_parts:
  "ParseResponse P (parse_resp rsp) m = (fst (scsi_outcome P rsp), snd (scsi_outcome P rsp),
     store_bytes m (SenseData P) (take (unat (SenseDataLength (snd (scsi_outcome P rsp)))) (take VIRTIO_SCSI_SENSE_SIZE (drop 12 rsp))))"
  by (simp add: ParseResponse_def scsi_outcome_def Let_def parse_resp_def)

lemma scsi_outcome_limits:
  shows "InDataBuffer (snd (scsi_outcome P rsp)) = InDataBuffer P" "InTransferLength (snd (scsi_outcome P rsp)) \<le> InTransferLength P"
    "SenseDataLength (snd (scsi_outcome P rsp)) \<le> SenseDataLength P" "unat (SenseDataLength (snd (scsi_outcome P rsp))) \<le> VIRTIO_SCSI_SENSE_SIZE"
proof -
  have n: "unat (of_nat (min k VIRTIO_SCSI_SENSE_SIZE) :: u8) = min k VIRTIO_SCSI_SENSE_SIZE" for k
    by (simp add: unat_of_nat VIRTIO_SCSI_SENSE_SIZE_def)
  note defs = scsi_outcome_def ParseResponse_def Let_def
  show "InDataBuffer (snd (scsi_outcome P rsp)) = InDataBuffer P" by (simp add: defs)
  show "InTransferLength (snd (scsi_outcome P rsp)) \<le> InTransferLength P" by (auto simp: defs word_le_nat_alt unat_sub)
  show "SenseDataLength (snd (scsi_outcome P rsp)) \<le> SenseDataLength P" by (auto simp: defs word_le_nat_alt n)
  show "unat (SenseDataLength (snd (scsi_outcome P rsp))) \<le> VIRTIO_SCSI_SENSE_SIZE" by (auto simp: defs n)
qed

text \<open>The memory the caller sees: data, sense data, and nothing else outside the call's own areas.\<close>

definition scsi_delivered :: "VRING \<Rightarrow> nat \<Rightarrow> PACKET \<Rightarrow> nat set \<Rightarrow> u8 list \<Rightarrow> u8 list \<Rightarrow> mem \<Rightarrow> mem \<Rightarrow> bool" where
  "scsi_delivered ring ra P pool rsp data m m' \<longleftrightarrow>
    (let P1 = snd (scsi_outcome P rsp); n = unat (InTransferLength P1); k = unat (SenseDataLength P1)
     in load_bytes m' (InDataBuffer P) n = take n (data @ replicate (unat (InTransferLength P) - length data) 0) \<and>
        load_bytes m' (SenseData P) k = take k (drop 12 rsp) \<and>
        (\<forall>a. a \<notin> ring_area ring \<union> {ra ..< ra + sizeof_REQ} \<union> pool \<union> in_area P \<union> sense_area P \<longrightarrow> m' a = m a))"

text \<open>The last step: sense data, then the data out of the intermediate buffer.\<close>

lemma scsi_copy_out:
  fixes P :: PACKET and rsp :: "u8 list"
  defines "P1 \<equiv> snd (scsi_outcome P rsp)"
  assumes lay: "scsi_layout ring ra P pool" and rsp: "length rsp = sizeof_RESP"
    and inb: "{inb ..< inb + unat (InTransferLength P)} \<subseteq> pool"
    and m2: "load_bytes m2 inb (unat (InTransferLength P)) = data @ replicate (unat (InTransferLength P) - length data) 0"
    and fr: "\<And>a. a \<notin> ring_area ring \<union> {ra ..< ra + sizeof_REQ} \<union> pool \<Longrightarrow> m2 a = m a"
    and m3: "m3 = store_bytes m2 (SenseData P) (take (unat (SenseDataLength P1)) (take VIRTIO_SCSI_SENSE_SIZE (drop 12 rsp)))"
  shows "scsi_delivered ring ra P pool rsp data m
    (if InTransferLength P > 0 then store_bytes m3 (InDataBuffer P) (load_bytes m3 inb (unat (InTransferLength P1))) else m3)"
proof -
  let ?n = "unat (InTransferLength P1)" and ?k = "unat (SenseDataLength P1)" and ?N = "unat (InTransferLength P)"
  define bs where "bs = take ?k (drop 12 rsp)"
  have lim: "?n \<le> ?N" "?k \<le> unat (SenseDataLength P)" "?k \<le> VIRTIO_SCSI_SENSE_SIZE"
    using scsi_outcome_limits [of P rsp] by (simp_all add: P1_def word_le_nat_alt)
  have len: "length bs = ?k" using lim(3) rsp by (simp add: bs_def sizeof_RESP_def VIRTIO_SCSI_SENSE_SIZE_def)
  have m3': "m3 = store_bytes m2 (SenseData P) bs" using lim(3) by (simp add: m3 bs_def min_absorb1)
  have S: "\<not> (SenseData P \<le> a \<and> a < SenseData P + ?k)" if "a \<in> in_area P \<or> a \<in> pool" for a
    using that lay lim(2) unfolding scsi_layout_def sense_area_def by fastforce
  have "load_bytes m3 inb ?N = load_bytes m2 inb ?N"
    using inb S by (intro load_bytes_cong) (auto simp: m3' store_bytes_def len)
  then have got: "load_bytes m3 inb ?n = take ?n (data @ replicate (?N - length data) 0)"
    using load_bytes_take [OF lim(1), of m3 inb] m2 by simp
  define m4 where "m4 = (if InTransferLength P > 0 then store_bytes m3 (InDataBuffer P) (load_bytes m3 inb ?n) else m3)"
  have a: "load_bytes m4 (InDataBuffer P) ?n = take ?n (data @ replicate (?N - length data) 0)"
  proof (cases "InTransferLength P > 0")
    case True
    then have "load_bytes m4 (InDataBuffer P) ?n = load_bytes m3 inb ?n" by (simp add: m4_def load_store_same)
    then show ?thesis using got by (simp only:)
  next
    case False
    then have "?n = 0" using lim(1) by (simp add: word_gt_0)
    then show ?thesis by simp
  qed
  have out: "m4 a = m3 a" if "a \<notin> in_area P" for a
    using that lim(1) by (auto simp: m4_def store_bytes_def in_area_def)
  have "load_bytes m4 (SenseData P) ?k = load_bytes m3 (SenseData P) ?k"
    using lay lim(2) by (intro load_bytes_cong out) (auto simp: scsi_layout_def sense_area_def)
  then have b: "load_bytes m4 (SenseData P) ?k = bs" using load_store_same [of bs ?k m2 "SenseData P"] len by (simp add: m3')
  have c: "m4 a = m a" if "a \<notin> ring_area ring \<union> {ra ..< ra + sizeof_REQ} \<union> pool \<union> in_area P \<union> sense_area P" for a
  proof -
    have "m4 a = m3 a" using that by (intro out) auto
    moreover have "m3 a = m2 a" using that lim(2) by (auto simp: m3' store_bytes_def len sense_area_def)
    ultimately show ?thesis using fr [of a] that by auto
  qed
  show ?thesis using a b c unfolding scsi_delivered_def P1_def [symmetric] m4_def [symmetric] bs_def by (auto simp: Let_def)
qed

text \<open>The device and the ring a call runs on, and a call whose request is in memory: the target will
  answer with \<open>(x, rsp, data)\<close>.\<close>

definition scsi_stack ::
  "(nat \<Rightarrow> 'd world \<Rightarrow> 'd world) \<Rightarrow> ('d, 'map) VIRTIO_DEVICE_PROTOCOL \<Rightarrow> VRING \<Rightarrow> 'x target \<Rightarrow> ('d \<Rightarrow> 'x) \<Rightarrow> ('d \<Rightarrow> nat set) \<Rightarrow> ('d \<Rightarrow> nat) \<Rightarrow> nat set \<Rightarrow> bool" where
  "scsi_stack Stall V ring tgt obs held room pool \<longleftrightarrow>
    completes Stall V VIRTIO_SCSI_REQUEST_QUEUE ring (scsi_server tgt) obs \<and> maps_identity V (\<lambda>d. (obs d, held d, room d)) \<and>
    page_service V obs held room pool \<and> vring_ok ring \<and> unat (QueueSize ring) dvd 65536 \<and> 4 \<le> QueueSize ring"

lemma scsi_stackD:
  assumes "scsi_stack Stall V ring tgt obs held room pool"
  shows "completes Stall V VIRTIO_SCSI_REQUEST_QUEUE ring (scsi_server tgt) obs" "maps_identity V (\<lambda>d. (obs d, held d, room d))"
    "page_service V obs held room pool" "vring_ok ring" "unat (QueueSize ring) dvd 65536" "4 \<le> QueueSize ring"
  using assms by (simp_all add: scsi_stack_def)

definition scsi_pending :: "'x target \<Rightarrow> VRING \<Rightarrow> nat \<Rightarrow> PACKET \<Rightarrow> nat set \<Rightarrow> mem \<Rightarrow> 'x \<Rightarrow> 'x \<times> u8 list \<times> u8 list \<Rightarrow> mem \<Rightarrow> bool" where
  "scsi_pending tgt ring ra P pool m0 x0 r m \<longleftrightarrow> scsi_layout ring ra P pool \<and>
    tgt (load_bytes m ra sizeof_REQ) (load_bytes m (OutDataBuffer P) (unat (OutTransferLength P))) (unat (InTransferLength P)) x0 = r \<and>
    length (fst (snd r)) = sizeof_RESP \<and> length (snd (snd r)) \<le> unat (InTransferLength P) \<and>
    (\<forall>a. a \<notin> ring_area ring \<union> {ra ..< ra + sizeof_REQ} \<union> pool \<longrightarrow> m a = m0 a)"

lemma scsi_pendingD:
  assumes "scsi_pending tgt ring ra P pool m0 x0 (x, rsp, data) m"
  shows "scsi_layout ring ra P pool"
    "tgt (load_bytes m ra sizeof_REQ) (load_bytes m (OutDataBuffer P) (unat (OutTransferLength P))) (unat (InTransferLength P)) x0 = (x, rsp, data)"
    "length rsp = sizeof_RESP" "length data \<le> unat (InTransferLength P)"
    "\<And>a. a \<notin> ring_area ring \<union> {ra ..< ra + sizeof_REQ} \<union> pool \<Longrightarrow> m a = m0 a"
  using assms by (auto simp: scsi_pending_def)

lemma scsi_pending_pool:
  assumes p: "scsi_pending tgt ring ra P pool m0 x0 r m" and m2: "\<And>a. a \<notin> pool \<Longrightarrow> m2 a = m a"
  shows "scsi_pending tgt ring ra P pool m0 x0 r m2"
proof -
  have lay: "scsi_layout ring ra P pool" using p by (simp add: scsi_pending_def)
  have eq: "load_bytes m2 q n = load_bytes m q n" if "{q ..< q + n} \<inter> pool = {}" for q n
    using that by (intro load_bytes_cong m2) auto
  have "load_bytes m2 ra sizeof_REQ = load_bytes m ra sizeof_REQ"
    "load_bytes m2 (OutDataBuffer P) (unat (OutTransferLength P)) = load_bytes m (OutDataBuffer P) (unat (OutTransferLength P))"
    using lay by (auto simp: scsi_layout_def out_area_def intro!: eq)
  then show ?thesis using p m2 unfolding scsi_pending_def by auto
qed

lemma ScsiSubmit_target:
  assumes stack: "scsi_stack Stall V ring tgt obs held room pool"
    and resp: "{resp ..< resp + sizeof_RESP} \<subseteq> pool" and inb: "{inb ..< inb + unat (InTransferLength P)} \<subseteq> pool"
    and dis: "{resp ..< resp + sizeof_RESP} \<inter> {inb ..< inb + unat (InTransferLength P)} = {}" and i0: "inb < 2 ^ 64"
    and zero: "load_bytes m inb (unat (InTransferLength P)) = replicate (unat (InTransferLength P)) 0"
    and pend: "scsi_pending tgt ring ra P pool m0 (obs d) (x, rsp, data) m"
  shows "\<exists>m' d'. ScsiSubmit Stall V ring P (of_nat ra) (if OutTransferLength P > 0 then of_nat (OutDataBuffer P) else z) (of_nat resp)
      (if InTransferLength P > 0 then of_nat inb else z') resp inb (m, d) = Some (Ok (scsi_outcome P rsp, m', d')) \<and>
    obs d' = x \<and> scsi_delivered ring ra P pool rsp data m0 m'"
proof -
  note dev = scsi_stackD(1) [OF stack] and ok = scsi_stackD(4) [OF stack] and Q = scsi_stackD(5,6) [OF stack]
  note lay = scsi_pendingD(1) [OF pend] and t = scsi_pendingD(2) [OF pend] and len = scsi_pendingD(3,4) [OF pend] and fr = scsi_pendingD(5) [OF pend]
  let ?bs = "scsi_chain P ra resp inb" and ?N = "unat (InTransferLength P)" and ?mo = "store_bytes (store_bytes m resp rsp) inb data"
  have P: "resp \<in> pool" using resp by (auto simp: sizeof_RESP_def)
  have "0 < unat (OutTransferLength P)" if "OutTransferLength P \<noteq> 0" using that by (simp add: unat_gt_0)
  then have ad: "ra < 2 ^ 64" "OutDataBuffer P < 2 ^ 64 \<or> OutTransferLength P = 0" "resp < 2 ^ 64"
    using lay P unfolding scsi_layout_def sizeof_REQ_def by (linarith, linarith, blast)
  have l4: "length ?bs \<le> unat (QueueSize ring)" using scsi_chain_ok(3) [of P ra resp inb] Q(2) by (simp add: word_le_nat_alt)
  obtain m1 I where r: "append_all ring ?bs (VirtioPrepare ring m) = (m1, I)" by (cases "append_all ring ?bs (VirtioPrepare ring m)")
  have sv: "scsi_server tgt (chain_of ring ?bs) (m2, obs d) = ((store_bytes (store_bytes m2 resp rsp) inb data, x), length rsp + length data) \<and>
      (\<forall>a. a \<notin> ring_area ring \<longrightarrow> store_bytes (store_bytes m2 resp rsp) inb data a = ?mo a)"
    if m2: "\<And>a. a \<notin> ring_area ring \<Longrightarrow> m2 a = m a" for m2
  proof (intro conjI scsi_chain_served ad i0)
    have "load_bytes m2 ra sizeof_REQ = load_bytes m ra sizeof_REQ"
      "load_bytes m2 (OutDataBuffer P) (unat (OutTransferLength P)) = load_bytes m (OutDataBuffer P) (unat (OutTransferLength P))"
      using lay by (auto simp: scsi_layout_def out_area_def intro!: load_bytes_cong m2)
    then show "tgt (load_bytes m2 ra sizeof_REQ) (load_bytes m2 (OutDataBuffer P) (unat (OutTransferLength P))) ?N (obs d) = (x, rsp, data)"
      using t by simp
    show "InTransferLength P = 0 \<Longrightarrow> data = []" using len(2) by simp
    show "\<forall>a. a \<notin> ring_area ring \<longrightarrow> store_bytes (store_bytes m2 resp rsp) inb data a = ?mo a" using m2 by (auto simp: store_bytes_def)
  qed
  obtain w' where f: "VirtioFlush Stall V VIRTIO_SCSI_REQUEST_QUEUE ring I False (m1, d) = Some (Ok (EFI_SUCCESS, None, w'))" "obs (snd w') = x"
    "\<And>a. a \<notin> ring_area ring \<Longrightarrow> fst w' a = ?mo a"
    using Flush_completes [OF dev ok Q(1) scsi_chain_ok(2) l4 scsi_chain_ok(1) r sv, of False] by auto
  have ring: "a \<notin> ring_area ring" if "a \<in> pool" for a using that lay by (auto simp: scsi_layout_def)
  have apart: "\<not> (inb \<le> a \<and> a < inb + ?N)" if "resp \<le> a" "a < resp + sizeof_RESP" for a
    using disjoint_iff [THEN iffD1, OF dis, rule_format, of a] that by simp
  have "load_bytes (fst w') resp sizeof_RESP = load_bytes (store_bytes m resp rsp) resp sizeof_RESP"
  proof (rule load_bytes_cong)
    fix a assume a: "resp \<le> a" "a < resp + sizeof_RESP"
    then have "fst w' a = ?mo a" using resp by (intro f(3) ring) auto
    then show "fst w' a = store_bytes m resp rsp a" using apart [OF a] len(2) by (auto simp: store_bytes_def)
  qed
  then have rr: "read_resp (fst w') resp = parse_resp rsp"
    using len(1) load_store_same [of rsp sizeof_RESP m resp] by (intro read_resp_stored) simp_all
  have got: "load_bytes (fst w') inb ?N = data @ replicate (?N - length data) 0"
  proof -
    have "load_bytes (fst w') inb ?N = load_bytes (store_bytes m inb data) inb (length data + (?N - length data))"
    proof (simp add: len(2), rule load_bytes_cong)
      fix a assume a: "inb \<le> a" "a < inb + ?N"
      then have "fst w' a = ?mo a" using inb by (intro f(3) ring) auto
      then show "fst w' a = store_bytes m inb data a" using apart [of a] a len(1) by (auto simp: store_bytes_def)
    qed
    moreover have "load_bytes (store_bytes m inb data) (inb + length data) (?N - length data) = load_bytes m (inb + length data) (?N - length data)"
      by (intro load_bytes_cong) (auto simp: store_bytes_def)
    moreover have "load_bytes m (inb + length data) (?N - length data) = replicate (?N - length data) 0"
      using load_bytes_drop [of m inb "length data" ?N] zero by simp
    ultimately show ?thesis by (simp add: load_bytes_append load_store_same)
  qed
  have fr': "fst w' a = m0 a" if "a \<notin> ring_area ring \<union> {ra ..< ra + sizeof_REQ} \<union> pool" for a
  proof -
    have "a \<notin> {resp ..< resp + sizeof_RESP}" "a \<notin> {inb ..< inb + ?N}" using that resp inb by blast+
    then show ?thesis using that f(3) [of a] fr [of a] len by (auto simp: store_bytes_def)
  qed
  have chain: "[(of_nat ra, of_nat sizeof_REQ, VRING_DESC_F_NEXT)] @
       (if OutTransferLength P > 0 then [(if OutTransferLength P > 0 then of_nat (OutDataBuffer P) else z, OutTransferLength P, VRING_DESC_F_NEXT)] else []) @
       [(of_nat resp, of_nat sizeof_RESP, or VRING_DESC_F_WRITE (if InTransferLength P > 0 then VRING_DESC_F_NEXT else 0))] @
       (if InTransferLength P > 0 then [(if InTransferLength P > 0 then of_nat inb else z', InTransferLength P, VRING_DESC_F_WRITE)] else []) = ?bs"
    by (simp add: scsi_chain_def)
  show ?thesis
    unfolding ScsiSubmit_def fst_conv snd_conv chain r prod.case
    using Q(2) f(1,2) scsi_copy_out [OF lay len(1) inb got fr' refl]
    by (auto simp: rr ParseResponse_parts Let_def scsi_outcome_limits(1) prod_eq_iff)
qed

section \<open>The brackets\<close>

lemma EFI_pages_cover: "{a ..< a + n} \<subseteq> {a ..< a + EFI_PAGES_TO_SIZE (EFI_SIZE_TO_PAGES n)}"
  using size_le_pages [of n] by auto

text \<open>The outcome of a bracket, with the device state observed by \<open>obs\<close>.\<close>

definition scsi_done :: "VRING \<Rightarrow> nat \<Rightarrow> PACKET \<Rightarrow> nat set \<Rightarrow> mem \<Rightarrow> 'x \<times> u8 list \<times> u8 list \<Rightarrow> mem \<Rightarrow> 'x \<Rightarrow> bool" where
  "scsi_done ring ra P pool m0 r m' y \<longleftrightarrow> y = fst r \<and> scsi_delivered ring ra P pool (fst (snd r)) (snd (snd r)) m0 m'"

lemma WithResponse_target:
  assumes stack: "scsi_stack Stall V ring tgt obs held room pool" and pend: "scsi_pending tgt ring ra P pool m0 (obs d) r m"
    and inb: "{inb ..< inb + unat (InTransferLength P)} \<subseteq> held d \<inter> pool" "inb < 2 ^ 64" and room: "1 \<le> room d"
    and zero: "load_bytes m inb (unat (InTransferLength P)) = replicate (unat (InTransferLength P)) 0"
  shows "\<exists>m' d'. WithResponse Stall V ring P (of_nat ra) (if InTransferLength P > 0 then of_nat inb else z') inb
      (if OutTransferLength P > 0 then of_nat (OutDataBuffer P) else z) (m, d) = Some (Ok (scsi_outcome P (fst (snd r)), m', d')) \<and>
    scsi_done ring ra P pool m0 r m' (obs d')"
  unfolding WithResponse_def
proof (rule with_pages_fresh [OF scsi_stackD(3) [OF stack]])
  show "EFI_SIZE_TO_PAGES sizeof_RESP \<le> room d" using room by (simp add: sizeof_RESP_def EFI_SIZE_TO_PAGES_def EFI_PAGE_SIZE_def)
  fix resp d1
  assume "{resp ..< resp + EFI_PAGES_TO_SIZE (EFI_SIZE_TO_PAGES sizeof_RESP)} \<subseteq> pool - held d" and o: "obs d1 = obs d"
  then have rp: "{resp ..< resp + sizeof_RESP} \<subseteq> pool - held d" using EFI_pages_cover [of resp sizeof_RESP] by blast
  define m1 where "m1 = (set_mem m resp sizeof_RESP 0)(resp + 11 := VIRTIO_SCSI_S_FAILURE)"
  have m1: "m1 a = m a" if "a \<notin> {resp ..< resp + sizeof_RESP}" for a using that by (auto simp: m1_def set_mem_other sizeof_RESP_def)
  have p1: "scsi_pending tgt ring ra P pool m0 (obs d) r m1" by (rule scsi_pending_pool [OF pend m1]) (use rp in blast)
  have z1: "load_bytes m1 inb (unat (InTransferLength P)) = replicate (unat (InTransferLength P)) 0"
    using zero load_bytes_cong [of inb "unat (InTransferLength P)" m1 m] m1 inb(1) rp by (metis DiffD2 IntD1 atLeastLessThan_iff subsetD)
  have dis: "{resp ..< resp + sizeof_RESP} \<inter> {inb ..< inb + unat (InTransferLength P)} = {}" using rp inb(1) by blast
  have "\<exists>m' d'. with_mapped V VirtioOperationBusMasterCommonBuffer resp sizeof_RESP (ReportHostAdapterError P) (\<lambda>_ r. r)
      (\<lambda>c. ScsiSubmit Stall V ring P (of_nat ra) (if OutTransferLength P > 0 then of_nat (OutDataBuffer P) else z) c
        (if InTransferLength P > 0 then of_nat inb else z') resp inb) (m1, d1) = Some (Ok (scsi_outcome P (fst (snd r)), m', d')) \<and>
      (\<lambda>m y. scsi_done ring ra P pool m0 r m (fst y)) m' (obs d', held d', room d')"
  proof (rule with_mapped_identity [OF scsi_stackD(2) [OF stack], where fin = "\<lambda>_ r. r"])
    fix d2 assume "(obs d2, held d2, room d2) = (obs d1, held d1, room d1)"
    then have p2: "scsi_pending tgt ring ra P pool m0 (obs d2) (fst r, fst (snd r), snd (snd r)) m1" using p1 o by simp
    show "\<exists>m' d'. ScsiSubmit Stall V ring P (of_nat ra) (if OutTransferLength P > 0 then of_nat (OutDataBuffer P) else z) (of_nat resp)
        (if InTransferLength P > 0 then of_nat inb else z') resp inb (m1, d2) = Some (Ok (scsi_outcome P (fst (snd r)), m', d')) \<and>
        scsi_done ring ra P pool m0 r m' (fst (obs d', held d', room d'))"
    proof -
      have "{resp ..< resp + sizeof_RESP} \<subseteq> pool" "{inb ..< inb + unat (InTransferLength P)} \<subseteq> pool" using rp inb(1) by blast+
      from ScsiSubmit_target [OF stack this dis inb(2) z1 p2] show ?thesis unfolding scsi_done_def fst_conv .
    qed
  qed
  then show "\<exists>m' d'. with_mapped V VirtioOperationBusMasterCommonBuffer resp sizeof_RESP (ReportHostAdapterError P) (\<lambda>_ r. r)
      (\<lambda>c. ScsiSubmit Stall V ring P (of_nat ra) (if OutTransferLength P > 0 then of_nat (OutDataBuffer P) else z) c
        (if InTransferLength P > 0 then of_nat inb else z') resp inb)
      ((set_mem (fst (m, d1)) resp sizeof_RESP 0)(resp + 11 := VIRTIO_SCSI_S_FAILURE), snd (m, d1)) = Some (Ok (scsi_outcome P (fst (snd r)), m', d')) \<and>
      scsi_done ring ra P pool m0 r m' (obs d')"
    by (simp add: m1_def)
qed

lemma WithOutData_target:
  assumes stack: "scsi_stack Stall V ring tgt obs held room pool" and pend: "scsi_pending tgt ring ra P pool m0 (obs d) r m"
    and inb: "{inb ..< inb + unat (InTransferLength P)} \<subseteq> held d \<inter> pool" "inb < 2 ^ 64" and room: "1 \<le> room d"
    and zero: "load_bytes m inb (unat (InTransferLength P)) = replicate (unat (InTransferLength P)) 0"
  shows "\<exists>m' d'. WithOutData Stall V ring P (of_nat ra) inb (if InTransferLength P > 0 then of_nat inb else z') (m, d)
      = Some (Ok (scsi_outcome P (fst (snd r)), m', d')) \<and> scsi_done ring ra P pool m0 r m' (obs d')"
proof (cases "OutTransferLength P > 0")
  case True
  have "\<exists>m' d'. with_mapped V VirtioOperationBusMasterRead (OutDataBuffer P) (unat (OutTransferLength P)) (ReportHostAdapterError P) (\<lambda>_ r. r)
      (WithResponse Stall V ring P (of_nat ra) (if InTransferLength P > 0 then of_nat inb else z') inb) (m, d)
      = Some (Ok (scsi_outcome P (fst (snd r)), m', d')) \<and> (\<lambda>m y. scsi_done ring ra P pool m0 r m (fst y)) m' (obs d', held d', room d')"
  proof (rule with_mapped_identity [OF scsi_stackD(2) [OF stack], where fin = "\<lambda>_ r. r"])
    fix d2 assume "(obs d2, held d2, room d2) = (obs d, held d, room d)"
    then show "\<exists>m' d'. WithResponse Stall V ring P (of_nat ra) (if InTransferLength P > 0 then of_nat inb else z') inb (of_nat (OutDataBuffer P)) (m, d2)
        = Some (Ok (scsi_outcome P (fst (snd r)), m', d')) \<and> scsi_done ring ra P pool m0 r m' (fst (obs d', held d', room d'))"
      using WithResponse_target [where d = d2 and z = 0 and z' = z', OF stack _ _ inb(2) _ zero, where ?m0.0 = m0] assms(2,3,5) True by simp
  qed
  then show ?thesis using True by (simp add: WithOutData_def)
next
  case False
  then show ?thesis using WithResponse_target [OF assms, of z' 0] by (simp add: WithOutData_def)
qed

lemma WithInData_target:
  assumes stack: "scsi_stack Stall V ring tgt obs held room pool" and pend: "scsi_pending tgt ring ra P pool m0 (obs d) r m"
    and room: "EFI_SIZE_TO_PAGES (unat (InTransferLength P)) + 1 \<le> room d"
  shows "\<exists>m' d'. WithInData Stall V ring P (of_nat ra) (m, d) = Some (Ok (scsi_outcome P (fst (snd r)), m', d')) \<and> scsi_done ring ra P pool m0 r m' (obs d')"
proof (cases "InTransferLength P > 0")
  case False
  then have "unat (InTransferLength P) = 0" by (simp add: word_gt_0)
  with False show ?thesis using WithOutData_target [OF stack pend, of 0 0] room by (simp add: WithInData_def)
next
  case True
  let ?N = "unat (InTransferLength P)"
  have N: "0 < ?N" using True by (simp add: unat_gt_0 word_gt_0)
  have "\<exists>m' d'. with_pages V (EFI_SIZE_TO_PAGES ?N) (ReportHostAdapterError P) (\<lambda>inbuf w.
      with_mapped V VirtioOperationBusMasterCommonBuffer inbuf ?N (ReportHostAdapterError P) (\<lambda>_ r. r)
        (WithOutData Stall V ring P (of_nat ra) inbuf) (set_mem (fst w) inbuf ?N 0, snd w)) (m, d)
      = Some (Ok (scsi_outcome P (fst (snd r)), m', d')) \<and> scsi_done ring ra P pool m0 r m' (obs d')"
  proof (rule with_pages_fresh [OF scsi_stackD(3) [OF stack]])
    show "EFI_SIZE_TO_PAGES ?N \<le> room d" using room by simp
    fix inb d1
    assume f: "{inb ..< inb + EFI_PAGES_TO_SIZE (EFI_SIZE_TO_PAGES ?N)} \<subseteq> pool - held d"
      and h: "held d1 = held d \<union> {inb ..< inb + EFI_PAGES_TO_SIZE (EFI_SIZE_TO_PAGES ?N)}"
      and rm: "room d1 = room d - EFI_SIZE_TO_PAGES ?N" and o: "obs d1 = obs d"
    have inb: "{inb ..< inb + ?N} \<subseteq> held d1 \<inter> pool" using f h EFI_pages_cover [of inb ?N] by blast
    then have "inb \<in> pool" using N by auto
    then have i64: "inb < 2 ^ 64" using pend by (auto simp: scsi_pending_def scsi_layout_def)
    have p1: "scsi_pending tgt ring ra P pool m0 (obs d) r (set_mem m inb ?N 0)"
      by (rule scsi_pending_pool [OF pend]) (use inb in \<open>auto intro!: set_mem_other simp: not_less subset_iff\<close>)
    have z: "load_bytes (set_mem m inb ?N 0) inb ?N = replicate ?N 0"
      by (rule nth_equalityI) (simp_all add: nth_load_bytes set_mem_inside)
    have "\<exists>m' d'. with_mapped V VirtioOperationBusMasterCommonBuffer inb ?N (ReportHostAdapterError P) (\<lambda>_ r. r)
        (WithOutData Stall V ring P (of_nat ra) inb) (set_mem m inb ?N 0, d1)
        = Some (Ok (scsi_outcome P (fst (snd r)), m', d')) \<and> (\<lambda>m y. scsi_done ring ra P pool m0 r m (fst y)) m' (obs d', held d', room d')"
    proof (rule with_mapped_identity [OF scsi_stackD(2) [OF stack], where fin = "\<lambda>_ r. r"])
      fix d2 assume "(obs d2, held d2, room d2) = (obs d1, held d1, room d1)"
      then show "\<exists>m' d'. WithOutData Stall V ring P (of_nat ra) inb (of_nat inb) (set_mem m inb ?N 0, d2)
          = Some (Ok (scsi_outcome P (fst (snd r)), m', d')) \<and> scsi_done ring ra P pool m0 r m' (fst (obs d', held d', room d'))"
        using WithOutData_target [where d = d2 and z' = 0, OF stack _ _ i64 _ z, where ?m0.0 = m0] p1 inb o rm room True by simp
    qed
    then show "\<exists>m' d'. with_mapped V VirtioOperationBusMasterCommonBuffer inb ?N (ReportHostAdapterError P) (\<lambda>_ r. r)
        (WithOutData Stall V ring P (of_nat ra) inb) (set_mem (fst (m, d1)) inb ?N 0, snd (m, d1))
        = Some (Ok (scsi_outcome P (fst (snd r)), m', d')) \<and> scsi_done ring ra P pool m0 r m' (obs d')" by simp
  qed
  then show ?thesis using True by (simp add: WithInData_def)
qed

section \<open>Properties\<close>

text \<open>
  Property C2. A pass-thru call whose packet is accepted is a call of the target: the target gets
  exactly the request that \<open>PopulateRequest\<close> made and the caller's data, the packet comes back with
  the target's response decoded, the caller's buffers hold the target's data (zero padded) up to
  the transferred length and its sense data, and no other memory of the caller changes.
\<close>

theorem VirtioScsiPassThru_calls_target:
  assumes stack: "scsi_stack Stall V (Ring Dev) tgt obs held room pool" and lay: "scsi_layout (Ring Dev) ra P pool"
    and pop: "PopulateRequest Dev (of_nat (le_val (take 2 T))) L P m = (EFI_SUCCESS, P, req)"
    and t: "tgt req (load_bytes m (OutDataBuffer P) (unat (OutTransferLength P))) (unat (InTransferLength P)) (obs d) = (x, rsp, data)"
    and len: "length rsp = sizeof_RESP" "length data \<le> unat (InTransferLength P)"
    and room: "EFI_SIZE_TO_PAGES (unat (InTransferLength P)) + 1 \<le> room d"
  shows "\<exists>m' d'. VirtioScsiPassThru Stall V ra Dev T L P (m, d) = Some (Ok (scsi_outcome P rsp, m', d')) \<and>
    obs d' = x \<and> scsi_delivered (Ring Dev) ra P pool rsp data m m'"
proof -
  let ?m1 = "store_bytes m ra req"
  have req: "length req = sizeof_REQ"
    using pop by (auto simp: PopulateRequest_def ScsiRequest_def Let_def sizeof_REQ_def VIRTIO_SCSI_CDB_SIZE_def split: if_splits)
  have "load_bytes ?m1 ra sizeof_REQ = req" using req by (rule load_store_same)
  moreover have "load_bytes ?m1 (OutDataBuffer P) (unat (OutTransferLength P)) = load_bytes m (OutDataBuffer P) (unat (OutTransferLength P))"
  proof (intro load_bytes_cong store_bytes_other)
    fix a assume "OutDataBuffer P \<le> a" "a < OutDataBuffer P + unat (OutTransferLength P)"
    then have "a \<in> out_area P" by (simp add: out_area_def)
    then have "a \<notin> {ra ..< ra + sizeof_REQ}" using lay by (auto simp: scsi_layout_def)
    then show "a < ra \<or> ra + length req \<le> a" using req by auto
  qed
  ultimately have pend: "scsi_pending tgt (Ring Dev) ra P pool m (obs d) (x, rsp, data) ?m1"
    using lay t len req by (auto simp: scsi_pending_def store_bytes_def)
  have "\<exists>m' d'. with_mapped V VirtioOperationBusMasterRead ra sizeof_REQ (ReportHostAdapterError P) (\<lambda>_ r. r) (WithInData Stall V (Ring Dev) P) (?m1, d)
      = Some (Ok (scsi_outcome P rsp, m', d')) \<and> (\<lambda>m' y. scsi_done (Ring Dev) ra P pool m (x, rsp, data) m' (fst y)) m' (obs d', held d', room d')"
  proof (rule with_mapped_identity [OF scsi_stackD(2) [OF stack], where fin = "\<lambda>_ r. r"])
    fix d2 assume "(obs d2, held d2, room d2) = (obs d, held d, room d)"
    then show "\<exists>m' d'. WithInData Stall V (Ring Dev) P (of_nat ra) (?m1, d2) = Some (Ok (scsi_outcome P rsp, m', d')) \<and>
        scsi_done (Ring Dev) ra P pool m (x, rsp, data) m' (fst (obs d', held d', room d'))"
      using WithInData_target [where d = d2, OF stack, of ra P m "(x, rsp, data)" ?m1] pend room by simp
  qed
  then show ?thesis using pop by (simp add: VirtioScsiPassThru_def Let_def scsi_done_def)
qed

text \<open>A target that counts its calls and sends three bytes; pages are handed out one after the other
  from 0x10000 on.\<close>

definition count_target :: "nat target" where
  "count_target req out n x = (x + 1, replicate sizeof_RESP 0, take n [1, 2, 3])"

definition scsi_ring :: VRING where
  "scsi_ring = (VirtioRingPointers 4 (zero_VRING\<lparr>NumPages := 2\<rparr>))\<lparr>QueueSize := 4\<rparr>"

definition scsi_dev :: "(nat \<times> nat, unit) VIRTIO_DEVICE_PROTOCOL" where
  "scsi_dev = \<lparr>Revision = 0x01000000, SetGuestFeatures = (\<lambda>_ w. (EFI_SUCCESS, w)), SetDeviceStatus = (\<lambda>_ w. (EFI_SUCCESS, w)),
     GetDeviceStatus = (\<lambda>s w. (EFI_SUCCESS, s, w)),
     SetQueueNotify = (\<lambda>_ w. (EFI_SUCCESS,
       let r = host_complete (scsi_server count_target) scsi_ring (fst w, fst (snd w)) in (fst r, snd r, snd (snd w)))),
     AllocateSharedPages = (\<lambda>n w. (EFI_SUCCESS, 0x10000 + 4096 * snd (snd w), fst w, fst (snd w), snd (snd w) + n)), FreeSharedPages = (\<lambda>_ _ w. w),
     MapSharedBuffer = (\<lambda>_ p n w. (EFI_SUCCESS, (n, of_nat p, ()), w)), UnmapSharedBuffer = (\<lambda>_ w. (EFI_SUCCESS, w)),
     SubSystemDeviceId = 8, GetDeviceFeatures = (\<lambda>w. (EFI_SUCCESS, 0x100000000, w)), SetPageSize = (\<lambda>_ w. (EFI_SUCCESS, w)),
     SetQueueSel = (\<lambda>_ w. (EFI_SUCCESS, w)), GetQueueNumMax = (\<lambda>w. (EFI_SUCCESS, 4, w)), SetQueueNum = (\<lambda>_ w. (EFI_SUCCESS, w)),
     SetQueueAlign = (\<lambda>_ w. (EFI_SUCCESS, w)), SetQueueAddress = (\<lambda>_ _ w. (EFI_SUCCESS, w)),
     ReadDevice = (\<lambda>_ _ w. (EFI_SUCCESS, 8, w)), WriteDevice = (\<lambda>_ _ _ w. (EFI_SUCCESS, w))\<rparr>"

definition scsi_packet :: PACKET where
  "scsi_packet = \<lparr>InDataBuffer = 0x8000, OutDataBuffer = 0, SenseData = 0, Cdb = 0x9000, InTransferLength = 3, OutTransferLength = 0,
     CdbLength = 6, DataDirection = 0, HostAdapterStatus = 0, TargetStatus = 0, SenseDataLength = 0\<rparr>"

lemma scsi_dev_stack:
  "scsi_stack (\<lambda>_ w. w) scsi_dev scsi_ring count_target fst (\<lambda>d. {0x10000 ..< 0x10000 + 4096 * snd d}) (\<lambda>d. 16 - snd d) {0x10000 ..< 0x20000}"
proof -
  have "completes (\<lambda>_ w. w) scsi_dev VIRTIO_SCSI_REQUEST_QUEUE scsi_ring (scsi_server count_target) fst"
    unfolding completes_def
  proof (intro allI)
    fix m d
    let ?w = "snd (SetQueueNotify scsi_dev VIRTIO_SCSI_REQUEST_QUEUE (m, d))"
    show "\<exists>k w2. SetQueueNotify scsi_dev VIRTIO_SCSI_REQUEST_QUEUE (m, d) = (EFI_SUCCESS, w2) \<and>
        (fst (stall_n (\<lambda>_ w. w) k 1 w2), fst (snd (stall_n (\<lambda>_ w. w) k 1 w2))) = host_complete (scsi_server count_target) scsi_ring (m, fst d) \<and>
        (\<forall>j<k. load_le (fst (stall_n (\<lambda>_ w. w) j 1 w2)) (UsedIdx scsi_ring) 2 \<noteq> load_le m (AvailIdx scsi_ring) 2)"
      by (rule exI [of _ 0], rule exI [of _ ?w]) (simp add: scsi_dev_def Let_def)
  qed
  moreover have "maps_identity scsi_dev (\<lambda>d. (fst d, {0x10000 ..< 0x10000 + 4096 * snd d}, 16 - snd d))"
    unfolding maps_identity_def by (simp add: scsi_dev_def)
  moreover have "page_service scsi_dev fst (\<lambda>d. {0x10000 ..< 0x10000 + 4096 * snd d}) (\<lambda>d. 16 - snd d) {0x10000 ..< 0x20000}"
    unfolding page_service_def by (auto simp: scsi_dev_def EFI_PAGES_TO_SIZE_def EFI_PAGE_SIZE_def)
  moreover have "vring_ok scsi_ring" "unat (QueueSize scsi_ring) dvd 65536" "4 \<le> QueueSize scsi_ring"
    by (simp_all add: scsi_ring_def vring_ok_def VirtioRingPointers_def zero_VRING_def ALIGN_VALUE_def EFI_PAGE_SIZE_def EFI_PAGES_TO_SIZE_def)
  ultimately show ?thesis by (simp add: scsi_stack_def)
qed

theorem VirtioScsiPassThru_calls_target_witness:
  "\<exists>P m' d'. VirtioScsiPassThru (\<lambda>_ w. w) scsi_dev 0x9100 (demo_scsi\<lparr>Ring := scsi_ring\<rparr>) (target_bytes 1) 2 scsi_packet (\<lambda>_. 0, (7, 0))
     = Some (Ok ((EFI_SUCCESS, P), m', d')) \<and> load_bytes m' 0x8000 3 = [1, 2, 3] \<and> fst d' = 8"
proof -
  let ?D = "demo_scsi\<lparr>Ring := scsi_ring\<rparr>"
  have st: "scsi_stack (\<lambda>_ w. w) scsi_dev (Ring ?D) count_target fst (\<lambda>d. {0x10000 ..< 0x10000 + 4096 * snd d}) (\<lambda>d. 16 - snd d) {0x10000 ..< 0x20000}"
    using scsi_dev_stack by simp
  have lay: "scsi_layout (Ring ?D) 0x9100 scsi_packet {0x10000 ..< 0x20000}"
    by (auto simp: scsi_layout_def scsi_ring_def ring_area_def VirtioRingPointers_def zero_VRING_def ALIGN_VALUE_def EFI_PAGE_SIZE_def
        out_area_def in_area_def sense_area_def scsi_packet_def sizeof_REQ_def)
  have pop: "PopulateRequest ?D (of_nat (le_val (take 2 (target_bytes 1)))) 2 scsi_packet (\<lambda>_. 0) =
      (EFI_SUCCESS, scsi_packet, ScsiRequest 1 2 (replicate 6 0))"
    by (simp add: target_bytes_val PopulateRequest_def scsi_packet_def demo_scsi_def VIRTIO_SCSI_CDB_SIZE_def SIZE_1GB_def
        DATA_DIRECTION_BIDIRECTIONAL_def DATA_DIRECTION_WRITE_def ALIGN_VALUE_def load_bytes_def map_replicate_const Let_def)
  have out: "scsi_outcome scsi_packet (replicate sizeof_RESP 0) = (EFI_SUCCESS, scsi_packet)"
    by (simp add: scsi_outcome_def ParseResponse_def parse_resp_def scsi_packet_def ResponseStatus_def VIRTIO_SCSI_S_OK_def HOST_ADAPTER_OK_def
        sizeof_RESP_def Let_def, code_simp)
  have "\<exists>m' d'. VirtioScsiPassThru (\<lambda>_ w. w) scsi_dev 0x9100 ?D (target_bytes 1) 2 scsi_packet (\<lambda>_. 0, (7, 0))
      = Some (Ok (scsi_outcome scsi_packet (replicate sizeof_RESP 0), m', d')) \<and> fst d' = 8 \<and>
      scsi_delivered (Ring ?D) 0x9100 scsi_packet {0x10000 ..< 0x20000} (replicate sizeof_RESP 0) [1, 2, 3] (\<lambda>_. 0) m'"
    by (rule VirtioScsiPassThru_calls_target [OF st lay pop]) (simp_all add: count_target_def scsi_packet_def EFI_SIZE_TO_PAGES_def EFI_PAGE_SIZE_def)
  moreover have "InTransferLength scsi_packet = 3" "InDataBuffer scsi_packet = 0x8000" by (simp_all add: scsi_packet_def)
  ultimately show ?thesis unfolding out by (auto simp: scsi_delivered_def out Let_def)
qed

end
