(* ===== verification/SerializeVariables.thy ===== *)
theory SerializeVariables
  imports Prelude
begin

text \<open>
  Model of \<open>Platforms/QemuQ35Pkg/Library/SerializeVariablesLib\<close>: a growing
  buffer of serialized UEFI variables and the iterator that walks it.

  A record in the buffer is: 32-bit name size, the UCS-2 name with its
  terminator, the 16-byte GUID, 32-bit attributes, 32-bit data size, the data.
  The buffer handed to the iterator lies in byte-addressed memory.  Pool
  allocation and the variable services are arguments; \<open>AllocatePool\<close> returns the
  (arbitrary) contents of the block it hands out, or \<open>None\<close> for \<open>NULL\<close>.
  A callback runs on an arbitrary context \<open>'w\<close>, which also carries the pool.
\<close>

section \<open>Data\<close>

record 'w pool_ops =
  AllocatePool :: "nat \<Rightarrow> 'w \<Rightarrow> u8 list option \<times> 'w"
  FreePool :: "'w \<Rightarrow> 'w"

definition pool_sizes_ok :: "'w pool_ops \<Rightarrow> bool" where
  "pool_sizes_ok pool \<longleftrightarrow> (\<forall>n w bs w'. AllocatePool pool n w = (Some bs, w') \<longrightarrow> length bs = n)"

definition SV_SIGNATURE :: u32 where
  "SV_SIGNATURE = of_nat (le_val [0x53, 0x56, 0x41, 0x52])"

record SV_INSTANCE =
  Signature :: u32
  BufferPtr :: "u8 list option"
  BufferSize :: nat
  DataSize :: nat

text \<open>One unpacked record: addresses into the buffer, sizes, and the bytes used.\<close>

record unpacked =
  up_Name :: nat
  up_NameSize :: nat
  up_Guid :: nat
  up_Attributes :: nat
  up_DataSize :: nat
  up_Data :: nat
  up_SizeUsed :: nat

type_synonym 'w variable_callback =
  "'w \<Rightarrow> u8 list \<Rightarrow> u8 list \<Rightarrow> u32 \<Rightarrow> u8 list \<Rightarrow> (EFI_STATUS \<times> 'w) checked"

text \<open>\<open>StrSize\<close> of the base library: bytes up to and including the first UCS-2
  terminator; \<open>None\<close> if the readable bytes contain none.\<close>

fun StrSize :: "u8 list \<Rightarrow> nat option" where
  "StrSize (x # y # r) = (if x = 0 \<and> y = 0 then Some 2 else map_option (\<lambda>n. n + 2) (StrSize r))"
| "StrSize _ = None"

section \<open>Reading records\<close>

definition UnpackVariableFromBuffer :: "mem \<Rightarrow> nat \<Rightarrow> nat \<Rightarrow> EFI_STATUS + unpacked" where
  "UnpackVariableFromBuffer m p MaxSize =
    (let NameSize = load_le m p 4;
         o1 = 4
     in if o1 > MaxSize then Inl EFI_INVALID_PARAMETER else
     let o2 = o1 + NameSize
     in if o2 > MaxSize then Inl EFI_INVALID_PARAMETER else
     let o3 = o2 + 16
     in if o3 > MaxSize then Inl EFI_INVALID_PARAMETER else
     let Attributes = load_le m (p + o3) 4;
         o4 = o3 + 4
     in if o4 > MaxSize then Inl EFI_INVALID_PARAMETER else
     let DSize = load_le m (p + o4) 4;
         o5 = o4 + 4
     in if o5 > MaxSize then Inl EFI_INVALID_PARAMETER else
     let o6 = o5 + DSize
     in if o6 > MaxSize then Inl EFI_INVALID_PARAMETER else
     Inr \<lparr>up_Name = p + o1, up_NameSize = NameSize, up_Guid = p + o2, up_Attributes = Attributes,
          up_DataSize = DSize, up_Data = p + o5, up_SizeUsed = o6\<rparr>)"

lemma Unpack_Inr:
  "UnpackVariableFromBuffer m p n = Inr u \<Longrightarrow>
     up_Name u = p + 4 \<and> up_NameSize u = load_le m p 4 \<and> up_Guid u = up_Name u + up_NameSize u \<and>
     up_Attributes u = load_le m (up_Guid u + 16) 4 \<and> up_DataSize u = load_le m (up_Guid u + 20) 4 \<and>
     up_Data u = up_Guid u + 24 \<and> up_SizeUsed u = 28 + up_NameSize u + up_DataSize u \<and>
     up_SizeUsed u \<le> n"
  by (auto simp: UnpackVariableFromBuffer_def Let_def ac_simps split: if_splits)

text \<open>
  \<open>AlignedNameMaxSize\<close> is initialised to zero and never updated, so every
  non-empty name is copied to a freshly allocated block.
\<close>

definition AlignedNameMaxSize :: nat where
  "AlignedNameMaxSize = 0"

function IterateVariablesLoop ::
  "'w pool_ops \<Rightarrow> 'w variable_callback \<Rightarrow> mem \<Rightarrow> nat \<Rightarrow> nat \<Rightarrow> EFI_STATUS \<Rightarrow> nat \<Rightarrow> u8 list option \<Rightarrow> 'w
   \<Rightarrow> ((EFI_STATUS \<times> 'w) + (EFI_STATUS \<times> nat \<times> u8 list option \<times> 'w)) checked" where
  "IterateVariablesLoop pool cb m buf MaxSize Status TotalSizeUsed AlignedName w =
    (if EFI_ERROR Status \<or> \<not> TotalSizeUsed < MaxSize then Ok (Inr (Status, TotalSizeUsed, AlignedName, w))
     else case UnpackVariableFromBuffer m (buf + TotalSizeUsed) (MaxSize - TotalSizeUsed) of
       Inl e \<Rightarrow> Ok (Inl (e, w))
     | Inr u \<Rightarrow>
         (case (if up_NameSize u > AlignedNameMaxSize
                then AllocatePool pool (up_NameSize u) (if AlignedName \<noteq> None then FreePool pool w else w)
                else (AlignedName, w)) of
            (None, w1) \<Rightarrow> Ok (Inl (EFI_OUT_OF_RESOURCES, w1))
          | (Some blk, w1) \<Rightarrow>
              (let nm = load_bytes m (up_Name u) (up_NameSize u) @ drop (up_NameSize u) blk
               in chk_bind (cb w1 nm (load_bytes m (up_Guid u) 16) (of_nat (up_Attributes u))
                               (load_bytes m (up_Data u) (up_DataSize u)))
                    (\<lambda>(st, w2). IterateVariablesLoop pool cb m buf MaxSize st
                                  (TotalSizeUsed + up_SizeUsed u) (Some nm) w2))))"
  by pat_completeness auto
termination
  by (relation "measure (\<lambda>(pool, cb, m, buf, MaxSize, Status, TotalSizeUsed, AlignedName, w). MaxSize - TotalSizeUsed)")
     (auto dest: Unpack_Inr)

declare IterateVariablesLoop.simps [simp del]

definition IterateVariablesInBuffer ::
  "'w pool_ops \<Rightarrow> 'w variable_callback \<Rightarrow> mem \<Rightarrow> nat \<Rightarrow> nat \<Rightarrow> 'w \<Rightarrow> (EFI_STATUS \<times> 'w) checked" where
  "IterateVariablesInBuffer pool cb m buf MaxSize w =
     chk_bind (IterateVariablesLoop pool cb m buf MaxSize EFI_SUCCESS 0 None w)
       (\<lambda>r. case r of
          Inl (st, w1) \<Rightarrow> Ok (st, w1)
        | Inr (st, TotalSizeUsed, AlignedName, w1) \<Rightarrow>
            (let w2 = (if AlignedName \<noteq> None then FreePool pool w1 else w1)
             in if TotalSizeUsed \<noteq> MaxSize then Ok (EFI_INVALID_PARAMETER, w2) else Ok (EFI_SUCCESS, w2)))"

definition IterateVariablesCallbackNop :: "'w variable_callback" where
  "IterateVariablesCallbackNop w nm guid attr dat = Ok (EFI_SUCCESS, w)"

section \<open>Writing records\<close>

text \<open>Sums of sizes of blocks that are in memory stay far below \<open>2^64\<close> and are not reduced.\<close>

definition EnsureExtraBufferSpace ::
  "'h pool_ops \<Rightarrow> SV_INSTANCE \<Rightarrow> nat \<Rightarrow> 'h \<Rightarrow> EFI_STATUS \<times> SV_INSTANCE \<times> 'h" where
  "EnsureExtraBufferSpace pool Instance Size h =
    (let NewSize = DataSize Instance + Size
     in if NewSize \<le> BufferSize Instance then (EFI_SUCCESS, Instance, h)
        else
          let NewSize2 = 2 * NewSize
          in case AllocatePool pool NewSize2 h of
               (None, h1) \<Rightarrow> (EFI_OUT_OF_RESOURCES, Instance, h1)
             | (Some NewBuffer, h1) \<Rightarrow>
                 (case BufferPtr Instance of
                    None \<Rightarrow>
                      (EFI_SUCCESS, Instance\<lparr>BufferPtr := Some NewBuffer, BufferSize := NewSize2\<rparr>, h1)
                  | Some old \<Rightarrow>
                      (EFI_SUCCESS,
                       Instance\<lparr>BufferPtr := Some (take (DataSize Instance) old @
                                                   drop (DataSize Instance) NewBuffer),
                                BufferSize := NewSize2\<rparr>,
                       FreePool pool h1)))"

text \<open>\<open>Data\<close> is \<open>None\<close> for a \<open>NULL\<close> pointer; \<open>Some bs\<close> are the bytes it points to.\<close>

definition AppendToBuffer :: "SV_INSTANCE \<Rightarrow> u8 list option \<Rightarrow> nat \<Rightarrow> SV_INSTANCE checked" where
  "AppendToBuffer Instance Data Size =
    (case Data of
       None \<Rightarrow> AssertFailed
     | Some bs \<Rightarrow>
         let NewSize = DataSize Instance + Size
         in if \<not> DataSize Instance + Size \<le> BufferSize Instance then AssertFailed
            else if length bs < Size then OutOfBounds
            else Ok (Instance\<lparr>BufferPtr := map_option (\<lambda>buf. take (DataSize Instance) buf @ take Size bs @
                                             drop NewSize buf) (BufferPtr Instance),
                              DataSize := NewSize\<rparr>))"

definition SV_FROM_HANDLE :: "SV_INSTANCE \<Rightarrow> SV_INSTANCE checked" where
  "SV_FROM_HANDLE h = (if Signature h = SV_SIGNATURE then Ok h else AssertFailed)"

definition SerializeVariablesNewInstance :: "SV_INSTANCE" where
  "SerializeVariablesNewInstance =
     \<lparr>Signature = SV_SIGNATURE, BufferPtr = None, BufferSize = 0, DataSize = 0\<rparr>"

text \<open>
  The six appends of \<open>SerializeVariablesAddVariable\<close>.  The parameter check at
  its top has an empty body, so it is not visible here; a \<open>NULL\<close> name fails the
  assertion in \<open>StrSize\<close>.
\<close>

definition SerializeVariablesAddVariable ::
  "'h pool_ops \<Rightarrow> SV_INSTANCE \<Rightarrow> u8 list option \<Rightarrow> u8 list option \<Rightarrow> u32 \<Rightarrow> nat \<Rightarrow> u8 list option \<Rightarrow> 'h
   \<Rightarrow> (EFI_STATUS \<times> SV_INSTANCE \<times> 'h) checked" where
  "SerializeVariablesAddVariable pool Handle VariableName VendorGuid Attributes DSize Data h =
    chk_bind (SV_FROM_HANDLE Handle) (\<lambda>Instance.
     case VariableName of
       None \<Rightarrow> AssertFailed
     | Some nm \<Rightarrow>
        (case StrSize nm of
           None \<Rightarrow> OutOfBounds
         | Some ssz \<Rightarrow>
            (let SerializedNameSize = ssz mod 2 ^ 32;
                 SerializedSize = 4 + SerializedNameSize + 16 + 4 + 4 + DSize
             in case EnsureExtraBufferSpace pool Instance SerializedSize h of
                  (Status, I1, h1) \<Rightarrow>
                    if EFI_ERROR Status then Ok (Status, I1, h1)
                    else
                      chk_bind (AppendToBuffer I1 (Some (le_bytes 4 SerializedNameSize)) 4) (\<lambda>I2.
                      chk_bind (AppendToBuffer I2 VariableName SerializedNameSize) (\<lambda>I3.
                      chk_bind (AppendToBuffer I3 VendorGuid 16) (\<lambda>I4.
                      chk_bind (AppendToBuffer I4 (Some (le_bytes 4 (unat Attributes))) 4) (\<lambda>I5.
                      chk_bind (AppendToBuffer I5 (Some (le_bytes 4 DSize)) 4) (\<lambda>I6.
                      chk_bind (AppendToBuffer I6 Data DSize) (\<lambda>I7.
                        Ok (EFI_SUCCESS, I7, h1)))))))))) "

definition SerializeVariablesFreeInstance ::
  "'h pool_ops \<Rightarrow> SV_INSTANCE \<Rightarrow> 'h \<Rightarrow> (EFI_STATUS \<times> SV_INSTANCE \<times> 'h) checked" where
  "SerializeVariablesFreeInstance pool Handle h =
    chk_bind (SV_FROM_HANDLE Handle) (\<lambda>Instance.
      if Signature Instance \<noteq> SV_SIGNATURE then Ok (EFI_INVALID_PARAMETER, Instance, h)
      else
        let I1 = Instance\<lparr>Signature := 0\<rparr>;
            h1 = (if BufferPtr I1 \<noteq> None then FreePool pool h else h)
        in Ok (EFI_SUCCESS, I1, FreePool pool h1))"

section \<open>Instances from and to buffers\<close>

text \<open>The callback context of \<open>IterateVariablesCallbackSetInInstance\<close> is the instance.\<close>

definition pool_with :: "'h pool_ops \<Rightarrow> ('i \<times> 'h) pool_ops" where
  "pool_with pool =
     \<lparr>AllocatePool = (\<lambda>n (i, h). case AllocatePool pool n h of (r, h1) \<Rightarrow> (r, (i, h1))),
      FreePool = (\<lambda>(i, h). (i, FreePool pool h))\<rparr>"

definition IterateVariablesCallbackSetInInstance ::
  "'h pool_ops \<Rightarrow> (SV_INSTANCE \<times> 'h) variable_callback" where
  "IterateVariablesCallbackSetInInstance pool w nm guid attr dat =
     (case w of (Instance, h) \<Rightarrow>
        chk_bind (SerializeVariablesAddVariable pool Instance (Some nm) (Some guid) attr (length dat) (Some dat) h)
          (\<lambda>(st, I1, h1). Ok (st, (I1, h1))))"

definition SerializeVariablesNewInstanceFromBuffer ::
  "'h pool_ops \<Rightarrow> mem \<Rightarrow> nat \<Rightarrow> nat \<Rightarrow> 'h \<Rightarrow> (EFI_STATUS \<times> SV_INSTANCE option \<times> 'h) checked" where
  "SerializeVariablesNewInstanceFromBuffer pool m buf Size h =
    (case AllocatePool pool 32 h of
       (None, h0) \<Rightarrow> Ok (EFI_OUT_OF_RESOURCES, None, h0)
     | (Some _, h0) \<Rightarrow>
        (let New = SerializeVariablesNewInstance
         in chk_bind (IterateVariablesInBuffer pool IterateVariablesCallbackNop m buf Size h0) (\<lambda>(st1, h1).
            if EFI_ERROR st1 then
              chk_bind (SerializeVariablesFreeInstance pool New h1) (\<lambda>(_, _, h2). Ok (st1, None, h2))
            else
              chk_bind (IterateVariablesInBuffer (pool_with pool) (IterateVariablesCallbackSetInInstance pool)
                          m buf Size (New, h1)) (\<lambda>(st2, I2, h2).
              if EFI_ERROR st2 then
                chk_bind (SerializeVariablesFreeInstance pool I2 h2) (\<lambda>(_, _, h3). Ok (st2, None, h3))
              else Ok (st2, Some I2, h2)))))"

definition SerializeVariablesIterateInstanceVariables ::
  "'w pool_ops \<Rightarrow> SV_INSTANCE \<Rightarrow> 'w variable_callback \<Rightarrow> 'w \<Rightarrow> (EFI_STATUS \<times> 'w) checked" where
  "SerializeVariablesIterateInstanceVariables pool Handle cb w =
    chk_bind (SV_FROM_HANDLE Handle) (\<lambda>Instance.
      case BufferPtr Instance of
        Some buf \<Rightarrow>
          if DataSize Instance \<noteq> 0
          then IterateVariablesInBuffer pool cb (store_bytes (\<lambda>_. 0) 0 buf) 0 (DataSize Instance) w
          else Ok (EFI_SUCCESS, w)
      | None \<Rightarrow> Ok (EFI_SUCCESS, w))"

text \<open>\<open>gRT->SetVariable\<close> is an argument; the callback forgives two of its errors.\<close>

definition EFI_VARIABLE_AUTH_MASK :: u32 where
  "EFI_VARIABLE_AUTH_MASK = or 0x10 0x20"

definition IterateVariablesCallbackSetSystemVariable ::
  "('w \<Rightarrow> u8 list \<Rightarrow> u8 list \<Rightarrow> u32 \<Rightarrow> u8 list \<Rightarrow> EFI_STATUS \<times> 'w) \<Rightarrow> 'w variable_callback" where
  "IterateVariablesCallbackSetSystemVariable SetVariable w nm guid attr dat =
     (case SetVariable w nm guid attr dat of (Status, w1) \<Rightarrow>
        if Status = EFI_SECURITY_VIOLATION \<and> and attr EFI_VARIABLE_AUTH_MASK \<noteq> 0 then Ok (EFI_SUCCESS, w1)
        else if Status = EFI_WRITE_PROTECTED then Ok (EFI_SUCCESS, w1)
        else Ok (Status, w1))"

definition SerializeVariablesSetSerializedVariables ::
  "'w pool_ops \<Rightarrow> ('w \<Rightarrow> u8 list \<Rightarrow> u8 list \<Rightarrow> u32 \<Rightarrow> u8 list \<Rightarrow> EFI_STATUS \<times> 'w) \<Rightarrow> SV_INSTANCE \<Rightarrow> 'w
   \<Rightarrow> (EFI_STATUS \<times> 'w) checked" where
  "SerializeVariablesSetSerializedVariables pool SetVariable Handle w =
     SerializeVariablesIterateInstanceVariables pool Handle
       (IterateVariablesCallbackSetSystemVariable SetVariable) w"

text \<open>\<open>BufferNull\<close> and \<open>Size = None\<close> are the \<open>NULL\<close> arguments; the result carries the
  returned size and the bytes copied to the caller's buffer.\<close>

definition SerializeVariablesToBuffer ::
  "SV_INSTANCE \<Rightarrow> bool \<Rightarrow> nat option \<Rightarrow> (EFI_STATUS \<times> nat option \<times> u8 list) checked" where
  "SerializeVariablesToBuffer Handle BufferNull Size =
    chk_bind (SV_FROM_HANDLE Handle) (\<lambda>Instance.
      case Size of
        None \<Rightarrow> Ok (EFI_INVALID_PARAMETER, None, [])
      | Some sz \<Rightarrow>
          if sz < DataSize Instance then Ok (EFI_BUFFER_TOO_SMALL, Some (DataSize Instance), [])
          else if BufferNull then Ok (EFI_INVALID_PARAMETER, Some sz, [])
          else Ok (EFI_SUCCESS, Some (DataSize Instance),
                   take (DataSize Instance) (case BufferPtr Instance of None \<Rightarrow> [] | Some b \<Rightarrow> b)))"

section \<open>Iterating the system variables\<close>

text \<open>
  The variable services, as arguments.  \<open>GetNextVariableName\<close> gets the size of the
  name buffer, its contents (\<open>None\<close> for \<open>NULL\<close>) and the GUID and returns the
  status, the updated size, name and GUID.  \<open>GetVariable\<close> gets name, GUID, the
  size of the data buffer and its contents and returns status, attributes, the
  updated size and data.
\<close>

record 'w rt_ops =
  GetNextVariableName :: "nat \<Rightarrow> u8 list option \<Rightarrow> u8 list \<Rightarrow> 'w \<Rightarrow> EFI_STATUS \<times> nat \<times> u8 list option \<times> u8 list \<times> 'w"
  GetVariable :: "u8 list option \<Rightarrow> u8 list \<Rightarrow> nat \<Rightarrow> u8 list option \<Rightarrow> 'w
                  \<Rightarrow> EFI_STATUS \<times> u32 \<times> nat \<times> u8 list option \<times> 'w"

definition IterateSystem_NextName ::
  "'w rt_ops \<Rightarrow> 'w pool_ops \<Rightarrow> u8 list option \<Rightarrow> nat \<Rightarrow> u8 list \<Rightarrow> 'w
   \<Rightarrow> EFI_STATUS \<times> u8 list option \<times> nat \<times> u8 list \<times> 'w" where
  "IterateSystem_NextName rt pool VariableName VariableNameBufferSize VendorGuid w =
    (case GetNextVariableName rt VariableNameBufferSize VariableName VendorGuid w of
       (Status, VariableNameSize, nm1, g1, w1) \<Rightarrow>
         if Status = EFI_BUFFER_TOO_SMALL then
           (case AllocatePool pool VariableNameSize w1 of
              (None, w2) \<Rightarrow> (EFI_OUT_OF_RESOURCES, nm1, VariableNameBufferSize, g1, w2)
            | (Some NewBuffer, w2) \<Rightarrow>
                (let NewBuffer1 = take VariableNameBufferSize (case nm1 of None \<Rightarrow> [] | Some b \<Rightarrow> b) @
                                  drop VariableNameBufferSize NewBuffer;
                     w3 = (if nm1 \<noteq> None then FreePool pool w2 else w2)
                 in case GetNextVariableName rt VariableNameSize (Some NewBuffer1) g1 w3 of
                      (Status2, _, nm2, g2, w4) \<Rightarrow> (Status2, nm2, VariableNameSize, g2, w4)))
         else (Status, nm1, VariableNameBufferSize, g1, w1))"

definition IterateSystem_GetData ::
  "'w rt_ops \<Rightarrow> 'w pool_ops \<Rightarrow> u8 list option \<Rightarrow> u8 list \<Rightarrow> u8 list option \<Rightarrow> nat \<Rightarrow> 'w
   \<Rightarrow> EFI_STATUS \<times> u32 \<times> u8 list option \<times> nat \<times> nat \<times> 'w" where
  "IterateSystem_GetData rt pool VariableName VendorGuid VariableData VariableDataBufferSize w =
    (case GetVariable rt VariableName VendorGuid VariableDataBufferSize VariableData w of
       (Status, attr, VariableDataSize, dat1, w1) \<Rightarrow>
         if Status = EFI_BUFFER_TOO_SMALL then
           (let w2 = (if VariableDataBufferSize \<noteq> 0 then FreePool pool w1 else w1);
                bsz = 0
            in case AllocatePool pool VariableDataSize w2 of
                 (None, w3) \<Rightarrow> (EFI_OUT_OF_RESOURCES, attr, None, bsz, VariableDataSize, w3)
               | (Some b, w3) \<Rightarrow>
                   (case GetVariable rt VariableName VendorGuid VariableDataSize (Some b) w3 of
                      (Status2, attr2, sz2, dat2, w4) \<Rightarrow> (Status2, attr2, dat2, VariableDataSize, sz2, w4)))
         else (Status, attr, dat1, VariableDataBufferSize, VariableDataSize, w1))"

definition IterateSystem_exit ::
  "'w pool_ops \<Rightarrow> EFI_STATUS \<Rightarrow> u8 list option \<Rightarrow> u8 list option \<Rightarrow> 'w \<Rightarrow> EFI_STATUS \<times> 'w" where
  "IterateSystem_exit pool Status VariableName VariableData w =
    (let w1 = (if VariableName \<noteq> None then FreePool pool w else w);
         w2 = (if VariableData \<noteq> None then FreePool pool w1 else w1)
     in (Status, w2))"

partial_function (option) IterateSystem_loop ::
  "'w rt_ops \<Rightarrow> 'w pool_ops \<Rightarrow> 'w variable_callback \<Rightarrow> u8 list option \<Rightarrow> nat \<Rightarrow> u8 list \<Rightarrow> u8 list option \<Rightarrow> nat \<Rightarrow> 'w
   \<Rightarrow> (EFI_STATUS \<times> 'w) checked option" where
  "IterateSystem_loop rt pool cb nm nmsz guid dat dsz w =
    (case IterateSystem_NextName rt pool nm nmsz guid w of (Status, nm1, nmsz1, g1, w1) \<Rightarrow>
     if EFI_ERROR Status then
       Some (Ok (IterateSystem_exit pool (if Status = EFI_NOT_FOUND then EFI_SUCCESS else Status) nm1 dat w1))
     else
       case IterateSystem_GetData rt pool nm1 g1 dat dsz w1 of (Status2, attr, dat1, dsz1, sz, w2) \<Rightarrow>
       if EFI_ERROR Status2 then Some (Ok (IterateSystem_exit pool Status2 nm1 dat1 w2))
       else
         case cb w2 (case nm1 of None \<Rightarrow> [] | Some b \<Rightarrow> b) g1 attr
                (take sz (case dat1 of None \<Rightarrow> [] | Some b \<Rightarrow> b)) of
           AssertFailed \<Rightarrow> Some AssertFailed
         | OutOfBounds \<Rightarrow> Some OutOfBounds
         | Ok r \<Rightarrow>
             if EFI_ERROR (fst r) then Some (Ok (IterateSystem_exit pool (fst r) nm1 dat1 (snd r)))
             else IterateSystem_loop rt pool cb nm1 nmsz1 g1 dat1 dsz1 (snd r))"

text \<open>\<open>AllocateZeroPool\<close> of the initial one-character name; the GUID starts uninitialised.\<close>

definition SerializeVariablesIterateSystemVariables ::
  "'w rt_ops \<Rightarrow> 'w pool_ops \<Rightarrow> u8 list \<Rightarrow> 'w variable_callback \<Rightarrow> 'w \<Rightarrow> (EFI_STATUS \<times> 'w) checked option" where
  "SerializeVariablesIterateSystemVariables rt pool guid0 cb w =
    (case AllocatePool pool 2 w of (b, w1) \<Rightarrow>
       IterateSystem_loop rt pool cb (map_option (\<lambda>_. [0, 0]) b) 2 guid0 None 0 w1)"

section \<open>The record format\<close>

record sv_var =
  sv_name :: "u8 list"
  sv_guid :: "u8 list"
  sv_attr :: u32
  sv_dat :: "u8 list"

definition enc_var :: "sv_var \<Rightarrow> u8 list" where
  "enc_var v = le_bytes 4 (length (sv_name v)) @ sv_name v @ sv_guid v @
     le_bytes 4 (unat (sv_attr v)) @ le_bytes 4 (length (sv_dat v)) @ sv_dat v"

definition wf_var :: "sv_var \<Rightarrow> bool" where
  "wf_var v \<longleftrightarrow> StrSize (sv_name v) = Some (length (sv_name v)) \<and> length (sv_name v) < 2 ^ 32 \<and>
     length (sv_guid v) = 16 \<and> length (sv_dat v) < 2 ^ 32"

definition dec_var :: "mem \<Rightarrow> nat \<Rightarrow> nat \<Rightarrow> (sv_var \<times> nat) option" where
  "dec_var m p n =
    (case UnpackVariableFromBuffer m p n of
       Inl _ \<Rightarrow> None
     | Inr u \<Rightarrow> Some (\<lparr>sv_name = load_bytes m (up_Name u) (up_NameSize u), sv_guid = load_bytes m (up_Guid u) 16,
                       sv_attr = of_nat (up_Attributes u), sv_dat = load_bytes m (up_Data u) (up_DataSize u)\<rparr>,
                     up_SizeUsed u))"

lemma StrSize_ge2: "StrSize bs = Some n \<Longrightarrow> 2 \<le> n \<and> n \<le> length bs"
  by (induction bs arbitrary: n rule: StrSize.induct) (auto split: if_splits)

lemma length_enc_var:
  "wf_var v \<Longrightarrow> length (enc_var v) = 28 + length (sv_name v) + length (sv_dat v)"
  by (simp add: enc_var_def wf_var_def)

lemma load_bytes_split:
  assumes "load_bytes m p (length (xs @ ys)) = xs @ ys"
  shows "load_bytes m p (length xs) = xs \<and> load_bytes m (p + length xs) (length ys) = ys"
  using assms by (simp add: load_bytes_append append_eq_append_conv)

lemma load_bytes_prefix: "load_bytes m p (length xs + k) = xs @ ys \<Longrightarrow> load_bytes m p (length xs) = xs"
  using load_bytes_take [of "length xs" "length xs + k" m p] by (metis append_eq_conv_conj le_add1)

lemma Unpack_enc:
  assumes wf: "wf_var v" and n: "length (enc_var v) \<le> n" and mem: "load_bytes m p (length (enc_var v)) = enc_var v"
  shows "UnpackVariableFromBuffer m p n =
     Inr \<lparr>up_Name = p + 4, up_NameSize = length (sv_name v), up_Guid = p + 4 + length (sv_name v),
          up_Attributes = unat (sv_attr v), up_DataSize = length (sv_dat v),
          up_Data = p + 28 + length (sv_name v), up_SizeUsed = length (enc_var v)\<rparr>"
    and "load_bytes m (p + 4) (length (sv_name v)) = sv_name v"
    and "load_bytes m (p + 4 + length (sv_name v)) 16 = sv_guid v"
    and "load_bytes m (p + 28 + length (sv_name v)) (length (sv_dat v)) = sv_dat v"
proof -
  let ?k = "length (sv_name v)"
  note wfs = wf [unfolded wf_var_def]
  from load_bytes_split [OF mem [unfolded enc_var_def]]
  have ns: "load_bytes m p 4 = le_bytes 4 ?k"
    and r1: "load_bytes m (p + 4) (length (sv_name v @ sv_guid v @ le_bytes 4 (unat (sv_attr v)) @ le_bytes 4 (length (sv_dat v)) @ sv_dat v))
             = sv_name v @ sv_guid v @ le_bytes 4 (unat (sv_attr v)) @ le_bytes 4 (length (sv_dat v)) @ sv_dat v"
    by simp_all
  from load_bytes_split [OF r1]
  show nm: "load_bytes m (p + 4) ?k = sv_name v" by simp
  from load_bytes_split [OF r1]
  have r2: "load_bytes m (p + 4 + ?k) (length (sv_guid v @ le_bytes 4 (unat (sv_attr v)) @ le_bytes 4 (length (sv_dat v)) @ sv_dat v))
             = sv_guid v @ le_bytes 4 (unat (sv_attr v)) @ le_bytes 4 (length (sv_dat v)) @ sv_dat v"
    by simp
  from load_bytes_split [OF r2] wfs
  show gd: "load_bytes m (p + 4 + ?k) 16 = sv_guid v" by simp
  from load_bytes_split [OF r2] wfs
  have r3: "load_bytes m (p + 20 + ?k) (length (le_bytes 4 (unat (sv_attr v)) @ le_bytes 4 (length (sv_dat v)) @ sv_dat v))
             = le_bytes 4 (unat (sv_attr v)) @ le_bytes 4 (length (sv_dat v)) @ sv_dat v"
    by (simp add: ac_simps)
  from load_bytes_split [OF r3]
  have at: "load_bytes m (p + 20 + ?k) 4 = le_bytes 4 (unat (sv_attr v))"
    and r4: "load_bytes m (p + 24 + ?k) (length (le_bytes 4 (length (sv_dat v)) @ sv_dat v)) = le_bytes 4 (length (sv_dat v)) @ sv_dat v"
    by (simp_all add: ac_simps)
  from load_bytes_split [OF r4]
  have ds: "load_bytes m (p + 24 + ?k) 4 = le_bytes 4 (length (sv_dat v))"
    and dt: "load_bytes m (p + 28 + ?k) (length (sv_dat v)) = sv_dat v"
    by (simp_all add: ac_simps)
  show "load_bytes m (p + 28 + ?k) (length (sv_dat v)) = sv_dat v" by (rule dt)
  have l: "load_le m p 4 = ?k" "load_le m (p + 20 + ?k) 4 = unat (sv_attr v)" "load_le m (p + 24 + ?k) 4 = length (sv_dat v)"
    using ns at ds wfs by (simp_all add: load_le_def le_val_small)
  show "UnpackVariableFromBuffer m p n =
     Inr \<lparr>up_Name = p + 4, up_NameSize = ?k, up_Guid = p + 4 + ?k, up_Attributes = unat (sv_attr v),
          up_DataSize = length (sv_dat v), up_Data = p + 28 + ?k, up_SizeUsed = length (enc_var v)\<rparr>"
    using n l unfolding length_enc_var [OF wf] UnpackVariableFromBuffer_def Let_def
    by (simp add: ac_simps)
qed

interpretation sv_codec: byte_codec enc_var dec_var wf_var
proof unfold_locales
  fix v n m p
  assume a: "wf_var v" "length (enc_var v) \<le> n" "load_bytes m p (length (enc_var v)) = enc_var v"
  show "dec_var m p n = Some (v, length (enc_var v))"
    using Unpack_enc [OF a] by (simp add: dec_var_def)
next
  show "enc_var v \<noteq> []" for v by (simp add: enc_var_def flip: length_greater_0_conv)
qed

section \<open>Appending keeps the buffer well formed\<close>

definition sv_inv :: "SV_INSTANCE \<Rightarrow> bool" where
  "sv_inv I \<longleftrightarrow> Signature I = SV_SIGNATURE \<and> DataSize I \<le> BufferSize I \<and>
     (case BufferPtr I of None \<Rightarrow> BufferSize I = 0 | Some b \<Rightarrow> length b = BufferSize I)"

text \<open>The abstract value of an instance: the bytes serialized so far.\<close>

definition sv_data :: "SV_INSTANCE \<Rightarrow> u8 list" where
  "sv_data I = (case BufferPtr I of None \<Rightarrow> [] | Some b \<Rightarrow> take (DataSize I) b)"

lemma sv_inv_new: "sv_inv SerializeVariablesNewInstance"
  and sv_data_new: "sv_data SerializeVariablesNewInstance = []"
  by (simp_all add: sv_inv_def sv_data_def SerializeVariablesNewInstance_def)

lemma length_sv_data: "sv_inv I \<Longrightarrow> length (sv_data I) = DataSize I"
  by (auto simp: sv_inv_def sv_data_def split: option.splits)

lemma AppendToBuffer_ok:
  assumes "sv_inv I" and "DataSize I + length bs \<le> BufferSize I"
  shows "\<exists>I'. AppendToBuffer I (Some (bs @ rest)) (length bs) = Ok I' \<and> sv_inv I' \<and>
           sv_data I' = sv_data I @ bs \<and> BufferSize I' = BufferSize I \<and> DataSize I' = DataSize I + length bs"
  using assms
  by (auto simp: AppendToBuffer_def Let_def sv_inv_def sv_data_def split: option.splits)

lemma EnsureExtraBufferSpace_spec:
  assumes "sv_inv I" and "pool_sizes_ok pool" and "EnsureExtraBufferSpace pool I n h = (st, I', h')"
  shows "(st = EFI_SUCCESS \<and> sv_inv I' \<and> sv_data I' = sv_data I \<and> DataSize I' = DataSize I \<and>
            DataSize I + n \<le> BufferSize I') \<or>
         (st = EFI_OUT_OF_RESOURCES \<and> I' = I \<and> fst (AllocatePool pool (2 * (DataSize I + n)) h) = None)"
proof -
  have "length b = k" if "AllocatePool pool k h = (Some b, h1)" for b k h1
    using that assms(2) unfolding pool_sizes_ok_def by blast
  then show ?thesis
    using assms(1,3)
    by (auto simp: EnsureExtraBufferSpace_def Let_def sv_inv_def sv_data_def
        split: option.splits if_splits prod.splits)
qed

text \<open>The five appends before the data write the record header.\<close>

definition enc_header :: "sv_var \<Rightarrow> u32 \<Rightarrow> nat \<Rightarrow> u8 list" where
  "enc_header v attr n = le_bytes 4 (length (sv_name v)) @ sv_name v @ sv_guid v @ le_bytes 4 (unat attr) @ le_bytes 4 n"

lemma append_header:
  assumes inv: "sv_inv I" and wf: "wf_var v" and space: "DataSize I + 28 + length (sv_name v) \<le> BufferSize I"
  obtains J where "sv_inv J" "sv_data J = sv_data I @ enc_header v attr n" "BufferSize J = BufferSize I"
    "DataSize J = DataSize I + 28 + length (sv_name v)"
    "\<And>f. chk_bind (AppendToBuffer I (Some (le_bytes 4 (length (sv_name v)))) 4) (\<lambda>I2.
          chk_bind (AppendToBuffer I2 (Some (sv_name v)) (length (sv_name v))) (\<lambda>I3.
          chk_bind (AppendToBuffer I3 (Some (sv_guid v)) 16) (\<lambda>I4.
          chk_bind (AppendToBuffer I4 (Some (le_bytes 4 (unat attr))) 4) (\<lambda>I5.
          chk_bind (AppendToBuffer I5 (Some (le_bytes 4 n)) 4) f)))) = f J"
proof -
  let ?k = "length (sv_name v)"
  have g: "length (sv_guid v) = 16" using wf by (simp add: wf_var_def)
  obtain I2 where 2: "AppendToBuffer I (Some (le_bytes 4 ?k)) 4 = Ok I2" "sv_inv I2"
    "sv_data I2 = sv_data I @ le_bytes 4 ?k" "BufferSize I2 = BufferSize I" "DataSize I2 = DataSize I + 4"
    using AppendToBuffer_ok [OF inv, of "le_bytes 4 ?k" "[]"] space by auto
  obtain I3 where 3: "AppendToBuffer I2 (Some (sv_name v)) ?k = Ok I3" "sv_inv I3"
    "sv_data I3 = sv_data I2 @ sv_name v" "BufferSize I3 = BufferSize I" "DataSize I3 = DataSize I + 4 + ?k"
    using AppendToBuffer_ok [OF 2(2), of "sv_name v" "[]"] space 2 by auto
  obtain I4 where 4: "AppendToBuffer I3 (Some (sv_guid v)) 16 = Ok I4" "sv_inv I4"
    "sv_data I4 = sv_data I3 @ sv_guid v" "BufferSize I4 = BufferSize I" "DataSize I4 = DataSize I + 20 + ?k"
    using AppendToBuffer_ok [OF 3(2), of "sv_guid v" "[]"] space 3 g by auto
  obtain I5 where 5: "AppendToBuffer I4 (Some (le_bytes 4 (unat attr))) 4 = Ok I5" "sv_inv I5"
    "sv_data I5 = sv_data I4 @ le_bytes 4 (unat attr)" "BufferSize I5 = BufferSize I" "DataSize I5 = DataSize I + 24 + ?k"
    using AppendToBuffer_ok [OF 4(2), of "le_bytes 4 (unat attr)" "[]"] space 4 by auto
  obtain I6 where 6: "AppendToBuffer I5 (Some (le_bytes 4 n)) 4 = Ok I6" "sv_inv I6"
    "sv_data I6 = sv_data I5 @ le_bytes 4 n" "BufferSize I6 = BufferSize I" "DataSize I6 = DataSize I + 28 + ?k"
    using AppendToBuffer_ok [OF 5(2), of "le_bytes 4 n" "[]"] space 5 by auto
  show ?thesis
    by (rule that [of I6]) (use 2 3 4 5 6 in \<open>simp_all add: enc_header_def\<close>)
qed

lemma AddVariable_unfold:
  assumes "sv_inv I" and "wf_var v"
    and "EnsureExtraBufferSpace pool I (28 + length (sv_name v) + n) h = (st, I1, h1)"
  shows "SerializeVariablesAddVariable pool I (Some (sv_name v)) (Some (sv_guid v)) attr n dat h =
    (if EFI_ERROR st then Ok (st, I1, h1)
     else chk_bind (AppendToBuffer I1 (Some (le_bytes 4 (length (sv_name v)))) 4) (\<lambda>I2.
          chk_bind (AppendToBuffer I2 (Some (sv_name v)) (length (sv_name v))) (\<lambda>I3.
          chk_bind (AppendToBuffer I3 (Some (sv_guid v)) 16) (\<lambda>I4.
          chk_bind (AppendToBuffer I4 (Some (le_bytes 4 (unat attr))) 4) (\<lambda>I5.
          chk_bind (AppendToBuffer I5 (Some (le_bytes 4 n)) 4) (\<lambda>I6.
          chk_bind (AppendToBuffer I6 dat n) (\<lambda>I7. Ok (EFI_SUCCESS, I7, h1))))))))"
  using assms by (simp add: SerializeVariablesAddVariable_def SV_FROM_HANDLE_def sv_inv_def wf_var_def Let_def)

lemma AddVariable_spec:
  fixes h :: 'h
  assumes inv: "sv_inv I" and pool: "pool_sizes_ok pool" and wf: "wf_var v"
  shows "\<exists>st I' h'. SerializeVariablesAddVariable pool I (Some (sv_name v)) (Some (sv_guid v)) (sv_attr v)
             (length (sv_dat v)) (Some (sv_dat v)) h = Ok (st, I', h') \<and>
           ((st = EFI_SUCCESS \<and> sv_inv I' \<and> sv_data I' = sv_data I @ enc_var v) \<or>
            (st = EFI_OUT_OF_RESOURCES \<and> I' = I \<and>
             fst (AllocatePool pool (2 * (DataSize I + (28 + length (sv_name v) + length (sv_dat v)))) h) = None))"
proof -
  let ?n = "28 + length (sv_name v) + length (sv_dat v)"
  obtain st I1 h1 where e: "EnsureExtraBufferSpace pool I ?n h = (st, I1, h1)" by (cases "EnsureExtraBufferSpace pool I ?n h") auto
  note unf = AddVariable_unfold [OF inv wf e, of "sv_attr v" "Some (sv_dat v)"]
  from EnsureExtraBufferSpace_spec [OF inv pool e] show ?thesis
  proof
    assume ok: "st = EFI_SUCCESS \<and> sv_inv I1 \<and> sv_data I1 = sv_data I \<and> DataSize I1 = DataSize I \<and>
                DataSize I + ?n \<le> BufferSize I1"
    then have i1: "sv_inv I1" and sp: "DataSize I1 + 28 + length (sv_name v) \<le> BufferSize I1"
      and st: "\<not> EFI_ERROR st" by auto
    obtain J where J: "sv_inv J" "sv_data J = sv_data I1 @ enc_header v (sv_attr v) (length (sv_dat v))"
      "BufferSize J = BufferSize I1" "DataSize J = DataSize I1 + 28 + length (sv_name v)"
      and hd: "\<And>f :: SV_INSTANCE \<Rightarrow> (EFI_STATUS \<times> SV_INSTANCE \<times> 'h) checked. chk_bind (AppendToBuffer I1 (Some (le_bytes 4 (length (sv_name v)))) 4) (\<lambda>I2.
          chk_bind (AppendToBuffer I2 (Some (sv_name v)) (length (sv_name v))) (\<lambda>I3.
          chk_bind (AppendToBuffer I3 (Some (sv_guid v)) 16) (\<lambda>I4.
          chk_bind (AppendToBuffer I4 (Some (le_bytes 4 (unat (sv_attr v)))) 4) (\<lambda>I5.
          chk_bind (AppendToBuffer I5 (Some (le_bytes 4 (length (sv_dat v)))) 4) f)))) = f J"
      by (rule append_header [OF i1 wf sp, of "sv_attr v" "length (sv_dat v)"]) blast
    have b: "SerializeVariablesAddVariable pool I (Some (sv_name v)) (Some (sv_guid v)) (sv_attr v)
             (length (sv_dat v)) (Some (sv_dat v)) h =
             chk_bind (AppendToBuffer J (Some (sv_dat v)) (length (sv_dat v))) (\<lambda>I7. Ok (EFI_SUCCESS, I7, h1))"
      unfolding unf using st by (simp only: if_False hd)
    from AppendToBuffer_ok [OF J(1), of "sv_dat v" "[]"] J ok obtain K where
      "AppendToBuffer J (Some (sv_dat v)) (length (sv_dat v)) = Ok K" "sv_inv K" "sv_data K = sv_data J @ sv_dat v"
      by auto
    then show ?thesis using b J(2) ok by (simp add: enc_header_def enc_var_def)
  next
    assume "st = EFI_OUT_OF_RESOURCES \<and> I1 = I \<and> fst (AllocatePool pool (2 * (DataSize I + ?n)) h) = None"
    then show ?thesis using unf by simp
  qed
qed

section \<open>Walking a buffer of records\<close>

text \<open>A pool that never runs out.\<close>

definition pool_total :: "'w pool_ops \<Rightarrow> bool" where
  "pool_total pool \<longleftrightarrow> (\<forall>n w. fst (AllocatePool pool n w) \<noteq> None)"

lemma IterateVariablesLoop_step:
  assumes wf: "wf_var v" and pool: "pool_sizes_ok pool"
    and mem: "load_bytes m (buf + T) (length (enc_var v)) = enc_var v" and n: "T + length (enc_var v) \<le> MaxSize"
    and al: "AllocatePool pool (length (sv_name v)) (if al \<noteq> None then FreePool pool w else w) = (Some blk, w1)"
    and cb: "cb w1 (sv_name v) (sv_guid v) (sv_attr v) (sv_dat v) = Ok (st, w2)"
  shows "IterateVariablesLoop pool cb m buf MaxSize EFI_SUCCESS T al w =
         IterateVariablesLoop pool cb m buf MaxSize st (T + length (enc_var v)) (Some (sv_name v)) w2"
proof -
  have "0 < length (sv_name v)" using wf StrSize_ge2 by (fastforce simp: wf_var_def)
  moreover have "length blk = length (sv_name v)" using al pool by (auto simp: pool_sizes_ok_def)
  moreover have "T < MaxSize" and n': "length (enc_var v) \<le> MaxSize - T" using n length_enc_var [OF wf] by auto
  ultimately show ?thesis
    using Unpack_enc [OF wf n' mem] al cb
    by (subst IterateVariablesLoop.simps) (simp add: AlignedNameMaxSize_def)
qed

lemma IterateVariablesLoop_prefix:
  assumes pool: "pool_sizes_ok pool" "pool_total pool"
    and fr: "\<And>xs w. R xs w \<Longrightarrow> R xs (FreePool pool w)"
    and al: "\<And>xs w n. R xs w \<Longrightarrow> R xs (snd (AllocatePool pool n w))"
    and cb: "\<And>xs w v. R xs w \<Longrightarrow> P v \<Longrightarrow>
               \<exists>w'. cb w (sv_name v) (sv_guid v) (sv_attr v) (sv_dat v) = Ok (EFI_SUCCESS, w') \<and> R (xs @ [v]) w'"
    and P: "\<And>v. P v \<Longrightarrow> wf_var v" and wf: "\<And>v. v \<in> set vs \<Longrightarrow> P v"
    and mem: "load_bytes m (buf + T) (length (concat (map enc_var vs))) = concat (map enc_var vs)"
    and n: "T + length (concat (map enc_var vs)) \<le> MaxSize" and R: "R xs w"
  shows "\<exists>a' w'. IterateVariablesLoop pool cb m buf MaxSize EFI_SUCCESS T a w =
           IterateVariablesLoop pool cb m buf MaxSize EFI_SUCCESS (T + length (concat (map enc_var vs))) a' w' \<and>
           R (xs @ vs) w'"
  using wf mem n R
proof (induction vs arbitrary: T a w xs)
  case Nil
  then show ?case by auto
next
  case (Cons v vs)
  let ?n = "length (enc_var v)" and ?E = "concat (map enc_var vs)"
  have s: "load_bytes m (buf + T) ?n = enc_var v" "load_bytes m (buf + (T + ?n)) (length ?E) = ?E"
    using load_bytes_split [of m "buf + T" "enc_var v" ?E] Cons.prems(2) by (simp_all add: ac_simps)
  let ?w0 = "if a \<noteq> None then FreePool pool w else w"
  obtain blk w1 where a1: "AllocatePool pool (length (sv_name v)) ?w0 = (Some blk, w1)"
    using pool(2) unfolding pool_total_def by (metis not_None_eq prod.collapse)
  have "R xs ?w0" using Cons.prems(4) fr by simp
  with al [of xs ?w0 "length (sv_name v)"] a1 have "R xs w1" by simp
  from cb [OF this] Cons.prems(1) [of v] obtain w2 where
    c: "cb w1 (sv_name v) (sv_guid v) (sv_attr v) (sv_dat v) = Ok (EFI_SUCCESS, w2)" and R2: "R (xs @ [v]) w2"
    by auto
  have step: "IterateVariablesLoop pool cb m buf MaxSize EFI_SUCCESS T a w =
        IterateVariablesLoop pool cb m buf MaxSize EFI_SUCCESS (T + ?n) (Some (sv_name v)) w2"
    using Cons.prems P a1 c s by (intro IterateVariablesLoop_step [OF _ pool(1)]) auto
  show ?case
    using Cons.IH [of "T + ?n" "xs @ [v]" w2 "Some (sv_name v)"] Cons.prems s R2
    by (simp add: step ac_simps)
qed

lemma IterateVariablesInBuffer_rule:
  assumes pool: "pool_sizes_ok pool" "pool_total pool"
    and fr: "\<And>xs w. R xs w \<Longrightarrow> R xs (FreePool pool w)"
    and al: "\<And>xs w n. R xs w \<Longrightarrow> R xs (snd (AllocatePool pool n w))"
    and cb: "\<And>xs w v. R xs w \<Longrightarrow> wf_var v \<Longrightarrow>
               \<exists>w'. cb w (sv_name v) (sv_guid v) (sv_attr v) (sv_dat v) = Ok (EFI_SUCCESS, w') \<and> R (xs @ [v]) w'"
    and wf: "\<And>v. v \<in> set vs \<Longrightarrow> wf_var v"
    and mem: "load_bytes m buf (length (concat (map enc_var vs))) = concat (map enc_var vs)" and R: "R [] w"
  shows "\<exists>w'. IterateVariablesInBuffer pool cb m buf (length (concat (map enc_var vs))) w = Ok (EFI_SUCCESS, w') \<and> R vs w'"
proof -
  let ?N = "length (concat (map enc_var vs))"
  obtain a' w' where l: "IterateVariablesLoop pool cb m buf ?N EFI_SUCCESS 0 None w =
      IterateVariablesLoop pool cb m buf ?N EFI_SUCCESS (0 + ?N) a' w'" and R': "R vs w'"
    using IterateVariablesLoop_prefix [where R = R and P = wf_var and cb = cb and vs = vs and m = m and buf = buf and T = 0 and MaxSize = ?N
        and xs = "[]" and w = w and a = None, OF pool fr al cb _ wf] mem R by auto
  have "IterateVariablesLoop pool cb m buf ?N EFI_SUCCESS (0 + ?N) a' w' = Ok (Inr (EFI_SUCCESS, ?N, a', w'))"
    by (subst IterateVariablesLoop.simps) simp
  with l R' fr show ?thesis by (auto simp: IterateVariablesInBuffer_def Let_def)
qed

section \<open>Independence and parsing lemmas\<close>

lemma Unpack_cong:
  assumes "\<And>a. p \<le> a \<Longrightarrow> a < p + n \<Longrightarrow> m a = m' a"
  shows "UnpackVariableFromBuffer m p n = UnpackVariableFromBuffer m' p n"
proof -
  have l: "load_le m (p + k) 4 = load_le m' (p + k) 4" if "k + 4 \<le> n" for k
    using that assms by (intro load_le_cong) auto
  have l0: "4 \<le> n \<Longrightarrow> load_le m p 4 = load_le m' p 4"
    using l [of 0] by simp
  show ?thesis
  proof (cases "4 \<le> n \<and> load_le m p 4 + 24 \<le> n")
    case True
    then have "load_le m (p + (4 + load_le m p 4 + 16)) 4 = load_le m' (p + (4 + load_le m p 4 + 16)) 4"
      by (intro l) simp
    moreover have "load_le m (p + (4 + load_le m p 4 + 16 + 4)) 4 = load_le m' (p + (4 + load_le m p 4 + 16 + 4)) 4"
      if "load_le m p 4 + 28 \<le> n"
      using that by (intro l) simp
    ultimately show ?thesis
      using True l0 by (auto simp: UnpackVariableFromBuffer_def Let_def)
  next
    case False
    then show ?thesis using l0 by (auto simp: UnpackVariableFromBuffer_def Let_def)
  qed
qed

lemma IterateVariablesLoop_Ok_cases:
  assumes "IterateVariablesLoop pool cb m buf MaxSize st T al w = Ok r"
  obtains (leave) "r = Inr (st, T, al, w)" "EFI_ERROR st \<or> \<not> T < MaxSize"
    | (stop) e w1 where "r = Inl (e, w1)" "EFI_ERROR e"
    | (continue) u st2 nm w2 where "T < MaxSize" "UnpackVariableFromBuffer m (buf + T) (MaxSize - T) = Inr u"
        "IterateVariablesLoop pool cb m buf MaxSize st2 (T + up_SizeUsed u) (Some nm) w2 = Ok r"
proof (cases "EFI_ERROR st \<or> \<not> T < MaxSize")
  case True
  with assms leave show ?thesis by (subst (asm) IterateVariablesLoop.simps) auto
next
  case False
  have "thesis" if "UnpackVariableFromBuffer m (buf + T) (MaxSize - T) = Inl e" for e
  proof -
    from that have "e = EFI_INVALID_PARAMETER"
      by (auto simp: UnpackVariableFromBuffer_def Let_def split: if_splits)
    with that assms False show ?thesis
      by (subst (asm) IterateVariablesLoop.simps) (auto intro: stop)
  qed
  moreover have "thesis" if u: "UnpackVariableFromBuffer m (buf + T) (MaxSize - T) = Inr u" for u
  proof -
    let ?a = "if up_NameSize u > AlignedNameMaxSize
              then AllocatePool pool (up_NameSize u) (if al \<noteq> None then FreePool pool w else w)
              else (al, w)"
    obtain x w1 where a: "?a = (x, w1)" by (cases ?a)
    show ?thesis
    proof (cases x)
      case None
      with assms False u a show ?thesis
        by (subst (asm) IterateVariablesLoop.simps) (auto intro: stop [of EFI_OUT_OF_RESOURCES w1])
    next
      case (Some blk)
      let ?nm = "load_bytes m (up_Name u) (up_NameSize u) @ drop (up_NameSize u) blk"
      let ?c = "cb w1 ?nm (load_bytes m (up_Guid u) 16) (of_nat (up_Attributes u)) (load_bytes m (up_Data u) (up_DataSize u))"
      from assms False u a Some obtain st2 w2 where "?c = Ok (st2, w2)"
        by (subst (asm) IterateVariablesLoop.simps) (cases ?c; auto)
      with assms False u a Some show ?thesis
        by (subst (asm) IterateVariablesLoop.simps) (auto intro: continue)
    qed
  qed
  ultimately show ?thesis by (cases "UnpackVariableFromBuffer m (buf + T) (MaxSize - T)") auto
qed

lemma IterateVariablesLoop_parses:
  assumes "IterateVariablesLoop pool cb m buf MaxSize st T al w = Ok r" and "T \<le> MaxSize"
  shows "case r of Inl (e, _) \<Rightarrow> EFI_ERROR e
         | Inr (_, T', _, _) \<Rightarrow> T' = MaxSize \<longrightarrow> (\<exists>k. dec_all dec_var k m (buf + T) (MaxSize - T) \<noteq> None)"
  using assms
proof (induction "MaxSize - T" arbitrary: st T al w rule: less_induct)
  case less
  from less.prems(1) show ?case
  proof (cases rule: IterateVariablesLoop_Ok_cases)
    case leave
    then show ?thesis by (auto intro: exI [of _ 0])
  next
    case stop
    then show ?thesis by simp
  next
    case (continue u st2 nm w2)
    note u = Unpack_Inr [OF continue(2)]
    have lt: "MaxSize - (T + up_SizeUsed u) < MaxSize - T" and le: "T + up_SizeUsed u \<le> MaxSize"
      using continue(1) u by auto
    obtain x where x: "dec_var m (buf + T) (MaxSize - T) = Some (x, up_SizeUsed u)"
      using continue(2) by (simp add: dec_var_def)
    have "\<exists>k. dec_all dec_var k m (buf + T) (MaxSize - T) \<noteq> None"
      if "dec_all dec_var k m (buf + (T + up_SizeUsed u)) (MaxSize - (T + up_SizeUsed u)) \<noteq> None" for k
      using that x by (intro exI [of _ "Suc k"]) (auto simp: add.assoc)
    with less.hyps [OF lt continue(3) le] show ?thesis by (auto split: sum.splits)
  qed
qed

text \<open>Adding a list of variables, and a callback that records what it is given.\<close>

primrec add_all :: "'h pool_ops \<Rightarrow> sv_var list \<Rightarrow> SV_INSTANCE \<Rightarrow> 'h \<Rightarrow> (EFI_STATUS \<times> SV_INSTANCE \<times> 'h) checked" where
  "add_all pool [] I h = Ok (EFI_SUCCESS, I, h)"
| "add_all pool (v # vs) I h =
     chk_bind (SerializeVariablesAddVariable pool I (Some (sv_name v)) (Some (sv_guid v)) (sv_attr v)
                 (length (sv_dat v)) (Some (sv_dat v)) h)
       (\<lambda>(st, I1, h1). if EFI_ERROR st then Ok (st, I1, h1) else add_all pool vs I1 h1)"

definition collect :: "(sv_var list \<times> 'h) variable_callback" where
  "collect w nm guid attr dat =
     Ok (EFI_SUCCESS, (fst w @ [\<lparr>sv_name = nm, sv_guid = guid, sv_attr = attr, sv_dat = dat\<rparr>], snd w))"

lemma pool_total_simp: "pool_total pool \<Longrightarrow> (fst (AllocatePool pool n w) = None) = False"
  by (simp add: pool_total_def)

lemma add_all_spec:
  assumes "pool_sizes_ok pool" "pool_total pool" and "\<And>v. v \<in> set vs \<Longrightarrow> wf_var v" and "sv_inv I"
  shows "\<exists>I' h'. add_all pool vs I h = Ok (EFI_SUCCESS, I', h') \<and> sv_inv I' \<and>
           sv_data I' = sv_data I @ concat (map enc_var vs)"
  using assms(3,4)
proof (induction vs arbitrary: I h)
  case Nil
  then show ?case by simp
next
  case (Cons v vs)
  obtain I1 h1 where
    1: "SerializeVariablesAddVariable pool I (Some (sv_name v)) (Some (sv_guid v)) (sv_attr v)
          (length (sv_dat v)) (Some (sv_dat v)) h = Ok (EFI_SUCCESS, I1, h1)" "sv_inv I1" "sv_data I1 = sv_data I @ enc_var v"
    using AddVariable_spec [OF Cons.prems(2) assms(1), of v h] Cons.prems(1) [of v]
    by (auto simp: pool_total_simp [OF assms(2)])
  from Cons.IH [OF _ 1(2), of h1] Cons.prems(1) 1 show ?case by auto
qed

lemma pool_with_sizes: "pool_sizes_ok pool \<Longrightarrow> pool_sizes_ok (pool_with pool)"
  by (auto simp: pool_sizes_ok_def pool_with_def split: prod.splits)

lemma pool_with_total:
  assumes "pool_total pool"
  shows "pool_total (pool_with pool)"
  unfolding pool_total_def
proof (intro allI)
  fix n w
  show "fst (AllocatePool (pool_with pool) n w) \<noteq> None"
    using pool_total_simp [OF assms, of n "snd w"] by (auto simp: pool_with_def split: prod.splits)
qed

lemmas pool_with_props = pool_with_sizes pool_with_total

lemma fst_pool_with [simp]:
  "fst (FreePool (pool_with pool) w) = fst w" "fst (snd (AllocatePool (pool_with pool) n w)) = fst w"
  by (auto simp: pool_with_def split: prod.splits)

lemma IterateInstance_collect:
  assumes pool: "pool_sizes_ok pool" "pool_total pool" and wf: "\<And>v. v \<in> set vs \<Longrightarrow> wf_var v"
    and I: "sv_inv I" "sv_data I = concat (map enc_var vs)"
  shows "\<exists>h'. SerializeVariablesIterateInstanceVariables (pool_with pool) I collect ([], h) = Ok (EFI_SUCCESS, (vs, h'))"
proof (cases "BufferPtr I")
  case None
  with I(2) have "vs = []" using sv_codec.enc_nonempty by (cases vs) (auto simp: sv_data_def)
  with None I(1) show ?thesis by (simp add: SerializeVariablesIterateInstanceVariables_def SV_FROM_HANDLE_def sv_inv_def)
next
  case (Some b)
  have len: "DataSize I = length (concat (map enc_var vs))" using length_sv_data [OF I(1)] I(2) by simp
  have "DataSize I \<le> length b" using I(1) Some by (auto simp: sv_inv_def)
  then have mem: "load_bytes (store_bytes (\<lambda>_. 0) 0 b) 0 (DataSize I) = concat (map enc_var vs)"
    using load_store_same [of b "length b" "\<lambda>_. 0" 0] load_bytes_take [of "DataSize I" "length b" "store_bytes (\<lambda>_. 0) 0 b" 0] I(2) Some
    by (simp add: sv_data_def)
  have "\<exists>w'. IterateVariablesInBuffer (pool_with pool) collect (store_bytes (\<lambda>_. 0) 0 b) 0
           (length (concat (map enc_var vs))) ([], h) = Ok (EFI_SUCCESS, w') \<and> fst w' = vs"
    by (rule IterateVariablesInBuffer_rule [where R = "\<lambda>xs w. fst w = xs"])
       (use pool wf mem len in \<open>auto simp: collect_def pool_with_props\<close>)
  then show ?thesis
    using Some I len wf sv_codec.enc_nonempty
    by (cases vs) (auto simp: SerializeVariablesIterateInstanceVariables_def SV_FROM_HANDLE_def sv_inv_def)
qed

section \<open>Properties\<close>

text \<open>
  Property C11. Round trip: variables added to a fresh instance come back from
  \<open>SerializeVariablesIterateInstanceVariables\<close> in the order they were added, with
  the same names, GUIDs, attributes and data, and both operations succeed.
\<close>

theorem SerializeVariables_roundtrip:
  assumes "pool_sizes_ok pool" and "pool_total pool" and "\<forall>v \<in> set vs. wf_var v"
  shows "\<exists>I h1 h2. add_all pool vs SerializeVariablesNewInstance h = Ok (EFI_SUCCESS, I, h1) \<and>
           SerializeVariablesIterateInstanceVariables (pool_with pool) I collect ([], h1) = Ok (EFI_SUCCESS, (vs, h2))"
proof -
  obtain I h1 where 1: "add_all pool vs SerializeVariablesNewInstance h = Ok (EFI_SUCCESS, I, h1)"
    "sv_inv I" "sv_data I = concat (map enc_var vs)"
    using add_all_spec [OF assms(1,2) _ sv_inv_new, of vs h] assms(3) by (auto simp: sv_data_new)
  obtain h2 where "SerializeVariablesIterateInstanceVariables (pool_with pool) I collect ([], h1) = Ok (EFI_SUCCESS, (vs, h2))"
    using IterateInstance_collect [OF assms(1,2) _ 1(2,3), of h1] assms(3) by blast
  with 1 show ?thesis by blast
qed

text \<open>A pool that always succeeds, and one example variable, for the witnesses.\<close>

definition demo_pool :: "unit pool_ops" where
  "demo_pool = \<lparr>AllocatePool = (\<lambda>n w. (Some (replicate n 0xAF), w)), FreePool = (\<lambda>w. w)\<rparr>"

definition demo_var :: sv_var where
  "demo_var = \<lparr>sv_name = [0x41, 0, 0, 0], sv_guid = replicate 16 1, sv_attr = 7, sv_dat = [1, 2, 3]\<rparr>"

lemma demo_pool_ok: "pool_sizes_ok demo_pool" "pool_total demo_pool"
  by (auto simp: demo_pool_def pool_sizes_ok_def pool_total_def)

lemma demo_var_wf: "wf_var demo_var"
  by (simp add: demo_var_def wf_var_def)

theorem SerializeVariables_roundtrip_witness:
  "\<exists>I h1 h2. add_all demo_pool [demo_var, demo_var] SerializeVariablesNewInstance () = Ok (EFI_SUCCESS, I, h1) \<and>
     SerializeVariablesIterateInstanceVariables (pool_with demo_pool) I collect ([], h1) =
       Ok (EFI_SUCCESS, ([demo_var, demo_var], h2))"
  using SerializeVariables_roundtrip [OF demo_pool_ok, of "[demo_var, demo_var]" "()"] demo_var_wf by simp

text \<open>
  \<open>SerializeVariablesAddVariable\<close> refines appending one record to the
  serialized bytes: on a well-formed instance no assertion fails, and it either
  appends exactly the encoding of the variable and keeps the instance well
  formed, or reports \<open>EFI_OUT_OF_RESOURCES\<close> and leaves the instance unchanged.
\<close>

theorem SerializeVariablesAddVariable_appends:
  assumes "sv_inv I" and "pool_sizes_ok pool" and "wf_var v"
  shows "\<exists>st I' h'. SerializeVariablesAddVariable pool I (Some (sv_name v)) (Some (sv_guid v)) (sv_attr v)
             (length (sv_dat v)) (Some (sv_dat v)) h = Ok (st, I', h') \<and>
           ((st = EFI_SUCCESS \<and> sv_inv I' \<and> sv_data I' = sv_data I @ enc_var v) \<or>
            (st = EFI_OUT_OF_RESOURCES \<and> I' = I))"
  using AddVariable_spec [OF assms] by blast

theorem SerializeVariablesAddVariable_appends_witness:
  "\<exists>st I' h'. SerializeVariablesAddVariable demo_pool SerializeVariablesNewInstance (Some (sv_name demo_var))
       (Some (sv_guid demo_var)) (sv_attr demo_var) (length (sv_dat demo_var)) (Some (sv_dat demo_var)) () =
       Ok (st, I', h')"
  using SerializeVariablesAddVariable_appends [OF sv_inv_new demo_pool_ok(1) demo_var_wf, of "()"] by blast

text \<open>
  \<open>SerializeVariablesNewInstanceFromBuffer\<close> accepts a buffer that
  holds a sequence of well-formed records and yields a well-formed instance
  whose serialized bytes are the bytes of the buffer.
\<close>

theorem SerializeVariablesNewInstanceFromBuffer_copies:
  assumes "pool_sizes_ok pool" and "pool_total pool" and "\<forall>v \<in> set vs. wf_var v"
    and "load_bytes m buf (length (concat (map enc_var vs))) = concat (map enc_var vs)"
  shows "\<exists>I h'. SerializeVariablesNewInstanceFromBuffer pool m buf (length (concat (map enc_var vs))) h =
           Ok (EFI_SUCCESS, Some I, h') \<and> sv_inv I \<and> sv_data I = concat (map enc_var vs)"
proof -
  let ?N = "length (concat (map enc_var vs))"
  obtain b h0 where a: "AllocatePool pool 32 h = (Some b, h0)"
    using pool_total_simp [OF assms(2), of 32 h] by (cases "AllocatePool pool 32 h") auto
  obtain h1 where n: "IterateVariablesInBuffer pool IterateVariablesCallbackNop m buf ?N h0 = Ok (EFI_SUCCESS, h1)"
    using IterateVariablesInBuffer_rule [where R = "\<lambda>_ _. True" and cb = IterateVariablesCallbackNop and vs = vs and m = m
        and buf = buf and w = h0, OF assms(1,2)] assms(3,4)
    by (auto simp: IterateVariablesCallbackNop_def)
  have "\<exists>w'. IterateVariablesInBuffer (pool_with pool) (IterateVariablesCallbackSetInInstance pool) m buf ?N
          (SerializeVariablesNewInstance, h1) = Ok (EFI_SUCCESS, w') \<and> (sv_inv (fst w') \<and> sv_data (fst w') = concat (map enc_var vs))"
  proof (rule IterateVariablesInBuffer_rule [where R = "\<lambda>xs w. sv_inv (fst w) \<and> sv_data (fst w) = concat (map enc_var xs)"])
    fix xs and w :: "SV_INSTANCE \<times> 'a" and v
    assume "sv_inv (fst w) \<and> sv_data (fst w) = concat (map enc_var xs)" and "wf_var v"
    then show "\<exists>w'. IterateVariablesCallbackSetInInstance pool w (sv_name v) (sv_guid v) (sv_attr v) (sv_dat v) = Ok (EFI_SUCCESS, w') \<and>
          sv_inv (fst w') \<and> sv_data (fst w') = concat (map enc_var (xs @ [v]))"
      using AddVariable_spec [OF _ assms(1), of "fst w" v "snd w"]
      by (auto simp: IterateVariablesCallbackSetInInstance_def pool_total_simp [OF assms(2)] split: prod.splits)
  qed (use assms pool_with_props in \<open>auto simp: sv_inv_new sv_data_new\<close>)
  then obtain I h2 where "IterateVariablesInBuffer (pool_with pool) (IterateVariablesCallbackSetInInstance pool) m buf ?N
          (SerializeVariablesNewInstance, h1) = Ok (EFI_SUCCESS, (I, h2))" "sv_inv I" "sv_data I = concat (map enc_var vs)"
    by auto
  with a n show ?thesis by (simp add: SerializeVariablesNewInstanceFromBuffer_def Let_def)
qed

theorem SerializeVariablesNewInstanceFromBuffer_copies_witness:
  "\<exists>I h'. SerializeVariablesNewInstanceFromBuffer demo_pool (store_bytes (\<lambda>_. 0) 100 (enc_var demo_var)) 100
      (length (enc_var demo_var)) () = Ok (EFI_SUCCESS, Some I, h') \<and> sv_data I = enc_var demo_var"
  using SerializeVariablesNewInstanceFromBuffer_copies
      [OF demo_pool_ok, of "[demo_var]" "store_bytes (\<lambda>_. 0) 100 (enc_var demo_var)" 100 "()"] demo_var_wf
  by (auto simp: load_store_same)

text \<open>
  What \<open>UnpackVariableFromBuffer\<close> returns stays inside the buffer
  (name, GUID and data ranges, and the number of bytes used) and is a function
  of the bytes inside the buffer alone.
\<close>

theorem UnpackVariableFromBuffer_in_bounds:
  "(\<forall>u. UnpackVariableFromBuffer m p n = Inr u \<longrightarrow>
      p \<le> up_Name u \<and> up_Name u + up_NameSize u \<le> up_Guid u \<and> up_Guid u + 16 \<le> up_Data u \<and>
      up_Data u + up_DataSize u = p + up_SizeUsed u \<and> up_SizeUsed u \<le> n) \<and>
   (\<forall>m'. (\<forall>a. p \<le> a \<and> a < p + n \<longrightarrow> m a = m' a) \<longrightarrow>
      UnpackVariableFromBuffer m' p n = UnpackVariableFromBuffer m p n)"
proof (intro conjI allI impI)
  fix u assume "UnpackVariableFromBuffer m p n = Inr u"
  from Unpack_Inr [OF this] show "p \<le> up_Name u" "up_Name u + up_NameSize u \<le> up_Guid u"
    "up_Guid u + 16 \<le> up_Data u" "up_Data u + up_DataSize u = p + up_SizeUsed u" "up_SizeUsed u \<le> n" by auto
next
  fix m' assume "\<forall>a. p \<le> a \<and> a < p + n \<longrightarrow> m a = m' a"
  then show "UnpackVariableFromBuffer m' p n = UnpackVariableFromBuffer m p n" by (intro Unpack_cong) simp
qed

theorem UnpackVariableFromBuffer_in_bounds_witness:
  "up_SizeUsed (projr (UnpackVariableFromBuffer (store_bytes (\<lambda>_. 0) 100 (enc_var demo_var)) 100 64)) \<le> 64"
proof -
  let ?m = "store_bytes (\<lambda>_. 0) 100 (enc_var demo_var)"
  have n: "length (enc_var demo_var) \<le> 64"
    unfolding length_enc_var [OF demo_var_wf] by (simp add: demo_var_def)
  have "load_bytes ?m 100 (length (enc_var demo_var)) = enc_var demo_var"
    by (rule load_store_same) simp
  then obtain u where u: "UnpackVariableFromBuffer ?m 100 64 = Inr u"
    using Unpack_enc(1) [OF demo_var_wf n] by blast
  have "up_SizeUsed u \<le> 64"
    using UnpackVariableFromBuffer_in_bounds [THEN conjunct1, rule_format, OF u] by blast
  then show ?thesis by (simp only: u sum.sel)
qed

text \<open>
  Property C36. \<open>IterateVariablesInBuffer\<close> reports success only for a buffer that
  is completely tiled by records: whatever the callback does, the whole range
  then decodes as a sequence of records with no bytes left over.
\<close>

theorem IterateVariablesInBuffer_success_parses:
  assumes "IterateVariablesInBuffer pool cb m buf MaxSize w = Ok (EFI_SUCCESS, w')"
  shows "\<exists>k vs. dec_all dec_var k m buf MaxSize = Some vs"
proof -
  from assms obtain r where r: "IterateVariablesLoop pool cb m buf MaxSize EFI_SUCCESS 0 None w = Ok r"
    by (cases "IterateVariablesLoop pool cb m buf MaxSize EFI_SUCCESS 0 None w")
       (auto simp: IterateVariablesInBuffer_def)
  from IterateVariablesLoop_parses [OF r] assms r show ?thesis
    by (auto simp: IterateVariablesInBuffer_def Let_def split: sum.splits if_splits)
qed

lemma demo_iterate:
  "\<exists>w'. IterateVariablesInBuffer demo_pool IterateVariablesCallbackNop (store_bytes (\<lambda>_. 0) 100 (enc_var demo_var)) 100
          (length (enc_var demo_var)) () = Ok (EFI_SUCCESS, w')"
  using IterateVariablesInBuffer_rule [where R = "\<lambda>_ _. True" and cb = IterateVariablesCallbackNop and vs = "[demo_var]"
      and m = "store_bytes (\<lambda>_. 0) 100 (enc_var demo_var)" and buf = 100 and w = "()", OF demo_pool_ok] demo_var_wf
  by (auto simp: IterateVariablesCallbackNop_def load_store_same)

theorem IterateVariablesInBuffer_success_parses_witness:
  "\<exists>k vs. dec_all dec_var k (store_bytes (\<lambda>_. 0) 100 (enc_var demo_var)) 100 (length (enc_var demo_var)) = Some vs"
proof -
  obtain w' where "IterateVariablesInBuffer demo_pool IterateVariablesCallbackNop (store_bytes (\<lambda>_. 0) 100 (enc_var demo_var)) 100
          (length (enc_var demo_var)) () = Ok (EFI_SUCCESS, w')" using demo_iterate by blast
  then show ?thesis by (rule IterateVariablesInBuffer_success_parses)
qed

text \<open>
  Property C37. The status of the callback for the last record is lost: when the
  callback accepts every record of a buffer but the last one, for which it
  reports an error, \<open>IterateVariablesInBuffer\<close> still returns success, because
  only the number of bytes used is checked after the loop.
\<close>

theorem IterateVariablesInBuffer_loses_last_error:
  assumes "pool_sizes_ok pool" and "pool_total pool" and "\<forall>x \<in> set (vs @ [v]). wf_var x"
    and "load_bytes m buf (length (concat (map enc_var (vs @ [v])))) = concat (map enc_var (vs @ [v]))"
    and "\<forall>x \<in> set vs. \<forall>w. \<exists>w'. cb w (sv_name x) (sv_guid x) (sv_attr x) (sv_dat x) = Ok (EFI_SUCCESS, w')"
    and "\<forall>w. cb w (sv_name v) (sv_guid v) (sv_attr v) (sv_dat v) = Ok (e, w)" and "EFI_ERROR e"
  shows "\<exists>w'. IterateVariablesInBuffer pool cb m buf (length (concat (map enc_var (vs @ [v])))) w = Ok (EFI_SUCCESS, w')"
proof -
  let ?E = "concat (map enc_var vs)" and ?N = "length (concat (map enc_var (vs @ [v])))"
  have N: "?N = length ?E + length (enc_var v)" by simp
  have m1: "load_bytes m buf (length ?E) = ?E" and m2: "load_bytes m (buf + length ?E) (length (enc_var v)) = enc_var v"
    using load_bytes_split [of m buf ?E "enc_var v"] assms(4) by simp_all
  obtain a1 w1 where p: "IterateVariablesLoop pool cb m buf ?N EFI_SUCCESS 0 None w =
      IterateVariablesLoop pool cb m buf ?N EFI_SUCCESS (0 + length ?E) a1 w1"
    using IterateVariablesLoop_prefix [where R = "\<lambda>_ _. True" and P = "\<lambda>x. x \<in> set vs" and cb = cb and vs = vs and m = m
        and buf = buf and T = 0 and MaxSize = ?N and xs = "[]" and w = w and a = None, OF assms(1,2)] assms(3,5) m1 N
    by auto
  obtain blk w2 where a: "AllocatePool pool (length (sv_name v)) (if a1 \<noteq> None then FreePool pool w1 else w1) = (Some blk, w2)"
    using assms(2) unfolding pool_total_def by (metis not_None_eq prod.collapse)
  have "IterateVariablesLoop pool cb m buf ?N EFI_SUCCESS (length ?E) a1 w1 =
        IterateVariablesLoop pool cb m buf ?N e (length ?E + length (enc_var v)) (Some (sv_name v)) w2"
    using assms a m2 N by (intro IterateVariablesLoop_step) auto
  also have "\<dots> = Ok (Inr (e, ?N, Some (sv_name v), w2))"
    using assms(7) by (subst IterateVariablesLoop.simps) simp
  finally show ?thesis using p by (simp add: IterateVariablesInBuffer_def Let_def)
qed

theorem IterateVariablesInBuffer_loses_last_error_witness:
  "\<exists>w'. IterateVariablesInBuffer demo_pool (\<lambda>w _ _ _ _. Ok (EFI_OUT_OF_RESOURCES, w))
      (store_bytes (\<lambda>_. 0) 100 (enc_var demo_var)) 100 (length (enc_var demo_var)) () = Ok (EFI_SUCCESS, w')"
  using IterateVariablesInBuffer_loses_last_error [OF demo_pool_ok, of "[]" demo_var
      "store_bytes (\<lambda>_. 0) 100 (enc_var demo_var)" 100 "\<lambda>w _ _ _ _. Ok (EFI_OUT_OF_RESOURCES, w)"
         EFI_OUT_OF_RESOURCES "()"] demo_var_wf
  by (simp add: load_store_same)

text \<open>
  A \<open>NULL\<close> data pointer is not answered with
  \<open>EFI_INVALID_PARAMETER\<close>: the parameter check has an empty body, and the
  assertion in \<open>AppendToBuffer\<close> fails after the header was appended.
\<close>

theorem SerializeVariablesAddVariable_null_data:
  assumes "pool_sizes_ok pool" and "pool_total pool" and "wf_var v" and "sv_inv I"
  shows "SerializeVariablesAddVariable pool I (Some (sv_name v)) (Some (sv_guid v)) attr n None h = AssertFailed"
proof -
  obtain st I1 h1 where e: "EnsureExtraBufferSpace pool I (28 + length (sv_name v) + n) h = (st, I1, h1)"
    by (cases "EnsureExtraBufferSpace pool I (28 + length (sv_name v) + n) h") auto
  have ok: "st = EFI_SUCCESS" "sv_inv I1" "DataSize I1 + 28 + length (sv_name v) \<le> BufferSize I1"
    using EnsureExtraBufferSpace_spec [OF assms(4,1) e] pool_total_simp [OF assms(2)] by auto
  from append_header [OF ok(2) assms(3) ok(3), of attr n] show ?thesis
    unfolding AddVariable_unfold [OF assms(4,3) e] ok(1) by (auto simp: AppendToBuffer_def)
qed

theorem SerializeVariablesAddVariable_null_data_witness:
  "SerializeVariablesAddVariable demo_pool SerializeVariablesNewInstance (Some (sv_name demo_var))
     (Some (sv_guid demo_var)) 7 3 None () = AssertFailed"
  by (rule SerializeVariablesAddVariable_null_data [OF demo_pool_ok demo_var_wf sv_inv_new])

end
