(* ===== verification/FwCfg.thy ===== *)
theory FwCfg
  imports Prelude
begin

text \<open>
  Model of \<open>QemuPkg/Library/QemuFwCfgLib\<close>: the I/O port library
  (\<open>QemuFwCfgLib.c\<close>) and the three sets of internal functions it is linked
  with (\<open>QemuFwCfgSec.c\<close>, \<open>QemuFwCfgPei.c\<close>, \<open>QemuFwCfgDxe.c\<close>).

  The state is a machine: the RAM and the device state \<open>'d\<close>.  Port accesses
  are arguments that may change both (a DMA transfer writes RAM), and
  \<open>DeviceProgress\<close> is what the device does between two volatile reads of the
  polling loop.  \<open>AccessAddress\<close> and \<open>ResultAddress\<close> are the addresses of the
  local variables \<open>Access\<close> and \<open>Result\<close> (or \<open>FName\<close>).  An operation that may
  poll forever returns an option; \<open>None\<close> means that it does not return.
\<close>

section \<open>Machine, ports and results\<close>

record 'd machine =
  ram :: mem
  dev :: 'd

record 'd fw_io =
  IoWrite16 :: "nat \<Rightarrow> u16 \<Rightarrow> 'd machine \<Rightarrow> 'd machine"
  IoWrite32 :: "nat \<Rightarrow> u32 \<Rightarrow> 'd machine \<Rightarrow> 'd machine"
  IoReadFifo8 :: "nat \<Rightarrow> nat \<Rightarrow> 'd machine \<Rightarrow> u8 list \<times> 'd machine"
  IoWriteFifo8 :: "nat \<Rightarrow> u8 list \<Rightarrow> 'd machine \<Rightarrow> 'd machine"
  DeviceProgress :: "'d machine \<Rightarrow> 'd machine"
  MemEncryptSevIsEnabled :: bool
  AccessAddress :: nat
  ResultAddress :: nat

definition store :: "nat \<Rightarrow> u8 list \<Rightarrow> 'd machine \<Rightarrow> 'd machine" where
  "store p bs w = w\<lparr>ram := store_bytes (ram w) p bs\<rparr>"

definition SwapBytes16 :: "u16 \<Rightarrow> u16" where
  "SwapBytes16 x = of_nat (le_val (rev (le_bytes 2 (unat x))))"

definition SwapBytes32 :: "u32 \<Rightarrow> u32" where
  "SwapBytes32 x = of_nat (le_val (rev (le_bytes 4 (unat x))))"

definition SwapBytes64 :: "u64 \<Rightarrow> u64" where
  "SwapBytes64 x = of_nat (le_val (rev (le_bytes 8 (unat x))))"

text \<open>Constants of \<open>IndustryStandard/QemuFwCfg.h\<close>.\<close>

definition FW_CFG_F_DMA :: u32 where "FW_CFG_F_DMA = 2"
definition FW_CFG_DMA_CTL_ERROR :: u32 where "FW_CFG_DMA_CTL_ERROR = 1"
definition FW_CFG_DMA_CTL_READ :: u32 where "FW_CFG_DMA_CTL_READ = 2"
definition FW_CFG_DMA_CTL_SKIP :: u32 where "FW_CFG_DMA_CTL_SKIP = 4"
definition FW_CFG_DMA_CTL_WRITE :: u32 where "FW_CFG_DMA_CTL_WRITE = 16"
definition FW_CFG_IO_SELECTOR :: nat where "FW_CFG_IO_SELECTOR = 0x510"
definition FW_CFG_IO_DATA :: nat where "FW_CFG_IO_DATA = 0x511"
definition FW_CFG_IO_DMA_ADDRESS :: nat where "FW_CFG_IO_DMA_ADDRESS = 0x514"
definition QemuFwCfgItemSignature :: u16 where "QemuFwCfgItemSignature = 0"
definition QemuFwCfgItemInterfaceVersion :: u16 where "QemuFwCfgItemInterfaceVersion = 1"
definition QemuFwCfgItemFileDir :: u16 where "QemuFwCfgItemFileDir = 0x19"
definition QEMU_FW_CFG_FNAME_SIZE :: nat where "QEMU_FW_CFG_FNAME_SIZE = 56"
definition SIGNATURE_QEMU :: u32 where "SIGNATURE_QEMU = of_nat (le_val [0x51, 0x45, 0x4D, 0x55])"

lemmas fw_constants = FW_CFG_F_DMA_def FW_CFG_DMA_CTL_ERROR_def FW_CFG_DMA_CTL_READ_def FW_CFG_DMA_CTL_SKIP_def
  FW_CFG_DMA_CTL_WRITE_def FW_CFG_IO_SELECTOR_def FW_CFG_IO_DATA_def FW_CFG_IO_DMA_ADDRESS_def
  QemuFwCfgItemSignature_def QemuFwCfgItemInterfaceVersion_def QemuFwCfgItemFileDir_def QEMU_FW_CFG_FNAME_SIZE_def

text \<open>\<open>FW_CFG_DMA_ACCESS\<close>: the request block, each field big endian in memory.\<close>

record FW_CFG_DMA_ACCESS =
  Control :: u32
  Length :: u32
  Address :: u64

definition access_bytes :: "FW_CFG_DMA_ACCESS \<Rightarrow> u8 list" where
  "access_bytes a = le_bytes 4 (unat (Control a)) @ le_bytes 4 (unat (Length a)) @ le_bytes 8 (unat (Address a))"

section \<open>DMA transfers\<close>

text \<open>The loop that waits for the device to clear the control field.\<close>

partial_function (option) DmaPoll :: "('d machine \<Rightarrow> 'd machine) \<Rightarrow> nat \<Rightarrow> 'd machine \<Rightarrow> 'd machine run" where
  "DmaPoll progress access w =
    (let Status = SwapBytes32 (of_nat (load_le (ram w) access 4))
     in if and Status FW_CFG_DMA_CTL_ERROR \<noteq> 0 then Some AssertFailed
        else if Status \<noteq> 0 then DmaPoll progress access (progress w)
        else Some (Ok w))"

text \<open>Store the request block, write its address to the two halves of the DMA
  register, wait.\<close>

definition DmaIssue :: "'d fw_io \<Rightarrow> nat \<Rightarrow> u32 \<Rightarrow> nat \<Rightarrow> u32 \<Rightarrow> 'd machine \<Rightarrow> 'd machine run" where
  "DmaIssue io access Sz DataBuffer Ctl w =
    (let req = \<lparr>Control = SwapBytes32 Ctl, Length = SwapBytes32 Sz, Address = SwapBytes64 (of_nat DataBuffer)\<rparr>;
         w1 = store access (access_bytes req) w;
         AccessHigh = of_nat (access div 2 ^ 32);
         AccessLow = of_nat access;
         w2 = IoWrite32 io FW_CFG_IO_DMA_ADDRESS (SwapBytes32 AccessHigh) w1;
         w3 = IoWrite32 io (FW_CFG_IO_DMA_ADDRESS + 4) (SwapBytes32 AccessLow) w2
     in DmaPoll (DeviceProgress io) access w3)"

definition dma_control_ok :: "u32 \<Rightarrow> bool" where
  "dma_control_ok Ctl \<longleftrightarrow> Ctl = FW_CFG_DMA_CTL_WRITE \<or> Ctl = FW_CFG_DMA_CTL_READ \<or> Ctl = FW_CFG_DMA_CTL_SKIP"

text \<open>The PEI and the SEC variant of \<open>InternalQemuFwCfgDmaBytes\<close>.\<close>

definition InternalQemuFwCfgDmaBytes_Pei ::
  "'d fw_io \<Rightarrow> u32 \<Rightarrow> nat \<Rightarrow> u32 \<Rightarrow> 'd machine \<Rightarrow> 'd machine run" where
  "InternalQemuFwCfgDmaBytes_Pei io Sz Buffer Ctl w =
    (if \<not> dma_control_ok Ctl then Some AssertFailed
     else if Sz = 0 then Some (Ok w)
     else if MemEncryptSevIsEnabled io then Some AssertFailed
     else DmaIssue io (AccessAddress io) Sz Buffer Ctl w)"

definition InternalQemuFwCfgDmaBytes_Sec ::
  "'d fw_io \<Rightarrow> u32 \<Rightarrow> nat \<Rightarrow> u32 \<Rightarrow> 'd machine \<Rightarrow> 'd machine run" where
  "InternalQemuFwCfgDmaBytes_Sec io Sz Buffer Ctl w = Some AssertFailed"

text \<open>The IOMMU protocol of the DXE variant; a mapping is a handle, \<open>NULL\<close> is 0.
  Every error path ends in a failed assertion (and a dead loop), so the calls
  that release the buffer just before it leave no observable state.\<close>

datatype EDKII_IOMMU_OPERATION =
    EdkiiIoMmuOperationBusMasterRead64
  | EdkiiIoMmuOperationBusMasterWrite64
  | EdkiiIoMmuOperationBusMasterCommonBuffer64

record 'd EDKII_IOMMU_PROTOCOL =
  AllocateBuffer :: "nat \<Rightarrow> 'd machine \<Rightarrow> EFI_STATUS \<times> nat \<times> 'd machine"
  FreeBuffer :: "nat \<Rightarrow> nat \<Rightarrow> 'd machine \<Rightarrow> EFI_STATUS \<times> 'd machine"
  Map :: "EDKII_IOMMU_OPERATION \<Rightarrow> nat \<Rightarrow> nat \<Rightarrow> 'd machine \<Rightarrow> EFI_STATUS \<times> nat \<times> nat \<times> nat \<times> 'd machine"
  Unmap :: "nat \<Rightarrow> 'd machine \<Rightarrow> EFI_STATUS \<times> 'd machine"

definition AllocFwCfgDmaAccessBuffer :: "'d EDKII_IOMMU_PROTOCOL \<Rightarrow> 'd machine \<Rightarrow> (nat \<times> nat \<times> 'd machine) run" where
  "AllocFwCfgDmaAccessBuffer mmu w =
    (let NumPages = EFI_SIZE_TO_PAGES 16
     in case AllocateBuffer mmu NumPages w of (Status, HostAddress, w1) \<Rightarrow>
        if EFI_ERROR Status then Some AssertFailed
        else case Map mmu EdkiiIoMmuOperationBusMasterCommonBuffer64 HostAddress 16
                    (store HostAddress (replicate 16 0) w1) of
          (Status2, Size, DmaAddress, Mapping, w2) \<Rightarrow>
            if EFI_ERROR Status2 then Some AssertFailed
            else if Size < 16 then Some AssertFailed
            else Some (Ok (HostAddress, Mapping, w2)))"

definition FreeFwCfgDmaAccessBuffer :: "'d EDKII_IOMMU_PROTOCOL \<Rightarrow> nat \<Rightarrow> nat \<Rightarrow> 'd machine \<Rightarrow> 'd machine run" where
  "FreeFwCfgDmaAccessBuffer mmu access Mapping w =
    (case Unmap mmu Mapping w of (Status, w1) \<Rightarrow>
       if EFI_ERROR Status then Some AssertFailed
       else case FreeBuffer mmu (EFI_SIZE_TO_PAGES 16) access w1 of (Status2, w2) \<Rightarrow>
         if EFI_ERROR Status2 then Some AssertFailed else Some (Ok w2))"

definition MapFwCfgDmaDataBuffer ::
  "'d EDKII_IOMMU_PROTOCOL \<Rightarrow> bool \<Rightarrow> nat \<Rightarrow> u32 \<Rightarrow> 'd machine \<Rightarrow> (nat \<times> nat \<times> 'd machine) run" where
  "MapFwCfgDmaDataBuffer mmu IsWrite HostAddress Sz w =
    (case Map mmu (if IsWrite then EdkiiIoMmuOperationBusMasterRead64 else EdkiiIoMmuOperationBusMasterWrite64)
            HostAddress (unat Sz) w of
       (Status, NumberOfBytes, PhysicalAddress, Mapping, w1) \<Rightarrow>
         if EFI_ERROR Status then Some AssertFailed
         else if NumberOfBytes < unat Sz then Some AssertFailed
         else Some (Ok (PhysicalAddress, Mapping, w1)))"

definition UnmapFwCfgDmaDataBuffer :: "'d EDKII_IOMMU_PROTOCOL \<Rightarrow> nat \<Rightarrow> 'd machine \<Rightarrow> 'd machine run" where
  "UnmapFwCfgDmaDataBuffer mmu Mapping w =
    (case Unmap mmu Mapping w of (Status, w1) \<Rightarrow> if EFI_ERROR Status then Some AssertFailed else Some (Ok w1))"

definition InternalQemuFwCfgDmaBytes_Dxe ::
  "'d EDKII_IOMMU_PROTOCOL \<Rightarrow> 'd fw_io \<Rightarrow> u32 \<Rightarrow> nat \<Rightarrow> u32 \<Rightarrow> 'd machine \<Rightarrow> 'd machine run" where
  "InternalQemuFwCfgDmaBytes_Dxe mmu io Sz Buffer Ctl w =
    (if \<not> dma_control_ok Ctl then Some AssertFailed
     else if Sz = 0 then Some (Ok w)
     else
       run_bind (if MemEncryptSevIsEnabled io
                 then run_bind (AllocFwCfgDmaAccessBuffer mmu w) (\<lambda>(access, AccessMapping, w1).
                        if Ctl \<noteq> FW_CFG_DMA_CTL_SKIP
                        then run_bind (MapFwCfgDmaDataBuffer mmu (Ctl = FW_CFG_DMA_CTL_WRITE) Buffer Sz w1)
                               (\<lambda>(DataBuffer, DataMapping, w2). Some (Ok (access, AccessMapping, DataBuffer, DataMapping, w2)))
                        else Some (Ok (access, AccessMapping, Buffer, 0, w1)))
                 else Some (Ok (AccessAddress io, 0, Buffer, 0, w)))
         (\<lambda>(access, AccessMapping, DataBuffer, DataMapping, w1).
       run_bind (DmaIssue io access Sz DataBuffer Ctl w1) (\<lambda>w2.
       run_bind (if AccessMapping \<noteq> 0 then FreeFwCfgDmaAccessBuffer mmu access AccessMapping w2 else Some (Ok w2)) (\<lambda>w3.
       if DataMapping \<noteq> 0 then UnmapFwCfgDmaDataBuffer mmu DataMapping w3 else Some (Ok w3)))))"

section \<open>The port library\<close>

text \<open>The static variables of the PEI and DXE variants, and the internal functions the
  port library is linked with.\<close>

record fw_vars =
  mQemuFwCfgSupported :: bool
  mQemuFwCfgDmaSupported :: bool

record 'd fw_internal =
  InternalQemuFwCfgIsAvailable :: bool
  InternalQemuFwCfgDmaIsAvailable :: bool
  InternalQemuFwCfgDmaBytes :: "u32 \<Rightarrow> nat \<Rightarrow> u32 \<Rightarrow> 'd machine \<Rightarrow> 'd machine run"

definition Sec_internal :: "'d fw_io \<Rightarrow> 'd fw_internal" where
  "Sec_internal io = \<lparr>InternalQemuFwCfgIsAvailable = True, InternalQemuFwCfgDmaIsAvailable = False,
     InternalQemuFwCfgDmaBytes = InternalQemuFwCfgDmaBytes_Sec io\<rparr>"

definition Pei_internal :: "'d fw_io \<Rightarrow> fw_vars \<Rightarrow> 'd fw_internal" where
  "Pei_internal io v = \<lparr>InternalQemuFwCfgIsAvailable = mQemuFwCfgSupported v,
     InternalQemuFwCfgDmaIsAvailable = mQemuFwCfgDmaSupported v,
     InternalQemuFwCfgDmaBytes = InternalQemuFwCfgDmaBytes_Pei io\<rparr>"

definition Dxe_internal :: "'d EDKII_IOMMU_PROTOCOL \<Rightarrow> 'd fw_io \<Rightarrow> fw_vars \<Rightarrow> 'd fw_internal" where
  "Dxe_internal mmu io v = \<lparr>InternalQemuFwCfgIsAvailable = mQemuFwCfgSupported v,
     InternalQemuFwCfgDmaIsAvailable = mQemuFwCfgDmaSupported v,
     InternalQemuFwCfgDmaBytes = InternalQemuFwCfgDmaBytes_Dxe mmu io\<rparr>"

definition MAX_UINT32 :: nat where
  "MAX_UINT32 = 0xFFFFFFFF"

definition QemuFwCfgSelectItem :: "'d fw_io \<Rightarrow> u16 \<Rightarrow> 'd machine \<Rightarrow> 'd machine" where
  "QemuFwCfgSelectItem io QemuFwCfgItem w = IoWrite16 io FW_CFG_IO_SELECTOR QemuFwCfgItem w"

definition InternalQemuFwCfgReadBytes ::
  "'d fw_io \<Rightarrow> 'd fw_internal \<Rightarrow> nat \<Rightarrow> nat \<Rightarrow> 'd machine \<Rightarrow> 'd machine run" where
  "InternalQemuFwCfgReadBytes io impl Sz Buffer w =
    (if InternalQemuFwCfgDmaIsAvailable impl \<and> Sz \<le> MAX_UINT32
     then InternalQemuFwCfgDmaBytes impl (of_nat Sz) Buffer FW_CFG_DMA_CTL_READ w
     else case IoReadFifo8 io FW_CFG_IO_DATA Sz w of (bs, w1) \<Rightarrow> Some (Ok (store Buffer bs w1)))"

definition QemuFwCfgReadBytes ::
  "'d fw_io \<Rightarrow> 'd fw_internal \<Rightarrow> nat \<Rightarrow> nat \<Rightarrow> 'd machine \<Rightarrow> 'd machine run" where
  "QemuFwCfgReadBytes io impl Sz Buffer w =
    (if InternalQemuFwCfgIsAvailable impl then InternalQemuFwCfgReadBytes io impl Sz Buffer w
     else Some (Ok (store Buffer (replicate Sz 0) w)))"

definition QemuFwCfgWriteBytes ::
  "'d fw_io \<Rightarrow> 'd fw_internal \<Rightarrow> nat \<Rightarrow> nat \<Rightarrow> 'd machine \<Rightarrow> 'd machine run" where
  "QemuFwCfgWriteBytes io impl Sz Buffer w =
    (if InternalQemuFwCfgIsAvailable impl then
       (if InternalQemuFwCfgDmaIsAvailable impl \<and> Sz \<le> MAX_UINT32
        then InternalQemuFwCfgDmaBytes impl (of_nat Sz) Buffer FW_CFG_DMA_CTL_WRITE w
        else Some (Ok (IoWriteFifo8 io FW_CFG_IO_DATA (load_bytes (ram w) Buffer Sz) w)))
     else Some (Ok w))"

text \<open>The loop of \<open>QemuFwCfgSkipBytes\<close> reads chunks of at most 256 bytes into a local buffer.\<close>

function SkipLoop :: "'d fw_io \<Rightarrow> nat \<Rightarrow> nat \<Rightarrow> 'd machine \<Rightarrow> 'd machine" where
  "SkipLoop io SkipBuffer Sz w =
    (if 0 < Sz then
       (let ChunkSize = min Sz 256
        in case IoReadFifo8 io FW_CFG_IO_DATA ChunkSize w of (bs, w1) \<Rightarrow>
             SkipLoop io SkipBuffer (Sz - ChunkSize) (store SkipBuffer bs w1))
     else w)"
  by pat_completeness auto
termination
  by (relation "measure (\<lambda>(io, b, n, w). n)") auto

declare SkipLoop.simps [simp del]

definition QemuFwCfgSkipBytes :: "'d fw_io \<Rightarrow> 'd fw_internal \<Rightarrow> nat \<Rightarrow> 'd machine \<Rightarrow> 'd machine run" where
  "QemuFwCfgSkipBytes io impl Sz w =
    (if \<not> InternalQemuFwCfgIsAvailable impl then Some (Ok w)
     else if InternalQemuFwCfgDmaIsAvailable impl \<and> Sz \<le> MAX_UINT32
     then InternalQemuFwCfgDmaBytes impl (of_nat Sz) 0 FW_CFG_DMA_CTL_SKIP w
     else Some (Ok (SkipLoop io (ResultAddress io) Sz w)))"

text \<open>A read of \<open>n\<close> bytes into the local at \<open>ResultAddress\<close>, and its contents.\<close>

definition read_local ::
  "'d fw_io \<Rightarrow> (nat \<Rightarrow> nat \<Rightarrow> 'd machine \<Rightarrow> 'd machine run) \<Rightarrow> nat \<Rightarrow> 'd machine \<Rightarrow> (u8 list \<times> 'd machine) run" where
  "read_local io rd n w =
     run_bind (rd n (ResultAddress io) w) (\<lambda>w1. Some (Ok (load_bytes (ram w1) (ResultAddress io) n, w1)))"

definition QemuFwCfgRead8 :: "'d fw_io \<Rightarrow> 'd fw_internal \<Rightarrow> 'd machine \<Rightarrow> (u8 \<times> 'd machine) run" where
  "QemuFwCfgRead8 io impl w =
     run_bind (read_local io (QemuFwCfgReadBytes io impl) 1 w) (\<lambda>(bs, w1). Some (Ok (of_nat (le_val bs), w1)))"

definition QemuFwCfgRead16 :: "'d fw_io \<Rightarrow> 'd fw_internal \<Rightarrow> 'd machine \<Rightarrow> (u16 \<times> 'd machine) run" where
  "QemuFwCfgRead16 io impl w =
     run_bind (read_local io (QemuFwCfgReadBytes io impl) 2 w) (\<lambda>(bs, w1). Some (Ok (of_nat (le_val bs), w1)))"

definition QemuFwCfgRead32 :: "'d fw_io \<Rightarrow> 'd fw_internal \<Rightarrow> 'd machine \<Rightarrow> (u32 \<times> 'd machine) run" where
  "QemuFwCfgRead32 io impl w =
     run_bind (read_local io (QemuFwCfgReadBytes io impl) 4 w) (\<lambda>(bs, w1). Some (Ok (of_nat (le_val bs), w1)))"

definition QemuFwCfgRead64 :: "'d fw_io \<Rightarrow> 'd fw_internal \<Rightarrow> 'd machine \<Rightarrow> (u64 \<times> 'd machine) run" where
  "QemuFwCfgRead64 io impl w =
     run_bind (read_local io (QemuFwCfgReadBytes io impl) 8 w) (\<lambda>(bs, w1). Some (Ok (of_nat (le_val bs), w1)))"

text \<open>\<open>AsciiStrCmp (Name, FName) == 0\<close>: \<open>Name\<close> is given without its terminator, the
  directory entry is a fixed-size buffer that may lack one.\<close>

fun AsciiStrEq :: "u8 list \<Rightarrow> u8 list \<Rightarrow> bool checked" where
  "AsciiStrEq cs [] = OutOfBounds"
| "AsciiStrEq [] (b # bs) = Ok (b = 0)"
| "AsciiStrEq (c # cs) (b # bs) = (if c = b then AsciiStrEq cs bs else Ok False)"

text \<open>The directory loop; \<open>k\<close> is \<open>Count - Idx\<close>.\<close>

primrec FindFileLoop ::
  "'d fw_io \<Rightarrow> 'd fw_internal \<Rightarrow> u8 list \<Rightarrow> nat \<Rightarrow> 'd machine \<Rightarrow> ((EFI_STATUS + u16 \<times> nat) \<times> 'd machine) run" where
  "FindFileLoop io impl nm 0 w = Some (Ok (Inl EFI_NOT_FOUND, w))"
| "FindFileLoop io impl nm (Suc k) w =
    run_bind (QemuFwCfgRead32 io impl w) (\<lambda>(FileSize, w1).
    run_bind (QemuFwCfgRead16 io impl w1) (\<lambda>(FileSelect, w2).
    run_bind (QemuFwCfgRead16 io impl w2) (\<lambda>(FileReserved, w3).
    run_bind (read_local io (InternalQemuFwCfgReadBytes io impl) QEMU_FW_CFG_FNAME_SIZE w3) (\<lambda>(FName, w4).
    run_bind (Some (AsciiStrEq nm FName)) (\<lambda>eq.
      if eq then Some (Ok (Inr (SwapBytes16 FileSelect, unat (SwapBytes32 FileSize)), w4))
      else FindFileLoop io impl nm k w4)))))"

definition QemuFwCfgFindFile ::
  "'d fw_io \<Rightarrow> 'd fw_internal \<Rightarrow> u8 list \<Rightarrow> 'd machine \<Rightarrow> ((EFI_STATUS + u16 \<times> nat) \<times> 'd machine) run" where
  "QemuFwCfgFindFile io impl nm w =
    (if \<not> InternalQemuFwCfgIsAvailable impl then Some (Ok (Inl EFI_UNSUPPORTED, w))
     else run_bind (QemuFwCfgRead32 io impl (QemuFwCfgSelectItem io QemuFwCfgItemFileDir w)) (\<lambda>(c, w1).
       FindFileLoop io impl nm (unat (SwapBytes32 c)) w1))"

section \<open>Initialization\<close>

definition probe_vars :: fw_vars where
  "probe_vars = \<lparr>mQemuFwCfgSupported = True, mQemuFwCfgDmaSupported = False\<rparr>"

definition QemuFwCfgInitialize_Pei :: "'d fw_io \<Rightarrow> 'd machine \<Rightarrow> (fw_vars \<times> 'd machine) run" where
  "QemuFwCfgInitialize_Pei io w =
    (let impl = Pei_internal io probe_vars
     in run_bind (QemuFwCfgRead32 io impl (QemuFwCfgSelectItem io QemuFwCfgItemSignature w)) (\<lambda>(Signature, w1).
        run_bind (QemuFwCfgRead32 io impl (QemuFwCfgSelectItem io QemuFwCfgItemInterfaceVersion w1)) (\<lambda>(Revision, w2).
          if Signature \<noteq> SIGNATURE_QEMU \<or> Revision < 1
          then Some (Ok (probe_vars\<lparr>mQemuFwCfgSupported := False\<rparr>, w2))
          else if and Revision FW_CFG_F_DMA = 0 then Some (Ok (probe_vars, w2))
          else if MemEncryptSevIsEnabled io then Some (Ok (probe_vars, w2))
          else Some (Ok (probe_vars\<lparr>mQemuFwCfgDmaSupported := True\<rparr>, w2)))))"

text \<open>\<open>LocateIoMmu\<close> is the status of locating the IOMMU protocol.\<close>

definition QemuFwCfgInitialize_Dxe ::
  "'d EDKII_IOMMU_PROTOCOL \<Rightarrow> EFI_STATUS \<Rightarrow> 'd fw_io \<Rightarrow> 'd machine \<Rightarrow> (fw_vars \<times> 'd machine) run" where
  "QemuFwCfgInitialize_Dxe mmu LocateIoMmu io w =
    (let impl = Dxe_internal mmu io probe_vars
     in run_bind (QemuFwCfgRead32 io impl (QemuFwCfgSelectItem io QemuFwCfgItemSignature w)) (\<lambda>(Signature, w1).
        run_bind (QemuFwCfgRead32 io impl (QemuFwCfgSelectItem io QemuFwCfgItemInterfaceVersion w1)) (\<lambda>(Revision, w2).
          if Signature \<noteq> SIGNATURE_QEMU \<or> Revision < 1
          then Some (Ok (probe_vars\<lparr>mQemuFwCfgSupported := False\<rparr>, w2))
          else
            let v = (if and Revision FW_CFG_F_DMA = 0 then probe_vars else probe_vars\<lparr>mQemuFwCfgDmaSupported := True\<rparr>)
            in if mQemuFwCfgDmaSupported v \<and> MemEncryptSevIsEnabled io \<and> EFI_ERROR LocateIoMmu
               then Some AssertFailed
               else Some (Ok (v, w2)))))"

definition QemuFwCfgIsAvailable :: "fw_vars \<Rightarrow> bool" where
  "QemuFwCfgIsAvailable v = mQemuFwCfgSupported v"

definition QemuFwCfgIsAvailable_Sec :: "'d fw_io \<Rightarrow> 'd machine \<Rightarrow> (bool \<times> 'd machine) run" where
  "QemuFwCfgIsAvailable_Sec io w =
    (let impl = Sec_internal io
     in run_bind (QemuFwCfgRead32 io impl (QemuFwCfgSelectItem io QemuFwCfgItemSignature w)) (\<lambda>(Signature, w1).
        run_bind (QemuFwCfgRead32 io impl (QemuFwCfgSelectItem io QemuFwCfgItemInterfaceVersion w1)) (\<lambda>(Revision, w2).
          Some (Ok (\<not> (Signature \<noteq> SIGNATURE_QEMU \<or> Revision < 1), w2)))))"

section \<open>The reader contract\<close>

text \<open>
  What a client of the library relies on: selecting an item rewinds it, and
  fetching \<open>n\<close> bytes returns the next \<open>n\<close> bytes of the selected item (zero
  bytes past its end) and advances the offset.  The contract does not say how the
  bytes are transferred; the port, DMA and MMIO variants all meet it.
\<close>

definition fw_window :: "u8 list \<Rightarrow> nat \<Rightarrow> nat \<Rightarrow> u8 list" where
  "fw_window bs off n = map (\<lambda>i. if off + i < length bs then bs ! (off + i) else 0) [0..<n]"

lemma length_fw_window [simp]: "length (fw_window bs off n) = n"
  by (simp add: fw_window_def)

lemma fw_window_mid: "length x = n \<Longrightarrow> length pre = k \<Longrightarrow> fw_window (pre @ x @ suf) k n = x"
  by (rule nth_equalityI) (auto simp: fw_window_def nth_append)

lemma fw_window_Suc: "fw_window bs off (a + b) = fw_window bs off a @ fw_window bs (off + a) b"
  by (rule nth_equalityI) (auto simp: fw_window_def nth_append ac_simps)

type_synonym 'w fetcher = "nat \<Rightarrow> 'w \<Rightarrow> (u8 list \<times> 'w) run"

text \<open>The directory search over an arbitrary fetcher.\<close>

definition fetch_le :: "'w fetcher \<Rightarrow> nat \<Rightarrow> 'w \<Rightarrow> ('a::len word \<times> 'w) run" where
  "fetch_le fetch n w = run_bind (fetch n w) (\<lambda>(bs, w1). Some (Ok (of_nat (le_val bs), w1)))"

primrec find_loop :: "'w fetcher \<Rightarrow> u8 list \<Rightarrow> nat \<Rightarrow> 'w \<Rightarrow> ((EFI_STATUS + u16 \<times> nat) \<times> 'w) run" where
  "find_loop fetch nm 0 w = Some (Ok (Inl EFI_NOT_FOUND, w))"
| "find_loop fetch nm (Suc k) w =
    run_bind (fetch_le fetch 4 w) (\<lambda>(FileSize, w1).
    run_bind (fetch_le fetch 2 w1) (\<lambda>(FileSelect, w2).
    run_bind (fetch_le fetch 2 w2) (\<lambda>(FileReserved :: u16, w3).
    run_bind (fetch QEMU_FW_CFG_FNAME_SIZE w3) (\<lambda>(FName, w4).
    run_bind (Some (AsciiStrEq nm FName)) (\<lambda>eq.
      if eq then Some (Ok (Inr (SwapBytes16 FileSelect, unat (SwapBytes32 FileSize)), w4))
      else find_loop fetch nm k w4)))))"

definition find_file :: "'w fetcher \<Rightarrow> (u16 \<Rightarrow> 'w \<Rightarrow> 'w) \<Rightarrow> u8 list \<Rightarrow> 'w \<Rightarrow> ((EFI_STATUS + u16 \<times> nat) \<times> 'w) run" where
  "find_file fetch select nm w =
     run_bind (fetch_le fetch 4 (select QemuFwCfgItemFileDir w)) (\<lambda>(c, w1). find_loop fetch nm (unat (SwapBytes32 c)) w1)"

text \<open>A directory entry as the host stores it: big-endian size and selector, two
  reserved bytes, a 56-byte name.\<close>

record dir_entry =
  de_size :: u32
  de_select :: u16
  de_reserved :: u16
  de_name :: "u8 list"

definition be_bytes :: "nat \<Rightarrow> nat \<Rightarrow> u8 list" where
  "be_bytes n v = rev (le_bytes n v)"

definition enc_entry :: "dir_entry \<Rightarrow> u8 list" where
  "enc_entry e = be_bytes 4 (unat (de_size e)) @ be_bytes 2 (unat (de_select e)) @
     be_bytes 2 (unat (de_reserved e)) @ de_name e"

definition enc_dir :: "dir_entry list \<Rightarrow> u8 list" where
  "enc_dir es = be_bytes 4 (length es) @ concat (map enc_entry es)"

definition lookup_file :: "u8 list \<Rightarrow> dir_entry list \<Rightarrow> EFI_STATUS + u16 \<times> nat" where
  "lookup_file nm es =
    (case find (\<lambda>e. AsciiStrEq nm (de_name e) = Ok True) es of
       None \<Rightarrow> Inl EFI_NOT_FOUND
     | Some e \<Rightarrow> Inr (de_select e, unat (de_size e)))"

lemma length_be_bytes [simp]: "length (be_bytes n v) = n"
  by (simp add: be_bytes_def)

lemma be_swap:
  assumes "LENGTH('a::len) = 8 * n"
  shows "(of_nat (le_val (rev (le_bytes n (unat (of_nat (le_val (be_bytes n v)) :: 'a word))))) :: 'a word) = of_nat (v mod 256 ^ n)"
proof -
  have p: "(2::nat) ^ LENGTH('a) = 256 ^ n" using assms by (simp add: power_mult)
  have "le_val (be_bytes n v) < 256 ^ n" using le_val_less [of "be_bytes n v"] by simp
  then have "unat (of_nat (le_val (be_bytes n v)) :: 'a word) = le_val (be_bytes n v)"
    using p by (simp add: unat_of_nat)
  moreover have "le_bytes n (le_val (be_bytes n v)) = be_bytes n v"
    using le_bytes_le_val [of "be_bytes n v"] by simp
  ultimately show ?thesis by (simp add: be_bytes_def le_val_le_bytes)
qed

lemma SwapBytes32_be [codec_simps]: "SwapBytes32 (of_nat (le_val (be_bytes 4 v))) = of_nat (v mod 256 ^ 4)"
  unfolding SwapBytes32_def by (rule be_swap) simp

lemma SwapBytes16_be [codec_simps]: "SwapBytes16 (of_nat (le_val (be_bytes 2 v))) = of_nat (v mod 256 ^ 2)"
  unfolding SwapBytes16_def by (rule be_swap) simp

lemma AsciiStrEq_total: "length nm < length f \<Longrightarrow> \<exists>b. AsciiStrEq nm f = Ok b"
  by (induction nm f rule: AsciiStrEq.induct) auto

locale fw_reader =
  fixes ok :: "'c \<Rightarrow> bool"
    and item :: "'c \<Rightarrow> 'w \<Rightarrow> u16 \<Rightarrow> u8 list"
    and sel :: "'c \<Rightarrow> 'w \<Rightarrow> u16"
    and off :: "'c \<Rightarrow> 'w \<Rightarrow> nat"
    and select :: "'c \<Rightarrow> u16 \<Rightarrow> 'w \<Rightarrow> 'w"
    and fetch :: "'c \<Rightarrow> 'w fetcher"
  assumes select_law: "ok c \<Longrightarrow> item c (select c k w) = item c w \<and> sel c (select c k w) = k \<and> off c (select c k w) = 0"
    and fetch_law: "ok c \<Longrightarrow> n \<le> 64 \<Longrightarrow>
      \<exists>w'. fetch c n w = Some (Ok (fw_window (item c w (sel c w)) (off c w) n, w')) \<and>
           item c w' = item c w \<and> sel c w' = sel c w \<and> off c w' = off c w + n"
begin

definition at_pos :: "'c \<Rightarrow> 'w \<Rightarrow> u16 \<Rightarrow> (u16 \<Rightarrow> u8 list) \<Rightarrow> nat \<Rightarrow> bool" where
  "at_pos c w k its p \<longleftrightarrow> item c w = its \<and> sel c w = k \<and> off c w = p"

lemma at_pos_select: "ok c \<Longrightarrow> item c w = its \<Longrightarrow> at_pos c (select c k w) k its 0"
  using select_law by (simp add: at_pos_def)

lemma fetch_at:
  assumes "ok c" and "at_pos c w k its p" and "its k = pre @ x @ suf" and "length pre = p" and "length x = n" and "n \<le> 64"
  obtains w' where "fetch c n w = Some (Ok (x, w'))" "at_pos c w' k its (p + n)"
  using fetch_law [OF assms(1,6), of w] assms by (auto simp: at_pos_def fw_window_mid)

lemma fetch_le_at:
  assumes "ok c" and "at_pos c w k its p" and "its k = pre @ x @ suf" and "length pre = p" and "length x = n" and "n \<le> 64"
  obtains w' where "fetch_le (fetch c) n w = Some (Ok (of_nat (le_val x), w'))" "at_pos c w' k its (p + n)"
proof -
  obtain w' where "fetch c n w = Some (Ok (x, w'))" "at_pos c w' k its (p + n)" by (rule fetch_at [OF assms])
  then show ?thesis by (intro that [of w']) (simp_all add: fetch_le_def)
qed

lemma find_loop_spec:
  assumes "ok c" and "length nm < 56" and "\<And>e. e \<in> set es \<Longrightarrow> length (de_name e) = 56"
    and "at_pos c w k its p" and "its k = pre @ concat (map enc_entry es) @ suf" and "length pre = p"
  shows "\<exists>w'. find_loop (fetch c) nm (length es) w = Some (Ok (lookup_file nm es, w')) \<and> item c w' = its"
  using assms(3-6)
proof (induction es arbitrary: w p pre)
  case Nil
  then show ?case by (auto simp: lookup_file_def at_pos_def)
next
  case (Cons e es)
  let ?s = "be_bytes 4 (unat (de_size e))" and ?l = "be_bytes 2 (unat (de_select e))"
  let ?r = "be_bytes 2 (unat (de_reserved e))" and ?t = "concat (map enc_entry es) @ suf"
  have d: "its k = pre @ ?s @ ?l @ ?r @ de_name e @ ?t" and n: "length (de_name e) = 56"
    using Cons.prems by (simp_all add: enc_entry_def [of e])
  obtain w1 where 1: "fetch_le (fetch c) 4 w = Some (Ok (of_nat (le_val ?s) :: u32, w1))" "at_pos c w1 k its (p + 4)"
    by (rule fetch_le_at [OF assms(1) Cons.prems(2) d Cons.prems(4)]) auto
  obtain w2 where 2: "fetch_le (fetch c) 2 w1 = Some (Ok (of_nat (le_val ?l) :: u16, w2))" "at_pos c w2 k its (p + 4 + 2)"
    by (rule fetch_le_at [OF assms(1) 1(2), where pre = "pre @ ?s"]) (auto simp: d Cons.prems(4))
  obtain w3 where 3: "fetch_le (fetch c) 2 w2 = Some (Ok (of_nat (le_val ?r) :: u16, w3))" "at_pos c w3 k its (p + 4 + 2 + 2)"
    by (rule fetch_le_at [OF assms(1) 2(2), where pre = "pre @ ?s @ ?l"]) (auto simp: d Cons.prems(4))
  obtain w4 where 4: "fetch c 56 w3 = Some (Ok (de_name e, w4))" "at_pos c w4 k its (p + 4 + 2 + 2 + 56)"
    by (rule fetch_at [OF assms(1) 3(2), where pre = "pre @ ?s @ ?l @ ?r"]) (auto simp: d n Cons.prems(4))
  obtain b where b: "AsciiStrEq nm (de_name e) = Ok b"
    using AsciiStrEq_total [of nm "de_name e"] assms(2) n by auto
  show ?case
  proof (cases b)
    case True
    then show ?thesis using 1(1) 2(1) 3(1) 4 b
      by (auto simp: lookup_file_def fw_constants codec_simps at_pos_def)
  next
    case False
    have "\<exists>w'. find_loop (fetch c) nm (length es) w4 = Some (Ok (lookup_file nm es, w')) \<and> item c w' = its"
      by (rule Cons.IH [OF _ 4(2), of "pre @ enc_entry e"]) (use Cons.prems n in \<open>simp_all add: enc_entry_def [of e]\<close>)
    then show ?thesis using 1(1) 2(1) 3(1) 4(1) b False by (auto simp: lookup_file_def fw_constants)
  qed
qed

lemma find_file_spec:
  assumes "ok c" and "item c w QemuFwCfgItemFileDir = enc_dir es @ suf" and "length nm < 56"
    and "\<And>e. e \<in> set es \<Longrightarrow> length (de_name e) = 56" and "length es < 2 ^ 32"
  shows "\<exists>w'. find_file (fetch c) (select c) nm w = Some (Ok (lookup_file nm es, w')) \<and> item c w' = item c w"
proof -
  let ?its = "item c w" and ?k = QemuFwCfgItemFileDir
  have d: "?its ?k = [] @ be_bytes 4 (length es) @ concat (map enc_entry es) @ suf"
    using assms(2) by (simp add: enc_dir_def)
  obtain w1 where 1: "fetch_le (fetch c) 4 (select c ?k w) = Some (Ok (of_nat (le_val (be_bytes 4 (length es))) :: u32, w1))"
    "at_pos c w1 ?k ?its (0 + 4)"
    by (rule fetch_le_at [OF assms(1) at_pos_select [OF assms(1) refl] d]) auto
  have "unat (of_nat (length es) :: u32) = length es" using assms(5) by (simp add: unat_of_nat)
  then have c: "unat (SwapBytes32 (of_nat (le_val (be_bytes 4 (length es))))) = length es"
    using assms(5) by (simp add: SwapBytes32_be)
  have "\<exists>w'. find_loop (fetch c) nm (length es) w1 = Some (Ok (lookup_file nm es, w')) \<and> item c w' = ?its"
    by (rule find_loop_spec [OF assms(1,3,4) 1(2), of es "be_bytes 4 (length es)" suf]) (auto simp: d)
  then show ?thesis using 1(1) c by (simp add: find_file_def)
qed

end

section \<open>The device and the port library meet the contract\<close>

text \<open>
  The host side of fw_cfg as documented by QEMU, observed through a model \<open>m\<close> of
  the device state: the items, the selected item, the offset, and the latched
  upper half of the DMA address.
\<close>

record 'd fw_model =
  fw_item :: "'d \<Rightarrow> u16 \<Rightarrow> u8 list"
  fw_sel :: "'d \<Rightarrow> u16"
  fw_off :: "'d \<Rightarrow> nat"
  fw_hi :: "'d \<Rightarrow> u32"

definition fw_same :: "'d fw_model \<Rightarrow> 'd machine \<Rightarrow> 'd machine \<Rightarrow> nat \<Rightarrow> bool" where
  "fw_same m w w' n \<longleftrightarrow> fw_item m (dev w') = fw_item m (dev w) \<and> fw_sel m (dev w') = fw_sel m (dev w) \<and>
     fw_off m (dev w') = fw_off m (dev w) + n"

definition fw_next :: "'d fw_model \<Rightarrow> 'd machine \<Rightarrow> nat \<Rightarrow> u8 list" where
  "fw_next m w n = fw_window (fw_item m (dev w) (fw_sel m (dev w))) (fw_off m (dev w)) n"

text \<open>Hypothesis: the selector and data ports.\<close>

definition port_device :: "'d fw_io \<Rightarrow> 'd fw_model \<Rightarrow> bool" where
  "port_device io m \<longleftrightarrow>
    (\<forall>k w. fw_item m (dev (IoWrite16 io FW_CFG_IO_SELECTOR k w)) = fw_item m (dev w) \<and>
           fw_sel m (dev (IoWrite16 io FW_CFG_IO_SELECTOR k w)) = k \<and>
           fw_off m (dev (IoWrite16 io FW_CFG_IO_SELECTOR k w)) = 0) \<and>
    (\<forall>n w. \<exists>w'. IoReadFifo8 io FW_CFG_IO_DATA n w = (fw_next m w n, w') \<and> fw_same m w w' n)"

text \<open>The control field is polled until the device clears it.\<close>

inductive dma_completes :: "('d machine \<Rightarrow> 'd machine) \<Rightarrow> nat \<Rightarrow> 'd machine \<Rightarrow> 'd machine \<Rightarrow> bool" for progress access where
  cleared: "load_le (ram w) access 4 = 0 \<Longrightarrow> dma_completes progress access w w"
| pending: "SwapBytes32 (of_nat (load_le (ram w) access 4)) \<noteq> 0 \<Longrightarrow>
            and (SwapBytes32 (of_nat (load_le (ram w) access 4))) FW_CFG_DMA_CTL_ERROR = 0 \<Longrightarrow>
            dma_completes progress access (progress w) w' \<Longrightarrow> dma_completes progress access w w'"

text \<open>Hypothesis: the DMA register.  Writing the low half starts the request whose
  block lies at the written address; the request completes.\<close>

definition dma_device :: "'d fw_io \<Rightarrow> 'd fw_model \<Rightarrow> bool" where
  "dma_device io m \<longleftrightarrow>
    (\<forall>v w. ram (IoWrite32 io FW_CFG_IO_DMA_ADDRESS v w) = ram w \<and>
           fw_same m w (IoWrite32 io FW_CFG_IO_DMA_ADDRESS v w) 0 \<and>
           fw_hi m (dev (IoWrite32 io FW_CFG_IO_DMA_ADDRESS v w)) = SwapBytes32 v) \<and>
    (\<forall>v w req a p n.
       a = unat (fw_hi m (dev w)) * 2 ^ 32 + unat (SwapBytes32 v) \<longrightarrow>
       load_bytes (ram w) a 16 = access_bytes req \<longrightarrow>
       p = unat (SwapBytes64 (Address req)) \<longrightarrow> n = unat (SwapBytes32 (Length req)) \<longrightarrow>
       (SwapBytes32 (Control req) = FW_CFG_DMA_CTL_READ \<longrightarrow> a + 16 \<le> p \<or> p + n \<le> a \<longrightarrow>
         (\<exists>w'. dma_completes (DeviceProgress io) a (IoWrite32 io (FW_CFG_IO_DMA_ADDRESS + 4) v w) w' \<and>
               fw_same m w w' n \<and> load_bytes (ram w') p n = fw_next m w n)) \<and>
       (SwapBytes32 (Control req) = FW_CFG_DMA_CTL_SKIP \<longrightarrow>
         (\<exists>w'. dma_completes (DeviceProgress io) a (IoWrite32 io (FW_CFG_IO_DMA_ADDRESS + 4) v w) w' \<and> fw_same m w w' n)))"

lemma SwapBytes32_invol [simp]: "SwapBytes32 (SwapBytes32 x) = x"
  using SwapBytes32_be [of "unat x"] by (simp add: SwapBytes32_def be_bytes_def codec_simps)

lemma SwapBytes64_invol [simp]: "SwapBytes64 (SwapBytes64 x) = x"
  unfolding SwapBytes64_def using be_swap [of 8 "unat x", where 'a = 64] by (simp add: be_bytes_def codec_simps)

lemma SwapBytes32_0 [simp]: "SwapBytes32 0 = 0"
  by code_simp

lemma DmaPoll_completes: "dma_completes progress access w w' \<Longrightarrow> DmaPoll progress access w = Some (Ok w')"
proof (induction rule: dma_completes.induct)
  case (cleared w)
  then show ?case by (subst DmaPoll.simps) simp
next
  case (pending w w')
  then show ?case by (subst DmaPoll.simps) (simp add: Let_def)
qed

lemma DmaBytes_Dxe_plain:
  assumes "\<not> MemEncryptSevIsEnabled io"
  shows "InternalQemuFwCfgDmaBytes_Dxe mmu io = InternalQemuFwCfgDmaBytes_Pei io"
proof (intro ext)
  fix s b c w
  have id: "run_bind r (\<lambda>w. Some (Ok w)) = r" for r :: "'a machine run"
    by (cases "(r, \<lambda>w. Some (Ok w) :: 'a machine run)" rule: run_bind.cases) auto
  show "InternalQemuFwCfgDmaBytes_Dxe mmu io s b c w = InternalQemuFwCfgDmaBytes_Pei io s b c w"
    using assms by (simp add: InternalQemuFwCfgDmaBytes_Dxe_def InternalQemuFwCfgDmaBytes_Pei_def id)
qed

lemma address_split: "a < 2 ^ 64 \<Longrightarrow> unat (of_nat (a div 2 ^ 32) :: u32) * 2 ^ 32 + unat (of_nat a :: u32) = a"
proof -
  assume "a < 2 ^ 64"
  then have "a div 2 ^ 32 < 2 ^ 32" by (simp add: less_mult_imp_div_less)
  then show ?thesis by (simp add: unat_of_nat)
qed

text \<open>One request, issued for a block at \<open>a\<close>.\<close>

lemma DmaIssue_read:
  assumes d: "dma_device io m" and a: "a < 2 ^ 64" and p: "p < 2 ^ 64" and dis: "a + 16 \<le> p \<or> p + unat n \<le> a"
  shows "\<exists>w'. DmaIssue io a n p FW_CFG_DMA_CTL_READ w = Some (Ok w') \<and> fw_same m w w' (unat n) \<and>
           load_bytes (ram w') p (unat n) = fw_next m w (unat n)"
proof -
  let ?req = "\<lparr>Control = SwapBytes32 FW_CFG_DMA_CTL_READ, Length = SwapBytes32 n, Address = SwapBytes64 (of_nat p)\<rparr>"
  let ?w1 = "store a (access_bytes ?req) w"
  let ?w2 = "IoWrite32 io FW_CFG_IO_DMA_ADDRESS (SwapBytes32 (of_nat (a div 2 ^ 32))) ?w1"
  have len: "length (access_bytes ?req) = 16" by (simp add: access_bytes_def)
  have 1: "fw_item m (dev ?w1) = fw_item m (dev w)" "fw_sel m (dev ?w1) = fw_sel m (dev w)" "fw_off m (dev ?w1) = fw_off m (dev w)"
    by (simp_all add: store_def)
  have r2: "ram ?w2 = ram ?w1" and s2: "fw_same m ?w1 ?w2 0" and h2: "fw_hi m (dev ?w2) = of_nat (a div 2 ^ 32)"
    using d by (simp_all add: dma_device_def)
  have "load_bytes (ram ?w2) a 16 = access_bytes ?req"
    unfolding r2 using len by (simp add: store_def load_store_same)
  moreover have "unat (SwapBytes64 (Address ?req)) = p" using p by (simp add: unat_of_nat)
  ultimately obtain w' where w': "dma_completes (DeviceProgress io) a (IoWrite32 io (FW_CFG_IO_DMA_ADDRESS + 4) (SwapBytes32 (of_nat a)) ?w2) w'"
    "fw_same m ?w2 w' (unat n)" "load_bytes (ram w') p (unat n) = fw_next m ?w2 (unat n)"
    using d [unfolded dma_device_def, THEN conjunct2, rule_format, of a ?w2 "SwapBytes32 (of_nat a)" ?req p "unat n"]
      h2 address_split [OF a] dis by auto
  have "fw_next m ?w2 (unat n) = fw_next m w (unat n)" "fw_same m w w' (unat n)"
    using w'(2) s2 1 by (simp_all add: fw_same_def fw_next_def)
  then show ?thesis using DmaPoll_completes [OF w'(1)] w'(3) by (simp add: DmaIssue_def Let_def)
qed

lemma DmaIssue_skip:
  assumes d: "dma_device io m" and a: "a < 2 ^ 64"
  shows "\<exists>w'. DmaIssue io a n p FW_CFG_DMA_CTL_SKIP w = Some (Ok w') \<and> fw_same m w w' (unat n)"
proof -
  let ?req = "\<lparr>Control = SwapBytes32 FW_CFG_DMA_CTL_SKIP, Length = SwapBytes32 n, Address = SwapBytes64 (of_nat p)\<rparr>"
  let ?w1 = "store a (access_bytes ?req) w"
  let ?w2 = "IoWrite32 io FW_CFG_IO_DMA_ADDRESS (SwapBytes32 (of_nat (a div 2 ^ 32))) ?w1"
  have r2: "ram ?w2 = ram ?w1" and s2: "fw_same m ?w1 ?w2 0" and h2: "fw_hi m (dev ?w2) = of_nat (a div 2 ^ 32)"
    using d by (simp_all add: dma_device_def)
  have "load_bytes (ram ?w2) a 16 = access_bytes ?req"
    unfolding r2 by (simp add: store_def load_store_same access_bytes_def)
  then obtain w' where w': "dma_completes (DeviceProgress io) a (IoWrite32 io (FW_CFG_IO_DMA_ADDRESS + 4) (SwapBytes32 (of_nat a)) ?w2) w'"
    "fw_same m ?w2 w' (unat n)"
    using d [unfolded dma_device_def, THEN conjunct2, rule_format, of a ?w2 "SwapBytes32 (of_nat a)" ?req _ "unat n"]
      h2 address_split [OF a] by auto
  then have "fw_same m w w' (unat n)" using s2 by (simp add: fw_same_def store_def)
  then show ?thesis using DmaPoll_completes [OF w'(1)] by (simp add: DmaIssue_def Let_def)
qed

text \<open>A usable configuration: the internal functions report the device as available;
  DMA is used only on a device that has it and with memory encryption off.\<close>

definition fw_config :: "'d fw_io \<times> 'd fw_internal \<times> 'd fw_model \<Rightarrow> bool" where
  "fw_config = (\<lambda>(io, impl, m). port_device io m \<and> InternalQemuFwCfgIsAvailable impl \<and>
     (InternalQemuFwCfgDmaIsAvailable impl \<longrightarrow>
        dma_device io m \<and> \<not> MemEncryptSevIsEnabled io \<and> AccessAddress io < 2 ^ 64 \<and> ResultAddress io < 2 ^ 64 \<and>
        (AccessAddress io + 16 \<le> ResultAddress io \<or> ResultAddress io + 64 \<le> AccessAddress io) \<and>
        InternalQemuFwCfgDmaBytes impl = InternalQemuFwCfgDmaBytes_Pei io))"

lemma ReadBytes_spec:
  assumes "port_device io m" and "InternalQemuFwCfgIsAvailable impl"
    and "InternalQemuFwCfgDmaIsAvailable impl \<Longrightarrow> dma_device io m \<and> \<not> MemEncryptSevIsEnabled io \<and>
           AccessAddress io < 2 ^ 64 \<and> buf < 2 ^ 64 \<and> (AccessAddress io + 16 \<le> buf \<or> buf + n \<le> AccessAddress io) \<and>
           InternalQemuFwCfgDmaBytes impl = InternalQemuFwCfgDmaBytes_Pei io"
  shows "\<exists>w'. QemuFwCfgReadBytes io impl n buf w = Some (Ok w') \<and> fw_same m w w' n \<and>
           load_bytes (ram w') buf n = fw_next m w n"
proof (cases "InternalQemuFwCfgDmaIsAvailable impl \<and> n \<le> MAX_UINT32")
  case True
  then have n: "unat (of_nat n :: u32) = n" by (simp add: MAX_UINT32_def unat_of_nat)
  have D: "QemuFwCfgReadBytes io impl n buf w = InternalQemuFwCfgDmaBytes_Pei io (of_nat n) buf FW_CFG_DMA_CTL_READ w"
    using True assms by (simp add: QemuFwCfgReadBytes_def InternalQemuFwCfgReadBytes_def)
  show ?thesis
  proof (cases "(of_nat n :: u32) = 0")
    case True
    then have "n = 0" using n by simp
    then show ?thesis unfolding D
      by (simp add: InternalQemuFwCfgDmaBytes_Pei_def dma_control_ok_def fw_same_def fw_next_def fw_window_def)
  next
    case False
    then show ?thesis
      using DmaIssue_read [of io m "AccessAddress io" buf "of_nat n" w] assms(3) True n D
      by (simp add: InternalQemuFwCfgDmaBytes_Pei_def dma_control_ok_def)
  qed
next
  case False
  from assms(1) obtain w1 where "IoReadFifo8 io FW_CFG_IO_DATA n w = (fw_next m w n, w1)" "fw_same m w w1 n"
    unfolding port_device_def by blast
  moreover have "length (fw_next m w n) = n" by (simp add: fw_next_def)
  ultimately show ?thesis using False assms(2)
    by (auto simp: QemuFwCfgReadBytes_def InternalQemuFwCfgReadBytes_def store_def load_store_same fw_same_def)
qed

definition port_select :: "'d fw_io \<times> 'd fw_internal \<times> 'd fw_model \<Rightarrow> u16 \<Rightarrow> 'd machine \<Rightarrow> 'd machine" where
  "port_select = (\<lambda>(io, impl, m). QemuFwCfgSelectItem io)"

definition port_fetch :: "'d fw_io \<times> 'd fw_internal \<times> 'd fw_model \<Rightarrow> 'd machine fetcher" where
  "port_fetch = (\<lambda>(io, impl, m). read_local io (QemuFwCfgReadBytes io impl))"

interpretation port: fw_reader fw_config "\<lambda>(io, impl, m) w. fw_item m (dev w)" "\<lambda>(io, impl, m) w. fw_sel m (dev w)"
  "\<lambda>(io, impl, m) w. fw_off m (dev w)" port_select port_fetch
proof (unfold_locales, goal_cases)
  case (1 c k w)
  then show ?case by (cases c) (auto simp: fw_config_def port_device_def port_select_def QemuFwCfgSelectItem_def)
next
  case (2 c n w)
  obtain io impl m where c: "c = (io, impl, m)" by (cases c)
  have "\<exists>w'. QemuFwCfgReadBytes io impl n (ResultAddress io) w = Some (Ok w') \<and> fw_same m w w' n \<and>
           load_bytes (ram w') (ResultAddress io) n = fw_next m w n"
    using 2 by (intro ReadBytes_spec) (auto simp: fw_config_def c)
  then show ?case by (auto simp: c port_fetch_def read_local_def fw_same_def fw_next_def)
qed

lemma FindFile_port:
  assumes "InternalQemuFwCfgIsAvailable impl"
  shows "QemuFwCfgFindFile io impl = find_file (read_local io (QemuFwCfgReadBytes io impl)) (QemuFwCfgSelectItem io)"
proof -
  let ?f = "read_local io (QemuFwCfgReadBytes io impl)"
  have i: "InternalQemuFwCfgReadBytes io impl = QemuFwCfgReadBytes io impl"
    using assms by (intro ext) (simp add: QemuFwCfgReadBytes_def)
  have r: "QemuFwCfgRead32 io impl = fetch_le ?f 4" "QemuFwCfgRead16 io impl = fetch_le ?f 2"
    by (intro ext, simp add: QemuFwCfgRead32_def QemuFwCfgRead16_def fetch_le_def)+
  have "FindFileLoop io impl nm k w = find_loop ?f nm k w" for nm k w
  proof (induction k arbitrary: w)
    case 0
    then show ?case by simp
  next
    case (Suc k)
    have "FindFileLoop io impl nm k = find_loop ?f nm k" by (intro ext) (rule Suc)
    show ?case unfolding FindFileLoop.simps find_loop.simps i r \<open>FindFileLoop io impl nm k = _\<close> ..
  qed
  then have "FindFileLoop io impl = find_loop ?f" by (intro ext)
  then show ?thesis using assms by (intro ext) (simp add: QemuFwCfgFindFile_def find_file_def r)
qed


lemma SkipLoop_spec:
  assumes "port_device io m"
  shows "fw_same m w (SkipLoop io b n w) n"
proof (induction n arbitrary: w rule: less_induct)
  case (less n)
  obtain w1 where r: "IoReadFifo8 io FW_CFG_IO_DATA (min n 256) w = (fw_next m w (min n 256), w1)"
    and s: "fw_same m w w1 (min n 256)"
    using assms unfolding port_device_def by blast
  let ?w2 = "store b (fw_next m w (min n 256)) w1"
  show ?case
  proof (cases "0 < n")
    case True
    then have "fw_same m ?w2 (SkipLoop io b (n - min n 256) ?w2) (n - min n 256)" by (intro less) auto
    then show ?thesis using True r s
      by (subst SkipLoop.simps) (simp add: Let_def fw_same_def store_def)
  next
    case False
    then show ?thesis by (subst SkipLoop.simps) (simp add: fw_same_def)
  qed
qed

text \<open>A concrete device for the witnesses: it completes a DMA request at once.\<close>

record demo_dev =
  dd_item :: "u16 \<Rightarrow> u8 list"
  dd_sel :: u16
  dd_off :: nat
  dd_hi :: u32

definition demo_model :: "demo_dev fw_model" where
  "demo_model = \<lparr>fw_item = dd_item, fw_sel = dd_sel, fw_off = dd_off, fw_hi = dd_hi\<rparr>"

definition demo_dma :: "nat \<Rightarrow> demo_dev machine \<Rightarrow> demo_dev machine" where
  "demo_dma a w =
    (let c = SwapBytes32 (of_nat (load_le (ram w) a 4));
         n = unat (SwapBytes32 (of_nat (load_le (ram w) (a + 4) 4)));
         p = unat (SwapBytes64 (of_nat (load_le (ram w) (a + 8) 8)));
         r = (if c = FW_CFG_DMA_CTL_READ then store_bytes (ram w) p (fw_next demo_model w n) else ram w)
     in w\<lparr>ram := store_le r a 4 0, dev := (dev w)\<lparr>dd_off := dd_off (dev w) + n\<rparr>\<rparr>)"

definition demo_io :: "demo_dev fw_io" where
  "demo_io =
    \<lparr>IoWrite16 = (\<lambda>port v w. w\<lparr>dev := (dev w)\<lparr>dd_sel := v, dd_off := 0\<rparr>\<rparr>),
     IoWrite32 = (\<lambda>port v w. if port = FW_CFG_IO_DMA_ADDRESS then w\<lparr>dev := (dev w)\<lparr>dd_hi := SwapBytes32 v\<rparr>\<rparr>
                             else demo_dma (unat (dd_hi (dev w)) * 2 ^ 32 + unat (SwapBytes32 v)) w),
     IoReadFifo8 = (\<lambda>port n w. (fw_next demo_model w n, w\<lparr>dev := (dev w)\<lparr>dd_off := dd_off (dev w) + n\<rparr>\<rparr>)),
     IoWriteFifo8 = (\<lambda>port bs w. w),
     DeviceProgress = (\<lambda>w. w), MemEncryptSevIsEnabled = False, AccessAddress = 4096, ResultAddress = 8192\<rparr>"

lemma demo_port: "port_device demo_io demo_model"
  by (simp add: port_device_def demo_io_def demo_model_def fw_same_def)

lemma load_access:
  assumes "load_bytes r a 16 = access_bytes req"
  shows "of_nat (load_le r a 4) = Control req" "of_nat (load_le r (a + 4) 4) = Length req" "of_nat (load_le r (a + 8) 8) = Address req"
proof -
  have "load_bytes r a 4 @ load_bytes r (a + 4) 4 @ load_bytes r (a + 8) 8 = access_bytes req"
    using assms load_bytes_append [of r a 4 12] load_bytes_append [of r "a + 4" 4 8] by (simp add: ac_simps)
  then have "load_bytes r a 4 = le_bytes 4 (unat (Control req))" "load_bytes r (a + 4) 4 = le_bytes 4 (unat (Length req))"
    "load_bytes r (a + 8) 8 = le_bytes 8 (unat (Address req))"
    by (simp_all add: access_bytes_def)
  then show "of_nat (load_le r a 4) = Control req" "of_nat (load_le r (a + 4) 4) = Length req" "of_nat (load_le r (a + 8) 8) = Address req"
    by (simp_all add: load_le_def codec_simps)
qed

lemma demo_dma_device: "dma_device demo_io demo_model"
proof -
  have hi: "IoWrite32 demo_io FW_CFG_IO_DMA_ADDRESS v w = w\<lparr>dev := (dev w)\<lparr>dd_hi := SwapBytes32 v\<rparr>\<rparr>" for v w
    by (simp add: demo_io_def)
  have lo: "IoWrite32 demo_io (FW_CFG_IO_DMA_ADDRESS + 4) v w =
      demo_dma (unat (fw_hi demo_model (dev w)) * 2 ^ 32 + unat (SwapBytes32 v)) w" for v w
    by (simp add: demo_io_def demo_model_def)
  have fin: "dma_completes (DeviceProgress demo_io) a (demo_dma a w) (demo_dma a w)" for a w
    by (rule dma_completes.cleared) (simp add: demo_dma_def Let_def mem_simps)
  have sm: "fw_same demo_model w (demo_dma a w) (unat (SwapBytes32 (Length req)))"
    if "load_bytes (ram w) a 16 = access_bytes req" for a w req
    using load_access(2) [OF that] by (simp add: demo_dma_def Let_def fw_same_def demo_model_def)
  have rd: "load_bytes (ram (demo_dma a w)) p n = fw_next demo_model w n"
    if l: "load_bytes (ram w) a 16 = access_bytes req" and c: "SwapBytes32 (Control req) = FW_CFG_DMA_CTL_READ"
      and p: "p = unat (SwapBytes64 (Address req))" and n: "n = unat (SwapBytes32 (Length req))"
      and dis: "a + 16 \<le> p \<or> p + n \<le> a" for a w req p n
  proof -
    have "ram (demo_dma a w) = store_le (store_bytes (ram w) p (fw_next demo_model w n)) a 4 0"
      using load_access [OF l] c p n by (simp add: demo_dma_def Let_def)
    moreover have "length (fw_next demo_model w n) = n" by (simp add: fw_next_def)
    ultimately show ?thesis using dis by (auto simp: store_le_def load_store_disjoint load_store_same)
  qed
  show ?thesis
    unfolding dma_device_def lo using fin sm rd
    by (intro conjI allI impI) (auto simp: hi fw_same_def demo_model_def, blast+)
qed

definition demo_impl :: "bool \<Rightarrow> demo_dev fw_internal" where
  "demo_impl dma = Pei_internal demo_io \<lparr>mQemuFwCfgSupported = True, mQemuFwCfgDmaSupported = dma\<rparr>"

lemma demo_config: "fw_config (demo_io, demo_impl dma, demo_model)"
  using demo_port demo_dma_device by (simp add: fw_config_def demo_impl_def Pei_internal_def demo_io_def)

definition demo_entry :: dir_entry where
  "demo_entry = \<lparr>de_size = 5, de_select = 0x21, de_reserved = 0, de_name = [0x61] @ replicate 55 0\<rparr>"

definition demo_machine :: "demo_dev machine" where
  "demo_machine = \<lparr>ram = (\<lambda>_. 0), dev = \<lparr>dd_item = (\<lambda>k. if k = QemuFwCfgItemFileDir then enc_dir [demo_entry] else []),
     dd_sel = 0, dd_off = 0, dd_hi = 0\<rparr>\<rparr>"

section \<open>Properties\<close>

text \<open>
  Property C20. \<open>QemuFwCfgFindFile\<close> on a directory of \<open>es\<close> (fewer than 2^32 entries with
  56-byte names) returns, for a name shorter than 56 bytes, the selector and size
  of the first entry with that name, decoded from big endian, or not-found; it
  returns the same whether the bytes come through the data port or by DMA, and
  leaves the items alone.
\<close>

theorem QemuFwCfgFindFile_first:
  assumes "fw_config (io, impl, m)" and "fw_item m (dev w) QemuFwCfgItemFileDir = enc_dir es @ suf"
    and "length nm < 56" and "\<forall>e \<in> set es. length (de_name e) = 56" and "length es < 2 ^ 32"
  shows "\<exists>w'. QemuFwCfgFindFile io impl nm w = Some (Ok (lookup_file nm es, w')) \<and> fw_item m (dev w') = fw_item m (dev w)"
proof -
  have "InternalQemuFwCfgIsAvailable impl" using assms(1) by (simp add: fw_config_def)
  then show ?thesis
    using port.find_file_spec [OF assms(1), of w es suf nm] assms(2-5)
    by (simp add: FindFile_port port_fetch_def port_select_def)
qed

theorem QemuFwCfgFindFile_first_witness:
  "\<exists>w'. QemuFwCfgFindFile demo_io (demo_impl True) [0x61] demo_machine = Some (Ok (Inr (0x21, 5), w'))"
proof -
  have "AsciiStrEq [0x61] (de_name demo_entry) = Ok True"
    by (simp add: demo_entry_def numeral_eq_Suc)
  then have "lookup_file [0x61] [demo_entry] = Inr (0x21, 5)"
    by (simp add: lookup_file_def) (simp add: demo_entry_def)
  then show ?thesis
    using QemuFwCfgFindFile_first [OF demo_config, of demo_machine "[demo_entry]" "[]" "[0x61]" True]
    by (auto simp: demo_machine_def demo_model_def demo_entry_def)
qed

text \<open>
  Property C25. A read delivers the next bytes of the selected item to the caller's
  buffer (zero bytes past the end) and advances the offset by the size, for every
  size and both transports: the DMA transfer of the PEI and DXE variants and the
  byte loop on the data port are interchangeable.
\<close>

theorem QemuFwCfgReadBytes_delivers:
  assumes "port_device io m" and "dma_device io m" and "\<not> MemEncryptSevIsEnabled io" and "mQemuFwCfgSupported v"
    and "AccessAddress io < 2 ^ 64" and "buf < 2 ^ 64" and "AccessAddress io + 16 \<le> buf \<or> buf + n \<le> AccessAddress io"
    and "impl = Sec_internal io \<or> impl = Pei_internal io v \<or> impl = Dxe_internal mmu io v"
  shows "\<exists>w'. QemuFwCfgReadBytes io impl n buf w = Some (Ok w') \<and> load_bytes (ram w') buf n = fw_next m w n \<and>
           fw_same m w w' n"
proof -
  have "\<exists>w'. QemuFwCfgReadBytes io impl n buf w = Some (Ok w') \<and> fw_same m w w' n \<and>
           load_bytes (ram w') buf n = fw_next m w n"
    using assms DmaBytes_Dxe_plain [of io mmu]
    by (intro ReadBytes_spec) (auto simp: Sec_internal_def Pei_internal_def Dxe_internal_def)
  then show ?thesis by blast
qed

theorem QemuFwCfgReadBytes_delivers_witness:
  "\<exists>w'. QemuFwCfgReadBytes demo_io (demo_impl True) 7 0 demo_machine = Some (Ok w') \<and>
        load_bytes (ram w') 0 7 = fw_next demo_model demo_machine 7"
  using QemuFwCfgReadBytes_delivers [OF demo_port demo_dma_device, of
      "\<lparr>mQemuFwCfgSupported = True, mQemuFwCfgDmaSupported = True\<rparr>" 0 7 "demo_impl True" undefined demo_machine]
  by (auto simp: demo_impl_def demo_io_def)


text \<open>
  \<open>QemuFwCfgSkipBytes\<close> advances the offset by exactly the size, whether
  it issues one DMA skip or drains the data port in chunks of 256 bytes, so a
  read after a skip starts \<open>n\<close> bytes further.
\<close>

theorem QemuFwCfgSkipBytes_advances:
  assumes "port_device io m" and "dma_device io m" and "\<not> MemEncryptSevIsEnabled io" and "mQemuFwCfgSupported v"
    and "AccessAddress io < 2 ^ 64"
    and "impl = Sec_internal io \<or> impl = Pei_internal io v \<or> impl = Dxe_internal mmu io v"
  shows "\<exists>w'. QemuFwCfgSkipBytes io impl n w = Some (Ok w') \<and> fw_same m w w' n \<and>
           fw_next m w (n + k) = fw_next m w n @ fw_next m w' k"
proof -
  have av: "InternalQemuFwCfgIsAvailable impl"
    and dma: "InternalQemuFwCfgDmaIsAvailable impl \<Longrightarrow> InternalQemuFwCfgDmaBytes impl = InternalQemuFwCfgDmaBytes_Pei io"
    using assms(3,4,6) DmaBytes_Dxe_plain [of io mmu] by (auto simp: Sec_internal_def Pei_internal_def Dxe_internal_def)
  have "\<exists>w'. QemuFwCfgSkipBytes io impl n w = Some (Ok w') \<and> fw_same m w w' n"
  proof (cases "InternalQemuFwCfgDmaIsAvailable impl \<and> n \<le> MAX_UINT32")
    case True
    then have n: "unat (of_nat n :: u32) = n" by (simp add: MAX_UINT32_def unat_of_nat)
    then have z: "(of_nat n :: u32) = 0 \<longleftrightarrow> n = 0" using unat_eq_0 [of "of_nat n :: u32"] by simp
    have D: "QemuFwCfgSkipBytes io impl n w = InternalQemuFwCfgDmaBytes_Pei io (of_nat n) 0 FW_CFG_DMA_CTL_SKIP w"
      using True av dma by (simp add: QemuFwCfgSkipBytes_def)
    show ?thesis using DmaIssue_skip [OF assms(2,5), of "of_nat n" 0 w] assms(3) n z unfolding D
      by (cases "n = 0") (simp_all add: InternalQemuFwCfgDmaBytes_Pei_def dma_control_ok_def fw_same_def)
  next
    case False
    then have "QemuFwCfgSkipBytes io impl n w = Some (Ok (SkipLoop io (ResultAddress io) n w))"
      using av by (auto simp: QemuFwCfgSkipBytes_def)
    then show ?thesis using SkipLoop_spec [OF assms(1)] by blast
  qed
  moreover have "fw_next m w (n + k) = fw_next m w n @ fw_next m w' k" if "fw_same m w w' n" for w'
    using that by (simp add: fw_next_def fw_same_def fw_window_Suc)
  ultimately show ?thesis by blast
qed

theorem QemuFwCfgSkipBytes_advances_witness:
  "\<exists>w'. QemuFwCfgSkipBytes demo_io (demo_impl False) 600 demo_machine = Some (Ok w') \<and>
        fw_same demo_model demo_machine w' 600"
  using QemuFwCfgSkipBytes_advances [OF demo_port demo_dma_device, of
      "\<lparr>mQemuFwCfgSupported = True, mQemuFwCfgDmaSupported = False\<rparr>" "demo_impl False" undefined 600 demo_machine 1]
  by (auto simp: demo_impl_def demo_io_def)

text \<open>
  Initialization probes the signature and interface version items
  through the data port.  The PEI variant marks the interface supported exactly
  when the signature is \<open>QEMU\<close> and the revision is not zero, and DMA exactly when
  in addition bit 1 of the revision is set and memory encryption is off; the DXE
  variant agrees with it when memory encryption is off.
\<close>

theorem QemuFwCfgInitialize_probes:
  fixes rv :: u32
  assumes "port_device io m" and "fw_item m (dev w) QemuFwCfgItemSignature = le_bytes 4 (unat sg)"
    and "fw_item m (dev w) QemuFwCfgItemInterfaceVersion = le_bytes 4 (unat rv)"
  shows "\<exists>v w'. QemuFwCfgInitialize_Pei io w = Some (Ok (v, w')) \<and>
    (QemuFwCfgIsAvailable v \<longleftrightarrow> sg = SIGNATURE_QEMU \<and> rv \<noteq> 0) \<and>
    (mQemuFwCfgDmaSupported v \<longleftrightarrow> QemuFwCfgIsAvailable v \<and> bit rv 1 \<and> \<not> MemEncryptSevIsEnabled io) \<and>
    (\<not> MemEncryptSevIsEnabled io \<longrightarrow> QemuFwCfgInitialize_Dxe mmu st io w = Some (Ok (v, w')))"
proof -
  have rd: "\<exists>w'. QemuFwCfgRead32 io impl (QemuFwCfgSelectItem io k w0) = Some (Ok (x, w')) \<and>
       fw_item m (dev w') = fw_item m (dev w0)"
    if "InternalQemuFwCfgIsAvailable impl" "\<not> InternalQemuFwCfgDmaIsAvailable impl"
      and it: "fw_item m (dev w0) k = le_bytes 4 (unat x)" for impl k w0 and x :: u32
  proof -
    have c: "fw_config (io, impl, m)" using assms(1) that by (simp add: fw_config_def)
    obtain w' where "fetch_le (port_fetch (io, impl, m)) 4 (port_select (io, impl, m) k w0) =
          Some (Ok (of_nat (le_val (le_bytes 4 (unat x))) :: u32, w'))" "port.at_pos (io, impl, m) w' k (fw_item m (dev w0)) (0 + 4)"
      by (rule port.fetch_le_at [OF c port.at_pos_select [OF c refl, of k w0], where x = "le_bytes 4 (unat x)" and pre = "[]" and suf = "[]" and n = 4])
        (auto simp: it)
    then show ?thesis
      by (auto simp: port_fetch_def port_select_def fetch_le_def QemuFwCfgRead32_def port.at_pos_def codec_simps)
  qed
  let ?P = "Pei_internal io probe_vars" and ?D = "Dxe_internal mmu io probe_vars"
  have pd: "QemuFwCfgRead32 io ?D = QemuFwCfgRead32 io ?P"
    by (intro ext) (simp add: QemuFwCfgRead32_def read_local_def QemuFwCfgReadBytes_def InternalQemuFwCfgReadBytes_def
        Pei_internal_def Dxe_internal_def probe_vars_def)
  have P: "InternalQemuFwCfgIsAvailable ?P" "\<not> InternalQemuFwCfgDmaIsAvailable ?P"
    by (simp_all add: Pei_internal_def probe_vars_def)
  obtain w1 where 1: "QemuFwCfgRead32 io ?P (QemuFwCfgSelectItem io QemuFwCfgItemSignature w) = Some (Ok (sg, w1))"
    "fw_item m (dev w1) = fw_item m (dev w)" using rd [OF P assms(2)] by blast
  obtain w2 where 2: "QemuFwCfgRead32 io ?P (QemuFwCfgSelectItem io QemuFwCfgItemInterfaceVersion w1) = Some (Ok (rv, w2))"
    using rd [OF P, of w1 QemuFwCfgItemInterfaceVersion rv] 1(2) assms(3) by auto
  have b: "and rv FW_CFG_F_DMA = 0 \<longleftrightarrow> \<not> bit rv 1"
    using and_exp_eq_0_iff_not_bit [of rv 1] by (simp add: FW_CFG_F_DMA_def)
  have "rv < 1 \<longleftrightarrow> rv = 0" by (metis word_less_1)
  moreover have "mQemuFwCfgSupported probe_vars" "\<not> mQemuFwCfgDmaSupported probe_vars" by (simp_all add: probe_vars_def)
  ultimately show ?thesis
    using 1(1) 2 b by (auto simp: QemuFwCfgInitialize_Pei_def QemuFwCfgInitialize_Dxe_def pd Let_def QemuFwCfgIsAvailable_def)
qed

theorem QemuFwCfgInitialize_probes_witness:
  "\<exists>v w'. QemuFwCfgInitialize_Pei demo_io (demo_machine\<lparr>dev := (dev demo_machine)\<lparr>dd_item := (\<lambda>k. if k = 0
       then le_bytes 4 (unat SIGNATURE_QEMU) else le_bytes 4 (unat (3 :: u32)))\<rparr>\<rparr>) = Some (Ok (v, w')) \<and> mQemuFwCfgDmaSupported v"
proof -
  have "bit (3 :: u32) 1" by code_simp
  then show ?thesis
    using QemuFwCfgInitialize_probes [OF demo_port, of "demo_machine\<lparr>dev := (dev demo_machine)\<lparr>dd_item := (\<lambda>k. if k = 0
       then le_bytes 4 (unat SIGNATURE_QEMU) else le_bytes 4 (unat (3 :: u32)))\<rparr>\<rparr>" SIGNATURE_QEMU 3 undefined EFI_SUCCESS]
    by (auto simp: demo_model_def fw_constants demo_io_def)
qed

end
