(* ===== verification/FwCfgMmio.thy ===== *)
theory FwCfgMmio
  imports FwCfg
begin

text \<open>
  Model of \<open>QemuPkg/Library/QemuFwCfgLib/QemuFwCfgLibMmio.c\<close>, the memory-mapped
  variant of the fw_cfg library.  The static variables are a record; the three
  function pointers (all MMIO or all DMA) are the flag \<open>mUseDma\<close>.  \<open>Wide\<close>
  says whether the code is compiled for a 64-bit register interface (\<open>AARCH64\<close>,
  \<open>RISCV64\<close>); register accesses are arguments.
\<close>

section \<open>Definitions\<close>

record 'd mmio_io =
  MmioRead8 :: "nat \<Rightarrow> 'd machine \<Rightarrow> u8 \<times> 'd machine"
  MmioRead16 :: "nat \<Rightarrow> 'd machine \<Rightarrow> u16 \<times> 'd machine"
  MmioRead32 :: "nat \<Rightarrow> 'd machine \<Rightarrow> u32 \<times> 'd machine"
  MmioRead64 :: "nat \<Rightarrow> 'd machine \<Rightarrow> u64 \<times> 'd machine"
  MmioWrite8 :: "nat \<Rightarrow> u8 \<Rightarrow> 'd machine \<Rightarrow> 'd machine"
  MmioWrite16 :: "nat \<Rightarrow> u16 \<Rightarrow> 'd machine \<Rightarrow> 'd machine"
  MmioWrite32 :: "nat \<Rightarrow> u32 \<Rightarrow> 'd machine \<Rightarrow> 'd machine"
  MmioWrite64 :: "nat \<Rightarrow> u64 \<Rightarrow> 'd machine \<Rightarrow> 'd machine"
  MmioProgress :: "'d machine \<Rightarrow> 'd machine"
  Wide :: bool
  AccessLocal :: nat
  ResultLocal :: nat

record mmio_vars =
  mFwCfgSelectorAddress :: nat
  mFwCfgDataAddress :: nat
  mFwCfgDmaAddress :: nat
  mUseDma :: bool

definition MmioIsAvailable :: "mmio_vars \<Rightarrow> bool" where
  "MmioIsAvailable v \<longleftrightarrow> mFwCfgSelectorAddress v \<noteq> 0 \<and> mFwCfgDataAddress v \<noteq> 0"

definition MmioSelectItem :: "'d mmio_io \<Rightarrow> mmio_vars \<Rightarrow> u16 \<Rightarrow> 'd machine \<Rightarrow> 'd machine" where
  "MmioSelectItem io v QemuFwCfgItem w =
    (if MmioIsAvailable v then MmioWrite16 io (mFwCfgSelectorAddress v) (SwapBytes16 QemuFwCfgItem) w else w)"

text \<open>The word loops of \<open>MmioReadBytes\<close>.\<close>

function MmioLoop64 :: "'d mmio_io \<Rightarrow> nat \<Rightarrow> nat \<Rightarrow> nat \<Rightarrow> 'd machine \<Rightarrow> 'd machine" where
  "MmioLoop64 io reg Ptr End w =
    (if Ptr < End
     then (case MmioRead64 io reg w of (x, w1) \<Rightarrow> MmioLoop64 io reg (Ptr + 8) End (store Ptr (le_bytes 8 (unat x)) w1))
     else w)"
  by pat_completeness auto
termination
  by (relation "measure (\<lambda>(io, reg, p, e, w). e - p)") auto

function MmioLoop32 :: "'d mmio_io \<Rightarrow> nat \<Rightarrow> nat \<Rightarrow> nat \<Rightarrow> 'd machine \<Rightarrow> 'd machine" where
  "MmioLoop32 io reg Ptr End w =
    (if Ptr < End
     then (case MmioRead32 io reg w of (x, w1) \<Rightarrow> MmioLoop32 io reg (Ptr + 4) End (store Ptr (le_bytes 4 (unat x)) w1))
     else w)"
  by pat_completeness auto
termination
  by (relation "measure (\<lambda>(io, reg, p, e, w). e - p)") auto

declare MmioLoop64.simps [simp del] MmioLoop32.simps [simp del]

text \<open>The tail of fewer than eight (four) bytes.\<close>

definition MmioTail32 :: "'d mmio_io \<Rightarrow> nat \<Rightarrow> nat \<Rightarrow> nat \<Rightarrow> 'd machine \<Rightarrow> nat \<times> 'd machine" where
  "MmioTail32 io reg nLeft Ptr w =
    (if and nLeft 4 \<noteq> 0 then (case MmioRead32 io reg w of (x, w1) \<Rightarrow> (Ptr + 4, store Ptr (le_bytes 4 (unat x)) w1))
     else (Ptr, w))"

definition MmioTail16 :: "'d mmio_io \<Rightarrow> nat \<Rightarrow> nat \<Rightarrow> nat \<Rightarrow> 'd machine \<Rightarrow> nat \<times> 'd machine" where
  "MmioTail16 io reg nLeft Ptr w =
    (if and nLeft 2 \<noteq> 0 then (case MmioRead16 io reg w of (x, w1) \<Rightarrow> (Ptr + 2, store Ptr (le_bytes 2 (unat x)) w1))
     else (Ptr, w))"

definition MmioTail8 :: "'d mmio_io \<Rightarrow> nat \<Rightarrow> nat \<Rightarrow> nat \<Rightarrow> 'd machine \<Rightarrow> 'd machine" where
  "MmioTail8 io reg nLeft Ptr w =
    (if and nLeft 1 \<noteq> 0 then (case MmioRead8 io reg w of (x, w1) \<Rightarrow> store Ptr [x] w1) else w)"

definition MmioReadBytes :: "'d mmio_io \<Rightarrow> mmio_vars \<Rightarrow> nat \<Rightarrow> nat \<Rightarrow> 'd machine \<Rightarrow> 'd machine" where
  "MmioReadBytes io v Sz Buffer w =
    (let reg = mFwCfgDataAddress v;
         nLeft = (if Wide io then and Sz 7 else and Sz 3);
         End = Buffer + (Sz - nLeft);
         (Ptr, w1) = (if Wide io then MmioTail32 io reg nLeft End (MmioLoop64 io reg Buffer End w)
                      else (End, MmioLoop32 io reg Buffer End w));
         (Ptr2, w2) = MmioTail16 io reg nLeft Ptr w1
     in MmioTail8 io reg nLeft Ptr2 w2)"

definition mmio_dma_start :: "'d mmio_io \<Rightarrow> mmio_vars \<Rightarrow> nat \<Rightarrow> 'd machine \<Rightarrow> 'd machine" where
  "mmio_dma_start io v access w =
    (if Wide io then MmioWrite64 io (mFwCfgDmaAddress v) (SwapBytes64 (of_nat access)) w
     else MmioWrite32 io (mFwCfgDmaAddress v + 4) (SwapBytes32 (of_nat access)) w)"

definition DmaTransferBytes :: "'d mmio_io \<Rightarrow> mmio_vars \<Rightarrow> nat \<Rightarrow> nat \<Rightarrow> u32 \<Rightarrow> 'd machine \<Rightarrow> 'd machine run" where
  "DmaTransferBytes io v Sz Buffer Ctl w =
    (if \<not> dma_control_ok Ctl then Some AssertFailed
     else if Sz = 0 then Some (Ok w)
     else if \<not> Sz \<le> MAX_UINT32 then Some AssertFailed
     else
       let req = \<lparr>Control = SwapBytes32 Ctl, Length = SwapBytes32 (of_nat Sz), Address = SwapBytes64 (of_nat Buffer)\<rparr>;
           w1 = store (AccessLocal io) (access_bytes req) w
       in DmaPoll (MmioProgress io) (AccessLocal io) (mmio_dma_start io v (AccessLocal io) w1))"

definition DmaReadBytes :: "'d mmio_io \<Rightarrow> mmio_vars \<Rightarrow> nat \<Rightarrow> nat \<Rightarrow> 'd machine \<Rightarrow> 'd machine run" where
  "DmaReadBytes io v Sz Buffer w = DmaTransferBytes io v Sz Buffer FW_CFG_DMA_CTL_READ w"

definition DmaWriteBytes :: "'d mmio_io \<Rightarrow> mmio_vars \<Rightarrow> nat \<Rightarrow> nat \<Rightarrow> 'd machine \<Rightarrow> 'd machine run" where
  "DmaWriteBytes io v Sz Buffer w = DmaTransferBytes io v Sz Buffer FW_CFG_DMA_CTL_WRITE w"

definition DmaSkipBytes :: "'d mmio_io \<Rightarrow> mmio_vars \<Rightarrow> nat \<Rightarrow> 'd machine \<Rightarrow> 'd machine run" where
  "DmaSkipBytes io v Sz w = DmaTransferBytes io v Sz 0 FW_CFG_DMA_CTL_SKIP w"

definition MmioWriteBytes :: "'d mmio_io \<Rightarrow> mmio_vars \<Rightarrow> nat \<Rightarrow> nat \<Rightarrow> 'd machine \<Rightarrow> 'd machine" where
  "MmioWriteBytes io v Sz Buffer w =
     fold (\<lambda>Idx w. MmioWrite8 io (mFwCfgDataAddress v) (ram w (Buffer + Idx)) w) [0..<Sz] w"

function MmioSkipBytes :: "'d mmio_io \<Rightarrow> mmio_vars \<Rightarrow> nat \<Rightarrow> 'd machine \<Rightarrow> 'd machine" where
  "MmioSkipBytes io v Sz w =
    (if 0 < Sz
     then (let ChunkSize = min Sz 256 in MmioSkipBytes io v (Sz - ChunkSize) (MmioReadBytes io v ChunkSize (ResultLocal io) w))
     else w)"
  by pat_completeness auto
termination
  by (relation "measure (\<lambda>(io, v, n, w). n)") auto

declare MmioSkipBytes.simps [simp del]

text \<open>The public functions; the prefix \<open>MmioLib\<close> tells them from the port library.\<close>

definition MmioLib_InternalReadBytes :: "'d mmio_io \<Rightarrow> mmio_vars \<Rightarrow> nat \<Rightarrow> nat \<Rightarrow> 'd machine \<Rightarrow> 'd machine run" where
  "MmioLib_InternalReadBytes io v Sz Buffer w =
    (if mUseDma v then DmaReadBytes io v Sz Buffer w else Some (Ok (MmioReadBytes io v Sz Buffer w)))"

definition MmioLib_ReadBytes :: "'d mmio_io \<Rightarrow> mmio_vars \<Rightarrow> nat \<Rightarrow> nat \<Rightarrow> 'd machine \<Rightarrow> 'd machine run" where
  "MmioLib_ReadBytes io v Sz Buffer w =
    (if MmioIsAvailable v then MmioLib_InternalReadBytes io v Sz Buffer w
     else Some (Ok (store Buffer (replicate Sz 0) w)))"

definition MmioLib_WriteBytes :: "'d mmio_io \<Rightarrow> mmio_vars \<Rightarrow> nat \<Rightarrow> nat \<Rightarrow> 'd machine \<Rightarrow> 'd machine run" where
  "MmioLib_WriteBytes io v Sz Buffer w =
    (if MmioIsAvailable v
     then if mUseDma v then DmaWriteBytes io v Sz Buffer w else Some (Ok (MmioWriteBytes io v Sz Buffer w))
     else Some (Ok w))"

definition MmioLib_SkipBytes :: "'d mmio_io \<Rightarrow> mmio_vars \<Rightarrow> nat \<Rightarrow> 'd machine \<Rightarrow> 'd machine run" where
  "MmioLib_SkipBytes io v Sz w =
    (if MmioIsAvailable v
     then if mUseDma v then DmaSkipBytes io v Sz w else Some (Ok (MmioSkipBytes io v Sz w))
     else Some (Ok w))"

definition mmio_local :: "'d mmio_io \<Rightarrow> (nat \<Rightarrow> nat \<Rightarrow> 'd machine \<Rightarrow> 'd machine run) \<Rightarrow> 'd machine fetcher" where
  "mmio_local io rd n w =
     run_bind (rd n (ResultLocal io) w) (\<lambda>w1. Some (Ok (load_bytes (ram w1) (ResultLocal io) n, w1)))"

definition MmioLib_Read8 :: "'d mmio_io \<Rightarrow> mmio_vars \<Rightarrow> 'd machine \<Rightarrow> (u8 \<times> 'd machine) run" where
  "MmioLib_Read8 io v = fetch_le (mmio_local io (MmioLib_ReadBytes io v)) 1"

definition MmioLib_Read16 :: "'d mmio_io \<Rightarrow> mmio_vars \<Rightarrow> 'd machine \<Rightarrow> (u16 \<times> 'd machine) run" where
  "MmioLib_Read16 io v = fetch_le (mmio_local io (MmioLib_ReadBytes io v)) 2"

definition MmioLib_Read32 :: "'d mmio_io \<Rightarrow> mmio_vars \<Rightarrow> 'd machine \<Rightarrow> (u32 \<times> 'd machine) run" where
  "MmioLib_Read32 io v = fetch_le (mmio_local io (MmioLib_ReadBytes io v)) 4"

definition MmioLib_Read64 :: "'d mmio_io \<Rightarrow> mmio_vars \<Rightarrow> 'd machine \<Rightarrow> (u64 \<times> 'd machine) run" where
  "MmioLib_Read64 io v = fetch_le (mmio_local io (MmioLib_ReadBytes io v)) 8"

primrec MmioLib_FindFileLoop ::
  "'d mmio_io \<Rightarrow> mmio_vars \<Rightarrow> u8 list \<Rightarrow> nat \<Rightarrow> 'd machine \<Rightarrow> ((EFI_STATUS + u16 \<times> nat) \<times> 'd machine) run" where
  "MmioLib_FindFileLoop io v nm 0 w = Some (Ok (Inl EFI_NOT_FOUND, w))"
| "MmioLib_FindFileLoop io v nm (Suc k) w =
    run_bind (MmioLib_Read32 io v w) (\<lambda>(FileSize, w1).
    run_bind (MmioLib_Read16 io v w1) (\<lambda>(FileSelect, w2).
    run_bind (MmioLib_Read16 io v w2) (\<lambda>(_, w3).
    run_bind (mmio_local io (MmioLib_InternalReadBytes io v) QEMU_FW_CFG_FNAME_SIZE w3) (\<lambda>(FName, w4).
    run_bind (Some (AsciiStrEq nm FName)) (\<lambda>eq.
      if eq then Some (Ok (Inr (SwapBytes16 FileSelect, unat (SwapBytes32 FileSize)), w4))
      else MmioLib_FindFileLoop io v nm k w4)))))"

definition MmioLib_FindFile ::
  "'d mmio_io \<Rightarrow> mmio_vars \<Rightarrow> u8 list \<Rightarrow> 'd machine \<Rightarrow> ((EFI_STATUS + u16 \<times> nat) \<times> 'd machine) run" where
  "MmioLib_FindFile io v nm w =
    (if \<not> MmioIsAvailable v then Some (Ok (Inl EFI_UNSUPPORTED, w))
     else run_bind (MmioLib_Read32 io v (MmioSelectItem io v QemuFwCfgItemFileDir w)) (\<lambda>(c, w1).
       MmioLib_FindFileLoop io v nm (unat (SwapBytes32 c)) w1))"

text \<open>
  \<open>QemuFwCfgInitialize\<close>.  \<open>Locate\<close> is the status of locating the device tree
  client; \<open>Node\<close> is what \<open>FindCompatibleNodeReg\<close> returns: the error, or the cell
  counts, the size of the \<open>reg\<close> property and its two words.
\<close>

definition MmioLib_Initialize ::
  "'d mmio_io \<Rightarrow> EFI_STATUS \<Rightarrow> EFI_STATUS + nat \<times> nat \<times> nat \<times> u64 \<times> u64 \<Rightarrow> mmio_vars \<Rightarrow> 'd machine
   \<Rightarrow> (mmio_vars \<times> 'd machine) run" where
  "MmioLib_Initialize io Locate Node v w =
    (if EFI_ERROR Locate then Some AssertFailed
     else case Node of
       Inl Status \<Rightarrow> Some (Ok (v, w))
     | Inr (AddressCells, SizeCells, RegSize, reg0, reg1) \<Rightarrow>
         if AddressCells \<noteq> 2 \<or> SizeCells \<noteq> 2 \<or> RegSize \<noteq> 16 then Some AssertFailed
         else
           let FwCfgDataAddress = SwapBytes64 reg0;
               FwCfgSelectorAddress = FwCfgDataAddress + 8
           in if \<not> unat FwCfgSelectorAddress \<le> 0xFFFFFFFFFFFFFFFF - 2 + 1 \<or> \<not> unat FwCfgDataAddress \<le> 0xFFFFFFFFFFFFFFFF - 8 + 1
              then Some AssertFailed
              else if SwapBytes64 reg1 \<ge> 0x18 \<and> \<not> unat (FwCfgDataAddress + 0x10) \<le> 0xFFFFFFFFFFFFFFFF - 8 + 1
              then Some AssertFailed
              else
                let FwCfgDmaAddress = (if SwapBytes64 reg1 \<ge> 0x18 then FwCfgDataAddress + 0x10 else 0);
                    v1 = v\<lparr>mFwCfgSelectorAddress := unat FwCfgSelectorAddress, mFwCfgDataAddress := unat FwCfgDataAddress\<rparr>
                in if \<not> MmioIsAvailable v1 then Some (Ok (v1, w))
                   else run_bind (MmioLib_Read32 io v1 (MmioSelectItem io v1 QemuFwCfgItemSignature w)) (\<lambda>(Signature, w1).
                     if Signature = SIGNATURE_QEMU then
                       if FwCfgDmaAddress \<noteq> 0 then
                         run_bind (MmioLib_Read32 io v1 (MmioSelectItem io v1 QemuFwCfgItemInterfaceVersion w1)) (\<lambda>(Features, w2).
                           if and Features FW_CFG_F_DMA \<noteq> 0
                           then Some (Ok (v1\<lparr>mFwCfgDmaAddress := unat FwCfgDmaAddress, mUseDma := True\<rparr>, w2))
                           else Some (Ok (v1, w2)))
                       else Some (Ok (v1, w1))
                     else Some (Ok (v1\<lparr>mFwCfgSelectorAddress := 0, mFwCfgDataAddress := 0\<rparr>, w1))))"

section \<open>The register interface meets the reader contract\<close>

text \<open>
  Hypothesis on the device: a write of the (big-endian) selector selects and
  rewinds; a data register access of 1, 2, 4 or 8 bytes returns the next bytes of
  the item in memory order and leaves RAM alone.
\<close>

definition mmio_device :: "'d mmio_io \<Rightarrow> mmio_vars \<Rightarrow> 'd fw_model \<Rightarrow> bool" where
  "mmio_device io v m \<longleftrightarrow>
    (\<forall>k w. let w' = MmioWrite16 io (mFwCfgSelectorAddress v) k w in
       fw_item m (dev w') = fw_item m (dev w) \<and> fw_sel m (dev w') = SwapBytes16 k \<and> fw_off m (dev w') = 0) \<and>
    (\<forall>w. \<exists>d. MmioRead8 io (mFwCfgDataAddress v) w = (of_nat (le_val (fw_next m w 1)), w\<lparr>dev := d\<rparr>) \<and> fw_same m w (w\<lparr>dev := d\<rparr>) 1) \<and>
    (\<forall>w. \<exists>d. MmioRead16 io (mFwCfgDataAddress v) w = (of_nat (le_val (fw_next m w 2)), w\<lparr>dev := d\<rparr>) \<and> fw_same m w (w\<lparr>dev := d\<rparr>) 2) \<and>
    (\<forall>w. \<exists>d. MmioRead32 io (mFwCfgDataAddress v) w = (of_nat (le_val (fw_next m w 4)), w\<lparr>dev := d\<rparr>) \<and> fw_same m w (w\<lparr>dev := d\<rparr>) 4) \<and>
    (\<forall>w. \<exists>d. MmioRead64 io (mFwCfgDataAddress v) w = (of_nat (le_val (fw_next m w 8)), w\<lparr>dev := d\<rparr>) \<and> fw_same m w (w\<lparr>dev := d\<rparr>) 8)"

text \<open>\<open>got m w p n w'\<close>: from \<open>w\<close> to \<open>w'\<close> exactly the next \<open>n\<close> bytes were stored at \<open>p\<close>.\<close>

definition got :: "'d fw_model \<Rightarrow> 'd machine \<Rightarrow> nat \<Rightarrow> nat \<Rightarrow> 'd machine \<Rightarrow> bool" where
  "got m w p n w' \<longleftrightarrow> fw_same m w w' n \<and> ram w' = store_bytes (ram w) p (fw_next m w n)"

lemma length_fw_next [simp]: "length (fw_next m w n) = n"
  by (simp add: fw_next_def)

lemma store_bytes_nil [simp]: "store_bytes r p [] = r"
  by (auto simp: store_bytes_def fun_eq_iff)

lemma store_bytes_append: "store_bytes (store_bytes r p xs) (p + length xs) ys = store_bytes r p (xs @ ys)"
  by (auto simp: store_bytes_def fun_eq_iff nth_append)

lemma got_0: "got m w p 0 w"
  by (simp add: got_def fw_same_def fw_next_def fw_window_def)

lemma got_trans:
  assumes "got m w p a w1" and "got m w1 (p + a) b w2"
  shows "got m w p (a + b) w2"
proof -
  have "fw_next m w (a + b) = fw_next m w a @ fw_next m w1 b"
    using assms(1) by (simp add: got_def fw_next_def fw_same_def fw_window_Suc)
  then show ?thesis using assms store_bytes_append [of "ram w" p "fw_next m w a" "fw_next m w1 b"]
    by (simp add: got_def fw_same_def)
qed

lemma word_bytes:
  assumes "LENGTH('a::len) = 8 * n" and "length bs = n"
  shows "le_bytes n (unat (of_nat (le_val bs) :: 'a word)) = bs"
proof -
  have "(2::nat) ^ LENGTH('a) = 256 ^ n" using assms(1) by (simp add: power_mult)
  then have "unat (of_nat (le_val bs) :: 'a word) = le_val bs"
    using le_val_less [of bs] assms(2) by (simp add: unat_of_nat)
  then show ?thesis using le_bytes_le_val [of bs] assms(2) by simp
qed

lemma got_word:
  assumes "fw_same m w (w\<lparr>dev := d\<rparr>) n" and "bs = fw_next m w n"
  shows "got m w p n (store p bs (w\<lparr>dev := d\<rparr>))"
  using assms by (simp add: got_def store_def fw_same_def)

lemma got_reg:
  assumes "\<exists>d. r = (x, w\<lparr>dev := d\<rparr>) \<and> fw_same m w (w\<lparr>dev := d\<rparr>) n"
  shows "\<exists>d. r = (x, w\<lparr>dev := d\<rparr>) \<and> got m w p n (store p (fw_next m w n) (w\<lparr>dev := d\<rparr>))"
proof -
  from assms obtain d where "r = (x, w\<lparr>dev := d\<rparr>)" and s: "fw_same m w (w\<lparr>dev := d\<rparr>) n" by (elim exE conjE)
  with got_word [OF s refl, of p] show ?thesis by (intro exI [of _ d] conjI)
qed

lemma mmio_reads:
  assumes "mmio_device io v m"
  shows "\<exists>d. MmioRead8 io (mFwCfgDataAddress v) w = (of_nat (le_val (fw_next m w 1)), w\<lparr>dev := d\<rparr>) \<and> got m w p 1 (store p (fw_next m w 1) (w\<lparr>dev := d\<rparr>))"
    and "\<exists>d. MmioRead16 io (mFwCfgDataAddress v) w = (of_nat (le_val (fw_next m w 2)), w\<lparr>dev := d\<rparr>) \<and> got m w p 2 (store p (fw_next m w 2) (w\<lparr>dev := d\<rparr>))"
    and "\<exists>d. MmioRead32 io (mFwCfgDataAddress v) w = (of_nat (le_val (fw_next m w 4)), w\<lparr>dev := d\<rparr>) \<and> got m w p 4 (store p (fw_next m w 4) (w\<lparr>dev := d\<rparr>))"
    and "\<exists>d. MmioRead64 io (mFwCfgDataAddress v) w = (of_nat (le_val (fw_next m w 8)), w\<lparr>dev := d\<rparr>) \<and> got m w p 8 (store p (fw_next m w 8) (w\<lparr>dev := d\<rparr>))"
  by (rule got_reg, use assms in \<open>simp only: mmio_device_def\<close>)+

lemma MmioLoop64_got:
  assumes "mmio_device io v m"
  shows "got m w p (8 * k) (MmioLoop64 io (mFwCfgDataAddress v) p (p + 8 * k) w)"
proof (induction k arbitrary: p w)
  case 0
  then show ?case by (subst MmioLoop64.simps) (simp add: got_0)
next
  case (Suc k)
  obtain d where r: "MmioRead64 io (mFwCfgDataAddress v) w = (of_nat (le_val (fw_next m w 8)), w\<lparr>dev := d\<rparr>)"
    and g: "got m w p 8 (store p (fw_next m w 8) (w\<lparr>dev := d\<rparr>))" using mmio_reads(4) [OF assms] by blast
  let ?w1 = "store p (fw_next m w 8) (w\<lparr>dev := d\<rparr>)"
  have "MmioLoop64 io (mFwCfgDataAddress v) p (p + 8 * Suc k) w = MmioLoop64 io (mFwCfgDataAddress v) (p + 8) (p + 8 + 8 * k) ?w1"
    by (subst MmioLoop64.simps) (simp add: r word_bytes ac_simps)
  moreover from got_trans [OF g Suc.IH] have "got m w p (8 + 8 * k) (MmioLoop64 io (mFwCfgDataAddress v) (p + 8) (p + 8 + 8 * k) ?w1)" .
  ultimately show ?case by simp
qed

lemma MmioLoop32_got:
  assumes "mmio_device io v m"
  shows "got m w p (4 * k) (MmioLoop32 io (mFwCfgDataAddress v) p (p + 4 * k) w)"
proof (induction k arbitrary: p w)
  case 0
  then show ?case by (subst MmioLoop32.simps) (simp add: got_0)
next
  case (Suc k)
  obtain d where r: "MmioRead32 io (mFwCfgDataAddress v) w = (of_nat (le_val (fw_next m w 4)), w\<lparr>dev := d\<rparr>)"
    and g: "got m w p 4 (store p (fw_next m w 4) (w\<lparr>dev := d\<rparr>))" using mmio_reads(3) [OF assms] by blast
  let ?w1 = "store p (fw_next m w 4) (w\<lparr>dev := d\<rparr>)"
  have "MmioLoop32 io (mFwCfgDataAddress v) p (p + 4 * Suc k) w = MmioLoop32 io (mFwCfgDataAddress v) (p + 4) (p + 4 + 4 * k) ?w1"
    by (subst MmioLoop32.simps) (simp add: r word_bytes ac_simps)
  moreover from got_trans [OF g Suc.IH] have "got m w p (4 + 4 * k) (MmioLoop32 io (mFwCfgDataAddress v) (p + 4) (p + 4 + 4 * k) ?w1)" .
  ultimately show ?case by simp
qed

lemma tails_got:
  assumes "mmio_device io v m"
  shows "\<exists>w'. MmioTail32 io (mFwCfgDataAddress v) l p w = (p + 4 * of_bool (bit l 2), w') \<and> got m w p (4 * of_bool (bit l 2)) w'"
    and "\<exists>w'. MmioTail16 io (mFwCfgDataAddress v) l p w = (p + 2 * of_bool (bit l 1), w') \<and> got m w p (2 * of_bool (bit l 1)) w'"
    and "got m w p (of_bool (bit l 0)) (MmioTail8 io (mFwCfgDataAddress v) l p w)"
proof -
  have b: "and l 4 = 0 \<longleftrightarrow> \<not> bit l 2" "and l 2 = 0 \<longleftrightarrow> \<not> bit l 1" "and l 1 = 0 \<longleftrightarrow> \<not> bit l 0"
    using and_exp_eq_0_iff_not_bit [of l 2] and_exp_eq_0_iff_not_bit [of l 1] and_exp_eq_0_iff_not_bit [of l 0] by simp_all
  show "\<exists>w'. MmioTail32 io (mFwCfgDataAddress v) l p w = (p + 4 * of_bool (bit l 2), w') \<and> got m w p (4 * of_bool (bit l 2)) w'"
    unfolding MmioTail32_def b(1) using mmio_reads(3) [OF assms, of w p] by (cases "bit l 2") (auto simp: got_0 word_bytes)
  show "\<exists>w'. MmioTail16 io (mFwCfgDataAddress v) l p w = (p + 2 * of_bool (bit l 1), w') \<and> got m w p (2 * of_bool (bit l 1)) w'"
    unfolding MmioTail16_def b(2) using mmio_reads(2) [OF assms, of w p] by (cases "bit l 1") (auto simp: got_0 word_bytes)
  have "[of_nat (le_val (fw_next m w 1))] = fw_next m w 1"
    using word_bytes [where 'a = 8, of 1 "fw_next m w 1"] by simp
  then show "got m w p (of_bool (bit l 0)) (MmioTail8 io (mFwCfgDataAddress v) l p w)"
    unfolding MmioTail8_def b(3) using mmio_reads(1) [OF assms, of w p] by (cases "bit l 0") (auto simp: got_0)
qed

lemma low_bits:
  fixes x :: nat
  shows "x < 8 \<Longrightarrow> 4 * of_bool (bit x 2) + 2 * of_bool (bit x 1) + of_bool (bit x 0) = x"
    and "x < 4 \<Longrightarrow> 2 * of_bool (bit x 1) + of_bool (bit x 0) = x"
proof -
  assume "x < 8"
  then have "x \<in> {0, 1, 2, 3, 4, 5, 6, 7}" by auto
  then show "4 * of_bool (bit x 2) + 2 * of_bool (bit x 1) + of_bool (bit x 0) = x" by (auto simp: bit_iff_odd)
next
  assume "x < 4"
  then have "x \<in> {0, 1, 2, 3}" by auto
  then show "2 * of_bool (bit x 1) + of_bool (bit x 0) = x" by (auto simp: bit_iff_odd)
qed

lemma size_split:
  fixes n :: nat
  shows "and n 7 = n mod 8" and "and n 3 = n mod 4"
  using take_bit_eq_mask [of 3 n] take_bit_eq_mask [of 2 n] by (simp_all add: take_bit_eq_mod mask_eq_exp_minus_1)

lemma MmioReadBytes_got:
  assumes d: "mmio_device io v m"
  shows "got m w p n (MmioReadBytes io v n p w)"
proof (cases "Wide io")
  case True
  let ?l = "n mod 8" and ?r = "mFwCfgDataAddress v"
  let ?e = "p + (n - ?l)"
  have k: "n - ?l = 8 * (n div 8)" by (simp add: minus_mod_eq_mult_div)
  have 0: "got m w p (n - ?l) (MmioLoop64 io ?r p ?e w)" unfolding k by (rule MmioLoop64_got [OF d])
  obtain w1 where 1: "MmioTail32 io ?r ?l ?e (MmioLoop64 io ?r p ?e w) = (?e + 4 * of_bool (bit ?l 2), w1)"
    "got m (MmioLoop64 io ?r p ?e w) ?e (4 * of_bool (bit ?l 2)) w1" using tails_got(1) [OF d] by blast
  obtain w2 where 2: "MmioTail16 io ?r ?l (?e + 4 * of_bool (bit ?l 2)) w1 = (?e + 4 * of_bool (bit ?l 2) + 2 * of_bool (bit ?l 1), w2)"
    "got m w1 (?e + 4 * of_bool (bit ?l 2)) (2 * of_bool (bit ?l 1)) w2" using tails_got(2) [OF d] by blast
  note 3 = tails_got(3) [OF d, of w2 "?e + 4 * of_bool (bit ?l 2) + 2 * of_bool (bit ?l 1)" ?l]
  have "got m w p (n - ?l + (4 * of_bool (bit ?l 2)) + (2 * of_bool (bit ?l 1)) + of_bool (bit ?l 0))
     (MmioTail8 io ?r ?l (?e + 4 * of_bool (bit ?l 2) + 2 * of_bool (bit ?l 1)) w2)"
    using got_trans [OF got_trans [OF got_trans [OF 0 1(2)]], of "2 * of_bool (bit ?l 1)" w2] 2(2) 3 by (simp add: add.assoc)
  moreover have "n - ?l + (4 * of_bool (bit ?l 2)) + (2 * of_bool (bit ?l 1)) + of_bool (bit ?l 0) = n"
    using low_bits(1) [of ?l] mod_less_eq_dividend [of n 8] by simp
  ultimately show ?thesis using True 1(1) 2(1) by (simp add: MmioReadBytes_def size_split(1) Let_def)
next
  case False
  let ?l = "n mod 4" and ?r = "mFwCfgDataAddress v"
  let ?e = "p + (n - ?l)"
  have k: "n - ?l = 4 * (n div 4)" by (simp add: minus_mod_eq_mult_div)
  have 0: "got m w p (n - ?l) (MmioLoop32 io ?r p ?e w)" unfolding k by (rule MmioLoop32_got [OF d])
  obtain w2 where 2: "MmioTail16 io ?r ?l ?e (MmioLoop32 io ?r p ?e w) = (?e + 2 * of_bool (bit ?l 1), w2)"
    "got m (MmioLoop32 io ?r p ?e w) ?e (2 * of_bool (bit ?l 1)) w2" using tails_got(2) [OF d] by blast
  note 3 = tails_got(3) [OF d, of w2 "?e + 2 * of_bool (bit ?l 1)" ?l]
  have "got m w p (n - ?l + (2 * of_bool (bit ?l 1)) + of_bool (bit ?l 0)) (MmioTail8 io ?r ?l (?e + 2 * of_bool (bit ?l 1)) w2)"
    using got_trans [OF got_trans [OF 0 2(2)]] 3 by (simp add: add.assoc)
  moreover have "n - ?l + (2 * of_bool (bit ?l 1)) + of_bool (bit ?l 0) = n"
    using low_bits(2) [of ?l] mod_less_eq_dividend [of n 4] by simp
  ultimately show ?thesis using False 2(1) by (simp add: MmioReadBytes_def size_split(2) Let_def)
qed

text \<open>Hypothesis on the DMA register: the write of the block address performs the request.\<close>

definition mmio_dma_device :: "'d mmio_io \<Rightarrow> mmio_vars \<Rightarrow> 'd fw_model \<Rightarrow> bool" where
  "mmio_dma_device io v m \<longleftrightarrow>
    (\<forall>w req a p n. a < (if Wide io then 2 ^ 64 else 2 ^ 32) \<longrightarrow>
       load_bytes (ram w) a 16 = access_bytes req \<longrightarrow> SwapBytes32 (Control req) = FW_CFG_DMA_CTL_READ \<longrightarrow>
       p = unat (SwapBytes64 (Address req)) \<longrightarrow> n = unat (SwapBytes32 (Length req)) \<longrightarrow> a + 16 \<le> p \<or> p + n \<le> a \<longrightarrow>
       (\<exists>w'. dma_completes (MmioProgress io) a (mmio_dma_start io v a w) w' \<and> fw_same m w w' n \<and>
             load_bytes (ram w') p n = fw_next m w n))"

definition mmio_config :: "'d mmio_io \<times> mmio_vars \<times> 'd fw_model \<Rightarrow> bool" where
  "mmio_config = (\<lambda>(io, v, m). mmio_device io v m \<and> MmioIsAvailable v \<and>
     (mUseDma v \<longrightarrow> mmio_dma_device io v m \<and> AccessLocal io < (if Wide io then 2 ^ 64 else 2 ^ 32) \<and> ResultLocal io < 2 ^ 64 \<and>
        (AccessLocal io + 16 \<le> ResultLocal io \<or> ResultLocal io + 64 \<le> AccessLocal io)))"

lemma DmaReadBytes_spec:
  assumes d: "mmio_dma_device io v m" and a: "AccessLocal io < (if Wide io then 2 ^ 64 else 2 ^ 32)" and p: "p < 2 ^ 64"
    and dis: "AccessLocal io + 16 \<le> p \<or> p + n \<le> AccessLocal io" and n: "n \<le> MAX_UINT32"
  shows "\<exists>w'. DmaReadBytes io v n p w = Some (Ok w') \<and> fw_same m w w' n \<and> load_bytes (ram w') p n = fw_next m w n"
proof (cases "n = 0")
  case True
  then show ?thesis
    by (simp add: DmaReadBytes_def DmaTransferBytes_def dma_control_ok_def fw_same_def fw_next_def fw_window_def)
next
  case False
  let ?a = "AccessLocal io"
  let ?req = "\<lparr>Control = SwapBytes32 FW_CFG_DMA_CTL_READ, Length = SwapBytes32 (of_nat n), Address = SwapBytes64 (of_nat p)\<rparr>"
  let ?w1 = "store ?a (access_bytes ?req) w"
  have "unat (SwapBytes32 (Length ?req)) = n" "unat (SwapBytes64 (Address ?req)) = p"
    using n p by (simp_all add: MAX_UINT32_def unat_of_nat)
  moreover have "load_bytes (ram ?w1) ?a 16 = access_bytes ?req"
    by (simp add: store_def load_store_same access_bytes_def)
  ultimately obtain w' where w': "dma_completes (MmioProgress io) ?a (mmio_dma_start io v ?a ?w1) w'"
    "fw_same m ?w1 w' n" "load_bytes (ram w') p n = fw_next m ?w1 n"
    using d [unfolded mmio_dma_device_def, rule_format, of ?a ?w1 ?req p n] a dis by auto
  then show ?thesis using DmaPoll_completes [OF w'(1)] False n
    by (simp add: DmaReadBytes_def DmaTransferBytes_def dma_control_ok_def fw_same_def fw_next_def store_def)
qed

definition mmio_select :: "'d mmio_io \<times> mmio_vars \<times> 'd fw_model \<Rightarrow> u16 \<Rightarrow> 'd machine \<Rightarrow> 'd machine" where
  "mmio_select = (\<lambda>(io, v, m). MmioSelectItem io v)"

definition mmio_fetch :: "'d mmio_io \<times> mmio_vars \<times> 'd fw_model \<Rightarrow> 'd machine fetcher" where
  "mmio_fetch = (\<lambda>(io, v, m). mmio_local io (MmioLib_ReadBytes io v))"

lemma SwapBytes16_invol [simp]: "SwapBytes16 (SwapBytes16 x) = x"
  using SwapBytes16_be [of "unat x"] by (simp add: SwapBytes16_def be_bytes_def codec_simps)

interpretation mmio: fw_reader mmio_config "\<lambda>(io, v, m) w. fw_item m (dev w)" "\<lambda>(io, v, m) w. fw_sel m (dev w)"
  "\<lambda>(io, v, m) w. fw_off m (dev w)" mmio_select mmio_fetch
proof (unfold_locales, goal_cases)
  case (1 c k w)
  obtain io v m where c: "c = (io, v, m)" by (cases c)
  with 1 have "mmio_device io v m" "MmioIsAvailable v" by (simp_all add: mmio_config_def)
  then show ?case unfolding mmio_device_def by (simp add: c mmio_select_def MmioSelectItem_def Let_def)
next
  case (2 c n w)
  obtain io v m where c: "c = (io, v, m)" by (cases c)
  let ?b = "ResultLocal io"
  have "\<exists>w'. MmioLib_ReadBytes io v n ?b w = Some (Ok w') \<and> fw_same m w w' n \<and> load_bytes (ram w') ?b n = fw_next m w n"
  proof (cases "mUseDma v")
    case True
    then show ?thesis using 2 DmaReadBytes_spec [of io v m ?b n w]
      by (auto simp: c mmio_config_def MmioLib_ReadBytes_def MmioLib_InternalReadBytes_def MAX_UINT32_def)
  next
    case False
    then show ?thesis using 2 MmioReadBytes_got [of io v m w ?b n]
      by (auto simp: c mmio_config_def MmioLib_ReadBytes_def MmioLib_InternalReadBytes_def got_def load_store_same)
  qed
  then show ?case by (auto simp: c mmio_fetch_def mmio_local_def fw_same_def fw_next_def)
qed

lemma FindFile_mmio:
  assumes "MmioIsAvailable v"
  shows "MmioLib_FindFile io v = find_file (mmio_local io (MmioLib_ReadBytes io v)) (MmioSelectItem io v)"
proof -
  let ?f = "mmio_local io (MmioLib_ReadBytes io v)"
  have i: "MmioLib_InternalReadBytes io v = MmioLib_ReadBytes io v"
    using assms by (intro ext) (simp add: MmioLib_ReadBytes_def)
  have "MmioLib_FindFileLoop io v nm k w = find_loop ?f nm k w" for nm k w
  proof (induction k arbitrary: w)
    case 0
    then show ?case by simp
  next
    case (Suc k)
    have "MmioLib_FindFileLoop io v nm k = find_loop ?f nm k" by (intro ext) (rule Suc)
    show ?case unfolding MmioLib_FindFileLoop.simps find_loop.simps i MmioLib_Read32_def MmioLib_Read16_def
        \<open>MmioLib_FindFileLoop io v nm k = _\<close> ..
  qed
  then have "MmioLib_FindFileLoop io v = find_loop ?f" by (intro ext)
  then show ?thesis using assms by (intro ext) (simp add: MmioLib_FindFile_def find_file_def MmioLib_Read32_def)
qed

section \<open>Properties\<close>

text \<open>
  \<open>MmioReadBytes\<close> is a byte stream read: for every size, with the 64-bit
  and with the 32-bit register width, the word loop and its 4/2/1-byte tail store
  exactly the next \<open>n\<close> bytes of the item at the buffer, in order, change no other
  byte of RAM and advance the offset by \<open>n\<close>.
\<close>

theorem MmioReadBytes_stream:
  assumes "mmio_device io v m"
  shows "ram (MmioReadBytes io v n p w) = store_bytes (ram w) p (fw_next m w n) \<and> fw_same m w (MmioReadBytes io v n p w) n"
  using MmioReadBytes_got [OF assms] by (simp add: got_def)

text \<open>A register device for the witnesses.\<close>

definition demo_reg :: "nat \<Rightarrow> demo_dev machine \<Rightarrow> 'a::len word \<times> demo_dev machine" where
  "demo_reg n w = (of_nat (le_val (fw_next demo_model w n)), w\<lparr>dev := (dev w)\<lparr>dd_off := dd_off (dev w) + n\<rparr>\<rparr>)"

definition demo_mmio :: "demo_dev mmio_io" where
  "demo_mmio = \<lparr>MmioRead8 = (\<lambda>_. demo_reg 1), MmioRead16 = (\<lambda>_. demo_reg 2), MmioRead32 = (\<lambda>_. demo_reg 4),
     MmioRead64 = (\<lambda>_. demo_reg 8), MmioWrite8 = (\<lambda>_ _ w. w),
     MmioWrite16 = (\<lambda>_ v w. w\<lparr>dev := (dev w)\<lparr>dd_sel := SwapBytes16 v, dd_off := 0\<rparr>\<rparr>), MmioWrite32 = (\<lambda>_ _ w. w),
     MmioWrite64 = (\<lambda>_ v. demo_dma (unat (SwapBytes64 v))), MmioProgress = (\<lambda>w. w), Wide = True, AccessLocal = 4096, ResultLocal = 8192\<rparr>"

definition demo_vars :: "bool \<Rightarrow> mmio_vars" where
  "demo_vars d = \<lparr>mFwCfgSelectorAddress = 8, mFwCfgDataAddress = 1, mFwCfgDmaAddress = 16, mUseDma = d\<rparr>"

lemma demo_mmio_device: "mmio_device demo_mmio v demo_model"
  unfolding mmio_device_def Let_def
  by (intro conjI allI; (rule exI)?) (auto simp: demo_mmio_def demo_reg_def demo_model_def fw_same_def)

lemma demo_mmio_config: "mmio_config (demo_mmio, demo_vars False, demo_model)"
  using demo_mmio_device by (simp add: mmio_config_def demo_vars_def MmioIsAvailable_def)

theorem MmioReadBytes_stream_witness:
  "ram (MmioReadBytes demo_mmio (demo_vars False) 15 100 demo_machine) =
     store_bytes (ram demo_machine) 100 (fw_next demo_model demo_machine 15)"
  using MmioReadBytes_stream [OF demo_mmio_device] by blast

text \<open>
  The memory-mapped \<open>QemuFwCfgFindFile\<close> satisfies the same specification
  as the port library: the selector and size of the first directory entry with
  the name, or not-found, through the data register as well as by DMA.
\<close>

theorem MmioLib_FindFile_first:
  assumes "mmio_config (io, v, m)" and "fw_item m (dev w) QemuFwCfgItemFileDir = enc_dir es @ suf"
    and "length nm < 56" and "\<forall>e \<in> set es. length (de_name e) = 56" and "length es < 2 ^ 32"
  shows "\<exists>w'. MmioLib_FindFile io v nm w = Some (Ok (lookup_file nm es, w')) \<and> fw_item m (dev w') = fw_item m (dev w)"
proof -
  have "MmioIsAvailable v" using assms(1) by (simp add: mmio_config_def)
  then show ?thesis
    using mmio.find_file_spec [OF assms(1), of w es suf nm] assms(2-5)
    by (simp add: FindFile_mmio mmio_fetch_def mmio_select_def)
qed

theorem MmioLib_FindFile_first_witness:
  "\<exists>w'. MmioLib_FindFile demo_mmio (demo_vars False) [0x62] demo_machine = Some (Ok (Inl EFI_NOT_FOUND, w'))"
proof -
  have "AsciiStrEq [0x62] (de_name demo_entry) = Ok False"
    by (simp add: demo_entry_def)
  then have "lookup_file [0x62] [demo_entry] = Inl EFI_NOT_FOUND"
    by (simp add: lookup_file_def)
  then show ?thesis
    using MmioLib_FindFile_first [OF demo_mmio_config, of demo_machine "[demo_entry]" "[]" "[0x62]"]
    by (auto simp: demo_machine_def demo_model_def demo_entry_def)
qed

end
