(* ===== verification/FwCfgParser.thy ===== *)
theory FwCfgParser
  imports FwCfgMmio
begin

text \<open>
  Model of \<open>Platforms/QemuQ35Pkg/Library/QemuFwCfgSimpleParserLib\<close>: booleans and
  integers parsed from small fw_cfg files.  The fw_cfg library is used through its
  interface (\<open>fw_ops\<close>); the string-to-integer conversions and the case-insensitive
  comparison of the base library are arguments.
\<close>

section \<open>Definitions\<close>

record 'w fw_ops =
  fo_IsAvailable :: bool
  fo_FindFile :: "u8 list \<Rightarrow> 'w \<Rightarrow> ((EFI_STATUS + u16 \<times> nat) \<times> 'w) run"
  fo_SelectItem :: "u16 \<Rightarrow> 'w \<Rightarrow> 'w"
  fo_ReadBytes :: "'w fetcher"

text \<open>Base library services: conversion of a NUL-terminated buffer (\<open>True\<close>: hexadecimal)
  to a status, the index of the end pointer and a value; \<open>AsciiStriCmp (a, b) == 0\<close>.\<close>

record base_lib =
  AsciiStrToUint64S :: "bool \<Rightarrow> u8 list \<Rightarrow> EFI_STATUS \<times> nat \<times> u64"
  AsciiStriCmp0 :: "u8 list \<Rightarrow> u8 list \<Rightarrow> bool"

definition ascii :: "string \<Rightarrow> u8 list" where
  "ascii s = map (\<lambda>c. of_nat (of_char c)) s"

definition UINT64_STRING_MAX_SIZE :: nat where
  "UINT64_STRING_MAX_SIZE = max (length ''18446744073709551615'' + 1) (length ''0xFFFFFFFFFFFFFFFF'' + 1)"

definition BOOL_STRING_MAX_SIZE :: nat where
  "BOOL_STRING_MAX_SIZE = length ''disabled'' + 1"

definition CRLF_LENGTH :: nat where
  "CRLF_LENGTH = 2"

definition mTrueString :: "u8 list list" where
  "mTrueString = map ascii [''true'', ''yes'', ''y'', ''enable'', ''enabled'', ''1'']"

definition mFalseString :: "u8 list list" where
  "mFalseString = map ascii [''false'', ''no'', ''n'', ''disable'', ''disabled'', ''0'']"

text \<open>The result is the error, or the first \<open>*BufferSize\<close> bytes of the buffer.\<close>

definition QemuFwCfgGetAsString ::
  "'w fw_ops \<Rightarrow> u8 list \<Rightarrow> nat \<Rightarrow> 'w \<Rightarrow> ((EFI_STATUS + u8 list) \<times> 'w) run" where
  "QemuFwCfgGetAsString ops FileName BufferSize w =
    (if \<not> fo_IsAvailable ops then Some (Ok (Inl EFI_UNSUPPORTED, w))
     else run_bind (fo_FindFile ops FileName w) (\<lambda>(r, w1).
       case r of
         Inl Status \<Rightarrow> Some (Ok (Inl Status, w1))
       | Inr (FwCfgItem, FwCfgSize) \<Rightarrow>
           if FwCfgSize > BufferSize then Some (Ok (Inl EFI_PROTOCOL_ERROR, w1))
           else run_bind (fo_ReadBytes ops FwCfgSize (fo_SelectItem ops FwCfgItem w1)) (\<lambda>(bs, w2).
             if FwCfgSize > 0 \<and> bs ! (FwCfgSize - 1) = 0 then Some (Ok (Inr bs, w2))
             else if FwCfgSize = BufferSize then Some (Ok (Inl EFI_PROTOCOL_ERROR, w2))
             else Some (Ok (Inr (bs @ [0]), w2)))))"

definition StripNewline :: "u8 list \<Rightarrow> u8 list" where
  "StripNewline buf =
    (let InSize = length buf;
         OutSize = (if InSize \<ge> 3 \<and> buf ! (InSize - 3) = 0x0D \<and> buf ! (InSize - 2) = 0x0A then InSize - 2
                    else if InSize \<ge> 2 \<and> buf ! (InSize - 2) = 0x0A then InSize - 1
                    else InSize)
     in if OutSize < InSize then take OutSize (buf[OutSize - 1 := 0]) else buf)"

text \<open>Dereferencing the end pointer outside the buffer is \<open>OutOfBounds\<close>.\<close>

definition QemuFwCfgParseUint64WithLimit ::
  "base_lib \<Rightarrow> 'w fw_ops \<Rightarrow> u8 list \<Rightarrow> bool \<Rightarrow> u64 \<Rightarrow> 'w \<Rightarrow> ((EFI_STATUS + u64) \<times> 'w) run" where
  "QemuFwCfgParseUint64WithLimit lib ops FileName ParseAsHex Limit w =
    run_bind (QemuFwCfgGetAsString ops FileName (UINT64_STRING_MAX_SIZE + CRLF_LENGTH) w) (\<lambda>(r, w1).
      case r of
        Inl Status \<Rightarrow> Some (Ok (Inl Status, w1))
      | Inr buf \<Rightarrow>
          let str = StripNewline buf
          in case AsciiStrToUint64S lib ParseAsHex str of (Status, EndPointer, Uint64) \<Rightarrow>
             if EFI_ERROR Status then Some (Ok (Inl Status, w1))
             else if \<not> EndPointer < length str then Some OutOfBounds
             else if EndPointer = 0 \<or> str ! EndPointer \<noteq> 0 \<or> Uint64 > Limit then Some (Ok (Inl EFI_PROTOCOL_ERROR, w1))
             else Some (Ok (Inr Uint64, w1)))"

definition QemuFwCfgSimpleParserInit :: EFI_STATUS where
  "QemuFwCfgSimpleParserInit = EFI_SUCCESS"

definition QemuFwCfgParseBool ::
  "base_lib \<Rightarrow> 'w fw_ops \<Rightarrow> u8 list \<Rightarrow> 'w \<Rightarrow> ((EFI_STATUS + bool) \<times> 'w) run" where
  "QemuFwCfgParseBool lib ops FileName w =
    run_bind (QemuFwCfgGetAsString ops FileName (BOOL_STRING_MAX_SIZE + CRLF_LENGTH) w) (\<lambda>(r, w1).
      case r of
        Inl Status \<Rightarrow> Some (Ok (Inl Status, w1))
      | Inr buf \<Rightarrow>
          let str = StripNewline buf
          in if list_ex (\<lambda>s. AsciiStriCmp0 lib str (s @ [0])) mTrueString then Some (Ok (Inr True, w1))
             else if list_ex (\<lambda>s. AsciiStriCmp0 lib str (s @ [0])) mFalseString then Some (Ok (Inr False, w1))
             else Some (Ok (Inl EFI_PROTOCOL_ERROR, w1)))"

definition map_value :: "('a \<Rightarrow> 'b) \<Rightarrow> ((EFI_STATUS + 'a) \<times> 'w) run \<Rightarrow> ((EFI_STATUS + 'b) \<times> 'w) run" where
  "map_value f r = run_bind r (\<lambda>(x, w). Some (Ok (case x of Inl e \<Rightarrow> Inl e | Inr v \<Rightarrow> Inr (f v), w)))"

definition QemuFwCfgParseUint8 :: "base_lib \<Rightarrow> 'w fw_ops \<Rightarrow> u8 list \<Rightarrow> bool \<Rightarrow> 'w \<Rightarrow> ((EFI_STATUS + u8) \<times> 'w) run" where
  "QemuFwCfgParseUint8 lib ops FileName ParseAsHex w =
     map_value ucast (QemuFwCfgParseUint64WithLimit lib ops FileName ParseAsHex 0xFF w)"

definition QemuFwCfgParseUint16 :: "base_lib \<Rightarrow> 'w fw_ops \<Rightarrow> u8 list \<Rightarrow> bool \<Rightarrow> 'w \<Rightarrow> ((EFI_STATUS + u16) \<times> 'w) run" where
  "QemuFwCfgParseUint16 lib ops FileName ParseAsHex w =
     map_value ucast (QemuFwCfgParseUint64WithLimit lib ops FileName ParseAsHex 0xFFFF w)"

definition QemuFwCfgParseUint32 :: "base_lib \<Rightarrow> 'w fw_ops \<Rightarrow> u8 list \<Rightarrow> bool \<Rightarrow> 'w \<Rightarrow> ((EFI_STATUS + u32) \<times> 'w) run" where
  "QemuFwCfgParseUint32 lib ops FileName ParseAsHex w =
     map_value ucast (QemuFwCfgParseUint64WithLimit lib ops FileName ParseAsHex 0xFFFFFFFF w)"

definition QemuFwCfgParseUint64 :: "base_lib \<Rightarrow> 'w fw_ops \<Rightarrow> u8 list \<Rightarrow> bool \<Rightarrow> 'w \<Rightarrow> ((EFI_STATUS + u64) \<times> 'w) run" where
  "QemuFwCfgParseUint64 lib ops FileName ParseAsHex w =
     map_value id (QemuFwCfgParseUint64WithLimit lib ops FileName ParseAsHex 0xFFFFFFFFFFFFFFFF w)"

definition QemuFwCfgParseUintn :: "base_lib \<Rightarrow> 'w fw_ops \<Rightarrow> u8 list \<Rightarrow> bool \<Rightarrow> 'w \<Rightarrow> ((EFI_STATUS + nat) \<times> 'w) run" where
  "QemuFwCfgParseUintn lib ops FileName ParseAsHex w =
     map_value unat (QemuFwCfgParseUint64WithLimit lib ops FileName ParseAsHex 0xFFFFFFFFFFFFFFFF w)"

text \<open>The library over the port functions and over the memory-mapped ones.\<close>

definition port_ops :: "'d fw_io \<Rightarrow> 'd fw_internal \<Rightarrow> 'd machine fw_ops" where
  "port_ops io impl = \<lparr>fo_IsAvailable = InternalQemuFwCfgIsAvailable impl, fo_FindFile = QemuFwCfgFindFile io impl,
     fo_SelectItem = QemuFwCfgSelectItem io, fo_ReadBytes = read_local io (QemuFwCfgReadBytes io impl)\<rparr>"

definition mmio_ops :: "'d mmio_io \<Rightarrow> mmio_vars \<Rightarrow> 'd machine fw_ops" where
  "mmio_ops io v = \<lparr>fo_IsAvailable = MmioIsAvailable v, fo_FindFile = MmioLib_FindFile io v,
     fo_SelectItem = MmioSelectItem io v, fo_ReadBytes = mmio_local io (MmioLib_ReadBytes io v)\<rparr>"

section \<open>Stripping the newline\<close>

lemma StripNewline_crlf: "StripNewline (s @ [0x0D, 0x0A, 0]) = s @ [0]"
  by (simp add: StripNewline_def nth_append list_update_append)

lemma StripNewline_lf: "s = [] \<or> last s \<noteq> 0x0D \<Longrightarrow> StripNewline (s @ [0x0A, 0]) = s @ [0]"
  by (cases s rule: rev_cases) (auto simp: StripNewline_def nth_append list_update_append)

lemma StripNewline_none: "s = [] \<or> last s \<noteq> 0x0A \<Longrightarrow> StripNewline (s @ [0]) = s @ [0]"
  by (cases s rule: rev_cases) (auto simp: StripNewline_def nth_append)

lemma StripNewline_terminated: "buf \<noteq> [] \<Longrightarrow> last buf = 0 \<Longrightarrow> StripNewline buf \<noteq> [] \<and> last (StripNewline buf) = 0"
  by (auto simp: StripNewline_def Let_def last_conv_nth min_def nth_list_update)

section \<open>Files by name\<close>

text \<open>
  The contract the parser needs: looking a name up gives an error or an item
  whose size is that of the file, and reading the selected item gives its bytes.
  Every fw_cfg reader with a well-formed directory provides it.
\<close>

definition file_text :: "nat \<Rightarrow> u8 list \<Rightarrow> EFI_STATUS + u8 list" where
  "file_text B bs =
    (if length bs > B then Inl EFI_PROTOCOL_ERROR
     else if bs \<noteq> [] \<and> last bs = 0 then Inr bs
     else if length bs = B then Inl EFI_PROTOCOL_ERROR
     else Inr (bs @ [0]))"

lemma file_text_terminated: "file_text B bs = Inr t \<Longrightarrow> t \<noteq> [] \<and> last t = 0 \<and> length t \<le> B"
  by (auto simp: file_text_def split: if_splits)

locale fw_files =
  fixes ok :: "'c \<Rightarrow> 'w \<Rightarrow> bool"
    and ops :: "'c \<Rightarrow> 'w fw_ops"
    and content :: "'c \<Rightarrow> 'w \<Rightarrow> u8 list \<Rightarrow> EFI_STATUS + u8 list"
  assumes available: "ok c w \<Longrightarrow> fo_IsAvailable (ops c)"
    and missing: "ok c w \<Longrightarrow> length nm < 56 \<Longrightarrow> content c w nm = Inl st \<Longrightarrow>
      \<exists>w'. fo_FindFile (ops c) nm w = Some (Ok (Inl st, w'))"
    and present: "ok c w \<Longrightarrow> length nm < 56 \<Longrightarrow> content c w nm = Inr bs \<Longrightarrow>
      \<exists>k w1. fo_FindFile (ops c) nm w = Some (Ok (Inr (k, length bs), w1)) \<and>
        (length bs \<le> 64 \<longrightarrow> (\<exists>w2. fo_ReadBytes (ops c) (length bs) (fo_SelectItem (ops c) k w1) = Some (Ok (bs, w2))))"
begin

definition text_of :: "'c \<Rightarrow> 'w \<Rightarrow> u8 list \<Rightarrow> nat \<Rightarrow> EFI_STATUS + u8 list" where
  "text_of c w nm B = (case content c w nm of Inl st \<Rightarrow> Inl st | Inr bs \<Rightarrow> file_text B bs)"

lemma GetAsString_spec:
  assumes "ok c w" and "length nm < 56" and "B \<le> 64"
  shows "\<exists>w'. QemuFwCfgGetAsString (ops c) nm B w = Some (Ok (text_of c w nm B, w'))"
proof (cases "content c w nm")
  case (Inl st)
  then show ?thesis using missing [OF assms(1,2) Inl] available [OF assms(1)]
    by (auto simp: QemuFwCfgGetAsString_def text_of_def)
next
  case (Inr bs)
  from present [OF assms(1,2) Inr] obtain k w1 where
    f: "fo_FindFile (ops c) nm w = Some (Ok (Inr (k, length bs), w1))" and
    r: "length bs \<le> 64 \<longrightarrow> (\<exists>w2. fo_ReadBytes (ops c) (length bs) (fo_SelectItem (ops c) k w1) = Some (Ok (bs, w2)))"
    by blast
  show ?thesis
  proof (cases "length bs > B")
    case True
    then show ?thesis using f available [OF assms(1)] Inr by (simp add: QemuFwCfgGetAsString_def text_of_def file_text_def)
  next
    case False
    with r assms(3) obtain w2 where "fo_ReadBytes (ops c) (length bs) (fo_SelectItem (ops c) k w1) = Some (Ok (bs, w2))" by auto
    then show ?thesis using f available [OF assms(1)] Inr False
      by (auto simp: QemuFwCfgGetAsString_def text_of_def file_text_def last_conv_nth)
  qed
qed

lemma ParseUint64WithLimit_spec:
  assumes "ok c w" and "length nm < 56" and "text_of c w nm 23 = Inr t"
    and "AsciiStrToUint64S lib hex (StripNewline t) = (st, e, v)" and "e < length (StripNewline t)"
  shows "\<exists>w'. QemuFwCfgParseUint64WithLimit lib (ops c) nm hex lim w =
    Some (Ok (if EFI_ERROR st then Inl st
              else if e = 0 \<or> StripNewline t ! e \<noteq> 0 \<or> v > lim then Inl EFI_PROTOCOL_ERROR else Inr v, w'))"
proof -
  have "UINT64_STRING_MAX_SIZE + CRLF_LENGTH = 23" by (simp add: UINT64_STRING_MAX_SIZE_def CRLF_LENGTH_def)
  with GetAsString_spec [OF assms(1,2), of 23] assms(3) obtain w' where
    "QemuFwCfgGetAsString (ops c) nm (UINT64_STRING_MAX_SIZE + CRLF_LENGTH) w = Some (Ok (Inr t, w'))" by auto
  then show ?thesis using assms(4,5) by (auto simp: QemuFwCfgParseUint64WithLimit_def Let_def)
qed

lemma ParseBool_spec:
  assumes "ok c w" and "length nm < 56" and "text_of c w nm 11 = Inr t"
  shows "\<exists>w'. QemuFwCfgParseBool lib (ops c) nm w =
    Some (Ok (if \<exists>s \<in> set mTrueString. AsciiStriCmp0 lib (StripNewline t) (s @ [0]) then Inr True
              else if \<exists>s \<in> set mFalseString. AsciiStriCmp0 lib (StripNewline t) (s @ [0]) then Inr False
              else Inl EFI_PROTOCOL_ERROR, w'))"
proof -
  have "BOOL_STRING_MAX_SIZE + CRLF_LENGTH = 11" by (simp add: BOOL_STRING_MAX_SIZE_def CRLF_LENGTH_def)
  with GetAsString_spec [OF assms(1,2), of 11] assms(3) obtain w' where
    "QemuFwCfgGetAsString (ops c) nm (BOOL_STRING_MAX_SIZE + CRLF_LENGTH) w = Some (Ok (Inr t, w'))" by auto
  then show ?thesis by (auto simp: QemuFwCfgParseBool_def Let_def list_ex_iff)
qed

end

text \<open>A reader whose file directory lists \<open>es\<close>, with true sizes.\<close>

definition dir_ok :: "(u16 \<Rightarrow> u8 list) \<Rightarrow> dir_entry list \<Rightarrow> bool" where
  "dir_ok its es \<longleftrightarrow> (\<exists>suf. its QemuFwCfgItemFileDir = enc_dir es @ suf) \<and> length es < 2 ^ 32 \<and>
     (\<forall>e \<in> set es. length (de_name e) = 56 \<and> length (its (de_select e)) = unat (de_size e))"

definition dir_content :: "(u16 \<Rightarrow> u8 list) \<Rightarrow> dir_entry list \<Rightarrow> u8 list \<Rightarrow> EFI_STATUS + u8 list" where
  "dir_content its es nm =
    (case find (\<lambda>e. AsciiStrEq nm (de_name e) = Ok True) es of
       None \<Rightarrow> Inl EFI_NOT_FOUND | Some e \<Rightarrow> Inr (its (de_select e)))"

lemma find_mem: "find P xs = Some x \<Longrightarrow> x \<in> set xs"
  by (auto simp: find_Some_iff)

lemma dir_content_lookup:
  assumes "dir_ok its es"
  shows "dir_content its es nm = Inl st \<Longrightarrow> lookup_file nm es = Inl st"
    and "dir_content its es nm = Inr bs \<Longrightarrow> \<exists>k. lookup_file nm es = Inr (k, length bs) \<and> its k = bs"
  using assms by (auto simp: dir_content_def lookup_file_def dir_ok_def dest: find_mem split: option.splits)

sublocale fw_reader \<subseteq> files: fw_files "\<lambda>(c, es) w. ok c \<and> dir_ok (item c w) es"
  "\<lambda>(c, es). \<lparr>fo_IsAvailable = True, fo_FindFile = find_file (fetch c) (select c), fo_SelectItem = select c, fo_ReadBytes = fetch c\<rparr>"
  "\<lambda>(c, es) w. dir_content (item c w) es"
proof (unfold_locales, goal_cases)
  case (1 c w)
  then show ?case by (cases c) simp
next
  case (2 c w nm st)
  obtain k es where c: "c = (k, es)" by (cases c)
  with 2 have "ok k" and d: "dir_ok (item k w) es" and l: "lookup_file nm es = Inl st"
    using dir_content_lookup(1) by auto
  then show ?case using find_file_spec [of k w es _ nm] 2(2) by (auto simp: c dir_ok_def)
next
  case (3 c w nm bs)
  obtain k es where c: "c = (k, es)" by (cases c)
  with 3 have o: "ok k" and d: "dir_ok (item k w) es" by auto
  obtain i where i: "lookup_file nm es = Inr (i, length bs)" "item k w i = bs"
    using dir_content_lookup(2) [OF d] 3(3) by (auto simp: c)
  obtain w1 where w1: "find_file (fetch k) (select k) nm w = Some (Ok (Inr (i, length bs), w1))" "item k w1 = item k w"
    using find_file_spec [OF o, of w es _ nm] 3(2) d i(1) by (auto simp: dir_ok_def)
  have "\<exists>w2. fetch k (length bs) (select k i w1) = Some (Ok (bs, w2))" if n: "length bs \<le> 64"
  proof -
    have "item k w1 i = [] @ bs @ []" using w1(2) i(2) by simp
    then obtain w2 where "fetch k (length bs) (select k i w1) = Some (Ok (bs, w2))"
      by (rule fetch_at [OF o at_pos_select [OF o refl] _ _ refl n]) auto
    then show ?thesis by blast
  qed
  then show ?case using w1(1) by (auto simp: c)
qed

lemma port_ops_eq:
  assumes "fw_config (io, impl, m)"
  shows "port_ops io impl = \<lparr>fo_IsAvailable = True, fo_FindFile = find_file (port_fetch (io, impl, m)) (port_select (io, impl, m)),
    fo_SelectItem = port_select (io, impl, m), fo_ReadBytes = port_fetch (io, impl, m)\<rparr>"
proof -
  have "InternalQemuFwCfgIsAvailable impl" using assms by (simp add: fw_config_def)
  then show ?thesis by (simp add: port_ops_def FindFile_port port_fetch_def port_select_def)
qed

lemma mmio_ops_eq:
  assumes "mmio_config (io, v, m)"
  shows "mmio_ops io v = \<lparr>fo_IsAvailable = True, fo_FindFile = find_file (mmio_fetch (io, v, m)) (mmio_select (io, v, m)),
    fo_SelectItem = mmio_select (io, v, m), fo_ReadBytes = mmio_fetch (io, v, m)\<rparr>"
proof -
  have "MmioIsAvailable v" using assms by (simp add: mmio_config_def)
  then show ?thesis by (simp add: mmio_ops_def FindFile_mmio mmio_fetch_def mmio_select_def)
qed


lemmas port_uint = port.files.ParseUint64WithLimit_spec [of "((io, impl, m), es)" for io impl m es, simplified, unfolded port.files.text_of_def, simplified]
lemmas port_bool = port.files.ParseBool_spec [of "((io, impl, m), es)" for io impl m es, simplified, unfolded port.files.text_of_def, simplified]

text \<open>The case-insensitive comparison, as the base library documents it.\<close>

definition tolower8 :: "u8 \<Rightarrow> u8" where
  "tolower8 c = (if 0x41 \<le> c \<and> c \<le> 0x5A then c + 0x20 else c)"

definition cstr :: "u8 list \<Rightarrow> u8 list" where
  "cstr bs = takeWhile (\<lambda>c. c \<noteq> 0) bs"

definition stricmp_ok :: "base_lib \<Rightarrow> bool" where
  "stricmp_ok lib \<longleftrightarrow> (\<forall>a b. AsciiStriCmp0 lib a b \<longleftrightarrow> map tolower8 (cstr a) = map tolower8 (cstr b))"

lemma bool_strings:
  assumes "s \<in> set mTrueString \<or> s \<in> set mFalseString"
  shows "cstr (s @ [0]) = s" "map tolower8 s = s" "length s \<le> 8"
  using assms by (auto simp: mTrueString_def mFalseString_def cstr_def ascii_def tolower8_def)

lemma file_text_line:
  assumes eol: "eol \<in> {[], [0x0A], [0x0D, 0x0A]}" and nul: "nul \<in> {[], [0]}"
    and t: "\<forall>c \<in> set t. c \<notin> {0, 0x0A, 0x0D}" and B: "length t + 3 \<le> B"
  shows "\<exists>x. file_text B (t @ eol @ nul) = Inr x \<and> StripNewline x = t @ [0]"
proof -
  have l: "last t \<notin> {0, 0x0A, 0x0D}" if "t \<noteq> []" using t last_in_set [OF that] by blast
  have z: "t @ eol = [] \<or> last (t @ eol) \<noteq> 0"
    using eol l by (cases "t = []") (auto simp: last_append)
  have n: "length (t @ eol) < B" using eol B by auto
  have "file_text B (t @ eol @ nul) = Inr (t @ eol @ [0])"
    using nul z n by (auto simp: file_text_def)
  moreover have "StripNewline (t @ eol @ [0]) = t @ [0]"
    using eol l StripNewline_crlf [of t] StripNewline_lf [of t] StripNewline_none [of t] by (cases "t = []") auto
  ultimately show ?thesis by blast
qed

section \<open>Properties\<close>

text \<open>
  \<open>QemuFwCfgParseBool\<close> on a fw_cfg file that holds one line (the text, an
  optional LF or CRLF, an optional terminator): the spellings of the two tables,
  compared without regard to case, give their boolean and every other text that
  fits the buffer is a protocol error.
\<close>

theorem QemuFwCfgParseBool_line:
  assumes "fw_config (io, impl, m)" and "dir_ok (fw_item m (dev w)) es" and "stricmp_ok lib" and "length nm < 56"
    and "dir_content (fw_item m (dev w)) es nm = Inr (t @ eol @ nul)"
    and "eol \<in> {[], [0x0A], [0x0D, 0x0A]}" and "nul \<in> {[], [0]}" and "\<forall>c \<in> set t. c \<notin> {0, 0x0A, 0x0D}" and "length t \<le> 8"
  shows "\<exists>w'. QemuFwCfgParseBool lib (port_ops io impl) nm w =
    Some (Ok (if map tolower8 t \<in> set mTrueString then Inr True
              else if map tolower8 t \<in> set mFalseString then Inr False else Inl EFI_PROTOCOL_ERROR, w'))"
proof -
  obtain x where x: "file_text 11 (t @ eol @ nul) = Inr x" "StripNewline x = t @ [0]"
    using file_text_line [OF assms(6,7,8), of 11] assms(9) by auto
  have "cstr (t @ [0]) = t" using assms(8) by (auto simp: cstr_def takeWhile_append2)
  then have c: "AsciiStriCmp0 lib (StripNewline x) (s @ [0]) \<longleftrightarrow> map tolower8 t = s"
    if "s \<in> set mTrueString \<or> s \<in> set mFalseString" for s
    using assms(3) bool_strings [OF that] by (simp add: stricmp_ok_def x(2))
  have TF: "(\<exists>s \<in> set mTrueString. AsciiStriCmp0 lib (StripNewline x) (s @ [0])) \<longleftrightarrow> map tolower8 t \<in> set mTrueString"
    "(\<exists>s \<in> set mFalseString. AsciiStriCmp0 lib (StripNewline x) (s @ [0])) \<longleftrightarrow> map tolower8 t \<in> set mFalseString"
    using c by auto
  show ?thesis
    using port_bool [of io impl m w es nm x lib, unfolded TF] assms(1,2,4,5) x(1) by (simp add: port_ops_eq [OF assms(1)])
qed

definition demo_lib :: base_lib where
  "demo_lib = \<lparr>AsciiStrToUint64S = (\<lambda>hex bs. (EFI_SUCCESS, length (cstr bs), of_nat (le_val (cstr bs)))),
     AsciiStriCmp0 = (\<lambda>a b. map tolower8 (cstr a) = map tolower8 (cstr b))\<rparr>"

text \<open>A machine whose directory has one file named \<open>a\<close> with five bytes.\<close>

definition demo_file :: "u8 list \<Rightarrow> demo_dev machine" where
  "demo_file bs = demo_machine\<lparr>dev := (dev demo_machine)\<lparr>dd_item :=
     (\<lambda>k. if k = QemuFwCfgItemFileDir then enc_dir [demo_entry] else bs)\<rparr>\<rparr>"

lemma demo_file_dir:
  assumes "length bs = 5"
  shows "dir_ok (fw_item demo_model (dev (demo_file bs))) [demo_entry]"
    "dir_content (fw_item demo_model (dev (demo_file bs))) [demo_entry] [0x61] = Inr bs"
proof -
  have e: "AsciiStrEq [0x61] (de_name demo_entry) = Ok True" "de_select demo_entry \<noteq> QemuFwCfgItemFileDir"
    by (simp add: demo_entry_def numeral_eq_Suc) (simp add: demo_entry_def QemuFwCfgItemFileDir_def)
  have "length (de_name demo_entry) = 56" "unat (de_size demo_entry) = 5" by (simp_all add: demo_entry_def)
  then show "dir_ok (fw_item demo_model (dev (demo_file bs))) [demo_entry]"
    using assms e by (auto simp: dir_ok_def demo_file_def demo_model_def)
  show "dir_content (fw_item demo_model (dev (demo_file bs))) [demo_entry] [0x61] = Inr bs"
    using e by (simp add: dir_content_def demo_file_def demo_model_def)
qed

theorem QemuFwCfgParseBool_line_witness:
  "\<exists>w'. QemuFwCfgParseBool demo_lib (port_ops demo_io (demo_impl False)) [0x61] (demo_file [0x59, 0x65, 0x53, 0x0D, 0x0A]) =
     Some (Ok (Inr True, w'))"
proof -
  have "stricmp_ok demo_lib" by (simp add: stricmp_ok_def demo_lib_def)
  moreover have "map tolower8 [0x59, 0x65, 0x53] \<in> set mTrueString" by (simp add: tolower8_def mTrueString_def ascii_def)
  ultimately show ?thesis
    using QemuFwCfgParseBool_line [OF demo_config demo_file_dir(1), of "[0x59, 0x65, 0x53, 0x0D, 0x0A]" demo_lib "[0x61]"
        "[0x59, 0x65, 0x53]" "[0x0D, 0x0A]" "[]" False]
      demo_file_dir(2) [of "[0x59, 0x65, 0x53, 0x0D, 0x0A]"] by auto
qed

text \<open>
  The integer parsers accept exactly the files whose text converts
  completely to a value in range: on success the narrowed result has the value of
  the text, so the casts to 8, 16 and 32 bits lose nothing; an empty number,
  trailing characters or a value above the limit are protocol errors.
\<close>

theorem QemuFwCfgParseUint_in_range:
  assumes "fw_config (io, impl, m)" and "dir_ok (fw_item m (dev w)) es" and "length nm < 56"
    and "dir_content (fw_item m (dev w)) es nm = Inr bs" and "file_text 23 bs = Inr t"
    and "AsciiStrToUint64S lib hex (StripNewline t) = (EFI_SUCCESS, e, v)" and "e < length (StripNewline t)"
  shows "\<exists>r8 r16 r32 w8 w16 w32.
    QemuFwCfgParseUint8 lib (port_ops io impl) nm hex w = Some (Ok (r8, w8)) \<and>
    QemuFwCfgParseUint16 lib (port_ops io impl) nm hex w = Some (Ok (r16, w16)) \<and>
    QemuFwCfgParseUint32 lib (port_ops io impl) nm hex w = Some (Ok (r32, w32)) \<and>
    (if 0 < e \<and> StripNewline t ! e = 0 \<and> unat v < 2 ^ 8 then \<exists>x. r8 = Inr x \<and> unat x = unat v else r8 = Inl EFI_PROTOCOL_ERROR) \<and>
    (if 0 < e \<and> StripNewline t ! e = 0 \<and> unat v < 2 ^ 16 then \<exists>x. r16 = Inr x \<and> unat x = unat v else r16 = Inl EFI_PROTOCOL_ERROR) \<and>
    (if 0 < e \<and> StripNewline t ! e = 0 \<and> unat v < 2 ^ 32 then \<exists>x. r32 = Inr x \<and> unat x = unat v else r32 = Inl EFI_PROTOCOL_ERROR)"
proof -
  have P: "\<exists>w'. QemuFwCfgParseUint64WithLimit lib (port_ops io impl) nm hex lim w =
    Some (Ok (if e = 0 \<or> StripNewline t ! e \<noteq> 0 \<or> v > lim then Inl EFI_PROTOCOL_ERROR else Inr v, w'))" for lim
    using port_uint [of io impl m w es nm t lib hex EFI_SUCCESS e v lim] assms by (simp add: port_ops_eq [OF assms(1)])
  have g: "v > 0xFF \<longleftrightarrow> \<not> unat v < 2 ^ 8" "v > 0xFFFF \<longleftrightarrow> \<not> unat v < 2 ^ 16" "v > 0xFFFFFFFF \<longleftrightarrow> \<not> unat v < 2 ^ 32"
    by (auto simp: word_less_nat_alt)
  have u: "unat v < 2 ^ 8 \<Longrightarrow> unat (ucast v :: u8) = unat v" "unat v < 2 ^ 16 \<Longrightarrow> unat (ucast v :: u16) = unat v"
    "unat v < 2 ^ 32 \<Longrightarrow> unat (ucast v :: u32) = unat v"
    by (simp_all add: unsigned_ucast_eq take_bit_eq_mod)
  obtain w8 w16 w32 where w: "QemuFwCfgParseUint64WithLimit lib (port_ops io impl) nm hex 0xFF w =
      Some (Ok (if e = 0 \<or> StripNewline t ! e \<noteq> 0 \<or> v > 0xFF then Inl EFI_PROTOCOL_ERROR else Inr v, w8))"
    "QemuFwCfgParseUint64WithLimit lib (port_ops io impl) nm hex 0xFFFF w =
      Some (Ok (if e = 0 \<or> StripNewline t ! e \<noteq> 0 \<or> v > 0xFFFF then Inl EFI_PROTOCOL_ERROR else Inr v, w16))"
    "QemuFwCfgParseUint64WithLimit lib (port_ops io impl) nm hex 0xFFFFFFFF w =
      Some (Ok (if e = 0 \<or> StripNewline t ! e \<noteq> 0 \<or> v > 0xFFFFFFFF then Inl EFI_PROTOCOL_ERROR else Inr v, w32))"
    using P by metis
  show ?thesis
    unfolding QemuFwCfgParseUint8_def QemuFwCfgParseUint16_def QemuFwCfgParseUint32_def map_value_def w g
    using u by (intro exI conjI) auto
qed

theorem QemuFwCfgParseUint_in_range_witness:
  "\<exists>r w'. QemuFwCfgParseUint8 demo_lib (port_ops demo_io (demo_impl True)) [0x61] True (demo_file [0x31, 0, 0, 0, 0]) = Some (Ok (r, w')) \<and>
     (\<exists>x. r = Inr x \<and> unat x = 0x31)"
proof -
  have ft: "file_text 23 [0x31, 0, 0, 0, 0] = Inr [0x31, 0, 0, 0, 0]" by (simp add: file_text_def)
  have sn: "StripNewline [0x31, 0, 0, 0, 0] = [0x31, 0, 0, 0, 0]" by (simp add: StripNewline_def)
  have cv: "AsciiStrToUint64S demo_lib True [0x31, 0, 0, 0, 0] = (EFI_SUCCESS, 1, 0x31)"
    by (simp add: demo_lib_def cstr_def)
  show ?thesis
    using QemuFwCfgParseUint_in_range [OF demo_config demo_file_dir(1), of "[0x31, 0, 0, 0, 0]" "[0x61]" "[0x31, 0, 0, 0, 0]"
        "[0x31, 0, 0, 0, 0]" demo_lib True 1 "0x31" True, unfolded sn cv] ft
      demo_file_dir(2) [of "[0x31, 0, 0, 0, 0]"] by auto
qed

end
