(* ===== verification/Pic8259.thy ===== *)
theory Pic8259
  imports Prelude
begin

text \<open>
  Model of \<open>Platforms/QemuQ35Pkg/8259InterruptControllerDxe/8259.c\<close>, the driver of
  the two cascaded 8259 interrupt controllers.  The module variables are a record;
  the port accesses and the task priority services are arguments that act on a
  machine state \<open>'w\<close>.  \<open>EFI_8259_IRQ\<close> is a 32-bit value, so the range checks are
  part of the model.
\<close>

unbundle bit_operations_syntax

section \<open>Driver\<close>

datatype EFI_8259_MODE = Efi8259LegacyMode | Efi8259ProtectedMode | Efi8259OtherMode nat

record pic_vars =
  mMasterBase :: u8
  mSlaveBase :: u8
  mMode :: EFI_8259_MODE
  mProtectedModeMask :: u16
  mLegacyModeMask :: u16
  mProtectedModeEdgeLevel :: u16
  mLegacyModeEdgeLevel :: u16

record 'w pic_io =
  IoRead8 :: "nat \<Rightarrow> 'w \<Rightarrow> u8 \<times> 'w"
  IoWrite8 :: "nat \<Rightarrow> u8 \<Rightarrow> 'w \<Rightarrow> 'w"
  RaiseTPL :: "nat \<Rightarrow> 'w \<Rightarrow> nat \<times> 'w"
  RestoreTPL :: "nat \<Rightarrow> 'w \<Rightarrow> 'w"

definition initial_vars :: "u16 \<Rightarrow> u16 \<Rightarrow> pic_vars" where
  "initial_vars lm le = \<lparr>mMasterBase = 0xff, mSlaveBase = 0xff, mMode = Efi8259ProtectedMode, mProtectedModeMask = 0xffff,
     mLegacyModeMask = lm, mProtectedModeEdgeLevel = 0, mLegacyModeEdgeLevel = le\<rparr>"

definition LEGACY_8259_CONTROL_REGISTER_MASTER :: nat where "LEGACY_8259_CONTROL_REGISTER_MASTER = 0x20"
definition LEGACY_8259_MASK_REGISTER_MASTER :: nat where "LEGACY_8259_MASK_REGISTER_MASTER = 0x21"
definition LEGACY_8259_CONTROL_REGISTER_SLAVE :: nat where "LEGACY_8259_CONTROL_REGISTER_SLAVE = 0xA0"
definition LEGACY_8259_MASK_REGISTER_SLAVE :: nat where "LEGACY_8259_MASK_REGISTER_SLAVE = 0xA1"
definition LEGACY_8259_EDGE_LEVEL_TRIGGERED_REGISTER_MASTER :: nat where
  "LEGACY_8259_EDGE_LEVEL_TRIGGERED_REGISTER_MASTER = 0x4D0"
definition LEGACY_8259_EDGE_LEVEL_TRIGGERED_REGISTER_SLAVE :: nat where
  "LEGACY_8259_EDGE_LEVEL_TRIGGERED_REGISTER_SLAVE = 0x4D1"
definition LEGACY_8259_EOI :: u8 where "LEGACY_8259_EOI = 0x20"
definition PROTECTED_MODE_BASE_VECTOR_MASTER :: u8 where "PROTECTED_MODE_BASE_VECTOR_MASTER = 0x68"
definition PROTECTED_MODE_BASE_VECTOR_SLAVE :: u8 where "PROTECTED_MODE_BASE_VECTOR_SLAVE = 0x70"
definition TPL_HIGH_LEVEL :: nat where "TPL_HIGH_LEVEL = 31"

lemmas pic_ports = LEGACY_8259_CONTROL_REGISTER_MASTER_def LEGACY_8259_MASK_REGISTER_MASTER_def
  LEGACY_8259_CONTROL_REGISTER_SLAVE_def LEGACY_8259_MASK_REGISTER_SLAVE_def
  LEGACY_8259_EDGE_LEVEL_TRIGGERED_REGISTER_MASTER_def LEGACY_8259_EDGE_LEVEL_TRIGGERED_REGISTER_SLAVE_def
  LEGACY_8259_EOI_def

definition Interrupt8259WriteMask :: "'w pic_io \<Rightarrow> u16 \<Rightarrow> u16 \<Rightarrow> 'w \<Rightarrow> 'w" where
  "Interrupt8259WriteMask io Mask EdgeLevel w =
    (let w1 = IoWrite8 io LEGACY_8259_MASK_REGISTER_MASTER (ucast Mask) w;
         w2 = IoWrite8 io LEGACY_8259_MASK_REGISTER_SLAVE (ucast (drop_bit 8 Mask)) w1;
         w3 = IoWrite8 io LEGACY_8259_EDGE_LEVEL_TRIGGERED_REGISTER_MASTER (ucast EdgeLevel) w2
     in IoWrite8 io LEGACY_8259_EDGE_LEVEL_TRIGGERED_REGISTER_SLAVE (ucast (drop_bit 8 EdgeLevel)) w3)"

text \<open>Both out parameters are given by all callers; the result is mask and edge/level.\<close>

definition Interrupt8259ReadMask :: "'w pic_io \<Rightarrow> 'w \<Rightarrow> u16 \<times> u16 \<times> 'w" where
  "Interrupt8259ReadMask io w =
    (case IoRead8 io LEGACY_8259_MASK_REGISTER_MASTER w of (mm, w1) \<Rightarrow>
     case IoRead8 io LEGACY_8259_MASK_REGISTER_SLAVE w1 of (ms, w2) \<Rightarrow>
     case IoRead8 io LEGACY_8259_EDGE_LEVEL_TRIGGERED_REGISTER_MASTER w2 of (em, w3) \<Rightarrow>
     case IoRead8 io LEGACY_8259_EDGE_LEVEL_TRIGGERED_REGISTER_SLAVE w3 of (es, w4) \<Rightarrow>
       (ucast mm OR push_bit 8 (ucast ms), ucast em OR push_bit 8 (ucast es), w4))"

text \<open>Programming one controller: save the mask, four initialization words, restore.\<close>

definition ProgramBase :: "'w pic_io \<Rightarrow> nat \<Rightarrow> nat \<Rightarrow> u8 \<Rightarrow> u8 \<Rightarrow> 'w \<Rightarrow> 'w" where
  "ProgramBase io ctl msk base cascade w =
    (case IoRead8 io msk w of (Mask, w1) \<Rightarrow>
       let w2 = IoWrite8 io ctl 0x11 w1;
           w3 = IoWrite8 io msk base w2;
           w4 = IoWrite8 io msk cascade w3;
           w5 = IoWrite8 io msk 0x01 w4
       in IoWrite8 io msk Mask w5)"

definition Interrupt8259SetVectorBase :: "'w pic_io \<Rightarrow> u8 \<Rightarrow> u8 \<Rightarrow> pic_vars \<times> 'w \<Rightarrow> EFI_STATUS \<times> pic_vars \<times> 'w" where
  "Interrupt8259SetVectorBase io MasterBase SlaveBase s =
    (case s of (v, w) \<Rightarrow>
     case RaiseTPL io TPL_HIGH_LEVEL w of (OriginalTpl, w0) \<Rightarrow>
       let (v1, w1) = (if SlaveBase \<noteq> mSlaveBase v
                       then (v\<lparr>mSlaveBase := SlaveBase\<rparr>,
                             ProgramBase io LEGACY_8259_CONTROL_REGISTER_SLAVE LEGACY_8259_MASK_REGISTER_SLAVE SlaveBase 0x02 w0)
                       else (v, w0));
           (v2, w2) = (if MasterBase \<noteq> mMasterBase v1
                       then (v1\<lparr>mMasterBase := MasterBase\<rparr>,
                             ProgramBase io LEGACY_8259_CONTROL_REGISTER_MASTER LEGACY_8259_MASK_REGISTER_MASTER MasterBase 0x04 w1)
                       else (v1, w1));
           w3 = IoWrite8 io LEGACY_8259_CONTROL_REGISTER_SLAVE LEGACY_8259_EOI w2;
           w4 = IoWrite8 io LEGACY_8259_CONTROL_REGISTER_MASTER LEGACY_8259_EOI w3
       in (EFI_SUCCESS, v2, RestoreTPL io OriginalTpl w4))"

text \<open>Legacy mask, legacy edge/level, protected mask, protected edge/level.\<close>

definition Interrupt8259GetMask :: "pic_vars \<Rightarrow> EFI_STATUS \<times> u16 \<times> u16 \<times> u16 \<times> u16" where
  "Interrupt8259GetMask v =
     (EFI_SUCCESS, mLegacyModeMask v, mLegacyModeEdgeLevel v, mProtectedModeMask v, mProtectedModeEdgeLevel v)"

definition opt_set :: "u16 option \<Rightarrow> u16 \<Rightarrow> u16" where
  "opt_set p old = (case p of None \<Rightarrow> old | Some x \<Rightarrow> x)"

definition Interrupt8259SetMask ::
  "u16 option \<Rightarrow> u16 option \<Rightarrow> u16 option \<Rightarrow> u16 option \<Rightarrow> pic_vars \<times> 'w \<Rightarrow> EFI_STATUS \<times> pic_vars \<times> 'w" where
  "Interrupt8259SetMask LegacyMask LegacyEdgeLevel ProtectedMask ProtectedEdgeLevel s =
    (case s of (v, w) \<Rightarrow>
      (EFI_SUCCESS,
       v\<lparr>mLegacyModeMask := opt_set LegacyMask (mLegacyModeMask v),
         mLegacyModeEdgeLevel := opt_set LegacyEdgeLevel (mLegacyModeEdgeLevel v),
         mProtectedModeMask := opt_set ProtectedMask (mProtectedModeMask v),
         mProtectedModeEdgeLevel := opt_set ProtectedEdgeLevel (mProtectedModeEdgeLevel v)\<rparr>, w))"

definition Interrupt8259SetMode ::
  "'w pic_io \<Rightarrow> EFI_8259_MODE \<Rightarrow> u16 option \<Rightarrow> u16 option \<Rightarrow> pic_vars \<times> 'w \<Rightarrow> EFI_STATUS \<times> pic_vars \<times> 'w" where
  "Interrupt8259SetMode io Mode Mask EdgeLevel s =
    (case s of (v, w) \<Rightarrow>
      if Mode = mMode v then (EFI_SUCCESS, v, w)
      else if Mode = Efi8259LegacyMode then
        (case Interrupt8259ReadMask io w of (m, e, w1) \<Rightarrow>
           let v1 = v\<lparr>mProtectedModeMask := m, mProtectedModeEdgeLevel := e,
                      mLegacyModeMask := opt_set Mask (mLegacyModeMask v),
                      mLegacyModeEdgeLevel := opt_set EdgeLevel (mLegacyModeEdgeLevel v), mMode := Mode\<rparr>
           in (EFI_SUCCESS, v1, Interrupt8259WriteMask io (mLegacyModeMask v1) (mLegacyModeEdgeLevel v1) w1))
      else if Mode = Efi8259ProtectedMode then
        (case Interrupt8259ReadMask io w of (m, e, w1) \<Rightarrow>
           let v1 = v\<lparr>mLegacyModeMask := m AND 0xFFFE, mLegacyModeEdgeLevel := e,
                      mProtectedModeMask := opt_set Mask (mProtectedModeMask v),
                      mProtectedModeEdgeLevel := opt_set EdgeLevel (mProtectedModeEdgeLevel v), mMode := Mode\<rparr>
           in (EFI_SUCCESS, v1, Interrupt8259WriteMask io (mProtectedModeMask v1) (mProtectedModeEdgeLevel v1) w1))
      else (EFI_INVALID_PARAMETER, v, w))"

definition Interrupt8259GetVector :: "u32 \<Rightarrow> pic_vars \<Rightarrow> EFI_STATUS + u8" where
  "Interrupt8259GetVector Irq v =
    (if Irq > 15 then Inl EFI_INVALID_PARAMETER
     else if Irq \<le> 7 then Inr (mMasterBase v + ucast Irq)
     else Inr (mSlaveBase v + ucast (Irq - 8)))"

definition irq_bit :: "u32 \<Rightarrow> u16" where
  "irq_bit Irq = push_bit (unat Irq) 1"

definition Interrupt8259EnableIrq :: "'w pic_io \<Rightarrow> u32 \<Rightarrow> bool \<Rightarrow> pic_vars \<times> 'w \<Rightarrow> EFI_STATUS \<times> pic_vars \<times> 'w" where
  "Interrupt8259EnableIrq io Irq LevelTriggered s =
    (case s of (v, w) \<Rightarrow>
      if Irq > 15 then (EFI_INVALID_PARAMETER, v, w)
      else
        let v1 = v\<lparr>mProtectedModeMask := mProtectedModeMask v AND NOT (irq_bit Irq),
                   mProtectedModeEdgeLevel := (if LevelTriggered then mProtectedModeEdgeLevel v OR irq_bit Irq
                                               else mProtectedModeEdgeLevel v AND NOT (irq_bit Irq))\<rparr>
        in (EFI_SUCCESS, v1, Interrupt8259WriteMask io (mProtectedModeMask v1) (mProtectedModeEdgeLevel v1) w))"

definition Interrupt8259DisableIrq :: "'w pic_io \<Rightarrow> u32 \<Rightarrow> pic_vars \<times> 'w \<Rightarrow> EFI_STATUS \<times> pic_vars \<times> 'w" where
  "Interrupt8259DisableIrq io Irq s =
    (case s of (v, w) \<Rightarrow>
      if Irq > 15 then (EFI_INVALID_PARAMETER, v, w)
      else
        let v1 = v\<lparr>mProtectedModeMask := mProtectedModeMask v OR irq_bit Irq,
                   mProtectedModeEdgeLevel := mProtectedModeEdgeLevel v AND NOT (irq_bit Irq)\<rparr>
        in (EFI_SUCCESS, v1, Interrupt8259WriteMask io (mProtectedModeMask v1) (mProtectedModeEdgeLevel v1) w))"

text \<open>\<open>HandleStatus\<close> and \<open>ReadLine\<close> are the PCI protocol lookup and its config read.\<close>

definition Interrupt8259GetInterruptLine :: "EFI_STATUS \<Rightarrow> ('w \<Rightarrow> u8 \<times> 'w) \<Rightarrow> 'w \<Rightarrow> (EFI_STATUS + u8) \<times> 'w" where
  "Interrupt8259GetInterruptLine HandleStatus ReadLine w =
    (if EFI_ERROR HandleStatus then (Inl EFI_INVALID_PARAMETER, w)
     else case ReadLine w of (InterruptLine, w1) \<Rightarrow> (Inr InterruptLine, w1))"

definition Interrupt8259EndOfInterrupt :: "'w pic_io \<Rightarrow> u32 \<Rightarrow> pic_vars \<times> 'w \<Rightarrow> EFI_STATUS \<times> pic_vars \<times> 'w" where
  "Interrupt8259EndOfInterrupt io Irq s =
    (case s of (v, w) \<Rightarrow>
      if Irq > 15 then (EFI_INVALID_PARAMETER, v, w)
      else
        let w1 = (if Irq \<ge> 8 then IoWrite8 io LEGACY_8259_CONTROL_REGISTER_SLAVE LEGACY_8259_EOI w else w)
        in (EFI_SUCCESS, v, IoWrite8 io LEGACY_8259_CONTROL_REGISTER_MASTER LEGACY_8259_EOI w1))"

text \<open>\<open>LegacyMask\<close> and \<open>LegacyEdge\<close> are the two PCDs; \<open>InstallProtocolInterface\<close> is
  the status of the final service call.\<close>

definition Install8259 ::
  "'w pic_io \<Rightarrow> u16 \<Rightarrow> u16 \<Rightarrow> ('w \<Rightarrow> EFI_STATUS \<times> 'w) \<Rightarrow> pic_vars \<times> 'w \<Rightarrow> EFI_STATUS \<times> pic_vars \<times> 'w" where
  "Install8259 io LegacyMask LegacyEdge InstallProtocolInterface s =
    (case s of (v, w) \<Rightarrow>
       let v0 = v\<lparr>mLegacyModeMask := LegacyMask, mLegacyModeEdgeLevel := LegacyEdge\<rparr>;
           s1 = fold (\<lambda>Irq s. snd (Interrupt8259EndOfInterrupt io (of_nat Irq) s)) [0..<16] (v0, w)
       in case snd (Interrupt8259SetVectorBase io PROTECTED_MODE_BASE_VECTOR_MASTER PROTECTED_MODE_BASE_VECTOR_SLAVE s1) of
            (v2, w2) \<Rightarrow>
              case InstallProtocolInterface (Interrupt8259WriteMask io (mProtectedModeMask v2) (mProtectedModeEdgeLevel v2) w2) of
                (Status, w3) \<Rightarrow> (Status, v2, w3))"

section \<open>The controllers\<close>

text \<open>
  What the data sheet says of the registers the driver uses.  \<open>icw\<close> is the
  initialization word expected next, 0 in operation.  Writing ICW1 clears the mask;
  \<open>icw3\<close> tells the master which line the slave is on and the slave its number,
  \<open>icw4\<close> selects the mode of the processor.
\<close>

record pic =
  imr :: u8
  vec :: u8
  icw :: nat
  icw3 :: u8
  icw4 :: u8

record pic_pair =
  pm :: pic
  ps :: pic
  elcr_m :: u8
  elcr_s :: u8

definition pic_control :: "u8 \<Rightarrow> pic \<Rightarrow> pic" where
  "pic_control x p = (if bit x 4 then p\<lparr>icw := 2, imr := 0\<rparr> else p)"

definition pic_data :: "u8 \<Rightarrow> pic \<Rightarrow> pic" where
  "pic_data x p =
    (if icw p = 2 then p\<lparr>vec := x AND 0xF8, icw := 3\<rparr>
     else if icw p = 3 then p\<lparr>icw3 := x, icw := 4\<rparr>
     else if icw p = 4 then p\<lparr>icw4 := x, icw := 0\<rparr>
     else p\<lparr>imr := x\<rparr>)"

definition pair_write :: "nat \<Rightarrow> u8 \<Rightarrow> pic_pair \<Rightarrow> pic_pair" where
  "pair_write port x c =
    (if port = LEGACY_8259_CONTROL_REGISTER_MASTER then c\<lparr>pm := pic_control x (pm c)\<rparr>
     else if port = LEGACY_8259_MASK_REGISTER_MASTER then c\<lparr>pm := pic_data x (pm c)\<rparr>
     else if port = LEGACY_8259_CONTROL_REGISTER_SLAVE then c\<lparr>ps := pic_control x (ps c)\<rparr>
     else if port = LEGACY_8259_MASK_REGISTER_SLAVE then c\<lparr>ps := pic_data x (ps c)\<rparr>
     else if port = LEGACY_8259_EDGE_LEVEL_TRIGGERED_REGISTER_MASTER then c\<lparr>elcr_m := x\<rparr>
     else if port = LEGACY_8259_EDGE_LEVEL_TRIGGERED_REGISTER_SLAVE then c\<lparr>elcr_s := x\<rparr>
     else c)"

definition pair_read :: "nat \<Rightarrow> pic_pair \<Rightarrow> u8" where
  "pair_read port c =
    (if port = LEGACY_8259_MASK_REGISTER_MASTER then imr (pm c)
     else if port = LEGACY_8259_MASK_REGISTER_SLAVE then imr (ps c)
     else if port = LEGACY_8259_EDGE_LEVEL_TRIGGERED_REGISTER_MASTER then elcr_m c
     else if port = LEGACY_8259_EDGE_LEVEL_TRIGGERED_REGISTER_SLAVE then elcr_s c
     else 0)"

text \<open>Hypothesis: the ports of the machine are those of a pair of controllers, observed
  by \<open>obs\<close>; the task priority services leave them alone.\<close>

definition chip_ok :: "'w pic_io \<Rightarrow> ('w \<Rightarrow> pic_pair) \<Rightarrow> bool" where
  "chip_ok io obs \<longleftrightarrow>
    (\<forall>port x w. obs (IoWrite8 io port x w) = pair_write port x (obs w)) \<and>
    (\<forall>port w. fst (IoRead8 io port w) = pair_read port (obs w) \<and> obs (snd (IoRead8 io port w)) = obs w) \<and>
    (\<forall>t w. obs (snd (RaiseTPL io t w)) = obs w) \<and> (\<forall>t w. obs (RestoreTPL io t w) = obs w)"

definition hw_mask :: "pic_pair \<Rightarrow> u16" where
  "hw_mask c = ucast (imr (pm c)) OR push_bit 8 (ucast (imr (ps c)))"

definition hw_edge :: "pic_pair \<Rightarrow> u16" where
  "hw_edge c = ucast (elcr_m c) OR push_bit 8 (ucast (elcr_s c))"

definition operational :: "pic_pair \<Rightarrow> bool" where
  "operational c \<longleftrightarrow> icw (pm c) = 0 \<and> icw (ps c) = 0"

text \<open>The slave is on line 2 of the master, and both use the 8086 mode without automatic end of interrupt.\<close>

definition cascaded :: "pic_pair \<Rightarrow> bool" where
  "cascaded c \<longleftrightarrow> icw3 (pm c) = push_bit 2 1 \<and> icw3 (ps c) = 2 \<and> icw4 (pm c) = 1 \<and> icw4 (ps c) = 1"

text \<open>The registers written by \<open>Interrupt8259WriteMask\<close>.\<close>

definition with_mask :: "u16 \<Rightarrow> u16 \<Rightarrow> pic_pair \<Rightarrow> pic_pair" where
  "with_mask m e c = c\<lparr>pm := (pm c)\<lparr>imr := ucast m\<rparr>, ps := (ps c)\<lparr>imr := ucast (drop_bit 8 m)\<rparr>,
     elcr_m := ucast e, elcr_s := ucast (drop_bit 8 e)\<rparr>"

lemma chip_laws:
  assumes "chip_ok io obs"
  shows "obs (IoWrite8 io port x w) = pair_write port x (obs w)"
    and "fst (IoRead8 io port w) = pair_read port (obs w)" and "obs (snd (IoRead8 io port w)) = obs w"
    and "obs (snd (RaiseTPL io t w)) = obs w" and "obs (RestoreTPL io t w) = obs w"
  using assms by (simp_all add: chip_ok_def)

lemma join16: "ucast (ucast m :: u8) OR push_bit 8 (ucast (ucast (drop_bit 8 m) :: u8)) = (m :: u16)"
  by (rule bit_word_eqI) (auto simp: bit_simps)

lemma hw_with_mask [simp]: "hw_mask (with_mask m e c) = m" "hw_edge (with_mask m e c) = e"
  by (simp_all add: hw_mask_def hw_edge_def with_mask_def join16)

lemma with_mask_other [simp]:
  "vec (pm (with_mask m e c)) = vec (pm c)" "vec (ps (with_mask m e c)) = vec (ps c)"
  "operational (with_mask m e c) = operational c" "cascaded (with_mask m e c) = cascaded c"
  by (simp_all add: with_mask_def operational_def cascaded_def)

lemma WriteMask_obs:
  assumes "chip_ok io obs" and "operational (obs w)"
  shows "obs (Interrupt8259WriteMask io m e w) = with_mask m e (obs w)"
  using assms(2) by (simp add: Interrupt8259WriteMask_def Let_def chip_laws [OF assms(1)] pair_write_def pic_ports
      pic_data_def operational_def with_mask_def)

lemma ReadMask_obs:
  assumes "chip_ok io obs"
  shows "\<exists>w'. Interrupt8259ReadMask io w = (hw_mask (obs w), hw_edge (obs w), w') \<and> obs w' = obs w"
  by (simp add: Interrupt8259ReadMask_def hw_mask_def hw_edge_def pair_read_def pic_ports case_prod_beta chip_laws [OF assms])

lemma ProgramBase_obs:
  assumes "chip_ok io obs"
  shows "icw (pm (obs w)) = 0 \<Longrightarrow>
      obs (ProgramBase io LEGACY_8259_CONTROL_REGISTER_MASTER LEGACY_8259_MASK_REGISTER_MASTER b k w) =
      (obs w)\<lparr>pm := (pm (obs w))\<lparr>vec := b AND 0xF8, icw3 := k, icw4 := 1\<rparr>\<rparr>"
    and "icw (ps (obs w)) = 0 \<Longrightarrow>
      obs (ProgramBase io LEGACY_8259_CONTROL_REGISTER_SLAVE LEGACY_8259_MASK_REGISTER_SLAVE b k w) =
      (obs w)\<lparr>ps := (ps (obs w))\<lparr>vec := b AND 0xF8, icw3 := k, icw4 := 1\<rparr>\<rparr>"
proof -
  have b: "bit (0x11 :: u8) 4" by code_simp
  have r: "IoRead8 io port w = (pair_read port (obs w), snd (IoRead8 io port w))" for port w
    using chip_laws(2) [OF assms, of port w] by (metis prod.collapse)
  show "icw (pm (obs w)) = 0 \<Longrightarrow>
      obs (ProgramBase io LEGACY_8259_CONTROL_REGISTER_MASTER LEGACY_8259_MASK_REGISTER_MASTER b k w) =
      (obs w)\<lparr>pm := (pm (obs w))\<lparr>vec := b AND 0xF8, icw3 := k, icw4 := 1\<rparr>\<rparr>"
    unfolding ProgramBase_def Let_def
    by (subst r) (simp add: chip_laws [OF assms] pair_write_def pair_read_def pic_ports pic_control_def pic_data_def b)
  show "icw (ps (obs w)) = 0 \<Longrightarrow>
      obs (ProgramBase io LEGACY_8259_CONTROL_REGISTER_SLAVE LEGACY_8259_MASK_REGISTER_SLAVE b k w) =
      (obs w)\<lparr>ps := (ps (obs w))\<lparr>vec := b AND 0xF8, icw3 := k, icw4 := 1\<rparr>\<rparr>"
    unfolding ProgramBase_def Let_def
    by (subst r) (simp add: chip_laws [OF assms] pair_write_def pair_read_def pic_ports pic_control_def pic_data_def b)
qed

lemma EOI_obs:
  assumes "chip_ok io obs"
  shows "obs (IoWrite8 io LEGACY_8259_CONTROL_REGISTER_SLAVE LEGACY_8259_EOI w) = obs w"
    and "obs (IoWrite8 io LEGACY_8259_CONTROL_REGISTER_MASTER LEGACY_8259_EOI w) = obs w"
proof -
  have "\<not> bit (0x20 :: u8) 4" by code_simp
  then show "obs (IoWrite8 io LEGACY_8259_CONTROL_REGISTER_SLAVE LEGACY_8259_EOI w) = obs w"
    "obs (IoWrite8 io LEGACY_8259_CONTROL_REGISTER_MASTER LEGACY_8259_EOI w) = obs w"
    by (simp_all add: chip_laws [OF assms] pair_write_def pic_ports pic_control_def)
qed

lemma EndOfInterrupt_obs:
  assumes "chip_ok io obs"
  shows "fst (snd (Interrupt8259EndOfInterrupt io i s)) = fst s"
    and "obs (snd (snd (Interrupt8259EndOfInterrupt io i s))) = obs (snd s)"
  by (simp_all add: Interrupt8259EndOfInterrupt_def Let_def EOI_obs [OF assms] split: prod.splits)

text \<open>\<open>SetVectorBase\<close> initializes the controllers whose cached vector base differs, and
  leaves everything else of them alone.\<close>

definition based :: "u8 \<Rightarrow> u8 \<Rightarrow> u8 \<Rightarrow> pic \<Rightarrow> pic" where
  "based old b k p = (if b = old then p else p\<lparr>vec := b AND 0xF8, icw3 := k, icw4 := 1\<rparr>)"

lemma based_simps [simp]:
  "icw (based old b k p) = icw p" "vec (based old b k p) = (if b = old then vec p else b AND 0xF8)"
  "icw3 (based old b k p) = (if b = old then icw3 p else k)" "icw4 (based old b k p) = (if b = old then icw4 p else 1)"
  by (simp_all add: based_def)

lemma SetVectorBase_obs:
  assumes "chip_ok io obs" and "operational (obs w)"
  shows "\<exists>w'. Interrupt8259SetVectorBase io mb sb (v, w) = (EFI_SUCCESS, v\<lparr>mMasterBase := mb, mSlaveBase := sb\<rparr>, w') \<and>
    obs w' = (obs w)\<lparr>pm := based (mMasterBase v) mb 0x04 (pm (obs w)), ps := based (mSlaveBase v) sb 0x02 (ps (obs w))\<rparr>"
proof -
  obtain t w0 where t: "RaiseTPL io TPL_HIGH_LEVEL w = (t, w0)" and o: "obs w0 = obs w"
    using chip_laws(4) [OF assms(1), of TPL_HIGH_LEVEL w] by (cases "RaiseTPL io TPL_HIGH_LEVEL w") auto
  show ?thesis
    using assms(2) o
    by (simp add: Interrupt8259SetVectorBase_def t Let_def EOI_obs [OF assms(1)] chip_laws(5) [OF assms(1)]
        ProgramBase_obs [OF assms(1)] operational_def based_def)
qed

section \<open>Every sequence of protocol calls\<close>

datatype pic_event =
    SetVectorBase u8 u8
  | SetMask "u16 option" "u16 option" "u16 option" "u16 option"
  | SetMode EFI_8259_MODE "u16 option" "u16 option"
  | EnableIrq u32 bool
  | DisableIrq u32
  | EndOfInterrupt u32

fun pic_step :: "'w pic_io \<Rightarrow> pic_vars \<times> 'w \<Rightarrow> pic_event \<Rightarrow> pic_vars \<times> 'w" where
  "pic_step io s (SetVectorBase mb sb) = snd (Interrupt8259SetVectorBase io mb sb s)"
| "pic_step io s (SetMask lm le rm re) = snd (Interrupt8259SetMask lm le rm re s)"
| "pic_step io s (SetMode md m e) = snd (Interrupt8259SetMode io md m e s)"
| "pic_step io s (EnableIrq i l) = snd (Interrupt8259EnableIrq io i l s)"
| "pic_step io s (DisableIrq i) = snd (Interrupt8259DisableIrq io i s)"
| "pic_step io s (EndOfInterrupt i) = snd (Interrupt8259EndOfInterrupt io i s)"

definition pic_inv :: "'w pic_io \<Rightarrow> ('w \<Rightarrow> pic_pair) \<Rightarrow> pic_vars \<times> 'w \<Rightarrow> bool" where
  "pic_inv io obs s \<longleftrightarrow> chip_ok io obs \<and> operational (obs (snd s)) \<and>
     cascaded (obs (snd s)) \<and> vec (pm (obs (snd s))) = mMasterBase (fst s) AND 0xF8 \<and> vec (ps (obs (snd s))) = mSlaveBase (fst s) AND 0xF8"

lemma pic_inv_step: "pic_inv io obs s \<Longrightarrow> pic_inv io obs (pic_step io s e)"
proof (cases e)
  case (SetVectorBase mb sb)
  assume i: "pic_inv io obs s"
  obtain v w where s: "s = (v, w)" by (cases s)
  from i obtain w' where "Interrupt8259SetVectorBase io mb sb (v, w) = (EFI_SUCCESS, v\<lparr>mMasterBase := mb, mSlaveBase := sb\<rparr>, w')"
    "obs w' = (obs w)\<lparr>pm := based (mMasterBase v) mb 0x04 (pm (obs w)), ps := based (mSlaveBase v) sb 0x02 (ps (obs w))\<rparr>"
    using SetVectorBase_obs [of io obs w mb sb v] by (auto simp: pic_inv_def s)
  with i show ?thesis by (auto simp: pic_inv_def s SetVectorBase operational_def cascaded_def)
next
  case (SetMode md m e')
  assume i: "pic_inv io obs s"
  obtain v w where s: "s = (v, w)" by (cases s)
  obtain w' where "Interrupt8259ReadMask io w = (hw_mask (obs w), hw_edge (obs w), w')" "obs w' = obs w"
    using ReadMask_obs [of io obs w] i by (auto simp: pic_inv_def)
  with i show ?thesis
    by (auto simp: pic_inv_def s SetMode Interrupt8259SetMode_def Let_def WriteMask_obs)
qed (auto simp: pic_inv_def Interrupt8259SetMask_def Interrupt8259EnableIrq_def Interrupt8259DisableIrq_def Let_def
    WriteMask_obs EndOfInterrupt_obs split: prod.splits)

interpretation pic: invariant_machine "pic_step io" "pic_inv io obs" for io :: "'w pic_io" and obs
  by unfold_locales (rule pic_inv_step)

lemma Install_inv:
  assumes "chip_ok io obs" and "operational (obs w)" and "\<And>w. obs (snd (inst w)) = obs w"
  shows "pic_inv io obs (snd (Install8259 io lm le inst (initial_vars lm0 le0, w)))"
proof -
  let ?f = "\<lambda>Irq s. snd (Interrupt8259EndOfInterrupt io (of_nat Irq) s)"
  have f: "fst (fold ?f xs s) = fst s \<and> obs (snd (fold ?f xs s)) = obs (snd s)" for xs s
    by (induction xs arbitrary: s) (simp_all add: EndOfInterrupt_obs [OF assms(1)])
  let ?v0 = "(initial_vars lm0 le0)\<lparr>mLegacyModeMask := lm, mLegacyModeEdgeLevel := le\<rparr>"
  obtain w1 where w1: "fold ?f [0..<16] (?v0, w) = (?v0, w1)" "obs w1 = obs w"
    using f [of "[0..<16]" "(?v0, w)"] by (cases "fold ?f [0..<16] (?v0, w)") simp
  obtain w2 where w2: "Interrupt8259SetVectorBase io PROTECTED_MODE_BASE_VECTOR_MASTER PROTECTED_MODE_BASE_VECTOR_SLAVE (?v0, w1) =
      (EFI_SUCCESS, ?v0\<lparr>mMasterBase := PROTECTED_MODE_BASE_VECTOR_MASTER, mSlaveBase := PROTECTED_MODE_BASE_VECTOR_SLAVE\<rparr>, w2)"
    "obs w2 = (obs w)\<lparr>pm := (pm (obs w))\<lparr>vec := PROTECTED_MODE_BASE_VECTOR_MASTER AND 0xF8, icw3 := 0x04, icw4 := 1\<rparr>,
                     ps := (ps (obs w))\<lparr>vec := PROTECTED_MODE_BASE_VECTOR_SLAVE AND 0xF8, icw3 := 0x02, icw4 := 1\<rparr>\<rparr>"
    using SetVectorBase_obs [OF assms(1), of w1 PROTECTED_MODE_BASE_VECTOR_MASTER PROTECTED_MODE_BASE_VECTOR_SLAVE ?v0] w1 assms(2)
    by (auto simp: initial_vars_def based_def PROTECTED_MODE_BASE_VECTOR_MASTER_def PROTECTED_MODE_BASE_VECTOR_SLAVE_def)
  have "operational (obs w2)" "cascaded (obs w2)" using w2(2) assms(2) by (simp_all add: operational_def cascaded_def)
  then show ?thesis
    using assms(1,3) w1(1) w2 by (simp add: Install8259_def Let_def pic_inv_def WriteMask_obs case_prod_beta)
qed


lemma opt_set_None: "opt_set None x = x"
  by (simp add: opt_set_def)

lemma SetVectorBase_vars:
  "mMasterBase (fst (snd (Interrupt8259SetVectorBase io mb sb s))) = mb"
  "mSlaveBase (fst (snd (Interrupt8259SetVectorBase io mb sb s))) = sb"
  by (simp_all add: Interrupt8259SetVectorBase_def Let_def split: prod.splits)

section \<open>Properties\<close>

text \<open>The vector the controllers put on the bus for an interrupt request.\<close>

definition chip_vector :: "pic_pair \<Rightarrow> u32 \<Rightarrow> u8" where
  "chip_vector c Irq = (if Irq \<le> 7 then vec (pm c) + ucast Irq else vec (ps c) + ucast (Irq - 8))"

lemma aligned_base: "x AND 0xF8 = x \<longleftrightarrow> x AND 7 = 0" for x :: u8
proof -
  have "(0xF8 OR 7 :: u8) = - 1" by simp
  then have x: "x = (x AND 0xF8) OR (x AND 7)" by (metis bit.conj_disj_distrib and.right_neutral)
  have "(x AND 0xF8) AND 7 = 0" by (simp add: and.assoc)
  then show ?thesis using x by (metis or.right_neutral)
qed

text \<open>The cached vector base of the controller a request belongs to.\<close>

definition cached_base :: "pic_vars \<Rightarrow> u32 \<Rightarrow> u8" where
  "cached_base v Irq = (if Irq \<le> 7 then mMasterBase v else mSlaveBase v)"

text \<open>
  Property C26. After \<open>Install8259\<close> and any sequence of protocol calls (vector base
  changes, mode switches, mask and interrupt enable calls in any order) both
  controllers are in operation, cascaded on line 2 and in 8086 mode.  For every
  interrupt request \<open>Interrupt8259GetVector\<close> returns the vector the hardware delivers
  if and only if the base last set for its controller is a multiple of 8; a number
  above 15 is rejected.
\<close>

theorem Interrupt8259GetVector_agrees:
  assumes "chip_ok io obs" and "operational (obs w)" and "\<forall>w. obs (snd (inst w)) = obs w"
    and "run_events (pic_step io) (snd (Install8259 io lm le inst (initial_vars lm0 le0, w))) es = (v, w')"
  shows "operational (obs w') \<and> cascaded (obs w') \<and>
    (\<forall>Irq \<le> 15. Interrupt8259GetVector Irq v = Inr (chip_vector (obs w') Irq) \<longleftrightarrow> cached_base v Irq AND 7 = 0) \<and>
    (\<forall>Irq > 15. Interrupt8259GetVector Irq v = Inl EFI_INVALID_PARAMETER)"
proof -
  have "pic_inv io obs (snd (Install8259 io lm le inst (initial_vars lm0 le0, w)))"
    by (rule Install_inv [OF assms(1,2)]) (use assms(3) in blast)
  from pic.run_inv [OF this, of es] have i: "pic_inv io obs (v, w')" unfolding assms(4) .
  have "Interrupt8259GetVector Irq v = Inr (chip_vector (obs w') Irq) \<longleftrightarrow> cached_base v Irq AND 7 = 0" if "Irq \<le> 15" for Irq
    using i that aligned_base [of "cached_base v Irq"]
    by (auto simp: pic_inv_def Interrupt8259GetVector_def chip_vector_def cached_base_def)
  then show ?thesis using i by (auto simp: pic_inv_def Interrupt8259GetVector_def)
qed

text \<open>
  Switching from protected to legacy mode and back restores the hardware
  mask and the edge/level registers of protected mode, whatever the legacy masks
  were; in legacy mode the hardware has the legacy masks, and the saved legacy
  mask only loses the bit of the timer interrupt.
\<close>

theorem Interrupt8259SetMode_roundtrip:
  assumes "chip_ok io obs" and "operational (obs w)" and "mMode v = Efi8259ProtectedMode"
  shows "\<exists>v1 w1 v2 w2.
    Interrupt8259SetMode io Efi8259LegacyMode lm le (v, w) = (EFI_SUCCESS, v1, w1) \<and>
    hw_mask (obs w1) = opt_set lm (mLegacyModeMask v) \<and> hw_edge (obs w1) = opt_set le (mLegacyModeEdgeLevel v) \<and>
    Interrupt8259SetMode io Efi8259ProtectedMode None None (v1, w1) = (EFI_SUCCESS, v2, w2) \<and>
    hw_mask (obs w2) = hw_mask (obs w) \<and> hw_edge (obs w2) = hw_edge (obs w) \<and> mMode v2 = Efi8259ProtectedMode \<and>
    mLegacyModeMask v2 = opt_set lm (mLegacyModeMask v) AND 0xFFFE \<and>
    mLegacyModeEdgeLevel v2 = opt_set le (mLegacyModeEdgeLevel v)"
proof -
  let ?m = "opt_set lm (mLegacyModeMask v)" and ?e = "opt_set le (mLegacyModeEdgeLevel v)"
  obtain w0 where r: "Interrupt8259ReadMask io w = (hw_mask (obs w), hw_edge (obs w), w0)" "obs w0 = obs w"
    using ReadMask_obs [OF assms(1)] by blast
  define w1 where "w1 = Interrupt8259WriteMask io ?m ?e w0"
  have o1: "obs w1 = with_mask ?m ?e (obs w)" unfolding w1_def using WriteMask_obs [OF assms(1)] r(2) assms(2) by simp
  obtain w1' where r1: "Interrupt8259ReadMask io w1 = (?m, ?e, w1')" "obs w1' = obs w1"
    using ReadMask_obs [OF assms(1), of w1] o1 by auto
  show ?thesis
    using r r1 assms o1 WriteMask_obs [OF assms(1)]
    by (simp add: Interrupt8259SetMode_def Let_def w1_def [symmetric] opt_set_None)
qed

text \<open>
  \<open>Interrupt8259EnableIrq\<close> unmasks exactly the given request and sets its
  trigger mode, \<open>Interrupt8259DisableIrq\<close> masks exactly it: every other bit of the
  hardware mask is that of the protected mode mask.  A number above 15 is rejected
  and nothing changes.
\<close>

theorem Interrupt8259_irq_bits:
  assumes "chip_ok io obs" and "operational (obs w)"
  shows "(Irq > 15 \<longrightarrow> Interrupt8259EnableIrq io Irq lvl (v, w) = (EFI_INVALID_PARAMETER, v, w) \<and>
                       Interrupt8259DisableIrq io Irq (v, w) = (EFI_INVALID_PARAMETER, v, w)) \<and>
    (Irq \<le> 15 \<longrightarrow>
      (\<exists>v1 w1 v2 w2. Interrupt8259EnableIrq io Irq lvl (v, w) = (EFI_SUCCESS, v1, w1) \<and>
        Interrupt8259DisableIrq io Irq (v, w) = (EFI_SUCCESS, v2, w2) \<and>
        (\<forall>n < 16. bit (hw_mask (obs w1)) n = (n \<noteq> unat Irq \<and> bit (mProtectedModeMask v) n)) \<and>
        (\<forall>n < 16. bit (hw_edge (obs w1)) n = (if n = unat Irq then lvl else bit (mProtectedModeEdgeLevel v) n)) \<and>
        (\<forall>n < 16. bit (hw_mask (obs w2)) n = (n = unat Irq \<or> bit (mProtectedModeMask v) n)) \<and>
        (\<forall>n < 16. bit (hw_edge (obs w2)) n = (n \<noteq> unat Irq \<and> bit (mProtectedModeEdgeLevel v) n))))"
proof (intro conjI impI)
  assume "Irq \<le> 15"
  then have "\<not> Irq > 15" by simp
  then show "\<exists>v1 w1 v2 w2. Interrupt8259EnableIrq io Irq lvl (v, w) = (EFI_SUCCESS, v1, w1) \<and>
        Interrupt8259DisableIrq io Irq (v, w) = (EFI_SUCCESS, v2, w2) \<and>
        (\<forall>n < 16. bit (hw_mask (obs w1)) n = (n \<noteq> unat Irq \<and> bit (mProtectedModeMask v) n)) \<and>
        (\<forall>n < 16. bit (hw_edge (obs w1)) n = (if n = unat Irq then lvl else bit (mProtectedModeEdgeLevel v) n)) \<and>
        (\<forall>n < 16. bit (hw_mask (obs w2)) n = (n = unat Irq \<or> bit (mProtectedModeMask v) n)) \<and>
        (\<forall>n < 16. bit (hw_edge (obs w2)) n = (n \<noteq> unat Irq \<and> bit (mProtectedModeEdgeLevel v) n))"
    by (auto simp: Interrupt8259EnableIrq_def Interrupt8259DisableIrq_def Let_def WriteMask_obs [OF assms] irq_bit_def bit_simps)
qed (simp_all add: Interrupt8259EnableIrq_def Interrupt8259DisableIrq_def)

text \<open>A machine that consists of the two controllers only, for the witnesses.\<close>

definition demo_pic :: "pic_pair pic_io" where
  "demo_pic = \<lparr>IoRead8 = (\<lambda>port w. (pair_read port w, w)), IoWrite8 = pair_write,
     RaiseTPL = (\<lambda>t w. (0, w)), RestoreTPL = (\<lambda>t w. w)\<rparr>"

definition demo_pair :: pic_pair where
  "demo_pair = \<lparr>pm = \<lparr>imr = 0, vec = 0, icw = 0, icw3 = 0, icw4 = 0\<rparr>, ps = \<lparr>imr = 0, vec = 0, icw = 0, icw3 = 0, icw4 = 0\<rparr>, elcr_m = 0, elcr_s = 0\<rparr>"

lemma demo_chip: "chip_ok demo_pic id" "operational (id demo_pair)"
  by (simp_all add: chip_ok_def demo_pic_def operational_def demo_pair_def)

theorem Interrupt8259GetVector_agrees_witness:
  "\<exists>v w. run_events (pic_step demo_pic) (snd (Install8259 demo_pic 0 0 (\<lambda>w. (EFI_SUCCESS, w)) (initial_vars 0 0, demo_pair)))
      [EnableIrq 1 False, SetVectorBase 0x20 0x28] = (v, w) \<and> mSlaveBase v = 0x28 \<and>
      cascaded w \<and> Interrupt8259GetVector 9 v = Inr (chip_vector w 9)"
proof -
  let ?es = "[EnableIrq 1 False, SetVectorBase 0x20 0x28]"
  let ?s0 = "snd (Install8259 demo_pic 0 0 (\<lambda>w. (EFI_SUCCESS, w)) (initial_vars 0 0, demo_pair))"
  obtain v w where s: "run_events (pic_step demo_pic) ?s0 ?es = (v, w)" by (cases "run_events (pic_step demo_pic) ?s0 ?es")
  then have "(v, w) = snd (Interrupt8259SetVectorBase demo_pic 0x20 0x28 (pic_step demo_pic ?s0 (EnableIrq 1 False)))" by simp
  then have b: "mMasterBase v = 0x20" "mSlaveBase v = 0x28" by (metis SetVectorBase_vars fst_conv)+
  have "cached_base v 9 AND 7 = 0" by (simp add: cached_base_def b)
  with b Interrupt8259GetVector_agrees [OF demo_chip _ s] s show ?thesis by simp
qed

theorem Interrupt8259SetMode_roundtrip_witness:
  "\<exists>v1 w1 v2 w2. Interrupt8259SetMode demo_pic Efi8259LegacyMode (Some 0xFFFF) None (initial_vars 0 0, demo_pair) = (EFI_SUCCESS, v1, w1) \<and>
     hw_mask w1 = 0xFFFF \<and> Interrupt8259SetMode demo_pic Efi8259ProtectedMode None None (v1, w1) = (EFI_SUCCESS, v2, w2) \<and>
     hw_mask w2 = hw_mask demo_pair"
  using Interrupt8259SetMode_roundtrip [OF demo_chip, of "initial_vars 0 0" "Some 0xFFFF" None]
  by (auto simp: initial_vars_def opt_set_def)

theorem Interrupt8259_irq_bits_witness:
  "\<exists>v1 w1. Interrupt8259EnableIrq demo_pic 3 True (initial_vars 0 0, demo_pair) = (EFI_SUCCESS, v1, w1) \<and>
     \<not> bit (hw_mask w1) 3 \<and> bit (hw_mask w1) 4"
proof -
  have "bit (0xFFFF :: u16) 4" by code_simp
  then show ?thesis
    using Interrupt8259_irq_bits [OF demo_chip, of 3 True "initial_vars 0 0"] by (auto simp: initial_vars_def)
qed

end
