(* ===== verification/AmlName.thy ===== *)
theory AmlName
  imports Prelude
begin

text \<open>
  Model of \<open>QemuPkg/AcpiSdtDxe/AmlString.c\<close>: AML name strings and the translation
  of ASL paths.  The readable memory is a list of bytes and a pointer is an index
  into it; a read past the end is \<open>OutOfBounds\<close>, and so is a write outside the
  allocated destination.  The special characters are those of the ACPI
  specification.
\<close>

section \<open>Bytes and characters\<close>

definition rd :: "u8 list \<Rightarrow> nat \<Rightarrow> u8 checked" where
  "rd m p = (if p < length m then Ok (m ! p) else OutOfBounds)"

definition wrs :: "u8 list \<Rightarrow> nat \<Rightarrow> u8 list \<Rightarrow> u8 list checked" where
  "wrs buf off bs = (if off + length bs \<le> length buf then Ok (take off buf @ bs @ drop (off + length bs) buf) else OutOfBounds)"

definition AML_ROOT_CHAR :: u8 where "AML_ROOT_CHAR = 0x5C"
definition AML_PARENT_PREFIX_CHAR :: u8 where "AML_PARENT_PREFIX_CHAR = 0x5E"
definition AML_DUAL_NAME_PREFIX :: u8 where "AML_DUAL_NAME_PREFIX = 0x2E"
definition AML_MULTI_NAME_PREFIX :: u8 where "AML_MULTI_NAME_PREFIX = 0x2F"
definition AML_NAME_CHAR_US :: u8 where "AML_NAME_CHAR_US = 0x5F"
definition AML_NAME_SEG_SIZE :: nat where "AML_NAME_SEG_SIZE = 4"

lemmas aml_chars = AML_ROOT_CHAR_def AML_PARENT_PREFIX_CHAR_def AML_DUAL_NAME_PREFIX_def AML_MULTI_NAME_PREFIX_def
  AML_NAME_CHAR_US_def AML_NAME_SEG_SIZE_def

definition AmlIsRootPath :: "u8 list \<Rightarrow> nat \<Rightarrow> bool checked" where
  "AmlIsRootPath m p = chk_bind (rd m p) (\<lambda>a. if a = AML_ROOT_CHAR then chk_bind (rd m (p + 1)) (\<lambda>b. Ok (b = 0)) else Ok False)"

definition AmlIsLeadName :: "u8 \<Rightarrow> bool" where
  "AmlIsLeadName Ch \<longleftrightarrow> Ch = 0x5F \<or> (0x41 \<le> Ch \<and> Ch \<le> 0x5A)"

definition AmlIsName :: "u8 \<Rightarrow> bool" where
  "AmlIsName Ch \<longleftrightarrow> AmlIsLeadName Ch \<or> (0x30 \<le> Ch \<and> Ch \<le> 0x39)"

text \<open>\<open>NameSegLoop m p k\<close>: the loop of \<open>AmlIsNameSeg\<close> with \<open>k\<close> characters left.\<close>

primrec NameSegLoop :: "u8 list \<Rightarrow> nat \<Rightarrow> nat \<Rightarrow> bool checked" where
  "NameSegLoop m p 0 = Ok True"
| "NameSegLoop m p (Suc k) = chk_bind (rd m p) (\<lambda>c. if \<not> AmlIsName c then Ok False else NameSegLoop m (p + 1) k)"

definition AmlIsNameSeg :: "u8 list \<Rightarrow> nat \<Rightarrow> bool checked" where
  "AmlIsNameSeg m p = chk_bind (rd m p) (\<lambda>c. if \<not> AmlIsLeadName c then Ok False else NameSegLoop m (p + 1) 3)"

section \<open>Size of an AML name string\<close>

text \<open>The number of parent prefix characters from \<open>p\<close> on.\<close>

function ParentLoop :: "u8 list \<Rightarrow> nat \<Rightarrow> nat checked" where
  "ParentLoop m p =
    chk_bind (rd m p) (\<lambda>c. if c = AML_PARENT_PREFIX_CHAR then chk_bind (ParentLoop m (p + 1)) (\<lambda>n. Ok (n + 1)) else Ok 0)"
  by pat_completeness auto
termination
  by (relation "measure (\<lambda>(m, p). length m - p)") (auto simp: rd_def split: if_splits)

declare ParentLoop.simps [simp del]

text \<open>The do-while over the segments; \<open>k\<close> is the number of segments still to check.\<close>

primrec SegLoop :: "u8 list \<Rightarrow> nat \<Rightarrow> nat \<Rightarrow> (EFI_STATUS + nat) checked" where
  "SegLoop m p 0 = Ok (Inr 0)"
| "SegLoop m p (Suc k) =
    chk_bind (AmlIsNameSeg m p) (\<lambda>ok.
      if \<not> ok then Ok (Inl EFI_INVALID_PARAMETER)
      else chk_bind (SegLoop m (p + AML_NAME_SEG_SIZE) k) (\<lambda>r.
        case r of Inl e \<Rightarrow> Ok (Inl e) | Inr n \<Rightarrow> Ok (Inr (n + AML_NAME_SEG_SIZE))))"

definition AmlGetNameStringSize :: "u8 list \<Rightarrow> nat \<Rightarrow> (EFI_STATUS + nat) checked" where
  "AmlGetNameStringSize m p =
    chk_bind (rd m p) (\<lambda>c0.
    chk_bind (if c0 = AML_ROOT_CHAR then Ok 1 else ParentLoop m p) (\<lambda>Len.
    chk_bind (rd m (p + Len)) (\<lambda>c.
      if c = AML_DUAL_NAME_PREFIX then
        chk_bind (SegLoop m (p + Len + 1) 2) (\<lambda>r. case r of Inl e \<Rightarrow> Ok (Inl e) | Inr n \<Rightarrow> Ok (Inr (Len + 1 + n)))
      else if c = AML_MULTI_NAME_PREFIX then
        chk_bind (rd m (p + Len + 1)) (\<lambda>s.
        chk_bind (SegLoop m (p + Len + 2) (max 1 (unat s))) (\<lambda>r.
          case r of Inl e \<Rightarrow> Ok (Inl e) | Inr n \<Rightarrow> Ok (Inr (Len + 2 + n))))
      else if c = 0 then
        (if Len = 1 \<and> c0 = AML_ROOT_CHAR then Ok (Inr 2) else Ok (Inl EFI_INVALID_PARAMETER))
      else
        chk_bind (SegLoop m (p + Len) 1) (\<lambda>r. case r of Inl e \<Rightarrow> Ok (Inl e) | Inr n \<Rightarrow> Ok (Inr (Len + n))))))"

section \<open>ASL paths\<close>

definition AmlIsAslLeadName :: "u8 \<Rightarrow> bool" where
  "AmlIsAslLeadName Ch \<longleftrightarrow> AmlIsLeadName Ch \<or> (0x61 \<le> Ch \<and> Ch \<le> 0x7A)"

definition AmlIsAslName :: "u8 \<Rightarrow> bool" where
  "AmlIsAslName Ch \<longleftrightarrow> AmlIsAslLeadName Ch \<or> (0x30 \<le> Ch \<and> Ch \<le> 0x39)"

text \<open>The loop of \<open>AmlGetAslNameSegLength\<close> with \<open>k\<close> rounds left.\<close>

primrec AslSegLoop :: "u8 list \<Rightarrow> nat \<Rightarrow> nat \<Rightarrow> nat \<Rightarrow> nat checked" where
  "AslSegLoop m p Len 0 = Ok 0"
| "AslSegLoop m p Len (Suc k) =
    chk_bind (rd m p) (\<lambda>c.
      let (Len1, p1) = (if AmlIsAslName c then (Len + 1, p + 1) else (Len, p))
      in chk_bind (rd m p1) (\<lambda>c1. if c1 = 0 \<or> c1 = 0x2E then Ok Len1 else AslSegLoop m p1 Len1 k))"

definition AmlGetAslNameSegLength :: "u8 list \<Rightarrow> nat \<Rightarrow> nat checked" where
  "AmlGetAslNameSegLength m p =
    chk_bind (rd m p) (\<lambda>c.
      if c = 0 then Ok 0
      else
        let (Len, p1) = (if AmlIsAslLeadName c then (1, p + 1) else (0, p))
        in chk_bind (rd m p1) (\<lambda>c1. if c1 = 0 \<or> c1 = 0x2E then Ok Len else AslSegLoop m p1 Len 3))"

text \<open>The loop over the segments: \<open>None\<close> for a malformed one, else the segment count.\<close>

function AslPathLoop :: "u8 list \<Rightarrow> nat \<Rightarrow> nat \<Rightarrow> nat option checked" where
  "AslPathLoop m p SegCount =
    chk_bind (rd m p) (\<lambda>c.
      if c = 0 then Ok (Some SegCount)
      else chk_bind (AmlGetAslNameSegLength m p) (\<lambda>NameLength.
        if NameLength = 0 \<or> NameLength > AML_NAME_SEG_SIZE then Ok None
        else chk_bind (rd m (p + NameLength)) (\<lambda>c1.
          if c1 = 0 then Ok (Some (SegCount + 1)) else AslPathLoop m (p + NameLength + 1) (SegCount + 1))))"
  by pat_completeness auto
termination
  by (relation "measure (\<lambda>(m, p, n). length m - p)") (auto simp: rd_def split: if_splits)

declare AslPathLoop.simps [simp del]

text \<open>Total length (0 for a malformed path), root flag, parent count, segment count.\<close>

definition AmlGetAslNameStringSize :: "u8 list \<Rightarrow> nat \<Rightarrow> (nat \<times> nat \<times> nat \<times> nat) checked" where
  "AmlGetAslNameStringSize m p =
    chk_bind (rd m p) (\<lambda>c0.
    chk_bind (if c0 = AML_ROOT_CHAR then Ok (1, 0) else chk_bind (ParentLoop m p) (\<lambda>n. Ok (0, n))) (\<lambda>(Root, Parent).
    chk_bind (AslPathLoop m (p + Root + Parent) 0) (\<lambda>r.
      case r of
        None \<Rightarrow> Ok (0, Root, Parent, 0)
      | Some SegCount \<Rightarrow>
          if SegCount > 0xFF then Ok (0, Root, Parent, SegCount)
          else Ok (Root + Parent + SegCount * AML_NAME_SEG_SIZE + (if SegCount > 2 then 2 else if SegCount = 2 then 1 else 0) + 1,
                   Root, Parent, SegCount))))"

definition upcase :: "u8 \<Rightarrow> u8" where
  "upcase c = (if 0x61 \<le> c \<and> c \<le> 0x7A then c - 0x61 + 0x41 else c)"

text \<open>\<open>AmlUpperCaseCopyMem\<close>: copy \<open>n\<close> bytes of \<open>m\<close> at \<open>p\<close> to \<open>dst\<close> at \<open>off\<close> in upper case.\<close>

definition AmlUpperCaseCopyMem :: "u8 list \<Rightarrow> nat \<Rightarrow> u8 list \<Rightarrow> nat \<Rightarrow> nat \<Rightarrow> u8 list checked" where
  "AmlUpperCaseCopyMem dst off m p n =
    (if p + n \<le> length m then wrs dst off (map upcase (take n (drop p m))) else OutOfBounds)"

text \<open>The copying loop of \<open>AmlNameFromAslName\<close>.\<close>

function AslCopyLoop :: "u8 list \<Rightarrow> nat \<Rightarrow> u8 list \<Rightarrow> nat \<Rightarrow> u8 list checked" where
  "AslCopyLoop m p dst off =
    chk_bind (rd m p) (\<lambda>c.
      if c = 0 then Ok dst
      else chk_bind (AmlGetAslNameSegLength m p) (\<lambda>NameLength.
        if \<not> (NameLength \<noteq> 0 \<and> NameLength \<le> AML_NAME_SEG_SIZE) then AssertFailed
        else
          chk_bind (AmlUpperCaseCopyMem dst off m p NameLength) (\<lambda>dst1.
          chk_bind (wrs dst1 (off + NameLength) (replicate (AML_NAME_SEG_SIZE - NameLength) AML_NAME_CHAR_US)) (\<lambda>dst2.
          chk_bind (rd m (p + NameLength)) (\<lambda>c1.
            if c1 = 0 then Ok dst2 else AslCopyLoop m (p + NameLength + 1) dst2 (off + AML_NAME_SEG_SIZE))))))"
  by pat_completeness auto
termination
  by (relation "measure (\<lambda>(m, p, d, f). length m - p)") (auto simp: rd_def split: if_splits)

declare AslCopyLoop.simps [simp del]

text \<open>\<open>AllocatePool\<close> is an argument: the block it returns, or \<open>None\<close> for \<open>NULL\<close>.
  The result \<open>None\<close> is the \<open>NULL\<close> of a malformed path.\<close>

definition AmlNameFromAslName :: "(nat \<Rightarrow> u8 list option) \<Rightarrow> u8 list \<Rightarrow> nat \<Rightarrow> u8 list option checked" where
  "AmlNameFromAslName AllocatePool m AslPath =
    chk_bind (AmlGetAslNameStringSize m AslPath) (\<lambda>(TotalLength, Root, Parent, SegCount).
      if TotalLength = 0 then Ok None
      else case AllocatePool TotalLength of
        None \<Rightarrow> AssertFailed
      | Some AmlPath \<Rightarrow>
          chk_bind (if Root = 1 then wrs AmlPath 0 [AML_ROOT_CHAR]
                    else if Parent > 0 then wrs AmlPath 0 (replicate Parent AML_PARENT_PREFIX_CHAR)
                    else Ok AmlPath) (\<lambda>d1.
          let o1 = (if Root = 1 then 1 else Parent)
          in chk_bind (if SegCount > 2 then wrs d1 o1 [AML_MULTI_NAME_PREFIX, of_nat SegCount]
                       else if SegCount = 2 then wrs d1 o1 [AML_DUAL_NAME_PREFIX]
                       else Ok d1) (\<lambda>d2.
             let o2 = o1 + (if SegCount > 2 then 2 else if SegCount = 2 then 1 else 0)
             in chk_bind (AslCopyLoop m (AslPath + o1) d2 o2) (\<lambda>d3.
                chk_bind (wrs d3 (TotalLength - 1) [0]) (\<lambda>d4. Ok (Some d4))))))"

section \<open>Reading NUL-terminated text\<close>

definition nul :: "u8 list \<Rightarrow> nat \<Rightarrow> bool" where
  "nul m p \<longleftrightarrow> (\<exists>q\<ge>p. q < length m \<and> m ! q = 0)"

lemma nul_rd:
  assumes "nul m p"
  obtains "rd m p = Ok (m ! p)" "m ! p \<noteq> 0 \<Longrightarrow> nul m (p + 1)"
proof -
  from assms obtain q where q: "q \<ge> p" "q < length m" "m ! q = 0" unfolding nul_def by blast
  have "rd m p = Ok (m ! p)" using q by (simp add: rd_def)
  moreover have "nul m (p + 1)" if "m ! p \<noteq> 0"
  proof -
    have "q \<noteq> p" using q that by blast
    then show ?thesis using q unfolding nul_def by (intro exI [of _ q]) auto
  qed
  ultimately show ?thesis by (rule that)
qed

lemma ParentLoop_nul: "nul m p \<Longrightarrow> \<exists>n. ParentLoop m p = Ok n \<and> nul m (p + n)"
proof (induction m p rule: ParentLoop.induct)
  case (1 m p)
  show ?case
  proof (rule nul_rd [OF "1.prems"])
    assume r: "rd m p = Ok (m ! p)" and nx: "m ! p \<noteq> 0 \<Longrightarrow> nul m (p + 1)"
    show ?thesis
    proof (cases "m ! p = AML_PARENT_PREFIX_CHAR")
      case True
      then have "m ! p \<noteq> 0" by (simp add: aml_chars)
      from "1.IH" [OF r True nx [OF this]] obtain n where "ParentLoop m (p + 1) = Ok n" "nul m (p + 1 + n)" by blast
      then show ?thesis using r True by (subst ParentLoop.simps) simp
    next
      case False
      then show ?thesis using r "1.prems" by (subst ParentLoop.simps) simp
    qed
  qed
qed

lemma AslSegLoop_nul: "nul m p \<Longrightarrow> \<exists>L. AslSegLoop m p l k = Ok L \<and> (L = 0 \<or> (\<exists>j\<le>k. L = l + j \<and> nul m (p + j)))"
proof (induction k arbitrary: p l)
  case 0
  then show ?case by simp
next
  case (Suc k)
  show ?case
  proof (rule nul_rd [OF Suc.prems])
    assume r: "rd m p = Ok (m ! p)" and nx: "m ! p \<noteq> 0 \<Longrightarrow> nul m (p + 1)"
    define d where "d = (if AmlIsAslName (m ! p) then 1 else 0 :: nat)"
    have z: "\<not> AmlIsAslName 0" by (simp add: AmlIsAslName_def AmlIsAslLeadName_def AmlIsLeadName_def)
    have n: "nul m (p + d)" using nx Suc.prems z by (cases "m ! p = 0") (auto simp: d_def)
    have e: "AslSegLoop m p l (Suc k) = chk_bind (rd m (p + d)) (\<lambda>c1. if c1 = 0 \<or> c1 = 0x2E then Ok (l + d) else AslSegLoop m (p + d) (l + d) k)"
      by (cases "AmlIsAslName (m ! p)") (simp_all add: r d_def cong: if_cong)
    have d1: "d \<le> 1" by (simp add: d_def)
    have r2: "rd m (p + d) = Ok (m ! (p + d))" by (rule nul_rd [OF n])
    obtain L where L: "AslSegLoop m (p + d) (l + d) k = Ok L" "L = 0 \<or> (\<exists>j\<le>k. L = l + d + j \<and> nul m (p + d + j))"
      using Suc.IH [OF n] by blast
    show ?thesis
    proof (cases "m ! (p + d) = 0 \<or> m ! (p + d) = 0x2E")
      case True
      then have "AslSegLoop m p l (Suc k) = Ok (l + d)" unfolding e r2 by auto
      then show ?thesis using n d1 by (intro exI [of _ "l + d"]) auto
    next
      case False
      have "AslSegLoop m p l (Suc k) = Ok L" unfolding e r2 using L(1) False by simp
      moreover from L(2) have "L = 0 \<or> (\<exists>j\<le>Suc k. L = l + j \<and> nul m (p + j))"
      proof
        assume "\<exists>j\<le>k. L = l + d + j \<and> nul m (p + d + j)"
        then obtain j where "j \<le> k" "L = l + d + j" "nul m (p + d + j)" by blast
        then show ?thesis using d1 by (intro disjI2 exI [of _ "d + j"]) (simp add: add.assoc)
      qed simp
      ultimately show ?thesis by blast
    qed
  qed
qed

lemma AslSegLength_nul:
  assumes "nul m p" and "m ! p \<noteq> 0"
  shows "\<exists>L\<le>4. AmlGetAslNameSegLength m p = Ok L \<and> (L = 0 \<or> nul m (p + L))"
proof (rule nul_rd [OF assms(1)])
  assume r: "rd m p = Ok (m ! p)" and nx: "m ! p \<noteq> 0 \<Longrightarrow> nul m (p + 1)"
  define d where "d = (if AmlIsAslLeadName (m ! p) then 1 else 0 :: nat)"
  have n: "nul m (p + d)" using nx assms by (auto simp: d_def)
  have d1: "d \<le> 1" by (simp add: d_def)
  have e: "AmlGetAslNameSegLength m p = chk_bind (rd m (p + d)) (\<lambda>c1. if c1 = 0 \<or> c1 = 0x2E then Ok d else AslSegLoop m (p + d) d 3)"
    using assms(2) by (cases "AmlIsAslLeadName (m ! p)") (auto simp: AmlGetAslNameSegLength_def r d_def cong: if_cong)
  have r2: "rd m (p + d) = Ok (m ! (p + d))" by (rule nul_rd [OF n])
  obtain L where L: "AslSegLoop m (p + d) d 3 = Ok L" "L = 0 \<or> (\<exists>j\<le>3. L = d + j \<and> nul m (p + d + j))"
    using AslSegLoop_nul [OF n] by blast
  show ?thesis
  proof (cases "m ! (p + d) = 0 \<or> m ! (p + d) = 0x2E")
    case True
    then have "AmlGetAslNameSegLength m p = Ok d" unfolding e r2 by auto
    then show ?thesis using n d1 by (intro exI [of _ d]) auto
  next
    case False
    have "AmlGetAslNameSegLength m p = Ok L" unfolding e r2 using L(1) False by simp
    moreover from L(2) have "L \<le> 4 \<and> (L = 0 \<or> nul m (p + L))" using d1 by (auto simp: add.assoc)
    ultimately show ?thesis by blast
  qed
qed

section \<open>The copy stays inside the allocation\<close>

lemma wrs_ok: "off + length bs \<le> length d \<Longrightarrow> wrs d off bs = Ok (take off d @ bs @ drop (off + length bs) d)"
  by (simp add: wrs_def)

text \<open>\<open>AslCopies m p bs\<close>: from \<open>p\<close> on the copying loop writes \<open>bs\<close> and nothing else.\<close>

definition AslCopies :: "u8 list \<Rightarrow> nat \<Rightarrow> u8 list \<Rightarrow> bool" where
  "AslCopies m p bs \<longleftrightarrow> (\<forall>dst off. off + length bs \<le> length dst \<longrightarrow>
     AslCopyLoop m p dst off = Ok (take off dst @ bs @ drop (off + length bs) dst))"

lemma AslCopyLoop_step:
  assumes "rd m p = Ok c" "c \<noteq> 0" "AmlGetAslNameSegLength m p = Ok L" "L \<noteq> 0" "L \<le> 4" "p + L \<le> length m" "off + 4 \<le> length dst"
  shows "AslCopyLoop m p dst off =
    (let d2 = take off dst @ (map upcase (take L (drop p m)) @ replicate (4 - L) AML_NAME_CHAR_US) @ drop (off + 4) dst
     in chk_bind (rd m (p + L)) (\<lambda>c1. if c1 = 0 then Ok d2 else AslCopyLoop m (p + L + 1) d2 (off + 4)))"
proof -
  let ?u = "map upcase (take L (drop p m))" and ?r = "replicate (4 - L) AML_NAME_CHAR_US"
  have u: "length ?u = L" using assms(6) by simp
  have 1: "AmlUpperCaseCopyMem dst off m p L = Ok (take off dst @ ?u @ drop (off + L) dst)"
    using assms u by (simp add: AmlUpperCaseCopyMem_def wrs_def)
  have 2: "wrs (take off dst @ ?u @ drop (off + L) dst) (off + L) ?r = Ok (take off dst @ (?u @ ?r) @ drop (off + 4) dst)"
    using assms u by (simp add: wrs_def drop_append take_append ac_simps)
  show ?thesis
    using assms(1-5) 1 2 by (subst AslCopyLoop.simps) (simp add: AML_NAME_SEG_SIZE_def Let_def cong: if_cong)
qed

lemma AslCopies_Cons:
  assumes b: "length b = 4" and c: "AslCopies m p' bs"
    and step: "\<And>dst off. off + 4 \<le> length dst \<Longrightarrow>
      AslCopyLoop m p dst off = AslCopyLoop m p' (take off dst @ b @ drop (off + 4) dst) (off + 4)"
  shows "AslCopies m p (b @ bs)"
  unfolding AslCopies_def
proof (intro allI impI)
  fix dst :: "u8 list" and off assume le: "off + length (b @ bs) \<le> length dst"
  let ?d2 = "take off dst @ b @ drop (off + 4) dst"
  have "off + 4 + length bs \<le> length ?d2" using le b by simp
  then have "AslCopyLoop m p' ?d2 (off + 4) = Ok (take (off + 4) ?d2 @ bs @ drop (off + 4 + length bs) ?d2)"
    using c unfolding AslCopies_def by blast
  moreover have "take (off + 4) ?d2 = take off dst @ b" "drop (off + 4 + length bs) ?d2 = drop (off + length (b @ bs)) dst"
    using le b by (simp_all add: min_def ac_simps)
  ultimately show "AslCopyLoop m p dst off = Ok (take off dst @ (b @ bs) @ drop (off + length (b @ bs)) dst)"
    using step [of off dst] le b by simp
qed

lemma AslPathLoop_nul:
  "nul m p \<Longrightarrow> \<exists>r. AslPathLoop m p k = Ok r \<and> (\<forall>s. r = Some s \<longrightarrow> (\<exists>bs. k \<le> s \<and> length bs = 4 * (s - k) \<and> AslCopies m p bs))"
proof (induction m p k rule: AslPathLoop.induct)
  case (1 m p k)
  show ?case
  proof (rule nul_rd [OF "1.prems"])
    assume r: "rd m p = Ok (m ! p)" and nx: "m ! p \<noteq> 0 \<Longrightarrow> nul m (p + 1)"
    show ?thesis
    proof (cases "m ! p = 0")
      case True
      have "AslCopies m p []" unfolding AslCopies_def using r True by (subst AslCopyLoop.simps) simp
      then show ?thesis using r True by (subst AslPathLoop.simps) auto
    next
      case False
      obtain L where L: "L \<le> 4" "AmlGetAslNameSegLength m p = Ok L" "L = 0 \<or> nul m (p + L)"
        using AslSegLength_nul [OF "1.prems" False] by blast
      show ?thesis
      proof (cases "L = 0")
        case True
        then show ?thesis using r False L by (subst AslPathLoop.simps) simp
      next
        case L0: False
        with L have n: "nul m (p + L)" by simp
        then have len: "p + L \<le> length m" by (auto simp: nul_def)
        have r1: "rd m (p + L) = Ok (m ! (p + L))" by (rule nul_rd [OF n])
        define b where "b = map upcase (take L (drop p m)) @ replicate (4 - L) AML_NAME_CHAR_US"
        have b: "length b = 4" using len L(1) by (simp add: b_def)
        note step = AslCopyLoop_step [OF r False L(2) L0 L(1) len, folded b_def, unfolded Let_def r1 chk_bind.simps]
        show ?thesis
        proof (cases "m ! (p + L) = 0")
          case True
          have "AslCopies m p b" unfolding AslCopies_def b using step True by simp
          moreover have "AslPathLoop m p k = Ok (Some (k + 1))"
            using r False L L0 r1 True by (subst AslPathLoop.simps) (simp add: aml_chars)
          ultimately show ?thesis using b by auto
        next
          case F1: False
          have e: "AslPathLoop m p k = AslPathLoop m (p + L + 1) (k + 1)"
            using r False L L0 r1 F1 by (subst AslPathLoop.simps) (simp add: aml_chars)
          have nx1: "nul m (p + L + 1)" using nul_rd [OF n] F1 by blast
          obtain x where x: "AslPathLoop m (p + L + 1) (k + 1) = Ok x"
            "\<forall>s. x = Some s \<longrightarrow> (\<exists>bs. k + 1 \<le> s \<and> length bs = 4 * (s - (k + 1)) \<and> AslCopies m (p + L + 1) bs)"
            using "1.IH" [OF r False L(2) _ r1 F1 nx1] L0 L(1) by (auto simp: aml_chars)
          have "\<exists>bs. k \<le> s \<and> length bs = 4 * (s - k) \<and> AslCopies m p bs" if xs: "x = Some s" for s
          proof -
            obtain bs where bs: "k + 1 \<le> s" "length bs = 4 * (s - (k + 1))" "AslCopies m (p + L + 1) bs" using x(2) xs by blast
            have "AslCopies m p (b @ bs)" by (rule AslCopies_Cons [OF b bs(3)]) (use step F1 in simp)
            then show ?thesis using bs b by (intro exI [of _ "b @ bs"]) auto
          qed
          then show ?thesis using e x(1) by auto
        qed
      qed
    qed
  qed
qed

text \<open>Prefixes, segments and terminator are written one after the other.\<close>

definition aml_seg_prefix :: "nat \<Rightarrow> u8 list" where
  "aml_seg_prefix n = (if n > 2 then [AML_MULTI_NAME_PREFIX, of_nat n] else if n = 2 then [AML_DUAL_NAME_PREFIX] else [])"

lemma wrs_at: "length xs = off \<Longrightarrow> length ys = length bs \<Longrightarrow> wrs (xs @ ys @ zs) off bs = Ok (xs @ bs @ zs)"
  by (simp add: wrs_def)

lemma AmlNameFromAslName_run:
  assumes sz: "AmlGetAslNameStringSize m p = Ok (T, Root, Parent, s)"
    and T: "T = Root + Parent + 4 * s + length (aml_seg_prefix s) + 1"
    and R: "Root = 1 \<and> Parent = 0 \<or> Root = 0" and al: "AllocatePool T = Some b" "length b = T"
    and cp: "AslCopies m (p + (Root + Parent)) bs" "length bs = 4 * s"
  shows "AmlNameFromAslName AllocatePool m p =
    Ok (Some ((if Root = 1 then [AML_ROOT_CHAR] else replicate Parent AML_PARENT_PREFIX_CHAR) @ aml_seg_prefix s @ bs @ [0]))"
proof -
  define q where "q = (if Root = 1 then [AML_ROOT_CHAR] else replicate Parent AML_PARENT_PREFIX_CHAR)"
  have q: "length q = Root + Parent" using R by (auto simp: q_def)
  define b1 where "b1 = drop (Root + Parent) b"
  define b2 where "b2 = drop (length (aml_seg_prefix s)) b1"
  have lb: "length b1 = length (aml_seg_prefix s) + 4 * s + 1" "length b2 = 4 * s + 1"
    using al(2) T by (simp_all add: b1_def b2_def)
  have d1: "(if Root = 1 then wrs b 0 [AML_ROOT_CHAR] else if Parent > 0 then wrs b 0 (replicate Parent AML_PARENT_PREFIX_CHAR)
      else Ok b) = Ok (q @ b1)"
    using R al(2) T by (auto simp: wrs_def q_def b1_def)
  have o1: "(if Root = 1 then 1 else Parent) = length q" using R q by auto
  have d2: "(if s > 2 then wrs (q @ b1) (length q) [AML_MULTI_NAME_PREFIX, of_nat s]
      else if s = 2 then wrs (q @ b1) (length q) [AML_DUAL_NAME_PREFIX] else Ok (q @ b1)) = Ok (q @ aml_seg_prefix s @ b2)"
    using lb(1) by (simp add: wrs_def b2_def aml_seg_prefix_def numeral_2_eq_2)
  have o2: "length q + (if s > 2 then 2 else if s = 2 then 1 else 0) = length (q @ aml_seg_prefix s)"
    by (simp add: aml_seg_prefix_def)
  have d3: "AslCopyLoop m (p + length q) (q @ aml_seg_prefix s @ b2) (length (q @ aml_seg_prefix s)) = Ok (q @ aml_seg_prefix s @ bs @ drop (4 * s) b2)"
    using cp(1) [unfolded AslCopies_def, rule_format, of "length (q @ aml_seg_prefix s)" "q @ aml_seg_prefix s @ b2"] lb(2) cp(2) q
    by simp
  have "T - 1 = length (q @ aml_seg_prefix s @ bs)" "length (drop (4 * s) b2) = 1" using T q cp(2) lb(2) by simp_all
  then have d4: "wrs (q @ aml_seg_prefix s @ bs @ drop (4 * s) b2) (T - 1) [0] = Ok (q @ aml_seg_prefix s @ bs @ [0])"
    by (simp add: wrs_def)
  have T0: "(T = 0) = False" using T by simp
  show ?thesis unfolding q_def [symmetric]
    by (simp only: AmlNameFromAslName_def sz chk_bind.simps case_prod_conv al(1) option.case o1 d1 Let_def d2 o2 d3 d4 T0 if_False)
qed

lemma AmlGetAslNameStringSize_cases:
  assumes "nul m p"
  shows "(\<exists>x y z. AmlGetAslNameStringSize m p = Ok (0, x, y, z)) \<or>
    (\<exists>Root Parent s bs. AmlGetAslNameStringSize m p = Ok (Root + Parent + 4 * s + length (aml_seg_prefix s) + 1, Root, Parent, s) \<and>
       (Root = 1 \<and> Parent = 0 \<or> Root = 0) \<and> s \<le> 0xFF \<and> AslCopies m (p + (Root + Parent)) bs \<and> length bs = 4 * s)"
proof -
  obtain Root Parent where rp: "(if m ! p = AML_ROOT_CHAR then Ok (1, 0) else chk_bind (ParentLoop m p) (\<lambda>n. Ok (0, n))) = Ok (Root, Parent)"
    and n: "nul m (p + Root + Parent)" and R: "Root = 1 \<and> Parent = 0 \<or> Root = 0"
  proof (cases "m ! p = AML_ROOT_CHAR")
    case True
    then have "nul m (p + 1)" using nul_rd [OF assms] by (auto simp: aml_chars)
    then show ?thesis using True that by auto
  next
    case False
    then show ?thesis using ParentLoop_nul [OF assms] that by auto
  qed
  have r: "rd m p = Ok (m ! p)" by (rule nul_rd [OF assms])
  obtain x where x: "AslPathLoop m (p + Root + Parent) 0 = Ok x"
    "\<forall>s. x = Some s \<longrightarrow> (\<exists>bs. length bs = 4 * s \<and> AslCopies m (p + Root + Parent) bs)"
    using AslPathLoop_nul [OF n, of 0] by auto
  show ?thesis
  proof (cases "\<exists>s. x = Some s \<and> s \<le> 0xFF")
    case False
    then have "\<exists>s. AmlGetAslNameStringSize m p = Ok (0, Root, Parent, s)"
      using r rp x(1) by (cases x) (auto simp: AmlGetAslNameStringSize_def)
    then show ?thesis by blast
  next
    case True
    then obtain s where s: "x = Some s" "s \<le> 0xFF" by blast
    have "AmlGetAslNameStringSize m p = Ok (Root + Parent + 4 * s + length (aml_seg_prefix s) + 1, Root, Parent, s)"
      using r rp x(1) s by (simp add: AmlGetAslNameStringSize_def aml_seg_prefix_def aml_chars)
    moreover obtain bs where "length bs = 4 * s" "AslCopies m (p + (Root + Parent)) bs" using x(2) s(1) by (auto simp: add.assoc)
    ultimately show ?thesis using R s(2) by blast
  qed
qed

section \<open>Well-formed paths\<close>

text \<open>A path given by its prefix (root or a number of parents) and its segments.\<close>

definition asl_seg :: "u8 list \<Rightarrow> bool" where
  "asl_seg s \<longleftrightarrow> s \<noteq> [] \<and> length s \<le> 4 \<and> AmlIsAslLeadName (hd s) \<and> (\<forall>c \<in> set s. AmlIsAslName c)"

fun asl_segs :: "u8 list list \<Rightarrow> u8 list" where
  "asl_segs [] = []"
| "asl_segs [s] = s"
| "asl_segs (s # t # r) = s @ 0x2E # asl_segs (t # r)"

definition asl_prefix :: "nat option \<Rightarrow> u8 list" where
  "asl_prefix r = (case r of None \<Rightarrow> [AML_ROOT_CHAR] | Some n \<Rightarrow> replicate n AML_PARENT_PREFIX_CHAR)"

definition aml_pad :: "u8 list \<Rightarrow> u8 list" where
  "aml_pad s = map upcase s @ replicate (4 - length s) AML_NAME_CHAR_US"

definition aml_name :: "nat option \<Rightarrow> u8 list list \<Rightarrow> u8 list" where
  "aml_name r ss = asl_prefix r @ aml_seg_prefix (length ss) @ concat (map aml_pad ss)"

lemma rd_drop: "drop p m = c # t \<Longrightarrow> rd m p = Ok c \<and> drop (p + 1) m = t"
  by (metis Suc_eq_plus1 drop_eq_Nil2 drop_Suc list.discI list.sel(3) nth_via_drop not_le rd_def tl_drop)

lemma rd_drop_append: "drop p m = s @ c # t \<Longrightarrow> rd m (p + length s) = Ok c \<and> drop (p + length s + 1) m = t"
  by (rule rd_drop) (metis append_eq_conv_conj drop_drop add.commute)

lemma asl_name_not_end: "AmlIsAslName c \<Longrightarrow> c \<noteq> 0 \<and> c \<noteq> 0x2E \<and> c \<noteq> AML_PARENT_PREFIX_CHAR \<and> c \<noteq> AML_ROOT_CHAR"
  by (auto simp: AmlIsAslName_def AmlIsAslLeadName_def AmlIsLeadName_def aml_chars)

lemma AslSegLoop_exact:
  assumes "s \<noteq> []" "length s \<le> k" "\<forall>c \<in> set s. AmlIsAslName c" "drop p m = s @ e # t" "e = 0 \<or> e = 0x2E"
  shows "AslSegLoop m p l k = Ok (l + length s)"
  using assms
proof (induction s arbitrary: p l k)
  case (Cons a s)
  then obtain k' where k: "k = Suc k'" by (cases k) auto
  have a: "rd m p = Ok a" "drop (p + 1) m = s @ e # t" using rd_drop [of p m a "s @ e # t"] Cons.prems(4) by simp_all
  have na: "AmlIsAslName a" using Cons.prems by simp
  show ?case
  proof (cases s)
    case Nil
    then have "rd m (p + 1) = Ok e" using rd_drop [of "p + 1" m e t] a(2) by simp
    then show ?thesis using k a(1) na Nil Cons.prems(5) by (auto simp: Let_def)
  next
    case (Cons b s')
    then have b: "rd m (p + 1) = Ok b" "b \<noteq> 0" "b \<noteq> 0x2E"
      using rd_drop [of "p + 1" m b "s' @ e # t"] a(2) Cons.prems(3) asl_name_not_end [of b] by auto
    have "AslSegLoop m (p + 1) (l + 1) k' = Ok (l + 1 + length s)"
      by (rule Cons.IH) (use Cons Cons.prems k a(2) in auto)
    then show ?thesis using k a(1) na b by (simp add: Let_def)
  qed
qed simp

lemma AslSegLength_exact:
  assumes "asl_seg s" "drop p m = s @ e # t" "e = 0 \<or> e = 0x2E"
  shows "AmlGetAslNameSegLength m p = Ok (length s)"
proof -
  obtain a r where s: "s = a # r" "AmlIsAslLeadName a" "length r \<le> 3" "\<forall>c \<in> set r. AmlIsAslName c"
    using assms(1) by (cases s) (auto simp: asl_seg_def)
  then have a: "rd m p = Ok a" "drop (p + 1) m = r @ e # t" "a \<noteq> 0"
    using rd_drop [of p m a "r @ e # t"] assms(2) asl_name_not_end [of a] by (auto simp: AmlIsAslName_def)
  show ?thesis
  proof (cases r)
    case Nil
    then have "rd m (p + 1) = Ok e" using rd_drop [of "p + 1" m e t] a(2) by simp
    then show ?thesis using a s Nil assms(3) by (auto simp: AmlGetAslNameSegLength_def)
  next
    case (Cons b r')
    then have b: "rd m (p + 1) = Ok b" "b \<noteq> 0" "b \<noteq> 0x2E"
      using rd_drop [of "p + 1" m b "r' @ e # t"] a(2) s(4) asl_name_not_end [of b] by auto
    have "AslSegLoop m (p + 1) 1 3 = Ok (1 + length r)"
      by (rule AslSegLoop_exact [OF _ _ s(4) a(2) assms(3)]) (use Cons s in auto)
    then show ?thesis using a s b by (simp add: AmlGetAslNameSegLength_def)
  qed
qed

lemma seg_step:
  assumes "asl_seg s" "drop p m = s @ e # t" "e = 0 \<or> e = 0x2E"
  shows "AslPathLoop m p k = (if e = 0 then Ok (Some (k + 1)) else AslPathLoop m (p + length s + 1) (k + 1))"
    and "off + 4 \<le> length dst \<Longrightarrow> AslCopyLoop m p dst off =
      (let d2 = take off dst @ aml_pad s @ drop (off + 4) dst
       in if e = 0 then Ok d2 else AslCopyLoop m (p + length s + 1) d2 (off + 4))"
proof -
  obtain a r where s: "s = a # r" "AmlIsAslLeadName a" using assms(1) by (cases s) (auto simp: asl_seg_def)
  then have a: "rd m p = Ok a" "a \<noteq> 0"
    using rd_drop [of p m a "r @ e # t"] assms(2) asl_name_not_end [of a] by (auto simp: AmlIsAslName_def)
  have L: "AmlGetAslNameSegLength m p = Ok (length s)" by (rule AslSegLength_exact [OF assms])
  have l: "length s \<noteq> 0" "length s \<le> 4" using assms(1) by (auto simp: asl_seg_def)
  have e: "rd m (p + length s) = Ok e" using rd_drop_append [OF assms(2)] by blast
  have "length (drop p m) > length s" using assms(2) by simp
  then have len: "p + length s \<le> length m" by simp
  have tk: "take (length s) (drop p m) = s" using assms(2) by simp
  show "AslPathLoop m p k = (if e = 0 then Ok (Some (k + 1)) else AslPathLoop m (p + length s + 1) (k + 1))"
    using a L l e by (subst AslPathLoop.simps) (simp add: aml_chars)
  show "off + 4 \<le> length dst \<Longrightarrow> AslCopyLoop m p dst off =
      (let d2 = take off dst @ aml_pad s @ drop (off + 4) dst
       in if e = 0 then Ok d2 else AslCopyLoop m (p + length s + 1) d2 (off + 4))"
    using AslCopyLoop_step [OF a L l len, of off dst] e by (simp add: tk aml_pad_def Let_def)
qed

lemma length_aml_pad: "asl_seg s \<Longrightarrow> length (aml_pad s) = 4"
  by (auto simp: asl_seg_def aml_pad_def)

lemma length_pads: "\<forall>s \<in> set ss. asl_seg s \<Longrightarrow> length (concat (map aml_pad ss)) = 4 * length ss"
  by (induction ss) (simp_all add: length_aml_pad)

lemma AslPathLoop_exact:
  "\<forall>s \<in> set ss. asl_seg s \<Longrightarrow> drop p m = asl_segs ss @ 0 # t \<Longrightarrow> AslPathLoop m p k = Ok (Some (k + length ss))"
proof (induction ss arbitrary: p k rule: asl_segs.induct)
  case 1
  then show ?case using rd_drop [of p m 0 t] by (subst AslPathLoop.simps) simp
next
  case (2 s)
  then show ?case using seg_step(1) [of s p m 0 t k] by simp
next
  case (3 s u r)
  then have d: "drop p m = s @ 0x2E # (asl_segs (u # r) @ 0 # t)" by simp
  then have "drop (p + length s + 1) m = asl_segs (u # r) @ 0 # t" using rd_drop_append by blast
  then show ?case using seg_step(1) [OF _ d, of k] "3.IH" [of "p + length s + 1" "k + 1"] "3.prems"(1) by simp
qed

lemma AslCopies_exact:
  "\<forall>s \<in> set ss. asl_seg s \<Longrightarrow> drop p m = asl_segs ss @ 0 # t \<Longrightarrow> AslCopies m p (concat (map aml_pad ss))"
proof (induction ss arbitrary: p rule: asl_segs.induct)
  case 1
  then show ?case unfolding AslCopies_def using rd_drop [of p m 0 t] by (subst AslCopyLoop.simps) simp
next
  case (2 s)
  then show ?case using seg_step(2) [of s p m 0 t] by (simp add: AslCopies_def length_aml_pad)
next
  case (3 s u r)
  then have d: "drop p m = s @ 0x2E # (asl_segs (u # r) @ 0 # t)" and s: "asl_seg s" by simp_all
  then have n: "drop (p + length s + 1) m = asl_segs (u # r) @ 0 # t" using rd_drop_append by blast
  have "AslCopies m p (aml_pad s @ concat (map aml_pad (u # r)))"
    using seg_step(2) [OF s d] "3.IH" [OF _ n] "3.prems"(1)
    by (intro AslCopies_Cons [OF length_aml_pad [OF s]]) (auto simp: Let_def)
  then show ?case by simp
qed


lemma ParentLoop_exact: "drop p m = replicate n AML_PARENT_PREFIX_CHAR @ c # t \<Longrightarrow> c \<noteq> AML_PARENT_PREFIX_CHAR \<Longrightarrow> ParentLoop m p = Ok n"
proof (induction n arbitrary: p)
  case 0
  then show ?case using rd_drop [of p m c t] by (subst ParentLoop.simps) simp
next
  case (Suc n)
  then show ?case using rd_drop [of p m AML_PARENT_PREFIX_CHAR "replicate n AML_PARENT_PREFIX_CHAR @ c # t"]
    by (subst ParentLoop.simps) simp
qed

lemma asl_segs_head:
  assumes "\<forall>s \<in> set ss. asl_seg s"
  obtains c t where "asl_segs ss @ [0] = c # t" "c \<noteq> AML_PARENT_PREFIX_CHAR" "c \<noteq> AML_ROOT_CHAR"
proof (cases ss rule: asl_segs.cases)
  case 1
  then show ?thesis using that by (simp add: aml_chars)
next
  case (2 s)
  then have "s \<noteq> []" "AmlIsAslName (hd s)" using assms by (auto simp: asl_seg_def)
  then show ?thesis using that [of "hd s" "tl s @ [0]"] 2 asl_name_not_end [of "hd s"] by (cases s) auto
next
  case (3 s u r)
  then have "s \<noteq> []" "AmlIsAslName (hd s)" using assms by (auto simp: asl_seg_def)
  then show ?thesis using that [of "hd s" "tl s @ 0x2E # asl_segs (u # r) @ [0]"] 3 asl_name_not_end [of "hd s"] by (cases s) auto
qed

lemma AmlNameFromAslName_exact:
  assumes ss: "\<forall>s \<in> set ss. asl_seg s" and n: "length ss \<le> 255" and m: "drop p m = asl_prefix r @ asl_segs ss @ [0] @ t"
    and alloc: "\<And>n. \<exists>b. AllocatePool n = Some b \<and> length b = n"
  shows "AmlNameFromAslName AllocatePool m p = Ok (Some (aml_name r ss @ [0]))"
proof -
  obtain c u where c: "asl_segs ss @ [0] = c # u" "c \<noteq> AML_PARENT_PREFIX_CHAR" "c \<noteq> AML_ROOT_CHAR"
    by (rule asl_segs_head [OF ss])
  define Root where "Root = (if r = None then 1 else 0 :: nat)"
  define Parent where "Parent = (case r of None \<Rightarrow> 0 | Some k \<Rightarrow> k)"
  have q: "asl_prefix r = (if Root = 1 then [AML_ROOT_CHAR] else replicate Parent AML_PARENT_PREFIX_CHAR)"
    "length (asl_prefix r) = Root + Parent" "Root = 1 \<and> Parent = 0 \<or> Root = 0"
    by (auto simp: asl_prefix_def Root_def Parent_def split: option.splits)
  have m': "drop p m = asl_prefix r @ c # (u @ t)" using m c(1) by simp
  obtain c0 where c0: "rd m p = Ok c0" "(if c0 = AML_ROOT_CHAR then Ok (1, 0) else chk_bind (ParentLoop m p) (\<lambda>n. Ok (0, n))) = Ok (Root, Parent)"
  proof (cases r)
    case None
    then show ?thesis using that [of AML_ROOT_CHAR] rd_drop [of p m AML_ROOT_CHAR "c # u @ t"] m'
      by (simp add: asl_prefix_def Root_def Parent_def)
  next
    case (Some k)
    then have pl: "ParentLoop m p = Ok k" using m' c(2) by (intro ParentLoop_exact) (auto simp: asl_prefix_def)
    show ?thesis
    proof (cases k)
      case 0
      then show ?thesis using that [of c] rd_drop [of p m c "u @ t"] m' Some c pl by (simp add: asl_prefix_def Root_def Parent_def)
    next
      case (Suc j)
      then have "rd m p = Ok AML_PARENT_PREFIX_CHAR" using rd_drop [of p m AML_PARENT_PREFIX_CHAR] m' Some by (simp add: asl_prefix_def)
      then show ?thesis using that [of AML_PARENT_PREFIX_CHAR] Some pl by (simp add: aml_chars Root_def Parent_def)
    qed
  qed
  have d: "drop (p + (Root + Parent)) m = asl_segs ss @ 0 # t"
    using m q(2) by (metis append_Cons append_Nil append_eq_conv_conj drop_drop add.commute)
  have "AmlGetAslNameStringSize m p = Ok (Root + Parent + 4 * length ss + length (aml_seg_prefix (length ss)) + 1, Root, Parent, length ss)"
    using c0 AslPathLoop_exact [OF ss d, of 0] n
    by (simp add: AmlGetAslNameStringSize_def aml_seg_prefix_def aml_chars add.assoc)
  from AmlNameFromAslName_run [OF this refl q(3) _ _ AslCopies_exact [OF ss d] length_pads [OF ss]] alloc
  have "AmlNameFromAslName AllocatePool m p = Ok (Some (asl_prefix r @ aml_seg_prefix (length ss) @ concat (map aml_pad ss) @ [0]))"
    unfolding q(1) by blast
  then show ?thesis by (simp add: aml_name_def)
qed


section \<open>The size of a generated name\<close>

lemma upcase_lead: "AmlIsAslLeadName c \<Longrightarrow> AmlIsLeadName (upcase c)"
proof (cases "0x61 \<le> c \<and> c \<le> 0x7A")
  case True
  then have "0x20 \<le> c" by (simp add: word_le_nat_alt)
  then have "unat (c - 0x20) = unat c - 0x20" by (simp add: unat_sub)
  moreover have "0x61 \<le> unat c" "unat c \<le> 0x7A" using True by (simp_all add: word_le_nat_alt)
  ultimately have "0x41 \<le> c - 0x20 \<and> c - 0x20 \<le> 0x5A" by (simp add: word_le_nat_alt le_diff_conv)
  moreover have "upcase c = c - 0x20" using True by (simp add: upcase_def)
  ultimately show ?thesis by (simp add: AmlIsLeadName_def)
next
  case False
  then show "AmlIsAslLeadName c \<Longrightarrow> AmlIsLeadName (upcase c)" by (auto simp: AmlIsAslLeadName_def upcase_def)
qed

lemma upcase_name: "AmlIsAslName c \<Longrightarrow> AmlIsName (upcase c)"
proof (cases "AmlIsAslLeadName c")
  case True
  then show ?thesis using upcase_lead by (simp add: AmlIsName_def)
next
  case False
  moreover assume "AmlIsAslName c"
  moreover have "upcase c = c" using False by (auto simp: upcase_def AmlIsAslLeadName_def)
  ultimately show ?thesis by (simp add: AmlIsAslName_def AmlIsName_def)
qed

lemma NameSegLoop_ok: "drop p m = xs @ t \<Longrightarrow> \<forall>c \<in> set xs. AmlIsName c \<Longrightarrow> NameSegLoop m p (length xs) = Ok True"
proof (induction xs arbitrary: p)
  case (Cons x xs)
  then show ?case using rd_drop [of p m x "xs @ t"] by simp
qed simp

lemma AmlIsNameSeg_pad:
  assumes "asl_seg s" "drop p m = aml_pad s @ t"
  shows "AmlIsNameSeg m p = Ok True"
proof -
  obtain a r where s: "s = a # r" "AmlIsAslLeadName a" "length r \<le> 3" "\<forall>c \<in> set r. AmlIsAslName c"
    using assms(1) by (cases s) (auto simp: asl_seg_def)
  let ?x = "map upcase r @ replicate (3 - length r) AML_NAME_CHAR_US"
  have "drop p m = upcase a # (?x @ t)" using assms(2) s(1) by (simp add: aml_pad_def)
  then have r: "rd m p = Ok (upcase a)" "drop (p + 1) m = ?x @ t" using rd_drop by blast+
  have "\<forall>c \<in> set ?x. AmlIsName c" using s(4) upcase_name by (auto simp: AmlIsName_def AmlIsLeadName_def AML_NAME_CHAR_US_def)
  from NameSegLoop_ok [OF r(2) this] have "NameSegLoop m (p + 1) 3 = Ok True" using s(3) by simp
  then show ?thesis using r(1) upcase_lead [OF s(2)] by (simp add: AmlIsNameSeg_def)
qed

lemma SegLoop_pads:
  "\<forall>s \<in> set ss. asl_seg s \<Longrightarrow> drop p m = concat (map aml_pad ss) @ t \<Longrightarrow> SegLoop m p (length ss) = Ok (Inr (4 * length ss))"
proof (induction ss arbitrary: p)
  case (Cons s ss)
  then have s: "asl_seg s" and d: "drop p m = aml_pad s @ concat (map aml_pad ss) @ t" by simp_all
  have "drop (p + 4) m = concat (map aml_pad ss) @ t"
    using d length_aml_pad [OF s] by (metis append_eq_conv_conj drop_drop add.commute)
  then have "SegLoop m (p + 4) (length ss) = Ok (Inr (4 * length ss))" using Cons by simp
  then show ?case using AmlIsNameSeg_pad [OF s d] by (simp add: AML_NAME_SEG_SIZE_def)
qed simp

lemma aml_pad_head:
  assumes "asl_seg s"
  obtains c t where "aml_pad s = c # t" "AmlIsLeadName c"
  using assms upcase_lead by (cases s) (auto simp: asl_seg_def aml_pad_def)

lemma lead_plain: "AmlIsLeadName c \<Longrightarrow> c \<noteq> 0 \<and> c \<noteq> AML_ROOT_CHAR \<and> c \<noteq> AML_PARENT_PREFIX_CHAR \<and>
    c \<noteq> AML_DUAL_NAME_PREFIX \<and> c \<noteq> AML_MULTI_NAME_PREFIX"
  by (auto simp: AmlIsLeadName_def aml_chars)

text \<open>After the root or parent prefix the size only depends on what follows.\<close>

lemma NameStringSize_prefix:
  assumes d: "drop p m = asl_prefix r @ c # t" and c: "c \<noteq> AML_PARENT_PREFIX_CHAR" "c \<noteq> AML_ROOT_CHAR"
  obtains c0 where "rd m p = Ok c0" "(if c0 = AML_ROOT_CHAR then Ok 1 else ParentLoop m p) = Ok (length (asl_prefix r))"
    "c0 = AML_ROOT_CHAR \<longleftrightarrow> r = None"
proof (cases r)
  case None
  then show ?thesis using that [of AML_ROOT_CHAR] rd_drop [of p m AML_ROOT_CHAR "c # t"] d by (simp add: asl_prefix_def)
next
  case (Some k)
  then have pl: "ParentLoop m p = Ok k" using d c(1) by (intro ParentLoop_exact) (auto simp: asl_prefix_def)
  show ?thesis
  proof (cases k)
    case 0
    then show ?thesis using that [of c] rd_drop [of p m c t] d Some c pl by (simp add: asl_prefix_def)
  next
    case (Suc j)
    then have "rd m p = Ok AML_PARENT_PREFIX_CHAR" using rd_drop [of p m AML_PARENT_PREFIX_CHAR] d Some by (simp add: asl_prefix_def)
    then show ?thesis using that [of AML_PARENT_PREFIX_CHAR] Some pl by (simp add: aml_chars asl_prefix_def)
  qed
qed

lemma AmlGetNameStringSize_name:
  assumes ss: "\<forall>s \<in> set ss. asl_seg s" and n: "ss \<noteq> []" "length ss \<le> 255" and d: "drop p m = aml_name r ss @ t"
  shows "AmlGetNameStringSize m p = Ok (Inr (length (aml_name r ss)))"
proof -
  let ?k = "length (asl_prefix r)" and ?P = "concat (map aml_pad ss)"
  have d1: "drop (p + ?k) m = aml_seg_prefix (length ss) @ ?P @ t"
    using d by (simp add: aml_name_def) (metis append_eq_conv_conj drop_drop add.commute)
  have len: "length (aml_name r ss) = ?k + length (aml_seg_prefix (length ss)) + 4 * length ss"
    using length_pads [OF ss] by (simp add: aml_name_def)
  obtain s ss' where s: "ss = s # ss'" "asl_seg s" using n(1) ss by (cases ss) auto
  obtain a u where a: "aml_pad s = a # u" "AmlIsLeadName a" by (rule aml_pad_head [OF s(2)])
  consider (one) "length ss = 1" | (two) "length ss = 2" | (many) "length ss > 2" using n(1) by (cases "length ss") force+
  then show ?thesis
  proof cases
    case one
    then have "aml_seg_prefix (length ss) = []" by (simp add: aml_seg_prefix_def)
    then have dd: "drop p m = asl_prefix r @ a # (u @ concat (map aml_pad ss') @ t)" "drop (p + ?k) m = a # (u @ concat (map aml_pad ss') @ t)"
      using d d1 s(1) a(1) by (simp_all add: aml_name_def)
    obtain c0 where "rd m p = Ok c0" "(if c0 = AML_ROOT_CHAR then Ok 1 else ParentLoop m p) = Ok ?k"
      by (rule NameStringSize_prefix [OF dd(1)]) (use lead_plain [OF a(2)] in auto)
    moreover have "rd m (p + ?k) = Ok a" using rd_drop [OF dd(2)] by simp
    moreover have "SegLoop m (p + ?k) 1 = Ok (Inr 4)"
      using SegLoop_pads [OF ss, of "p + ?k" m t] d1 one \<open>aml_seg_prefix (length ss) = []\<close> by simp
    ultimately show ?thesis using lead_plain [OF a(2)] len one \<open>aml_seg_prefix (length ss) = []\<close>
      by (simp add: AmlGetNameStringSize_def)
  next
    case two
    then have pr: "aml_seg_prefix (length ss) = [AML_DUAL_NAME_PREFIX]" by (simp add: aml_seg_prefix_def)
    have dd: "drop p m = asl_prefix r @ AML_DUAL_NAME_PREFIX # (?P @ t)" using d pr by (simp add: aml_name_def)
    obtain c0 where "rd m p = Ok c0" "(if c0 = AML_ROOT_CHAR then Ok 1 else ParentLoop m p) = Ok ?k"
      by (rule NameStringSize_prefix [OF dd]) (auto simp: aml_chars)
    moreover have r: "rd m (p + ?k) = Ok AML_DUAL_NAME_PREFIX" "drop (p + ?k + 1) m = ?P @ t"
      using rd_drop [of "p + ?k" m] d1 pr by simp_all
    moreover have "SegLoop m (p + ?k + 1) 2 = Ok (Inr 8)" using SegLoop_pads [OF ss r(2)] two by simp
    ultimately show ?thesis using len two pr by (simp add: AmlGetNameStringSize_def)
  next
    case many
    then have pr: "aml_seg_prefix (length ss) = [AML_MULTI_NAME_PREFIX, of_nat (length ss)]" by (simp add: aml_seg_prefix_def)
    have dd: "drop p m = asl_prefix r @ AML_MULTI_NAME_PREFIX # (of_nat (length ss) # ?P @ t)" using d pr by (simp add: aml_name_def)
    obtain c0 where "rd m p = Ok c0" "(if c0 = AML_ROOT_CHAR then Ok 1 else ParentLoop m p) = Ok ?k"
      by (rule NameStringSize_prefix [OF dd]) (auto simp: aml_chars)
    moreover have r: "rd m (p + ?k) = Ok AML_MULTI_NAME_PREFIX" "drop (p + ?k + 1) m = of_nat (length ss) # ?P @ t"
      using rd_drop [of "p + ?k" m] d1 pr by simp_all
    moreover have r2: "rd m (p + ?k + 1) = Ok (of_nat (length ss))" "drop (p + ?k + 2) m = ?P @ t"
      using rd_drop [OF r(2)] by simp_all
    moreover have "SegLoop m (p + ?k + 2) (length ss) = Ok (Inr (4 * length ss))" by (rule SegLoop_pads [OF ss r2(2)])
    moreover have "max 1 (unat (of_nat (length ss) :: u8)) = length ss" using n many by (simp add: unat_of_nat)
    ultimately show ?thesis using len pr by (simp add: AmlGetNameStringSize_def AML_DUAL_NAME_PREFIX_def AML_MULTI_NAME_PREFIX_def)
  qed
qed

section \<open>Properties\<close>

text \<open>
  Property C27. \<open>AmlNameFromAslName\<close> is safe on every NUL-terminated path, well formed or
  not: it never reads past the terminator's buffer, never writes outside the block
  of exactly \<open>TotalLength\<close> bytes it allocated, none of its assertions fails when
  the allocation succeeds, and a name it returns is NUL-terminated.
\<close>

theorem AmlNameFromAslName_safe:
  assumes "\<exists>q\<ge>p. q < length m \<and> m ! q = 0" and "\<forall>n. \<exists>b. AllocatePool n = Some b \<and> length b = n"
  shows "\<exists>r. AmlNameFromAslName AllocatePool m p = Ok r \<and>
    (\<forall>out. r = Some out \<longrightarrow> last out = 0 \<and> (\<exists>Root Parent s. AmlGetAslNameStringSize m p = Ok (length out, Root, Parent, s)))"
proof -
  have "nul m p" using assms(1) by (simp add: nul_def)
  from AmlGetAslNameStringSize_cases [OF this] show ?thesis
  proof
    assume "\<exists>x y z. AmlGetAslNameStringSize m p = Ok (0, x, y, z)"
    then show ?thesis by (auto simp: AmlNameFromAslName_def)
  next
    assume "\<exists>Root Parent s bs. AmlGetAslNameStringSize m p = Ok (Root + Parent + 4 * s + length (aml_seg_prefix s) + 1, Root, Parent, s) \<and>
       (Root = 1 \<and> Parent = 0 \<or> Root = 0) \<and> s \<le> 0xFF \<and> AslCopies m (p + (Root + Parent)) bs \<and> length bs = 4 * s"
    then obtain Root Parent s bs where
      h: "AmlGetAslNameStringSize m p = Ok (Root + Parent + 4 * s + length (aml_seg_prefix s) + 1, Root, Parent, s)"
      "Root = 1 \<and> Parent = 0 \<or> Root = 0" "AslCopies m (p + (Root + Parent)) bs" "length bs = 4 * s" by blast
    let ?T = "Root + Parent + 4 * s + length (aml_seg_prefix s) + 1"
    obtain b where b: "AllocatePool ?T = Some b" "length b = ?T" using assms(2) by blast
    from AmlNameFromAslName_run [where AllocatePool = AllocatePool, OF h(1) refl h(2) b h(3,4)] show ?thesis
      using h by (auto simp: ac_simps)
  qed
qed

theorem AmlNameFromAslName_safe_witness:
  "\<exists>r. AmlNameFromAslName (\<lambda>n. Some (replicate n 0)) (map of_nat [94, 48, 97, 46, 33, 0]) 0 = Ok r"
proof -
  have "\<exists>q\<ge>0. q < length (map of_nat [94, 48, 97, 46, 33, 0]) \<and> map of_nat [94, 48, 97, 46, 33, 0] ! q = (0 :: u8)"
    by (rule exI [of _ 5]) simp
  from AmlNameFromAslName_safe [OF this, of "\<lambda>n. Some (replicate n 0)"] show ?thesis by auto
qed

text \<open>
  Property C34. Translation and measurement agree: a well-formed ASL path (root or any
  number of parents, then up to 255 segments of one to four characters) becomes the
  prefix, the segment count prefix and the upper-case segments padded with
  underscores, and \<open>AmlGetNameStringSize\<close> of the result is its length without the
  terminator (2 for the bare root, whose terminator counts).
\<close>

theorem AmlNameFromAslName_roundtrip:
  assumes "\<forall>s \<in> set ss. asl_seg s" and "length ss \<le> 255" and "ss \<noteq> [] \<or> r = None"
    and "drop p m = asl_prefix r @ asl_segs ss @ [0] @ t" and "\<forall>n. \<exists>b. AllocatePool n = Some b \<and> length b = n"
  shows "AmlNameFromAslName AllocatePool m p = Ok (Some (aml_name r ss @ [0])) \<and>
    AmlGetNameStringSize (aml_name r ss @ [0]) 0 = Ok (Inr (if ss = [] then 2 else length (aml_name r ss)))"
proof
  show "AmlNameFromAslName AllocatePool m p = Ok (Some (aml_name r ss @ [0]))"
    using assms(5) by (intro AmlNameFromAslName_exact [OF assms(1,2,4)]) blast
  show "AmlGetNameStringSize (aml_name r ss @ [0]) 0 = Ok (Inr (if ss = [] then 2 else length (aml_name r ss)))"
  proof (cases "ss = []")
    case True
    then show ?thesis using assms(3)
      by (simp add: aml_name_def asl_prefix_def aml_seg_prefix_def AmlGetNameStringSize_def rd_def aml_chars)
  next
    case False
    then show ?thesis using AmlGetNameStringSize_name [OF assms(1) _ assms(2), of 0 "aml_name r ss @ [0]" r "[0]"] by simp
  qed
qed

theorem AmlNameFromAslName_roundtrip_witness:
  "AmlNameFromAslName (\<lambda>n. Some (replicate n 0)) (map of_nat [92, 95, 83, 66, 46, 112, 99, 105, 48, 0]) 0 =
     Ok (Some (map of_nat [92, 46, 95, 83, 66, 95, 80, 67, 73, 48, 0]))"
proof -
  let ?ss = "[map of_nat [95, 83, 66], map of_nat [112, 99, 105, 48]] :: u8 list list"
  have "\<forall>s \<in> set ?ss. asl_seg s"
    by (simp add: asl_seg_def AmlIsAslName_def AmlIsAslLeadName_def AmlIsLeadName_def)
  moreover have "aml_name None ?ss @ [0] = map of_nat [92, 46, 95, 83, 66, 95, 80, 67, 73, 48, 0]"
    by (simp add: aml_name_def asl_prefix_def aml_seg_prefix_def aml_pad_def upcase_def aml_chars)
  ultimately show ?thesis
    using AmlNameFromAslName_roundtrip [of ?ss None 0 "map of_nat [92, 95, 83, 66, 46, 112, 99, 105, 48, 0]" "[]" "\<lambda>n. Some (replicate n 0)"]
    by (simp add: asl_prefix_def aml_chars)
qed

text \<open>
  The leading character of an ASL segment is not enforced: a segment of
  one to three digits is accepted and copied, although \<open>AmlIsNameSeg\<close> rejects the
  resulting AML segment, so the size of the generated name cannot be determined.
\<close>

theorem AmlGetAslNameSegLength_accepts_digit:
  "AmlGetAslNameSegLength [0x30, 0x41, 0] 0 = Ok 2 \<and>
   AmlNameFromAslName (\<lambda>n. Some (replicate n 0)) [0x30, 0x41, 0] 0 = Ok (Some [0x30, 0x41, 0x5F, 0x5F, 0]) \<and>
   AmlGetNameStringSize [0x30, 0x41, 0x5F, 0x5F, 0] 0 = Ok (Inl EFI_INVALID_PARAMETER)"
proof -
  have seg: "AmlGetAslNameSegLength [0x30, 0x41, 0] 0 = Ok 2" by code_simp
  moreover have "AmlNameFromAslName (\<lambda>n. Some (replicate n 0)) [0x30, 0x41, 0] 0 = Ok (Some [0x30, 0x41, 0x5F, 0x5F, 0])" by code_simp
  moreover have "AmlGetNameStringSize [0x30, 0x41, 0x5F, 0x5F, 0] 0 = Ok (Inl EFI_INVALID_PARAMETER)" by code_simp
  ultimately show ?thesis by blast
qed

end
