(* ===== verification/Aml.thy ===== *)
theory Aml
  imports AmlName
begin

text \<open>
  Model of \<open>QemuPkg/AcpiSdtDxe/Aml.c\<close>, \<open>AmlOption.c\<close> and \<open>AmlChild.c\<close>: the opcode
  table, the package length decoder, and the recursive parser that finds the terms
  and the size of an AML object.  As in the theory of names, the readable memory is a
  list of bytes, pointers are indices, and reading past the end is \<open>OutOfBounds\<close>;
  \<open>MaxBufferSize\<close> is the size the caller passes, which may be smaller than what is
  readable.  The four parser functions are mutually recursive as in the source.
\<close>

section \<open>Opcode table\<close>

abbreviation (input) AML_NONE :: nat where "AML_NONE \<equiv> 0"
abbreviation (input) AML_OPCODE :: nat where "AML_OPCODE \<equiv> 1"
abbreviation (input) AML_UINT8 :: nat where "AML_UINT8 \<equiv> 2"
abbreviation (input) AML_UINT16 :: nat where "AML_UINT16 \<equiv> 3"
abbreviation (input) AML_UINT32 :: nat where "AML_UINT32 \<equiv> 4"
abbreviation (input) AML_UINT64 :: nat where "AML_UINT64 \<equiv> 5"
abbreviation (input) AML_NAME :: nat where "AML_NAME \<equiv> 6"
abbreviation (input) AML_STRING :: nat where "AML_STRING \<equiv> 7"
abbreviation (input) AML_OBJECT :: nat where "AML_OBJECT \<equiv> 8"

definition AML_HAS_PKG_LENGTH :: nat where "AML_HAS_PKG_LENGTH = 0x1"
definition AML_IS_NAME_CHAR :: nat where "AML_IS_NAME_CHAR = 0x2"
definition AML_HAS_CHILD_OBJ :: nat where "AML_HAS_CHILD_OBJ = 0x4"
definition AML_IN_NAMESPACE :: nat where "AML_IN_NAMESPACE = 0x10000"
definition AML_EXT_OP :: u8 where "AML_EXT_OP = 0x5B"
definition AML_OP_PARSE_INDEX_GET_SIZE :: nat where "AML_OP_PARSE_INDEX_GET_SIZE = 0xFFFFFFFF"

datatype EFI_ACPI_DATA_TYPE =
    EFI_ACPI_DATA_TYPE_NONE
  | EFI_ACPI_DATA_TYPE_OPCODE
  | EFI_ACPI_DATA_TYPE_NAME_STRING
  | EFI_ACPI_DATA_TYPE_UINT
  | EFI_ACPI_DATA_TYPE_STRING
  | EFI_ACPI_DATA_TYPE_CHILD

record AML_BYTE_ENCODING =
  OpCode :: u8
  SubOpCode :: u8
  MaxIndex :: nat
  Format :: "nat list"
  Attribute :: nat

definition enc :: "u8 \<Rightarrow> u8 \<Rightarrow> nat \<Rightarrow> nat list \<Rightarrow> nat \<Rightarrow> AML_BYTE_ENCODING" where
  "enc c s n f a = \<lparr>OpCode = c, SubOpCode = s, MaxIndex = n, Format = f, Attribute = a\<rparr>"

definition has :: "AML_BYTE_ENCODING \<Rightarrow> nat \<Rightarrow> bool" where
  "has e a \<longleftrightarrow> and (Attribute e) a \<noteq> 0"

definition mAmlByteEncoding :: "AML_BYTE_ENCODING list" where
  "mAmlByteEncoding = [
     enc 0x00 0x00 0 [AML_NONE, AML_NONE, AML_NONE, AML_NONE, AML_NONE, AML_NONE] 0x0,
     enc 0x01 0x00 0 [AML_NONE, AML_NONE, AML_NONE, AML_NONE, AML_NONE, AML_NONE] 0x0,
     enc 0x06 0x00 2 [AML_NAME, AML_NAME, AML_NONE, AML_NONE, AML_NONE, AML_NONE] 0x10000,
     enc 0x08 0x00 2 [AML_NAME, AML_OBJECT, AML_NONE, AML_NONE, AML_NONE, AML_NONE] 0x10000,
     enc 0x0A 0x00 1 [AML_UINT8, AML_NONE, AML_NONE, AML_NONE, AML_NONE, AML_NONE] 0x0,
     enc 0x0B 0x00 1 [AML_UINT16, AML_NONE, AML_NONE, AML_NONE, AML_NONE, AML_NONE] 0x0,
     enc 0x0C 0x00 1 [AML_UINT32, AML_NONE, AML_NONE, AML_NONE, AML_NONE, AML_NONE] 0x0,
     enc 0x0D 0x00 1 [AML_STRING, AML_NONE, AML_NONE, AML_NONE, AML_NONE, AML_NONE] 0x0,
     enc 0x0E 0x00 1 [AML_UINT64, AML_NONE, AML_NONE, AML_NONE, AML_NONE, AML_NONE] 0x0,
     enc 0x10 0x00 1 [AML_NAME, AML_NONE, AML_NONE, AML_NONE, AML_NONE, AML_NONE] 0x10005,
     enc 0x11 0x00 1 [AML_OBJECT, AML_NONE, AML_NONE, AML_NONE, AML_NONE, AML_NONE] 0x1,
     enc 0x12 0x00 1 [AML_UINT8, AML_NONE, AML_NONE, AML_NONE, AML_NONE, AML_NONE] 0x5,
     enc 0x13 0x00 1 [AML_OBJECT, AML_NONE, AML_NONE, AML_NONE, AML_NONE, AML_NONE] 0x5,
     enc 0x14 0x00 2 [AML_NAME, AML_UINT8, AML_NONE, AML_NONE, AML_NONE, AML_NONE] 0x10005,
     enc 0x2E 0x00 0 [AML_NONE, AML_NONE, AML_NONE, AML_NONE, AML_NONE, AML_NONE] 0x2,
     enc 0x2F 0x00 0 [AML_NONE, AML_NONE, AML_NONE, AML_NONE, AML_NONE, AML_NONE] 0x2,
     enc 0x41 0x00 0 [AML_NONE, AML_NONE, AML_NONE, AML_NONE, AML_NONE, AML_NONE] 0x2,
     enc 0x42 0x00 0 [AML_NONE, AML_NONE, AML_NONE, AML_NONE, AML_NONE, AML_NONE] 0x2,
     enc 0x43 0x00 0 [AML_NONE, AML_NONE, AML_NONE, AML_NONE, AML_NONE, AML_NONE] 0x2,
     enc 0x44 0x00 0 [AML_NONE, AML_NONE, AML_NONE, AML_NONE, AML_NONE, AML_NONE] 0x2,
     enc 0x45 0x00 0 [AML_NONE, AML_NONE, AML_NONE, AML_NONE, AML_NONE, AML_NONE] 0x2,
     enc 0x46 0x00 0 [AML_NONE, AML_NONE, AML_NONE, AML_NONE, AML_NONE, AML_NONE] 0x2,
     enc 0x47 0x00 0 [AML_NONE, AML_NONE, AML_NONE, AML_NONE, AML_NONE, AML_NONE] 0x2,
     enc 0x48 0x00 0 [AML_NONE, AML_NONE, AML_NONE, AML_NONE, AML_NONE, AML_NONE] 0x2,
     enc 0x49 0x00 0 [AML_NONE, AML_NONE, AML_NONE, AML_NONE, AML_NONE, AML_NONE] 0x2,
     enc 0x4A 0x00 0 [AML_NONE, AML_NONE, AML_NONE, AML_NONE, AML_NONE, AML_NONE] 0x2,
     enc 0x4B 0x00 0 [AML_NONE, AML_NONE, AML_NONE, AML_NONE, AML_NONE, AML_NONE] 0x2,
     enc 0x4C 0x00 0 [AML_NONE, AML_NONE, AML_NONE, AML_NONE, AML_NONE, AML_NONE] 0x2,
     enc 0x4D 0x00 0 [AML_NONE, AML_NONE, AML_NONE, AML_NONE, AML_NONE, AML_NONE] 0x2,
     enc 0x4E 0x00 0 [AML_NONE, AML_NONE, AML_NONE, AML_NONE, AML_NONE, AML_NONE] 0x2,
     enc 0x4F 0x00 0 [AML_NONE, AML_NONE, AML_NONE, AML_NONE, AML_NONE, AML_NONE] 0x2,
     enc 0x50 0x00 0 [AML_NONE, AML_NONE, AML_NONE, AML_NONE, AML_NONE, AML_NONE] 0x2,
     enc 0x51 0x00 0 [AML_NONE, AML_NONE, AML_NONE, AML_NONE, AML_NONE, AML_NONE] 0x2,
     enc 0x52 0x00 0 [AML_NONE, AML_NONE, AML_NONE, AML_NONE, AML_NONE, AML_NONE] 0x2,
     enc 0x53 0x00 0 [AML_NONE, AML_NONE, AML_NONE, AML_NONE, AML_NONE, AML_NONE] 0x2,
     enc 0x54 0x00 0 [AML_NONE, AML_NONE, AML_NONE, AML_NONE, AML_NONE, AML_NONE] 0x2,
     enc 0x55 0x00 0 [AML_NONE, AML_NONE, AML_NONE, AML_NONE, AML_NONE, AML_NONE] 0x2,
     enc 0x56 0x00 0 [AML_NONE, AML_NONE, AML_NONE, AML_NONE, AML_NONE, AML_NONE] 0x2,
     enc 0x57 0x00 0 [AML_NONE, AML_NONE, AML_NONE, AML_NONE, AML_NONE, AML_NONE] 0x2,
     enc 0x58 0x00 0 [AML_NONE, AML_NONE, AML_NONE, AML_NONE, AML_NONE, AML_NONE] 0x2,
     enc 0x59 0x00 0 [AML_NONE, AML_NONE, AML_NONE, AML_NONE, AML_NONE, AML_NONE] 0x2,
     enc 0x5A 0x00 0 [AML_NONE, AML_NONE, AML_NONE, AML_NONE, AML_NONE, AML_NONE] 0x2,
     enc 0x5B 0x01 2 [AML_NAME, AML_UINT8, AML_NONE, AML_NONE, AML_NONE, AML_NONE] 0x10000,
     enc 0x5B 0x02 1 [AML_NAME, AML_NONE, AML_NONE, AML_NONE, AML_NONE, AML_NONE] 0x10000,
     enc 0x5B 0x12 2 [AML_OBJECT, AML_OBJECT, AML_NONE, AML_NONE, AML_NONE, AML_NONE] 0x0,
     enc 0x5B 0x13 4 [AML_OBJECT, AML_OBJECT, AML_OBJECT, AML_NAME, AML_NONE, AML_NONE] 0x0,
     enc 0x5B 0x1F 6 [AML_OBJECT, AML_OBJECT, AML_OBJECT, AML_OBJECT, AML_OBJECT, AML_OBJECT] 0x0,
     enc 0x5B 0x20 2 [AML_NAME, AML_OBJECT, AML_NONE, AML_NONE, AML_NONE, AML_NONE] 0x0,
     enc 0x5B 0x21 1 [AML_OBJECT, AML_NONE, AML_NONE, AML_NONE, AML_NONE, AML_NONE] 0x0,
     enc 0x5B 0x22 1 [AML_OBJECT, AML_NONE, AML_NONE, AML_NONE, AML_NONE, AML_NONE] 0x0,
     enc 0x5B 0x23 2 [AML_OBJECT, AML_UINT16, AML_NONE, AML_NONE, AML_NONE, AML_NONE] 0x0,
     enc 0x5B 0x24 1 [AML_OBJECT, AML_NONE, AML_NONE, AML_NONE, AML_NONE, AML_NONE] 0x0,
     enc 0x5B 0x25 2 [AML_OBJECT, AML_OBJECT, AML_NONE, AML_NONE, AML_NONE, AML_NONE] 0x0,
     enc 0x5B 0x26 1 [AML_OBJECT, AML_NONE, AML_NONE, AML_NONE, AML_NONE, AML_NONE] 0x0,
     enc 0x5B 0x27 1 [AML_OBJECT, AML_NONE, AML_NONE, AML_NONE, AML_NONE, AML_NONE] 0x0,
     enc 0x5B 0x28 2 [AML_OBJECT, AML_OBJECT, AML_NONE, AML_NONE, AML_NONE, AML_NONE] 0x0,
     enc 0x5B 0x29 2 [AML_OBJECT, AML_OBJECT, AML_NONE, AML_NONE, AML_NONE, AML_NONE] 0x0,
     enc 0x5B 0x2A 1 [AML_OBJECT, AML_NONE, AML_NONE, AML_NONE, AML_NONE, AML_NONE] 0x0,
     enc 0x5B 0x30 0 [AML_NONE, AML_NONE, AML_NONE, AML_NONE, AML_NONE, AML_NONE] 0x0,
     enc 0x5B 0x31 0 [AML_NONE, AML_NONE, AML_NONE, AML_NONE, AML_NONE, AML_NONE] 0x0,
     enc 0x5B 0x32 3 [AML_UINT8, AML_UINT32, AML_OBJECT, AML_NONE, AML_NONE, AML_NONE] 0x0,
     enc 0x5B 0x33 0 [AML_NONE, AML_NONE, AML_NONE, AML_NONE, AML_NONE, AML_NONE] 0x0,
     enc 0x5B 0x80 4 [AML_NAME, AML_UINT8, AML_OBJECT, AML_OBJECT, AML_NONE, AML_NONE] 0x10000,
     enc 0x5B 0x81 2 [AML_NAME, AML_UINT8, AML_NONE, AML_NONE, AML_NONE, AML_NONE] 0x1,
     enc 0x5B 0x82 1 [AML_NAME, AML_NONE, AML_NONE, AML_NONE, AML_NONE, AML_NONE] 0x10005,
     enc 0x5B 0x83 4 [AML_NAME, AML_UINT8, AML_UINT32, AML_UINT8, AML_NONE, AML_NONE] 0x10005,
     enc 0x5B 0x84 3 [AML_NAME, AML_UINT8, AML_UINT16, AML_NONE, AML_NONE, AML_NONE] 0x10005,
     enc 0x5B 0x85 1 [AML_NAME, AML_NONE, AML_NONE, AML_NONE, AML_NONE, AML_NONE] 0x10005,
     enc 0x5B 0x86 3 [AML_NAME, AML_NAME, AML_UINT8, AML_NONE, AML_NONE, AML_NONE] 0x1,
     enc 0x5B 0x87 4 [AML_NAME, AML_NAME, AML_OBJECT, AML_UINT8, AML_NONE, AML_NONE] 0x1,
     enc 0x5B 0x88 4 [AML_NAME, AML_OBJECT, AML_OBJECT, AML_OBJECT, AML_NONE, AML_NONE] 0x10000,
     enc 0x5C 0x00 0 [AML_NONE, AML_NONE, AML_NONE, AML_NONE, AML_NONE, AML_NONE] 0x2,
     enc 0x5E 0x00 0 [AML_NONE, AML_NONE, AML_NONE, AML_NONE, AML_NONE, AML_NONE] 0x2,
     enc 0x5F 0x00 0 [AML_NONE, AML_NONE, AML_NONE, AML_NONE, AML_NONE, AML_NONE] 0x2,
     enc 0x60 0x00 0 [AML_NONE, AML_NONE, AML_NONE, AML_NONE, AML_NONE, AML_NONE] 0x0,
     enc 0x61 0x00 0 [AML_NONE, AML_NONE, AML_NONE, AML_NONE, AML_NONE, AML_NONE] 0x0,
     enc 0x62 0x00 0 [AML_NONE, AML_NONE, AML_NONE, AML_NONE, AML_NONE, AML_NONE] 0x0,
     enc 0x63 0x00 0 [AML_NONE, AML_NONE, AML_NONE, AML_NONE, AML_NONE, AML_NONE] 0x0,
     enc 0x64 0x00 0 [AML_NONE, AML_NONE, AML_NONE, AML_NONE, AML_NONE, AML_NONE] 0x0,
     enc 0x65 0x00 0 [AML_NONE, AML_NONE, AML_NONE, AML_NONE, AML_NONE, AML_NONE] 0x0,
     enc 0x66 0x00 0 [AML_NONE, AML_NONE, AML_NONE, AML_NONE, AML_NONE, AML_NONE] 0x0,
     enc 0x67 0x00 0 [AML_NONE, AML_NONE, AML_NONE, AML_NONE, AML_NONE, AML_NONE] 0x0,
     enc 0x68 0x00 0 [AML_NONE, AML_NONE, AML_NONE, AML_NONE, AML_NONE, AML_NONE] 0x0,
     enc 0x69 0x00 0 [AML_NONE, AML_NONE, AML_NONE, AML_NONE, AML_NONE, AML_NONE] 0x0,
     enc 0x6A 0x00 0 [AML_NONE, AML_NONE, AML_NONE, AML_NONE, AML_NONE, AML_NONE] 0x0,
     enc 0x6B 0x00 0 [AML_NONE, AML_NONE, AML_NONE, AML_NONE, AML_NONE, AML_NONE] 0x0,
     enc 0x6C 0x00 0 [AML_NONE, AML_NONE, AML_NONE, AML_NONE, AML_NONE, AML_NONE] 0x0,
     enc 0x6D 0x00 0 [AML_NONE, AML_NONE, AML_NONE, AML_NONE, AML_NONE, AML_NONE] 0x0,
     enc 0x6E 0x00 0 [AML_NONE, AML_NONE, AML_NONE, AML_NONE, AML_NONE, AML_NONE] 0x0,
     enc 0x70 0x00 2 [AML_OBJECT, AML_OBJECT, AML_NONE, AML_NONE, AML_NONE, AML_NONE] 0x0,
     enc 0x71 0x00 1 [AML_OBJECT, AML_NONE, AML_NONE, AML_NONE, AML_NONE, AML_NONE] 0x0,
     enc 0x72 0x00 3 [AML_OBJECT, AML_OBJECT, AML_OBJECT, AML_NONE, AML_NONE, AML_NONE] 0x0,
     enc 0x73 0x00 3 [AML_OBJECT, AML_OBJECT, AML_OBJECT, AML_NONE, AML_NONE, AML_NONE] 0x0,
     enc 0x74 0x00 3 [AML_OBJECT, AML_OBJECT, AML_OBJECT, AML_NONE, AML_NONE, AML_NONE] 0x0,
     enc 0x75 0x00 1 [AML_OBJECT, AML_NONE, AML_NONE, AML_NONE, AML_NONE, AML_NONE] 0x0,
     enc 0x76 0x00 1 [AML_OBJECT, AML_NONE, AML_NONE, AML_NONE, AML_NONE, AML_NONE] 0x0,
     enc 0x77 0x00 3 [AML_OBJECT, AML_OBJECT, AML_OBJECT, AML_NONE, AML_NONE, AML_NONE] 0x0,
     enc 0x78 0x00 4 [AML_OBJECT, AML_OBJECT, AML_OBJECT, AML_OBJECT, AML_NONE, AML_NONE] 0x0,
     enc 0x79 0x00 3 [AML_OBJECT, AML_OBJECT, AML_OBJECT, AML_NONE, AML_NONE, AML_NONE] 0x0,
     enc 0x7A 0x00 3 [AML_OBJECT, AML_OBJECT, AML_OBJECT, AML_NONE, AML_NONE, AML_NONE] 0x0,
     enc 0x7B 0x00 3 [AML_OBJECT, AML_OBJECT, AML_OBJECT, AML_NONE, AML_NONE, AML_NONE] 0x0,
     enc 0x7C 0x00 3 [AML_OBJECT, AML_OBJECT, AML_OBJECT, AML_NONE, AML_NONE, AML_NONE] 0x0,
     enc 0x7D 0x00 3 [AML_OBJECT, AML_OBJECT, AML_OBJECT, AML_NONE, AML_NONE, AML_NONE] 0x0,
     enc 0x7E 0x00 3 [AML_OBJECT, AML_OBJECT, AML_OBJECT, AML_NONE, AML_NONE, AML_NONE] 0x0,
     enc 0x7F 0x00 3 [AML_OBJECT, AML_OBJECT, AML_OBJECT, AML_NONE, AML_NONE, AML_NONE] 0x0,
     enc 0x80 0x00 2 [AML_OBJECT, AML_OBJECT, AML_NONE, AML_NONE, AML_NONE, AML_NONE] 0x0,
     enc 0x81 0x00 2 [AML_OBJECT, AML_OBJECT, AML_NONE, AML_NONE, AML_NONE, AML_NONE] 0x0,
     enc 0x82 0x00 2 [AML_OBJECT, AML_OBJECT, AML_NONE, AML_NONE, AML_NONE, AML_NONE] 0x0,
     enc 0x83 0x00 1 [AML_OBJECT, AML_NONE, AML_NONE, AML_NONE, AML_NONE, AML_NONE] 0x0,
     enc 0x84 0x00 3 [AML_OBJECT, AML_OBJECT, AML_OBJECT, AML_NONE, AML_NONE, AML_NONE] 0x0,
     enc 0x85 0x00 3 [AML_OBJECT, AML_OBJECT, AML_OBJECT, AML_NONE, AML_NONE, AML_NONE] 0x0,
     enc 0x86 0x00 2 [AML_OBJECT, AML_OBJECT, AML_NONE, AML_NONE, AML_NONE, AML_NONE] 0x0,
     enc 0x87 0x00 1 [AML_OBJECT, AML_NONE, AML_NONE, AML_NONE, AML_NONE, AML_NONE] 0x0,
     enc 0x88 0x00 3 [AML_OBJECT, AML_OBJECT, AML_OBJECT, AML_NONE, AML_NONE, AML_NONE] 0x0,
     enc 0x89 0x00 6 [AML_OBJECT, AML_UINT8, AML_OBJECT, AML_UINT8, AML_OBJECT, AML_OBJECT] 0x0,
     enc 0x8A 0x00 3 [AML_OBJECT, AML_OBJECT, AML_NAME, AML_NONE, AML_NONE, AML_NONE] 0x0,
     enc 0x8B 0x00 3 [AML_OBJECT, AML_OBJECT, AML_NAME, AML_NONE, AML_NONE, AML_NONE] 0x0,
     enc 0x8C 0x00 3 [AML_OBJECT, AML_OBJECT, AML_NAME, AML_NONE, AML_NONE, AML_NONE] 0x0,
     enc 0x8D 0x00 3 [AML_OBJECT, AML_OBJECT, AML_NAME, AML_NONE, AML_NONE, AML_NONE] 0x0,
     enc 0x8E 0x00 1 [AML_OBJECT, AML_NONE, AML_NONE, AML_NONE, AML_NONE, AML_NONE] 0x0,
     enc 0x8F 0x00 3 [AML_OBJECT, AML_OBJECT, AML_NAME, AML_NONE, AML_NONE, AML_NONE] 0x0,
     enc 0x90 0x00 2 [AML_OBJECT, AML_OBJECT, AML_NONE, AML_NONE, AML_NONE, AML_NONE] 0x0,
     enc 0x91 0x00 2 [AML_OBJECT, AML_OBJECT, AML_NONE, AML_NONE, AML_NONE, AML_NONE] 0x0,
     enc 0x92 0x00 1 [AML_OBJECT, AML_NONE, AML_NONE, AML_NONE, AML_NONE, AML_NONE] 0x0,
     enc 0x93 0x00 2 [AML_OBJECT, AML_OBJECT, AML_NONE, AML_NONE, AML_NONE, AML_NONE] 0x0,
     enc 0x94 0x00 2 [AML_OBJECT, AML_OBJECT, AML_NONE, AML_NONE, AML_NONE, AML_NONE] 0x0,
     enc 0x95 0x00 2 [AML_OBJECT, AML_OBJECT, AML_NONE, AML_NONE, AML_NONE, AML_NONE] 0x0,
     enc 0x96 0x00 2 [AML_OBJECT, AML_OBJECT, AML_NONE, AML_NONE, AML_NONE, AML_NONE] 0x0,
     enc 0x97 0x00 2 [AML_OBJECT, AML_OBJECT, AML_NONE, AML_NONE, AML_NONE, AML_NONE] 0x0,
     enc 0x98 0x00 2 [AML_OBJECT, AML_OBJECT, AML_NONE, AML_NONE, AML_NONE, AML_NONE] 0x0,
     enc 0x99 0x00 2 [AML_OBJECT, AML_OBJECT, AML_NONE, AML_NONE, AML_NONE, AML_NONE] 0x0,
     enc 0x9C 0x00 3 [AML_OBJECT, AML_OBJECT, AML_OBJECT, AML_NONE, AML_NONE, AML_NONE] 0x0,
     enc 0x9D 0x00 2 [AML_OBJECT, AML_OBJECT, AML_NONE, AML_NONE, AML_NONE, AML_NONE] 0x0,
     enc 0x9E 0x00 3 [AML_OBJECT, AML_OBJECT, AML_OBJECT, AML_NONE, AML_NONE, AML_NONE] 0x0,
     enc 0x9F 0x00 0 [AML_NONE, AML_NONE, AML_NONE, AML_NONE, AML_NONE, AML_NONE] 0x0,
     enc 0xA0 0x00 1 [AML_OBJECT, AML_NONE, AML_NONE, AML_NONE, AML_NONE, AML_NONE] 0x5,
     enc 0xA1 0x00 0 [AML_NONE, AML_NONE, AML_NONE, AML_NONE, AML_NONE, AML_NONE] 0x5,
     enc 0xA2 0x00 1 [AML_OBJECT, AML_NONE, AML_NONE, AML_NONE, AML_NONE, AML_NONE] 0x5,
     enc 0xA3 0x00 0 [AML_NONE, AML_NONE, AML_NONE, AML_NONE, AML_NONE, AML_NONE] 0x0,
     enc 0xA4 0x00 1 [AML_OBJECT, AML_NONE, AML_NONE, AML_NONE, AML_NONE, AML_NONE] 0x0,
     enc 0xA5 0x00 0 [AML_NONE, AML_NONE, AML_NONE, AML_NONE, AML_NONE, AML_NONE] 0x0,
     enc 0xCC 0x00 0 [AML_NONE, AML_NONE, AML_NONE, AML_NONE, AML_NONE, AML_NONE] 0x0,
     enc 0xFF 0x00 0 [AML_NONE, AML_NONE, AML_NONE, AML_NONE, AML_NONE, AML_NONE] 0x0]"

definition mAmlTypeToAcpiType :: "EFI_ACPI_DATA_TYPE list" where
  "mAmlTypeToAcpiType = [EFI_ACPI_DATA_TYPE_NONE, EFI_ACPI_DATA_TYPE_OPCODE, EFI_ACPI_DATA_TYPE_UINT, EFI_ACPI_DATA_TYPE_UINT,
     EFI_ACPI_DATA_TYPE_UINT, EFI_ACPI_DATA_TYPE_UINT, EFI_ACPI_DATA_TYPE_NAME_STRING, EFI_ACPI_DATA_TYPE_STRING,
     EFI_ACPI_DATA_TYPE_CHILD]"

definition AmlSearchByOpByte :: "u8 list \<Rightarrow> nat \<Rightarrow> AML_BYTE_ENCODING option checked" where
  "AmlSearchByOpByte m p =
    chk_bind (rd m p) (\<lambda>op.
    chk_bind (if op = AML_EXT_OP then rd m (p + 1) else Ok 0) (\<lambda>sub.
      Ok (find (\<lambda>e. OpCode e = op \<and> SubOpCode e = sub) mAmlByteEncoding)))"

definition AmlTypeToAcpiType :: "nat \<Rightarrow> EFI_ACPI_DATA_TYPE checked" where
  "AmlTypeToAcpiType AmlType =
    (if AmlType \<ge> length mAmlTypeToAcpiType then AssertFailed else Ok (mAmlTypeToAcpiType ! AmlType))"

text \<open>Offset (bytes of the encoding) and package length.\<close>

definition AmlGetPkgLength :: "u8 list \<Rightarrow> nat \<Rightarrow> (nat \<times> nat) checked" where
  "AmlGetPkgLength m p =
    chk_bind (rd m p) (\<lambda>LeadByte.
      let ByteCount = and (drop_bit 6 (unat LeadByte)) 3;
          low = and (unat LeadByte) 0xF
      in if ByteCount = 0 then Ok (1, unat LeadByte)
         else chk_bind (rd m (p + 1)) (\<lambda>b1.
           if ByteCount = 1 then Ok (2, or (push_bit 4 (unat b1)) low)
           else chk_bind (rd m (p + 2)) (\<lambda>b2.
             let r2 = or (unat b1) (push_bit 8 (unat b2))
             in if ByteCount = 2 then Ok (3, or (push_bit 4 r2) low)
                else chk_bind (rd m (p + 3)) (\<lambda>b3.
                  let r3 = or r2 (push_bit 16 (unat b3)) in Ok (4, or (push_bit 4 r3) low)))))"

section \<open>Parsing terms\<close>

function AsciiStrSize :: "u8 list \<Rightarrow> nat \<Rightarrow> nat checked" where
  "AsciiStrSize m p = chk_bind (rd m p) (\<lambda>c. if c = 0 then Ok 1 else chk_bind (AsciiStrSize m (p + 1)) (\<lambda>n. Ok (n + 1)))"
  by pat_completeness auto
termination
  by (relation "measure (\<lambda>(m, p). length m - p)") (auto simp: rd_def split: if_splits)

declare AsciiStrSize.simps [simp del]

text \<open>A successful parse: data type, data pointer and data size.\<close>

type_synonym parsed = "EFI_ACPI_DATA_TYPE \<times> nat \<times> nat"

text \<open>The final size check of \<open>AmlParseOptionTerm\<close>.\<close>

definition term_done :: "nat \<Rightarrow> EFI_ACPI_DATA_TYPE \<Rightarrow> nat \<Rightarrow> nat \<Rightarrow> (EFI_STATUS + parsed) checked" where
  "term_done MaxBufferSize ty p DataSize =
    (if DataSize > MaxBufferSize then Ok (Inl EFI_INVALID_PARAMETER) else Ok (Inr (ty, p, DataSize)))"

definition term_name :: "u8 list \<Rightarrow> nat \<Rightarrow> nat \<Rightarrow> (EFI_STATUS + parsed) checked" where
  "term_name m p MaxBufferSize =
    chk_bind (AmlGetNameStringSize m p) (\<lambda>r.
      case r of Inl _ \<Rightarrow> Ok (Inl EFI_INVALID_PARAMETER)
      | Inr n \<Rightarrow> term_done MaxBufferSize EFI_ACPI_DATA_TYPE_NAME_STRING p n)"

text \<open>Offset and value of the package length and the new \<open>MaxBufferSize\<close>.\<close>

definition PkgBounds ::
  "u8 list \<Rightarrow> AML_BYTE_ENCODING \<Rightarrow> nat \<Rightarrow> nat \<Rightarrow> nat \<Rightarrow> (EFI_STATUS + nat \<times> nat \<times> nat) checked" where
  "PkgBounds m e p OpLength MaxBufferSize =
    (if has e AML_HAS_PKG_LENGTH
     then chk_bind (AmlGetPkgLength m p) (\<lambda>(PkgOffset, PkgLength).
       if OpLength + PkgLength > MaxBufferSize then Ok (Inl EFI_INVALID_PARAMETER)
       else Ok (Inr (PkgOffset, PkgLength, OpLength + PkgLength)))
     else Ok (Inr (0, 0, MaxBufferSize)))"

lemma PkgBounds_le: "PkgBounds m e p op n = Ok (Inr (off, len, n')) \<Longrightarrow> op \<le> n \<Longrightarrow> n' \<le> n \<and> op \<le> n'"
  by (auto simp: PkgBounds_def split: if_splits elim!: chk_bind_OkE)

function (sequential) AmlParseOptionTerm ::
    "u8 list \<Rightarrow> AML_BYTE_ENCODING \<Rightarrow> nat \<Rightarrow> nat \<Rightarrow> nat \<Rightarrow> (EFI_STATUS + parsed) checked"
  and AmlParseTermLoop ::
    "u8 list \<Rightarrow> AML_BYTE_ENCODING \<Rightarrow> nat \<Rightarrow> nat \<Rightarrow> nat \<Rightarrow> nat \<Rightarrow> nat \<Rightarrow> (EFI_STATUS + parsed + nat) checked"
  and AmlParseOptionCommon ::
    "u8 list \<Rightarrow> AML_BYTE_ENCODING \<Rightarrow> nat \<Rightarrow> nat \<Rightarrow> nat \<Rightarrow> (EFI_STATUS + parsed) checked"
  and AmlGetObjectSize :: "u8 list \<Rightarrow> AML_BYTE_ENCODING \<Rightarrow> nat \<Rightarrow> nat \<Rightarrow> nat checked" where
  "AmlParseOptionTerm m e p MaxBufferSize TermIndex =
    (let f = Format e ! (TermIndex - 1)
     in chk_bind (AmlTypeToAcpiType f) (\<lambda>DataType.
       if f = AML_UINT8 then term_done MaxBufferSize DataType p 1
       else if f = AML_UINT16 then term_done MaxBufferSize DataType p 2
       else if f = AML_UINT32 then term_done MaxBufferSize DataType p 4
       else if f = AML_UINT64 then term_done MaxBufferSize DataType p 8
       else if f = AML_STRING then chk_bind (AsciiStrSize m p) (\<lambda>n. term_done MaxBufferSize DataType p n)
       else if f = AML_NAME then term_name m p MaxBufferSize
       else if f = AML_OBJECT then
         chk_bind (AmlSearchByOpByte m p) (\<lambda>c.
           case c of
             None \<Rightarrow> Ok (Inl EFI_INVALID_PARAMETER)
           | Some ch \<Rightarrow>
               if has ch AML_IS_NAME_CHAR then term_name m p MaxBufferSize
               else chk_bind (AmlGetObjectSize m ch p MaxBufferSize) (\<lambda>n.
                 if n = 0 then Ok (Inl EFI_INVALID_PARAMETER) else term_done MaxBufferSize DataType p n))
       else AssertFailed))"
| "AmlParseTermLoop m e Buffer MaxBufferSize Index TermIndex CurrentBuffer =
    (if Index \<ge> TermIndex \<and> TermIndex \<le> MaxIndex e \<and> CurrentBuffer < Buffer + MaxBufferSize
     then chk_bind (AmlParseOptionTerm m e CurrentBuffer (Buffer + MaxBufferSize - CurrentBuffer) TermIndex) (\<lambda>r.
       case r of
         Inl _ \<Rightarrow> Ok (Inl EFI_INVALID_PARAMETER)
       | Inr (ty, d, DataSize) \<Rightarrow>
           if Index = TermIndex then Ok (Inr (Inl (ty, d, DataSize)))
           else AmlParseTermLoop m e Buffer MaxBufferSize Index (TermIndex + 1) (CurrentBuffer + DataSize))
     else Ok (Inr (Inr CurrentBuffer)))"
| "AmlParseOptionCommon m e Buffer MaxBufferSize Index =
    (if \<not> (Index \<le> MaxIndex e \<or> Index = AML_OP_PARSE_INDEX_GET_SIZE) then AssertFailed
     else if has e AML_IS_NAME_CHAR then
       (if Index \<noteq> AML_OP_PARSE_INDEX_GET_SIZE then Ok (Inl EFI_INVALID_PARAMETER)
        else chk_bind (AmlGetNameStringSize m Buffer) (\<lambda>r.
          case r of
            Inl _ \<Rightarrow> Ok (Inl EFI_INVALID_PARAMETER)
          | Inr n \<Rightarrow> if n > MaxBufferSize then Ok (Inl EFI_INVALID_PARAMETER)
                      else Ok (Inr (EFI_ACPI_DATA_TYPE_NONE, Buffer, n))))
     else chk_bind (rd m Buffer) (\<lambda>c.
       let OpLength = (if c = AML_EXT_OP then 2 else 1)
       in if Index = 0 then Ok (Inr (EFI_ACPI_DATA_TYPE_OPCODE, Buffer, OpLength))
          else if OpLength > MaxBufferSize then Ok (Inl EFI_INVALID_PARAMETER)
          else chk_bind (PkgBounds m e (Buffer + OpLength) OpLength MaxBufferSize) (\<lambda>b.
            case b of
              Inl s \<Rightarrow> Ok (Inl s)
            | Inr (PkgOffset, PkgLength, Max2) \<Rightarrow>
                chk_bind (AmlParseTermLoop m e Buffer Max2 Index 1 (Buffer + OpLength + PkgOffset)) (\<lambda>r.
                  case r of
                    Inl s \<Rightarrow> Ok (Inl s)
                  | Inr (Inl x) \<Rightarrow> Ok (Inr x)
                  | Inr (Inr CurrentBuffer) \<Rightarrow>
                      if CurrentBuffer > Buffer + Max2 then Ok (Inl EFI_INVALID_PARAMETER)
                      else if CurrentBuffer = Buffer + Max2 \<and> Index \<noteq> AML_OP_PARSE_INDEX_GET_SIZE then Ok (Inl EFI_INVALID_PARAMETER)
                      else if Index \<noteq> AML_OP_PARSE_INDEX_GET_SIZE then AssertFailed
                      else Ok (Inr (EFI_ACPI_DATA_TYPE_NONE, Buffer,
                             if has e AML_HAS_PKG_LENGTH then OpLength + PkgLength else CurrentBuffer - Buffer))))))"
| "AmlGetObjectSize m e Buffer MaxBufferSize =
    chk_bind (AmlParseOptionCommon m e Buffer MaxBufferSize AML_OP_PARSE_INDEX_GET_SIZE) (\<lambda>r.
      case r of Inl _ \<Rightarrow> Ok 0 | Inr (_, _, DataSize) \<Rightarrow> Ok DataSize)"
  by pat_completeness auto

text \<open>
  Every nested object starts at least one opcode byte further and ends no later, so
  the remaining size decreases; within one size the calls are ordered, and the term
  index bounds the loop.
\<close>

termination
  by (relation "inv_image (less_than <*lex*> less_than <*lex*> less_than) (\<lambda>x. case x of
       Inl (Inl (m, e, p, n, t)) \<Rightarrow> (n, 3, 0)
     | Inl (Inr (m, e, b, n, i, t, c)) \<Rightarrow> (b + n - c, 4, Suc (MaxIndex e) - t)
     | Inr (Inl (m, e, b, n, i)) \<Rightarrow> (n, 1, 0)
     | Inr (Inr (m, e, b, n)) \<Rightarrow> (n, 2, 0))")
    (auto dest!: PkgBounds_le split: if_splits)

declare AmlParseOptionTerm.simps [simp del] AmlParseTermLoop.simps [simp del] AmlParseOptionCommon.simps [simp del]
  AmlGetObjectSize.simps [simp del]

section \<open>Handles, names and children\<close>

record EFI_AML_HANDLE =
  hBuffer :: nat
  hSize :: nat
  hEncoding :: AML_BYTE_ENCODING

definition AmlParseOptionHandleCommon :: "u8 list \<Rightarrow> EFI_AML_HANDLE \<Rightarrow> nat \<Rightarrow> (EFI_STATUS + parsed) checked" where
  "AmlParseOptionHandleCommon m h Index = AmlParseOptionCommon m (hEncoding h) (hBuffer h) (hSize h) Index"

text \<open>The largest term index whose format is a name; 0 if there is none.\<close>

primrec NameTerm :: "nat list \<Rightarrow> nat \<Rightarrow> nat" where
  "NameTerm f 0 = 0"
| "NameTerm f (Suc k) = (if f ! k = AML_NAME then Suc k else NameTerm f k)"

text \<open>The pointer to the name, \<open>None\<close> for \<open>NULL\<close>.\<close>

definition AmlGetObjectName :: "u8 list \<Rightarrow> EFI_AML_HANDLE \<Rightarrow> nat option checked" where
  "AmlGetObjectName m h =
    (let e = hEncoding h; TermIndex = NameTerm (Format e) (MaxIndex e)
     in if \<not> has e AML_IN_NAMESPACE then AssertFailed
        else if TermIndex = 0 then AssertFailed
        else chk_bind (AmlParseOptionHandleCommon m h TermIndex) (\<lambda>r.
          case r of
            Inl _ \<Rightarrow> Ok None
          | Inr (DataType, NameString, NameSize) \<Rightarrow>
              if DataType \<noteq> EFI_ACPI_DATA_TYPE_NAME_STRING then AssertFailed else Ok (Some NameString)))"

definition AmlGetOffsetAfterLastOption :: "u8 list \<Rightarrow> EFI_AML_HANDLE \<Rightarrow> (EFI_STATUS + nat) checked" where
  "AmlGetOffsetAfterLastOption m h =
    chk_bind (AmlParseOptionHandleCommon m h (MaxIndex (hEncoding h))) (\<lambda>r.
      case r of
        Inl _ \<Rightarrow> Ok (Inl EFI_INVALID_PARAMETER)
      | Inr (DataType, Data, DataSize) \<Rightarrow>
          if DataType = EFI_ACPI_DATA_TYPE_OPCODE
          then chk_bind (AmlGetPkgLength m (Data + DataSize)) (\<lambda>(off, len). Ok (Inr (Data + DataSize + off)))
          else Ok (Inr (Data + DataSize)))"

text \<open>The next child object at or after a position: the error, or a pointer (\<open>None\<close>: no more).\<close>

function AmlGetChildFromObjectBuffer :: "u8 list \<Rightarrow> EFI_AML_HANDLE \<Rightarrow> nat \<Rightarrow> (EFI_STATUS + nat option) checked" where
  "AmlGetChildFromObjectBuffer m parent CurrentBuffer =
    (if CurrentBuffer < hBuffer parent + hSize parent
     then chk_bind (AmlSearchByOpByte m CurrentBuffer) (\<lambda>c.
       case c of
         None \<Rightarrow> Ok (Inl EFI_INVALID_PARAMETER)
       | Some e \<Rightarrow>
           if \<not> has e AML_IS_NAME_CHAR then Ok (Inr (Some CurrentBuffer))
           else chk_bind (AmlGetObjectSize m e CurrentBuffer (hBuffer parent + hSize parent - CurrentBuffer)) (\<lambda>DataSize.
             if DataSize = 0 then Ok (Inl EFI_INVALID_PARAMETER)
             else AmlGetChildFromObjectBuffer m parent (CurrentBuffer + DataSize)))
     else Ok (Inr None))"
  by pat_completeness auto
termination
  by (relation "measure (\<lambda>(m, h, c). hBuffer h + hSize h - c)") auto

declare AmlGetChildFromObjectBuffer.simps [simp del]

definition AmlGetChildFromRoot :: "u8 list \<Rightarrow> EFI_AML_HANDLE \<Rightarrow> EFI_AML_HANDLE option \<Rightarrow> (EFI_STATUS + nat option) checked" where
  "AmlGetChildFromRoot m parent h =
     AmlGetChildFromObjectBuffer m parent (case h of None \<Rightarrow> hBuffer parent | Some x \<Rightarrow> hBuffer x + hSize x)"

text \<open>The loop of \<open>AmlGetChildFromOptionList\<close> over the term indices left.\<close>

fun ChildOptionLoop :: "u8 list \<Rightarrow> EFI_AML_HANDLE \<Rightarrow> EFI_AML_HANDLE \<Rightarrow> nat list \<Rightarrow> (EFI_STATUS + nat option) checked" where
  "ChildOptionLoop m parent h [] = Ok (Inr None)"
| "ChildOptionLoop m parent h (Index # is) =
    chk_bind (AmlParseOptionHandleCommon m parent Index) (\<lambda>r.
      case r of
        Inl _ \<Rightarrow> Ok (Inl EFI_INVALID_PARAMETER)
      | Inr (DataType, Data, DataSize) \<Rightarrow>
          if DataType = EFI_ACPI_DATA_TYPE_NONE then Ok (Inr None)
          else if DataType = EFI_ACPI_DATA_TYPE_CHILD \<and> hBuffer h < Data then Ok (Inr (Some Data))
          else ChildOptionLoop m parent h is)"

definition AmlGetChildFromOptionList :: "u8 list \<Rightarrow> EFI_AML_HANDLE \<Rightarrow> EFI_AML_HANDLE \<Rightarrow> (EFI_STATUS + nat option) checked" where
  "AmlGetChildFromOptionList m parent h = ChildOptionLoop m parent h [1..<Suc (MaxIndex (hEncoding parent))]"

definition AmlGetChildFromObjectChildList :: "u8 list \<Rightarrow> EFI_AML_HANDLE \<Rightarrow> EFI_AML_HANDLE \<Rightarrow> (EFI_STATUS + nat option) checked" where
  "AmlGetChildFromObjectChildList m parent h =
    (if \<not> has (hEncoding parent) AML_HAS_CHILD_OBJ then Ok (Inr None)
     else chk_bind (AmlGetOffsetAfterLastOption m parent) (\<lambda>r.
       case r of
         Inl _ \<Rightarrow> Ok (Inl EFI_INVALID_PARAMETER)
       | Inr CurrentBuffer \<Rightarrow>
           if hBuffer h < CurrentBuffer then AmlGetChildFromObjectBuffer m parent CurrentBuffer
           else if hBuffer h + hSize h < hBuffer parent + hSize parent
           then AmlGetChildFromObjectBuffer m parent (hBuffer h + hSize h)
           else Ok (Inr None)))"

definition AmlGetChildFromNonRoot :: "u8 list \<Rightarrow> EFI_AML_HANDLE \<Rightarrow> EFI_AML_HANDLE option \<Rightarrow> (EFI_STATUS + nat option) checked" where
  "AmlGetChildFromNonRoot m parent h =
    (let x = (case h of None \<Rightarrow> parent | Some y \<Rightarrow> y)
     in chk_bind (AmlGetChildFromOptionList m parent x) (\<lambda>r.
       case r of
         Inl _ \<Rightarrow> Ok (Inl EFI_INVALID_PARAMETER)
       | Inr (Some b) \<Rightarrow> Ok (Inr (Some b))
       | Inr None \<Rightarrow> AmlGetChildFromObjectChildList m parent x))"

section \<open>Package lengths\<close>

text \<open>The encoding of the ACPI specification: \<open>k\<close> bytes, 4 or 6 bits in the first.\<close>

definition pkg_fits :: "nat \<Rightarrow> nat \<Rightarrow> bool" where
  "pkg_fits k n \<longleftrightarrow> (if k = 1 then n < 64 else k \<in> {2, 3, 4} \<and> n < 16 * 256 ^ (k - 1))"

definition pkg_bytes :: "nat \<Rightarrow> nat \<Rightarrow> u8 list" where
  "pkg_bytes k n = (if k = 1 then [of_nat n] else of_nat (64 * (k - 1) + n mod 16) # le_bytes (k - 1) (n div 16))"

lemma length_pkg_bytes: "pkg_fits k n \<Longrightarrow> length (pkg_bytes k n) = k"
  by (auto simp: pkg_fits_def pkg_bytes_def split: if_splits)

lemma or_push: "b < 2 ^ k \<Longrightarrow> or (push_bit k a) b = 2 ^ k * a + (b :: nat)"
proof -
  assume "b < 2 ^ k"
  then have b: "take_bit k b = b" by (simp add: take_bit_nat_eq_self)
  have "and (push_bit k a) (take_bit k b) = 0" by (rule bit_eqI) (simp add: bit_simps)
  then show ?thesis unfolding b by (subst disjunctive_add_eq_or [symmetric]) (simp_all add: push_bit_eq_mult)
qed

lemma or_push': "b < 2 ^ k \<Longrightarrow> or b (push_bit k a) = b + 2 ^ k * (a :: nat)"
  using or_push [of b k a] by (simp add: or.commute)

lemma and15: "and (x :: nat) 15 = x mod 16" and and3: "and (x :: nat) 3 = x mod 4"
  using take_bit_eq_mask [of 4 x] take_bit_eq_mask [of 2 x] by (simp_all add: take_bit_eq_mod mask_eq_exp_minus_1)

lemma rd_nth: "drop p m = xs \<Longrightarrow> i < length xs \<Longrightarrow> rd m (p + i) = Ok (xs ! i)"
  by (auto simp: rd_def)

lemma lead_byte:
  assumes "n < 16" "k < 4"
  shows "unat (of_nat (64 * k + n) :: u8) = 64 * k + n" "(64 * k + n) div 64 = k" "(64 * k + n) mod 16 = n"
proof -
  have "64 * k + n < 256" using assms by simp
  then show "unat (of_nat (64 * k + n) :: u8) = 64 * k + n" unfolding unat_of_nat by simp
  have "64 * k + n = n + 16 * (4 * k)" by simp
  then show "(64 * k + n) mod 16 = n" using assms by (simp only: mod_mult_self2) simp
  show "(64 * k + n) div 64 = k" using assms by simp
qed

lemma pkg4:
  assumes "rd m p = Ok x" "rd m (p + 1) = Ok y" "rd m (p + 2) = Ok z" "rd m (p + 3) = Ok w" "unat x = 192 + l" "l < 16"
  shows "AmlGetPkgLength m p = Ok (4, 16 * (unat y + 256 * unat z + 65536 * unat w) + l)"
proof -
  have b: "unat y < 256" "unat z < 256" using unsigned_less [of y] unsigned_less [of z] by simp_all
  then have "unat y + 256 * unat z < 65536" by linarith
  then have "or (or (unat y) (push_bit 8 (unat z))) (push_bit 16 (unat w)) = unat y + 256 * unat z + 65536 * unat w"
    using or_push' [of "unat y" 8 "unat z"] or_push' [of "unat y + 256 * unat z" 16 "unat w"] b by simp
  then show ?thesis
    using assms or_push [of l 4] lead_byte [of l 3] by (simp add: AmlGetPkgLength_def and15 and3 drop_bit_eq_div)
qed

lemma pkg_decode:
  assumes fits: "pkg_fits k n" and d: "drop p m = pkg_bytes k n @ t"
  shows "AmlGetPkgLength m p = Ok (k, n)"
proof -
  have h: "16 * (n div 16) + n mod 16 = n" "256 * (n div 16 div 256) + n div 16 mod 256 = n div 16"
    "256 * (n div 16 div 256 div 256) + n div 16 div 256 mod 256 = n div 16 div 256" by (rule mult_div_mod_eq)+
  note s = AmlGetPkgLength_def Let_def and15 and3 drop_bit_eq_div or_push or_push'
  consider "k = 1" "n < 64" | "k = 2" "n < 4096" | "k = 3" "n < 1048576" | "k = 4" "n < 268435456"
    using fits by (auto simp: pkg_fits_def split: if_splits)
  then show ?thesis
  proof cases
    case 1
    then have "rd m p = Ok (of_nat n)" using rd_drop [of p m "of_nat n" t] d by (simp add: pkg_bytes_def)
    then show ?thesis using 1 by (simp add: s unat_of_nat)
  next
    case 2
    then have d2: "drop p m = of_nat (64 + n mod 16) # of_nat (n div 16) # t" using d by (simp add: pkg_bytes_def)
    have "rd m p = Ok (of_nat (64 + n mod 16))" "rd m (p + 1) = Ok (of_nat (n div 16))"
      using d2 rd_drop by (fastforce simp: numeral_2_eq_2)+
    then show ?thesis using 2 lead_byte [of "n mod 16" 1] by (simp add: s unat_of_nat)
  next
    case 3
    then have d3: "drop p m = of_nat (128 + n mod 16) # of_nat (n div 16) # of_nat (n div 16 div 256) # t" using d by (simp add: pkg_bytes_def numeral_2_eq_2)
    have "rd m p = Ok (of_nat (128 + n mod 16))" "rd m (p + 1) = Ok (of_nat (n div 16))" "rd m (p + 2) = Ok (of_nat (n div 16 div 256))"
      using rd_nth [OF d3, of 0] rd_nth [OF d3, of 1] rd_nth [OF d3, of 2] by simp_all
    then show ?thesis using 3 lead_byte [of "n mod 16" 2] by (simp add: s unat_of_nat) (use h in linarith)
  next
    case 4
    then have d4: "drop p m = of_nat (192 + n mod 16) # of_nat (n div 16) # of_nat (n div 16 div 256) # of_nat (n div 16 div 256 div 256) # t" using d by (simp add: pkg_bytes_def numeral_3_eq_3)
    have "rd m p = Ok (of_nat (192 + n mod 16))" "rd m (p + 1) = Ok (of_nat (n div 16))" "rd m (p + 2) = Ok (of_nat (n div 16 div 256))" "rd m (p + 3) = Ok (of_nat (n div 16 div 256 div 256))"
      using rd_nth [OF d4, of 0] rd_nth [OF d4, of 1] rd_nth [OF d4, of 2] rd_nth [OF d4, of 3] by simp_all
    then have "AmlGetPkgLength m p = Ok (4, 16 * (unat (of_nat (n div 16) :: u8) + 256 * unat (of_nat (n div 16 div 256) :: u8)
        + 65536 * unat (of_nat (n div 16 div 256 div 256) :: u8)) + n mod 16)"
      using lead_byte [of "n mod 16" 3] by (intro pkg4) simp_all
    moreover have "n div 16 div 256 div 256 mod 256 = n div 16 div 256 div 256" using 4 by simp
    ultimately show ?thesis using 4 by (simp add: unat_of_nat) (use h in linarith)
  qed
qed

text \<open>An encoding that is cut off is read past its end.\<close>

lemma pkg_short:
  assumes "rd m p = Ok x" and "unat x div 64 = c" and "length m - p \<le> c"
  shows "AmlGetPkgLength m p = OutOfBounds"
proof -
  have "unat x < 256" using unsigned_less [of x] by simp
  then have "c < 4" using assms(2) less_mult_imp_div_less [of "unat x" 4 64] by simp
  moreover have "p < length m" using assms(1) by (simp add: rd_def split: if_splits)
  ultimately show ?thesis using assms by (auto simp: AmlGetPkgLength_def Let_def and3 drop_bit_eq_div rd_def)
qed

lemma pkg_cut:
  assumes fits: "pkg_fits k n" and j: "j < k" and d: "drop p m = take j (pkg_bytes k n)"
  shows "AmlGetPkgLength m p = OutOfBounds"
proof (cases j)
  case 0
  then show ?thesis using d by (simp add: AmlGetPkgLength_def rd_def)
next
  case (Suc i)
  have k: "k \<in> {2, 3, 4}" using fits j Suc by (auto simp: pkg_fits_def split: if_splits)
  have l: "length m - p = j" using arg_cong [OF d, of length] j length_pkg_bytes [OF fits] by simp
  have "rd m p = Ok (of_nat (64 * (k - 1) + n mod 16))" using rd_drop [of p m] d Suc k by (auto simp: pkg_bytes_def)
  moreover have "unat (of_nat (64 * (k - 1) + n mod 16) :: u8) div 64 = k - 1"
    using lead_byte [of "n mod 16" "k - 1"] k by auto
  ultimately show ?thesis by (rule pkg_short) (use l j in simp)
qed

section \<open>Looking up opcodes\<close>

definition row_key :: "AML_BYTE_ENCODING \<Rightarrow> nat" where
  "row_key e = 256 * unat (OpCode e) + unat (SubOpCode e)"

lemma table_sorted: "sorted_wrt (<) (map row_key mAmlByteEncoding)"
  unfolding mAmlByteEncoding_def by (simp add: row_key_def enc_def del: sorted_wrt.simps add: sorted_wrt1 sorted_wrt2)

lemma table_sub: "e \<in> set mAmlByteEncoding \<Longrightarrow> OpCode e \<noteq> AML_EXT_OP \<Longrightarrow> SubOpCode e = 0"
proof -
  have "list_all (\<lambda>e. OpCode e \<noteq> AML_EXT_OP \<longrightarrow> SubOpCode e = 0) mAmlByteEncoding"
    unfolding mAmlByteEncoding_def list.pred_inject by (simp add: enc_def AML_EXT_OP_def)
  then show "e \<in> set mAmlByteEncoding \<Longrightarrow> OpCode e \<noteq> AML_EXT_OP \<Longrightarrow> SubOpCode e = 0" by (simp add: list_all_iff)
qed

lemma row_key_unique: "e \<in> set mAmlByteEncoding \<Longrightarrow> f \<in> set mAmlByteEncoding \<Longrightarrow> OpCode e = OpCode f \<Longrightarrow> SubOpCode e = SubOpCode f \<Longrightarrow> e = f"
  using table_sorted inj_onD [of row_key "set mAmlByteEncoding" e f]
  by (simp add: strict_sorted_iff distinct_map row_key_def)

lemma find_row: "e \<in> set mAmlByteEncoding \<Longrightarrow> find (\<lambda>f. OpCode f = OpCode e \<and> SubOpCode f = SubOpCode e) mAmlByteEncoding = Some e"
proof (cases "find (\<lambda>f. OpCode f = OpCode e \<and> SubOpCode f = SubOpCode e) mAmlByteEncoding")
  case None
  then show "e \<in> set mAmlByteEncoding \<Longrightarrow> ?thesis" by (auto simp: find_None_iff)
next
  case (Some f)
  then show "e \<in> set mAmlByteEncoding \<Longrightarrow> ?thesis" using row_key_unique [of f e] by (auto simp: find_Some_iff)
qed

definition op_bytes :: "AML_BYTE_ENCODING \<Rightarrow> u8 list" where
  "op_bytes e = (if OpCode e = AML_EXT_OP then [OpCode e, SubOpCode e] else [OpCode e])"

lemma search_op:
  assumes "e \<in> set mAmlByteEncoding" "drop p m = op_bytes e @ t"
  shows "AmlSearchByOpByte m p = Ok (Some e)"
  using assms rd_drop [of p m] rd_drop [of "p + 1" m] table_sub [OF assms(1)] find_row [OF assms(1)]
  by (auto simp: AmlSearchByOpByte_def op_bytes_def split: if_splits)

lemma name_rows: "\<forall>c \<in> {0x2E, 0x2F, 0x5C, 0x5E, 0x5F} \<union> set (map of_nat [0x41..<0x5B]).
   enc c 0 0 [0, 0, 0, 0, 0, 0] 2 \<in> set mAmlByteEncoding"
  unfolding mAmlByteEncoding_def by (simp add: upt_rec)

section \<open>The table\<close>

definition row_ok :: "AML_BYTE_ENCODING \<Rightarrow> bool" where
  "row_ok e \<longleftrightarrow> MaxIndex e \<le> 6 \<and> MaxIndex e \<le> length (Format e) \<and> list_all (\<lambda>f. 2 \<le> f \<and> f \<le> 8) (take (MaxIndex e) (Format e))"

lemma row_ok_enc: "row_ok (enc c s n f a) \<longleftrightarrow> n \<le> 6 \<and> n \<le> length f \<and> list_all (\<lambda>f. 2 \<le> f \<and> f \<le> 8) (take n f)"
  by (simp add: row_ok_def enc_def)

lemma rows_ok: "e \<in> set mAmlByteEncoding \<Longrightarrow> row_ok e"
proof -
  have "list_all row_ok mAmlByteEncoding"
    unfolding mAmlByteEncoding_def list.pred_inject row_ok_enc by simp
  then show "e \<in> set mAmlByteEncoding \<Longrightarrow> row_ok e" by (simp add: list_all_iff)
qed

lemma row_ok_format: "row_ok e \<Longrightarrow> 1 \<le> t \<Longrightarrow> t \<le> MaxIndex e \<Longrightarrow> Format e ! (t - 1) \<in> {2..8}"
  by (cases t) (auto simp: row_ok_def list_all_length)

lemma search_row: "AmlSearchByOpByte m p = Ok (Some e) \<Longrightarrow> row_ok e"
  by (auto simp: AmlSearchByOpByte_def find_Some_iff elim!: chk_bind_OkE intro!: rows_ok)

section \<open>Bounds of the parser\<close>

lemma chk_no_assert: "rd m p \<noteq> AssertFailed"
  by (simp add: rd_def)

lemma AsciiStrSize_props: "AsciiStrSize m p \<noteq> AssertFailed \<and> (\<forall>n. AsciiStrSize m p = Ok n \<longrightarrow> 0 < n)"
proof (induction m p rule: AsciiStrSize.induct)
  case (1 m p)
  then show ?case by (subst (1 2) AsciiStrSize.simps) (auto simp: chk_no_assert elim!: chk_bind_OkE chk_bind_AssertE split: if_splits)
qed

lemma NameSegLoop_no_assert: "NameSegLoop m p k \<noteq> AssertFailed"
  by (induction k arbitrary: p) (auto simp: chk_no_assert elim!: chk_bind_AssertE split: if_splits)

lemma AmlIsNameSeg_no_assert: "AmlIsNameSeg m p \<noteq> AssertFailed"
  by (auto simp: AmlIsNameSeg_def chk_no_assert NameSegLoop_no_assert elim!: chk_bind_AssertE split: if_splits)

lemma SegLoop_no_assert: "SegLoop m p k \<noteq> AssertFailed"
  by (induction k arbitrary: p) (auto simp: AmlIsNameSeg_no_assert elim!: chk_bind_AssertE split: if_splits sum.splits)

lemma ParentLoop_no_assert: "ParentLoop m p \<noteq> AssertFailed"
proof (induction m p rule: ParentLoop.induct)
  case (1 m p)
  then show ?case by (subst ParentLoop.simps) (auto simp: chk_no_assert elim!: chk_bind_AssertE split: if_splits)
qed

lemma SegLoop_pos: "SegLoop m p (Suc k) = Ok (Inr n) \<Longrightarrow> 0 < n"
  by (auto simp: AML_NAME_SEG_SIZE_def elim!: chk_bind_OkE split: if_splits sum.splits)

lemma NameStringSize_no_assert: "AmlGetNameStringSize m p \<noteq> AssertFailed"
  by (auto simp: AmlGetNameStringSize_def chk_no_assert ParentLoop_no_assert SegLoop_no_assert AmlIsNameSeg_no_assert elim!: chk_bind_AssertE split: if_splits sum.splits)

lemma NameStringSize_pos: "AmlGetNameStringSize m p = Ok (Inr n) \<Longrightarrow> 0 < n"
  by (auto simp: AmlGetNameStringSize_def SegLoop_pos AML_NAME_SEG_SIZE_def elim!: chk_bind_OkE split: if_splits sum.splits)

lemma PkgLength_no_assert: "AmlGetPkgLength m p \<noteq> AssertFailed"
  by (auto simp: AmlGetPkgLength_def Let_def chk_no_assert elim!: chk_bind_AssertE split: if_splits)

lemma PkgBounds_no_assert: "PkgBounds m e p l n \<noteq> AssertFailed"
  by (auto simp: PkgBounds_def PkgLength_no_assert elim!: chk_bind_AssertE split: if_splits)

lemma PkgBounds_pkg: "PkgBounds m e p op n = Ok (Inr (off, len, k)) \<Longrightarrow> has e AML_HAS_PKG_LENGTH \<Longrightarrow> op + len = k"
  by (auto simp: PkgBounds_def split: if_splits elim!: chk_bind_OkE)

lemma Search_no_assert: "AmlSearchByOpByte m p \<noteq> AssertFailed"
  by (auto simp: AmlSearchByOpByte_def chk_no_assert elim!: chk_bind_AssertE split: if_splits)

lemma term_done_props:
  "term_done n ty p k \<noteq> AssertFailed" "term_done n ty p k = Ok (Inr (t, d, s)) \<Longrightarrow> t = ty \<and> d = p \<and> s = k \<and> k \<le> n"
  by (auto simp: term_done_def split: if_splits)

lemma term_name_props:
  "term_name m p n \<noteq> AssertFailed" "term_name m p n = Ok (Inr (t, d, s)) \<Longrightarrow> d = p \<and> 0 < s \<and> s \<le> n"
  by (auto simp: term_name_def term_done_def NameStringSize_no_assert dest: NameStringSize_pos elim!: chk_bind_OkE chk_bind_AssertE
      split: if_splits sum.splits)

lemma AmlType_ok: "f \<in> {2..8} \<Longrightarrow> \<exists>t. AmlTypeToAcpiType f = Ok t"
  by (auto simp: AmlTypeToAcpiType_def mAmlTypeToAcpiType_def)

text \<open>What the four functions guarantee for an encoding of the table.\<close>

definition loop_good :: "AML_BYTE_ENCODING \<Rightarrow> nat \<Rightarrow> nat \<Rightarrow> nat \<Rightarrow> nat \<Rightarrow> nat \<Rightarrow> (EFI_STATUS + parsed + nat) checked \<Rightarrow> bool" where
  "loop_good e b n i t c r \<longleftrightarrow> r \<noteq> AssertFailed \<and>
     (\<forall>ty d s. r = Ok (Inr (Inl (ty, d, s))) \<longrightarrow> i \<noteq> AML_OP_PARSE_INDEX_GET_SIZE \<and> c \<le> d \<and> 0 < s \<and> d + s \<le> b + n) \<and>
     (\<forall>c'. r = Ok (Inr (Inr c')) \<longrightarrow> c \<le> c' \<and> (t \<le> i \<and> i \<le> MaxIndex e \<longrightarrow> b + n \<le> c') \<and> c' \<le> max c (b + n))"

lemma parser_bounds:
  shows "row_ok e \<Longrightarrow> 1 \<le> t \<Longrightarrow> t \<le> MaxIndex e \<Longrightarrow>
      AmlParseOptionTerm m e p n t \<noteq> AssertFailed \<and>
      (\<forall>ty d s. AmlParseOptionTerm m e p n t = Ok (Inr (ty, d, s)) \<longrightarrow> d = p \<and> 0 < s \<and> s \<le> n)"
    and "row_ok e \<Longrightarrow> 1 \<le> t \<Longrightarrow> loop_good e b n i t c (AmlParseTermLoop m e b n i t c)"
    and "row_ok e \<Longrightarrow> i \<le> MaxIndex e \<or> i = AML_OP_PARSE_INDEX_GET_SIZE \<Longrightarrow>
      AmlParseOptionCommon m e b n i \<noteq> AssertFailed \<and>
      (\<forall>ty d s. AmlParseOptionCommon m e b n i = Ok (Inr (ty, d, s)) \<longrightarrow> b \<le> d \<and> 0 < s \<and> (i \<noteq> 0 \<longrightarrow> d + s \<le> b + n))"
    and "row_ok e \<Longrightarrow> AmlGetObjectSize m e b n \<noteq> AssertFailed \<and> (\<forall>s. AmlGetObjectSize m e b n = Ok s \<longrightarrow> s \<le> n)"
proof (induction m e p n t and m e b n i t c and m e b n i and m e b n
    rule: AmlParseOptionTerm_AmlParseTermLoop_AmlParseOptionCommon_AmlGetObjectSize.induct [case_names Term Loop Common Obj])
  case (Term m e p n t)
  let ?f = "Format e ! (t - 1)"
  have f: "?f \<in> {2..8}" by (rule row_ok_format [OF Term.prems])
  then obtain ty where ty: "AmlTypeToAcpiType ?f = Ok ty" using AmlType_ok by blast
  have o: "AmlGetObjectSize m ch p n \<noteq> AssertFailed"
    if "AmlSearchByOpByte m p = Ok (Some ch)" "\<not> has ch AML_IS_NAME_CHAR" "?f = AML_OBJECT" for ch
    using Term.IH [OF refl ty _ _ _ _ _ _ _ that(1) refl that(2)] search_row [OF that(1)] that(3) by simp
  show ?case
    using f by (subst (1 2) AmlParseOptionTerm.simps)
      (auto simp: Let_def ty [unfolded One_nat_def] Search_no_assert AsciiStrSize_props term_done_props(1) term_name_props(1) o [unfolded One_nat_def]
        elim!: chk_bind_OkE chk_bind_AssertE dest!: term_done_props(2) term_name_props(2) dest: AsciiStrSize_props [THEN conjunct2, rule_format]
        split: if_splits option.splits)
next
  case (Loop m e b n i t c)
  show ?case
  proof (cases "i \<ge> t \<and> t \<le> MaxIndex e \<and> c < b + n")
    case False
    then have "AmlParseTermLoop m e b n i t c = Ok (Inr (Inr c))" by (subst AmlParseTermLoop.simps) auto
    then show ?thesis using False by (auto simp: loop_good_def)
  next
    case True
    note T = Loop.IH(1) [OF True Loop.prems]
    have g: "i \<le> MaxIndex e \<Longrightarrow> i \<noteq> AML_OP_PARSE_INDEX_GET_SIZE"
      using Loop.prems(1) by (auto simp: row_ok_def AML_OP_PARSE_INDEX_GET_SIZE_def)
    show ?thesis
    proof (cases "AmlParseOptionTerm m e c (b + n - c) t")
      case (Ok r)
      show ?thesis
      proof (cases r)
        case (Inl x)
        then have "AmlParseTermLoop m e b n i t c = Ok (Inl EFI_INVALID_PARAMETER)" using True Ok by (subst AmlParseTermLoop.simps) simp
        then show ?thesis by (simp add: loop_good_def)
      next
        case (Inr y)
        then obtain ty d s where y: "r = Inr (ty, d, s)" by (cases y) auto
        have d: "d = c" "0 < s" "s \<le> b + n - c" using T True Ok y by auto
        show ?thesis
        proof (cases "i = t")
          case i: True
          then have "AmlParseTermLoop m e b n i t c = Ok (Inr (Inl (ty, d, s)))" using True Ok y by (subst AmlParseTermLoop.simps) simp
          then show ?thesis using d True g i by (auto simp: loop_good_def)
        next
          case i: False
          have "loop_good e b n i (t + 1) (c + s) (AmlParseTermLoop m e b n i (t + 1) (c + s))"
            using Loop.IH(2) [OF True Ok y refl refl i Loop.prems(1)] by simp
          moreover have "AmlParseTermLoop m e b n i t c = AmlParseTermLoop m e b n i (t + 1) (c + s)"
            using True Ok y i by (subst AmlParseTermLoop.simps) simp
          ultimately show ?thesis using d True i by (auto simp: loop_good_def)
        qed
      qed
    next
      case AssertFailed
      then show ?thesis using T True by simp
    next
      case OutOfBounds
      then have "AmlParseTermLoop m e b n i t c = OutOfBounds" using True by (subst AmlParseTermLoop.simps) simp
      then show ?thesis by (simp add: loop_good_def)
    qed
  qed
next
  case (Common m e b n i)
  have r: "row_ok e" and i: "i \<le> MaxIndex e \<or> i = AML_OP_PARSE_INDEX_GET_SIZE" by (rule Common.prems)+
  show ?case
  proof (cases "has e AML_IS_NAME_CHAR")
    case True
    then show ?thesis using i NameStringSize_pos [of m b] NameStringSize_no_assert [of m b]
      by (subst (1 2) AmlParseOptionCommon.simps) (auto split: if_splits sum.splits elim!: chk_bind_OkE chk_bind_AssertE)
  next
    case False
    have L: "loop_good e b k i 1 c (AmlParseTermLoop m e b k i 1 c)"
      if "rd m b = Ok x" "op = (if x = AML_EXT_OP then 2 else 1)" "i \<noteq> 0" "op \<le> n"
        "PkgBounds m e (b + op) op n = Ok (Inr (off, len, k))" "c = b + op + off" for x op off len k c
      using Common.IH [OF _ False that(1,2,3) _ that(5) refl refl refl] i r that by auto
    show ?thesis
    proof (cases "rd m b")
      case (Ok x)
      define op :: nat where "op = (if x = AML_EXT_OP then 2 else 1)"
      have op: "0 < op" by (simp add: op_def)
      note eq = AmlParseOptionCommon.simps [of m e b n i, unfolded Ok chk_bind.simps Let_def, folded op_def]
      show ?thesis
      proof (cases "i = 0 \<or> n < op")
        case True
        then show ?thesis using False i op by (auto simp: eq)
      next
        case go: False
        note step = False i go eq
        show ?thesis
        proof (cases "PkgBounds m e (b + op) op n")
          case P: (Ok r)
          show ?thesis
          proof (cases r)
            case (Inl s)
            then show ?thesis using step P by simp
          next
            case (Inr y)
            then obtain off len k where y: "y = (off, len, k)" by (cases y) auto
            let ?L = "AmlParseTermLoop m e b k i 1 (b + op + off)"
            have k: "k \<le> n" "op \<le> k" "has e AML_HAS_PKG_LENGTH \<longrightarrow> op + len = k"
              using PkgBounds_le [of m e "b + op" op n off len k] PkgBounds_pkg P Inr y go by auto
            have g: "loop_good e b k i 1 (b + op + off) ?L" using L [OF Ok op_def _ _ _ refl] P Inr y go by simp
            have C: "AmlParseOptionCommon m e b n i = chk_bind ?L (\<lambda>r. case r of
                Inl s \<Rightarrow> Ok (Inl s)
              | Inr (Inl x) \<Rightarrow> Ok (Inr x)
              | Inr (Inr c) \<Rightarrow>
                  if c > b + k then Ok (Inl EFI_INVALID_PARAMETER)
                  else if c = b + k \<and> i \<noteq> AML_OP_PARSE_INDEX_GET_SIZE then Ok (Inl EFI_INVALID_PARAMETER)
                  else if i \<noteq> AML_OP_PARSE_INDEX_GET_SIZE then AssertFailed
                  else Ok (Inr (EFI_ACPI_DATA_TYPE_NONE, b, if has e AML_HAS_PKG_LENGTH then op + len else c - b)))"
              using step P Inr y by simp
            show ?thesis using g k op i go unfolding C
              by (auto simp: loop_good_def elim!: chk_bind_OkE chk_bind_AssertE split: sum.splits if_splits)
          qed
        qed (use step PkgBounds_no_assert in auto)
      qed
    qed (use False i in \<open>simp_all add: AmlParseOptionCommon.simps chk_no_assert\<close>)
  qed
next
  case (Obj m e b n)
  then show ?case
    by (subst (1 2) AmlGetObjectSize.simps) (auto elim!: chk_bind_OkE chk_bind_AssertE split: sum.splits simp: AML_OP_PARSE_INDEX_GET_SIZE_def)
qed

section \<open>Children\<close>

lemma child_buffer:
  "AmlGetChildFromObjectBuffer m h c \<noteq> AssertFailed \<and>
   (\<forall>d. AmlGetChildFromObjectBuffer m h c = Ok (Inr (Some d)) \<longrightarrow> c \<le> d \<and> d < hBuffer h + hSize h)"
proof (induction m h c rule: AmlGetChildFromObjectBuffer.induct)
  case (1 m h c)
  show ?case
  proof (cases "c < hBuffer h + hSize h")
    case False
    then show ?thesis by (subst (1 2) AmlGetChildFromObjectBuffer.simps) simp
  next
    case True
    let ?n = "hBuffer h + hSize h - c"
    have "AmlGetObjectSize m e c ?n \<noteq> AssertFailed" if "AmlSearchByOpByte m c = Ok (Some e)" for e
      using parser_bounds(4) [OF search_row [OF that]] by blast
    then show ?thesis using True 1 [OF True]
      by (subst (1 2) AmlGetChildFromObjectBuffer.simps)
        (auto simp: Search_no_assert elim!: chk_bind_OkE chk_bind_AssertE split: option.splits if_splits, fastforce+)
  qed
qed

lemma handle_common:
  assumes "hEncoding h \<in> set mAmlByteEncoding" "i \<le> MaxIndex (hEncoding h)"
  shows "AmlParseOptionHandleCommon m h i \<noteq> AssertFailed"
    and "AmlParseOptionHandleCommon m h i = Ok (Inr (ty, d, s)) \<Longrightarrow> hBuffer h \<le> d \<and> 0 < s \<and> (i \<noteq> 0 \<longrightarrow> d + s \<le> hBuffer h + hSize h)"
  using parser_bounds(3) [OF rows_ok [OF assms(1)], of i m "hBuffer h" "hSize h"] assms(2) unfolding AmlParseOptionHandleCommon_def by blast+

lemma child_options:
  assumes "hEncoding h \<in> set mAmlByteEncoding" "\<forall>i \<in> set is. 0 < i \<and> i \<le> MaxIndex (hEncoding h)"
  shows "ChildOptionLoop m h x is \<noteq> AssertFailed \<and>
    (\<forall>d. ChildOptionLoop m h x is = Ok (Inr (Some d)) \<longrightarrow> hBuffer x < d \<and> d < hBuffer h + hSize h)"
  using assms(2)
proof (induction "is")
  case Nil
  then show ?case by simp
next
  case (Cons i js)
  have "0 < i" "i \<le> MaxIndex (hEncoding h)" using Cons.prems by simp_all
  note c = this handle_common [OF assms(1) this(2), of m]
  show ?case using Cons c(1,3)
    by (auto elim!: chk_bind_OkE chk_bind_AssertE dest!: c(4) split: sum.splits if_splits)
qed

lemma child_offset:
  assumes "hEncoding h \<in> set mAmlByteEncoding"
  shows "AmlGetOffsetAfterLastOption m h \<noteq> AssertFailed \<and> (\<forall>c. AmlGetOffsetAfterLastOption m h = Ok (Inr c) \<longrightarrow> hBuffer h < c)"
  using handle_common(1) [OF assms order_refl, of m]
  by (auto simp: AmlGetOffsetAfterLastOption_def PkgLength_no_assert elim!: chk_bind_OkE chk_bind_AssertE
      dest!: handle_common(2) [OF assms order_refl] split: sum.splits if_splits)

lemma parse_opcode:
  "AmlParseOptionCommon m e b n 0 = Ok (Inr (ty, d, s)) \<Longrightarrow>
    b < length m \<and> ty = EFI_ACPI_DATA_TYPE_OPCODE \<and> d = b \<and> s = (if m ! b = AML_EXT_OP then 2 else 1)"
  by (auto simp: AmlParseOptionCommon.simps AML_OP_PARSE_INDEX_GET_SIZE_def rd_def Let_def split: if_splits)

text \<open>Objects that are cut off.\<close>

lemma AsciiStrSize_unterminated: "0 \<notin> set (drop p m) \<Longrightarrow> AsciiStrSize m p = OutOfBounds"
proof (induction m p rule: AsciiStrSize.induct [case_names Read])
  case (Read m p)
  show ?case
  proof (cases "p < length m")
    case True
    have "drop p m = m ! p # drop (p + 1) m" using True by (simp add: Cons_nth_drop_Suc)
    then have "m ! p \<noteq> 0" "0 \<notin> set (drop (p + 1) m)" using Read.prems by (metis list.set_intros)+
    then show ?thesis using Read.IH [of "m ! p"] True by (subst AsciiStrSize.simps) (simp add: rd_def)
  next
    case False
    then show ?thesis by (subst AsciiStrSize.simps) (simp add: rd_def)
  qed
qed

lemma string_row:
  assumes "e \<in> set mAmlByteEncoding" "OpCode e = 0x0D"
  shows "e = enc 0x0D 0 1 [AML_STRING, AML_NONE, AML_NONE, AML_NONE, AML_NONE, AML_NONE] 0"
proof -
  have "enc 0x0D 0 1 [AML_STRING, AML_NONE, AML_NONE, AML_NONE, AML_NONE, AML_NONE] 0 \<in> set mAmlByteEncoding" by (simp add: mAmlByteEncoding_def)
  moreover have "SubOpCode e = 0" using table_sub [OF assms(1)] assms(2) by (simp add: AML_EXT_OP_def)
  ultimately show ?thesis using assms by (intro row_key_unique) (simp_all add: enc_def)
qed

lemma pkg_row: "e \<in> set mAmlByteEncoding \<Longrightarrow> has e AML_HAS_PKG_LENGTH \<Longrightarrow> \<not> has e AML_IS_NAME_CHAR"
proof -
  have e: "has (enc c s n f a) x \<longleftrightarrow> and a x \<noteq> 0" for c s n f a x by (simp add: has_def enc_def)
  have "list_all (\<lambda>e. has e AML_HAS_PKG_LENGTH \<longrightarrow> \<not> has e AML_IS_NAME_CHAR) mAmlByteEncoding"
    unfolding mAmlByteEncoding_def list.pred_inject e AML_HAS_PKG_LENGTH_def AML_IS_NAME_CHAR_def by simp
  then show "e \<in> set mAmlByteEncoding \<Longrightarrow> has e AML_HAS_PKG_LENGTH \<Longrightarrow> \<not> has e AML_IS_NAME_CHAR" by (simp add: list_all_iff)
qed

lemma string_cut:
  assumes e: "e \<in> set mAmlByteEncoding" "OpCode e = 0x0D" and m: "drop p m = 0x0D # xs" "0 \<notin> set xs" "xs \<noteq> []" and n: "2 \<le> n"
  shows "AmlGetObjectSize m e p n = OutOfBounds"
proof -
  have r: "rd m p = Ok 0x0D" "drop (p + 1) m = xs" using rd_drop [OF m(1)] by simp_all
  have "AsciiStrSize m (p + 1) = OutOfBounds" by (rule AsciiStrSize_unterminated) (use r m in simp)
  then show ?thesis unfolding string_row [OF e] using r(1) n
    by (simp add: AmlGetObjectSize.simps AmlParseOptionCommon.simps AmlParseTermLoop.simps AmlParseOptionTerm.simps enc_def has_def PkgBounds_def
        AmlTypeToAcpiType_def mAmlTypeToAcpiType_def AML_IS_NAME_CHAR_def AML_HAS_PKG_LENGTH_def AML_EXT_OP_def AML_OP_PARSE_INDEX_GET_SIZE_def)
qed

lemma object_cut:
  assumes e: "e \<in> set mAmlByteEncoding" "has e AML_HAS_PKG_LENGTH" and fits: "pkg_fits k l" and j: "j < k"
    and m: "drop p m = op_bytes e @ take j (pkg_bytes k l)" and n: "length (op_bytes e) \<le> n"
  shows "AmlGetObjectSize m e p n = OutOfBounds"
proof -
  have "rd m p = Ok (OpCode e)" using rd_drop [of p m] m by (auto simp: op_bytes_def split: if_splits)
  moreover have "drop (p + length (op_bytes e)) m = take j (pkg_bytes k l)" using m by (metis append_eq_conv_conj drop_drop add.commute)
  then have "AmlGetPkgLength m (p + length (op_bytes e)) = OutOfBounds" by (rule pkg_cut [OF fits j])
  ultimately show ?thesis using pkg_row [OF e] e(2) n
    by (auto simp: AmlGetObjectSize.simps AmlParseOptionCommon.simps PkgBounds_def op_bytes_def Let_def AML_OP_PARSE_INDEX_GET_SIZE_def split: if_splits)
qed

section \<open>Properties\<close>

text \<open>
  Property C22. For every row of the opcode table and every term index the row has (or
  the size query) no assertion of the parser fails, whatever the bytes are, not even
  the one that the loop over the terms never ends early for an index in range; and
  the data range it reports is not empty and starts in the buffer.  For index 0 it is
  the one or two bytes of the opcode, whatever \<open>MaxBufferSize\<close> is; for every other
  index and for the size query it ends inside the \<open>MaxBufferSize\<close> bytes the caller
  granted.
\<close>

theorem AmlParseOptionCommon_in_bounds:
  assumes "e \<in> set mAmlByteEncoding" and "Index \<le> MaxIndex e \<or> Index = AML_OP_PARSE_INDEX_GET_SIZE"
  shows "AmlParseOptionCommon m e Buffer MaxBufferSize Index \<noteq> AssertFailed \<and>
    (\<forall>ty d s. AmlParseOptionCommon m e Buffer MaxBufferSize Index = Ok (Inr (ty, d, s)) \<longrightarrow>
       Buffer \<le> d \<and> 0 < s \<and>
       (if Index = 0 then Buffer < length m \<and> ty = EFI_ACPI_DATA_TYPE_OPCODE \<and> d = Buffer \<and> s = (if m ! Buffer = AML_EXT_OP then 2 else 1)
        else d + s \<le> Buffer + MaxBufferSize))"
  using parser_bounds(3) [OF rows_ok [OF assms(1)] assms(2)] parse_opcode [of m e Buffer MaxBufferSize] by auto

theorem AmlParseOptionCommon_in_bounds_witness:
  "AmlParseOptionCommon [0x0A, 0x07] (mAmlByteEncoding ! 4) 0 2 1 \<noteq> AssertFailed"
  using AmlParseOptionCommon_in_bounds [of "mAmlByteEncoding ! 4" 1 "[0x0A, 0x07]" 0 2]
  by (simp add: mAmlByteEncoding_def enc_def)

text \<open>
  \<open>AmlGetPkgLength\<close> inverts the package length encoding of the ACPI
  specification: for each of the four byte counts, and every length that fits, it
  returns the byte count and the length.
\<close>

theorem AmlGetPkgLength_roundtrip:
  assumes "pkg_fits k n" and "drop p m = pkg_bytes k n @ t"
  shows "AmlGetPkgLength m p = Ok (k, n)"
  by (rule pkg_decode [OF assms])

theorem AmlGetPkgLength_roundtrip_witness: "AmlGetPkgLength (pkg_bytes 3 74565 @ [0xFF]) 0 = Ok (3, 74565)"
  using AmlGetPkgLength_roundtrip [of 3 74565 0 "pkg_bytes 3 74565 @ [0xFF]" "[0xFF]"] by (simp add: pkg_fits_def)

text \<open>
  The opcode table is unambiguous and the lookup complete: at the opcode
  bytes of any row, extended or not, \<open>AmlSearchByOpByte\<close> returns exactly that row.
\<close>

theorem AmlSearchByOpByte_finds_row:
  assumes "e \<in> set mAmlByteEncoding" and "drop p m = op_bytes e @ t"
  shows "AmlSearchByOpByte m p = Ok (Some e)"
  by (rule search_op [OF assms])

theorem AmlSearchByOpByte_finds_row_witness:
  "AmlSearchByOpByte [0x00, 0x10, 0x06] 1 = Ok (Some (enc 0x10 0x00 1 [AML_NAME, AML_NONE, AML_NONE, AML_NONE, AML_NONE, AML_NONE] 0x10005))"
proof -
  have "enc 0x10 0x00 1 [AML_NAME, AML_NONE, AML_NONE, AML_NONE, AML_NONE, AML_NONE] 0x10005 \<in> set mAmlByteEncoding"
    unfolding mAmlByteEncoding_def by simp
  from AmlSearchByOpByte_finds_row [OF this, of 1 "[0x00, 0x10, 0x06]" "[0x06]"] show ?thesis
    by (simp add: op_bytes_def enc_def AML_EXT_OP_def)
qed

text \<open>
  Property C33. Enumerating the children of a table object makes progress and stays
  inside: \<open>AmlGetChildFromNonRoot\<close> never fails an assertion, and a child it returns
  starts strictly after the previous child (or after the parent's own start when
  there is none) and before the end of the parent, so the enumeration terminates.
\<close>

theorem AmlGetChildFromNonRoot_progress:
  assumes "hEncoding parent \<in> set mAmlByteEncoding" and "\<forall>y. h = Some y \<longrightarrow> 0 < hSize y"
  shows "AmlGetChildFromNonRoot m parent h \<noteq> AssertFailed \<and>
    (\<forall>d. AmlGetChildFromNonRoot m parent h = Ok (Inr (Some d)) \<longrightarrow>
       hBuffer (case h of None \<Rightarrow> parent | Some y \<Rightarrow> y) < d \<and> d < hBuffer parent + hSize parent)"
proof -
  define x where "x = (case h of None \<Rightarrow> parent | Some y \<Rightarrow> y)"
  have x: "hSize x = 0 \<Longrightarrow> x = parent" using assms(2) by (auto simp: x_def split: option.splits)
  have opts: "AmlGetChildFromOptionList m parent x \<noteq> AssertFailed \<and>
      (\<forall>d. AmlGetChildFromOptionList m parent x = Ok (Inr (Some d)) \<longrightarrow> hBuffer x < d \<and> d < hBuffer parent + hSize parent)"
    unfolding AmlGetChildFromOptionList_def by (rule child_options [OF assms(1)]) auto
  have list: "AmlGetChildFromObjectChildList m parent x \<noteq> AssertFailed \<and>
      (\<forall>d. AmlGetChildFromObjectChildList m parent x = Ok (Inr (Some d)) \<longrightarrow> hBuffer x < d \<and> d < hBuffer parent + hSize parent)"
    using x child_offset [OF assms(1), of m] child_buffer [of m parent]
    by (auto simp: AmlGetChildFromObjectChildList_def elim!: chk_bind_OkE chk_bind_AssertE split: if_splits sum.splits, fastforce+)
  show ?thesis using opts list unfolding AmlGetChildFromNonRoot_def Let_def x_def [symmetric]
    by (auto elim!: chk_bind_OkE chk_bind_AssertE split: sum.splits option.splits)
qed

theorem AmlGetChildFromNonRoot_progress_witness:
  "AmlGetChildFromNonRoot [0xA3] \<lparr>hBuffer = 0, hSize = 1, hEncoding = mAmlByteEncoding ! 0\<rparr> None \<noteq> AssertFailed"
  using AmlGetChildFromNonRoot_progress [of "\<lparr>hBuffer = 0, hSize = 1, hEncoding = mAmlByteEncoding ! 0\<rparr>" None "[0xA3]"]
  by (simp add: mAmlByteEncoding_def)

text \<open>
  Property C39. The parser does not confine its reads to the granted bytes.  In a table
  that ends with the granted bytes, the size of every string object that has at least
  one character and no terminator, and of every object with a package length that is
  cut off before or inside the encoding of that length, is computed by reading past
  the end of the table.
\<close>

theorem AmlGetObjectSize_reads_past_end:
  assumes "e \<in> set mAmlByteEncoding"
    and "OpCode e = 0x0D \<and> xs \<noteq> [] \<and> 0 \<notin> set xs \<or> has e AML_HAS_PKG_LENGTH \<and> (\<exists>k l j. pkg_fits k l \<and> j < k \<and> xs = take j (pkg_bytes k l))"
  shows "AmlGetObjectSize (t @ op_bytes e @ xs) e (length t) (length (op_bytes e @ xs)) = OutOfBounds"
  using assms(2)
proof (elim disjE conjE exE)
  assume s: "OpCode e = 0x0D" "xs \<noteq> []" "0 \<notin> set xs"
  have "2 \<le> length (op_bytes e @ xs)" using s(2) by (cases xs) (simp_all add: op_bytes_def)
  then show ?thesis using s by (intro string_cut [OF assms(1) s(1) _ s(3,2)]) (simp_all add: op_bytes_def AML_EXT_OP_def)
next
  fix k l j assume p: "has e AML_HAS_PKG_LENGTH" "pkg_fits k l" "j < k" "xs = take j (pkg_bytes k l)"
  show ?thesis by (rule object_cut [OF assms(1) p(1-3)]) (simp_all add: p(4))
qed

theorem AmlGetObjectSize_reads_past_end_witness:
  "AmlGetObjectSize [0x00, 0x0D, 0x41] (enc 0x0D 0x00 1 [AML_STRING, AML_NONE, AML_NONE, AML_NONE, AML_NONE, AML_NONE] 0x0) 1 2 = OutOfBounds \<and>
   AmlGetObjectSize [0x10] (enc 0x10 0x00 1 [AML_NAME, AML_NONE, AML_NONE, AML_NONE, AML_NONE, AML_NONE] 0x10005) 0 1 = OutOfBounds"
proof -
  define es ep where "es = enc 0x0D 0x00 1 [AML_STRING, AML_NONE, AML_NONE, AML_NONE, AML_NONE, AML_NONE] 0x0"
    and "ep = enc 0x10 0x00 1 [AML_NAME, AML_NONE, AML_NONE, AML_NONE, AML_NONE, AML_NONE] 0x10005"
  have t: "es \<in> set mAmlByteEncoding" "ep \<in> set mAmlByteEncoding" by (simp_all add: mAmlByteEncoding_def es_def ep_def)
  have h: "has ep AML_HAS_PKG_LENGTH" "op_bytes es = [0x0D]" "op_bytes ep = [0x10]" "OpCode es = 0x0D"
    by (simp_all add: has_def enc_def AML_HAS_PKG_LENGTH_def op_bytes_def AML_EXT_OP_def es_def ep_def)
  have "pkg_fits 1 0 \<and> (0 :: nat) < 1 \<and> [] = take 0 (pkg_bytes 1 0)" by (simp add: pkg_fits_def)
  then have "AmlGetObjectSize ([] @ op_bytes ep @ []) ep (length ([] :: u8 list)) (length (op_bytes ep @ [])) = OutOfBounds"
    using AmlGetObjectSize_reads_past_end [OF t(2), of "[]" "[]"] h(1) by blast
  moreover have "AmlGetObjectSize ([0x00] @ op_bytes es @ [0x41]) es (length [0x00 :: u8]) (length (op_bytes es @ [0x41])) = OutOfBounds"
    by (rule AmlGetObjectSize_reads_past_end [OF t(1)]) (simp add: h)
  ultimately show ?thesis unfolding es_def [symmetric] ep_def [symmetric] by (simp add: h numeral_2_eq_2)
qed

end
