(* ===== verification/AmlTerms.thy ===== *)
theory AmlTerms
  imports Aml
begin

text \<open>
  What the AML parser means: a grammar of well-formed AML terms over the opcode table
  (integers, strings, names and nested objects with their package lengths), its
  encoding as bytes, and the proof that the parser of \<open>AmlOption.c\<close> measures every
  encoded object exactly and finds each of its terms.
\<close>

section \<open>Well-formed AML\<close>

text \<open>
  An AML term: a fixed-size integer, a string, a name, or an object with its
  encoding row, the number of bytes of its package length, its terms and the bytes
  that follow the terms inside the package.
\<close>

datatype aml_term =
    TInt "u8 list"
  | TStr "u8 list"
  | TName "nat option" "u8 list list"
  | TObj AML_BYTE_ENCODING nat "aml_term list" "u8 list"

fun term_bytes :: "aml_term \<Rightarrow> u8 list" and terms_bytes :: "aml_term list \<Rightarrow> u8 list" where
  "term_bytes (TInt bs) = bs"
| "term_bytes (TStr s) = s @ [0]"
| "term_bytes (TName r ss) = aml_name r ss"
| "term_bytes (TObj e k args body) =
    (let t = terms_bytes args @ body
     in op_bytes e @ (if has e AML_HAS_PKG_LENGTH then pkg_bytes k (k + length t) else []) @ t)"
| "terms_bytes [] = []"
| "terms_bytes (t # ts) = term_bytes t @ terms_bytes ts"

text \<open>Well-formed as a term of a given format of the opcode table.\<close>

fun wf_term :: "nat \<Rightarrow> aml_term \<Rightarrow> bool" and wf_terms :: "nat list \<Rightarrow> aml_term list \<Rightarrow> bool" where
  "wf_term f (TInt bs) \<longleftrightarrow> f \<in> {2, 3, 4, 5} \<and> length bs = 2 ^ (f - 2)"
| "wf_term f (TStr s) \<longleftrightarrow> f = AML_STRING \<and> 0 \<notin> set s"
| "wf_term f (TName r ss) \<longleftrightarrow> f \<in> {6, 8} \<and> list_all asl_seg ss \<and> ss \<noteq> [] \<and> length ss \<le> 255"
| "wf_term f (TObj e k args body) \<longleftrightarrow>
    f = AML_OBJECT \<and> e \<in> set mAmlByteEncoding \<and> \<not> has e AML_IS_NAME_CHAR \<and>
    wf_terms (take (MaxIndex e) (Format e)) args \<and>
    (if has e AML_HAS_PKG_LENGTH then pkg_fits k (k + length (terms_bytes args @ body)) else body = [])"
| "wf_terms [] ts \<longleftrightarrow> ts = []"
| "wf_terms (f # fs) ts \<longleftrightarrow> (case ts of [] \<Rightarrow> False | t # us \<Rightarrow> wf_term f t \<and> wf_terms fs us)"


subsection \<open>Measuring terms\<close>

lemma AsciiStrSize_exact: "drop p m = s @ 0 # t \<Longrightarrow> 0 \<notin> set s \<Longrightarrow> AsciiStrSize m p = Ok (length s + 1)"
proof (induction s arbitrary: p)
  case Nil
  then show ?case using rd_drop [of p m 0 t] by (subst AsciiStrSize.simps) simp
next
  case (Cons c s)
  then show ?case using rd_drop [of p m c "s @ 0 # t"] by (subst AsciiStrSize.simps) simp
qed

lemma name_char_row:
  assumes "c \<in> {AML_DUAL_NAME_PREFIX, AML_MULTI_NAME_PREFIX, AML_ROOT_CHAR, AML_PARENT_PREFIX_CHAR} \<or> AmlIsLeadName c" "drop p m = c # t"
  shows "\<exists>e. AmlSearchByOpByte m p = Ok (Some e) \<and> has e AML_IS_NAME_CHAR"
proof -
  let ?e = "enc c 0 0 [0, 0, 0, 0, 0, 0] 2"
  have "c \<in> {0x2E, 0x2F, 0x5C, 0x5E, 0x5F} \<union> set (map of_nat [0x41..<0x5B])"
  proof (cases "0x41 \<le> c \<and> c \<le> 0x5A")
    case True
    then have "c = of_nat (unat c)" "unat c \<in> {0x41..<0x5B}" by (auto simp: word_le_nat_alt)
    then show ?thesis by (metis UnI2 atLeastLessThan_upt imageI list.set_map)
  next
    case False
    then show ?thesis using assms(1) by (auto simp: AmlIsLeadName_def aml_chars)
  qed
  then have "?e \<in> set mAmlByteEncoding" and "c \<noteq> AML_EXT_OP" using name_rows by (auto simp: AML_EXT_OP_def)
  then have "AmlSearchByOpByte m p = Ok (Some ?e)"
    using assms(2) by (intro search_op [where t = t]) (auto simp: op_bytes_def enc_def)
  then show ?thesis by (auto simp: has_def enc_def AML_IS_NAME_CHAR_def)
qed

lemma aml_name_head:
  assumes "list_all asl_seg ss" "ss \<noteq> []"
  shows "\<exists>c t. aml_name r ss = c # t \<and> (c \<in> {AML_DUAL_NAME_PREFIX, AML_MULTI_NAME_PREFIX, AML_ROOT_CHAR, AML_PARENT_PREFIX_CHAR} \<or> AmlIsLeadName c)"
proof -
  obtain s ss' where s: "ss = s # ss'" "asl_seg s" using assms by (cases ss) auto
  obtain a u where "aml_pad s = a # u" "AmlIsLeadName a" by (rule aml_pad_head [OF s(2)])
  moreover have "x = AML_PARENT_PREFIX_CHAR" if "replicate n AML_PARENT_PREFIX_CHAR = x # xs" for n x xs
    using that by (cases n) auto
  ultimately show ?thesis using s
    by (cases "asl_prefix r")
      (auto simp: aml_name_def aml_seg_prefix_def asl_prefix_def split: option.splits if_splits)
qed

fun term_type :: "aml_term \<Rightarrow> EFI_ACPI_DATA_TYPE" where
  "term_type (TInt bs) = EFI_ACPI_DATA_TYPE_UINT"
| "term_type (TStr s) = EFI_ACPI_DATA_TYPE_STRING"
| "term_type (TName r ss) = EFI_ACPI_DATA_TYPE_NAME_STRING"
| "term_type (TObj e k args body) = EFI_ACPI_DATA_TYPE_CHILD"

definition measured :: "u8 list \<Rightarrow> aml_term \<Rightarrow> bool" where
  "measured m t \<longleftrightarrow> (\<forall>e p n i rest. 1 \<le> i \<longrightarrow> wf_term (Format e ! (i - 1)) t \<longrightarrow> drop p m = term_bytes t @ rest \<longrightarrow> length (term_bytes t) \<le> n \<longrightarrow>
     AmlParseOptionTerm m e p n i = Ok (Inr (term_type t, p, length (term_bytes t))))"

lemma op_bytes_nonempty: "op_bytes e \<noteq> []"
  by (simp add: op_bytes_def)

lemma term_bytes_nonempty: "wf_term f t \<Longrightarrow> term_bytes t \<noteq> []"
proof (cases t)
  case (TName r ss)
  then show "wf_term f t \<Longrightarrow> ?thesis" using aml_name_head [of ss r] by auto
qed (auto simp: Let_def op_bytes_nonempty)

lemma length_wf_terms: "wf_terms fs ts \<Longrightarrow> length ts = length fs"
  by (induction fs arbitrary: ts) (auto split: list.splits)

lemma wf_terms_nth: "wf_terms fs ts \<Longrightarrow> i < length ts \<Longrightarrow> wf_term (fs ! i) (ts ! i)"
  by (induction fs arbitrary: ts i) (auto split: list.splits simp: nth_Cons')

lemma drop_append_at: "drop p m = xs @ ys \<Longrightarrow> drop (p + length xs) m = ys"
  by (metis append_eq_conv_conj drop_drop add.commute)

lemma terms_bytes_append: "terms_bytes (xs @ ys) = terms_bytes xs @ terms_bytes ys"
  by (induction xs) simp_all

text \<open>The loop steps over the terms before the one asked for.\<close>

lemma loop_skip:
  assumes "\<And>v. v \<in> set ts \<Longrightarrow> measured m v" "wf_terms (take (MaxIndex e) (Format e)) ts" "MaxIndex e \<le> length (Format e)"
    and "drop c m = terms_bytes ts @ rest" "c + length (terms_bytes ts) \<le> b + n" "k \<le> length ts" "k < i"
  shows "AmlParseTermLoop m e b n i 1 c = AmlParseTermLoop m e b n i (1 + k) (c + length (terms_bytes (take k ts)))"
  using assms(6,7)
proof (induction k)
  case 0
  then show ?case by simp
next
  case (Suc k)
  let ?c = "c + length (terms_bytes (take k ts))" and ?v = "ts ! k"
  have len: "length ts = MaxIndex e" using length_wf_terms [OF assms(2)] assms(3) by simp
  have k: "k < length ts" using Suc.prems by simp
  have split: "ts = take k ts @ ?v # drop (Suc k) ts" using k by (simp add: id_take_nth_drop)
  have wf: "wf_term (Format e ! k) ?v" using wf_terms_nth [OF assms(2) k] len k by simp
  have bytes: "terms_bytes ts = terms_bytes (take k ts) @ term_bytes ?v @ terms_bytes (drop (Suc k) ts)"
    by (subst split) (simp add: terms_bytes_append)
  have d: "drop ?c m = term_bytes ?v @ terms_bytes (drop (Suc k) ts) @ rest"
    using drop_append_at [of c m "terms_bytes (take k ts)"] assms(4) bytes by simp
  have fit: "?c + length (term_bytes ?v) \<le> b + n" using assms(5) bytes by simp
  have "AmlParseOptionTerm m e ?c (b + n - ?c) (1 + k) = Ok (Inr (term_type ?v, ?c, length (term_bytes ?v)))"
    using assms(1) [of ?v] k wf d fit unfolding measured_def by simp
  moreover have "?c < b + n" using fit term_bytes_nonempty [OF wf] by (cases "term_bytes ?v") auto
  moreover have "1 + k \<noteq> i" "1 + k \<le> i" "1 + k \<le> MaxIndex e" using Suc.prems k len by auto
  ultimately have "AmlParseTermLoop m e b n i (1 + k) ?c = AmlParseTermLoop m e b n i (1 + k + 1) (?c + length (term_bytes ?v))"
    by (subst AmlParseTermLoop.simps) simp
  moreover have "terms_bytes (take (Suc k) ts) = terms_bytes (take k ts) @ term_bytes ?v"
    using k by (simp add: take_Suc_conv_app_nth terms_bytes_append)
  ultimately show ?case using Suc by (simp add: add.assoc)
qed

text \<open>The opcode and package length of a well-formed object.\<close>

lemma object_start:
  assumes wf: "wf_term AML_OBJECT (TObj e k args body)" and d: "drop p m = term_bytes (TObj e k args body) @ rest"
    and n: "length (term_bytes (TObj e k args body)) \<le> n"
  defines "op \<equiv> length (op_bytes e)" and "T \<equiv> length (term_bytes (TObj e k args body))"
  shows "rd m p = Ok (OpCode e)" "op = (if OpCode e = AML_EXT_OP then 2 else 1)" "op \<le> n"
    "PkgBounds m e (p + op) op n = Ok (Inr (if has e AML_HAS_PKG_LENGTH then (k, T - op, T) else (0, 0, n)))"
    "drop (p + op + (if has e AML_HAS_PKG_LENGTH then k else 0)) m = terms_bytes args @ body @ rest"
    "T = op + (if has e AML_HAS_PKG_LENGTH then k else 0) + length (terms_bytes args) + length body"
proof -
  let ?t = "terms_bytes args @ body"
  show "rd m p = Ok (OpCode e)" using d rd_drop [of p m "OpCode e"] by (auto simp: op_bytes_def Let_def split: if_splits)
  show op: "op = (if OpCode e = AML_EXT_OP then 2 else 1)" by (simp add: op_def op_bytes_def)
  show "op \<le> n" using n by (simp add: op_def Let_def split: if_splits)
  have d1: "drop (p + op) m = (if has e AML_HAS_PKG_LENGTH then pkg_bytes k (k + length ?t) else []) @ ?t @ rest"
    using drop_append_at [of p m "op_bytes e"] d by (simp add: op_def Let_def)
  show "drop (p + op + (if has e AML_HAS_PKG_LENGTH then k else 0)) m = terms_bytes args @ body @ rest"
    using drop_append_at [of "p + op" m "pkg_bytes k (k + length ?t)"] d1 wf by (auto simp: length_pkg_bytes split: if_splits)
  show T: "T = op + (if has e AML_HAS_PKG_LENGTH then k else 0) + length (terms_bytes args) + length body"
    using wf by (auto simp: T_def op_def Let_def length_pkg_bytes split: if_splits)
  show "PkgBounds m e (p + op) op n = Ok (Inr (if has e AML_HAS_PKG_LENGTH then (k, T - op, T) else (0, 0, n)))"
    using pkg_decode [of k "k + length ?t" "p + op" m "?t @ rest"] d1 wf T n by (auto simp: PkgBounds_def T_def split: if_splits)
qed

text \<open>Parsing inside a well-formed object, up to the loop over its terms.\<close>

lemma object_common:
  assumes wf: "wf_term AML_OBJECT (TObj e k args body)" and d: "drop p m = term_bytes (TObj e k args body) @ rest"
    and n: "length (term_bytes (TObj e k args body)) \<le> n" and i: "i \<noteq> 0" "i \<le> MaxIndex e \<or> i = AML_OP_PARSE_INDEX_GET_SIZE"
    and args: "\<And>v. v \<in> set args \<Longrightarrow> measured m v"
  defines "c \<equiv> p + length (op_bytes e) + (if has e AML_HAS_PKG_LENGTH then k else 0)"
  shows "i = AML_OP_PARSE_INDEX_GET_SIZE \<Longrightarrow>
      AmlParseOptionCommon m e p n i = Ok (Inr (EFI_ACPI_DATA_TYPE_NONE, p, length (term_bytes (TObj e k args body))))"
    and "i \<le> MaxIndex e \<Longrightarrow> AmlParseOptionCommon m e p n i =
      Ok (Inr (term_type (args ! (i - 1)), c + length (terms_bytes (take (i - 1) args)), length (term_bytes (args ! (i - 1)))))"
proof -
  let ?pk = "has e AML_HAS_PKG_LENGTH" and ?op = "length (op_bytes e)"
  define T where "T = length (term_bytes (TObj e k args body))"
  define M where "M = (if ?pk then T else n)"
  note st = object_start [OF wf d n, folded T_def]
  have e: "row_ok e" using wf rows_ok by simp
  have ml: "MaxIndex e \<le> length (Format e)" "MaxIndex e \<le> 6" using e by (simp_all add: row_ok_def)
  have wfa: "wf_terms (take (MaxIndex e) (Format e)) args" using wf by simp
  have len: "length args = MaxIndex e" using length_wf_terms [OF wfa] ml by simp
  have M: "c + length (terms_bytes args) \<le> p + M" "M \<le> n" using st(6) n wf by (auto simp: c_def M_def T_def)
  have dc: "drop c m = terms_bytes args @ body @ rest" using st(5) by (simp add: c_def)
  note skip = loop_skip [OF args wfa ml(1) dc M(1)]
  note eq = AmlParseOptionCommon.simps [of m e p n i, unfolded st(1) chk_bind.simps Let_def, folded st(2)]
  have TL: "?op + (T - ?op) = T" using st(6) by simp
  have C: "AmlParseOptionCommon m e p n i = chk_bind (AmlParseTermLoop m e p M i 1 c) (\<lambda>r. case r of
                    Inl s \<Rightarrow> Ok (Inl s)
                  | Inr (Inl x) \<Rightarrow> Ok (Inr x)
                  | Inr (Inr CurrentBuffer) \<Rightarrow>
                      if CurrentBuffer > p + M then Ok (Inl EFI_INVALID_PARAMETER)
                      else if CurrentBuffer = p + M \<and> i \<noteq> AML_OP_PARSE_INDEX_GET_SIZE then Ok (Inl EFI_INVALID_PARAMETER)
                      else if i \<noteq> AML_OP_PARSE_INDEX_GET_SIZE then AssertFailed
                      else Ok (Inr (EFI_ACPI_DATA_TYPE_NONE, p, if ?pk then T else CurrentBuffer - p)))"
    using wf i st(3,4) TL by (cases ?pk) (simp_all add: eq M_def c_def cong: if_cong sum.case_cong)
  {
    assume "i = AML_OP_PARSE_INDEX_GET_SIZE"
    moreover from this have "AmlParseTermLoop m e p M i 1 c = AmlParseTermLoop m e p M i (1 + MaxIndex e) (c + length (terms_bytes args))"
      using skip [of "MaxIndex e" i] len ml(2) by (simp add: AML_OP_PARSE_INDEX_GET_SIZE_def)
    moreover have "\<dots> = Ok (Inr (Inr (c + length (terms_bytes args))))" by (subst AmlParseTermLoop.simps) simp
    moreover have "\<not> ?pk \<Longrightarrow> c + length (terms_bytes args) - p = T" using st(6) wf by (simp add: c_def)
    ultimately show "AmlParseOptionCommon m e p n i = Ok (Inr (EFI_ACPI_DATA_TYPE_NONE, p, T))"
      unfolding C using M(1) by simp
  }
  {
    assume im: "i \<le> MaxIndex e"
    let ?c = "c + length (terms_bytes (take (i - 1) args))" and ?v = "args ! (i - 1)"
    have j: "i - 1 < length args" using im i(1) len by simp
    have wfv: "wf_term (Format e ! (i - 1)) ?v" using wf_terms_nth [OF wfa j] len j by simp
    have split: "terms_bytes args = terms_bytes (take (i - 1) args) @ term_bytes ?v @ terms_bytes (drop (Suc (i - 1)) args)"
      by (subst id_take_nth_drop [OF j]) (simp add: terms_bytes_append)
    have dv: "drop ?c m = term_bytes ?v @ terms_bytes (drop (Suc (i - 1)) args) @ body @ rest"
      using drop_append_at [of c m "terms_bytes (take (i - 1) args)"] dc split by simp
    have fit: "?c + length (term_bytes ?v) \<le> p + M" using M(1) split by simp
    have "AmlParseOptionTerm m e ?c (p + M - ?c) i = Ok (Inr (term_type ?v, ?c, length (term_bytes ?v)))"
      using args [of ?v] j wfv dv fit i(1) unfolding measured_def by simp
    moreover have "?c < p + M" using fit term_bytes_nonempty [OF wfv] by (cases "term_bytes ?v") auto
    ultimately have "AmlParseTermLoop m e p M i i ?c = Ok (Inr (Inl (term_type ?v, ?c, length (term_bytes ?v))))"
      using im by (subst AmlParseTermLoop.simps) simp
    moreover have "AmlParseTermLoop m e p M i 1 c = AmlParseTermLoop m e p M i i ?c" using skip [of "i - 1" i] j i(1) by simp
    ultimately show "AmlParseOptionCommon m e p n i = Ok (Inr (term_type ?v, ?c, length (term_bytes ?v)))"
      unfolding C by simp
  }
qed

lemma term_measured: "measured m t"
proof (induction t)
  case (TInt bs)
  then show ?case unfolding measured_def
    by (auto simp: AmlParseOptionTerm.simps Let_def AmlTypeToAcpiType_def mAmlTypeToAcpiType_def term_done_def)
next
  case (TStr s)
  then show ?case unfolding measured_def
    by (auto simp: AmlParseOptionTerm.simps Let_def AmlTypeToAcpiType_def mAmlTypeToAcpiType_def term_done_def AsciiStrSize_exact)
next
  case (TName r ss)
  {
    fix e :: AML_BYTE_ENCODING and p n i rest
    assume a: "wf_term (Format e ! (i - 1)) (TName r ss)" "drop p m = aml_name r ss @ rest" "length (aml_name r ss) \<le> n"
    then have "AmlGetNameStringSize m p = Ok (Inr (length (aml_name r ss)))"
      by (intro AmlGetNameStringSize_name [where t = rest]) (auto simp: list_all_iff)
    then have N: "term_name m p n = Ok (Inr (EFI_ACPI_DATA_TYPE_NAME_STRING, p, length (aml_name r ss)))"
      using a(3) by (simp add: term_name_def term_done_def)
    obtain c t where "aml_name r ss = c # t" "c \<in> {AML_DUAL_NAME_PREFIX, AML_MULTI_NAME_PREFIX, AML_ROOT_CHAR, AML_PARENT_PREFIX_CHAR} \<or> AmlIsLeadName c"
      using aml_name_head [of ss r] a(1) by auto
    then obtain x where "AmlSearchByOpByte m p = Ok (Some x)" "has x AML_IS_NAME_CHAR"
      using name_char_row [of c p m "t @ rest"] a(2) by auto
    then have "AmlParseOptionTerm m e p n i = Ok (Inr (EFI_ACPI_DATA_TYPE_NAME_STRING, p, length (aml_name r ss)))"
      using a(1) N by (auto simp: AmlParseOptionTerm.simps Let_def AmlTypeToAcpiType_def mAmlTypeToAcpiType_def)
  }
  then show ?case unfolding measured_def by simp
next
  case (TObj x k args body)
  {
    fix e :: AML_BYTE_ENCODING and p n i rest
    let ?b = "term_bytes (TObj x k args body)"
    assume a: "wf_term (Format e ! (i - 1)) (TObj x k args body)" "drop p m = ?b @ rest" "length ?b \<le> n"
    then have f: "Format e ! (i - 1) = AML_OBJECT" and w: "wf_term AML_OBJECT (TObj x k args body)" by (simp_all del: term_bytes.simps split: if_splits)
    have "AmlParseOptionCommon m x p n AML_OP_PARSE_INDEX_GET_SIZE = Ok (Inr (EFI_ACPI_DATA_TYPE_NONE, p, length ?b))"
      by (rule object_common(1) [OF w a(2,3)]) (use TObj in \<open>auto simp: AML_OP_PARSE_INDEX_GET_SIZE_def\<close>)
    then have "AmlGetObjectSize m x p n = Ok (length ?b)" by (simp add: AmlGetObjectSize.simps)
    moreover have "AmlSearchByOpByte m p = Ok (Some x)"
      using a(1,2) by (intro search_op) (auto simp: Let_def)
    moreover have "length ?b \<noteq> 0" using term_bytes_nonempty [OF a(1)] by simp
    ultimately have "AmlParseOptionTerm m e p n i = Ok (Inr (EFI_ACPI_DATA_TYPE_CHILD, p, length ?b))"
      using a(3) f w by (simp add: AmlParseOptionTerm.simps Let_def AmlTypeToAcpiType_def mAmlTypeToAcpiType_def term_done_def del: term_bytes.simps)
  }
  then show ?case unfolding measured_def term_type.simps by blast
qed

section \<open>Properties\<close>

text \<open>
  Property C9. The parser measures AML correctly: for every well-formed object, with
  terms nested to any depth, encoded anywhere in a buffer with anything behind it,
  \<open>AmlGetObjectSize\<close> returns exactly the number of bytes of its encoding whenever
  that many bytes are granted.
\<close>

theorem AmlGetObjectSize_roundtrip:
  assumes "wf_term AML_OBJECT (TObj e k args body)" and "drop p m = term_bytes (TObj e k args body) @ rest"
    and "length (term_bytes (TObj e k args body)) \<le> MaxBufferSize"
  shows "AmlGetObjectSize m e p MaxBufferSize = Ok (length (term_bytes (TObj e k args body)))"
proof -
  have "AmlParseOptionCommon m e p MaxBufferSize AML_OP_PARSE_INDEX_GET_SIZE =
      Ok (Inr (EFI_ACPI_DATA_TYPE_NONE, p, length (term_bytes (TObj e k args body))))"
    by (rule object_common(1) [OF assms]) (auto simp: AML_OP_PARSE_INDEX_GET_SIZE_def term_measured)
  then show ?thesis by (simp add: AmlGetObjectSize.simps)
qed

definition scope_row :: AML_BYTE_ENCODING where
  "scope_row = enc 0x10 0x00 1 [AML_NAME, AML_NONE, AML_NONE, AML_NONE, AML_NONE, AML_NONE] 0x10005"

text \<open>\<open>Scope (\_SB_) { Noop }\<close>\<close>

definition scope_obj :: aml_term where
  "scope_obj = TObj scope_row 1 [TName None [[0x5F, 0x53, 0x42]]] [0xA3]"

lemma scope_obj_ok:
  "wf_term AML_OBJECT scope_obj" "term_bytes scope_obj = [0x10, 0x07, 0x5C, 0x5F, 0x53, 0x42, 0x5F, 0xA3]"
proof -
  have r: "scope_row \<in> set mAmlByteEncoding" unfolding mAmlByteEncoding_def scope_row_def by simp
  have n: "aml_name None [[0x5F, 0x53, 0x42]] = [0x5C, 0x5F, 0x53, 0x42, 0x5F]"
    by (simp add: aml_name_def asl_prefix_def aml_seg_prefix_def aml_pad_def upcase_def aml_chars)
  have s: "asl_seg [0x5F, 0x53, 0x42]" by (simp add: asl_seg_def AmlIsAslName_def AmlIsAslLeadName_def AmlIsLeadName_def)
  show "wf_term AML_OBJECT scope_obj" using r n s
    by (simp add: scope_obj_def pkg_fits_def) (simp add: scope_row_def enc_def has_def AML_IS_NAME_CHAR_def AML_HAS_PKG_LENGTH_def)
  show "term_bytes scope_obj = [0x10, 0x07, 0x5C, 0x5F, 0x53, 0x42, 0x5F, 0xA3]"
    using n by (simp add: scope_obj_def scope_row_def enc_def has_def AML_HAS_PKG_LENGTH_def op_bytes_def AML_EXT_OP_def pkg_bytes_def)
qed

theorem AmlGetObjectSize_roundtrip_witness:
  "AmlGetObjectSize [0x10, 0x07, 0x5C, 0x5F, 0x53, 0x42, 0x5F, 0xA3, 0x00] scope_row 0 9 = Ok 8"
  using AmlGetObjectSize_roundtrip [OF scope_obj_ok(1) [unfolded scope_obj_def],
      of 0 "[0x10, 0x07, 0x5C, 0x5F, 0x53, 0x42, 0x5F, 0xA3, 0x00]" "[0x00]" 9] scope_obj_ok(2)
  unfolding scope_obj_def by simp

text \<open>
  Asked for term \<open>i\<close> of a well-formed object through its handle, the
  parser returns that term's data type, the address at which its encoding starts
  (after the opcode, the package length and the terms before it) and its size.
\<close>

theorem AmlParseOptionHandleCommon_finds_term:
  assumes "wf_term AML_OBJECT (TObj e k args body)" and "drop p m = term_bytes (TObj e k args body) @ rest"
    and "1 \<le> i" and "i \<le> MaxIndex e"
    and "h = \<lparr>hBuffer = p, hSize = length (term_bytes (TObj e k args body)), hEncoding = e\<rparr>"
  shows "AmlParseOptionHandleCommon m h i = Ok (Inr (term_type (args ! (i - 1)),
    p + length (op_bytes e) + (if has e AML_HAS_PKG_LENGTH then k else 0) + length (terms_bytes (take (i - 1) args)),
    length (term_bytes (args ! (i - 1)))))"
  using object_common(2) [OF assms(1,2) order_refl, of i] assms(3,4,5) term_measured
  by (simp add: AmlParseOptionHandleCommon_def del: term_bytes.simps wf_term.simps)

theorem AmlParseOptionHandleCommon_finds_term_witness:
  "AmlParseOptionHandleCommon [0x10, 0x07, 0x5C, 0x5F, 0x53, 0x42, 0x5F, 0xA3] \<lparr>hBuffer = 0, hSize = 8, hEncoding = scope_row\<rparr> 1 =
     Ok (Inr (EFI_ACPI_DATA_TYPE_NAME_STRING, 2, 5))"
proof -
  have "aml_name None [[0x5F, 0x53, 0x42]] = [0x5C, 0x5F, 0x53, 0x42, 0x5F]"
    by (simp add: aml_name_def asl_prefix_def aml_seg_prefix_def aml_pad_def upcase_def aml_chars)
  moreover have "has scope_row AML_HAS_PKG_LENGTH" "MaxIndex scope_row = 1" "length (op_bytes scope_row) = 1"
    by (simp_all add: scope_row_def enc_def has_def AML_HAS_PKG_LENGTH_def op_bytes_def AML_EXT_OP_def)
  ultimately show ?thesis
    using AmlParseOptionHandleCommon_finds_term [OF scope_obj_ok(1) [unfolded scope_obj_def],
      of 0 "[0x10, 0x07, 0x5C, 0x5F, 0x53, 0x42, 0x5F, 0xA3]" "[]" 1] scope_obj_ok(2) [unfolded scope_obj_def] by (simp add: pkg_bytes_def eval_nat_numeral)
qed

end
