(* ===== verification/PciDecoding.thy ===== *)
theory PciDecoding
  imports FwCfg
begin

text \<open>
  Model of \<open>QemuPkg/AcpiPlatformDxe/PciDecoding.c\<close>: switching on I/O and memory
  decoding of every PCI device before the ACPI blobs are downloaded, and putting
  the attributes back.  The boot services and the \<open>Attributes\<close> member of the
  \<open>EFI_PCI_IO_PROTOCOL\<close> are arguments; a protocol instance and a handle are numbers.
\<close>

section \<open>Services\<close>

definition EFI_PCI_IO_ATTRIBUTE_IO :: u64 where "EFI_PCI_IO_ATTRIBUTE_IO = 0x0100"
definition EFI_PCI_IO_ATTRIBUTE_MEMORY :: u64 where "EFI_PCI_IO_ATTRIBUTE_MEMORY = 0x0200"

datatype PCI_IO_OPERATION =
    EfiPciIoAttributeOperationGet
  | EfiPciIoAttributeOperationSet
  | EfiPciIoAttributeOperationEnable
  | EfiPciIoAttributeOperationSupported

text \<open>\<open>PciIo_Attributes op device attributes\<close> returns the status and the result.\<close>

record 'w pci_services =
  PcdPciDisableBusEnumeration :: bool
  LocatePciHandles :: "'w \<Rightarrow> EFI_STATUS \<times> nat list \<times> 'w"
  HandlePciIo :: "nat \<Rightarrow> 'w \<Rightarrow> EFI_STATUS \<times> nat \<times> 'w"
  PciIo_Attributes :: "PCI_IO_OPERATION \<Rightarrow> nat \<Rightarrow> u64 \<Rightarrow> 'w \<Rightarrow> EFI_STATUS \<times> u64 \<times> 'w"
  AllocateAttributes :: "nat \<Rightarrow> 'w \<Rightarrow> bool \<times> 'w"
  FreeAttributes :: "'w \<Rightarrow> 'w"
  FreeHandles :: "'w \<Rightarrow> 'w"

record ORIGINAL_ATTRIBUTES =
  PciIo :: nat
  PciAttributes :: u64

section \<open>Enabling and restoring\<close>

text \<open>The loop over the handles: whether it ended normally, and the entries
  \<open>OrigAttrs[0 .. Idx - 1]\<close> whose devices were switched on.\<close>

fun EnableLoop ::
  "'w pci_services \<Rightarrow> nat list \<Rightarrow> ORIGINAL_ATTRIBUTES list \<Rightarrow> 'w \<Rightarrow> (bool \<times> ORIGINAL_ATTRIBUTES list \<times> 'w) checked" where
  "EnableLoop sv [] OrigAttrs w = Ok (True, OrigAttrs, w)"
| "EnableLoop sv (h # hs) OrigAttrs w =
    (case HandlePciIo sv h w of (Status, P, w1) \<Rightarrow>
      if EFI_ERROR Status then AssertFailed
      else case PciIo_Attributes sv EfiPciIoAttributeOperationGet P 0 w1 of (Status, Orig, w2) \<Rightarrow>
        if EFI_ERROR Status then Ok (False, OrigAttrs, w2)
        else case PciIo_Attributes sv EfiPciIoAttributeOperationSupported P 0 w2 of (Status, Attributes, w3) \<Rightarrow>
          if EFI_ERROR Status then Ok (False, OrigAttrs, w3)
          else case PciIo_Attributes sv EfiPciIoAttributeOperationEnable P
                      (and Attributes (or EFI_PCI_IO_ATTRIBUTE_IO EFI_PCI_IO_ATTRIBUTE_MEMORY)) w3 of (Status, _, w4) \<Rightarrow>
            if EFI_ERROR Status then Ok (False, OrigAttrs, w4)
            else EnableLoop sv hs (OrigAttrs @ [\<lparr>PciIo = P, PciAttributes = Orig\<rparr>]) w4)"

definition SetOriginal :: "'w pci_services \<Rightarrow> ORIGINAL_ATTRIBUTES \<Rightarrow> 'w \<Rightarrow> 'w" where
  "SetOriginal sv a w = snd (snd (PciIo_Attributes sv EfiPciIoAttributeOperationSet (PciIo a) (PciAttributes a) w))"

text \<open>\<open>None\<close> stands for a \<open>NULL\<close> array with count 0.\<close>

definition EnablePciDecoding :: "'w pci_services \<Rightarrow> 'w \<Rightarrow> (ORIGINAL_ATTRIBUTES list option \<times> 'w) checked" where
  "EnablePciDecoding sv w =
    (if PcdPciDisableBusEnumeration sv then Ok (None, w)
     else case LocatePciHandles sv w of (Status, Handles, w1) \<Rightarrow>
       if EFI_ERROR Status then Ok (None, w1)
       else case AllocateAttributes sv (length Handles) w1 of (ok, w2) \<Rightarrow>
         if \<not> ok then Ok (None, FreeHandles sv w2)
         else chk_bind (EnableLoop sv Handles [] w2) (\<lambda>(all, OrigAttrs, w3).
           if all then Ok (Some OrigAttrs, FreeHandles sv w3)
           else Ok (None, FreeHandles sv (FreeAttributes sv (fold (SetOriginal sv) (rev OrigAttrs) w3)))))"

definition RestorePciDecoding :: "'w pci_services \<Rightarrow> ORIGINAL_ATTRIBUTES list option \<Rightarrow> 'w \<Rightarrow> 'w checked" where
  "RestorePciDecoding sv OriginalAttributes w =
    (case OriginalAttributes of
       None \<Rightarrow> Ok w
     | Some as \<Rightarrow> if as = [] then AssertFailed else Ok (FreeAttributes sv (fold (SetOriginal sv) as w)))"

section \<open>Attributes are put back\<close>

text \<open>
  What the code relies on: \<open>attr\<close> observes the attributes of each device; reading
  changes nothing, a failed enable changes nothing, a successful one only its own
  device, setting back an earlier value takes effect, and different handles carry
  different protocol instances \<open>pio h\<close>.
\<close>

definition pci_ok :: "'w pci_services \<Rightarrow> ('w \<Rightarrow> nat \<Rightarrow> u64) \<Rightarrow> (nat \<Rightarrow> nat) \<Rightarrow> bool" where
  "pci_ok sv attr pio \<longleftrightarrow> inj pio \<and>
     (\<forall>w s hs w'. LocatePciHandles sv w = (s, hs, w') \<longrightarrow> attr w' = attr w \<and> (\<not> EFI_ERROR s \<longrightarrow> distinct hs \<and> hs \<noteq> [])) \<and>
     (\<forall>w h. fst (snd (HandlePciIo sv h w)) = pio h \<and> attr (snd (snd (HandlePciIo sv h w))) = attr w) \<and>
     (\<forall>w d s v w'. PciIo_Attributes sv EfiPciIoAttributeOperationGet d 0 w = (s, v, w') \<longrightarrow>
        attr w' = attr w \<and> (\<not> EFI_ERROR s \<longrightarrow> v = attr w d)) \<and>
     (\<forall>w d. attr (snd (snd (PciIo_Attributes sv EfiPciIoAttributeOperationSupported d 0 w))) = attr w) \<and>
     (\<forall>w d a s v w'. PciIo_Attributes sv EfiPciIoAttributeOperationEnable d a w = (s, v, w') \<longrightarrow>
        (if EFI_ERROR s then attr w' = attr w else \<forall>d'. d' \<noteq> d \<longrightarrow> attr w' d' = attr w d')) \<and>
     (\<forall>w d a. attr (snd (snd (PciIo_Attributes sv EfiPciIoAttributeOperationSet d a w))) = (attr w)(d := a)) \<and>
     (\<forall>w n. attr (snd (AllocateAttributes sv n w)) = attr w) \<and> (\<forall>w. attr (FreeAttributes sv w) = attr w) \<and>
     (\<forall>w. attr (FreeHandles sv w) = attr w)"

lemma attr_restore:
  assumes ok: "pci_ok sv attr pio" and v: "\<forall>a \<in> set as. PciAttributes a = f (PciIo a)"
  shows "attr (fold (SetOriginal sv) as w) d = (if d \<in> PciIo ` set as then f d else attr w d)"
  using v
proof (induction as arbitrary: w)
  case Nil
  then show ?case by simp
next
  case (Cons a as)
  have "attr (SetOriginal sv a w) = (attr w)(PciIo a := f (PciIo a))"
    using ok Cons.prems by (simp add: pci_ok_def SetOriginal_def)
  then show ?case using Cons by auto
qed

lemma EnableLoop_attr:
  assumes ok: "pci_ok sv attr pio"
  shows "EnableLoop sv hs acc w = Ok (all, as, w') \<Longrightarrow> distinct hs \<Longrightarrow>
    \<exists>new. as = acc @ new \<and> PciIo ` set new \<subseteq> pio ` set hs \<and> (\<forall>a \<in> set new. PciAttributes a = attr w (PciIo a)) \<and>
      (\<forall>d. d \<notin> PciIo ` set new \<longrightarrow> attr w' d = attr w d) \<and> (all \<longrightarrow> length new = length hs)"
proof (induction hs arbitrary: acc w)
  case Nil
  then show ?case by simp
next
  case (Cons h hs)
  obtain s1 P w1 where 1: "HandlePciIo sv h w = (s1, P, w1)" by (cases "HandlePciIo sv h w") auto
  obtain s2 v w2 where 2: "PciIo_Attributes sv EfiPciIoAttributeOperationGet P 0 w1 = (s2, v, w2)"
    by (cases "PciIo_Attributes sv EfiPciIoAttributeOperationGet P 0 w1") auto
  obtain s3 x w3 where 3: "PciIo_Attributes sv EfiPciIoAttributeOperationSupported P 0 w2 = (s3, x, w3)"
    by (cases "PciIo_Attributes sv EfiPciIoAttributeOperationSupported P 0 w2") auto
  let ?x = "and x (or EFI_PCI_IO_ATTRIBUTE_IO EFI_PCI_IO_ATTRIBUTE_MEMORY)"
  obtain s4 y w4 where 4: "PciIo_Attributes sv EfiPciIoAttributeOperationEnable P ?x w3 = (s4, y, w4)"
    by (cases "PciIo_Attributes sv EfiPciIoAttributeOperationEnable P ?x w3") auto
  have P: "P = pio h" "attr w1 = attr w" using ok 1 unfolding pci_ok_def by (metis fst_conv snd_conv)+
  have a2: "attr w2 = attr w" "\<not> EFI_ERROR s2 \<Longrightarrow> v = attr w P" using ok 2 P(2) unfolding pci_ok_def by metis+
  have a3: "attr w3 = attr w" using ok 3 a2 unfolding pci_ok_def by (metis snd_conv)
  have a4: "if EFI_ERROR s4 then attr w4 = attr w else \<forall>d'. d' \<noteq> P \<longrightarrow> attr w4 d' = attr w d'"
    using ok 4 a3 unfolding pci_ok_def by metis
  note step = Cons.prems(1) [simplified 1 2 3 4 EnableLoop.simps, simplified]
  show ?case
  proof (cases "EFI_ERROR s2 \<or> EFI_ERROR s3 \<or> EFI_ERROR s4")
    case True
    then show ?thesis using step a2 a3 a4 by (auto simp: 2 3 4 split: if_splits)
  next
    case False
    let ?e = "\<lparr>PciIo = P, PciAttributes = v\<rparr>"
    have "EnableLoop sv hs (acc @ [?e]) w4 = Ok (all, as, w')" using step False by (auto simp: 2 3 4 split: if_splits)
    from Cons.IH [OF this] obtain new where new: "as = (acc @ [?e]) @ new" "PciIo ` set new \<subseteq> pio ` set hs"
      "\<forall>a \<in> set new. PciAttributes a = attr w4 (PciIo a)" "\<forall>d. d \<notin> PciIo ` set new \<longrightarrow> attr w' d = attr w4 d" "all \<longrightarrow> length new = length hs"
      using Cons.prems(2) by auto
    have "pio h \<notin> pio ` set hs" using ok Cons.prems(2) by (auto simp: pci_ok_def inj_def)
    then have "\<forall>a \<in> set new. PciIo a \<noteq> P" using new(2) P(1) by (metis image_eqI subsetD)
    then show ?thesis using new a4 a2(2) False P(1) by (intro exI [of _ "?e # new"]) auto
  qed
qed

section \<open>Properties\<close>

text \<open>
  Decoding is borrowed, not changed: when the device attributes are not
  otherwise altered between the two calls, \<open>EnablePciDecoding\<close> followed by
  \<open>RestorePciDecoding\<close> leaves the attributes of every device as they were, whether
  all devices could be enabled, one of them failed, or nothing was done; and the
  consistency assertion of \<open>RestorePciDecoding\<close> holds.
\<close>

theorem PciDecoding_roundtrip:
  assumes ok: "pci_ok sv attr pio" and en: "EnablePciDecoding sv w = Ok (orig, w1)" and same: "attr w2 = attr w1"
  shows "\<exists>w3. RestorePciDecoding sv orig w2 = Ok w3 \<and> attr w3 = attr w"
proof -
  have frees: "attr (FreeHandles sv x) = attr x" "attr (FreeAttributes sv x) = attr x" for x using ok unfolding pci_ok_def by blast+
  obtain s hs wl where L: "LocatePciHandles sv w = (s, hs, wl)" by (cases "LocatePciHandles sv w") auto
  have l: "attr wl = attr w" "\<not> EFI_ERROR s \<Longrightarrow> distinct hs \<and> hs \<noteq> []" using ok L unfolding pci_ok_def by metis+
  obtain b wa where A: "AllocateAttributes sv (length hs) wl = (b, wa)" by (cases "AllocateAttributes sv (length hs) wl") auto
  have a: "attr wa = attr w" using ok A l(1) unfolding pci_ok_def by (metis snd_conv)
  show ?thesis
  proof (cases "PcdPciDisableBusEnumeration sv \<or> EFI_ERROR s \<or> \<not> b")
    case True
    then have "orig = None" "attr w1 = attr w" using en L A l(1) a frees by (auto simp: EnablePciDecoding_def split: if_splits)
    then show ?thesis using same by (simp add: RestorePciDecoding_def)
  next
    case False
    then obtain all as w4 where E: "EnableLoop sv hs [] wa = Ok (all, as, w4)"
      using en L A by (auto simp: EnablePciDecoding_def elim!: chk_bind_OkE split: if_splits)
    have d: "distinct hs" "hs \<noteq> []" using l(2) False by auto
    obtain new where new: "as = new" "\<forall>x \<in> set new. PciAttributes x = attr w (PciIo x)"
      "\<forall>d. d \<notin> PciIo ` set new \<longrightarrow> attr w4 d = attr w d" "all \<longrightarrow> length new = length hs"
      using EnableLoop_attr [OF ok E d(1)] a by auto
    have restored: "attr (fold (SetOriginal sv) bs x) = attr w" if "set bs = set as" "attr x = attr w4" for bs x
      using attr_restore [OF ok, of bs "attr w" x] that new by (intro ext) auto
    show ?thesis
    proof (cases all)
      case True
      then have "orig = Some as" "attr w1 = attr w4" using en False L A E frees by (auto simp: EnablePciDecoding_def)
      moreover have "as \<noteq> []" using True new(1,4) d(2) by auto
      ultimately show ?thesis using restored [of as w2] same frees by (simp add: RestorePciDecoding_def)
    next
      case n: False
      then have "orig = None" "attr w1 = attr w" using en False L A E frees restored [of "rev as" w4] by (auto simp: EnablePciDecoding_def)
      then show ?thesis using same by (simp add: RestorePciDecoding_def)
    qed
  qed
qed

text \<open>Devices whose attributes are the state; handle \<open>h\<close> carries instance \<open>h\<close>.\<close>

definition demo_pci :: "(nat \<Rightarrow> u64) pci_services" where
  "demo_pci = \<lparr>PcdPciDisableBusEnumeration = False, LocatePciHandles = (\<lambda>w. (EFI_SUCCESS, [0, 1], w)),
     HandlePciIo = (\<lambda>h w. (EFI_SUCCESS, h, w)),
     PciIo_Attributes = (\<lambda>f d a w. case f of
         EfiPciIoAttributeOperationGet \<Rightarrow> (EFI_SUCCESS, w d, w)
       | EfiPciIoAttributeOperationSet \<Rightarrow> (EFI_SUCCESS, 0, w(d := a))
       | EfiPciIoAttributeOperationEnable \<Rightarrow> if d = 1 then (EFI_UNSUPPORTED, 0, w) else (EFI_SUCCESS, 0, w(d := or (w d) a))
       | EfiPciIoAttributeOperationSupported \<Rightarrow> (EFI_SUCCESS, 0x300, w)),
     AllocateAttributes = (\<lambda>n w. (True, w)), FreeAttributes = id, FreeHandles = id\<rparr>"

theorem PciDecoding_roundtrip_witness:
  "\<exists>orig w1 w3. EnablePciDecoding demo_pci (\<lambda>_. 7) = Ok (orig, w1) \<and> RestorePciDecoding demo_pci orig w1 = Ok w3 \<and> w3 = (\<lambda>_. 7)"
proof -
  have ok: "pci_ok demo_pci id id" by (auto simp: pci_ok_def demo_pci_def inj_def split: if_splits)
  obtain orig w1 where e: "EnablePciDecoding demo_pci (\<lambda>_. 7) = Ok (orig, w1)"
    by (simp add: EnablePciDecoding_def demo_pci_def)
  from PciDecoding_roundtrip [OF ok e refl] e show ?thesis by auto
qed

end
