(* ===== verification/AcpiLoader.thy ===== *)
theory AcpiLoader
  imports PciDecoding
begin

text \<open>
  Model of \<open>QemuPkg/AcpiPlatformDxe/QemuFwCfgAcpi.c\<close>: the interpreter of the linker
  script \<open>etc/table-loader\<close> that QEMU provides through fw_cfg.  Blobs are downloaded
  into pages, pointers between them relocated, checksums computed, addresses written
  back to the host, and the tables the pointers lead to installed.

  The fw_cfg library is a record of its operations, so that the modelled port and
  memory-mapped libraries can be plugged in.  The boot services, the ACPI table
  protocol and \<open>OrderedCollectionLib\<close> (not part of this tree) are arguments.  A user
  structure of a collection is a pointer: the address of a \<open>BLOB\<close>, the index of the
  script entry whose \<open>PointeeFile\<close> is meant, or a pointer value.  Pool memory that
  holds a \<open>BLOB\<close> is the typed heap \<open>blobs\<close>; pages are the RAM of the machine.
\<close>

section \<open>Script entries\<close>

definition QEMU_LOADER_FNAME_SIZE :: nat where "QEMU_LOADER_FNAME_SIZE = 56"
definition INSTALLED_TABLES_MAX :: nat where "INSTALLED_TABLES_MAX = 128"
definition MAX_UINT64 :: nat where "MAX_UINT64 = 2 ^ 64 - 1"
definition MAX_ADDRESS :: nat where "MAX_ADDRESS = 2 ^ 64 - 1"
definition sizeof_BLOB :: nat where "sizeof_BLOB = 80"
definition sizeof_LOADER_ENTRY :: nat where "sizeof_LOADER_ENTRY = 128"

record QEMU_LOADER_ALLOCATE =
  al_File :: "u8 list"
  Alignment :: nat
  Zone :: u8

record QEMU_LOADER_ADD_POINTER =
  PointerFile :: "u8 list"
  PointeeFile :: "u8 list"
  PointerOffset :: nat
  PointerSize :: nat

record QEMU_LOADER_ADD_CHECKSUM =
  cs_File :: "u8 list"
  ResultOffset :: nat
  Start :: nat
  cs_Length :: nat

record QEMU_LOADER_WRITE_POINTER =
  wp_PointerFile :: "u8 list"
  wp_PointeeFile :: "u8 list"
  wp_PointerOffset :: nat
  wp_PointeeOffset :: nat
  wp_PointerSize :: nat

datatype QEMU_LOADER_ENTRY =
    CmdAllocate QEMU_LOADER_ALLOCATE
  | CmdAddPointer QEMU_LOADER_ADD_POINTER
  | CmdAddChecksum QEMU_LOADER_ADD_CHECKSUM
  | CmdWritePointer QEMU_LOADER_WRITE_POINTER
  | CmdUnknown nat

definition field :: "u8 list \<Rightarrow> nat \<Rightarrow> nat \<Rightarrow> u8 list" where
  "field bs off n = take n (drop off bs)"

text \<open>The packed layout of an entry: the type, then the command.\<close>

definition loader_entry :: "u8 list \<Rightarrow> QEMU_LOADER_ENTRY" where
  "loader_entry bs =
    (let Type = le_val (field bs 0 4); c = drop 4 bs
     in if Type = 1 then CmdAllocate \<lparr>al_File = field c 0 56, Alignment = le_val (field c 56 4), Zone = of_nat (le_val (field c 60 1))\<rparr>
        else if Type = 2 then CmdAddPointer \<lparr>PointerFile = field c 0 56, PointeeFile = field c 56 56,
               PointerOffset = le_val (field c 112 4), PointerSize = le_val (field c 116 1)\<rparr>
        else if Type = 3 then CmdAddChecksum \<lparr>cs_File = field c 0 56, ResultOffset = le_val (field c 56 4),
               Start = le_val (field c 60 4), cs_Length = le_val (field c 64 4)\<rparr>
        else if Type = 4 then CmdWritePointer \<lparr>wp_PointerFile = field c 0 56, wp_PointeeFile = field c 56 56,
               wp_PointerOffset = le_val (field c 112 4), wp_PointeeOffset = le_val (field c 116 4), wp_PointerSize = le_val (field c 120 1)\<rparr>
        else CmdUnknown Type)"

definition script_at :: "mem \<Rightarrow> nat \<Rightarrow> nat \<Rightarrow> QEMU_LOADER_ENTRY list" where
  "script_at m LoaderStart n = map (\<lambda>i. loader_entry (load_bytes m (LoaderStart + 128 * i) 128)) [0..<n]"

section \<open>Services, state and comparison functions\<close>

record BLOB =
  File :: "u8 list"
  Size :: nat
  Base :: nat
  HostsOnlyTableData :: bool

record 'd fw_lib =
  fw_FindFile :: "u8 list \<Rightarrow> 'd machine \<Rightarrow> ((EFI_STATUS + u16 \<times> nat) \<times> 'd machine) run"
  fw_SelectItem :: "u16 \<Rightarrow> 'd machine \<Rightarrow> 'd machine"
  fw_ReadBytes :: "nat \<Rightarrow> nat \<Rightarrow> 'd machine \<Rightarrow> 'd machine run"
  fw_SkipBytes :: "nat \<Rightarrow> 'd machine \<Rightarrow> 'd machine run"
  fw_WriteBytes :: "nat \<Rightarrow> nat \<Rightarrow> 'd machine \<Rightarrow> 'd machine run"
  PointerValueAddress :: nat

record 'w boot_services =
  AllocatePages :: "nat \<Rightarrow> nat \<Rightarrow> 'w \<Rightarrow> EFI_STATUS \<times> nat \<times> 'w"
  FreePages :: "nat \<Rightarrow> nat \<Rightarrow> 'w \<Rightarrow> 'w"
  AllocatePool :: "nat \<Rightarrow> 'w \<Rightarrow> nat option \<times> 'w"
  FreePool :: "nat \<Rightarrow> 'w \<Rightarrow> 'w"
  InstallAcpiTable :: "nat \<Rightarrow> nat \<Rightarrow> 'w \<Rightarrow> EFI_STATUS \<times> nat \<times> 'w"
  UninstallAcpiTable :: "nat \<Rightarrow> 'w \<Rightarrow> 'w"

text \<open>
  \<open>OrderedCollectionLib\<close>.  \<open>oc_Insert\<close> and \<open>oc_Find\<close> receive the comparison function
  with its first argument (the new structure, or the key) applied; \<open>oc_Entries\<close> are the
  user structures in the order in which \<open>OrderedCollectionMin\<close> and
  \<open>OrderedCollectionNext\<close> visit them.
\<close>

record ('c, 'w) oc_lib =
  oc_Init :: "'w \<Rightarrow> 'c option \<times> 'w"
  oc_Insert :: "(nat \<Rightarrow> int) \<Rightarrow> nat \<Rightarrow> 'c \<Rightarrow> 'w \<Rightarrow> EFI_STATUS \<times> 'c \<times> 'w"
  oc_Find :: "(nat \<Rightarrow> int) \<Rightarrow> 'c \<Rightarrow> nat option"
  oc_Entries :: "'c \<Rightarrow> nat list"
  oc_Delete :: "nat \<Rightarrow> 'c \<Rightarrow> 'w \<Rightarrow> 'c \<times> 'w"
  oc_Uninit :: "'c \<Rightarrow> 'w \<Rightarrow> 'w"

record ('c, 'd) env =
  fwl :: "'d fw_lib"
  gBS :: "'d machine boot_services"
  ocl :: "('c, 'd machine) oc_lib"
  pcs :: "'d machine pci_services"
  MDE_CPU_AARCH64 :: bool

record ('c, 'd) ldr =
  mach :: "'d machine"
  blobs :: "nat \<Rightarrow> BLOB"
  Tracker :: 'c

text \<open>\<open>AsciiStrCmp\<close> on two arrays that contain a terminator.\<close>

fun AsciiStrCmp :: "u8 list \<Rightarrow> u8 list \<Rightarrow> int" where
  "AsciiStrCmp (a # as) (b # bs) = (if a \<noteq> b \<or> a = 0 then int (unat a) - int (unat b) else AsciiStrCmp as bs)"
| "AsciiStrCmp _ _ = 0"

definition cstr :: "u8 list \<Rightarrow> u8 list" where
  "cstr f = takeWhile (\<lambda>c. c \<noteq> 0) f"

definition BlobKeyCompare :: "(nat \<Rightarrow> BLOB) \<Rightarrow> u8 list \<Rightarrow> nat \<Rightarrow> int" where
  "BlobKeyCompare bl StandaloneKey UserStruct = AsciiStrCmp StandaloneKey (File (bl UserStruct))"

definition BlobCompare :: "(nat \<Rightarrow> BLOB) \<Rightarrow> nat \<Rightarrow> nat \<Rightarrow> int" where
  "BlobCompare bl UserStruct1 UserStruct2 = BlobKeyCompare bl (File (bl UserStruct1)) UserStruct2"

definition PointerCompare :: "nat \<Rightarrow> nat \<Rightarrow> int" where
  "PointerCompare Pointer1 Pointer2 = (if Pointer1 = Pointer2 then 0 else if Pointer1 < Pointer2 then -1 else 1)"

text \<open>The pointee name of a script entry, as \<open>AsciiStringCompare\<close> sees it.\<close>

definition pointee_name :: "QEMU_LOADER_ENTRY list \<Rightarrow> nat \<Rightarrow> u8 list" where
  "pointee_name script i = (case script ! i of CmdAddPointer a \<Rightarrow> PointeeFile a | _ \<Rightarrow> [])"

definition AsciiStringCompare :: "QEMU_LOADER_ENTRY list \<Rightarrow> u8 list \<Rightarrow> nat \<Rightarrow> int" where
  "AsciiStringCompare script s i = AsciiStrCmp s (pointee_name script i)"

definition name_ok :: "u8 list \<Rightarrow> bool" where
  "name_ok f \<longleftrightarrow> f ! (QEMU_LOADER_FNAME_SIZE - 1) = 0"

section \<open>Blobs restricted to 32-bit addresses\<close>

definition DeleteAll :: "('c, 'w) oc_lib \<Rightarrow> 'c \<Rightarrow> 'w \<Rightarrow> 'w" where
  "DeleteAll oc c w = (case fold (\<lambda>u (c, w). oc_Delete oc u c w) (oc_Entries oc c) (c, w) of (c', w') \<Rightarrow> oc_Uninit oc c' w')"

definition ReleaseAllocationsRestrictedTo32Bit :: "('c, 'w) oc_lib \<Rightarrow> 'c \<Rightarrow> 'w \<Rightarrow> 'w" where
  "ReleaseAllocationsRestrictedTo32Bit oc c w = DeleteAll oc c w"

fun CollectLoop ::
  "('c, 'w) oc_lib \<Rightarrow> QEMU_LOADER_ENTRY list \<Rightarrow> nat list \<Rightarrow> 'c \<Rightarrow> 'w \<Rightarrow> (EFI_STATUS \<times> 'c \<times> 'w) checked" where
  "CollectLoop oc script [] c w = Ok (EFI_SUCCESS, c, w)"
| "CollectLoop oc script (i # is) c w =
    (case script ! i of
       CmdAddPointer AddPointer \<Rightarrow>
         if PointerSize AddPointer \<ge> 8 then CollectLoop oc script is c w
         else if \<not> name_ok (PointeeFile AddPointer) then Ok (EFI_PROTOCOL_ERROR, c, w)
         else (case oc_Insert oc (AsciiStringCompare script (PointeeFile AddPointer)) i c w of (Status, c1, w1) \<Rightarrow>
           if Status = EFI_SUCCESS \<or> Status = EFI_ALREADY_STARTED then CollectLoop oc script is c1 w1
           else if Status = EFI_OUT_OF_RESOURCES then Ok (EFI_OUT_OF_RESOURCES, c1, w1)
           else AssertFailed)
     | _ \<Rightarrow> CollectLoop oc script is c w)"

text \<open>The collection, or the error status after the roll-back.\<close>

definition CollectAllocationsRestrictedTo32Bit ::
  "('c, 'w) oc_lib \<Rightarrow> QEMU_LOADER_ENTRY list \<Rightarrow> 'w \<Rightarrow> ((EFI_STATUS + 'c) \<times> 'w) checked" where
  "CollectAllocationsRestrictedTo32Bit oc script w =
    (case oc_Init oc w of
       (None, w1) \<Rightarrow> Ok (Inl EFI_OUT_OF_RESOURCES, w1)
     | (Some Collection, w1) \<Rightarrow>
         chk_bind (CollectLoop oc script [0..<length script] Collection w1) (\<lambda>(Status, c, w2).
           if EFI_ERROR Status then Ok (Inl Status, ReleaseAllocationsRestrictedTo32Bit oc c w2)
           else Ok (Inr c, w2)))"

section \<open>Commands\<close>

text \<open>After the pages are allocated: track the blob and download it.\<close>

definition AllocateBlob ::
  "('c, 'd) env \<Rightarrow> QEMU_LOADER_ALLOCATE \<Rightarrow> u16 \<Rightarrow> nat \<Rightarrow> nat \<Rightarrow> ('c, 'd) ldr \<Rightarrow> (EFI_STATUS \<times> ('c, 'd) ldr) run" where
  "AllocateBlob E Allocate FwCfgItem FwCfgSize Addr st =
    (let NumPages = EFI_SIZE_TO_PAGES FwCfgSize
     in case AllocatePool (gBS E) sizeof_BLOB (mach st) of
       (None, w3) \<Rightarrow> Some (Ok (EFI_OUT_OF_RESOURCES, st\<lparr>mach := FreePages (gBS E) Addr NumPages w3\<rparr>))
     | (Some Blob, w3) \<Rightarrow>
         (let bl = (blobs st)(Blob := \<lparr>File = al_File Allocate, Size = FwCfgSize, Base = Addr, HostsOnlyTableData = True\<rparr>)
          in case oc_Insert (ocl E) (BlobCompare bl Blob) Blob (Tracker st) w3 of (Status1, c, w4) \<Rightarrow>
            (let Status2 = (if Status1 = EFI_ALREADY_STARTED then EFI_PROTOCOL_ERROR else Status1)
             in if EFI_ERROR Status2
                then Some (Ok (Status2, st\<lparr>mach := FreePages (gBS E) Addr NumPages (FreePool (gBS E) Blob w4), blobs := bl, Tracker := c\<rparr>))
                else run_bind (fw_ReadBytes (fwl E) FwCfgSize Addr (fw_SelectItem (fwl E) FwCfgItem w4)) (\<lambda>w5.
                  let w6 = w5\<lparr>ram := set_mem (ram w5) (Addr + FwCfgSize) (EFI_PAGES_TO_SIZE NumPages - FwCfgSize) 0\<rparr>
                  in Some (Ok (EFI_SUCCESS, st\<lparr>mach := w6, blobs := bl, Tracker := c\<rparr>))))))"

definition ProcessCmdAllocate ::
  "('c, 'd) env \<Rightarrow> QEMU_LOADER_ENTRY list \<Rightarrow> 'c \<Rightarrow> QEMU_LOADER_ALLOCATE \<Rightarrow> ('c, 'd) ldr \<Rightarrow> (EFI_STATUS \<times> ('c, 'd) ldr) run" where
  "ProcessCmdAllocate E script AllocationsRestrictedTo32Bit Allocate st =
    (if \<not> name_ok (al_File Allocate) then Some (Ok (EFI_PROTOCOL_ERROR, st))
     else if Alignment Allocate > EFI_PAGE_SIZE then Some (Ok (EFI_UNSUPPORTED, st))
     else run_bind (fw_FindFile (fwl E) (cstr (al_File Allocate)) (mach st)) (\<lambda>(r, w1).
       case r of
         Inl Status \<Rightarrow> Some (Ok (Status, st\<lparr>mach := w1\<rparr>))
       | Inr (FwCfgItem, FwCfgSize) \<Rightarrow>
           (let Max = (if oc_Find (ocl E) (AsciiStringCompare script (al_File Allocate)) AllocationsRestrictedTo32Bit \<noteq> None
                       then MAX_UINT32 else MAX_UINT64)
            in case AllocatePages (gBS E) Max (EFI_SIZE_TO_PAGES FwCfgSize) w1 of (Status, Addr, w2) \<Rightarrow>
              (if EFI_ERROR Status then Some (Ok (Status, st\<lparr>mach := w2\<rparr>))
               else AllocateBlob E Allocate FwCfgItem FwCfgSize Addr (st\<lparr>mach := w2\<rparr>)))))"

definition pointer_size_ok :: "nat \<Rightarrow> bool" where
  "pointer_size_ok n \<longleftrightarrow> n = 1 \<or> n = 2 \<or> n = 4 \<or> n = 8"

text \<open>The relocated value does not fit the field.\<close>

definition unrepresentable :: "nat \<Rightarrow> nat \<Rightarrow> bool" where
  "unrepresentable PSize PointerValue \<longleftrightarrow> PSize < 8 \<and> PointerValue div 2 ^ (PSize * 8) \<noteq> 0"

definition ProcessCmdAddPointer ::
  "('c, 'd) env \<Rightarrow> QEMU_LOADER_ADD_POINTER \<Rightarrow> ('c, 'd) ldr \<Rightarrow> (EFI_STATUS \<times> ('c, 'd) ldr) checked" where
  "ProcessCmdAddPointer E AddPointer st =
    (if \<not> name_ok (PointerFile AddPointer) \<or> \<not> name_ok (PointeeFile AddPointer) then Ok (EFI_PROTOCOL_ERROR, st)
     else case (oc_Find (ocl E) (BlobKeyCompare (blobs st) (PointerFile AddPointer)) (Tracker st),
                oc_Find (ocl E) (BlobKeyCompare (blobs st) (PointeeFile AddPointer)) (Tracker st)) of
       (Some b, Some b2) \<Rightarrow>
         let Blob = blobs st b; Blob2 = blobs st b2; n = PointerSize AddPointer
         in if \<not> pointer_size_ok n \<or> Size Blob < n \<or> Size Blob - n < PointerOffset AddPointer then Ok (EFI_PROTOCOL_ERROR, st)
            else
              let PointerField = Base Blob + PointerOffset AddPointer;
                  PointerValue = load_le (ram (mach st)) PointerField n
              in if PointerValue \<ge> Size Blob2 then Ok (EFI_PROTOCOL_ERROR, st)
                 else if \<not> (Base Blob2 \<le> MAX_ADDRESS - Size Blob2) then AssertFailed
                 else
                   let PointerValue2 = (PointerValue + Base Blob2) mod 2 ^ 64
                   in if unrepresentable n PointerValue2 then Ok (EFI_PROTOCOL_ERROR, st)
                      else Ok (EFI_SUCCESS, st\<lparr>mach := (mach st)\<lparr>ram := store_le (ram (mach st)) PointerField n PointerValue2\<rparr>\<rparr>)
     | _ \<Rightarrow> Ok (EFI_PROTOCOL_ERROR, st))"

text \<open>\<open>CalculateSum8\<close> and \<open>CalculateCheckSum8\<close> of the base library.\<close>

definition CalculateSum8 :: "u8 list \<Rightarrow> u8" where
  "CalculateSum8 bs = sum_list bs"

definition CalculateCheckSum8 :: "u8 list \<Rightarrow> u8" where
  "CalculateCheckSum8 bs = - CalculateSum8 bs"

definition ProcessCmdAddChecksum ::
  "('c, 'd) env \<Rightarrow> QEMU_LOADER_ADD_CHECKSUM \<Rightarrow> ('c, 'd) ldr \<Rightarrow> (EFI_STATUS \<times> ('c, 'd) ldr) checked" where
  "ProcessCmdAddChecksum E AddChecksum st =
    (if \<not> name_ok (cs_File AddChecksum) then Ok (EFI_PROTOCOL_ERROR, st)
     else case oc_Find (ocl E) (BlobKeyCompare (blobs st) (cs_File AddChecksum)) (Tracker st) of
       None \<Rightarrow> Ok (EFI_PROTOCOL_ERROR, st)
     | Some b \<Rightarrow>
         let Blob = blobs st b; m = ram (mach st)
         in if Size Blob \<le> ResultOffset AddChecksum \<or> Size Blob < cs_Length AddChecksum
               \<or> Size Blob - cs_Length AddChecksum < Start AddChecksum then Ok (EFI_PROTOCOL_ERROR, st)
            else Ok (EFI_SUCCESS, st\<lparr>mach := (mach st)\<lparr>ram := m(Base Blob + ResultOffset AddChecksum :=
                   CalculateCheckSum8 (load_bytes m (Base Blob + Start AddChecksum) (cs_Length AddChecksum)))\<rparr>\<rparr>))"

text \<open>Select the item, skip to the field, write the 64-bit local \<open>PointerValue\<close>.\<close>

definition WriteField :: "'d fw_lib \<Rightarrow> u16 \<Rightarrow> nat \<Rightarrow> nat \<Rightarrow> nat \<Rightarrow> 'd machine \<Rightarrow> 'd machine run" where
  "WriteField f PointerItem off n PointerValue w =
    run_bind (fw_SkipBytes f off (fw_SelectItem f PointerItem w)) (\<lambda>w1.
      fw_WriteBytes f n (PointerValueAddress f) (store (PointerValueAddress f) (le_bytes 8 PointerValue) w1))"

definition ProcessCmdWritePointer ::
  "('c, 'd) env \<Rightarrow> QEMU_LOADER_WRITE_POINTER \<Rightarrow> ('c, 'd) ldr \<Rightarrow> (EFI_STATUS \<times> ('c, 'd) ldr) run" where
  "ProcessCmdWritePointer E WritePointer st =
    (if \<not> name_ok (wp_PointerFile WritePointer) \<or> \<not> name_ok (wp_PointeeFile WritePointer) then Some (Ok (EFI_PROTOCOL_ERROR, st))
     else run_bind (fw_FindFile (fwl E) (cstr (wp_PointerFile WritePointer)) (mach st)) (\<lambda>(r, w1).
       case (r, oc_Find (ocl E) (BlobKeyCompare (blobs st) (wp_PointeeFile WritePointer)) (Tracker st)) of
         (Inr (PointerItem, PointerItemSize), Some b) \<Rightarrow>
           let PointeeBlob = blobs st b; n = wp_PointerSize WritePointer; PointerValue = wp_PointeeOffset WritePointer; st1 = st\<lparr>mach := w1\<rparr>
           in if \<not> pointer_size_ok n \<or> PointerItemSize < n \<or> PointerItemSize - n < wp_PointerOffset WritePointer
              then Some (Ok (EFI_PROTOCOL_ERROR, st1))
              else if PointerValue \<ge> Size PointeeBlob then Some (Ok (EFI_PROTOCOL_ERROR, st1))
              else if \<not> (Base PointeeBlob \<le> MAX_ADDRESS - Size PointeeBlob) then Some AssertFailed
              else
                let PointerValue2 = (PointerValue + Base PointeeBlob) mod 2 ^ 64
                in if unrepresentable n PointerValue2 then Some (Ok (EFI_PROTOCOL_ERROR, st1))
                   else run_bind (WriteField (fwl E) PointerItem (wp_PointerOffset WritePointer) n PointerValue2 w1) (\<lambda>w2.
                     Some (Ok (EFI_SUCCESS, st\<lparr>mach := w2, blobs := (blobs st)(b := PointeeBlob\<lparr>HostsOnlyTableData := False\<rparr>)\<rparr>)))
       | _ \<Rightarrow> Some (Ok (EFI_PROTOCOL_ERROR, st\<lparr>mach := w1\<rparr>))))"

definition UndoCmdWritePointer :: "('c, 'd) env \<Rightarrow> QEMU_LOADER_WRITE_POINTER \<Rightarrow> 'd machine \<Rightarrow> 'd machine run" where
  "UndoCmdWritePointer E WritePointer w =
    run_bind (fw_FindFile (fwl E) (cstr (wp_PointerFile WritePointer)) w) (\<lambda>(r, w1).
      case r of
        Inl _ \<Rightarrow> Some AssertFailed
      | Inr (PointerItem, PointerItemSize) \<Rightarrow>
          WriteField (fwl E) PointerItem (wp_PointerOffset WritePointer) (wp_PointerSize WritePointer) 0 w1)"

section \<open>Installing the tables\<close>

definition SIG_FACS :: nat where "SIG_FACS = le_val [0x46, 0x41, 0x43, 0x53]"
definition SIG_RSDT :: nat where "SIG_RSDT = le_val [0x52, 0x53, 0x44, 0x54]"
definition SIG_XSDT :: nat where "SIG_XSDT = le_val [0x58, 0x53, 0x44, 0x54]"
definition SIG_FACP :: nat where "SIG_FACP = le_val [0x46, 0x41, 0x43, 0x50]"

text \<open>
  Is there an ACPI table at \<open>p\<close> with \<open>Remaining\<close> bytes behind it: its size (0 if not),
  and whether it is a root table, which is not installed.  A FACS is 64 bytes
  (signature, length), an ordinary header 36 bytes whose sum over the length is 0.
\<close>

definition table_at :: "mem \<Rightarrow> nat \<Rightarrow> nat \<Rightarrow> nat \<times> bool" where
  "table_at m p Remaining =
    (let len = load_le m (p + 4) 4
     in if 64 \<le> Remaining \<and> len \<ge> 64 \<and> len \<le> Remaining \<and> load_le m p 4 = SIG_FACS then (len, False)
        else if 36 \<le> Remaining \<and> len \<ge> 36 \<and> len \<le> Remaining \<and> CalculateSum8 (load_bytes m p len) = 0
        then (len, load_le m p 4 = SIG_RSDT \<or> load_le m p 4 = SIG_XSDT)
        else (0, False))"

text \<open>The \<open>MDE_CPU_AARCH64\<close> block: PSCI is marked in the FADT and the checksum renewed.
  \<open>ArmBootArch\<close> is the 16-bit field at offset 129, the checksum the byte at 9.\<close>

definition PatchFadt :: "bool \<Rightarrow> mem \<Rightarrow> nat \<Rightarrow> nat \<Rightarrow> mem" where
  "PatchFadt aarch64 m p TableSize =
    (if aarch64 \<and> load_le m p 4 = SIG_FACP \<and> TableSize \<ge> 129 + 2 \<and> and (load_le m (p + 129) 2) 1 = 0
     then let m1 = store_le m (p + 129) 2 (or (load_le m (p + 129) 2) 1);
              m2 = m1(p + 9 := 0)
          in m2(p + 9 := CalculateCheckSum8 (load_bytes m2 p TableSize))
     else m)"

text \<open>The state of the second pass: installed keys, pointers seen, loader state.\<close>

record ('c, 'd) pass2 =
  InstalledKey :: "nat list"
  SeenPointers :: 'c
  ldr :: "('c, 'd) ldr"

text \<open>From the search for a table on, for a pointer value seen for the first time.\<close>

definition InstallPointer ::
  "('c, 'd) env \<Rightarrow> nat \<Rightarrow> nat \<Rightarrow> ('c, 'd) pass2 \<Rightarrow> EFI_STATUS \<times> ('c, 'd) pass2" where
  "InstallPointer E b2 PointerValue s =
    (let st = ldr s; w1 = mach st; Blob2 = blobs st b2
     in case table_at (ram w1) PointerValue (Base Blob2 + Size Blob2 - PointerValue) of (TableSize, root) \<Rightarrow>
       (if root then (EFI_SUCCESS, s)
        else if TableSize = 0
        then (EFI_SUCCESS, s\<lparr>ldr := st\<lparr>blobs := (blobs st)(b2 := Blob2\<lparr>HostsOnlyTableData := False\<rparr>)\<rparr>\<rparr>)
        else if length (InstalledKey s) = INSTALLED_TABLES_MAX
        then (case oc_Delete (ocl E) PointerValue (SeenPointers s) w1 of (seen2, w2) \<Rightarrow>
                (EFI_OUT_OF_RESOURCES, s\<lparr>SeenPointers := seen2, ldr := st\<lparr>mach := w2\<rparr>\<rparr>))
        else (case InstallAcpiTable (gBS E) PointerValue TableSize
                     (w1\<lparr>ram := PatchFadt (MDE_CPU_AARCH64 E) (ram w1) PointerValue TableSize\<rparr>) of (Status2, key, w3) \<Rightarrow>
                (if EFI_ERROR Status2
                 then (case oc_Delete (ocl E) PointerValue (SeenPointers s) w3 of (seen2, w4) \<Rightarrow>
                         (Status2, s\<lparr>SeenPointers := seen2, ldr := st\<lparr>mach := w4\<rparr>\<rparr>))
                 else (EFI_SUCCESS, s\<lparr>InstalledKey := InstalledKey s @ [key], ldr := st\<lparr>mach := w3\<rparr>\<rparr>)))))"

definition Process2ndPassCmdAddPointer ::
  "('c, 'd) env \<Rightarrow> QEMU_LOADER_ADD_POINTER \<Rightarrow> ('c, 'd) pass2 \<Rightarrow> (EFI_STATUS \<times> ('c, 'd) pass2) checked" where
  "Process2ndPassCmdAddPointer E AddPointer s =
    (if length (InstalledKey s) > INSTALLED_TABLES_MAX then Ok (EFI_INVALID_PARAMETER, s)
     else let st = ldr s; bl = blobs st
     in case (oc_Find (ocl E) (BlobKeyCompare bl (PointerFile AddPointer)) (Tracker st),
              oc_Find (ocl E) (BlobKeyCompare bl (PointeeFile AddPointer)) (Tracker st)) of
       (Some b, Some b2) \<Rightarrow>
         (let Blob2 = bl b2;
              PointerValue = load_le (ram (mach st)) (Base (bl b) + PointerOffset AddPointer) (PointerSize AddPointer)
          in if \<not> (PointerValue \<ge> Base Blob2) then AssertFailed
             else if \<not> (PointerValue < Base Blob2 + Size Blob2) then AssertFailed
             else case oc_Insert (ocl E) (PointerCompare PointerValue) PointerValue (SeenPointers s) (mach st) of (Status, seen, w1) \<Rightarrow>
               (let s1 = s\<lparr>SeenPointers := seen, ldr := st\<lparr>mach := w1\<rparr>\<rparr>
                in if EFI_ERROR Status then Ok (if Status = EFI_ALREADY_STARTED then EFI_SUCCESS else Status, s1)
                   else Ok (InstallPointer E b2 PointerValue s1)))
     | _ \<Rightarrow> OutOfBounds)"

section \<open>The loader\<close>

text \<open>The first pass from entry \<open>i\<close> on: final status, \<open>WritePointerSubsetEnd\<close>, state.\<close>

fun FirstPass ::
  "('c, 'd) env \<Rightarrow> QEMU_LOADER_ENTRY list \<Rightarrow> 'c \<Rightarrow> QEMU_LOADER_ENTRY list \<Rightarrow> nat \<Rightarrow> nat \<Rightarrow> EFI_STATUS \<Rightarrow> ('c, 'd) ldr
   \<Rightarrow> (EFI_STATUS \<times> nat \<times> ('c, 'd) ldr) run" where
  "FirstPass E script R [] i WritePointerSubsetEnd Status st = Some (Ok (Status, WritePointerSubsetEnd, st))"
| "FirstPass E script R (e # es) i WritePointerSubsetEnd Status st =
    run_bind (case e of
        CmdAllocate c \<Rightarrow> ProcessCmdAllocate E script R c st
      | CmdAddPointer c \<Rightarrow> Some (ProcessCmdAddPointer E c st)
      | CmdAddChecksum c \<Rightarrow> Some (ProcessCmdAddChecksum E c st)
      | CmdWritePointer c \<Rightarrow> ProcessCmdWritePointer E c st
      | CmdUnknown _ \<Rightarrow> Some (Ok (Status, st))) (\<lambda>(Status1, st1).
      let k = (case e of CmdWritePointer _ \<Rightarrow> if EFI_ERROR Status1 then WritePointerSubsetEnd else i + 1 | _ \<Rightarrow> WritePointerSubsetEnd)
      in if EFI_ERROR Status1 then Some (Ok (Status1, k, st1)) else FirstPass E script R es (i + 1) k Status1 st1)"

fun SecondPass ::
  "('c, 'd) env \<Rightarrow> QEMU_LOADER_ENTRY list \<Rightarrow> EFI_STATUS \<Rightarrow> ('c, 'd) pass2 \<Rightarrow> (EFI_STATUS \<times> ('c, 'd) pass2) checked" where
  "SecondPass E [] Status s = Ok (Status, s)"
| "SecondPass E (e # es) Status s =
    (case e of
       CmdAddPointer c \<Rightarrow>
         chk_bind (Process2ndPassCmdAddPointer E c s) (\<lambda>(Status1, s1).
           if EFI_ERROR Status1 then Ok (Status1, s1) else SecondPass E es Status1 s1)
     | _ \<Rightarrow> SecondPass E es Status s)"

text \<open>Label \<open>RollbackWritePointersAndFreeTracker\<close>: undo the written pointers in reverse order.\<close>

fun RollbackWritePointers :: "('c, 'd) env \<Rightarrow> QEMU_LOADER_ENTRY list \<Rightarrow> 'd machine \<Rightarrow> 'd machine run" where
  "RollbackWritePointers E [] w = Some (Ok w)"
| "RollbackWritePointers E (e # es) w =
    (case e of
       CmdWritePointer c \<Rightarrow> run_bind (UndoCmdWritePointer E c w) (RollbackWritePointers E es)
     | _ \<Rightarrow> RollbackWritePointers E es w)"

text \<open>Release of one tracked blob.\<close>

definition ReleaseBlob :: "('c, 'd) env \<Rightarrow> EFI_STATUS \<Rightarrow> (nat \<Rightarrow> BLOB) \<Rightarrow> nat \<Rightarrow> 'c \<times> 'd machine \<Rightarrow> 'c \<times> 'd machine" where
  "ReleaseBlob E Status bl b cw =
    (case oc_Delete (ocl E) b (fst cw) (snd cw) of (c1, w1) \<Rightarrow>
      let w2 = (if EFI_ERROR Status \<or> HostsOnlyTableData (bl b)
                then FreePages (gBS E) (Base (bl b)) (EFI_SIZE_TO_PAGES (Size (bl b))) w1 else w1)
      in (c1, FreePool (gBS E) b w2))"

definition ReleaseTracker :: "('c, 'd) env \<Rightarrow> EFI_STATUS \<Rightarrow> ('c, 'd) ldr \<Rightarrow> 'd machine" where
  "ReleaseTracker E Status st =
    (case fold (ReleaseBlob E Status (blobs st)) (oc_Entries (ocl E) (Tracker st)) (Tracker st, mach st) of
       (c, w) \<Rightarrow> oc_Uninit (ocl E) c w)"

text \<open>From the allocation of the key array to the label \<open>FreeKeys\<close>.\<close>

definition InstallTables ::
  "('c, 'd) env \<Rightarrow> QEMU_LOADER_ENTRY list \<Rightarrow> EFI_STATUS \<Rightarrow> ('c, 'd) ldr \<Rightarrow> (EFI_STATUS \<times> ('c, 'd) ldr) checked" where
  "InstallTables E script Status st =
    (case AllocatePool (gBS E) (INSTALLED_TABLES_MAX * 8) (mach st) of
       (None, w1) \<Rightarrow> Ok (EFI_OUT_OF_RESOURCES, st\<lparr>mach := w1\<rparr>)
     | (Some KeyArray, w1) \<Rightarrow>
         (case oc_Init (ocl E) w1 of
            (None, w2) \<Rightarrow> Ok (EFI_OUT_OF_RESOURCES, st\<lparr>mach := FreePool (gBS E) KeyArray w2\<rparr>)
          | (Some Seen, w2) \<Rightarrow>
              chk_bind (SecondPass E script Status \<lparr>InstalledKey = [], SeenPointers = Seen, ldr = st\<lparr>mach := w2\<rparr>\<rparr>) (\<lambda>(Status1, s).
                let w3 = (if EFI_ERROR Status1 then fold (UninstallAcpiTable (gBS E)) (rev (InstalledKey s)) (mach (ldr s)) else mach (ldr s));
                    w4 = DeleteAll (ocl E) (SeenPointers s) w3
                in Ok (Status1, (ldr s)\<lparr>mach := FreePool (gBS E) KeyArray w4\<rparr>))))"

definition empty_blob :: BLOB where
  "empty_blob = \<lparr>File = [], Size = 0, Base = 0, HostsOnlyTableData = False\<rparr>"

text \<open>Both passes over the script with an empty tracker, and the labels up to the
  release of the tracker.\<close>

definition RunScript ::
  "('c, 'd) env \<Rightarrow> QEMU_LOADER_ENTRY list \<Rightarrow> 'c \<Rightarrow> 'c \<Rightarrow> 'd machine \<Rightarrow> (EFI_STATUS \<times> 'd machine) run" where
  "RunScript E script R T w =
    run_bind (FirstPass E script R script 0 0 EFI_SUCCESS \<lparr>mach = w, blobs = (\<lambda>_. empty_blob), Tracker = T\<rparr>) (\<lambda>(Status1, k, st1).
    run_bind (Some (if EFI_ERROR Status1 then Ok (Status1, st1) else InstallTables E script Status1 st1)) (\<lambda>(Status2, st2).
    run_bind (if EFI_ERROR Status2 then RollbackWritePointers E (rev (take k script)) (mach st2) else Some (Ok (mach st2))) (\<lambda>w1.
      Some (Ok (Status2, ReleaseTracker E Status2 (st2\<lparr>mach := w1\<rparr>))))))"

text \<open>With the script in memory at \<open>LoaderStart\<close>.\<close>

definition ProcessScript ::
  "('c, 'd) env \<Rightarrow> QEMU_LOADER_ENTRY list \<Rightarrow> 'd machine \<Rightarrow> (EFI_STATUS \<times> 'd machine) run" where
  "ProcessScript E script w =
    run_bind (Some (CollectAllocationsRestrictedTo32Bit (ocl E) script w)) (\<lambda>(r, w1).
      case r of
        Inl Status \<Rightarrow> Some (Ok (Status, w1))
      | Inr R \<Rightarrow>
          (case oc_Init (ocl E) w1 of
             (None, w2) \<Rightarrow> Some (Ok (EFI_OUT_OF_RESOURCES, ReleaseAllocationsRestrictedTo32Bit (ocl E) R w2))
           | (Some T, w2) \<Rightarrow>
               run_bind (RunScript E script R T w2) (\<lambda>(Status, w3).
                 Some (Ok (Status, ReleaseAllocationsRestrictedTo32Bit (ocl E) R w3)))))"

definition InstallQemuFwCfgTables :: "('c, 'd) env \<Rightarrow> 'd machine \<Rightarrow> (EFI_STATUS \<times> 'd machine) run" where
  "InstallQemuFwCfgTables E w0 =
    run_bind (fw_FindFile (fwl E) (map (\<lambda>c. of_nat (of_char c)) ''etc/table-loader'') w0) (\<lambda>(r, w1).
    case r of
      Inl Status \<Rightarrow> Some (Ok (Status, w1))
    | Inr (FwCfgItem, FwCfgSize) \<Rightarrow>
        (if FwCfgSize mod sizeof_LOADER_ENTRY \<noteq> 0 then Some (Ok (EFI_PROTOCOL_ERROR, w1))
         else case AllocatePool (gBS E) FwCfgSize w1 of
           (None, w2) \<Rightarrow> Some (Ok (EFI_OUT_OF_RESOURCES, w2))
         | (Some LoaderStart, w2) \<Rightarrow>
             run_bind (Some (EnablePciDecoding (pcs E) w2)) (\<lambda>(OriginalPciAttributes, w3).
             run_bind (fw_ReadBytes (fwl E) FwCfgSize LoaderStart (fw_SelectItem (fwl E) FwCfgItem w3)) (\<lambda>w4.
             run_bind (Some (RestorePciDecoding (pcs E) OriginalPciAttributes w4)) (\<lambda>w5.
             run_bind (ProcessScript E (script_at (ram w5) LoaderStart (FwCfgSize div sizeof_LOADER_ENTRY)) w5) (\<lambda>(Status, w6).
               Some (Ok (Status, FreePool (gBS E) LoaderStart w6))))))))"

section \<open>Relocation and checksums\<close>

lemma relocated_fits:
  assumes n: "pointer_size_ok n" and v: "v < sz" "v < 2 ^ 64" and b: "base \<le> MAX_ADDRESS - sz"
    and r: "\<not> unrepresentable n ((v + base) mod 2 ^ 64)"
  shows "(v + base) mod 2 ^ 64 = v + base" "v + base < 256 ^ n"
proof -
  have "v + base < 2 ^ 64"
  proof (cases "sz \<le> MAX_ADDRESS")
    case True
    then have "base + sz \<le> 2 ^ 64 - 1" using b by (simp add: MAX_ADDRESS_def)
    then show ?thesis using v(1) by simp
  next
    case False
    then have "base = 0" using b by simp
    then show ?thesis using v(2) by simp
  qed
  then show m: "(v + base) mod 2 ^ 64 = v + base" by simp
  show "v + base < 256 ^ n"
  proof (cases "n = 8")
    case True
    then show ?thesis using \<open>v + base < 2 ^ 64\<close> by simp
  next
    case False
    then have "(v + base) div 2 ^ (n * 8) = 0" using n r m by (auto simp: unrepresentable_def pointer_size_ok_def)
    then have "v + base < 2 ^ (n * 8)" by (simp add: div_eq_0_iff)
    then show ?thesis by (simp add: mult.commute [of n] power_mult)
  qed
qed

lemma sum_list_update8: "i < length xs \<Longrightarrow> sum_list (xs[i := x]) = sum_list xs - xs ! i + (x :: u8)"
  by (induction xs arbitrary: i) (auto split: nat.splits)

lemma load_bytes_upd:
  assumes "p \<le> a" "a < p + n"
  shows "load_bytes (m(a := v)) p n = (load_bytes m p n)[a - p := v]"
  using assms by (intro nth_equalityI) (auto simp: nth_load_bytes nth_list_update)

section \<open>A concrete environment\<close>

text \<open>
  Services for the witnesses: the device state is the selected item and the list of
  resources held, a new block gets a number above all others, and a collection is
  the list of its structures.
\<close>

datatype resource = Pages nat nat | Pool nat | Table nat

fun res_id :: "resource \<Rightarrow> nat" where
  "res_id (Pages a n) = a"
| "res_id (Pool p) = p"
| "res_id (Table k) = k"

type_synonym demo_world = "(u16 \<times> resource list) machine"

definition fresh :: "demo_world \<Rightarrow> nat" where
  "fresh w = Suc (sum_list (map res_id (snd (dev w))))"

definition add_res :: "resource \<Rightarrow> demo_world \<Rightarrow> demo_world" where
  "add_res r w = w\<lparr>dev := (fst (dev w), r # snd (dev w))\<rparr>"

definition del_res :: "resource \<Rightarrow> demo_world \<Rightarrow> demo_world" where
  "del_res r w = w\<lparr>dev := (fst (dev w), removeAll r (snd (dev w)))\<rparr>"

definition demo_bs :: "demo_world boot_services" where
  "demo_bs = \<lparr>AllocatePages = (\<lambda>x n w. let a = 4096 * fresh w in (EFI_SUCCESS, a, add_res (Pages a n) w)),
     FreePages = (\<lambda>a n. del_res (Pages a n)),
     AllocatePool = (\<lambda>n w. (Some (fresh w), add_res (Pool (fresh w)) w)),
     FreePool = (\<lambda>p. del_res (Pool p)),
     InstallAcpiTable = (\<lambda>a n w. (EFI_SUCCESS, fresh w, add_res (Table (fresh w)) w)),
     UninstallAcpiTable = (\<lambda>k. del_res (Table k))\<rparr>"

definition demo_oc :: "(nat list, demo_world) oc_lib" where
  "demo_oc = \<lparr>oc_Init = (\<lambda>w. (Some [], w)),
     oc_Insert = (\<lambda>f p c w. if list_ex (\<lambda>q. f q = 0) c then (EFI_ALREADY_STARTED, c, w) else (EFI_SUCCESS, p # c, w)),
     oc_Find = (\<lambda>f c. find (\<lambda>q. f q = 0) c), oc_Entries = (\<lambda>c. c), oc_Delete = (\<lambda>p c w. (removeAll p c, w)), oc_Uninit = (\<lambda>c w. w)\<rparr>"

definition demo_pcs :: "demo_world pci_services" where
  "demo_pcs = \<lparr>PcdPciDisableBusEnumeration = True, LocatePciHandles = (\<lambda>w. (EFI_NOT_FOUND, [], w)), HandlePciIo = (\<lambda>h w. (EFI_SUCCESS, h, w)),
     PciIo_Attributes = (\<lambda>f d a w. (EFI_SUCCESS, 0, w)), AllocateAttributes = (\<lambda>n w. (True, w)), FreeAttributes = id, FreeHandles = id\<rparr>"

definition demo_lib :: "(u16 \<Rightarrow> u8 list) \<Rightarrow> (u8 list \<Rightarrow> (u16 \<times> nat) option) \<Rightarrow> (u16 \<times> resource list) fw_lib" where
  "demo_lib items dir = \<lparr>fw_FindFile = (\<lambda>nm w. Some (Ok (case dir nm of None \<Rightarrow> Inl EFI_NOT_FOUND | Some e \<Rightarrow> Inr e, w))),
     fw_SelectItem = (\<lambda>k w. w\<lparr>dev := (k, snd (dev w))\<rparr>),
     fw_ReadBytes = (\<lambda>n p w. Some (Ok (store p (take n (items (fst (dev w)))) w))),
     fw_SkipBytes = (\<lambda>n w. Some (Ok w)), fw_WriteBytes = (\<lambda>n p w. Some (Ok w)), PointerValueAddress = 0\<rparr>"

definition demo_env :: "(u16 \<Rightarrow> u8 list) \<Rightarrow> (u8 list \<Rightarrow> (u16 \<times> nat) option) \<Rightarrow> (nat list, u16 \<times> resource list) env" where
  "demo_env items dir = \<lparr>fwl = demo_lib items dir, gBS = demo_bs, ocl = demo_oc, pcs = demo_pcs, MDE_CPU_AARCH64 = False\<rparr>"

text \<open>Two tracked blobs \<open>A\<close> (16 bytes at 4096) and \<open>B\<close> (32 bytes at 8192).\<close>

definition demo_name :: "u8 \<Rightarrow> u8 list" where
  "demo_name c = c # replicate 55 0"

definition demo_ldr :: "mem \<Rightarrow> (nat list, u16 \<times> resource list) ldr" where
  "demo_ldr m = \<lparr>mach = \<lparr>ram = m, dev = (0, [])\<rparr>,
     blobs = (\<lambda>p. if p = 1 then \<lparr>File = demo_name 0x41, Size = 16, Base = 4096, HostsOnlyTableData = True\<rparr>
                  else \<lparr>File = demo_name 0x42, Size = 32, Base = 8192, HostsOnlyTableData = True\<rparr>),
     Tracker = [1, 2]\<rparr>"

definition demo_ptr :: QEMU_LOADER_ADD_POINTER where
  "demo_ptr = \<lparr>PointerFile = demo_name 0x41, PointeeFile = demo_name 0x42, PointerOffset = 4, PointerSize = 4\<rparr>"

definition demo_cs :: "nat \<Rightarrow> QEMU_LOADER_ADD_CHECKSUM" where
  "demo_cs off = \<lparr>cs_File = demo_name 0x41, ResultOffset = off, Start = 0, cs_Length = 16\<rparr>"

lemma demo_find:
  "oc_Find demo_oc (BlobKeyCompare (blobs (demo_ldr m)) (demo_name 0x41)) [1, 2] = Some 1"
  "oc_Find demo_oc (BlobKeyCompare (blobs (demo_ldr m)) (demo_name 0x42)) [1, 2] = Some 2"
  by code_simp+

lemma demo_name_ok: "name_ok (demo_name c)"
  by (simp add: name_ok_def demo_name_def QEMU_LOADER_FNAME_SIZE_def numeral_eq_Suc)

text \<open>The demonstration memory: the pointer at 4100 holds the offset 8.\<close>

definition demo_mem :: mem where
  "demo_mem = (\<lambda>a. if a = 4100 then 8 else 0)"

lemma demo_ldr_sel [simp]:
  "blobs (demo_ldr m) (Suc 0) = \<lparr>File = demo_name 0x41, Size = 16, Base = 4096, HostsOnlyTableData = True\<rparr>"
  "blobs (demo_ldr m) 2 = \<lparr>File = demo_name 0x42, Size = 32, Base = 8192, HostsOnlyTableData = True\<rparr>"
  "Tracker (demo_ldr m) = [1, 2]" "ram (mach (demo_ldr m)) = m"
  "(demo_ldr m)\<lparr>mach := (mach (demo_ldr m))\<lparr>ram := m'\<rparr>\<rparr> = demo_ldr m'"
  by (simp_all add: demo_ldr_def)

lemma demo_ldr_eq [simp]: "demo_ldr m = demo_ldr m' \<longleftrightarrow> m = m'"
  by (metis demo_ldr_sel(4))

lemma demo_env_sel [simp]: "ocl (demo_env i d) = demo_oc" "gBS (demo_env i d) = demo_bs" "fwl (demo_env i d) = demo_lib i d"
  by (simp_all add: demo_env_def)

lemma demo_add_pointer:
  "ProcessCmdAddPointer (demo_env i d) demo_ptr (demo_ldr demo_mem) = Ok (EFI_SUCCESS, demo_ldr (store_le demo_mem 4100 4 8200))"
proof -
  have "load_le demo_mem 4100 4 = 8" by code_simp
  then show ?thesis
    using demo_find [of demo_mem]
    by (simp add: ProcessCmdAddPointer_def demo_ptr_def demo_name_ok Let_def pointer_size_ok_def unrepresentable_def MAX_ADDRESS_def)
qed

section \<open>Properties\<close>

text \<open>
  Property C24. \<open>ProcessCmdAddPointer\<close> relocates exactly one field: on success the
  field lies inside the pointer blob, its value has grown by the base of the pointee
  blob without wrapping and now points into that blob, and no other byte, blob or
  device state changed; on error nothing changed at all.
\<close>

theorem ProcessCmdAddPointer_relocates:
  assumes "ProcessCmdAddPointer E c st = Ok (Status, st')"
  shows "if EFI_ERROR Status then st' = st else
    (\<exists>b b2 m'. oc_Find (ocl E) (BlobKeyCompare (blobs st) (PointerFile c)) (Tracker st) = Some b \<and>
       oc_Find (ocl E) (BlobKeyCompare (blobs st) (PointeeFile c)) (Tracker st) = Some b2 \<and>
       st' = st\<lparr>mach := (mach st)\<lparr>ram := m'\<rparr>\<rparr> \<and>
       (let p = Base (blobs st b) + PointerOffset c; n = PointerSize c; B2 = blobs st b2
        in p + n \<le> Base (blobs st b) + Size (blobs st b) \<and>
           load_le m' p n = load_le (ram (mach st)) p n + Base B2 \<and> load_le m' p n < Base B2 + Size B2 \<and>
           (\<forall>a. a < p \<or> p + n \<le> a \<longrightarrow> m' a = ram (mach st) a)))"
proof (cases "EFI_ERROR Status")
  case True
  then show ?thesis using assms by (auto simp: ProcessCmdAddPointer_def Let_def split: if_splits option.splits)
next
  case False
  obtain b b2 where f: "oc_Find (ocl E) (BlobKeyCompare (blobs st) (PointerFile c)) (Tracker st) = Some b"
    "oc_Find (ocl E) (BlobKeyCompare (blobs st) (PointeeFile c)) (Tracker st) = Some b2"
    using assms False by (auto simp: ProcessCmdAddPointer_def split: if_splits option.splits)
  define p n v base sz where "p = Base (blobs st b) + PointerOffset c" and "n = PointerSize c"
    and "v = load_le (ram (mach st)) p n" and "base = Base (blobs st b2)" and "sz = Size (blobs st b2)"
  have g: "pointer_size_ok n" "\<not> Size (blobs st b) < n" "\<not> Size (blobs st b) - n < PointerOffset c" "v < sz" "base \<le> MAX_ADDRESS - sz"
    "\<not> unrepresentable n ((v + base) mod 2 ^ 64)"
    and st': "st' = st\<lparr>mach := (mach st)\<lparr>ram := store_le (ram (mach st)) p n ((v + base) mod 2 ^ 64)\<rparr>\<rparr>"
    using assms False f by (auto simp: ProcessCmdAddPointer_def Let_def p_def n_def v_def base_def sz_def split: if_splits)
  have "v < 256 ^ n" unfolding v_def by (rule load_le_less)
  also have "(256 :: nat) ^ n \<le> 256 ^ 8" using g(1) by (auto simp: pointer_size_ok_def)
  finally have "v < 2 ^ 64" by simp
  note fits = relocated_fits [OF g(1,4) this g(5,6)]
  let ?m = "store_le (ram (mach st)) p n (v + base)"
  have "load_le ?m p n = v + base" using fits(2) by (simp add: load_le_store_le_same)
  moreover have "p + n \<le> Base (blobs st b) + Size (blobs st b)" using g(2,3) by (simp add: p_def)
  moreover have "\<forall>a. a < p \<or> p + n \<le> a \<longrightarrow> ?m a = ram (mach st) a" by (simp add: store_le_other)
  moreover have "v + base < base + sz" using g(4) by simp
  ultimately show ?thesis using False f st' fits(1) unfolding p_def n_def v_def base_def sz_def Let_def by auto
qed

theorem ProcessCmdAddPointer_relocates_witness:
  "\<exists>st'. ProcessCmdAddPointer (demo_env (\<lambda>_. []) (\<lambda>_. None)) demo_ptr (demo_ldr demo_mem) = Ok (EFI_SUCCESS, st') \<and>
     load_le (ram (mach st')) 4100 4 = 8200"
proof -
  have l: "load_le demo_mem 4100 4 = 8" by code_simp
  from ProcessCmdAddPointer_relocates [OF demo_add_pointer [of "\<lambda>_. []" "\<lambda>_. None"]]
  have "load_le (ram (mach (demo_ldr (store_le demo_mem 4100 4 8200)))) 4100 4 = 8200"
    using l demo_find [of demo_mem] by (auto simp: Let_def demo_ptr_def)
  then show ?thesis using demo_add_pointer by blast
qed

text \<open>
  Property C32. \<open>ProcessCmdAddChecksum\<close> makes the range sum to zero: when the result
  byte lies in the checksummed range and was zero, the sum of the range is zero
  afterwards; only that byte, which is inside the blob, changes.
\<close>

theorem ProcessCmdAddChecksum_zero_sum:
  assumes "ProcessCmdAddChecksum E c st = Ok (EFI_SUCCESS, st')"
    and "oc_Find (ocl E) (BlobKeyCompare (blobs st) (cs_File c)) (Tracker st) = Some b"
    and "Start c \<le> ResultOffset c" and "ResultOffset c < Start c + cs_Length c"
    and "ram (mach st) (Base (blobs st b) + ResultOffset c) = 0"
  shows "CalculateSum8 (load_bytes (ram (mach st')) (Base (blobs st b) + Start c) (cs_Length c)) = 0 \<and>
    ResultOffset c < Size (blobs st b) \<and> (\<forall>a. a \<noteq> Base (blobs st b) + ResultOffset c \<longrightarrow> ram (mach st') a = ram (mach st) a)"
proof -
  let ?m = "ram (mach st)" and ?p = "Base (blobs st b) + Start c" and ?q = "Base (blobs st b) + ResultOffset c" and ?n = "cs_Length c"
  have st': "st' = st\<lparr>mach := (mach st)\<lparr>ram := ?m(?q := CalculateCheckSum8 (load_bytes ?m ?p ?n))\<rparr>\<rparr>" "ResultOffset c < Size (blobs st b)"
    using assms(1,2) by (auto simp: ProcessCmdAddChecksum_def Let_def split: if_splits)
  have i: "?q - ?p < length (load_bytes ?m ?p ?n)" using assms(3,4) by simp
  have z: "load_bytes ?m ?p ?n ! (?q - ?p) = 0" using assms(3-5) by (simp add: nth_load_bytes)
  have "load_bytes (ram (mach st')) ?p ?n = (load_bytes ?m ?p ?n)[?q - ?p := CalculateCheckSum8 (load_bytes ?m ?p ?n)]"
    using load_bytes_upd [of ?p ?q ?n ?m] assms(3,4) by (simp add: st'(1))
  then have "CalculateSum8 (load_bytes (ram (mach st')) ?p ?n) = 0"
    using sum_list_update8 [OF i] z by (simp add: CalculateSum8_def CalculateCheckSum8_def)
  then show ?thesis using st' by simp
qed

theorem ProcessCmdAddChecksum_zero_sum_witness:
  "\<exists>st'. ProcessCmdAddChecksum (demo_env (\<lambda>_. []) (\<lambda>_. None)) (demo_cs 9) (demo_ldr demo_mem) = Ok (EFI_SUCCESS, st') \<and>
     CalculateSum8 (load_bytes (ram (mach st')) 4096 16) = 0"
proof -
  let ?E = "demo_env (\<lambda>_. []) (\<lambda>_. None)" and ?st = "demo_ldr demo_mem"
  have f: "oc_Find (ocl ?E) (BlobKeyCompare (blobs ?st) (cs_File (demo_cs 9))) (Tracker ?st) = Some 1" by code_simp
  have "(case ProcessCmdAddChecksum ?E (demo_cs 9) ?st of Ok (s, _) \<Rightarrow> s = EFI_SUCCESS | _ \<Rightarrow> False)" by code_simp
  then obtain st' where r: "ProcessCmdAddChecksum ?E (demo_cs 9) ?st = Ok (EFI_SUCCESS, st')" by (auto split: checked.splits)
  from ProcessCmdAddChecksum_zero_sum [OF r f] r show ?thesis by (auto simp: demo_cs_def demo_mem_def)
qed

lemma load_le_top_byte: "unat (m (p + 3)) * 2 ^ 24 \<le> load_le m p 4"
proof -
  have "load_bytes m p 4 = [m p, m (p + 1), m (p + 2), m (p + 3)]" by (simp add: load_bytes_def upt_rec numeral_3_eq_3)
  then show ?thesis by (simp add: load_le_def)
qed

text \<open>
  The second pass trusts a value that a later command can change: a
  script whose checksum command stores its result into the top byte of an already
  relocated pointer passes the first pass, and the second pass then fails its
  assertion that the pointer lies in the pointee blob.
\<close>

theorem Process2ndPass_assertion_reachable:
  "\<exists>st1 st2. ProcessCmdAddPointer (demo_env (\<lambda>_. []) (\<lambda>_. None)) demo_ptr (demo_ldr demo_mem) = Ok (EFI_SUCCESS, st1) \<and>
     ProcessCmdAddChecksum (demo_env (\<lambda>_. []) (\<lambda>_. None)) (demo_cs 7) st1 = Ok (EFI_SUCCESS, st2) \<and>
     Process2ndPassCmdAddPointer (demo_env (\<lambda>_. []) (\<lambda>_. None)) demo_ptr \<lparr>InstalledKey = [], SeenPointers = [], ldr = st2\<rparr> = AssertFailed"
proof -
  let ?E = "demo_env (\<lambda>_. []) (\<lambda>_. None)"
  define m where "m = store_le demo_mem 4100 4 8200"
  define m2 where "m2 = m(4103 := CalculateCheckSum8 (load_bytes m 4096 16))"
  have 2: "ProcessCmdAddChecksum ?E (demo_cs 7) (demo_ldr m) = Ok (EFI_SUCCESS, demo_ldr m2)"
    using demo_find [of m] by (simp add: ProcessCmdAddChecksum_def demo_cs_def demo_name_ok Let_def m2_def)
  have "le_bytes (Suc (Suc (Suc (Suc 0)))) 8200 = [8, 0x20, 0, 0]" by simp
  moreover have "Suc (Suc (Suc (Suc 0))) = 4" by simp
  ultimately have "m = store_bytes demo_mem 4100 [8, 0x20, 0, 0]" by (simp add: m_def store_le_def)
  moreover have "CalculateCheckSum8 (load_bytes (store_bytes demo_mem 4100 [8, 0x20, 0, 0]) 4096 16) = 0xD8" by code_simp
  ultimately have "m2 4103 = 0xD8" by (simp add: m2_def)
  then have "8224 \<le> load_le m2 4100 4" using load_le_top_byte [of m2 4100] by simp
  then have "Process2ndPassCmdAddPointer ?E demo_ptr \<lparr>InstalledKey = [], SeenPointers = [], ldr = demo_ldr m2\<rparr> = AssertFailed"
    using demo_find [of m2] by (simp add: Process2ndPassCmdAddPointer_def demo_ptr_def Let_def)
  then show ?thesis using demo_add_pointer [of "\<lambda>_. []" "\<lambda>_. None", folded m_def] 2 by blast
qed

end
