(* ===== verification/AcpiResources.thy ===== *)
theory AcpiResources
  imports AcpiLoader "HOL-Library.Code_Target_Nat"
begin

text \<open>
  Resource accounting of the ACPI table loader: what it allocates, installs and
  tracks, an invariant that every command and both passes keep, and the proof that
  the labels at the end of \<open>InstallQemuFwCfgTables\<close> give everything back.
\<close>

section \<open>Resources\<close>

text \<open>
  Pages, pool blocks and installed tables that this driver holds, observed by \<open>res\<close>.
  What the code relies on of the services: an allocation that succeeds returns
  something not held before, a release gives back exactly its argument, and nothing
  else changes what is held (the collection library's own nodes are not observed).
\<close>

definition fw_keeps :: "'d fw_lib \<Rightarrow> ('d machine \<Rightarrow> resource set) \<Rightarrow> bool" where
  "fw_keeps f res \<longleftrightarrow> (\<forall>w m. res (w\<lparr>ram := m\<rparr>) = res w) \<and> (\<forall>k w. res (fw_SelectItem f k w) = res w) \<and>
     (\<forall>nm w r w'. fw_FindFile f nm w = Some (Ok (r, w')) \<longrightarrow> res w' = res w) \<and>
     (\<forall>n p w w'. fw_ReadBytes f n p w = Some (Ok w') \<longrightarrow> res w' = res w) \<and>
     (\<forall>n w w'. fw_SkipBytes f n w = Some (Ok w') \<longrightarrow> res w' = res w) \<and>
     (\<forall>n p w w'. fw_WriteBytes f n p w = Some (Ok w') \<longrightarrow> res w' = res w)"

definition bs_ok :: "'w boot_services \<Rightarrow> ('w \<Rightarrow> resource set) \<Rightarrow> bool" where
  "bs_ok b res \<longleftrightarrow>
     (\<forall>x n w s a w'. AllocatePages b x n w = (s, a, w') \<longrightarrow> EFI_ERROR s \<longrightarrow> res w' = res w) \<and>
     (\<forall>x n w s a w'. AllocatePages b x n w = (s, a, w') \<longrightarrow> \<not> EFI_ERROR s \<longrightarrow> Pages a n \<notin> res w \<and> res w' = insert (Pages a n) (res w)) \<and>
     (\<forall>a n w. res (FreePages b a n w) = res w - {Pages a n}) \<and>
     (\<forall>n w w'. AllocatePool b n w = (None, w') \<longrightarrow> res w' = res w) \<and>
     (\<forall>n w q w'. AllocatePool b n w = (Some q, w') \<longrightarrow> Pool q \<notin> res w \<and> res w' = insert (Pool q) (res w)) \<and>
     (\<forall>p w. res (FreePool b p w) = res w - {Pool p}) \<and>
     (\<forall>a n w s k w'. InstallAcpiTable b a n w = (s, k, w') \<longrightarrow> EFI_ERROR s \<longrightarrow> res w' = res w) \<and>
     (\<forall>a n w s k w'. InstallAcpiTable b a n w = (s, k, w') \<longrightarrow> \<not> EFI_ERROR s \<longrightarrow> Table k \<notin> res w \<and> res w' = insert (Table k) (res w)) \<and>
     (\<forall>k w. res (UninstallAcpiTable b k w) = res w - {Table k})"

definition oc_ok :: "('c, 'w) oc_lib \<Rightarrow> ('w \<Rightarrow> resource set) \<Rightarrow> bool" where
  "oc_ok oc res \<longleftrightarrow>
     (\<forall>w c w'. oc_Init oc w = (c, w') \<longrightarrow> res w' = res w) \<and> (\<forall>w x w'. oc_Init oc w = (Some x, w') \<longrightarrow> oc_Entries oc x = []) \<and>
     (\<forall>f p c w s c' w'. oc_Insert oc f p c w = (s, c', w') \<longrightarrow> res w' = res w) \<and>
     (\<forall>f p c w s c' w'. oc_Insert oc f p c w = (s, c', w') \<longrightarrow>
        set (oc_Entries oc c') = (if EFI_ERROR s then set (oc_Entries oc c) else insert p (set (oc_Entries oc c)))) \<and>
     (\<forall>p c w. res (snd (oc_Delete oc p c w)) = res w) \<and> (\<forall>c w. res (oc_Uninit oc c w) = res w)"

definition pci_keeps :: "'w pci_services \<Rightarrow> ('w \<Rightarrow> resource set) \<Rightarrow> bool" where
  "pci_keeps sv res \<longleftrightarrow> (\<forall>w. res (snd (snd (LocatePciHandles sv w))) = res w) \<and> (\<forall>h w. res (snd (snd (HandlePciIo sv h w))) = res w) \<and>
     (\<forall>f d a w. res (snd (snd (PciIo_Attributes sv f d a w))) = res w) \<and> (\<forall>n w. res (snd (AllocateAttributes sv n w)) = res w) \<and>
     (\<forall>w. res (FreeAttributes sv w) = res w) \<and> (\<forall>w. res (FreeHandles sv w) = res w)"

definition env_ok :: "('c, 'd) env \<Rightarrow> ('d machine \<Rightarrow> resource set) \<Rightarrow> bool" where
  "env_ok E res \<longleftrightarrow> fw_keeps (fwl E) res \<and> bs_ok (gBS E) res \<and> oc_ok (ocl E) res \<and> pci_keeps (pcs E) res"

text \<open>What the tracked blobs hold.\<close>

definition blob_res :: "(nat \<Rightarrow> BLOB) \<Rightarrow> nat \<Rightarrow> resource set" where
  "blob_res bl b = {Pool b, Pages (Base (bl b)) (EFI_SIZE_TO_PAGES (Size (bl b)))}"

definition tracked :: "('c, 'd) env \<Rightarrow> ('c, 'd) ldr \<Rightarrow> nat set" where
  "tracked E st = set (oc_Entries (ocl E) (Tracker st))"

definition held :: "('c, 'd) env \<Rightarrow> ('c, 'd) ldr \<Rightarrow> resource set" where
  "held E st = (\<Union>b \<in> tracked E st. blob_res (blobs st) b)"

definition ldr_inv :: "('c, 'd) env \<Rightarrow> ('d machine \<Rightarrow> resource set) \<Rightarrow> resource set \<Rightarrow> ('c, 'd) ldr \<Rightarrow> bool" where
  "ldr_inv E res R st \<longleftrightarrow> res (mach st) = R \<union> held E st \<and> R \<inter> held E st = {}"

lemma held_mach [simp]: "held E (st\<lparr>mach := w\<rparr>) = held E st"
  by (simp add: held_def tracked_def)

lemma ldr_inv_mach: "ldr_inv E res R st \<Longrightarrow> res w = res (mach st) \<Longrightarrow> ldr_inv E res R (st\<lparr>mach := w\<rparr>)"
  by (simp add: ldr_inv_def)

lemma held_no_table: "Table k \<notin> held E st"
  by (auto simp: held_def blob_res_def)

lemma held_hosts: "held E (st\<lparr>mach := w, blobs := (blobs st)(b := (blobs st b)\<lparr>HostsOnlyTableData := v\<rparr>)\<rparr>) = held E st"
  by (auto simp: held_def tracked_def blob_res_def)

lemma env_okD:
  assumes "env_ok E res"
  shows "fw_keeps (fwl E) res" "bs_ok (gBS E) res" "oc_ok (ocl E) res" "pci_keeps (pcs E) res"
  using assms by (simp_all add: env_ok_def)

text \<open>The laws, one fact each.\<close>

lemmas env_fw =
  fw_keeps_def [THEN iffD1, OF env_okD(1), THEN conjunct1, rule_format]
  fw_keeps_def [THEN iffD1, OF env_okD(1), THEN conjunct2, THEN conjunct1, rule_format]
  fw_keeps_def [THEN iffD1, OF env_okD(1), THEN conjunct2, THEN conjunct2, THEN conjunct1, rule_format]
  fw_keeps_def [THEN iffD1, OF env_okD(1), THEN conjunct2, THEN conjunct2, THEN conjunct2, THEN conjunct1, rule_format]
  fw_keeps_def [THEN iffD1, OF env_okD(1), THEN conjunct2, THEN conjunct2, THEN conjunct2, THEN conjunct2, THEN conjunct1, rule_format]
  fw_keeps_def [THEN iffD1, OF env_okD(1), THEN conjunct2, THEN conjunct2, THEN conjunct2, THEN conjunct2, THEN conjunct2, rule_format]

lemmas env_bs =
  bs_ok_def [THEN iffD1, OF env_okD(2), THEN conjunct1, rule_format]
  bs_ok_def [THEN iffD1, OF env_okD(2), THEN conjunct2, THEN conjunct1, rule_format]
  bs_ok_def [THEN iffD1, OF env_okD(2), THEN conjunct2, THEN conjunct2, THEN conjunct1, rule_format]
  bs_ok_def [THEN iffD1, OF env_okD(2), THEN conjunct2, THEN conjunct2, THEN conjunct2, THEN conjunct1, rule_format]
  bs_ok_def [THEN iffD1, OF env_okD(2), THEN conjunct2, THEN conjunct2, THEN conjunct2, THEN conjunct2, THEN conjunct1, rule_format]
  bs_ok_def [THEN iffD1, OF env_okD(2), THEN conjunct2, THEN conjunct2, THEN conjunct2, THEN conjunct2, THEN conjunct2, THEN conjunct1, rule_format]
  bs_ok_def [THEN iffD1, OF env_okD(2), THEN conjunct2, THEN conjunct2, THEN conjunct2, THEN conjunct2, THEN conjunct2, THEN conjunct2, THEN conjunct1, rule_format]
  bs_ok_def [THEN iffD1, OF env_okD(2), THEN conjunct2, THEN conjunct2, THEN conjunct2, THEN conjunct2, THEN conjunct2, THEN conjunct2, THEN conjunct2, THEN conjunct1, rule_format]
  bs_ok_def [THEN iffD1, OF env_okD(2), THEN conjunct2, THEN conjunct2, THEN conjunct2, THEN conjunct2, THEN conjunct2, THEN conjunct2, THEN conjunct2, THEN conjunct2, rule_format]

lemmas env_oc =
  oc_ok_def [THEN iffD1, OF env_okD(3), THEN conjunct1, rule_format]
  oc_ok_def [THEN iffD1, OF env_okD(3), THEN conjunct2, THEN conjunct1, rule_format]
  oc_ok_def [THEN iffD1, OF env_okD(3), THEN conjunct2, THEN conjunct2, THEN conjunct1, rule_format]
  oc_ok_def [THEN iffD1, OF env_okD(3), THEN conjunct2, THEN conjunct2, THEN conjunct2, THEN conjunct1, rule_format]
  oc_ok_def [THEN iffD1, OF env_okD(3), THEN conjunct2, THEN conjunct2, THEN conjunct2, THEN conjunct2, THEN conjunct1, rule_format]
  oc_ok_def [THEN iffD1, OF env_okD(3), THEN conjunct2, THEN conjunct2, THEN conjunct2, THEN conjunct2, THEN conjunct2, rule_format]

lemmas env_pci =
  pci_keeps_def [THEN iffD1, OF env_okD(4), THEN conjunct1, rule_format]
  pci_keeps_def [THEN iffD1, OF env_okD(4), THEN conjunct2, THEN conjunct1, rule_format]
  pci_keeps_def [THEN iffD1, OF env_okD(4), THEN conjunct2, THEN conjunct2, THEN conjunct1, rule_format]
  pci_keeps_def [THEN iffD1, OF env_okD(4), THEN conjunct2, THEN conjunct2, THEN conjunct2, THEN conjunct1, rule_format]
  pci_keeps_def [THEN iffD1, OF env_okD(4), THEN conjunct2, THEN conjunct2, THEN conjunct2, THEN conjunct2, THEN conjunct1, rule_format]
  pci_keeps_def [THEN iffD1, OF env_okD(4), THEN conjunct2, THEN conjunct2, THEN conjunct2, THEN conjunct2, THEN conjunct2, rule_format]

lemma env_delete: "env_ok E res \<Longrightarrow> oc_Delete (ocl E) p y w = (y', w') \<Longrightarrow> res w' = res w"
  by (metis env_oc(5) snd_conv)

subsection \<open>First pass\<close>

lemma fold_pair_res:
  assumes "\<And>u c w. res (snd (oc_Delete oc u c w)) = res w"
  shows "res (snd (fold (\<lambda>u (c, w). oc_Delete oc u c w) us (c, w))) = res w"
proof (induction us arbitrary: c w)
  case Nil
  then show ?case by simp
next
  case (Cons u us)
  obtain c1 w1 where "oc_Delete oc u c w = (c1, w1)" by (cases "oc_Delete oc u c w")
  then show ?case using Cons [of c1 w1] assms [of u c w] by simp
qed

lemma DeleteAll_res: "env_ok E res \<Longrightarrow> res (DeleteAll (ocl E) c w) = res w"
  using fold_pair_res [of res "ocl E" "oc_Entries (ocl E) c" c w] env_oc(5,6) [of E res]
  by (simp add: DeleteAll_def case_prod_beta)

lemma AllocateBlob_inv:
  assumes ok: "env_ok E res" and inv: "ldr_inv E res R st0" "Pages Addr (EFI_SIZE_TO_PAGES n) \<notin> res (mach st0)"
    and w: "res w = insert (Pages Addr (EFI_SIZE_TO_PAGES n)) (res (mach st0))"
    and run: "AllocateBlob E A item n Addr (st0\<lparr>mach := w\<rparr>) = Some (Ok (s, st'))"
  shows "ldr_inv E res R st'"
proof -
  let ?N = "EFI_SIZE_TO_PAGES n"
  obtain q w3 where q: "AllocatePool (gBS E) sizeof_BLOB w = (q, w3)" by (cases "AllocatePool (gBS E) sizeof_BLOB w")
  show ?thesis
  proof (cases q)
    case None
    then show ?thesis using run q w inv by (auto simp: AllocateBlob_def ldr_inv_def env_bs [OF ok] dest: env_bs(4) [OF ok])
  next
    case (Some b)
    let ?bl = "(blobs st0)(b := \<lparr>File = al_File A, Size = n, Base = Addr, HostsOnlyTableData = True\<rparr>)"
    obtain s1 c w4 where i: "oc_Insert (ocl E) (BlobCompare ?bl b) b (Tracker st0) w3 = (s1, c, w4)"
      by (cases "oc_Insert (ocl E) (BlobCompare ?bl b) b (Tracker st0) w3") auto
    have p: "Pool b \<notin> res w" "res w3 = insert (Pool b) (res w)" using env_bs(5) [OF ok] q Some by auto
    have r4: "res w4 = res w3" by (rule env_oc(3) [OF ok i])
    note ent = env_oc(4) [OF ok i]
    have fresh: "b \<notin> tracked E st0" using p(1) w inv(1) by (auto simp: ldr_inv_def held_def blob_res_def)
    have h: "(\<Union>x \<in> tracked E st0. blob_res ?bl x) = held E st0" using fresh by (auto simp: held_def blob_res_def)
    show ?thesis
    proof (cases "EFI_ERROR s1")
      case True
      then have st': "st' = st0\<lparr>mach := FreePages (gBS E) Addr ?N (FreePool (gBS E) b w4), blobs := ?bl, Tracker := c\<rparr>"
        using run q Some i by (auto simp: AllocateBlob_def Let_def split: if_splits)
      have "held E st' = held E st0" using ent True h by (simp add: st' held_def tracked_def)
      then show ?thesis using p r4 w inv by (auto simp: ldr_inv_def st' env_bs [OF ok])
    next
      case False
      then obtain w5 where r5: "fw_ReadBytes (fwl E) n Addr (fw_SelectItem (fwl E) item w4) = Some (Ok w5)"
        and st': "st' = st0\<lparr>mach := w5\<lparr>ram := set_mem (ram w5) (Addr + n) (EFI_PAGES_TO_SIZE ?N - n) 0\<rparr>, blobs := ?bl, Tracker := c\<rparr>"
        using run q Some i by (auto simp: AllocateBlob_def Let_def elim!: run_bind_OkE split: if_splits)
      have "res (mach st') = insert (Pool b) (insert (Pages Addr ?N) (res (mach st0)))"
        using env_fw(4) [OF ok r5] p r4 w by (simp add: st' env_fw(1,2) [OF ok])
      moreover have "held E st' = {Pool b, Pages Addr ?N} \<union> held E st0"
        using ent False h by (auto simp: st' held_def tracked_def blob_res_def)
      ultimately show ?thesis using p(1) w inv by (auto simp: ldr_inv_def)
    qed
  qed
qed

lemma ProcessCmdAllocate_inv:
  assumes ok: "env_ok E res" and inv: "ldr_inv E res R st" and run: "ProcessCmdAllocate E script C A st = Some (Ok (s, st'))"
  shows "ldr_inv E res R st'"
proof (cases "\<not> name_ok (al_File A) \<or> Alignment A > EFI_PAGE_SIZE")
  case True
  then show ?thesis using run inv by (auto simp: ProcessCmdAllocate_def split: if_splits)
next
  case False
  then obtain r w1 where f: "fw_FindFile (fwl E) (cstr (al_File A)) (mach st) = Some (Ok (r, w1))"
    using run by (auto simp: ProcessCmdAllocate_def elim!: run_bind_OkE)
  have r1: "res w1 = res (mach st)" by (rule env_fw(3) [OF ok f])
  show ?thesis
  proof (cases r)
    case (Inl e)
    then show ?thesis using run f False ldr_inv_mach [OF inv r1] by (simp add: ProcessCmdAllocate_def)
  next
    case (Inr y)
    obtain item n where y: "y = (item, n)" by (cases y)
    define X where "X = (if oc_Find (ocl E) (AsciiStringCompare script (al_File A)) C \<noteq> None then MAX_UINT32 else MAX_UINT64)"
    obtain s2 a w2 where p: "AllocatePages (gBS E) X (EFI_SIZE_TO_PAGES n) w1 = (s2, a, w2)"
      by (cases "AllocatePages (gBS E) X (EFI_SIZE_TO_PAGES n) w1") auto
    have e: "(if EFI_ERROR s2 then Some (Ok (s2, st\<lparr>mach := w2\<rparr>)) else AllocateBlob E A item n a (st\<lparr>mach := w2\<rparr>)) = Some (Ok (s, st'))"
      using run f False Inr y p unfolding X_def by (simp add: ProcessCmdAllocate_def)
    show ?thesis
    proof (cases "EFI_ERROR s2")
      case True
      then show ?thesis using e env_bs(1) [OF ok p] r1 ldr_inv_mach [OF inv, of w2] by auto
    next
      case f2: False
      then show ?thesis using e env_bs(2) [OF ok p] r1 by (intro AllocateBlob_inv [OF ok inv, of a n w2 A item s]) auto
    qed
  qed
qed

lemma ProcessCmdAddPointer_inv:
  "env_ok E res \<Longrightarrow> ldr_inv E res R st \<Longrightarrow> ProcessCmdAddPointer E c st = Ok (s, st') \<Longrightarrow> ldr_inv E res R st'"
  by (auto simp: ProcessCmdAddPointer_def Let_def env_fw(1) split: if_splits option.splits intro!: ldr_inv_mach)

lemma ProcessCmdAddChecksum_inv:
  "env_ok E res \<Longrightarrow> ldr_inv E res R st \<Longrightarrow> ProcessCmdAddChecksum E c st = Ok (s, st') \<Longrightarrow> ldr_inv E res R st'"
  by (auto simp: ProcessCmdAddChecksum_def Let_def env_fw(1) split: if_splits option.splits intro!: ldr_inv_mach)

lemma WriteField_res: "env_ok E res \<Longrightarrow> WriteField (fwl E) k off n v w = Some (Ok w') \<Longrightarrow> res w' = res w"
proof -
  assume ok: "env_ok E res" and "WriteField (fwl E) k off n v w = Some (Ok w')"
  then obtain w1 where "fw_SkipBytes (fwl E) off (fw_SelectItem (fwl E) k w) = Some (Ok w1)"
    "fw_WriteBytes (fwl E) n (PointerValueAddress (fwl E)) (store (PointerValueAddress (fwl E)) (le_bytes 8 v) w1) = Some (Ok w')"
    by (auto simp: WriteField_def elim!: run_bind_OkE)
  then show ?thesis using env_fw(5) [OF ok] env_fw(6) [OF ok] by (metis store_def env_fw(1,2) [OF ok])
qed

lemma ProcessCmdWritePointer_inv:
  assumes ok: "env_ok E res" and inv: "ldr_inv E res R st" and run: "ProcessCmdWritePointer E c st = Some (Ok (s, st'))"
  shows "ldr_inv E res R st'"
proof (cases "\<not> name_ok (wp_PointerFile c) \<or> \<not> name_ok (wp_PointeeFile c)")
  case True
  then show ?thesis using run inv by (auto simp: ProcessCmdWritePointer_def)
next
  case False
  then obtain r w1 where f: "fw_FindFile (fwl E) (cstr (wp_PointerFile c)) (mach st) = Some (Ok (r, w1))"
    using run by (auto simp: ProcessCmdWritePointer_def elim!: run_bind_OkE)
  have r1: "res w1 = res (mach st)" by (rule env_fw(3) [OF ok f])
  have "st' = st\<lparr>mach := w1\<rparr> \<or> (\<exists>k off n v w2 b. WriteField (fwl E) k off n v w1 = Some (Ok w2) \<and>
      st' = st\<lparr>mach := w2, blobs := (blobs st)(b := (blobs st b)\<lparr>HostsOnlyTableData := False\<rparr>)\<rparr>)"
    using run f False
    by (auto simp: ProcessCmdWritePointer_def Let_def elim!: run_bind_OkE split: if_splits option.splits sum.splits prod.splits) blast
  then show ?thesis
    using WriteField_res [OF ok] r1 inv by (auto simp: ldr_inv_def held_hosts)
qed

lemma FirstPass_inv:
  assumes "env_ok E res"
  shows "FirstPass E script C es i k s0 st = Some (Ok (s, k', st')) \<Longrightarrow> ldr_inv E res R st \<Longrightarrow> ldr_inv E res R st'"
proof (induction es arbitrary: i k s0 st)
  case Nil
  then show ?case by simp
next
  case (Cons e es)
  let ?step = "case e of
        CmdAllocate c \<Rightarrow> ProcessCmdAllocate E script C c st
      | CmdAddPointer c \<Rightarrow> Some (ProcessCmdAddPointer E c st)
      | CmdAddChecksum c \<Rightarrow> Some (ProcessCmdAddChecksum E c st)
      | CmdWritePointer c \<Rightarrow> ProcessCmdWritePointer E c st
      | CmdUnknown _ \<Rightarrow> Some (Ok (s0, st))"
  from Cons.prems(1) obtain s1 st1 where 1: "?step = Some (Ok (s1, st1))"
    and rest: "EFI_ERROR s1 \<and> st' = st1 \<or> FirstPass E script C es (i + 1) (case e of CmdWritePointer _ \<Rightarrow> i + 1 | _ \<Rightarrow> k) s1 st1 = Some (Ok (s, k', st'))"
    by (auto elim!: run_bind_OkE simp: Let_def split: if_splits)
  have "ldr_inv E res R st1"
  proof (cases e)
    case (CmdAllocate c)
    then show ?thesis using 1 by (intro ProcessCmdAllocate_inv [OF assms Cons.prems(2)]) simp
  next
    case (CmdAddPointer c)
    then show ?thesis using 1 by (intro ProcessCmdAddPointer_inv [OF assms Cons.prems(2)]) simp
  next
    case (CmdAddChecksum c)
    then show ?thesis using 1 by (intro ProcessCmdAddChecksum_inv [OF assms Cons.prems(2)]) simp
  next
    case (CmdWritePointer c)
    then show ?thesis using 1 by (intro ProcessCmdWritePointer_inv [OF assms Cons.prems(2)]) simp
  next
    case (CmdUnknown t)
    then show ?thesis using 1 Cons.prems(2) by simp
  qed
  then show ?case using rest Cons.IH by blast
qed

subsection \<open>Second pass\<close>

definition pass2_inv :: "('c, 'd) env \<Rightarrow> ('d machine \<Rightarrow> resource set) \<Rightarrow> resource set \<Rightarrow> ('c, 'd) pass2 \<Rightarrow> bool" where
  "pass2_inv E res R s \<longleftrightarrow> res (mach (ldr s)) = R \<union> held E (ldr s) \<union> Table ` set (InstalledKey s) \<and>
     R \<inter> held E (ldr s) = {} \<and> R \<inter> Table ` set (InstalledKey s) = {}"

lemma InstallPointer_inv:
  assumes ok: "env_ok E res" and inv: "pass2_inv E res R s" and run: "InstallPointer E b v s = (st, s')"
  shows "pass2_inv E res R s'"
proof -
  obtain T root where t: "table_at (ram (mach (ldr s))) v (Base (blobs (ldr s) b) + Size (blobs (ldr s) b) - v) = (T, root)"
    by (cases "table_at (ram (mach (ldr s))) v (Base (blobs (ldr s) b) + Size (blobs (ldr s) b) - v)")
  let ?w2 = "(mach (ldr s))\<lparr>ram := PatchFadt (MDE_CPU_AARCH64 E) (ram (mach (ldr s))) v T\<rparr>"
  obtain s2 k w3 where i: "InstallAcpiTable (gBS E) v T ?w2 = (s2, k, w3)" by (cases "InstallAcpiTable (gBS E) v T ?w2") auto
  have r2: "res ?w2 = res (mach (ldr s))" by (rule env_fw(1) [OF ok])
  have del: "pass2_inv E res R (s\<lparr>SeenPointers := c, ldr := (ldr s)\<lparr>mach := w\<rparr>\<rparr>)" if "res w = res (mach (ldr s))" for c w
    using that inv by (simp add: pass2_inv_def)
  consider "root \<or> T = 0" | "\<not> root" "T \<noteq> 0" "length (InstalledKey s) = INSTALLED_TABLES_MAX" | "\<not> root" "T \<noteq> 0" "length (InstalledKey s) \<noteq> INSTALLED_TABLES_MAX" "EFI_ERROR s2"
    | "\<not> root" "T \<noteq> 0" "length (InstalledKey s) \<noteq> INSTALLED_TABLES_MAX" "\<not> EFI_ERROR s2" by blast
  then show ?thesis
  proof cases
    case 1
    have "held E ((ldr s)\<lparr>blobs := (blobs (ldr s))(b := (blobs (ldr s) b)\<lparr>HostsOnlyTableData := False\<rparr>)\<rparr>) = held E (ldr s)"
      using held_hosts [where st = "ldr s" and w = "mach (ldr s)"] by simp
    then show ?thesis using run t 1 inv by (auto simp: InstallPointer_def Let_def pass2_inv_def split: if_splits)
  next
    case 2
    obtain c w2 where d: "oc_Delete (ocl E) v (SeenPointers s) (mach (ldr s)) = (c, w2)"
      by (cases "oc_Delete (ocl E) v (SeenPointers s) (mach (ldr s))")
    then show ?thesis using run t 2 del [of w2 c] env_delete [OF ok d] by (auto simp: InstallPointer_def Let_def)
  next
    case 3
    obtain c w4 where d: "oc_Delete (ocl E) v (SeenPointers s) w3 = (c, w4)" by (cases "oc_Delete (ocl E) v (SeenPointers s) w3")
    then show ?thesis using run t 3 i del [of w4 c] env_delete [OF ok d] env_bs(7) [OF ok i] r2 by (auto simp: InstallPointer_def Let_def)
  next
    case 4
    then have "s' = s\<lparr>InstalledKey := InstalledKey s @ [k], ldr := (ldr s)\<lparr>mach := w3\<rparr>\<rparr>"
      using run t i by (auto simp: InstallPointer_def Let_def)
    then show ?thesis using env_bs(8) [OF ok i] 4 inv r2 by (auto simp: pass2_inv_def)
  qed
qed

lemma Process2ndPass_inv:
  assumes ok: "env_ok E res" and inv: "pass2_inv E res R s" and run: "Process2ndPassCmdAddPointer E c s = Ok (st, s')"
  shows "pass2_inv E res R s'"
proof -
  have same: "pass2_inv E res R (s\<lparr>SeenPointers := y, ldr := (ldr s)\<lparr>mach := w\<rparr>\<rparr>)"
    if "oc_Insert (ocl E) g p x (mach (ldr s)) = (t, y, w)" for g p x t y w
    using env_oc(3) [OF ok that] inv by (simp add: pass2_inv_def)
  show ?thesis
    using run inv by (auto simp: Process2ndPassCmdAddPointer_def Let_def split: if_splits option.splits prod.splits
        dest!: same intro: InstallPointer_inv [OF ok])
qed

lemma SecondPass_inv:
  assumes "env_ok E res"
  shows "SecondPass E es s0 s = Ok (t, s') \<Longrightarrow> pass2_inv E res R s \<Longrightarrow> pass2_inv E res R s'"
proof (induction es arbitrary: s0 s)
  case Nil
  then show ?case by simp
next
  case (Cons e es)
  show ?case
  proof (cases "\<exists>c. e = CmdAddPointer c")
    case True
    then obtain c where e: "e = CmdAddPointer c" by blast
    then obtain s1 y where 1: "Process2ndPassCmdAddPointer E c s = Ok (s1, y)"
      and rest: "(if EFI_ERROR s1 then Ok (s1, y) else SecondPass E es s1 y) = Ok (t, s')"
      using Cons.prems(1) by (auto elim!: chk_bind_OkE)
    have "pass2_inv E res R y" by (rule Process2ndPass_inv [OF assms Cons.prems(2) 1])
    then show ?thesis using rest Cons.IH by (auto split: if_splits)
  next
    case False
    then have "SecondPass E es s0 s = Ok (t, s')" using Cons.prems(1) by (cases e) auto
    then show ?thesis using Cons.IH Cons.prems(2) by blast
  qed
qed

lemma uninstall_res: "env_ok E res \<Longrightarrow> res (fold (UninstallAcpiTable (gBS E)) ks w) = res w - Table ` set ks"
  by (induction ks arbitrary: w) (auto simp: env_bs)

text \<open>After the tables: the loader invariant again, with the installed tables on top.\<close>

lemma InstallTables_inv:
  assumes ok: "env_ok E res" and inv: "ldr_inv E res R st" and run: "InstallTables E script s0 st = Ok (s, st')"
  shows "\<exists>K. res (mach st') = R \<union> held E st' \<union> Table ` K \<and> R \<inter> held E st' = {} \<and> (EFI_ERROR s \<longrightarrow> K = {})"
proof -
  obtain q w1 where a: "AllocatePool (gBS E) (INSTALLED_TABLES_MAX * 8) (mach st) = (q, w1)"
    by (cases "AllocatePool (gBS E) (INSTALLED_TABLES_MAX * 8) (mach st)")
  show ?thesis
  proof (cases q)
    case None
    then have "res (mach st') = R \<union> held E st' \<union> Table ` {} \<and> R \<inter> held E st' = {}"
      using run a env_bs(4) [OF ok] inv by (auto simp: InstallTables_def ldr_inv_def)
    then show ?thesis by blast
  next
    case (Some ka)
    have p: "Pool ka \<notin> res (mach st)" "res w1 = insert (Pool ka) (res (mach st))" using env_bs(5) [OF ok] a Some by auto
    obtain c w2 where i: "oc_Init (ocl E) w1 = (c, w2)" by (cases "oc_Init (ocl E) w1")
    have r2: "res w2 = res w1" by (rule env_oc(1) [OF ok i])
    show ?thesis
    proof (cases c)
      case None
      then have "res (mach st') = R \<union> held E st' \<union> Table ` {} \<and> R \<inter> held E st' = {}"
        using run a Some i r2 p inv by (auto simp: InstallTables_def ldr_inv_def env_bs(6) [OF ok])
      then show ?thesis by blast
    next
      case S: (Some seen)
      let ?s0 = "\<lparr>InstalledKey = [], SeenPointers = seen, ldr = st\<lparr>mach := w2\<rparr>\<rparr>"
      obtain y where y: "SecondPass E script s0 ?s0 = Ok (s, y)"
        and st': "st' = (ldr y)\<lparr>mach := FreePool (gBS E) ka (DeleteAll (ocl E) (SeenPointers y)
          (if EFI_ERROR s then fold (UninstallAcpiTable (gBS E)) (rev (InstalledKey y)) (mach (ldr y)) else mach (ldr y)))\<rparr>"
        using run a Some i S by (auto simp: InstallTables_def Let_def elim!: chk_bind_OkE)
      have "pass2_inv E res (insert (Pool ka) R) ?s0"
        using inv p r2 by (auto simp: pass2_inv_def ldr_inv_def)
      from SecondPass_inv [OF ok y this] have P: "pass2_inv E res (insert (Pool ka) R) y" .
      have "Pool ka \<notin> R" using p(1) inv by (auto simp: ldr_inv_def)
      then have "res (mach st') = R \<union> held E st' \<union> Table ` (if EFI_ERROR s then {} else set (InstalledKey y)) \<and> R \<inter> held E st' = {}"
        using P held_no_table [of _ E "ldr y"]
        by (auto simp: st' pass2_inv_def env_bs(6) [OF ok] DeleteAll_res [OF ok] uninstall_res [OF ok])
      then show ?thesis by (intro exI [of _ "if EFI_ERROR s then {} else set (InstalledKey y)"]) simp
    qed
  qed
qed

subsection \<open>Release\<close>

lemma ReleaseBlob_res:
  assumes "env_ok E res"
  shows "res (snd (fold (ReleaseBlob E s bl) bs cw)) =
    res (snd cw) - Pool ` set bs - {Pages (Base (bl b)) (EFI_SIZE_TO_PAGES (Size (bl b))) | b. b \<in> set bs \<and> (EFI_ERROR s \<or> HostsOnlyTableData (bl b))}"
proof (induction bs arbitrary: cw)
  case Nil
  then show ?case by simp
next
  case (Cons b bs)
  obtain c1 w1 where d: "oc_Delete (ocl E) b (fst cw) (snd cw) = (c1, w1)" by (cases "oc_Delete (ocl E) b (fst cw) (snd cw)")
  have "res (snd (ReleaseBlob E s bl b cw)) = res (snd cw) - {Pool b} -
      (if EFI_ERROR s \<or> HostsOnlyTableData (bl b) then {Pages (Base (bl b)) (EFI_SIZE_TO_PAGES (Size (bl b)))} else {})"
    using env_delete [OF assms d] by (auto simp: ReleaseBlob_def d Let_def env_bs [OF assms])
  then show ?case using Cons [of "ReleaseBlob E s bl b cw"] by auto
qed

lemma ReleaseTracker_res:
  assumes "env_ok E res"
  shows "res (ReleaseTracker E s st) = res (mach st) - Pool ` tracked E st -
    {Pages (Base (blobs st b)) (EFI_SIZE_TO_PAGES (Size (blobs st b))) | b. b \<in> tracked E st \<and> (EFI_ERROR s \<or> HostsOnlyTableData (blobs st b))}"
  using ReleaseBlob_res [OF assms, of s "blobs st" "oc_Entries (ocl E) (Tracker st)" "(Tracker st, mach st)"]
  by (simp add: ReleaseTracker_def case_prod_beta env_oc(6) [OF assms] tracked_def)

lemma UndoCmd_res: "env_ok E res \<Longrightarrow> UndoCmdWritePointer E c w = Some (Ok w') \<Longrightarrow> res w' = res w"
proof -
  assume ok: "env_ok E res" and "UndoCmdWritePointer E c w = Some (Ok w')"
  then obtain r w1 k n off z v where "fw_FindFile (fwl E) (cstr (wp_PointerFile c)) w = Some (Ok (r, w1))"
    "WriteField (fwl E) k off z v w1 = Some (Ok w')"
    by (auto simp: UndoCmdWritePointer_def elim!: run_bind_OkE split: sum.splits prod.splits)
  then show ?thesis using env_fw(3) [OF ok] WriteField_res [OF ok] by metis
qed

lemma Rollback_res: "env_ok E res \<Longrightarrow> RollbackWritePointers E es w = Some (Ok w') \<Longrightarrow> res w' = res w"
proof (induction es arbitrary: w)
  case Nil
  then show ?case by simp
next
  case (Cons e es)
  then show ?case
    by (cases e) (auto elim!: run_bind_OkE dest: UndoCmd_res)
qed

text \<open>Tables and pages may remain; nothing else does.\<close>

definition keeps :: "EFI_STATUS \<Rightarrow> resource set \<Rightarrow> resource set \<Rightarrow> bool" where
  "keeps s before after \<longleftrightarrow> before \<subseteq> after \<and> (\<forall>r \<in> after - before. \<not> EFI_ERROR s \<and> (\<forall>p. r \<noteq> Pool p))"

lemma RunScript_res:
  assumes ok: "env_ok E res" and T: "oc_Entries (ocl E) T = []" and run: "RunScript E script C T w = Some (Ok (s, w'))"
  shows "keeps s (res w) (res w')"
proof -
  let ?st0 = "\<lparr>mach = w, blobs = \<lambda>_. empty_blob, Tracker = T\<rparr>"
  obtain s1 k st1 st2 w1 where 1: "FirstPass E script C script 0 0 EFI_SUCCESS ?st0 = Some (Ok (s1, k, st1))"
    and I: "(if EFI_ERROR s1 then Ok (s1, st1) else InstallTables E script s1 st1) = Ok (s, st2)"
    and R: "(if EFI_ERROR s then RollbackWritePointers E (rev (take k script)) (mach st2) else Some (Ok (mach st2))) = Some (Ok w1)"
    and w': "w' = ReleaseTracker E s (st2\<lparr>mach := w1\<rparr>)"
    using run by (auto simp: RunScript_def elim!: run_bind_OkE)
  have "ldr_inv E res (res w) ?st0" using T by (simp add: ldr_inv_def held_def tracked_def)
  from FirstPass_inv [OF ok 1 this] have inv1: "ldr_inv E res (res w) st1" .
  have "\<exists>K. res (mach st2) = res w \<union> held E st2 \<union> Table ` K \<and> res w \<inter> held E st2 = {} \<and> (EFI_ERROR s \<longrightarrow> K = {})"
  proof (cases "EFI_ERROR s1")
    case True
    then have "res (mach st2) = res w \<union> held E st2 \<union> Table ` {} \<and> res w \<inter> held E st2 = {}" using I inv1 by (simp add: ldr_inv_def)
    then show ?thesis by blast
  next
    case False
    then show ?thesis using I InstallTables_inv [OF ok inv1, of script s1 s st2] by simp
  qed
  then obtain K where K: "res (mach st2) = res w \<union> held E st2 \<union> Table ` K" "res w \<inter> held E st2 = {}" "EFI_ERROR s \<longrightarrow> K = {}" by blast
  have w1: "res w1 = res (mach st2)" using R Rollback_res [OF ok] by (auto split: if_splits)
  have "tracked E (st2\<lparr>mach := w1\<rparr>) = tracked E st2" by (simp add: tracked_def)
  then have "res w' = res w \<union> held E st2 \<union> Table ` K - Pool ` tracked E st2 -
      {Pages (Base (blobs st2 b)) (EFI_SIZE_TO_PAGES (Size (blobs st2 b))) | b. b \<in> tracked E st2 \<and> (EFI_ERROR s \<or> HostsOnlyTableData (blobs st2 b))}"
    using ReleaseTracker_res [OF ok, of s "st2\<lparr>mach := w1\<rparr>"] K(1) w1 w' by simp
  then show ?thesis using K(2,3) by (auto simp: keeps_def held_def blob_res_def)
qed

lemma CollectLoop_res:
  assumes "env_ok E res"
  shows "CollectLoop (ocl E) script is c w = Ok (s, c', w') \<Longrightarrow> res w' = res w"
proof (induction "is" arbitrary: c w)
  case Nil
  then show ?case by simp
next
  case (Cons i js)
  show ?case
  proof (cases "\<exists>a. script ! i = CmdAddPointer a")
    case False
    then show ?thesis using Cons by (cases "script ! i") auto
  next
    case True
    then obtain a where a: "script ! i = CmdAddPointer a" by blast
    obtain t c1 w1 where i: "oc_Insert (ocl E) (AsciiStringCompare script (PointeeFile a)) i c w = (t, c1, w1)"
      by (cases "oc_Insert (ocl E) (AsciiStringCompare script (PointeeFile a)) i c w") auto
    then show ?thesis using Cons env_oc(3) [OF assms i] a by (auto split: if_splits)
  qed
qed

lemma Collect_res:
  assumes ok: "env_ok E res" and "CollectAllocationsRestrictedTo32Bit (ocl E) script w = Ok (r, w')"
  shows "res w' = res w"
proof -
  obtain c w1 where i: "oc_Init (ocl E) w = (c, w1)" by (cases "oc_Init (ocl E) w")
  have "res w1 = res w" by (rule env_oc(1) [OF ok i])
  then show ?thesis using assms(2) i DeleteAll_res [OF ok] CollectLoop_res [OF ok]
    by (cases c) (auto simp: CollectAllocationsRestrictedTo32Bit_def ReleaseAllocationsRestrictedTo32Bit_def elim!: chk_bind_OkE split: if_splits)
qed

lemma ProcessScript_res:
  assumes ok: "env_ok E res" and run: "ProcessScript E script w = Some (Ok (s, w'))"
  shows "keeps s (res w) (res w')"
proof -
  obtain r w1 where c: "CollectAllocationsRestrictedTo32Bit (ocl E) script w = Ok (r, w1)"
    using run by (auto simp: ProcessScript_def elim!: run_bind_OkE)
  have r1: "res w1 = res w" by (rule Collect_res [OF ok c])
  show ?thesis
  proof (cases r)
    case (Inl e)
    then show ?thesis using run c r1 by (simp add: ProcessScript_def keeps_def)
  next
    case (Inr C)
    obtain t w2 where i: "oc_Init (ocl E) w1 = (t, w2)" by (cases "oc_Init (ocl E) w1")
    have r2: "res w2 = res w" using env_oc(1) [OF ok i] r1 by simp
    show ?thesis
    proof (cases t)
      case None
      then show ?thesis using run c Inr i r2 DeleteAll_res [OF ok]
        by (auto simp: ProcessScript_def ReleaseAllocationsRestrictedTo32Bit_def keeps_def)
    next
      case (Some T)
      then obtain w3 where "RunScript E script C T w2 = Some (Ok (s, w3))" "w' = DeleteAll (ocl E) C w3"
        using run c Inr i by (auto simp: ProcessScript_def ReleaseAllocationsRestrictedTo32Bit_def elim!: run_bind_OkE)
      then show ?thesis using RunScript_res [OF ok env_oc(2) [OF ok]] i Some r2 DeleteAll_res [OF ok] by metis
    qed
  qed
qed

subsection \<open>Decoding\<close>

lemma SetOriginal_res: "env_ok E res \<Longrightarrow> res (fold (SetOriginal (pcs E)) as w) = res w"
  by (induction as arbitrary: w) (auto simp: SetOriginal_def env_pci)

lemma EnableLoop_res:
  assumes "env_ok E res"
  shows "EnableLoop (pcs E) hs acc w = Ok (x, as, w') \<Longrightarrow> res w' = res w"
proof (induction hs arbitrary: acc w)
  case Nil
  then show ?case by simp
next
  case (Cons h hs)
  have g: "PciIo_Attributes (pcs E) f d a v = (t, y, v') \<Longrightarrow> res v' = res v" for f d a v t y v'
    using env_pci(3) [OF assms, of f d a v] by simp
  have h: "HandlePciIo (pcs E) h w = (t, y, v') \<Longrightarrow> res v' = res w" for t y v'
    using env_pci(2) [OF assms, of h w] by simp
  show ?case using Cons.prems by (auto dest!: g h Cons.IH split: prod.splits if_splits)
qed

lemma EnablePci_res:
  assumes ok: "env_ok E res" and run: "EnablePciDecoding (pcs E) w = Ok (a, w')"
  shows "res w' = res w"
proof -
  obtain s hs w1 where l: "LocatePciHandles (pcs E) w = (s, hs, w1)" by (cases "LocatePciHandles (pcs E) w") auto
  obtain b w2 where m: "AllocateAttributes (pcs E) (length hs) w1 = (b, w2)" by (cases "AllocateAttributes (pcs E) (length hs) w1")
  have r: "res w1 = res w" "res w2 = res w1" using env_pci(1) [OF ok, of w] env_pci(4) [OF ok, of "length hs" w1] l m by simp_all
  then show ?thesis using run l m
    by (auto simp: EnablePciDecoding_def env_pci(5,6) [OF ok] SetOriginal_res [OF ok] elim!: chk_bind_OkE split: if_splits
        dest!: EnableLoop_res [OF ok])
qed

lemma RestorePci_res: "env_ok E res \<Longrightarrow> RestorePciDecoding (pcs E) a w = Ok w' \<Longrightarrow> res w' = res w"
  by (auto simp: RestorePciDecoding_def env_pci(5) SetOriginal_res split: option.splits if_splits)

section \<open>The demonstration services keep the laws\<close>

lemma res_id_le: "r \<in> set rs \<Longrightarrow> res_id r \<le> sum_list (map res_id rs)"
  by (rule member_le_sum_list) auto

lemma fresh_not_held:
  "Pool (fresh w) \<notin> set (snd (dev w))" "Table (fresh w) \<notin> set (snd (dev w))" "Pages (4096 * fresh w) n \<notin> set (snd (dev w))"
  using res_id_le [of _ "snd (dev w)"] by (fastforce simp: fresh_def)+

lemma demo_bs_ok: "bs_ok demo_bs (\<lambda>w. set (snd (dev w)))"
  by (auto simp: bs_ok_def demo_bs_def Let_def add_res_def del_res_def fresh_not_held)

lemma demo_oc_ok: "oc_ok demo_oc res"
  by (auto simp: oc_ok_def demo_oc_def split: if_splits)

lemma demo_fw_keeps: "fw_keeps (demo_lib items dir) (\<lambda>w. set (snd (dev w)))"
  by (auto simp: fw_keeps_def demo_lib_def store_def)

lemma demo_pci_keeps: "pci_keeps demo_pcs res"
  by (simp add: pci_keeps_def demo_pcs_def)

lemma demo_env_ok: "env_ok (demo_env items dir) (\<lambda>w. set (snd (dev w)))"
  using demo_bs_ok demo_oc_ok demo_fw_keeps demo_pci_keeps by (simp add: env_ok_def demo_env_def)

text \<open>A script that allocates the blob \<open>A\<close> twice.\<close>

definition demo_entry :: "u8 list" where
  "demo_entry = [1, 0, 0, 0] @ demo_name 0x41 @ [1, 0, 0, 0] @ [1] @ replicate 63 0"

definition demo_alloc :: QEMU_LOADER_ENTRY where
  "demo_alloc = CmdAllocate \<lparr>al_File = demo_name 0x41, Alignment = 1, Zone = 1\<rparr>"

definition demo_items :: "u16 \<Rightarrow> u8 list" where
  "demo_items k = (if k = 1 then demo_entry @ demo_entry else [])"

definition demo_dir :: "u8 list \<Rightarrow> (u16 \<times> nat) option" where
  "demo_dir nm = (if nm = [0x41] then Some (2, 4096) else Some (1, 256))"

lemma demo_entry: "loader_entry demo_entry = demo_alloc" "length demo_entry = 128"
  by code_simp+

lemma demo_script_at: "script_at (store_bytes m p (demo_entry @ demo_entry)) p 2 = [demo_alloc, demo_alloc]"
  using load_bytes_within [of 0 128 "demo_entry @ demo_entry" m p] load_bytes_within [of 128 128 "demo_entry @ demo_entry" m p]
  by (simp add: script_at_def demo_entry upt_rec)

text \<open>The second command finds the name taken.\<close>

lemma demo_run:
  "case ProcessScript (demo_env demo_items demo_dir) [demo_alloc, demo_alloc] \<lparr>ram = m, dev = (1, [Pool 8, Pool 7])\<rparr> of
     Some (Ok (s, _)) \<Rightarrow> s = EFI_PROTOCOL_ERROR | _ \<Rightarrow> False"
  by code_simp

section \<open>Properties\<close>

text \<open>
  Property C8. The loader never leaks: whenever \<open>InstallQemuFwCfgTables\<close> returns an
  error, from whatever command, allocation or installation it came, exactly the
  pages, pool blocks and tables that were held before are held; when it succeeds, it
  additionally keeps installed tables and pages, but no pool block.
\<close>

theorem InstallQemuFwCfgTables_no_leak:
  assumes ok: "env_ok E res" and run: "InstallQemuFwCfgTables E w = Some (Ok (Status, w'))"
  shows "if EFI_ERROR Status then res w' = res w else res w \<subseteq> res w' \<and> (\<forall>p. Pool p \<in> res w' \<longrightarrow> Pool p \<in> res w)"
proof -
  have "keeps Status (res w) (res w')"
  proof -
    obtain r w1 where f: "fw_FindFile (fwl E) (map (\<lambda>c. of_nat (of_char c)) ''etc/table-loader'') w = Some (Ok (r, w1))"
      and run1: "(case r of Inl s \<Rightarrow> Some (Ok (s, w1)) | Inr (item, n) \<Rightarrow>
        (if n mod sizeof_LOADER_ENTRY \<noteq> 0 then Some (Ok (EFI_PROTOCOL_ERROR, w1))
         else case AllocatePool (gBS E) n w1 of
           (None, w2) \<Rightarrow> Some (Ok (EFI_OUT_OF_RESOURCES, w2))
         | (Some p, w2) \<Rightarrow>
             run_bind (Some (EnablePciDecoding (pcs E) w2)) (\<lambda>(a, w3).
             run_bind (fw_ReadBytes (fwl E) n p (fw_SelectItem (fwl E) item w3)) (\<lambda>w4.
             run_bind (Some (RestorePciDecoding (pcs E) a w4)) (\<lambda>w5.
             run_bind (ProcessScript E (script_at (ram w5) p (n div sizeof_LOADER_ENTRY)) w5) (\<lambda>(s, w6).
               Some (Ok (s, FreePool (gBS E) p w6)))))))) = Some (Ok (Status, w'))"
      using run unfolding InstallQemuFwCfgTables_def by (auto elim!: run_bind_OkE)
    have r1: "res w1 = res w" by (rule env_fw(3) [OF ok f])
    show ?thesis
    proof (cases "\<exists>item n p w2. r = Inr (item, n) \<and> n mod sizeof_LOADER_ENTRY = 0 \<and> AllocatePool (gBS E) n w1 = (Some p, w2)")
      case False
      then have "res w' = res w" using run1 r1 env_bs(4) [OF ok] by (auto split: sum.splits prod.splits option.splits if_splits)
      then show ?thesis using False run1 by (auto simp: keeps_def)
    next
      case True
      then obtain item n p w2 where t: "r = Inr (item, n)" "n mod sizeof_LOADER_ENTRY = 0" "AllocatePool (gBS E) n w1 = (Some p, w2)"
        by (elim exE conjE) (rule that)
      then obtain a w3 w4 w5 w6 script where
        s: "EnablePciDecoding (pcs E) w2 = Ok (a, w3)" "fw_ReadBytes (fwl E) n p (fw_SelectItem (fwl E) item w3) = Some (Ok w4)"
          "RestorePciDecoding (pcs E) a w4 = Ok w5" "ProcessScript E script w5 = Some (Ok (Status, w6))" "w' = FreePool (gBS E) p w6"
        using run1 by (auto elim!: run_bind_OkE)
      have p: "Pool p \<notin> res w" "res w2 = insert (Pool p) (res w)" using env_bs(5) [OF ok t(3)] r1 by auto
      have "res w5 = res w2"
        using EnablePci_res [OF ok s(1)] env_fw(4) [OF ok s(2)] env_fw(2) [OF ok] RestorePci_res [OF ok s(3)] by simp
      then have "keeps Status (insert (Pool p) (res w)) (res w6)" using ProcessScript_res [OF ok s(4)] p(2) by simp
      then show ?thesis using p(1) by (auto simp: s(5) keeps_def env_bs(6) [OF ok])
    qed
  qed
  then show ?thesis by (auto simp: keeps_def)
qed

theorem InstallQemuFwCfgTables_no_leak_witness:
  "\<exists>w'. InstallQemuFwCfgTables (demo_env demo_items demo_dir) \<lparr>ram = (\<lambda>_. 0), dev = (0, [Pool 7])\<rparr>
     = Some (Ok (EFI_PROTOCOL_ERROR, w')) \<and> set (snd (dev w')) = {Pool 7}"
proof -
  let ?E = "demo_env demo_items demo_dir" and ?w = "\<lparr>ram = (\<lambda>_. 0), dev = (0, [Pool 7])\<rparr>" and ?m = "store_bytes (\<lambda>_. 0) 8 (demo_entry @ demo_entry)"
  obtain w6 where "ProcessScript ?E [demo_alloc, demo_alloc] \<lparr>ram = ?m, dev = (1, [Pool 8, Pool 7])\<rparr> = Some (Ok (EFI_PROTOCOL_ERROR, w6))"
    using demo_run [of ?m] by (auto split: option.splits checked.splits)
  then have "InstallQemuFwCfgTables ?E ?w = Some (Ok (EFI_PROTOCOL_ERROR, FreePool demo_bs 8 w6))"
    by (simp add: InstallQemuFwCfgTables_def demo_env_def demo_lib_def demo_bs_def demo_pcs_def demo_dir_def fresh_def add_res_def EnablePciDecoding_def
        RestorePciDecoding_def demo_items_def demo_entry store_def demo_script_at sizeof_LOADER_ENTRY_def)
  then obtain w' where r: "InstallQemuFwCfgTables ?E ?w = Some (Ok (EFI_PROTOCOL_ERROR, w'))" by blast
  from InstallQemuFwCfgTables_no_leak [OF demo_env_ok r] r show ?thesis by auto
qed

end
