(* ===== verification/AcpiPlatform.thy ===== *)
theory AcpiPlatform
  imports AcpiResources
begin

text \<open>
  Model of the rest of \<open>QemuPkg/AcpiPlatformDxe\<close>: the tables of a Cloud Hypervisor guest
  (\<open>CloudHvAcpi.c\<close>), the choice between the two sources of tables (\<open>AcpiPlatform.c\<close>) and the
  entry point with its delayed callback (\<open>EntryPoint.c\<close>).
\<close>

section \<open>Cloud Hypervisor tables\<close>

definition CLOUDHV_RSDP_ADDRESS :: nat where "CLOUDHV_RSDP_ADDRESS = 0xa0000"
definition CLOUDHV_DEVICE_ID :: u16 where "CLOUDHV_DEVICE_ID = 0x0d57"
definition sizeof_ACPI_HEADER :: nat where "sizeof_ACPI_HEADER = 36"

text \<open>Fields of the packed ACPI structures: \<open>XsdtAddress\<close> of the RSDP, \<open>Length\<close> of a table
  header, \<open>XDsdt\<close> of the FADT.\<close>

definition rsdp_XsdtAddress :: "mem \<Rightarrow> nat" where
  "rsdp_XsdtAddress m = load_le m (CLOUDHV_RSDP_ADDRESS + 24) 8"

definition table_Length :: "mem \<Rightarrow> nat \<Rightarrow> nat" where
  "table_Length m t = load_le m (t + 4) 4"

definition fadt_XDsdt :: "mem \<Rightarrow> nat \<Rightarrow> nat" where
  "fadt_XDsdt m t = load_le m (t + 140) 8"

definition xsdt_entry :: "mem \<Rightarrow> nat \<Rightarrow> nat \<Rightarrow> nat" where
  "xsdt_entry m Xsdt Index = load_le m (Xsdt + sizeof_ACPI_HEADER + Index * 8) 8"

text \<open>\<open>NumberOfTableEntries\<close>, in 64-bit arithmetic.\<close>

definition NumberOfTableEntries :: "mem \<Rightarrow> nat \<Rightarrow> nat" where
  "NumberOfTableEntries m Xsdt = ((table_Length m Xsdt + 2 ^ 64 - sizeof_ACPI_HEADER) mod 2 ^ 64) div 8"

text \<open>The installation loop: the remaining count, \<open>Index\<close> and \<open>DsdtTable\<close> (0 for \<open>NULL\<close>).\<close>

fun CloudHvLoop :: "('c, 'd) env \<Rightarrow> nat \<Rightarrow> nat \<Rightarrow> nat \<Rightarrow> nat \<Rightarrow> 'd machine \<Rightarrow> (nat \<times> 'd machine) checked" where
  "CloudHvLoop E Xsdt 0 Index DsdtTable w = Ok (DsdtTable, w)"
| "CloudHvLoop E Xsdt (Suc k) Index DsdtTable w =
    (let CurrentTable = xsdt_entry (ram w) Xsdt Index
     in case InstallAcpiTable (gBS E) CurrentTable (table_Length (ram w) CurrentTable) w of (Status, TableHandle, w1) \<Rightarrow>
       if EFI_ERROR Status then AssertFailed
       else CloudHvLoop E Xsdt k (Index + 1)
              (if load_le (ram w1) CurrentTable 4 = SIG_FACP then fadt_XDsdt (ram w1) CurrentTable else DsdtTable) w1)"

definition InstallCloudHvTables :: "('c, 'd) env \<Rightarrow> 'd machine \<Rightarrow> (EFI_STATUS \<times> 'd machine) checked" where
  "InstallCloudHvTables E w =
    (if rsdp_XsdtAddress (ram w) \<noteq> 0 then
       let Xsdt = rsdp_XsdtAddress (ram w)
       in chk_bind (CloudHvLoop E Xsdt (NumberOfTableEntries (ram w) Xsdt) 0 0 w) (\<lambda>(DsdtTable, w1).
         if DsdtTable = 0 then AssertFailed
         else case InstallAcpiTable (gBS E) DsdtTable (table_Length (ram w1) DsdtTable) w1 of (Status, TableHandle, w2) \<Rightarrow>
           if EFI_ERROR Status then AssertFailed else Ok (EFI_SUCCESS, w2))
     else Ok (EFI_NOT_FOUND, w))"

section \<open>Entry point\<close>

definition InstallAcpiTables :: "('c, 'd) env \<Rightarrow> u16 \<Rightarrow> 'd machine \<Rightarrow> (EFI_STATUS \<times> 'd machine) run" where
  "InstallAcpiTables E HostBridgeDevId w =
    (if HostBridgeDevId = CLOUDHV_DEVICE_ID then Some (InstallCloudHvTables E w) else InstallQemuFwCfgTables E w)"

text \<open>The services of the entry point: \<open>LocateProtocol\<close> of the ACPI table protocol (its status),
  the event services, and the platform settings it reads.\<close>

record 'w entry_services =
  LocateAcpiTable :: "'w \<Rightarrow> EFI_STATUS \<times> 'w"
  CreateRootBridgesConnected :: "'w \<Rightarrow> EFI_STATUS \<times> nat \<times> 'w"
  CloseEvent :: "nat \<Rightarrow> 'w \<Rightarrow> 'w"
  PcdOvmfHostBridgePciDevId :: u16

definition FindAcpiTableProtocol :: "'w entry_services \<Rightarrow> 'w \<Rightarrow> 'w checked" where
  "FindAcpiTableProtocol es w = (case LocateAcpiTable es w of (Status, w1) \<Rightarrow> if EFI_ERROR Status then AssertFailed else Ok w1)"

definition OnRootBridgesConnected :: "('c, 'd) env \<Rightarrow> 'd machine entry_services \<Rightarrow> nat \<Rightarrow> 'd machine \<Rightarrow> 'd machine run" where
  "OnRootBridgesConnected E es Event w =
    run_bind (Some (FindAcpiTableProtocol es w)) (\<lambda>w1.
    run_bind (InstallAcpiTables E (PcdOvmfHostBridgePciDevId es) w1) (\<lambda>(Status, w2). Some (Ok (CloseEvent es Event w2))))"

text \<open>The status, and the event that calls \<open>OnRootBridgesConnected\<close> later if one was created.\<close>

definition AcpiPlatformEntryPoint ::
  "('c, 'd) env \<Rightarrow> 'd machine entry_services \<Rightarrow> 'd machine \<Rightarrow> (EFI_STATUS \<times> nat option \<times> 'd machine) run" where
  "AcpiPlatformEntryPoint E es w =
    (if PcdPciDisableBusEnumeration (pcs E) then
       run_bind (Some (FindAcpiTableProtocol es w)) (\<lambda>w1.
       run_bind (InstallAcpiTables E (PcdOvmfHostBridgePciDevId es) w1) (\<lambda>(Status, w2). Some (Ok (Status, None, w2))))
     else case CreateRootBridgesConnected es w of (Status, Event, w1) \<Rightarrow>
       Some (Ok (Status, if EFI_ERROR Status then None else Some Event, w1)))"

section \<open>What is installed\<close>













section \<open>Properties\<close>






end
