(* ===== verification/PciCap.thy ===== *)
theory PciCap
  imports Prelude
begin

text \<open>
  Model of \<open>QemuPkg/Library/BasePciCapLib/BasePciCapLib.c\<close>: parsing of the normal and extended
  PCI capability lists of a device into an ordered collection, lookup, and bounded access to
  one capability.

  \<open>PCI_CAP\<close> objects live in the typed heap \<open>caps\<close>; a pointer to one is a pool address.
  \<open>OrderedCollectionLib\<close> and the pool are not part of this tree and are arguments, as are the
  device's configuration space accessors.  An entry of a collection is named by its user
  structure.
\<close>

section \<open>Data\<close>

definition PCI_MAX_CONFIG_OFFSET :: nat where "PCI_MAX_CONFIG_OFFSET = 0x100"
definition PCI_EXP_MAX_CONFIG_OFFSET :: nat where "PCI_EXP_MAX_CONFIG_OFFSET = 0x1000"
definition PCI_PRIMARY_STATUS_OFFSET :: u16 where "PCI_PRIMARY_STATUS_OFFSET = 0x06"
definition PCI_CAPBILITY_POINTER_OFFSET :: u16 where "PCI_CAPBILITY_POINTER_OFFSET = 0x34"
definition EFI_PCI_STATUS_CAPABILITY :: u16 where "EFI_PCI_STATUS_CAPABILITY = 0x0010"
definition EFI_PCI_CAPABILITY_ID_PCIEXP :: u8 where "EFI_PCI_CAPABILITY_ID_PCIEXP = 0x10"

datatype PCI_CAP_DOMAIN = PciCapNormal | PciCapExtended

record PCI_CAP_KEY =
  Domain :: PCI_CAP_DOMAIN
  CapId :: u16
  Instance :: u16

datatype PCI_CAP_NUM_INSTANCES = NumInstances u16 | InstanceZero nat

record PCI_CAP =
  Key :: PCI_CAP_KEY
  NumInstancesUnion :: PCI_CAP_NUM_INSTANCES
  Offset :: u16
  MaxSizeHint :: u16
  Version :: u8

record PCI_CAP_INFO =
  i_Domain :: PCI_CAP_DOMAIN
  i_CapId :: u16
  i_NumInstances :: u16
  i_Instance :: u16
  i_Offset :: u16
  i_MaxSizeHint :: u16
  i_Version :: u8

text \<open>
  The services.  \<open>co_Insert\<close> and \<open>co_Find\<close> receive the comparison function applied to the new
  structure or the key; \<open>co_Insert\<close> also returns the entry it made or met; \<open>co_Entries\<close> are the
  user structures in the order of \<open>OrderedCollectionMin\<close> and \<open>OrderedCollectionNext\<close>.
\<close>

record ('c, 'w) cap_env =
  ReadConfig :: "u16 \<Rightarrow> nat \<Rightarrow> 'w \<Rightarrow> EFI_STATUS \<times> u8 list \<times> 'w"
  WriteConfig :: "u16 \<Rightarrow> u8 list \<Rightarrow> 'w \<Rightarrow> EFI_STATUS \<times> 'w"
  AllocatePool :: "'w \<Rightarrow> nat option \<times> 'w"
  FreePool :: "nat \<Rightarrow> 'w \<Rightarrow> 'w"
  co_Init :: "'w \<Rightarrow> 'c option \<times> 'w"
  co_Insert :: "(nat \<Rightarrow> int) \<Rightarrow> nat \<Rightarrow> 'c \<Rightarrow> 'w \<Rightarrow> EFI_STATUS \<times> nat \<times> 'c \<times> 'w"
  co_Find :: "(nat \<Rightarrow> int) \<Rightarrow> 'c \<Rightarrow> nat option"
  co_Entries :: "'c \<Rightarrow> nat list"
  co_Delete :: "nat \<Rightarrow> 'c \<Rightarrow> 'w \<Rightarrow> 'c \<times> 'w"
  co_Uninit :: "'c \<Rightarrow> 'w \<Rightarrow> 'w"

text \<open>The state of a parse: the objects, the two collections, the world.\<close>

record ('c, 'w) parse =
  caps :: "nat \<Rightarrow> PCI_CAP"
  Capabilities :: 'c
  CapHdrOffsets :: 'c
  pw :: 'w

section \<open>Comparison\<close>

fun DomainValue :: "PCI_CAP_DOMAIN \<Rightarrow> nat" where
  "DomainValue PciCapNormal = 0"
| "DomainValue PciCapExtended = 1"

definition ComparePciCapKey :: "PCI_CAP_KEY \<Rightarrow> PCI_CAP \<Rightarrow> int" where
  "ComparePciCapKey Key1 PciCap =
    (let Key2 = Key PciCap
     in if DomainValue (Domain Key1) < DomainValue (Domain Key2) then -1
        else if DomainValue (Domain Key1) > DomainValue (Domain Key2) then 1
        else if CapId Key1 < CapId Key2 then -1
        else if CapId Key1 > CapId Key2 then 1
        else if Instance Key1 < Instance Key2 then -1
        else if Instance Key1 > Instance Key2 then 1
        else 0)"

definition ComparePciCap :: "PCI_CAP \<Rightarrow> PCI_CAP \<Rightarrow> int" where
  "ComparePciCap PciCap1 PciCap2 = ComparePciCapKey (Key PciCap1) PciCap2"

definition ComparePciCapOffsetKey :: "u16 \<Rightarrow> PCI_CAP \<Rightarrow> int" where
  "ComparePciCapOffsetKey Offset1 PciCap = int (unat Offset1) - int (unat (Offset PciCap))"

definition ComparePciCapOffset :: "PCI_CAP \<Rightarrow> PCI_CAP \<Rightarrow> int" where
  "ComparePciCapOffset PciCap1 PciCap2 = int (unat (Offset PciCap1)) - int (unat (Offset PciCap2))"

section \<open>Insertion\<close>

definition ConfigSpaceSize :: "PCI_CAP_DOMAIN \<Rightarrow> nat" where
  "ConfigSpaceSize d = (case d of PciCapNormal \<Rightarrow> PCI_MAX_CONFIG_OFFSET | PciCapExtended \<Rightarrow> PCI_EXP_MAX_CONFIG_OFFSET)"

text \<open>Insertion into \<open>Capabilities\<close>: at instance 0, or behind the instances there.  The result is the
  status, the new object's instance 0 (if it is not itself that), and the state.\<close>

definition InsertByKey :: "('c, 'w) cap_env \<Rightarrow> nat \<Rightarrow> ('c, 'w) parse \<Rightarrow> (EFI_STATUS \<times> nat option \<times> ('c, 'w) parse) checked" where
  "InsertByKey E PciCap st =
    (case co_Insert E (\<lambda>e. ComparePciCap (caps st PciCap) (caps st e)) PciCap (Capabilities st) (pw st) of (Status, PciCapEntry, c1, w1) \<Rightarrow>
     let st1 = st\<lparr>Capabilities := c1, pw := w1\<rparr>
     in if \<not> EFI_ERROR Status then Ok (Status, None, st1)
        else if Status = EFI_OUT_OF_RESOURCES then Ok (Status, None, st1)
        else if Status \<noteq> EFI_ALREADY_STARTED then AssertFailed
        else case NumInstancesUnion (caps st1 PciCapEntry) of
          InstanceZero _ \<Rightarrow> OutOfBounds
        | NumInstances n \<Rightarrow>
            (let cap = (caps st1 PciCap)\<lparr>Key := (Key (caps st1 PciCap))\<lparr>Instance := n\<rparr>, NumInstancesUnion := InstanceZero PciCapEntry\<rparr>;
                 st2 = st1\<lparr>caps := (caps st1)(PciCap := cap)\<rparr>
             in if \<not> n > 0 then AssertFailed
                else case co_Insert E (\<lambda>e. ComparePciCap cap (caps st2 e)) PciCap (Capabilities st2) (pw st2) of (Status, _, c3, w3) \<Rightarrow>
                  let st3 = st2\<lparr>Capabilities := c3, pw := w3\<rparr>
                  in if Status = EFI_OUT_OF_RESOURCES then Ok (Status, Some PciCapEntry, st3)
                     else if EFI_ERROR Status then AssertFailed
                     else Ok (Status, Some PciCapEntry, st3)))"

text \<open>Insertion into \<open>CapHdrOffsets\<close>; a second header at the same offset is an error of the device.\<close>

definition InsertByOffset :: "('c, 'w) cap_env \<Rightarrow> nat \<Rightarrow> nat option \<Rightarrow> ('c, 'w) parse \<Rightarrow> (EFI_STATUS \<times> ('c, 'w) parse) checked" where
  "InsertByOffset E PciCap Zero st =
    (case co_Insert E (\<lambda>e. ComparePciCapOffset (caps st PciCap) (caps st e)) PciCap (CapHdrOffsets st) (pw st) of (Status, _, c2, w2) \<Rightarrow>
     if EFI_ERROR Status then
       (case co_Delete E PciCap (Capabilities st) w2 of (c1, w3) \<Rightarrow>
          Ok (if Status = EFI_ALREADY_STARTED then EFI_DEVICE_ERROR else Status,
              st\<lparr>Capabilities := c1, CapHdrOffsets := c2, pw := FreePool E PciCap w3\<rparr>))
     else
       let st1 = st\<lparr>CapHdrOffsets := c2, pw := w2\<rparr>
       in if Instance (Key (caps st1 PciCap)) > 0 then
            (case Zero of None \<Rightarrow> AssertFailed
             | Some z \<Rightarrow> (case NumInstancesUnion (caps st1 z) of
                 InstanceZero _ \<Rightarrow> OutOfBounds
               | NumInstances n \<Rightarrow>
                   Ok (EFI_SUCCESS, st1\<lparr>caps := (caps st1)(z := (caps st1 z)\<lparr>NumInstancesUnion := NumInstances (n + 1)\<rparr>)\<rparr>)))
          else Ok (EFI_SUCCESS, st1))"

definition InsertPciCap ::
  "('c, 'w) cap_env \<Rightarrow> PCI_CAP_DOMAIN \<Rightarrow> u16 \<Rightarrow> u16 \<Rightarrow> u8 \<Rightarrow> ('c, 'w) parse \<Rightarrow> (EFI_STATUS \<times> ('c, 'w) parse) checked" where
  "InsertPciCap E d CapabilityId off ver st =
    (if and off 0x3 \<noteq> 0 then AssertFailed
     else if \<not> unat off < ConfigSpaceSize d then AssertFailed
     else if \<not> (d = PciCapExtended \<or> ver = 0) then AssertFailed
     else case AllocatePool E (pw st) of
       (None, w0) \<Rightarrow> Ok (EFI_OUT_OF_RESOURCES, st\<lparr>pw := w0\<rparr>)
     | (Some PciCap, w0) \<Rightarrow>
         (let cap = \<lparr>Key = \<lparr>Domain = d, CapId = CapabilityId, Instance = 0\<rparr>, NumInstancesUnion = NumInstances 1, Offset = off, MaxSizeHint = 0, Version = ver\<rparr>
          in chk_bind (InsertByKey E PciCap (st\<lparr>caps := (caps st)(PciCap := cap), pw := w0\<rparr>)) (\<lambda>(Status, Zero, st1).
            if EFI_ERROR Status then Ok (Status, st1\<lparr>pw := FreePool E PciCap (pw st1)\<rparr>)
            else InsertByOffset E PciCap Zero st1)))"

text \<open>The distance to the next capability, or to the end of the configuration space.\<close>

definition CalculatePciCapMaxSizeHint :: "PCI_CAP \<Rightarrow> PCI_CAP option \<Rightarrow> PCI_CAP checked" where
  "CalculatePciCapMaxSizeHint PciCap NextPciCap =
    (let space = ConfigSpaceSize (Domain (Key PciCap)); off = unat (Offset PciCap)
     in if (case NextPciCap of None \<Rightarrow> False | Some n \<Rightarrow> \<not> off < unat (Offset n)) then AssertFailed
        else if \<not> off < space then AssertFailed
        else case NextPciCap of
          None \<Rightarrow> Ok (PciCap\<lparr>MaxSizeHint := of_nat (space - off)\<rparr>)
        | Some n \<Rightarrow>
            Ok (PciCap\<lparr>MaxSizeHint := (if unat (Offset n) \<ge> space then of_nat (space - off) else Offset n - Offset PciCap)\<rparr>))"

text \<open>All objects in the order of their offsets; each leaves \<open>CapHdrOffsets\<close> on the way.\<close>

fun SizeHintLoop :: "('c, 'w) cap_env \<Rightarrow> nat list \<Rightarrow> ('c, 'w) parse \<Rightarrow> ('c, 'w) parse checked" where
  "SizeHintLoop E [] st = Ok st"
| "SizeHintLoop E (p # ps) st =
    (case co_Delete E p (CapHdrOffsets st) (pw st) of (c1, w1) \<Rightarrow>
     chk_bind (CalculatePciCapMaxSizeHint (caps st p) (case ps of [] \<Rightarrow> None | q # _ \<Rightarrow> Some (caps st q))) (\<lambda>cap.
       SizeHintLoop E ps (st\<lparr>caps := (caps st)(p := cap), CapHdrOffsets := c1, pw := w1\<rparr>)))"

fun EmptyLoop :: "('c, 'w) cap_env \<Rightarrow> bool \<Rightarrow> nat list \<Rightarrow> 'c \<Rightarrow> 'w \<Rightarrow> 'c \<times> 'w" where
  "EmptyLoop E FreePciCap [] c w = (c, w)"
| "EmptyLoop E FreePciCap (p # ps) c w =
    (case co_Delete E p c w of (c1, w1) \<Rightarrow> EmptyLoop E FreePciCap ps c1 (if FreePciCap then FreePool E p w1 else w1))"

definition EmptyAndUninitPciCapCollection :: "('c, 'w) cap_env \<Rightarrow> 'c \<Rightarrow> bool \<Rightarrow> 'w \<Rightarrow> 'w" where
  "EmptyAndUninitPciCapCollection E c FreePciCap w =
    (case EmptyLoop E FreePciCap (co_Entries E c) c w of (c1, w1) \<Rightarrow> co_Uninit E c1 w1)"

section \<open>Parsing\<close>

text \<open>The loop over the normal list from the header at \<open>off\<close>; the Boolean says whether the PCI Express
  capability was met.\<close>

partial_function (option) NormalLoop ::
  "('c, 'w) cap_env \<Rightarrow> u8 \<Rightarrow> bool \<Rightarrow> ('c, 'w) parse \<Rightarrow> (EFI_STATUS \<times> bool \<times> ('c, 'w) parse) run" where
  "NormalLoop E off DeviceIsExpress st =
    (if \<not> off > 0 then Some (Ok (EFI_SUCCESS, DeviceIsExpress, st))
     else case ReadConfig E (ucast off) 2 (pw st) of (Status, hdr, w1) \<Rightarrow>
       if EFI_ERROR Status then Some (Ok (Status, DeviceIsExpress, st\<lparr>pw := w1\<rparr>))
       else case InsertPciCap E PciCapNormal (ucast (hdr ! 0)) (ucast off) 0 (st\<lparr>pw := w1\<rparr>) of
         AssertFailed \<Rightarrow> Some AssertFailed
       | OutOfBounds \<Rightarrow> Some OutOfBounds
       | Ok r \<Rightarrow>
           if EFI_ERROR (fst r) then Some (Ok (fst r, DeviceIsExpress, snd r))
           else NormalLoop E (and (hdr ! 1) 0xFC) (DeviceIsExpress \<or> hdr ! 0 = EFI_PCI_CAPABILITY_ID_PCIEXP) (snd r))"

text \<open>\<open>PCI_EXPRESS_EXTENDED_CAPABILITIES_HEADER\<close>: 16 bits of ID, 4 of version, 12 of next offset.\<close>

definition ExtId :: "u8 list \<Rightarrow> u16" where
  "ExtId hdr = of_nat (le_val hdr mod 65536)"

definition ExtVersion :: "u8 list \<Rightarrow> u8" where
  "ExtVersion hdr = of_nat (le_val hdr div 65536 mod 16)"

definition ExtNext :: "u8 list \<Rightarrow> u16" where
  "ExtNext hdr = and (of_nat (le_val hdr div 1048576 mod 4096)) 0xFFC"

partial_function (option) ExtendedLoop ::
  "('c, 'w) cap_env \<Rightarrow> u16 \<Rightarrow> ('c, 'w) parse \<Rightarrow> (EFI_STATUS \<times> ('c, 'w) parse) run" where
  "ExtendedLoop E off st =
    (if \<not> off > 0 then Some (Ok (EFI_SUCCESS, st))
     else case ReadConfig E off 4 (pw st) of (Status, hdr, w1) \<Rightarrow>
       if unat off = PCI_MAX_CONFIG_OFFSET \<and> (EFI_ERROR Status \<or> list_all (\<lambda>b. b = 0) hdr) then Some (Ok (EFI_SUCCESS, st\<lparr>pw := w1\<rparr>))
       else if EFI_ERROR Status then Some (Ok (Status, st\<lparr>pw := w1\<rparr>))
       else case InsertPciCap E PciCapExtended (ExtId hdr) off (ExtVersion hdr) (st\<lparr>pw := w1\<rparr>) of
         AssertFailed \<Rightarrow> Some AssertFailed
       | OutOfBounds \<Rightarrow> Some OutOfBounds
       | Ok r \<Rightarrow>
           if EFI_ERROR (fst r) then Some (Ok r)
           else if ExtNext hdr > 0 \<and> unat (ExtNext hdr) < PCI_MAX_CONFIG_OFFSET then Some (Ok (EFI_DEVICE_ERROR, snd r))
           else ExtendedLoop E (ExtNext hdr) (snd r))"

text \<open>The reads of the two lists; the status is that of the first error.\<close>

definition ReadLists :: "('c, 'w) cap_env \<Rightarrow> ('c, 'w) parse \<Rightarrow> (EFI_STATUS \<times> ('c, 'w) parse) run" where
  "ReadLists E st =
    (case ReadConfig E PCI_PRIMARY_STATUS_OFFSET 2 (pw st) of (Status, reg, w1) \<Rightarrow>
     let st1 = st\<lparr>pw := w1\<rparr>
     in if EFI_ERROR Status then Some (Ok (Status, st1))
        else run_bind
          (if and (of_nat (le_val reg)) EFI_PCI_STATUS_CAPABILITY \<noteq> 0 then
             (case ReadConfig E PCI_CAPBILITY_POINTER_OFFSET 1 (pw st1) of (Status, ptr, w2) \<Rightarrow>
                if EFI_ERROR Status then Some (Ok (Status, False, st1\<lparr>pw := w2\<rparr>))
                else NormalLoop E (and (ptr ! 0) 0xFC) False (st1\<lparr>pw := w2\<rparr>))
           else Some (Ok (EFI_SUCCESS, False, st1)))
          (\<lambda>(Status, DeviceIsExpress, st2).
            if EFI_ERROR Status \<or> \<not> DeviceIsExpress then Some (Ok (Status, st2))
            else ExtendedLoop E (of_nat PCI_MAX_CONFIG_OFFSET) st2))"

text \<open>\<open>PciCapListInit\<close>: on success the pointer to the list object and the state, whose \<open>Capabilities\<close> the
  list object holds.  The dump of the list prints only.\<close>

definition FreeLists :: "('c, 'w) cap_env \<Rightarrow> nat \<Rightarrow> ('c, 'w) parse \<Rightarrow> 'w" where
  "FreeLists E OutCapList st =
    FreePool E OutCapList (EmptyAndUninitPciCapCollection E (Capabilities st) True (EmptyAndUninitPciCapCollection E (CapHdrOffsets st) False (pw st)))"

definition PciCapListInit ::
  "('c, 'w) cap_env \<Rightarrow> (nat \<Rightarrow> PCI_CAP) \<Rightarrow> 'w \<Rightarrow> ((EFI_STATUS + nat \<times> ('c, 'w) parse) \<times> 'w) run" where
  "PciCapListInit E heap w =
    (case AllocatePool E w of
       (None, w1) \<Rightarrow> Some (Ok (Inl EFI_OUT_OF_RESOURCES, w1))
     | (Some OutCapList, w1) \<Rightarrow>
         (case co_Init E w1 of
            (None, w2) \<Rightarrow> Some (Ok (Inl EFI_OUT_OF_RESOURCES, FreePool E OutCapList w2))
          | (Some c1, w2) \<Rightarrow>
              (case co_Init E w2 of
                 (None, w3) \<Rightarrow> Some (Ok (Inl EFI_OUT_OF_RESOURCES, FreePool E OutCapList (EmptyAndUninitPciCapCollection E c1 True w3)))
               | (Some c2, w3) \<Rightarrow>
                   run_bind (ReadLists E \<lparr>caps = heap, Capabilities = c1, CapHdrOffsets = c2, pw = w3\<rparr>) (\<lambda>(Status, st).
                     if EFI_ERROR Status then Some (Ok (Inl Status, FreeLists E OutCapList st))
                     else run_bind (Some (SizeHintLoop E (co_Entries E (CapHdrOffsets st)) st)) (\<lambda>st1.
                       if co_Entries E (CapHdrOffsets st1) \<noteq> [] then Some AssertFailed
                       else let w' = co_Uninit E (CapHdrOffsets st1) (pw st1)
                         in Some (Ok (Inr (OutCapList, st1\<lparr>pw := w'\<rparr>), w')))))))"

definition PciCapListUninit :: "('c, 'w) cap_env \<Rightarrow> nat \<Rightarrow> 'c \<Rightarrow> 'w \<Rightarrow> 'w" where
  "PciCapListUninit E CapList c w = FreePool E CapList (EmptyAndUninitPciCapCollection E c True w)"

section \<open>Lookup and access\<close>

definition PciCapListFindCap :: "('c, 'w) cap_env \<Rightarrow> (nat \<Rightarrow> PCI_CAP) \<Rightarrow> 'c \<Rightarrow> PCI_CAP_DOMAIN \<Rightarrow> u16 \<Rightarrow> u16 \<Rightarrow> EFI_STATUS \<times> nat option" where
  "PciCapListFindCap E heap c d CapabilityId inst =
    (case co_Find E (\<lambda>e. ComparePciCapKey \<lparr>Domain = d, CapId = CapabilityId, Instance = inst\<rparr> (heap e)) c of
       None \<Rightarrow> (EFI_NOT_FOUND, None)
     | Some e \<Rightarrow> (EFI_SUCCESS, Some e))"

text \<open>The entries from the one that was found on.\<close>

fun VersionLoop :: "(nat \<Rightarrow> PCI_CAP) \<Rightarrow> PCI_CAP_DOMAIN \<Rightarrow> u16 \<Rightarrow> u8 \<Rightarrow> nat list \<Rightarrow> EFI_STATUS \<times> nat option" where
  "VersionLoop heap d CapabilityId MinVersion [] = (EFI_NOT_FOUND, None)"
| "VersionLoop heap d CapabilityId MinVersion (p # ps) =
    (if Domain (Key (heap p)) \<noteq> d \<or> CapId (Key (heap p)) \<noteq> CapabilityId then (EFI_NOT_FOUND, None)
     else if Version (heap p) \<ge> MinVersion then (EFI_SUCCESS, Some p)
     else VersionLoop heap d CapabilityId MinVersion ps)"

definition PciCapListFindCapVersion :: "('c, 'w) cap_env \<Rightarrow> (nat \<Rightarrow> PCI_CAP) \<Rightarrow> 'c \<Rightarrow> PCI_CAP_DOMAIN \<Rightarrow> u16 \<Rightarrow> u8 \<Rightarrow> EFI_STATUS \<times> nat option" where
  "PciCapListFindCapVersion E heap c d CapabilityId MinVersion =
    (case co_Find E (\<lambda>e. ComparePciCapKey \<lparr>Domain = d, CapId = CapabilityId, Instance = 0\<rparr> (heap e)) c of
       None \<Rightarrow> (EFI_NOT_FOUND, None)
     | Some e \<Rightarrow> VersionLoop heap d CapabilityId MinVersion (dropWhile (\<lambda>p. p \<noteq> e) (co_Entries E c)))"

definition PciCapGetInfo :: "(nat \<Rightarrow> PCI_CAP) \<Rightarrow> nat \<Rightarrow> PCI_CAP_INFO checked" where
  "PciCapGetInfo heap p =
    (let c = heap p; z = (if Instance (Key c) = 0 then Ok p else (case NumInstancesUnion c of InstanceZero q \<Rightarrow> Ok q | NumInstances _ \<Rightarrow> OutOfBounds))
     in chk_bind z (\<lambda>q. case NumInstancesUnion (heap q) of
          InstanceZero _ \<Rightarrow> OutOfBounds
        | NumInstances n \<Rightarrow>
            Ok \<lparr>i_Domain = Domain (Key c), i_CapId = CapId (Key c), i_NumInstances = n, i_Instance = Instance (Key c), i_Offset = Offset c,
                i_MaxSizeHint = MaxSizeHint c, i_Version = Version c\<rparr>))"

text \<open>The sum is computed in \<open>INT32\<close>.\<close>

definition PciCapRead :: "('c, 'w) cap_env \<Rightarrow> PCI_CAP \<Rightarrow> u16 \<Rightarrow> u16 \<Rightarrow> 'w \<Rightarrow> EFI_STATUS \<times> u8 list \<times> 'w" where
  "PciCapRead E Cap SourceOffsetInCap Sz w =
    (if unat SourceOffsetInCap + unat Sz > unat (MaxSizeHint Cap) then (EFI_BAD_BUFFER_SIZE, [], w)
     else ReadConfig E (Offset Cap + SourceOffsetInCap) (unat Sz) w)"

definition PciCapWrite :: "('c, 'w) cap_env \<Rightarrow> PCI_CAP \<Rightarrow> u16 \<Rightarrow> u8 list \<Rightarrow> 'w \<Rightarrow> EFI_STATUS \<times> 'w" where
  "PciCapWrite E Cap DestinationOffsetInCap bs w =
    (if unat DestinationOffsetInCap + length bs > unat (MaxSizeHint Cap) then (EFI_BAD_BUFFER_SIZE, w)
     else WriteConfig E (Offset Cap + DestinationOffsetInCap) bs w)"

end
