(* ===== verification/PciCapList.thy ===== *)
theory PciCapList
  imports PciCap
begin

text \<open>
  Correctness of the capability list parser: parsing ends for every configuration space, fails no
  assertion, leaks nothing, and a list that was parsed answers lookups as the linked lists in the
  configuration space say.
\<close>

section \<open>What is relied on\<close>

text \<open>
  Documented behaviour of \<open>OrderedCollectionLib\<close>.  The comparison splits the entries into smaller
  ones, at most one equal one and larger ones.
\<close>

definition splits :: "(nat \<Rightarrow> int) \<Rightarrow> nat list \<Rightarrow> nat list \<Rightarrow> nat list \<Rightarrow> nat list \<Rightarrow> bool" where
  "splits cmp es as zs bs \<longleftrightarrow> es = as @ zs @ bs \<and> (\<forall>a\<in>set as. cmp a > 0) \<and> (\<forall>z\<in>set zs. cmp z = 0) \<and> (\<forall>b\<in>set bs. cmp b < 0)"

definition insert_law :: "('c, 'w) cap_env \<Rightarrow> bool" where
  "insert_law E \<longleftrightarrow> (\<forall>cmp p c w s e c' w' as zs bs. co_Insert E cmp p c w = (s, e, c', w') \<longrightarrow> splits cmp (co_Entries E c) as zs bs \<longrightarrow>
     (s = EFI_SUCCESS \<or> s = EFI_ALREADY_STARTED \<or> s = EFI_OUT_OF_RESOURCES) \<and> (s \<noteq> EFI_SUCCESS \<longrightarrow> co_Entries E c' = co_Entries E c) \<and>
     (zs = [] \<longrightarrow> s \<noteq> EFI_ALREADY_STARTED \<and> (s = EFI_SUCCESS \<longrightarrow> co_Entries E c' = as @ p # bs)) \<and>
     (\<forall>z. zs = [z] \<longrightarrow> s \<noteq> EFI_SUCCESS \<and> (s = EFI_ALREADY_STARTED \<longrightarrow> e = z)))"

definition find_law :: "('c, 'w) cap_env \<Rightarrow> bool" where
  "find_law E \<longleftrightarrow> (\<forall>cmp c as zs bs. splits cmp (co_Entries E c) as zs bs \<longrightarrow>
     (zs = [] \<longrightarrow> co_Find E cmp c = None) \<and> (\<forall>z. zs = [z] \<longrightarrow> co_Find E cmp c = Some z))"

definition delete_law :: "('c, 'w) cap_env \<Rightarrow> bool" where
  "delete_law E \<longleftrightarrow> (\<forall>p c w. co_Entries E (fst (co_Delete E p c w)) = remove1 p (co_Entries E c)) \<and>
     (\<forall>w c w'. co_Init E w = (Some c, w') \<longrightarrow> co_Entries E c = [])"

text \<open>
  The configuration space \<open>cfg\<close> does not change, a read inside one double word that succeeds returns its
  bytes and can only fail where the space is not readable; pool blocks \<open>held\<close> are handed out fresh.
\<close>

definition read_law :: "('c, 'w) cap_env \<Rightarrow> (nat \<Rightarrow> u8) \<Rightarrow> (nat \<Rightarrow> bool) \<Rightarrow> ('w \<Rightarrow> nat set) \<Rightarrow> bool" where
  "read_law E cfg readable held \<longleftrightarrow> (\<forall>off n w s bs w'. ReadConfig E off n w = (s, bs, w') \<longrightarrow> 0 < n \<longrightarrow> unat off mod 4 + n \<le> 4 \<longrightarrow> held w' = held w \<and>
     (if EFI_ERROR s then \<not> readable (unat off) else s = EFI_SUCCESS \<and> bs = map (\<lambda>i. cfg (unat off + i)) [0..<n]))"

definition pool_law :: "('c, 'w) cap_env \<Rightarrow> ('w \<Rightarrow> nat set) \<Rightarrow> bool" where
  "pool_law E held \<longleftrightarrow>
    (\<forall>w x w'. AllocatePool E w = (x, w') \<longrightarrow> (case x of None \<Rightarrow> held w' = held w | Some p \<Rightarrow> p \<notin> held w \<and> held w' = insert p (held w))) \<and>
    (\<forall>p w. held (FreePool E p w) = held w - {p}) \<and>
    (\<forall>w. held (snd (co_Init E w)) = held w) \<and> (\<forall>cmp p c w. held (snd (snd (snd (co_Insert E cmp p c w)))) = held w) \<and>
    (\<forall>p c w. held (snd (co_Delete E p c w)) = held w) \<and> (\<forall>c w. held (co_Uninit E c w) = held w)"

definition cap_env_ok :: "('c, 'w) cap_env \<Rightarrow> (nat \<Rightarrow> u8) \<Rightarrow> (nat \<Rightarrow> bool) \<Rightarrow> ('w \<Rightarrow> nat set) \<Rightarrow> bool" where
  "cap_env_ok E cfg readable held \<longleftrightarrow> insert_law E \<and> find_law E \<and> delete_law E \<and> read_law E cfg readable held \<and> pool_law E held"

lemma cap_env_okD:
  assumes "cap_env_ok E cfg readable held"
  shows "insert_law E" "find_law E" "delete_law E" "read_law E cfg readable held" "pool_law E held"
  using assms by (simp_all add: cap_env_ok_def)

lemmas insert_lawD = insert_law_def [THEN iffD1, rule_format]

lemma delete_lawD:
  assumes "delete_law E"
  shows "co_Delete E p c w = (c', w') \<Longrightarrow> co_Entries E c' = remove1 p (co_Entries E c)" "co_Init E w = (Some c, w') \<Longrightarrow> co_Entries E c = []"
  using assms unfolding delete_law_def by (metis fst_conv)+

lemma read_lawD:
  assumes "read_law E cfg readable held" and "ReadConfig E off n w = (s, bs, w')" and "0 < n" "unat off mod 4 + n \<le> 4"
  shows "held w' = held w" "EFI_ERROR s \<Longrightarrow> \<not> readable (unat off)" "\<not> EFI_ERROR s \<Longrightarrow> s = EFI_SUCCESS"
    "\<not> EFI_ERROR s \<Longrightarrow> bs = map (\<lambda>i. cfg (unat off + i)) [0..<n]"
  using assms unfolding read_law_def by metis+

lemma pool_lawD:
  assumes "pool_law E held"
  shows "AllocatePool E w = (None, w') \<Longrightarrow> held w' = held w" "AllocatePool E w = (Some p, w') \<Longrightarrow> p \<notin> held w \<and> held w' = insert p (held w)"
    "held (FreePool E p w) = held w - {p}" "co_Init E w = (x, w') \<Longrightarrow> held w' = held w"
    "co_Insert E cmp p c w = (s, e, c', w') \<Longrightarrow> held w' = held w" "co_Delete E p c w = (c', w') \<Longrightarrow> held w' = held w"
    "held (co_Uninit E c w) = held w"
proof -
  show "AllocatePool E w = (None, w') \<Longrightarrow> held w' = held w" "AllocatePool E w = (Some p, w') \<Longrightarrow> p \<notin> held w \<and> held w' = insert p (held w)"
    using assms unfolding pool_law_def by fastforce+
  show "held (FreePool E p w) = held w - {p}" "held (co_Uninit E c w) = held w" using assms by (simp_all add: pool_law_def)
  show "co_Init E w = (x, w') \<Longrightarrow> held w' = held w" using assms unfolding pool_law_def by (metis snd_conv)
  show "co_Insert E cmp p c w = (s, e, c', w') \<Longrightarrow> held w' = held w" using assms unfolding pool_law_def by (metis snd_conv)
  show "co_Delete E p c w = (c', w') \<Longrightarrow> held w' = held w" using assms unfolding pool_law_def by (metis snd_conv)
qed

lemma and3: "and (x :: u16) 3 = 0 \<longleftrightarrow> unat x mod 4 = 0"
proof -
  have "and x 3 = take_bit 2 x" by (simp add: take_bit_eq_mask mask_eq_exp_minus_1)
  then show ?thesis by (simp add: word_unat_eq_iff unsigned_take_bit_eq take_bit_eq_mod unat_mod)
qed

lemma and1: "and (x :: u16) 1 = 0 \<longleftrightarrow> unat x mod 2 = 0"
proof -
  have "and x 1 = take_bit 1 x" by (simp add: take_bit_eq_mask mask_eq_exp_minus_1)
  then show ?thesis by (simp add: word_unat_eq_iff unsigned_take_bit_eq take_bit_eq_mod unat_mod)
qed

section \<open>Sorted collections\<close>

text \<open>The order of keys as an order of numbers.\<close>

definition rank :: "PCI_CAP_KEY \<Rightarrow> nat" where
  "rank k = (DomainValue (Domain k) * 65536 + unat (CapId k)) * 65536 + unat (Instance k)"

lemma rank_compare:
  "ComparePciCapKey k c < 0 \<longleftrightarrow> rank k < rank (Key c)" "ComparePciCapKey k c > 0 \<longleftrightarrow> rank k > rank (Key c)"
  "ComparePciCapKey k c = 0 \<longleftrightarrow> rank k = rank (Key c)"
proof -
  have *: "(a * 65536 + b < a' * 65536 + b') = (a < a' \<or> a = a' \<and> b < b')" if "b < 65536" "b' < 65536" for a b a' b' :: nat
    by (cases a a' rule: linorder_cases) (use that in auto)
  have **: "(a * 65536 + b = a' * 65536 + b') = (a = a' \<and> b = b')" if "b < 65536" "b' < 65536" for a b a' b' :: nat
    by (cases a a' rule: linorder_cases) (use that in auto)
  have l: "rank k < rank k' \<longleftrightarrow> DomainValue (Domain k) < DomainValue (Domain k') \<or> DomainValue (Domain k) = DomainValue (Domain k') \<and>
      (CapId k < CapId k' \<or> CapId k = CapId k' \<and> Instance k < Instance k')" for k k'
    unfolding rank_def * [OF unat_u16_less unat_u16_less] ** [OF unat_u16_less unat_u16_less] word_less_nat_alt word_unat_eq_iff by blast
  show "ComparePciCapKey k c < 0 \<longleftrightarrow> rank k < rank (Key c)" "ComparePciCapKey k c > 0 \<longleftrightarrow> rank k > rank (Key c)"
    by (auto simp: l ComparePciCapKey_def Let_def)
  then show "ComparePciCapKey k c = 0 \<longleftrightarrow> rank k = rank (Key c)" by (metis less_irrefl linorder_neqE_nat linorder_neqE)
qed

lemma DomainValue_inject [simp]: "DomainValue a = DomainValue b \<longleftrightarrow> a = b"
  by (cases a; cases b) auto

lemma rank_inject: "rank k = rank k' \<longleftrightarrow> k = k'"
proof
  assume r: "rank k = rank k'"
  have d: "(a * 65536 + b = a' * 65536 + b') \<Longrightarrow> a = a' \<and> b = b'" if "b < 65536" "b' < 65536" for a b a' b' :: nat
    using that by (metis div_mult_self3 div_less add.commute add.right_neutral mod_less mod_mult_self3 zero_neq_numeral)
  have "DomainValue (Domain k) * 65536 + unat (CapId k) = DomainValue (Domain k') * 65536 + unat (CapId k')" "unat (Instance k) = unat (Instance k')"
    using d [OF _ _ r [unfolded rank_def]] by auto
  then show "k = k'" using d [of "unat (CapId k)" "unat (CapId k')" "DomainValue (Domain k)" "DomainValue (Domain k')"]
    by (intro PCI_CAP_KEY.equality) (auto simp: word_unat_eq_iff)
qed simp

lemma sorted_splits:
  assumes "sorted_wrt (<) (map f es)" and "\<And>e. e \<in> set es \<Longrightarrow> (cmp e < 0 \<longleftrightarrow> r < f e) \<and> (cmp e > 0 \<longleftrightarrow> r > (f e :: nat))"
  shows "\<exists>as zs bs. splits cmp es as zs bs \<and> (if r \<in> f ` set es then \<exists>z. zs = [z] \<and> z \<in> set es \<and> f z = r else zs = [])"
proof -
  define as where "as = takeWhile (\<lambda>e. f e < r) es"
  define ds where "ds = dropWhile (\<lambda>e. f e < r) es"
  have es: "es = as @ ds" by (simp add: as_def ds_def)
  have as: "\<forall>a\<in>set as. f a < r" by (auto simp: as_def dest: set_takeWhileD)
  have sd: "sorted_wrt (<) (map f ds)" using assms(1) es by (simp add: sorted_wrt_append)
  have as': "\<forall>a\<in>set as. cmp a > 0" using assms(2) as es by auto
  show ?thesis
  proof (cases ds)
    case Nil
    then have "splits cmp es as [] []" using es as' by (simp add: splits_def)
    moreover have "r \<notin> f ` set es" using es as Nil by auto
    ultimately show ?thesis by auto
  next
    case (Cons z bs)
    have "dropWhile (\<lambda>e. f e < r) es = z # bs" using Cons by (simp add: ds_def)
    then have z: "\<not> f z < r" "z \<in> set es" by (simp add: dropWhile_eq_Cons_conv, metis set_dropWhileD list.set_intros(1))
    have bs: "\<forall>b\<in>set bs. f z < f b" using sd Cons by simp
    then have bs': "\<forall>b\<in>set bs. cmp b < 0" using assms(2) z es Cons by fastforce
    show ?thesis
    proof (cases "f z = r")
      case True
      then have "cmp z = 0" using assms(2) [OF z(2)] by simp
      then have "splits cmp es as [z] bs" using es as' bs' Cons by (simp add: splits_def)
      then show ?thesis using True z(2) by auto
    next
      case False
      then have "r < f z" using z by simp
      then have "splits cmp es as [] ds" using es as' bs' Cons assms(2) [OF z(2)] by (simp add: splits_def)
      moreover have "r \<notin> f ` set es" using es as Cons bs \<open>r < f z\<close> by auto
      ultimately show ?thesis by auto
    qed
  qed
qed

text \<open>Insertion into a collection that is sorted by \<open>f\<close>.\<close>

lemma insert_sorted:
  assumes law: "insert_law E" and s: "sorted_wrt (<) (map f (co_Entries E c))"
    and cmp: "\<And>e. e \<in> set (co_Entries E c) \<Longrightarrow> (cmp e < 0 \<longleftrightarrow> r < f e) \<and> (cmp e > 0 \<longleftrightarrow> r > (f e :: nat))"
    and r: "co_Insert E cmp p c w = (s, e, c', w')"
  obtains (new) "s = EFI_SUCCESS" "r \<notin> f ` set (co_Entries E c)" "set (co_Entries E c') = insert p (set (co_Entries E c))"
      "f p = r \<Longrightarrow> sorted_wrt (<) (map f (co_Entries E c'))"
    | (old) "s = EFI_ALREADY_STARTED" "e \<in> set (co_Entries E c)" "f e = r" "co_Entries E c' = co_Entries E c"
    | (full) "s = EFI_OUT_OF_RESOURCES" "co_Entries E c' = co_Entries E c"
proof -
  obtain as zs bs where sp: "splits cmp (co_Entries E c) as zs bs"
    and z: "if r \<in> f ` set (co_Entries E c) then \<exists>z. zs = [z] \<and> z \<in> set (co_Entries E c) \<and> f z = r else zs = []"
    using sorted_splits [OF s cmp] by blast
  note L = insert_lawD [OF law r sp]
  show thesis
  proof (cases "r \<in> f ` set (co_Entries E c)")
    case True
    then show thesis using z L old full by auto
  next
    case False
    then have zs: "zs = []" using z by simp
    show thesis
    proof (cases "s = EFI_SUCCESS")
      case True
      have c': "co_Entries E c' = as @ p # bs" and c: "co_Entries E c = as @ bs" using L zs True sp by (auto simp: splits_def)
      have "\<forall>a\<in>set as. f a < r" "\<forall>b\<in>set bs. r < f b" using cmp sp zs by (auto simp: splits_def)
      then have "f p = r \<Longrightarrow> sorted_wrt (<) (map f (co_Entries E c'))" using s c c' by (auto simp: sorted_wrt_append)
      then show thesis using new True False c c' by auto
    next
      case False
      then show thesis using L zs full by auto
    qed
  qed
qed

section \<open>The parsed list\<close>

text \<open>A header: domain, identifier, offset, version.  Headers are numbered within their identifier in the
  order in which they were met.\<close>

type_synonym header = "PCI_CAP_DOMAIN \<times> u16 \<times> u16 \<times> u8"

abbreviation hdr_off :: "header \<Rightarrow> u16" where "hdr_off h \<equiv> fst (snd (snd h))"

definition same_id :: "header \<Rightarrow> header \<Rightarrow> bool" where
  "same_id h g \<longleftrightarrow> fst h = fst g \<and> fst (snd h) = fst (snd g)"

definition num :: "header list \<Rightarrow> header \<Rightarrow> nat" where
  "num hs h = length (filter (same_id h) hs)"

definition inst :: "header list \<Rightarrow> nat \<Rightarrow> nat" where
  "inst hs i = num (take i hs) (hs ! i)"

lemma num_append [simp]: "num (hs @ [g]) h = num hs h + (if same_id h g then 1 else 0)"
  by (simp add: num_def)

lemma num_le: "num hs h \<le> length hs"
  by (simp add: num_def)

lemma inst_append: "i < length hs \<Longrightarrow> inst (hs @ [g]) i = inst hs i" "inst (hs @ [g]) (length hs) = num hs g"
  by (simp_all add: inst_def nth_append)

lemma same_id_sym: "same_id h g \<longleftrightarrow> same_id g h"
  by (auto simp: same_id_def)

lemma same_id_trans: "same_id h g \<Longrightarrow> same_id g k \<Longrightarrow> same_id h k"
  by (auto simp: same_id_def)

lemma num_cong: "same_id h g \<Longrightarrow> num hs h = num hs g"
  by (auto simp: num_def same_id_def intro!: arg_cong [of _ _ length] filter_cong)

lemma same_id_refl [simp]: "same_id h h"
  by (simp add: same_id_def)

lemma inst_less: "i < length hs \<Longrightarrow> inst hs i < num hs (hs ! i)"
proof -
  assume i: "i < length hs"
  have "num hs (hs ! i) = num (take i hs) (hs ! i) + num (drop i hs) (hs ! i)"
    unfolding num_def by (metis append_take_drop_id filter_append length_append)
  moreover have "drop i hs = hs ! i # drop (Suc i) hs" using i by (simp add: Cons_nth_drop_Suc)
  ultimately show ?thesis by (simp add: inst_def num_def)
qed

text \<open>Every number below the count is taken.\<close>

lemma inst_ex: "k < num hs h \<Longrightarrow> \<exists>i<length hs. same_id h (hs ! i) \<and> inst hs i = k"
proof (induction hs rule: rev_induct)
  case Nil
  then show ?case by (simp add: num_def)
next
  case (snoc g hs)
  show ?case
  proof (cases "k < num hs h")
    case True
    then obtain i where "i < length hs" "same_id h (hs ! i)" "inst hs i = k" using snoc.IH by blast
    then show ?thesis by (intro exI [of _ i]) (simp add: inst_append nth_append)
  next
    case False
    then have "same_id h g" "k = num hs h" using snoc.prems by (auto split: if_splits)
    then show ?thesis by (intro exI [of _ "length hs"]) (simp add: inst_append num_cong)
  qed
qed

lemma inst_inject: "i < length hs \<Longrightarrow> j < length hs \<Longrightarrow> same_id (hs ! i) (hs ! j) \<Longrightarrow> inst hs i = inst hs j \<Longrightarrow> i = j"
proof (induction hs arbitrary: i j rule: rev_induct)
  case (snoc g hs)
  consider "i < length hs" "j < length hs" | "i = length hs" "j < length hs" | "i < length hs" "j = length hs" | "i = j"
    using snoc.prems(1,2) by (auto simp: less_Suc_eq)
  then show ?case
  proof cases
    case 1
    then show ?thesis using snoc by (simp add: inst_append nth_append)
  next
    case 2
    then show ?thesis using snoc.prems(3,4) inst_less [of j hs] num_cong [of g "hs ! j" hs] by (simp add: inst_append nth_append)
  next
    case 3
    then show ?thesis using snoc.prems(3,4) inst_less [of i hs] num_cong [of "hs ! i" g hs] by (simp add: inst_append nth_append)
  qed
qed simp

text \<open>The object of the header at position \<open>i\<close>.\<close>

definition cap_obj :: "(nat \<Rightarrow> PCI_CAP) \<Rightarrow> header list \<Rightarrow> nat list \<Rightarrow> nat \<Rightarrow> bool" where
  "cap_obj heap hs ps i \<longleftrightarrow> (let c = heap (ps ! i)
     in Key c = \<lparr>Domain = fst (hs ! i), CapId = fst (snd (hs ! i)), Instance = of_nat (inst hs i)\<rparr> \<and>
        Offset c = hdr_off (hs ! i) \<and> Version c = snd (snd (snd (hs ! i))) \<and>
        (if inst hs i = 0 then NumInstancesUnion c = NumInstances (of_nat (num hs (hs ! i)))
         else \<exists>j<length hs. same_id (hs ! i) (hs ! j) \<and> inst hs j = 0 \<and> NumInstancesUnion c = InstanceZero (ps ! j)))"

abbreviation key_rank :: "(nat \<Rightarrow> PCI_CAP) \<Rightarrow> nat \<Rightarrow> nat" where "key_rank heap p \<equiv> rank (Key (heap p))"

abbreviation off_rank :: "(nat \<Rightarrow> PCI_CAP) \<Rightarrow> nat \<Rightarrow> nat" where "off_rank heap p \<equiv> unat (Offset (heap p))"

definition headers_ok :: "header list \<Rightarrow> bool" where
  "headers_ok hs \<longleftrightarrow> distinct (map hdr_off hs) \<and> (\<forall>h\<in>set hs. unat (hdr_off h) < ConfigSpaceSize (fst h))"

definition parsed :: "('c, 'w) cap_env \<Rightarrow> ('c, 'w) parse \<Rightarrow> header list \<Rightarrow> nat list \<Rightarrow> bool" where
  "parsed E st hs ps \<longleftrightarrow> length ps = length hs \<and> distinct ps \<and> headers_ok hs \<and>
    set (co_Entries E (Capabilities st)) = set ps \<and> sorted_wrt (<) (map (key_rank (caps st)) (co_Entries E (Capabilities st))) \<and>
    set (co_Entries E (CapHdrOffsets st)) = set ps \<and> sorted_wrt (<) (map (off_rank (caps st)) (co_Entries E (CapHdrOffsets st))) \<and>
    (\<forall>i<length hs. cap_obj (caps st) hs ps i)"

lemma ConfigSpaceSize_le: "ConfigSpaceSize d \<le> 4096"
  by (cases d) (simp_all add: ConfigSpaceSize_def PCI_MAX_CONFIG_OFFSET_def PCI_EXP_MAX_CONFIG_OFFSET_def)

lemma headers_few: "headers_ok hs \<Longrightarrow> length hs \<le> 4096"
proof -
  assume ok: "headers_ok hs"
  have "distinct (map unat (map hdr_off hs))" using ok by (simp add: headers_ok_def distinct_map inj_on_def word_unat_eq_iff)
  from distinct_card [OF this] have "length hs = card (set (map unat (map hdr_off hs)))" by simp
  also have "\<dots> \<le> card {..<4096::nat}"
  proof (rule card_mono)
    show "set (map unat (map hdr_off hs)) \<subseteq> {..<4096}"
      using ok ConfigSpaceSize_le less_le_trans unfolding headers_ok_def by fastforce
  qed simp
  finally show ?thesis by simp
qed

lemma parsedD:
  assumes "parsed E st hs ps"
  shows "length ps = length hs" "distinct ps" "headers_ok hs" "set (co_Entries E (Capabilities st)) = set ps"
    "sorted_wrt (<) (map (key_rank (caps st)) (co_Entries E (Capabilities st)))" "set (co_Entries E (CapHdrOffsets st)) = set ps"
    "sorted_wrt (<) (map (off_rank (caps st)) (co_Entries E (CapHdrOffsets st)))" "i < length hs \<Longrightarrow> cap_obj (caps st) hs ps i"
  using assms by (simp_all add: parsed_def)

lemma cap_objD:
  assumes "cap_obj heap hs ps i"
  shows "Key (heap (ps ! i)) = \<lparr>Domain = fst (hs ! i), CapId = fst (snd (hs ! i)), Instance = of_nat (inst hs i)\<rparr>"
    "Offset (heap (ps ! i)) = hdr_off (hs ! i)" "Version (heap (ps ! i)) = snd (snd (snd (hs ! i)))"
    "inst hs i = 0 \<Longrightarrow> NumInstancesUnion (heap (ps ! i)) = NumInstances (of_nat (num hs (hs ! i)))"
    "inst hs i \<noteq> 0 \<Longrightarrow> \<exists>j<length hs. same_id (hs ! i) (hs ! j) \<and> inst hs j = 0 \<and> NumInstancesUnion (heap (ps ! i)) = InstanceZero (ps ! j)"
  using assms by (simp_all add: cap_obj_def Let_def)

lemma u16_of_nat: "k \<le> 4096 \<Longrightarrow> unat (of_nat k :: u16) = k"
  by (simp add: unat_of_nat)

lemma headers_num: "headers_ok hs \<Longrightarrow> num hs h \<le> 4096"
  using num_le [of hs h] headers_few [of hs] by simp

text \<open>Which keys are taken.\<close>

lemma parsed_key:
  assumes p: "parsed E st hs ps" and k: "k \<le> 4096"
  shows "rank \<lparr>Domain = fst h, CapId = fst (snd h), Instance = of_nat k\<rparr> \<in> key_rank (caps st) ` set ps \<longleftrightarrow> k < num hs h"
proof
  note ok = parsedD(3) [OF p]
  assume "rank \<lparr>Domain = fst h, CapId = fst (snd h), Instance = of_nat k\<rparr> \<in> key_rank (caps st) ` set ps"
  then obtain i where i: "i < length hs" "Key (caps st (ps ! i)) = \<lparr>Domain = fst h, CapId = fst (snd h), Instance = of_nat k\<rparr>"
    using parsedD(1) [OF p] by (auto simp: rank_inject in_set_conv_nth)
  note o = cap_objD(1) [OF parsedD(8) [OF p i(1)]]
  have id: "same_id h (hs ! i)" using o i(2) by (simp add: same_id_def)
  have "inst hs i \<le> 4096" using inst_less [OF i(1)] headers_num [OF ok, of "hs ! i"] by simp
  moreover have "of_nat (inst hs i) = (of_nat k :: u16)" using o i(2) by simp
  ultimately have "inst hs i = k" using u16_of_nat k by metis
  then show "k < num hs h" using inst_less [OF i(1)] num_cong [OF id, of hs] by simp
next
  assume "k < num hs h"
  then obtain i where i: "i < length hs" "same_id h (hs ! i)" "inst hs i = k" using inst_ex by blast
  have "Key (caps st (ps ! i)) = \<lparr>Domain = fst h, CapId = fst (snd h), Instance = of_nat k\<rparr>"
    using cap_objD(1) [OF parsedD(8) [OF p i(1)]] i(2,3) by (simp add: same_id_def)
  then show "rank \<lparr>Domain = fst h, CapId = fst (snd h), Instance = of_nat k\<rparr> \<in> key_rank (caps st) ` set ps"
    using parsedD(1) [OF p] i(1) by (metis image_eqI nth_mem)
qed

lemma parsed_offset:
  assumes p: "parsed E st hs ps"
  shows "unat off \<in> off_rank (caps st) ` set ps \<longleftrightarrow> off \<in> hdr_off ` set hs"
proof -
  have "off_rank (caps st) ` set ps = (\<lambda>i. unat (hdr_off (hs ! i))) ` {..<length hs}"
    using cap_objD(2) [OF parsedD(8) [OF p]] parsedD(1) [OF p] by (force simp: set_conv_nth image_iff)
  moreover have "hdr_off ` set hs = (\<lambda>i. hdr_off (hs ! i)) ` {..<length hs}" by (force simp: set_conv_nth image_iff)
  ultimately show ?thesis by (auto simp: image_iff word_unat_eq_iff)
qed

text \<open>The state after the first part of an insertion.\<close>

definition new_key :: "('c, 'w) cap_env \<Rightarrow> ('c, 'w) parse \<Rightarrow> ('c, 'w) parse \<Rightarrow> header list \<Rightarrow> nat list \<Rightarrow> header \<Rightarrow> nat \<Rightarrow> nat option \<Rightarrow> bool" where
  "new_key E st st1 hs ps h p z \<longleftrightarrow>
    set (co_Entries E (Capabilities st1)) = insert p (set ps) \<and>
    sorted_wrt (<) (map (key_rank (caps st1)) (co_Entries E (Capabilities st1))) \<and>
    Key (caps st1 p) = \<lparr>Domain = fst h, CapId = fst (snd h), Instance = of_nat (num hs h)\<rparr> \<and>
    Offset (caps st1 p) = Offset (caps st p) \<and> Version (caps st1 p) = Version (caps st p) \<and>
    (if num hs h = 0 then z = None \<and> NumInstancesUnion (caps st1 p) = NumInstances 1
     else \<exists>j<length hs. same_id h (hs ! j) \<and> inst hs j = 0 \<and> z = Some (ps ! j) \<and> NumInstancesUnion (caps st1 p) = InstanceZero (ps ! j))"

lemma InsertByKey_again:
  assumes E: "cap_env_ok E cfg readable held" and p: "parsed E st hs ps" and n: "q \<notin> set ps"
    and c: "Key (caps st q) = \<lparr>Domain = fst h, CapId = fst (snd h), Instance = 0\<rparr>"
    and es: "co_Entries E c1 = co_Entries E (Capabilities st)" and w: "held w1 = held (pw st)"
  shows "\<exists>s e c3 w3 cap. cap = (caps st q)\<lparr>Key := (Key (caps st q))\<lparr>Instance := of_nat (num hs h)\<rparr>, NumInstancesUnion := InstanceZero z\<rparr> \<and>
    co_Insert E (\<lambda>e. ComparePciCap cap (((caps st)(q := cap)) e)) q c1 w1 = (s, e, c3, w3) \<and> held w3 = held (pw st) \<and>
    (s = EFI_OUT_OF_RESOURCES \<and> co_Entries E c3 = co_Entries E (Capabilities st) \<or>
     s = EFI_SUCCESS \<and> set (co_Entries E c3) = insert q (set ps) \<and> sorted_wrt (<) (map (key_rank ((caps st)(q := cap))) (co_Entries E c3)))"
proof -
  define cap where "cap = (caps st q)\<lparr>Key := (Key (caps st q))\<lparr>Instance := of_nat (num hs h)\<rparr>, NumInstancesUnion := InstanceZero z\<rparr>"
  let ?heap = "(caps st)(q := cap)"
  obtain s e c3 w3 where i: "co_Insert E (\<lambda>e. ComparePciCap cap (?heap e)) q c1 w1 = (s, e, c3, w3)" by (metis prod_cases4)
  have hp: "key_rank ?heap a = key_rank (caps st) a" if "a \<in> set ps" for a using that n by auto
  have "map (key_rank ?heap) (co_Entries E c1) = map (key_rank (caps st)) (co_Entries E c1)"
    using hp parsedD(4) [OF p] es by (intro map_cong refl) auto
  then have so: "sorted_wrt (<) (map (key_rank ?heap) (co_Entries E c1))" using parsedD(5) [OF p] by (simp only: es)
  have cmp: "(ComparePciCap cap (?heap e) < 0 \<longleftrightarrow> rank (Key cap) < key_rank ?heap e) \<and> (ComparePciCap cap (?heap e) > 0 \<longleftrightarrow> rank (Key cap) > key_rank ?heap e)" for e
    by (simp add: ComparePciCap_def rank_compare)
  have free: "rank (Key cap) \<notin> key_rank ?heap ` set ps"
    using parsed_key [OF p headers_num [OF parsedD(3) [OF p]], of h] hp by (auto simp: cap_def c image_iff)
  have "s = EFI_OUT_OF_RESOURCES \<and> co_Entries E c3 = co_Entries E (Capabilities st) \<or>
     s = EFI_SUCCESS \<and> set (co_Entries E c3) = insert q (set ps) \<and> sorted_wrt (<) (map (key_rank ?heap) (co_Entries E c3))"
    by (cases rule: insert_sorted [OF cap_env_okD(1) [OF E] so cmp i]) (use free es parsedD(4) [OF p] in \<open>auto simp: image_iff\<close>)
  moreover have "held w3 = held (pw st)" using pool_lawD(5) [OF cap_env_okD(5) [OF E] i] w by simp
  ultimately show ?thesis using i cap_def by blast
qed

lemma InsertByKey_result:
  assumes E: "cap_env_ok E cfg readable held" and p: "parsed E st hs ps" and n: "q \<notin> set ps"
    and c: "Key (caps st q) = \<lparr>Domain = fst h, CapId = fst (snd h), Instance = 0\<rparr>" "NumInstancesUnion (caps st q) = NumInstances 1"
  shows "\<exists>s z st1. InsertByKey E q st = Ok (s, z, st1) \<and> CapHdrOffsets st1 = CapHdrOffsets st \<and> held (pw st1) = held (pw st) \<and>
    (\<forall>a. a \<noteq> q \<longrightarrow> caps st1 a = caps st a) \<and>
    (s = EFI_OUT_OF_RESOURCES \<and> co_Entries E (Capabilities st1) = co_Entries E (Capabilities st) \<or> s = EFI_SUCCESS \<and> new_key E st st1 hs ps h q z)"
proof -
  note il = cap_env_okD(1) [OF E] and pl = cap_env_okD(5) [OF E] and ok = parsedD(3) [OF p]
  let ?es = "co_Entries E (Capabilities st)"
  have cmp: "(ComparePciCap (caps st q) (caps st e) < 0 \<longleftrightarrow> key_rank (caps st) q < key_rank (caps st) e) \<and>
      (ComparePciCap (caps st q) (caps st e) > 0 \<longleftrightarrow> key_rank (caps st) q > key_rank (caps st) e)" for e
    by (simp add: ComparePciCap_def rank_compare)
  obtain s1 e1 c1 w1 where i1: "co_Insert E (\<lambda>e. ComparePciCap (caps st q) (caps st e)) q (Capabilities st) (pw st) = (s1, e1, c1, w1)"
    by (metis prod_cases4)
  have h1: "held w1 = held (pw st)" using pool_lawD(5) [OF pl i1] .
  show ?thesis
  proof (cases rule: insert_sorted [OF il parsedD(5) [OF p] cmp i1, case_names new old full])
    case new
    have "num hs h = 0" using new(2) parsed_key [OF p, of 0 h] parsedD(4) [OF p] c(1) by auto
    then show ?thesis using i1 new h1 c parsedD(4) [OF p] by (simp add: InsertByKey_def new_key_def Let_def)
  next
    case full
    then show ?thesis using i1 h1 by (simp add: InsertByKey_def Let_def)
  next
    case old
    obtain j where j: "j < length hs" "e1 = ps ! j" using old(2) parsedD(1,4) [OF p] by (metis in_set_conv_nth)
    note oj = parsedD(8) [OF p j(1)]
    have key: "Key (caps st e1) = Key (caps st q)" using old(3) by (simp add: rank_inject)
    have id: "same_id h (hs ! j)" using cap_objD(1) [OF oj] key c(1) j(2) by (simp add: same_id_def)
    have "inst hs j \<le> 4096" using inst_less [OF j(1)] headers_num [OF ok, of "hs ! j"] by simp
    moreover have "of_nat (inst hs j) = (0 :: u16)" using cap_objD(1) [OF oj] key c(1) j(2) by simp
    ultimately have i0: "inst hs j = 0" using u16_of_nat by fastforce
    have num: "num hs (hs ! j) = num hs h" "0 < num hs h" "num hs h \<le> 4096"
      using num_cong [OF id, of hs] inst_less [OF j(1)] headers_num [OF ok, of h] by auto
    have ni: "NumInstancesUnion (caps st e1) = NumInstances (of_nat (num hs h))" using cap_objD(4) [OF oj i0] num j(2) by simp
    have pos: "(of_nat (num hs h) :: u16) > 0" using num u16_of_nat [of "num hs h"] by (simp add: word_less_nat_alt)
    have e1: "e1 \<noteq> q" and es: "co_Entries E c1 = co_Entries E (Capabilities st)" using old n parsedD(4) [OF p] by auto
    from InsertByKey_again [OF E p n c(1) es h1, of e1] obtain s3 e3 c3 w3 cap where
      cap: "cap = (caps st q)\<lparr>Key := (Key (caps st q))\<lparr>Instance := of_nat (num hs h)\<rparr>, NumInstancesUnion := InstanceZero e1\<rparr>"
      and i3: "co_Insert E (\<lambda>e. ComparePciCap cap (((caps st)(q := cap)) e)) q c1 w1 = (s3, e3, c3, w3)" "held w3 = held (pw st)"
      and r3: "s3 = EFI_OUT_OF_RESOURCES \<and> co_Entries E c3 = co_Entries E (Capabilities st) \<or>
        s3 = EFI_SUCCESS \<and> set (co_Entries E c3) = insert q (set ps) \<and> sorted_wrt (<) (map (key_rank ((caps st)(q := cap))) (co_Entries E c3))"
      by metis
    have "InsertByKey E q st = Ok (s3, Some e1, st\<lparr>Capabilities := c3, pw := w3, caps := (caps st)(q := cap)\<rparr>)"
      using i1 old(1) ni pos e1 i3(1) r3 by (auto simp: InsertByKey_def Let_def cap)
    then show ?thesis using i3(2) r3 num j i0 id by (auto simp: new_key_def cap c)
  qed
qed

lemma sorted_remove1: "sorted_wrt (<) (map f xs) \<Longrightarrow> sorted_wrt (<) (map (f :: _ \<Rightarrow> nat) (remove1 q xs))"
  by (induction xs) (auto dest: notin_set_remove1 [rotated] simp: notin_set_remove1)

lemma sorted_distinct: "sorted_wrt (<) (map (f :: _ \<Rightarrow> nat) xs) \<Longrightarrow> distinct xs"
  by (induction xs) auto

lemma sorted_map_cong: "sorted_wrt (<) (map f xs) \<Longrightarrow> (\<And>x. x \<in> set xs \<Longrightarrow> g x = (f x :: nat)) \<Longrightarrow> sorted_wrt (<) (map g xs)"
  by (metis (mono_tags, lifting) map_eq_conv)

lemma cap_obj_cong:
  assumes "cap_obj heap hs ps i" and "i < length hs" "length ps = length hs" and "\<And>a. a \<in> set ps \<Longrightarrow> heap' a = heap a"
  shows "cap_obj heap' hs ps i"
  using assms nth_mem [of i ps] by (simp add: cap_obj_def)

text \<open>A failed insertion leaves the list as it was; the heap may differ outside of it.\<close>

lemma parsed_same:
  assumes p: "parsed E st hs ps" and c: "\<And>a. a \<in> set ps \<Longrightarrow> caps st' a = caps st a"
    and e1: "set (co_Entries E (Capabilities st')) = set ps" "sorted_wrt (<) (map (key_rank (caps st')) (co_Entries E (Capabilities st')))"
    and e2: "co_Entries E (CapHdrOffsets st') = co_Entries E (CapHdrOffsets st)"
  shows "parsed E st' hs ps"
proof -
  have "sorted_wrt (<) (map (off_rank (caps st')) (co_Entries E (CapHdrOffsets st)))"
    using sorted_map_cong [OF parsedD(7) [OF p]] c parsedD(6) [OF p] by simp
  moreover have "cap_obj (caps st') hs ps i" if "i < length hs" for i
    using cap_obj_cong [OF parsedD(8) [OF p that] that parsedD(1) [OF p]] c by simp
  ultimately show ?thesis using parsedD [OF p] e1 e2 by (simp add: parsed_def)
qed

text \<open>One more object, with the count of its instance 0 adjusted.\<close>

lemma cap_obj_snoc:
  assumes obj: "\<And>i. i < length hs \<Longrightarrow> cap_obj heap hs ps i" and len: "length ps = length hs" and d: "distinct ps" "q \<notin> set ps"
    and few: "\<And>g. num hs g \<le> 4096"
    and z: "if num hs h = 0 then heap' = heap else \<exists>j<length hs. same_id h (hs ! j) \<and> inst hs j = 0 \<and>
       heap' = heap(ps ! j := (heap (ps ! j))\<lparr>NumInstancesUnion := NumInstances (of_nat (num hs h + 1))\<rparr>)"
    and i: "i < length hs"
  shows "cap_obj heap' (hs @ [h]) (ps @ [q]) i"
proof -
  note o = obj [OF i]
  have nth: "(hs @ [h]) ! i = hs ! i" "(ps @ [q]) ! i = ps ! i" using i len by (simp_all add: nth_append)
  show ?thesis
  proof (cases "inst hs i = 0 \<and> same_id (hs ! i) h")
    case True
    then have "num hs h \<noteq> 0" using inst_less [OF i] num_cong [of "hs ! i" h hs] by auto
    then obtain j where j: "j < length hs" "same_id h (hs ! j)" "inst hs j = 0"
      "heap' = heap(ps ! j := (heap (ps ! j))\<lparr>NumInstancesUnion := NumInstances (of_nat (num hs h + 1))\<rparr>)" using z by auto
    have ij: "i = j" using inst_inject [OF i j(1)] same_id_trans [of "hs ! i" h "hs ! j"] j(2,3) True by auto
    show ?thesis using o True j(4) i num_cong [of "hs ! i" h hs] ij by (simp add: cap_obj_def nth [unfolded ij] inst_append Let_def)
  next
    case False
    have "NumInstancesUnion (heap' (ps ! i)) = NumInstancesUnion (heap (ps ! i)) \<and> Key (heap' (ps ! i)) = Key (heap (ps ! i)) \<and>
      Offset (heap' (ps ! i)) = Offset (heap (ps ! i)) \<and> Version (heap' (ps ! i)) = Version (heap (ps ! i))"
    proof (cases "num hs h = 0")
      case True
      then show ?thesis using z by simp
    next
      case nz: False
      then obtain j where j: "j < length hs" "same_id h (hs ! j)" "inst hs j = 0"
        "heap' = heap(ps ! j := (heap (ps ! j))\<lparr>NumInstancesUnion := NumInstances (of_nat (num hs h + 1))\<rparr>)" using z by auto
      have "i \<noteq> j" using False j same_id_sym by blast
      then have "ps ! i \<noteq> ps ! j" using d(1) i j(1) len by (simp add: nth_eq_iff_index_eq)
      then show ?thesis using j(4) by simp
    qed
    moreover have "\<exists>j<Suc (length hs). same_id (hs ! i) ((hs @ [h]) ! j) \<and> inst (hs @ [h]) j = 0 \<and> NumInstancesUnion (heap (ps ! i)) = InstanceZero ((ps @ [q]) ! j)"
      if nz: "inst hs i \<noteq> 0"
    proof -
      obtain j where "j < length hs" "same_id (hs ! i) (hs ! j)" "inst hs j = 0" "NumInstancesUnion (heap (ps ! i)) = InstanceZero (ps ! j)"
        using cap_objD(5) [OF o nz] by blast
      then show ?thesis using len by (intro exI [of _ j]) (simp add: nth_append inst_append)
    qed
    ultimately show ?thesis using o False by (simp add: cap_obj_def nth inst_append i Let_def) blast
  qed
qed

lemma parsed_snoc:
  assumes E: "cap_env_ok E cfg readable held" and p: "parsed E st hs ps" and q: "q \<notin> set ps"
    and k: "new_key E st st1 hs ps h q z" and c: "\<And>a. a \<noteq> q \<Longrightarrow> caps st1 a = caps st a" and h: "Offset (caps st q) = hdr_off h" "Version (caps st q) = snd (snd (snd h))"
    and off: "hdr_off h \<notin> hdr_off ` set hs" "unat (hdr_off h) < ConfigSpaceSize (fst h)"
    and e2: "set (co_Entries E c2) = insert q (set ps)" "sorted_wrt (<) (map (off_rank (caps st1)) (co_Entries E c2))"
    and z: "if num hs h = 0 then heap' = caps st1 else \<exists>j<length hs. same_id h (hs ! j) \<and> inst hs j = 0 \<and>
       heap' = (caps st1)(ps ! j := (caps st1 (ps ! j))\<lparr>NumInstancesUnion := NumInstances (of_nat (num hs h + 1))\<rparr>)"
  shows "parsed E (st1\<lparr>CapHdrOffsets := c2, pw := w2, caps := heap'\<rparr>) (hs @ [h]) (ps @ [q])"
proof -
  note len = parsedD(1) [OF p] and ok = parsedD(3) [OF p]
  have same: "Key (heap' a) = Key (caps st1 a)" "Offset (heap' a) = Offset (caps st1 a)" for a
    using z by (auto split: if_splits)
  have old: "cap_obj heap' (hs @ [h]) (ps @ [q]) i" if "i < length hs" for i
  proof (rule cap_obj_snoc [where heap = "caps st1"])
    show "cap_obj (caps st1) hs ps i" if "i < length hs" for i
      by (rule cap_obj_cong [OF parsedD(8) [OF p that] that len], rule c) (use q in auto)
  qed (use that len parsedD(2) [OF p] q headers_num [OF ok] z in auto)
  have new: "cap_obj heap' (hs @ [h]) (ps @ [q]) (length hs)"
  proof -
    have "heap' q = caps st1 q" using z q len nth_mem [of _ ps] by (auto split: if_splits)
    moreover have "\<exists>j<Suc (length hs). same_id h ((hs @ [h]) ! j) \<and> inst (hs @ [h]) j = 0 \<and> NumInstancesUnion (caps st1 q) = InstanceZero ((ps @ [q]) ! j)"
      if nz: "num hs h \<noteq> 0"
    proof -
      obtain j where "j < length hs" "same_id h (hs ! j)" "inst hs j = 0" "NumInstancesUnion (caps st1 q) = InstanceZero (ps ! j)"
        using k nz by (auto simp: new_key_def)
      then show ?thesis using len by (intro exI [of _ j]) (simp add: nth_append inst_append)
    qed
    ultimately show ?thesis using k h len by (simp add: cap_obj_def new_key_def inst_append nth_append Let_def)
  qed
  have "headers_ok (hs @ [h])" using ok off by (auto simp: headers_ok_def)
  moreover have "sorted_wrt (<) (map (key_rank heap') (co_Entries E (Capabilities st1)))" "sorted_wrt (<) (map (off_rank heap') (co_Entries E c2))"
    using k e2(2) by (simp_all add: new_key_def same)
  ultimately show ?thesis using old new k e2 len parsedD(2) [OF p] q
    by (auto simp: parsed_def new_key_def less_Suc_eq)
qed

text \<open>The two outcomes of an insertion: the list as before, or one more header.\<close>

definition inserted :: "('c, 'w) cap_env \<Rightarrow> ('w \<Rightarrow> nat set) \<Rightarrow> 'w \<Rightarrow> header list \<Rightarrow> nat list \<Rightarrow> header \<Rightarrow> EFI_STATUS \<Rightarrow> ('c, 'w) parse \<Rightarrow> bool" where
  "inserted E held w hs ps h s st' \<longleftrightarrow>
    (if EFI_ERROR s then parsed E st' hs ps \<and> held (pw st') = held w
     else s = EFI_SUCCESS \<and> hdr_off h \<notin> hdr_off ` set hs \<and>
       (\<exists>q. q \<notin> held w \<and> parsed E st' (hs @ [h]) (ps @ [q]) \<and> held (pw st') = insert q (held w)))"

lemma InsertByOffset_result:
  assumes E: "cap_env_ok E cfg readable held" and p: "parsed E st hs ps" and q: "q \<notin> set ps" "q \<notin> held w"
    and k: "new_key E st st1 hs ps h q z" and c: "\<And>a. a \<noteq> q \<Longrightarrow> caps st1 a = caps st a" and h: "Offset (caps st q) = hdr_off h" "Version (caps st q) = snd (snd (snd h))"
    and e2: "CapHdrOffsets st1 = CapHdrOffsets st" and w: "held (pw st1) = insert q (held w)" and off: "unat (hdr_off h) < ConfigSpaceSize (fst h)"
  shows "\<exists>s st'. InsertByOffset E q z st1 = Ok (s, st') \<and> inserted E held w hs ps h s st'"
proof -
  note pl = cap_env_okD(5) [OF E] and il = cap_env_okD(1) [OF E] and dl = cap_env_okD(3) [OF E]
  have oq: "Offset (caps st1 q) = hdr_off h" using k h by (simp add: new_key_def)
  have ca: "caps st1 a = caps st a" if "a \<in> set ps" for a by (rule c) (use that q in auto)
  have so: "sorted_wrt (<) (map (off_rank (caps st1)) (co_Entries E (CapHdrOffsets st1)))"
    unfolding e2 by (rule sorted_map_cong [OF parsedD(7) [OF p]]) (use ca parsedD(6) [OF p] in auto)
  have cmp: "(ComparePciCapOffset (caps st1 q) (caps st1 e) < 0 \<longleftrightarrow> unat (hdr_off h) < off_rank (caps st1) e) \<and>
      (ComparePciCapOffset (caps st1 q) (caps st1 e) > 0 \<longleftrightarrow> unat (hdr_off h) > off_rank (caps st1) e)" for e
    unfolding ComparePciCapOffset_def oq by linarith
  obtain s2 e c2 w2 where i: "co_Insert E (\<lambda>e. ComparePciCapOffset (caps st1 q) (caps st1 e)) q (CapHdrOffsets st1) (pw st1) = (s2, e, c2, w2)" by (metis prod_cases4)
  have w2: "held w2 = insert q (held w)" using pool_lawD(5) [OF pl i] w by simp
  obtain c1 w3 where d: "co_Delete E q (Capabilities st1) w2 = (c1, w3)" by (cases "co_Delete E q (Capabilities st1) w2")
  have failed: "\<exists>s st'. InsertByOffset E q z st1 = Ok (s, st') \<and> inserted E held w hs ps h s st'"
    if s: "EFI_ERROR s2" and c2: "co_Entries E c2 = co_Entries E (CapHdrOffsets st1)"
  proof -
    have "co_Entries E c1 = remove1 q (co_Entries E (Capabilities st1))" using delete_lawD(1) [OF dl d] .
    moreover have "distinct (co_Entries E (Capabilities st1))" using k sorted_distinct by (auto simp: new_key_def)
    ultimately have "set (co_Entries E c1) = set ps" "sorted_wrt (<) (map (key_rank (caps st1)) (co_Entries E c1))"
      using k q by (auto simp: new_key_def sorted_remove1)
    then have "parsed E (st1\<lparr>Capabilities := c1, CapHdrOffsets := c2, pw := FreePool E q w3\<rparr>) hs ps"
      using c2 e2 ca by (intro parsed_same [OF p]) auto
    moreover have "held (FreePool E q w3) = held w" using pool_lawD(3) [OF pl, of q w3] pool_lawD(6) [OF pl d] w2 q by simp
    ultimately show ?thesis using i s d by (auto simp: InsertByOffset_def inserted_def)
  qed
  show ?thesis
  proof (cases rule: insert_sorted [OF il so cmp i, case_names new old full])
    case new
    have off': "hdr_off h \<notin> hdr_off ` set hs"
      using new(2) parsed_offset [OF p, of "hdr_off h"] parsedD(6) [OF p] ca e2 by (auto simp: image_iff)
    have c2: "set (co_Entries E c2) = insert q (set ps)" "sorted_wrt (<) (map (off_rank (caps st1)) (co_Entries E c2))"
      using new(3,4) oq e2 parsedD(6) [OF p] by auto
    obtain heap' where r: "InsertByOffset E q z st1 = Ok (EFI_SUCCESS, st1\<lparr>CapHdrOffsets := c2, pw := w2, caps := heap'\<rparr>)"
      and z: "if num hs h = 0 then heap' = caps st1 else \<exists>j<length hs. same_id h (hs ! j) \<and> inst hs j = 0 \<and>
       heap' = (caps st1)(ps ! j := (caps st1 (ps ! j))\<lparr>NumInstancesUnion := NumInstances (of_nat (num hs h + 1))\<rparr>)"
    proof (cases "num hs h = 0")
      case True
      then show thesis using that [of "caps st1"] i new(1) k by (simp add: InsertByOffset_def new_key_def Let_def)
    next
      case False
      then obtain j where j: "j < length hs" "same_id h (hs ! j)" "inst hs j = 0" "z = Some (ps ! j)" using k by (auto simp: new_key_def)
      have "NumInstancesUnion (caps st1 (ps ! j)) = NumInstances (of_nat (num hs h))"
        using cap_objD(4) [OF parsedD(8) [OF p j(1)] j(3)] num_cong [OF j(2), of hs] ca [of "ps ! j"] j(1) parsedD(1) [OF p] by simp
      moreover have "Instance (Key (caps st1 q)) > 0"
        using k False u16_of_nat [OF headers_num [OF parsedD(3) [OF p]], of h] by (simp add: new_key_def word_less_nat_alt)
      ultimately show thesis using that [of "(caps st1)(ps ! j := (caps st1 (ps ! j))\<lparr>NumInstancesUnion := NumInstances (of_nat (num hs h + 1))\<rparr>)"] i new(1) j False
        by (auto simp: InsertByOffset_def Let_def add.commute)
    qed
    from parsed_snoc [OF E p q(1) k c h off' off c2 z] show ?thesis using r q(2) w2 off' by (auto simp: inserted_def)
  qed (use failed in auto)
qed

lemma InsertPciCap_result:
  assumes E: "cap_env_ok E cfg readable held" and p: "parsed E st hs ps" and H: "set ps \<subseteq> held (pw st)"
    and a: "and (hdr_off h) 3 = 0" "unat (hdr_off h) < ConfigSpaceSize (fst h)" "fst h = PciCapExtended \<or> snd (snd (snd h)) = 0"
  shows "\<exists>s st'. InsertPciCap E (fst h) (fst (snd h)) (hdr_off h) (snd (snd (snd h))) st = Ok (s, st') \<and> inserted E held (pw st) hs ps h s st'"
proof -
  note pl = cap_env_okD(5) [OF E]
  obtain x w0 where al: "AllocatePool E (pw st) = (x, w0)" by (cases "AllocatePool E (pw st)")
  show ?thesis
  proof (cases x)
    case None
    have "parsed E (st\<lparr>pw := w0\<rparr>) hs ps" using p by (simp add: parsed_def)
    then show ?thesis using al None pool_lawD(1) [OF pl, of "pw st" w0] a by (auto simp: InsertPciCap_def inserted_def)
  next
    case (Some q)
    have q: "q \<notin> held (pw st)" "held w0 = insert q (held (pw st))" using pool_lawD(2) [OF pl] al Some by auto
    then have qp: "q \<notin> set ps" using H by auto
    define cap where "cap = \<lparr>Key = \<lparr>Domain = fst h, CapId = fst (snd h), Instance = 0\<rparr>, NumInstancesUnion = NumInstances 1, Offset = hdr_off h, MaxSizeHint = 0, Version = snd (snd (snd h))\<rparr>"
    define st0 where "st0 = st\<lparr>caps := (caps st)(q := cap), pw := w0\<rparr>"
    have p0: "parsed E st0 hs ps"
      by (rule parsed_same [OF p]) (use qp parsedD [OF p] in \<open>auto simp: st0_def intro: sorted_map_cong [OF parsedD(5) [OF p]]\<close>)
    from InsertByKey_result [OF E p0 qp, of h] obtain s1 z st1 where k: "InsertByKey E q st0 = Ok (s1, z, st1)" "CapHdrOffsets st1 = CapHdrOffsets st0"
      "held (pw st1) = held w0" "\<And>a. a \<noteq> q \<Longrightarrow> caps st1 a = caps st0 a"
      "s1 = EFI_OUT_OF_RESOURCES \<and> co_Entries E (Capabilities st1) = co_Entries E (Capabilities st0) \<or> s1 = EFI_SUCCESS \<and> new_key E st0 st1 hs ps h q z"
      by (auto simp: st0_def cap_def)
    have run: "InsertPciCap E (fst h) (fst (snd h)) (hdr_off h) (snd (snd (snd h))) st =
        (if EFI_ERROR s1 then Ok (s1, st1\<lparr>pw := FreePool E q (pw st1)\<rparr>) else InsertByOffset E q z st1)"
      using a al Some k(1) by (simp add: InsertPciCap_def cap_def st0_def)
    show ?thesis
    proof (cases "EFI_ERROR s1")
      case True
      have ca: "caps st1 a = caps st0 a" if "a \<in> set ps" for a by (rule k(4)) (use that qp in auto)
      have "parsed E (st1\<lparr>pw := FreePool E q (pw st1)\<rparr>) hs ps"
        by (rule parsed_same [OF p0]) (use True k(2,5) ca parsedD(4,5) [OF p0] in \<open>auto intro: sorted_map_cong [OF parsedD(5) [OF p0]]\<close>)
      then show ?thesis using run True k(3) q pool_lawD(3) [OF pl, of q "pw st1"] by (auto simp: inserted_def)
    next
      case False
      then have nk: "new_key E st0 st1 hs ps h q z" using k(5) by auto
      have cp: "Offset (caps st0 q) = hdr_off h" "Version (caps st0 q) = snd (snd (snd h))" by (simp_all add: st0_def cap_def)
      from InsertByOffset_result [OF E p0 qp q(1) nk k(4) cp k(2) _ a(2)] show ?thesis using run False k(3) q(2) by simp
    qed
  qed
qed

end
