(* ===== verification/PciCapParse.thy ===== *)
theory PciCapParse
  imports PciCapList
begin

text \<open>
  The capability list parser as a whole: the loops over the two linked lists, the size hints,
  and the theorems about \<open>PciCapListInit\<close> and the lookups.
\<close>

section \<open>The linked lists in the configuration space\<close>

definition cfg_bytes :: "(nat \<Rightarrow> u8) \<Rightarrow> nat \<Rightarrow> nat \<Rightarrow> u8 list" where
  "cfg_bytes cfg off n = map (\<lambda>i. cfg (off + i)) [0..<n]"

text \<open>The headers of the normal list from \<open>off\<close> on, and of the extended list; the latter is empty
  where its first header cannot be read or is zero.\<close>

fun normal_list :: "(nat \<Rightarrow> u8) \<Rightarrow> u8 \<Rightarrow> header list \<Rightarrow> bool" where
  "normal_list cfg off [] \<longleftrightarrow> off = 0"
| "normal_list cfg off (h # hs) \<longleftrightarrow>
    off \<noteq> 0 \<and> h = (PciCapNormal, ucast (cfg (unat off)), ucast off, 0) \<and> normal_list cfg (and (cfg (unat off + 1)) 0xFC) hs"

fun ext_list :: "(nat \<Rightarrow> u8) \<Rightarrow> (nat \<Rightarrow> bool) \<Rightarrow> u16 \<Rightarrow> header list \<Rightarrow> bool" where
  "ext_list cfg readable off [] \<longleftrightarrow>
    off = 0 \<or> unat off = PCI_MAX_CONFIG_OFFSET \<and> (\<not> readable (unat off) \<or> list_all (\<lambda>b. b = 0) (cfg_bytes cfg (unat off) 4))"
| "ext_list cfg readable off (h # hs) \<longleftrightarrow>
    (let hdr = cfg_bytes cfg (unat off) 4
     in off \<noteq> 0 \<and> h = (PciCapExtended, ExtId hdr, off, ExtVersion hdr) \<and>
        (ExtNext hdr = 0 \<or> PCI_MAX_CONFIG_OFFSET \<le> unat (ExtNext hdr)) \<and> ext_list cfg readable (ExtNext hdr) hs)"

definition config_headers :: "(nat \<Rightarrow> u8) \<Rightarrow> (nat \<Rightarrow> bool) \<Rightarrow> header list \<Rightarrow> bool" where
  "config_headers cfg readable hs \<longleftrightarrow> (\<exists>ns es. hs = ns @ es \<and>
     (if and (of_nat (le_val (cfg_bytes cfg 6 2))) EFI_PCI_STATUS_CAPABILITY \<noteq> (0 :: u16) then normal_list cfg (and (cfg 0x34) 0xFC) ns else ns = []) \<and>
     (if \<exists>h\<in>set ns. fst (snd h) = 0x10 then ext_list cfg readable 0x100 es else es = []))"

section \<open>The loops\<close>

lemma and_FC: "unat (and (b :: u8) 0xFC) mod 4 = 0"
proof -
  have "take_bit 2 (and (unat b) 252) = and (take_bit 2 (unat b)) (take_bit 2 252)" by (rule take_bit_and)
  then have "and (unat b) 252 mod 4 = 0" by (simp add: take_bit_eq_mod)
  then show ?thesis by (simp add: unsigned_and_eq)
qed

lemma unat_ucast_u8 [simp]: "unat (ucast (b :: u8) :: u16) = unat b"
  using unat_u8_less [of b] by (simp add: unsigned_ucast_eq unsigned_take_bit_eq take_bit_nat_eq_self_iff less_trans del: unat_u8_less)

lemma ExtNext_ok: "unat (ExtNext hdr) mod 4 = 0" "unat (ExtNext hdr) < 4096"
proof -
  define n where "n = le_val hdr div 1048576 mod 4096"
  have n: "n < 4096" by (simp add: n_def)
  have u: "unat (ExtNext hdr) = and n 4092"
    using n by (simp add: ExtNext_def n_def [symmetric] unsigned_and_eq unat_of_nat)
  have "take_bit 2 (and n 4092) = and (take_bit 2 n) (take_bit 2 4092)" by (rule take_bit_and)
  then show "unat (ExtNext hdr) mod 4 = 0" by (simp add: u take_bit_eq_mod)
  have "take_bit 12 (and n 4092) = and (take_bit 12 n) (take_bit 12 4092)" by (rule take_bit_and)
  then have "take_bit 12 (and n 4092) = and n 4092" using n by (simp add: take_bit_nat_eq_self)
  then show "unat (ExtNext hdr) < 4096" using take_bit_nat_less_exp [of 12 "and n 4092"] by (simp add: u)
qed

text \<open>What a part of the parse adds.\<close>

definition grows :: "('c, 'w) cap_env \<Rightarrow> ('w \<Rightarrow> nat set) \<Rightarrow> ('c, 'w) parse \<Rightarrow> header list \<Rightarrow> nat list \<Rightarrow> header list \<Rightarrow> nat list \<Rightarrow> ('c, 'w) parse \<Rightarrow> bool" where
  "grows E held st hs ps hs' ps' st' \<longleftrightarrow>
    parsed E st' (hs @ hs') (ps @ ps') \<and> held (pw st') = held (pw st) \<union> set ps' \<and> set ps' \<inter> held (pw st) = {}"

lemma grows_refl: "parsed E st' hs ps \<Longrightarrow> held (pw st') = held (pw st) \<Longrightarrow> grows E held st hs ps [] [] st'"
  by (simp add: grows_def)

lemma grows_step:
  assumes "parsed E st1 (hs @ [h]) (ps @ [q])" and "held (pw st1) = insert q (held (pw st))" "q \<notin> held (pw st)"
    and "grows E held st1 (hs @ [h]) (ps @ [q]) hs' ps' st'"
  shows "grows E held st hs ps (h # hs') (q # ps') st'"
  using assms by (auto simp: grows_def)

lemma parsed_pw: "parsed E (st\<lparr>pw := w\<rparr>) hs ps \<longleftrightarrow> parsed E st hs ps"
  by (simp add: parsed_def)

lemma parsed_length: "parsed E st hs ps \<Longrightarrow> length hs \<le> 4096"
  using headers_few parsedD(3) by blast

lemma NormalLoop_result:
  assumes E: "cap_env_ok E cfg readable held"
  shows "parsed E st hs ps \<Longrightarrow> set ps \<subseteq> held (pw st) \<Longrightarrow> unat off mod 4 = 0 \<Longrightarrow>
    \<exists>s x' st' hs' ps'. NormalLoop E off x st = Some (Ok (s, x', st')) \<and> grows E held st hs ps hs' ps' st' \<and>
      (\<not> EFI_ERROR s \<longrightarrow> s = EFI_SUCCESS \<and> normal_list cfg off hs' \<and> (x' \<longleftrightarrow> x \<or> (\<exists>h\<in>set hs'. fst (snd h) = 0x10)))"
proof (induction "4096 - length hs" arbitrary: st hs ps off x rule: less_induct)
  case less
  show ?case
  proof (cases "off = 0")
    case True
    then show ?thesis using less.prems(1)
      by (intro exI [of _ EFI_SUCCESS] exI [of _ x] exI [of _ st] exI [of _ "[]"]) (simp add: NormalLoop.simps grows_def)
  next
    case False
    obtain s1 hdr w1 where r: "ReadConfig E (ucast off) 2 (pw st) = (s1, hdr, w1)" by (metis prod_cases3)
    have al: "unat (ucast off :: u16) mod 4 + 2 \<le> 4" using less.prems(3) by simp
    note rl = read_lawD [OF cap_env_okD(4) [OF E] r _ al, simplified]
    let ?st = "st\<lparr>pw := w1\<rparr>"
    show ?thesis
    proof (cases "EFI_ERROR s1")
      case True
      then show ?thesis using r False less.prems(1) rl(1)
        by (intro exI [of _ s1] exI [of _ x] exI [of _ ?st] exI [of _ "[]"]) (simp add: NormalLoop.simps word_gt_0 grows_def parsed_pw)
    next
      case ok: False
      let ?h = "(PciCapNormal, ucast (cfg (unat off)), ucast off, 0) :: header"
      have hdr: "hdr ! 0 = cfg (unat off)" "hdr ! 1 = cfg (unat off + 1)" using rl(4) [OF ok] by simp_all
      have "\<exists>s st'. InsertPciCap E (fst ?h) (fst (snd ?h)) (hdr_off ?h) (snd (snd (snd ?h))) ?st = Ok (s, st') \<and> inserted E held (pw ?st) hs ps ?h s st'"
        using less.prems rl(1) unat_u8_less [of off] by (intro InsertPciCap_result [OF E]) (auto simp: parsed_pw and3 ConfigSpaceSize_def PCI_MAX_CONFIG_OFFSET_def)
      then obtain s2 st2 where i: "InsertPciCap E PciCapNormal (ucast (hdr ! 0)) (ucast off) 0 ?st = Ok (s2, st2)" "inserted E held w1 hs ps ?h s2 st2"
        using hdr by auto
      show ?thesis
      proof (cases "EFI_ERROR s2")
        case True
        then show ?thesis using r False ok i rl(1)
          by (intro exI [of _ s2] exI [of _ x] exI [of _ st2] exI [of _ "[]"]) (simp add: NormalLoop.simps word_gt_0 grows_def inserted_def)
      next
        case fine: False
        then obtain q where q: "q \<notin> held (pw st)" "parsed E st2 (hs @ [?h]) (ps @ [q])" "held (pw st2) = insert q (held (pw st))"
          using i(2) rl(1) by (auto simp: inserted_def)
        have m: "4096 - length (hs @ [?h]) < 4096 - length hs" using parsed_length [OF q(2)] by simp
        have sub: "set (ps @ [q]) \<subseteq> held (pw st2)" using less.prems(2) q(3) by auto
        let ?x = "x \<or> hdr ! 0 = EFI_PCI_CAPABILITY_ID_PCIEXP"
        obtain s' x' st' hs' ps' where n: "NormalLoop E (and (hdr ! 1) 0xFC) ?x st2 = Some (Ok (s', x', st'))" "grows E held st2 (hs @ [?h]) (ps @ [q]) hs' ps' st'"
          "\<not> EFI_ERROR s' \<longrightarrow> s' = EFI_SUCCESS \<and> normal_list cfg (and (hdr ! 1) 0xFC) hs' \<and> (x' \<longleftrightarrow> ?x \<or> (\<exists>h\<in>set hs'. fst (snd h) = 0x10))"
          using less.hyps [OF m q(2) sub and_FC] by blast
        have run: "NormalLoop E off x st = Some (Ok (s', x', st'))"
          using r False ok i(1) fine n(1) by (subst NormalLoop.simps) (simp add: word_gt_0)
        have id: "(ucast (hdr ! 0) :: u16) = 0x10 \<longleftrightarrow> hdr ! 0 = EFI_PCI_CAPABILITY_ID_PCIEXP"
          by (simp add: word_unat_eq_iff EFI_PCI_CAPABILITY_ID_PCIEXP_def)
        show ?thesis
          using run grows_step [OF q(2,3,1) n(2)] n(3) False hdr id
          by (intro exI [of _ s'] exI [of _ x'] exI [of _ st'] exI [of _ "?h # hs'"] exI [of _ "q # ps'"]) auto
      qed
    qed
  qed
qed

lemma ExtendedLoop_result:
  assumes E: "cap_env_ok E cfg readable held"
  shows "parsed E st hs ps \<Longrightarrow> set ps \<subseteq> held (pw st) \<Longrightarrow> unat off mod 4 = 0 \<Longrightarrow> unat off < 4096 \<Longrightarrow>
    \<exists>s st' hs' ps'. ExtendedLoop E off st = Some (Ok (s, st')) \<and> grows E held st hs ps hs' ps' st' \<and>
      (\<not> EFI_ERROR s \<longrightarrow> s = EFI_SUCCESS \<and> ext_list cfg readable off hs')"
proof (induction "4096 - length hs" arbitrary: st hs ps off rule: less_induct)
  case less
  show ?case
  proof (cases "off = 0")
    case True
    then show ?thesis using less.prems(1)
      by (intro exI [of _ EFI_SUCCESS] exI [of _ st] exI [of _ "[]"]) (simp add: ExtendedLoop.simps grows_def)
  next
    case False
    obtain s1 hdr w1 where r: "ReadConfig E off 4 (pw st) = (s1, hdr, w1)" by (metis prod_cases3)
    have al: "unat off mod 4 + 4 \<le> 4" using less.prems(3) by simp
    note rl = read_lawD [OF cap_env_okD(4) [OF E] r _ al, simplified]
    let ?st = "st\<lparr>pw := w1\<rparr>"
    have hdr: "\<not> EFI_ERROR s1 \<Longrightarrow> hdr = cfg_bytes cfg (unat off) 4" using rl(4) by (simp add: cfg_bytes_def)
    have stop: "grows E held st hs ps [] [] ?st" using less.prems(1) rl(1) by (simp add: grows_def parsed_pw)
    consider (none) "unat off = PCI_MAX_CONFIG_OFFSET" "EFI_ERROR s1 \<or> list_all (\<lambda>b. b = 0) hdr"
      | (bad) "unat off \<noteq> PCI_MAX_CONFIG_OFFSET" "EFI_ERROR s1"
      | (ok) "\<not> EFI_ERROR s1" "\<not> (unat off = PCI_MAX_CONFIG_OFFSET \<and> list_all (\<lambda>b. b = 0) hdr)" by blast
    then show ?thesis
    proof cases
      case none
      have "ext_list cfg readable off []" using none rl(2) hdr by auto
      then show ?thesis using r none False stop
        by (intro exI [of _ EFI_SUCCESS] exI [of _ ?st] exI [of _ "[]"]) (simp add: ExtendedLoop.simps word_gt_0)
    next
      case bad
      then show ?thesis using r False stop
        by (intro exI [of _ s1] exI [of _ ?st] exI [of _ "[]"]) (simp add: ExtendedLoop.simps word_gt_0)
    next
      case ok
      let ?h = "(PciCapExtended, ExtId hdr, off, ExtVersion hdr) :: header"
      have "\<exists>s st'. InsertPciCap E (fst ?h) (fst (snd ?h)) (hdr_off ?h) (snd (snd (snd ?h))) ?st = Ok (s, st') \<and> inserted E held (pw ?st) hs ps ?h s st'"
        using less.prems rl(1) by (intro InsertPciCap_result [OF E]) (auto simp: parsed_pw and3 ConfigSpaceSize_def PCI_EXP_MAX_CONFIG_OFFSET_def)
      then obtain s2 st2 where i: "InsertPciCap E PciCapExtended (ExtId hdr) off (ExtVersion hdr) ?st = Ok (s2, st2)" "inserted E held w1 hs ps ?h s2 st2"
        by auto
      have step: "ExtendedLoop E off st = (if EFI_ERROR s2 then Some (Ok (s2, st2))
          else if ExtNext hdr > 0 \<and> unat (ExtNext hdr) < PCI_MAX_CONFIG_OFFSET then Some (Ok (EFI_DEVICE_ERROR, st2))
          else ExtendedLoop E (ExtNext hdr) st2)"
        using r False ok i(1) by (subst ExtendedLoop.simps) (simp add: word_gt_0 del: de_Morgan_conj cong: conj_cong)
      show ?thesis
      proof (cases "EFI_ERROR s2")
        case True
        then show ?thesis using step i rl(1)
          by (intro exI [of _ s2] exI [of _ st2] exI [of _ "[]"]) (simp add: grows_def inserted_def)
      next
        case fine: False
        then obtain q where q: "q \<notin> held (pw st)" "parsed E st2 (hs @ [?h]) (ps @ [q])" "held (pw st2) = insert q (held (pw st))"
          using i(2) rl(1) by (auto simp: inserted_def)
        have sub: "set (ps @ [q]) \<subseteq> held (pw st2)" using less.prems(2) q(3) by auto
        have m: "4096 - length (hs @ [?h]) < 4096 - length hs" using parsed_length [OF q(2)] by simp
        show ?thesis
        proof (cases "ExtNext hdr > 0 \<and> unat (ExtNext hdr) < PCI_MAX_CONFIG_OFFSET")
          case True
          have "grows E held st hs ps [?h] [q] st2" by (rule grows_step [OF q(2,3,1)]) (simp add: grows_def q(2))
          then show ?thesis using step fine True
            by (intro exI [of _ EFI_DEVICE_ERROR] exI [of _ st2] exI [of _ "[?h]"] exI [of _ "[q]"]) simp
        next
          case far: False
          obtain s' st' hs' ps' where n: "ExtendedLoop E (ExtNext hdr) st2 = Some (Ok (s', st'))" "grows E held st2 (hs @ [?h]) (ps @ [q]) hs' ps' st'"
            "\<not> EFI_ERROR s' \<longrightarrow> s' = EFI_SUCCESS \<and> ext_list cfg readable (ExtNext hdr) hs'"
            using less.hyps [OF m q(2) sub ExtNext_ok] by blast
          have "\<not> EFI_ERROR s' \<longrightarrow> ext_list cfg readable off (?h # hs')"
            using n(3) False hdr [OF ok(1)] far by (auto simp: Let_def word_gt_0 not_less)
          then show ?thesis using step fine far n grows_step [OF q(2,3,1) n(2)]
            by (intro exI [of _ s'] exI [of _ st'] exI [of _ "?h # hs'"] exI [of _ "q # ps'"]) auto
        qed
      qed
    qed
  qed
qed

lemma grows_trans:
  assumes "grows E held st hs ps hs1 ps1 st1" and "grows E held st1 (hs @ hs1) (ps @ ps1) hs2 ps2 st2"
  shows "grows E held st hs ps (hs1 @ hs2) (ps1 @ ps2) st2"
  using assms by (auto simp: grows_def)

lemma ReadLists_result:
  assumes E: "cap_env_ok E cfg readable held" and p: "parsed E st [] []"
  shows "\<exists>s st' hs ps. ReadLists E st = Some (Ok (s, st')) \<and> grows E held st [] [] hs ps st' \<and>
    (\<not> EFI_ERROR s \<longrightarrow> s = EFI_SUCCESS \<and> config_headers cfg readable hs)"
proof -
  note law = cap_env_okD(4) [OF E]
  obtain s1 reg w1 where r1: "ReadConfig E PCI_PRIMARY_STATUS_OFFSET 2 (pw st) = (s1, reg, w1)" by (metis prod_cases3)
  obtain s2 ptr w2 where r2: "ReadConfig E PCI_CAPBILITY_POINTER_OFFSET 1 w1 = (s2, ptr, w2)" by (metis prod_cases3)
  have al: "unat PCI_PRIMARY_STATUS_OFFSET mod 4 + 2 \<le> 4" "unat PCI_CAPBILITY_POINTER_OFFSET mod 4 + 1 \<le> 4"
    by (simp_all add: PCI_PRIMARY_STATUS_OFFSET_def PCI_CAPBILITY_POINTER_OFFSET_def)
  note l1 = read_lawD [OF law r1 _ al(1), simplified] and l2 = read_lawD [OF law r2 _ al(2), simplified]
  let ?caps = "and (of_nat (le_val reg)) EFI_PCI_STATUS_CAPABILITY \<noteq> (0 :: u16)"
  have g1: "grows E held st [] [] [] [] (st\<lparr>pw := w1\<rparr>)" and g2: "grows E held st [] [] [] [] (st\<lparr>pw := w2\<rparr>)"
    using p l1(1) l2(1) by (simp_all add: grows_def parsed_pw)
  have reg: "\<not> EFI_ERROR s1 \<Longrightarrow> reg = cfg_bytes cfg 6 2" using l1(4) by (simp add: cfg_bytes_def PCI_PRIMARY_STATUS_OFFSET_def)
  have ptr: "\<not> EFI_ERROR s2 \<Longrightarrow> ptr ! 0 = cfg 0x34" using l2(4) by (simp add: PCI_CAPBILITY_POINTER_OFFSET_def)
  consider (err) "EFI_ERROR s1" | (no) "\<not> EFI_ERROR s1" "\<not> ?caps" | (err2) "\<not> EFI_ERROR s1" "?caps" "EFI_ERROR s2" | (go) "\<not> EFI_ERROR s1" "?caps" "\<not> EFI_ERROR s2" by blast
  then show ?thesis
  proof cases
    case err
    then show ?thesis using r1 g1 by (intro exI [of _ s1] exI [of _ "st\<lparr>pw := w1\<rparr>"] exI [of _ "[]"]) (simp add: ReadLists_def)
  next
    case no
    have "config_headers cfg readable []" using no reg by (simp add: config_headers_def)
    then show ?thesis using r1 g1 no by (intro exI [of _ EFI_SUCCESS] exI [of _ "st\<lparr>pw := w1\<rparr>"] exI [of _ "[]"]) (simp add: ReadLists_def)
  next
    case err2
    then show ?thesis using r1 r2 g2 by (intro exI [of _ s2] exI [of _ "st\<lparr>pw := w2\<rparr>"] exI [of _ "[]"]) (simp add: ReadLists_def)
  next
    case go
    have pp: "parsed E (st\<lparr>pw := w2\<rparr>) [] []" using p by (simp add: parsed_pw)
    obtain s3 x st3 hs3 ps3 where n: "NormalLoop E (and (ptr ! 0) 0xFC) False (st\<lparr>pw := w2\<rparr>) = Some (Ok (s3, x, st3))"
      "grows E held (st\<lparr>pw := w2\<rparr>) [] [] hs3 ps3 st3"
      "\<not> EFI_ERROR s3 \<longrightarrow> s3 = EFI_SUCCESS \<and> normal_list cfg (and (ptr ! 0) 0xFC) hs3 \<and> (x \<longleftrightarrow> False \<or> (\<exists>h\<in>set hs3. fst (snd h) = 0x10))"
      using NormalLoop_result [OF E pp _ and_FC, of "ptr ! 0" False] by (metis (no_types, lifting) append_Nil empty_subsetI list.set(1))
    have g3: "grows E held st [] [] hs3 ps3 st3" using grows_trans [OF g2] n(2) by simp
    have run: "ReadLists E st = (if EFI_ERROR s3 \<or> \<not> x then Some (Ok (s3, st3)) else ExtendedLoop E 0x100 st3)"
      using go r1 r2 n(1) by (simp add: ReadLists_def PCI_MAX_CONFIG_OFFSET_def)
    have ch: "config_headers cfg readable (hs3 @ es)" if "\<not> EFI_ERROR s3" "if x then ext_list cfg readable 0x100 es else es = []" for es
      using go reg ptr n(3) that unfolding config_headers_def by (intro exI [of _ hs3] exI [of _ es]) auto
    show ?thesis
    proof (cases "EFI_ERROR s3 \<or> \<not> x")
      case True
      then show ?thesis using run g3 ch [of "[]"] n(3) by (intro exI [of _ s3] exI [of _ st3] exI [of _ hs3] exI [of _ ps3]) auto
    next
      case False
      have p3: "parsed E st3 hs3 ps3" "set ps3 \<subseteq> held (pw st3)" using g3 by (auto simp: grows_def)
      obtain s4 st4 hs4 ps4 where x: "ExtendedLoop E 0x100 st3 = Some (Ok (s4, st4))" "grows E held st3 hs3 ps3 hs4 ps4 st4"
        "\<not> EFI_ERROR s4 \<longrightarrow> s4 = EFI_SUCCESS \<and> ext_list cfg readable 0x100 hs4"
        using ExtendedLoop_result [OF E p3, of "0x100"] by auto
      have "grows E held st [] [] (hs3 @ hs4) (ps3 @ ps4) st4" using grows_trans [OF g3] x(2) by simp
      then show ?thesis using run False x ch [of hs4] by (intro exI [of _ s4] exI [of _ st4] exI [of _ "hs3 @ hs4"] exI [of _ "ps3 @ ps4"]) auto
    qed
  qed
qed

section \<open>Size hints\<close>

text \<open>The end of the room of the object \<open>a\<close> among the objects \<open>A\<close>: the next larger offset, or the end of the space.\<close>

definition room_end :: "(nat \<Rightarrow> PCI_CAP) \<Rightarrow> nat set \<Rightarrow> nat \<Rightarrow> nat" where
  "room_end heap A a = Min (insert (ConfigSpaceSize (Domain (Key (heap a)))) (off_rank heap ` {b\<in>A. off_rank heap a < off_rank heap b}))"

lemma room_end_head:
  assumes "sorted_wrt (<) (map (off_rank heap) (p # ps))"
  shows "room_end heap (set (p # ps)) p =
    (case ps of [] \<Rightarrow> ConfigSpaceSize (Domain (Key (heap p))) | q # _ \<Rightarrow> min (ConfigSpaceSize (Domain (Key (heap p)))) (off_rank heap q))"
proof (cases ps)
  case Nil
  then have e: "{b\<in>set (p # ps). off_rank heap p < off_rank heap b} = {}" by auto
  show ?thesis unfolding room_end_def e using Nil by simp
next
  case (Cons q qs)
  have e: "{b\<in>set (p # ps). off_rank heap p < off_rank heap b} = set (q # qs)" using assms Cons by auto
  have "Min (off_rank heap ` set (q # qs)) = off_rank heap q"
    using assms Cons by (intro Min_eqI) (auto intro: less_imp_le)
  then show ?thesis unfolding room_end_def e using Cons by simp
qed

lemma room_end_tail:
  assumes "sorted_wrt (<) (map (off_rank heap) (p # ps))" and "a \<in> set ps"
  shows "room_end heap (set (p # ps)) a = room_end heap (set ps) a"
proof -
  have "{b\<in>set (p # ps). off_rank heap a < off_rank heap b} = {b\<in>set ps. off_rank heap a < off_rank heap b}" using assms by auto
  then show ?thesis by (simp only: room_end_def)
qed

lemma room_end_cong:
  assumes "\<And>b. Offset (heap' b) = Offset (heap b) \<and> Key (heap' b) = Key (heap b)"
  shows "room_end heap' A a = room_end heap A a"
  using assms by (simp add: room_end_def)

lemma of_nat_diff_u16: "unat b \<le> unat (a :: u16) \<Longrightarrow> of_nat (unat a - unat b) = a - b"
  by (simp add: of_nat_diff)

lemma CalculatePciCapMaxSizeHint_result:
  assumes "unat (Offset c) < ConfigSpaceSize (Domain (Key c))" and "\<And>d. n = Some d \<Longrightarrow> unat (Offset c) < unat (Offset d)"
  shows "CalculatePciCapMaxSizeHint c n = Ok (c\<lparr>MaxSizeHint := of_nat
    ((case n of None \<Rightarrow> ConfigSpaceSize (Domain (Key c)) | Some d \<Rightarrow> min (ConfigSpaceSize (Domain (Key c))) (unat (Offset d))) - unat (Offset c))\<rparr>)"
proof (cases n)
  case None
  then show ?thesis using assms(1) by (simp add: CalculatePciCapMaxSizeHint_def)
next
  case (Some d)
  then have lt: "unat (Offset c) < unat (Offset d)" by (rule assms(2))
  show ?thesis
  proof (cases "ConfigSpaceSize (Domain (Key c)) \<le> unat (Offset d)")
    case True
    then show ?thesis using Some lt assms(1) by (simp add: CalculatePciCapMaxSizeHint_def min_absorb1)
  next
    case False
    then have m: "min (ConfigSpaceSize (Domain (Key c))) (unat (Offset d)) = unat (Offset d)" by simp
    show ?thesis using False lt assms(1) unfolding Some option.case m of_nat_diff_u16 [OF less_imp_le [OF lt]]
      by (simp add: CalculatePciCapMaxSizeHint_def)
  qed
qed

lemma SizeHintLoop_result:
  assumes D: "delete_law E" and P: "pool_law E held"
  shows "co_Entries E (CapHdrOffsets st) = es \<Longrightarrow> sorted_wrt (<) (map (off_rank (caps st)) es) \<Longrightarrow>
    (\<forall>e\<in>set es. off_rank (caps st) e < ConfigSpaceSize (Domain (Key (caps st e)))) \<Longrightarrow>
    \<exists>st'. SizeHintLoop E es st = Ok st' \<and> co_Entries E (CapHdrOffsets st') = [] \<and> Capabilities st' = Capabilities st \<and> held (pw st') = held (pw st) \<and>
      caps st' = (\<lambda>a. if a \<in> set es then (caps st a)\<lparr>MaxSizeHint := of_nat (room_end (caps st) (set es) a - off_rank (caps st) a)\<rparr> else caps st a)"
proof (induction es arbitrary: st)
  case Nil
  then show ?case by simp
next
  case (Cons p ps)
  obtain c1 w1 where d: "co_Delete E p (CapHdrOffsets st) (pw st) = (c1, w1)" by (cases "co_Delete E p (CapHdrOffsets st) (pw st)")
  define cap where "cap = (caps st p)\<lparr>MaxSizeHint := of_nat (room_end (caps st) (set (p # ps)) p - off_rank (caps st) p)\<rparr>"
  define st1 where "st1 = st\<lparr>caps := (caps st)(p := cap), CapHdrOffsets := c1, pw := w1\<rparr>"
  have same: "Offset (caps st1 b) = Offset (caps st b) \<and> Key (caps st1 b) = Key (caps st b)" for b by (simp add: st1_def cap_def)
  have e1: "co_Entries E (CapHdrOffsets st1) = ps" using delete_lawD(1) [OF D d] Cons.prems(1) by (simp add: st1_def)
  have h1: "held (pw st1) = held (pw st)" using pool_lawD(6) [OF P d] by (simp add: st1_def)
  have "CalculatePciCapMaxSizeHint (caps st p) (case ps of [] \<Rightarrow> None | q # _ \<Rightarrow> Some (caps st q)) = Ok cap"
    unfolding cap_def room_end_head [OF Cons.prems(2)]
    by (subst CalculatePciCapMaxSizeHint_result) (use Cons.prems(2,3) in \<open>auto split: list.splits\<close>)
  then have run: "SizeHintLoop E (p # ps) st = SizeHintLoop E ps st1" using d by (simp add: st1_def)
  have pn: "p \<notin> set ps" using sorted_distinct [OF Cons.prems(2)] by simp
  have "sorted_wrt (<) (map (off_rank (caps st1)) ps)" "\<forall>e\<in>set ps. off_rank (caps st1) e < ConfigSpaceSize (Domain (Key (caps st1 e)))"
    using Cons.prems(2,3) by (simp_all add: same)
  from Cons.IH [OF e1 this] obtain st' where st': "SizeHintLoop E ps st1 = Ok st'" "co_Entries E (CapHdrOffsets st') = []"
    "Capabilities st' = Capabilities st1" "held (pw st') = held (pw st1)"
    "caps st' = (\<lambda>a. if a \<in> set ps then (caps st1 a)\<lparr>MaxSizeHint := of_nat (room_end (caps st1) (set ps) a - off_rank (caps st1) a)\<rparr> else caps st1 a)"
    by blast
  have "caps st' a = (if a \<in> set (p # ps) then (caps st a)\<lparr>MaxSizeHint := of_nat (room_end (caps st) (set (p # ps)) a - off_rank (caps st) a)\<rparr> else caps st a)" for a
    using pn room_end_tail [OF Cons.prems(2), of a] unfolding st'(5) room_end_cong [of "caps st1" "caps st", OF same]
    by (cases "a = p"; cases "a \<in> set ps") (simp_all add: st1_def cap_def)
  then have "caps st' = (\<lambda>a. if a \<in> set (p # ps) then (caps st a)\<lparr>MaxSizeHint := of_nat (room_end (caps st) (set (p # ps)) a - off_rank (caps st) a)\<rparr> else caps st a)"
    by (rule ext)
  moreover have "Capabilities st' = Capabilities st" using st'(3) by (simp add: st1_def)
  ultimately show ?case using run st'(1,2,4) h1 by auto
qed

section \<open>Release\<close>

lemma EmptyLoop_result:
  assumes D: "delete_law E" and P: "pool_law E held"
  shows "co_Entries E c = es \<Longrightarrow> EmptyLoop E f es c w = (c', w') \<Longrightarrow>
    co_Entries E c' = [] \<and> held w' = (if f then held w - set es else held w)"
proof (induction es arbitrary: c w)
  case (Cons p ps)
  obtain c1 w1 where d: "co_Delete E p c w = (c1, w1)" by (cases "co_Delete E p c w")
  have "co_Entries E c1 = ps" using delete_lawD(1) [OF D d] Cons.prems(1) by simp
  from Cons.IH [OF this] show ?case using Cons.prems(2) d pool_lawD(6) [OF P d] pool_lawD(3) [OF P, of p w1] by (auto split: if_splits)
qed simp

lemma EmptyAndUninit_held:
  assumes D: "delete_law E" and P: "pool_law E held"
  shows "held (EmptyAndUninitPciCapCollection E c f w) = (if f then held w - set (co_Entries E c) else held w)"
proof -
  obtain c' w' where e: "EmptyLoop E f (co_Entries E c) c w = (c', w')" by (cases "EmptyLoop E f (co_Entries E c) c w")
  then show ?thesis using EmptyLoop_result [OF D P refl e] pool_lawD(7) [OF P] by (simp add: EmptyAndUninitPciCapCollection_def)
qed

lemma PciCapListUninit_held:
  assumes D: "delete_law E" and P: "pool_law E held"
  shows "held (PciCapListUninit E p c w) = held w - set (co_Entries E c) - {p}"
  by (simp add: PciCapListUninit_def EmptyAndUninit_held [OF D P] pool_lawD(3) [OF P])

lemma FreeLists_held:
  assumes D: "delete_law E" and P: "pool_law E held"
  shows "held (FreeLists E p st) = held (pw st) - set (co_Entries E (Capabilities st)) - {p}"
  by (simp add: FreeLists_def EmptyAndUninit_held [OF D P] pool_lawD(3) [OF P])

section \<open>The finished list\<close>

definition size_hint :: "header list \<Rightarrow> header \<Rightarrow> u16" where
  "size_hint hs h = of_nat (Min (insert (ConfigSpaceSize (fst h)) ((\<lambda>g. unat (hdr_off g)) ` {g\<in>set hs. hdr_off h < hdr_off g})) - unat (hdr_off h))"

definition finished :: "('c, 'w) cap_env \<Rightarrow> ('c, 'w) parse \<Rightarrow> header list \<Rightarrow> nat list \<Rightarrow> bool" where
  "finished E st hs ps \<longleftrightarrow> length ps = length hs \<and> headers_ok hs \<and>
    set (co_Entries E (Capabilities st)) = set ps \<and> sorted_wrt (<) (map (key_rank (caps st)) (co_Entries E (Capabilities st))) \<and>
    (\<forall>i<length hs. cap_obj (caps st) hs ps i \<and> MaxSizeHint (caps st (ps ! i)) = size_hint hs (hs ! i))"

lemma parsed_room_end:
  assumes p: "parsed E st hs ps" and i: "i < length hs"
  shows "of_nat (room_end (caps st) (set ps) (ps ! i) - off_rank (caps st) (ps ! i)) = size_hint hs (hs ! i)"
proof -
  note o = cap_objD [OF parsedD(8) [OF p]] and len = parsedD(1) [OF p]
  have "off_rank (caps st) ` {b\<in>set ps. off_rank (caps st) (ps ! i) < off_rank (caps st) b} = (\<lambda>g. unat (hdr_off g)) ` {g\<in>set hs. hdr_off (hs ! i) < hdr_off g}"
    (is "?L = ?R")
  proof
    show "?L \<subseteq> ?R"
    proof
      fix x assume "x \<in> ?L"
      then obtain j where "j < length hs" "x = off_rank (caps st) (ps ! j)" "off_rank (caps st) (ps ! i) < x"
        using len by (auto simp: in_set_conv_nth)
      then show "x \<in> ?R" using o(2) i by (intro image_eqI [of _ _ "hs ! j"]) (auto simp: word_less_nat_alt)
    qed
    show "?R \<subseteq> ?L"
    proof
      fix x assume "x \<in> ?R"
      then obtain j where "j < length hs" "x = unat (hdr_off (hs ! j))" "hdr_off (hs ! i) < hdr_off (hs ! j)"
        by (auto simp: in_set_conv_nth)
      then show "x \<in> ?L" using o(2) i len by (intro image_eqI [of _ _ "ps ! j"]) (auto simp: word_less_nat_alt)
    qed
  qed
  then show ?thesis using o(1,2) [OF i] by (simp add: room_end_def size_hint_def)
qed

lemma parsed_finished:
  assumes p: "parsed E st hs ps" and c: "Capabilities st' = Capabilities st"
    and h: "caps st' = (\<lambda>a. if a \<in> set ps then (caps st a)\<lparr>MaxSizeHint := of_nat (room_end (caps st) (set ps) a - off_rank (caps st) a)\<rparr> else caps st a)"
  shows "finished E st' hs ps"
proof -
  have k: "Key (caps st' a) = Key (caps st a)" for a by (simp add: h)
  have "cap_obj (caps st') hs ps i \<and> MaxSizeHint (caps st' (ps ! i)) = size_hint hs (hs ! i)" if i: "i < length hs" for i
  proof -
    have m: "ps ! i \<in> set ps" using i parsedD(1) [OF p] by simp
    have "caps st' (ps ! i) = (caps st (ps ! i))\<lparr>MaxSizeHint := size_hint hs (hs ! i)\<rparr>"
      using m parsed_room_end [OF p i] by (simp only: h if_True)
    then show ?thesis using parsedD(8) [OF p i] by (simp add: cap_obj_def Let_def)
  qed
  then show ?thesis using parsedD(1,3,4,5) [OF p] by (simp add: finished_def c k)
qed

lemma ReadLists_SizeHint:
  assumes E: "cap_env_ok E cfg readable held" and p: "parsed E st hs ps"
  obtains st' where "SizeHintLoop E (co_Entries E (CapHdrOffsets st)) st = Ok st'" "co_Entries E (CapHdrOffsets st') = []"
    "finished E st' hs ps" "held (pw st') = held (pw st)"
proof -
  have "off_rank (caps st) e < ConfigSpaceSize (Domain (Key (caps st e)))" if "e \<in> set (co_Entries E (CapHdrOffsets st))" for e
  proof -
    have "e \<in> set ps" using that unfolding parsedD(6) [OF p] .
    then obtain i where i: "i < length hs" "e = ps ! i" unfolding in_set_conv_nth parsedD(1) [OF p] by blast
    show ?thesis using cap_objD(1,2) [OF parsedD(8) [OF p i(1)]] parsedD(3) [OF p] i by (simp add: headers_ok_def)
  qed
  then obtain st' where "SizeHintLoop E (co_Entries E (CapHdrOffsets st)) st = Ok st'" "co_Entries E (CapHdrOffsets st') = []"
    "Capabilities st' = Capabilities st" "held (pw st') = held (pw st)"
    "caps st' = (\<lambda>a. if a \<in> set ps then (caps st a)\<lparr>MaxSizeHint := of_nat (room_end (caps st) (set ps) a - off_rank (caps st) a)\<rparr> else caps st a)"
    using SizeHintLoop_result [OF cap_env_okD(3,5) [OF E] refl parsedD(7) [OF p]] unfolding parsedD(6) [OF p] by blast
  then show thesis using that parsed_finished [OF p] by blast
qed

text \<open>The outcomes of \<open>PciCapListInit\<close>: nothing is held after an error; the finished list holds the
  list object and one block for each header.\<close>

definition init_outcome :: "('c, 'w) cap_env \<Rightarrow> (nat \<Rightarrow> u8) \<Rightarrow> (nat \<Rightarrow> bool) \<Rightarrow> ('w \<Rightarrow> nat set) \<Rightarrow> 'w \<Rightarrow> EFI_STATUS + nat \<times> ('c, 'w) parse \<Rightarrow> 'w \<Rightarrow> bool" where
  "init_outcome E cfg readable held w r w' \<longleftrightarrow> (case r of
     Inl s \<Rightarrow> EFI_ERROR s \<and> held w' = held w
   | Inr (l, st) \<Rightarrow> \<exists>hs ps. config_headers cfg readable hs \<and> finished E st hs ps \<and> pw st = w' \<and> l \<notin> held w \<and> set ps \<inter> insert l (held w) = {} \<and>
       held w' = insert l (held w \<union> set ps))"

lemma PciCapListInit_result:
  assumes E: "cap_env_ok E cfg readable held"
  shows "\<exists>r w'. PciCapListInit E heap w = Some (Ok (r, w')) \<and> init_outcome E cfg readable held w r w'"
proof -
  note D = cap_env_okD(3) [OF E] and P = cap_env_okD(5) [OF E]
  obtain x w1 where a: "AllocatePool E w = (x, w1)" by (cases "AllocatePool E w")
  show ?thesis
  proof (cases x)
    case None
    then show ?thesis using a pool_lawD(1) [OF P] by (simp add: PciCapListInit_def init_outcome_def)
  next
    case (Some l)
    have l: "l \<notin> held w" "held w1 = insert l (held w)" using pool_lawD(2) [OF P] a Some by auto
    obtain y w2 where i1: "co_Init E w1 = (y, w2)" by (cases "co_Init E w1")
    obtain z w3 where i2: "co_Init E w2 = (z, w3)" by (cases "co_Init E w2")
    have h: "held w2 = insert l (held w)" "held w3 = insert l (held w)" using pool_lawD(4) [OF P i1] pool_lawD(4) [OF P i2] l by auto
    show ?thesis
    proof (cases y)
      case None
      then show ?thesis using a Some i1 h l pool_lawD(3) [OF P] by (simp add: PciCapListInit_def init_outcome_def)
    next
      case y: (Some c1)
      have e1: "co_Entries E c1 = []" using delete_lawD(2) [OF D] i1 y by blast
      show ?thesis
      proof (cases z)
        case None
        then show ?thesis using a Some i1 i2 y h l e1 by (simp add: PciCapListInit_def init_outcome_def EmptyAndUninit_held [OF D P] pool_lawD(3) [OF P])
      next
        case z: (Some c2)
        define st where "st = \<lparr>caps = heap, Capabilities = c1, CapHdrOffsets = c2, pw = w3\<rparr>"
        have e2: "co_Entries E c2 = []" using delete_lawD(2) [OF D] i2 z by blast
        have "parsed E st [] []" using e1 e2 by (simp add: parsed_def headers_ok_def st_def)
        then obtain s st' hs ps where r: "ReadLists E st = Some (Ok (s, st'))" "grows E held st [] [] hs ps st'"
          "\<not> EFI_ERROR s \<longrightarrow> s = EFI_SUCCESS \<and> config_headers cfg readable hs" using ReadLists_result [OF E] by blast
        have g: "parsed E st' hs ps" "held (pw st') = insert l (held w \<union> set ps)" "set ps \<inter> insert l (held w) = {}"
          using r(2) h by (auto simp: grows_def st_def)
        have run: "PciCapListInit E heap w = (if EFI_ERROR s then Some (Ok (Inl s, FreeLists E l st'))
            else run_bind (Some (SizeHintLoop E (co_Entries E (CapHdrOffsets st')) st')) (\<lambda>st1.
              if co_Entries E (CapHdrOffsets st1) \<noteq> [] then Some AssertFailed
              else let w' = co_Uninit E (CapHdrOffsets st1) (pw st1) in Some (Ok (Inr (l, st1\<lparr>pw := w'\<rparr>), w'))))"
          using a Some i1 i2 y z r(1) by (simp add: PciCapListInit_def st_def)
        show ?thesis
        proof (cases "EFI_ERROR s")
          case True
          have "held (FreeLists E l st') = held w" using FreeLists_held [OF D P, of l st'] parsedD(4) [OF g(1)] g(2,3) l(1) by auto
          then show ?thesis using run True by (simp add: init_outcome_def)
        next
          case False
          obtain st1 where s1: "SizeHintLoop E (co_Entries E (CapHdrOffsets st')) st' = Ok st1" "co_Entries E (CapHdrOffsets st1) = []"
            "finished E st1 hs ps" "held (pw st1) = held (pw st')" using ReadLists_SizeHint [OF E g(1)] .
          have "finished E (st1\<lparr>pw := co_Uninit E (CapHdrOffsets st1) (pw st1)\<rparr>) hs ps" using s1(3) by (simp add: finished_def)
          then show ?thesis using run False s1 r(3) g(2,3) l(1) pool_lawD(7) [OF P]
            by (auto simp: init_outcome_def Let_def)
        qed
      qed
    qed
  qed
qed

section \<open>Lookups\<close>

lemma finishedD:
  assumes "finished E st hs ps"
  shows "length ps = length hs" "headers_ok hs" "set (co_Entries E (Capabilities st)) = set ps"
    "sorted_wrt (<) (map (key_rank (caps st)) (co_Entries E (Capabilities st)))" "i < length hs \<Longrightarrow> cap_obj (caps st) hs ps i"
    "i < length hs \<Longrightarrow> MaxSizeHint (caps st (ps ! i)) = size_hint hs (hs ! i)"
  using assms by (simp_all add: finished_def)

lemma finished_nth:
  assumes f: "finished E st hs ps" and x: "x \<in> set (co_Entries E (Capabilities st))"
  obtains i where "i < length hs" "x = ps ! i"
  using x unfolding finishedD(3) [OF f] in_set_conv_nth finishedD(1) [OF f] by blast

definition headers_of :: "header list \<Rightarrow> PCI_CAP_DOMAIN \<Rightarrow> u16 \<Rightarrow> header list" where
  "headers_of hs d cid = filter (\<lambda>h. fst h = d \<and> fst (snd h) = cid) hs"

lemma headers_of_same: "filter (same_id h) hs = headers_of hs (fst h) (fst (snd h))"
  by (auto simp: headers_of_def same_id_def intro: filter_cong)

lemma num_headers_of: "num hs h = length (headers_of hs (fst h) (fst (snd h)))"
  by (simp add: num_def headers_of_same)

lemma headers_of_nth: "i < length hs \<Longrightarrow> headers_of hs (fst (hs ! i)) (fst (snd (hs ! i))) ! inst hs i = hs ! i"
proof -
  assume i: "i < length hs"
  have "filter (same_id (hs ! i)) hs = filter (same_id (hs ! i)) (take i hs) @ hs ! i # filter (same_id (hs ! i)) (drop (Suc i) hs)"
    by (subst id_take_nth_drop [OF i]) (simp add: i min_def)
  then show ?thesis unfolding headers_of_same [symmetric] by (simp add: inst_def num_def nth_append)
qed

text \<open>The position of a key in the finished list.\<close>

lemma finished_key:
  assumes f: "finished E st hs ps" and i: "i < length hs"
  shows "Key (caps st (ps ! i)) = \<lparr>Domain = d, CapId = cid, Instance = k\<rparr> \<longleftrightarrow> fst (hs ! i) = d \<and> fst (snd (hs ! i)) = cid \<and> inst hs i = unat k"
proof -
  have "inst hs i \<le> 4096" using inst_less [OF i] headers_num [OF finishedD(2) [OF f], of "hs ! i"] by simp
  then have "of_nat (inst hs i) = k \<longleftrightarrow> inst hs i = unat k" using u16_of_nat [of "inst hs i"] by (auto simp: word_unat_eq_iff)
  then show ?thesis using cap_objD(1) [OF finishedD(5) [OF f i]] by simp
qed

lemma PciCapListFindCap_result:
  assumes E: "cap_env_ok E cfg readable held" and f: "finished E st hs ps"
  shows "if unat k < length (headers_of hs d cid)
    then \<exists>i<length hs. PciCapListFindCap E (caps st) (Capabilities st) d cid k = (EFI_SUCCESS, Some (ps ! i)) \<and>
      fst (hs ! i) = d \<and> fst (snd (hs ! i)) = cid \<and> inst hs i = unat k
    else PciCapListFindCap E (caps st) (Capabilities st) d cid k = (EFI_NOT_FOUND, None)"
proof -
  let ?key = "\<lparr>Domain = d, CapId = cid, Instance = k\<rparr>"
  let ?cmp = "\<lambda>e. ComparePciCapKey ?key (caps st e)"
  let ?es = "co_Entries E (Capabilities st)"
  have len: "length ps = length hs" using finishedD(1) [OF f] .
  obtain as zs bs where sp: "splits ?cmp ?es as zs bs"
    and z: "if rank ?key \<in> key_rank (caps st) ` set ?es then \<exists>z. zs = [z] \<and> z \<in> set ?es \<and> key_rank (caps st) z = rank ?key else zs = []"
    using sorted_splits [OF finishedD(4) [OF f], of ?cmp "rank ?key"] by (auto simp: rank_compare)
  have law: "zs = [] \<Longrightarrow> co_Find E ?cmp (Capabilities st) = None" "zs = [z] \<Longrightarrow> co_Find E ?cmp (Capabilities st) = Some z" for z
    using cap_env_okD(2) [OF E] sp unfolding find_law_def by blast+
  have ex: "(\<exists>i<length hs. fst (hs ! i) = d \<and> fst (snd (hs ! i)) = cid \<and> inst hs i = unat k) \<longleftrightarrow> unat k < length (headers_of hs d cid)"
  proof
    show "unat k < length (headers_of hs d cid)" if "\<exists>i<length hs. fst (hs ! i) = d \<and> fst (snd (hs ! i)) = cid \<and> inst hs i = unat k"
      using that inst_less [of _ hs] by (metis num_headers_of)
    show "\<exists>i<length hs. fst (hs ! i) = d \<and> fst (snd (hs ! i)) = cid \<and> inst hs i = unat k" if "unat k < length (headers_of hs d cid)"
      using that inst_ex [of "unat k" hs "(d, cid, 0, 0)"] by (auto simp: num_headers_of same_id_def)
  qed
  show ?thesis
  proof (cases "rank ?key \<in> key_rank (caps st) ` set ?es")
    case True
    then obtain z where z: "zs = [z]" "z \<in> set ps" "Key (caps st z) = ?key" using z finishedD(3) [OF f] by (auto simp: rank_inject)
    then obtain i where i: "i < length hs" "z = ps ! i" using len by (metis in_set_conv_nth)
    then have "fst (hs ! i) = d \<and> fst (snd (hs ! i)) = cid \<and> inst hs i = unat k" using finished_key [OF f i(1)] z(3) by simp
    then show ?thesis using law(2) [OF z(1)] i ex by (auto simp: PciCapListFindCap_def)
  next
    case False
    have "\<not> (fst (hs ! i) = d \<and> fst (snd (hs ! i)) = cid \<and> inst hs i = unat k)" if i: "i < length hs" for i
    proof -
      have "ps ! i \<in> set ?es" using i len finishedD(3) [OF f] by simp
      then have "Key (caps st (ps ! i)) \<noteq> ?key" using False by (metis image_eqI)
      then show ?thesis using finished_key [OF f i] by blast
    qed
    then have "\<not> unat k < length (headers_of hs d cid)" using ex by blast
    moreover have "zs = []" using z False by simp
    ultimately show ?thesis using law(1) by (simp add: PciCapListFindCap_def)
  qed
qed

lemma PciCapGetInfo_result:
  assumes f: "finished E st hs ps" and i: "i < length hs"
  shows "PciCapGetInfo (caps st) (ps ! i) = Ok \<lparr>i_Domain = fst (hs ! i), i_CapId = fst (snd (hs ! i)), i_NumInstances = of_nat (num hs (hs ! i)),
    i_Instance = of_nat (inst hs i), i_Offset = hdr_off (hs ! i), i_MaxSizeHint = size_hint hs (hs ! i), i_Version = snd (snd (snd (hs ! i)))\<rparr>"
proof -
  note o = cap_objD [OF finishedD(5) [OF f i]]
  have "inst hs i \<le> 4096" using inst_less [OF i] headers_num [OF finishedD(2) [OF f], of "hs ! i"] by simp
  then have z: "(of_nat (inst hs i) :: u16) = 0 \<longleftrightarrow> inst hs i = 0" using u16_of_nat [of "inst hs i"] by (auto simp: word_unat_eq_iff)
  show ?thesis
  proof (cases "inst hs i = 0")
    case True
    then show ?thesis using o(1,2,3) o(4) [OF True] finishedD(6) [OF f i] by (simp add: PciCapGetInfo_def Let_def)
  next
    case False
    then obtain j where j: "j < length hs" "same_id (hs ! i) (hs ! j)" "inst hs j = 0" "NumInstancesUnion (caps st (ps ! i)) = InstanceZero (ps ! j)"
      using o(5) by blast
    have "NumInstancesUnion (caps st (ps ! j)) = NumInstances (of_nat (num hs (hs ! i)))"
      using cap_objD(4) [OF finishedD(5) [OF f j(1)] j(3)] num_cong [OF j(2), of hs] by simp
    then show ?thesis using o(1,2,3) j(4) False z finishedD(6) [OF f i] by (simp add: PciCapGetInfo_def Let_def)
  qed
qed

text \<open>The search for a version walks the instances in their order.\<close>

lemma VersionLoop_find:
  "VersionLoop heap d cid v ps = (case find (\<lambda>p. v \<le> Version (heap p)) (takeWhile (\<lambda>p. Domain (Key (heap p)) = d \<and> CapId (Key (heap p)) = cid) ps) of
     None \<Rightarrow> (EFI_NOT_FOUND, None) | Some p \<Rightarrow> (EFI_SUCCESS, Some p))"
  by (induction ps) auto

lemma find_unique:
  assumes "sorted_wrt (<) (map f xs)" and "a \<in> set xs" "P a" and "\<And>b. b \<in> set xs \<Longrightarrow> f b < f a \<Longrightarrow> \<not> P b"
  shows "find P xs = Some (a :: nat)"
  using assms
proof (induction xs)
  case (Cons x xs)
  then show ?case by (cases "a = x") auto
qed simp

lemma takeWhile_filter:
  assumes "sorted_wrt (<) (map f xs)" and "\<And>x y. x \<in> set xs \<Longrightarrow> y \<in> set xs \<Longrightarrow> f x < (f y :: nat) \<Longrightarrow> \<not> P x \<Longrightarrow> \<not> P y"
  shows "takeWhile P xs = filter P xs"
  using assms
proof (induction xs)
  case (Cons x xs)
  show ?case
  proof (cases "P x")
    case True
    have "takeWhile P xs = filter P xs"
      by (rule Cons.IH) (use Cons.prems(1) in simp, meson Cons.prems(2) list.set_intros(2))
    then show ?thesis using True by simp
  next
    case False
    then have "\<forall>y\<in>set xs. \<not> P y" using Cons.prems(2) [of x] Cons.prems(1) by auto
    then show ?thesis using False by simp
  qed
qed simp

lemma find_filter: "find P (filter Q xs) = find (\<lambda>x. Q x \<and> P x) xs"
  by (induction xs) auto

lemma rank_class: "Domain k = d \<and> CapId k = cid \<longleftrightarrow> rank k div 65536 = rank \<lparr>Domain = d, CapId = cid, Instance = 0\<rparr> div 65536"
proof -
  have *: "(a * 65536 + b = a' * 65536 + b') = (a = a' \<and> b = b')" if "b < 65536" "b' < 65536" for a b a' b' :: nat
    by (cases a a' rule: linorder_cases) (use that in auto)
  have d: "(a * 65536 + b) div 65536 = a" if "b < 65536" for a b :: nat using that by simp
  have "rank k div 65536 = DomainValue (Domain k) * 65536 + unat (CapId k)" for k
    by (simp only: rank_def d [OF unat_u16_less])
  then show ?thesis using * [OF unat_u16_less unat_u16_less, of "DomainValue (Domain k)" "CapId k" "DomainValue d" cid] by (auto simp: word_unat_eq_iff)
qed

lemma inst_mono: "i \<le> j \<Longrightarrow> j < length hs \<Longrightarrow> same_id (hs ! i) (hs ! j) \<Longrightarrow> inst hs i \<le> inst hs j"
proof -
  assume ij: "i \<le> j" "j < length hs" and s: "same_id (hs ! i) (hs ! j)"
  have "take j hs = take i hs @ drop i (take j hs)" using ij(1) by (metis append_take_drop_id min.absorb1 take_take)
  then have "num (take i hs) (hs ! j) \<le> num (take j hs) (hs ! j)" unfolding num_def by (metis filter_append le_add1 length_append)
  then show ?thesis using num_cong [OF s, of "take i hs"] by (simp add: inst_def)
qed

lemma VersionLoop_sorted:
  assumes so: "sorted_wrt (<) (map (key_rank heap) es)" and e: "e \<in> set es" "Key (heap e) = \<lparr>Domain = d, CapId = cid, Instance = 0\<rparr>"
  shows "VersionLoop heap d cid v (dropWhile (\<lambda>p. p \<noteq> e) es) =
    (case find (\<lambda>p. (Domain (Key (heap p)) = d \<and> CapId (Key (heap p)) = cid) \<and> v \<le> Version (heap p)) es of None \<Rightarrow> (EFI_NOT_FOUND, None) | Some p \<Rightarrow> (EFI_SUCCESS, Some p))"
proof -
  let ?m = "\<lambda>p. Domain (Key (heap p)) = d \<and> CapId (Key (heap p)) = cid"
  let ?B = "rank \<lparr>Domain = d, CapId = cid, Instance = 0\<rparr>"
  have B: "?B = ?B div 65536 * 65536" by (simp add: rank_def)
  obtain as bs where es: "es = as @ e # bs" using e(1) by (meson split_list)
  have "e \<notin> set as" using sorted_distinct [OF so] es by simp
  then have dw: "dropWhile (\<lambda>p. p \<noteq> e) es = e # bs" unfolding es by (subst dropWhile_append2) auto
  have as: "\<not> ?m a" if "a \<in> set as" for a
  proof -
    have "key_rank heap a < ?B" using so that e(2) unfolding es by (simp add: sorted_wrt_append)
    then have "key_rank heap a div 65536 < ?B div 65536" using B by (metis less_mult_imp_div_less)
    then show ?thesis unfolding rank_class by simp
  qed
  have so': "sorted_wrt (<) (map (key_rank heap) (e # bs))" using so es by (simp add: sorted_wrt_append)
  have ge: "?B \<le> key_rank heap a" if "a \<in> set (e # bs)" for a using so' that e(2) by auto
  have "takeWhile ?m (e # bs) = filter ?m (e # bs)"
  proof (rule takeWhile_filter [OF so'])
    fix x y assume xy: "x \<in> set (e # bs)" "key_rank heap x < key_rank heap y" "\<not> ?m x"
    have "?B div 65536 \<le> key_rank heap x div 65536" using ge [OF xy(1)] by (rule div_le_mono)
    moreover have "key_rank heap x div 65536 \<le> key_rank heap y div 65536" using xy(2) by (intro div_le_mono) simp
    ultimately show "\<not> ?m y" using xy(3) unfolding rank_class by simp
  qed
  also have "\<dots> = filter ?m es" using as by (simp add: es)
  finally show ?thesis unfolding VersionLoop_find dw by (simp only: find_filter)
qed

text \<open>The first header with the identifier and a sufficient version.\<close>

lemma PciCapListFindCapVersion_result:
  assumes E: "cap_env_ok E cfg readable held" and f: "finished E st hs ps"
  shows "case find (\<lambda>h. (fst h = d \<and> fst (snd h) = cid) \<and> v \<le> snd (snd (snd h))) hs of
      None \<Rightarrow> PciCapListFindCapVersion E (caps st) (Capabilities st) d cid v = (EFI_NOT_FOUND, None)
    | Some h \<Rightarrow> \<exists>i<length hs. PciCapListFindCapVersion E (caps st) (Capabilities st) d cid v = (EFI_SUCCESS, Some (ps ! i)) \<and> hs ! i = h"
proof -
  let ?es = "co_Entries E (Capabilities st)"
  let ?P = "\<lambda>h :: header. (fst h = d \<and> fst (snd h) = cid) \<and> v \<le> snd (snd (snd h))"
  let ?Q = "\<lambda>p. (Domain (Key (caps st p)) = d \<and> CapId (Key (caps st p)) = cid) \<and> v \<le> Version (caps st p)"
  have len: "length ps = length hs" and es: "set ?es = set ps" using finishedD(1,3) [OF f] by auto
  have Q: "?Q (ps ! i) \<longleftrightarrow> ?P (hs ! i)" if "i < length hs" for i using cap_objD(1,3) [OF finishedD(5) [OF f that]] by simp
  have run: "PciCapListFindCapVersion E (caps st) (Capabilities st) d cid v =
      (case find ?Q ?es of None \<Rightarrow> (EFI_NOT_FOUND, None) | Some p \<Rightarrow> (EFI_SUCCESS, Some p))" if ne: "headers_of hs d cid \<noteq> []"
  proof -
    obtain i where i: "i < length hs" "PciCapListFindCap E (caps st) (Capabilities st) d cid 0 = (EFI_SUCCESS, Some (ps ! i))"
      "fst (hs ! i) = d \<and> fst (snd (hs ! i)) = cid \<and> inst hs i = 0"
      using PciCapListFindCap_result [OF E f, of 0 d cid] ne by auto
    have "Key (caps st (ps ! i)) = \<lparr>Domain = d, CapId = cid, Instance = 0\<rparr>" using finished_key [OF f i(1)] i(3) by simp
    moreover have "ps ! i \<in> set ?es" using i(1) len es by simp
    ultimately show ?thesis using i(2) VersionLoop_sorted [OF finishedD(4) [OF f], of "ps ! i" d cid v]
      by (auto simp: PciCapListFindCapVersion_def PciCapListFindCap_def split: option.splits)
  qed
  show ?thesis
  proof (cases "find ?P hs")
    case None
    show ?thesis
    proof (cases "headers_of hs d cid = []")
      case True
      then show ?thesis using None PciCapListFindCap_result [OF E f, of 0 d cid]
        by (auto simp: PciCapListFindCapVersion_def PciCapListFindCap_def split: option.splits)
    next
      case False
      have "\<not> ?Q x" if x: "x \<in> set ?es" for x
      proof -
        obtain i where i: "i < length hs" "x = ps ! i" by (rule finished_nth [OF f x])
        have "\<not> ?P (hs ! i)" using None nth_mem [OF i(1)] unfolding find_None_iff by blast
        then show ?thesis using Q [OF i(1)] i(2) by blast
      qed
      then have "find ?Q ?es = None" by (simp add: find_None_iff)
      then show ?thesis using None run [OF False] by simp
    qed
  next
    case (Some h)
    then obtain i where i: "i < length hs" "?P (hs ! i)" "hs ! i = h" "\<forall>j<i. \<not> ?P (hs ! j)" by (auto simp: find_Some_iff)
    have ne: "headers_of hs d cid \<noteq> []" using i(1,2) by (auto simp: headers_of_def filter_empty_conv)
    have "find ?Q ?es = Some (ps ! i)"
    proof (rule find_unique [OF finishedD(4) [OF f]])
      show "ps ! i \<in> set ?es" using i(1) len es by simp
      show "?Q (ps ! i)" using Q i by simp
      fix b assume b: "b \<in> set ?es" "key_rank (caps st) b < key_rank (caps st) (ps ! i)"
      obtain j where j: "j < length hs" "b = ps ! j" by (rule finished_nth [OF f b(1)])
      show "\<not> ?Q b"
      proof
        assume q: "?Q b"
        then have pj: "?P (hs ! j)" using Q j by simp
        then have "i \<le> j" using i(4) not_less by blast
        then have "inst hs i \<le> inst hs j" using inst_mono [of i j hs] j(1) pj i(2) by (simp add: same_id_def)
        moreover have "inst hs j \<le> 4096" using inst_less [OF j(1)] headers_num [OF finishedD(2) [OF f], of "hs ! j"] by simp
        ultimately have "key_rank (caps st) (ps ! i) \<le> key_rank (caps st) (ps ! j)"
          using cap_objD(1) [OF finishedD(5) [OF f i(1)]] cap_objD(1) [OF finishedD(5) [OF f j(1)]] pj i(2) by (simp add: rank_def u16_of_nat)
        then show False using b(2) j(2) by simp
      qed
    qed
    then show ?thesis using Some run [OF ne] i(1,3) by auto
  qed
qed

lemma size_hint_room:
  assumes ok: "headers_ok hs" and h: "h \<in> set hs" and n: "n \<le> unat (size_hint hs h)"
  shows "unat (hdr_off h) + n \<le> ConfigSpaceSize (fst h)" "g \<in> set hs \<Longrightarrow> hdr_off h < hdr_off g \<Longrightarrow> unat (hdr_off h) + n \<le> unat (hdr_off g)"
proof -
  define A where "A = insert (ConfigSpaceSize (fst h)) ((\<lambda>g. unat (hdr_off g)) ` {g\<in>set hs. hdr_off h < hdr_off g})"
  have fin: "finite A" "ConfigSpaceSize (fst h) \<in> A" by (simp_all add: A_def)
  have "Min A \<le> ConfigSpaceSize (fst h)" using fin by simp
  then have small: "Min A - unat (hdr_off h) \<le> 4096" using ConfigSpaceSize_le [of "fst h"] by linarith
  have "\<forall>a\<in>A. unat (hdr_off h) < a" using ok h by (auto simp: A_def headers_ok_def word_less_nat_alt)
  then have lt: "unat (hdr_off h) < Min A" using fin by (subst Min_gr_iff) auto
  have "unat (size_hint hs h) = Min A - unat (hdr_off h)" unfolding size_hint_def A_def [symmetric] by (rule u16_of_nat [OF small])
  then have le: "unat (hdr_off h) + n \<le> a" if "a \<in> A" for a using n lt Min_le [OF fin(1) that] by linarith
  show "unat (hdr_off h) + n \<le> ConfigSpaceSize (fst h)" using le fin(2) by blast
  show "g \<in> set hs \<Longrightarrow> hdr_off h < hdr_off g \<Longrightarrow> unat (hdr_off h) + n \<le> unat (hdr_off g)" by (rule le) (auto simp: A_def)
qed

section \<open>A device\<close>

text \<open>Collections as lists, the pool as the list of blocks handed out, and a configuration space with three
  normal capabilities, two of them of one kind, and two extended ones.\<close>

definition cap_demo_cfg :: "nat \<Rightarrow> u8" where
  "cap_demo_cfg a = (case map_of [(0x06, 0x10), (0x34, 0x40), (0x40, 0x10), (0x41, 0x50), (0x50, 0x05), (0x51, 0x60), (0x60, 0x05), (0x61, 0x00),
     (0x100, 0x01), (0x101, 0x00), (0x102, 0x02), (0x103, 0x14), (0x140, 0x01), (0x141, 0x00), (0x142, 0x03), (0x143, 0x00)] a of None \<Rightarrow> 0 | Some b \<Rightarrow> b)"

definition cap_demo_env :: "(nat list, nat list) cap_env" where
  "cap_demo_env = \<lparr>
     ReadConfig = (\<lambda>off n w. (EFI_SUCCESS, map (\<lambda>i. cap_demo_cfg (unat off + i)) [0..<n], w)),
     WriteConfig = (\<lambda>off bs w. (EFI_UNSUPPORTED, w)),
     AllocatePool = (\<lambda>w. let q = Suc (foldr max w 0) in (Some q, q # w)),
     FreePool = (\<lambda>p w. removeAll p w),
     co_Init = (\<lambda>w. (Some [], w)),
     co_Insert = (\<lambda>cmp p c w. case find (\<lambda>e. cmp e = 0) c of
       Some z \<Rightarrow> (EFI_ALREADY_STARTED, z, c, w)
     | None \<Rightarrow> (EFI_SUCCESS, p, takeWhile (\<lambda>e. cmp e > 0) c @ p # dropWhile (\<lambda>e. cmp e > 0) c, w)),
     co_Find = (\<lambda>cmp c. find (\<lambda>e. cmp e = 0) c),
     co_Entries = (\<lambda>c. c),
     co_Delete = (\<lambda>p c w. (remove1 p c, w)),
     co_Uninit = (\<lambda>c w. w)\<rparr>"

definition cap_demo_heap :: "nat \<Rightarrow> PCI_CAP" where
  "cap_demo_heap a = \<lparr>Key = \<lparr>Domain = PciCapNormal, CapId = 0, Instance = 0\<rparr>, NumInstancesUnion = NumInstances 0, Offset = 0, MaxSizeHint = 0, Version = 0\<rparr>"

lemma foldr_max_ge: "x \<in> set w \<Longrightarrow> x \<le> foldr max w (0 :: nat)"
  by (induction w) auto

lemma splits_list:
  assumes "splits cmp es as zs bs"
  shows "zs = [] \<Longrightarrow> find (\<lambda>e. cmp e = 0) es = None" "zs = [] \<Longrightarrow> takeWhile (\<lambda>e. cmp e > 0) es = as" "zs = [] \<Longrightarrow> dropWhile (\<lambda>e. cmp e > 0) es = bs"
    "zs = [z] \<Longrightarrow> find (\<lambda>e. cmp e = 0) es = Some z"
proof -
  have bs: "takeWhile (\<lambda>e. cmp e > 0) bs = []" "dropWhile (\<lambda>e. cmp e > 0) bs = bs"
    using assms by (cases bs; auto simp: splits_def)+
  have e: "es = as @ zs @ bs" "\<forall>a\<in>set as. 0 < cmp a" "\<forall>b\<in>set bs. cmp b < 0" "\<forall>z\<in>set zs. cmp z = 0" using assms by (auto simp: splits_def)
  have no: "find (\<lambda>e. cmp e = 0) (as @ xs) = find (\<lambda>e. cmp e = 0) xs" for xs using e(2) by (induction as) auto
  show "zs = [] \<Longrightarrow> find (\<lambda>e. cmp e = 0) es = None" using e by (auto simp: find_None_iff)
  show "zs = [] \<Longrightarrow> takeWhile (\<lambda>e. cmp e > 0) es = as" "zs = [] \<Longrightarrow> dropWhile (\<lambda>e. cmp e > 0) es = bs"
    using e bs by simp_all
  show "zs = [z] \<Longrightarrow> find (\<lambda>e. cmp e = 0) es = Some z" using e(4) unfolding e(1) no by simp
qed

lemma cap_demo_insert: "insert_law cap_demo_env"
proof -
  have "(s = EFI_SUCCESS \<or> s = EFI_ALREADY_STARTED \<or> s = EFI_OUT_OF_RESOURCES) \<and> (s \<noteq> EFI_SUCCESS \<longrightarrow> c' = c) \<and>
     (zs = [] \<longrightarrow> s \<noteq> EFI_ALREADY_STARTED \<and> (s = EFI_SUCCESS \<longrightarrow> c' = as @ p # bs)) \<and>
     (\<forall>z. zs = [z] \<longrightarrow> s \<noteq> EFI_SUCCESS \<and> (s = EFI_ALREADY_STARTED \<longrightarrow> e = z))"
    if i: "co_Insert cap_demo_env cmp p c w = (s, e, c', w')" and sp: "splits cmp c as zs bs" for cmp p c w s e c' w' as zs bs
  proof -
    note L = splits_list [OF sp]
    show ?thesis
    proof (cases "find (\<lambda>e. cmp e = 0) c")
      case None
      then have "s = EFI_SUCCESS" "c' = takeWhile (\<lambda>e. 0 < cmp e) c @ p # dropWhile (\<lambda>e. 0 < cmp e) c" using i by (auto simp: cap_demo_env_def)
      then show ?thesis using L None by auto
    next
      case (Some z)
      then have "s = EFI_ALREADY_STARTED" "c' = c" "e = z" using i by (auto simp: cap_demo_env_def)
      then show ?thesis using L Some by auto
    qed
  qed
  moreover have "co_Entries cap_demo_env c = c" for c by (simp add: cap_demo_env_def)
  ultimately show ?thesis unfolding insert_law_def by presburger
qed

lemma cap_demo_ok: "cap_env_ok cap_demo_env cap_demo_cfg (\<lambda>_. True) set"
proof -
  have "find_law cap_demo_env" unfolding find_law_def by (auto simp: cap_demo_env_def splits_list)
  moreover have "delete_law cap_demo_env" by (auto simp: delete_law_def cap_demo_env_def)
  moreover have "read_law cap_demo_env cap_demo_cfg (\<lambda>_. True) set" by (auto simp: read_law_def cap_demo_env_def)
  moreover have "pool_law cap_demo_env set"
    unfolding pool_law_def by (auto simp: cap_demo_env_def Let_def split: option.splits dest!: foldr_max_ge)
  ultimately show ?thesis using cap_demo_insert by (simp add: cap_env_ok_def)
qed

definition is_list :: "((EFI_STATUS + nat \<times> ('c, 'w) parse) \<times> 'w) run \<Rightarrow> bool" where
  "is_list r \<longleftrightarrow> (case r of Some (Ok (Inr x, w)) \<Rightarrow> True | _ \<Rightarrow> False)"

lemma cap_demo_sel [simp]:
  "ReadConfig cap_demo_env off (Suc 0) w = (EFI_SUCCESS, [cap_demo_cfg (unat off)], w)"
  "ReadConfig cap_demo_env off 2 w = (EFI_SUCCESS, [cap_demo_cfg (unat off), cap_demo_cfg (unat off + 1)], w)"
  "ReadConfig cap_demo_env off 4 w = (EFI_SUCCESS, [cap_demo_cfg (unat off), cap_demo_cfg (unat off + 1), cap_demo_cfg (unat off + 2), cap_demo_cfg (unat off + 3)], w)"
  "AllocatePool cap_demo_env w = (let q = Suc (foldr max w 0) in (Some q, q # w))"
  "FreePool cap_demo_env p w = removeAll p w" "co_Init cap_demo_env w = (Some [], w)"
  "co_Insert cap_demo_env cmp p c w = (case find (\<lambda>e. cmp e = 0) c of
     Some z \<Rightarrow> (EFI_ALREADY_STARTED, z, c, w)
   | None \<Rightarrow> (EFI_SUCCESS, p, takeWhile (\<lambda>e. cmp e > 0) c @ p # dropWhile (\<lambda>e. cmp e > 0) c, w))"
  "co_Find cap_demo_env cmp c = find (\<lambda>e. cmp e = 0) c" "co_Entries cap_demo_env c = c" "co_Delete cap_demo_env p c w = (remove1 p c, w)" "co_Uninit cap_demo_env c w = w"
  by (simp_all add: cap_demo_env_def upt_rec numeral_eq_Suc)

lemma compare_sel:
  "ComparePciCap \<lparr>Key = k, NumInstancesUnion = a, Offset = b, MaxSizeHint = c, Version = d\<rparr> \<lparr>Key = k', NumInstancesUnion = a', Offset = b', MaxSizeHint = c', Version = d'\<rparr>
    = ComparePciCapKey k \<lparr>Key = k', NumInstancesUnion = a', Offset = b', MaxSizeHint = c', Version = d'\<rparr>"
  "ComparePciCapOffset \<lparr>Key = k, NumInstancesUnion = a, Offset = b, MaxSizeHint = c, Version = d\<rparr> \<lparr>Key = k', NumInstancesUnion = a', Offset = b', MaxSizeHint = c', Version = d'\<rparr>
    = int (unat b) - int (unat b')"
  by (simp_all add: ComparePciCap_def ComparePciCapOffset_def)

lemma is_listE:
  assumes "is_list r"
  obtains l st w where "r = Some (Ok (Inr (l, st), w))"
  using assms by (auto simp: is_list_def split: option.splits checked.splits sum.splits)

lemmas cap_demo_eval = PciCapListInit_def ReadLists_def NormalLoop.simps ExtendedLoop.simps InsertPciCap_def InsertByKey_def InsertByOffset_def compare_sel
  ComparePciCapKey_def CalculatePciCapMaxSizeHint_def ConfigSpaceSize_def PCI_MAX_CONFIG_OFFSET_def PCI_EXP_MAX_CONFIG_OFFSET_def
  PCI_PRIMARY_STATUS_OFFSET_def PCI_CAPBILITY_POINTER_OFFSET_def EFI_PCI_STATUS_CAPABILITY_def EFI_PCI_CAPABILITY_ID_PCIEXP_def
  ExtId_def ExtVersion_def ExtNext_def cap_demo_cfg_def cap_demo_heap_def Let_def

lemma cap_demo_run: "is_list (PciCapListInit cap_demo_env cap_demo_heap [])"
  by (simp add: cap_demo_eval is_list_def)

lemma cap_demo_find: "\<exists>l st w' p. PciCapListInit cap_demo_env cap_demo_heap [] = Some (Ok (Inr (l, st), w')) \<and>
    PciCapListFindCap cap_demo_env (caps st) (Capabilities st) PciCapNormal 5 1 = (EFI_SUCCESS, Some p)"
  by (simp add: cap_demo_eval PciCapListFindCap_def)

section \<open>Properties\<close>

text \<open>
  Property C14.  \<open>PciCapListInit\<close> always returns, for every configuration space and whatever the allocations do: no
  assertion fails, a looping or misdirected list is an error.  After an error every block that was allocated
  has been freed; after success \<open>PciCapListUninit\<close> frees every block that the list holds.
\<close>

theorem PciCapListInit_total:
  assumes "cap_env_ok E cfg readable held"
  shows "\<exists>r w'. PciCapListInit E heap w = Some (Ok (r, w')) \<and> (case r of
      Inl s \<Rightarrow> EFI_ERROR s \<and> held w' = held w
    | Inr (CapList, st) \<Rightarrow> CapList \<notin> held w \<and> held w \<subseteq> held w' \<and> held (PciCapListUninit E CapList (Capabilities st) w') = held w)"
proof -
  obtain r w' where r: "PciCapListInit E heap w = Some (Ok (r, w'))" "init_outcome E cfg readable held w r w'"
    using PciCapListInit_result [OF assms] by blast
  show ?thesis
  proof (cases r)
    case (Inl s)
    then show ?thesis using r by (simp add: init_outcome_def)
  next
    case (Inr x)
    obtain l st where x: "x = (l, st)" by (cases x)
    obtain hs ps where o: "finished E st hs ps" "l \<notin> held w" "set ps \<inter> insert l (held w) = {}" "held w' = insert l (held w \<union> set ps)"
      using r(2) Inr x by (auto simp: init_outcome_def)
    have "held (PciCapListUninit E l (Capabilities st) w') = held w"
      unfolding PciCapListUninit_held [OF cap_env_okD(3,5) [OF assms]] finishedD(3) [OF o(1)] o(4) using o(2,3) by auto
    then show ?thesis using r(1) Inr x o by auto
  qed
qed

theorem PciCapListInit_total_witness:
  "cap_env_ok cap_demo_env cap_demo_cfg (\<lambda>_. True) set \<and> (\<exists>r w'. PciCapListInit cap_demo_env cap_demo_heap [] = Some (Ok (r, w')) \<and> (case r of
      Inl s \<Rightarrow> EFI_ERROR s \<and> set w' = set []
    | Inr (CapList, st) \<Rightarrow> CapList \<notin> set [] \<and> set [] \<subseteq> set w' \<and> set (PciCapListUninit cap_demo_env CapList (Capabilities st) w') = set []))"
  using PciCapListInit_total [OF cap_demo_ok] cap_demo_ok by blast

text \<open>
  Property C10.  A list that was parsed answers as the linked lists in the configuration space say: the headers
  \<open>hs\<close> are those met on the normal list and, behind a PCI Express capability, on the extended list; instance
  \<open>k\<close> of an identifier is the \<open>k\<close>-th header with it, with the count of such headers, its offset, its version, and
  the distance to the next header as the size hint; an instance that does not exist is not found.
\<close>

theorem PciCapListInit_parses:
  assumes "cap_env_ok E cfg readable held" and "PciCapListInit E heap w = Some (Ok (Inr (CapList, st), w'))"
  shows "\<exists>hs. config_headers cfg readable hs \<and> distinct (map hdr_off hs) \<and> (\<forall>d cid k.
      if unat k < length (headers_of hs d cid)
      then let h = headers_of hs d cid ! unat k
        in \<exists>p. PciCapListFindCap E (caps st) (Capabilities st) d cid k = (EFI_SUCCESS, Some p) \<and>
          PciCapGetInfo (caps st) p = Ok \<lparr>i_Domain = d, i_CapId = cid, i_NumInstances = of_nat (length (headers_of hs d cid)), i_Instance = k,
            i_Offset = hdr_off h, i_MaxSizeHint = size_hint hs h, i_Version = snd (snd (snd h))\<rparr>
      else PciCapListFindCap E (caps st) (Capabilities st) d cid k = (EFI_NOT_FOUND, None))"
proof -
  obtain hs ps where o: "config_headers cfg readable hs" "finished E st hs ps"
    using PciCapListInit_result [OF assms(1), of heap w] assms(2) by (auto simp: init_outcome_def)
  have hit: "let h = headers_of hs d cid ! unat k in \<exists>p. PciCapListFindCap E (caps st) (Capabilities st) d cid k = (EFI_SUCCESS, Some p) \<and>
      PciCapGetInfo (caps st) p = Ok \<lparr>i_Domain = d, i_CapId = cid, i_NumInstances = of_nat (length (headers_of hs d cid)), i_Instance = k,
        i_Offset = hdr_off h, i_MaxSizeHint = size_hint hs h, i_Version = snd (snd (snd h))\<rparr>"
    if k: "unat k < length (headers_of hs d cid)" for d cid k
  proof -
    obtain i where i: "i < length hs" "PciCapListFindCap E (caps st) (Capabilities st) d cid k = (EFI_SUCCESS, Some (ps ! i))"
      "fst (hs ! i) = d" "fst (snd (hs ! i)) = cid" "inst hs i = unat k"
      using PciCapListFindCap_result [OF assms(1) o(2), of k d cid] k by auto
    have "headers_of hs d cid ! unat k = hs ! i" using headers_of_nth [OF i(1)] i(3,4,5) by simp
    then show ?thesis using i PciCapGetInfo_result [OF o(2) i(1)] by (auto simp: num_headers_of Let_def)
  qed
  have "distinct (map hdr_off hs)" using finishedD(2) [OF o(2)] by (simp add: headers_ok_def)
  then show ?thesis using o(1) hit PciCapListFindCap_result [OF assms(1) o(2)] by (intro exI [of _ hs]) auto
qed

theorem PciCapListInit_parses_witness:
  "\<exists>CapList st w'. PciCapListInit cap_demo_env cap_demo_heap [] = Some (Ok (Inr (CapList, st), w')) \<and> (\<exists>hs. config_headers cap_demo_cfg (\<lambda>_. True) hs \<and>
     (0 < length (headers_of hs PciCapNormal 5) \<longrightarrow> (\<exists>p. PciCapListFindCap cap_demo_env (caps st) (Capabilities st) PciCapNormal 5 0 = (EFI_SUCCESS, Some p))))"
proof -
  obtain l st w' where r: "PciCapListInit cap_demo_env cap_demo_heap [] = Some (Ok (Inr (l, st), w'))" by (rule is_listE [OF cap_demo_run])
  then show ?thesis using PciCapListInit_parses [OF cap_demo_ok r] by (metis (no_types, lifting) unat_0)
qed

text \<open>
  \<open>PciCapListFindCapVersion\<close> finds the first header of the lists, in their own order, that has the
  identifier and at least the version asked for, and reports that there is none only when there is none.
\<close>

theorem PciCapListFindCapVersion_first:
  assumes "cap_env_ok E cfg readable held" and "PciCapListInit E heap w = Some (Ok (Inr (CapList, st), w'))"
  shows "\<exists>hs. config_headers cfg readable hs \<and> (\<forall>d cid v. case find (\<lambda>h. (fst h = d \<and> fst (snd h) = cid) \<and> v \<le> snd (snd (snd h))) hs of
      None \<Rightarrow> PciCapListFindCapVersion E (caps st) (Capabilities st) d cid v = (EFI_NOT_FOUND, None)
    | Some h \<Rightarrow> \<exists>p. PciCapListFindCapVersion E (caps st) (Capabilities st) d cid v = (EFI_SUCCESS, Some p) \<and>
        Offset (caps st p) = hdr_off h \<and> Version (caps st p) = snd (snd (snd h)))"
proof -
  obtain hs ps where o: "config_headers cfg readable hs" "finished E st hs ps"
    using PciCapListInit_result [OF assms(1), of heap w] assms(2) by (auto simp: init_outcome_def)
  have "case find (\<lambda>h. (fst h = d \<and> fst (snd h) = cid) \<and> v \<le> snd (snd (snd h))) hs of
      None \<Rightarrow> PciCapListFindCapVersion E (caps st) (Capabilities st) d cid v = (EFI_NOT_FOUND, None)
    | Some h \<Rightarrow> \<exists>p. PciCapListFindCapVersion E (caps st) (Capabilities st) d cid v = (EFI_SUCCESS, Some p) \<and>
        Offset (caps st p) = hdr_off h \<and> Version (caps st p) = snd (snd (snd h))" for d cid v
    using PciCapListFindCapVersion_result [OF assms(1) o(2), of d cid v] cap_objD(2,3) [OF finishedD(5) [OF o(2)]]
    by (auto split: option.splits)
  then show ?thesis using o(1) by blast
qed

theorem PciCapListFindCapVersion_first_witness:
  "\<exists>CapList st w'. PciCapListInit cap_demo_env cap_demo_heap [] = Some (Ok (Inr (CapList, st), w')) \<and> (\<exists>hs. config_headers cap_demo_cfg (\<lambda>_. True) hs \<and>
     (find (\<lambda>h. (fst h = PciCapExtended \<and> fst (snd h) = 1) \<and> 3 \<le> snd (snd (snd h))) hs = None \<longrightarrow>
        PciCapListFindCapVersion cap_demo_env (caps st) (Capabilities st) PciCapExtended 1 3 = (EFI_NOT_FOUND, None)))"
proof -
  obtain l st w' where r: "PciCapListInit cap_demo_env cap_demo_heap [] = Some (Ok (Inr (l, st), w'))" by (rule is_listE [OF cap_demo_run])
  obtain hs where hs: "config_headers cap_demo_cfg (\<lambda>_. True) hs" and v: "\<forall>d cid v. case find (\<lambda>h. (fst h = d \<and> fst (snd h) = cid) \<and> v \<le> snd (snd (snd h))) hs of
      None \<Rightarrow> PciCapListFindCapVersion cap_demo_env (caps st) (Capabilities st) d cid v = (EFI_NOT_FOUND, None)
    | Some h \<Rightarrow> \<exists>p. PciCapListFindCapVersion cap_demo_env (caps st) (Capabilities st) d cid v = (EFI_SUCCESS, Some p) \<and>
        Offset (caps st p) = hdr_off h \<and> Version (caps st p) = snd (snd (snd h))"
    using PciCapListFindCapVersion_first [OF cap_demo_ok r] by blast
  from v [rule_format, of PciCapExtended 1 3] show ?thesis using r hs by (intro exI [of _ l] exI [of _ st] exI [of _ w'] conjI exI [of _ hs]) (simp_all split: option.splits)
qed

text \<open>
  Property C30.  Access to a capability that was found stays inside it: a request that passes the check starts at
  the header's offset plus the offset asked for, without wrapping, ends inside the configuration space, and
  runs over no header that lies behind this one.
\<close>

theorem PciCap_access_bounded:
  assumes "cap_env_ok E cfg readable held" and "PciCapListInit E heap w = Some (Ok (Inr (CapList, st), w'))"
    and "PciCapListFindCap E (caps st) (Capabilities st) d cid k = (EFI_SUCCESS, Some p)" and "length bs = unat sz"
  shows "if unat (MaxSizeHint (caps st p)) < unat off + unat sz
    then PciCapRead E (caps st p) off sz w2 = (EFI_BAD_BUFFER_SIZE, [], w2) \<and> PciCapWrite E (caps st p) off bs w2 = (EFI_BAD_BUFFER_SIZE, w2)
    else PciCapRead E (caps st p) off sz w2 = ReadConfig E (Offset (caps st p) + off) (unat sz) w2 \<and>
      PciCapWrite E (caps st p) off bs w2 = WriteConfig E (Offset (caps st p) + off) bs w2 \<and>
      unat (Offset (caps st p) + off) = unat (Offset (caps st p)) + unat off \<and>
      unat (Offset (caps st p)) + unat off + unat sz \<le> ConfigSpaceSize d \<and>
      (\<forall>q\<in>set (co_Entries E (Capabilities st)). Offset (caps st p) < Offset (caps st q) \<longrightarrow>
        unat (Offset (caps st p)) + unat off + unat sz \<le> unat (Offset (caps st q)))"
proof -
  obtain hs ps where f: "finished E st hs ps"
    using PciCapListInit_result [OF assms(1), of heap w] assms(2) by (auto simp: init_outcome_def)
  obtain i where i: "i < length hs" "p = ps ! i" "fst (hs ! i) = d"
    using PciCapListFindCap_result [OF assms(1) f, of k d cid] assms(3) by (auto split: if_splits)
  note o = cap_objD(2) [OF finishedD(5) [OF f]] and hint = finishedD(6) [OF f i(1)]
  have *: "unat (Offset (caps st p) + off) = unat (Offset (caps st p)) + unat off \<and>
      unat (Offset (caps st p)) + unat off + unat sz \<le> ConfigSpaceSize d \<and>
      (\<forall>q\<in>set (co_Entries E (Capabilities st)). Offset (caps st p) < Offset (caps st q) \<longrightarrow>
        unat (Offset (caps st p)) + unat off + unat sz \<le> unat (Offset (caps st q)))"
    if n: "unat off + unat sz \<le> unat (MaxSizeHint (caps st p))"
  proof (intro conjI ballI impI)
    note room = size_hint_room [OF finishedD(2) [OF f] nth_mem [OF i(1)] n [unfolded i(2) hint]]
    show le: "unat (Offset (caps st p)) + unat off + unat sz \<le> ConfigSpaceSize d" using room(1) o [OF i(1)] i by (simp add: add.assoc)
    then have "unat (Offset (caps st p)) + unat off < 65536" using ConfigSpaceSize_le [of d] by linarith
    then show "unat (Offset (caps st p) + off) = unat (Offset (caps st p)) + unat off" by (simp add: unat_word_ariths)
    fix q assume q: "q \<in> set (co_Entries E (Capabilities st))" "Offset (caps st p) < Offset (caps st q)"
    obtain j where j: "j < length hs" "q = ps ! j" by (rule finished_nth [OF f q(1)])
    show "unat (Offset (caps st p)) + unat off + unat sz \<le> unat (Offset (caps st q))"
      using room(2) [OF nth_mem [OF j(1)]] o [OF i(1)] o [OF j(1)] q(2) i(2) j(2) by (simp add: add.assoc)
  qed
  show ?thesis using * assms(4) by (auto simp: PciCapRead_def PciCapWrite_def not_less)
qed

theorem PciCap_access_bounded_witness:
  "\<exists>CapList st w' p. PciCapListInit cap_demo_env cap_demo_heap [] = Some (Ok (Inr (CapList, st), w')) \<and>
    PciCapListFindCap cap_demo_env (caps st) (Capabilities st) PciCapNormal 5 1 = (EFI_SUCCESS, Some p) \<and>
    (unat (MaxSizeHint (caps st p)) < 0 + unat (2 :: u16) \<or> unat (Offset (caps st p) + 0) = unat (Offset (caps st p)) + unat (0 :: u16))"
proof -
  obtain l st w' p where r: "PciCapListInit cap_demo_env cap_demo_heap [] = Some (Ok (Inr (l, st), w'))"
    "PciCapListFindCap cap_demo_env (caps st) (Capabilities st) PciCapNormal 5 1 = (EFI_SUCCESS, Some p)" using cap_demo_find by blast
  then show ?thesis using PciCap_access_bounded [OF cap_demo_ok r, of "[0, 0]" 2 0] by (auto split: if_splits)
qed

end
