(* ===== verification/PciCapDevice.thy ===== *)
theory PciCapDevice
  imports PciCapList
begin

text \<open>
  Model of the two device back ends of the capability parser:
  \<open>QemuPkg/Library/BasePciCapPciSegmentLib/BasePciCapPciSegmentLib.c\<close>, which reaches the configuration
  space through \<open>PciSegmentLib\<close>, and \<open>QemuPkg/Library/UefiPciCapPciIoLib/UefiPciCapPciIoLib.c\<close>, which
  splits a transfer into naturally aligned accesses through \<open>EFI_PCI_IO_PROTOCOL\<close>.

  \<open>PciSegmentLib\<close>, its address macro, the protocol and the pool are arguments.  A buffer is the list of
  its bytes, so that \<open>Size\<close> is its length.
\<close>

section \<open>BasePciCapPciSegmentLib\<close>

definition PCI_MAX_DEVICE :: u8 where "PCI_MAX_DEVICE = 31"
definition PCI_MAX_FUNC :: u8 where "PCI_MAX_FUNC = 7"

record SEGMENT_DEV =
  MaxDomain :: PCI_CAP_DOMAIN
  SegmentNr :: u16
  BusNr :: u8
  DeviceNr :: u8
  FunctionNr :: u8

record 'w segment_lib =
  PCI_SEGMENT_LIB_ADDRESS :: "u16 \<Rightarrow> u8 \<Rightarrow> u8 \<Rightarrow> u8 \<Rightarrow> u16 \<Rightarrow> nat"
  PciSegmentReadBuffer :: "nat \<Rightarrow> nat \<Rightarrow> 'w \<Rightarrow> u8 list \<times> 'w"
  PciSegmentWriteBuffer :: "nat \<Rightarrow> u8 list \<Rightarrow> 'w \<Rightarrow> 'w"

definition SegmentAddress :: "'w segment_lib \<Rightarrow> SEGMENT_DEV \<Rightarrow> u16 \<Rightarrow> nat" where
  "SegmentAddress L d off = PCI_SEGMENT_LIB_ADDRESS L (SegmentNr d) (BusNr d) (DeviceNr d) (FunctionNr d) off"

definition SegmentDevReadConfig :: "'w segment_lib \<Rightarrow> SEGMENT_DEV \<Rightarrow> u16 \<Rightarrow> nat \<Rightarrow> 'w \<Rightarrow> EFI_STATUS \<times> u8 list \<times> 'w" where
  "SegmentDevReadConfig L SegmentDev SourceOffset Sz w =
    (if unat SourceOffset + Sz > ConfigSpaceSize (MaxDomain SegmentDev) then (EFI_UNSUPPORTED, [], w)
     else case PciSegmentReadBuffer L (SegmentAddress L SegmentDev SourceOffset) Sz w of (bs, w1) \<Rightarrow> (EFI_SUCCESS, bs, w1))"

definition SegmentDevWriteConfig :: "'w segment_lib \<Rightarrow> SEGMENT_DEV \<Rightarrow> u16 \<Rightarrow> u8 list \<Rightarrow> 'w \<Rightarrow> EFI_STATUS \<times> 'w" where
  "SegmentDevWriteConfig L SegmentDev DestinationOffset bs w =
    (if unat DestinationOffset + length bs > ConfigSpaceSize (MaxDomain SegmentDev) then (EFI_UNSUPPORTED, w)
     else (EFI_SUCCESS, PciSegmentWriteBuffer L (SegmentAddress L SegmentDev DestinationOffset) bs w))"

definition PciCapPciSegmentDeviceInit ::
  "('w \<Rightarrow> nat option \<times> 'w) \<Rightarrow> PCI_CAP_DOMAIN \<Rightarrow> u16 \<Rightarrow> u8 \<Rightarrow> u8 \<Rightarrow> u8 \<Rightarrow> 'w \<Rightarrow> (EFI_STATUS + nat \<times> SEGMENT_DEV) \<times> 'w" where
  "PciCapPciSegmentDeviceInit Alloc d Segment Bus Device Function w =
    (if Device > PCI_MAX_DEVICE \<or> Function > PCI_MAX_FUNC then (Inl EFI_INVALID_PARAMETER, w)
     else case Alloc w of
       (None, w1) \<Rightarrow> (Inl EFI_OUT_OF_RESOURCES, w1)
     | (Some p, w1) \<Rightarrow> (Inr (p, \<lparr>MaxDomain = d, SegmentNr = Segment, BusNr = Bus, DeviceNr = Device, FunctionNr = Function\<rparr>), w1))"

definition PciCapPciSegmentDeviceUninit :: "(nat \<Rightarrow> 'w \<Rightarrow> 'w) \<Rightarrow> nat \<Rightarrow> 'w \<Rightarrow> 'w" where
  "PciCapPciSegmentDeviceUninit Free p w = Free p w"

section \<open>UefiPciCapPciIoLib\<close>

text \<open>\<open>EFI_PCI_IO_PROTOCOL_CONFIG\<close>: width (as the binary logarithm of the bytes), offset, count, buffer.  The buffer is
  returned as the access left it.\<close>

type_synonym 'w config_access = "nat \<Rightarrow> u16 \<Rightarrow> nat \<Rightarrow> u8 list \<Rightarrow> 'w \<Rightarrow> EFI_STATUS \<times> u8 list \<times> 'w"

record 'w pci_io =
  Pci_Read :: "'w config_access"
  Pci_Write :: "'w config_access"

definition TransferUnit :: "u16 \<Rightarrow> nat \<Rightarrow> nat \<times> nat" where
  "TransferUnit ConfigOffset Sz =
    (if Sz \<ge> 4 \<and> and ConfigOffset 3 = 0 then (2, Sz div 4)
     else if Sz \<ge> 2 \<and> and ConfigOffset 1 = 0 then (1, 1)
     else (0, 1))"

lemma TransferUnit_progress:
  assumes "TransferUnit off n = (Width, Count)" and "0 < n"
  shows "0 < Count * 2 ^ Width" "Count * 2 ^ Width \<le> n"
  using assms by (auto simp: TransferUnit_def split: if_splits)

function ProtoDevTransferConfig :: "'w config_access \<Rightarrow> u16 \<Rightarrow> u8 list \<Rightarrow> 'w \<Rightarrow> EFI_STATUS \<times> u8 list \<times> 'w" where
  "ProtoDevTransferConfig TransferFunction ConfigOffset Buffer w =
    (if Buffer = [] then (EFI_SUCCESS, [], w)
     else case TransferUnit ConfigOffset (length Buffer) of (Width, Count) \<Rightarrow>
       let Progress = Count * 2 ^ Width
       in case TransferFunction Width ConfigOffset Count (take Progress Buffer) w of (Status, bs, w1) \<Rightarrow>
         if EFI_ERROR Status then (Status, bs @ drop Progress Buffer, w1)
         else case ProtoDevTransferConfig TransferFunction (ConfigOffset + of_nat Progress) (drop Progress Buffer) w1 of (s, rest, w2) \<Rightarrow> (s, bs @ rest, w2))"
  by pat_completeness auto
termination
  by (relation "measure (\<lambda>(T, off, b, w). length b)") (auto dest: TransferUnit_progress [OF sym])

declare ProtoDevTransferConfig.simps [simp del]

definition ProtoDevReadConfig :: "'w pci_io \<Rightarrow> u16 \<Rightarrow> nat \<Rightarrow> 'w \<Rightarrow> EFI_STATUS \<times> u8 list \<times> 'w" where
  "ProtoDevReadConfig PciIo SourceOffset Sz w = ProtoDevTransferConfig (Pci_Read PciIo) SourceOffset (replicate Sz 0) w"

definition ProtoDevWriteConfig :: "'w pci_io \<Rightarrow> u16 \<Rightarrow> u8 list \<Rightarrow> 'w \<Rightarrow> EFI_STATUS \<times> 'w" where
  "ProtoDevWriteConfig PciIo DestinationOffset bs w =
    (case ProtoDevTransferConfig (Pci_Write PciIo) DestinationOffset bs w of (s, _, w1) \<Rightarrow> (s, w1))"

definition PciCapPciIoDeviceInit :: "('w \<Rightarrow> nat option \<times> 'w) \<Rightarrow> 'w pci_io \<Rightarrow> 'w \<Rightarrow> (EFI_STATUS + nat \<times> 'w pci_io) \<times> 'w" where
  "PciCapPciIoDeviceInit Alloc PciIo w =
    (case Alloc w of (None, w1) \<Rightarrow> (Inl EFI_OUT_OF_RESOURCES, w1) | (Some p, w1) \<Rightarrow> (Inr (p, PciIo), w1))"

definition PciCapPciIoDeviceUninit :: "(nat \<Rightarrow> 'w \<Rightarrow> 'w) \<Rightarrow> nat \<Rightarrow> 'w \<Rightarrow> 'w" where
  "PciCapPciIoDeviceUninit Free p w = Free p w"

section \<open>A split transfer is a plain one\<close>

text \<open>
  An aligned access inside the space does what \<open>xfer\<close> does to its bytes, an access beyond it fails;
  \<open>xfer\<close> on a concatenation is one after the other.
\<close>

locale config_access =
  fixes T :: "'w config_access" and xfer :: "nat \<Rightarrow> u8 list \<Rightarrow> 'w \<Rightarrow> u8 list \<times> 'w" and limit :: nat
  assumes limit_le: "limit \<le> 4096"
    and access_in: "k \<le> 2 \<Longrightarrow> unat off mod 2 ^ k = 0 \<Longrightarrow> length b = n * 2 ^ k \<Longrightarrow> unat off + length b \<le> limit \<Longrightarrow>
      T k off n b w = (EFI_SUCCESS, xfer (unat off) b w)"
    and access_out: "limit < unat off + length b \<Longrightarrow> length b = n * 2 ^ k \<Longrightarrow> EFI_ERROR (fst (T k off n b w))"
    and xfer_nil: "xfer a [] w = ([], w)"
    and xfer_append: "xfer a (b @ c) w = (case xfer a b w of (b', w1) \<Rightarrow> case xfer (a + length b) c w1 of (c', w2) \<Rightarrow> (b' @ c', w2))"
begin

lemma unit_aligned:
  assumes "TransferUnit off n = (k, c)"
  shows "k \<le> 2" "unat off mod 2 ^ k = 0"
  using assms and3 [of off] and1 [of off] by (auto simp: TransferUnit_def split: if_splits)

lemma transfer_in:
  "unat off + length b \<le> limit \<Longrightarrow> ProtoDevTransferConfig T off b w = (EFI_SUCCESS, xfer (unat off) b w)"
proof (induction "length b" arbitrary: off b w rule: less_induct)
  case less
  show ?case
  proof (cases "b = []")
    case True
    then show ?thesis by (simp add: ProtoDevTransferConfig.simps xfer_nil)
  next
    case False
    obtain k c where u: "TransferUnit off (length b) = (k, c)" by (cases "TransferUnit off (length b)")
    define p where "p = c * 2 ^ k"
    have p: "0 < p" "p \<le> length b" using TransferUnit_progress [OF u] False by (simp_all add: p_def)
    obtain b' w1 where x: "xfer (unat off) (take p b) w = (b', w1)" by (cases "xfer (unat off) (take p b) w")
    obtain c' w2 where x2: "xfer (unat off + p) (drop p b) w1 = (c', w2)" by (cases "xfer (unat off + p) (drop p b) w1")
    have T: "T k off c (take p b) w = (EFI_SUCCESS, b', w1)"
      using access_in [OF unit_aligned [OF u], of "take p b" c w] p less.prems x by (simp add: p_def)
    have o: "unat (off + of_nat p) = unat off + p"
      using less.prems p limit_le by (simp add: unat_word_ariths unat_of_nat)
    have "ProtoDevTransferConfig T (off + of_nat p) (drop p b) w1 = (EFI_SUCCESS, c', w2)"
      using less.hyps [of "drop p b" "off + of_nat p" w1] p less.prems o x2 by simp
    then have run: "ProtoDevTransferConfig T off b w = (EFI_SUCCESS, b' @ c', w2)"
      using False u T by (subst ProtoDevTransferConfig.simps) (simp add: p_def [symmetric])
    have "xfer (unat off) b w = (b' @ c', w2)"
      using xfer_append [of "unat off" "take p b" "drop p b" w] x x2 p by simp
    then show ?thesis using run by simp
  qed
qed

text \<open>A transfer that leaves the space fails.\<close>

lemma transfer_out:
  "limit < unat off + length b \<Longrightarrow> b \<noteq> [] \<Longrightarrow> EFI_ERROR (fst (ProtoDevTransferConfig T off b w))"
proof (induction "length b" arbitrary: off b w rule: less_induct)
  case less
  note ne = less.prems(2)
  obtain k c where u: "TransferUnit off (length b) = (k, c)" by (cases "TransferUnit off (length b)")
  define p where "p = c * 2 ^ k"
  have p: "0 < p" "p \<le> length b" using TransferUnit_progress [OF u] ne by (simp_all add: p_def)
  obtain s b' w1 where T: "T k off c (take p b) w = (s, b', w1)" by (metis prod_cases3)
  show ?case
  proof (cases "EFI_ERROR s")
    case True
    then show ?thesis using ne u T by (subst ProtoDevTransferConfig.simps) (simp add: p_def [symmetric])
  next
    case False
    then have in_range: "unat off + p \<le> limit" using access_out [of off "take p b" c k w] T p by (simp add: p_def not_less [symmetric]) auto
    then have o: "unat (off + of_nat p) = unat off + p" using limit_le by (simp add: unat_word_ariths unat_of_nat)
    have "EFI_ERROR (fst (ProtoDevTransferConfig T (off + of_nat p) (drop p b) w1))"
      using less.hyps [of "drop p b" "off + of_nat p" w1] p less.prems o in_range by simp
    then show ?thesis using ne u T False
      by (subst ProtoDevTransferConfig.simps) (simp add: p_def [symmetric] case_prod_unfold)
  qed
qed

end

locale read_access = config_access +
  assumes access_world: "snd (snd (T k off n b w)) = w"
begin

lemma transfer_world: "snd (snd (ProtoDevTransferConfig T off b w)) = w"
proof (induction "length b" arbitrary: off b w rule: less_induct)
  case less
  obtain k c where u: "TransferUnit off (length b) = (k, c)" by (cases "TransferUnit off (length b)")
  define p where "p = c * 2 ^ k"
  obtain s b' w1 where T: "T k off c (take p b) w = (s, b', w1)" by (metis prod_cases3)
  have w1: "w1 = w" using access_world [of k off c "take p b" w] T by simp
  have "b \<noteq> [] \<Longrightarrow> snd (snd (ProtoDevTransferConfig T (off + of_nat p) (drop p b) w)) = w"
    using less.hyps [of "drop p b"] TransferUnit_progress [OF u] by (simp add: p_def)
  then show ?case using u T w1 by (subst ProtoDevTransferConfig.simps) (auto simp: Let_def p_def [symmetric] split: prod.splits)
qed

end

text \<open>The configuration space as bytes, reads and writes through the protocol.\<close>

definition read_xfer :: "nat \<Rightarrow> u8 list \<Rightarrow> (nat \<Rightarrow> u8) \<Rightarrow> u8 list \<times> (nat \<Rightarrow> u8)" where
  "read_xfer a b w = (map (\<lambda>i. w (a + i)) [0..<length b], w)"

definition write_xfer :: "nat \<Rightarrow> u8 list \<Rightarrow> (nat \<Rightarrow> u8) \<Rightarrow> u8 list \<times> (nat \<Rightarrow> u8)" where
  "write_xfer a b w = (b, \<lambda>x. if a \<le> x \<and> x < a + length b then b ! (x - a) else w x)"

definition space_access :: "(nat \<Rightarrow> u8 list \<Rightarrow> (nat \<Rightarrow> u8) \<Rightarrow> u8 list \<times> (nat \<Rightarrow> u8)) \<Rightarrow> (nat \<Rightarrow> u8) config_access" where
  "space_access xfer k off n b w =
    (if unat off mod 2 ^ k = 0 \<and> unat off + n * 2 ^ k \<le> PCI_EXP_MAX_CONFIG_OFFSET then (EFI_SUCCESS, xfer (unat off) b w) else (EFI_UNSUPPORTED, b, w))"

definition space_io :: "(nat \<Rightarrow> u8) pci_io" where
  "space_io = \<lparr>Pci_Read = space_access read_xfer, Pci_Write = space_access write_xfer\<rparr>"

lemma upt_split: "[0..<n + m] = [0..<n] @ map (\<lambda>i. n + i) [0..<m]"
  by (induction m) auto

interpretation rd: config_access "Pci_Read space_io" read_xfer PCI_EXP_MAX_CONFIG_OFFSET
  by unfold_locales (auto simp: space_io_def space_access_def read_xfer_def PCI_EXP_MAX_CONFIG_OFFSET_def upt_split add.assoc)

interpretation wr: config_access "Pci_Write space_io" write_xfer PCI_EXP_MAX_CONFIG_OFFSET
proof unfold_locales
  show "write_xfer a (b @ c) w = (case write_xfer a b w of (b', w1) \<Rightarrow> case write_xfer (a + length b) c w1 of (c', w2) \<Rightarrow> (b' @ c', w2))" for a b c w
    by (auto simp: write_xfer_def nth_append fun_eq_iff)
qed (auto simp: space_io_def space_access_def write_xfer_def PCI_EXP_MAX_CONFIG_OFFSET_def fun_eq_iff)

section \<open>The devices behind the parser\<close>

text \<open>What the parser relies on: a read inside the space returns its bytes, one beyond it fails.\<close>

locale pci_cap_device =
  fixes read :: "u16 \<Rightarrow> nat \<Rightarrow> 'w \<Rightarrow> EFI_STATUS \<times> u8 list \<times> 'w" and cfg :: "nat \<Rightarrow> u8" and limit :: nat
  assumes limit_dword: "limit mod 4 = 0"
    and read_in: "unat off + n \<le> limit \<Longrightarrow> read off n w = (EFI_SUCCESS, map (\<lambda>i. cfg (unat off + i)) [0..<n], w)"
    and read_out: "limit < unat off + n \<Longrightarrow> 0 < n \<Longrightarrow> n \<le> 4 \<Longrightarrow> EFI_ERROR (fst (read off n w)) \<and> snd (snd (read off n w)) = w"
begin

lemma device_read_law: "ReadConfig E = read \<Longrightarrow> read_law E cfg (\<lambda>a. a < limit) held"
proof -
  assume E: "ReadConfig E = read"
  have "held w' = held w \<and> (if EFI_ERROR s then \<not> unat off < limit else s = EFI_SUCCESS \<and> bs = map (\<lambda>i. cfg (unat off + i)) [0..<n])"
    if r: "read off n w = (s, bs, w')" and n: "0 < n" and d: "unat off mod 4 + n \<le> 4" for off n w s bs w'
  proof (cases "unat off + n \<le> limit")
    case True
    then show ?thesis using read_in r by simp
  next
    case False
    have "n \<le> 4" using d by simp
    moreover have "\<not> unat off < limit"
    proof
      assume "unat off < limit"
      moreover have "limit div 4 * 4 = limit" using limit_dword by (metis add.right_neutral div_mult_mod_eq)
      moreover have "unat off div 4 * 4 + unat off mod 4 = unat off" by (rule div_mult_mod_eq)
      ultimately have "unat off div 4 < limit div 4" by linarith
      then show False using False d \<open>limit div 4 * 4 = limit\<close> \<open>unat off div 4 * 4 + unat off mod 4 = unat off\<close> by linarith
    qed
    ultimately show ?thesis using read_out [of off n w] r False n by simp
  qed
  then show ?thesis unfolding read_law_def E by blast
qed

end

text \<open>\<open>PciSegmentLib\<close> over the bytes \<open>mem\<close> of all configuration spaces, 4096 for each function.\<close>

definition mem_lib :: "(nat \<Rightarrow> u8) \<Rightarrow> 'w segment_lib" where
  "mem_lib mem = \<lparr>
     PCI_SEGMENT_LIB_ADDRESS = (\<lambda>s b d f off. unat s * 2 ^ 32 + unat b * 2 ^ 20 + unat d * 2 ^ 15 + unat f * 2 ^ 12 + unat off mod 4096),
     PciSegmentReadBuffer = (\<lambda>a n w. (map (\<lambda>i. mem (a + i)) [0..<n], w)),
     PciSegmentWriteBuffer = (\<lambda>a bs w. w)\<rparr>"

lemma ConfigSpaceSize_mod4: "ConfigSpaceSize d mod 4 = 0"
  by (cases d) (simp_all add: ConfigSpaceSize_def PCI_MAX_CONFIG_OFFSET_def PCI_EXP_MAX_CONFIG_OFFSET_def)

interpretation seg: pci_cap_device "SegmentDevReadConfig (mem_lib mem) dev" "\<lambda>a. mem (SegmentAddress (mem_lib mem) dev 0 + a)" "ConfigSpaceSize (MaxDomain dev)"
  for mem :: "nat \<Rightarrow> u8" and dev :: SEGMENT_DEV
proof unfold_locales
  show "ConfigSpaceSize (MaxDomain dev) mod 4 = 0" by (rule ConfigSpaceSize_mod4)
  show "SegmentDevReadConfig (mem_lib mem) dev off n w = (EFI_SUCCESS, map (\<lambda>i. mem (SegmentAddress (mem_lib mem) dev 0 + (unat off + i))) [0..<n], w)"
    if l: "unat off + n \<le> ConfigSpaceSize (MaxDomain dev)" for off n w
  proof (cases "n = 0")
    case False
    then have "unat off < 4096" using l ConfigSpaceSize_le [of "MaxDomain dev"] by linarith
    then show ?thesis using l by (simp add: SegmentDevReadConfig_def mem_lib_def SegmentAddress_def add.assoc)
  qed (use l in \<open>simp add: SegmentDevReadConfig_def mem_lib_def\<close>)
qed (simp add: SegmentDevReadConfig_def)

text \<open>The protocol over a space that nothing changes.\<close>

definition const_io :: "(nat \<Rightarrow> u8) \<Rightarrow> 'w pci_io" where
  "const_io cfg = \<lparr>Pci_Read = (\<lambda>k off n b w. case space_access read_xfer k off n b cfg of (s, bs, _) \<Rightarrow> (s, bs, w)), Pci_Write = (\<lambda>k off n b w. (EFI_UNSUPPORTED, b, w))\<rparr>"

interpretation ro: read_access "Pci_Read (const_io cfg)" "\<lambda>a b w. (map (\<lambda>i. cfg (a + i)) [0..<length b], w)" PCI_EXP_MAX_CONFIG_OFFSET
  for cfg :: "nat \<Rightarrow> u8"
  by unfold_locales (auto simp: const_io_def space_access_def read_xfer_def PCI_EXP_MAX_CONFIG_OFFSET_def upt_split add.assoc)

interpretation proto: pci_cap_device "ProtoDevReadConfig (const_io cfg)" cfg PCI_EXP_MAX_CONFIG_OFFSET for cfg :: "nat \<Rightarrow> u8"
proof unfold_locales
  show "PCI_EXP_MAX_CONFIG_OFFSET mod 4 = 0" by (simp add: PCI_EXP_MAX_CONFIG_OFFSET_def)
qed (simp_all add: ProtoDevReadConfig_def ro.transfer_in ro.transfer_out ro.transfer_world)

text \<open>
  Both back ends give the parser what it relies on: a list parsed through a segment device shows
  extended capabilities only when the device was opened for them, and the same holds of the protocol for the whole space.
\<close>

lemma device_serves_parser:
  assumes "insert_law E" "find_law E" "delete_law E" "pool_law E held"
    and "ReadConfig E = SegmentDevReadConfig (mem_lib mem) dev \<and> cfg = (\<lambda>a. mem (SegmentAddress (mem_lib mem) dev 0 + a)) \<and> limit = ConfigSpaceSize (MaxDomain dev) \<or>
      ReadConfig E = ProtoDevReadConfig (const_io cfg) \<and> limit = PCI_EXP_MAX_CONFIG_OFFSET"
  shows "cap_env_ok E cfg (\<lambda>a. a < limit) held"
  using assms seg.device_read_law [of E mem dev held] proto.device_read_law [of E cfg held] by (auto simp: cap_env_ok_def)

section \<open>Properties\<close>

text \<open>
  Property C31.  \<open>ProtoDevTransferConfig\<close> with a protocol that only has to serve naturally aligned accesses has
  the effect of one plain transfer of the whole buffer, whatever the alignment and length of the request,
  and a request that leaves the configuration space fails.
\<close>

theorem ProtoDevTransferConfig_exact:
  assumes "config_access T xfer limit" and "b \<noteq> []"
  shows "if unat off + length b \<le> limit then ProtoDevTransferConfig T off b w = (EFI_SUCCESS, xfer (unat off) b w)
    else EFI_ERROR (fst (ProtoDevTransferConfig T off b w))"
  using config_access.transfer_in [OF assms(1), of off b w] config_access.transfer_out [OF assms(1), of off b w] assms(2) by auto

theorem ProtoDevTransferConfig_exact_witness:
  "ProtoDevTransferConfig (Pci_Write space_io) 0x41 [1, 2, 3, 4, 5, 6, 7, 8] (\<lambda>_. 0) = (EFI_SUCCESS, write_xfer 0x41 [1, 2, 3, 4, 5, 6, 7, 8] (\<lambda>_. 0))"
  using ProtoDevTransferConfig_exact [OF wr.config_access_axioms, of "[1, 2, 3, 4, 5, 6, 7, 8]" "0x41" "\<lambda>_. 0"]
  by (simp add: PCI_EXP_MAX_CONFIG_OFFSET_def)

end
