(* ===== verification/NorFlash.thy ===== *)
theory NorFlash
  imports Prelude
begin

text \<open>
  Model of the NOR flash driver under \<open>Platforms/QemuArmVirtPkg/VirtNorFlashStandaloneMm\<close>: the command
  sequences of \<open>VirtNorFlash.c\<close>, the block rewriting of \<open>VirtNorFlashStandaloneMm.c\<close>, and the firmware
  volume block protocol of \<open>VirtNorFlashFvb.c\<close>.

  The flash behind \<open>MmioRead32\<close>, \<open>MmioWrite32\<close> and plain loads, the pool, the protocol database, the platform's
  device list and the configuration values are arguments.  \<open>UINTN\<close> and \<open>EFI_LBA\<close> are natural numbers with
  the wrap-around written out.  The shadow buffer is a list of bytes; an access beyond it is \<open>OutOfBounds\<close>.
\<close>

unbundle bit_operations_syntax

section \<open>Definitions of VirtNorFlash.h\<close>

definition w64 :: "nat \<Rightarrow> nat" where "w64 n = n mod 2 ^ 64"

definition NOR_FLASH_ERASE_RETRY :: nat where "NOR_FLASH_ERASE_RETRY = 10"
definition P30_SR_BIT_WRITE :: u32 where "P30_SR_BIT_WRITE = 0x00800080"
definition P30_SR_BIT_ERASE :: u32 where "P30_SR_BIT_ERASE = 0x00200020"
definition P30_SR_BIT_PROGRAM :: u32 where "P30_SR_BIT_PROGRAM = 0x00100010"
definition P30_SR_BIT_VPP :: u32 where "P30_SR_BIT_VPP = 0x00080008"
definition P30_SR_BIT_BLOCK_LOCKED :: u32 where "P30_SR_BIT_BLOCK_LOCKED = 0x00020002"
definition P30_MAX_BUFFER_SIZE_IN_BYTES :: nat where "P30_MAX_BUFFER_SIZE_IN_BYTES = 128"
definition P30_MAX_BUFFER_SIZE_IN_WORDS :: nat where "P30_MAX_BUFFER_SIZE_IN_WORDS = 32"
definition MAX_BUFFERED_PROG_ITERATIONS :: nat where "MAX_BUFFERED_PROG_ITERATIONS = 10000000"
definition BOUNDARY_OF_32_WORDS :: nat where "BOUNDARY_OF_32_WORDS = 0x7F"
definition P30_CMD_READ_DEVICE_ID :: u32 where "P30_CMD_READ_DEVICE_ID = 0x90"
definition P30_CMD_READ_STATUS_REGISTER :: u32 where "P30_CMD_READ_STATUS_REGISTER = 0x70"
definition P30_CMD_CLEAR_STATUS_REGISTER :: u32 where "P30_CMD_CLEAR_STATUS_REGISTER = 0x50"
definition P30_CMD_READ_ARRAY :: u32 where "P30_CMD_READ_ARRAY = 0xFF"
definition P30_CMD_WORD_PROGRAM_SETUP :: u32 where "P30_CMD_WORD_PROGRAM_SETUP = 0x40"
definition P30_CMD_BUFFERED_PROGRAM_SETUP :: u32 where "P30_CMD_BUFFERED_PROGRAM_SETUP = 0xE8"
definition P30_CMD_BUFFERED_PROGRAM_CONFIRM :: u32 where "P30_CMD_BUFFERED_PROGRAM_CONFIRM = 0xD0"
definition P30_CMD_BLOCK_ERASE_SETUP :: u32 where "P30_CMD_BLOCK_ERASE_SETUP = 0x20"
definition P30_CMD_BLOCK_ERASE_CONFIRM :: u32 where "P30_CMD_BLOCK_ERASE_CONFIRM = 0xD0"
definition P30_CMD_LOCK_BLOCK_SETUP :: u32 where "P30_CMD_LOCK_BLOCK_SETUP = 0x60"
definition P30_CMD_UNLOCK_BLOCK :: u32 where "P30_CMD_UNLOCK_BLOCK = 0xD0"

lemmas p30_defs = P30_SR_BIT_WRITE_def P30_SR_BIT_ERASE_def P30_SR_BIT_PROGRAM_def P30_SR_BIT_VPP_def P30_SR_BIT_BLOCK_LOCKED_def
  P30_CMD_READ_DEVICE_ID_def P30_CMD_READ_STATUS_REGISTER_def P30_CMD_CLEAR_STATUS_REGISTER_def P30_CMD_READ_ARRAY_def
  P30_CMD_WORD_PROGRAM_SETUP_def P30_CMD_BUFFERED_PROGRAM_SETUP_def P30_CMD_BUFFERED_PROGRAM_CONFIRM_def P30_CMD_BLOCK_ERASE_SETUP_def
  P30_CMD_BLOCK_ERASE_CONFIRM_def P30_CMD_LOCK_BLOCK_SETUP_def P30_CMD_UNLOCK_BLOCK_def

definition FOLD_32BIT_INTO_16BIT :: "u32 \<Rightarrow> u32" where
  "FOLD_32BIT_INTO_16BIT v = drop_bit 16 v OR (v AND 0xFFFF)"

definition CREATE_DUAL_CMD :: "u32 \<Rightarrow> u32" where
  "CREATE_DUAL_CMD Cmd = push_bit 16 Cmd OR (Cmd AND 0xFFFF)"

definition CREATE_NOR_ADDRESS :: "nat \<Rightarrow> nat \<Rightarrow> nat" where
  "CREATE_NOR_ADDRESS BaseAddr OffsetAddr = w64 (BaseAddr + OffsetAddr * 4)"

definition GET_NOR_BLOCK_ADDRESS :: "nat \<Rightarrow> nat \<Rightarrow> nat \<Rightarrow> nat" where
  "GET_NOR_BLOCK_ADDRESS BaseAddr Lba LbaSize = w64 (BaseAddr + w64 (Lba * LbaSize))"

record NOR_FLASH_INSTANCE =
  DeviceBaseAddress :: nat
  RegionBaseAddress :: nat
  FlashSize :: nat
  StartLba :: nat
  LastBlock :: nat
  BlockSize :: nat
  ShadowBuffer :: "u8 list option"

text \<open>The flash: register access, and a load from the mapped array.\<close>

record 'w nor_env =
  MmioRead32 :: "nat \<Rightarrow> 'w \<Rightarrow> u32 \<times> 'w"
  MmioWrite32 :: "nat \<Rightarrow> u32 \<Rightarrow> 'w \<Rightarrow> 'w"
  FlashLoad :: "nat \<Rightarrow> nat \<Rightarrow> 'w \<Rightarrow> u8 list \<times> 'w"

definition SEND_NOR_COMMAND :: "'w nor_env \<Rightarrow> nat \<Rightarrow> nat \<Rightarrow> u32 \<Rightarrow> 'w \<Rightarrow> 'w" where
  "SEND_NOR_COMMAND E BaseAddr OffsetAddr Cmd w = MmioWrite32 E (CREATE_NOR_ADDRESS BaseAddr OffsetAddr) (CREATE_DUAL_CMD Cmd) w"

section \<open>VirtNorFlash.c: command sequences\<close>

definition NorFlashReadStatusRegister :: "'w nor_env \<Rightarrow> NOR_FLASH_INSTANCE \<Rightarrow> 'w \<Rightarrow> u32 \<times> 'w" where
  "NorFlashReadStatusRegister E I w =
    MmioRead32 E (DeviceBaseAddress I) (SEND_NOR_COMMAND E (DeviceBaseAddress I) 0 P30_CMD_READ_STATUS_REGISTER w)"

definition NorFlashBlockIsLocked :: "'w nor_env \<Rightarrow> NOR_FLASH_INSTANCE \<Rightarrow> nat \<Rightarrow> 'w \<Rightarrow> bool \<times> 'w" where
  "NorFlashBlockIsLocked E I BlockAddress w =
    (case MmioRead32 E (CREATE_NOR_ADDRESS BlockAddress 2) (SEND_NOR_COMMAND E BlockAddress 2 P30_CMD_READ_DEVICE_ID w) of (LockStatus, w1) \<Rightarrow>
       (FOLD_32BIT_INTO_16BIT LockStatus AND 1 \<noteq> 0, w1))"

text \<open>The loop that waits for the write bit, shared by all operations.\<close>

partial_function (option) StatusLoop :: "'w nor_env \<Rightarrow> NOR_FLASH_INSTANCE \<Rightarrow> 'w \<Rightarrow> (u32 \<times> 'w) run" where
  "StatusLoop E I w =
    (case NorFlashReadStatusRegister E I w of (StatusRegister, w1) \<Rightarrow>
       if StatusRegister AND P30_SR_BIT_WRITE = P30_SR_BIT_WRITE then Some (Ok (StatusRegister, w1)) else StatusLoop E I w1)"

definition NorFlashUnlockSingleBlock :: "'w nor_env \<Rightarrow> NOR_FLASH_INSTANCE \<Rightarrow> nat \<Rightarrow> 'w \<Rightarrow> (EFI_STATUS \<times> 'w) run" where
  "NorFlashUnlockSingleBlock E I BlockAddress w =
    (let w1 = SEND_NOR_COMMAND E BlockAddress 0 P30_CMD_LOCK_BLOCK_SETUP w;
         w2 = SEND_NOR_COMMAND E BlockAddress 0 P30_CMD_UNLOCK_BLOCK w1
     in run_bind (StatusLoop E I w2) (\<lambda>(_, w3). Some (Ok (EFI_SUCCESS, SEND_NOR_COMMAND E BlockAddress 0 P30_CMD_READ_ARRAY w3))))"

definition NorFlashUnlockSingleBlockIfNecessary :: "'w nor_env \<Rightarrow> NOR_FLASH_INSTANCE \<Rightarrow> nat \<Rightarrow> 'w \<Rightarrow> (EFI_STATUS \<times> 'w) run" where
  "NorFlashUnlockSingleBlockIfNecessary E I BlockAddress w =
    (case NorFlashBlockIsLocked E I BlockAddress w of (locked, w1) \<Rightarrow>
       if locked then NorFlashUnlockSingleBlock E I BlockAddress w1 else Some (Ok (EFI_SUCCESS, w1)))"

definition EraseStatus :: "u32 \<Rightarrow> EFI_STATUS" where
  "EraseStatus sr =
    (if sr AND P30_SR_BIT_BLOCK_LOCKED \<noteq> 0 then EFI_WRITE_PROTECTED
     else if sr AND P30_SR_BIT_ERASE \<noteq> 0 \<or> sr AND (P30_SR_BIT_ERASE OR P30_SR_BIT_PROGRAM) = P30_SR_BIT_ERASE OR P30_SR_BIT_PROGRAM \<or> sr AND P30_SR_BIT_VPP \<noteq> 0
     then EFI_DEVICE_ERROR else EFI_SUCCESS)"

definition NorFlashEraseSingleBlock :: "'w nor_env \<Rightarrow> NOR_FLASH_INSTANCE \<Rightarrow> nat \<Rightarrow> 'w \<Rightarrow> (EFI_STATUS \<times> 'w) run" where
  "NorFlashEraseSingleBlock E I BlockAddress w =
    (let w1 = SEND_NOR_COMMAND E BlockAddress 0 P30_CMD_BLOCK_ERASE_SETUP w;
         w2 = SEND_NOR_COMMAND E BlockAddress 0 P30_CMD_BLOCK_ERASE_CONFIRM w1
     in run_bind (StatusLoop E I w2) (\<lambda>(sr, w3).
       let s = EraseStatus sr;
           w4 = (if EFI_ERROR s then SEND_NOR_COMMAND E (DeviceBaseAddress I) 0 P30_CMD_CLEAR_STATUS_REGISTER w3 else w3)
       in Some (Ok (s, SEND_NOR_COMMAND E (DeviceBaseAddress I) 0 P30_CMD_READ_ARRAY w4))))"

text \<open>Programming reports any of three bits; the status register is cleared on success only.\<close>

definition ProgramStatus :: "u32 \<Rightarrow> EFI_STATUS" where
  "ProgramStatus sr =
    (if sr AND P30_SR_BIT_VPP \<noteq> 0 \<or> sr AND P30_SR_BIT_PROGRAM \<noteq> 0 \<or> sr AND P30_SR_BIT_BLOCK_LOCKED \<noteq> 0 then EFI_DEVICE_ERROR else EFI_SUCCESS)"

definition FinishProgram :: "'w nor_env \<Rightarrow> NOR_FLASH_INSTANCE \<Rightarrow> 'w \<Rightarrow> (EFI_STATUS \<times> 'w) run" where
  "FinishProgram E I w =
    run_bind (StatusLoop E I w) (\<lambda>(sr, w1).
      let s = ProgramStatus sr
      in Some (Ok (s, if \<not> EFI_ERROR s then SEND_NOR_COMMAND E (DeviceBaseAddress I) 0 P30_CMD_CLEAR_STATUS_REGISTER w1 else w1)))"

definition NorFlashWriteSingleWord :: "'w nor_env \<Rightarrow> NOR_FLASH_INSTANCE \<Rightarrow> nat \<Rightarrow> u32 \<Rightarrow> 'w \<Rightarrow> (EFI_STATUS \<times> 'w) run" where
  "NorFlashWriteSingleWord E I WordAddress WriteData w =
    FinishProgram E I (MmioWrite32 E WordAddress WriteData (SEND_NOR_COMMAND E WordAddress 0 P30_CMD_WORD_PROGRAM_SETUP w))"

function WaitForBufferLoop :: "'w nor_env \<Rightarrow> nat \<Rightarrow> nat \<Rightarrow> 'w \<Rightarrow> nat \<times> 'w" where
  "WaitForBufferLoop E TargetAddress n w =
    (case MmioRead32 E TargetAddress (SEND_NOR_COMMAND E TargetAddress 0 P30_CMD_BUFFERED_PROGRAM_SETUP w) of (Data, w1) \<Rightarrow>
       let n' = n - 1
       in if n' > 0 \<and> \<not> Data AND P30_SR_BIT_WRITE = P30_SR_BIT_WRITE then WaitForBufferLoop E TargetAddress n' w1 else (n', w1))"
  by pat_completeness auto
termination
  by (relation "measure (\<lambda>(E, a, n, w). n)") auto

declare WaitForBufferLoop.simps [simp del]

text \<open>The words of a buffer, as a \<open>UINT32\<close> pointer reads them.\<close>

definition word_at :: "u8 list \<Rightarrow> nat \<Rightarrow> u32" where
  "word_at Buffer i = of_nat (le_val (take 4 (drop (4 * i) Buffer)))"

fun LoadBufferLoop :: "'w nor_env \<Rightarrow> nat \<Rightarrow> u8 list \<Rightarrow> nat list \<Rightarrow> 'w \<Rightarrow> 'w" where
  "LoadBufferLoop E TargetAddress Buffer [] w = w"
| "LoadBufferLoop E TargetAddress Buffer (i # is) w =
    LoadBufferLoop E TargetAddress Buffer is (MmioWrite32 E (w64 (TargetAddress + 4 * i)) (word_at Buffer i) w)"

definition NorFlashWriteBuffer :: "'w nor_env \<Rightarrow> NOR_FLASH_INSTANCE \<Rightarrow> nat \<Rightarrow> nat \<Rightarrow> u8 list \<Rightarrow> 'w \<Rightarrow> (EFI_STATUS \<times> 'w) run" where
  "NorFlashWriteBuffer E I TargetAddress BufferSizeInBytes Buffer w =
    (if TargetAddress AND BOUNDARY_OF_32_WORDS \<noteq> 0 then Some (Ok (EFI_INVALID_PARAMETER, w))
     else if BufferSizeInBytes = 0 then Some (Ok (EFI_BUFFER_TOO_SMALL, w))
     else if BufferSizeInBytes > P30_MAX_BUFFER_SIZE_IN_BYTES then Some (Ok (EFI_BAD_BUFFER_SIZE, w))
     else if BufferSizeInBytes mod 4 \<noteq> 0 then Some (Ok (EFI_BAD_BUFFER_SIZE, w))
     else case WaitForBufferLoop E TargetAddress MAX_BUFFERED_PROG_ITERATIONS w of (WaitForBuffer, w1) \<Rightarrow>
       if WaitForBuffer = 0 then Some (Ok (EFI_DEVICE_ERROR, w1))
       else if length Buffer < BufferSizeInBytes then Some OutOfBounds
       else let BufferSizeInWords = BufferSizeInBytes div 4;
                w2 = SEND_NOR_COMMAND E TargetAddress 0 (of_nat (BufferSizeInWords - 1)) w1;
                w3 = LoadBufferLoop E TargetAddress Buffer [0..<BufferSizeInWords] w2
            in FinishProgram E I (SEND_NOR_COMMAND E (DeviceBaseAddress I) 0 P30_CMD_BUFFERED_PROGRAM_CONFIRM w3))"

section \<open>VirtNorFlashStandaloneMm.c: whole blocks\<close>

function UnlockEraseLoop :: "'w nor_env \<Rightarrow> NOR_FLASH_INSTANCE \<Rightarrow> nat \<Rightarrow> nat \<Rightarrow> 'w \<Rightarrow> (EFI_STATUS \<times> 'w) run" where
  "UnlockEraseLoop E I BlockAddress Index w =
    run_bind (NorFlashUnlockSingleBlockIfNecessary E I BlockAddress w) (\<lambda>(Status, w1).
      if EFI_ERROR Status then Some (Ok (Status, w1))
      else run_bind (NorFlashEraseSingleBlock E I BlockAddress w1) (\<lambda>(Status, w2).
        if Index + 1 < NOR_FLASH_ERASE_RETRY \<and> Status = EFI_WRITE_PROTECTED then UnlockEraseLoop E I BlockAddress (Index + 1) w2
        else Some (Ok (Status, w2))))"
  by pat_completeness auto
termination
  by (relation "measure (\<lambda>(E, I, a, n, w). NOR_FLASH_ERASE_RETRY - n)") auto

declare UnlockEraseLoop.simps [simp del]

definition NorFlashUnlockAndEraseSingleBlock :: "'w nor_env \<Rightarrow> NOR_FLASH_INSTANCE \<Rightarrow> nat \<Rightarrow> 'w \<Rightarrow> (EFI_STATUS \<times> 'w) run" where
  "NorFlashUnlockAndEraseSingleBlock E I BlockAddress w = UnlockEraseLoop E I BlockAddress 0 w"

text \<open>A buffer whose words are all ones is not written.\<close>

fun BuffersLoop :: "'w nor_env \<Rightarrow> NOR_FLASH_INSTANCE \<Rightarrow> nat \<Rightarrow> u8 list \<Rightarrow> nat \<Rightarrow> 'w \<Rightarrow> (EFI_STATUS \<times> nat \<times> u8 list \<times> 'w) run" where
  "BuffersLoop E I WordAddress DataBuffer 0 w = Some (Ok (EFI_SUCCESS, WordAddress, DataBuffer, w))"
| "BuffersLoop E I WordAddress DataBuffer (Suc n) w =
    (if length DataBuffer < P30_MAX_BUFFER_SIZE_IN_BYTES then Some OutOfBounds
     else run_bind
       (if \<exists>i\<in>set [0..<P30_MAX_BUFFER_SIZE_IN_WORDS]. NOT (word_at DataBuffer i) \<noteq> 0
        then NorFlashWriteBuffer E I WordAddress P30_MAX_BUFFER_SIZE_IN_BYTES DataBuffer w
        else Some (Ok (EFI_SUCCESS, w)))
       (\<lambda>(Status, w1). if EFI_ERROR Status then Some (Ok (Status, WordAddress, DataBuffer, w1))
          else BuffersLoop E I (w64 (WordAddress + P30_MAX_BUFFER_SIZE_IN_BYTES)) (drop P30_MAX_BUFFER_SIZE_IN_BYTES DataBuffer) n w1))"

fun WordsLoop :: "'w nor_env \<Rightarrow> NOR_FLASH_INSTANCE \<Rightarrow> nat \<Rightarrow> u8 list \<Rightarrow> nat \<Rightarrow> 'w \<Rightarrow> (EFI_STATUS \<times> 'w) run" where
  "WordsLoop E I WordAddress DataBuffer 0 w = Some (Ok (EFI_SUCCESS, w))"
| "WordsLoop E I WordAddress DataBuffer (Suc n) w =
    (if length DataBuffer < 4 then Some OutOfBounds
     else run_bind (NorFlashWriteSingleWord E I WordAddress (word_at DataBuffer 0) w) (\<lambda>(Status, w1).
       if EFI_ERROR Status then Some (Ok (Status, w1)) else WordsLoop E I (w64 (WordAddress + 4)) (drop 4 DataBuffer) n w1))"

definition ProgramBlock :: "'w nor_env \<Rightarrow> NOR_FLASH_INSTANCE \<Rightarrow> nat \<Rightarrow> u8 list \<Rightarrow> nat \<Rightarrow> 'w \<Rightarrow> (EFI_STATUS \<times> 'w) run" where
  "ProgramBlock E I WordAddress DataBuffer BlockSizeInWords w =
    (if WordAddress AND BOUNDARY_OF_32_WORDS = 0 then
       run_bind (BuffersLoop E I WordAddress DataBuffer (BlockSizeInWords * 4 mod 2 ^ 32 div P30_MAX_BUFFER_SIZE_IN_BYTES) w) (\<lambda>(Status, a, d, w1).
         if EFI_ERROR Status then Some (Ok (Status, w1))
         else let RemainingWords = BlockSizeInWords mod P30_MAX_BUFFER_SIZE_IN_WORDS
           in if RemainingWords \<noteq> 0 then NorFlashWriteBuffer E I a (RemainingWords * 4) d w1 else Some (Ok (EFI_SUCCESS, w1)))
     else WordsLoop E I WordAddress DataBuffer BlockSizeInWords w)"

definition NorFlashWriteFullBlock :: "'w nor_env \<Rightarrow> NOR_FLASH_INSTANCE \<Rightarrow> nat \<Rightarrow> u8 list \<Rightarrow> nat \<Rightarrow> 'w \<Rightarrow> (EFI_STATUS \<times> 'w) run" where
  "NorFlashWriteFullBlock E I Lba DataBuffer BlockSizeInWords w =
    (let BlockAddress = GET_NOR_BLOCK_ADDRESS (RegionBaseAddress I) Lba (BlockSizeInWords * 4 mod 2 ^ 32)
     in run_bind
       (run_bind (NorFlashUnlockAndEraseSingleBlock E I BlockAddress w) (\<lambda>(Status, w1).
          if EFI_ERROR Status then Some (Ok (Status, w1)) else ProgramBlock E I BlockAddress DataBuffer BlockSizeInWords w1))
       (\<lambda>(Status, w2). Some (Ok (Status, SEND_NOR_COMMAND E (DeviceBaseAddress I) 0 P30_CMD_READ_ARRAY w2))))"

section \<open>VirtNorFlash.c: reads and writes\<close>

fun WriteBlocksLoop :: "'w nor_env \<Rightarrow> NOR_FLASH_INSTANCE \<Rightarrow> nat \<Rightarrow> u8 list \<Rightarrow> nat \<Rightarrow> 'w \<Rightarrow> (EFI_STATUS \<times> 'w) run" where
  "WriteBlocksLoop E I CurrentBlock Buffer 0 w = Some (Ok (EFI_SUCCESS, w))"
| "WriteBlocksLoop E I CurrentBlock Buffer (Suc n) w =
    run_bind (NorFlashWriteFullBlock E I CurrentBlock Buffer (BlockSize I div 4) w) (\<lambda>(Status, w1).
      if EFI_ERROR Status then Some (Ok (Status, w1))
      else WriteBlocksLoop E I (w64 (CurrentBlock + 1)) (drop (BlockSize I div 4 * 4) Buffer) n w1)"

definition NorFlashWriteBlocks :: "'w nor_env \<Rightarrow> NOR_FLASH_INSTANCE \<Rightarrow> nat \<Rightarrow> nat \<Rightarrow> u8 list \<Rightarrow> 'w \<Rightarrow> (EFI_STATUS \<times> 'w) run" where
  "NorFlashWriteBlocks E I Lba BufferSizeInBytes Buffer w =
    (if BufferSizeInBytes = 0 then Some (Ok (EFI_BAD_BUFFER_SIZE, w))
     else if BufferSizeInBytes mod BlockSize I \<noteq> 0 then Some (Ok (EFI_BAD_BUFFER_SIZE, w))
     else let NumBlocks = BufferSizeInBytes mod 2 ^ 32 div BlockSize I
       in if w64 (Lba + NumBlocks) > w64 (LastBlock I + 1) then Some (Ok (EFI_INVALID_PARAMETER, w))
          else WriteBlocksLoop E I Lba Buffer NumBlocks w)"

text \<open>Reads return what they put at the start of the buffer.\<close>

definition NorFlashReadBlocks :: "'w nor_env \<Rightarrow> NOR_FLASH_INSTANCE \<Rightarrow> nat \<Rightarrow> nat \<Rightarrow> 'w \<Rightarrow> EFI_STATUS \<times> u8 list \<times> 'w" where
  "NorFlashReadBlocks E I Lba BufferSizeInBytes w =
    (if BufferSizeInBytes = 0 then (EFI_SUCCESS, [], w)
     else if BufferSizeInBytes mod BlockSize I \<noteq> 0 then (EFI_BAD_BUFFER_SIZE, [], w)
     else let NumBlocks = BufferSizeInBytes mod 2 ^ 32 div BlockSize I
       in if w64 (Lba + NumBlocks) > w64 (LastBlock I + 1) then (EFI_INVALID_PARAMETER, [], w)
          else (EFI_SUCCESS, FlashLoad E (GET_NOR_BLOCK_ADDRESS (RegionBaseAddress I) Lba (BlockSize I)) BufferSizeInBytes
            (SEND_NOR_COMMAND E (DeviceBaseAddress I) 0 P30_CMD_READ_ARRAY w)))"

definition NorFlashRead :: "'w nor_env \<Rightarrow> NOR_FLASH_INSTANCE \<Rightarrow> nat \<Rightarrow> nat \<Rightarrow> nat \<Rightarrow> 'w \<Rightarrow> EFI_STATUS \<times> u8 list \<times> 'w" where
  "NorFlashRead E I Lba Off BufferSizeInBytes w =
    (if BufferSizeInBytes = 0 then (EFI_SUCCESS, [], w)
     else if w64 (Lba * BlockSize I + Off + BufferSizeInBytes) > FlashSize I then (EFI_INVALID_PARAMETER, [], w)
     else (EFI_SUCCESS, FlashLoad E (w64 (GET_NOR_BLOCK_ADDRESS (RegionBaseAddress I) Lba (BlockSize I) + Off)) BufferSizeInBytes
       (SEND_NOR_COMMAND E (DeviceBaseAddress I) 0 P30_CMD_READ_ARRAY w)))"

definition overlay :: "nat \<Rightarrow> u8 list \<Rightarrow> u8 list \<Rightarrow> u8 list" where
  "overlay k bs xs = take k xs @ bs @ drop (k + length bs) xs"

text \<open>The comparison that also updates the shadow buffer: whether every byte only clears bits, and the
  buffer as the loop leaves it.\<close>

fun CompareLoop :: "u8 list \<Rightarrow> nat \<Rightarrow> u8 list \<Rightarrow> bool \<times> u8 list" where
  "CompareLoop sh k [] = (True, sh)"
| "CompareLoop sh k (b # bs) =
    (if NOT (sh ! k) AND b \<noteq> 0 then (False, sh) else CompareLoop (sh[k := b]) (Suc k) bs)"

definition RewriteBlock :: "'w nor_env \<Rightarrow> NOR_FLASH_INSTANCE \<Rightarrow> nat \<Rightarrow> nat \<Rightarrow> u8 list \<Rightarrow> u8 list \<Rightarrow> 'w \<Rightarrow> (EFI_STATUS \<times> NOR_FLASH_INSTANCE \<times> 'w) run" where
  "RewriteBlock E I Lba Off Buffer sh w =
    (case NorFlashReadBlocks E I Lba (BlockSize I) w of (Status, bs, w1) \<Rightarrow>
       if EFI_ERROR Status then Some (Ok (EFI_DEVICE_ERROR, I\<lparr>ShadowBuffer := Some sh\<rparr>, w1))
       else if length sh < length bs then Some OutOfBounds
       else let sh1 = overlay Off Buffer (overlay 0 bs sh)
         in run_bind (NorFlashWriteBlocks E I Lba (BlockSize I) sh1 w1) (\<lambda>(Status, w2).
           Some (Ok (if EFI_ERROR Status then EFI_DEVICE_ERROR else EFI_SUCCESS, I\<lparr>ShadowBuffer := Some sh1\<rparr>, w2))))"

definition ProgramShadow :: "'w nor_env \<Rightarrow> NOR_FLASH_INSTANCE \<Rightarrow> nat \<Rightarrow> nat \<Rightarrow> nat \<Rightarrow> u8 list \<Rightarrow> 'w \<Rightarrow> (EFI_STATUS \<times> 'w) run" where
  "ProgramShadow E I Lba Off NumBytes sh w =
    (let BlockAddress = GET_NOR_BLOCK_ADDRESS (RegionBaseAddress I) Lba (BlockSize I); start = Off - (Off AND BOUNDARY_OF_32_WORDS)
     in run_bind (NorFlashUnlockSingleBlockIfNecessary E I BlockAddress w) (\<lambda>(Status, w1).
       if EFI_ERROR Status then Some (Ok (Status, w1))
       else run_bind (NorFlashWriteBuffer E I (w64 (BlockAddress + start)) P30_MAX_BUFFER_SIZE_IN_BYTES sh w1) (\<lambda>(Status, w2).
         if EFI_ERROR Status then Some (Ok (Status, w2))
         else if NumBytes + (Off AND BOUNDARY_OF_32_WORDS) > P30_MAX_BUFFER_SIZE_IN_BYTES then
           NorFlashWriteBuffer E I (w64 (BlockAddress + P30_MAX_BUFFER_SIZE_IN_BYTES + start)) P30_MAX_BUFFER_SIZE_IN_BYTES (drop P30_MAX_BUFFER_SIZE_IN_BYTES sh) w2
         else Some (Ok (Status, w2)))))"

text \<open>\<open>NorFlashWriteSingleBlock\<close>; \<open>Buffer\<close> holds \<open>*NumBytes\<close> bytes.\<close>

definition NorFlashWriteSingleBlock :: "'w nor_env \<Rightarrow> NOR_FLASH_INSTANCE \<Rightarrow> nat \<Rightarrow> nat \<Rightarrow> u8 list \<Rightarrow> 'w \<Rightarrow> (EFI_STATUS \<times> NOR_FLASH_INSTANCE \<times> 'w) run" where
  "NorFlashWriteSingleBlock E I Lba Off Buffer w =
    (case ShadowBuffer I of None \<Rightarrow> Some (Ok (EFI_DEVICE_ERROR, I, w))
     | Some sh \<Rightarrow>
       let NumBytes = length Buffer
       in if Off \<ge> BlockSize I \<or> NumBytes > BlockSize I \<or> w64 (Off + NumBytes) > BlockSize I then Some (Ok (EFI_BAD_BUFFER_SIZE, I, w))
          else if NumBytes = 0 then Some (Ok (EFI_BAD_BUFFER_SIZE, I, w))
          else if NumBytes + (Off AND BOUNDARY_OF_32_WORDS) \<le> 2 * P30_MAX_BUFFER_SIZE_IN_BYTES then
            (case NorFlashRead E I Lba (Off - (Off AND BOUNDARY_OF_32_WORDS)) ((NumBytes OR BOUNDARY_OF_32_WORDS) + 1) w of (Status, bs, w1) \<Rightarrow>
               if EFI_ERROR Status then Some (Ok (EFI_DEVICE_ERROR, I, w1))
               else if length sh < length bs \<or> length sh < (Off AND BOUNDARY_OF_32_WORDS) + NumBytes then Some OutOfBounds
               else case CompareLoop (overlay 0 bs sh) (Off AND BOUNDARY_OF_32_WORDS) Buffer of (clears, sh1) \<Rightarrow>
                 if \<not> clears then RewriteBlock E I Lba Off Buffer sh1 w1
                 else run_bind (ProgramShadow E I Lba Off NumBytes sh1 w1) (\<lambda>(Status, w2).
                   Some (Ok (Status, I\<lparr>ShadowBuffer := Some sh1\<rparr>, SEND_NOR_COMMAND E (DeviceBaseAddress I) 0 P30_CMD_READ_ARRAY w2))))
          else RewriteBlock E I Lba Off Buffer sh w)"

definition NorFlashReset :: "'w nor_env \<Rightarrow> NOR_FLASH_INSTANCE \<Rightarrow> 'w \<Rightarrow> EFI_STATUS \<times> 'w" where
  "NorFlashReset E I w = (EFI_SUCCESS, SEND_NOR_COMMAND E (DeviceBaseAddress I) 0 P30_CMD_READ_ARRAY w)"

end
