(* ===== verification/NorFlashChip.thy ===== *)
theory NorFlashChip
  imports NorFlash
begin

text \<open>
  What the NOR flash driver relies on: two Intel P30 chips side by side as a state machine.  Programming
  clears bits, erasing a block sets all of them; an operation takes a number of status reads and may
  report error bits, which stay until they are cleared; a block may be locked.
\<close>

section \<open>The chip\<close>

datatype p30_mode = ReadArray | ReadStatus | ReadId | EraseSetup | LockSetup | WordSetup | BufferWait | BufferReady
  | BufferLoad nat "(nat \<times> u32) list"

text \<open>\<open>plan\<close>: delay and error bits of the operations to come; operations beyond it are immediate and succeed.\<close>

record p30 =
  cells :: mem
  mode :: p30_mode
  errors :: u8
  busy :: nat
  locked :: "nat \<Rightarrow> bool"
  plan :: "(nat \<times> u8) list"

definition dual8 :: "u8 \<Rightarrow> u32" where
  "dual8 b = ucast b OR push_bit 16 (ucast b)"

definition clear_bits :: "mem \<Rightarrow> nat \<Rightarrow> u8 list \<Rightarrow> mem" where
  "clear_bits m a bs = store_bytes m a (map2 (AND) (load_bytes m a (length bs)) bs)"

fun program_words :: "(nat \<times> u32) list \<Rightarrow> mem \<Rightarrow> mem" where
  "program_words [] m = m"
| "program_words ((a, v) # ws) m = program_words ws (clear_bits m a (le_bytes 4 (unat v)))"

text \<open>An operation starts: it takes its entry of the plan; \<open>ebits\<close> are the error bits it can report.\<close>

definition p30_start :: "nat \<Rightarrow> u8 \<Rightarrow> nat list \<Rightarrow> mem \<Rightarrow> p30 \<Rightarrow> p30" where
  "p30_start bs ebits as m c =
    (case (case plan c of [] \<Rightarrow> (0, 0) | p # _ \<Rightarrow> p) of (d, e) \<Rightarrow>
     let e' = (if \<exists>a\<in>set as. locked c (a div bs) then 0x02 else e AND ebits)
     in c\<lparr>cells := (if e' = 0 then m else cells c), mode := ReadStatus, errors := errors c OR e', busy := d, plan := tl (plan c)\<rparr>)"

definition p30_command :: "u32 \<Rightarrow> p30 \<Rightarrow> p30" where
  "p30_command v c =
    (if v = CREATE_DUAL_CMD P30_CMD_READ_ARRAY then c\<lparr>mode := ReadArray\<rparr>
     else if v = CREATE_DUAL_CMD P30_CMD_READ_STATUS_REGISTER then c\<lparr>mode := ReadStatus\<rparr>
     else if v = CREATE_DUAL_CMD P30_CMD_READ_DEVICE_ID then c\<lparr>mode := ReadId\<rparr>
     else if v = CREATE_DUAL_CMD P30_CMD_CLEAR_STATUS_REGISTER then c\<lparr>errors := 0\<rparr>
     else if v = CREATE_DUAL_CMD P30_CMD_BLOCK_ERASE_SETUP then c\<lparr>mode := EraseSetup\<rparr>
     else if v = CREATE_DUAL_CMD P30_CMD_LOCK_BLOCK_SETUP then c\<lparr>mode := LockSetup\<rparr>
     else if v = CREATE_DUAL_CMD P30_CMD_WORD_PROGRAM_SETUP then c\<lparr>mode := WordSetup\<rparr>
     else if v = CREATE_DUAL_CMD P30_CMD_BUFFERED_PROGRAM_SETUP then c\<lparr>mode := (if busy c = 0 then BufferReady else BufferWait)\<rparr>
     else c)"

text \<open>A write cycle; \<open>bs\<close> is the block size.\<close>

definition p30_write :: "nat \<Rightarrow> nat \<Rightarrow> u32 \<Rightarrow> p30 \<Rightarrow> p30" where
  "p30_write bs a v c =
    (case mode c of
       EraseSetup \<Rightarrow>
         if v = CREATE_DUAL_CMD P30_CMD_BLOCK_ERASE_CONFIRM
         then p30_start bs 0x2A [a] (set_mem (cells c) (a div bs * bs) bs 0xFF) c else c\<lparr>mode := ReadStatus, errors := errors c OR 0x30\<rparr>
     | LockSetup \<Rightarrow>
         if v = CREATE_DUAL_CMD P30_CMD_UNLOCK_BLOCK
         then (p30_start bs 0 [] (cells c) c)\<lparr>locked := (locked c)(a div bs := False)\<rparr> else c\<lparr>mode := ReadStatus, errors := errors c OR 0x30\<rparr>
     | WordSetup \<Rightarrow> p30_start bs 0x1A [a] (program_words [(a, v)] (cells c)) c
     | BufferReady \<Rightarrow> c\<lparr>mode := BufferLoad (unat (v AND 0xFFFF) + 1) []\<rparr>
     | BufferLoad n ws \<Rightarrow>
         if n > 0 then c\<lparr>mode := BufferLoad (n - 1) (ws @ [(a, v)])\<rparr>
         else if v = CREATE_DUAL_CMD P30_CMD_BUFFERED_PROGRAM_CONFIRM
         then p30_start bs 0x1A (map fst ws) (program_words ws (cells c)) c else c\<lparr>mode := ReadStatus, errors := errors c OR 0x30\<rparr>
     | _ \<Rightarrow> p30_command v c)"

text \<open>A read cycle: array, lock bits, or the status register; reading the status lets time pass.\<close>

definition p30_read :: "nat \<Rightarrow> nat \<Rightarrow> p30 \<Rightarrow> u32 \<times> p30" where
  "p30_read bs a c =
    (case mode c of
       ReadArray \<Rightarrow> (of_nat (load_le (cells c) a 4), c)
     | ReadId \<Rightarrow> (dual8 (if locked c (a div bs) then 1 else 0), c)
     | _ \<Rightarrow> (dual8 (if busy c = 0 then errors c OR 0x80 else errors c), c\<lparr>busy := busy c - 1\<rparr>))"

text \<open>The environment drives such a chip.\<close>

definition nor_device :: "'w nor_env \<Rightarrow> nat \<Rightarrow> ('w \<Rightarrow> p30) \<Rightarrow> bool" where
  "nor_device E bs chip \<longleftrightarrow>
    (\<forall>a v w. chip (MmioWrite32 E a v w) = p30_write bs a v (chip w)) \<and>
    (\<forall>a w v w'. MmioRead32 E a w = (v, w') \<longrightarrow> (v, chip w') = p30_read bs a (chip w)) \<and>
    (\<forall>a n w d w'. FlashLoad E a n w = (d, w') \<longrightarrow> length d = n \<and> chip w' = chip w \<and> (mode (chip w) = ReadArray \<longrightarrow> d = load_bytes (cells (chip w)) a n))"

lemma nor_deviceD:
  assumes "nor_device E bs chip"
  shows "chip (MmioWrite32 E a v w) = p30_write bs a v (chip w)"
    "MmioRead32 E a w = (v, w') \<Longrightarrow> v = fst (p30_read bs a (chip w)) \<and> chip w' = snd (p30_read bs a (chip w))"
    "FlashLoad E a n w = (d, w') \<Longrightarrow> length d = n \<and> chip w' = chip w \<and> (mode (chip w) = ReadArray \<longrightarrow> d = load_bytes (cells (chip w)) a n)"
  using assms unfolding nor_device_def by (auto dest: spec, metis fst_conv, metis snd_conv)

section \<open>Single commands\<close>

lemma dual_cmds [simp]:
  "CREATE_DUAL_CMD P30_CMD_READ_ARRAY = 0xFF00FF" "CREATE_DUAL_CMD P30_CMD_READ_STATUS_REGISTER = 0x700070"
  "CREATE_DUAL_CMD P30_CMD_READ_DEVICE_ID = 0x900090" "CREATE_DUAL_CMD P30_CMD_CLEAR_STATUS_REGISTER = 0x500050"
  "CREATE_DUAL_CMD P30_CMD_BLOCK_ERASE_SETUP = 0x200020" "CREATE_DUAL_CMD P30_CMD_BLOCK_ERASE_CONFIRM = 0xD000D0"
  "CREATE_DUAL_CMD P30_CMD_LOCK_BLOCK_SETUP = 0x600060" "CREATE_DUAL_CMD P30_CMD_UNLOCK_BLOCK = 0xD000D0"
  "CREATE_DUAL_CMD P30_CMD_WORD_PROGRAM_SETUP = 0x400040" "CREATE_DUAL_CMD P30_CMD_BUFFERED_PROGRAM_SETUP = 0xE800E8"
  "CREATE_DUAL_CMD P30_CMD_BUFFERED_PROGRAM_CONFIRM = 0xD000D0"
  by (simp_all add: CREATE_DUAL_CMD_def p30_defs)

lemma bit_dual8: "bit (dual8 b) n \<longleftrightarrow> n < 8 \<and> bit b n \<or> 16 \<le> n \<and> n < 24 \<and> bit b (n - 16)"
  unfolding dual8_def by (auto simp: bit_simps dest: bit_imp_le_length)

lemma dual8_AND: "dual8 a AND dual8 b = dual8 (a AND b)"
  by (rule bit_eqI) (auto simp: bit_dual8 bit_simps)

lemma dual8_OR: "dual8 a OR dual8 b = dual8 (a OR b)"
  by (rule bit_eqI) (auto simp: bit_dual8 bit_simps)

lemma dual8_inject: "dual8 a = dual8 b \<longleftrightarrow> a = b"
proof
  assume e: "dual8 a = dual8 b"
  show "a = b"
  proof (rule bit_eqI)
    fix n assume "possible_bit TYPE(8 word) n"
    then have "n < 8" by simp
    then show "bit a n = bit b n" using arg_cong [OF e, of "\<lambda>x. bit x n"] by (simp add: bit_dual8)
  qed
qed simp

lemma dual8_0: "dual8 b = 0 \<longleftrightarrow> b = 0"
  using dual8_inject [of b 0] by (simp add: dual8_def)

lemma sr_bits: "P30_SR_BIT_WRITE = dual8 0x80" "P30_SR_BIT_ERASE = dual8 0x20" "P30_SR_BIT_PROGRAM = dual8 0x10" "P30_SR_BIT_VPP = dual8 0x08"
  "P30_SR_BIT_BLOCK_LOCKED = dual8 0x02"
  by (simp_all add: dual8_def p30_defs)

lemmas dual8_tests = sr_bits dual8_AND dual8_OR dual8_inject dual8_0

lemma status_ready: "((e :: u8) OR 0x80) AND 0x80 = 0x80"
  by (simp add: bit.conj_disj_distrib2)

lemma status_other: "(k :: u8) AND 0x80 = 0 \<Longrightarrow> (e OR 0x80) AND k = e AND k"
  by (simp add: bit.conj_disj_distrib2 and.commute [of 128])

lemma AND_split_0: "(x :: u8) AND (a OR b) = 0 \<longleftrightarrow> x AND a = 0 \<and> x AND b = 0"
  by (simp add: bit.conj_disj_distrib or_eq_0_iff)

lemma program_mask: "(x :: u8) AND 0x1A = 0 \<longleftrightarrow> x AND 0x08 = 0 \<and> x AND 0x10 = 0 \<and> x AND 0x02 = 0"
  using AND_split_0 [of x "0x08" "0x12"] AND_split_0 [of x "0x10" "0x02"] by simp

lemma erase_mask: "(x :: u8) AND 0x2A = 0 \<longleftrightarrow> x AND 0x08 = 0 \<and> x AND 0x20 = 0 \<and> x AND 0x02 = 0"
  using AND_split_0 [of x "0x08" "0x22"] AND_split_0 [of x "0x20" "0x02"] by simp

lemma ProgramStatus_dual: "ProgramStatus (dual8 (e OR 0x80)) = (if e AND 0x1A = 0 then EFI_SUCCESS else EFI_DEVICE_ERROR)"
  by (simp add: ProgramStatus_def dual8_tests status_other program_mask)

lemma EraseStatus_dual: "EraseStatus (dual8 (e OR 0x80)) = EFI_SUCCESS \<longleftrightarrow> e AND 0x2A = 0"
  "EFI_ERROR (EraseStatus (dual8 (e OR 0x80))) \<longleftrightarrow> EraseStatus (dual8 (e OR 0x80)) \<noteq> EFI_SUCCESS"
proof -
  have "(e AND 0x30 = 0x30) \<longrightarrow> e AND 0x20 \<noteq> 0"
  proof
    assume "e AND 0x30 = 0x30"
    then have "(e AND 0x30) AND 0x20 = 0x30 AND 0x20" by (simp only:)
    then have "e AND 0x20 = 0x20" by (simp add: and.assoc)
    then show "e AND 0x20 \<noteq> 0" by simp
  qed
  then show "EraseStatus (dual8 (e OR 0x80)) = EFI_SUCCESS \<longleftrightarrow> e AND 0x2A = 0"
    by (auto simp: EraseStatus_def dual8_tests status_other erase_mask)
  show "EFI_ERROR (EraseStatus (dual8 (e OR 0x80))) \<longleftrightarrow> EraseStatus (dual8 (e OR 0x80)) \<noteq> EFI_SUCCESS"
    by (simp add: EraseStatus_def)
qed

section \<open>Bytes\<close>

lemma store_bytes_at: "store_bytes m a bs x = (if a \<le> x \<and> x < a + length bs then bs ! (x - a) else m x)"
  by (simp add: store_bytes_def)

lemma clear_bits_at: "clear_bits m a bs x = (if a \<le> x \<and> x < a + length bs then m x AND bs ! (x - a) else m x)"
  by (auto simp: clear_bits_def store_bytes_at nth_load_bytes)

lemma clear_bits_append: "clear_bits (clear_bits m a xs) (a + length xs) ys = clear_bits m a (xs @ ys)"
  by (rule ext) (auto simp: clear_bits_at nth_append)

lemma le_bytes_word_at:
  assumes "4 * i + 4 \<le> length b"
  shows "le_bytes 4 (unat (word_at b i)) = take 4 (drop (4 * i) b)"
proof -
  let ?x = "take 4 (drop (4 * i) b)"
  have l: "length ?x = 4" using assms by simp
  then have "le_val ?x < 2 ^ 32" using le_val_less [of ?x] by simp
  then have "unat (word_at b i) = le_val ?x" unfolding word_at_def by (simp add: unat_of_nat)
  then show ?thesis using le_bytes_le_val [of ?x] l by simp
qed

lemma program_words_append: "program_words (xs @ ys) m = program_words ys (program_words xs m)"
  by (induction xs m rule: program_words.induct) auto

lemma program_buffer:
  assumes "4 * n \<le> length b"
  shows "program_words (map (\<lambda>i. (T + 4 * i, word_at b i)) [0..<n]) m = clear_bits m T (take (4 * n) b)"
  using assms
proof (induction n)
  case 0
  then show ?case by (intro ext) (auto simp: clear_bits_at)
next
  case (Suc n)
  have t: "take (4 * Suc n) b = take (4 * n) b @ take 4 (drop (4 * n) b)" by (metis mult_Suc_right add.commute take_add)
  have "program_words (map (\<lambda>i. (T + 4 * i, word_at b i)) [0..<Suc n]) m = clear_bits (clear_bits m T (take (4 * n) b)) (T + 4 * n) (take 4 (drop (4 * n) b))"
    using Suc le_bytes_word_at [of n b] by (simp add: program_words_append)
  also have "\<dots> = clear_bits m T (take (4 * Suc n) b)" using clear_bits_append [of m T "take (4 * n) b"] Suc.prems unfolding t by simp
  finally show ?case .
qed

lemma nat_AND_127: "(n :: nat) AND 127 = n mod 128"
  using take_bit_eq_mask [of 7 n] by (simp add: take_bit_eq_mod mask_eq_exp_minus_1)

lemma dual_count: "k < 65536 \<Longrightarrow> unat (CREATE_DUAL_CMD (of_nat k) AND 0xFFFF) = k"
proof -
  assume k: "k < 65536"
  have m: "(0xFFFF :: u32) = mask 16" by (simp add: mask_eq_exp_minus_1)
  have "CREATE_DUAL_CMD (of_nat k) AND 0xFFFF = take_bit 16 (of_nat k)"
    unfolding CREATE_DUAL_CMD_def m by (rule bit_eqI) (auto simp: bit_simps)
  then have "unat (CREATE_DUAL_CMD (of_nat k) AND 0xFFFF) = take_bit 16 (unat (of_nat k :: u32))" by (simp only: unsigned_take_bit_eq)
  then show ?thesis using k by (simp add: unat_of_nat take_bit_eq_mod)
qed

section \<open>Operations on a chip\<close>

definition plain :: "p30_mode \<Rightarrow> bool" where
  "plain m \<longleftrightarrow> m = ReadArray \<or> m = ReadStatus \<or> m = ReadId \<or> m = BufferWait"

lemma plain_write: "plain (mode c) \<Longrightarrow> p30_write bs a v c = p30_command v c"
  by (auto simp: plain_def p30_write_def)

definition quiet :: "p30 \<Rightarrow> bool" where
  "quiet c \<longleftrightarrow> plain (mode c) \<and> busy c = 0 \<and> errors c AND 0x80 = 0"

definition faultless :: "p30 \<Rightarrow> bool" where
  "faultless c \<longleftrightarrow> errors c = 0 \<and> (\<forall>p\<in>set (plan c). snd p = 0)"

text \<open>The effect of one operation: the memory is as before or as asked for; without faults it is as asked for.\<close>

definition fault :: "u8 \<Rightarrow> p30 \<Rightarrow> u8" where
  "fault ebits c = (case plan c of [] \<Rightarrow> 0 | p # _ \<Rightarrow> snd p AND ebits)"

lemma p30_start_eq: "p30_start bs ebits as m c =
    (let e = (if \<exists>a\<in>set as. locked c (a div bs) then 0x02 else fault ebits c)
     in c\<lparr>cells := (if e = 0 then m else cells c), mode := ReadStatus, errors := errors c OR e, busy := (case plan c of [] \<Rightarrow> 0 | p # _ \<Rightarrow> fst p), plan := tl (plan c)\<rparr>)"
  by (cases "plan c") (auto simp: p30_start_def fault_def Let_def split: prod.splits)

lemma faultless_fault: "faultless c \<Longrightarrow> fault ebits c = 0"
  by (cases "plan c") (auto simp: faultless_def fault_def)

lemma faultless_tl: "faultless c \<Longrightarrow> \<forall>p\<in>set (tl (plan c)). snd p = 0"
  by (cases "plan c") (auto simp: faultless_def)

lemma fault_sub: "fault ebits c AND ebits = fault ebits c"
  by (cases "plan c") (auto simp: fault_def and.assoc)

text \<open>Outcome of an operation that was to change the memory to \<open>m\<close>.\<close>

definition outcome :: "EFI_STATUS \<Rightarrow> p30 \<Rightarrow> mem \<Rightarrow> p30 \<Rightarrow> bool" where
  "outcome s c m c' \<longleftrightarrow> quiet c' \<and> (s = EFI_SUCCESS \<or> EFI_ERROR s) \<and> (cells c' = cells c \<or> cells c' = m) \<and> (s = EFI_SUCCESS \<longrightarrow> cells c' = m) \<and>
    (faultless c \<longrightarrow> s = EFI_SUCCESS \<and> faultless c')"

locale nor_chip =
  fixes E :: "'w nor_env" and bs :: nat and chip :: "'w \<Rightarrow> p30"
  assumes device: "nor_device E bs chip"
begin

lemma chip_send: "chip (SEND_NOR_COMMAND E b n cmd w) = p30_write bs (CREATE_NOR_ADDRESS b n) (CREATE_DUAL_CMD cmd) (chip w)"
  by (simp add: SEND_NOR_COMMAND_def nor_deviceD(1) [OF device])

lemma StatusLoop_result:
  assumes "plain (mode (chip w))" "errors (chip w) AND 0x80 = 0"
  shows "\<exists>w'. StatusLoop E I w = Some (Ok (dual8 (errors (chip w) OR 0x80), w')) \<and> chip w' = (chip w)\<lparr>mode := ReadStatus, busy := 0\<rparr>"
  using assms
proof (induction "busy (chip w)" arbitrary: w rule: less_induct)
  case less
  define w1 where "w1 = SEND_NOR_COMMAND E (DeviceBaseAddress I) 0 P30_CMD_READ_STATUS_REGISTER w"
  have c1: "chip w1 = (chip w)\<lparr>mode := ReadStatus\<rparr>" using less.prems(1) by (simp add: w1_def chip_send plain_write p30_command_def)
  obtain v w2 where r: "MmioRead32 E (DeviceBaseAddress I) w1 = (v, w2)" by (cases "MmioRead32 E (DeviceBaseAddress I) w1")
  have v: "v = dual8 (if busy (chip w) = 0 then errors (chip w) OR 0x80 else errors (chip w))" and c2: "chip w2 = (chip w)\<lparr>mode := ReadStatus, busy := busy (chip w) - 1\<rparr>"
    using nor_deviceD(2) [OF device r] by (simp_all add: c1 p30_read_def)
  have run: "StatusLoop E I w = (if v AND P30_SR_BIT_WRITE = P30_SR_BIT_WRITE then Some (Ok (v, w2)) else StatusLoop E I w2)"
    using r by (subst StatusLoop.simps) (simp add: NorFlashReadStatusRegister_def w1_def)
  show ?case
  proof (cases "busy (chip w) = 0")
    case True
    then show ?thesis using run v c2 by (simp add: dual8_tests status_ready)
  next
    case False
    have "\<exists>w'. StatusLoop E I w2 = Some (Ok (dual8 (errors (chip w2) OR 0x80), w')) \<and> chip w' = (chip w2)\<lparr>mode := ReadStatus, busy := 0\<rparr>"
      using less.hyps [of w2] less.prems False c2 by (simp add: plain_def)
    then show ?thesis using run v c2 False less.prems(2) by (simp add: dual8_tests)
  qed
qed

text \<open>A started operation, followed to its end.\<close>

lemma start_StatusLoop:
  assumes "chip w = p30_start bs ebits as m c" "errors (chip w) AND 0x80 = 0"
  obtains w' where "StatusLoop E I w = Some (Ok (dual8 (errors (chip w) OR 0x80), w'))" "chip w' = (chip w)\<lparr>busy := 0\<rparr>" "mode (chip w) = ReadStatus"
proof -
  have m: "mode (chip w) = ReadStatus" using assms(1) by (simp add: p30_start_eq Let_def)
  then have "(chip w)\<lparr>mode := ReadStatus, busy := 0\<rparr> = (chip w)\<lparr>busy := 0\<rparr>" by simp
  then show thesis using that StatusLoop_result [of w I] m assms(2) by (auto simp: plain_def)
qed

lemma BlockIsLocked_result:
  assumes q: "quiet (chip w)" and b: "b mod bs = 0" "8 < bs" "b + 8 < 2 ^ 64"
  shows "\<exists>w'. NorFlashBlockIsLocked E I b w = (locked (chip w) (b div bs), w') \<and> chip w' = (chip w)\<lparr>mode := ReadId\<rparr>"
proof -
  define w1 where "w1 = SEND_NOR_COMMAND E b 2 P30_CMD_READ_DEVICE_ID w"
  have a: "CREATE_NOR_ADDRESS b 2 = b + 8" using b(3) by (simp add: CREATE_NOR_ADDRESS_def w64_def)
  have d: "(b + 8) div bs = b div bs"
  proof -
    obtain k where "b = bs * k" using b(1) by (auto simp: mod_eq_0_iff_dvd elim: dvdE)
    then show ?thesis using b(2) by simp
  qed
  have c1: "chip w1 = (chip w)\<lparr>mode := ReadId\<rparr>" using q by (simp add: w1_def chip_send quiet_def plain_write p30_command_def)
  obtain v w2 where r: "MmioRead32 E (b + 8) w1 = (v, w2)" by (cases "MmioRead32 E (b + 8) w1")
  have "v = dual8 (if locked (chip w) (b div bs) then 1 else 0)" "chip w2 = (chip w)\<lparr>mode := ReadId\<rparr>"
    using nor_deviceD(2) [OF device r] by (simp_all add: c1 p30_read_def d)
  moreover have "FOLD_32BIT_INTO_16BIT (dual8 1) AND 1 \<noteq> 0" "FOLD_32BIT_INTO_16BIT (dual8 0) AND 1 = 0"
    by (simp_all add: FOLD_32BIT_INTO_16BIT_def dual8_def)
  ultimately show ?thesis using r by (auto simp: NorFlashBlockIsLocked_def a w1_def)
qed

lemma UnlockIfNecessary_result:
  assumes q: "quiet (chip w)" and b: "b mod bs = 0" "8 < bs" "b + 8 < 2 ^ 64"
  shows "\<exists>w'. NorFlashUnlockSingleBlockIfNecessary E I b w = Some (Ok (EFI_SUCCESS, w')) \<and> quiet (chip w') \<and> cells (chip w') = cells (chip w) \<and>
    locked (chip w') = (locked (chip w))(b div bs := False) \<and> errors (chip w') = errors (chip w) \<and> (faultless (chip w) \<longrightarrow> faultless (chip w'))"
proof -
  obtain w1 where l: "NorFlashBlockIsLocked E I b w = (locked (chip w) (b div bs), w1)" "chip w1 = (chip w)\<lparr>mode := ReadId\<rparr>"
    using BlockIsLocked_result [OF q b] by blast
  show ?thesis
  proof (cases "locked (chip w) (b div bs)")
    case False
    then show ?thesis using l q by (auto simp: NorFlashUnlockSingleBlockIfNecessary_def quiet_def plain_def faultless_def fun_upd_idem)
  next
    case True
    define w2 where "w2 = SEND_NOR_COMMAND E b 0 P30_CMD_LOCK_BLOCK_SETUP w1"
    define w3 where "w3 = SEND_NOR_COMMAND E b 0 P30_CMD_UNLOCK_BLOCK w2"
    have a: "CREATE_NOR_ADDRESS b 0 = b" using b(3) by (simp add: CREATE_NOR_ADDRESS_def w64_def)
    have c2: "chip w2 = (chip w)\<lparr>mode := LockSetup\<rparr>" using l(2) by (simp add: w2_def chip_send plain_write plain_def p30_command_def)
    have c3: "chip w3 = (p30_start bs 0 [] (cells (chip w)) ((chip w)\<lparr>mode := LockSetup\<rparr>))\<lparr>locked := (locked (chip w))(b div bs := False)\<rparr>"
      using c2 by (simp add: w3_def chip_send p30_write_def a)
    have f: "fault 0 c = 0" for c by (cases "plan c") (simp_all add: fault_def)
    have m3: "mode (chip w3) = ReadStatus" "errors (chip w3) = errors (chip w)" "cells (chip w3) = cells (chip w)" "plan (chip w3) = tl (plan (chip w))"
      "locked (chip w3) = (locked (chip w))(b div bs := False)"
      by (simp_all add: c3 p30_start_eq f)
    obtain w4 where s: "StatusLoop E I w3 = Some (Ok (dual8 (errors (chip w) OR 0x80), w4))" "chip w4 = (chip w3)\<lparr>mode := ReadStatus, busy := 0\<rparr>"
      using StatusLoop_result [of w3 I] m3 q by (auto simp: plain_def quiet_def)
    define w5 where "w5 = SEND_NOR_COMMAND E b 0 P30_CMD_READ_ARRAY w4"
    have c5: "chip w5 = (chip w4)\<lparr>mode := ReadArray\<rparr>" using s(2) by (simp add: w5_def chip_send plain_write plain_def p30_command_def)
    have "NorFlashUnlockSingleBlockIfNecessary E I b w = Some (Ok (EFI_SUCCESS, w5))"
      using l True s by (simp add: NorFlashUnlockSingleBlockIfNecessary_def NorFlashUnlockSingleBlock_def w2_def w3_def w5_def Let_def)
    then show ?thesis using c5 s(2) m3 q faultless_tl [of "chip w"] by (auto simp: quiet_def plain_def faultless_def)
  qed
qed

abbreviation erased :: "mem \<Rightarrow> nat \<Rightarrow> mem" where "erased m b \<equiv> set_mem m b bs 0xFF"

lemma EraseSingleBlock_result:
  assumes q: "quiet (chip w)" and b: "b mod bs = 0" "b + 8 < 2 ^ 64" and u: "\<not> locked (chip w) (b div bs)"
  shows "\<exists>s w'. NorFlashEraseSingleBlock E I b w = Some (Ok (s, w')) \<and> outcome s (chip w) (erased (cells (chip w)) b) (chip w') \<and> locked (chip w') = locked (chip w)"
proof -
  define w1 where "w1 = SEND_NOR_COMMAND E b 0 P30_CMD_BLOCK_ERASE_SETUP w"
  define w2 where "w2 = SEND_NOR_COMMAND E b 0 P30_CMD_BLOCK_ERASE_CONFIRM w1"
  have a: "CREATE_NOR_ADDRESS b 0 = b" using b(2) by (simp add: CREATE_NOR_ADDRESS_def w64_def)
  have bb: "b div bs * bs = b" using b(1) by auto
  have c1: "chip w1 = (chip w)\<lparr>mode := EraseSetup\<rparr>" using q by (simp add: w1_def chip_send quiet_def plain_write p30_command_def)
  have c2: "chip w2 = p30_start bs 0x2A [b] (erased (cells (chip w)) b) ((chip w)\<lparr>mode := EraseSetup\<rparr>)"
    using c1 by (simp add: w2_def chip_send p30_write_def a bb)
  define e where "e = fault 0x2A (chip w)"
  have ee: "fault 0x2A ((chip w)\<lparr>mode := EraseSetup\<rparr>) = e" by (simp add: e_def fault_def)
  have es: "e AND 0x2A = e" unfolding e_def by (rule fault_sub)
  have "(e AND 0x2A) AND 0x80 = 0" by (simp add: and.assoc)
  then have e80: "e AND 0x80 = 0" unfolding es .
  have m2: "errors (chip w2) = errors (chip w) OR e" "cells (chip w2) = (if e = 0 then erased (cells (chip w)) b else cells (chip w))"
    "plan (chip w2) = tl (plan (chip w))" "locked (chip w2) = locked (chip w)"
    using u by (simp_all add: c2 p30_start_eq Let_def ee)
  have n80: "errors (chip w2) AND 0x80 = 0" using q e80 by (simp add: m2 quiet_def bit.conj_disj_distrib2)
  obtain w3 where l: "StatusLoop E I w2 = Some (Ok (dual8 ((errors (chip w) OR e) OR 0x80), w3))" "chip w3 = (chip w2)\<lparr>busy := 0\<rparr>" "mode (chip w2) = ReadStatus"
    using start_StatusLoop [OF c2 n80, of I] m2(1) by auto
  define s where "s = EraseStatus (dual8 ((errors (chip w) OR e) OR 0x80))"
  define w4 where "w4 = (if EFI_ERROR s then SEND_NOR_COMMAND E (DeviceBaseAddress I) 0 P30_CMD_CLEAR_STATUS_REGISTER w3 else w3)"
  define w5 where "w5 = SEND_NOR_COMMAND E (DeviceBaseAddress I) 0 P30_CMD_READ_ARRAY w4"
  have run: "NorFlashEraseSingleBlock E I b w = Some (Ok (s, w5))"
    using l by (simp add: NorFlashEraseSingleBlock_def w1_def w2_def w4_def w5_def s_def Let_def)
  have c4: "chip w4 = (chip w3)\<lparr>errors := (if EFI_ERROR s then 0 else errors (chip w3))\<rparr>"
    using l(2,3) by (auto simp: w4_def chip_send plain_write plain_def p30_command_def)
  have c5: "chip w5 = (chip w2)\<lparr>busy := 0, errors := (if EFI_ERROR s then 0 else errors (chip w2)), mode := ReadArray\<rparr>"
    using l(2,3) by (simp add: w5_def chip_send c4 plain_write plain_def p30_command_def)
  have s: "s = EFI_SUCCESS \<longleftrightarrow> (errors (chip w) OR e) AND 0x2A = 0" "EFI_ERROR s \<longleftrightarrow> s \<noteq> EFI_SUCCESS"
    unfolding s_def by (rule EraseStatus_dual)+
  have "s = EFI_SUCCESS \<longrightarrow> e = 0" using s(1) es by (auto simp: bit.conj_disj_distrib2 or_eq_0_iff)
  moreover have "faultless (chip w) \<longrightarrow> e = 0 \<and> s = EFI_SUCCESS" using s(1) faultless_fault [of "chip w"] by (auto simp: e_def faultless_def)
  moreover have "quiet (chip w5)" using n80 by (simp add: c5 quiet_def plain_def)
  moreover have "cells (chip w5) = (if e = 0 then erased (cells (chip w)) b else cells (chip w))" by (simp add: c5 m2)
  moreover have "faultless (chip w) \<longrightarrow> e = 0 \<longrightarrow> faultless (chip w5)" using faultless_tl [of "chip w"] by (auto simp: c5 m2 faultless_def)
  ultimately have "outcome s (chip w) (erased (cells (chip w)) b) (chip w5)" using s(2) unfolding outcome_def by presburger
  then show ?thesis using run m2(4) c5 by auto
qed

lemma erased_erased: "erased (erased m b) b = erased m b"
  by (rule ext) (simp add: set_mem_def store_bytes_at)

lemma UnlockErase_result:
  assumes b: "b mod bs = 0" "8 < bs" "b + 8 < 2 ^ 64"
  shows "quiet (chip w) \<Longrightarrow> \<exists>s w'. UnlockEraseLoop E I b n w = Some (Ok (s, w')) \<and> outcome s (chip w) (erased (cells (chip w)) b) (chip w') \<and>
    locked (chip w') = (locked (chip w))(b div bs := False)"
proof (induction "NOR_FLASH_ERASE_RETRY - n" arbitrary: n w rule: less_induct)
  case less
  obtain w1 where u: "NorFlashUnlockSingleBlockIfNecessary E I b w = Some (Ok (EFI_SUCCESS, w1))" "quiet (chip w1)" "cells (chip w1) = cells (chip w)"
    "locked (chip w1) = (locked (chip w))(b div bs := False)" "faultless (chip w) \<longrightarrow> faultless (chip w1)"
    using UnlockIfNecessary_result [OF less.prems b] by blast
  have nl: "\<not> locked (chip w1) (b div bs)" by (simp add: u(4))
  obtain s w2 where e: "NorFlashEraseSingleBlock E I b w1 = Some (Ok (s, w2))" "outcome s (chip w1) (erased (cells (chip w1)) b) (chip w2)"
    "locked (chip w2) = locked (chip w1)"
    using EraseSingleBlock_result [OF u(2) b(1,3) nl] by blast
  have o: "outcome s (chip w) (erased (cells (chip w)) b) (chip w2)" using e(2) u(3,5) by (auto simp: outcome_def)
  have run: "UnlockEraseLoop E I b n w = (if n + 1 < NOR_FLASH_ERASE_RETRY \<and> s = EFI_WRITE_PROTECTED then UnlockEraseLoop E I b (n + 1) w2 else Some (Ok (s, w2)))"
    using u(1) e(1) by (subst UnlockEraseLoop.simps) simp
  show ?case
  proof (cases "n + 1 < NOR_FLASH_ERASE_RETRY \<and> s = EFI_WRITE_PROTECTED")
    case True
    have q2: "quiet (chip w2)" using o by (simp add: outcome_def)
    have m: "NOR_FLASH_ERASE_RETRY - (n + 1) < NOR_FLASH_ERASE_RETRY - n" using True by linarith
    obtain s' w' where r: "UnlockEraseLoop E I b (n + 1) w2 = Some (Ok (s', w'))" "outcome s' (chip w2) (erased (cells (chip w2)) b) (chip w')"
      "locked (chip w') = (locked (chip w2))(b div bs := False)" using less.hyps [OF m q2] by blast
    have "erased (cells (chip w2)) b = erased (cells (chip w)) b" using o erased_erased by (auto simp: outcome_def)
    then have "outcome s' (chip w) (erased (cells (chip w)) b) (chip w')" using r(2) o True by (auto simp: outcome_def)
    then show ?thesis using run True r(1,3) e(3) u(4) by auto
  next
    case False
    then show ?thesis using run o e(3) u(4) by auto
  qed
qed

text \<open>Programming, from the state in which the operation was started.\<close>

lemma FinishProgram_result:
  assumes c: "chip w = p30_start bs 0x1A as m c0" and q: "errors c0 AND 0x80 = 0" and u: "\<forall>a\<in>set as. \<not> locked c0 (a div bs)"
  shows "\<exists>s w'. FinishProgram E I w = Some (Ok (s, w')) \<and> outcome s c0 m (chip w') \<and> locked (chip w') = locked c0"
proof -
  define e where "e = fault 0x1A c0"
  have es: "e AND 0x1A = e" unfolding e_def by (rule fault_sub)
  have "(e AND 0x1A) AND 0x80 = 0" by (simp add: and.assoc)
  then have e80: "e AND 0x80 = 0" unfolding es .
  have m2: "errors (chip w) = errors c0 OR e" "cells (chip w) = (if e = 0 then m else cells c0)" "plan (chip w) = tl (plan c0)" "locked (chip w) = locked c0"
    using u by (auto simp: c p30_start_eq Let_def e_def)
  have n80: "errors (chip w) AND 0x80 = 0" using q e80 by (simp add: m2 bit.conj_disj_distrib2)
  obtain w3 where l: "StatusLoop E I w = Some (Ok (dual8 ((errors c0 OR e) OR 0x80), w3))" "chip w3 = (chip w)\<lparr>busy := 0\<rparr>" "mode (chip w) = ReadStatus"
    using start_StatusLoop [OF c n80, of I] m2(1) by auto
  define s where "s = ProgramStatus (dual8 ((errors c0 OR e) OR 0x80))"
  define w4 where "w4 = (if \<not> EFI_ERROR s then SEND_NOR_COMMAND E (DeviceBaseAddress I) 0 P30_CMD_CLEAR_STATUS_REGISTER w3 else w3)"
  have run: "FinishProgram E I w = Some (Ok (s, w4))" using l by (simp add: FinishProgram_def w4_def s_def)
  have c4: "chip w4 = (chip w)\<lparr>busy := 0, errors := (if EFI_ERROR s then errors (chip w) else 0)\<rparr>"
    using l(2,3) by (auto simp: w4_def chip_send plain_write plain_def p30_command_def)
  have s: "s = EFI_SUCCESS \<longleftrightarrow> (errors c0 OR e) AND 0x1A = 0" "s = EFI_SUCCESS \<or> s = EFI_DEVICE_ERROR" by (simp_all add: s_def ProgramStatus_dual)
  have "s = EFI_SUCCESS \<longrightarrow> e = 0" using s(1) es by (auto simp: bit.conj_disj_distrib2 or_eq_0_iff)
  moreover have "faultless c0 \<longrightarrow> e = 0 \<and> s = EFI_SUCCESS" using s(1) faultless_fault [of c0] by (auto simp: e_def faultless_def)
  ultimately have "outcome s c0 m (chip w4)"
    using m2 n80 s(2) l(3) faultless_tl [of c0] by (auto simp: outcome_def c4 quiet_def plain_def faultless_def)
  then show ?thesis using run m2(4) c4 by auto
qed

lemma LoadBuffer_result:
  assumes "mode (chip w) = BufferLoad (length is + k) ws" and "\<forall>i\<in>set is. T + 4 * i < 2 ^ 64"
  shows "chip (LoadBufferLoop E T buf is w) = (chip w)\<lparr>mode := BufferLoad k (ws @ map (\<lambda>i. (T + 4 * i, word_at buf i)) is)\<rparr>"
  using assms
proof (induction "is" arbitrary: w ws)
  case (Cons i "is")
  have "chip (MmioWrite32 E (w64 (T + 4 * i)) (word_at buf i) w) = (chip w)\<lparr>mode := BufferLoad (length is + k) (ws @ [(T + 4 * i, word_at buf i)])\<rparr>"
    using Cons.prems by (simp add: nor_deviceD(1) [OF device] p30_write_def w64_def)
  then show ?case using Cons.IH [of "MmioWrite32 E (w64 (T + 4 * i)) (word_at buf i) w" "ws @ [(T + 4 * i, word_at buf i)]"] Cons.prems(2) by simp
qed simp

lemma WaitForBuffer_result:
  assumes q: "quiet (chip w)" and T: "T < 2 ^ 64" and n: "1 < n"
  shows "\<exists>w1. WaitForBufferLoop E T n w = (n - 1, w1) \<and> chip w1 = (chip w)\<lparr>mode := BufferReady\<rparr>"
proof -
  define w0 where "w0 = SEND_NOR_COMMAND E T 0 P30_CMD_BUFFERED_PROGRAM_SETUP w"
  have c0: "chip w0 = (chip w)\<lparr>mode := BufferReady\<rparr>" using q by (simp add: w0_def chip_send quiet_def plain_write p30_command_def)
  obtain v w1 where r: "MmioRead32 E T w0 = (v, w1)" by (cases "MmioRead32 E T w0")
  have "v = dual8 (errors (chip w) OR 0x80)" "chip w1 = (chip w)\<lparr>mode := BufferReady\<rparr>"
    using nor_deviceD(2) [OF device r] q by (simp_all add: c0 p30_read_def quiet_def)
  then show ?thesis using r by (subst WaitForBufferLoop.simps) (simp add: w0_def dual8_tests status_ready)
qed

lemma WriteBuffer_result:
  assumes q: "quiet (chip w)" and T: "T mod 128 = 0" "T + 128 \<le> 2 ^ 64" and n: "0 < n" "n \<le> 128" "n mod 4 = 0" "n \<le> length buf"
    and u: "\<forall>a. T \<le> a \<longrightarrow> a < T + n \<longrightarrow> \<not> locked (chip w) (a div bs)"
  shows "\<exists>s w'. NorFlashWriteBuffer E I T n buf w = Some (Ok (s, w')) \<and> outcome s (chip w) (clear_bits (cells (chip w)) T (take n buf)) (chip w') \<and>
    locked (chip w') = locked (chip w)"
proof -
  have T': "T < 2 ^ 64" "CREATE_NOR_ADDRESS T 0 = T" using T(2) by (simp_all add: CREATE_NOR_ADDRESS_def w64_def)
  obtain w1 where l: "WaitForBufferLoop E T MAX_BUFFERED_PROG_ITERATIONS w = (9999999, w1)" "chip w1 = (chip w)\<lparr>mode := BufferReady\<rparr>"
    using WaitForBuffer_result [OF q T'(1), of MAX_BUFFERED_PROG_ITERATIONS] by (auto simp: MAX_BUFFERED_PROG_ITERATIONS_def)
  define k where "k = n div 4"
  have k: "4 * k = n" "0 < k" "k \<le> 32" using n by (auto simp: k_def)
  define w2 where "w2 = SEND_NOR_COMMAND E T 0 (of_nat (k - 1)) w1"
  have c2: "chip w2 = (chip w)\<lparr>mode := BufferLoad k []\<rparr>"
    using k(2,3) dual_count [of "k - 1"] by (simp add: w2_def chip_send l(2) p30_write_def del: of_nat_diff)
  define w3 where "w3 = LoadBufferLoop E T buf [0..<k] w2"
  define ws where "ws = map (\<lambda>i. (T + 4 * i, word_at buf i)) [0..<k]"
  have c3: "chip w3 = (chip w)\<lparr>mode := BufferLoad 0 ws\<rparr>"
    using LoadBuffer_result [of w2 "[0..<k]" 0 "[]" T buf] c2 T(2) k by (auto simp: w3_def ws_def)
  define w4 where "w4 = SEND_NOR_COMMAND E (DeviceBaseAddress I) 0 P30_CMD_BUFFERED_PROGRAM_CONFIRM w3"
  have pw: "program_words ws (cells (chip w)) = clear_bits (cells (chip w)) T (take n buf)"
    using program_buffer [of k buf T] n(4) k(1) by (simp add: ws_def)
  have c4: "chip w4 = p30_start bs 0x1A (map fst ws) (clear_bits (cells (chip w)) T (take n buf)) ((chip w)\<lparr>mode := BufferLoad 0 ws\<rparr>)"
    by (simp add: w4_def chip_send c3 p30_write_def pw)
  have u': "\<forall>a\<in>set (map fst ws). \<not> locked ((chip w)\<lparr>mode := BufferLoad 0 ws\<rparr>) (a div bs)" using u k by (auto simp: ws_def)
  have e: "errors ((chip w)\<lparr>mode := BufferLoad 0 ws\<rparr>) AND 0x80 = 0" using q by (simp add: quiet_def)
  obtain s w' where f: "FinishProgram E I w4 = Some (Ok (s, w'))" "outcome s ((chip w)\<lparr>mode := BufferLoad 0 ws\<rparr>) (clear_bits (cells (chip w)) T (take n buf)) (chip w')"
    "locked (chip w') = locked (chip w)" using FinishProgram_result [OF c4 e u', of I] by auto
  have "NorFlashWriteBuffer E I T n buf w = Some (Ok (s, w'))"
    using f(1) l(1) T(1) n by (simp add: NorFlashWriteBuffer_def BOUNDARY_OF_32_WORDS_def nat_AND_127 P30_MAX_BUFFER_SIZE_IN_BYTES_def Let_def k_def [symmetric] w2_def w3_def w4_def)
  moreover have "outcome s (chip w) (clear_bits (cells (chip w)) T (take n buf)) (chip w')" using f(2) by (simp add: outcome_def faultless_def)
  ultimately show ?thesis using f(3) by blast
qed

end

end
