(* ===== verification/NorFlashFvb.thy ===== *)
theory NorFlashFvb
  imports NorFlash
begin

text \<open>
  Model of \<open>VirtNorFlashFvb.c\<close>, the firmware volume block protocol, and of the set-up in
  \<open>VirtNorFlashStandaloneMm.c\<close>.  The configuration values, the GUIDs, the checksum functions of \<open>BaseLib\<close>, the
  pool and the protocol database are arguments.
\<close>

section \<open>Configuration and services\<close>

record nor_pcd =
  VariableBase64 :: nat
  VariableBase32 :: nat
  VariableSize :: nat
  FtwWorkingBase64 :: nat
  FtwWorkingBase32 :: nat
  FtwWorkingSize :: nat
  FtwSpareBase64 :: nat
  FtwSpareBase32 :: nat
  FtwSpareSize :: nat

record 'w nor_services =
  flash :: "'w nor_env"
  pcd :: nor_pcd
  gEfiSystemNvDataFvGuid :: "u8 list"
  gEfiVariableGuid :: "u8 list"
  gEfiAuthenticatedVariableGuid :: "u8 list"
  CalculateSum16 :: "u8 list \<Rightarrow> u16 checked"
  CalculateCheckSum16 :: "u8 list \<Rightarrow> u16"
  AllocatePool :: "nat \<Rightarrow> 'w \<Rightarrow> (nat \<times> u8 list) option \<times> 'w"
  FreePool :: "nat \<Rightarrow> 'w \<Rightarrow> 'w"
  MmInstallProtocolInterface :: "nat \<Rightarrow> 'w \<Rightarrow> EFI_STATUS \<times> 'w"

text \<open>Layouts and constants of the Platform Initialization specification.\<close>

definition EFI_FVH_SIGNATURE :: nat where "EFI_FVH_SIGNATURE = 0x4856465F"
definition EFI_FVH_REVISION :: u8 where "EFI_FVH_REVISION = 2"
definition VARIABLE_STORE_FORMATTED :: u8 where "VARIABLE_STORE_FORMATTED = 0x5A"
definition VARIABLE_STORE_HEALTHY :: u8 where "VARIABLE_STORE_HEALTHY = 0xFE"
definition sizeof_FV_HEADER :: nat where "sizeof_FV_HEADER = 64"
definition sizeof_BLOCK_MAP_ENTRY :: nat where "sizeof_BLOCK_MAP_ENTRY = 8"
definition sizeof_VARIABLE_STORE_HEADER :: nat where "sizeof_VARIABLE_STORE_HEADER = 28"

text \<open>\<open>READ_ENABLED_CAP, READ_STATUS, STICKY_WRITE, MEMORY_MAPPED, ERASE_POLARITY, WRITE_STATUS, WRITE_ENABLED_CAP\<close>.\<close>

definition FlashFvbAttributes :: nat where
  "FlashFvbAttributes = 0x2 + 0x4 + 0x200 + 0x400 + 0x800 + 0x20 + 0x10"

definition field :: "u8 list \<Rightarrow> nat \<Rightarrow> nat \<Rightarrow> nat" where
  "field h off n = le_val (take n (drop off h))"

section \<open>Headers\<close>

definition NvBase :: "nat \<Rightarrow> nat \<Rightarrow> nat" where
  "NvBase b64 b32 = (if b64 \<noteq> 0 then b64 else b32)"

text \<open>The checks on the configuration, in the order of the code.\<close>

definition NvLayoutOk :: "nor_pcd \<Rightarrow> nat \<Rightarrow> bool" where
  "NvLayoutOk P bsize =
    (let Variable = NvBase (VariableBase64 P) (VariableBase32 P); Working = NvBase (FtwWorkingBase64 P) (FtwWorkingBase32 P);
         Spare = NvBase (FtwSpareBase64 P) (FtwSpareBase32 P)
     in \<not> (w64 (Variable + VariableSize P) \<noteq> Working \<or> w64 (Working + FtwWorkingSize P) \<noteq> Spare \<or>
        VariableSize P \<le> 0 \<or> VariableSize P div bsize \<le> 0 \<or> FtwWorkingSize P \<le> 0 \<or> FtwWorkingSize P div bsize \<le> 0 \<or>
        FtwSpareSize P \<le> 0 \<or> FtwSpareSize P div bsize \<le> 0 \<or>
        Variable mod bsize \<noteq> 0 \<or> Working mod bsize \<noteq> 0 \<or> Spare mod bsize \<noteq> 0))"

definition FvTotalLength :: "nor_pcd \<Rightarrow> nat" where
  "FvTotalLength P = (VariableSize P + FtwWorkingSize P + FtwSpareSize P) mod 2 ^ 32"

definition FvHeaderBytes :: "'w nor_services \<Rightarrow> NOR_FLASH_INSTANCE \<Rightarrow> u16 \<Rightarrow> u8 list" where
  "FvHeaderBytes S I Checksum =
    replicate 16 0 @ gEfiSystemNvDataFvGuid S @ le_bytes 8 (FvTotalLength (pcd S)) @ le_bytes 4 EFI_FVH_SIGNATURE @ le_bytes 4 FlashFvbAttributes @
    le_bytes 2 (sizeof_FV_HEADER + sizeof_BLOCK_MAP_ENTRY) @ le_bytes 2 (unat Checksum) @ [0, 0, 0] @ [EFI_FVH_REVISION] @
    le_bytes 4 (LastBlock I + 1) @ le_bytes 4 (BlockSize I) @ le_bytes 4 0 @ le_bytes 4 0"

definition VariableStoreHeaderBytes :: "'w nor_services \<Rightarrow> u8 list" where
  "VariableStoreHeaderBytes S =
    gEfiAuthenticatedVariableGuid S @ le_bytes 4 (VariableSize (pcd S) + 2 ^ 32 - (sizeof_FV_HEADER + sizeof_BLOCK_MAP_ENTRY)) @
    [VARIABLE_STORE_FORMATTED, VARIABLE_STORE_HEALTHY, 0, 0] @ le_bytes 4 0"

section \<open>Protocol members\<close>

definition FvbGetAttributes :: "EFI_STATUS \<times> nat" where
  "FvbGetAttributes = (EFI_SUCCESS, FlashFvbAttributes)"

definition FvbSetAttributes :: "nat \<Rightarrow> EFI_STATUS" where
  "FvbSetAttributes Attributes = EFI_UNSUPPORTED"

definition FvbGetPhysicalAddress :: "nat \<Rightarrow> EFI_STATUS \<times> nat" where
  "FvbGetPhysicalAddress mFlashNvStorageVariableBase = (EFI_SUCCESS, mFlashNvStorageVariableBase)"

definition FvbGetBlockSize :: "NOR_FLASH_INSTANCE \<Rightarrow> nat \<Rightarrow> EFI_STATUS + nat \<times> nat" where
  "FvbGetBlockSize I Lba =
    (if Lba > LastBlock I then Inl EFI_INVALID_PARAMETER else Inr (BlockSize I, w64 (LastBlock I - Lba + 1)))"

definition FvbRead :: "'w nor_env \<Rightarrow> NOR_FLASH_INSTANCE \<Rightarrow> nat \<Rightarrow> nat \<Rightarrow> nat \<Rightarrow> 'w \<Rightarrow> EFI_STATUS \<times> u8 list \<times> 'w" where
  "FvbRead E I Lba Off NumBytes w =
    (if Off \<ge> BlockSize I \<or> NumBytes > BlockSize I \<or> w64 (Off + NumBytes) > BlockSize I then (EFI_BAD_BUFFER_SIZE, [], w)
     else if NumBytes = 0 then (EFI_BAD_BUFFER_SIZE, [], w)
     else case (if NumBytes mod BlockSize I \<noteq> 0 then NorFlashRead E I (w64 (StartLba I + Lba)) Off NumBytes w
                else NorFlashReadBlocks E I (w64 (StartLba I + Lba)) (BlockSize I) w) of (Status, bs, w1) \<Rightarrow>
       if EFI_ERROR Status then (EFI_DEVICE_ERROR, bs, w1) else (EFI_SUCCESS, bs, w1))"

definition FvbWrite :: "'w nor_env \<Rightarrow> NOR_FLASH_INSTANCE \<Rightarrow> nat \<Rightarrow> nat \<Rightarrow> u8 list \<Rightarrow> 'w \<Rightarrow> (EFI_STATUS \<times> NOR_FLASH_INSTANCE \<times> 'w) run" where
  "FvbWrite E I Lba Off Buffer w = NorFlashWriteSingleBlock E I (w64 (StartLba I + Lba)) Off Buffer w"

text \<open>The argument list up to the terminator; no entry before it starts with the terminator.\<close>

definition EraseRangeBad :: "NOR_FLASH_INSTANCE \<Rightarrow> nat \<times> nat \<Rightarrow> bool" where
  "EraseRangeBad I r = (case r of (StartingLba, NumOfLba) \<Rightarrow>
     NumOfLba = 0 \<or> w64 (StartLba I + StartingLba + NumOfLba - 1) > LastBlock I)"

fun EraseRangeLoop :: "'w nor_env \<Rightarrow> NOR_FLASH_INSTANCE \<Rightarrow> nat \<Rightarrow> nat \<Rightarrow> 'w \<Rightarrow> (EFI_STATUS \<times> 'w) run" where
  "EraseRangeLoop E I StartingLba 0 w = Some (Ok (EFI_SUCCESS, w))"
| "EraseRangeLoop E I StartingLba (Suc n) w =
    run_bind (NorFlashUnlockAndEraseSingleBlock E I (GET_NOR_BLOCK_ADDRESS (RegionBaseAddress I) (w64 (StartLba I + StartingLba)) (BlockSize I)) w) (\<lambda>(Status, w1).
      if EFI_ERROR Status then Some (Ok (EFI_DEVICE_ERROR, w1)) else EraseRangeLoop E I (w64 (StartingLba + 1)) n w1)"

fun EraseAllLoop :: "'w nor_env \<Rightarrow> NOR_FLASH_INSTANCE \<Rightarrow> (nat \<times> nat) list \<Rightarrow> 'w \<Rightarrow> (EFI_STATUS \<times> 'w) run" where
  "EraseAllLoop E I [] w = Some (Ok (EFI_SUCCESS, w))"
| "EraseAllLoop E I ((StartingLba, NumOfLba) # rs) w =
    run_bind (EraseRangeLoop E I StartingLba NumOfLba w) (\<lambda>(Status, w1). if EFI_ERROR Status then Some (Ok (Status, w1)) else EraseAllLoop E I rs w1)"

definition FvbEraseBlocks :: "'w nor_env \<Rightarrow> NOR_FLASH_INSTANCE \<Rightarrow> (nat \<times> nat) list \<Rightarrow> 'w \<Rightarrow> (EFI_STATUS \<times> 'w) run" where
  "FvbEraseBlocks E I rs w =
    (if \<exists>r\<in>set rs. EraseRangeBad I r then Some (Ok (EFI_INVALID_PARAMETER, w)) else EraseAllLoop E I rs w)"

section \<open>Set-up\<close>

text \<open>The zeroed pool block for the headers is read back only through \<open>FvbWrite\<close>; it is not given back when the
  configuration is refused, and a failed allocation is written through.\<close>

definition InitializeFvAndVariableStoreHeaders ::
  "'w nor_services \<Rightarrow> NOR_FLASH_INSTANCE \<Rightarrow> 'w \<Rightarrow> (EFI_STATUS \<times> NOR_FLASH_INSTANCE \<times> 'w) run" where
  "InitializeFvAndVariableStoreHeaders S I w =
    (case AllocatePool S (sizeof_FV_HEADER + sizeof_BLOCK_MAP_ENTRY + sizeof_VARIABLE_STORE_HEADER) w of (h, w1) \<Rightarrow>
     if \<not> NvLayoutOk (pcd S) (BlockSize I) then Some (Ok (EFI_INVALID_PARAMETER, I, w1))
     else case h of None \<Rightarrow> Some OutOfBounds
     | Some (p, _) \<Rightarrow>
         run_bind (FvbWrite (flash S) I 0 0 (FvHeaderBytes S I (CalculateCheckSum16 S (FvHeaderBytes S I 0)) @ VariableStoreHeaderBytes S) w1) (\<lambda>(Status, I1, w2).
           Some (Ok (Status, I1, FreePool S p w2))))"

definition ValidateFvHeader :: "'w nor_services \<Rightarrow> NOR_FLASH_INSTANCE \<Rightarrow> 'w \<Rightarrow> (EFI_STATUS \<times> 'w) checked" where
  "ValidateFvHeader S I w =
    (case FlashLoad (flash S) (RegionBaseAddress I) sizeof_FV_HEADER w of (h, w1) \<Rightarrow>
     let HeaderLength = field h 48 2
     in if h ! 55 \<noteq> EFI_FVH_REVISION \<or> field h 40 4 \<noteq> EFI_FVH_SIGNATURE \<or> field h 32 8 \<noteq> FvTotalLength (pcd S) then Ok (EFI_NOT_FOUND, w1)
        else if take 16 (drop 16 h) \<noteq> gEfiSystemNvDataFvGuid S then Ok (EFI_NOT_FOUND, w1)
        else case FlashLoad (flash S) (RegionBaseAddress I) HeaderLength w1 of (all, w2) \<Rightarrow>
          chk_bind (CalculateSum16 S all) (\<lambda>Checksum.
            if Checksum \<noteq> 0 then Ok (EFI_NOT_FOUND, w2)
            else case FlashLoad (flash S) (w64 (RegionBaseAddress I + HeaderLength)) sizeof_VARIABLE_STORE_HEADER w2 of (v, w3) \<Rightarrow>
              if take 16 v \<noteq> gEfiVariableGuid S \<and> take 16 v \<noteq> gEfiAuthenticatedVariableGuid S then Ok (EFI_NOT_FOUND, w3)
              else if field v 16 4 \<noteq> (VariableSize (pcd S) + 2 ^ 32 - HeaderLength) mod 2 ^ 32 then Ok (EFI_NOT_FOUND, w3)
              else Ok (EFI_SUCCESS, w3)))"

text \<open>The status, the instance, the new value of \<open>mFlashNvStorageVariableBase\<close>.\<close>

definition NorFlashFvbInitialize :: "'w nor_services \<Rightarrow> NOR_FLASH_INSTANCE \<Rightarrow> 'w \<Rightarrow> (EFI_STATUS \<times> NOR_FLASH_INSTANCE \<times> nat \<times> 'w) run" where
  "NorFlashFvbInitialize S I w =
    (let base = NvBase (VariableBase64 (pcd S)) (VariableBase32 (pcd S));
         I1 = I\<lparr>StartLba := w64 (base + 2 ^ 64 - RegionBaseAddress I) div BlockSize I\<rparr>
     in run_bind (Some (ValidateFvHeader S I1 w)) (\<lambda>(Status, w1).
       if \<not> EFI_ERROR Status then Some (Ok (Status, I1, base, w1))
       else run_bind (FvbEraseBlocks (flash S) I1 [(0, FvTotalLength (pcd S) div BlockSize I1)] w1) (\<lambda>(Status, w2).
         if EFI_ERROR Status then Some (Ok (Status, I1, base, w2))
         else run_bind (InitializeFvAndVariableStoreHeaders S I1 w2) (\<lambda>(Status, I2, w3). Some (Ok (Status, I2, base, w3))))))"

record VIRT_NOR_FLASH_DESCRIPTION =
  d_DeviceBaseAddress :: nat
  d_RegionBaseAddress :: nat
  d_Size :: nat
  d_BlockSize :: nat

text \<open>The new instance, the value of \<open>mFlashNvStorageVariableBase\<close> where it was set, and the world.  The instance is a
  pool block of its own; the status of \<open>NorFlashFvbInitialize\<close> is dropped.\<close>

definition NorFlashCreateInstance ::
  "'w nor_services \<Rightarrow> nat \<Rightarrow> VIRT_NOR_FLASH_DESCRIPTION \<Rightarrow> bool \<Rightarrow> 'w \<Rightarrow> ((EFI_STATUS + nat \<times> NOR_FLASH_INSTANCE) \<times> nat option \<times> 'w) run" where
  "NorFlashCreateInstance S sizeof_INSTANCE d SupportFvb w =
    (case AllocatePool S sizeof_INSTANCE w of
       (None, w1) \<Rightarrow> Some (Ok (Inl EFI_OUT_OF_RESOURCES, None, w1))
     | (Some (p, _), w1) \<Rightarrow>
         (case AllocatePool S (d_BlockSize d) w1 of
            (None, w2) \<Rightarrow> Some (Ok (Inl EFI_OUT_OF_RESOURCES, None, w2))
          | (Some (q, sh), w2) \<Rightarrow>
              let I = \<lparr>DeviceBaseAddress = d_DeviceBaseAddress d, RegionBaseAddress = d_RegionBaseAddress d, FlashSize = d_Size d, StartLba = 0,
                       LastBlock = w64 (d_Size d div d_BlockSize d + 2 ^ 64 - 1), BlockSize = d_BlockSize d, ShadowBuffer = Some sh\<rparr>
              in if SupportFvb then
                   run_bind (NorFlashFvbInitialize S I w2) (\<lambda>(_, I1, base, w3).
                     case MmInstallProtocolInterface S p w3 of (Status, w4) \<Rightarrow>
                       if EFI_ERROR Status then Some (Ok (Inl Status, Some base, FreePool S p w4)) else Some (Ok (Inr (p, I1), Some base, w4)))
                 else Some (Ok (Inl EFI_UNSUPPORTED, None, FreePool S p w2))))"

definition ContainVariableStorage :: "nor_pcd \<Rightarrow> VIRT_NOR_FLASH_DESCRIPTION \<Rightarrow> bool" where
  "ContainVariableStorage P d =
    (if VariableBase64 P \<noteq> 0
     then d_RegionBaseAddress d \<le> VariableBase64 P \<and> w64 (VariableBase64 P + VariableSize P) \<le> w64 (d_RegionBaseAddress d + d_Size d)
     else d_RegionBaseAddress d \<le> VariableBase32 P \<and> (VariableBase32 P + VariableSize P) mod 2 ^ 32 \<le> w64 (d_RegionBaseAddress d + d_Size d))"

fun CreateLoop :: "'w nor_services \<Rightarrow> nat \<Rightarrow> VIRT_NOR_FLASH_DESCRIPTION list \<Rightarrow> EFI_STATUS \<Rightarrow> 'w \<Rightarrow> (EFI_STATUS \<times> (nat \<times> NOR_FLASH_INSTANCE) option list \<times> 'w) run" where
  "CreateLoop S n [] Status w = Some (Ok (Status, [], w))"
| "CreateLoop S n (d # ds) Status w =
    run_bind (NorFlashCreateInstance S n d (ContainVariableStorage (pcd S) d) w) (\<lambda>(r, _, w1).
      run_bind (CreateLoop S n ds (case r of Inl s \<Rightarrow> s | Inr _ \<Rightarrow> EFI_SUCCESS) w1) (\<lambda>(s, is, w2).
        Some (Ok (s, (case r of Inl _ \<Rightarrow> None | Inr i \<Rightarrow> Some i) # is, w2))))"

text \<open>The status is that of the last device.\<close>

definition NorFlashInitialise ::
  "'w nor_services \<Rightarrow> nat \<Rightarrow> ('w \<Rightarrow> EFI_STATUS \<times> 'w) \<Rightarrow> ('w \<Rightarrow> (EFI_STATUS + VIRT_NOR_FLASH_DESCRIPTION list) \<times> 'w) \<Rightarrow> 'w
    \<Rightarrow> (EFI_STATUS \<times> (nat \<times> NOR_FLASH_INSTANCE) option list \<times> 'w) run" where
  "NorFlashInitialise S n VirtNorFlashPlatformInitialization VirtNorFlashPlatformGetDevices w =
    (case VirtNorFlashPlatformInitialization w of (Status, w1) \<Rightarrow>
     if EFI_ERROR Status then Some (Ok (Status, [], w1))
     else case VirtNorFlashPlatformGetDevices w1 of
       (Inl s, w2) \<Rightarrow> Some (Ok (s, [], w2))
     | (Inr ds, w2) \<Rightarrow>
         (case AllocatePool S (8 * length ds) w2 of
            (None, w3) \<Rightarrow> Some AssertFailed
          | (Some _, w3) \<Rightarrow> CreateLoop S n ds EFI_SUCCESS w3))"

end
