(* ===== verification/NorFlashWrite.thy ===== *)
theory NorFlashWrite
  imports NorFlashChip NorFlashFvb
begin

text \<open>
  The NOR flash driver over the chip: writing through the block protocol changes exactly the bytes asked
  for, erasing sets exactly the blocks asked for, and the case in which a write reaches beyond them.
\<close>

section \<open>Effects\<close>

text \<open>\<open>A\<close> are the addresses an operation may change.\<close>

definition effect :: "nat set \<Rightarrow> EFI_STATUS \<Rightarrow> p30 \<Rightarrow> mem \<Rightarrow> p30 \<Rightarrow> bool" where
  "effect A s c m c' \<longleftrightarrow> quiet c' \<and> (s = EFI_SUCCESS \<or> EFI_ERROR s) \<and> (\<forall>x. x \<notin> A \<longrightarrow> cells c' x = cells c x) \<and> (s = EFI_SUCCESS \<longrightarrow> cells c' = m) \<and>
    (faultless c \<longrightarrow> s = EFI_SUCCESS \<and> faultless c')"

lemma outcome_effect: "outcome s c m c' \<Longrightarrow> (\<And>x. x \<notin> A \<Longrightarrow> m x = cells c x) \<Longrightarrow> effect A s c m c'"
  by (auto simp: outcome_def effect_def)

lemma effect_trans:
  assumes "effect A EFI_SUCCESS c m c1" and "effect A s c1 m' c2"
  shows "effect A s c m' c2"
  using assms by (auto simp: effect_def)

lemma effect_fail: "effect A s c m c' \<Longrightarrow> EFI_ERROR s \<Longrightarrow> effect A s c m' c'"
  by (auto simp: effect_def)

lemma effect_mono: "effect A s c m c' \<Longrightarrow> A \<subseteq> B \<Longrightarrow> effect B s c m c'"
  by (auto simp: effect_def)

lemma effectD:
  assumes "effect A s c m c'"
  shows "quiet c'" "s = EFI_SUCCESS \<or> EFI_ERROR s" "s = EFI_SUCCESS \<Longrightarrow> cells c' = m"
  using assms by (auto simp: effect_def)

lemma faultless_mode: "faultless (c\<lparr>mode := m\<rparr>) \<longleftrightarrow> faultless c"
  by (simp add: faultless_def)

section \<open>Bytes\<close>

lemma le_bytes4: "le_bytes 4 v = [of_nat v, of_nat (v div 256), of_nat (v div 256 div 256), of_nat (v div 256 div 256 div 256)]"
proof -
  have "(4 :: nat) = Suc (Suc (Suc (Suc 0)))" by simp
  then show ?thesis by (simp only: le_bytes.simps)
qed

lemma ones_bytes: "NOT (v :: u32) = 0 \<Longrightarrow> i < 4 \<Longrightarrow> le_bytes 4 (unat v) ! i = 0xFF"
proof -
  assume v: "NOT v = 0" and i: "i < 4"
  have "NOT (NOT v) = NOT 0" by (simp only: v)
  then have "v = 0xFFFFFFFF" by simp
  then have u: "unat v = 4294967295" by simp
  have "i = 0 \<or> i = 1 \<or> i = 2 \<or> i = 3" using i by linarith
  then show ?thesis unfolding u le_bytes4 by auto
qed

lemma AND_FF: "(x :: u8) AND 0xFF = x" "0xFF AND (x :: u8) = x"
proof -
  have m: "(0xFF :: u8) = -1" by simp
  show "x AND 0xFF = x" "0xFF AND x = x" unfolding m by (simp_all only: and.right_neutral and.left_neutral)
qed

lemma ones_nth:
  assumes "\<forall>i<32. NOT (word_at d i) = 0" and "128 \<le> length d" and "j < 128"
  shows "d ! j = 0xFF"
proof -
  have k: "j div 4 < 32" using assms(3) by (simp add: less_mult_imp_div_less)
  have "le_bytes 4 (unat (word_at d (j div 4))) = take 4 (drop (4 * (j div 4)) d)" by (rule le_bytes_word_at) (use assms(2) k in linarith)
  moreover have "NOT (word_at d (j div 4)) = 0" using assms(1) k by blast
  ultimately have "take 4 (drop (4 * (j div 4)) d) ! (j mod 4) = 0xFF" using ones_bytes [of "word_at d (j div 4)" "j mod 4"] by simp
  then show ?thesis using assms(2,3) by (simp add: nth_drop)
qed

lemma clear_ones: "(\<forall>j<length b. b ! j = 0xFF) \<Longrightarrow> clear_bits m a b = m"
  by (rule ext) (auto simp: clear_bits_at AND_FF)

lemma clear_bits_nth: "j < length b \<Longrightarrow> clear_bits m a b (a + j) = m (a + j) AND b ! j"
  by (simp add: clear_bits_at)

lemma clear_erased: "length d = n \<Longrightarrow> clear_bits (set_mem m a n 0xFF) a d = store_bytes m a d"
  by (rule ext) (auto simp: clear_bits_at set_mem_def store_bytes_at AND_FF)

lemma store_inside: "Off + length b \<le> n \<Longrightarrow> store_bytes m a (overlay Off b (load_bytes m a n)) = store_bytes m (a + Off) b"
proof (rule ext)
  fix x assume l: "Off + length b \<le> n"
  show "store_bytes m a (overlay Off b (load_bytes m a n)) x = store_bytes m (a + Off) b x"
  proof (cases "a \<le> x")
    case True
    then obtain i where "x = a + i" using le_Suc_ex by blast
    then show ?thesis using l by (auto simp: store_bytes_at overlay_def nth_append nth_load_bytes)
  qed (simp add: store_bytes_at)
qed

section \<open>Geometry\<close>

text \<open>Blocks of a power-of-two-like size: a multiple of the program buffer, at least 512 bytes; the region starts on a
  block, does not wrap, and the instance counts its blocks.\<close>

definition nor_geometry :: "NOR_FLASH_INSTANCE \<Rightarrow> nat \<Rightarrow> bool" where
  "nor_geometry I bs \<longleftrightarrow> BlockSize I = bs \<and> 512 \<le> bs \<and> 128 dvd bs \<and> bs < 2 ^ 32 \<and> bs dvd RegionBaseAddress I \<and>
    FlashSize I = (LastBlock I + 1) * bs \<and> RegionBaseAddress I + FlashSize I + 512 < 2 ^ 64"

abbreviation block_at :: "NOR_FLASH_INSTANCE \<Rightarrow> nat \<Rightarrow> nat" where
  "block_at I L \<equiv> RegionBaseAddress I + L * BlockSize I"

lemma geometryD:
  assumes g: "nor_geometry I bs"
  shows "BlockSize I = bs" "512 \<le> bs" "128 dvd bs" "bs < 2 ^ 32" "bs dvd RegionBaseAddress I" "FlashSize I = (LastBlock I + 1) * bs"
    "RegionBaseAddress I + FlashSize I + 512 < 2 ^ 64"
  using assms by (simp_all add: nor_geometry_def)

lemma block_end: "nor_geometry I bs \<Longrightarrow> L \<le> LastBlock I \<Longrightarrow> block_at I L + bs + 8 < 2 ^ 64"
proof -
  assume g: "nor_geometry I bs" and L: "L \<le> LastBlock I"
  have "L * bs \<le> LastBlock I * bs" using L by simp
  moreover have "RegionBaseAddress I + (LastBlock I * bs + bs) + 512 < 2 ^ 64" using geometryD(6,7) [OF g] by simp
  ultimately show ?thesis unfolding geometryD(1) [OF g] by linarith
qed

lemma block_address:
  assumes g: "nor_geometry I bs" and L: "L \<le> LastBlock I"
  shows "GET_NOR_BLOCK_ADDRESS (RegionBaseAddress I) L bs = block_at I L" "block_at I L mod bs = 0" "block_at I L mod 128 = 0"
proof -
  have e: "block_at I L + bs + 8 < 2 ^ 64" by (rule block_end [OF g L])
  have b: "BlockSize I = bs" using geometryD(1) [OF g] .
  have "L * bs < 2 ^ 64" using e unfolding b by linarith
  then show "GET_NOR_BLOCK_ADDRESS (RegionBaseAddress I) L bs = block_at I L" using e b by (simp add: GET_NOR_BLOCK_ADDRESS_def w64_def)
  show "block_at I L mod bs = 0" using geometryD(5) [OF g] b by (simp add: mod_eq_0_iff_dvd)
  show "block_at I L mod 128 = 0" using geometryD(3,5) [OF g] b by (metis dvd_add dvd_mult dvd_trans mod_eq_0_iff_dvd)
qed

lemma block_words: "128 dvd (bs :: nat) \<Longrightarrow> bs div 4 * 4 = bs" "128 dvd bs \<Longrightarrow> bs div 4 mod 32 = 0" "128 dvd bs \<Longrightarrow> 128 * (bs div 128) = bs"
  by (auto elim!: dvdE)

lemma in_block: "0 < bs \<Longrightarrow> b mod bs = 0 \<Longrightarrow> b \<le> x \<Longrightarrow> x < b + bs \<Longrightarrow> x div bs = b div (bs :: nat)"
proof -
  assume a: "0 < bs" "b mod bs = 0" "b \<le> x" "x < b + bs"
  obtain k where "b = bs * k" using a(2) by (auto simp: mod_eq_0_iff_dvd elim: dvdE)
  moreover obtain i where "x = b + i" using a(3) le_Suc_ex by blast
  ultimately show ?thesis using a by simp
qed

lemma nor_last_block: "nor_geometry I bs \<Longrightarrow> LastBlock I + 1 < 2 ^ 64"
proof -
  assume g: "nor_geometry I bs"
  have "LastBlock I + 1 \<le> (LastBlock I + 1) * bs" using geometryD(2) [OF g] by (cases bs) simp_all
  then have "LastBlock I + 1 \<le> FlashSize I" by (simp only: geometryD(6) [OF g])
  then show ?thesis using geometryD(7) [OF g] by linarith
qed

text \<open>The comparison loop.\<close>

lemma CompareLoop_result:
  "k + length b \<le> length sh \<Longrightarrow> CompareLoop sh k b = (ok, sh') \<Longrightarrow>
    length sh' = length sh \<and> (ok \<longleftrightarrow> (\<forall>i<length b. NOT (sh ! (k + i)) AND b ! i = 0)) \<and> (ok \<longrightarrow> sh' = overlay k b sh)"
proof (induction b arbitrary: sh k)
  case Nil
  then show ?case by (simp add: overlay_def)
next
  case (Cons x b)
  show ?case
  proof (cases "NOT (sh ! k) AND x = 0")
    case False
    then show ?thesis using Cons.prems by (auto intro!: exI [of _ 0])
  next
    case True
    have r: "CompareLoop (sh[k := x]) (Suc k) b = (ok, sh')" "Suc k + length b \<le> length (sh[k := x])" using Cons.prems True by auto
    note IH = Cons.IH [OF r(2,1)]
    have "(\<forall>i<length b. NOT (sh[k := x] ! (Suc k + i)) AND b ! i = 0) \<longleftrightarrow> (\<forall>i<length (x # b). NOT (sh ! (k + i)) AND (x # b) ! i = 0)"
      using True by (auto simp: less_Suc_eq_0_disj)
    moreover have "overlay (Suc k) b (sh[k := x]) = overlay k (x # b) sh"
      using Cons.prems(1) by (simp add: overlay_def take_Suc_conv_app_nth)
    ultimately show ?thesis using IH by auto
  qed
qed

lemma length_overlay: "k + length b \<le> length xs \<Longrightarrow> length (overlay k b xs) = length xs"
  by (simp add: overlay_def)

lemma nth_overlay: "k + length b \<le> length xs \<Longrightarrow> i < length xs \<Longrightarrow> overlay k b xs ! i = (if k \<le> i \<and> i < k + length b then b ! (i - k) else xs ! i)"
  by (auto simp: overlay_def nth_append)

lemma AND_of_clear: "NOT (x :: u8) AND b = 0 \<Longrightarrow> x AND b = b"
proof -
  assume z: "NOT x AND b = 0"
  have "b = (x OR NOT x) AND b" by simp
  also have "\<dots> = x AND b" using z by (simp only: bit.conj_disj_distrib2) simp
  finally show ?thesis by simp
qed

text \<open>Programming the updated copy of the old contents.\<close>

lemma clear_updated:
  assumes span: "k + length b \<le> span" "span \<le> R" "R \<le> length sh" and ok: "\<forall>i<length b. NOT (m (T + k + i)) AND b ! i = 0"
  shows "clear_bits m T (take span (overlay k b (overlay 0 (load_bytes m T R) sh))) = store_bytes m (T + k) b"
proof (rule ext)
  fix x
  let ?o = "overlay k b (overlay 0 (load_bytes m T R) sh)"
  have l: "length ?o = length sh" using span by (simp add: length_overlay)
  show "clear_bits m T (take span ?o) x = store_bytes m (T + k) b x"
  proof (cases "T \<le> x \<and> x < T + span")
    case False
    then show ?thesis using span l by (auto simp: clear_bits_at store_bytes_at)
  next
    case True
    then obtain i where i: "x = T + i" "i < span" using le_Suc_ex by (metis nat_add_left_cancel_less)
    have n: "?o ! i = (if k \<le> i \<and> i < k + length b then b ! (i - k) else m (T + i))"
      using span i(2) by (simp add: nth_overlay length_overlay nth_load_bytes)
    have "k \<le> i \<Longrightarrow> i < k + length b \<Longrightarrow> m (T + i) AND b ! (i - k) = b ! (i - k)"
      using ok [rule_format, of "i - k"] by (intro AND_of_clear) simp
    then show ?thesis using i n l span by (auto simp: clear_bits_at store_bytes_at)
  qed
qed

lemma nat_OR_127: "((n :: nat) OR 127) + 1 = n div 128 * 128 + 128"
proof -
  have d: "n div 128 * 128 = push_bit 7 (drop_bit 7 n)" by (simp add: push_bit_eq_mult drop_bit_eq_div)
  have m: "(127 :: nat) = mask 7" by (simp add: mask_eq_exp_minus_1)
  have z: "push_bit 7 (drop_bit 7 n) AND mask 7 = 0" by (auto simp: bit_eq_iff bit_simps)
  have "n OR mask 7 = push_bit 7 (drop_bit 7 n) OR mask 7" by (auto simp: bit_eq_iff bit_simps)
  also have "\<dots> = push_bit 7 (drop_bit 7 n) + mask 7" using disjunctive_add_eq_or [OF z] by simp
  finally show ?thesis by (simp add: d m [symmetric])
qed

text \<open>The bytes that the short path reads before it writes.\<close>

abbreviation read_ahead :: "nat \<Rightarrow> nat" where "read_ahead n \<equiv> n div 128 * 128 + 128"

lemma room_span:
  assumes "128 dvd bs" "b \<noteq> []" "off + length b \<le> bs"
  shows "off - off mod 128 + 128 \<le> bs" "128 < off mod 128 + length b \<Longrightarrow> off - off mod 128 + 256 \<le> bs"
proof -
  obtain j where j: "bs = 128 * j" using assms(1) by (auto elim: dvdE)
  define i where "i = off div 128"
  have off: "off = 128 * i + off mod 128" by (simp add: i_def)
  have "0 < length b" using assms(2) by simp
  then have "128 * i < 128 * j" using assms(3) off j by linarith
  then show "off - off mod 128 + 128 \<le> bs" using off j by simp
  assume "128 < off mod 128 + length b"
  then have "128 * i + 128 < 128 * j" using assms(3) off j by linarith
  then have "i + 2 \<le> j" by simp
  moreover have "off - off mod 128 = 128 * i" using off by linarith
  ultimately show "off - off mod 128 + 256 \<le> bs" unfolding j by simp
qed

text \<open>The old contents as the short path sees them when it reads one program buffer only.\<close>

definition stale_byte :: "mem \<Rightarrow> nat \<Rightarrow> u8 list \<Rightarrow> nat \<Rightarrow> u8" where
  "stale_byte m T sh j = (if j < 128 then m (T + j) else sh ! j)"

lemma stale_first:
  assumes j: "j < 128" and k: "128 < k + length b" and x: "x = (if k \<le> j \<and> j < k + length b then b ! (j - k) else stale_byte m T sh j)"
    and ok: "\<forall>i<length b. NOT (stale_byte m T sh (k + i)) AND b ! i = 0"
  shows "m (T + j) AND x = store_bytes m (T + k) b (T + j)"
proof (cases "k \<le> j")
  case True
  have i: "j - k < length b" "k + (j - k) = j" using j k True by linarith+
  have "NOT (stale_byte m T sh (k + (j - k))) AND b ! (j - k) = 0" using ok i(1) by blast
  then show ?thesis using AND_of_clear x True i j by (simp add: store_bytes_at stale_byte_def)
next
  case False
  then show ?thesis using x j by (simp add: store_bytes_at stale_byte_def)
qed

section \<open>Whole blocks\<close>

context nor_chip
begin

lemma BuffersLoop_result:
  "quiet (chip w) \<Longrightarrow> a mod 128 = 0 \<Longrightarrow> a + 128 * n < 2 ^ 64 \<Longrightarrow> 128 * n \<le> length d \<Longrightarrow>
    \<forall>x. a \<le> x \<longrightarrow> x < a + 128 * n \<longrightarrow> \<not> locked (chip w) (x div bs) \<Longrightarrow>
    \<exists>s a' d' w'. BuffersLoop E I a d n w = Some (Ok (s, a', d', w')) \<and> effect {a..<a + 128 * n} s (chip w) (clear_bits (cells (chip w)) a (take (128 * n) d)) (chip w') \<and>
      locked (chip w') = locked (chip w) \<and> (s = EFI_SUCCESS \<longrightarrow> a' = a + 128 * n \<and> d' = drop (128 * n) d)"
proof (induction n arbitrary: w a d)
  case 0
  have "clear_bits (cells (chip w)) a [] = cells (chip w)" by (rule clear_ones) simp
  then show ?case using 0 by (auto simp: effect_def)
next
  case (Suc n)
  let ?m = "clear_bits (cells (chip w)) a (take 128 d)"
  have out: "?m x = cells (chip w) x" if "x \<notin> {a..<a + 128}" for x using that by (auto simp: clear_bits_at)
  obtain s1 w1 where r: "(if \<exists>i\<in>set [0..<P30_MAX_BUFFER_SIZE_IN_WORDS]. NOT (word_at d i) \<noteq> 0 then NorFlashWriteBuffer E I a P30_MAX_BUFFER_SIZE_IN_BYTES d w
      else Some (Ok (EFI_SUCCESS, w))) = Some (Ok (s1, w1))" and e: "effect {a..<a + 128} s1 (chip w) ?m (chip w1)" "locked (chip w1) = locked (chip w)"
  proof (cases "\<exists>i\<in>set [0..<P30_MAX_BUFFER_SIZE_IN_WORDS]. NOT (word_at d i) \<noteq> 0")
    case True
    obtain s1 w1 where o: "NorFlashWriteBuffer E I a 128 d w = Some (Ok (s1, w1))" "outcome s1 (chip w) ?m (chip w1)" "locked (chip w1) = locked (chip w)"
      using WriteBuffer_result [OF Suc.prems(1,2), of 128 d I] Suc.prems(3,4,5) by auto
    have "effect {a..<a + 128} s1 (chip w) ?m (chip w1)" by (rule outcome_effect [OF o(2) out])
    then show thesis using that [OF _ _ o(3)] True o(1) unfolding P30_MAX_BUFFER_SIZE_IN_BYTES_def by presburger
  next
    case False
    then have "\<forall>i<32. NOT (word_at d i) = 0" by (auto simp: P30_MAX_BUFFER_SIZE_IN_WORDS_def)
    then have "?m = cells (chip w)" using Suc.prems(4) by (intro clear_ones) (auto simp: ones_nth)
    then show thesis using that False Suc.prems(1) by (auto simp: effect_def)
  qed
  have run: "BuffersLoop E I a d (Suc n) w = (if EFI_ERROR s1 then Some (Ok (s1, a, d, w1)) else BuffersLoop E I (a + 128) (drop 128 d) n w1)"
    using r Suc.prems(3,4) by (simp add: P30_MAX_BUFFER_SIZE_IN_BYTES_def w64_def)
  have sub: "{a..<a + 128} \<subseteq> {a..<a + 128 * Suc n}" "{a + 128..<a + 128 + 128 * n} \<subseteq> {a..<a + 128 * Suc n}" by auto
  show ?case
  proof (cases "EFI_ERROR s1")
    case True
    then show ?thesis using run effect_fail [OF effect_mono [OF e(1) sub(1)] True] e(2) by auto
  next
    case False
    then have s1: "s1 = EFI_SUCCESS" using effectD(2) [OF e(1)] by auto
    have c1: "cells (chip w1) = ?m" "quiet (chip w1)" using effectD [OF e(1)] s1 by auto
    obtain s a' d' w' where i: "BuffersLoop E I (a + 128) (drop 128 d) n w1 = Some (Ok (s, a', d', w'))"
      "effect {a + 128..<a + 128 + 128 * n} s (chip w1) (clear_bits (cells (chip w1)) (a + 128) (take (128 * n) (drop 128 d))) (chip w')"
      "locked (chip w') = locked (chip w1)" "s = EFI_SUCCESS \<longrightarrow> a' = a + 128 + 128 * n \<and> d' = drop (128 * n) (drop 128 d)"
    proof -
      have l: "128 * n \<le> length (drop 128 d)" and m: "(a + 128) mod 128 = 0" and t: "a + 128 + 128 * n < 2 ^ 64"
        and u: "\<forall>x. a + 128 \<le> x \<longrightarrow> x < a + 128 + 128 * n \<longrightarrow> \<not> locked (chip w1) (x div bs)" using Suc.prems e(2) by auto
      show thesis using that Suc.IH [OF c1(2) m t l u] by blast
    qed
    have "clear_bits ?m (a + 128) (take (128 * n) (drop 128 d)) = clear_bits (cells (chip w)) a (take (128 * Suc n) d)"
      using clear_bits_append [of "cells (chip w)" a "take 128 d" "take (128 * n) (drop 128 d)"] Suc.prems(4) by (simp add: take_add)
    then have "effect {a..<a + 128 * Suc n} s (chip w) (clear_bits (cells (chip w)) a (take (128 * Suc n) d)) (chip w')"
      using effect_trans [OF effect_mono [OF e(1) [unfolded s1] sub(1)] effect_mono [OF i(2) sub(2)]] c1(1) by simp
    then show ?thesis using run False i e(2) by (auto simp: add.commute)
  qed
qed

lemma ProgramBlock_result:
  assumes g: "nor_geometry I bs" and L: "L \<le> LastBlock I" and q: "quiet (chip w)" and u: "\<not> locked (chip w) (block_at I L div bs)" and d: "bs \<le> length d"
  shows "\<exists>s w'. ProgramBlock E I (block_at I L) d (bs div 4) w = Some (Ok (s, w')) \<and>
    effect {block_at I L..<block_at I L + bs} s (chip w) (clear_bits (cells (chip w)) (block_at I L) (take bs d)) (chip w') \<and> locked (chip w') = locked (chip w)"
proof -
  let ?b = "block_at I L"
  note G = geometryD [OF g] and W = block_words [OF geometryD(3) [OF g]]
  have nl: "\<forall>x. ?b \<le> x \<longrightarrow> x < ?b + 128 * (bs div 128) \<longrightarrow> \<not> locked (chip w) (x div bs)"
  proof (intro allI impI)
    fix x assume "?b \<le> x" "x < ?b + 128 * (bs div 128)"
    then have "x div bs = ?b div bs" using G(2) unfolding W(3) by (intro in_block block_address(2) [OF g L]) simp_all
    then show "\<not> locked (chip w) (x div bs)" using u by simp
  qed
  have t: "?b + 128 * (bs div 128) < 2 ^ 64" and l: "128 * (bs div 128) \<le> length d" using block_end [OF g L] d unfolding W(3) by linarith+
  obtain s a' d' w' where r: "BuffersLoop E I ?b d (bs div 128) w = Some (Ok (s, a', d', w'))"
    "effect {?b..<?b + bs} s (chip w) (clear_bits (cells (chip w)) ?b (take bs d)) (chip w')" "locked (chip w') = locked (chip w)"
    using BuffersLoop_result [OF q block_address(3) [OF g L] t l nl] unfolding W(3) by blast
  have "bs div 4 * 4 mod 2 ^ 32 div P30_MAX_BUFFER_SIZE_IN_BYTES = bs div 128"
    unfolding W(1) using G(4) by (simp add: P30_MAX_BUFFER_SIZE_IN_BYTES_def)
  moreover have "?b AND BOUNDARY_OF_32_WORDS = 0" using block_address(3) [OF g L] by (simp add: BOUNDARY_OF_32_WORDS_def nat_AND_127)
  moreover have "bs div 4 mod P30_MAX_BUFFER_SIZE_IN_WORDS = 0" using W(2) by (simp add: P30_MAX_BUFFER_SIZE_IN_WORDS_def)
  ultimately have "ProgramBlock E I ?b d (bs div 4) w = Some (Ok (s, w'))"
    using r(1) effectD(2) [OF r(2)] unfolding ProgramBlock_def Let_def by auto
  then show ?thesis using r(2,3) by blast
qed

lemma send_array: "quiet (chip w) \<Longrightarrow> chip (SEND_NOR_COMMAND E b n P30_CMD_READ_ARRAY w) = (chip w)\<lparr>mode := ReadArray\<rparr>"
  by (simp add: chip_send quiet_def plain_write p30_command_def)

lemma quiet_array: "quiet (c\<lparr>mode := ReadArray\<rparr>) \<longleftrightarrow> busy c = 0 \<and> errors c AND 0x80 = 0"
  by (simp add: quiet_def plain_def)

lemma effect_array: "effect A s c m c' \<Longrightarrow> effect A s c m (c'\<lparr>mode := ReadArray\<rparr>)"
  by (auto simp: effect_def quiet_def plain_def faultless_mode)

lemma WriteFullBlock_result:
  assumes g: "nor_geometry I bs" and L: "L \<le> LastBlock I" and q: "quiet (chip w)" and d: "bs \<le> length d"
  shows "\<exists>s w'. NorFlashWriteFullBlock E I L d (bs div 4) w = Some (Ok (s, w')) \<and>
    effect {block_at I L..<block_at I L + bs} s (chip w) (store_bytes (cells (chip w)) (block_at I L) (take bs d)) (chip w') \<and> mode (chip w') = ReadArray"
proof -
  let ?b = "block_at I L" and ?A = "{block_at I L..<block_at I L + bs}"
  note G = geometryD [OF g] and W = block_words [OF geometryD(3) [OF g]] and B = block_address [OF g L]
  have wrap: "bs div 4 * 4 mod 4294967296 = bs" using W(1) G(4) by simp
  have e8: "8 < bs" "?b + 8 < 2 ^ 64" using G(2) block_end [OF g L] by auto
  obtain s1 w1 where e: "UnlockEraseLoop E I ?b 0 w = Some (Ok (s1, w1))" "outcome s1 (chip w) (erased (cells (chip w)) ?b) (chip w1)"
    "locked (chip w1) = (locked (chip w))(?b div bs := False)"
    using UnlockErase_result [OF B(2) e8 q] by blast
  have f: "effect ?A s1 (chip w) (erased (cells (chip w)) ?b) (chip w1)" by (rule outcome_effect [OF e(2)]) (auto simp: set_mem_def store_bytes_at)
  let ?fin = "SEND_NOR_COMMAND E (DeviceBaseAddress I) 0 P30_CMD_READ_ARRAY"
  show ?thesis
  proof (cases "EFI_ERROR s1")
    case True
    then have "NorFlashWriteFullBlock E I L d (bs div 4) w = Some (Ok (s1, ?fin w1))"
      using e(1) B(1) by (simp add: NorFlashWriteFullBlock_def NorFlashUnlockAndEraseSingleBlock_def wrap)
    then show ?thesis using effect_array [OF effect_fail [OF f True]] send_array [OF effectD(1) [OF f]] by auto
  next
    case False
    then have s1: "s1 = EFI_SUCCESS" using effectD(2) [OF f] by auto
    have nl: "\<not> locked (chip w1) (?b div bs)" by (simp add: e(3))
    obtain s w2 where p: "ProgramBlock E I ?b d (bs div 4) w1 = Some (Ok (s, w2))" "effect ?A s (chip w1) (clear_bits (cells (chip w1)) ?b (take bs d)) (chip w2)"
      using ProgramBlock_result [OF g L effectD(1) [OF f] nl d] by blast
    have "clear_bits (cells (chip w1)) ?b (take bs d) = store_bytes (cells (chip w)) ?b (take bs d)"
      using effectD(3) [OF f s1] d by (simp add: clear_erased)
    then have f2: "effect ?A s (chip w) (store_bytes (cells (chip w)) ?b (take bs d)) (chip w2)" using effect_trans [OF f [unfolded s1] p(2)] by simp
    have "NorFlashWriteFullBlock E I L d (bs div 4) w = Some (Ok (s, ?fin w2))"
      using e(1) B(1) p(1) False by (simp add: NorFlashWriteFullBlock_def NorFlashUnlockAndEraseSingleBlock_def wrap)
    then show ?thesis using effect_array [OF f2] send_array [OF effectD(1) [OF f2]] by auto
  qed
qed

lemma ReadBlocks_result:
  assumes g: "nor_geometry I bs" and L: "L \<le> LastBlock I" and q: "quiet (chip w)"
  shows "\<exists>w1. NorFlashReadBlocks E I L bs w = (EFI_SUCCESS, load_bytes (cells (chip w)) (block_at I L) bs, w1) \<and> chip w1 = (chip w)\<lparr>mode := ReadArray\<rparr>"
proof -
  note G = geometryD [OF g]
  define w0 where "w0 = SEND_NOR_COMMAND E (DeviceBaseAddress I) 0 P30_CMD_READ_ARRAY w"
  have c0: "chip w0 = (chip w)\<lparr>mode := ReadArray\<rparr>" unfolding w0_def by (rule send_array [OF q])
  obtain d w1 where f: "FlashLoad E (block_at I L) bs w0 = (d, w1)" by (cases "FlashLoad E (block_at I L) bs w0")
  have d: "d = load_bytes (cells (chip w)) (block_at I L) bs" "chip w1 = (chip w)\<lparr>mode := ReadArray\<rparr>" using nor_deviceD(3) [OF device f] c0 by auto
  have one: "bs mod 2 ^ 32 div bs = 1" using G(2,4) by simp
  have "w64 (L + 1) \<le> w64 (LastBlock I + 1)" using nor_last_block [OF g] L by (simp add: w64_def)
  then have "NorFlashReadBlocks E I L bs w = (EFI_SUCCESS, d, w1)"
    using f G(2) block_address(1) [OF g L] unfolding NorFlashReadBlocks_def G(1) one Let_def w0_def by (simp add: not_less)
  then show ?thesis using d by blast
qed

lemma WriteBlocks_result:
  assumes g: "nor_geometry I bs" and L: "L \<le> LastBlock I" and q: "quiet (chip w)" and d: "bs \<le> length d"
  shows "\<exists>s w'. NorFlashWriteBlocks E I L bs d w = Some (Ok (s, w')) \<and>
    effect {block_at I L..<block_at I L + bs} s (chip w) (store_bytes (cells (chip w)) (block_at I L) (take bs d)) (chip w') \<and> mode (chip w') = ReadArray"
proof -
  note G = geometryD [OF g]
  obtain s w' where r: "NorFlashWriteFullBlock E I L d (bs div 4) w = Some (Ok (s, w'))"
    "effect {block_at I L..<block_at I L + bs} s (chip w) (store_bytes (cells (chip w)) (block_at I L) (take bs d)) (chip w')" "mode (chip w') = ReadArray"
    using WriteFullBlock_result [OF g L q d] by blast
  have one: "bs mod 2 ^ 32 div bs = Suc 0" using G(2,4) by simp
  have "w64 (L + 1) \<le> w64 (LastBlock I + 1)" using nor_last_block [OF g] L by (simp add: w64_def)
  then have "NorFlashWriteBlocks E I L bs d w = Some (Ok (s, w'))"
    using r(1) G(2) effectD(2) [OF r(2)] unfolding NorFlashWriteBlocks_def G(1) one Let_def by (auto simp: not_less G(1))
  then show ?thesis using r by blast
qed

lemma RewriteBlock_result:
  assumes g: "nor_geometry I bs" and L: "L \<le> LastBlock I" and q: "quiet (chip w)" and sh: "length sh = bs" and b: "off + length b \<le> bs"
  shows "\<exists>s sh' w'. RewriteBlock E I L off b sh w = Some (Ok (s, I\<lparr>ShadowBuffer := Some sh'\<rparr>, w')) \<and> length sh' = bs \<and>
    effect {block_at I L..<block_at I L + bs} s (chip w) (store_bytes (cells (chip w)) (block_at I L + off) b) (chip w') \<and> mode (chip w') = ReadArray"
proof -
  note G = geometryD [OF g]
  obtain w1 where r: "NorFlashReadBlocks E I L bs w = (EFI_SUCCESS, load_bytes (cells (chip w)) (block_at I L) bs, w1)" "chip w1 = (chip w)\<lparr>mode := ReadArray\<rparr>"
    using ReadBlocks_result [OF g L q] by blast
  define sh1 where "sh1 = overlay off b (load_bytes (cells (chip w)) (block_at I L) bs)"
  have o: "overlay 0 (load_bytes (cells (chip w)) (block_at I L) bs) sh = load_bytes (cells (chip w)) (block_at I L) bs" using sh by (simp add: overlay_def)
  have l: "length sh1 = bs" using b by (simp add: sh1_def length_overlay)
  have q1: "quiet (chip w1)" using q r(2) by (simp add: quiet_def plain_def)
  obtain s w2 where p: "NorFlashWriteBlocks E I L bs sh1 w1 = Some (Ok (s, w2))"
    "effect {block_at I L..<block_at I L + bs} s (chip w1) (store_bytes (cells (chip w1)) (block_at I L) (take bs sh1)) (chip w2)" "mode (chip w2) = ReadArray"
    using WriteBlocks_result [OF g L q1, of sh1] l by auto
  have "store_bytes (cells (chip w1)) (block_at I L) (take bs sh1) = store_bytes (cells (chip w)) (block_at I L + off) b"
    using l store_inside [OF b, of "cells (chip w)" "block_at I L"] by (simp add: sh1_def r(2))
  then have e: "effect {block_at I L..<block_at I L + bs} s (chip w) (store_bytes (cells (chip w)) (block_at I L + off) b) (chip w2)"
    using p(2) r(2) by (simp add: effect_def faultless_mode)
  define s' where "s' = (if EFI_ERROR s then EFI_DEVICE_ERROR else EFI_SUCCESS)"
  have "effect {block_at I L..<block_at I L + bs} s' (chip w) (store_bytes (cells (chip w)) (block_at I L + off) b) (chip w2)"
    using e unfolding s'_def effect_def by auto
  moreover have "RewriteBlock E I L off b sh w = Some (Ok (s', I\<lparr>ShadowBuffer := Some sh1\<rparr>, w2))"
    using r(1) p(1) o sh by (simp add: RewriteBlock_def sh1_def s'_def G(1))
  ultimately show ?thesis using p(3) l by blast
qed

lemma ProgramShadow_result:
  assumes g: "nor_geometry I bs" and L: "L \<le> LastBlock I" and q: "quiet (chip w)"
    and span: "span = (if n + off mod 128 > 128 then 256 else 128)" "off - off mod 128 + span \<le> bs" "span \<le> length sh"
  shows "\<exists>s w'. ProgramShadow E I L off n sh w = Some (Ok (s, w')) \<and>
    effect {block_at I L..<block_at I L + bs} s (chip w) (clear_bits (cells (chip w)) (block_at I L + (off - off mod 128)) (take span sh)) (chip w')"
proof -
  let ?b = "block_at I L" and ?A = "{block_at I L..<block_at I L + bs}"
  define T where "T = ?b + (off - off mod 128)"
  note G = geometryD [OF g] and B = block_address [OF g L]
  have T: "T mod 128 = 0" "T + span \<le> ?b + bs" "?b \<le> T" "(T + 128) mod 128 = 0"
  proof -
    show "T mod 128 = 0" unfolding T_def using B(3) by (metis dvd_add minus_mod_eq_mult_div dvd_triv_left mod_eq_0_iff_dvd)
    then show "(T + 128) mod 128 = 0" by simp
    show "T + span \<le> ?b + bs" "?b \<le> T" using span(2) by (simp_all add: T_def)
  qed
  have e: "8 < bs" "?b + 8 < 2 ^ 64" "?b + bs + 8 < 2 ^ 64" using G(2) block_end [OF g L] by linarith+
  obtain w1 where u: "NorFlashUnlockSingleBlockIfNecessary E I ?b w = Some (Ok (EFI_SUCCESS, w1))" "quiet (chip w1)" "cells (chip w1) = cells (chip w)"
    "locked (chip w1) = (locked (chip w))(?b div bs := False)" "faultless (chip w) \<longrightarrow> faultless (chip w1)"
    using UnlockIfNecessary_result [OF q B(2) e(1,2)] by blast
  have nl: "\<not> locked (chip w1) (x div bs)" if "?b \<le> x" "x < ?b + bs" for x
    using in_block [OF _ B(2) that] G(2) by (simp add: u(4))
  have s128: "128 \<le> span" using span(1) by (simp split: if_splits)
  have "\<exists>s w'. NorFlashWriteBuffer E I T 128 sh w1 = Some (Ok (s, w')) \<and> outcome s (chip w1) (clear_bits (cells (chip w1)) T (take 128 sh)) (chip w') \<and> locked (chip w') = locked (chip w1)"
    by (rule WriteBuffer_result) (use u(2) T e(3) s128 span(3) nl in auto)
  then obtain s2 w2 where p: "NorFlashWriteBuffer E I T 128 sh w1 = Some (Ok (s2, w2))" "outcome s2 (chip w1) (clear_bits (cells (chip w1)) T (take 128 sh)) (chip w2)"
    "locked (chip w2) = locked (chip w1)" by blast
  have "effect ?A s2 (chip w1) (clear_bits (cells (chip w1)) T (take 128 sh)) (chip w2)"
    by (rule outcome_effect [OF p(2)]) (use T s128 in \<open>auto simp: clear_bits_at\<close>)
  then have f: "effect ?A s2 (chip w) (clear_bits (cells (chip w)) T (take 128 sh)) (chip w2)" using u(3,5) by (auto simp: effect_def)
  have a: "w64 (?b + (off - off mod 128)) = T" "w64 (?b + 128 + (off - off mod 128)) = T + 128"
    using T(2) e(3) s128 by (auto simp: T_def w64_def)
  have start: "off - (off AND BOUNDARY_OF_32_WORDS) = off - off mod 128" "off AND BOUNDARY_OF_32_WORDS = off mod 128"
    by (simp_all add: BOUNDARY_OF_32_WORDS_def nat_AND_127)
  have run: "ProgramShadow E I L off n sh w = (if EFI_ERROR s2 then Some (Ok (s2, w2))
      else if n + off mod 128 > 128 then NorFlashWriteBuffer E I (T + 128) 128 (drop 128 sh) w2 else Some (Ok (s2, w2)))"
    using u(1) p(1) a B(1) unfolding ProgramShadow_def start P30_MAX_BUFFER_SIZE_IN_BYTES_def Let_def by (simp add: G(1))
  show ?thesis
  proof (cases "EFI_ERROR s2 \<or> \<not> n + off mod 128 > 128")
    case True
    then show ?thesis using run f span(1) effect_fail [OF f] by (auto simp: T_def)
  next
    case False
    then have s2: "s2 = EFI_SUCCESS" and sp: "span = 256" using effectD(2) [OF f] span(1) by auto
    have c2: "cells (chip w2) = clear_bits (cells (chip w)) T (take 128 sh)" using effectD(3) [OF f s2] .
    have "\<exists>s w'. NorFlashWriteBuffer E I (T + 128) 128 (drop 128 sh) w2 = Some (Ok (s, w')) \<and>
        outcome s (chip w2) (clear_bits (cells (chip w2)) (T + 128) (take 128 (drop 128 sh))) (chip w') \<and> locked (chip w') = locked (chip w2)"
      by (rule WriteBuffer_result) (use effectD(1) [OF f] T e(3) sp span(3) nl p(3) in auto)
    then obtain s3 w3 where r: "NorFlashWriteBuffer E I (T + 128) 128 (drop 128 sh) w2 = Some (Ok (s3, w3))"
      "outcome s3 (chip w2) (clear_bits (cells (chip w2)) (T + 128) (take 128 (drop 128 sh))) (chip w3)" by blast
    have "effect ?A s3 (chip w2) (clear_bits (cells (chip w2)) (T + 128) (take 128 (drop 128 sh))) (chip w3)"
      by (rule outcome_effect [OF r(2)]) (use T sp in \<open>auto simp: clear_bits_at\<close>)
    then have "effect ?A s3 (chip w) (clear_bits (cells (chip w2)) (T + 128) (take 128 (drop 128 sh))) (chip w3)" using effect_trans [OF f [unfolded s2]] by blast
    moreover have "clear_bits (cells (chip w2)) (T + 128) (take 128 (drop 128 sh)) = clear_bits (cells (chip w)) T (take span sh)"
      using clear_bits_append [of "cells (chip w)" T "take 128 sh" "take 128 (drop 128 sh)"] span(3) sp take_add [of 128 128 sh] by (simp add: c2)
    ultimately show ?thesis using run False r(1) by (auto simp: T_def)
  qed
qed

lemma Read_result:
  assumes g: "nor_geometry I bs" and L: "L \<le> LastBlock I" and q: "quiet (chip w)" and R: "0 < R" "R \<le> 384 \<or> a + R \<le> bs" and a: "a < bs"
  shows "\<exists>w1. NorFlashRead E I L a R w = (if L * bs + a + R \<le> FlashSize I then (EFI_SUCCESS, load_bytes (cells (chip w)) (block_at I L + a) R, w1) else (EFI_INVALID_PARAMETER, [], w)) \<and>
    chip w1 = (chip w)\<lparr>mode := ReadArray\<rparr>"
proof -
  note G = geometryD [OF g]
  define w0 where "w0 = SEND_NOR_COMMAND E (DeviceBaseAddress I) 0 P30_CMD_READ_ARRAY w"
  have c0: "chip w0 = (chip w)\<lparr>mode := ReadArray\<rparr>" unfolding w0_def by (rule send_array [OF q])
  obtain d w1 where f: "FlashLoad E (block_at I L + a) R w0 = (d, w1)" by (cases "FlashLoad E (block_at I L + a) R w0")
  have d: "d = load_bytes (cells (chip w)) (block_at I L + a) R" "chip w1 = (chip w)\<lparr>mode := ReadArray\<rparr>" using nor_deviceD(3) [OF device f] c0 by auto
  have "L * bs \<le> LastBlock I * bs" using L by simp
  moreover have fs: "FlashSize I = LastBlock I * bs + bs" using G(6) by simp
  ultimately have n: "L * bs + a + R < 2 ^ 64" "block_at I L + a < 2 ^ 64" using G(7) a R(2) unfolding G(1) by (elim disjE; linarith)+
  have "w64 (L * BlockSize I + a + R) = L * bs + a + R" "w64 (block_at I L + a) = block_at I L + a" using n by (simp_all add: w64_def G(1))
  then have "NorFlashRead E I L a R w = (if L * bs + a + R \<le> FlashSize I then (EFI_SUCCESS, d, w1) else (EFI_INVALID_PARAMETER, [], w))"
    using f R(1) block_address(1) [OF g L] unfolding NorFlashRead_def G(1) by (simp add: G(1) w0_def [symmetric] not_less)
  then show ?thesis using d by blast
qed

text \<open>The short path up to the comparison.\<close>

lemma short_path:
  assumes g: "nor_geometry I bs" and L: "L \<le> LastBlock I" and q: "quiet (chip w)" and sh: "ShadowBuffer I = Some sh" "length sh = bs"
    and b: "b \<noteq> []" "off + length b \<le> bs" "length b + off mod 128 \<le> 256"
    and room: "L * bs + (off - off mod 128) + read_ahead (length b) \<le> FlashSize I"
  obtains w1 ok sh1 where "chip w1 = (chip w)\<lparr>mode := ReadArray\<rparr>"
    "CompareLoop (overlay 0 (load_bytes (cells (chip w)) (block_at I L + (off - off mod 128)) (read_ahead (length b))) sh) (off mod 128) b = (ok, sh1)"
    "NorFlashWriteSingleBlock E I L off b w = (if \<not> ok then RewriteBlock E I L off b sh1 w1
       else run_bind (ProgramShadow E I L off (length b) sh1 w1) (\<lambda>(Status, w2).
         Some (Ok (Status, I\<lparr>ShadowBuffer := Some sh1\<rparr>, SEND_NOR_COMMAND E (DeviceBaseAddress I) 0 P30_CMD_READ_ARRAY w2))))"
proof -
  note G = geometryD [OF g]
  let ?d = "load_bytes (cells (chip w)) (block_at I L + (off - off mod 128)) (read_ahead (length b))"
  have "length b \<le> 256" using b(3) by simp
  then have R: "0 < read_ahead (length b)" "read_ahead (length b) \<le> 384"
    using div_le_mono [of "length b" 256 128] by simp_all
  have a: "off < bs" "off - off mod 128 < bs" using b(1,2) by (auto simp: Suc_le_eq length_greater_0_conv [symmetric] simp del: length_greater_0_conv)
  obtain w1 where r: "NorFlashRead E I L (off - off mod 128) (read_ahead (length b)) w = (EFI_SUCCESS, ?d, w1)" "chip w1 = (chip w)\<lparr>mode := ReadArray\<rparr>"
    using Read_result [OF g L q R(1) disjI1 [OF R(2)] a(2)] room by auto
  obtain ok sh1 where c: "CompareLoop (overlay 0 ?d sh) (off mod 128) b = (ok, sh1)" by (cases "CompareLoop (overlay 0 ?d sh) (off mod 128) b")
  have bound: "BOUNDARY_OF_32_WORDS = 127" by (simp add: BOUNDARY_OF_32_WORDS_def)
  have nw: "w64 (off + length b) = off + length b" using b(2) G(4) by (simp add: w64_def)
  have fits: "\<not> (length sh < length ?d \<or> length sh < off mod 128 + length b)" using R(2) G(2) sh(2) b(3) by simp
  have "NorFlashWriteSingleBlock E I L off b w = (if \<not> ok then RewriteBlock E I L off b sh1 w1
       else run_bind (ProgramShadow E I L off (length b) sh1 w1) (\<lambda>(Status, w2).
         Some (Ok (Status, I\<lparr>ShadowBuffer := Some sh1\<rparr>, SEND_NOR_COMMAND E (DeviceBaseAddress I) 0 P30_CMD_READ_ARRAY w2))))"
    using a(1) b sh(1) r(1) c fits unfolding NorFlashWriteSingleBlock_def Let_def bound nat_AND_127 nat_OR_127 nw P30_MAX_BUFFER_SIZE_IN_BYTES_def
    by (simp add: G(1))
  then show thesis using that r(2) c by blast
qed

lemma WriteSingleBlock_result:
  assumes g: "nor_geometry I bs" and L: "L \<le> LastBlock I" and q: "quiet (chip w)" and sh: "ShadowBuffer I = Some sh" "length sh = bs"
    and b: "b \<noteq> []" "off + length b \<le> bs" and safe: "off mod 128 + length b \<le> 128 \<or> 128 \<le> length b"
    and room: "256 < length b + off mod 128 \<or> L * bs + (off - off mod 128) + read_ahead (length b) \<le> FlashSize I"
  shows "\<exists>s sh' w'. NorFlashWriteSingleBlock E I L off b w = Some (Ok (s, I\<lparr>ShadowBuffer := Some sh'\<rparr>, w')) \<and> length sh' = bs \<and> mode (chip w') = ReadArray \<and>
    effect {block_at I L..<block_at I L + bs} s (chip w) (store_bytes (cells (chip w)) (block_at I L + off) b) (chip w')"
proof (cases "256 < length b + off mod 128")
  case True
  note G = geometryD [OF g]
  have "off < bs" using b by (cases b) simp_all
  then have "NorFlashWriteSingleBlock E I L off b w = RewriteBlock E I L off b sh w"
    using True b sh G(4) by (simp add: NorFlashWriteSingleBlock_def BOUNDARY_OF_32_WORDS_def nat_AND_127 P30_MAX_BUFFER_SIZE_IN_BYTES_def G(1) w64_def)
  then show ?thesis using RewriteBlock_result [OF g L q sh(2) b(2)] by auto
next
  case False
  then have short: "length b + off mod 128 \<le> 256" by simp
  have room': "L * bs + (off - off mod 128) + read_ahead (length b) \<le> FlashSize I" using room False by blast
  let ?T = "block_at I L + (off - off mod 128)" and ?k = "off mod 128"
  obtain w1 ok sh1 where p: "chip w1 = (chip w)\<lparr>mode := ReadArray\<rparr>"
    "CompareLoop (overlay 0 (load_bytes (cells (chip w)) ?T (read_ahead (length b))) sh) ?k b = (ok, sh1)"
    "NorFlashWriteSingleBlock E I L off b w = (if \<not> ok then RewriteBlock E I L off b sh1 w1
       else run_bind (ProgramShadow E I L off (length b) sh1 w1) (\<lambda>(Status, w2).
         Some (Ok (Status, I\<lparr>ShadowBuffer := Some sh1\<rparr>, SEND_NOR_COMMAND E (DeviceBaseAddress I) 0 P30_CMD_READ_ARRAY w2))))"
    using short_path [OF g L q sh b short room'] by blast
  have q1: "quiet (chip w1)" and same: "cells (chip w1) = cells (chip w)" "effect A s (chip w1) m c' \<longleftrightarrow> effect A s (chip w) m c'" for A s m c'
    using q by (simp_all add: p(1) quiet_def plain_def effect_def faultless_mode)
  have R: "read_ahead (length b) \<le> bs" "?k + length b \<le> read_ahead (length b)"
    using short geometryD(2) [OF g] safe div_le_mono [of "length b" 256 128] div_le_mono [of 128 "length b" 128] by auto
  have TK: "?T + ?k = block_at I L + off" by simp
  note c = CompareLoop_result [OF _ p(2)]
  have l1: "length sh1 = bs" and ok: "ok \<longleftrightarrow> (\<forall>i<length b. NOT (cells (chip w) (?T + ?k + i)) AND b ! i = 0)"
    and sh1: "ok \<longrightarrow> sh1 = overlay ?k b (overlay 0 (load_bytes (cells (chip w)) ?T (read_ahead (length b))) sh)"
    using c R sh(2) by (auto simp: length_overlay nth_overlay nth_load_bytes add.assoc)
  show ?thesis
  proof (cases ok)
    case False
    then show ?thesis using RewriteBlock_result [OF g L q1 l1 b(2)] p(3) unfolding same by auto
  next
    case True
    define span where "span = (if length b + ?k > 128 then 256 else (128 :: nat))"
    have sp: "span \<le> read_ahead (length b)" "?k + length b \<le> span" "off - ?k + span \<le> bs"
      unfolding span_def using short safe div_le_mono [of 128 "length b" 128] room_span [OF geometryD(3) [OF g] b(1,2)] by auto
    obtain s w2 where r: "ProgramShadow E I L off (length b) sh1 w1 = Some (Ok (s, w2))"
      "effect {block_at I L..<block_at I L + bs} s (chip w1) (clear_bits (cells (chip w1)) ?T (take span sh1)) (chip w2)"
      using ProgramShadow_result [OF g L q1 span_def sp(3), of sh1] sp(1) R(1) l1 by auto
    have "clear_bits (cells (chip w)) ?T (take span sh1) = store_bytes (cells (chip w)) (?T + ?k) b"
      unfolding sh1 [rule_format, OF True] by (rule clear_updated) (use sp R(1) sh(2) ok True in auto)
    then have e: "effect {block_at I L..<block_at I L + bs} s (chip w) (store_bytes (cells (chip w)) (block_at I L + off) b) (chip w2)"
      using r(2) unfolding same TK by simp
    show ?thesis using p(3) r(1) True effect_array [OF e] send_array [OF effectD(1) [OF e]] l1 by auto
  qed
qed

text \<open>A request whose read-ahead leaves the device is refused before anything is written.\<close>

lemma WriteSingleBlock_no_room:
  assumes g: "nor_geometry I bs" and L: "L \<le> LastBlock I" and q: "quiet (chip w)" and sh: "ShadowBuffer I = Some sh"
    and b: "b \<noteq> []" "off + length b \<le> bs" "length b + off mod 128 \<le> 256" and room: "FlashSize I < L * bs + (off - off mod 128) + read_ahead (length b)"
  shows "NorFlashWriteSingleBlock E I L off b w = Some (Ok (EFI_DEVICE_ERROR, I, w))"
proof -
  note G = geometryD [OF g]
  have "length b \<le> 256" using b(3) by simp
  then have R: "0 < read_ahead (length b)" "read_ahead (length b) \<le> 384" using div_le_mono [of "length b" 256 128] by simp_all
  have a: "off < bs" "off - off mod 128 < bs" using b(1,2) by (cases b; simp)+
  have r: "NorFlashRead E I L (off - off mod 128) (read_ahead (length b)) w = (EFI_INVALID_PARAMETER, [], w)"
    using Read_result [OF g L q R(1) disjI1 [OF R(2)] a(2)] room by auto
  have nw: "w64 (off + length b) = off + length b" using b(2) G(4) by (simp add: w64_def)
  have bound: "BOUNDARY_OF_32_WORDS = 127" by (simp add: BOUNDARY_OF_32_WORDS_def)
  show ?thesis using a(1) b sh r unfolding NorFlashWriteSingleBlock_def Let_def bound nat_AND_127 nat_OR_127 nw P30_MAX_BUFFER_SIZE_IN_BYTES_def
    by (simp add: G(1))
qed

text \<open>The short path where the write runs over the end of what was read: one program buffer is read, two are
  programmed, and the second comes from what the shadow buffer held before.\<close>

lemma crossing_path:
  assumes g: "nor_geometry I bs" and L: "L \<le> LastBlock I" and q: "quiet (chip w)" and sh: "ShadowBuffer I = Some sh" "length sh = bs"
    and b: "off + length b \<le> bs" "length b < 128" "128 < off mod 128 + length b"
  obtains w1 ok sh1 where "quiet (chip w1)" "chip w1 = (chip w)\<lparr>mode := ReadArray\<rparr>" "length sh1 = bs" "256 \<le> bs" "off mod 128 + length b \<le> 256"
    "NorFlashWriteSingleBlock E I L off b w = (if \<not> ok then RewriteBlock E I L off b sh1 w1
       else run_bind (ProgramShadow E I L off (length b) sh1 w1) (\<lambda>(Status, w2).
         Some (Ok (Status, I\<lparr>ShadowBuffer := Some sh1\<rparr>, SEND_NOR_COMMAND E (DeviceBaseAddress I) 0 P30_CMD_READ_ARRAY w2))))"
    "ok \<longleftrightarrow> (\<forall>i<length b. NOT (stale_byte (cells (chip w)) (block_at I L + (off - off mod 128)) sh (off mod 128 + i)) AND b ! i = 0)"
    "\<And>j. ok \<Longrightarrow> j < bs \<Longrightarrow> sh1 ! j = (if off mod 128 \<le> j \<and> j < off mod 128 + length b then b ! (j - off mod 128)
       else stale_byte (cells (chip w)) (block_at I L + (off - off mod 128)) sh j)"
    "\<exists>s w2. ProgramShadow E I L off (length b) sh1 w1 = Some (Ok (s, w2)) \<and>
       effect {block_at I L..<block_at I L + bs} s (chip w) (clear_bits (cells (chip w)) (block_at I L + (off - off mod 128)) (take 256 sh1)) (chip w2)"
proof -
  let ?T = "block_at I L + (off - off mod 128)" and ?k = "off mod 128"
  note G = geometryD [OF g]
  have ne: "b \<noteq> []" using b(2,3) mod_less_divisor [of 128 off] by (metis add.right_neutral list.size(3) not_less_iff_gr_or_eq zero_less_numeral less_trans)
  have ra: "read_ahead (length b) = 128" using b(2) by simp
  have sp: "off - ?k + 256 \<le> bs" using room_span(2) [OF G(3) ne b(1,3)] .
  have room: "L * bs + (off - ?k) + read_ahead (length b) \<le> FlashSize I"
  proof -
    have "L * bs \<le> LastBlock I * bs" using L by simp
    moreover have "FlashSize I = LastBlock I * bs + bs" using G(6) by simp
    ultimately show ?thesis unfolding ra using sp by linarith
  qed
  have short: "length b + ?k \<le> 256" using b(2) mod_less_divisor [of 128 off] by linarith
  obtain w1 ok sh1 where p: "chip w1 = (chip w)\<lparr>mode := ReadArray\<rparr>"
    "CompareLoop (overlay 0 (load_bytes (cells (chip w)) ?T (read_ahead (length b))) sh) ?k b = (ok, sh1)"
    "NorFlashWriteSingleBlock E I L off b w = (if \<not> ok then RewriteBlock E I L off b sh1 w1
       else run_bind (ProgramShadow E I L off (length b) sh1 w1) (\<lambda>(Status, w2).
         Some (Ok (Status, I\<lparr>ShadowBuffer := Some sh1\<rparr>, SEND_NOR_COMMAND E (DeviceBaseAddress I) 0 P30_CMD_READ_ARRAY w2))))"
    using short_path [OF g L q sh ne b(1) short room] by blast
  let ?o = "overlay 0 (load_bytes (cells (chip w)) ?T 128) sh"
  have l: "length ?o = bs" using G(2) sh(2) by (simp add: length_overlay)
  have on: "?o ! j = stale_byte (cells (chip w)) ?T sh j" if "j < bs" for j
    using that G(2) sh(2) by (simp add: nth_overlay nth_load_bytes stale_byte_def)
  have kb: "?k + length b \<le> length ?o" using short G(2) l by simp
  note c = CompareLoop_result [OF kb p(2) [unfolded ra]]
  have q1: "quiet (chip w1)" using q by (simp add: p(1) quiet_def plain_def)
  have spd: "(256 :: nat) = (if length b + ?k > 128 then 256 else 128)" using b(3) by simp
  have sl: "length sh1 = bs" "256 \<le> bs" using c l G(2) by simp_all
  have ok: "ok \<longleftrightarrow> (\<forall>i<length b. NOT (stale_byte (cells (chip w)) ?T sh (?k + i)) AND b ! i = 0)" using c on kb l by simp
  have sh1: "sh1 ! j = (if ?k \<le> j \<and> j < ?k + length b then b ! (j - ?k) else stale_byte (cells (chip w)) ?T sh j)" if ok "j < bs" for j
    using c that kb l on [OF that(2)] by (simp add: nth_overlay)
  have "\<exists>s w2. ProgramShadow E I L off (length b) sh1 w1 = Some (Ok (s, w2)) \<and>
      effect {block_at I L..<block_at I L + bs} s (chip w1) (clear_bits (cells (chip w1)) ?T (take 256 sh1)) (chip w2)"
    using ProgramShadow_result [OF g L q1 spd sp] sl by simp
  then have prog: "\<exists>s w2. ProgramShadow E I L off (length b) sh1 w1 = Some (Ok (s, w2)) \<and>
      effect {block_at I L..<block_at I L + bs} s (chip w) (clear_bits (cells (chip w)) ?T (take 256 sh1)) (chip w2)"
    by (simp add: p(1) effect_def faultless_mode)
  have short': "?k + length b \<le> 256" using short by simp
  show thesis by (rule that [OF q1 p(1) sl short' p(3) ok sh1 prog])
qed

text \<open>Whatever the shadow buffer held: nothing outside the block changes, and on success only the second of the two
  program buffers may differ from what was asked for.\<close>

lemma WriteSingleBlock_crossing:
  assumes g: "nor_geometry I bs" and L: "L \<le> LastBlock I" and q: "quiet (chip w)" and sh: "ShadowBuffer I = Some sh" "length sh = bs"
    and b: "off + length b \<le> bs" "length b < 128" "128 < off mod 128 + length b"
  shows "\<exists>s sh' w' m. NorFlashWriteSingleBlock E I L off b w = Some (Ok (s, I\<lparr>ShadowBuffer := Some sh'\<rparr>, w')) \<and> length sh' = bs \<and> mode (chip w') = ReadArray \<and>
    effect {block_at I L..<block_at I L + bs} s (chip w) m (chip w') \<and>
    (\<forall>j. j < 128 \<or> 256 \<le> j \<longrightarrow> m (block_at I L + (off - off mod 128) + j) = store_bytes (cells (chip w)) (block_at I L + off) b (block_at I L + (off - off mod 128) + j)) \<and>
    (\<forall>x < block_at I L + (off - off mod 128). m x = cells (chip w) x)"
proof -
  let ?T = "block_at I L + (off - off mod 128)" and ?k = "off mod 128" and ?m = "cells (chip w)"
  obtain w1 ok sh1 where p: "quiet (chip w1)" "chip w1 = (chip w)\<lparr>mode := ReadArray\<rparr>" "length sh1 = bs" "256 \<le> bs" "?k + length b \<le> 256"
    and run: "NorFlashWriteSingleBlock E I L off b w = (if \<not> ok then RewriteBlock E I L off b sh1 w1
       else run_bind (ProgramShadow E I L off (length b) sh1 w1) (\<lambda>(Status, w2).
         Some (Ok (Status, I\<lparr>ShadowBuffer := Some sh1\<rparr>, SEND_NOR_COMMAND E (DeviceBaseAddress I) 0 P30_CMD_READ_ARRAY w2))))"
    and ok: "ok \<longleftrightarrow> (\<forall>i<length b. NOT (stale_byte ?m ?T sh (?k + i)) AND b ! i = 0)"
    and sh1: "\<And>j. ok \<Longrightarrow> j < bs \<Longrightarrow> sh1 ! j = (if ?k \<le> j \<and> j < ?k + length b then b ! (j - ?k) else stale_byte ?m ?T sh j)"
    and prog: "\<exists>s w2. ProgramShadow E I L off (length b) sh1 w1 = Some (Ok (s, w2)) \<and>
       effect {block_at I L..<block_at I L + bs} s (chip w) (clear_bits ?m ?T (take 256 sh1)) (chip w2)"
    by (rule crossing_path [OF g L q sh b]) blast
  have TK: "block_at I L + off = ?T + ?k" by simp
  show ?thesis
  proof (cases ok)
    case False
    obtain s sh' w' where r: "RewriteBlock E I L off b sh1 w1 = Some (Ok (s, I\<lparr>ShadowBuffer := Some sh'\<rparr>, w'))" "length sh' = bs"
      "effect {block_at I L..<block_at I L + bs} s (chip w1) (store_bytes (cells (chip w1)) (block_at I L + off) b) (chip w')" "mode (chip w') = ReadArray"
      using RewriteBlock_result [OF g L p(1,3) b(1)] by blast
    have "effect {block_at I L..<block_at I L + bs} s (chip w) (store_bytes ?m (block_at I L + off) b) (chip w')"
      using r(3) by (simp add: p(2) effect_def faultless_mode)
    moreover have "store_bytes ?m (block_at I L + off) b x = ?m x" if "x < ?T" for x
    proof -
      have "x < block_at I L + off" using that by linarith
      then show ?thesis by (simp add: store_bytes_at)
    qed
    ultimately show ?thesis using run False r(1,2,4)
      by (intro exI [of _ s] exI [of _ sh'] exI [of _ w'] exI [of _ "store_bytes ?m (block_at I L + off) b"]) auto
  next
    case True
    obtain s w2 where r: "ProgramShadow E I L off (length b) sh1 w1 = Some (Ok (s, w2))"
      "effect {block_at I L..<block_at I L + bs} s (chip w) (clear_bits ?m ?T (take 256 sh1)) (chip w2)" using prog by blast
    have first: "?m (?T + j) AND sh1 ! j = store_bytes ?m (?T + ?k) b (?T + j)" if j: "j < 128" for j
      by (rule stale_first [OF j b(3) sh1 [OF True] ok [THEN iffD1, OF True]]) (use j p(4) in linarith)
    have "clear_bits ?m ?T (take 256 sh1) (?T + j) = store_bytes ?m (?T + ?k) b (?T + j)" if "j < 128 \<or> 256 \<le> j" for j
      using that first [of j] p(3-5) by (auto simp: clear_bits_at store_bytes_at)
    moreover have "\<forall>x < ?T. clear_bits ?m ?T (take 256 sh1) x = ?m x" by (simp add: clear_bits_at)
    ultimately show ?thesis unfolding TK using run True r(1) effect_array [OF r(2)] send_array [OF effectD(1) [OF r(2)]] p(3)
      by (intro exI [of _ s] exI [of _ sh1] exI exI [of _ "clear_bits ?m ?T (take 256 sh1)"]) auto
  qed
qed

lemma WriteSingleBlock_stale:
  assumes g: "nor_geometry I bs" and L: "L \<le> LastBlock I" and q: "quiet (chip w)" and sh: "ShadowBuffer I = Some sh" "length sh = bs"
    and b: "off + length b \<le> bs" "length b < 128" "128 < off mod 128 + length b"
    and ok: "\<forall>i<length b. NOT (if off mod 128 + i < 128 then cells (chip w) (block_at I L + off + i) else sh ! (off mod 128 + i)) AND b ! i = 0"
    and f: "faultless (chip w)"
  shows "\<exists>I' w'. NorFlashWriteSingleBlock E I L off b w = Some (Ok (EFI_SUCCESS, I', w')) \<and>
    (\<forall>j. off mod 128 + length b \<le> j \<and> j < 256 \<longrightarrow>
      cells (chip w') (block_at I L + (off - off mod 128) + j) = cells (chip w) (block_at I L + (off - off mod 128) + j) AND sh ! j)"
proof -
  let ?T = "block_at I L + (off - off mod 128)" and ?k = "off mod 128" and ?m = "cells (chip w)"
  obtain w1 okb sh1 where p: "quiet (chip w1)" "chip w1 = (chip w)\<lparr>mode := ReadArray\<rparr>" "length sh1 = bs" "256 \<le> bs" "?k + length b \<le> 256"
    and run: "NorFlashWriteSingleBlock E I L off b w = (if \<not> okb then RewriteBlock E I L off b sh1 w1
       else run_bind (ProgramShadow E I L off (length b) sh1 w1) (\<lambda>(Status, w2).
         Some (Ok (Status, I\<lparr>ShadowBuffer := Some sh1\<rparr>, SEND_NOR_COMMAND E (DeviceBaseAddress I) 0 P30_CMD_READ_ARRAY w2))))"
    and okb: "okb \<longleftrightarrow> (\<forall>i<length b. NOT (stale_byte ?m ?T sh (?k + i)) AND b ! i = 0)"
    and sh1: "\<And>j. okb \<Longrightarrow> j < bs \<Longrightarrow> sh1 ! j = (if ?k \<le> j \<and> j < ?k + length b then b ! (j - ?k) else stale_byte ?m ?T sh j)"
    and prog: "\<exists>s w2. ProgramShadow E I L off (length b) sh1 w1 = Some (Ok (s, w2)) \<and>
       effect {block_at I L..<block_at I L + bs} s (chip w) (clear_bits ?m ?T (take 256 sh1)) (chip w2)"
    by (rule crossing_path [OF g L q sh b]) blast
  have a: "?T + (?k + i) = block_at I L + off + i" for i by simp
  have okb: okb using ok unfolding okb stale_byte_def a by simp
  obtain s w2 where r: "ProgramShadow E I L off (length b) sh1 w1 = Some (Ok (s, w2))"
    "effect {block_at I L..<block_at I L + bs} s (chip w) (clear_bits ?m ?T (take 256 sh1)) (chip w2)" using prog by blast
  have s: "s = EFI_SUCCESS" "cells (chip w2) = clear_bits ?m ?T (take 256 sh1)" using r(2) f by (auto simp: effect_def)
  have "cells (chip w2) (?T + j) = ?m (?T + j) AND sh ! j" if j: "?k + length b \<le> j" "j < 256" for j
    using sh1 [OF okb, of j] j b(3) p clear_bits_nth [of j "take 256 sh1" ?m ?T] by (simp add: s(2) stale_byte_def)
  then show ?thesis using run okb r(1) s(1) send_array [OF effectD(1) [OF r(2)]] by auto
qed

end

section \<open>Erasing\<close>

definition fill :: "mem \<Rightarrow> nat set \<Rightarrow> mem" where
  "fill m A = (\<lambda>x. if x \<in> A then 0xFF else m x)"

lemma fill_set_mem: "set_mem m b n 0xFF = fill m {b..<b + n}"
  by (rule ext) (auto simp: fill_def set_mem_def store_bytes_at)

lemma fill_fill: "fill (fill m A) B = fill m (A \<union> B)"
  by (rule ext) (simp add: fill_def)

definition erase_range :: "NOR_FLASH_INSTANCE \<Rightarrow> nat \<times> nat \<Rightarrow> nat set" where
  "erase_range I r = {block_at I (StartLba I + fst r)..<block_at I (StartLba I + fst r + snd r)}"

lemma erase_range_split: "erase_range I (l, k + n) = erase_range I (l, k) \<union> erase_range I (l + k, n)"
proof -
  have "block_at I (StartLba I + l) \<le> block_at I (StartLba I + l + k)" "block_at I (StartLba I + l + k) \<le> block_at I (StartLba I + l + k + n)"
    by (simp_all add: add_mult_distrib)
  from ivl_disj_un_two(3) [OF this] show ?thesis by (simp add: erase_range_def add.assoc)
qed

lemma effect_fill:
  assumes "effect A s c (fill (cells c) A) c'" and "A \<subseteq> B" and "s = EFI_SUCCESS" and "effect B s' c' (fill (cells c') C) c''" and "B = A \<union> C"
  shows "effect B s' c (fill (cells c) B) c''"
  using assms by (auto simp: effect_def fill_fill)

context nor_chip
begin

lemma EraseRangeLoop_result:
  assumes g: "nor_geometry I bs"
  shows "quiet (chip w) \<Longrightarrow> StartLba I + l + n \<le> LastBlock I + 1 \<Longrightarrow>
    \<exists>s w'. EraseRangeLoop E I l n w = Some (Ok (s, w')) \<and> effect (erase_range I (l, n)) s (chip w) (fill (cells (chip w)) (erase_range I (l, n))) (chip w')"
proof (induction n arbitrary: l w)
  case 0
  then show ?case by (auto simp: effect_def fill_def erase_range_def)
next
  case (Suc n)
  note G = geometryD [OF g]
  let ?L = "StartLba I + l" and ?A = "erase_range I (l, 1)" and ?B = "erase_range I (l, Suc n)" and ?C = "erase_range I (l + 1, n)"
  have L: "?L \<le> LastBlock I" using Suc.prems(2) by simp
  have A: "?A = {block_at I ?L..<block_at I ?L + bs}" by (simp add: erase_range_def G(1) algebra_simps)
  have B: "?B = ?A \<union> ?C" using erase_range_split [of I l 1 n] by simp
  have nw: "w64 ?L = ?L" "w64 (l + 1) = l + 1" using L nor_last_block [OF g] Suc.prems(2) by (simp_all add: w64_def)
  have e: "8 < bs" "block_at I ?L + 8 < 2 ^ 64" using G(2) block_end [OF g L] by linarith+
  obtain s1 w1 where u: "UnlockEraseLoop E I (block_at I ?L) 0 w = Some (Ok (s1, w1))" "outcome s1 (chip w) (erased (cells (chip w)) (block_at I ?L)) (chip w1)"
    using UnlockErase_result [OF block_address(2) [OF g L] e Suc.prems(1)] by blast
  have f: "effect ?A s1 (chip w) (fill (cells (chip w)) ?A) (chip w1)"
    unfolding A by (rule outcome_effect) (use u(2) in \<open>auto simp: fill_set_mem fill_def\<close>)
  define s1' where "s1' = (if EFI_ERROR s1 then EFI_DEVICE_ERROR else s1)"
  have run: "EraseRangeLoop E I l (Suc n) w = (if EFI_ERROR s1 then Some (Ok (EFI_DEVICE_ERROR, w1)) else EraseRangeLoop E I (l + 1) n w1)"
    using u(1) block_address(1) [OF g L] nw(2) by (simp add: nw(1) G(1) NorFlashUnlockAndEraseSingleBlock_def)
  show ?case
  proof (cases "EFI_ERROR s1")
    case True
    have "effect ?A EFI_DEVICE_ERROR (chip w) (fill (cells (chip w)) ?B) (chip w1)" using f True by (auto simp: effect_def)
    then show ?thesis using run True effect_mono [of ?A _ _ _ _ ?B] B by auto
  next
    case False
    then have s1: "s1 = EFI_SUCCESS" using effectD(2) [OF f] by auto
    obtain s w' where r: "EraseRangeLoop E I (l + 1) n w1 = Some (Ok (s, w'))" "effect ?C s (chip w1) (fill (cells (chip w1)) ?C) (chip w')"
      using Suc.IH [OF effectD(1) [OF f], of "l + 1"] Suc.prems(2) by auto
    have "effect ?B s (chip w) (fill (cells (chip w)) ?B) (chip w')"
      by (rule effect_fill [OF f _ s1, where C = ?C]) (use B effect_mono [OF r(2), of ?B] in \<open>auto simp: s1\<close>)
    then show ?thesis using run False r(1) by auto
  qed
qed

lemma FvbRead_result:
  assumes g: "nor_geometry I bs" and L: "StartLba I + Lba \<le> LastBlock I" and q: "quiet (chip w)" and n: "0 < n" "off + n \<le> bs"
  shows "\<exists>w'. FvbRead E I Lba off n w = (EFI_SUCCESS, load_bytes (cells (chip w)) (block_at I (StartLba I + Lba) + off) n, w') \<and> cells (chip w') = cells (chip w)"
proof -
  note G = geometryD [OF g]
  have nw: "w64 (StartLba I + Lba) = StartLba I + Lba" "w64 (off + n) = off + n" using L nor_last_block [OF g] n(2) G(4) by (simp_all add: w64_def)
  have in_dev: "(StartLba I + Lba) * bs + off + n \<le> FlashSize I"
  proof -
    have "(StartLba I + Lba) * bs \<le> LastBlock I * bs" using L by simp
    moreover have "FlashSize I = LastBlock I * bs + bs" using G(6) by simp
    ultimately show ?thesis using n(2) by linarith
  qed
  show ?thesis
  proof (cases "n = bs")
    case True
    then have "off = 0" using n(2) by simp
    moreover have "w64 bs = bs" using G(4) by (simp add: w64_def)
    ultimately show ?thesis using True ReadBlocks_result [OF g L q] n(1) by (auto simp: FvbRead_def nw G(1))
  next
    case False
    then have "n < bs" "off < bs" using n by simp_all
    then show ?thesis using Read_result [OF g L q n(1) disjI2 [OF n(2)], of] in_dev n by (auto simp: FvbRead_def nw G(1))
  qed
qed

lemma EraseAllLoop_result:
  assumes g: "nor_geometry I bs"
  shows "quiet (chip w) \<Longrightarrow> \<forall>(l, n)\<in>set rs. StartLba I + l + n \<le> LastBlock I + 1 \<Longrightarrow>
    \<exists>s w'. EraseAllLoop E I rs w = Some (Ok (s, w')) \<and>
      effect (\<Union>(erase_range I ` set rs)) s (chip w) (fill (cells (chip w)) (\<Union>(erase_range I ` set rs))) (chip w')"
proof (induction rs arbitrary: w)
  case Nil
  then show ?case by (auto simp: effect_def fill_def)
next
  case (Cons r rs)
  obtain l n where r: "r = (l, n)" by (cases r)
  let ?A = "erase_range I r" and ?C = "\<Union>(erase_range I ` set rs)"
  have U: "\<Union>(erase_range I ` set (r # rs)) = ?A \<union> ?C" by simp
  obtain s1 w1 where e: "EraseRangeLoop E I l n w = Some (Ok (s1, w1))" "effect ?A s1 (chip w) (fill (cells (chip w)) ?A) (chip w1)"
    using EraseRangeLoop_result [OF g Cons.prems(1), of l n] Cons.prems(2) r by auto
  show ?case
  proof (cases "EFI_ERROR s1")
    case True
    then have "effect (?A \<union> ?C) s1 (chip w) (fill (cells (chip w)) (?A \<union> ?C)) (chip w1)" using e(2) by (auto simp: effect_def)
    then show ?thesis using e(1) True r unfolding U by auto
  next
    case False
    then have s1: "s1 = EFI_SUCCESS" using effectD(2) [OF e(2)] by auto
    obtain s w' where f: "EraseAllLoop E I rs w1 = Some (Ok (s, w'))" "effect ?C s (chip w1) (fill (cells (chip w1)) ?C) (chip w')"
      using Cons.IH [OF effectD(1) [OF e(2)]] Cons.prems(2) by auto
    have "effect (?A \<union> ?C) s (chip w) (fill (cells (chip w)) (?A \<union> ?C)) (chip w')"
      by (rule effect_fill [OF e(2) _ s1, where C = ?C]) (use effect_mono [OF f(2), of "?A \<union> ?C"] in \<open>auto simp: s1\<close>)
    then show ?thesis using e(1) f(1) False r unfolding U by auto
  qed
qed

end

section \<open>The chip as an environment\<close>

definition p30_env :: "nat \<Rightarrow> p30 nor_env" where
  "p30_env bs = \<lparr>MmioRead32 = p30_read bs, MmioWrite32 = p30_write bs, FlashLoad = \<lambda>a n c. (load_bytes (cells c) a n, c)\<rparr>"

lemma p30_env_device: "nor_device (p30_env bs) bs (\<lambda>c. c)"
  by (auto simp: nor_device_def p30_env_def)

interpretation p30_chip: nor_chip "p30_env bs" bs "\<lambda>c. c" for bs
  by (unfold_locales) (rule p30_env_device)

section \<open>The block protocol\<close>

text \<open>The state a caller of the protocol meets: an instance over a chip at rest, whose shadow buffer is one block.\<close>

definition volume_ready :: "NOR_FLASH_INSTANCE \<Rightarrow> p30 \<Rightarrow> bool" where
  "volume_ready I c \<longleftrightarrow> nor_geometry I (BlockSize I) \<and> quiet c \<and> (\<exists>sh. ShadowBuffer I = Some sh \<and> length sh = BlockSize I)"

text \<open>A request the driver carries out: within one block, and either within one program buffer or at least as
  long as one; what the driver reads ahead is within the device.\<close>

definition plain_request :: "NOR_FLASH_INSTANCE \<Rightarrow> nat \<Rightarrow> nat \<Rightarrow> nat \<Rightarrow> bool" where
  "plain_request I Lba Off n \<longleftrightarrow> StartLba I + Lba \<le> LastBlock I \<and> 0 < n \<and> Off + n \<le> BlockSize I \<and>
    (Off mod 128 + n \<le> 128 \<or> 128 \<le> n) \<and>
    (256 < n + Off mod 128 \<or> (StartLba I + Lba) * BlockSize I + (Off - Off mod 128) + read_ahead n \<le> FlashSize I)"

lemma geometry_shadow: "nor_geometry (I\<lparr>ShadowBuffer := x\<rparr>) bs \<longleftrightarrow> nor_geometry I bs"
  by (simp add: nor_geometry_def)

lemma FvbWrite_effect:
  assumes dev: "nor_device E (BlockSize I) chip" and rdy: "volume_ready I (chip w)" and req: "plain_request I Lba Off (length Buffer)"
  shows "\<exists>s sh' w'. FvbWrite E I Lba Off Buffer w = Some (Ok (s, I\<lparr>ShadowBuffer := Some sh'\<rparr>, w')) \<and> length sh' = BlockSize I \<and> mode (chip w') = ReadArray \<and>
    effect {block_at I (StartLba I + Lba)..<block_at I (StartLba I + Lba) + BlockSize I} s (chip w)
      (store_bytes (cells (chip w)) (block_at I (StartLba I + Lba) + Off) Buffer) (chip w')"
proof -
  have loc: "nor_chip E (BlockSize I) chip" using dev by (simp add: nor_chip_def)
  obtain sh where r: "nor_geometry I (BlockSize I)" "quiet (chip w)" "ShadowBuffer I = Some sh" "length sh = BlockSize I"
    using rdy by (auto simp: volume_ready_def)
  have q: "StartLba I + Lba \<le> LastBlock I" "Buffer \<noteq> []" "Off + length Buffer \<le> BlockSize I" "Off mod 128 + length Buffer \<le> 128 \<or> 128 \<le> length Buffer"
    "256 < length Buffer + Off mod 128 \<or> (StartLba I + Lba) * BlockSize I + (Off - Off mod 128) + read_ahead (length Buffer) \<le> FlashSize I"
    using req by (auto simp: plain_request_def)
  have "w64 (StartLba I + Lba) = StartLba I + Lba" using q(1) nor_last_block [OF r(1)] by (simp add: w64_def)
  then show ?thesis using nor_chip.WriteSingleBlock_result [OF loc r(1) q(1) r(2-4) q(2-5)] by (simp add: FvbWrite_def)
qed

text \<open>The two kinds of request the short path does not carry out as asked: one shorter than a program buffer that
  crosses into the next, and one whose read-ahead leaves the device.\<close>

definition crosses_buffer :: "nat \<Rightarrow> nat \<Rightarrow> bool" where
  "crosses_buffer Off n \<longleftrightarrow> n < 128 \<and> 128 < Off mod 128 + n"

definition reads_past_device :: "NOR_FLASH_INSTANCE \<Rightarrow> nat \<Rightarrow> nat \<Rightarrow> nat \<Rightarrow> bool" where
  "reads_past_device I Lba Off n \<longleftrightarrow> n + Off mod 128 \<le> 256 \<and>
    FlashSize I < (StartLba I + Lba) * BlockSize I + (Off - Off mod 128) + (n div 128 * 128 + 128)"

text \<open>Every request to a block of the device.\<close>

definition fvb_write_spec :: "NOR_FLASH_INSTANCE \<Rightarrow> nat \<Rightarrow> nat \<Rightarrow> u8 list \<Rightarrow> p30 \<Rightarrow> EFI_STATUS \<Rightarrow> p30 \<Rightarrow> bool" where
  "fvb_write_spec I Lba Off Buffer c s c' \<longleftrightarrow>
    (let b = block_at I (StartLba I + Lba); T = b + (Off - Off mod 128)
     in if Buffer = [] \<or> BlockSize I < Off + length Buffer then s = EFI_BAD_BUFFER_SIZE \<and> c' = c
        else if reads_past_device I Lba Off (length Buffer) then s = EFI_DEVICE_ERROR \<and> c' = c
        else mode c' = ReadArray \<and> (faultless c \<longrightarrow> s = EFI_SUCCESS) \<and>
          (\<forall>x. x < b \<or> b + BlockSize I \<le> x \<longrightarrow> cells c' x = cells c x) \<and>
          (s = EFI_SUCCESS \<longrightarrow> (\<forall>x. crosses_buffer Off (length Buffer) \<and> T + 128 \<le> x \<and> x < T + 256 \<or> cells c' x = store_bytes (cells c) (b + Off) Buffer x)))"

lemma FvbWrite_result:
  assumes dev: "nor_device E (BlockSize I) chip" and rdy: "volume_ready I (chip w)" and L: "StartLba I + Lba \<le> LastBlock I"
  shows "\<exists>s sh' w'. FvbWrite E I Lba Off Buffer w = Some (Ok (s, I\<lparr>ShadowBuffer := Some sh'\<rparr>, w')) \<and> volume_ready (I\<lparr>ShadowBuffer := Some sh'\<rparr>) (chip w') \<and>
    fvb_write_spec I Lba Off Buffer (chip w) s (chip w')"
proof -
  let ?L = "StartLba I + Lba" and ?n = "length Buffer"
  let ?b = "block_at I ?L"
  have loc: "nor_chip E (BlockSize I) chip" using dev by (simp add: nor_chip_def)
  obtain sh where r: "nor_geometry I (BlockSize I)" "quiet (chip w)" "ShadowBuffer I = Some sh" "length sh = BlockSize I"
    using rdy by (auto simp: volume_ready_def)
  note G = geometryD [OF r(1)]
  have I: "I\<lparr>ShadowBuffer := Some sh\<rparr> = I" using r(3) by simp
  have W: "FvbWrite E I Lba Off Buffer w = NorFlashWriteSingleBlock E I ?L Off Buffer w"
    using L nor_last_block [OF r(1)] by (simp add: FvbWrite_def w64_def)
  have ready: "volume_ready (I\<lparr>ShadowBuffer := Some sh'\<rparr>) c" if "quiet c" "length sh' = BlockSize I" for sh' c
    using that r(1) by (simp add: volume_ready_def geometry_shadow)
  consider (bad) "Buffer = [] \<or> BlockSize I < Off + ?n" | (past) "Buffer \<noteq> []" "Off + ?n \<le> BlockSize I" "reads_past_device I Lba Off ?n"
    | (cross) "Buffer \<noteq> []" "Off + ?n \<le> BlockSize I" "\<not> reads_past_device I Lba Off ?n" "crosses_buffer Off ?n"
    | (plain) "Buffer \<noteq> []" "Off + ?n \<le> BlockSize I" "\<not> reads_past_device I Lba Off ?n" "\<not> crosses_buffer Off ?n" by linarith
  then show ?thesis
  proof cases
    case bad
    have "FvbWrite E I Lba Off Buffer w = Some (Ok (EFI_BAD_BUFFER_SIZE, I, w))"
    proof (cases "Off \<ge> BlockSize I \<or> ?n > BlockSize I")
      case False
      then have "Off + ?n < 2 ^ 64" using G(4) by simp
      then have "w64 (Off + ?n) = Off + ?n" by (simp add: w64_def)
      then show ?thesis using bad r(3) False unfolding W by (auto simp: NorFlashWriteSingleBlock_def Let_def)
    qed (use r(3) in \<open>auto simp: W NorFlashWriteSingleBlock_def Let_def\<close>)
    then show ?thesis using rdy bad I by (intro exI [of _ EFI_BAD_BUFFER_SIZE] exI [of _ sh] exI [of _ w]) (simp add: fvb_write_spec_def Let_def)
  next
    case past
    then have "FvbWrite E I Lba Off Buffer w = Some (Ok (EFI_DEVICE_ERROR, I, w))"
      using nor_chip.WriteSingleBlock_no_room [OF loc r(1) L r(2,3), of Buffer Off] unfolding W reads_past_device_def by simp
    then show ?thesis using rdy past I by (intro exI [of _ EFI_DEVICE_ERROR] exI [of _ sh] exI [of _ w]) (simp add: fvb_write_spec_def Let_def)
  next
    case cross
    define T where "T = ?b + (Off - Off mod 128)"
    obtain s sh' w' m where e: "FvbWrite E I Lba Off Buffer w = Some (Ok (s, I\<lparr>ShadowBuffer := Some sh'\<rparr>, w'))" "length sh' = BlockSize I" "mode (chip w') = ReadArray"
      "effect {?b..<?b + BlockSize I} s (chip w) m (chip w')"
      "\<forall>j. j < 128 \<or> 256 \<le> j \<longrightarrow> m (T + j) = store_bytes (cells (chip w)) (?b + Off) Buffer (T + j)" "\<forall>x < T. m x = cells (chip w) x"
      using nor_chip.WriteSingleBlock_crossing [OF loc r(1) L r(2-4) cross(2)] cross(4) unfolding W T_def crosses_buffer_def by blast
    have "m x = store_bytes (cells (chip w)) (?b + Off) Buffer x" if "\<not> (T + 128 \<le> x \<and> x < T + 256)" for x
    proof (cases "x < T")
      case True
      then have "x < ?b + Off" unfolding T_def by linarith
      then show ?thesis using e(6) True by (simp add: store_bytes_at)
    next
      case False
      then obtain j where "x = T + j" by (metis le_Suc_ex not_less)
      then show ?thesis using e(5) that by auto
    qed
    then show ?thesis using e(1-4) ready [OF effectD(1) [OF e(4)] e(2)] cross
      by (intro exI [of _ s] exI [of _ sh'] exI [of _ w']) (auto simp: fvb_write_spec_def Let_def effect_def T_def)
  next
    case plain
    have "plain_request I Lba Off ?n" using plain L by (auto simp: plain_request_def crosses_buffer_def reads_past_device_def)
    from FvbWrite_effect [OF dev rdy this] obtain s sh' w' where e: "FvbWrite E I Lba Off Buffer w = Some (Ok (s, I\<lparr>ShadowBuffer := Some sh'\<rparr>, w'))"
      "length sh' = BlockSize I" "mode (chip w') = ReadArray"
      "effect {?b..<?b + BlockSize I} s (chip w) (store_bytes (cells (chip w)) (?b + Off) Buffer) (chip w')" by blast
    then show ?thesis using ready [OF effectD(1) [OF e(4)] e(2)] plain
      by (intro exI [of _ s] exI [of _ sh'] exI [of _ w']) (auto simp: fvb_write_spec_def Let_def effect_def)
  qed
qed


definition nor_demo_instance :: NOR_FLASH_INSTANCE where
  "nor_demo_instance = \<lparr>DeviceBaseAddress = 0, RegionBaseAddress = 0, FlashSize = 1024, StartLba = 0, LastBlock = 1, BlockSize = 512,
    ShadowBuffer = Some (replicate 512 0)\<rparr>"

definition nor_demo_chip :: p30 where
  "nor_demo_chip = \<lparr>cells = (\<lambda>a. 0xFF), mode = ReadArray, errors = 0, busy = 0, locked = (\<lambda>b. True), plan = [(2, 0), (1, 0)]\<rparr>"

lemma nor_demo_fields [simp]:
  "BlockSize nor_demo_instance = 512" "RegionBaseAddress nor_demo_instance = 0" "StartLba nor_demo_instance = 0" "LastBlock nor_demo_instance = 1"
  "FlashSize nor_demo_instance = 1024" "ShadowBuffer nor_demo_instance = Some (replicate 512 0)" "cells nor_demo_chip x = 0xFF"
  by (simp_all add: nor_demo_instance_def nor_demo_chip_def)

lemma nor_demo_ready: "volume_ready nor_demo_instance nor_demo_chip" "faultless nor_demo_chip" "nor_geometry nor_demo_instance 512" "quiet nor_demo_chip"
proof -
  show g: "nor_geometry nor_demo_instance 512" by (simp add: nor_geometry_def)
  show q: "quiet nor_demo_chip" by (simp add: nor_demo_chip_def quiet_def plain_def)
  show "volume_ready nor_demo_instance nor_demo_chip" using g q by (simp add: volume_ready_def)
  show "faultless nor_demo_chip" by (simp add: nor_demo_chip_def faultless_def)
qed


text \<open>Property C23.  What a successful \<open>FvbWrite\<close> stored in a block of the device, \<open>FvbRead\<close> of the same range returns, unless the
  request was shorter than 128 bytes and crossed a 128-byte boundary.\<close>

theorem FvbWrite_FvbRead_roundtrip:
  assumes dev: "nor_device E (BlockSize I) chip" and rdy: "volume_ready I (chip w)" and L: "StartLba I + Lba \<le> LastBlock I" and x: "\<not> crosses_buffer Off (length Buffer)"
    and run: "FvbWrite E I Lba Off Buffer w = Some (Ok (EFI_SUCCESS, I', w'))"
  shows "\<exists>w''. FvbRead E I' Lba Off (length Buffer) w' = (EFI_SUCCESS, Buffer, w'')"
proof -
  have loc: "nor_chip E (BlockSize I) chip" using dev by (simp add: nor_chip_def)
  obtain sh' where r: "I' = I\<lparr>ShadowBuffer := Some sh'\<rparr>" "volume_ready I' (chip w')" and e: "fvb_write_spec I Lba Off Buffer (chip w) EFI_SUCCESS (chip w')"
    using FvbWrite_result [OF dev rdy L, of Off Buffer] run by auto
  have q: "StartLba I' + Lba \<le> LastBlock I'" "0 < length Buffer" "Off + length Buffer \<le> BlockSize I"
    and m: "cells (chip w') y = store_bytes (cells (chip w)) (block_at I (StartLba I + Lba) + Off) Buffer y" for y
    using e r(1) L x by (auto simp: fvb_write_spec_def Let_def split: if_splits)
  have "load_bytes (cells (chip w')) (block_at I' (StartLba I' + Lba) + Off) (length Buffer) = Buffer"
    using r(1) by (auto intro!: nth_equalityI simp: nth_load_bytes store_bytes_at m)
  then show ?thesis using nor_chip.FvbRead_result [OF loc _ q(1) _ q(2,3), of w'] r by (auto simp: volume_ready_def)
qed

theorem FvbWrite_FvbRead_roundtrip_witness:
  "\<exists>I' c' c''. FvbWrite (p30_env 512) nor_demo_instance 0 0 [7, 9] nor_demo_chip = Some (Ok (EFI_SUCCESS, I', c')) \<and>
     FvbRead (p30_env 512) I' 0 0 2 c' = (EFI_SUCCESS, [7, 9], c'')"
proof -
  have p: "plain_request nor_demo_instance 0 0 (length [7, 9 :: u8])" by (simp add: plain_request_def)
  obtain I' c' where r: "FvbWrite (p30_env 512) nor_demo_instance 0 0 [7, 9] nor_demo_chip = Some (Ok (EFI_SUCCESS, I', c'))"
    using FvbWrite_effect [of "p30_env 512" nor_demo_instance "\<lambda>c. c" nor_demo_chip 0 0 "[7, 9]"] p nor_demo_ready p30_env_device [of 512]
    by (auto simp: effect_def)
  show ?thesis
    using FvbWrite_FvbRead_roundtrip [OF _ _ _ _ r, of "\<lambda>c. c"] nor_demo_ready p30_env_device [of 512] r by (auto simp: numeral_2_eq_2 crosses_buffer_def)
qed

text \<open>Property C38.  A short write that crosses a 128-byte boundary reads only one program buffer ahead but
  programs two: the bytes of the second buffer after the request are masked with what the shadow buffer held from an earlier
  request, and \<open>FvbWrite\<close> reports success.\<close>

theorem FvbWrite_stale_shadow:
  assumes dev: "nor_device E (BlockSize I) chip" and rdy: "volume_ready I (chip w)" and sh: "ShadowBuffer I = Some sh"
    and L: "StartLba I + Lba \<le> LastBlock I" and b: "Off + length Buffer \<le> BlockSize I" "length Buffer < 128" "128 < Off mod 128 + length Buffer"
    and ok: "\<forall>i<length Buffer. NOT (if Off mod 128 + i < 128 then cells (chip w) (block_at I (StartLba I + Lba) + Off + i) else sh ! (Off mod 128 + i)) AND Buffer ! i = 0"
    and f: "faultless (chip w)"
  shows "\<exists>I' w'. FvbWrite E I Lba Off Buffer w = Some (Ok (EFI_SUCCESS, I', w')) \<and>
    (\<forall>j. Off mod 128 + length Buffer \<le> j \<and> j < 256 \<longrightarrow>
      cells (chip w') (block_at I (StartLba I + Lba) + (Off - Off mod 128) + j)
        = cells (chip w) (block_at I (StartLba I + Lba) + (Off - Off mod 128) + j) AND sh ! j)"
proof -
  have loc: "nor_chip E (BlockSize I) chip" using dev by (simp add: nor_chip_def)
  have r: "nor_geometry I (BlockSize I)" "quiet (chip w)" "length sh = BlockSize I" using rdy sh by (auto simp: volume_ready_def)
  have "w64 (StartLba I + Lba) = StartLba I + Lba" using L nor_last_block [OF r(1)] by (simp add: w64_def)
  then show ?thesis using nor_chip.WriteSingleBlock_stale [OF loc r(1) L r(2) sh r(3) b ok f] by (simp add: FvbWrite_def)
qed

theorem FvbWrite_stale_shadow_witness:
  "\<exists>I' c'. FvbWrite (p30_env 512) nor_demo_instance 0 126 [0, 0, 0] nor_demo_chip = Some (Ok (EFI_SUCCESS, I', c')) \<and> cells nor_demo_chip 200 = 0xFF \<and> cells c' 200 = 0"
proof -
  have s: "\<forall>i<length [0, 0, 0 :: u8]. NOT x AND [0, 0, 0 :: u8] ! i = 0" for x by (simp add: less_Suc_eq numeral_eq_Suc)
  have z: "(255 :: u8) AND 0 = 0" by simp
  obtain I' c' where r: "FvbWrite (p30_env 512) nor_demo_instance 0 126 [0, 0, 0] nor_demo_chip = Some (Ok (EFI_SUCCESS, I', c'))"
    "\<forall>j. 129 \<le> j \<and> j < 256 \<longrightarrow> cells c' j = 0xFF AND replicate 512 0 ! j"
    using FvbWrite_stale_shadow [of "p30_env 512" nor_demo_instance "\<lambda>c. c" nor_demo_chip "replicate 512 0" 0 126 "[0, 0, 0]"] nor_demo_ready p30_env_device [of 512] s by auto
  have "cells c' 200 = 0" using r(2) [rule_format, of 200] by simp
  then show ?thesis using r(1) by simp
qed

text \<open>Property C17.  \<open>FvbEraseBlocks\<close> checks the whole list first: an empty range, or one whose last block number, computed
  modulo \<open>2^64\<close> as the code does, is beyond the last block, is refused and nothing is touched.  Any other list in which no range
  runs past \<open>2^64\<close> is carried out: the call returns; on success exactly the blocks of the list are erased, a chip that reports no
  error gives success, and nothing outside the list changes on any status.\<close>

theorem FvbEraseBlocks_exact:
  assumes dev: "nor_device E (BlockSize I) chip" and rdy: "volume_ready I (chip w)"
  shows "if \<exists>(l, n)\<in>set rs. n = 0 \<or> LastBlock I < (StartLba I + l + n - 1) mod 2 ^ 64 then FvbEraseBlocks E I rs w = Some (Ok (EFI_INVALID_PARAMETER, w))
    else (\<forall>(l, n)\<in>set rs. StartLba I + l + n \<le> 2 ^ 64) \<longrightarrow> (\<exists>s w'. FvbEraseBlocks E I rs w = Some (Ok (s, w')) \<and> quiet (chip w') \<and>
       (s = EFI_SUCCESS \<longrightarrow> cells (chip w') = (\<lambda>x. if \<exists>r\<in>set rs. x \<in> erase_range I r then 0xFF else cells (chip w) x)) \<and>
       (\<forall>x. (\<forall>r\<in>set rs. x \<notin> erase_range I r) \<longrightarrow> cells (chip w') x = cells (chip w) x) \<and> (faultless (chip w) \<longrightarrow> s = EFI_SUCCESS))"
proof -
  have loc: "nor_chip E (BlockSize I) chip" using dev by (simp add: nor_chip_def)
  have g: "nor_geometry I (BlockSize I)" "quiet (chip w)" using rdy by (auto simp: volume_ready_def)
  have bad: "EraseRangeBad I (l, n) \<longleftrightarrow> n = 0 \<or> LastBlock I < (StartLba I + l + n - 1) mod 2 ^ 64" for l n
    by (simp add: EraseRangeBad_def w64_def)
  have ex: "(\<exists>r\<in>set rs. EraseRangeBad I r) \<longleftrightarrow> (\<exists>(l, n)\<in>set rs. n = 0 \<or> LastBlock I < (StartLba I + l + n - 1) mod 2 ^ 64)"
    unfolding bad [symmetric] by auto
  show ?thesis
  proof (cases "\<exists>r\<in>set rs. EraseRangeBad I r")
    case True
    then show ?thesis unfolding ex [symmetric] by (simp add: FvbEraseBlocks_def)
  next
    case False
    have "\<exists>s w'. FvbEraseBlocks E I rs w = Some (Ok (s, w')) \<and> quiet (chip w') \<and>
       (s = EFI_SUCCESS \<longrightarrow> cells (chip w') = (\<lambda>x. if \<exists>r\<in>set rs. x \<in> erase_range I r then 0xFF else cells (chip w) x)) \<and>
       (\<forall>x. (\<forall>r\<in>set rs. x \<notin> erase_range I r) \<longrightarrow> cells (chip w') x = cells (chip w) x) \<and> (faultless (chip w) \<longrightarrow> s = EFI_SUCCESS)"
      if nw: "\<forall>(l, n)\<in>set rs. StartLba I + l + n \<le> 2 ^ 64"
    proof -
      have "StartLba I + l + n \<le> LastBlock I + 1" if "(l, n) \<in> set rs" for l n
      proof -
        have n: "0 < n" "\<not> LastBlock I < (StartLba I + l + n - 1) mod 2 ^ 64" using False that bad by auto
        then have "StartLba I + l + n - 1 < 2 ^ 64" using nw that by fastforce
        then show ?thesis using n by simp
      qed
      then have "\<forall>(l, n)\<in>set rs. StartLba I + l + n \<le> LastBlock I + 1" by blast
      from nor_chip.EraseAllLoop_result [OF loc g this] obtain s w' where r: "EraseAllLoop E I rs w = Some (Ok (s, w'))"
        "effect (\<Union>(erase_range I ` set rs)) s (chip w) (fill (cells (chip w)) (\<Union>(erase_range I ` set rs))) (chip w')" by blast
      have "fill (cells (chip w)) (\<Union>(erase_range I ` set rs)) = (\<lambda>x. if \<exists>r\<in>set rs. x \<in> erase_range I r then 0xFF else cells (chip w) x)"
        by (rule ext) (auto simp: fill_def)
      then show ?thesis using r False by (auto simp: FvbEraseBlocks_def effect_def)
    qed
    then show ?thesis using False unfolding ex [symmetric] by simp
  qed
qed

theorem FvbEraseBlocks_exact_witness:
  "\<exists>c'. FvbEraseBlocks (p30_env 512) nor_demo_instance [(1, 1)] (nor_demo_chip\<lparr>cells := (\<lambda>a. 3)\<rparr>) = Some (Ok (EFI_SUCCESS, c')) \<and> cells c' 511 = 3 \<and> cells c' 512 = 0xFF"
proof -
  have r: "volume_ready nor_demo_instance (nor_demo_chip\<lparr>cells := (\<lambda>a. 3)\<rparr>)" "faultless (nor_demo_chip\<lparr>cells := (\<lambda>a. 3)\<rparr>)"
    using nor_demo_ready by (simp_all add: volume_ready_def quiet_def faultless_def)
  show ?thesis
    using FvbEraseBlocks_exact [of "p30_env 512" nor_demo_instance "\<lambda>c. c" "nor_demo_chip\<lparr>cells := (\<lambda>a. 3)\<rparr>" "[(1, 1)]"] p30_env_device [of 512] r
    by (auto simp: erase_range_def)
qed

end
