(* ===== verification/NorFlashHeader.thy ===== *)
theory NorFlashHeader
  imports NorFlashWrite
begin

text \<open>
  The headers of the variable store: what \<open>InitializeFvAndVariableStoreHeaders\<close> writes, \<open>ValidateFvHeader\<close>
  accepts at the next start.
\<close>

section \<open>Checksums\<close>

text \<open>The sum of the little-endian 16-bit words, as \<open>BaseLib\<close> documents \<open>CalculateSum16\<close>.\<close>

fun sum16 :: "u8 list \<Rightarrow> u16" where
  "sum16 (a # b # xs) = of_nat (unat a + 256 * unat b) + sum16 xs"
| "sum16 _ = 0"




section \<open>The header bytes\<close>










section \<open>Validation\<close>









definition nor_demo_services :: "p30 nor_services" where
  "nor_demo_services = \<lparr>flash = p30_env 512,
    pcd = \<lparr>VariableBase64 = 0, VariableBase32 = 0, VariableSize = 512, FtwWorkingBase64 = 512, FtwWorkingBase32 = 0, FtwWorkingSize = 512,
      FtwSpareBase64 = 1024, FtwSpareBase32 = 0, FtwSpareSize = 512\<rparr>,
    gEfiSystemNvDataFvGuid = replicate 16 1, gEfiVariableGuid = replicate 16 2, gEfiAuthenticatedVariableGuid = replicate 16 3,
    CalculateSum16 = (\<lambda>b. if even (length b) then Ok (sum16 b) else AssertFailed), CalculateCheckSum16 = (\<lambda>b. - sum16 b), AllocatePool = (\<lambda>n c. (Some (1, replicate n 0), c)), FreePool = (\<lambda>p c. c),
    MmInstallProtocolInterface = (\<lambda>p c. (EFI_SUCCESS, c))\<rparr>"

lemma nor_demo_services_fields [simp]:
  "flash nor_demo_services = p30_env 512" "VariableSize (pcd nor_demo_services) = 512" "FtwWorkingSize (pcd nor_demo_services) = 512" "FtwSpareSize (pcd nor_demo_services) = 512"
  "VariableBase64 (pcd nor_demo_services) = 0" "VariableBase32 (pcd nor_demo_services) = 0" "AllocatePool nor_demo_services n c = (Some (1, replicate n 0), c)"
  by (simp_all add: nor_demo_services_def)


end
