(* ===== verification/VirtioNet.thy ===== *)
theory VirtioNet
  imports VirtioDriver
begin

text \<open>
  Model of \<open>QemuPkg/VirtioNetDxe\<close>, the network driver: the simple network protocol over a receive and a
  transmit virtqueue, and the driver binding.

  The virtio device protocol, the pool, \<open>OrderedCollectionLib\<close> and the boot services are arguments.  An element of
  the collection is its user structure together with the structure's pool address; the structure does not
  change while it is in the collection.  The task priority brackets around the members have no effect in a model
  without interrupts; fences are the order of the memory operations.
\<close>

unbundle bit_operations_syntax

section \<open>Definitions of VirtioNet.h and Virtio095Net.h\<close>

definition VNET_MAX_PENDING :: nat where "VNET_MAX_PENDING = 64"
definition VIRTIO_NET_Q_RX :: u16 where "VIRTIO_NET_Q_RX = 0"
definition VIRTIO_NET_Q_TX :: u16 where "VIRTIO_NET_Q_TX = 1"
definition VIRTIO_NET_F_MAC :: u64 where "VIRTIO_NET_F_MAC = 0x20"
definition VIRTIO_NET_F_STATUS :: u64 where "VIRTIO_NET_F_STATUS = 0x10000"
definition VIRTIO_NET_S_LINK_UP :: nat where "VIRTIO_NET_S_LINK_UP = 1"
definition VIRTIO_SUBSYSTEM_NETWORK_CARD :: nat where "VIRTIO_SUBSYSTEM_NETWORK_CARD = 1"
definition sizeof_VIRTIO_NET_REQ :: nat where "sizeof_VIRTIO_NET_REQ = 10"
definition sizeof_VIRTIO_1_0_NET_REQ :: nat where "sizeof_VIRTIO_1_0_NET_REQ = 12"
definition SIZE_OF_VNET_Mac :: nat where "SIZE_OF_VNET_Mac = 6"
definition OFFSET_OF_VNET_LinkStatus :: nat where "OFFSET_OF_VNET_LinkStatus = 6"

text \<open>\<open>RECEIVE_UNICAST\<close>, \<open>BROADCAST\<close> and \<open>PROMISCUOUS\<close>.\<close>

definition RECEIVE_FILTERS_NO_MCAST :: u32 where "RECEIVE_FILTERS_NO_MCAST = 0x01 OR 0x04 OR 0x08"

datatype EFI_SIMPLE_NETWORK_STATE = EfiSimpleNetworkStopped | EfiSimpleNetworkStarted | EfiSimpleNetworkInitialized

record EFI_SIMPLE_NETWORK_MODE =
  NetState :: EFI_SIMPLE_NETWORK_STATE
  HwAddressSize :: nat
  MediaHeaderSize :: nat
  MaxPacketSize :: nat
  ReceiveFilterMask :: u32
  ReceiveFilterSetting :: u32
  MaxMCastFilterCount :: nat
  MCastFilterCount :: nat
  CurrentAddress :: "u8 list"
  PermanentAddress :: "u8 list"
  BroadcastAddress :: "u8 list"
  IfType :: u8
  MediaPresentSupported :: bool
  MediaPresent :: bool

record 'map TX_BUF_MAP_INFO =
  TxBuffer :: nat
  DeviceAddress :: u64
  BufMap :: 'map

type_synonym 'map tx_entry = "nat \<times> 'map TX_BUF_MAP_INFO"

text \<open>The fields of \<open>VNET_DEV\<close> that belong to the receive and to the transmit side; they are meaningful from
  \<open>VirtioNetInitialize\<close> to \<open>VirtioNetShutdown\<close>.\<close>

record 'map VNET_RX =
  RxRing :: VRING
  RxRingMap :: 'map
  RxBuf :: nat
  RxLastUsed :: u16
  RxBufNrPages :: nat
  RxBufDeviceBase :: u64
  RxBufMap :: 'map

record ('map, 'c) VNET_TX =
  TxRing :: VRING
  TxRingMap :: 'map
  TxMaxPending :: u16
  TxCurPending :: u16
  TxFreeStack :: nat
  TxFreeStackWords :: "u16 list"
  TxSharedReq :: nat
  TxSharedReqMap :: 'map
  TxLastUsed :: u16
  TxBufCollection :: 'c

record ('map, 'c) VNET_DEV =
  Snm :: EFI_SIMPLE_NETWORK_MODE
  Net :: "('map VNET_RX \<times> ('map, 'c) VNET_TX) option"

text \<open>The pool and the ordered collection; \<open>oc_Insert\<close> and \<open>oc_Find\<close> receive the comparison function applied to the
  new structure or the key, \<open>oc_Entries\<close> are the elements in the order of \<open>OrderedCollectionMin\<close> and
  \<open>OrderedCollectionNext\<close>.\<close>

record ('d, 'map, 'c) net_services =
  net_AllocatePool :: "nat \<Rightarrow> 'd world \<Rightarrow> nat option \<times> 'd world"
  net_FreePool :: "nat \<Rightarrow> 'd world \<Rightarrow> 'd world"
  oc_Init :: "'d world \<Rightarrow> 'c option \<times> 'd world"
  oc_Insert :: "('map TX_BUF_MAP_INFO \<Rightarrow> int) \<Rightarrow> 'map tx_entry \<Rightarrow> 'c \<Rightarrow> 'd world \<Rightarrow> EFI_STATUS \<times> 'c \<times> 'd world"
  oc_Find :: "('map TX_BUF_MAP_INFO \<Rightarrow> int) \<Rightarrow> 'c \<Rightarrow> 'map tx_entry option"
  oc_Entries :: "'c \<Rightarrow> 'map tx_entry list"
  oc_Delete :: "'map tx_entry \<Rightarrow> 'c \<Rightarrow> 'd world \<Rightarrow> 'c \<times> 'd world"
  oc_Uninit :: "'c \<Rightarrow> 'd world \<Rightarrow> 'd world"

section \<open>SnpSharedHelpers.c\<close>

definition VirtioNetTxBufMapInfoCompare :: "'map TX_BUF_MAP_INFO \<Rightarrow> 'map TX_BUF_MAP_INFO \<Rightarrow> int" where
  "VirtioNetTxBufMapInfoCompare MapInfo1 MapInfo2 =
    (if DeviceAddress MapInfo1 < DeviceAddress MapInfo2 then -1 else if DeviceAddress MapInfo1 > DeviceAddress MapInfo2 then 1 else 0)"

definition VirtioNetTxBufDeviceAddressCompare :: "u64 \<Rightarrow> 'map TX_BUF_MAP_INFO \<Rightarrow> int" where
  "VirtioNetTxBufDeviceAddressCompare a MapInfo = (if a < DeviceAddress MapInfo then -1 else if a > DeviceAddress MapInfo then 1 else 0)"

definition VirtioNetShutdownRx :: "('d, 'map) VIRTIO_DEVICE_PROTOCOL \<Rightarrow> 'map VNET_RX \<Rightarrow> 'd world \<Rightarrow> 'd world" where
  "VirtioNetShutdownRx VirtIo rx w = FreeSharedPages VirtIo (RxBufNrPages rx) (RxBuf rx) (snd (UnmapSharedBuffer VirtIo (RxBufMap rx) w))"

fun ReleaseTxBufs ::
  "('d, 'map, 'c) net_services \<Rightarrow> ('d, 'map) VIRTIO_DEVICE_PROTOCOL \<Rightarrow> 'map tx_entry list \<Rightarrow> 'c \<Rightarrow> 'd world \<Rightarrow> 'c \<times> 'd world" where
  "ReleaseTxBufs S VirtIo [] c w = (c, w)"
| "ReleaseTxBufs S VirtIo (e # es) c w =
    (case oc_Delete S e c w of (c1, w1) \<Rightarrow>
       ReleaseTxBufs S VirtIo es c1 (net_FreePool S (fst e) (snd (UnmapSharedBuffer VirtIo (BufMap (snd e)) w1))))"

definition VirtioNetShutdownTx ::
  "('d, 'map, 'c) net_services \<Rightarrow> ('d, 'map) VIRTIO_DEVICE_PROTOCOL \<Rightarrow> ('map, 'c) VNET_TX \<Rightarrow> 'd world \<Rightarrow> 'd world" where
  "VirtioNetShutdownTx S VirtIo tx w =
    (let w1 = snd (UnmapSharedBuffer VirtIo (TxSharedReqMap tx) w);
         w2 = FreeSharedPages VirtIo (EFI_SIZE_TO_PAGES sizeof_VIRTIO_1_0_NET_REQ) (TxSharedReq tx) w1
     in case ReleaseTxBufs S VirtIo (oc_Entries S (TxBufCollection tx)) (TxBufCollection tx) w2 of (c, w3) \<Rightarrow>
       net_FreePool S (TxFreeStack tx) (oc_Uninit S c w3))"

definition VirtioNetUninitRing :: "('d, 'map) VIRTIO_DEVICE_PROTOCOL \<Rightarrow> VRING \<Rightarrow> 'map \<Rightarrow> 'd world \<Rightarrow> 'd world" where
  "VirtioNetUninitRing VirtIo ring RingMap w = snd (VirtioRingUninit VirtIo ring (snd (UnmapSharedBuffer VirtIo RingMap w)))"

definition VirtioNetMapTxBuf ::
  "('d, 'map, 'c) net_services \<Rightarrow> ('d, 'map) VIRTIO_DEVICE_PROTOCOL \<Rightarrow> ('map, 'c) VNET_TX \<Rightarrow> nat \<Rightarrow> nat \<Rightarrow> 'd world
   \<Rightarrow> ((EFI_STATUS + u64) \<times> ('map, 'c) VNET_TX \<times> 'd world) checked" where
  "VirtioNetMapTxBuf S VirtIo tx Buffer NumberOfBytes w =
    (case net_AllocatePool S 24 w of
       (None, w1) \<Rightarrow> Ok (Inl EFI_OUT_OF_RESOURCES, tx, w1)
     | (Some p, w1) \<Rightarrow>
         (case VirtioMapAllBytesInSharedBuffer VirtIo VirtioOperationBusMasterRead Buffer NumberOfBytes w1 of
            (Status, None, w2) \<Rightarrow> Ok (Inl Status, tx, net_FreePool S p w2)
          | (Status, Some (Address, Mapping), w2) \<Rightarrow>
              let info = \<lparr>TxBuffer = Buffer, DeviceAddress = Address, BufMap = Mapping\<rparr>
              in case oc_Insert S (VirtioNetTxBufMapInfoCompare info) (p, info) (TxBufCollection tx) w2 of (Status, c, w3) \<Rightarrow>
                if Status = EFI_OUT_OF_RESOURCES
                then Ok (Inl Status, tx\<lparr>TxBufCollection := c\<rparr>, net_FreePool S p (snd (UnmapSharedBuffer VirtIo Mapping w3)))
                else if EFI_ERROR Status then AssertFailed
                else Ok (Inr Address, tx\<lparr>TxBufCollection := c\<rparr>, w3)))"

definition VirtioNetUnmapTxBuf ::
  "('d, 'map, 'c) net_services \<Rightarrow> ('d, 'map) VIRTIO_DEVICE_PROTOCOL \<Rightarrow> ('map, 'c) VNET_TX \<Rightarrow> u64 \<Rightarrow> 'd world
   \<Rightarrow> (EFI_STATUS + nat) \<times> ('map, 'c) VNET_TX \<times> 'd world" where
  "VirtioNetUnmapTxBuf S VirtIo tx a w =
    (case oc_Find S (VirtioNetTxBufDeviceAddressCompare a) (TxBufCollection tx) of
       None \<Rightarrow> (Inl EFI_INVALID_PARAMETER, tx, w)
     | Some e \<Rightarrow>
         (case oc_Delete S e (TxBufCollection tx) w of (c, w1) \<Rightarrow>
            (Inr (TxBuffer (snd e)), tx\<lparr>TxBufCollection := c\<rparr>, net_FreePool S (fst e) (snd (UnmapSharedBuffer VirtIo (BufMap (snd e)) w1)))))"

section \<open>SnpTransmit.c\<close>

text \<open>The guard that the members share: the status for a device that is not initialised.\<close>

definition NotInitialized :: "EFI_SIMPLE_NETWORK_STATE \<Rightarrow> EFI_STATUS option" where
  "NotInitialized s = (case s of EfiSimpleNetworkStopped \<Rightarrow> Some EFI_NOT_STARTED | EfiSimpleNetworkStarted \<Rightarrow> Some EFI_DEVICE_ERROR
     | EfiSimpleNetworkInitialized \<Rightarrow> None)"

text \<open>The media header; addresses are the bytes of an \<open>EFI_MAC_ADDRESS\<close>.\<close>

definition MediaHeader :: "u8 list \<Rightarrow> u8 list \<Rightarrow> u16 \<Rightarrow> u8 list" where
  "MediaHeader DestAddr SrcAddr Protocol =
    take SIZE_OF_VNET_Mac DestAddr @ take SIZE_OF_VNET_Mac SrcAddr @ [ucast (drop_bit 8 Protocol), ucast Protocol]"

text \<open>Publish a descriptor chain in the available ring.\<close>

definition PublishDesc :: "VRING \<Rightarrow> u16 \<Rightarrow> mem \<Rightarrow> mem" where
  "PublishDesc ring DescIdx m =
    (let Idx = (of_nat (load_le m (AvailIdx ring) 2) :: u16)
     in store_le (store_le m (AvailRing ring + 2 * (unat Idx mod unat (QueueSize ring))) 2 (unat DescIdx)) (AvailIdx ring) 2 (unat (Idx + 1)))"

definition QueueTx :: "('map, 'c) VNET_TX \<Rightarrow> u64 \<Rightarrow> nat \<Rightarrow> mem \<Rightarrow> (('map, 'c) VNET_TX \<times> mem) checked" where
  "QueueTx tx a BufferSize m =
    (if \<not> unat (TxCurPending tx) < length (TxFreeStackWords tx) then OutOfBounds
     else let DescIdx = TxFreeStackWords tx ! unat (TxCurPending tx); p = Desc (TxRing tx) + 16 * (unat DescIdx + 1)
       in if \<not> unat DescIdx + 1 < unat (QueueSize (TxRing tx)) then OutOfBounds
          else Ok (tx\<lparr>TxCurPending := TxCurPending tx + 1\<rparr>,
            PublishDesc (TxRing tx) DescIdx (store_le (store_le m p 8 (unat a)) (p + 8) 4 (BufferSize mod 2 ^ 32))))"

text \<open>The member; \<open>This\<close> is whether the pointer is not \<open>NULL\<close>, \<open>Buffer\<close> is \<open>NULL\<close> or an address.\<close>

definition VirtioNetTransmit ::
  "('d, 'map, 'c) net_services \<Rightarrow> ('d, 'map) VIRTIO_DEVICE_PROTOCOL \<Rightarrow> bool \<Rightarrow> ('map, 'c) VNET_DEV \<Rightarrow> nat \<Rightarrow> nat \<Rightarrow> nat option
   \<Rightarrow> u8 list option \<Rightarrow> u8 list option \<Rightarrow> u16 option \<Rightarrow> 'd world \<Rightarrow> (EFI_STATUS \<times> ('map, 'c) VNET_DEV \<times> 'd world) checked" where
  "VirtioNetTransmit S VirtIo This Dev HeaderSize BufferSize Buffer SrcAddr DestAddr Protocol w =
    (case Buffer of None \<Rightarrow> Ok (EFI_INVALID_PARAMETER, Dev, w)
     | Some buf \<Rightarrow>
       if \<not> This \<or> BufferSize = 0 then Ok (EFI_INVALID_PARAMETER, Dev, w)
       else case NotInitialized (NetState (Snm Dev)) of Some Status \<Rightarrow> Ok (Status, Dev, w)
       | None \<Rightarrow>
         if BufferSize < MediaHeaderSize (Snm Dev) then Ok (EFI_BUFFER_TOO_SMALL, Dev, w)
         else if BufferSize > MediaHeaderSize (Snm Dev) + MaxPacketSize (Snm Dev) then Ok (EFI_INVALID_PARAMETER, Dev, w)
         else case Net Dev of None \<Rightarrow> OutOfBounds
         | Some (rx, tx) \<Rightarrow>
           if \<not> TxCurPending tx \<le> TxMaxPending tx then AssertFailed
           else if TxCurPending tx = TxMaxPending tx then Ok (EFI_NOT_READY, Dev, w)
           else case (if HeaderSize = 0 then Ok (Inr w)
             else case (DestAddr, Protocol) of
               (Some d, Some p) \<Rightarrow>
                 if HeaderSize \<noteq> MediaHeaderSize (Snm Dev) then Ok (Inl EFI_INVALID_PARAMETER)
                 else let h = MediaHeader d (case SrcAddr of None \<Rightarrow> CurrentAddress (Snm Dev) | Some s \<Rightarrow> s) p
                   in if length h \<noteq> MediaHeaderSize (Snm Dev) then AssertFailed else Ok (Inr (store_bytes (fst w) buf h, snd w))
             | _ \<Rightarrow> Ok (Inl EFI_INVALID_PARAMETER)) of
               AssertFailed \<Rightarrow> AssertFailed | OutOfBounds \<Rightarrow> OutOfBounds
             | Ok (Inl Status) \<Rightarrow> Ok (Status, Dev, w)
             | Ok (Inr w1) \<Rightarrow>
               chk_bind (VirtioNetMapTxBuf S VirtIo tx buf BufferSize w1) (\<lambda>(r, tx1, w2).
                 case r of Inl _ \<Rightarrow> Ok (EFI_DEVICE_ERROR, Dev\<lparr>Net := Some (rx, tx1)\<rparr>, w2)
                 | Inr a \<Rightarrow>
                   chk_bind (QueueTx tx1 a BufferSize (fst w2)) (\<lambda>(tx2, m3).
                     case SetQueueNotify VirtIo VIRTIO_NET_Q_TX (m3, snd w2) of (Status, w4) \<Rightarrow>
                       Ok (Status, Dev\<lparr>Net := Some (rx, tx2)\<rparr>, w4))))"

section \<open>SnpGetStatus.c\<close>

text \<open>The transmitted buffer that is reported, if there is one.\<close>

definition CollectTx ::
  "('d, 'map, 'c) net_services \<Rightarrow> ('d, 'map) VIRTIO_DEVICE_PROTOCOL \<Rightarrow> ('map, 'c) VNET_TX \<Rightarrow> u16 \<Rightarrow> 'd world
   \<Rightarrow> (nat option \<times> ('map, 'c) VNET_TX \<times> 'd world) checked" where
  "CollectTx S VirtIo tx TxCurUsed w =
    (if TxLastUsed tx = TxCurUsed then Ok (None, tx, w)
     else if \<not> TxCurPending tx > 0 then AssertFailed
     else if \<not> TxCurPending tx \<le> TxMaxPending tx then AssertFailed
     else let UsedElemIdx = unat (TxLastUsed tx) mod unat (QueueSize (TxRing tx));
              DescIdx = unat (UsedId (read_used (UsedElem (TxRing tx)) (fst w) UsedElemIdx))
       in if \<not> DescIdx < 2 * unat (TxMaxPending tx) - 1 then AssertFailed
          else let a = Addr (read_desc (Desc (TxRing tx)) (fst w) (DescIdx + 1)); cur = TxCurPending tx - 1
            in if \<not> unat cur < length (TxFreeStackWords tx) then OutOfBounds
               else case VirtioNetUnmapTxBuf S VirtIo
                 (tx\<lparr>TxLastUsed := TxLastUsed tx + 1, TxCurPending := cur, TxFreeStackWords := (TxFreeStackWords tx)[unat cur := of_nat DescIdx]\<rparr>) a w of
                   (Inl _, _, _) \<Rightarrow> AssertFailed
                 | (Inr Buffer, tx1, w1) \<Rightarrow> Ok (Some Buffer, tx1, w1))"

text \<open>The member: status, interrupt status where asked for, transmitted buffer where asked for.\<close>

definition VirtioNetGetStatus ::
  "('d, 'map, 'c) net_services \<Rightarrow> ('d, 'map) VIRTIO_DEVICE_PROTOCOL \<Rightarrow> bool \<Rightarrow> ('map, 'c) VNET_DEV \<Rightarrow> bool \<Rightarrow> bool \<Rightarrow> 'd world
   \<Rightarrow> (EFI_STATUS \<times> u32 option \<times> nat option option \<times> ('map, 'c) VNET_DEV \<times> 'd world) checked" where
  "VirtioNetGetStatus S VirtIo This Dev InterruptStatus TxBuf w =
    (if \<not> This then Ok (EFI_INVALID_PARAMETER, None, None, Dev, w)
     else case NotInitialized (NetState (Snm Dev)) of Some Status \<Rightarrow> Ok (Status, None, None, Dev, w)
     | None \<Rightarrow>
       case (if MediaPresentSupported (Snm Dev)
             then case ReadDevice VirtIo OFFSET_OF_VNET_LinkStatus 2 w of (Status, LinkStatus, w1) \<Rightarrow>
               if EFI_ERROR Status then (Status, Dev, w1)
               else (EFI_SUCCESS, Dev\<lparr>Snm := (Snm Dev)\<lparr>MediaPresent := LinkStatus AND VIRTIO_NET_S_LINK_UP \<noteq> 0\<rparr>\<rparr>, w1)
             else (EFI_SUCCESS, Dev, w)) of (Status, Dev1, w1) \<Rightarrow>
       if EFI_ERROR Status then Ok (Status, None, None, Dev1, w1)
       else case Net Dev1 of None \<Rightarrow> OutOfBounds
       | Some (rx, tx) \<Rightarrow>
         let RxCurUsed = (of_nat (load_le (fst w1) (UsedIdx (RxRing rx)) 2) :: u16); TxCurUsed = (of_nat (load_le (fst w1) (UsedIdx (TxRing tx)) 2) :: u16);
             irq = (if RxLastUsed rx \<noteq> RxCurUsed then 1 else 0) OR (if TxLastUsed tx \<noteq> TxCurUsed then 2 else (0 :: u32))
         in if InterruptStatus \<and> TxLastUsed tx \<noteq> TxCurUsed \<and> \<not> TxCurPending tx > 0 then AssertFailed
            else if \<not> TxBuf then Ok (EFI_SUCCESS, if InterruptStatus then Some irq else None, None, Dev1, w1)
            else chk_bind (CollectTx S VirtIo tx TxCurUsed w1) (\<lambda>(b, tx1, w2).
              Ok (EFI_SUCCESS, if InterruptStatus then Some irq else None, Some b, Dev1\<lparr>Net := Some (rx, tx1)\<rparr>, w2)))"

section \<open>SnpReceive.c\<close>

record rx_result =
  rr_HeaderSize :: "nat option"
  rr_BufferSize :: "nat option"
  rr_DestAddr :: "u8 list option"
  rr_SrcAddr :: "u8 list option"
  rr_Protocol :: "u16 option"

definition no_result :: rx_result where
  "no_result = \<lparr>rr_HeaderSize = None, rr_BufferSize = None, rr_DestAddr = None, rr_SrcAddr = None, rr_Protocol = None\<rparr>"

text \<open>The label \<open>RecycleDesc\<close>.\<close>

definition RecycleDesc ::
  "('d, 'map) VIRTIO_DEVICE_PROTOCOL \<Rightarrow> 'map VNET_RX \<Rightarrow> u16 \<Rightarrow> EFI_STATUS \<Rightarrow> 'd world \<Rightarrow> EFI_STATUS \<times> 'map VNET_RX \<times> 'd world" where
  "RecycleDesc VirtIo rx DescIdx Status w =
    (case SetQueueNotify VirtIo VIRTIO_NET_Q_RX (PublishDesc (RxRing rx) DescIdx (fst w), snd w) of (NotifyStatus, w1) \<Rightarrow>
       (if \<not> EFI_ERROR Status then NotifyStatus else Status, rx\<lparr>RxLastUsed := RxLastUsed rx + 1\<rparr>, w1))"

text \<open>The member; the four flags say which of the optional results are asked for.  \<open>BufferSize\<close> is the room at
  \<open>Buffer\<close>.\<close>

definition ReceivePacket ::
  "('d, 'map) VIRTIO_DEVICE_PROTOCOL \<Rightarrow> nat \<Rightarrow> 'map VNET_RX \<Rightarrow> bool \<Rightarrow> nat \<Rightarrow> nat \<Rightarrow> bool \<Rightarrow> bool \<Rightarrow> bool \<Rightarrow> 'd world
   \<Rightarrow> (EFI_STATUS \<times> rx_result \<times> 'map VNET_RX \<times> 'd world) checked" where
  "ReceivePacket VirtIo hdr rx HeaderSize BufferSize Buffer SrcAddr DestAddr Protocol w =
    (let RxCurUsed = (of_nat (load_le (fst w) (UsedIdx (RxRing rx)) 2) :: u16)
     in if RxLastUsed rx = RxCurUsed then Ok (EFI_NOT_READY, no_result, rx, w)
        else let UsedElemIdx = unat (RxLastUsed rx) mod unat (QueueSize (RxRing rx));
                 e = read_used (UsedElem (RxRing rx)) (fst w) UsedElemIdx; DescIdx = unat (UsedId e)
          in if \<not> DescIdx + 1 < unat (QueueSize (RxRing rx)) then OutOfBounds
             else let d0 = read_desc (Desc (RxRing rx)) (fst w) DescIdx; d1 = read_desc (Desc (RxRing rx)) (fst w) (DescIdx + 1);
                      RxLen = unat (UsedLen e - Len d0)
               in if \<not> Len d0 \<le> UsedLen e then AssertFailed
                  else if \<not> RxLen \<le> unat (Len d1) then AssertFailed
                  else let res = no_result\<lparr>rr_BufferSize := Some RxLen\<rparr>
                    in if BufferSize < RxLen then Ok (EFI_BUFFER_TOO_SMALL, res, rx, w)
                       else if RxLen < hdr then
                         (case RecycleDesc VirtIo rx (of_nat DescIdx) EFI_DEVICE_ERROR w of (Status, rx1, w1) \<Rightarrow> Ok (Status, res, rx1, w1))
                       else let RxPtr = RxBuf rx + unat (Addr d1 - RxBufDeviceBase rx);
                                m1 = store_bytes (fst w) Buffer (load_bytes (fst w) RxPtr RxLen);
                                out = res\<lparr>rr_HeaderSize := (if HeaderSize then Some hdr else None),
                                  rr_DestAddr := (if DestAddr then Some (load_bytes m1 RxPtr SIZE_OF_VNET_Mac) else None),
                                  rr_SrcAddr := (if SrcAddr then Some (load_bytes m1 (RxPtr + SIZE_OF_VNET_Mac) SIZE_OF_VNET_Mac) else None),
                                  rr_Protocol := (if Protocol
                                    then Some (push_bit 8 (ucast (m1 (RxPtr + 2 * SIZE_OF_VNET_Mac))) OR ucast (m1 (RxPtr + 2 * SIZE_OF_VNET_Mac + 1))) else None)\<rparr>
                         in case RecycleDesc VirtIo rx (of_nat DescIdx) EFI_SUCCESS (m1, snd w) of (Status, rx1, w1) \<Rightarrow> Ok (Status, out, rx1, w1))"

definition VirtioNetReceive ::
  "('d, 'map) VIRTIO_DEVICE_PROTOCOL \<Rightarrow> bool \<Rightarrow> ('map, 'c) VNET_DEV \<Rightarrow> bool \<Rightarrow> nat option \<Rightarrow> nat option \<Rightarrow> bool \<Rightarrow> bool \<Rightarrow> bool \<Rightarrow> 'd world
   \<Rightarrow> (EFI_STATUS \<times> rx_result \<times> ('map, 'c) VNET_DEV \<times> 'd world) checked" where
  "VirtioNetReceive VirtIo This Dev HeaderSize BufferSize Buffer SrcAddr DestAddr Protocol w =
    (case (BufferSize, Buffer) of
       (Some n, Some buf) \<Rightarrow>
         (if \<not> This then Ok (EFI_INVALID_PARAMETER, no_result, Dev, w) else case NotInitialized (NetState (Snm Dev)) of Some Status \<Rightarrow> Ok (Status, no_result, Dev, w)
          | None \<Rightarrow>
            case Net Dev of None \<Rightarrow> OutOfBounds
            | Some (rx, tx) \<Rightarrow>
              chk_bind (ReceivePacket VirtIo (MediaHeaderSize (Snm Dev)) rx HeaderSize n buf SrcAddr DestAddr Protocol w) (\<lambda>(Status, res, rx1, w1).
                Ok (Status, res, Dev\<lparr>Net := Some (rx1, tx)\<rparr>, w1)))
     | _ \<Rightarrow> Ok (EFI_INVALID_PARAMETER, no_result, Dev, w))"

section \<open>SnpInitialize.c\<close>

definition VirtioNetInitRing ::
  "('d, 'map) VIRTIO_DEVICE_PROTOCOL \<Rightarrow> u16 \<Rightarrow> 'd world \<Rightarrow> (EFI_STATUS + VRING \<times> 'map) \<times> 'd world" where
  "VirtioNetInitRing VirtIo Selector w =
    (case SetQueueSel VirtIo Selector w of (Status, w1) \<Rightarrow>
     if EFI_ERROR Status then (Inl Status, w1)
     else case GetQueueNumMax VirtIo w1 of (Status, q, w2) \<Rightarrow>
     if EFI_ERROR Status then (Inl Status, w2)
     else if q < 2 then (Inl EFI_UNSUPPORTED, w2)
     else case VirtioRingInit VirtIo q zero_VRING w2 of (Status, ring, w3) \<Rightarrow>
     if EFI_ERROR Status then (Inl Status, w3)
     else case VirtioRingMap VirtIo ring w3 of
       (Status, None, w4) \<Rightarrow> (Inl Status, snd (VirtioRingUninit VirtIo ring w4))
     | (Status, Some (RingBaseShift, MapInfo), w4) \<Rightarrow>
         (case (case SetQueueNum VirtIo q w4 of (Status, w5) \<Rightarrow>
                if EFI_ERROR Status then (Status, w5)
                else case SetQueueAlign VirtIo EFI_PAGE_SIZE w5 of (Status, w6) \<Rightarrow>
                if EFI_ERROR Status then (Status, w6)
                else SetQueueAddress VirtIo ring RingBaseShift w6) of (Status, w7) \<Rightarrow>
            if EFI_ERROR Status then (Inl Status, snd (VirtioRingUninit VirtIo ring (snd (UnmapSharedBuffer VirtIo MapInfo w7))))
            else (Inr (ring, MapInfo), w7)))"

text \<open>The size of the request header that precedes a packet.\<close>

definition VirtioNetReqSize :: "('d, 'map) VIRTIO_DEVICE_PROTOCOL \<Rightarrow> nat" where
  "VirtioNetReqSize VirtIo = (if Revision VirtIo < VIRTIO_SPEC_REVISION 1 0 0 then sizeof_VIRTIO_NET_REQ else sizeof_VIRTIO_1_0_NET_REQ)"

definition MaxPending :: "VRING \<Rightarrow> nat" where
  "MaxPending ring = min (unat (QueueSize ring) div 2) VNET_MAX_PENDING"

fun InitTxLoop :: "VRING \<Rightarrow> u64 \<Rightarrow> nat \<Rightarrow> nat list \<Rightarrow> u16 list \<times> mem \<Rightarrow> u16 list \<times> mem" where
  "InitTxLoop ring a sz [] s = s"
| "InitTxLoop ring a sz (PktIdx # ps) (stack, m) =
    (let DescIdx = (of_nat (2 * PktIdx) :: u16);
         m1 = write_desc (Desc ring) m (unat DescIdx) \<lparr>Addr = a, Len = of_nat sz, Flags = VRING_DESC_F_NEXT, Next = DescIdx + 1\<rparr>
     in InitTxLoop ring a sz ps (stack[PktIdx := DescIdx], store_le m1 (Desc ring + 16 * (unat DescIdx + 1) + 12) 2 0))"

definition VirtioNetInitTx ::
  "('d, 'map, 'c) net_services \<Rightarrow> ('d, 'map) VIRTIO_DEVICE_PROTOCOL \<Rightarrow> VRING \<Rightarrow> 'map \<Rightarrow> 'd world
   \<Rightarrow> ((EFI_STATUS + ('map, 'c) VNET_TX) \<times> 'd world) checked" where
  "VirtioNetInitTx S VirtIo ring RingMap w =
    (let n = MaxPending ring; pages = EFI_SIZE_TO_PAGES sizeof_VIRTIO_1_0_NET_REQ
     in case net_AllocatePool S (n * 2) w of
       (None, w1) \<Rightarrow> Ok (Inl EFI_OUT_OF_RESOURCES, w1)
     | (Some stack, w1) \<Rightarrow>
       (case oc_Init S w1 of
          (None, w2) \<Rightarrow> Ok (Inl EFI_OUT_OF_RESOURCES, net_FreePool S stack w2)
        | (Some coll, w2) \<Rightarrow>
          (case AllocateSharedPages VirtIo pages w2 of (Status, buf, w3) \<Rightarrow>
           if EFI_ERROR Status then Ok (Inl Status, net_FreePool S stack (oc_Uninit S coll w3))
           else case VirtioMapAllBytesInSharedBuffer VirtIo VirtioOperationBusMasterCommonBuffer buf sizeof_VIRTIO_1_0_NET_REQ
               (set_mem (fst w3) buf sizeof_VIRTIO_1_0_NET_REQ 0, snd w3) of
             (Status, None, w4) \<Rightarrow> Ok (Inl Status, net_FreePool S stack (oc_Uninit S coll (FreeSharedPages VirtIo pages buf w4)))
           | (Status, Some (a, Mapping), w4) \<Rightarrow>
             (case InitTxLoop ring a (VirtioNetReqSize VirtIo) [0..<n] (replicate n 0, fst w4) of (words, m5) \<Rightarrow>
              let m6 = store_le (store_le (store_le m5 buf 1 0) (buf + 1) 1 0) (buf + 10) 2 0;
                  used = (of_nat (load_le m6 (UsedIdx ring) 2) :: u16)
              in if used \<noteq> 0 then AssertFailed
                 else Ok (Inr \<lparr>TxRing = ring, TxRingMap = RingMap, TxMaxPending = of_nat n, TxCurPending = 0, TxFreeStack = stack, TxFreeStackWords = words,
                       TxSharedReq = buf, TxSharedReqMap = Mapping, TxLastUsed = used, TxBufCollection = coll\<rparr>,
                     store_le m6 (AvailFlags ring) 2 VRING_AVAIL_F_NO_INTERRUPT, snd w4)))))"

text \<open>One packet: two descriptors and an entry of the available ring.  The loop carries the next descriptor, the next
  device address and the memory.\<close>

fun InitRxLoop :: "VRING \<Rightarrow> nat \<Rightarrow> nat \<Rightarrow> nat list \<Rightarrow> u16 \<times> u64 \<times> mem \<Rightarrow> u16 \<times> u64 \<times> mem" where
  "InitRxLoop ring req pkt [] s = s"
| "InitRxLoop ring req pkt (PktIdx # ps) (DescIdx, a, m) =
    (let m1 = store_le m (AvailRing ring + 2 * PktIdx) 2 (unat DescIdx);
         m2 = write_desc (Desc ring) m1 (unat DescIdx)
           \<lparr>Addr = a, Len = of_nat req, Flags = VRING_DESC_F_WRITE OR VRING_DESC_F_NEXT, Next = DescIdx + 1\<rparr>;
         a1 = a + ucast (of_nat req :: u32);
         p = Desc ring + 16 * unat (DescIdx + 1);
         m3 = store_le (store_le (store_le m2 p 8 (unat a1)) (p + 8) 4 (pkt mod 2 ^ 32)) (p + 12) 2 (unat VRING_DESC_F_WRITE)
     in InitRxLoop ring req pkt ps (DescIdx + 2, a1 + ucast (of_nat pkt :: u32), m3))"

definition VirtioNetInitRx ::
  "('d, 'map) VIRTIO_DEVICE_PROTOCOL \<Rightarrow> EFI_SIMPLE_NETWORK_MODE \<Rightarrow> VRING \<Rightarrow> 'map \<Rightarrow> 'd world
   \<Rightarrow> ((EFI_STATUS + 'map VNET_RX) \<times> 'd world) checked" where
  "VirtioNetInitRx VirtIo mode ring RingMap w =
    (let req = VirtioNetReqSize VirtIo; pkt = MediaHeaderSize mode + MaxPacketSize mode; n = MaxPending ring;
         NumBytes = n * (req + pkt); pages = EFI_SIZE_TO_PAGES NumBytes
     in case AllocateSharedPages VirtIo pages w of (Status, buf, w1) \<Rightarrow>
       if EFI_ERROR Status then Ok (Inl Status, w1)
       else case VirtioMapAllBytesInSharedBuffer VirtIo VirtioOperationBusMasterCommonBuffer buf NumBytes (set_mem (fst w1) buf NumBytes 0, snd w1) of
         (Status, None, w2) \<Rightarrow> Ok (Inl Status, FreeSharedPages VirtIo pages buf w2)
       | (Status, Some (base, Mapping), w2) \<Rightarrow>
         let used = (of_nat (load_le (fst w2) (UsedIdx ring) 2) :: u16)
         in if used \<noteq> 0 then AssertFailed
            else case InitRxLoop ring req pkt [0..<n] (0, base, store_le (fst w2) (AvailFlags ring) 2 VRING_AVAIL_F_NO_INTERRUPT) of (_, _, m3) \<Rightarrow>
              case SetQueueNotify VirtIo VIRTIO_NET_Q_RX (store_le m3 (AvailIdx ring) 2 n, snd w2) of (Status, w4) \<Rightarrow>
                if EFI_ERROR Status
                then Ok (Inl Status, FreeSharedPages VirtIo pages buf (snd (UnmapSharedBuffer VirtIo Mapping (snd (SetDeviceStatus VirtIo 0 w4)))))
                else Ok (Inr \<lparr>RxRing = ring, RxRingMap = RingMap, RxBuf = buf, RxLastUsed = used, RxBufNrPages = pages, RxBufDeviceBase = base,
                  RxBufMap = Mapping\<rparr>, w4))"

text \<open>From \<open>DRIVER\<close> to the feature bits of a 1.0 device.\<close>

definition NegotiateNet ::
  "('d, 'map) VIRTIO_DEVICE_PROTOCOL \<Rightarrow> EFI_SIMPLE_NETWORK_MODE \<Rightarrow> u8 \<times> 'd world \<Rightarrow> ((EFI_STATUS + u64) \<times> u8 \<times> 'd world) checked" where
  "NegotiateNet VirtIo mode s =
    (case es_bind (add_status VirtIo VSTAT_DRIVER) (\<lambda>_. es_bind (es_call (SetPageSize VirtIo EFI_PAGE_SIZE)) (\<lambda>_. es_query (GetDeviceFeatures VirtIo))) s of
       (Inl Status, s1) \<Rightarrow> Ok (Inl Status, s1)
     | (Inr Features, s1) \<Rightarrow>
       if Features AND VIRTIO_NET_F_MAC = 0 then AssertFailed
       else if MediaPresentSupported mode \<noteq> (Features AND VIRTIO_NET_F_STATUS \<noteq> 0) then AssertFailed
       else let f = Features AND (VIRTIO_NET_F_MAC OR VIRTIO_NET_F_STATUS OR VIRTIO_F_VERSION_1 OR VIRTIO_F_IOMMU_PLATFORM)
         in case WriteFeatures10 VirtIo f s1 of (Inl Status, s2) \<Rightarrow> Ok (Inl Status, s2) | (Inr _, s2) \<Rightarrow> Ok (Inr f, s2))"

text \<open>Feature bits of an older device, \<open>DRIVER_OK\<close>.\<close>

definition EnableNet :: "('d, 'map) VIRTIO_DEVICE_PROTOCOL \<Rightarrow> u64 \<Rightarrow> ('d, unit) init_step" where
  "EnableNet VirtIo f =
    es_bind (if Revision VirtIo < VIRTIO_SPEC_REVISION 1 0 0 then es_call (SetGuestFeatures VirtIo (f AND NOT (VIRTIO_F_VERSION_1 OR VIRTIO_F_IOMMU_PLATFORM)))
             else es_ret ()) (\<lambda>_. add_status VirtIo VSTAT_DRIVER_OK)"

text \<open>Rings and traffic; each label is a release before the result.\<close>

definition InitTraffic ::
  "('d, 'map, 'c) net_services \<Rightarrow> ('d, 'map) VIRTIO_DEVICE_PROTOCOL \<Rightarrow> EFI_SIMPLE_NETWORK_MODE \<Rightarrow> u64 \<Rightarrow> u8 \<times> 'd world
   \<Rightarrow> ((EFI_STATUS + 'map VNET_RX \<times> ('map, 'c) VNET_TX) \<times> 'd world) checked" where
  "InitTraffic S VirtIo mode f s =
    (case VirtioNetInitRing VirtIo VIRTIO_NET_Q_RX (snd s) of
       (Inl Status, w1) \<Rightarrow> Ok (Inl Status, w1)
     | (Inr (rxr, rxm), w1) \<Rightarrow>
       (case VirtioNetInitRing VirtIo VIRTIO_NET_Q_TX w1 of
          (Inl Status, w2) \<Rightarrow> Ok (Inl Status, VirtioNetUninitRing VirtIo rxr rxm w2)
        | (Inr (txr, txm), w2) \<Rightarrow>
          (let release = (\<lambda>w. VirtioNetUninitRing VirtIo rxr rxm (VirtioNetUninitRing VirtIo txr txm w))
           in case EnableNet VirtIo f (fst s, w2) of
             (Inl Status, _, w3) \<Rightarrow> Ok (Inl Status, release w3)
           | (Inr _, _, w3) \<Rightarrow>
             chk_bind (VirtioNetInitTx S VirtIo txr txm w3) (\<lambda>(r, w4).
               case r of Inl Status \<Rightarrow> Ok (Inl Status, release (snd (SetDeviceStatus VirtIo 0 w4)))
               | Inr tx \<Rightarrow>
                 chk_bind (VirtioNetInitRx VirtIo mode rxr rxm w4) (\<lambda>(r, w5).
                   case r of Inl Status \<Rightarrow> Ok (Inl Status, release (snd (SetDeviceStatus VirtIo 0 (VirtioNetShutdownTx S VirtIo tx w5))))
                   | Inr rx \<Rightarrow> Ok (Inr (rx, tx), w5))))))"

definition VirtioNetInitialize ::
  "('d, 'map, 'c) net_services \<Rightarrow> ('d, 'map) VIRTIO_DEVICE_PROTOCOL \<Rightarrow> bool \<Rightarrow> ('map, 'c) VNET_DEV \<Rightarrow> nat \<Rightarrow> nat \<Rightarrow> 'd world
   \<Rightarrow> (EFI_STATUS \<times> ('map, 'c) VNET_DEV \<times> 'd world) checked" where
  "VirtioNetInitialize S VirtIo This Dev ExtraRxBufferSize ExtraTxBufferSize w =
    (if \<not> This then Ok (EFI_INVALID_PARAMETER, Dev, w)
     else if ExtraRxBufferSize > 0 \<or> ExtraTxBufferSize > 0 then Ok (EFI_UNSUPPORTED, Dev, w)
     else if NetState (Snm Dev) \<noteq> EfiSimpleNetworkStarted then Ok (EFI_NOT_STARTED, Dev, w)
     else case SetDeviceStatus VirtIo VSTAT_ACK w of (Status, w1) \<Rightarrow>
       if EFI_ERROR Status then Ok (Status, Dev, w1)
       else chk_bind (chk_bind (NegotiateNet VirtIo (Snm Dev) (VSTAT_ACK, w1)) (\<lambda>(r, s2).
           case r of Inl Status \<Rightarrow> Ok (Inl Status, snd s2) | Inr f \<Rightarrow> InitTraffic S VirtIo (Snm Dev) f s2))
         (\<lambda>(r, w3). case r of
            Inl Status \<Rightarrow> Ok (Status, Dev, snd (SetDeviceStatus VirtIo 0 w3))
          | Inr net \<Rightarrow> Ok (EFI_SUCCESS, Dev\<lparr>Snm := (Snm Dev)\<lparr>NetState := EfiSimpleNetworkInitialized\<rparr>, Net := Some net\<rparr>, w3)))"

section \<open>The other members\<close>

definition VirtioNetStart :: "bool \<Rightarrow> ('map, 'c) VNET_DEV \<Rightarrow> EFI_STATUS \<times> ('map, 'c) VNET_DEV" where
  "VirtioNetStart This Dev =
    (if \<not> This then (EFI_INVALID_PARAMETER, Dev)
     else if NetState (Snm Dev) \<noteq> EfiSimpleNetworkStopped then (EFI_ALREADY_STARTED, Dev)
     else (EFI_SUCCESS, Dev\<lparr>Snm := (Snm Dev)\<lparr>NetState := EfiSimpleNetworkStarted\<rparr>\<rparr>))"

definition VirtioNetStop :: "bool \<Rightarrow> ('map, 'c) VNET_DEV \<Rightarrow> EFI_STATUS \<times> ('map, 'c) VNET_DEV" where
  "VirtioNetStop This Dev =
    (if \<not> This then (EFI_INVALID_PARAMETER, Dev)
     else if NetState (Snm Dev) \<noteq> EfiSimpleNetworkStarted then (EFI_NOT_STARTED, Dev)
     else (EFI_SUCCESS, Dev\<lparr>Snm := (Snm Dev)\<lparr>NetState := EfiSimpleNetworkStopped\<rparr>\<rparr>))"

definition VirtioNetShutdown ::
  "('d, 'map, 'c) net_services \<Rightarrow> ('d, 'map) VIRTIO_DEVICE_PROTOCOL \<Rightarrow> bool \<Rightarrow> ('map, 'c) VNET_DEV \<Rightarrow> 'd world
   \<Rightarrow> (EFI_STATUS \<times> ('map, 'c) VNET_DEV \<times> 'd world) checked" where
  "VirtioNetShutdown S VirtIo This Dev w =
    (if \<not> This then Ok (EFI_INVALID_PARAMETER, Dev, w)
     else case NotInitialized (NetState (Snm Dev)) of Some Status \<Rightarrow> Ok (Status, Dev, w)
     | None \<Rightarrow>
       case Net Dev of None \<Rightarrow> OutOfBounds
       | Some (rx, tx) \<Rightarrow>
         let w1 = snd (SetDeviceStatus VirtIo 0 w); w2 = VirtioNetShutdownTx S VirtIo tx (VirtioNetShutdownRx VirtIo rx w1);
             w3 = VirtioNetUninitRing VirtIo (RxRing rx) (RxRingMap rx) (VirtioNetUninitRing VirtIo (TxRing tx) (TxRingMap tx) w2)
         in Ok (EFI_SUCCESS, Dev\<lparr>Snm := (Snm Dev)\<lparr>NetState := EfiSimpleNetworkStarted\<rparr>, Net := None\<rparr>, w3))"

definition VirtioNetReceiveFilters :: "bool \<Rightarrow> EFI_SIMPLE_NETWORK_MODE \<Rightarrow> u32 \<Rightarrow> u32 \<Rightarrow> bool \<Rightarrow> nat \<Rightarrow> EFI_STATUS" where
  "VirtioNetReceiveFilters This mode Enable Disable ResetMCastFilter n =
    (if \<not> This then EFI_INVALID_PARAMETER
     else case NotInitialized (NetState mode) of Some Status \<Rightarrow> Status
     | None \<Rightarrow> if (Enable OR Disable) AND NOT (ReceiveFilterMask mode) \<noteq> 0 \<or> \<not> ResetMCastFilter \<and> n > MaxMCastFilterCount mode
       then EFI_INVALID_PARAMETER else EFI_SUCCESS)"

text \<open>\<open>Ip\<close> is the bytes of an \<open>EFI_IP_ADDRESS\<close> or \<open>NULL\<close>; the result is the address that is written.\<close>

definition VirtioNetMcastIpToMac :: "bool \<Rightarrow> EFI_SIMPLE_NETWORK_MODE \<Rightarrow> bool \<Rightarrow> u8 list option \<Rightarrow> bool \<Rightarrow> EFI_STATUS + u8 list" where
  "VirtioNetMcastIpToMac This mode IPv6 Ip Mac =
    (case Ip of None \<Rightarrow> Inl EFI_INVALID_PARAMETER
     | Some a \<Rightarrow>
       if \<not> This \<or> \<not> Mac \<or> IPv6 \<and> a ! 0 \<noteq> 0xFF \<or> \<not> IPv6 \<and> a ! 0 AND 0xF0 \<noteq> 0xE0 then Inl EFI_INVALID_PARAMETER
       else case NotInitialized (NetState mode) of Some Status \<Rightarrow> Inl Status
       | None \<Rightarrow> Inr (if IPv6 then [0x33, 0x33, a ! 12, a ! 13, a ! 14, a ! 15] else [0x01, 0x00, 0x5E, a ! 1 AND 0x7F, a ! 2, a ! 3]))"

definition VirtioNetReset :: "bool \<Rightarrow> EFI_STATUS" where "VirtioNetReset ExtendedVerification = EFI_UNSUPPORTED"
definition VirtioNetStationAddress :: "bool \<Rightarrow> EFI_STATUS" where "VirtioNetStationAddress Reset = EFI_UNSUPPORTED"
definition VirtioNetStatistics :: "bool \<Rightarrow> EFI_STATUS" where "VirtioNetStatistics Reset = EFI_UNSUPPORTED"
definition VirtioNetNvData :: "bool \<Rightarrow> nat \<Rightarrow> nat \<Rightarrow> EFI_STATUS" where "VirtioNetNvData ReadWrite off n = EFI_UNSUPPORTED"

section \<open>Events.c\<close>

text \<open>Whether \<open>WaitForPacket\<close> is signalled.\<close>

definition VirtioNetIsPacketAvailable :: "('map, 'c) VNET_DEV \<Rightarrow> mem \<Rightarrow> bool checked" where
  "VirtioNetIsPacketAvailable Dev m =
    (if NetState (Snm Dev) \<noteq> EfiSimpleNetworkInitialized then Ok False
     else case Net Dev of None \<Rightarrow> OutOfBounds | Some (rx, tx) \<Rightarrow> Ok (RxLastUsed rx \<noteq> of_nat (load_le m (UsedIdx (RxRing rx)) 2)))"

definition VirtioNetExitBoot :: "('d, 'map) VIRTIO_DEVICE_PROTOCOL \<Rightarrow> ('map, 'c) VNET_DEV \<Rightarrow> 'd world \<Rightarrow> 'd world" where
  "VirtioNetExitBoot VirtIo Dev w = (if NetState (Snm Dev) = EfiSimpleNetworkInitialized then snd (SetDeviceStatus VirtIo 0 w) else w)"

section \<open>DriverBinding.c\<close>

text \<open>The boot services the binding uses.  Device paths are opaque; \<open>AppendNode\<close> allocates the new path, \<open>InstallNet\<close>
  creates the child handle with both protocols, \<open>OpenChild\<close> is the open by the child controller.\<close>

record ('d, 'p) net_binding =
  nb_AllocateZeroPool :: "'d world \<Rightarrow> nat option \<times> 'd world"
  nb_FreePool :: "nat \<Rightarrow> 'd world \<Rightarrow> 'd world"
  nb_OpenVirtIo :: "'d world \<Rightarrow> EFI_STATUS \<times> 'd world"
  nb_CloseVirtIo :: "'d world \<Rightarrow> 'd world"
  nb_CreateEvent :: "'d world \<Rightarrow> EFI_STATUS \<times> nat \<times> 'd world"
  nb_CloseEvent :: "nat \<Rightarrow> 'd world \<Rightarrow> 'd world"
  nb_GetDevicePath :: "'d world \<Rightarrow> EFI_STATUS \<times> 'p \<times> 'd world"
  nb_AppendNode :: "'p \<Rightarrow> u8 list \<Rightarrow> 'd world \<Rightarrow> nat option \<times> 'd world"
  nb_InstallNet :: "nat \<Rightarrow> 'd world \<Rightarrow> EFI_STATUS \<times> 'd world"
  nb_UninstallNet :: "nat \<Rightarrow> 'd world \<Rightarrow> 'd world"
  nb_OpenChild :: "'d world \<Rightarrow> EFI_STATUS \<times> 'd world"
  nb_CloseChild :: "'d world \<Rightarrow> 'd world"
  nb_GetNet :: "'d world \<Rightarrow> EFI_STATUS \<times> 'd world"

fun ReadMacLoop :: "('d, 'map) VIRTIO_DEVICE_PROTOCOL \<Rightarrow> nat list \<Rightarrow> ('d, u8 list) init_step" where
  "ReadMacLoop VirtIo [] = es_ret []"
| "ReadMacLoop VirtIo (MacIdx # is) =
    es_bind (es_query (ReadDevice VirtIo MacIdx 1)) (\<lambda>b. es_bind (ReadMacLoop VirtIo is) (\<lambda>bs. es_ret (of_nat b # bs)))"

text \<open>The hardware address, whether the link state is available, and the link state.\<close>

definition VirtioNetGetFeatures :: "('d, 'map) VIRTIO_DEVICE_PROTOCOL \<Rightarrow> 'd world \<Rightarrow> (EFI_STATUS + u8 list \<times> bool \<times> bool) \<times> 'd world" where
  "VirtioNetGetFeatures VirtIo w =
    (case SetDeviceStatus VirtIo 0 w of (Status, w1) \<Rightarrow>
     if EFI_ERROR Status then (Inl Status, w1)
     else case (es_bind (add_status VirtIo VSTAT_ACK) (\<lambda>_. es_bind (add_status VirtIo VSTAT_DRIVER) (\<lambda>_.
         es_bind (es_query (GetDeviceFeatures VirtIo)) (\<lambda>Features.
           if Features AND VIRTIO_NET_F_MAC = 0 then es_fail EFI_UNSUPPORTED
           else es_bind (ReadMacLoop VirtIo [0..<SIZE_OF_VNET_Mac]) (\<lambda>mac.
             if Features AND VIRTIO_NET_F_STATUS = 0 then es_ret (mac, False, False)
             else es_bind (es_query (ReadDevice VirtIo OFFSET_OF_VNET_LinkStatus 2)) (\<lambda>LinkStatus.
               es_ret (mac, True, LinkStatus AND VIRTIO_NET_S_LINK_UP \<noteq> 0))))))) (0, w1) of (r, _, w2) \<Rightarrow>
       (r, snd (SetDeviceStatus VirtIo (case r of Inl _ \<Rightarrow> VSTAT_FAILED | Inr _ \<Rightarrow> 0) w2)))"

definition SnpMode :: "u8 list \<Rightarrow> bool \<Rightarrow> bool \<Rightarrow> EFI_SIMPLE_NETWORK_MODE" where
  "SnpMode mac supported present =
    \<lparr>NetState = EfiSimpleNetworkStopped, HwAddressSize = SIZE_OF_VNET_Mac, MediaHeaderSize = SIZE_OF_VNET_Mac + SIZE_OF_VNET_Mac + 2,
     MaxPacketSize = 1500, ReceiveFilterMask = RECEIVE_FILTERS_NO_MCAST, ReceiveFilterSetting = RECEIVE_FILTERS_NO_MCAST, MaxMCastFilterCount = 0,
     MCastFilterCount = 0, CurrentAddress = mac @ replicate 26 0, PermanentAddress = mac @ replicate 26 0,
     BroadcastAddress = replicate 6 0xFF @ replicate 26 0, IfType = 1, MediaPresentSupported = supported, MediaPresent = present\<rparr>"

text \<open>The events \<open>WaitForPacket\<close> and \<open>ExitBoot\<close> with the mode.\<close>

definition VirtioNetSnpPopulate ::
  "('d, 'p) net_binding \<Rightarrow> ('d, 'map) VIRTIO_DEVICE_PROTOCOL \<Rightarrow> 'd world \<Rightarrow> (EFI_STATUS + nat \<times> nat \<times> EFI_SIMPLE_NETWORK_MODE) \<times> 'd world" where
  "VirtioNetSnpPopulate B VirtIo w =
    (case nb_CreateEvent B w of (Status, WaitForPacket, w1) \<Rightarrow>
     if EFI_ERROR Status then (Inl Status, w1)
     else case VirtioNetGetFeatures VirtIo w1 of
       (Inl Status, w2) \<Rightarrow> (Inl Status, nb_CloseEvent B WaitForPacket w2)
     | (Inr (mac, supported, present), w2) \<Rightarrow>
       (case nb_CreateEvent B w2 of (Status, ExitBoot, w3) \<Rightarrow>
        if EFI_ERROR Status then (Inl Status, nb_CloseEvent B WaitForPacket w3)
        else (Inr (WaitForPacket, ExitBoot, SnpMode mac supported present), w3)))"

definition VirtioNetSnpEvacuate :: "('d, 'p) net_binding \<Rightarrow> nat \<Rightarrow> nat \<Rightarrow> 'd world \<Rightarrow> 'd world" where
  "VirtioNetSnpEvacuate B WaitForPacket ExitBoot w = nb_CloseEvent B WaitForPacket (nb_CloseEvent B ExitBoot w)"

definition VirtioNetDriverBindingSupported ::
  "('d, 'p) net_binding \<Rightarrow> ('d, 'map) VIRTIO_DEVICE_PROTOCOL \<Rightarrow> 'd world \<Rightarrow> EFI_STATUS \<times> 'd world" where
  "VirtioNetDriverBindingSupported B VirtIo w =
    (case nb_OpenVirtIo B w of (Status, w1) \<Rightarrow>
     if EFI_ERROR Status then (Status, w1)
     else (if SubSystemDeviceId VirtIo \<noteq> VIRTIO_SUBSYSTEM_NETWORK_CARD then EFI_UNSUPPORTED else Status, nb_CloseVirtIo B w1))"

text \<open>The messaging node with the hardware address: type, subtype, length 37, address, interface type.\<close>

definition MacNode :: "EFI_SIMPLE_NETWORK_MODE \<Rightarrow> u8 list" where
  "MacNode mode = [3, 11] @ le_bytes 2 37 @ take 32 (CurrentAddress mode) @ [IfType mode]"

record ('map, 'c) net_instance =
  ni_pool :: nat
  ni_WaitForPacket :: nat
  ni_ExitBoot :: nat
  ni_MacDevicePath :: nat
  ni_Dev :: "('map, 'c) VNET_DEV"

definition VirtioNetDriverBindingStart ::
  "('d, 'p) net_binding \<Rightarrow> ('d, 'map) VIRTIO_DEVICE_PROTOCOL \<Rightarrow> 'd world \<Rightarrow> (EFI_STATUS + ('map, 'c) net_instance) \<times> 'd world" where
  "VirtioNetDriverBindingStart B VirtIo w =
    (case nb_AllocateZeroPool B w of
       (None, w1) \<Rightarrow> (Inl EFI_OUT_OF_RESOURCES, w1)
     | (Some p, w1) \<Rightarrow>
       (case nb_OpenVirtIo B w1 of (Status, w2) \<Rightarrow>
        if EFI_ERROR Status then (Inl Status, nb_FreePool B p w2)
        else case VirtioNetSnpPopulate B VirtIo w2 of
          (Inl Status, w3) \<Rightarrow> (Inl Status, nb_FreePool B p (nb_CloseVirtIo B w3))
        | (Inr (wait, exitb, mode), w3) \<Rightarrow>
          (let Evacuate = (\<lambda>w. nb_FreePool B p (nb_CloseVirtIo B (VirtioNetSnpEvacuate B wait exitb w)))
           in case nb_GetDevicePath B w3 of (Status, path, w4) \<Rightarrow>
           if EFI_ERROR Status then (Inl Status, Evacuate w4)
           else case nb_AppendNode B path (MacNode mode) w4 of
             (None, w5) \<Rightarrow> (Inl EFI_OUT_OF_RESOURCES, Evacuate w5)
           | (Some mp, w5) \<Rightarrow>
             (case nb_InstallNet B mp w5 of (Status, w6) \<Rightarrow>
              if EFI_ERROR Status then (Inl Status, Evacuate (nb_FreePool B mp w6))
              else case nb_OpenChild B w6 of (Status, w7) \<Rightarrow>
                if EFI_ERROR Status then (Inl Status, Evacuate (nb_FreePool B mp (nb_UninstallNet B mp w7)))
                else (Inr \<lparr>ni_pool = p, ni_WaitForPacket = wait, ni_ExitBoot = exitb, ni_MacDevicePath = mp, ni_Dev = \<lparr>Snm = mode, Net = None\<rparr>\<rparr>, w7)))))"

text \<open>The stop of the child, then of the controller.\<close>

definition VirtioNetDriverBindingStop ::
  "('d, 'p) net_binding \<Rightarrow> ('map, 'c) net_instance \<Rightarrow> nat \<Rightarrow> 'd world \<Rightarrow> (EFI_STATUS \<times> 'd world) checked" where
  "VirtioNetDriverBindingStop B i NumberOfChildren w =
    (if NumberOfChildren > 0 then
       if NumberOfChildren \<noteq> 1 then AssertFailed
       else case nb_GetNet B w of (Status, w1) \<Rightarrow>
         if EFI_ERROR Status then AssertFailed
         else if NetState (Snm (ni_Dev i)) \<noteq> EfiSimpleNetworkStopped then Ok (EFI_DEVICE_ERROR, w1)
         else Ok (Status, nb_FreePool B (ni_pool i) (VirtioNetSnpEvacuate B (ni_WaitForPacket i) (ni_ExitBoot i)
           (nb_FreePool B (ni_MacDevicePath i) (nb_UninstallNet B (ni_MacDevicePath i) (nb_CloseChild B w1)))))
     else Ok (EFI_SUCCESS, nb_CloseVirtIo B w))"

end
