(* ===== verification/VirtioQueue.thy ===== *)
theory VirtioQueue
  imports VirtioHost VirtioNet
begin

text \<open>
  A virtqueue with many requests outstanding: the host fetches published chains and returns them in any order,
  at any time.  Used by the network driver, whose queues are not drained after every request.
\<close>

section \<open>Indices\<close>

lemma u16_next: "unat (x - y :: u16) + 1 < 65536 \<Longrightarrow> unat (x + 1 - y) = unat (x - y) + 1"
proof -
  assume "unat (x - y) + 1 < 65536"
  then have "unat ((x - y) + 1) = unat (x - y) + 1" by (simp add: unat_word_ariths)
  then show ?thesis by (simp add: algebra_simps)
qed

lemma u16_prev: "x \<noteq> y \<Longrightarrow> unat (x - (y + 1) :: u16) = unat (x - y) - 1"
proof -
  assume "x \<noteq> y"
  then have "x - y \<noteq> 0" by simp
  then have "unat ((x - y) - 1) = unat (x - y) - 1" by (rule unat_minus_one)
  then show ?thesis by (simp add: algebra_simps)
qed

lemma u16_load: "unat (of_nat (load_le m p 2) :: u16) = load_le m p 2"
  using load_le_less [of m p 2] by (simp add: unat_of_nat)

lemma u16_slot: "Q dvd 65536 \<Longrightarrow> unat (x + of_nat k :: u16) mod Q = (unat x + k) mod Q"
  by (rule u16_index_mod)

section \<open>The two rings\<close>

definition avail16 :: "VRING \<Rightarrow> mem \<Rightarrow> u16" where
  "avail16 r m = of_nat (load_le m (AvailIdx r) 2)"

definition used16 :: "VRING \<Rightarrow> mem \<Rightarrow> u16" where
  "used16 r m = of_nat (load_le m (UsedIdx r) 2)"

definition avail_entry :: "VRING \<Rightarrow> mem \<Rightarrow> nat \<Rightarrow> nat" where
  "avail_entry r m i = load_le m (AvailRing r + 2 * (i mod unat (QueueSize r))) 2"

definition push_used :: "VRING \<Rightarrow> mem \<Rightarrow> nat \<Rightarrow> nat \<Rightarrow> mem" where
  "push_used r m d n =
    (let e = UsedElem r + 8 * (unat (used16 r m) mod unat (QueueSize r))
     in store_le (store_le (store_le m e 4 d) (e + 4) 4 n) (UsedIdx r) 2 (unat (used16 r m + 1)))"

text \<open>The host's view: the chains it has fetched and not returned, and the index up to which it has fetched.\<close>

type_synonym host = "nat list \<times> u16"

definition in_flight :: "VRING \<Rightarrow> mem \<Rightarrow> host \<Rightarrow> nat list" where
  "in_flight r m h = fst h @ map (\<lambda>i. avail_entry r m (unat (snd h) + i)) [0..<unat (avail16 r m - snd h)]"

text \<open>Steps of the host.  \<open>serve d\<close> relates the memory before and after the chain \<open>d\<close> was served and the length
  reported; memory outside the protected area may change at any time.\<close>

inductive host_step :: "VRING \<Rightarrow> nat set \<Rightarrow> (nat \<Rightarrow> mem \<Rightarrow> mem \<Rightarrow> nat \<Rightarrow> bool) \<Rightarrow> mem \<times> host \<Rightarrow> mem \<times> host \<Rightarrow> bool"
  for r prot serve where
  fetch: "avail16 r m \<noteq> l \<Longrightarrow> host_step r prot serve (m, T, l) (m, T @ [avail_entry r m (unat l)], l + 1)"
| complete: "d \<in> set T \<Longrightarrow> serve d m m1 n \<Longrightarrow> host_step r prot serve (m, T, l) (push_used r m1 d n, remove1 d T, l)"
| elsewhere: "(\<And>x. x \<in> prot \<Longrightarrow> m' x = m x) \<Longrightarrow> host_step r prot serve (m, h) (m', h)"

text \<open>Completed chains the driver has not seen: identifier and length, from the driver's index on.\<close>

definition used_queue :: "VRING \<Rightarrow> mem \<Rightarrow> u16 \<Rightarrow> (nat \<times> nat) list \<Rightarrow> bool" where
  "used_queue r m lst C \<longleftrightarrow> used16 r m = lst + of_nat (length C) \<and>
    (\<forall>i<length C. read_used (UsedElem r) m ((unat lst + i) mod unat (QueueSize r)) = \<lparr>UsedId = of_nat (fst (C ! i)), UsedLen = of_nat (snd (C ! i))\<rparr>)"

text \<open>The layout facts that the frame conditions need.\<close>

lemma ring_layout:
  assumes "vring_ok r"
  shows "0 < unat (QueueSize r)" "AvailIdx r = AvailFlags r + 2" "AvailFlags r = Desc r + 16 * unat (QueueSize r)" "AvailRing r = AvailIdx r + 2"
    "AvailRing r + 2 * unat (QueueSize r) + 2 \<le> UsedFlags r" "UsedIdx r = UsedFlags r + 2" "UsedElem r = UsedIdx r + 2"
    "UsedAvailEvent r = UsedElem r + 8 * unat (QueueSize r)" "Base r = Desc r"
  using assms by (auto simp: vring_ok_def Let_def)

lemma read_used_cong: "(\<And>x. b + 8 * i \<le> x \<Longrightarrow> x < b + 8 * i + 8 \<Longrightarrow> m' x = m x) \<Longrightarrow> read_used b m' i = read_used b m i"
proof -
  assume a: "\<And>x. b + 8 * i \<le> x \<Longrightarrow> x < b + 8 * i + 8 \<Longrightarrow> m' x = m x"
  have "load_le m' (b + 8 * i) 4 = load_le m (b + 8 * i) 4" "load_le m' (b + 8 * i + 4) 4 = load_le m (b + 8 * i + 4) 4"
    by (auto intro!: load_le_cong a)
  then show ?thesis by (simp add: read_used_def)
qed

lemma slot_less: "vring_ok r \<Longrightarrow> i mod unat (QueueSize r) < unat (QueueSize r)"
  using ring_layout(1) by simp

text \<open>What depends on which part of the ring.\<close>

lemma used_queue_frame:
  assumes ok: "vring_ok r" and f: "\<And>x. UsedIdx r \<le> x \<Longrightarrow> x < UsedAvailEvent r \<Longrightarrow> m' x = m x"
  shows "used_queue r m' lst C \<longleftrightarrow> used_queue r m lst C"
proof -
  note L = ring_layout [OF ok]
  have u: "used16 r m' = used16 r m" unfolding used16_def by (rule arg_cong [where f = of_nat], rule load_le_cong) (use f L(7,8) in auto)
  have e: "read_used (UsedElem r) m' (i mod unat (QueueSize r)) = read_used (UsedElem r) m (i mod unat (QueueSize r))" for i
    by (rule read_used_cong) (use f L(7,8) slot_less [OF ok, of i] in auto)
  show ?thesis by (simp add: used_queue_def u e)
qed

lemma in_flight_frame:
  assumes ok: "vring_ok r" and f: "\<And>x. AvailIdx r \<le> x \<Longrightarrow> x < AvailRing r + 2 * unat (QueueSize r) \<Longrightarrow> m' x = m x"
  shows "in_flight r m' h = in_flight r m h"
proof -
  note L = ring_layout [OF ok]
  have a: "avail16 r m' = avail16 r m" unfolding avail16_def by (rule arg_cong [where f = of_nat], rule load_le_cong) (use f L(4) in auto)
  have e: "avail_entry r m' i = avail_entry r m i" for i
    unfolding avail_entry_def by (rule load_le_cong) (use f L(4) slot_less [OF ok, of i] in auto)
  show ?thesis by (simp add: in_flight_def a e)
qed

lemma read_desc_cong: "(\<And>x. b + 16 * i \<le> x \<Longrightarrow> x < b + 16 * i + 16 \<Longrightarrow> m' x = m x) \<Longrightarrow> read_desc b m' i = read_desc b m i"
proof -
  assume a: "\<And>x. b + 16 * i \<le> x \<Longrightarrow> x < b + 16 * i + 16 \<Longrightarrow> m' x = m x"
  have "load_le m' (b + 16 * i) 8 = load_le m (b + 16 * i) 8" "load_le m' (b + 16 * i + 8) 4 = load_le m (b + 16 * i + 8) 4"
    "load_le m' (b + 16 * i + 12) 2 = load_le m (b + 16 * i + 12) 2" "load_le m' (b + 16 * i + 14) 2 = load_le m (b + 16 * i + 14) 2"
    by (auto intro!: load_le_cong a)
  then show ?thesis by (simp add: read_desc_def Let_def)
qed

section \<open>Completion\<close>

lemma push_used_frame:
  assumes "vring_ok r" and "x < UsedIdx r \<or> UsedAvailEvent r \<le> x"
  shows "push_used r m d n x = m x"
proof -
  note L = ring_layout [OF assms(1)]
  have "unat (used16 r m) mod unat (QueueSize r) < unat (QueueSize r)" using L(1) by simp
  then show ?thesis using assms(2) L(7,8) by (auto simp: push_used_def Let_def store_le_other)
qed

lemma used16_push_used: "used16 r (push_used r m d n) = used16 r m + 1"
  using unat_u16_less [of "used16 r m + 1"] by (simp add: used16_def push_used_def Let_def mem_simps)

lemma push_used_result:
  assumes ok: "vring_ok r" and Q: "unat (QueueSize r) dvd 65536" and q: "used_queue r m lst C" and len: "length C < unat (QueueSize r)"
    and dn: "d < 2 ^ 32" "n < 2 ^ 32"
  shows "used_queue r (push_used r m d n) lst (C @ [(d, n)])"
proof -
  note L = ring_layout [OF ok]
  let ?q = "unat (QueueSize r)" and ?s = "unat (used16 r m) mod unat (QueueSize r)"
  let ?e = "UsedElem r + 8 * ?s"
  have s: "?s = (unat lst + length C) mod ?q" using q u16_slot [OF Q] by (simp add: used_queue_def)
  have sl: "?s < ?q" using L(1) by simp
  note u = used16_push_used [of r m d n]
  have new: "read_used (UsedElem r) (push_used r m d n) ?s = \<lparr>UsedId = of_nat d, UsedLen = of_nat n\<rparr>"
    using dn L(7) by (simp add: read_used_def push_used_def Let_def mem_simps)
  have old: "read_used (UsedElem r) (push_used r m d n) ((unat lst + i) mod ?q) = read_used (UsedElem r) m ((unat lst + i) mod ?q)" if "i < length C" for i
  proof (rule read_used_cong)
    fix x assume x: "UsedElem r + 8 * ((unat lst + i) mod ?q) \<le> x" "x < UsedElem r + 8 * ((unat lst + i) mod ?q) + 8"
    have "(unat lst + i) mod ?q \<noteq> ?s" using mod_add_inj [of "unat lst" i ?q "length C"] that len s by auto
    then have "x < ?e \<or> ?e + 8 \<le> x" using x by (cases "(unat lst + i) mod ?q < ?s") linarith+
    then show "push_used r m d n x = m x" using x L(7) by (auto simp: push_used_def Let_def store_le_other)
  qed
  show ?thesis unfolding used_queue_def
  proof (intro conjI allI impI)
    show "used16 r (push_used r m d n) = lst + of_nat (length (C @ [(d, n)]))" using u q by (simp add: used_queue_def algebra_simps)
    fix i assume "i < length (C @ [(d, n)])"
    then consider "i < length C" | "i = length C" by (auto simp: less_Suc_eq)
    then show "read_used (UsedElem r) (push_used r m d n) ((unat lst + i) mod ?q)
        = \<lparr>UsedId = of_nat (fst ((C @ [(d, n)]) ! i)), UsedLen = of_nat (snd ((C @ [(d, n)]) ! i))\<rparr>"
      using old new s q by cases (auto simp: used_queue_def nth_append)
  qed
qed

lemma used_queue_head:
  assumes "unat (QueueSize r) dvd 65536" and "used_queue r m lst (c # C)"
  shows "read_used (UsedElem r) m (unat lst mod unat (QueueSize r)) = \<lparr>UsedId = of_nat (fst c), UsedLen = of_nat (snd c)\<rparr>" "used_queue r m (lst + 1) C"
proof -
  have A: "\<forall>i<length (c # C). read_used (UsedElem r) m ((unat lst + i) mod unat (QueueSize r)) = \<lparr>UsedId = of_nat (fst ((c # C) ! i)), UsedLen = of_nat (snd ((c # C) ! i))\<rparr>"
    using assms(2) by (simp add: used_queue_def)
  show "read_used (UsedElem r) m (unat lst mod unat (QueueSize r)) = \<lparr>UsedId = of_nat (fst c), UsedLen = of_nat (snd c)\<rparr>" using A [rule_format, of 0] by simp
  have "(unat (lst + 1) + i) mod unat (QueueSize r) = (unat lst + Suc i) mod unat (QueueSize r)" for i
    using u16_slot [OF assms(1), of lst 1] by (metis Suc_eq_plus1_left add.assoc mod_add_left_eq of_nat_1)
  then show "used_queue r m (lst + 1) C" using assms(2) A [rule_format, of "Suc _"] by (simp add: used_queue_def algebra_simps)
qed

lemma used_queue_empty: "used_queue r m lst C \<Longrightarrow> length C < 65536 \<Longrightarrow> used16 r m = lst \<longleftrightarrow> C = []"
proof -
  assume "used_queue r m lst C" "length C < 65536"
  moreover have "of_nat (length C) = (0 :: u16) \<longleftrightarrow> C = []" if "length C < 65536"
    using that unat_of_nat [of "length C", where 'a = 16] by (cases "C = []") auto
  ultimately show ?thesis by (simp add: used_queue_def)
qed

section \<open>Publication\<close>

lemma PublishDesc_frame:
  assumes "vring_ok r" and "x < AvailIdx r \<or> AvailRing r + 2 * unat (QueueSize r) \<le> x"
  shows "PublishDesc r d m x = m x"
proof -
  note L = ring_layout [OF assms(1)]
  have "load_le m (AvailIdx r) 2 mod unat (QueueSize r) < unat (QueueSize r)" using L(1) by simp
  then show ?thesis using assms(2) L(4) by (auto simp: PublishDesc_def Let_def store_le_other u16_load)
qed

lemma PublishDesc_result:
  assumes ok: "vring_ok r" and Q: "unat (QueueSize r) dvd 65536" and len: "length (in_flight r m h) < unat (QueueSize r)"
  shows "in_flight r (PublishDesc r d m) h = in_flight r m h @ [unat d]"
proof -
  note L = ring_layout [OF ok]
  obtain T l where h: "h = (T, l)" by (cases h)
  let ?q = "unat (QueueSize r)" and ?m = "PublishDesc r d m" and ?k = "unat (avail16 r m - l)" and ?s = "unat (avail16 r m) mod unat (QueueSize r)"
  have k: "?k < ?q" using len h by (simp add: in_flight_def)
  have a: "avail16 r ?m = avail16 r m + 1"
    using unat_u16_less [of "avail16 r m + 1"] by (simp add: avail16_def PublishDesc_def Let_def mem_simps)
  have k1: "unat (avail16 r ?m - l) = ?k + 1" unfolding a by (rule u16_next) (use k unat_u16_less [of "QueueSize r"] in linarith)
  have s: "?s = (unat l + ?k) mod ?q" using u16_slot [OF Q, of l ?k] by simp
  have lk: "load_le m (AvailIdx r) 2 mod ?q = ?s" by (simp add: avail16_def u16_load)
  have new: "avail_entry r ?m (unat l + ?k) = unat d"
    using unat_u16_less [of d] L(4) s by (simp add: avail_entry_def PublishDesc_def Let_def avail16_def mem_simps)
  have old: "avail_entry r ?m (unat l + i) = avail_entry r m (unat l + i)" if "i < ?k" for i
    unfolding avail_entry_def
  proof (rule load_le_cong)
    fix x assume x: "AvailRing r + 2 * ((unat l + i) mod ?q) \<le> x" "x < AvailRing r + 2 * ((unat l + i) mod ?q) + 2"
    have "(unat l + i) mod ?q \<noteq> ?s" using mod_add_inj [of "unat l" i ?q ?k] that k s by auto
    then have "x < AvailRing r + 2 * ?s \<or> AvailRing r + 2 * ?s + 2 \<le> x" using x by (cases "(unat l + i) mod ?q < ?s") linarith+
    then show "?m x = m x" using x L(4) by (auto simp: PublishDesc_def Let_def store_le_other u16_load lk)
  qed
  have "map (\<lambda>i. avail_entry r ?m (unat l + i)) [0..<?k + 1] = map (\<lambda>i. avail_entry r m (unat l + i)) [0..<?k] @ [unat d]"
    using new old by simp
  then show ?thesis unfolding in_flight_def h snd_conv fst_conv k1 by simp
qed

section \<open>Steps of the host\<close>

text \<open>The queue between driver and host: in flight \<open>F\<close>, completed \<open>C\<close>.\<close>

definition queue_state :: "VRING \<Rightarrow> mem \<Rightarrow> host \<Rightarrow> u16 \<Rightarrow> nat list \<Rightarrow> (nat \<times> nat) list \<Rightarrow> bool" where
  "queue_state r m h lst F C \<longleftrightarrow> in_flight r m h = F \<and> used_queue r m lst C \<and> length F + length C \<le> unat (QueueSize r) \<and> (\<forall>d\<in>set F. d < 2 ^ 32)"

lemma in_flight_fetch:
  assumes "unat (QueueSize r) dvd 65536" and "avail16 r m \<noteq> l"
  shows "in_flight r m (T @ [avail_entry r m (unat l)], l + 1) = in_flight r m (T, l)"
proof -
  let ?k = "unat (avail16 r m - l)"
  have pos: "0 < ?k" using assms(2) by (simp add: unat_gt_0)
  have e: "avail_entry r m (unat (l + 1) + i) = avail_entry r m (unat l + Suc i)" for i
  proof -
    have "(unat (l + 1) + i) mod unat (QueueSize r) = (unat l + Suc i) mod unat (QueueSize r)"
      using u16_slot [OF assms(1), of l 1] by (metis Suc_eq_plus1_left add.assoc mod_add_left_eq of_nat_1)
    then show ?thesis by (simp add: avail_entry_def)
  qed
  obtain n where n: "?k = Suc n" using pos by (cases ?k) auto
  have "unat (avail16 r m - (l + 1)) = n" using u16_prev [OF assms(2)] n by simp
  then show ?thesis by (simp add: in_flight_def n e upt_conv_Cons map_Suc_upt [symmetric] del: upt_Suc)
qed

text \<open>What a step of the host does to the queue: nothing, or it returns one chain that was in flight.\<close>

lemma host_step_queue:
  assumes ok: "vring_ok r" and Q: "unat (QueueSize r) dvd 65536" and area: "ring_area r \<subseteq> prot"
    and sv: "\<And>d m m1 n x. serve d m m1 n \<Longrightarrow> n < 2 ^ 32 \<and> (x \<in> ring_area r \<longrightarrow> m1 x = m x)"
    and st: "host_step r prot serve (m, h) (m', h')" and q: "queue_state r m h lst F C"
  shows "queue_state r m' h' lst F C \<and> (\<forall>x\<in>prot. m' x = m x) \<or>
    (\<exists>d n m1. d \<in> set F \<and> serve d m m1 n \<and> m' = push_used r m1 d n \<and> queue_state r m' h' lst (remove1 d F) (C @ [(d, n)]))"
  using st
proof (cases rule: host_step.cases)
  case (fetch l T)
  then show ?thesis using q in_flight_fetch [OF Q, of m l T] by (auto simp: queue_state_def)
next
  case (complete d T m1 n l)
  note L = ring_layout [OF ok]
  have sm: "n < 2 ^ 32" "\<And>x. x \<in> ring_area r \<Longrightarrow> m1 x = m x" using sv [OF complete(5)] by blast+
  have m1: "m1 x = m x" if "Desc r \<le> x" "x < UsedAvailEvent r + 2" for x using sm(2) [of x] that L(9) by (simp add: ring_area_def)
  have F: "in_flight r m (T, l) = F" and uq: "used_queue r m lst C" and lenq: "length F + length C \<le> unat (QueueSize r)" and small: "\<forall>d\<in>set F. d < 2 ^ 32"
    using q complete(1) by (auto simp: queue_state_def)
  have dF: "d \<in> set F" using complete(4) F by (auto simp: in_flight_def)
  have "in_flight r m1 (T, l) = F" using in_flight_frame [OF ok, of m1 m "(T, l)"] m1 L F by auto
  then have "in_flight r (push_used r m1 d n) (T, l) = F"
    using in_flight_frame [OF ok, of "push_used r m1 d n" m1 "(T, l)"] push_used_frame [OF ok] L by auto
  then have f: "in_flight r m' h' = remove1 d F" using complete(2,3,4) by (auto simp: in_flight_def remove1_append)
  have "used_queue r m1 lst C" using used_queue_frame [OF ok, of m1 m lst C] m1 uq L by auto
  moreover have "length C < unat (QueueSize r)" using lenq dF by (cases F) auto
  ultimately have "used_queue r m' lst (C @ [(d, n)])"
    using push_used_result [OF ok Q, of m1 lst C d n] small dF sm(1) complete(2) by auto
  then have "queue_state r m' h' lst (remove1 d F) (C @ [(d, n)])"
    using f lenq small dF by (auto simp: queue_state_def length_remove1 dest: notin_set_remove1 intro: set_remove1_subset [THEN subsetD] split: nat_diff_split)
  then show ?thesis using dF complete(5,2) by blast
next
  case (elsewhere)
  note L = ring_layout [OF ok]
  have x: "m' x = m x" if "Desc r \<le> x" "x < UsedAvailEvent r + 2" for x
    using elsewhere area that L(9) by (auto simp: ring_area_def)
  have "in_flight r m' h = in_flight r m h" by (rule in_flight_frame [OF ok]) (use x L in auto)
  moreover have "used_queue r m' lst C \<longleftrightarrow> used_queue r m lst C" by (rule used_queue_frame [OF ok]) (use x L in auto)
  ultimately show ?thesis using q elsewhere by (auto simp: queue_state_def)
qed

end
