(* ===== verification/VirtioNetTx.thy ===== *)
theory VirtioNetTx
  imports VirtioQueue
begin

text \<open>
  The transmit side of the network driver against a host that takes and returns packets at any time and in any
  order: every packet that was queued is reported exactly once, and no assertion of the driver fails.
\<close>

section \<open>What is relied on\<close>

text \<open>The host acts while a service runs; \<open>hst\<close> is its view of the queue.\<close>

definition acts :: "VRING \<Rightarrow> nat set \<Rightarrow> (nat \<Rightarrow> mem \<Rightarrow> mem \<Rightarrow> nat \<Rightarrow> bool) \<Rightarrow> ('d \<Rightarrow> host) \<Rightarrow> 'd world \<Rightarrow> 'd world \<Rightarrow> bool" where
  "acts r prot serve hst w w' \<longleftrightarrow> (host_step r prot serve)\<^sup>*\<^sup>* (fst w, hst (snd w)) (fst w', hst (snd w'))"

definition tx_serve :: "nat \<Rightarrow> mem \<Rightarrow> mem \<Rightarrow> nat \<Rightarrow> bool" where
  "tx_serve d m m1 n \<longleftrightarrow> m1 = m \<and> n < 2 ^ 32"

text \<open>Every service call of the driver is such an interval; notifications succeed.\<close>

definition tx_device :: "('d, 'map, 'c) net_services \<Rightarrow> ('d, 'map) VIRTIO_DEVICE_PROTOCOL \<Rightarrow> VRING \<Rightarrow> ('d \<Rightarrow> host) \<Rightarrow> bool" where
  "tx_device S V r hst \<longleftrightarrow>
    (\<forall>w. acts r (ring_area r) tx_serve hst w (snd (oc_Init S w))) \<and>
    (\<forall>n w s p w'. AllocateSharedPages V n w = (s, p, w') \<longrightarrow> acts r (ring_area r) tx_serve hst w w' \<and> (\<not> EFI_ERROR s \<longrightarrow> {p..<p + 4096 * n} \<inter> ring_area r = {})) \<and>
    (\<forall>n w. acts r (ring_area r) tx_serve hst w (snd (net_AllocatePool S n w))) \<and>
    (\<forall>p w. acts r (ring_area r) tx_serve hst w (net_FreePool S p w)) \<and>
    (\<forall>cmp e c w. acts r (ring_area r) tx_serve hst w (snd (snd (oc_Insert S cmp e c w)))) \<and>
    (\<forall>e c w. acts r (ring_area r) tx_serve hst w (snd (oc_Delete S e c w))) \<and>
    (\<forall>q p n w. acts r (ring_area r) tx_serve hst w (snd (snd (MapSharedBuffer V q p n w)))) \<and>
    (\<forall>mi w. acts r (ring_area r) tx_serve hst w (snd (UnmapSharedBuffer V mi w))) \<and>
    (\<forall>p n w. acts r (ring_area r) tx_serve hst w (snd (snd (ReadDevice V p n w)))) \<and>
    (\<forall>q w. fst (SetQueueNotify V q w) = EFI_SUCCESS \<and> acts r (ring_area r) tx_serve hst w (snd (SetQueueNotify V q w)))"

lemma tx_deviceD:
  assumes "tx_device S V r hst"
  shows "net_AllocatePool S n w = (x, w') \<Longrightarrow> acts r (ring_area r) tx_serve hst w w'"
    "acts r (ring_area r) tx_serve hst w (net_FreePool S p w)"
    "oc_Insert S cmp e c w = (s, c', w') \<Longrightarrow> acts r (ring_area r) tx_serve hst w w'"
    "oc_Delete S e c w = (c', w') \<Longrightarrow> acts r (ring_area r) tx_serve hst w w'"
    "MapSharedBuffer V q p n w = (s, y, w') \<Longrightarrow> acts r (ring_area r) tx_serve hst w w'"
    "acts r (ring_area r) tx_serve hst w (snd (UnmapSharedBuffer V mi w))"
    "ReadDevice V p n w = (s, v, w') \<Longrightarrow> acts r (ring_area r) tx_serve hst w w'"
    "SetQueueNotify V i w = (s, w') \<Longrightarrow> s = EFI_SUCCESS \<and> acts r (ring_area r) tx_serve hst w w'"
    "oc_Init S w = (co, w') \<Longrightarrow> acts r (ring_area r) tx_serve hst w w'"
    "AllocateSharedPages V k w = (s, p, w') \<Longrightarrow> acts r (ring_area r) tx_serve hst w w' \<and> (\<not> EFI_ERROR s \<longrightarrow> {p..<p + 4096 * k} \<inter> ring_area r = {})"
  using assms unfolding tx_device_def by (metis fst_conv snd_conv)+

text \<open>Documented behaviour of \<open>OrderedCollectionLib\<close> with the driver's comparison functions.\<close>

abbreviation address :: "'map tx_entry \<Rightarrow> u64" where "address e \<equiv> DeviceAddress (snd e)"

definition collection_ok :: "('d, 'map, 'c) net_services \<Rightarrow> bool" where
  "collection_ok S \<longleftrightarrow>
    (\<forall>e c w s c' w'. oc_Insert S (VirtioNetTxBufMapInfoCompare (snd e)) e c w = (s, c', w') \<longrightarrow> address e \<notin> address ` set (oc_Entries S c) \<longrightarrow>
       s = EFI_SUCCESS \<and> mset (oc_Entries S c') = add_mset e (mset (oc_Entries S c)) \<or>
       s = EFI_OUT_OF_RESOURCES \<and> mset (oc_Entries S c') = mset (oc_Entries S c)) \<and>
    (\<forall>a c. a \<in> address ` set (oc_Entries S c) \<longrightarrow>
       (\<exists>e. oc_Find S (VirtioNetTxBufDeviceAddressCompare a) c = Some e \<and> e \<in> set (oc_Entries S c) \<and> address e = a)) \<and>
    (\<forall>e c w. e \<in> set (oc_Entries S c) \<longrightarrow> mset (oc_Entries S (fst (oc_Delete S e c w))) = mset (oc_Entries S c) - {#e#}) \<and>
    (\<forall>w c w'. oc_Init S w = (Some c, w') \<longrightarrow> oc_Entries S c = [])"

lemma collection_okD:
  assumes "collection_ok S"
  shows "oc_Insert S (VirtioNetTxBufMapInfoCompare (snd e)) e c w = (s, c', w') \<Longrightarrow> address e \<notin> address ` set (oc_Entries S c) \<Longrightarrow>
      s = EFI_SUCCESS \<and> mset (oc_Entries S c') = add_mset e (mset (oc_Entries S c)) \<or> s = EFI_OUT_OF_RESOURCES \<and> mset (oc_Entries S c') = mset (oc_Entries S c)"
    "a \<in> address ` set (oc_Entries S c) \<Longrightarrow> \<exists>e. oc_Find S (VirtioNetTxBufDeviceAddressCompare a) c = Some e \<and> e \<in> set (oc_Entries S c) \<and> address e = a"
    "e \<in> set (oc_Entries S c) \<Longrightarrow> oc_Delete S e c w = (c', w') \<Longrightarrow> mset (oc_Entries S c') = mset (oc_Entries S c) - {#e#}"
    "oc_Init S w = (Some c, w') \<Longrightarrow> oc_Entries S c = []"
  using assms unfolding collection_ok_def by (simp_all only: simp_thms) (metis fst_conv)+

section \<open>The invariant\<close>

text \<open>\<open>F\<close> are the descriptors in flight, \<open>C\<close> the completed ones; \<open>info\<close> gives the buffer and device address of a
  descriptor in use.\<close>

definition tx_static :: "('map, 'c) VNET_TX \<Rightarrow> bool" where
  "tx_static tx \<longleftrightarrow> vring_ok (TxRing tx) \<and> unat (QueueSize (TxRing tx)) dvd 65536 \<and> 2 * unat (TxMaxPending tx) \<le> unat (QueueSize (TxRing tx)) \<and>
    length (TxFreeStackWords tx) = unat (TxMaxPending tx)"

definition tx_stack :: "('map, 'c) VNET_TX \<Rightarrow> nat list \<Rightarrow> bool" where
  "tx_stack tx D \<longleftrightarrow> unat (TxCurPending tx) = length D \<and>
    mset D + mset (map unat (drop (length D) (TxFreeStackWords tx))) = mset (map (\<lambda>i. 2 * i) [0..<unat (TxMaxPending tx)])"

definition tx_entries :: "('d, 'map, 'c) net_services \<Rightarrow> ('map, 'c) VNET_TX \<Rightarrow> (nat \<Rightarrow> nat \<times> u64) \<Rightarrow> nat list \<Rightarrow> bool" where
  "tx_entries S tx info D \<longleftrightarrow>
    image_mset (\<lambda>e. (TxBuffer (snd e), address e)) (mset (oc_Entries S (TxBufCollection tx))) = image_mset info (mset D) \<and>
    distinct (map address (oc_Entries S (TxBufCollection tx)))"

definition tx_descs :: "('map, 'c) VNET_TX \<Rightarrow> mem \<Rightarrow> (nat \<Rightarrow> nat \<times> u64) \<Rightarrow> nat list \<Rightarrow> bool" where
  "tx_descs tx m info D \<longleftrightarrow> (\<forall>d\<in>set D. Addr (read_desc (Desc (TxRing tx)) m (d + 1)) = snd (info d))"

definition tx_inv ::
  "('d, 'map, 'c) net_services \<Rightarrow> ('map, 'c) VNET_TX \<Rightarrow> mem \<Rightarrow> host \<Rightarrow> nat list \<Rightarrow> (nat \<times> nat) list \<Rightarrow> (nat \<Rightarrow> nat \<times> u64) \<Rightarrow> bool" where
  "tx_inv S tx m h F C info \<longleftrightarrow> tx_static tx \<and> queue_state (TxRing tx) m h (TxLastUsed tx) F C \<and> tx_stack tx (F @ map fst C) \<and>
    tx_entries S tx info (F @ map fst C) \<and> tx_descs tx m info (F @ map fst C)"

lemma tx_invD:
  assumes "tx_inv S tx m h F C info"
  shows "tx_static tx" "queue_state (TxRing tx) m h (TxLastUsed tx) F C" "tx_stack tx (F @ map fst C)" "tx_entries S tx info (F @ map fst C)"
    "tx_descs tx m info (F @ map fst C)"
  using assms by (simp_all add: tx_inv_def)

lemma tx_staticD:
  assumes "tx_static tx"
  shows "vring_ok (TxRing tx)" "unat (QueueSize (TxRing tx)) dvd 65536" "2 * unat (TxMaxPending tx) \<le> unat (QueueSize (TxRing tx))"
    "length (TxFreeStackWords tx) = unat (TxMaxPending tx)"
  using assms by (simp_all add: tx_static_def)

lemma tx_stack_bounds:
  assumes "tx_static tx" and "tx_stack tx D"
  shows "length D \<le> unat (TxMaxPending tx)" "\<And>d. d \<in> set D \<Longrightarrow> even d \<and> d + 2 \<le> 2 * unat (TxMaxPending tx)" "distinct D"
    "unat (TxCurPending tx) = length D"
proof -
  let ?n = "unat (TxMaxPending tx)"
  have e: "mset D + mset (map unat (drop (length D) (TxFreeStackWords tx))) = mset (map (\<lambda>i. 2 * i) [0..<?n])" and c: "unat (TxCurPending tx) = length D"
    using assms(2) by (auto simp: tx_stack_def)
  show "unat (TxCurPending tx) = length D" by (rule c)
  have sub: "mset D \<subseteq># mset (map (\<lambda>i. 2 * i) [0..<?n])" using e by (metis mset_subset_eq_add_left)
  show "length D \<le> ?n" using size_mset_mono [OF sub] by simp
  show "even d \<and> d + 2 \<le> 2 * ?n" if "d \<in> set D" for d
    using mset_subset_eqD [OF sub, of d] that by auto
  have "distinct (map (\<lambda>i. 2 * i) [0..<?n])" by (simp add: distinct_map inj_on_def)
  moreover have "count (mset D) x \<le> count (mset (map (\<lambda>i. 2 * i) [0..<?n])) x" for x using mset_subset_eq_count [OF sub] .
  ultimately show "distinct D" by (metis distinct_count_atmost_1 le_antisym le_zero_eq linorder_not_le count_eq_zero_iff set_mset_mset less_one nat_less_le)
qed

text \<open>The invariant depends on the pending descriptors as a multiset.\<close>

lemma tx_perm:
  assumes "mset D = mset D'"
  shows "tx_stack tx D \<longleftrightarrow> tx_stack tx D'" "tx_entries S tx info D \<longleftrightarrow> tx_entries S tx info D'" "tx_descs tx m info D \<longleftrightarrow> tx_descs tx m info D'"
  using assms mset_eq_length [OF assms] mset_eq_setD [OF assms] by (simp_all add: tx_stack_def tx_entries_def tx_descs_def)

section \<open>The host acts\<close>

lemma tx_host_step:
  assumes inv: "tx_inv S tx m h F C info" and st: "host_step (TxRing tx) (ring_area (TxRing tx)) tx_serve (m, h) (m', h')"
  shows "\<exists>F' C'. tx_inv S tx m' h' F' (C @ C') info \<and> mset F = mset F' + mset (map fst C')"
proof -
  note I = tx_invD [OF inv] and T = tx_staticD [OF tx_invD(1) [OF inv]]
  let ?r = "TxRing tx" and ?D = "F @ map fst C"
  note L = ring_layout [OF T(1)]
  have descs: "tx_descs tx m' info ?D" if x: "\<And>x. Desc ?r \<le> x \<Longrightarrow> x < AvailFlags ?r \<Longrightarrow> m' x = m x"
  proof -
    have "read_desc (Desc ?r) m' (d + 1) = read_desc (Desc ?r) m (d + 1)" if "d \<in> set ?D" for d
      by (rule read_desc_cong) (use x tx_stack_bounds(2) [OF I(1,3) that] T(3) L(3) in auto)
    then show ?thesis using I(5) unfolding tx_descs_def by metis
  qed
  have sv: "\<And>d m m1 n x. tx_serve d m m1 n \<Longrightarrow> n < 2 ^ 32 \<and> (x \<in> ring_area ?r \<longrightarrow> m1 x = m x)" by (auto simp: tx_serve_def)
  consider (same) "queue_state ?r m' h' (TxLastUsed tx) F C" "\<forall>x\<in>ring_area ?r. m' x = m x"
    | (served) d n m1 where "d \<in> set F" "tx_serve d m m1 n" "m' = push_used ?r m1 d n" "queue_state ?r m' h' (TxLastUsed tx) (remove1 d F) (C @ [(d, n)])"
    using host_step_queue [where serve = tx_serve, OF T(1,2) subset_refl _ st I(2)] sv by blast
  then show ?thesis
  proof cases
    case same
    have "tx_descs tx m' info ?D" by (rule descs) (use same(2) L in \<open>auto simp: ring_area_def\<close>)
    then show ?thesis using same(1) I by (intro exI [of _ F] exI [of _ "[]"]) (simp add: tx_inv_def)
  next
    case (served d n m1)
    have "tx_descs tx m' info ?D"
    proof (rule descs)
      fix x assume "Desc ?r \<le> x" "x < AvailFlags ?r"
      then show "m' x = m x" using push_used_frame [OF T(1), of x m1 d n] served(2,3) L by (simp add: tx_serve_def)
    qed
    moreover have p: "mset ?D = mset (remove1 d F @ map fst (C @ [(d, n)]))" using served(1) by simp
    ultimately have "tx_inv S tx m' h' (remove1 d F) (C @ [(d, n)]) info"
      using I(1,3,4) served(4) unfolding tx_inv_def tx_perm(1) [OF p] tx_perm(2) [OF p] tx_perm(3) [OF p] by blast
    then show ?thesis using served(1) by (intro exI [of _ "remove1 d F"] exI [of _ "[(d, n)]"]) simp
  qed
qed

lemma tx_acts:
  assumes inv: "tx_inv S tx (fst w) (hst (snd w)) F C info" and a: "acts (TxRing tx) (ring_area (TxRing tx)) tx_serve hst w w'"
  shows "\<exists>F' C'. tx_inv S tx (fst w') (hst (snd w')) F' (C @ C') info \<and> mset F = mset F' + mset (map fst C')"
proof -
  have "\<exists>F' C'. tx_inv S tx (fst p) (snd p) F' (C @ C') info \<and> mset F = mset F' + mset (map fst C')"
    if "(host_step (TxRing tx) (ring_area (TxRing tx)) tx_serve)\<^sup>*\<^sup>* (fst w, hst (snd w)) p" for p
    using that
  proof (induction rule: rtranclp_induct)
    case base
    then show ?case using inv by (intro exI [of _ F] exI [of _ "[]"]) simp
  next
    case (step p q)
    obtain F1 C1 where 1: "tx_inv S tx (fst p) (snd p) F1 (C @ C1) info" "mset F = mset F1 + mset (map fst C1)" using step.IH by blast
    obtain F2 C2 where "tx_inv S tx (fst q) (snd q) F2 ((C @ C1) @ C2) info" "mset F1 = mset F2 + mset (map fst C2)"
      using tx_host_step [OF 1(1), of "fst q" "snd q"] step.hyps(2) by auto
    then show ?case using 1(2) by (intro exI [of _ F2] exI [of _ "C1 @ C2"]) simp
  qed
  from this [OF a [unfolded acts_def]] show ?thesis by simp
qed

lemma acts_refl: "acts r prot serve hst w w"
  by (simp add: acts_def)

lemma acts_trans: "acts r prot serve hst w w1 \<Longrightarrow> acts r prot serve hst w1 w2 \<Longrightarrow> acts r prot serve hst w w2"
  unfolding acts_def by (rule rtranclp_trans)

lemma acts_elsewhere: "(\<And>x. x \<in> prot \<Longrightarrow> m' x = fst w x) \<Longrightarrow> acts r prot serve hst w (m', snd w)"
  unfolding acts_def using host_step.elsewhere [of prot m' "fst w" r serve "hst (snd w)"] by simp

section \<open>Mapping a packet\<close>

lemma MapAll_acts:
  assumes dev: "tx_device S V r hst" and m: "VirtioMapAllBytesInSharedBuffer V op p n w = (s, x, w')"
  shows "acts r (ring_area r) tx_serve hst w w'"
    "x = Some (a, mi) \<Longrightarrow> \<exists>s z w1. MapSharedBuffer V op p n w = (s, (z, a, mi), w1) \<and> \<not> EFI_ERROR s"
proof -
  obtain t z b mi' w1 where y: "MapSharedBuffer V op p n w = (t, (z, b, mi'), w1)" by (metis surj_pair)
  note 1 = tx_deviceD(5) [OF dev y]
  show "acts r (ring_area r) tx_serve hst w w'"
    using m y 1 acts_trans [OF 1 tx_deviceD(6) [OF dev, of w1 mi']] by (auto simp: VirtioMapAllBytesInSharedBuffer_def split: if_splits)
  show "x = Some (a, mi) \<Longrightarrow> \<exists>s z w1. MapSharedBuffer V op p n w = (s, (z, a, mi), w1) \<and> \<not> EFI_ERROR s"
    using m y by (auto simp: VirtioMapAllBytesInSharedBuffer_def split: if_splits)
qed

text \<open>The client does not queue a buffer that is still pending: its device address is none of a pending packet.\<close>

definition fresh_address :: "('d, 'map, 'c) net_services \<Rightarrow> ('d, 'map) VIRTIO_DEVICE_PROTOCOL \<Rightarrow> ('map, 'c) VNET_TX \<Rightarrow> nat \<Rightarrow> nat \<Rightarrow> bool" where
  "fresh_address S V tx buf n \<longleftrightarrow>
    (\<forall>w s z a mi w1. MapSharedBuffer V VirtioOperationBusMasterRead buf n w = (s, (z, a, mi), w1) \<longrightarrow> \<not> EFI_ERROR s \<longrightarrow>
      a \<notin> address ` set (oc_Entries S (TxBufCollection tx)))"

lemma MapTxBuf_result:
  assumes dev: "tx_device S V r hst" and co: "collection_ok S" and fr: "fresh_address S V tx buf n"
  shows "\<exists>x c w'. VirtioNetMapTxBuf S V tx buf n w = Ok (x, tx\<lparr>TxBufCollection := c\<rparr>, w') \<and> acts r (ring_area r) tx_serve hst w w' \<and>
    (case x of Inl s \<Rightarrow> mset (oc_Entries S c) = mset (oc_Entries S (TxBufCollection tx))
     | Inr a \<Rightarrow> \<exists>e. mset (oc_Entries S c) = add_mset e (mset (oc_Entries S (TxBufCollection tx))) \<and> TxBuffer (snd e) = buf \<and> address e = a \<and>
         a \<notin> address ` set (oc_Entries S (TxBufCollection tx)))"
proof -
  let ?c0 = "TxBufCollection tx"
  have id: "tx\<lparr>TxBufCollection := ?c0\<rparr> = tx" by simp
  obtain p w1 where a: "net_AllocatePool S 24 w = (p, w1)" by (metis surj_pair)
  note 1 = tx_deviceD(1) [OF dev a]
  show ?thesis
  proof (cases p)
    case None
    then show ?thesis using a 1 by (intro exI [of _ "Inl EFI_OUT_OF_RESOURCES"] exI [of _ ?c0] exI [of _ w1]) (simp add: VirtioNetMapTxBuf_def)
  next
    case (Some q)
    obtain s y w2 where m: "VirtioMapAllBytesInSharedBuffer V VirtioOperationBusMasterRead buf n w1 = (s, y, w2)" by (metis prod_cases3)
    note 2 = acts_trans [OF 1 MapAll_acts(1) [OF dev m]]
    show ?thesis
    proof (cases y)
      case None
      then show ?thesis using a Some m acts_trans [OF 2 tx_deviceD(2) [OF dev, of w2 q]]
        by (intro exI [of _ "Inl s"] exI [of _ ?c0] exI [of _ "net_FreePool S q w2"]) (simp add: VirtioNetMapTxBuf_def)
    next
      case y: (Some z)
      obtain ad mi where z: "z = (ad, mi)" by (cases z)
      let ?e = "(q, \<lparr>TxBuffer = buf, DeviceAddress = ad, BufMap = mi\<rparr>)"
      have nf: "address ?e \<notin> address ` set (oc_Entries S ?c0)" 
      proof -
        obtain s' z' w' where "MapSharedBuffer V VirtioOperationBusMasterRead buf n w1 = (s', (z', ad, mi), w')" "\<not> EFI_ERROR s'"
          using MapAll_acts(2) [OF dev m, of ad mi] y z by auto
        then show ?thesis using fr [unfolded fresh_address_def, rule_format, of w1 s' z' ad mi w'] by simp
      qed
      obtain t c w3 where i: "oc_Insert S (VirtioNetTxBufMapInfoCompare (snd ?e)) ?e ?c0 w2 = (t, c, w3)" by (metis prod_cases3)
      note 3 = acts_trans [OF 2 tx_deviceD(3) [OF dev i]]
      let ?u = "net_FreePool S q (snd (UnmapSharedBuffer V mi w3))"
      have 4: "acts r (ring_area r) tx_serve hst w ?u" by (rule acts_trans [OF acts_trans [OF 3 tx_deviceD(6) [OF dev]] tx_deviceD(2) [OF dev]])
      consider "t = EFI_SUCCESS" "mset (oc_Entries S c) = add_mset ?e (mset (oc_Entries S ?c0))" | "t = EFI_OUT_OF_RESOURCES" "mset (oc_Entries S c) = mset (oc_Entries S ?c0)"
        using collection_okD(1) [OF co i nf] by blast
      then show ?thesis
      proof cases
        case 1
        then show ?thesis using a Some m y z i 3 nf
          by (intro exI [of _ "Inr ad"] exI [of _ c] exI [of _ w3]) (auto simp: VirtioNetMapTxBuf_def Let_def intro!: exI [of _ ?e])
      next
        case 2
        then show ?thesis using a Some m y z i 4
          by (intro exI [of _ "Inl EFI_OUT_OF_RESOURCES"] exI [of _ c] exI [of _ ?u]) (simp add: VirtioNetMapTxBuf_def Let_def)
      qed
    qed
  qed
qed

section \<open>Queueing a packet\<close>

lemma unat_minus_one_nat: "0 < unat (x :: u16) \<Longrightarrow> unat (x - 1) = unat x - 1"
  by (rule unat_minus_one) auto

lemma unat_u16_Suc: "unat (x :: u16) < k \<Longrightarrow> k < 65536 \<Longrightarrow> unat (x + 1) = unat x + 1"
  by (simp add: unat_word_ariths)

lemma QueueTx_result:
  assumes inv: "tx_inv S tx m h F C info" and room: "length F + length C < unat (TxMaxPending tx)"
    and c: "mset (oc_Entries S c) = add_mset e (mset (oc_Entries S (TxBufCollection tx)))" "TxBuffer (snd e) = buf" "address e = a"
      "a \<notin> address ` set (oc_Entries S (TxBufCollection tx))"
  shows "\<exists>d tx2 m2. QueueTx (tx\<lparr>TxBufCollection := c\<rparr>) a n m = Ok (tx2, m2) \<and> tx2 = tx\<lparr>TxBufCollection := c, TxCurPending := TxCurPending tx + 1\<rparr> \<and>
    d \<notin> set (F @ map fst C) \<and> tx_inv S tx2 m2 h (F @ [d]) C (info(d := (buf, a)))"
proof -
  note I = tx_invD [OF inv] and T = tx_staticD [OF tx_invD(1) [OF inv]]
  let ?r = "TxRing tx" and ?D = "F @ map fst C" and ?cur = "unat (TxCurPending tx)" and ?n = "unat (TxMaxPending tx)"
  note L = ring_layout [OF T(1)] and B = tx_stack_bounds [OF I(1,3)]
  have k: "?cur = length ?D" "?cur < length (TxFreeStackWords tx)" using B(4) room T(4) by simp_all
  define d where "d = unat (TxFreeStackWords tx ! ?cur)"
  have dr: "map unat (drop (length ?D) (TxFreeStackWords tx)) = d # map unat (drop (length ?D + 1) (TxFreeStackWords tx))"
    using k Cons_nth_drop_Suc [OF k(2), symmetric] by (simp add: d_def)
  have ms: "mset (?D @ [d]) + mset (map unat (drop (length ?D + 1) (TxFreeStackWords tx))) = mset (map (\<lambda>i. 2 * i) [0..<?n])"
    using I(3) unfolding tx_stack_def dr by (simp add: union_assoc)
  define tx2 where "tx2 = tx\<lparr>TxBufCollection := c, TxCurPending := TxCurPending tx + 1\<rparr>"
  have st2: "tx_static tx2" using I(1) by (simp add: tx_static_def tx2_def)
  have cur1: "unat (TxCurPending tx + 1) = ?cur + 1" using unat_u16_Suc [of "TxCurPending tx" ?n] room k(1) unat_u16_less [of "TxMaxPending tx"] by simp
  have stack2: "tx_stack tx2 (?D @ [d])" using ms cur1 k(1) by (simp add: tx_stack_def tx2_def)
  note B2 = tx_stack_bounds [OF st2 stack2]
  have dn: "d \<notin> set ?D" "even d" "d + 2 \<le> 2 * ?n" using B2(2) [of d] B2(3) by (auto simp: tx2_def)
  have din: "d + 1 < unat (QueueSize ?r)" using dn(3) T(3) by linarith
  let ?p = "Desc ?r + 16 * (d + 1)"
  define m1 where "m1 = store_le (store_le m ?p 8 (unat a)) (?p + 8) 4 (n mod 2 ^ 32)"
  define m2 where "m2 = PublishDesc ?r (TxFreeStackWords tx ! ?cur) m1"
  have run: "QueueTx (tx\<lparr>TxBufCollection := c\<rparr>) a n m = Ok (tx2, m2)"
    using k(2) din by (simp add: QueueTx_def Let_def d_def [symmetric] m1_def m2_def tx2_def)
  have m1f: "m1 x = m x" if "x < ?p \<or> ?p + 12 \<le> x" for x using that by (auto simp: m1_def store_le_other)
  have F1: "in_flight ?r m1 h = F" using in_flight_frame [OF T(1), of m1 m h] m1f din L I(2) by (simp add: queue_state_def)
  have lenF: "length F < unat (QueueSize ?r)" using room T(3) by linarith
  have F2: "in_flight ?r m2 h = F @ [d]" using PublishDesc_result [OF T(1,2), of m1 h "TxFreeStackWords tx ! ?cur"] F1 lenF by (simp add: m2_def d_def)
  have U2: "used_queue ?r m2 (TxLastUsed tx) C"
  proof -
    have "used_queue ?r m1 (TxLastUsed tx) C" using used_queue_frame [OF T(1), of m1 m] m1f din L I(2) by (simp add: queue_state_def)
    then show ?thesis using used_queue_frame [OF T(1), of m2 m1] PublishDesc_frame [OF T(1)] L by (simp add: m2_def)
  qed
  have "d < 65536" using din unat_u16_less [of "QueueSize ?r"] by linarith
  then have q2: "queue_state ?r m2 h (TxLastUsed tx) (F @ [d]) C"
    using F2 U2 I(2) room T(3) by (auto simp: queue_state_def)
  have dm: "read_desc (Desc ?r) m2 (i + 1) = read_desc (Desc ?r) m1 (i + 1)" if "i + 1 < unat (QueueSize ?r)" for i
    unfolding m2_def by (rule read_desc_cong) (use PublishDesc_frame [OF T(1)] L that in auto)
  have new: "Addr (read_desc (Desc ?r) m1 (d + 1)) = a"
    using load_le_store_le_same [of _ ?p 8 "unat a"] by (simp add: read_desc_def Let_def m1_def mem_simps)
  have old: "read_desc (Desc ?r) m1 (i + 1) = read_desc (Desc ?r) m (i + 1)" if "i \<noteq> d" for i
    by (rule read_desc_cong, rule m1f) (use that in \<open>cases "i < d"; auto\<close>)
  have ds: "tx_descs tx2 m2 (info(d := (buf, a))) (?D @ [d])"
    unfolding tx_descs_def
  proof
    fix i assume i: "i \<in> set (?D @ [d])"
    have "i + 1 < unat (QueueSize ?r)" using B2(2) [OF i] T(3) by (simp add: tx2_def)
    then show "Addr (read_desc (Desc (TxRing tx2)) m2 (i + 1)) = snd ((info(d := (buf, a))) i)"
      using dm old new I(5) i dn(1) by (auto simp: tx_descs_def tx2_def)
  qed
  have en: "tx_entries S tx2 (info(d := (buf, a))) (?D @ [d])"
  proof -
    have "image_mset (info(d := (buf, a))) (mset ?D) = image_mset info (mset ?D)" using dn(1) by (intro image_mset_cong) auto
    moreover have "distinct (map address (oc_Entries S c))"
    proof -
      have "mset (map address (oc_Entries S c)) = mset (a # map address (oc_Entries S (TxBufCollection tx)))" using c(1,3) by simp
      moreover have "distinct (a # map address (oc_Entries S (TxBufCollection tx)))" using I(4) c(4) by (simp add: tx_entries_def)
      ultimately show ?thesis by (metis mset_eq_imp_distinct_iff)
    qed
    ultimately show ?thesis using I(4) c by (simp add: tx_entries_def tx2_def)
  qed
  have p: "mset (?D @ [d]) = mset ((F @ [d]) @ map fst C)" by simp
  have "tx_inv S tx2 m2 h (F @ [d]) C (info(d := (buf, a)))"
    unfolding tx_inv_def using st2 q2 stack2 [unfolded tx_perm(1) [OF p]] en [unfolded tx_perm(2) [OF p]] ds [unfolded tx_perm(3) [OF p]] by (simp add: tx2_def)
  then show ?thesis using run dn(1) by (auto simp: tx2_def)
qed

section \<open>Transmitting\<close>

text \<open>The buffers that are pending.\<close>

definition pending :: "(nat \<Rightarrow> nat \<times> u64) \<Rightarrow> nat list \<Rightarrow> (nat \<times> nat) list \<Rightarrow> nat multiset" where
  "pending info F C = image_mset (\<lambda>d. fst (info d)) (mset (F @ map fst C))"

lemma pending_acts: "mset F = mset F' + mset (map fst C') \<Longrightarrow> pending info F' (C @ C') = pending info F C"
  by (simp add: pending_def)

lemma pending_queued: "d \<notin> set (F @ map fst C) \<Longrightarrow> pending (info(d := (b, a))) (F @ [d]) C = add_mset b (pending info F C)"
proof -
  assume d: "d \<notin> set (F @ map fst C)"
  have "image_mset (\<lambda>x. fst ((info(d := (b, a))) x)) (mset (F @ map fst C)) = image_mset (\<lambda>x. fst (info x)) (mset (F @ map fst C))"
    using d by (intro image_mset_cong) auto
  then show ?thesis by (simp add: pending_def)
qed

lemma size_pending: "size (pending info F C) = length F + length C"
  by (simp add: pending_def)

text \<open>A client that behaves: the header it asks for is inside its buffer and its addresses have their length.\<close>

definition client_ok :: "('map, 'c) VNET_DEV \<Rightarrow> VRING \<Rightarrow> nat \<Rightarrow> u8 list option \<Rightarrow> u8 list option \<Rightarrow> bool" where
  "client_ok Dev r buf SrcAddr DestAddr \<longleftrightarrow> MediaHeaderSize (Snm Dev) = 14 \<and> {buf..<buf + 14} \<inter> ring_area r = {} \<and> 6 \<le> length (CurrentAddress (Snm Dev)) \<and>
    (\<forall>x. SrcAddr = Some x \<longrightarrow> 6 \<le> length x) \<and> (\<forall>x. DestAddr = Some x \<longrightarrow> 6 \<le> length x)"

lemma length_MediaHeader: "6 \<le> length d \<Longrightarrow> 6 \<le> length s \<Longrightarrow> length (MediaHeader d s p) = 14"
  by (simp add: MediaHeader_def SIZE_OF_VNET_Mac_def)

text \<open>What a call to transmit achieves; \<open>P\<close> is what was pending.\<close>

definition transmitted ::
  "('d, 'map, 'c) net_services \<Rightarrow> ('d \<Rightarrow> host) \<Rightarrow> ('map, 'c) VNET_DEV \<Rightarrow> 'map VNET_RX \<Rightarrow> VRING \<Rightarrow> nat option \<Rightarrow> nat multiset
   \<Rightarrow> (EFI_STATUS \<times> ('map, 'c) VNET_DEV \<times> 'd world) checked \<Rightarrow> bool" where
  "transmitted S hst Dev rx r Buffer P res \<longleftrightarrow> (\<exists>s tx' w' F' C' info'. res = Ok (s, Dev\<lparr>Net := Some (rx, tx')\<rparr>, w') \<and> TxRing tx' = r \<and>
    tx_inv S tx' (fst w') (hst (snd w')) F' C' info' \<and> pending info' F' C' = (if s = EFI_SUCCESS then {#the Buffer#} else {#}) + P)"

text \<open>The last part of the member: mapping, queueing, notification.\<close>

definition TransmitTail ::
  "('d, 'map, 'c) net_services \<Rightarrow> ('d, 'map) VIRTIO_DEVICE_PROTOCOL \<Rightarrow> ('map, 'c) VNET_DEV \<Rightarrow> 'map VNET_RX \<Rightarrow> ('map, 'c) VNET_TX \<Rightarrow> nat \<Rightarrow> nat \<Rightarrow> 'd world
   \<Rightarrow> (EFI_STATUS \<times> ('map, 'c) VNET_DEV \<times> 'd world) checked" where
  "TransmitTail S V D rx tx buf n w = chk_bind (VirtioNetMapTxBuf S V tx buf n w) (\<lambda>(x, tx1, w2).
      case x of Inl _ \<Rightarrow> Ok (EFI_DEVICE_ERROR, D\<lparr>Net := Some (rx, tx1)\<rparr>, w2)
      | Inr a \<Rightarrow> chk_bind (QueueTx tx1 a n (fst w2)) (\<lambda>(tx2, m3). case SetQueueNotify V VIRTIO_NET_Q_TX (m3, snd w2) of (Status, w4) \<Rightarrow>
          Ok (Status, D\<lparr>Net := Some (rx, tx2)\<rparr>, w4)))"

lemma transmit_tail:
  assumes dev: "tx_device S V (TxRing tx) hst" and co: "collection_ok S" and fr: "fresh_address S V tx buf n"
    and inv: "tx_inv S tx (fst w) (hst (snd w)) F C info" and room: "length F + length C < unat (TxMaxPending tx)"
  shows "transmitted S hst D rx (TxRing tx) (Some buf) (pending info F C) (TransmitTail S V D rx tx buf n w)"
proof -
  obtain x c w1 where m: "VirtioNetMapTxBuf S V tx buf n w = Ok (x, tx\<lparr>TxBufCollection := c\<rparr>, w1)" "acts (TxRing tx) (ring_area (TxRing tx)) tx_serve hst w w1"
    "case x of Inl s \<Rightarrow> mset (oc_Entries S c) = mset (oc_Entries S (TxBufCollection tx))
     | Inr a \<Rightarrow> \<exists>e. mset (oc_Entries S c) = add_mset e (mset (oc_Entries S (TxBufCollection tx))) \<and> TxBuffer (snd e) = buf \<and> address e = a \<and>
         a \<notin> address ` set (oc_Entries S (TxBufCollection tx))"
    using MapTxBuf_result [OF dev co fr] by blast
  obtain F1 C1 where 1: "tx_inv S tx (fst w1) (hst (snd w1)) F1 (C @ C1) info" "mset F = mset F1 + mset (map fst C1)" using tx_acts [OF inv m(2)] by blast
  have len: "length F1 + length (C @ C1) < unat (TxMaxPending tx)" using arg_cong [OF 1(2), of size] room by simp
  show ?thesis
  proof (cases x)
    case (Inl s)
    have e: "mset (oc_Entries S c) = mset (oc_Entries S (TxBufCollection tx))" using m(3) Inl by simp
    then have "mset (map address (oc_Entries S c)) = mset (map address (oc_Entries S (TxBufCollection tx)))" by simp
    then have "distinct (map address (oc_Entries S c))"
      using mset_eq_imp_distinct_iff tx_invD(4) [OF 1(1)] unfolding tx_entries_def by metis
    then have "tx_inv S (tx\<lparr>TxBufCollection := c\<rparr>) (fst w1) (hst (snd w1)) F1 (C @ C1) info"
      using 1(1) e by (simp add: tx_inv_def tx_static_def tx_stack_def tx_entries_def tx_descs_def)
    moreover have "TxRing (tx\<lparr>TxBufCollection := c\<rparr>) = TxRing tx" by simp
    ultimately show ?thesis unfolding transmitted_def using m(1) Inl pending_acts [OF 1(2), of info C]
      by (intro exI [of _ EFI_DEVICE_ERROR] exI [of _ "tx\<lparr>TxBufCollection := c\<rparr>"] exI [of _ w1] exI [of _ F1] exI [of _ "C @ C1"] exI [of _ info]) (simp add: TransmitTail_def)
  next
    case (Inr a)
    obtain e where e: "mset (oc_Entries S c) = add_mset e (mset (oc_Entries S (TxBufCollection tx)))" "TxBuffer (snd e) = buf" "address e = a"
      "a \<notin> address ` set (oc_Entries S (TxBufCollection tx))" using m(3) Inr by auto
    obtain d tx2 m2 where q: "QueueTx (tx\<lparr>TxBufCollection := c\<rparr>) a n (fst w1) = Ok (tx2, m2)" "tx2 = tx\<lparr>TxBufCollection := c, TxCurPending := TxCurPending tx + 1\<rparr>"
      "d \<notin> set (F1 @ map fst (C @ C1))" "tx_inv S tx2 m2 (hst (snd w1)) (F1 @ [d]) (C @ C1) (info(d := (buf, a)))"
      using QueueTx_result [OF 1(1) len e] by blast
    obtain s w4 where nt: "SetQueueNotify V VIRTIO_NET_Q_TX (m2, snd w1) = (s, w4)" by (metis surj_pair)
    have s: "s = EFI_SUCCESS" "acts (TxRing tx2) (ring_area (TxRing tx2)) tx_serve hst (m2, snd w1) w4" using tx_deviceD(8) [OF dev nt] q(2) by simp_all
    have i2: "tx_inv S tx2 (fst (m2, snd w1)) (hst (snd (m2, snd w1))) (F1 @ [d]) (C @ C1) (info(d := (buf, a)))" using q(4) by simp
    obtain F2 C2 where 2: "tx_inv S tx2 (fst w4) (hst (snd w4)) F2 ((C @ C1) @ C2) (info(d := (buf, a)))" "mset (F1 @ [d]) = mset F2 + mset (map fst C2)"
      using tx_acts [OF i2 s(2)] by blast
    have "pending (info(d := (buf, a))) F2 ((C @ C1) @ C2) = add_mset buf (pending info F C)"
      using pending_acts [OF 2(2)] pending_queued [OF q(3)] pending_acts [OF 1(2)] by metis
    moreover have "TxRing tx2 = TxRing tx" using q(2) by simp
    ultimately show ?thesis unfolding transmitted_def using m(1) Inr q(1) nt s(1) 2(1)
      by (intro exI [of _ s] exI [of _ tx2] exI [of _ w4] exI [of _ F2] exI [of _ "(C @ C1) @ C2"] exI [of _ "info(d := (buf, a))"]) (simp add: TransmitTail_def)
  qed
qed

lemma Transmit_result:
  assumes dev: "tx_device S V (TxRing tx) hst" and co: "collection_ok S" and net: "Net Dev = Some (rx, tx)"
    and inv: "tx_inv S tx (fst w) (hst (snd w)) F C info" and fr: "\<And>buf. Buffer = Some buf \<Longrightarrow> fresh_address S V tx buf n \<and> client_ok Dev (TxRing tx) buf SrcAddr DestAddr"
  shows "transmitted S hst Dev rx (TxRing tx) Buffer (pending info F C) (VirtioNetTransmit S V This Dev hs n Buffer SrcAddr DestAddr Protocol w)"
    (is "?P (VirtioNetTransmit S V This Dev hs n Buffer SrcAddr DestAddr Protocol w)")
proof -
  have id: "Dev\<lparr>Net := Some (rx, tx)\<rparr> = Dev" using net by simp
  have early: "?P (Ok (s, Dev, w))" if "s \<noteq> EFI_SUCCESS" for s
    unfolding transmitted_def using inv that id by (intro exI [of _ s] exI [of _ tx] exI [of _ w] exI [of _ F] exI [of _ C] exI [of _ info]) simp
  note B = tx_stack_bounds [OF tx_invD(1,3) [OF inv]]
  have le: "TxCurPending tx \<le> TxMaxPending tx" using B(1,4) by (simp add: word_le_nat_alt)
  have full: "TxCurPending tx = TxMaxPending tx \<longleftrightarrow> length F + length C = unat (TxMaxPending tx)" using B(4) by (metis length_append length_map word_unat_eq_iff)
  show ?thesis
  proof (cases "Buffer = None \<or> \<not> This \<or> n = 0 \<or> NotInitialized (NetState (Snm Dev)) \<noteq> None \<or> n < MediaHeaderSize (Snm Dev) \<or>
      n > MediaHeaderSize (Snm Dev) + MaxPacketSize (Snm Dev) \<or> TxCurPending tx = TxMaxPending tx")
    case True
    have "NotInitialized (NetState (Snm Dev)) = Some s \<Longrightarrow> s \<noteq> EFI_SUCCESS" for s by (auto simp: NotInitialized_def split: EFI_SIMPLE_NETWORK_STATE.splits)
    then have "\<exists>s. s \<noteq> EFI_SUCCESS \<and> VirtioNetTransmit S V This Dev hs n Buffer SrcAddr DestAddr Protocol w = Ok (s, Dev, w)"
      using True net le by (auto simp: VirtioNetTransmit_def split: option.splits)
    then show ?thesis using early by metis
  next
    case False
    then obtain buf where b: "Buffer = Some buf" by auto
    have f: "fresh_address S V tx buf n" "client_ok Dev (TxRing tx) buf SrcAddr DestAddr" using fr [OF b] by auto
    have room: "length F + length C < unat (TxMaxPending tx)" using False full B(1) by auto
    let ?tail = "TransmitTail S V Dev rx tx buf n"
    have tl: "?P (?tail w1)" if a: "acts (TxRing tx) (ring_area (TxRing tx)) tx_serve hst w w1" for w1
    proof -
      obtain F1 C1 where 1: "tx_inv S tx (fst w1) (hst (snd w1)) F1 (C @ C1) info" "mset F = mset F1 + mset (map fst C1)" using tx_acts [OF inv a] by blast
      have "length F1 + length (C @ C1) < unat (TxMaxPending tx)" using arg_cong [OF 1(2), of size] room by simp
      from transmit_tail [OF dev co f(1) 1(1) this, where D = Dev and rx = rx] show ?thesis unfolding pending_acts [OF 1(2)] b .
    qed
    have run: "VirtioNetTransmit S V This Dev hs n Buffer SrcAddr DestAddr Protocol w =
      (if hs = 0 then ?tail w else case (DestAddr, Protocol) of
         (Some d, Some p) \<Rightarrow> if hs \<noteq> MediaHeaderSize (Snm Dev) then Ok (EFI_INVALID_PARAMETER, Dev, w)
           else ?tail (store_bytes (fst w) buf (MediaHeader d (case SrcAddr of None \<Rightarrow> CurrentAddress (Snm Dev) | Some s \<Rightarrow> s) p), snd w)
       | _ \<Rightarrow> Ok (EFI_INVALID_PARAMETER, Dev, w))"
      using False b net le f(2) by (auto simp: VirtioNetTransmit_def TransmitTail_def client_ok_def length_MediaHeader Let_def split: option.splits)
    have hd: "acts (TxRing tx) (ring_area (TxRing tx)) tx_serve hst w (store_bytes (fst w) buf (MediaHeader d (case SrcAddr of None \<Rightarrow> CurrentAddress (Snm Dev) | Some s \<Rightarrow> s) p), snd w)"
      if "DestAddr = Some d" for d p
    proof (rule acts_elsewhere)
      have l: "length (MediaHeader d (case SrcAddr of None \<Rightarrow> CurrentAddress (Snm Dev) | Some s \<Rightarrow> s) p) = 14"
        using f(2) that by (intro length_MediaHeader) (auto simp: client_ok_def split: option.splits)
      fix x assume "x \<in> ring_area (TxRing tx)"
      then have "x < buf \<or> buf + 14 \<le> x" using f(2) unfolding client_ok_def disjoint_iff atLeastLessThan_iff by (meson not_le)
      then show "store_bytes (fst w) buf (MediaHeader d (case SrcAddr of None \<Rightarrow> CurrentAddress (Snm Dev) | Some s \<Rightarrow> s) p) x = fst w x"
        using l by (auto simp: store_bytes_def)
    qed
    show ?thesis unfolding run using tl [OF acts_refl] tl [OF hd] early [of EFI_INVALID_PARAMETER] by (auto split: option.splits)
  qed
qed

section \<open>Collecting a packet\<close>

text \<open>The entry that is found belongs to the descriptor.\<close>

lemma tx_entry:
  assumes co: "collection_ok S" and en: "tx_entries S tx info D" and d: "d \<in> set D"
  shows "\<exists>e. oc_Find S (VirtioNetTxBufDeviceAddressCompare (snd (info d))) (TxBufCollection tx) = Some e \<and> e \<in> set (oc_Entries S (TxBufCollection tx)) \<and>
    (TxBuffer (snd e), address e) = info d"
proof -
  let ?E = "oc_Entries S (TxBufCollection tx)"
  have "info d \<in># image_mset (\<lambda>e. (TxBuffer (snd e), address e)) (mset ?E)" using en d by (simp add: tx_entries_def)
  then obtain e0 where e0: "e0 \<in> set ?E" "(TxBuffer (snd e0), address e0) = info d" by auto
  then have a: "snd (info d) = address e0" by (metis snd_conv)
  then have "snd (info d) \<in> address ` set ?E" using e0(1) by simp
  then obtain e where e: "oc_Find S (VirtioNetTxBufDeviceAddressCompare (snd (info d))) (TxBufCollection tx) = Some e" "e \<in> set ?E" "address e = snd (info d)"
    using collection_okD(2) [OF co] by blast
  have "e = e0" using en e(2,3) e0(1) a by (auto simp: tx_entries_def distinct_map dest: inj_onD)
  then show ?thesis using e e0 by blast
qed

lemma tx_collected:
  assumes inv: "tx_inv S tx m h F ((d, n) # C) info" and e: "e \<in> set (oc_Entries S (TxBufCollection tx))" "(TxBuffer (snd e), address e) = info d"
    and c: "mset (oc_Entries S c) = mset (oc_Entries S (TxBufCollection tx)) - {#e#}"
    and tx': "tx' = tx\<lparr>TxLastUsed := TxLastUsed tx + 1, TxCurPending := TxCurPending tx - 1,
      TxFreeStackWords := (TxFreeStackWords tx)[unat (TxCurPending tx - 1) := of_nat d], TxBufCollection := c\<rparr>"
  shows "tx_inv S tx' m h F C info"
proof -
  note I = tx_invD [OF inv] and T = tx_staticD [OF tx_invD(1) [OF inv]]
  let ?D = "F @ map fst ((d, n) # C)" and ?D' = "F @ map fst C" and ?E = "oc_Entries S (TxBufCollection tx)"
  note B = tx_stack_bounds [OF I(1,3)]
  have msD: "mset ?D = add_mset d (mset ?D')" by simp
  have len: "length ?D' < length (TxFreeStackWords tx)" using B(1) T(4) by simp
  have cur: "unat (TxCurPending tx - 1) = length ?D'" using B(4) by (simp add: unat_minus_one_nat)
  have "d + 2 \<le> 2 * unat (TxMaxPending tx)" using B(2) [of d] by simp
  then have small: "d < 65536" using T(3) unat_u16_less [of "QueueSize (TxRing tx)"] by linarith
  have static: "tx_static tx'" using I(1) by (simp add: tx_static_def tx')
  have queue: "queue_state (TxRing tx') m h (TxLastUsed tx') F C"
    using I(2) used_queue_head(2) [OF T(2)] by (auto simp: queue_state_def tx')
  have "drop (length ?D') (TxFreeStackWords tx') = of_nat d # drop (length ?D) (TxFreeStackWords tx)"
    using len cur Cons_nth_drop_Suc [of "length ?D'" "TxFreeStackWords tx'", symmetric] by (simp add: tx' drop_update_cancel)
  then have "map unat (drop (length ?D') (TxFreeStackWords tx')) = d # map unat (drop (length ?D) (TxFreeStackWords tx))"
    using small by (simp add: unat_of_nat)
  then have stack: "tx_stack tx' ?D'" using I(3) cur msD by (simp add: tx_stack_def tx' union_assoc)
  have msE: "mset ?E = add_mset e (mset (oc_Entries S c))" using c e(1) by simp
  have "mset (map address ?E) = mset (address e # map address (oc_Entries S c))" using msE by simp
  then have "distinct (address e # map address (oc_Entries S c))"
    using mset_eq_imp_distinct_iff [of "map address ?E" "address e # map address (oc_Entries S c)"] I(4) unfolding tx_entries_def by blast
  then have "distinct (map address (oc_Entries S c))" by simp
  then have entries: "tx_entries S tx' info ?D'" using I(4) msE msD e(2) by (simp add: tx_entries_def tx')
  have "tx_descs tx' m info ?D'" using I(5) by (auto simp: tx_descs_def tx')
  then show ?thesis using static queue stack entries by (simp add: tx_inv_def)
qed

lemma CollectTx_result:
  assumes dev: "tx_device S V (TxRing tx) hst" and co: "collection_ok S" and inv: "tx_inv S tx (fst w) (hst (snd w)) F C info"
  shows "\<exists>b tx' w' F' C'. CollectTx S V tx (used16 (TxRing tx) (fst w)) w = Ok (b, tx', w') \<and> TxRing tx' = TxRing tx \<and>
    tx_inv S tx' (fst w') (hst (snd w')) F' C' info \<and> pending info F C = mset_set (set_option b) + pending info F' C' \<and> (b = None \<longleftrightarrow> C = [])"
proof -
  note I = tx_invD [OF inv] and T = tx_staticD [OF tx_invD(1) [OF inv]]
  note B = tx_stack_bounds [OF I(1,3)]
  have "length F + length C \<le> unat (TxMaxPending tx)" using B(1) by simp
  then have "length C < 65536" using unat_u16_less [of "TxMaxPending tx"] by linarith
  then have emp: "used16 (TxRing tx) (fst w) = TxLastUsed tx \<longleftrightarrow> C = []" using used_queue_empty I(2) by (simp add: queue_state_def)
  show ?thesis
  proof (cases C)
    case Nil
    then show ?thesis using emp inv
      by (intro exI [of _ None] exI [of _ tx] exI [of _ w] exI [of _ F] exI [of _ C]) (simp add: CollectTx_def)
  next
    case (Cons dn C0)
    obtain d n where dn: "dn = (d, n)" by (cases dn)
    note C = Cons [unfolded dn]
    have dB: "d + 2 \<le> 2 * unat (TxMaxPending tx)" using B(2) [of d] C by simp
    then have "d < 65536" using T(3) unat_u16_less [of "QueueSize (TxRing tx)"] by linarith
    then have small: "d < 2 ^ 32" by simp
    have "read_used (UsedElem (TxRing tx)) (fst w) (unat (TxLastUsed tx) mod unat (QueueSize (TxRing tx))) = \<lparr>UsedId = of_nat d, UsedLen = of_nat n\<rparr>"
      using used_queue_head(1) [OF T(2)] I(2) C by (fastforce simp: queue_state_def)
    then have id: "unat (UsedId (read_used (UsedElem (TxRing tx)) (fst w) (unat (TxLastUsed tx) mod unat (QueueSize (TxRing tx))))) = d"
      using small by (simp add: unat_of_nat)
    have ad: "Addr (read_desc (Desc (TxRing tx)) (fst w) (d + 1)) = snd (info d)" using I(5) C by (simp add: tx_descs_def)
    have pos: "TxCurPending tx > 0" using B(4) C by (simp add: word_less_nat_alt)
    have le: "TxCurPending tx \<le> TxMaxPending tx" using B(1,4) by (simp add: word_le_nat_alt)
    have cur: "unat (TxCurPending tx - 1) < length (TxFreeStackWords tx)" using B(1,4) T(4) C by (simp add: unat_minus_one_nat)
    obtain e where e: "oc_Find S (VirtioNetTxBufDeviceAddressCompare (snd (info d))) (TxBufCollection tx) = Some e" "e \<in> set (oc_Entries S (TxBufCollection tx))"
      "(TxBuffer (snd e), address e) = info d" using tx_entry [OF co I(4), of d] C by auto
    obtain c w1 where del: "oc_Delete S e (TxBufCollection tx) w = (c, w1)" by (metis surj_pair)
    define tx' where "tx' = tx\<lparr>TxLastUsed := TxLastUsed tx + 1, TxCurPending := TxCurPending tx - 1,
      TxFreeStackWords := (TxFreeStackWords tx)[unat (TxCurPending tx - 1) := of_nat d], TxBufCollection := c\<rparr>"
    let ?w = "net_FreePool S (fst e) (snd (UnmapSharedBuffer V (BufMap (snd e)) w1))"
    have i1: "tx_inv S tx' (fst w) (hst (snd w)) F C0 info"
      using tx_collected [OF inv [unfolded C] e(2,3) collection_okD(3) [OF co e(2) del] tx'_def] .
    have ring: "TxRing tx' = TxRing tx" by (simp add: tx'_def)
    have "acts (TxRing tx) (ring_area (TxRing tx)) tx_serve hst w ?w"
      by (rule acts_trans [OF acts_trans [OF tx_deviceD(4) [OF dev del] tx_deviceD(6) [OF dev]] tx_deviceD(2) [OF dev]])
    then obtain F' C' where 2: "tx_inv S tx' (fst ?w) (hst (snd ?w)) F' (C0 @ C') info" "mset F = mset F' + mset (map fst C')"
      using tx_acts [where w = w and hst = hst, OF i1] ring by metis
    have "pending info F C = add_mset (fst (info d)) (pending info F C0)" using C by (simp add: pending_def)
    then have "pending info F C = {#TxBuffer (snd e)#} + pending info F' (C0 @ C')" using pending_acts [OF 2(2), of info C0] e(3) by (metis add_mset_add_single add.commute fst_conv)
    moreover have "CollectTx S V tx (used16 (TxRing tx) (fst w)) w = Ok (Some (TxBuffer (snd e)), tx', ?w)"
      using emp C dB pos le cur id ad e(1) del by (auto simp: CollectTx_def Let_def VirtioNetUnmapTxBuf_def tx'_def)
    ultimately show ?thesis using ring 2(1) C
      by (intro exI [of _ "Some (TxBuffer (snd e))"] exI [of _ tx'] exI [of _ ?w] exI [of _ F'] exI [of _ "C0 @ C'"]) simp
  qed
qed

section \<open>Status\<close>

text \<open>The buffer that a call reports.\<close>

definition reported :: "nat option option \<Rightarrow> nat multiset" where
  "reported tb = (case tb of Some (Some b) \<Rightarrow> {#b#} | _ \<Rightarrow> {#})"

definition status_ok ::
  "('d, 'map, 'c) net_services \<Rightarrow> ('d \<Rightarrow> host) \<Rightarrow> EFI_SIMPLE_NETWORK_MODE \<Rightarrow> 'map VNET_RX \<Rightarrow> VRING \<Rightarrow> nat multiset
   \<Rightarrow> (EFI_STATUS \<times> u32 option \<times> nat option option \<times> ('map, 'c) VNET_DEV \<times> 'd world) checked \<Rightarrow> bool" where
  "status_ok S hst mode rx r P res \<longleftrightarrow> (\<exists>s irq tb mp tx' w' F' C' info'. res = Ok (s, irq, tb, \<lparr>Snm = mode\<lparr>MediaPresent := mp\<rparr>, Net = Some (rx, tx')\<rparr>, w') \<and>
    TxRing tx' = r \<and> tx_inv S tx' (fst w') (hst (snd w')) F' C' info' \<and> P = reported tb + pending info' F' C')"

text \<open>The member after the link status was read.\<close>

definition StatusTail ::
  "('d, 'map, 'c) net_services \<Rightarrow> ('d, 'map) VIRTIO_DEVICE_PROTOCOL \<Rightarrow> bool \<Rightarrow> bool \<Rightarrow> EFI_STATUS \<times> ('map, 'c) VNET_DEV \<times> 'd world
   \<Rightarrow> (EFI_STATUS \<times> u32 option \<times> nat option option \<times> ('map, 'c) VNET_DEV \<times> 'd world) checked" where
  "StatusTail S V irq tb = (\<lambda>(Status, Dev1, w1). if EFI_ERROR Status then Ok (Status, None, None, Dev1, w1)
     else case Net Dev1 of None \<Rightarrow> OutOfBounds
     | Some (rx, tx) \<Rightarrow>
       let RxCurUsed = (of_nat (load_le (fst w1) (UsedIdx (RxRing rx)) 2) :: u16); TxCurUsed = (of_nat (load_le (fst w1) (UsedIdx (TxRing tx)) 2) :: u16);
           i = (if RxLastUsed rx \<noteq> RxCurUsed then 1 else 0) OR (if TxLastUsed tx \<noteq> TxCurUsed then 2 else (0 :: u32))
       in if irq \<and> TxLastUsed tx \<noteq> TxCurUsed \<and> \<not> TxCurPending tx > 0 then AssertFailed
          else if \<not> tb then Ok (EFI_SUCCESS, if irq then Some i else None, None, Dev1, w1)
          else chk_bind (CollectTx S V tx TxCurUsed w1) (\<lambda>(b, tx1, w2).
            Ok (EFI_SUCCESS, if irq then Some i else None, Some b, Dev1\<lparr>Net := Some (rx, tx1)\<rparr>, w2)))"

lemma GetStatus_unfold:
  "VirtioNetGetStatus S V This Dev irq tb w =
    (if \<not> This then Ok (EFI_INVALID_PARAMETER, None, None, Dev, w)
     else case NotInitialized (NetState (Snm Dev)) of Some Status \<Rightarrow> Ok (Status, None, None, Dev, w)
     | None \<Rightarrow> StatusTail S V irq tb (if MediaPresentSupported (Snm Dev)
             then case ReadDevice V OFFSET_OF_VNET_LinkStatus 2 w of (Status, LinkStatus, w1) \<Rightarrow>
               if EFI_ERROR Status then (Status, Dev, w1)
               else (EFI_SUCCESS, Dev\<lparr>Snm := (Snm Dev)\<lparr>MediaPresent := LinkStatus AND VIRTIO_NET_S_LINK_UP \<noteq> 0\<rparr>\<rparr>, w1)
             else (EFI_SUCCESS, Dev, w)))"
  unfolding VirtioNetGetStatus_def StatusTail_def by (rule refl)

lemma GetStatus_result:
  assumes dev: "tx_device S V (TxRing tx) hst" and co: "collection_ok S" and net: "Net Dev = Some (rx, tx)" and inv: "tx_inv S tx (fst w) (hst (snd w)) F C info"
  shows "status_ok S hst (Snm Dev) rx (TxRing tx) (pending info F C) (VirtioNetGetStatus S V This Dev irq tb w)"
proof -
  let ?mode = "Snm Dev" and ?P = "status_ok S hst (Snm Dev) rx (TxRing tx) (pending info F C)"
  have D: "Dev = \<lparr>Snm = ?mode\<lparr>MediaPresent := MediaPresent ?mode\<rparr>, Net = Some (rx, tx)\<rparr>" using net by (cases Dev) simp
  have early: "?P (Ok (s, i, None, \<lparr>Snm = ?mode\<lparr>MediaPresent := mp\<rparr>, Net = Some (rx, tx)\<rparr>, w1))"
    if a: "acts (TxRing tx) (ring_area (TxRing tx)) tx_serve hst w w1" for s i mp w1
  proof -
    obtain F' C' where 1: "tx_inv S tx (fst w1) (hst (snd w1)) F' (C @ C') info" "mset F = mset F' + mset (map fst C')" using tx_acts [OF inv a] by blast
    show ?thesis unfolding status_ok_def
      by (intro exI [of _ s] exI [of _ i] exI [of _ None] exI [of _ mp] exI [of _ tx] exI [of _ w1] exI [of _ F'] exI [of _ "C @ C'"] exI [of _ info])
        (simp add: 1(1) reported_def pending_acts [OF 1(2)])
  qed
  have body: "?P (StatusTail S V irq tb (s, \<lparr>Snm = ?mode\<lparr>MediaPresent := mp\<rparr>, Net = Some (rx, tx)\<rparr>, w1))"
    if a: "acts (TxRing tx) (ring_area (TxRing tx)) tx_serve hst w w1" for s mp w1
  proof -
    obtain F' C' where 1: "tx_inv S tx (fst w1) (hst (snd w1)) F' (C @ C') info" "mset F = mset F' + mset (map fst C')" using tx_acts [OF inv a] by blast
    obtain b tx' w' F2 C2 where c: "CollectTx S V tx (used16 (TxRing tx) (fst w1)) w1 = Ok (b, tx', w')" "TxRing tx' = TxRing tx" "tx_inv S tx' (fst w') (hst (snd w')) F2 C2 info"
      "pending info F' (C @ C') = mset_set (set_option b) + pending info F2 C2" using CollectTx_result [OF dev co 1(1)] by blast
    have "reported (Some b) = mset_set (set_option b)" by (cases b) (simp_all add: reported_def)
    then have collected: "?P (Ok (EFI_SUCCESS, i, Some b, \<lparr>Snm = ?mode\<lparr>MediaPresent := mp\<rparr>, Net = Some (rx, tx')\<rparr>, w'))" for i
      unfolding status_ok_def using c(2-4) pending_acts [OF 1(2), of info C]
      by (intro exI [of _ EFI_SUCCESS] exI [of _ i] exI [of _ "Some b"] exI [of _ mp] exI [of _ tx'] exI [of _ w'] exI [of _ F2] exI [of _ C2] exI [of _ info]) simp
    have pos: "TxCurPending tx > 0" if "TxLastUsed tx \<noteq> used16 (TxRing tx) (fst w1)"
    proof -
      have "C @ C' \<noteq> []" using that tx_invD(2) [OF 1(1)] by (auto simp: queue_state_def used_queue_def)
      then show ?thesis using tx_stack_bounds(4) [OF tx_invD(1,3) [OF 1(1)]] by (auto simp: word_less_nat_alt)
    qed
    show ?thesis using early [OF a] collected pos c(1) by (auto simp: StatusTail_def used16_def Let_def)
  qed
  obtain s v w1 where rd: "ReadDevice V OFFSET_OF_VNET_LinkStatus 2 w = (s, v, w1)" by (metis prod_cases3)
  note bd = body [OF acts_refl, where mp = "MediaPresent ?mode", folded D] body [OF tx_deviceD(7) [OF dev rd], where mp = "MediaPresent ?mode", folded D]
    body [OF tx_deviceD(7) [OF dev rd], where mp = "v AND VIRTIO_NET_S_LINK_UP \<noteq> 0"]
  have "Dev\<lparr>Snm := ?mode\<lparr>MediaPresent := x\<rparr>\<rparr> = \<lparr>Snm = ?mode\<lparr>MediaPresent := x\<rparr>, Net = Some (rx, tx)\<rparr>" for x using net by (cases Dev) simp
  then show ?thesis unfolding GetStatus_unfold rd using bd early [OF acts_refl, where mp = "MediaPresent ?mode", folded D] by (simp split: option.splits)
qed

end
