(* ===== verification/VirtioNetTxRun.thy ===== *)
theory VirtioNetTxRun
  imports VirtioNetTx
begin

text \<open>
  The transmit side from its initialisation on: sequences of calls of the network protocol members, with the host
  and the receive side acting in between.
\<close>

section \<open>Initialisation\<close>

lemma InitTxLoop_words: "fst (InitTxLoop r a sz ps s) = foldl (\<lambda>st i. st[i := of_nat (2 * i)]) (fst s) ps"
  by (induction r a sz ps s rule: InitTxLoop.induct) (simp_all add: Let_def)

lemma foldl_updates: "k \<le> length st \<Longrightarrow> foldl (\<lambda>st i. st[i := f i]) st [0..<k] = map f [0..<k] @ drop k st"
proof (induction k)
  case (Suc k)
  then have "drop k st = st ! k # drop (Suc k) st" by (simp add: Cons_nth_drop_Suc)
  then show ?case using Suc by (simp add: list_update_append)
qed simp

lemma unat_double: "2 * i < 65536 \<Longrightarrow> unat (2 * of_nat i :: u16) = 2 * i"
  using unat_of_nat [of "2 * i", where 'a = 16] by simp

lemma InitTxLoop_frame:
  assumes "\<And>i. i \<in> set ps \<Longrightarrow> 2 * i + 1 < q" and "q < 65536" and x: "x < Desc r \<or> Desc r + 16 * q \<le> x"
  shows "snd (InitTxLoop r a sz ps (st, m)) x = m x"
  using assms(1)
proof (induction ps arbitrary: st m)
  case (Cons i ps)
  have i: "2 * i + 1 < q" using Cons.prems by simp
  then have u: "unat (of_nat (2 * i) :: u16) = 2 * i" using assms(2) by (simp add: unat_double)
  let ?m1 = "write_desc (Desc r) m (2 * i) \<lparr>Addr = a, Len = of_nat sz, Flags = VRING_DESC_F_NEXT, Next = of_nat (2 * i) + 1\<rparr>"
  have "store_le ?m1 (Desc r + 16 * (2 * i + 1) + 12) 2 0 x = ?m1 x" by (rule store_le_other) (use x i in auto)
  also have "\<dots> = m x" by (rule write_desc_outside_table [of _ q]) (use x i in auto)
  finally show ?case using Cons u by (simp add: Let_def)
qed simp

lemma acts_idle:
  assumes r: "vring_ok r" "unat (QueueSize r) dvd 65536" and q: "queue_state r (fst w) (hst (snd w)) lst [] []" and a: "acts r (ring_area r) tx_serve hst w w'"
  shows "queue_state r (fst w') (hst (snd w')) lst [] []"
proof -
  have "queue_state r (fst p) (snd p) lst [] []" if "(host_step r (ring_area r) tx_serve)\<^sup>*\<^sup>* (fst w, hst (snd w)) p" for p
    using that
  proof (induction rule: rtranclp_induct)
    case (step p p')
    have sv: "\<And>d m m1 n x. tx_serve d m m1 n \<Longrightarrow> n < 2 ^ 32 \<and> (x \<in> ring_area r \<longrightarrow> m1 x = m x)" by (auto simp: tx_serve_def)
    show ?case using host_step_queue [where serve = tx_serve, OF r subset_refl _ _ step.IH, of "fst p'" "snd p'"] sv step.hyps(2) by auto
  qed (use q in simp)
  from this [OF a [unfolded acts_def]] show ?thesis by simp
qed

text \<open>A ring that is ready for initialisation: as \<open>VirtioRingInit\<close> leaves it, with nothing published or returned.\<close>

definition ring_idle :: "VRING \<Rightarrow> mem \<Rightarrow> host \<Rightarrow> bool" where
  "ring_idle r m h \<longleftrightarrow> vring_ok r \<and> unat (QueueSize r) dvd 65536 \<and> queue_state r m h 0 [] []"

lemma MaxPending_bound: "2 * MaxPending r \<le> unat (QueueSize r)" "MaxPending r < 65536"
  by (auto simp: MaxPending_def VNET_MAX_PENDING_def)

lemma doubles_u16: "2 * n < 65536 + 1 \<Longrightarrow> map (\<lambda>i. unat (of_nat (2 * i) :: u16)) [0..<n] = map (\<lambda>i. 2 * i) [0..<n]"
  by (auto simp: unat_double)

lemma InitTx_result:
  assumes dev: "tx_device S V r hst" and co: "collection_ok S" and idle: "ring_idle r (fst w) (hst (snd w))"
  shows "\<exists>x w'. VirtioNetInitTx S V r mi w = Ok (x, w')"
    "VirtioNetInitTx S V r mi w = Ok (Inr tx, w') \<Longrightarrow> TxRing tx = r \<and> TxMaxPending tx = of_nat (MaxPending r) \<and> tx_inv S tx (fst w') (hst (snd w')) [] [] info"
proof -
  have r: "vring_ok r" "unat (QueueSize r) dvd 65536" and q0: "queue_state r (fst w) (hst (snd w)) 0 [] []" using idle by (simp_all add: ring_idle_def)
  note L = ring_layout [OF r(1)]
  let ?n = "MaxPending r"
  obtain p w1 where a1: "net_AllocatePool S (?n * 2) w = (p, w1)" by (metis surj_pair)
  obtain c w2 where a2: "oc_Init S w1 = (c, w2)" by (metis surj_pair)
  have pg: "EFI_SIZE_TO_PAGES sizeof_VIRTIO_1_0_NET_REQ = 1" by (simp add: EFI_SIZE_TO_PAGES_def sizeof_VIRTIO_1_0_NET_REQ_def EFI_PAGE_SIZE_def)
  obtain s3 buf w3 where a3: "AllocateSharedPages V 1 w2 = (s3, buf, w3)" by (metis prod_cases3)
  define w3' where "w3' = (set_mem (fst w3) buf 12 0, snd w3)"
  obtain s4 y w4 where a4: "VirtioMapAllBytesInSharedBuffer V VirtioOperationBusMasterCommonBuffer buf 12 w3' = (s4, y, w4)" by (metis prod_cases3)
  have t3: "acts r (ring_area r) tx_serve hst w w3"
    by (rule acts_trans [OF acts_trans [OF tx_deviceD(1) [OF dev a1] tx_deviceD(9) [OF dev a2]] conjunct1 [OF tx_deviceD(10) [OF dev a3]]])
  have away: "x < buf \<or> buf + 4096 \<le> x" if "x \<in> ring_area r" "\<not> EFI_ERROR s3" for x
    using tx_deviceD(10) [OF dev a3] that unfolding disjoint_iff atLeastLessThan_iff by (metis mult.right_neutral not_le)
  have q4: "queue_state r (fst w4) (hst (snd w4)) 0 [] []" if ok: "\<not> EFI_ERROR s3"
  proof -
    have "acts r (ring_area r) tx_serve hst w3 w3'" unfolding w3'_def by (rule acts_elsewhere, rule set_mem_other) (use away ok in force)
    from acts_idle [OF r q0 acts_trans [OF acts_trans [OF t3 this] MapAll_acts(1) [OF dev a4]]] show ?thesis .
  qed
  define L1 where "L1 = (\<lambda>a. InitTxLoop r a (VirtioNetReqSize V) [0..<?n] (replicate ?n 0, fst w4))"
  define m6 where "m6 = (\<lambda>a. store_le (store_le (store_le (snd (L1 a)) buf 1 0) (buf + 1) 1 0) (buf + 10) 2 0)"
  have words: "fst (L1 a) = map (\<lambda>i. of_nat (2 * i)) [0..<?n]" for a by (simp add: L1_def InitTxLoop_words foldl_updates)
  have m6: "m6 a x = fst w4 x" if "x \<in> ring_area r" "AvailFlags r \<le> x" "\<not> EFI_ERROR s3" for a x
  proof -
    have "m6 a x = snd (L1 a) x" using away [OF that(1,3)] by (auto simp: m6_def store_le_other)
    also have "\<dots> = fst w4 x" unfolding L1_def
      by (rule InitTxLoop_frame [of _ "unat (QueueSize r)"]) (use that(2) L(3) MaxPending_bound(1) [of r] unat_u16_less [of "QueueSize r"] in auto)
    finally show ?thesis .
  qed
  let ?m7 = "\<lambda>a. store_le (m6 a) (AvailFlags r) 2 VRING_AVAIL_F_NO_INTERRUPT"
  have m7: "?m7 a x = fst w4 x" if "AvailIdx r \<le> x" "x < UsedAvailEvent r + 2" "\<not> EFI_ERROR s3" for a x
    using that m6 [of x a] L by (simp add: store_le_other ring_area_def)
  have u0: "of_nat (load_le (m6 a) (UsedIdx r) 2) = (0 :: u16)" if ok: "\<not> EFI_ERROR s3" for a
  proof -
    have "load_le (m6 a) (UsedIdx r) 2 = load_le (fst w4) (UsedIdx r) 2"
      by (rule load_le_cong, rule m6) (use L ok in \<open>auto simp: ring_area_def\<close>)
    then show ?thesis using q4 [OF ok] by (simp add: queue_state_def used_queue_def used16_def)
  qed
  define T where "T = (\<lambda>stk (cl :: 'c) a mm. \<lparr>TxRing = r, TxRingMap = mi, TxMaxPending = of_nat ?n, TxCurPending = 0, TxFreeStack = stk, TxFreeStackWords = fst (L1 a),
    TxSharedReq = buf, TxSharedReqMap = mm, TxLastUsed = 0, TxBufCollection = cl\<rparr>)"
  have run: "VirtioNetInitTx S V r mi w = (case p of None \<Rightarrow> Ok (Inl EFI_OUT_OF_RESOURCES, w1)
      | Some stk \<Rightarrow> case c of None \<Rightarrow> Ok (Inl EFI_OUT_OF_RESOURCES, net_FreePool S stk w2)
      | Some cl \<Rightarrow> if EFI_ERROR s3 then Ok (Inl s3, net_FreePool S stk (oc_Uninit S cl w3))
         else case y of None \<Rightarrow> Ok (Inl s4, net_FreePool S stk (oc_Uninit S cl (FreeSharedPages V 1 buf w4)))
         | Some (a, mm) \<Rightarrow> Ok (Inr (T stk cl a mm), ?m7 a, snd w4))"
    using a1 a2 a3 a4 u0 [unfolded m6_def L1_def] unfolding VirtioNetInitTx_def pg
    by (simp add: Let_def w3'_def sizeof_VIRTIO_1_0_NET_REQ_def L1_def m6_def case_prod_beta T_def split: option.splits)
  show "\<exists>x w'. VirtioNetInitTx S V r mi w = Ok (x, w')" unfolding run by (simp split: option.splits prod.splits)
  have inv: "tx_inv S (T stk cl a mm) (?m7 a) (hst (snd w4)) [] [] info" if ok: "\<not> EFI_ERROR s3" and cl: "c = Some cl" for stk cl a mm
  proof -
    have f: "in_flight r (?m7 a) (hst (snd w4)) = []" using in_flight_frame [OF r(1), of "?m7 a" "fst w4"] m7 ok L q4 [OF ok] by (simp add: queue_state_def)
    have u: "used_queue r (?m7 a) 0 []" using used_queue_frame [OF r(1), of "?m7 a" "fst w4"] m7 ok L q4 [OF ok] by (simp add: queue_state_def)
    have n: "unat (of_nat ?n :: u16) = ?n" using MaxPending_bound(2) by (simp add: unat_of_nat)
    have "map unat (fst (L1 a)) = map (\<lambda>i. 2 * i) [0..<?n]"
      using doubles_u16 [of ?n] MaxPending_bound(1) [of r] unat_u16_less [of "QueueSize r"] by (simp add: words comp_def)
    then have ms: "image_mset unat (mset (fst (L1 a))) = mset (map (\<lambda>i. 2 * i) [0..<?n])" by (metis mset_map)
    have "length (fst (L1 a)) = ?n" by (simp add: words)
    then show ?thesis using f u n r MaxPending_bound(1) [of r] collection_okD(4) [OF co] a2 cl ms
      by (simp add: tx_inv_def tx_static_def tx_stack_def tx_entries_def tx_descs_def T_def queue_state_def)
  qed
  show "VirtioNetInitTx S V r mi w = Ok (Inr tx, w') \<Longrightarrow> TxRing tx = r \<and> TxMaxPending tx = of_nat ?n \<and> tx_inv S tx (fst w') (hst (snd w')) [] [] info"
    unfolding run using inv by (auto simp: T_def split: option.splits if_splits)
qed

section \<open>Calls of the members\<close>

text \<open>Every call of \<open>GetStatus\<close> reports a buffer when one is waiting.\<close>

lemma GetStatus_progress:
  assumes dev: "tx_device S V (TxRing tx) hst" and co: "collection_ok S" and net: "Net Dev = Some (rx, tx)" and inv: "tx_inv S tx (fst w) (hst (snd w)) F C info"
    and ini: "NetState (Snm Dev) = EfiSimpleNetworkInitialized" and rd: "\<not> EFI_ERROR (fst (ReadDevice V OFFSET_OF_VNET_LinkStatus 2 w))"
    and wait: "TxLastUsed tx \<noteq> used16 (TxRing tx) (fst w)"
  shows "\<exists>i b Dev' w'. VirtioNetGetStatus S V True Dev irq True w = Ok (EFI_SUCCESS, i, Some (Some b), Dev', w')"
proof -
  obtain s v w1 where r: "ReadDevice V OFFSET_OF_VNET_LinkStatus 2 w = (s, v, w1)" by (metis prod_cases3)
  have C: "C \<noteq> []" using wait tx_invD(2) [OF inv] by (auto simp: queue_state_def used_queue_def)
  have pos: "TxCurPending tx > 0" using tx_stack_bounds(4) [OF tx_invD(1,3) [OF inv]] C by (auto simp: word_less_nat_alt)
  have collect: "\<exists>b tx' w'. CollectTx S V tx (of_nat (load_le (fst w2) (UsedIdx (TxRing tx)) 2)) w2 = Ok (Some b, tx', w')"
    if a: "acts (TxRing tx) (ring_area (TxRing tx)) tx_serve hst w w2" for w2
  proof -
    obtain F' C' where 1: "tx_inv S tx (fst w2) (hst (snd w2)) F' (C @ C') info" using tx_acts [OF inv a] by blast
    then show ?thesis using CollectTx_result [OF dev co 1] C by (auto simp: used16_def)
  qed
  show ?thesis
  proof (cases "MediaPresentSupported (Snm Dev)")
    case True
    obtain b tx' w' where "CollectTx S V tx (of_nat (load_le (fst w1) (UsedIdx (TxRing tx)) 2)) w1 = Ok (Some b, tx', w')"
      using collect [OF tx_deviceD(7) [OF dev r]] by blast
    then show ?thesis using net ini rd r pos True by (simp add: VirtioNetGetStatus_def NotInitialized_def Let_def)
  next
    case False
    obtain b tx' w' where "CollectTx S V tx (of_nat (load_le (fst w) (UsedIdx (TxRing tx)) 2)) w = Ok (Some b, tx', w')" using collect [OF acts_refl] by blast
    then show ?thesis using net ini pos False by (simp add: VirtioNetGetStatus_def NotInitialized_def Let_def)
  qed
qed

text \<open>A run: initialisation, then calls of the members in any order, with the host and the receive side acting in
  between.  \<open>Q\<close> are the buffers that were accepted for transmission, \<open>R\<close> those that were reported.\<close>

definition transmit_ok ::
  "('d, 'map, 'c) net_services \<Rightarrow> ('d, 'map) VIRTIO_DEVICE_PROTOCOL \<Rightarrow> ('map, 'c) VNET_DEV \<Rightarrow> nat \<Rightarrow> nat option \<Rightarrow> u8 list option \<Rightarrow> u8 list option \<Rightarrow> bool" where
  "transmit_ok S V Dev n Buffer SrcAddr DestAddr \<longleftrightarrow> (case Buffer of None \<Rightarrow> True | Some buf \<Rightarrow>
     case Net Dev of None \<Rightarrow> True | Some (rx, tx) \<Rightarrow> fresh_address S V tx buf n \<and> client_ok Dev (TxRing tx) buf SrcAddr DestAddr)"

inductive tx_run ::
  "('d, 'map, 'c) net_services \<Rightarrow> ('d, 'map) VIRTIO_DEVICE_PROTOCOL \<Rightarrow> ('d \<Rightarrow> host) \<Rightarrow> VRING
   \<Rightarrow> ('map, 'c) VNET_DEV \<times> 'd world \<times> nat multiset \<times> nat multiset \<Rightarrow> bool" for S V hst r where
  start: "ring_idle r (fst w0) (hst (snd w0)) \<Longrightarrow> VirtioNetInitTx S V r mi w0 = Ok (Inr tx, w) \<Longrightarrow> Net Dev = Some (rx, tx) \<Longrightarrow> tx_run S V hst r (Dev, w, {#}, {#})"
| send: "tx_run S V hst r (Dev, w, Q, R) \<Longrightarrow> transmit_ok S V Dev n Buffer SrcAddr DestAddr \<Longrightarrow>
    VirtioNetTransmit S V This Dev hs n Buffer SrcAddr DestAddr Protocol w = Ok (s, Dev', w') \<Longrightarrow>
    tx_run S V hst r (Dev', w', (if s = EFI_SUCCESS then {#the Buffer#} else {#}) + Q, R)"
| status: "tx_run S V hst r (Dev, w, Q, R) \<Longrightarrow> VirtioNetGetStatus S V This Dev irq tb w = Ok (s, i, x, Dev', w') \<Longrightarrow> tx_run S V hst r (Dev', w', Q, reported x + R)"
| others: "tx_run S V hst r (Dev, w, Q, R) \<Longrightarrow> Net Dev = Some (rx, tx) \<Longrightarrow> acts r (ring_area r) tx_serve hst w w' \<Longrightarrow> Net Dev' = Some (rx', tx) \<Longrightarrow>
    tx_run S V hst r (Dev', w', Q, R)"

definition tx_account ::
  "('d, 'map, 'c) net_services \<Rightarrow> ('d \<Rightarrow> host) \<Rightarrow> VRING \<Rightarrow> ('map, 'c) VNET_DEV \<Rightarrow> 'd world \<Rightarrow> nat multiset \<Rightarrow> nat multiset \<Rightarrow> bool" where
  "tx_account S hst r Dev w Q R \<longleftrightarrow> (\<exists>rx tx F C info. Net Dev = Some (rx, tx) \<and> TxRing tx = r \<and> tx_inv S tx (fst w) (hst (snd w)) F C info \<and> Q = pending info F C + R)"

lemma transmit_accounts:
  assumes dev: "tx_device S V r hst" and co: "collection_ok S" and acc: "tx_account S hst r Dev w Q R" and ok: "transmit_ok S V Dev n Buffer SrcAddr DestAddr"
  shows "\<exists>s Dev' w'. VirtioNetTransmit S V This Dev hs n Buffer SrcAddr DestAddr Protocol w = Ok (s, Dev', w') \<and>
    tx_account S hst r Dev' w' ((if s = EFI_SUCCESS then {#the Buffer#} else {#}) + Q) R"
proof -
  obtain rx tx F C info where a: "Net Dev = Some (rx, tx)" "TxRing tx = r" "tx_inv S tx (fst w) (hst (snd w)) F C info" "Q = pending info F C + R"
    using acc by (auto simp: tx_account_def)
  have "transmitted S hst Dev rx (TxRing tx) Buffer (pending info F C) (VirtioNetTransmit S V This Dev hs n Buffer SrcAddr DestAddr Protocol w)"
    by (rule Transmit_result [where hst = hst, OF _ co a(1,3)]) (use dev a(1,2) ok in \<open>auto simp: transmit_ok_def\<close>)
  then obtain s tx' w' F' C' info' where "VirtioNetTransmit S V This Dev hs n Buffer SrcAddr DestAddr Protocol w = Ok (s, Dev\<lparr>Net := Some (rx, tx')\<rparr>, w')"
    "TxRing tx' = r" "tx_inv S tx' (fst w') (hst (snd w')) F' C' info'" "pending info' F' C' = (if s = EFI_SUCCESS then {#the Buffer#} else {#}) + pending info F C"
    unfolding transmitted_def a(2) by blast
  then show ?thesis unfolding tx_account_def using a(4)
    by (intro exI [of _ s] exI [of _ "Dev\<lparr>Net := Some (rx, tx')\<rparr>"] exI [of _ w'] conjI exI [of _ rx] exI [of _ tx'] exI [of _ F'] exI [of _ C'] exI [of _ info']) simp_all
qed

lemma status_accounts:
  assumes dev: "tx_device S V r hst" and co: "collection_ok S" and acc: "tx_account S hst r Dev w Q R"
  shows "\<exists>s i x Dev' w'. VirtioNetGetStatus S V This Dev irq tb w = Ok (s, i, x, Dev', w') \<and> tx_account S hst r Dev' w' Q (reported x + R)"
proof -
  obtain rx tx F C info where a: "Net Dev = Some (rx, tx)" "TxRing tx = r" "tx_inv S tx (fst w) (hst (snd w)) F C info" "Q = pending info F C + R"
    using acc by (auto simp: tx_account_def)
  have "status_ok S hst (Snm Dev) rx (TxRing tx) (pending info F C) (VirtioNetGetStatus S V This Dev irq tb w)"
    by (rule GetStatus_result [where hst = hst, OF _ co a(1,3)]) (use dev a(2) in simp)
  then obtain s i x mp tx' w' F' C' info' where "VirtioNetGetStatus S V This Dev irq tb w = Ok (s, i, x, \<lparr>Snm = (Snm Dev)\<lparr>MediaPresent := mp\<rparr>, Net = Some (rx, tx')\<rparr>, w')"
    "TxRing tx' = r" "tx_inv S tx' (fst w') (hst (snd w')) F' C' info'" "pending info F C = reported x + pending info' F' C'"
    unfolding status_ok_def a(2) by blast
  then show ?thesis unfolding tx_account_def using a(4)
    by (intro exI [of _ s] exI [of _ i] exI [of _ x] exI [of _ "\<lparr>Snm = (Snm Dev)\<lparr>MediaPresent := mp\<rparr>, Net = Some (rx, tx')\<rparr>"] exI [of _ w'] conjI
        exI [of _ rx] exI [of _ tx'] exI [of _ F'] exI [of _ C'] exI [of _ info']) (simp_all add: ac_simps)
qed

lemma tx_run_accounts:
  assumes dev: "tx_device S V r hst" and co: "collection_ok S"
  shows "tx_run S V hst r (Dev, w, Q, R) \<Longrightarrow> tx_account S hst r Dev w Q R"
proof (induction "(Dev, w, Q, R)" arbitrary: Dev w Q R rule: tx_run.induct)
  case (start w0 mi tx w Dev rx)
  then show ?case using InitTx_result(2) [where hst = hst, OF dev co, of w0 mi tx w "\<lambda>_. (0, 0)"]
    unfolding tx_account_def by (intro exI [of _ rx] exI [of _ tx] exI [of _ "[]"] exI [of _ "\<lambda>_. (0, 0)"]) (simp add: pending_def)
next
  case (send Dev w Q R n Buffer SrcAddr DestAddr This hs Protocol s Dev' w')
  then show ?case using transmit_accounts [OF dev co send.hyps(2,3), of This hs Protocol] by auto
next
  case (status Dev w Q R This irq tb s i x Dev' w')
  then show ?case using status_accounts [OF dev co status.hyps(2), of This irq tb] by auto
next
  case (others Dev w Q R rx tx w' Dev' rx')
  obtain F C info where a: "TxRing tx = r" "tx_inv S tx (fst w) (hst (snd w)) F C info" "Q = pending info F C + R"
    using others.hyps(2,3) by (auto simp: tx_account_def)
  obtain F' C' where 1: "tx_inv S tx (fst w') (hst (snd w')) F' (C @ C') info" "mset F = mset F' + mset (map fst C')"
    using tx_acts [where hst = hst and w = w and w' = w', OF a(2)] others.hyps(4) a(1) by blast
  then show ?case unfolding tx_account_def using others.hyps(5) a(1,3) pending_acts [OF 1(2), of info C]
    by (intro exI [of _ rx'] exI [of _ tx] exI [of _ F'] exI [of _ "C @ C'"] exI [of _ info]) simp
qed

section \<open>Properties\<close>

text \<open>Property C4.  From the initialisation of the transmit queue on, in every order of transmissions, status calls and steps of a
  host that returns packets in any order: no call fails an assertion or leaves the ring, the buffers reported are buffers
  that were accepted, each as often as it was accepted at most, the number not yet reported is the driver's
  \<open>TxCurPending\<close> and within its limit, and a status call reports a buffer whenever the host has returned one.\<close>

theorem VirtioNet_tx_exactly_once:
  assumes dev: "tx_device S V r hst" and co: "collection_ok S" and run: "tx_run S V hst r (Dev, w, Q, R)"
  shows "\<exists>rx tx. Net Dev = Some (rx, tx) \<and> R \<subseteq># Q \<and> size (Q - R) = unat (TxCurPending tx) \<and> TxCurPending tx \<le> TxMaxPending tx \<and>
    (\<forall>This irq tb. \<exists>s i x Dev' w'. VirtioNetGetStatus S V This Dev irq tb w = Ok (s, i, x, Dev', w') \<and> reported x \<subseteq># Q - R) \<and>
    (\<forall>irq. NetState (Snm Dev) = EfiSimpleNetworkInitialized \<longrightarrow> \<not> EFI_ERROR (fst (ReadDevice V OFFSET_OF_VNET_LinkStatus 2 w)) \<longrightarrow>
       TxLastUsed tx \<noteq> used16 r (fst w) \<longrightarrow> (\<exists>i b Dev' w'. VirtioNetGetStatus S V True Dev irq True w = Ok (EFI_SUCCESS, i, Some (Some b), Dev', w'))) \<and>
    (\<forall>This hs n Buffer SrcAddr DestAddr Protocol. transmit_ok S V Dev n Buffer SrcAddr DestAddr \<longrightarrow>
       (\<exists>s Dev' w'. VirtioNetTransmit S V This Dev hs n Buffer SrcAddr DestAddr Protocol w = Ok (s, Dev', w')))"
proof -
  have acc: "tx_account S hst r Dev w Q R" by (rule tx_run_accounts [OF dev co run])
  then obtain rx tx F C info where a: "Net Dev = Some (rx, tx)" "TxRing tx = r" "tx_inv S tx (fst w) (hst (snd w)) F C info" "Q = pending info F C + R"
    by (auto simp: tx_account_def)
  note B = tx_stack_bounds [OF tx_invD(1,3) [OF a(3)]]
  have "R \<subseteq># Q" "size (Q - R) = unat (TxCurPending tx)" "TxCurPending tx \<le> TxMaxPending tx" using a(4) B(1,4) by (simp_all add: size_pending word_le_nat_alt)
  moreover have "\<exists>s i x Dev' w'. VirtioNetGetStatus S V This Dev irq tb w = Ok (s, i, x, Dev', w') \<and> reported x \<subseteq># Q - R" for This irq tb
  proof -
    obtain s i x Dev' w' where g: "VirtioNetGetStatus S V This Dev irq tb w = Ok (s, i, x, Dev', w')" "tx_account S hst r Dev' w' Q (reported x + R)"
      using status_accounts [OF dev co acc] by blast
    then have "reported x \<subseteq># Q - R" by (auto simp: tx_account_def)
    then show ?thesis using g(1) by blast
  qed
  moreover have "\<exists>i b Dev' w'. VirtioNetGetStatus S V True Dev irq True w = Ok (EFI_SUCCESS, i, Some (Some b), Dev', w')"
    if "NetState (Snm Dev) = EfiSimpleNetworkInitialized" "\<not> EFI_ERROR (fst (ReadDevice V OFFSET_OF_VNET_LinkStatus 2 w))" "TxLastUsed tx \<noteq> used16 r (fst w)" for irq
    using GetStatus_progress [where hst = hst, OF _ co a(1,3)] that dev a(2) by blast
  moreover have "\<exists>s Dev' w'. VirtioNetTransmit S V This Dev hs n Buffer SrcAddr DestAddr Protocol w = Ok (s, Dev', w')"
    if "transmit_ok S V Dev n Buffer SrcAddr DestAddr" for This hs n Buffer SrcAddr DestAddr Protocol
    using transmit_accounts [OF dev co acc that] by blast
  ultimately show ?thesis using a(1) by blast
qed

section \<open>A device and a client\<close>

definition net_dev :: "(host, unit) VIRTIO_DEVICE_PROTOCOL" where
  "net_dev = \<lparr>Revision = VIRTIO_SPEC_REVISION 1 0 0,
     SetGuestFeatures = (\<lambda>_ w. (EFI_SUCCESS, w)), SetDeviceStatus = (\<lambda>_ w. (EFI_SUCCESS, w)), GetDeviceStatus = (\<lambda>_ w. (EFI_SUCCESS, 0, w)),
     SetQueueNotify = (\<lambda>_ w. (EFI_SUCCESS, w)), AllocateSharedPages = (\<lambda>_ w. (EFI_SUCCESS, 8192, w)), FreeSharedPages = (\<lambda>_ _ w. w),
     MapSharedBuffer = (\<lambda>_ p n w. (EFI_SUCCESS, (n, of_nat p, ()), w)), UnmapSharedBuffer = (\<lambda>_ w. (EFI_SUCCESS, w)),
     SubSystemDeviceId = 1, GetDeviceFeatures = (\<lambda>w. (EFI_SUCCESS, 0x100000020, w)), SetPageSize = (\<lambda>_ w. (EFI_SUCCESS, w)),
     SetQueueSel = (\<lambda>_ w. (EFI_SUCCESS, w)), GetQueueNumMax = (\<lambda>w. (EFI_SUCCESS, 2, w)), SetQueueNum = (\<lambda>_ w. (EFI_SUCCESS, w)),
     SetQueueAlign = (\<lambda>_ w. (EFI_SUCCESS, w)), SetQueueAddress = (\<lambda>_ _ w. (EFI_SUCCESS, w)),
     ReadDevice = (\<lambda>_ _ w. (EFI_SUCCESS, 1, w)), WriteDevice = (\<lambda>_ _ _ w. (EFI_SUCCESS, w))\<rparr>"

definition list_services :: "(host, unit, unit tx_entry list) net_services" where
  "list_services = \<lparr>net_AllocatePool = (\<lambda>_ w. (Some 0x9000, w)), net_FreePool = (\<lambda>_ w. w), oc_Init = (\<lambda>w. (Some [], w)),
     oc_Insert = (\<lambda>_ e c w. (EFI_SUCCESS, e # c, w)), oc_Find = (\<lambda>cmp c. find (\<lambda>e. cmp (snd e) = 0) c), oc_Entries = (\<lambda>c. c),
     oc_Delete = (\<lambda>e c w. (remove1 e c, w)), oc_Uninit = (\<lambda>_ w. w)\<rparr>"

lemma find_finds: "\<exists>x\<in>set xs. P x \<Longrightarrow> \<exists>x. find P xs = Some x \<and> x \<in> set xs \<and> P x"
  by (induction xs) auto

lemma list_services_ok: "collection_ok list_services"
proof -
  have "\<exists>e. find (\<lambda>e. VirtioNetTxBufDeviceAddressCompare a (snd e) = 0) c = Some e \<and> e \<in> set c \<and> address e = a"
    if "a \<in> address ` set c" for a and c :: "unit tx_entry list"
    using find_finds [of c "\<lambda>e. VirtioNetTxBufDeviceAddressCompare a (snd e) = 0"] that by (fastforce simp: VirtioNetTxBufDeviceAddressCompare_def split: if_splits)
  then show ?thesis by (auto simp: collection_ok_def list_services_def)
qed

lemma demo_ring_area: "ring_area demo_ring = {0..<4118}"
  by (simp add: ring_area_def demo_ring_def VirtioRingPointers_def zero_VRING_def ALIGN_VALUE_def EFI_PAGE_SIZE_def)

lemma net_dev_ok: "tx_device list_services net_dev demo_ring (\<lambda>h. h)"
  by (auto simp: tx_device_def net_dev_def list_services_def acts_refl demo_ring_area)

lemma demo_ring_idle: "ring_idle demo_ring (\<lambda>_. 0) ([], 0)"
proof -
  have "unat (QueueSize demo_ring) = 2" by (simp add: demo_ring_def)
  then show ?thesis using demo_ring_ok
    by (simp add: ring_idle_def queue_state_def in_flight_def used_queue_def avail16_def used16_def load_le_zero)
qed

definition net_mode :: EFI_SIMPLE_NETWORK_MODE where
  "net_mode = (SnpMode [2, 0, 0, 0, 0, 1] False False)\<lparr>NetState := EfiSimpleNetworkInitialized\<rparr>"

definition net_tx :: "(unit, unit tx_entry list) VNET_TX" where
  "net_tx = \<lparr>TxRing = demo_ring, TxRingMap = (), TxMaxPending = 1, TxCurPending = 0, TxFreeStack = 0x9000, TxFreeStackWords = [0],
     TxSharedReq = 8192, TxSharedReqMap = (), TxLastUsed = 0, TxBufCollection = []\<rparr>"

definition net_rx :: "unit VNET_RX" where
  "net_rx = \<lparr>RxRing = zero_VRING, RxRingMap = (), RxBuf = 0, RxLastUsed = 0, RxBufNrPages = 0, RxBufDeviceBase = 0, RxBufMap = ()\<rparr>"

lemma net_init: "\<exists>m. VirtioNetInitTx list_services net_dev demo_ring () (\<lambda>_. 0, [], 0) = Ok (Inr net_tx, m, [], 0)"
proof -
  have n: "MaxPending demo_ring = 1" by (simp add: MaxPending_def demo_ring_def VNET_MAX_PENDING_def)
  have no: "VirtioNetInitTx list_services net_dev demo_ring () (\<lambda>_. 0, [], 0) \<noteq> AssertFailed"
    using InitTx_result(1) [OF net_dev_ok list_services_ok, of "(\<lambda>_. 0, [], 0)" "()"] demo_ring_idle by auto
  obtain words m where lp: "InitTxLoop demo_ring 8192 (VirtioNetReqSize net_dev) [0..<1] (replicate 1 0, set_mem (\<lambda>_. 0) 8192 12 0) = (words, m)" by (metis surj_pair)
  have w: "words = [0]" using InitTxLoop_words [of demo_ring 8192 "VirtioNetReqSize net_dev" "[0..<1]" "(replicate 1 0, set_mem (\<lambda>_. 0) 8192 12 0)"] lp by simp
  let ?m = "store_le (store_le (store_le m 8192 1 0) 8193 1 0) 8202 2 0"
  have "VirtioNetInitTx list_services net_dev demo_ring () (\<lambda>_. 0, [], 0) =
    (if of_nat (load_le ?m (UsedIdx demo_ring) 2) \<noteq> (0 :: u16) then AssertFailed else Ok (Inr net_tx, store_le ?m (AvailFlags demo_ring) 2 VRING_AVAIL_F_NO_INTERRUPT, [], 0))"
    using lp by (simp add: VirtioNetInitTx_def n w list_services_def net_dev_def VirtioMapAllBytesInSharedBuffer_def Let_def sizeof_VIRTIO_1_0_NET_REQ_def
        net_tx_def del: InitTxLoop.simps)
  then show ?thesis using no by (auto split: if_splits)
qed

text \<open>The host takes the only packet and returns it.\<close>

lemma host_returns:
  assumes inv: "tx_inv S tx m ([], 0) F C info" and p: "length F + length C = 1" and tx: "TxRing tx = r" "TxLastUsed tx = 0"
  shows "\<exists>w'. acts r (ring_area r) tx_serve (\<lambda>h. h) (m, [], 0) w' \<and> used16 r (fst w') \<noteq> 0"
proof (cases C)
  case Nil
  have f: "in_flight r m ([], 0) = F" and u: "used16 r m = 0" using tx_invD(2) [OF inv] Nil tx by (simp_all add: queue_state_def used_queue_def)
  let ?d = "avail_entry r m 0"
  have "unat (avail16 r m) = length F" using arg_cong [OF f, of length] by (simp add: in_flight_def)
  then have "avail16 r m \<noteq> 0" using p Nil by auto
  then have "host_step r (ring_area r) tx_serve (m, [], 0) (m, [?d], 1)" using host_step.fetch [of r m 0 "ring_area r" tx_serve "[]"] by simp
  moreover have "host_step r (ring_area r) tx_serve (m, [?d], 1) (push_used r m ?d 0, [], 1)"
    using host_step.complete [of ?d "[?d]" tx_serve m m 0 r "ring_area r" 1] by (simp add: tx_serve_def)
  ultimately have "acts r (ring_area r) tx_serve (\<lambda>h. h) (m, [], 0) (push_used r m ?d 0, [], 1)" unfolding acts_def by (simp add: converse_rtranclp_into_rtranclp)
  then show ?thesis using u by (intro exI [of _ "(push_used r m ?d 0, [], 1)"]) (simp add: used16_push_used)
next
  case (Cons c C')
  then show ?thesis using tx_invD(2) [OF inv] p tx by (intro exI [of _ "(m, [], 0)"]) (auto simp: queue_state_def used_queue_def acts_refl)
qed

theorem VirtioNet_tx_exactly_once_witness:
  "\<exists>Dev w i Dev' w'. tx_run list_services net_dev (\<lambda>h. h) demo_ring (Dev, w, {#0x5000#}, {#}) \<and>
     VirtioNetGetStatus list_services net_dev True Dev True True w = Ok (EFI_SUCCESS, i, Some (Some 0x5000), Dev', w')"
proof -
  let ?run = "tx_run list_services net_dev (\<lambda>h. h) demo_ring" and ?D0 = "\<lparr>Snm = net_mode, Net = Some (net_rx, net_tx)\<rparr>"
  let ?tx1 = "net_tx\<lparr>TxCurPending := 1, TxBufCollection := [(0x9000, \<lparr>TxBuffer = 0x5000, DeviceAddress = 0x5000, BufMap = ()\<rparr>)]\<rparr>"
  let ?D1 = "\<lparr>Snm = net_mode, Net = Some (net_rx, ?tx1)\<rparr>"
  obtain m0 where i: "VirtioNetInitTx list_services net_dev demo_ring () (\<lambda>_. 0, [], 0) = Ok (Inr net_tx, m0, [], 0)" using net_init by blast
  have r0: "?run (?D0, (m0, [], 0), {#}, {#})"
    by (rule tx_run.start [OF _ i, where rx = net_rx]) (use demo_ring_idle in simp_all)
  have ok: "transmit_ok list_services net_dev ?D0 100 (Some 0x5000) None None"
    by (simp add: transmit_ok_def fresh_address_def client_ok_def list_services_def net_tx_def demo_ring_area net_mode_def SnpMode_def SIZE_OF_VNET_Mac_def)
  obtain m1 where t: "VirtioNetTransmit list_services net_dev True ?D0 0 100 (Some 0x5000) None None None (m0, [], 0) = Ok (EFI_SUCCESS, ?D1, m1, [], 0)"
  proof -
    have "unat (QueueSize demo_ring) = 2" by (simp add: demo_ring_def)
    then show ?thesis using that
      by (simp add: VirtioNetTransmit_def NotInitialized_def net_mode_def SnpMode_def SIZE_OF_VNET_Mac_def net_tx_def VirtioNetMapTxBuf_def
          VirtioMapAllBytesInSharedBuffer_def list_services_def net_dev_def QueueTx_def Let_def)
  qed
  have r1: "?run (?D1, (m1, [], 0), {#0x5000#}, {#})" using tx_run.send [OF r0 ok t] by simp
  obtain F C info where a: "tx_inv list_services ?tx1 m1 ([], 0) F C info" "{#0x5000#} = pending info F C"
    using tx_run_accounts [OF net_dev_ok list_services_ok r1] by (auto simp: tx_account_def)
  have "length F + length C = 1" using arg_cong [OF a(2), of size] by (simp add: size_pending)
  then obtain w2 where h: "acts demo_ring (ring_area demo_ring) tx_serve (\<lambda>h. h) (m1, [], 0) w2" "used16 demo_ring (fst w2) \<noteq> 0"
    using host_returns [OF a(1), of demo_ring] by (auto simp: net_tx_def)
  have r2: "?run (?D1, w2, {#0x5000#}, {#})" by (rule tx_run.others [OF r1 _ h(1)]) simp_all
  note T = VirtioNet_tx_exactly_once [OF net_dev_ok list_services_ok r2]
  have g: "\<exists>s i x Dev' w'. VirtioNetGetStatus list_services net_dev True ?D1 True True w2 = Ok (s, i, x, Dev', w') \<and> reported x \<subseteq># {#0x5000#}" using T by auto
  have "\<exists>i b Dev' w'. VirtioNetGetStatus list_services net_dev True ?D1 True True w2 = Ok (EFI_SUCCESS, i, Some (Some b), Dev', w')"
    using T h(2) by (auto simp: net_mode_def net_tx_def net_dev_def)
  then obtain i b Dev' w' where s: "VirtioNetGetStatus list_services net_dev True ?D1 True True w2 = Ok (EFI_SUCCESS, i, Some (Some b), Dev', w')" by blast
  then have "b = 0x5000" using g by (auto simp: reported_def)
  then show ?thesis using r2 s by blast
qed

end
