(* ===== verification/VirtioNetRx.thy ===== *)
theory VirtioNetRx
  imports VirtioNetTxRun
begin

text \<open>
  The receive side of the network driver refines a queue of packets: the host appends at any time, a call of \<open>Receive\<close>
  looks at the oldest packet.
\<close>

section \<open>The invariant\<close>

text \<open>A packet slot: the request header and 1514 bytes; \<open>B\<close> is the start of the receive area, \<open>req\<close> the size of the
  header, \<open>d\<close> the descriptor of the slot.\<close>

definition slot_start :: "nat \<Rightarrow> nat \<Rightarrow> nat \<Rightarrow> nat" where
  "slot_start B req d = B + d div 2 * (req + 1514)"

definition rx_area :: "nat \<Rightarrow> nat \<Rightarrow> nat \<Rightarrow> nat set" where
  "rx_area B req n = {B..<B + n * (req + 1514)}"

definition rx_prot :: "VRING \<Rightarrow> nat \<Rightarrow> nat \<Rightarrow> nat set \<Rightarrow> nat set" where
  "rx_prot r B req U = ring_area r \<union> rx_area B req (MaxPending r) \<union> U"

text \<open>\<open>U\<close> is the memory of the client.  The host stores a packet in the slot and reports the length of header and packet.\<close>

definition rx_serve :: "VRING \<Rightarrow> nat \<Rightarrow> nat \<Rightarrow> nat \<Rightarrow> mem \<Rightarrow> mem \<Rightarrow> nat \<Rightarrow> bool" where
  "rx_serve r B req d m m1 k \<longleftrightarrow> req \<le> k \<and> k \<le> req + 1514 \<and>
    (\<forall>x. x \<in> ring_area r \<or> x < slot_start B req d \<or> slot_start B req d + (req + 1514) \<le> x \<longrightarrow> m1 x = m x)"

definition rx_static :: "VRING \<Rightarrow> nat \<Rightarrow> nat \<Rightarrow> nat set \<Rightarrow> bool" where
  "rx_static r B req U \<longleftrightarrow> U \<inter> (ring_area r \<union> rx_area B req (MaxPending r)) = {} \<and> vring_ok r \<and> unat (QueueSize r) dvd 65536 \<and> (req = 10 \<or> req = 12) \<and> rx_area B req (MaxPending r) \<inter> ring_area r = {}"

definition rx_descs :: "'map VNET_RX \<Rightarrow> nat \<Rightarrow> mem \<Rightarrow> bool" where
  "rx_descs rx req m \<longleftrightarrow> (\<forall>i<MaxPending (RxRing rx).
     Len (read_desc (Desc (RxRing rx)) m (2 * i)) = of_nat req \<and> Len (read_desc (Desc (RxRing rx)) m (2 * i + 1)) = 1514 \<and>
     Addr (read_desc (Desc (RxRing rx)) m (2 * i + 1)) = RxBufDeviceBase rx + of_nat (i * (req + 1514) + req))"

definition rx_inv :: "'map VNET_RX \<Rightarrow> nat \<Rightarrow> nat set \<Rightarrow> mem \<Rightarrow> host \<Rightarrow> nat list \<Rightarrow> (nat \<times> nat) list \<Rightarrow> bool" where
  "rx_inv rx req U m h F C \<longleftrightarrow> rx_static (RxRing rx) (RxBuf rx) req U \<and> queue_state (RxRing rx) m h (RxLastUsed rx) F C \<and>
    mset (F @ map fst C) = mset (map (\<lambda>i. 2 * i) [0..<MaxPending (RxRing rx)]) \<and> rx_descs rx req m \<and> (\<forall>c\<in>set C. req \<le> snd c \<and> snd c \<le> req + 1514)"

text \<open>The packets that wait.\<close>

definition waiting :: "'map VNET_RX \<Rightarrow> nat \<Rightarrow> mem \<Rightarrow> (nat \<times> nat) list \<Rightarrow> u8 list list" where
  "waiting rx req m C = map (\<lambda>c. load_bytes m (slot_start (RxBuf rx) req (fst c) + req) (snd c - req)) C"

lemma rx_invD:
  assumes "rx_inv rx req U m h F C"
  shows "vring_ok (RxRing rx)" "unat (QueueSize (RxRing rx)) dvd 65536" "req = 10 \<or> req = 12" "rx_area (RxBuf rx) req (MaxPending (RxRing rx)) \<inter> ring_area (RxRing rx) = {}"
    "queue_state (RxRing rx) m h (RxLastUsed rx) F C" "mset (F @ map fst C) = mset (map (\<lambda>i. 2 * i) [0..<MaxPending (RxRing rx)])" "rx_descs rx req m"
    "\<And>c. c \<in> set C \<Longrightarrow> req \<le> snd c \<and> snd c \<le> req + 1514" "U \<inter> (ring_area (RxRing rx) \<union> rx_area (RxBuf rx) req (MaxPending (RxRing rx))) = {}"
  using assms by (auto simp: rx_inv_def rx_static_def)

lemma rx_desc:
  assumes "mset D = mset (map (\<lambda>i. 2 * i) [0..<n])"
  shows "d \<in> set D \<Longrightarrow> \<exists>i<n. d = 2 * i" "distinct D" "length D = n"
proof -
  have "set D = set (map (\<lambda>i. 2 * i) [0..<n])" using assms by (rule mset_eq_setD)
  then show "d \<in> set D \<Longrightarrow> \<exists>i<n. d = 2 * i" by auto
  have "distinct (map (\<lambda>i. 2 * i) [0..<n])" by (simp add: distinct_map inj_on_def)
  then show "distinct D" using mset_eq_imp_distinct_iff [OF assms] by simp
  show "length D = n" using mset_eq_length [OF assms] by simp
qed

lemma slot_in_area:
  assumes "i < n" and "slot_start B req (2 * i) \<le> x" and "x < slot_start B req (2 * i) + (req + 1514)"
  shows "x \<in> rx_area B req n"
proof -
  have "(i + 1) * (req + 1514) \<le> n * (req + 1514)" using assms(1) by (intro mult_le_mono1) simp
  then show ?thesis using assms(2,3) by (simp add: rx_area_def slot_start_def)
qed

lemma slots_disjoint:
  assumes "i \<noteq> j"
  shows "slot_start B req (2 * i) + (req + 1514) \<le> slot_start B req (2 * j) \<or> slot_start B req (2 * j) + (req + 1514) \<le> slot_start B req (2 * i)"
proof -
  have "(i + 1) * (req + 1514) \<le> j * (req + 1514)" if "i < j" for i j using that by (intro mult_le_mono1) simp
  from this [of i j] this [of j i] show ?thesis using assms by (cases "i < j") (auto simp: slot_start_def)
qed

lemma rx_slot_area:
  assumes inv: "rx_inv rx req U m h F C" and c: "c \<in> set C" and x: "slot_start (RxBuf rx) req (fst c) \<le> x" "x < slot_start (RxBuf rx) req (fst c) + (req + 1514)"
  shows "x \<in> rx_area (RxBuf rx) req (MaxPending (RxRing rx))" "x \<notin> ring_area (RxRing rx)"
proof -
  have "fst c \<in> set (F @ map fst C)" using c by simp
  then obtain i where i: "i < MaxPending (RxRing rx)" "fst c = 2 * i" using rx_desc(1) [OF rx_invD(6) [OF inv]] by blast
  show a: "x \<in> rx_area (RxBuf rx) req (MaxPending (RxRing rx))" by (rule slot_in_area [OF i(1)]) (use x i(2) in simp_all)
  show "x \<notin> ring_area (RxRing rx)" using a rx_invD(4) [OF inv] by blast
qed

text \<open>What the waiting packets depend on.\<close>

lemma waiting_cong:
  assumes inv: "rx_inv rx req U m h F C" and x: "\<And>c x. c \<in> set C \<Longrightarrow> slot_start (RxBuf rx) req (fst c) \<le> x \<Longrightarrow> x < slot_start (RxBuf rx) req (fst c) + (req + 1514) \<Longrightarrow> m' x = m x"
  shows "waiting rx req m' C = waiting rx req m C"
proof -
  have "load_bytes m' (slot_start (RxBuf rx) req (fst c) + req) (snd c - req) = load_bytes m (slot_start (RxBuf rx) req (fst c) + req) (snd c - req)"
    if c: "c \<in> set C" for c
    using x [OF c] rx_invD(8) [OF inv c] by (auto simp: load_bytes_def)
  then show ?thesis by (simp add: waiting_def)
qed

lemma rx_descs_cong:
  assumes ok: "vring_ok (RxRing rx)" and x: "\<And>x. Desc (RxRing rx) \<le> x \<Longrightarrow> x < AvailFlags (RxRing rx) \<Longrightarrow> m' x = m x"
  shows "rx_descs rx req m' \<longleftrightarrow> rx_descs rx req m"
proof -
  note L = ring_layout [OF ok]
  have "read_desc (Desc (RxRing rx)) m' j = read_desc (Desc (RxRing rx)) m j" if "j < 2 * MaxPending (RxRing rx)" for j
    by (rule read_desc_cong, rule x) (use that MaxPending_bound(1) [of "RxRing rx"] L(3) in auto)
  then show ?thesis by (simp add: rx_descs_def)
qed

section \<open>The host acts\<close>

lemma rx_host_step:
  assumes inv: "rx_inv rx req U m h F C" and st: "host_step (RxRing rx) (rx_prot (RxRing rx) (RxBuf rx) req U) (rx_serve (RxRing rx) (RxBuf rx) req) (m, h) (m', h')"
  shows "\<exists>F' C'. rx_inv rx req U m' h' F' (C @ C') \<and> waiting rx req m' C = waiting rx req m C \<and> (\<forall>x\<in>U. m' x = m x)"
proof -
  let ?r = "RxRing rx" and ?B = "RxBuf rx"
  note I = rx_invD [OF inv] and D = rx_desc [OF rx_invD(6) [OF inv]]
  note L = ring_layout [OF I(1)]
  have sv: "\<And>d m m1 k x. rx_serve ?r ?B req d m m1 k \<Longrightarrow> k < 2 ^ 32 \<and> (x \<in> ring_area ?r \<longrightarrow> m1 x = m x)" using I(3) by (auto simp: rx_serve_def)
  have sub: "ring_area ?r \<subseteq> rx_prot ?r ?B req U" by (auto simp: rx_prot_def)
  consider (same) "queue_state ?r m' h' (RxLastUsed rx) F C" "\<forall>x\<in>rx_prot ?r ?B req U. m' x = m x"
    | (served) d k m1 where "d \<in> set F" "rx_serve ?r ?B req d m m1 k" "m' = push_used ?r m1 d k" "queue_state ?r m' h' (RxLastUsed rx) (remove1 d F) (C @ [(d, k)])"
    using host_step_queue [where serve = "rx_serve ?r ?B req", OF I(1,2) sub _ st I(5)] sv by blast
  then show ?thesis
  proof cases
    case same
    have "rx_descs rx req m'" using rx_descs_cong [OF I(1), of m' m req] same(2) I(7) L by (auto simp: rx_prot_def ring_area_def)
    then have "rx_inv rx req U m' h' F (C @ [])" using same(1) inv by (simp add: rx_inv_def)
    moreover have "waiting rx req m' C = waiting rx req m C" by (rule waiting_cong [OF inv]) (use same(2) rx_slot_area(1) [OF inv] in \<open>simp add: rx_prot_def\<close>)
    moreover have "\<forall>x\<in>U. m' x = m x" using same(2) by (simp add: rx_prot_def)
    ultimately show ?thesis by blast
  next
    case (served d k m1)
    have ms: "m1 x = m x" if "x \<in> ring_area ?r \<or> x < slot_start ?B req d \<or> slot_start ?B req d + (req + 1514) \<le> x" for x
      using served(2) that unfolding rx_serve_def by blast
    have "m' x = m x" if "Desc ?r \<le> x" "x < AvailFlags ?r" for x
      using push_used_frame [OF I(1), of x m1 d k] served(3) ms [of x] that L by (simp add: ring_area_def)
    then have ds: "rx_descs rx req m'" using rx_descs_cong [OF I(1), of m' m req] I(7) by blast
    have p: "mset (remove1 d F @ map fst (C @ [(d, k)])) = mset (F @ map fst C)" using served(1) by simp
    have "rx_inv rx req U m' h' (remove1 d F) (C @ [(d, k)])"
      unfolding rx_inv_def p using inv served(2,4) ds by (auto simp: rx_inv_def rx_serve_def)
    moreover have "waiting rx req m' C = waiting rx req m C"
    proof (rule waiting_cong [OF inv])
      fix c x assume c: "c \<in> set C" and x: "slot_start ?B req (fst c) \<le> x" "x < slot_start ?B req (fst c) + (req + 1514)"
      obtain i j where ij: "fst c = 2 * i" "d = 2 * j" using D(1) [of "fst c"] D(1) [of d] c served(1) by auto
      have "fst c \<in> fst ` set C" using c by simp
      then have "fst c \<noteq> d" using D(2) served(1) by auto
      then have "i \<noteq> j" using ij by auto
      then have "m1 x = m x" using ms [of x] slots_disjoint [of i j ?B req] x ij by auto
      moreover have "x \<notin> ring_area ?r" using rx_slot_area(2) [OF inv c x] .
      then have "m' x = m1 x" unfolding served(3) using push_used_frame [OF I(1), of x m1 d k] L by (auto simp: ring_area_def)
      ultimately show "m' x = m x" by simp
    qed
    moreover have "m' x = m x" if x: "x \<in> U" for x
    proof -
      obtain j where j: "j < MaxPending ?r" "d = 2 * j" using D(1) [of d] served(1) by auto
      have o: "x \<notin> ring_area ?r" "x \<notin> rx_area ?B req (MaxPending ?r)" using x I(9) by auto
      then have "m1 x = m x" using ms [of x] slot_in_area [OF j(1), of ?B req x] j(2) by (meson not_le)
      moreover have "m' x = m1 x" unfolding served(3) using push_used_frame [OF I(1), of x m1 d k] o(1) L by (auto simp: ring_area_def)
      ultimately show ?thesis by simp
    qed
    ultimately show ?thesis by blast
  qed
qed

lemma rx_acts:
  assumes inv: "rx_inv rx req U (fst w) (hst (snd w)) F C" and a: "acts (RxRing rx) (rx_prot (RxRing rx) (RxBuf rx) req U) (rx_serve (RxRing rx) (RxBuf rx) req) hst w w'"
  shows "\<exists>F' C'. rx_inv rx req U (fst w') (hst (snd w')) F' (C @ C') \<and> waiting rx req (fst w') C = waiting rx req (fst w) C \<and> (\<forall>x\<in>U. fst w' x = fst w x)"
proof -
  let ?step = "host_step (RxRing rx) (rx_prot (RxRing rx) (RxBuf rx) req U) (rx_serve (RxRing rx) (RxBuf rx) req)"
  have "\<exists>F' C'. rx_inv rx req U (fst p) (snd p) F' (C @ C') \<and> waiting rx req (fst p) C = waiting rx req (fst w) C \<and> (\<forall>x\<in>U. fst p x = fst w x)" if "?step\<^sup>*\<^sup>* (fst w, hst (snd w)) p" for p
    using that
  proof (induction rule: rtranclp_induct)
    case base
    then show ?case using inv by (intro exI [of _ F] exI [of _ "[]"]) simp
  next
    case (step p q)
    obtain F1 C1 where 1: "rx_inv rx req U (fst p) (snd p) F1 (C @ C1)" "waiting rx req (fst p) C = waiting rx req (fst w) C" "\<forall>x\<in>U. fst p x = fst w x" using step.IH by blast
    obtain F2 C2 where 2: "rx_inv rx req U (fst q) (snd q) F2 ((C @ C1) @ C2)" "waiting rx req (fst q) (C @ C1) = waiting rx req (fst p) (C @ C1)" "\<forall>x\<in>U. fst q x = fst p x"
      using rx_host_step [OF 1(1), of "fst q" "snd q"] step.hyps(2) by auto
    have "waiting rx req (fst q) C = waiting rx req (fst p) C" using 2(2) by (simp add: waiting_def)
    then show ?case using 1(2,3) 2(1,3) by (intro exI [of _ F2] exI [of _ "C1 @ C2"]) simp
  qed
  from this [OF a [unfolded acts_def]] show ?thesis by simp
qed

section \<open>Recycling a slot\<close>

text \<open>Notifications succeed and are an interval in which the host acts.\<close>

definition rx_device :: "('d, 'map) VIRTIO_DEVICE_PROTOCOL \<Rightarrow> VRING \<Rightarrow> nat \<Rightarrow> nat set \<Rightarrow> ('d \<Rightarrow> host) \<Rightarrow> bool" where
  "rx_device V r B U hst \<longleftrightarrow> U \<inter> (ring_area r \<union> rx_area B (VirtioNetReqSize V) (MaxPending r)) = {} \<and>
    (\<forall>q w s w'. SetQueueNotify V q w = (s, w') \<longrightarrow> s = EFI_SUCCESS \<and> acts r (rx_prot r B (VirtioNetReqSize V) U) (rx_serve r B (VirtioNetReqSize V)) hst w w')"

lemma rx_republish:
  assumes inv: "rx_inv rx req U m h F ((d, k) # C)"
  shows "rx_inv (rx\<lparr>RxLastUsed := RxLastUsed rx + 1\<rparr>) req U (PublishDesc (RxRing rx) (of_nat d) m) h (F @ [d]) C"
    "waiting rx req (PublishDesc (RxRing rx) (of_nat d) m) C = waiting rx req m C" "\<And>x. x \<in> U \<Longrightarrow> PublishDesc (RxRing rx) (of_nat d) m x = m x"
proof -
  let ?r = "RxRing rx" and ?m = "PublishDesc (RxRing rx) (of_nat d) m"
  note I = rx_invD [OF inv] and D = rx_desc [OF rx_invD(6) [OF inv]]
  note L = ring_layout [OF I(1)]
  have q: "in_flight ?r m h = F" "used_queue ?r m (RxLastUsed rx) ((d, k) # C)" "\<forall>d\<in>set F. d < 2 ^ 32" using I(5) by (auto simp: queue_state_def)
  obtain i where i: "i < MaxPending ?r" "d = 2 * i" using D(1) [of d] by auto
  have dl: "d < 65536" using i MaxPending_bound(1) [of ?r] unat_u16_less [of "QueueSize ?r"] by linarith
  then have du: "unat (of_nat d :: u16) = d" by (simp add: unat_of_nat)
  have lenF: "length F + length C < unat (QueueSize ?r)" using D(3) MaxPending_bound(1) [of ?r] by simp
  have f: "in_flight ?r ?m h = F @ [d]" using PublishDesc_result [OF I(1,2), of m h "of_nat d"] q(1) lenF du by simp
  have "used_queue ?r m (RxLastUsed rx + 1) C" using used_queue_head(2) [OF I(2) q(2)] .
  then have u: "used_queue ?r ?m (RxLastUsed rx + 1) C" using used_queue_frame [OF I(1), of ?m m] PublishDesc_frame [OF I(1)] L by auto
  have out: "?m x = m x" if "x \<notin> ring_area ?r" for x using PublishDesc_frame [OF I(1), of x] that L by (auto simp: ring_area_def)
  show "\<And>x. x \<in> U \<Longrightarrow> ?m x = m x" using out I(9) by blast
  have ds: "rx_descs rx req ?m" using rx_descs_cong [OF I(1), of ?m m req] PublishDesc_frame [OF I(1)] L I(7) by auto
  have dd: "rx_descs (rx\<lparr>RxLastUsed := RxLastUsed rx + 1\<rparr>) req ?m" using ds by (simp add: rx_descs_def)
  have "queue_state ?r ?m h (RxLastUsed rx + 1) (F @ [d]) C" using f u q(3) lenF dl by (auto simp: queue_state_def)
  then show "rx_inv (rx\<lparr>RxLastUsed := RxLastUsed rx + 1\<rparr>) req U ?m h (F @ [d]) C" using inv dd by (auto simp: rx_inv_def)
  have inv': "rx_inv (rx\<lparr>RxLastUsed := RxLastUsed rx + 1\<rparr>) req U ?m h (F @ [d]) C" by fact
  have "waiting (rx\<lparr>RxLastUsed := RxLastUsed rx + 1\<rparr>) req m C = waiting (rx\<lparr>RxLastUsed := RxLastUsed rx + 1\<rparr>) req ?m C"
    by (rule waiting_cong [OF inv'], rule out [symmetric], rule rx_slot_area(2) [OF inv]) auto
  then show "waiting rx req ?m C = waiting rx req m C" by (simp add: waiting_def)
qed

lemma RecycleDesc_result:
  assumes dev: "rx_device V (RxRing rx) (RxBuf rx) U hst" and inv: "rx_inv rx (VirtioNetReqSize V) U (fst w) (hst (snd w)) F ((d, k) # C)"
    and s: "s \<noteq> EFI_SUCCESS \<Longrightarrow> EFI_ERROR s"
  shows "\<exists>w' F' C'. RecycleDesc V rx (of_nat d) s w = (s, rx\<lparr>RxLastUsed := RxLastUsed rx + 1\<rparr>, w') \<and>
    rx_inv (rx\<lparr>RxLastUsed := RxLastUsed rx + 1\<rparr>) (VirtioNetReqSize V) U (fst w') (hst (snd w')) F' (C @ C') \<and>
    waiting rx (VirtioNetReqSize V) (fst w') C = waiting rx (VirtioNetReqSize V) (fst w) C \<and> (\<forall>x\<in>U. fst w' x = fst w x)"
proof -
  let ?rx = "rx\<lparr>RxLastUsed := RxLastUsed rx + 1\<rparr>" and ?req = "VirtioNetReqSize V" and ?w = "(PublishDesc (RxRing rx) (of_nat d) (fst w), snd w)"
  obtain t w' where n: "SetQueueNotify V VIRTIO_NET_Q_RX ?w = (t, w')" by (metis surj_pair)
  have t: "t = EFI_SUCCESS" and a: "acts (RxRing ?rx) (rx_prot (RxRing ?rx) (RxBuf ?rx) ?req U) (rx_serve (RxRing ?rx) (RxBuf ?rx) ?req) hst ?w w'"
    using dev [unfolded rx_device_def, THEN conjunct2, rule_format, OF n] by simp_all
  have i1: "rx_inv ?rx ?req U (fst ?w) (hst (snd ?w)) (F @ [d]) C" using rx_republish(1) [OF inv] by simp
  obtain F' C' where 2: "rx_inv ?rx ?req U (fst w') (hst (snd w')) F' (C @ C')" "waiting ?rx ?req (fst w') C = waiting ?rx ?req (fst ?w) C" "\<forall>x\<in>U. fst w' x = fst ?w x"
    using rx_acts [OF i1 a] by blast
  have "waiting rx ?req (fst w') C = waiting rx ?req (fst w) C" using 2(2) rx_republish(2) [OF inv] by (simp add: waiting_def)
  moreover have "\<forall>x\<in>U. fst w' x = fst w x" using 2(3) rx_republish(3) [OF inv] by simp
  ultimately show ?thesis using n t 2(1) s by (auto simp: RecycleDesc_def)
qed

section \<open>Receiving\<close>

text \<open>What the optional results are for a packet.\<close>

definition packet_result :: "bool \<Rightarrow> bool \<Rightarrow> bool \<Rightarrow> bool \<Rightarrow> u8 list \<Rightarrow> rx_result" where
  "packet_result hs sa da pr P = \<lparr>rr_HeaderSize = (if hs then Some 14 else None), rr_BufferSize = Some (length P),
     rr_DestAddr = (if da then Some (take 6 P) else None), rr_SrcAddr = (if sa then Some (take 6 (drop 6 P)) else None),
     rr_Protocol = (if pr then Some (push_bit 8 (ucast (P ! 12)) OR ucast (P ! 13)) else None)\<rparr>"

lemma ReceivePacket_head:
  assumes inv: "rx_inv rx req U m h F ((d, k) # C)" and P: "P = load_bytes m (slot_start (RxBuf rx) req d + req) (k - req)"
    and buf: "{buf..<buf + n} \<subseteq> U"
  shows "ReceivePacket V 14 rx hs n buf sa da pr (m, e) =
    (if n < length P then Ok (EFI_BUFFER_TOO_SMALL, no_result\<lparr>rr_BufferSize := Some (length P)\<rparr>, rx, m, e)
     else if length P < 14 then (case RecycleDesc V rx (of_nat d) EFI_DEVICE_ERROR (m, e) of (Status, rx1, w1) \<Rightarrow>
       Ok (Status, no_result\<lparr>rr_BufferSize := Some (length P)\<rparr>, rx1, w1))
     else case RecycleDesc V rx (of_nat d) EFI_SUCCESS (store_bytes m buf P, e) of (Status, rx1, w1) \<Rightarrow> Ok (Status, packet_result hs sa da pr P, rx1, w1))"
proof -
  let ?r = "RxRing rx" and ?ptr = "slot_start (RxBuf rx) req d + req"
  note I = rx_invD [OF inv] and D = rx_desc [OF rx_invD(6) [OF inv]]
  obtain i where i: "i < MaxPending ?r" "d = 2 * i" using D(1) [of d] by auto
  have k: "req \<le> k" "k \<le> req + 1514" using I(8) [of "(d, k)"] by auto
  have Q: "d + 1 < unat (QueueSize ?r)" using i MaxPending_bound(1) [of ?r] by linarith
  then have "d < 65536" using unat_u16_less [of "QueueSize ?r"] by linarith
  then have du: "unat (of_nat d :: u32) = d" by (simp add: unat_of_nat)
  have uq: "used_queue ?r m (RxLastUsed rx) ((d, k) # C)" using I(5) by (simp add: queue_state_def)
  have el: "read_used (UsedElem ?r) m (unat (RxLastUsed rx) mod unat (QueueSize ?r)) = \<lparr>UsedId = of_nat d, UsedLen = of_nat k\<rparr>"
    using used_queue_head(1) [OF I(2) uq] by simp
  have "length ((d, k) # C) < 65536" using D(3) MaxPending_bound(2) [of ?r] by simp
  then have ne: "RxLastUsed rx \<noteq> of_nat (load_le m (UsedIdx ?r) 2)" using used_queue_empty [OF uq] by (auto simp: used16_def)
  have ds: "Len (read_desc (Desc ?r) m d) = of_nat req" "Len (read_desc (Desc ?r) m (d + 1)) = 1514"
    "Addr (read_desc (Desc ?r) m (d + 1)) = RxBufDeviceBase rx + of_nat (i * (req + 1514) + req)"
    using I(7) i by (simp_all add: rx_descs_def)
  have u: "unat (of_nat req :: u32) = req" "unat (of_nat k :: u32) = k" using k I(3) by (auto simp: unat_of_nat)
  have le: "(of_nat req :: u32) \<le> of_nat k" using u k by (simp add: word_le_nat_alt)
  then have len: "unat (of_nat k - of_nat req :: u32) = length P" using u P by (simp add: unat_sub)
  have small: "length P \<le> 1514" using k P by simp
  have "i * (req + 1514) + req \<le> 64 * 1526 + 12"
  proof -
    have "i * (req + 1514) \<le> 64 * 1526" using i I(3) by (intro mult_le_mono) (auto simp: MaxPending_def VNET_MAX_PENDING_def)
    then show ?thesis using I(3) by linarith
  qed
  then have ptr: "RxBuf rx + unat (Addr (read_desc (Desc ?r) m (d + 1)) - RxBufDeviceBase rx) = ?ptr"
    using i unfolding ds(3) by (simp add: unat_of_nat slot_start_def del: of_nat_add of_nat_mult)
  have keep: "load_bytes (store_bytes m buf P) (?ptr + j) l = take l (drop j P)" if "j + l \<le> length P" "length P \<le> n" for j l
  proof -
    have "store_bytes m buf P x = m x" if "?ptr \<le> x" "x < ?ptr + length P" for x
    proof -
      have "x \<in> rx_area (RxBuf rx) req (MaxPending ?r)" using slot_in_area [OF i(1), of "RxBuf rx" req x] that small i by simp
      then have "x \<notin> {buf..<buf + n}" using buf I(9) by blast
      then have "x < buf \<or> buf + n \<le> x" by auto
      then show ?thesis using \<open>length P \<le> n\<close> by (intro store_bytes_other) auto
    qed
    then have "load_bytes (store_bytes m buf P) (?ptr + j) l = load_bytes m (?ptr + j) l" using that(1) by (intro load_bytes_cong) auto
    also have "\<dots> = take l (drop j P)" using that(1) P by (simp add: load_bytes_drop [symmetric] load_bytes_take)
    finally show ?thesis .
  qed
  have byte: "store_bytes m buf P (?ptr + j) = P ! j" if "j < length P" "length P \<le> n" for j
    using keep [of j 1] that by (simp add: load_bytes_def take_Suc hd_drop_conv_nth)
  have byte13: "store_bytes m buf P (13 + ?ptr) = P ! 13" if "13 < length P" "length P \<le> n" using byte [OF that] by (simp add: add.commute)
  have cp: "load_bytes m ?ptr (length P) = P" using P by simp
  show ?thesis
    using ne el du Q ds(1,2) le len ptr small cp keep [of 0 6] keep [of 6 6] byte [of 12] byte13
    by (simp add: ReceivePacket_def Let_def no_result_def packet_result_def SIZE_OF_VNET_Mac_def word_le_nat_alt add.assoc split: prod.splits)
qed

end
