(* ===== verification/VirtioNetRxRun.thy ===== *)
theory VirtioNetRxRun
  imports VirtioNetRx
begin

text \<open>
  The receive side from its initialisation on, with the host and the transmit side acting between the calls.
\<close>

section \<open>Initialisation\<close>

lemma InitRxLoop_append: "InitRxLoop r req pkt (ps @ qs) s = InitRxLoop r req pkt qs (InitRxLoop r req pkt ps s)"
  by (induction r req pkt ps s rule: InitRxLoop.induct) (simp_all add: Let_def)

text \<open>One round of the loop, for the packet \<open>k\<close>.\<close>

definition rx_round :: "VRING \<Rightarrow> nat \<Rightarrow> nat \<Rightarrow> nat \<Rightarrow> u64 \<Rightarrow> mem \<Rightarrow> mem" where
  "rx_round r req pkt k a m =
    (let m2 = write_desc (Desc r) (store_le m (AvailRing r + 2 * k) 2 (2 * k)) (2 * k)
         \<lparr>Addr = a, Len = of_nat req, Flags = VRING_DESC_F_WRITE OR VRING_DESC_F_NEXT, Next = of_nat (2 * k) + 1\<rparr>;
       p = Desc r + 16 * (2 * k + 1)
     in store_le (store_le (store_le m2 p 8 (unat (a + of_nat req))) (p + 8) 4 (pkt mod 2 ^ 32)) (p + 12) 2 (unat VRING_DESC_F_WRITE))"

lemma ucast_small: "n < 2 ^ 32 \<Longrightarrow> ucast (of_nat n :: u32) = (of_nat n :: u64)"
  by (rule word_unat_eq_iff [THEN iffD2]) (simp add: unat_of_nat unsigned_ucast_eq take_bit_nat_eq_self_iff)

lemma InitRxLoop_round:
  assumes "2 * k + 1 < 65536" and "req < 2 ^ 32" and "pkt < 2 ^ 32"
  shows "InitRxLoop r req pkt [k] (of_nat (2 * k), a, m) = (of_nat (2 * (k + 1)), a + of_nat (req + pkt), rx_round r req pkt k a m)"
proof -
  have u: "unat (2 * of_nat k :: u16) = 2 * k" using assms(1) by (simp add: unat_double)
  then have "unat (2 * of_nat k + 1 :: u16) = 2 * k + 1" using unat_u16_Suc [of "2 * of_nat k" "2 * k + 1"] assms(1) by simp
  then show ?thesis using u assms(2,3) by (simp add: rx_round_def Let_def ucast_small algebra_simps)
qed

lemma rx_round_frame:
  assumes "vring_ok r" and "2 * k + 1 < unat (QueueSize r)"
    and "x < Desc r + 32 * k \<or> Desc r + 32 * k + 32 \<le> x" and "x < AvailRing r + 2 * k \<or> AvailRing r + 2 * k + 2 \<le> x"
  shows "rx_round r req pkt k a m x = m x"
proof -
  note L = ring_layout [OF assms(1)]
  show ?thesis using assms(3,4) by (auto simp: rx_round_def Let_def store_le_other write_desc_frame)
qed

lemma rx_round_result:
  assumes ok: "vring_ok r" and k: "2 * k + 1 < unat (QueueSize r)" and req: "req < 2 ^ 32" and pkt: "pkt < 2 ^ 32"
  shows "Len (read_desc (Desc r) (rx_round r req pkt k a m) (2 * k)) = of_nat req"
    "Len (read_desc (Desc r) (rx_round r req pkt k a m) (2 * k + 1)) = of_nat pkt"
    "Addr (read_desc (Desc r) (rx_round r req pkt k a m) (2 * k + 1)) = a + of_nat req"
    "avail_entry r (rx_round r req pkt k a m) k = 2 * k"
proof -
  note L = ring_layout [OF ok]
  let ?m0 = "store_le m (AvailRing r + 2 * k) 2 (2 * k)"
  let ?v = "\<lparr>Addr = a, Len = of_nat req, Flags = VRING_DESC_F_WRITE OR VRING_DESC_F_NEXT, Next = of_nat (2 * k) + 1\<rparr>"
  have "read_desc (Desc r) (rx_round r req pkt k a m) (2 * k) = read_desc (Desc r) (write_desc (Desc r) ?m0 (2 * k) ?v) (2 * k)"
    by (rule read_desc_cong) (auto simp: rx_round_def Let_def store_le_other)
  then show "Len (read_desc (Desc r) (rx_round r req pkt k a m) (2 * k)) = of_nat req" by (simp add: read_write_desc_same)
  show "Len (read_desc (Desc r) (rx_round r req pkt k a m) (2 * k + 1)) = of_nat pkt"
    using pkt by (simp add: read_desc_def rx_round_def Let_def mem_simps)
  show "Addr (read_desc (Desc r) (rx_round r req pkt k a m) (2 * k + 1)) = a + of_nat req"
    by (simp add: read_desc_def rx_round_def Let_def mem_simps)
  have "load_le (rx_round r req pkt k a m) (AvailRing r + 2 * k) 2 = load_le ?m0 (AvailRing r + 2 * k) 2"
    by (rule load_le_cong) (use L k in \<open>auto simp: rx_round_def Let_def store_le_other write_desc_frame\<close>)
  also have "\<dots> = 2 * k"
  proof -
    have "2 * k < 65536" using k unat_u16_less [of "QueueSize r"] by linarith
    then show ?thesis by (simp add: mem_simps)
  qed
  finally show "avail_entry r (rx_round r req pkt k a m) k = 2 * k" using k by (simp add: avail_entry_def)
qed

text \<open>The loop: descriptors, available ring, and what it leaves alone.\<close>

lemma InitRxLoop_result:
  assumes ok: "vring_ok r" and n: "2 * n \<le> unat (QueueSize r)" and req: "req < 2 ^ 32" and pkt: "pkt < 2 ^ 32"
  shows "\<exists>m'. InitRxLoop r req pkt [0..<n] (0, base, m) = (of_nat (2 * n), base + of_nat (n * (req + pkt)), m') \<and>
    (\<forall>i<n. Len (read_desc (Desc r) m' (2 * i)) = of_nat req \<and> Len (read_desc (Desc r) m' (2 * i + 1)) = of_nat pkt \<and>
      Addr (read_desc (Desc r) m' (2 * i + 1)) = base + of_nat (i * (req + pkt) + req) \<and> avail_entry r m' i = 2 * i) \<and>
    (\<forall>x. (x < Desc r \<or> Desc r + 32 * n \<le> x) \<and> (x < AvailRing r \<or> AvailRing r + 2 * n \<le> x) \<longrightarrow> m' x = m x)"
  using n
proof (induction n)
  case (Suc n)
  note L = ring_layout [OF ok]
  obtain m1 where m1: "InitRxLoop r req pkt [0..<n] (0, base, m) = (of_nat (2 * n), base + of_nat (n * (req + pkt)), m1)"
    "\<And>i. i < n \<Longrightarrow> Len (read_desc (Desc r) m1 (2 * i)) = of_nat req \<and> Len (read_desc (Desc r) m1 (2 * i + 1)) = of_nat pkt \<and>
      Addr (read_desc (Desc r) m1 (2 * i + 1)) = base + of_nat (i * (req + pkt) + req) \<and> avail_entry r m1 i = 2 * i"
    "\<And>x. (x < Desc r \<or> Desc r + 32 * n \<le> x) \<Longrightarrow> (x < AvailRing r \<or> AvailRing r + 2 * n \<le> x) \<Longrightarrow> m1 x = m x"
    using Suc.IH Suc.prems by auto
  let ?a = "base + of_nat (n * (req + pkt))" and ?m = "rx_round r req pkt n (base + of_nat (n * (req + pkt))) m1"
  have k: "2 * n + 1 < unat (QueueSize r)" using Suc.prems by simp
  then have k16: "2 * n + 1 < 65536" using unat_u16_less [of "QueueSize r"] by linarith
  have run: "InitRxLoop r req pkt [0..<Suc n] (0, base, m) = (of_nat (2 * (n + 1)), ?a + of_nat (req + pkt), ?m)"
    using InitRxLoop_append [of r req pkt "[0..<n]" "[n]" "(0, base, m)"] m1(1) InitRxLoop_round [OF k16 req pkt, of r ?a m1] by simp
  note R = rx_round_result [OF ok k req pkt, of ?a m1] and fr = rx_round_frame [OF ok k, of _ req pkt ?a m1]
  have old: "Len (read_desc (Desc r) ?m (2 * i)) = of_nat req \<and> Len (read_desc (Desc r) ?m (2 * i + 1)) = of_nat pkt \<and>
      Addr (read_desc (Desc r) ?m (2 * i + 1)) = base + of_nat (i * (req + pkt) + req) \<and> avail_entry r ?m i = 2 * i" if i: "i < n" for i
  proof -
    have d: "read_desc (Desc r) ?m j = read_desc (Desc r) m1 j" if "j < 2 * n" for j
      by (rule read_desc_cong, rule fr) (use that k L in auto)
    have "avail_entry r ?m i = avail_entry r m1 i" unfolding avail_entry_def
      by (rule load_le_cong, rule fr) (use i k L in auto)
    then show ?thesis using d [of "2 * i"] d [of "2 * i + 1"] m1(2) [OF i] i by simp
  qed
  have new: "?a + of_nat req = base + of_nat (n * (req + pkt) + req)" by simp
  have all: "Len (read_desc (Desc r) ?m (2 * i)) = of_nat req \<and> Len (read_desc (Desc r) ?m (2 * i + 1)) = of_nat pkt \<and>
      Addr (read_desc (Desc r) ?m (2 * i + 1)) = base + of_nat (i * (req + pkt) + req) \<and> avail_entry r ?m i = 2 * i" if "i < Suc n" for i
    using old [of i] R unfolding new using that by (cases "i = n") (simp_all only: less_Suc_eq simp_thms)
  have frame: "?m x = m x" if "x < Desc r \<or> Desc r + 32 * Suc n \<le> x" "x < AvailRing r \<or> AvailRing r + 2 * Suc n \<le> x" for x
  proof -
    have "?m x = m1 x" by (rule fr) (use that in auto)
    also have "\<dots> = m x" by (rule m1(3)) (use that in auto)
    finally show ?thesis .
  qed
  show ?case using run all frame by (intro exI [of _ ?m]) (simp add: algebra_simps)
qed simp

text \<open>Allocating and mapping the receive area does not touch the ring, on which nothing is published yet.\<close>

definition rx_setup :: "('d, 'map) VIRTIO_DEVICE_PROTOCOL \<Rightarrow> VRING \<Rightarrow> ('d \<Rightarrow> host) \<Rightarrow> bool" where
  "rx_setup V r hst \<longleftrightarrow>
    (\<forall>n w s p w'. AllocateSharedPages V n w = (s, p, w') \<longrightarrow> hst (snd w') = hst (snd w) \<and> (\<forall>x\<in>ring_area r. fst w' x = fst w x) \<and>
       (\<not> EFI_ERROR s \<longrightarrow> {p..<p + 4096 * n} \<inter> ring_area r = {})) \<and>
    (\<forall>op p n w s y w'. MapSharedBuffer V op p n w = (s, y, w') \<longrightarrow> hst (snd w') = hst (snd w) \<and> (\<forall>x\<in>ring_area r. fst w' x = fst w x))"

lemma MapAll_setup:
  assumes "rx_setup V r hst" and "VirtioMapAllBytesInSharedBuffer V op p n w = (s, Some y, w')"
  shows "hst (snd w') = hst (snd w)" "\<And>x. x \<in> ring_area r \<Longrightarrow> fst w' x = fst w x"
proof -
  obtain t z w1 where m: "MapSharedBuffer V op p n w = (t, z, w1)" by (metis prod_cases3)
  have "w' = w1" using assms(2) m by (auto simp: VirtioMapAllBytesInSharedBuffer_def split: if_splits prod.splits)
  then show "hst (snd w') = hst (snd w)" "\<And>x. x \<in> ring_area r \<Longrightarrow> fst w' x = fst w x" using assms(1) m unfolding rx_setup_def by blast+
qed

lemma pages_cover: "n \<le> 4096 * EFI_SIZE_TO_PAGES n"
  by (auto simp: EFI_SIZE_TO_PAGES_def EFI_PAGE_SIZE_def)

lemma in_flight_all:
  assumes "unat (avail16 r m) = n" and "\<And>i. i < n \<Longrightarrow> avail_entry r m i = 2 * i"
  shows "in_flight r m ([], 0) = map (\<lambda>i. 2 * i) [0..<n]"
  using assms by (simp add: in_flight_def)

lemma idle_host: "queue_state r m h lst [] [] \<Longrightarrow> avail16 r m = 0 \<Longrightarrow> h = ([], 0)"
  by (cases h) (auto simp: queue_state_def in_flight_def unat_eq_0)

text \<open>The memory of the ring when the receive queue is published.\<close>

lemma rx_published:
  assumes ok: "vring_ok r" "unat (QueueSize r) dvd 65536" and q: "queue_state r m h 0 [] []" and av: "avail16 r m = 0"
    and req: "req = 10 \<or> req = 12" and dis: "rx_area B req (MaxPending r) \<inter> ring_area r = {}" and U: "U \<inter> (ring_area r \<union> rx_area B req (MaxPending r)) = {}"
    and run: "InitRxLoop r req 1514 [0..<MaxPending r] (0, base, store_le m (AvailFlags r) 2 VRING_AVAIL_F_NO_INTERRUPT) = (di, a, m')"
    and rx: "RxRing rx = r" "RxBuf rx = B" "RxBufDeviceBase rx = base" "RxLastUsed rx = 0"
  shows "rx_inv rx req U (store_le m' (AvailIdx r) 2 (MaxPending r)) h (map (\<lambda>i. 2 * i) [0..<MaxPending r]) []"
proof -
  note L = ring_layout [OF ok(1)]
  let ?n = "MaxPending r" and ?mf = "store_le m (AvailFlags r) 2 VRING_AVAIL_F_NO_INTERRUPT" and ?m = "store_le m' (AvailIdx r) 2 (MaxPending r)"
  have b: "2 * ?n \<le> unat (QueueSize r)" "req < 2 ^ 32" "(1514 :: nat) < 2 ^ 32" "?n < 65536" using MaxPending_bound [of r] req by auto
  have P: "\<And>i. i < ?n \<Longrightarrow> Len (read_desc (Desc r) m' (2 * i)) = of_nat req \<and> Len (read_desc (Desc r) m' (2 * i + 1)) = 1514 \<and>
      Addr (read_desc (Desc r) m' (2 * i + 1)) = base + of_nat (i * (req + 1514) + req) \<and> avail_entry r m' i = 2 * i"
    "\<And>x. (x < Desc r \<or> Desc r + 32 * ?n \<le> x) \<and> (x < AvailRing r \<or> AvailRing r + 2 * ?n \<le> x) \<Longrightarrow> m' x = ?mf x"
    using InitRxLoop_result [OF ok(1) b(1,2,3), of base ?mf] run by auto
  have d: "read_desc (Desc r) ?m j = read_desc (Desc r) m' j" if "j < 2 * ?n" for j
    by (rule read_desc_cong, rule store_le_other) (use that b(1) L in auto)
  have e: "avail_entry r ?m i = avail_entry r m' i" for i unfolding avail_entry_def by (rule load_le_cong, rule store_le_other) (use L in auto)
  have "rx_descs rx req ?m" unfolding rx_descs_def rx(1,3)
  proof (intro allI impI)
    fix i assume i: "i < ?n"
    then show "Len (read_desc (Desc r) ?m (2 * i)) = of_nat req \<and> Len (read_desc (Desc r) ?m (2 * i + 1)) = 1514 \<and>
      Addr (read_desc (Desc r) ?m (2 * i + 1)) = base + of_nat (i * (req + 1514) + req)"
      using P(1) [OF i] d [of "2 * i"] d [of "2 * i + 1"] by simp
  qed
  moreover have "unat (avail16 r ?m) = ?n" using b(4) by (simp add: avail16_def mem_simps unat_of_nat)
  then have "in_flight r ?m h = map (\<lambda>i. 2 * i) [0..<?n]" unfolding idle_host [OF q av] by (rule in_flight_all) (use P(1) e in simp)
  moreover have "used_queue r ?m 0 []"
  proof -
    have "?m x = m x" if "UsedIdx r \<le> x" "x < UsedAvailEvent r" for x using P(2) [of x] that L b(1) by (simp add: store_le_other)
    then show ?thesis using used_queue_frame [OF ok(1), of ?m m 0 "[]"] q by (simp add: queue_state_def)
  qed
  ultimately show ?thesis using ok req dis b rx U by (auto simp: rx_inv_def rx_static_def queue_state_def)
qed

lemma InitRx_result:
  assumes st: "rx_setup V r hst" and idle: "ring_idle r (fst w) (hst (snd w))" and av: "avail16 r (fst w) = 0"
    and mode: "MediaHeaderSize mode = 14" "MaxPacketSize mode = 1500"
  shows "\<exists>x w'. VirtioNetInitRx V mode r mi w = Ok (x, w')"
    "VirtioNetInitRx V mode r mi w = Ok (Inr rx, w') \<Longrightarrow> rx_device V r (RxBuf rx) U hst \<Longrightarrow>
      RxRing rx = r \<and> (\<exists>F C. rx_inv rx (VirtioNetReqSize V) U (fst w') (hst (snd w')) F C)"
proof -
  have r: "vring_ok r" "unat (QueueSize r) dvd 65536" and q0: "queue_state r (fst w) (hst (snd w)) 0 [] []" using idle by (simp_all add: ring_idle_def)
  note L = ring_layout [OF r(1)]
  let ?req = "VirtioNetReqSize V" and ?n = "MaxPending r"
  let ?bytes = "?n * (?req + 1514)" and ?pages = "EFI_SIZE_TO_PAGES (MaxPending r * (VirtioNetReqSize V + 1514))"
  have req: "?req = 10 \<or> ?req = 12" by (simp add: VirtioNetReqSize_def sizeof_VIRTIO_NET_REQ_def sizeof_VIRTIO_1_0_NET_REQ_def)
  obtain s1 buf w1 where a1: "AllocateSharedPages V ?pages w = (s1, buf, w1)" by (metis prod_cases3)
  have s1: "hst (snd w1) = hst (snd w)" "\<And>x. x \<in> ring_area r \<Longrightarrow> fst w1 x = fst w x" "\<not> EFI_ERROR s1 \<Longrightarrow> {buf..<buf + 4096 * ?pages} \<inter> ring_area r = {}"
    using st a1 unfolding rx_setup_def by blast+
  let ?w1 = "(set_mem (fst w1) buf ?bytes 0, snd w1)"
  obtain s2 y w2 where a2: "VirtioMapAllBytesInSharedBuffer V VirtioOperationBusMasterCommonBuffer buf ?bytes ?w1 = (s2, y, w2)" by (metis prod_cases3)
  have dis: "rx_area buf ?req ?n \<inter> ring_area r = {}" if "\<not> EFI_ERROR s1"
    using s1(3) [OF that] pages_cover [of ?bytes] unfolding rx_area_def disjoint_iff atLeastLessThan_iff by (meson add_left_mono order_less_le_trans)
  have keep: "hst (snd w2) = hst (snd w)" "\<And>x. x \<in> ring_area r \<Longrightarrow> fst w2 x = fst w x" if "\<not> EFI_ERROR s1" "y = Some z" for z
  proof -
    note M = MapAll_setup [OF st, of VirtioOperationBusMasterCommonBuffer buf ?bytes ?w1 s2 z w2]
    show "hst (snd w2) = hst (snd w)" using M(1) a2 that(2) s1(1) by simp
    fix x assume x: "x \<in> ring_area r"
    then have "x < buf \<or> buf + ?bytes \<le> x" using dis [OF that(1)] unfolding rx_area_def disjoint_iff atLeastLessThan_iff by (meson not_le)
    then show "fst w2 x = fst w x" using M(2) [OF _ x] a2 that(2) s1(2) [OF x] by (simp add: set_mem_other)
  qed
  have q2: "queue_state r (fst w2) (hst (snd w2)) 0 [] []" "avail16 r (fst w2) = 0" if "\<not> EFI_ERROR s1" "y = Some z" for z
  proof -
    note k = keep [OF that]
    have eq: "fst w2 x = fst w x" if "AvailIdx r \<le> x" "x < UsedAvailEvent r" for x using k(2) [of x] that L by (simp add: ring_area_def)
    show "queue_state r (fst w2) (hst (snd w2)) 0 [] []"
      using q0 in_flight_frame [OF r(1), of "fst w2" "fst w"] used_queue_frame [OF r(1), of "fst w2" "fst w" 0 "[]"] eq L k(1) by (simp add: queue_state_def)
    have "load_le (fst w2) (AvailIdx r) 2 = load_le (fst w) (AvailIdx r) 2" by (rule load_le_cong, rule eq) (use L in auto)
    then show "avail16 r (fst w2) = 0" using av by (simp add: avail16_def)
  qed
  have u0: "of_nat (load_le (fst w2) (UsedIdx r) 2) = (0 :: u16)" if "\<not> EFI_ERROR s1" "y = Some z" for z
    using q2(1) [OF that] by (simp add: queue_state_def used_queue_def used16_def)
  define di where "di = (\<lambda>base. InitRxLoop r ?req 1514 [0..<?n] (0, base, store_le (fst w2) (AvailFlags r) 2 VRING_AVAIL_F_NO_INTERRUPT))"
  have di: "InitRxLoop r ?req 1514 [0..<?n] (0, base, store_le (fst w2) (AvailFlags r) 2 VRING_AVAIL_F_NO_INTERRUPT) =
      (fst (di base), fst (snd (di base)), snd (snd (di base)))" for base by (simp add: di_def)
  let ?w3 = "\<lambda>base. (store_le (snd (snd (di base))) (AvailIdx r) 2 ?n, snd w2)"
  define T where "T = (\<lambda>base mm. \<lparr>RxRing = r, RxRingMap = mi, RxBuf = buf, RxLastUsed = 0, RxBufNrPages = ?pages, RxBufDeviceBase = base, RxBufMap = mm\<rparr>)"
  have run: "VirtioNetInitRx V mode r mi w = (if EFI_ERROR s1 then Ok (Inl s1, w1) else case y of None \<Rightarrow> Ok (Inl s2, FreeSharedPages V ?pages buf w2)
      | Some (base, mm) \<Rightarrow> (case SetQueueNotify V VIRTIO_NET_Q_RX (?w3 base) of (s, w4) \<Rightarrow>
          if EFI_ERROR s then Ok (Inl s, FreeSharedPages V ?pages buf (snd (UnmapSharedBuffer V mm (snd (SetDeviceStatus V 0 w4))))) else Ok (Inr (T base mm), w4)))"
    using mode a1 a2 u0 di by (simp add: VirtioNetInitRx_def Let_def T_def split: option.splits prod.splits)
  show "\<exists>x w'. VirtioNetInitRx V mode r mi w = Ok (x, w')" unfolding run by (simp split: option.splits prod.splits)
  assume ini: "VirtioNetInitRx V mode r mi w = Ok (Inr rx, w')" and dev: "rx_device V r (RxBuf rx) U hst"
  then obtain base mm s where c: "\<not> EFI_ERROR s1" "y = Some (base, mm)" "SetQueueNotify V VIRTIO_NET_Q_RX (?w3 base) = (s, w')" "rx = T base mm"
    unfolding run by (auto split: if_splits option.splits prod.splits)
  have i3: "rx_inv rx ?req U (fst (?w3 base)) (hst (snd (?w3 base))) (map (\<lambda>i. 2 * i) [0..<?n]) []"
    using rx_published [OF r q2 [OF c(1,2)] req dis [OF c(1)] _ di [of base], of U rx] c(4) dev by (simp add: T_def rx_device_def)
  have rr: "RxRing rx = r" using c(4) by (simp add: T_def)
  have "acts (RxRing rx) (rx_prot (RxRing rx) (RxBuf rx) ?req U) (rx_serve (RxRing rx) (RxBuf rx) ?req) hst (?w3 base) w'"
    using dev [unfolded rx_device_def, THEN conjunct2, rule_format, OF c(3)] rr by simp
  then show "RxRing rx = r \<and> (\<exists>F C. rx_inv rx ?req U (fst w') (hst (snd w')) F C)" using rx_acts [where w = "?w3 base" and hst = hst, OF i3] rr by blast
qed

section \<open>The abstract queue\<close>

text \<open>The packets between the driver's index and the host's, as the used ring and the receive area hold them.\<close>

definition rx_queue :: "'map VNET_RX \<Rightarrow> nat \<Rightarrow> mem \<Rightarrow> u8 list list" where
  "rx_queue rx req m = map (\<lambda>j. let e = read_used (UsedElem (RxRing rx)) m ((unat (RxLastUsed rx) + j) mod unat (QueueSize (RxRing rx)))
     in load_bytes m (slot_start (RxBuf rx) req (unat (UsedId e)) + req) (unat (UsedLen e) - req)) [0..<unat (used16 (RxRing rx) m - RxLastUsed rx)]"

lemma rx_queue_waiting:
  assumes inv: "rx_inv rx req U m h F C"
  shows "rx_queue rx req m = waiting rx req m C"
proof -
  note I = rx_invD [OF inv] and D = rx_desc [OF rx_invD(6) [OF inv]]
  have uq: "used_queue (RxRing rx) m (RxLastUsed rx) C" using I(5) by (simp add: queue_state_def)
  have "length C \<le> MaxPending (RxRing rx)" using D(3) by simp
  then have "length C < 65536" using MaxPending_bound(2) [of "RxRing rx"] by linarith
  then have len: "unat (used16 (RxRing rx) m - RxLastUsed rx) = length C" using uq by (simp add: used_queue_def unat_of_nat)
  have el: "read_used (UsedElem (RxRing rx)) m ((unat (RxLastUsed rx) + j) mod unat (QueueSize (RxRing rx))) = \<lparr>UsedId = of_nat (fst (C ! j)), UsedLen = of_nat (snd (C ! j))\<rparr>"
    if "j < length C" for j using uq that by (simp add: used_queue_def)
  have small: "fst (C ! j) < 2 ^ 32" "snd (C ! j) < 2 ^ 32" if j: "j < length C" for j
  proof -
    obtain i where "i < MaxPending (RxRing rx)" "fst (C ! j) = 2 * i" using D(1) [of "fst (C ! j)"] j by auto
    then show "fst (C ! j) < 2 ^ 32" using MaxPending_bound(2) [of "RxRing rx"] by simp
    show "snd (C ! j) < 2 ^ 32" using I(8) [of "C ! j"] I(3) j by auto
  qed
  show ?thesis unfolding rx_queue_def len waiting_def
    by (rule nth_equalityI) (use el small in \<open>simp_all add: Let_def unat_of_nat\<close>)
qed

text \<open>What a call of \<open>Receive\<close> does, as an operation on the queue \<open>Q\<close>.\<close>

definition receive_spec ::
  "nat \<Rightarrow> u8 list list \<Rightarrow> nat \<Rightarrow> nat \<Rightarrow> (u8 list \<Rightarrow> rx_result) \<Rightarrow> ('map, 'c) VNET_DEV \<Rightarrow> 'd world \<Rightarrow> (EFI_STATUS \<times> rx_result \<times> ('map, 'c) VNET_DEV \<times> 'd world) checked \<Rightarrow> bool" where
  "receive_spec req Q n buf result Dev w res \<longleftrightarrow> (case Q of
     [] \<Rightarrow> res = Ok (EFI_NOT_READY, no_result, Dev, w)
   | P # Ps \<Rightarrow> if n < length P then res = Ok (EFI_BUFFER_TOO_SMALL, no_result\<lparr>rr_BufferSize := Some (length P)\<rparr>, Dev, w)
       else \<exists>rx tx rx' w' new. Net Dev = Some (rx, tx) \<and> rx_queue rx' req (fst w') = Ps @ new \<and>
         (if length P < 14 then res = Ok (EFI_DEVICE_ERROR, no_result\<lparr>rr_BufferSize := Some (length P)\<rparr>, Dev\<lparr>Net := Some (rx', tx)\<rparr>, w')
          else res = Ok (EFI_SUCCESS, result P, Dev\<lparr>Net := Some (rx', tx)\<rparr>, w') \<and> load_bytes (fst w') buf (length P) = P))"

lemma rx_client_write:
  assumes inv: "rx_inv rx req U m h F C" and x: "\<And>x. x \<notin> U \<Longrightarrow> m' x = m x"
  shows "rx_inv rx req U m' h F C" "waiting rx req m' (drop j C) = waiting rx req m (drop j C)"
proof -
  note I = rx_invD [OF inv]
  note L = ring_layout [OF I(1)]
  have r: "m' y = m y" if "y \<in> ring_area (RxRing rx)" for y using that x I(9) by blast
  have "in_flight (RxRing rx) m' h = in_flight (RxRing rx) m h" by (rule in_flight_frame [OF I(1)]) (use r L in \<open>auto simp: ring_area_def\<close>)
  moreover have "used_queue (RxRing rx) m' l D \<longleftrightarrow> used_queue (RxRing rx) m l D" for l D by (rule used_queue_frame [OF I(1)]) (use r L in \<open>auto simp: ring_area_def\<close>)
  moreover have "rx_descs rx req m' \<longleftrightarrow> rx_descs rx req m" by (rule rx_descs_cong [OF I(1)]) (use r L in \<open>auto simp: ring_area_def\<close>)
  ultimately show "rx_inv rx req U m' h F C" using inv by (simp add: rx_inv_def queue_state_def)
  have "waiting rx req m' C = waiting rx req m C" by (rule waiting_cong [OF inv], rule x) (use rx_slot_area(1) [OF inv] I(9) in blast)
  then have "drop j (waiting rx req m' C) = drop j (waiting rx req m C)" by simp
  then show "waiting rx req m' (drop j C) = waiting rx req m (drop j C)" by (simp add: waiting_def drop_map)
qed

lemma Receive_result:
  assumes dev: "rx_device V (RxRing rx) (RxBuf rx) U hst" and inv: "rx_inv rx (VirtioNetReqSize V) U (fst w) (hst (snd w)) F C"
    and D: "Net Dev = Some (rx, tx)" "NetState (Snm Dev) = EfiSimpleNetworkInitialized" "MediaHeaderSize (Snm Dev) = 14" and buf: "{buf..<buf + n} \<subseteq> U"
  shows "receive_spec (VirtioNetReqSize V) (rx_queue rx (VirtioNetReqSize V) (fst w)) n buf (packet_result hs sa da pr) Dev w
      (VirtioNetReceive V True Dev hs (Some n) (Some buf) sa da pr w)" (is ?t1)
    "\<exists>s res rx' w' F' C'. VirtioNetReceive V True Dev hs (Some n) (Some buf) sa da pr w = Ok (s, res, Dev\<lparr>Net := Some (rx', tx)\<rparr>, w') \<and>
      RxRing rx' = RxRing rx \<and> RxBuf rx' = RxBuf rx \<and> rx_inv rx' (VirtioNetReqSize V) U (fst w') (hst (snd w')) F' C'" (is ?t2)
proof -
  let ?req = "VirtioNetReqSize V"
  have run: "VirtioNetReceive V True Dev hs (Some n) (Some buf) sa da pr w =
      chk_bind (ReceivePacket V 14 rx hs n buf sa da pr (fst w, snd w)) (\<lambda>(Status, res, rx1, w1). Ok (Status, res, Dev\<lparr>Net := Some (rx1, tx)\<rparr>, w1))"
    using D by (simp add: VirtioNetReceive_def NotInitialized_def)
  have id: "Dev\<lparr>Net := Some (rx, tx)\<rparr> = Dev" using D(1) by simp
  note qw = rx_queue_waiting [OF inv]
  have stay: ?t2 if "VirtioNetReceive V True Dev hs (Some n) (Some buf) sa da pr w = Ok (s, res, Dev, w)" for s res
    using that inv id by (intro exI [of _ s] exI [of _ res] exI [of _ rx] exI [of _ w] exI [of _ F] exI [of _ C]) simp
  have "?t1 \<and> ?t2"
  proof (cases C)
    case Nil
    have "RxLastUsed rx = of_nat (load_le (fst w) (UsedIdx (RxRing rx)) 2)" using rx_invD(5) [OF inv] Nil by (simp add: queue_state_def used_queue_def used16_def)
    then have "VirtioNetReceive V True Dev hs (Some n) (Some buf) sa da pr w = Ok (EFI_NOT_READY, no_result, Dev, w)"
      unfolding run ReceivePacket_def using id by (simp add: Let_def)
    then show ?thesis using qw Nil stay by (simp add: receive_spec_def waiting_def)
  next
    case (Cons c C0)
    obtain d k where c: "c = (d, k)" by (cases c)
    note Cc = Cons [unfolded c]
    define P where "P = load_bytes (fst w) (slot_start (RxBuf rx) ?req d + ?req) (k - ?req)"
    have q: "rx_queue rx ?req (fst w) = P # waiting rx ?req (fst w) C0" using qw Cc by (simp add: waiting_def P_def)
    note hd = ReceivePacket_head [OF inv [unfolded Cc] P_def buf, of V hs sa da pr "snd w"]
    let ?rx = "rx\<lparr>RxLastUsed := RxLastUsed rx + 1\<rparr>"
    have rec: "\<exists>w' F' C'. RecycleDesc V rx (of_nat d) s w1 = (s, ?rx, w') \<and> rx_inv ?rx ?req U (fst w') (hst (snd w')) F' (C0 @ C') \<and>
        waiting rx ?req (fst w') C0 = waiting rx ?req (fst w) C0 \<and> (\<forall>x\<in>U. fst w' x = fst w1 x)"
      if s: "s \<noteq> EFI_SUCCESS \<Longrightarrow> EFI_ERROR s" and i1: "rx_inv rx ?req U (fst w1) (hst (snd w1)) F ((d, k) # C0)" and w1: "waiting rx ?req (fst w1) C0 = waiting rx ?req (fst w) C0" for s w1
      using RecycleDesc_result [where w = w1 and hst = hst, OF dev i1 s] w1 by auto
    show ?thesis
    proof (cases "n < length P")
      case True
      then have "VirtioNetReceive V True Dev hs (Some n) (Some buf) sa da pr w = Ok (EFI_BUFFER_TOO_SMALL, no_result\<lparr>rr_BufferSize := Some (length P)\<rparr>, Dev, w)"
        unfolding run hd using id by simp
      then show ?thesis using q True stay by (simp add: receive_spec_def)
    next
      case False
      define w1 where "w1 = (if length P < 14 then w else (store_bytes (fst w) buf P, snd w))"
      define s where "s = (if length P < 14 then EFI_DEVICE_ERROR else EFI_SUCCESS)"
      have same: "fst w1 x = fst w x" if "x \<notin> U" for x
      proof -
        have "x < buf \<or> buf + length P \<le> x" using that buf False by (meson atLeastLessThan_iff not_less order.trans subsetD add_left_mono not_le_imp_less order_less_le_trans)
        then show ?thesis by (auto simp: w1_def store_bytes_other)
      qed
      have sw: "snd w1 = snd w" by (simp add: w1_def)
      have i1: "rx_inv rx ?req U (fst w1) (hst (snd w1)) F ((d, k) # C0)" unfolding sw by (rule rx_client_write(1) [OF inv [unfolded Cc] same])
      have wt: "waiting rx ?req (fst w1) C0 = waiting rx ?req (fst w) C0" using rx_client_write(2) [OF inv [unfolded Cc] same, of 1] by simp
      have serr: "s \<noteq> EFI_SUCCESS \<Longrightarrow> EFI_ERROR s" by (simp add: s_def split: if_splits)
      obtain w' F' C' where r: "RecycleDesc V rx (of_nat d) s w1 = (s, ?rx, w')" "rx_inv ?rx ?req U (fst w') (hst (snd w')) F' (C0 @ C')"
        "waiting rx ?req (fst w') C0 = waiting rx ?req (fst w) C0" "\<forall>x\<in>U. fst w' x = fst w1 x"
        using rec [OF serr i1 wt] by blast
      have res: "VirtioNetReceive V True Dev hs (Some n) (Some buf) sa da pr w =
          Ok (s, if length P < 14 then no_result\<lparr>rr_BufferSize := Some (length P)\<rparr> else packet_result hs sa da pr P, Dev\<lparr>Net := Some (?rx, tx)\<rparr>, w')"
        unfolding run hd using False r(1) by (cases "length P < 14") (simp_all add: s_def w1_def)
      have q': "rx_queue ?rx ?req (fst w') = waiting rx ?req (fst w) C0 @ waiting rx ?req (fst w') C'"
        using rx_queue_waiting [OF r(2)] r(3) by (simp add: waiting_def)
      have "load_bytes (fst w') buf (length P) = P" if "\<not> length P < 14"
      proof -
        have "{buf..<buf + length P} \<subseteq> U" using buf False by (meson atLeastLessThan_iff not_le order_less_le_trans add_left_mono subset_iff)
        then have "load_bytes (fst w') buf (length P) = load_bytes (fst w1) buf (length P)" using r(4) by (intro load_bytes_cong) auto
        also have "\<dots> = P" using that load_bytes_within [of 0 "length P" P "fst w" buf] by (simp add: w1_def)
        finally show ?thesis .
      qed
      then have "receive_spec ?req (rx_queue rx ?req (fst w)) n buf (packet_result hs sa da pr) Dev w (VirtioNetReceive V True Dev hs (Some n) (Some buf) sa da pr w)"
        unfolding receive_spec_def q res list.case if_not_P [OF False]
        using D(1) q' by (intro exI [of _ rx] exI [of _ tx] exI [of _ ?rx] exI [of _ w'] exI [of _ "waiting rx ?req (fst w') C'"]) (simp add: s_def)
      moreover have "RxRing ?rx = RxRing rx" "RxBuf ?rx = RxBuf rx" by simp_all
      ultimately show ?thesis using res r(2) by blast
    qed
  qed
  then show ?t1 ?t2 by blast+
qed

section \<open>Runs\<close>

text \<open>A run of the receive side: initialisation on a ring as \<open>VirtioRingInit\<close> leaves it, calls of \<open>Receive\<close> into memory
  of the client, and the host and the transmit side acting in between.\<close>

inductive rx_run ::
  "('d, 'map) VIRTIO_DEVICE_PROTOCOL \<Rightarrow> ('d \<Rightarrow> host) \<Rightarrow> VRING \<Rightarrow> nat \<Rightarrow> nat set \<Rightarrow> ('map, 'c) VNET_DEV \<times> 'd world \<Rightarrow> bool" for V hst r B U where
  start: "ring_idle r (fst w0) (hst (snd w0)) \<Longrightarrow> avail16 r (fst w0) = 0 \<Longrightarrow> MediaHeaderSize mode = 14 \<Longrightarrow> MaxPacketSize mode = 1500 \<Longrightarrow>
    VirtioNetInitRx V mode r mi w0 = Ok (Inr rx, w) \<Longrightarrow> RxBuf rx = B \<Longrightarrow> Net Dev = Some (rx, tx) \<Longrightarrow>
    NetState (Snm Dev) = EfiSimpleNetworkInitialized \<Longrightarrow> MediaHeaderSize (Snm Dev) = 14 \<Longrightarrow> rx_run V hst r B U (Dev, w)"
| receive: "rx_run V hst r B U (Dev, w) \<Longrightarrow> {buf..<buf + n} \<subseteq> U \<Longrightarrow>
    VirtioNetReceive V True Dev hs (Some n) (Some buf) sa da pr w = Ok (s, res, Dev', w') \<Longrightarrow> rx_run V hst r B U (Dev', w')"
| others: "rx_run V hst r B U (Dev, w) \<Longrightarrow> Net Dev = Some (rx, tx) \<Longrightarrow> acts r (rx_prot r B (VirtioNetReqSize V) U) (rx_serve r B (VirtioNetReqSize V)) hst w w' \<Longrightarrow>
    Net Dev' = Some (rx, tx') \<Longrightarrow> NetState (Snm Dev') = EfiSimpleNetworkInitialized \<Longrightarrow> MediaHeaderSize (Snm Dev') = 14 \<Longrightarrow> rx_run V hst r B U (Dev', w')"

lemma rx_run_inv:
  assumes st: "rx_setup V r hst" and dev: "rx_device V r B U hst"
  shows "rx_run V hst r B U (Dev, w) \<Longrightarrow> \<exists>rx tx F C. Net Dev = Some (rx, tx) \<and> RxRing rx = r \<and> RxBuf rx = B \<and> NetState (Snm Dev) = EfiSimpleNetworkInitialized \<and>
    MediaHeaderSize (Snm Dev) = 14 \<and> rx_inv rx (VirtioNetReqSize V) U (fst w) (hst (snd w)) F C"
proof (induction "(Dev, w)" arbitrary: Dev w rule: rx_run.induct)
  case (start w0 mode mi rx w Dev tx)
  then show ?case using InitRx_result(2) [OF st start.hyps(1-4), of mi rx w U] dev by auto
next
  case (receive Dev w buf n hs sa da pr s res Dev' w')
  obtain rx tx F C where a: "Net Dev = Some (rx, tx)" "RxRing rx = r" "RxBuf rx = B" "NetState (Snm Dev) = EfiSimpleNetworkInitialized"
    "MediaHeaderSize (Snm Dev) = 14" "rx_inv rx (VirtioNetReqSize V) U (fst w) (hst (snd w)) F C" using receive.hyps(2) by blast
  have d: "rx_device V (RxRing rx) (RxBuf rx) U hst" using dev a(2,3) by simp
  obtain rx' F' C' where "Dev' = Dev\<lparr>Net := Some (rx', tx)\<rparr>" "RxRing rx' = r" "RxBuf rx' = B" "rx_inv rx' (VirtioNetReqSize V) U (fst w') (hst (snd w')) F' C'"
    using Receive_result(2) [where hst = hst and w = w, OF d a(6,1,4,5) receive.hyps(3), of hs sa da pr] receive.hyps(4) a(2,3) by auto
  then show ?case using a(4,5) by (intro exI [of _ rx'] exI [of _ tx] exI [of _ F'] exI [of _ C']) simp
next
  case (others Dev w rx tx w' Dev' tx')
  obtain F C where a: "RxRing rx = r" "RxBuf rx = B" "rx_inv rx (VirtioNetReqSize V) U (fst w) (hst (snd w)) F C" using others.hyps(2,3) by auto
  obtain F' C' where "rx_inv rx (VirtioNetReqSize V) U (fst w') (hst (snd w')) F' (C @ C')"
    using rx_acts [where hst = hst and w = w and w' = w', OF a(3)] others.hyps(4) a(1,2) by blast
  then show ?case using a(1,2) others.hyps(5-7) by blast
qed

section \<open>Properties\<close>

text \<open>Property C5.  From the initialisation of the receive queue on, whatever the order of calls and however the host fills the
  slots: the receive side is a first-in first-out queue of the packets the host has returned.  On an empty queue a
  call of \<open>Receive\<close> reports \<open>EFI_NOT_READY\<close>; a buffer that is too small leaves the packet in place and reports its size; a
  packet shorter than a media header is dropped with an error; any other packet is copied to the client with the addresses and the
  protocol of its header and leaves the queue, behind which the host may have appended more.\<close>

theorem VirtioNetReceive_fifo:
  assumes st: "rx_setup V r hst" and dev: "rx_device V r B U hst" and run: "rx_run V hst r B U (Dev, w)"
  shows "\<exists>rx tx. Net Dev = Some (rx, tx) \<and> (\<forall>hs n buf sa da pr. {buf..<buf + n} \<subseteq> U \<longrightarrow>
    receive_spec (VirtioNetReqSize V) (rx_queue rx (VirtioNetReqSize V) (fst w)) n buf (packet_result hs sa da pr) Dev w
      (VirtioNetReceive V True Dev hs (Some n) (Some buf) sa da pr w))"
proof -
  obtain rx tx F C where a: "Net Dev = Some (rx, tx)" "RxRing rx = r" "RxBuf rx = B" "NetState (Snm Dev) = EfiSimpleNetworkInitialized"
    "MediaHeaderSize (Snm Dev) = 14" "rx_inv rx (VirtioNetReqSize V) U (fst w) (hst (snd w)) F C" using rx_run_inv [OF st dev run] by blast
  have d: "rx_device V (RxRing rx) (RxBuf rx) U hst" using dev a(2,3) by simp
  show ?thesis using a(1) Receive_result(1) [where hst = hst and w = w, OF d a(6,1,4,5)] by blast
qed

section \<open>A device that delivers one packet\<close>

definition net_user :: "nat set" where "net_user = {0x9000..<0xA000}"

definition net_rx1 :: "unit VNET_RX" where
  "net_rx1 = \<lparr>RxRing = demo_ring, RxRingMap = (), RxBuf = 8192, RxLastUsed = 0, RxBufNrPages = 1, RxBufDeviceBase = 8192, RxBufMap = ()\<rparr>"

lemma net_sizes: "VirtioNetReqSize net_dev = 12" "MaxPending demo_ring = 1"
  by (simp_all add: VirtioNetReqSize_def net_dev_def sizeof_VIRTIO_1_0_NET_REQ_def MaxPending_def demo_ring_def VNET_MAX_PENDING_def)

lemma net_dev_members:
  "AllocateSharedPages net_dev n w = (EFI_SUCCESS, 8192, w)" "MapSharedBuffer net_dev op p n w = (EFI_SUCCESS, (n, of_nat p, ()), w)"
  "SetQueueNotify net_dev q w = (EFI_SUCCESS, w)"
  by (simp_all add: net_dev_def)

lemma net_dev_rx: "rx_setup net_dev demo_ring (\<lambda>h. h)" "rx_device net_dev demo_ring 8192 net_user (\<lambda>h. h)"
  by (auto simp: rx_setup_def rx_device_def net_sizes rx_area_def net_user_def demo_ring_area net_dev_members acts_refl)

lemma net_init_rx: "\<exists>m. VirtioNetInitRx net_dev net_mode demo_ring () (\<lambda>_. 0, [], 0) = Ok (Inr net_rx1, m, [], 0) \<and> rx_inv net_rx1 12 net_user m ([], 0) [0] []"
proof -
  have idle: "vring_ok demo_ring" "unat (QueueSize demo_ring) dvd 65536" "queue_state demo_ring (\<lambda>_. 0) ([], 0) 0 [] []" using demo_ring_idle by (simp_all add: ring_idle_def)
  let ?mz = "set_mem (\<lambda>_. 0) 8192 1526 0"
  have z: "?mz = (\<lambda>_. 0)" by (rule ext) (auto simp: set_mem_def store_bytes_def)
  have av: "avail16 demo_ring (\<lambda>_. 0) = 0" by (simp add: avail16_def load_le_zero)
  obtain di a m' where lp: "InitRxLoop demo_ring 12 1514 [0..<MaxPending demo_ring] (0, 8192, store_le (\<lambda>_. 0) (AvailFlags demo_ring) 2 VRING_AVAIL_F_NO_INTERRUPT) = (di, a, m')"
    by (metis prod_cases3)
  have inv: "rx_inv net_rx1 12 net_user (store_le m' (AvailIdx demo_ring) 2 (MaxPending demo_ring)) ([], 0) (map (\<lambda>i. 2 * i) [0..<MaxPending demo_ring]) []"
    by (rule rx_published [OF idle av _ _ _ lp]) (auto simp: net_rx1_def net_sizes rx_area_def demo_ring_area net_user_def)
  have "VirtioNetInitRx net_dev net_mode demo_ring () (\<lambda>_. 0, [], 0) = Ok (Inr net_rx1, store_le m' (AvailIdx demo_ring) 2 1, [], 0)"
    using lp z by (simp add: VirtioNetInitRx_def net_sizes net_mode_def SnpMode_def SIZE_OF_VNET_Mac_def EFI_SIZE_TO_PAGES_def Let_def
        net_dev_members VirtioMapAllBytesInSharedBuffer_def load_le_zero net_rx1_def del: InitRxLoop.simps)
  then show ?thesis using inv by (auto simp: net_sizes)
qed

text \<open>The host takes the slot, stores a packet of sixty bytes and returns it.\<close>

lemma net_delivers:
  assumes inv: "rx_inv net_rx1 12 net_user m ([], 0) [0] []"
  shows "\<exists>w. acts demo_ring (rx_prot demo_ring 8192 12 net_user) (rx_serve demo_ring 8192 12) (\<lambda>h. h) (m, [], 0) w \<and> rx_queue net_rx1 12 (fst w) = [replicate 60 7]"
proof -
  let ?m1 = "store_bytes m 8204 (replicate 60 7)" and ?step = "host_step demo_ring (rx_prot demo_ring 8192 12 net_user) (rx_serve demo_ring 8192 12)"
  have r: "RxRing net_rx1 = demo_ring" "RxLastUsed net_rx1 = 0" "RxBuf net_rx1 = 8192" by (simp_all add: net_rx1_def)
  note I = rx_invD [OF inv, unfolded r]
  have f: "in_flight demo_ring m ([], 0) = [0]" and u: "used_queue demo_ring m 0 []" using I(5) by (simp_all add: queue_state_def)
  have n: "unat (avail16 demo_ring m) = 1" using arg_cong [OF f, of length] by (simp add: in_flight_def)
  have e: "avail_entry demo_ring m 0 = 0" using f by (simp add: in_flight_def n)
  have "avail16 demo_ring m \<noteq> 0" using n by auto
  then have "?step (m, [], 0) (m, [0], 1)" using host_step.fetch [of demo_ring m 0 "rx_prot demo_ring 8192 12 net_user" "rx_serve demo_ring 8192 12" "[]"] e by simp
  moreover have "rx_serve demo_ring 8192 12 0 m ?m1 72" by (auto simp: rx_serve_def slot_start_def demo_ring_area store_bytes_def)
  then have "?step (m, [0], 1) (push_used demo_ring ?m1 0 72, [], 1)" using host_step.complete [of 0 "[0]" "rx_serve demo_ring 8192 12" m ?m1 72 demo_ring _ 1] by simp
  ultimately have a: "acts demo_ring (rx_prot demo_ring 8192 12 net_user) (rx_serve demo_ring 8192 12) (\<lambda>h. h) (m, [], 0) (push_used demo_ring ?m1 0 72, [], 1)"
    unfolding acts_def by (simp add: converse_rtranclp_into_rtranclp)
  have lay: "UsedAvailEvent demo_ring + 2 = 4118" using demo_ring_area by (auto simp: ring_area_def demo_ring_def VirtioRingPointers_def zero_VRING_def ALIGN_VALUE_def EFI_PAGE_SIZE_def)
  have "used_queue demo_ring ?m1 0 []" using used_queue_frame [OF I(1), of ?m1 m 0 "[]"] u lay by (auto simp: store_bytes_def)
  then have q: "used_queue demo_ring (push_used demo_ring ?m1 0 72) 0 [(0, 72)]" using push_used_result [OF I(1,2), of ?m1 0 "[]" 0 72] ring_layout(1) [OF I(1)] by simp
  have "load_bytes (push_used demo_ring ?m1 0 72) 8204 60 = load_bytes ?m1 8204 60"
    by (rule load_bytes_cong, rule push_used_frame [OF I(1)]) (use lay in auto)
  also have "\<dots> = replicate 60 7" using load_bytes_within [of 0 60 "replicate 60 7" m 8204] by simp
  finally have "rx_queue net_rx1 12 (push_used demo_ring ?m1 0 72) = [replicate 60 7]"
    using q by (simp add: rx_queue_def r used_queue_def Let_def slot_start_def)
  then show ?thesis using a by (intro exI [of _ "(push_used demo_ring ?m1 0 72, [], 1)"]) simp
qed

theorem VirtioNetReceive_fifo_witness:
  "\<exists>Dev w Dev' w'. rx_run net_dev (\<lambda>h. h) demo_ring 8192 net_user (Dev :: (unit, unit tx_entry list) VNET_DEV, w) \<and>
     VirtioNetReceive net_dev True Dev True (Some 2000) (Some 0x9000) True True True w =
       Ok (EFI_SUCCESS, packet_result True True True True (replicate 60 7), Dev', w') \<and> load_bytes (fst w') 0x9000 60 = replicate 60 7"
proof -
  let ?run = "rx_run net_dev (\<lambda>h. h) demo_ring 8192 net_user" and ?D = "\<lparr>Snm = net_mode, Net = Some (net_rx1, net_tx)\<rparr>"
  obtain m where i: "VirtioNetInitRx net_dev net_mode demo_ring () (\<lambda>_. 0, [], 0) = Ok (Inr net_rx1, m, [], 0)" "rx_inv net_rx1 12 net_user m ([], 0) [0] []"
    using net_init_rx by blast
  have md: "MediaHeaderSize net_mode = 14" "MaxPacketSize net_mode = 1500" "NetState net_mode = EfiSimpleNetworkInitialized"
    by (simp_all add: net_mode_def SnpMode_def SIZE_OF_VNET_Mac_def)
  have r0: "?run (?D, m, [], 0)"
    by (rule rx_run.start [OF _ _ md(1,2) i(1), where tx = net_tx]) (use demo_ring_idle md in \<open>simp_all add: avail16_def load_le_zero net_rx1_def\<close>)
  obtain w where h: "acts demo_ring (rx_prot demo_ring 8192 12 net_user) (rx_serve demo_ring 8192 12) (\<lambda>h. h) (m, [], 0) w" "rx_queue net_rx1 12 (fst w) = [replicate 60 7]"
    using net_delivers [OF i(2)] by blast
  have r1: "?run (?D, w)" by (rule rx_run.others [OF r0, where rx = net_rx1 and tx = net_tx and tx' = net_tx]) (use h(1) md in \<open>simp_all add: net_sizes\<close>)
  have "{0x9000..<0x9000 + 2000} \<subseteq> net_user" by (auto simp: net_user_def)
  then have "receive_spec 12 [replicate 60 7] 2000 0x9000 (packet_result True True True True) ?D w
      (VirtioNetReceive net_dev True ?D True (Some 2000) (Some 0x9000) True True True w)"
    using VirtioNetReceive_fifo [OF net_dev_rx r1] h(2) by (simp add: net_sizes)
  then obtain rx' w' where "VirtioNetReceive net_dev True ?D True (Some 2000) (Some 0x9000) True True True w =
      Ok (EFI_SUCCESS, packet_result True True True True (replicate 60 7), ?D\<lparr>Net := Some (rx', net_tx)\<rparr>, w')" "load_bytes (fst w') 0x9000 60 = replicate 60 7"
    unfolding receive_spec_def by (simp only: list.case length_replicate) auto
  then show ?thesis using r1 by blast
qed

end
