(* ===== verification/VirtioNetLife.thy ===== *)
theory VirtioNetLife
  imports VirtioNetTxRun
begin

text \<open>
  The life cycle of the network device: the states of the simple network protocol, and an account of what the
  driver holds in each of them.
\<close>

section \<open>What is relied on\<close>

text \<open>\<open>ocr c\<close> is what the collection itself holds, without the structures of its user.\<close>

definition net_ok :: "('d, 'map, 'c) net_services \<Rightarrow> ('d \<Rightarrow> 'map vio_res multiset) \<Rightarrow> ('c \<Rightarrow> 'map vio_res multiset) \<Rightarrow> bool" where
  "net_ok S res ocr \<longleftrightarrow>
    (\<forall>n w x w'. net_AllocatePool S n w = (x, w') \<longrightarrow> res (snd w') = (case x of None \<Rightarrow> res (snd w) | Some p \<Rightarrow> add_mset (PoolBlock p) (res (snd w)))) \<and>
    (\<forall>p w. res (snd (net_FreePool S p w)) = res (snd w) - {#PoolBlock p#}) \<and>
    (\<forall>w x w'. oc_Init S w = (x, w') \<longrightarrow>
       (case x of None \<Rightarrow> res (snd w') = res (snd w) | Some c \<Rightarrow> res (snd w') = ocr c + res (snd w) \<and> oc_Entries S c = [])) \<and>
    (\<forall>cmp e c w s c' w'. oc_Insert S cmp e c w = (s, c', w') \<longrightarrow> res (snd w') = (ocr c' + res (snd w)) - ocr c \<and>
       mset (oc_Entries S c') = (if EFI_ERROR s then {#} else {#e#}) + mset (oc_Entries S c)) \<and>
    (\<forall>cmp c e. oc_Find S cmp c = Some e \<longrightarrow> e \<in> set (oc_Entries S c)) \<and>
    (\<forall>e c w c' w'. e \<in> set (oc_Entries S c) \<longrightarrow> oc_Delete S e c w = (c', w') \<longrightarrow> res (snd w') = (ocr c' + res (snd w)) - ocr c \<and>
       mset (oc_Entries S c') = mset (oc_Entries S c) - {#e#}) \<and>
    (\<forall>c w. oc_Entries S c = [] \<longrightarrow> res (snd (oc_Uninit S c w)) = res (snd w) - ocr c)"

lemma net_okD:
  assumes "net_ok S res ocr"
  shows "net_AllocatePool S n w = (x, w') \<Longrightarrow> res (snd w') = (case x of None \<Rightarrow> res (snd w) | Some p \<Rightarrow> add_mset (PoolBlock p) (res (snd w)))"
    "res (snd (net_FreePool S p w)) = res (snd w) - {#PoolBlock p#}"
    "oc_Init S w = (None, w') \<Longrightarrow> res (snd w') = res (snd w)"
    "oc_Init S w = (Some c, w') \<Longrightarrow> res (snd w') = ocr c + res (snd w) \<and> oc_Entries S c = []"
    "oc_Insert S cmp e c w = (s, c', w') \<Longrightarrow> res (snd w') = (ocr c' + res (snd w)) - ocr c \<and>
       mset (oc_Entries S c') = (if EFI_ERROR s then {#} else {#e#}) + mset (oc_Entries S c)"
    "oc_Find S cmp c = Some e \<Longrightarrow> e \<in> set (oc_Entries S c)"
    "e \<in> set (oc_Entries S c) \<Longrightarrow> oc_Delete S e c w = (c', w') \<Longrightarrow> res (snd w') = (ocr c' + res (snd w)) - ocr c \<and>
       mset (oc_Entries S c') = mset (oc_Entries S c) - {#e#}"
    "oc_Entries S c = [] \<Longrightarrow> res (snd (oc_Uninit S c w)) = res (snd w) - ocr c"
proof -
  note A = assms [unfolded net_ok_def]
  note A1 = A [THEN conjunct1, rule_format] and B1 = A [THEN conjunct2]
  note A2 = B1 [THEN conjunct1, rule_format] and B2 = B1 [THEN conjunct2]
  note I = B2 [THEN conjunct1, rule_format] and B3 = B2 [THEN conjunct2]
  note A4 = B3 [THEN conjunct1, rule_format] and B4 = B3 [THEN conjunct2]
  note A5 = B4 [THEN conjunct1, rule_format] and B5 = B4 [THEN conjunct2]
  note A6 = B5 [THEN conjunct1, rule_format] and A7 = B5 [THEN conjunct2, rule_format]
  show "net_AllocatePool S n w = (x, w') \<Longrightarrow> res (snd w') = (case x of None \<Rightarrow> res (snd w) | Some p \<Rightarrow> add_mset (PoolBlock p) (res (snd w)))"
    "res (snd (net_FreePool S p w)) = res (snd w) - {#PoolBlock p#}"
    "oc_Insert S cmp e c w = (s, c', w') \<Longrightarrow> res (snd w') = (ocr c' + res (snd w)) - ocr c \<and>
       mset (oc_Entries S c') = (if EFI_ERROR s then {#} else {#e#}) + mset (oc_Entries S c)"
    "oc_Find S cmp c = Some e \<Longrightarrow> e \<in> set (oc_Entries S c)"
    "e \<in> set (oc_Entries S c) \<Longrightarrow> oc_Delete S e c w = (c', w') \<Longrightarrow> res (snd w') = (ocr c' + res (snd w)) - ocr c \<and>
       mset (oc_Entries S c') = mset (oc_Entries S c) - {#e#}"
    "oc_Entries S c = [] \<Longrightarrow> res (snd (oc_Uninit S c w)) = res (snd w) - ocr c"
    by (rule A1, assumption, rule A2, rule A4, assumption, rule A5, assumption, rule A6, assumption+, rule A7, assumption)
  show "oc_Init S w = (None, w') \<Longrightarrow> res (snd w') = res (snd w)"
    "oc_Init S w = (Some c, w') \<Longrightarrow> res (snd w') = ocr c + res (snd w) \<and> oc_Entries S c = []" using I by fastforce+
qed

section \<open>What the driver holds\<close>

definition entry_res :: "'map tx_entry multiset \<Rightarrow> 'map vio_res multiset" where
  "entry_res E = image_mset (\<lambda>e. PoolBlock (fst e)) E + image_mset (\<lambda>e. Mapped (BufMap (snd e))) E"

definition coll_res :: "('d, 'map, 'c) net_services \<Rightarrow> ('c \<Rightarrow> 'map vio_res multiset) \<Rightarrow> 'c \<Rightarrow> 'map vio_res multiset" where
  "coll_res S ocr c = ocr c + entry_res (mset (oc_Entries S c))"

definition tx_res :: "('d, 'map, 'c) net_services \<Rightarrow> ('c \<Rightarrow> 'map vio_res multiset) \<Rightarrow> ('map, 'c) VNET_TX \<Rightarrow> 'map vio_res multiset" where
  "tx_res S ocr tx = {#Mapped (TxSharedReqMap tx), SharedPages 1 (TxSharedReq tx), PoolBlock (TxFreeStack tx)#} + coll_res S ocr (TxBufCollection tx)"

definition rx_res :: "'map VNET_RX \<Rightarrow> 'map vio_res multiset" where
  "rx_res rx = {#Mapped (RxBufMap rx), SharedPages (RxBufNrPages rx) (RxBuf rx)#}"

definition dev_res :: "('d, 'map, 'c) net_services \<Rightarrow> ('c \<Rightarrow> 'map vio_res multiset) \<Rightarrow> ('map, 'c) VNET_DEV \<Rightarrow> 'map vio_res multiset" where
  "dev_res S ocr Dev = (case Net Dev of None \<Rightarrow> {#}
     | Some (rx, tx) \<Rightarrow> tx_res S ocr tx + ring_res (TxRing tx) (TxRingMap tx) + (rx_res rx + ring_res (RxRing rx) (RxRingMap rx)))"

lemma entry_res_simps [simp]:
  "entry_res {#} = {#}" "entry_res (add_mset e E) = add_mset (PoolBlock (fst e)) (add_mset (Mapped (BufMap (snd e))) (entry_res E))"
  by (simp_all add: entry_res_def)

section \<open>Transmitting and collecting\<close>

lemma MapTxBuf_res:
  assumes ok: "vio_ok V res" and n: "net_ok S res ocr" and h: "res (snd w) = coll_res S ocr (TxBufCollection tx) + R"
    and r: "VirtioNetMapTxBuf S V tx buf k w = Ok (x, tx', w')"
  shows "res (snd w') = coll_res S ocr (TxBufCollection tx') + R \<and> tx' = tx\<lparr>TxBufCollection := TxBufCollection tx'\<rparr>"
proof -
  note N = net_okD [OF n]
  obtain p w1 where a: "net_AllocatePool S 24 w = (p, w1)" by (metis surj_pair)
  note a' = N(1) [OF a]
  show ?thesis
  proof (cases p)
    case None
    then show ?thesis using r a a' h by (auto simp: VirtioNetMapTxBuf_def)
  next
    case (Some q)
    obtain s y w2 where m: "VirtioMapAllBytesInSharedBuffer V VirtioOperationBusMasterRead buf k w1 = (s, y, w2)" by (metis prod_cases3)
    note m' = VirtioMapAll_res [OF ok m]
    show ?thesis
    proof (cases y)
      case None
      then show ?thesis using r a a' m m' h Some by (auto simp: VirtioNetMapTxBuf_def N(2))
    next
      case y: (Some z)
      obtain ad mi where z: "z = (ad, mi)" by (cases z)
      let ?i = "\<lparr>TxBuffer = buf, DeviceAddress = ad, BufMap = mi\<rparr>"
      obtain t c w3 where i: "oc_Insert S (VirtioNetTxBufMapInfoCompare ?i) (q, ?i) (TxBufCollection tx) w2 = (t, c, w3)" by (metis prod_cases3)
      note i' = N(5) [OF i]
      have "res (snd w3) = add_mset (PoolBlock q) (add_mset (Mapped mi) (ocr c + entry_res (mset (oc_Entries S (TxBufCollection tx))) + R))"
        using i' m' a' h y z Some by (simp add: coll_res_def)
      then show ?thesis using r a m i i' y z Some
        by (auto simp: VirtioNetMapTxBuf_def Let_def N(2) vio_obtains(4) [OF ok] coll_res_def split: if_splits)
    qed
  qed
qed

lemma UnmapTxBuf_res:
  assumes ok: "vio_ok V res" and n: "net_ok S res ocr" and h: "res (snd w) = coll_res S ocr (TxBufCollection tx) + R"
    and r: "VirtioNetUnmapTxBuf S V tx a w = (x, tx', w')"
  shows "res (snd w') = coll_res S ocr (TxBufCollection tx') + R \<and> tx' = tx\<lparr>TxBufCollection := TxBufCollection tx'\<rparr>"
proof -
  note N = net_okD [OF n]
  show ?thesis
  proof (cases "oc_Find S (VirtioNetTxBufDeviceAddressCompare a) (TxBufCollection tx)")
    case None
    then show ?thesis using r h by (auto simp: VirtioNetUnmapTxBuf_def)
  next
    case (Some e)
    obtain c w1 where d: "oc_Delete S e (TxBufCollection tx) w = (c, w1)" by (metis surj_pair)
    have e: "e \<in> set (oc_Entries S (TxBufCollection tx))" using N(6) [OF Some] .
    note d' = N(7) [OF e d]
    have "mset (oc_Entries S (TxBufCollection tx)) = add_mset e (mset (oc_Entries S c))" using d' e by simp
    then have "res (snd w1) = add_mset (PoolBlock (fst e)) (add_mset (Mapped (BufMap (snd e))) (coll_res S ocr c + R))" using conjunct1 [OF d'] h by (simp add: coll_res_def)
    then show ?thesis using r Some d by (auto simp: VirtioNetUnmapTxBuf_def N(2) vio_obtains(4) [OF ok])
  qed
qed

lemma ReleaseTxBufs_res:
  assumes ok: "vio_ok V res" and n: "net_ok S res ocr"
  shows "mset (oc_Entries S c) = mset es \<Longrightarrow> res (snd w) = coll_res S ocr c + R \<Longrightarrow> ReleaseTxBufs S V es c w = (c', w') \<Longrightarrow>
    oc_Entries S c' = [] \<and> res (snd w') = ocr c' + R"
proof (induction es arbitrary: c w)
  case Nil
  then show ?case by (simp add: coll_res_def)
next
  case (Cons e es)
  note N = net_okD [OF n]
  obtain c1 w1 where d: "oc_Delete S e c w = (c1, w1)" by (metis surj_pair)
  have e: "e \<in> set (oc_Entries S c)" using mset_eq_setD [OF Cons.prems(1)] by simp
  note d' = N(7) [OF e d]
  have m: "mset (oc_Entries S c1) = mset es" using d' Cons.prems(1) by simp
  have "res (snd w1) = add_mset (PoolBlock (fst e)) (add_mset (Mapped (BufMap (snd e))) (coll_res S ocr c1 + R))"
    using d' Cons.prems(1,2) m by (simp add: coll_res_def)
  then show ?case using Cons.IH [OF m, of "net_FreePool S (fst e) (snd (UnmapSharedBuffer V (BufMap (snd e)) w1))"] Cons.prems(3) d
    by (simp add: N(2) vio_obtains(4) [OF ok])
qed

lemma ShutdownTx_res:
  assumes ok: "vio_ok V res" and n: "net_ok S res ocr" and h: "res (snd w) = tx_res S ocr tx + R"
  shows "res (snd (VirtioNetShutdownTx S V tx w)) = R"
proof -
  note N = net_okD [OF n]
  let ?w = "FreeSharedPages V 1 (TxSharedReq tx) (snd (UnmapSharedBuffer V (TxSharedReqMap tx) w))"
  have pg: "EFI_SIZE_TO_PAGES sizeof_VIRTIO_1_0_NET_REQ = 1" by (simp add: EFI_SIZE_TO_PAGES_def sizeof_VIRTIO_1_0_NET_REQ_def)
  have h2: "res (snd ?w) = coll_res S ocr (TxBufCollection tx) + add_mset (PoolBlock (TxFreeStack tx)) R"
    using h by (simp add: vio_obtains(3,4) [OF ok] tx_res_def)
  obtain c w3 where l: "ReleaseTxBufs S V (oc_Entries S (TxBufCollection tx)) (TxBufCollection tx) ?w = (c, w3)" by (metis surj_pair)
  note c = ReleaseTxBufs_res [OF ok n refl h2 l]
  show ?thesis unfolding VirtioNetShutdownTx_def pg Let_def l using c by (simp add: N(2) N(8))
qed

lemma ShutdownRx_res: "vio_ok V res \<Longrightarrow> res (snd (VirtioNetShutdownRx V rx w)) = res (snd w) - rx_res rx"
  by (simp add: VirtioNetShutdownRx_def vio_obtains rx_res_def add_mset_commute)

lemma UninitRing_res: "vio_ok V res \<Longrightarrow> res (snd (VirtioNetUninitRing V ring mi w)) = res (snd w) - ring_res ring mi"
  by (simp add: VirtioNetUninitRing_def ring_res_def VirtioRingUninit_res vio_obtains(4) add_mset_commute)

section \<open>Initialisation\<close>

lemma keeps_snd: "keeps_call res f \<Longrightarrow> res (snd (snd (f w))) = res (snd w)"
  by (simp add: keeps_call_def del: split_paired_All)

lemma InitRing_res:
  assumes ok: "vio_ok V res" and r: "VirtioNetInitRing V q w = (x, w')"
  shows "res (snd w') = (case x of Inl s \<Rightarrow> res (snd w) | Inr (ring, mi) \<Rightarrow> ring_res ring mi + res (snd w))"
proof -
  note K = keeps_callD [OF vio_keeps(7) [OF ok]] keeps_queryD [OF vio_keeps(8) [OF ok]]
  obtain s1 w1 where 1: "SetQueueSel V q w = (s1, w1)" by (metis surj_pair)
  obtain s2 k w2 where 2: "GetQueueNumMax V w1 = (s2, k, w2)" by (metis prod_cases3)
  obtain s3 ring w3 where 3: "VirtioRingInit V k zero_VRING w2 = (s3, ring, w3)" by (metis prod_cases3)
  obtain s4 y w4 where 4: "VirtioRingMap V ring w3 = (s4, y, w4)" by (metis prod_cases3)
  have k2: "res (snd w2) = res (snd w)" using K(1) [OF 1] K(2) [OF 2] by simp
  note k3 = VirtioRingInit_res [OF ok 3] and k4 = VirtioRingMap_res [OF ok 4]
  show ?thesis
  proof (cases "EFI_ERROR s1 \<or> EFI_ERROR s2 \<or> k < 2 \<or> EFI_ERROR s3 \<or> y = None")
    case True
    then show ?thesis using r 1 2 3 4 k2 k3 k4 K(1) [OF 1] by (auto simp: VirtioNetInitRing_def VirtioRingUninit_res [OF ok] split: if_splits)
  next
    case False
    then obtain sh mi where y: "y = Some (sh, mi)" by auto
    obtain s5 w5 where 5: "SetQueueNum V k w4 = (s5, w5)" by (metis surj_pair)
    obtain s6 w6 where 6: "SetQueueAlign V EFI_PAGE_SIZE w5 = (s6, w6)" by (metis surj_pair)
    obtain s7 w7 where 7: "SetQueueAddress V ring sh w6 = (s7, w7)" by (metis surj_pair)
    have k: "res (snd w5) = res (snd w4)" "res (snd w6) = res (snd w4)" "res (snd w7) = res (snd w4)"
      using keeps_callD [OF vio_keeps(9) [OF ok] 5] keeps_callD [OF vio_keeps(10) [OF ok] 6] keeps_callD [OF vio_keeps(11) [OF ok] 7] by simp_all
    have h: "res (snd w4) = ring_res ring mi + res (snd w)" using k2 k3 k4 y False by (simp add: ring_res_def)
    then show ?thesis using r 1 2 3 4 5 6 7 y False k
      by (auto simp: VirtioNetInitRing_def VirtioRingUninit_res [OF ok] vio_obtains(4) [OF ok] ring_res_def split: if_splits)
  qed
qed

lemma InitTx_res:
  assumes ok: "vio_ok V res" and n: "net_ok S res ocr" and r: "VirtioNetInitTx S V ring mi w = Ok (x, w')"
  shows "res (snd w') = (case x of Inl s \<Rightarrow> res (snd w) | Inr tx \<Rightarrow> tx_res S ocr tx + res (snd w)) \<and> (\<forall>tx. x = Inr tx \<longrightarrow> TxRing tx = ring \<and> TxRingMap tx = mi)"
proof -
  note N = net_okD [OF n]
  have pg: "EFI_SIZE_TO_PAGES sizeof_VIRTIO_1_0_NET_REQ = 1" by (simp add: EFI_SIZE_TO_PAGES_def sizeof_VIRTIO_1_0_NET_REQ_def)
  obtain p w1 where 1: "net_AllocatePool S (MaxPending ring * 2) w = (p, w1)" by (metis surj_pair)
  obtain c w2 where 2: "oc_Init S w1 = (c, w2)" by (metis surj_pair)
  obtain s3 buf w3 where 3: "AllocateSharedPages V 1 w2 = (s3, buf, w3)" by (metis prod_cases3)
  let ?w = "(set_mem (fst w3) buf sizeof_VIRTIO_1_0_NET_REQ 0, snd w3)"
  obtain s4 y w4 where 4: "VirtioMapAllBytesInSharedBuffer V VirtioOperationBusMasterCommonBuffer buf sizeof_VIRTIO_1_0_NET_REQ ?w = (s4, y, w4)" by (metis prod_cases3)
  note k1 = N(1) [OF 1] and k3 = obtains_resD [OF vio_obtains(1) [OF ok] 3] and k4 = VirtioMapAll_res [OF ok 4]
  show ?thesis
  proof (cases "p = None \<or> c = None \<or> EFI_ERROR s3 \<or> y = None")
    case True
    then show ?thesis using r 1 2 3 4 k1 k3 k4 unfolding VirtioNetInitTx_def pg
      by (auto simp: Let_def N(2) N(8) vio_obtains(3) [OF ok] dest!: N(3) N(4) split: if_splits option.splits prod.splits)
  next
    case False
    then obtain st cl a mm where v: "p = Some st" "c = Some cl" "y = Some (a, mm)" "\<not> EFI_ERROR s3" by auto
    have k2: "res (snd w2) = ocr cl + res (snd w1)" "oc_Entries S cl = []" using N(4) 2 v(2) by auto
    have "res (snd w4) = {#Mapped mm, SharedPages 1 buf, PoolBlock st#} + ocr cl + res (snd w)" using k1 k2 k3 k4 v by simp
    then show ?thesis using r 1 2 3 4 v k2(2) unfolding VirtioNetInitTx_def pg
      by (auto simp: Let_def tx_res_def coll_res_def split: if_splits prod.splits)
  qed
qed

lemma InitRx_res:
  assumes ok: "vio_ok V res" and r: "VirtioNetInitRx V mode ring mi w = Ok (x, w')"
  shows "res (snd w') = (case x of Inl s \<Rightarrow> res (snd w) | Inr rx \<Rightarrow> rx_res rx + res (snd w)) \<and> (\<forall>rx. x = Inr rx \<longrightarrow> RxRing rx = ring \<and> RxRingMap rx = mi)"
proof -
  let ?b = "MaxPending ring * (VirtioNetReqSize V + (MediaHeaderSize mode + MaxPacketSize mode))"
  obtain s1 buf w1 where 1: "AllocateSharedPages V (EFI_SIZE_TO_PAGES ?b) w = (s1, buf, w1)" by (metis prod_cases3)
  obtain s2 y w2 where 2: "VirtioMapAllBytesInSharedBuffer V VirtioOperationBusMasterCommonBuffer buf ?b (set_mem (fst w1) buf ?b 0, snd w1) = (s2, y, w2)" by (metis prod_cases3)
  note k1 = obtains_resD [OF vio_obtains(1) [OF ok] 1] and k2 = VirtioMapAll_res [OF ok 2]
  show ?thesis
  proof (cases "EFI_ERROR s1 \<or> y = None")
    case True
    then show ?thesis using r 1 2 k1 k2 by (auto simp: VirtioNetInitRx_def Let_def vio_obtains(3) [OF ok] split: if_splits)
  next
    case False
    then obtain base mm where y: "y = Some (base, mm)" by auto
    obtain di a m3 where lp: "InitRxLoop ring (VirtioNetReqSize V) (MediaHeaderSize mode + MaxPacketSize mode) [0..<MaxPending ring]
        (0, base, store_le (fst w2) (AvailFlags ring) 2 VRING_AVAIL_F_NO_INTERRUPT) = (di, a, m3)" by (metis prod_cases3)
    obtain s4 w4 where n: "SetQueueNotify V VIRTIO_NET_Q_RX (store_le m3 (AvailIdx ring) 2 (MaxPending ring), snd w2) = (s4, w4)" by (metis surj_pair)
    have "res (snd w4) = add_mset (Mapped mm) (add_mset (SharedPages (EFI_SIZE_TO_PAGES ?b) buf) (res (snd w)))"
      using keeps_callD [OF vio_keeps(4) [OF ok] n] k1 k2 y False by simp
    then show ?thesis using r 1 2 y lp n False
      by (auto simp: VirtioNetInitRx_def Let_def vio_obtains(3,4) [OF ok] keeps_snd [OF vio_keeps(2) [OF ok]] rx_res_def split: if_splits)
  qed
qed

lemma NegotiateNet_res: "vio_ok V res \<Longrightarrow> NegotiateNet V mode s = Ok (x, s') \<Longrightarrow> res (snd (snd s')) = res (snd (snd s))"
proof -
  assume ok: "vio_ok V res" and r: "NegotiateNet V mode s = Ok (x, s')"
  have k: "es_keeps res (es_bind (add_status V VSTAT_DRIVER) (\<lambda>_. es_bind (es_call (SetPageSize V EFI_PAGE_SIZE)) (\<lambda>_. es_query (GetDeviceFeatures V))))"
    by (intro es_keeps_intros es_keeps_add_status vio_keeps ok)
  have f: "es_keeps res (WriteFeatures10 V f)" for f
    using Virtio10WriteFeatures_res [OF ok] unfolding es_keeps_def WriteFeatures10_def by (auto split: prod.splits)
  obtain y s1 where 1: "es_bind (add_status V VSTAT_DRIVER) (\<lambda>_. es_bind (es_call (SetPageSize V EFI_PAGE_SIZE)) (\<lambda>_. es_query (GetDeviceFeatures V))) s = (y, s1)"
    by (metis surj_pair)
  note k1 = k [unfolded es_keeps_def, rule_format, of s, unfolded 1 snd_conv]
  show ?thesis
  proof (cases y)
    case (Inl e)
    then show ?thesis using r 1 k1 by (auto simp: NegotiateNet_def)
  next
    case (Inr F)
    let ?f = "F AND (VIRTIO_NET_F_MAC OR VIRTIO_NET_F_STATUS OR VIRTIO_F_VERSION_1 OR VIRTIO_F_IOMMU_PLATFORM)"
    obtain z s2 where 2: "WriteFeatures10 V ?f s1 = (z, s2)" by (metis surj_pair)
    note k2 = f [unfolded es_keeps_def, rule_format, of ?f s1, unfolded 2 snd_conv]
    show ?thesis using r 1 k1 Inr 2 k2 by (auto simp: NegotiateNet_def Let_def split: sum.splits if_splits)
  qed
qed

lemma EnableNet_res: "vio_ok V res \<Longrightarrow> EnableNet V f (st, w) = (x, st', w') \<Longrightarrow> res (snd w') = res (snd w)"
proof -
  assume ok: "vio_ok V res" and r: "EnableNet V f (st, w) = (x, st', w')"
  have "es_keeps res (EnableNet V f)" unfolding EnableNet_def by (intro es_keeps_intros es_keeps_add_status es_keeps_if vio_keeps ok)
  then show ?thesis using es_keepsD r by blast
qed

lemma InitTraffic_res:
  assumes ok: "vio_ok V res" and n: "net_ok S res ocr" and r: "InitTraffic S V mode f s = Ok (x, w')"
  shows "res (snd w') = (case x of Inl e \<Rightarrow> res (snd (snd s)) | Inr net \<Rightarrow> dev_res S ocr \<lparr>Snm = mode, Net = Some net\<rparr> + res (snd (snd s)))"
proof -
  note U = UninitRing_res [OF ok] and Z = keeps_snd [OF vio_keeps(2) [OF ok]]
  obtain x1 w1 where 1: "VirtioNetInitRing V VIRTIO_NET_Q_RX (snd s) = (x1, w1)" by (metis surj_pair)
  note k1 = InitRing_res [OF ok 1]
  obtain x2 w2 where 2: "VirtioNetInitRing V VIRTIO_NET_Q_TX w1 = (x2, w2)" by (metis surj_pair)
  note k2 = InitRing_res [OF ok 2]
  obtain x3 st w3 where 3: "EnableNet V f (fst s, w2) = (x3, st, w3)" by (metis prod_cases3)
  note k3 = EnableNet_res [OF ok 3]
  show ?thesis
  proof (cases "\<exists>rxr rxm txr txm. x1 = Inr (rxr, rxm) \<and> x2 = Inr (txr, txm) \<and> x3 = Inr ()")
    case False
    then show ?thesis using r 1 2 3 k1 k2 k3 by (cases x1; cases x2; cases x3) (auto simp: InitTraffic_def U Let_def)
  next
    case True
    then obtain rxr rxm txr txm where v: "x1 = Inr (rxr, rxm)" "x2 = Inr (txr, txm)" "x3 = Inr ()" by blast
    have h3: "res (snd w3) = ring_res txr txm + (ring_res rxr rxm + res (snd (snd s)))" using k1 k2 k3 v by simp
    obtain x4 w4 where 4: "VirtioNetInitTx S V txr txm w3 = Ok (x4, w4)"
      using r 1 2 3 v by (cases "VirtioNetInitTx S V txr txm w3") (auto simp: InitTraffic_def Let_def)
    note k4 = InitTx_res [OF ok n 4]
    show ?thesis
    proof (cases x4)
      case (Inl e)
      then show ?thesis using r 1 2 3 4 v k4 h3 by (auto simp: InitTraffic_def Let_def U Z)
    next
      case (Inr tx)
      obtain x5 w5 where 5: "VirtioNetInitRx V mode rxr rxm w4 = Ok (x5, w5)"
        using r 1 2 3 4 v Inr by (cases "VirtioNetInitRx V mode rxr rxm w4") (auto simp: InitTraffic_def Let_def)
      note k5 = InitRx_res [OF ok 5]
      have h4: "res (snd w4) = tx_res S ocr tx + res (snd w3)" using k4 Inr by simp
      show ?thesis
      proof (cases x5)
        case e: (Inl e)
        then have "res (snd w5) = tx_res S ocr tx + res (snd w3)" using k5 h4 by simp
        from ShutdownTx_res [OF ok n this] show ?thesis using r 1 2 3 4 5 v Inr e h3 by (auto simp: InitTraffic_def Let_def U Z)
      next
        case x: (Inr rx)
        then show ?thesis using r 1 2 3 4 5 v Inr k4 k5 h3 h4 by (auto simp: InitTraffic_def Let_def dev_res_def ac_simps)
      qed
    qed
  qed
qed

lemma Initialize_res:
  assumes ok: "vio_ok V res" and n: "net_ok S res ocr" and wf: "NetState (Snm Dev) = EfiSimpleNetworkInitialized \<longleftrightarrow> Net Dev \<noteq> None" and h: "res (snd w) = dev_res S ocr Dev + R"
    and r: "VirtioNetInitialize S V This Dev er et w = Ok (s, Dev', w')"
  shows "res (snd w') = dev_res S ocr Dev' + R \<and> (NetState (Snm Dev') = EfiSimpleNetworkInitialized \<longleftrightarrow> Net Dev' \<noteq> None)"
proof (cases "\<not> This \<or> er > 0 \<or> et > 0 \<or> NetState (Snm Dev) \<noteq> EfiSimpleNetworkStarted")
  case True
  then show ?thesis using r h wf by (auto simp: VirtioNetInitialize_def split: if_splits)
next
  case False
  note Z = keeps_snd [OF vio_keeps(2) [OF ok]]
  have "NetState (Snm Dev) \<noteq> EfiSimpleNetworkInitialized" using False by simp
  then have none: "Net Dev = None" using wf by blast
  then have none': "dev_res S ocr Dev = {#}" by (simp add: dev_res_def)
  obtain s1 w1 where 1: "SetDeviceStatus V VSTAT_ACK w = (s1, w1)" by (metis surj_pair)
  note k1 = keeps_callD [OF vio_keeps(2) [OF ok] 1]
  show ?thesis
  proof (cases "EFI_ERROR s1")
    case True
    then show ?thesis using r False 1 k1 h wf by (auto simp: VirtioNetInitialize_def)
  next
    case ok1: False
    obtain x2 s2 where 2: "NegotiateNet V (Snm Dev) (VSTAT_ACK, w1) = Ok (x2, s2)"
      using r False 1 ok1 by (cases "NegotiateNet V (Snm Dev) (VSTAT_ACK, w1)") (auto simp: VirtioNetInitialize_def)
    note k2 = NegotiateNet_res [OF ok 2]
    show ?thesis
    proof (cases x2)
      case (Inl e)
      then show ?thesis using r False 1 ok1 2 k1 k2 h wf none none' by (auto simp: VirtioNetInitialize_def Z)
    next
      case (Inr f)
      obtain x3 w3 where 3: "InitTraffic S V (Snm Dev) f s2 = Ok (x3, w3)"
        using r False 1 ok1 2 Inr by (cases "InitTraffic S V (Snm Dev) f s2") (auto simp: VirtioNetInitialize_def)
      note k3 = InitTraffic_res [OF ok n 3]
      show ?thesis using r False 1 ok1 2 Inr 3 k1 k2 k3 h wf none none'
        by (cases x3) (auto simp: VirtioNetInitialize_def Z dev_res_def)
    qed
  qed
qed

section \<open>Traffic\<close>

lemma chk_bind_Ok_iff: "chk_bind x f = Ok y \<longleftrightarrow> (\<exists>z. x = Ok z \<and> f z = Ok y)"
  by (cases x) simp_all

text \<open>What the driver holds besides the collection.\<close>

definition rest_res :: "'map VNET_RX \<Rightarrow> ('map, 'c) VNET_TX \<Rightarrow> 'map vio_res multiset" where
  "rest_res rx tx = {#Mapped (TxSharedReqMap tx), SharedPages 1 (TxSharedReq tx), PoolBlock (TxFreeStack tx)#} +
      ring_res (TxRing tx) (TxRingMap tx) + (rx_res rx + ring_res (RxRing rx) (RxRingMap rx))"

lemma dev_res_tx: "Net Dev = Some (rx, tx) \<Longrightarrow> dev_res S ocr Dev = coll_res S ocr (TxBufCollection tx) + rest_res rx tx"
  by (simp add: dev_res_def tx_res_def rest_res_def)

lemma rest_res_simps [simp]:
  "rest_res rx (tx\<lparr>TxCurPending := p\<rparr>) = rest_res rx tx" "rest_res rx (tx\<lparr>TxLastUsed := l\<rparr>) = rest_res rx tx"
  "rest_res rx (tx\<lparr>TxFreeStackWords := ws\<rparr>) = rest_res rx tx" "rest_res rx (tx\<lparr>TxBufCollection := c\<rparr>) = rest_res rx tx"
  by (simp_all add: rest_res_def)

lemma Transmit_shape:
  assumes r: "VirtioNetTransmit S V This Dev hs k Buffer sa da pr w = Ok (s, Dev', w')"
  shows "Dev' = Dev \<and> w' = w \<or> (\<exists>buf rx tx m. Net Dev = Some (rx, tx) \<and> TransmitTail S V Dev rx tx buf k (m, snd w) = Ok (s, Dev', w'))"
proof (cases "Buffer = None \<or> Net Dev = None")
  case True
  then show ?thesis using r by (auto simp: VirtioNetTransmit_def split: option.splits if_splits)
next
  case False
  then obtain buf rx tx where b: "Buffer = Some buf" "Net Dev = Some (rx, tx)" by auto
  let ?tail = "TransmitTail S V Dev rx tx buf k"
  have "?tail w = Ok (s, Dev', w') \<or> (\<exists>m. ?tail (m, snd w) = Ok (s, Dev', w')) \<or> Dev' = Dev \<and> w' = w"
    using r b unfolding VirtioNetTransmit_def TransmitTail_def [symmetric] by (auto simp: Let_def split: option.splits if_splits)
  then show ?thesis using b(2) by (metis prod.collapse)
qed

lemma Transmit_res:
  assumes ok: "vio_ok V res" and n: "net_ok S res ocr" and h: "res (snd w) = dev_res S ocr Dev + R"
    and r: "VirtioNetTransmit S V This Dev hs k Buffer sa da pr w = Ok (s, Dev', w')"
  shows "res (snd w') = dev_res S ocr Dev' + R \<and> Snm Dev' = Snm Dev \<and> (Net Dev' = None \<longleftrightarrow> Net Dev = None)"
proof (cases "Dev' = Dev \<and> res (snd w') = res (snd w)")
  case True
  then show ?thesis using h by simp
next
  case False
  then obtain buf rx tx m where b: "Net Dev = Some (rx, tx)" and t: "TransmitTail S V Dev rx tx buf k (m, snd w) = Ok (s, Dev', w')"
    using Transmit_shape [OF r] by blast
  then obtain x tx1 w2 where m: "VirtioNetMapTxBuf S V tx buf k (m, snd w) = Ok (x, tx1, w2)"
    and tail: "(case x of Inl _ \<Rightarrow> Ok (EFI_DEVICE_ERROR, Dev\<lparr>Net := Some (rx, tx1)\<rparr>, w2) | Inr a \<Rightarrow>
      chk_bind (QueueTx tx1 a k (fst w2)) (\<lambda>(tx2, m3). case SetQueueNotify V VIRTIO_NET_Q_TX (m3, snd w2) of (Status, w4) \<Rightarrow> Ok (Status, Dev\<lparr>Net := Some (rx, tx2)\<rparr>, w4))) = Ok (s, Dev', w')"
    unfolding TransmitTail_def chk_bind_Ok_iff by auto
  have "res (snd (m, snd w)) = coll_res S ocr (TxBufCollection tx) + (rest_res rx tx + R)" using h dev_res_tx [OF b, of S ocr] by simp
  note M = MapTxBuf_res [OF ok n this m]
  have rest: "rest_res rx tx1 = rest_res rx tx" by (subst conjunct2 [OF M]) simp
  have h2: "res (snd w2) = coll_res S ocr (TxBufCollection tx1) + rest_res rx tx1 + R" using M rest by simp
  show ?thesis
  proof (cases x)
    case (Inl e)
    then show ?thesis using tail h2 b by (auto simp: dev_res_tx)
  next
    case (Inr a)
    obtain m3 where q: "QueueTx tx1 a k (fst w2) = Ok (tx1\<lparr>TxCurPending := TxCurPending tx1 + 1\<rparr>, m3)"
      using tail Inr by (cases "QueueTx tx1 a k (fst w2)") (auto simp: QueueTx_def Let_def split: if_splits)
    obtain t w4 where nt: "SetQueueNotify V VIRTIO_NET_Q_TX (m3, snd w2) = (t, w4)" by (metis surj_pair)
    have "res (snd w4) = res (snd w2)" using keeps_callD [OF vio_keeps(4) [OF ok] nt] by simp
    then show ?thesis using tail Inr q nt h2 b by (auto simp: dev_res_tx)
  qed
qed

lemma CollectTx_res:
  assumes ok: "vio_ok V res" and n: "net_ok S res ocr" and b: "Net Dev = Some (rx, tx)" and h: "res (snd w) = dev_res S ocr Dev + R"
    and r: "CollectTx S V tx u w = Ok (x, tx', w')"
  shows "res (snd w') = dev_res S ocr (Dev\<lparr>Net := Some (rx, tx')\<rparr>) + R"
proof (cases "TxLastUsed tx = u")
  case True
  then show ?thesis using r h b by (auto simp: CollectTx_def dev_res_tx)
next
  case False
  obtain p l ws a where c: "VirtioNetUnmapTxBuf S V (tx\<lparr>TxLastUsed := l, TxCurPending := p, TxFreeStackWords := ws\<rparr>) a w = (Inr (the x), tx', w')"
    using r False by (auto simp: CollectTx_def Let_def split: if_splits prod.splits sum.splits)
  have h0: "res (snd w) = coll_res S ocr (TxBufCollection (tx\<lparr>TxLastUsed := l, TxCurPending := p, TxFreeStackWords := ws\<rparr>)) + (rest_res rx tx + R)"
    using h dev_res_tx [OF b, of S ocr] by simp
  note M = UnmapTxBuf_res [OF ok n h0 c]
  have "rest_res rx tx' = rest_res rx tx" by (subst conjunct2 [OF M]) simp
  then show ?thesis using M by (simp add: dev_res_tx)
qed

lemma dev_res_mode: "dev_res S ocr (Dev\<lparr>Snm := mode\<rparr>) = dev_res S ocr Dev"
  by (simp add: dev_res_def)

lemma StatusTail_res:
  assumes ok: "vio_ok V res" and n: "net_ok S res ocr" and h: "res (snd w) = dev_res S ocr Dev + R"
    and r: "StatusTail S V irq tb (t, Dev, w) = Ok (s, i, x, Dev', w')"
  shows "res (snd w') = dev_res S ocr Dev' + R \<and> Snm Dev' = Snm Dev \<and> (Net Dev' = None \<longleftrightarrow> Net Dev = None)"
proof (cases "EFI_ERROR t \<or> Net Dev = None \<or> \<not> tb")
  case True
  then have "Dev' = Dev \<and> w' = w" using r by (cases "Net Dev") (auto simp: StatusTail_def Let_def split: if_splits)
  then show ?thesis using h by simp
next
  case False
  then obtain rx tx where b: "Net Dev = Some (rx, tx)" by auto
  obtain u y tx' where c: "CollectTx S V tx u w = Ok (y, tx', w')" "Dev' = Dev\<lparr>Net := Some (rx, tx')\<rparr>"
    using r b False by (auto simp: StatusTail_def Let_def chk_bind_Ok_iff split: if_splits)
  show ?thesis using CollectTx_res [OF ok n b h c(1)] c(2) b by simp
qed

lemma GetStatus_res:
  assumes ok: "vio_ok V res" and n: "net_ok S res ocr" and h: "res (snd w) = dev_res S ocr Dev + R"
    and r: "VirtioNetGetStatus S V This Dev irq tb w = Ok (s, i, x, Dev', w')"
  shows "res (snd w') = dev_res S ocr Dev' + R \<and> NetState (Snm Dev') = NetState (Snm Dev) \<and> (Net Dev' = None \<longleftrightarrow> Net Dev = None)"
proof -
  obtain s1 v w1 where rd: "ReadDevice V OFFSET_OF_VNET_LinkStatus 2 w = (s1, v, w1)" by (metis prod_cases3)
  have h1: "res (snd w1) = dev_res S ocr (Dev\<lparr>Snm := m\<rparr>) + R" "res (snd w1) = dev_res S ocr Dev + R" for m
    using keeps_queryD [OF vio_keeps(12) [OF ok] rd] h by (simp_all add: dev_res_mode)
  note T = StatusTail_res [OF ok n h] StatusTail_res [OF ok n h1(1)] StatusTail_res [OF ok n h1(2)]
  show ?thesis using r h unfolding GetStatus_unfold rd by (auto split: if_splits option.splits dest: T)
qed

lemma Receive_res:
  assumes ok: "vio_ok V res" and h: "res (snd w) = dev_res S ocr Dev + R" and r: "VirtioNetReceive V This Dev hs k Buffer sa da pr w = Ok (s, x, Dev', w')"
  shows "res (snd w') = dev_res S ocr Dev' + R \<and> Snm Dev' = Snm Dev \<and> (Net Dev' = None \<longleftrightarrow> Net Dev = None)"
proof (cases "Dev' = Dev \<and> w' = w")
  case True
  then show ?thesis using h by simp
next
  case False
  then obtain buf j where bj: "Buffer = Some buf" "k = Some j" using r by (cases Buffer; cases k) (auto simp: VirtioNetReceive_def)
  have ini: "This" "NotInitialized (NetState (Snm Dev)) = None" using r bj False by (auto simp: VirtioNetReceive_def split: if_splits option.splits)
  obtain rx tx where nt: "Net Dev = Some (rx, tx)" using r bj ini by (cases "Net Dev") (auto simp: VirtioNetReceive_def)
  note b = bj nt
  obtain y rx' where p: "ReceivePacket V (MediaHeaderSize (Snm Dev)) rx hs j buf sa da pr w = Ok (s, y, rx', w')" "Dev' = Dev\<lparr>Net := Some (rx', tx)\<rparr>"
    using r b ini by (auto simp: VirtioNetReceive_def chk_bind_Ok_iff)
  have rec: "RecycleDesc V rx d t w1 = (t', rx1, w2) \<Longrightarrow> res (snd w2) = res (snd w1) \<and> rx1 = rx\<lparr>RxLastUsed := RxLastUsed rx + 1\<rparr>" for d t w1 t' rx1 w2
    using keeps_callD [OF vio_keeps(4) [OF ok], of VIRTIO_NET_Q_RX "(PublishDesc (RxRing rx) d (fst w1), snd w1)"] by (auto simp: RecycleDesc_def split: prod.splits)
  have "res (snd w') = res (snd w) \<and> (rx' = rx \<or> rx' = rx\<lparr>RxLastUsed := RxLastUsed rx + 1\<rparr>)"
    using p(1) by (auto simp: ReceivePacket_def Let_def split: if_splits prod.splits dest!: rec)
  then show ?thesis using h b(3) p(2) by (auto simp: dev_res_def rx_res_def)
qed

lemma Shutdown_res:
  assumes ok: "vio_ok V res" and n: "net_ok S res ocr" and h: "res (snd w) = dev_res S ocr Dev + R"
    and wf: "NetState (Snm Dev) = EfiSimpleNetworkInitialized \<longleftrightarrow> Net Dev \<noteq> None" and r: "VirtioNetShutdown S V This Dev w = Ok (s, Dev', w')"
  shows "res (snd w') = dev_res S ocr Dev' + R \<and> (NetState (Snm Dev') = EfiSimpleNetworkInitialized \<longleftrightarrow> Net Dev' \<noteq> None)"
proof (cases "Dev' = Dev \<and> w' = w")
  case True
  then show ?thesis using h wf by simp
next
  case False
  then obtain rx tx where b: "Net Dev = Some (rx, tx)" using r by (auto simp: VirtioNetShutdown_def split: option.splits if_splits)
  let ?w1 = "VirtioNetShutdownRx V rx (snd (SetDeviceStatus V 0 w))"
  have "res (snd ?w1) = tx_res S ocr tx + (ring_res (TxRing tx) (TxRingMap tx) + ring_res (RxRing rx) (RxRingMap rx) + R)"
    using h b by (simp add: ShutdownRx_res [OF ok] keeps_snd [OF vio_keeps(2) [OF ok]] dev_res_def)
  note t = ShutdownTx_res [OF ok n this]
  show ?thesis using r b False t by (auto simp: VirtioNetShutdown_def Let_def UninitRing_res [OF ok] dev_res_def split: option.splits if_splits)
qed

section \<open>Runs\<close>

text \<open>One call of a member that changes the device or the world.\<close>

inductive snp_call ::
  "('d, 'map, 'c) net_services \<Rightarrow> ('d, 'map) VIRTIO_DEVICE_PROTOCOL \<Rightarrow> ('map, 'c) VNET_DEV \<times> 'd world \<Rightarrow> ('map, 'c) VNET_DEV \<times> 'd world \<Rightarrow> bool" for S V where
  start: "VirtioNetStart This Dev = (s, Dev') \<Longrightarrow> snp_call S V (Dev, w) (Dev', w)"
| stop: "VirtioNetStop This Dev = (s, Dev') \<Longrightarrow> snp_call S V (Dev, w) (Dev', w)"
| initialize: "VirtioNetInitialize S V This Dev er et w = Ok (s, Dev', w') \<Longrightarrow> snp_call S V (Dev, w) (Dev', w')"
| shutdown: "VirtioNetShutdown S V This Dev w = Ok (s, Dev', w') \<Longrightarrow> snp_call S V (Dev, w) (Dev', w')"
| transmit: "VirtioNetTransmit S V This Dev hs n Buffer sa da pr w = Ok (s, Dev', w') \<Longrightarrow> snp_call S V (Dev, w) (Dev', w')"
| status: "VirtioNetGetStatus S V This Dev irq tb w = Ok (s, i, x, Dev', w') \<Longrightarrow> snp_call S V (Dev, w) (Dev', w')"
| receive: "VirtioNetReceive V This Dev hsz k Buffer sa2 da2 pr2 w = Ok (s, y, Dev', w') \<Longrightarrow> snp_call S V (Dev, w) (Dev', w')"

definition snp_wf :: "('map, 'c) VNET_DEV \<Rightarrow> bool" where
  "snp_wf Dev \<longleftrightarrow> (NetState (Snm Dev) = EfiSimpleNetworkInitialized \<longleftrightarrow> Net Dev \<noteq> None)"

lemma snp_call_res:
  assumes ok: "vio_ok V res" and n: "net_ok S res ocr" and c: "snp_call S V (Dev, w) (Dev', w')"
    and wf: "snp_wf Dev" and h: "res (snd w) = dev_res S ocr Dev + R"
  shows "snp_wf Dev' \<and> res (snd w') = dev_res S ocr Dev' + R"
  using c
proof (cases rule: snp_call.cases)
  case (start This s)
  then show ?thesis using wf h by (auto simp: VirtioNetStart_def snp_wf_def dev_res_mode split: if_splits)
next
  case (stop This s)
  then show ?thesis using wf h by (auto simp: VirtioNetStop_def snp_wf_def dev_res_mode split: if_splits)
next
  case initialize
  then show ?thesis using Initialize_res [OF ok n wf [unfolded snp_wf_def] h] by (auto simp: snp_wf_def)
next
  case shutdown
  then show ?thesis using Shutdown_res [OF ok n h wf [unfolded snp_wf_def]] by (auto simp: snp_wf_def)
next
  case transmit
  then show ?thesis using Transmit_res [OF ok n h] wf by (auto simp: snp_wf_def)
next
  case status
  then show ?thesis using GetStatus_res [OF ok n h] wf by (auto simp: snp_wf_def)
next
  case receive
  then show ?thesis using Receive_res [OF ok h] wf by (auto simp: snp_wf_def)
qed

section \<open>Properties\<close>

text \<open>Property C6.  Through every sequence of calls of the network protocol members, failing ones included, the queues exist exactly in the
  initialised state, and what the driver holds is accounted for by its queues and pending packets: in the started and stopped
  states nothing is held that was not held before.\<close>

theorem VirtioNet_life_cycle:
  assumes ok: "vio_ok V res" and n: "net_ok S res ocr" and run: "(snp_call S V)\<^sup>*\<^sup>* (\<lparr>Snm = mode, Net = None\<rparr>, w) (Dev, w')"
    and st: "NetState mode = EfiSimpleNetworkStopped"
  shows "(NetState (Snm Dev) = EfiSimpleNetworkInitialized \<longleftrightarrow> Net Dev \<noteq> None) \<and> res (snd w') = dev_res S ocr Dev + res (snd w) \<and>
    (NetState (Snm Dev) \<noteq> EfiSimpleNetworkInitialized \<longrightarrow> res (snd w') = res (snd w))"
proof -
  have "snp_wf (fst p) \<and> res (snd (snd p)) = dev_res S ocr (fst p) + res (snd w)" if "(snp_call S V)\<^sup>*\<^sup>* (\<lparr>Snm = mode, Net = None\<rparr>, w) p" for p
    using that
  proof (induction rule: rtranclp_induct)
    case base
    then show ?case using st by (simp add: snp_wf_def dev_res_def)
  next
    case (step p q)
    then show ?case using snp_call_res [OF ok n, of "fst p" "snd p" "fst q" "snd q"] by simp
  qed
  from this [OF run] have "snp_wf Dev" "res (snd w') = dev_res S ocr Dev + res (snd w)" by simp_all
  then show ?thesis by (cases "Net Dev") (simp_all add: snp_wf_def dev_res_def)
qed

text \<open>A device without memory for the second queue.\<close>

definition lean_dev :: "(unit vio_res multiset, unit) VIRTIO_DEVICE_PROTOCOL" where
  "lean_dev = book_dev\<lparr>GetDeviceFeatures := (\<lambda>w. (EFI_SUCCESS, 0x100000020, w)),
     AllocateSharedPages := (\<lambda>n w. if snd w = {#} then (EFI_SUCCESS, 8192, fst w, {#SharedPages n 8192#}) else (EFI_OUT_OF_RESOURCES, 0, w))\<rparr>"

definition book_services :: "(unit vio_res multiset, unit, unit tx_entry list) net_services" where
  "book_services = \<lparr>net_AllocatePool = (\<lambda>n w. (Some n, fst w, add_mset (PoolBlock n) (snd w))), net_FreePool = (\<lambda>p w. (fst w, snd w - {#PoolBlock p#})),
     oc_Init = (\<lambda>w. (Some [], fst w, add_mset (PoolBlock 1) (snd w))), oc_Insert = (\<lambda>_ e c w. (EFI_SUCCESS, e # c, w)),
     oc_Find = (\<lambda>cmp c. find (\<lambda>e. cmp (snd e) = 0) c), oc_Entries = (\<lambda>c. c), oc_Delete = (\<lambda>e c w. (remove1 e c, w)),
     oc_Uninit = (\<lambda>c w. (fst w, snd w - {#PoolBlock 1#}))\<rparr>"

lemma lean_dev_ok: "vio_ok lean_dev (\<lambda>d. d)"
  using book_dev_ok by (auto simp: vio_ok_def lean_dev_def keeps_query_def obtains_res_def)

lemma book_services_ok: "net_ok book_services (\<lambda>d. d) (\<lambda>c. {#PoolBlock 1#})"
  by (auto simp: net_ok_def book_services_def find_Some_iff)

theorem VirtioNet_life_cycle_witness:
  "\<exists>Dev Dev' w'. VirtioNetStart True \<lparr>Snm = SnpMode [2, 0, 0, 0, 0, 1] False False, Net = None\<rparr> = (EFI_SUCCESS, Dev) \<and>
     VirtioNetInitialize book_services lean_dev True Dev 0 0 (\<lambda>_. 0, {#}) = Ok (EFI_OUT_OF_RESOURCES, Dev', w') \<and> Net Dev' = None \<and> snd w' = {#}"
proof -
  let ?Stopped = "\<lparr>Snm = SnpMode [2, 0, 0, 0, 0, 1] False False, Net = None :: (unit VNET_RX \<times> (unit, unit tx_entry list) VNET_TX) option\<rparr>"
  let ?Started = "?Stopped\<lparr>Snm := (Snm ?Stopped)\<lparr>NetState := EfiSimpleNetworkStarted\<rparr>\<rparr>"
  have a: "VirtioNetStart True ?Stopped = (EFI_SUCCESS, ?Started)" by (simp add: VirtioNetStart_def SnpMode_def)
  have "\<exists>w'. VirtioNetInitialize book_services lean_dev True ?Started 0 0 (\<lambda>_. 0, {#}) = Ok (EFI_OUT_OF_RESOURCES, ?Started, w')"
    by (simp add: VirtioNetInitialize_def SnpMode_def NegotiateNet_def setup_eval VIRTIO_NET_F_MAC_def VIRTIO_NET_F_STATUS_def VIRTIO_F_VERSION_1_def
        VIRTIO_F_IOMMU_PLATFORM_def InitTraffic_def VirtioNetInitRing_def lean_dev_def book_dev_def Let_def)
  then obtain w' where b: "VirtioNetInitialize book_services lean_dev True ?Started 0 0 (\<lambda>_. 0, {#}) = Ok (EFI_OUT_OF_RESOURCES, ?Started, w')" by blast
  have "(snp_call book_services lean_dev)\<^sup>*\<^sup>* (?Stopped, (\<lambda>_. 0), {#}) (?Started, w')"
    by (rule rtranclp.rtrancl_into_rtrancl, rule r_into_rtranclp, rule snp_call.start [OF a], rule snp_call.initialize [OF b])
  from VirtioNet_life_cycle [OF lean_dev_ok book_services_ok this] have "snd w' = {#}" by (simp add: SnpMode_def dev_res_def)
  then show ?thesis using a b by (intro exI [of _ ?Started] exI [of _ w']) simp
qed

end
