(* ===== verification/Spec2Isabelle.thy ===== *)
theory Spec2Isabelle
  imports VirtioBlkDisk VirtioRng VirtioScsiTarget SerializeVariables FwCfgParser Pic8259 AmlTerms AcpiPlatform PciCapParse PciCapDevice NorFlashHeader VirtioNetRxRun VirtioNetLife
begin

text \<open>
  Verification library for the firmware packages under \<open>src/QemuPkg\<close> and \<open>src/Platforms\<close>: UEFI
  firmware for virtual machines.  The modules are EDK2 libraries and drivers in C; they talk to the
  hypervisor through fw_cfg, virtqueues and emulated chips, and to each other through protocols.

  \<^bold>\<open>How the parts interact.\<close>  The fw_cfg libraries read named files from the hypervisor; the ACPI
  platform driver downloads the table loader script and its blobs through them and installs the
  tables it builds; the AML code parses such tables.  The virtio drivers submit requests over the
  ring library; the ring library calls the members of the virtio device protocol.  The variable
  serializer packs variables into a buffer that is kept in a file.

  \<^bold>\<open>How code is modelled.\<close>  One theory per component, in the order of its source file; a function of the
  source is a definition of the same name, a long function is split at its labels and loops.
  Machine integers are words where they may wrap; addresses and \<open>UINTN\<close> are natural numbers; memory
  is a function from addresses to bytes.  \<open>ASSERT\<close> is the result \<open>AssertFailed\<close>, an access outside a
  buffer is \<open>OutOfBounds\<close> (type \<open>checked\<close>); a loop that waits for a device is an option, \<open>None\<close> for a run
  that never returns (type \<open>run\<close>).  EFI status codes are values.  Code outside this tree (boot
  services, protocols of other drivers, ordered collections, port access) is an argument; what is
  relied on of it is a named predicate (\<open>vio_ok\<close>, \<open>binding_ok\<close>, \<open>completes\<close>, \<open>identity_mapped\<close>, \<dots>), and each
  theorem with such a hypothesis has a witness on a concrete instance.

  \<^bold>\<open>Theories.\<close>

  \<^item> \<^bold>\<open>Prelude\<close>: Shared types (\<open>u8\<close> \<dots> \<open>u64\<close>, byte-addressed memory), status codes, little-endian encoding,
  byte stores and loads, page arithmetic, the result types \<open>checked\<close> and \<open>run\<close> with their binds,
  and three locales that components interpret: a state machine with an invariant
  (\<open>invariant_machine\<close>), indexed storage (\<open>slot_store\<close>) and a record format (\<open>byte_codec\<close>).
  \<^item> \<^bold>\<open>VirtioRing\<close> (\<open>QemuPkg/Library/VirtioLib/VirtioLib.c\<close>): Layout and mapping of a split virtqueue, descriptor chains, \<open>VirtioFlush\<close> with its polling
  loop.  Shown: the layout fits the pages (\<open>VirtioRingInit\<close>), the chain is what the host walks also
  across the wrap of the 16-bit index, the flush is in lockstep with a conforming host and returns
  exactly if the host answers.
  \<^item> \<^bold>\<open>VirtioDriver\<close> (the parts that VirtioBlk.c, VirtioRng.c and VirtioScsi.c share): Device set-up, brackets around shared buffers, driver binding, and an account of what a
  driver holds (a multiset, since mapping tokens need not be unique).  The locale \<open>virtio_driver\<close>
  states what a driver's set-up and teardown promise; it is interpreted on each driver.
  \<^item> \<^bold>\<open>VirtioHost\<close> (the device side of the virtio specification): The host that walks the published chain; \<open>Flush_completes\<close> composes it with the driver side.
  \<^item> \<^bold>\<open>VirtioBlk\<close> (\<open>QemuPkg/VirtioBlkDxe/VirtioBlk.c\<close>): Checks, requests, block I/O members, set-up, binding.  Shown: requests after set-up are safe and
  inside the capacity, nothing leaks.
  \<^item> \<^bold>\<open>VirtioBlkDisk\<close> (\<open>VirtioBlk.c over VirtioLib.c\<close>): Reading and writing blocks through driver, ring and host are reading and writing of the disk.
  \<^item> \<^bold>\<open>VirtioRng\<close> (\<open>QemuPkg/VirtioRngDxe/VirtioRng.c\<close>): The entropy driver delivers consecutive bytes of the device's stream.
  \<^item> \<^bold>\<open>VirtioScsi\<close> (\<open>QemuPkg/VirtioScsiDxe/VirtioScsi.c\<close>): Pass-thru, enumeration, device paths, set-up, binding.  Shown: complete enumeration, safety, no
  leak, device path round trip.
  \<^item> \<^bold>\<open>VirtioScsiTarget\<close> (\<open>VirtioScsi.c over VirtioLib.c\<close>): A pass-thru call through the whole stack is a call of the SCSI target.
  \<^item> \<^bold>\<open>VirtioNet\<close> (\<open>QemuPkg/VirtioNetDxe\<close>): The network driver: members of the simple network protocol, set-up of both queues, events, binding.
  \<^item> \<^bold>\<open>VirtioQueue\<close> (the device side, many requests outstanding): A virtqueue with many requests outstanding and a host that fetches and returns them in any order at any
  time; used by the network driver.
  \<^item> \<^bold>\<open>VirtioNetTx, VirtioNetTxRun\<close> (\<open>SnpTransmit.c, SnpGetStatus.c, SnpInitialize.c\<close>): Transmission: the invariant of free stack, collection and ring, and runs of calls interleaved with the host; every
  accepted buffer is reported once and no assertion fails.
  \<^item> \<^bold>\<open>VirtioNetRx, VirtioNetRxRun\<close> (\<open>SnpReceive.c, SnpInitialize.c\<close>): Reception: the receive queue refines a queue of packets.
  \<^item> \<^bold>\<open>VirtioNetLife\<close> (the members of the simple network protocol): The state machine of the protocol with an account of what is held: nothing leaks on any path.
  \<^item> \<^bold>\<open>SerializeVariables\<close> (\<open>Platforms/QemuQ35Pkg/Library/SerializeVariablesLib\<close>): The variable store as a packed buffer, refined to a list of records: adding appends a record,
  the parser accepts exactly well-formed buffers, writing then reading is the identity.
  \<^item> \<^bold>\<open>FwCfg\<close> (\<open>QemuPkg/Library/QemuFwCfgLib (SEC, PEI, DXE)\<close>): Port and DMA transfers, selection, the file directory.  Shown: a read delivers the item's bytes
  by DMA as by the port, and a file search finds the first entry of the name.
  \<^item> \<^bold>\<open>FwCfgMmio\<close> (\<open>QemuPkg/Library/QemuFwCfgLib/QemuFwCfgLibMmio.c\<close>): The same library over memory-mapped registers, with its chunked reads.
  \<^item> \<^bold>\<open>FwCfgParser\<close> (\<open>Platforms/QemuQ35Pkg/Library/QemuFwCfgSimpleParserLib\<close>): Numbers and Booleans in fw_cfg files.
  \<^item> \<^bold>\<open>Pic8259\<close> (\<open>Platforms/QemuQ35Pkg/8259InterruptControllerDxe\<close>): The controller pair as a state machine: masks, vectors, initialization words, mode switches; the driver's
  vectors agree with the hardware exactly for aligned bases.
  \<^item> \<^bold>\<open>AmlName\<close> (\<open>QemuPkg/AcpiSdtDxe/AmlString.c\<close>): AML name strings: sizes, conversion from ASL, printing.
  \<^item> \<^bold>\<open>Aml\<close> (\<open>QemuPkg/AcpiSdtDxe/Aml.c, AmlOption.c, AmlChild.c\<close>): Opcode table, package lengths, object sizes, options and children.
  \<^item> \<^bold>\<open>AmlTerms\<close> (\<open>Aml.c, AmlOption.c, AmlChild.c\<close>): A grammar of terms as specification: encoding then parsing returns the term.
  \<^item> \<^bold>\<open>PciDecoding\<close> (\<open>QemuPkg/AcpiPlatformDxe/PciDecoding.c\<close>): Enabling I/O and memory decoding and restoring it.
  \<^item> \<^bold>\<open>AcpiLoader\<close> (\<open>QemuPkg/AcpiPlatformDxe/QemuFwCfgAcpi.c\<close>): The table loader script: allocation, pointers, checksums, both passes.
  \<^item> \<^bold>\<open>AcpiResources\<close> (\<open>QemuFwCfgAcpi.c\<close>): Every path of the loader, errors included, gives back what it does not install.
  \<^item> \<^bold>\<open>AcpiPlatform\<close> (\<open>CloudHvAcpi.c, AcpiPlatform.c, EntryPoint.c\<close>): Choice of the table source and the Cloud Hypervisor tables, installed as the XSDT lists them.
  \<^item> \<^bold>\<open>PciCap\<close> (\<open>QemuPkg/Library/BasePciCapLib/BasePciCapLib.c\<close>): Parsing of the two capability lists of a PCI device into an ordered collection, lookup, bounded access.
  \<^item> \<^bold>\<open>PciCapList, PciCapParse\<close> (\<open>BasePciCapLib.c\<close>): The laws of the collection, the pool and the device as hypotheses; the invariant of a partial parse.
  Shown: parsing ends for every configuration space (the measure is the number of free header
  offsets), nothing leaks, and lookups answer as the linked lists say.
  \<^item> \<^bold>\<open>PciCapDevice\<close> (\<open>BasePciCapPciSegmentLib.c, UefiPciCapPciIoLib.c\<close>): The two back ends; the locale \<open>pci_cap_device\<close> is what the parser relies on and is interpreted on both,
  and a transfer split into aligned accesses is one plain transfer.
  \<^item> \<^bold>\<open>NorFlash, NorFlashFvb\<close> (\<open>Platforms/QemuArmVirtPkg/VirtNorFlashStandaloneMm\<close>): The command sequences of a P30 NOR flash, the rewriting of blocks through the shadow buffer,
  the firmware volume block protocol, volume headers and set-up.
  \<^item> \<^bold>\<open>NorFlashChip\<close> (the Intel P30 command set): The chip as a state machine with delays, locks and faults; the locale \<open>nor_chip\<close> states what each command
  sequence does over it and is interpreted on the chip itself (\<open>p30_env\<close>).
  \<^item> \<^bold>\<open>NorFlashWrite, NorFlashHeader\<close> (\<open>VirtNorFlash.c, VirtNorFlashFvb.c over the chip\<close>): What every write request does, refused ones included: it stores exactly its bytes, except for the
  short write across a program buffer boundary, which programs stale bytes; an erase sets exactly
  its blocks, a read returns what was written, initialisation leaves a valid volume.

  \<^bold>\<open>Bounds and termination.\<close>  Loops over data are total functions with a measure; polling loops are
  partial functions into option, and their theorems say when they return.  The host of a
  virtqueue walks a chain with the queue size as fuel: a chain the driver appends is no longer
  than the queue.  The walk over SCSI units takes fuel beyond the number of units, after which it
  has ended.  Sizes of requests are bounded by the checks of the code itself (1 GB for block and
  SCSI transfers).

  \<^bold>\<open>Not modelled.\<close>

  \<^item> Flash on the Q35 platform: the firmware volume block services.
  \<^item> Platform start-up: Sec, PlatformPei, memory detection, SMM set-up: register programming and
    hand-off blocks, with assembly.
  \<^item> AcpiSdtDxe above the parser: the node tree and the protocol entry points.
  \<^item> PCI: configuration access, host bridge and hot-plug libraries.
  \<^item> Graphics, SATA, Super I/O, TPM and SMBIOS drivers, boot manager and policy libraries: protocol
    glue, tables and device register sequences.
  \<^item> Build scripts and plugins: not firmware.
\<close>

end
